(* ===== verification/Prelude.thy ===== *)
theory Prelude
  imports Main "HOL-Library.Word" "HOL-Library.Monad_Syntax"
begin

text \<open>
  The prelude: the machine-integer types of the Go code, the generic lemmas on
  words, lists and options the components share, and the fact collections they
  are gathered in.

  Conventions of the whole development. A Go \<open>uint8/16/32/64\<close> is a word of that
  width; a Go \<open>int\<close> whose values are lengths, indices or counters far below
  \<open>2 ^ 63\<close> is an \<open>int\<close> or a \<open>nat\<close>. A function that may panic returns an
  \<open>option\<close>, \<open>None\<close> being the panic; a function with an error result returns a
  sum whose left part is the error.
\<close>

unbundle bit_operations_syntax

type_synonym u8 = "8 word"
type_synonym u16 = "16 word"
type_synonym u32 = "32 word"
type_synonym u64 = "64 word"

named_theorems layout
  \<open>definitions of bit layouts, unfolded together\<close>

section \<open>Words\<close>

lemma unat_u32_lt [simp]: "unat (w :: u32) < 4294967296"
  using unsigned_less [of w] by simp

lemma unat_u64_lt [simp]: "unat (w :: u64) < 18446744073709551616"
  using unsigned_less [of w] by simp

lemma unat_ucast_u32_u64 [simp]: "unat (ucast (w :: u32) :: u64) = unat w"
proof -
  have "unat w < 2 ^ 64" by (rule less_trans [OF unat_u32_lt]) simp
  then show ?thesis by (simp add: unsigned_ucast_eq take_bit_nat_eq_self)
qed

lemma ucast_u64_u32_back [simp]: "(ucast (ucast (w :: u32) :: u64) :: u32) = w"
  by (rule ucast_down_ucast_id) (simp add: is_down)

lemma unat_ucast_down: "unat (ucast (w :: u64) :: u32) = unat w mod 4294967296"
  by (simp add: unsigned_ucast_eq take_bit_eq_mod)

lemma unat_drop_bit_div: "unat (drop_bit n (w :: 'a::len word)) = unat w div 2 ^ n"
  by (simp only: unat_drop_bit_eq) (simp only: drop_bit_eq_div)

lemma unat_and_mask: "unat (w AND mask n :: 'a::len word) = unat w mod 2 ^ n"
  by (simp only: take_bit_eq_mask [symmetric] unsigned_take_bit_eq) (simp only: take_bit_eq_mod)

lemma unat_push_bit_mult:
  "unat w * 2 ^ n < 2 ^ LENGTH('a) \<Longrightarrow> unat (push_bit n (w :: 'a::len word)) = unat w * 2 ^ n"
  by (simp only: unsigned_push_bit_eq) (simp only: push_bit_eq_mult take_bit_nat_eq_self)

lemma unat_word_of_nat_lt:
  "n < 2 ^ LENGTH('a) \<Longrightarrow> unat (word_of_nat n :: 'a::len word) = n"
  by (simp add: unsigned_of_nat take_bit_nat_eq_self)

lemma unat_add_le_max:
  "unat a + unat b < 2 ^ LENGTH('a) \<Longrightarrow> unat (a + b :: 'a::len word) = unat a + unat b"
  by (simp add: unat_word_ariths)

section \<open>Lists\<close>

lemma nth_list_update_if:
  "i < length xs \<Longrightarrow> xs[i := x] ! j = (if i = j then x else xs ! j)"
  by (simp add: nth_list_update)

lemma replicate_in_bounds: "i < n \<Longrightarrow> replicate n x ! i = x"
  by simp

text \<open>The index expression \<open>xs[i]\<close> of a Go slice, which panics out of range.\<close>

definition nth_opt :: "'a list \<Rightarrow> nat \<Rightarrow> 'a option" where
  "nth_opt xs i = (if i < length xs then Some (xs ! i) else None)"

lemma nth_opt_Some [simp]: "nth_opt xs i = Some x \<longleftrightarrow> i < length xs \<and> xs ! i = x"
  by (auto simp: nth_opt_def)

lemma nth_opt_in [simp]: "i < length xs \<Longrightarrow> nth_opt xs i = Some (xs ! i)"
  by simp

section \<open>Options\<close>

text \<open>A loop over the elements of a list whose body may panic.\<close>

fun ofold :: "('s \<Rightarrow> 'x \<Rightarrow> 's option) \<Rightarrow> 's \<Rightarrow> 'x list \<Rightarrow> 's option" where
  "ofold f s [] = Some s"
| "ofold f s (x # xs) = Option.bind (f s x) (\<lambda>s. ofold f s xs)"

lemma ofold_append: "ofold f s (xs @ ys) = Option.bind (ofold f s xs) (\<lambda>s. ofold f s ys)"
  by (induction xs arbitrary: s) (auto split: Option.bind_split)

lemma ofold_cong [fundef_cong]:
  "s = s' \<Longrightarrow> xs = xs' \<Longrightarrow> (\<And>s x. x \<in> set xs' \<Longrightarrow> f s x = g s x) \<Longrightarrow> ofold f s xs = ofold g s' xs'"
  by (induction xs arbitrary: s s' xs') (auto split: Option.bind_split)

lemma ofold_map: "ofold f s (map g xs) = ofold (\<lambda>s x. f s (g x)) s xs"
  by (induction xs arbitrary: s) (auto split: Option.bind_split)

text \<open>An invariant of the loop body is an invariant of the loop.\<close>

lemma ofold_inv:
  assumes "I s" and "\<And>s x. x \<in> set xs \<Longrightarrow> I s \<Longrightarrow> \<exists>t. f s x = Some t \<and> I t"
  shows "\<exists>t. ofold f s xs = Some t \<and> I t"
  using assms
proof (induction xs arbitrary: s)
  case (Cons x xs)
  from Cons.prems(2) [of x s] Cons.prems(1) obtain t where t: "f s x = Some t" "I t" by auto
  with Cons.IH [of t] Cons.prems(2) show ?case by auto
qed auto

text \<open>The indices \<open>0 .. n-1\<close> of a counting loop over a machine integer.\<close>

definition upto_word :: "'a::len word \<Rightarrow> 'a word list" where
  "upto_word n = map word_of_nat [0..<unat n]"

lemma set_upto_word: "set (upto_word n) = {i. i < n}"
proof -
  have "i \<in> word_of_nat ` {0..<unat n}" if "i < n" for i
    using that by (intro image_eqI [of _ _ "unat i"]) (simp_all add: word_less_nat_alt)
  moreover have "word_of_nat k < n" if "k < unat n" for k
    using less_trans [OF that unsigned_less [of n]] that by (simp only: word_less_nat_alt unat_word_of_nat_lt)
  ultimately show ?thesis by (auto simp: upto_word_def)
qed

lemma length_upto_word [simp]: "length (upto_word n) = unat n"
  by (simp add: upto_word_def)

lemma bind_Some_iff: "(Option.bind x f = Some y) \<longleftrightarrow> (\<exists>a. x = Some a \<and> f a = Some y)"
  by (cases x) auto

lemma bind_None_iff: "(Option.bind x f = None) \<longleftrightarrow> (x = None \<or> (\<exists>a. x = Some a \<and> f a = None))"
  by (cases x) auto

end
