(* ===== verification/Bytecode.thy ===== *)
theory Bytecode
  imports Prelude
begin

text \<open>
  \<open>internal/bytecode\<close>: the 32-bit instruction word (\<open>instruction.go\<close>), the opcode
  table (\<open>opcode.go\<close>), the floating-point byte of NEWTABLE (\<open>floating_byte.go\<close>) and
  the display form of chunk names (\<open>chunkid.go\<close>). A Go \<open>int\<close> operand is an \<open>int\<close>,
  truncated to the field by the conversion \<open>uint32\<close> and the field mask.
\<close>

type_synonym instruction = u32
type_synonym opcode = u8

section \<open>Instruction encoding\<close>

definition OpBits :: nat where "OpBits = 6"
definition ABits :: nat where "ABits = 8"
definition BCBits :: nat where "BCBits = 9"
definition BxBits :: nat where "BxBits = 18"

definition OpMask :: u32 where "OpMask = push_bit OpBits 1 - 1"
definition AMask :: u32 where "AMask = push_bit ABits 1 - 1"
definition BCMask :: u32 where "BCMask = push_bit BCBits 1 - 1"
definition BxMask :: u32 where "BxMask = push_bit BxBits 1 - 1"

definition AShift :: nat where "AShift = OpBits"
definition CShift :: nat where "CShift = AShift + ABits"
definition BShift :: nat where "BShift = CShift + BCBits"
definition BxShift :: nat where "BxShift = AShift + ABits"

definition MaxK :: int where "MaxK = 256"
definition MaxBx :: int where "MaxBx = uint BxMask"
definition SBxBias :: int where "SBxBias = uint BxMask div 2"
definition MaxStack :: int where "MaxStack = 250"
definition NoRegister :: int where "NoRegister = uint AMask"

definition IsK :: "int \<Rightarrow> bool" where "IsK rk \<longleftrightarrow> MaxK \<le> rk"
definition KIdx :: "int \<Rightarrow> int" where "KIdx rk = rk - MaxK"

definition Op_of :: "instruction \<Rightarrow> opcode" where
  "Op_of i = ucast (i AND OpMask)"

definition A_of :: "instruction \<Rightarrow> int" where
  "A_of i = uint (drop_bit AShift i AND AMask)"

definition B_of :: "instruction \<Rightarrow> int" where
  "B_of i = uint (drop_bit BShift i AND BCMask)"

definition C_of :: "instruction \<Rightarrow> int" where
  "C_of i = uint (drop_bit CShift i AND BCMask)"

definition Bx_of :: "instruction \<Rightarrow> int" where
  "Bx_of i = uint (drop_bit BxShift i AND BxMask)"

definition SBx_of :: "instruction \<Rightarrow> int" where
  "SBx_of i = Bx_of i - SBxBias"

definition EncodeABC :: "opcode \<Rightarrow> int \<Rightarrow> int \<Rightarrow> int \<Rightarrow> instruction" where
  "EncodeABC op a b c =
     (ucast op AND OpMask) OR push_bit AShift (word_of_int a AND AMask) OR
     push_bit CShift (word_of_int c AND BCMask) OR push_bit BShift (word_of_int b AND BCMask)"

definition EncodeABx :: "opcode \<Rightarrow> int \<Rightarrow> int \<Rightarrow> instruction" where
  "EncodeABx op a bx =
     (ucast op AND OpMask) OR push_bit AShift (word_of_int a AND AMask) OR
     push_bit BxShift (word_of_int bx AND BxMask)"

definition EncodeAsBx :: "opcode \<Rightarrow> int \<Rightarrow> int \<Rightarrow> instruction" where
  "EncodeAsBx op a sbx = EncodeABx op a (sbx + SBxBias)"

definition SetA :: "instruction \<Rightarrow> int \<Rightarrow> instruction" where
  "SetA ins a = (ins AND NOT (push_bit AShift AMask)) OR push_bit AShift (word_of_int a AND AMask)"

definition SetSBx :: "instruction \<Rightarrow> int \<Rightarrow> instruction" where
  "SetSBx ins sbx = (ins AND NOT (push_bit BxShift BxMask)) OR
     push_bit BxShift (word_of_int (sbx + SBxBias) AND BxMask)"

definition SetB :: "instruction \<Rightarrow> int \<Rightarrow> instruction" where
  "SetB ins b = (ins AND NOT (push_bit BShift BCMask)) OR push_bit BShift (word_of_int b AND BCMask)"

definition SetC :: "instruction \<Rightarrow> int \<Rightarrow> instruction" where
  "SetC ins c = (ins AND NOT (push_bit CShift BCMask)) OR push_bit CShift (word_of_int c AND BCMask)"

section \<open>Opcodes\<close>

definition OP_MOVE :: opcode where "OP_MOVE = 0"
definition OP_LOADK :: opcode where "OP_LOADK = 1"
definition OP_LOADBOOL :: opcode where "OP_LOADBOOL = 2"
definition OP_LOADNIL :: opcode where "OP_LOADNIL = 3"
definition OP_GETUPVAL :: opcode where "OP_GETUPVAL = 4"
definition OP_SETUPVAL :: opcode where "OP_SETUPVAL = 5"
definition OP_GETGLOBAL :: opcode where "OP_GETGLOBAL = 6"
definition OP_SETGLOBAL :: opcode where "OP_SETGLOBAL = 7"
definition OP_GETTABLE :: opcode where "OP_GETTABLE = 8"
definition OP_SETTABLE :: opcode where "OP_SETTABLE = 9"
definition OP_NEWTABLE :: opcode where "OP_NEWTABLE = 10"
definition OP_SELF :: opcode where "OP_SELF = 11"
definition OP_ADD :: opcode where "OP_ADD = 12"
definition OP_SUB :: opcode where "OP_SUB = 13"
definition OP_MUL :: opcode where "OP_MUL = 14"
definition OP_DIV :: opcode where "OP_DIV = 15"
definition OP_MOD :: opcode where "OP_MOD = 16"
definition OP_POW :: opcode where "OP_POW = 17"
definition OP_UNM :: opcode where "OP_UNM = 18"
definition OP_NOT :: opcode where "OP_NOT = 19"
definition OP_LEN :: opcode where "OP_LEN = 20"
definition OP_CONCAT :: opcode where "OP_CONCAT = 21"
definition OP_JMP :: opcode where "OP_JMP = 22"
definition OP_EQ :: opcode where "OP_EQ = 23"
definition OP_LT :: opcode where "OP_LT = 24"
definition OP_LE :: opcode where "OP_LE = 25"
definition OP_TEST :: opcode where "OP_TEST = 26"
definition OP_TESTSET :: opcode where "OP_TESTSET = 27"
definition OP_CALL :: opcode where "OP_CALL = 28"
definition OP_TAILCALL :: opcode where "OP_TAILCALL = 29"
definition OP_RETURN :: opcode where "OP_RETURN = 30"
definition OP_FORLOOP :: opcode where "OP_FORLOOP = 31"
definition OP_FORPREP :: opcode where "OP_FORPREP = 32"
definition OP_TFORLOOP :: opcode where "OP_TFORLOOP = 33"
definition OP_SETLIST :: opcode where "OP_SETLIST = 34"
definition OP_CLOSE :: opcode where "OP_CLOSE = 35"
definition OP_CLOSURE :: opcode where "OP_CLOSURE = 36"
definition OP_VARARG :: opcode where "OP_VARARG = 37"

lemmas opcode_defs = OP_MOVE_def OP_LOADK_def OP_LOADBOOL_def OP_LOADNIL_def OP_GETUPVAL_def
  OP_SETUPVAL_def OP_GETGLOBAL_def OP_SETGLOBAL_def OP_GETTABLE_def OP_SETTABLE_def
  OP_NEWTABLE_def OP_SELF_def OP_ADD_def OP_SUB_def OP_MUL_def OP_DIV_def OP_MOD_def
  OP_POW_def OP_UNM_def OP_NOT_def OP_LEN_def OP_CONCAT_def OP_JMP_def OP_EQ_def OP_LT_def
  OP_LE_def OP_TEST_def OP_TESTSET_def OP_CALL_def OP_TAILCALL_def OP_RETURN_def
  OP_FORLOOP_def OP_FORPREP_def OP_TFORLOOP_def OP_SETLIST_def OP_CLOSE_def OP_CLOSURE_def
  OP_VARARG_def

definition numOps :: int where "numOps = uint OP_VARARG + 1"

definition opcodeNames :: "string list" where
  "opcodeNames = [
    ''MOVE'', ''LOADK'', ''LOADBOOL'', ''LOADNIL'', ''GETUPVAL'', ''SETUPVAL'',
    ''GETGLOBAL'', ''SETGLOBAL'', ''GETTABLE'', ''SETTABLE'', ''NEWTABLE'', ''SELF'',
    ''ADD'', ''SUB'', ''MUL'', ''DIV'', ''MOD'', ''POW'',
    ''UNM'', ''NOT'', ''LEN'', ''CONCAT'',
    ''JMP'', ''EQ'', ''LT'', ''LE'', ''TEST'', ''TESTSET'',
    ''CALL'', ''TAILCALL'', ''RETURN'',
    ''FORLOOP'', ''FORPREP'', ''TFORLOOP'', ''SETLIST'',
    ''CLOSE'', ''CLOSURE'', ''VARARG'']"

definition OpCode_String :: "opcode \<Rightarrow> string" where
  "OpCode_String op = (if numOps \<le> uint op then ''INVALID'' else opcodeNames ! unat op)"

datatype format = FmtABC | FmtABx | FmtAsBx

definition FormatOf :: "opcode \<Rightarrow> format" where
  "FormatOf op =
     (if op \<in> {OP_LOADK, OP_GETGLOBAL, OP_SETGLOBAL, OP_CLOSURE} then FmtABx
      else if op \<in> {OP_JMP, OP_FORLOOP, OP_FORPREP} then FmtAsBx
      else FmtABC)"

section \<open>The floating-point byte\<close>

text \<open>The two loops of \<open>Int2Fb\<close>; \<open>x\<close> and \<open>e\<close> are \<open>uint32\<close>, so the addition wraps.\<close>

function int2fb_fast :: "u32 \<Rightarrow> u32 \<Rightarrow> u32 \<times> u32" where
  "int2fb_fast x e =
     (if push_bit 4 8 \<le> x then int2fb_fast (drop_bit 4 (x + 0xF)) (e + 4) else (x, e))"
  by pat_completeness auto
termination
  by (relation "measure (\<lambda>(x, e). unat x)")
    (auto simp: unat_drop_bit_div word_le_nat_alt unat_word_ariths)

function int2fb_slow :: "u32 \<Rightarrow> u32 \<Rightarrow> u32 \<times> u32" where
  "int2fb_slow x e =
     (if 16 \<le> x then int2fb_slow (drop_bit 1 (x + 1)) (e + 1) else (x, e))"
  by pat_completeness auto
termination
  by (relation "measure (\<lambda>(x, e). unat x)")
    (auto simp: unat_drop_bit_div word_le_nat_alt unat_word_ariths)

declare int2fb_fast.simps [simp del] int2fb_slow.simps [simp del]

definition Int2Fb :: "u32 \<Rightarrow> u32" where
  "Int2Fb x =
     (if x < 8 then x
      else case int2fb_fast x 0 of (x, e) \<Rightarrow>
           case int2fb_slow x e of (x, e) \<Rightarrow> push_bit 3 (e + 1) OR (x - 8))"

definition Fb2Int :: "u32 \<Rightarrow> u32" where
  "Fb2Int x =
     (let e = drop_bit 3 x AND 31 in
      if e = 0 then x else push_bit (unat (e - 1)) ((x AND 7) + 8))"

section \<open>Chunk names\<close>

definition IDSize :: int where "IDSize = 60"
definition MaxSrc :: int where "MaxSrc = 80"

text \<open>The index of the first newline, the length when there is none.\<close>

fun first_line_len :: "string \<Rightarrow> nat" where
  "first_line_len [] = 0"
| "first_line_len (c # cs) =
     (if c = CHR 0x0A \<or> c = CHR 0x0D then 0 else Suc (first_line_len cs))"

text \<open>Slicing with a negative bound panics, so the result is an option.\<close>

definition slice_to :: "string \<Rightarrow> int \<Rightarrow> string option" where
  "slice_to s n = (if 0 \<le> n \<and> n \<le> int (length s) then Some (take (nat n) s) else None)"

definition slice_from :: "string \<Rightarrow> int \<Rightarrow> string option" where
  "slice_from s n = (if 0 \<le> n \<and> n \<le> int (length s) then Some (drop (nat n) s) else None)"

definition ChunkIDN :: "string \<Rightarrow> int \<Rightarrow> string option" where
  "ChunkIDN source bufflen =
     (case source of
        [] \<Rightarrow> Some (''[string '' @ [CHR 0x22, CHR 0x22] @ '']'')
      | c # s \<Rightarrow>
          if c = CHR ''='' then
            (if bufflen - 1 < int (length s) then slice_to s (bufflen - 1) else Some s)
          else if c = CHR ''@'' then
            (let keep = bufflen - int (length '' '...' '') - 1 in
             if keep < int (length s)
             then map_option (\<lambda>t. ''...'' @ t) (slice_from s (int (length s) - keep))
             else Some s)
          else
            (let keep = bufflen - int (length ('' [string '' @ [CHR 0x22] @ ''...'' @ [CHR 0x22] @ ''] '')) - 1;
                 n = min (int (first_line_len source)) keep
             in if n < int (length source)
                then map_option (\<lambda>t. ''[string '' @ [CHR 0x22] @ t @ ''...'' @ [CHR 0x22] @ '']'')
                       (slice_to source n)
                else Some (''[string '' @ [CHR 0x22] @ source @ [CHR 0x22] @ '']'')))"

definition ChunkID :: "string \<Rightarrow> string option" where
  "ChunkID source = ChunkIDN source IDSize"

section \<open>Field lemmas\<close>

lemmas shift_defs = OpBits_def ABits_def BCBits_def BxBits_def AShift_def CShift_def
  BShift_def BxShift_def

lemma field_masks:
  "OpMask = mask 6" "AMask = mask 8" "BCMask = mask 9" "BxMask = mask 18"
  by (simp_all add: OpMask_def AMask_def BCMask_def BxMask_def shift_defs mask_eq_exp_minus_1)

lemma SBxBias_val: "SBxBias = 131071"
  by (simp add: SBxBias_def field_masks mask_eq_exp_minus_1)

lemma uint_and_mask: "uint (word_of_int x AND mask n :: u32) = x mod 2 ^ n" if "n \<le> 32"
proof -
  have "uint (word_of_int x AND mask n :: u32) = take_bit n (uint (word_of_int x :: u32))"
    by (simp only: take_bit_eq_mask [symmetric] unsigned_take_bit_eq)
  also have "\<dots> = take_bit n (take_bit 32 x)"
    by (simp add: uint_word_of_int_eq)
  also have "\<dots> = take_bit n x"
    using that by (simp only: take_bit_take_bit min.absorb1)
  finally show ?thesis by (simp only: take_bit_eq_mod)
qed

lemma uint_masked_id:
  "0 \<le> x \<Longrightarrow> x < 2 ^ n \<Longrightarrow> n \<le> 32 \<Longrightarrow> uint (word_of_int x AND mask n :: u32) = x"
  by (simp add: uint_and_mask)

text \<open>Each field read out of a word built from the others.\<close>

lemma encode_fields:
  "Op_of (EncodeABC op a b c) = op AND mask 6"
  "A_of (EncodeABC op a b c) = uint (word_of_int a AND mask 8 :: u32)"
  "B_of (EncodeABC op a b c) = uint (word_of_int b AND mask 9 :: u32)"
  "C_of (EncodeABC op a b c) = uint (word_of_int c AND mask 9 :: u32)"
  "Op_of (EncodeABx op a bx) = op AND mask 6"
  "A_of (EncodeABx op a bx) = uint (word_of_int a AND mask 8 :: u32)"
  "Bx_of (EncodeABx op a bx) = uint (word_of_int bx AND mask 18 :: u32)"
  unfolding Op_of_def A_of_def B_of_def C_of_def Bx_of_def EncodeABC_def EncodeABx_def
    field_masks shift_defs
  by ((rule bit_word_eqI | (rule arg_cong [of _ _ uint], rule bit_word_eqI)),
      (auto simp: bit_simps dest: bit_imp_le_length)[1])+

lemma op_field: "op < 64 \<Longrightarrow> op AND mask 6 = op" for op :: opcode
  by (rule less_mask_eq) simp

lemma set_fields:
  "Op_of (SetA i x) = Op_of i" "A_of (SetA i x) = uint (word_of_int x AND mask 8 :: u32)"
  "B_of (SetA i x) = B_of i" "C_of (SetA i x) = C_of i" "Bx_of (SetA i x) = Bx_of i"
  "Op_of (SetB i x) = Op_of i" "A_of (SetB i x) = A_of i"
  "B_of (SetB i x) = uint (word_of_int x AND mask 9 :: u32)" "C_of (SetB i x) = C_of i"
  "Op_of (SetC i x) = Op_of i" "A_of (SetC i x) = A_of i"
  "B_of (SetC i x) = B_of i" "C_of (SetC i x) = uint (word_of_int x AND mask 9 :: u32)"
  "Op_of (SetSBx i x) = Op_of i" "A_of (SetSBx i x) = A_of i"
  "Bx_of (SetSBx i x) = uint (word_of_int (x + SBxBias) AND mask 18 :: u32)"
  unfolding Op_of_def A_of_def B_of_def C_of_def Bx_of_def SetA_def SetB_def SetC_def SetSBx_def
    field_masks shift_defs
  by ((rule bit_word_eqI | (rule arg_cong [of _ _ uint], rule bit_word_eqI)),
      (auto simp: bit_simps dest: bit_imp_le_length)[1])+

lemma word_of_uint_field: "word_of_int (uint w) = w" for w :: u32
  by simp

lemma reencode: "EncodeABC (Op_of i) (A_of i) (B_of i) (C_of i) = i"
  unfolding EncodeABC_def Op_of_def A_of_def B_of_def C_of_def field_masks shift_defs
    word_of_uint_field
  by (rule bit_word_eqI, auto simp: bit_simps dest: bit_imp_le_length)
    (rule ccontr, simp add: not_less)+

lemma uint_biased:
  "- 131071 \<le> d \<Longrightarrow> d \<le> 131072 \<Longrightarrow>
    uint (word_of_int (d + SBxBias) AND mask 18 :: u32) = d + SBxBias"
  by (rule uint_masked_id) (simp_all add: SBxBias_val)

text \<open>Decoding inverts encoding in the ABC format: for an opcode below 64 and operands that
  fit their fields, every field is read back; and every 32-bit word is the encoding of its own
  four fields, so the encoding is a bijection between words and field tuples.\<close>

lemma abc_roundtrip:
  assumes "op < 64" and "0 \<le> a" "a < 256" and "0 \<le> b" "b < 512" and "0 \<le> c" "c < 512"
  shows "Op_of (EncodeABC op a b c) = op \<and> A_of (EncodeABC op a b c) = a \<and>
    B_of (EncodeABC op a b c) = b \<and> C_of (EncodeABC op a b c) = c \<and>
    EncodeABC (Op_of i) (A_of i) (B_of i) (C_of i) = i"
  using assms by (simp add: encode_fields op_field uint_masked_id reencode)

lemma abc_roundtrip_witness:
  "B_of (EncodeABC OP_ADD 3 256 511) = 256 \<and> C_of (EncodeABC OP_ADD 3 256 511) = 511"
  using abc_roundtrip [of OP_ADD 3 256 511] by (simp add: opcode_defs)

text \<open>A signed jump offset survives its biased 18-bit field over the whole range
  \<open>-131071 .. 131072\<close>, both when the instruction is built and when a placeholder is patched with
  \<open>SetSBx\<close>, and patching leaves the opcode and the A field alone.\<close>

lemma asbx_roundtrip:
  assumes "- 131071 \<le> d" and "d \<le> 131072"
  shows "SBx_of (EncodeAsBx op a d) = d \<and> SBx_of (SetSBx i d) = d \<and>
    Op_of (SetSBx i d) = Op_of i \<and> A_of (SetSBx i d) = A_of i"
  using assms
  by (simp only: SBx_of_def EncodeAsBx_def encode_fields set_fields uint_biased) simp

text \<open>The field setters used for back-patching change the field they name and nothing else.\<close>

lemma setters_frame:
  assumes "0 \<le> x" and "x < 256"
  shows "A_of (SetA i x) = x \<and> Op_of (SetA i x) = Op_of i \<and> Bx_of (SetA i x) = Bx_of i \<and>
    B_of (SetB i x) = x \<and> Op_of (SetB i x) = Op_of i \<and> A_of (SetB i x) = A_of i \<and>
    C_of (SetB i x) = C_of i \<and> C_of (SetC i x) = x \<and> Op_of (SetC i x) = Op_of i \<and>
    A_of (SetC i x) = A_of i \<and> B_of (SetC i x) = B_of i"
  using assms by (simp add: set_fields uint_masked_id)

section \<open>The floating-point byte\<close>

definition fb_inv :: "nat \<Rightarrow> u32 \<Rightarrow> u32 \<Rightarrow> bool" where
  "fb_inv n x e \<longleftrightarrow> 8 \<le> unat x \<and> unat e \<le> 28 \<and> n \<le> unat x * 2 ^ unat e \<and>
     unat x * 2 ^ unat e < n + 2 ^ unat e"

lemma fb_inv_bound: "fb_inv n x e \<Longrightarrow> (unat x - 1) * 2 ^ unat e < n"
  using mult_le_mono1 [of 1 "unat x" "2 ^ unat e"]
  unfolding fb_inv_def diff_mult_distrib mult_1 by linarith

lemma fb_inv_step:
  assumes inv: "fb_inv n x e" and n: "n \<le> 15 * 2 ^ 28" and k: "k = 1 \<or> k = 4"
    and x: "2 ^ (3 + k) \<le> unat x"
  shows "fb_inv n (drop_bit k (x + word_of_nat (2 ^ k - 1))) (e + word_of_nat k)"
proof -
  define p where "p = (2::nat) ^ unat e"
  have p: "0 < p" by (simp add: p_def)
  have b: "(unat x - 1) * p < n" using fb_inv_bound [OF inv] by (simp add: p_def)
  have "unat x - 1 \<le> (unat x - 1) * p" using p by simp
  then have xs: "unat x \<le> n" using b by linarith
  then have u: "unat (x + word_of_nat (2 ^ k - 1)) = unat x + (2 ^ k - 1)"
    using n k by (auto simp: unat_word_ariths)
  have e28: "unat e + k \<le> 28"
  proof (rule ccontr)
    assume "\<not> unat e + k \<le> 28"
    then have "2 ^ (29 - k) \<le> p" using k by (auto simp: p_def intro!: power_increasing)
    then have "(unat x - 1) * 2 ^ (29 - k) \<le> (unat x - 1) * p" by simp
    then have "(unat x - 1) * 2 ^ (29 - k) < 15 * 2 ^ 28" using b n by linarith
    then show False using x k by auto
  qed
  then have ue: "unat (e + word_of_nat k) = unat e + k"
    using k by (auto simp: unat_word_ariths)
  define y where "y = (unat x + (2 ^ k - 1)) div 2 ^ k"
  have y: "unat x \<le> y * 2 ^ k" "y * 2 ^ k \<le> unat x + (2 ^ k - 1)" "8 \<le> y"
    using k x by (auto simp: y_def)
  have "n \<le> unat x * p" "unat x * p < n + p" using inv by (auto simp: fb_inv_def p_def)
  moreover have "unat x * p \<le> y * 2 ^ k * p" "y * 2 ^ k * p \<le> (unat x + (2 ^ k - 1)) * p"
    using y(1,2) by (auto intro: mult_le_mono1)
  moreover have "unat x + (2 ^ k - 1) + 1 = unat x + 2 ^ k" by simp
  then have "(unat x + (2 ^ k - 1) + 1) * p = (unat x + 2 ^ k) * p" by simp
  then have "(unat x + (2 ^ k - 1)) * p + p = unat x * p + 2 ^ k * p"
    by (simp only: add_mult_distrib mult_1)
  ultimately have "n \<le> y * 2 ^ k * p" "y * 2 ^ k * p < n + 2 ^ k * p"
    by linarith+
  then have "n \<le> y * (2 ^ k * p)" "y * (2 ^ k * p) < n + 2 ^ k * p"
    by (simp_all only: mult.assoc)
  then show ?thesis
    using y(3) e28 by (simp only: fb_inv_def unat_drop_bit_div u ue y_def [symmetric]
        power_add p_def [symmetric] mult.commute [of p] simp_thms)
qed

lemma int2fb_fast_inv:
  "fb_inv n x e \<Longrightarrow> n \<le> 15 * 2 ^ 28 \<Longrightarrow> int2fb_fast x e = (y, d) \<Longrightarrow> fb_inv n y d"
proof (induction x e rule: int2fb_fast.induct)
  case (1 x e)
  show ?case
  proof (cases "push_bit 4 8 \<le> x")
    case True
    then have "fb_inv n (drop_bit 4 (x + 0xF)) (e + 4)"
      using fb_inv_step [OF 1(2,3), of 4] by (simp add: word_le_nat_alt)
    moreover have "int2fb_fast (drop_bit 4 (x + 0xF)) (e + 4) = (y, d)"
      using 1(4) True by (simp add: int2fb_fast.simps [of x e])
    ultimately show ?thesis using 1(1,3) True by blast
  qed (use 1 in \<open>simp add: int2fb_fast.simps [of x e]\<close>)
qed

lemma int2fb_slow_inv:
  "fb_inv n x e \<Longrightarrow> n \<le> 15 * 2 ^ 28 \<Longrightarrow> int2fb_slow x e = (y, d) \<Longrightarrow> fb_inv n y d \<and> unat y < 16"
proof (induction x e rule: int2fb_slow.induct)
  case (1 x e)
  show ?case
  proof (cases "16 \<le> x")
    case True
    then have "fb_inv n (drop_bit 1 (x + 1)) (e + 1)"
      using fb_inv_step [OF 1(2,3), of 1] by (simp add: word_le_nat_alt)
    moreover have "int2fb_slow (drop_bit 1 (x + 1)) (e + 1) = (y, d)"
      using 1(4) True by (simp add: int2fb_slow.simps [of x e])
    ultimately show ?thesis using 1(1,3) True by blast
  qed (use 1 in \<open>simp add: int2fb_slow.simps [of x e] word_le_nat_alt not_le\<close>)
qed

lemma fb_decode:
  assumes "8 \<le> unat m" "unat m < 16" "unat e \<le> 28"
  shows "Fb2Int (push_bit 3 (e + 1) OR (m - 8)) = push_bit (unat e) m"
    and "unat (push_bit 3 (e + 1) OR (m - 8)) < 256"
proof -
  define w where "w = push_bit 3 (e + 1) OR (m - 8)"
  have m8: "unat (m - 8) = unat m - 8" using assms by (simp add: unat_sub word_le_nat_alt)
  have m7: "m - 8 = (m - 8) AND mask 3"
    using assms m8 by (intro word_unat_eq_iff [THEN iffD2]) (simp only: unat_and_mask, simp)
  have e1: "unat (e + 1) = unat e + 1" using assms by (simp add: unat_word_ariths)
  have e5: "e + 1 = (e + 1) AND mask 5"
    using assms e1 by (intro word_unat_eq_iff [THEN iffD2]) (simp only: unat_and_mask, simp)
  have lo: "w AND 7 = m - 8"
  proof -
    have "w AND mask 3 = (m - 8) AND mask 3"
      by (rule bit_word_eqI) (auto simp: w_def bit_simps)
    then show ?thesis using m7 by (simp add: mask_eq_exp_minus_1)
  qed
  have hi: "drop_bit 3 w AND 31 = e + 1"
  proof -
    have "drop_bit 3 w AND mask 5 = (e + 1) AND mask 5"
      unfolding w_def by (subst m7, rule bit_word_eqI) (auto simp: bit_simps)
    then show ?thesis using e5 by (simp add: mask_eq_exp_minus_1)
  qed
  have "e + 1 \<noteq> 0" using e1 by (metis Suc_eq_plus1 Zero_not_Suc unat_0)
  then show "Fb2Int (push_bit 3 (e + 1) OR (m - 8)) = push_bit (unat e) m"
    unfolding w_def [symmetric] Fb2Int_def hi lo Let_def by simp
  have "w = w AND mask 8"
    unfolding w_def by (subst (1 2) m7, subst (1 2) e5, rule bit_word_eqI) (auto simp: bit_simps)
  then have "unat w = unat w mod 2 ^ 8" by (metis unat_and_mask)
  moreover have "unat w mod 2 ^ 8 < 256" by simp
  ultimately show "unat (push_bit 3 (e + 1) OR (m - 8)) < 256"
    unfolding w_def [symmetric] by linarith
qed

text \<open>C38. The floating-point byte over-approximates: for every size up to \<open>15 * 2 ^ 28\<close> the
  encoding fits 8 bits, decodes to at least the size, exactly for sizes below 8, and overshoots a
  larger size by less than a seventh.\<close>

theorem fb_overapprox:
  assumes "unat x \<le> 15 * 2 ^ 28"
  shows "unat (Int2Fb x) < 256 \<and> unat x \<le> unat (Fb2Int (Int2Fb x)) \<and>
    (if unat x < 8 then Fb2Int (Int2Fb x) = x
     else 7 * (unat (Fb2Int (Int2Fb x)) - unat x) < unat x)"
proof (cases "unat x < 8")
  case True
  then have "x < 8" by (simp add: word_less_nat_alt)
  moreover have "drop_bit 3 x = 0"
    using True by (intro word_unat_eq_iff [THEN iffD2]) (simp only: unat_drop_bit_div, simp)
  ultimately show ?thesis using True by (simp add: Int2Fb_def Fb2Int_def)
next
  case False
  then have x8: "\<not> x < 8" by (simp add: word_less_nat_alt)
  obtain y d where f: "int2fb_fast x 0 = (y, d)" by fastforce
  obtain m e where g: "int2fb_slow y d = (m, e)" by fastforce
  have "fb_inv (unat x) x 0" using False by (simp add: fb_inv_def)
  then have inv: "fb_inv (unat x) m e" "unat m < 16"
    using int2fb_fast_inv [OF _ assms f] int2fb_slow_inv [OF _ assms g] by auto
  then have e: "unat e \<le> 28" and m: "8 \<le> unat m"
    and lo: "unat x \<le> unat m * 2 ^ unat e" and up: "unat m * 2 ^ unat e < unat x + 2 ^ unat e"
    by (simp_all add: fb_inv_def)
  have fb: "Int2Fb x = push_bit 3 (e + 1) OR (m - 8)"
    using x8 f g by (simp add: Int2Fb_def)
  have "unat m * 2 ^ unat e \<le> 15 * 2 ^ 28"
    using inv(2) e by (intro mult_le_mono power_increasing) auto
  then have val: "unat (push_bit (unat e) m) = unat m * 2 ^ unat e"
    by (intro unat_push_bit_mult) (simp add: le_less_trans)
  have "7 * 2 ^ unat e < unat x"
    using mult_le_mono1 [OF m, of "2 ^ unat e"] up by linarith
  then show ?thesis
    using False lo up fb_decode [OF m inv(2) e] by (simp add: fb val)
qed

theorem fb_overapprox_witness: "unat (1000 :: u32) \<le> unat (Fb2Int (Int2Fb 1000))"
  using fb_overapprox [of 1000] by simp

section \<open>Chunk names\<close>

text \<open>The display form of a chunk name fits the buffer it is formatted for: with a buffer of
  at least 17 bytes no slice is out of range and the result, with a terminating NUL, fits.\<close>

theorem chunkid_fits:
  assumes "17 \<le> n"
  shows "\<exists>s. ChunkIDN source n = Some s \<and> int (length s) < n"
proof (cases source)
  case Nil
  with assms show ?thesis by (simp add: ChunkIDN_def)
next
  case (Cons c s)
  with assms show ?thesis
    by (auto simp: ChunkIDN_def slice_to_def slice_from_def Let_def min_def)
qed

theorem chunkid_fits_witness: "\<exists>s. ChunkIDN ''@a.lua'' MaxSrc = Some s \<and> int (length s) < MaxSrc"
  using chunkid_fits [of MaxSrc] by (simp add: MaxSrc_def)

end
