(* ===== verification/Float64.thy ===== *)
theory Float64
  imports Prelude
begin

text \<open>
  The part of Go's \<open>float64\<close> the value world uses, on the bit patterns
  themselves: a \<open>float64\<close> is its IEEE-754 bit pattern, so
  \<open>math.Float64bits\<close> and \<open>math.Float64frombits\<close> are the identity. The
  language's \<open>==\<close>, the NaN self-test \<open>f != f\<close>, the conversion of an unsigned
  integer to \<open>float64\<close> and the truncating conversion back are written out.
\<close>

type_synonym f64 = u64

definition f64_expo :: "f64 \<Rightarrow> nat" where
  "f64_expo f = unat (drop_bit 52 f) mod 2048"

definition f64_frac :: "f64 \<Rightarrow> nat" where
  "f64_frac f = unat f mod 2 ^ 52"

definition f64_neg :: "f64 \<Rightarrow> bool" where
  "f64_neg f \<longleftrightarrow> 2 ^ 63 \<le> unat f"

definition f64_is_nan :: "f64 \<Rightarrow> bool" where
  "f64_is_nan f \<longleftrightarrow> f64_expo f = 2047 \<and> f64_frac f \<noteq> 0"

definition f64_is_zero :: "f64 \<Rightarrow> bool" where
  "f64_is_zero f \<longleftrightarrow> f = 0 \<or> f = 0x8000000000000000"

text \<open>Go's \<open>==\<close> on \<open>float64\<close>: no NaN equals anything, the two zeros are equal.\<close>

definition f64_eq :: "f64 \<Rightarrow> f64 \<Rightarrow> bool" where
  "f64_eq a b \<longleftrightarrow> \<not> f64_is_nan a \<and> \<not> f64_is_nan b \<and>
     (a = b \<or> (f64_is_zero a \<and> f64_is_zero b))"

text \<open>
  The exact conversion of a natural number below \<open>2 ^ 53\<close>: sign 0, exponent
  \<open>1023 + e\<close> for the position \<open>e\<close> of the highest bit, fraction the bits below it
  shifted up to bit 52.
\<close>

fun log2_nat :: "nat \<Rightarrow> nat" where
  "log2_nat n = (if n \<le> 1 then 0 else Suc (log2_nat (n div 2)))"

declare log2_nat.simps [simp del]

definition f64_of_nat :: "nat \<Rightarrow> f64" where
  "f64_of_nat n =
     (if n = 0 then 0
      else let e = log2_nat n in
        word_of_nat ((1023 + e) * 2 ^ 52 + (n - 2 ^ e) * 2 ^ (52 - e)))"

text \<open>
  The integer part, \<open>None\<close> for infinities and NaNs: a finite number is
  \<open>m * 2 ^ (e - 1075)\<close> for its integer significand \<open>m\<close>.
\<close>

definition f64_trunc :: "f64 \<Rightarrow> int option" where
  "f64_trunc f =
     (let e = f64_expo f; m = f64_frac f in
      if e = 2047 then None
      else let m' = (if e = 0 then m else m + 2 ^ 52);
               e' = (if e = 0 then 1 else e);
               v = (if 1075 \<le> e' then m' * 2 ^ (e' - 1075) else m' div 2 ^ (1075 - e'))
           in Some (if f64_neg f then - int v else int v))"

text \<open>
  The conversion \<open>uint32(f)\<close>. The language leaves the result open when the integer
  part does not fit; on amd64 it is the low half of the truncation to 64 bits, with
  the indefinite integer (low half 0) beyond that range.
\<close>

definition f64_to_u32 :: "f64 \<Rightarrow> u32" where
  "f64_to_u32 f =
     (case f64_trunc f of
        None \<Rightarrow> 0
      | Some z \<Rightarrow> if - (2 ^ 63) \<le> z \<and> z < 2 ^ 63 then word_of_int z else 0)"

section \<open>Facts\<close>

lemma f64_eq_sym: "f64_eq a b = f64_eq b a"
  by (auto simp: f64_eq_def)

lemma f64_eq_refl: "f64_eq a a \<longleftrightarrow> \<not> f64_is_nan a"
  by (auto simp: f64_eq_def)

lemma log2_nat_bounds: "0 < n \<Longrightarrow> 2 ^ log2_nat n \<le> n \<and> n < 2 ^ Suc (log2_nat n)"
proof (induction n rule: log2_nat.induct)
  case (1 n)
  show ?case
  proof (cases "n \<le> 1")
    case True
    with 1 show ?thesis by (simp add: log2_nat.simps)
  next
    case False
    then have "2 ^ log2_nat (n div 2) \<le> n div 2 \<and> n div 2 < 2 ^ Suc (log2_nat (n div 2))"
      using 1 by simp
    with False show ?thesis by (subst (1 2) log2_nat.simps) auto
  qed
qed

lemma log2_nat_le: "0 < n \<Longrightarrow> n < 2 ^ k \<Longrightarrow> log2_nat n < k"
  using log2_nat_bounds [of n] power_less_imp_less_exp [of 2 "log2_nat n" k]
  by (meson le_less_trans one_less_numeral_iff semiring_norm(76))

text \<open>The bit fields of a number built from its exponent and fraction.\<close>

lemma f64_fields:
  assumes "e < 2048" and "m < 2 ^ 52"
  defines "f \<equiv> (word_of_nat (e * 2 ^ 52 + m) :: f64)"
  shows "f64_expo f = e" and "f64_frac f = m" and "\<not> f64_neg f"
proof -
  have lt: "e * 2 ^ 52 + m < 2 ^ 63"
  proof -
    have "e * 2 ^ 52 + m < 2047 * 2 ^ 52 + 2 ^ 52" using assms(1,2) by simp
    then show ?thesis by simp
  qed
  then have u: "unat f = e * 2 ^ 52 + m"
    unfolding f_def by (intro unat_word_of_nat_lt) simp
  show "f64_expo f = e"
    using assms(1,2) by (simp only: f64_expo_def unat_drop_bit_div u) simp
  show "f64_frac f = m"
    using assms(2) by (simp add: f64_frac_def u)
  show "\<not> f64_neg f"
    using assms(1,2) lt by (simp add: f64_neg_def u)
qed

lemma f64_of_nat_pos:
  assumes "0 < n" and "n < 2 ^ 53"
  defines "k \<equiv> log2_nat n"
  shows "f64_expo (f64_of_nat n) = 1023 + k"
    and "f64_frac (f64_of_nat n) = (n - 2 ^ k) * 2 ^ (52 - k)"
    and "\<not> f64_neg (f64_of_nat n)"
proof -
  have k: "k \<le> 52" using log2_nat_le [of n 53] assms(1,2) by (simp add: k_def)
  have "n - 2 ^ k < 2 ^ k"
    using log2_nat_bounds [of n] assms(1) unfolding k_def [symmetric] by auto
  then have "(n - 2 ^ k) * 2 ^ (52 - k) < 2 ^ k * 2 ^ (52 - k)" by simp
  also have "\<dots> = 2 ^ 52" using k by (simp flip: power_add)
  finally have m: "(n - 2 ^ k) * 2 ^ (52 - k) < 2 ^ 52" .
  have def_n: "f64_of_nat n = word_of_nat ((1023 + k) * 2 ^ 52 + (n - 2 ^ k) * 2 ^ (52 - k))"
    using assms(1) by (simp add: f64_of_nat_def k_def Let_def)
  have e: "1023 + k < 2048" using k by simp
  show "f64_expo (f64_of_nat n) = 1023 + k" "\<not> f64_neg (f64_of_nat n)"
    "f64_frac (f64_of_nat n) = (n - 2 ^ k) * 2 ^ (52 - k)"
    unfolding def_n by (rule f64_fields [OF e m])+
qed

lemma f64_of_nat_not_nan: "n < 2 ^ 53 \<Longrightarrow> \<not> f64_is_nan (f64_of_nat n)"
proof (cases "n = 0")
  case True
  then show ?thesis by (simp add: f64_of_nat_def f64_is_nan_def f64_expo_def)
next
  case False
  assume lt: "n < 2 ^ 53"
  with False have "f64_expo (f64_of_nat n) = 1023 + log2_nat n"
    by (simp add: f64_of_nat_pos)
  moreover have "log2_nat n < 53" using False lt by (simp add: log2_nat_le)
  ultimately show ?thesis by (simp add: f64_is_nan_def)
qed

lemma f64_trunc_of_nat:
  assumes "n < 2 ^ 53"
  shows "f64_trunc (f64_of_nat n) = Some (int n)"
proof (cases "n = 0")
  case True
  then show ?thesis
    by (simp add: f64_of_nat_def f64_trunc_def f64_expo_def f64_frac_def f64_neg_def)
next
  case False
  define k where "k = log2_nat n"
  from False have n: "0 < n" by simp
  note f = f64_of_nat_pos [OF n assms, folded k_def]
  have k: "k \<le> 52" using log2_nat_le [of n 53] assms n by (simp add: k_def)
  have ge: "2 ^ k \<le> n" using log2_nat_bounds [of n] n by (simp add: k_def)
  have "(2::nat) ^ 52 = 2 ^ k * 2 ^ (52 - k)" using k by (simp flip: power_add)
  then have sig: "(n - 2 ^ k) * 2 ^ (52 - k) + 2 ^ 52 = n * 2 ^ (52 - k)"
    using mult_le_mono1 [OF ge, of "2 ^ (52 - k)"] by (simp only: diff_mult_distrib)
  have v: "(if 1075 \<le> 1023 + k then n * 2 ^ (52 - k) * 2 ^ (1023 + k - 1075)
     else n * 2 ^ (52 - k) div 2 ^ (1075 - (1023 + k))) = n"
    using k by (cases "k = 52") simp_all
  have "f64_trunc (f64_of_nat n) = Some (int (if 1075 \<le> 1023 + k
      then ((n - 2 ^ k) * 2 ^ (52 - k) + 2 ^ 52) * 2 ^ (1023 + k - 1075)
      else ((n - 2 ^ k) * 2 ^ (52 - k) + 2 ^ 52) div 2 ^ (1075 - (1023 + k))))"
    using f k by (simp add: f64_trunc_def Let_def)
  then show ?thesis by (simp only: sig v)
qed

lemma f64_to_u32_of_nat: "n < 2 ^ 32 \<Longrightarrow> f64_to_u32 (f64_of_nat n) = word_of_nat n"
  by (simp add: f64_to_u32_def f64_trunc_of_nat)

lemma f64_of_nat_inj: "m < 2 ^ 53 \<Longrightarrow> n < 2 ^ 53 \<Longrightarrow> f64_of_nat m = f64_of_nat n \<Longrightarrow> m = n"
  using f64_trunc_of_nat by (metis of_nat_eq_iff option.inject)

lemma f64_of_nat_nonzero: "0 < n \<Longrightarrow> n < 2 ^ 53 \<Longrightarrow> \<not> f64_is_zero (f64_of_nat n)"
proof
  assume n: "0 < n" "n < 2 ^ 53" and z: "f64_is_zero (f64_of_nat n)"
  have "f64_trunc 0 = Some 0" "f64_trunc 0x8000000000000000 = Some 0"
    by (simp_all add: f64_trunc_def f64_expo_def f64_frac_def unat_drop_bit_div)
  with z n f64_trunc_of_nat [of n] show False by (auto simp: f64_is_zero_def)
qed

text \<open>A number equal to a converted positive integer has that integer's very bits.\<close>

lemma f64_eq_of_nat:
  "0 < n \<Longrightarrow> n < 2 ^ 53 \<Longrightarrow> f64_eq (f64_of_nat n) f \<longleftrightarrow> f = f64_of_nat n"
  by (auto simp: f64_eq_def f64_of_nat_nonzero f64_of_nat_not_nan)

lemma f64_of_nat_lt: "n < 2 ^ 53 \<Longrightarrow> unat (f64_of_nat n) < 2 ^ 63"
  using f64_of_nat_pos(3) [of n] by (cases "n = 0") (auto simp: f64_of_nat_def f64_neg_def)

end
