(* ===== verification/NanBox.thy ===== *)
theory NanBox
  imports Float64
begin

text \<open>
  The NaN-boxed \<open>Value\<close> of \<open>internal/value/value.go\<close>: a \<open>uint64\<close> that is
  either a canonical \<open>float64\<close> bit pattern (below \<open>0xFFF8 << 48\<close>) or a boxed
  non-number, the tag in the top 16 bits and the payload in the low 48.
\<close>

type_synonym lvalue = u64
type_synonym gcref = u64

section \<open>Definitions\<close>

definition qNanBoxBase :: u64 where "qNanBoxBase = 0xFFF8000000000000"
definition payloadMask :: u64 where "payloadMask = 0x0000FFFFFFFFFFFF"
definition canonNaN :: u64 where "canonNaN = 0x7FF8000000000000"

definition TagNil :: u16 where "TagNil = 0xFFF8"
definition TagBool :: u16 where "TagBool = 0xFFF9"
definition TagLightUD :: u16 where "TagLightUD = 0xFFFA"
definition TagString :: u16 where "TagString = 0xFFFB"
definition TagTable :: u16 where "TagTable = 0xFFFC"
definition TagFunction :: u16 where "TagFunction = 0xFFFD"
definition TagUserdata :: u16 where "TagUserdata = 0xFFFE"
definition TagThread :: u16 where "TagThread = 0xFFFF"

definition collectableMin :: u16 where "collectableMin = TagString"

definition VNil :: lvalue where "VNil = push_bit 48 (ucast TagNil)"
definition VFalse :: lvalue where "VFalse = push_bit 48 (ucast TagBool)"
definition VTrue :: lvalue where "VTrue = push_bit 48 (ucast TagBool) OR 1"

definition IsNumber :: "lvalue \<Rightarrow> bool" where
  "IsNumber v \<longleftrightarrow> v < qNanBoxBase"

definition IsCollectable :: "lvalue \<Rightarrow> bool" where
  "IsCollectable v \<longleftrightarrow> push_bit 48 (ucast collectableMin) \<le> v"

definition Tag :: "lvalue \<Rightarrow> u16" where
  "Tag v = ucast (drop_bit 48 v)"

definition Truthy :: "lvalue \<Rightarrow> bool" where
  "Truthy v \<longleftrightarrow> v \<noteq> VNil \<and> v \<noteq> VFalse"

definition NumberValue :: "f64 \<Rightarrow> lvalue" where
  "NumberValue f = (if \<not> f64_eq f f then canonNaN else f)"

definition AsNumber :: "lvalue \<Rightarrow> f64" where
  "AsNumber v = v"

definition BoolValue :: "bool \<Rightarrow> lvalue" where
  "BoolValue b = (if b then VTrue else VFalse)"

definition AsBool :: "lvalue \<Rightarrow> bool" where
  "AsBool v \<longleftrightarrow> v AND 1 = 1"

definition MakeGC :: "u16 \<Rightarrow> gcref \<Rightarrow> lvalue" where
  "MakeGC tag ref = push_bit 48 (ucast tag) OR (ref AND payloadMask)"

definition GCRefOf :: "lvalue \<Rightarrow> gcref" where
  "GCRefOf v = v AND payloadMask"

definition LightUDValue :: "u64 \<Rightarrow> lvalue" where
  "LightUDValue handle = push_bit 48 (ucast TagLightUD) OR (handle AND payloadMask)"

definition AsLightUD :: "lvalue \<Rightarrow> u64" where
  "AsLightUD v = v AND payloadMask"

definition CanonNaN :: u64 where
  "CanonNaN = canonNaN"

section \<open>Boxing and unboxing\<close>

lemmas tag_defs = TagNil_def TagBool_def TagLightUD_def TagString_def TagTable_def
  TagFunction_def TagUserdata_def TagThread_def collectableMin_def

lemmas val_defs = VNil_def VFalse_def VTrue_def tag_defs

lemma val_numerals [simp]:
  "VNil = 0xFFF8000000000000" "VFalse = 0xFFF9000000000000" "VTrue = 0xFFF9000000000001"
  by (simp_all add: val_defs)

declare val_numerals [simp del]

lemma payloadMask_mask: "payloadMask = mask 48"
  by (simp add: payloadMask_def mask_eq_exp_minus_1)

lemma bit_u64_high: "bit (w :: u64) n \<Longrightarrow> n < 64"
  using bit_imp_le_length by force

lemma ucast_u16_high: "\<not> bit (ucast (t :: u16) :: u64) n" if "16 \<le> n"
  using that by (simp add: bit_ucast_iff) (auto dest: bit_imp_le_length)

text \<open>Packing a tag over a 48-bit payload and taking either part out again.\<close>

lemma pack_payload: "(push_bit 48 (ucast t) OR (r AND payloadMask)) AND payloadMask = r AND payloadMask"
  for t :: u16 and r :: u64
  by (rule bit_word_eqI) (auto simp: payloadMask_mask bit_simps)

lemma pack_tag: "(ucast (drop_bit 48 (push_bit 48 (ucast t) OR (r AND payloadMask) :: u64)) :: u16) = t"
  for t :: u16 and r :: u64
  by (rule bit_word_eqI) (auto simp: payloadMask_mask bit_simps dest: bit_imp_le_length)

lemma small_payload: "r < 2 ^ 48 \<Longrightarrow> r AND payloadMask = r" for r :: u64
  by (simp add: payloadMask_mask less_mask_eq)

lemma unpack_value: "MakeGC (Tag v) (GCRefOf v) = v"
  by (rule bit_word_eqI)
    (auto simp: MakeGC_def Tag_def GCRefOf_def payloadMask_mask bit_simps dest: bit_imp_le_length)

lemma unat_push_bit_48: "unat (push_bit 48 (ucast (t :: u16)) :: u64) = unat t * 2 ^ 48"
proof -
  have lt: "unat t < 65536" using unsigned_less [of t] by simp
  have "unat (ucast t :: u64) = unat t"
    by (simp only: unsigned_ucast_eq, rule take_bit_nat_eq_self, rule less_trans [OF lt]) simp
  moreover have "unat (2 ^ 48 :: u64) = 2 ^ 48" by simp
  ultimately have "unat (push_bit 48 (ucast t) :: u64) = unat t * 2 ^ 48 mod 2 ^ 64"
    by (simp only: push_bit_eq_mult unat_word_ariths) simp
  then show ?thesis using lt by simp
qed

lemma unat_pack: "unat (MakeGC t r) = unat t * 2 ^ 48 + unat (r AND payloadMask)"
proof -
  have "push_bit 48 (ucast t :: u64) AND (r AND payloadMask) = 0"
    by (rule bit_word_eqI) (auto simp: payloadMask_mask bit_simps)
  then have "MakeGC t r = push_bit 48 (ucast t) + (r AND payloadMask)"
    unfolding MakeGC_def by (rule disjunctive_add_eq_or [symmetric])
  moreover have "unat (r AND payloadMask) < 2 ^ 48"
    by (simp add: payloadMask_mask unat_and_mask)
  moreover have "unat t < 2 ^ 16" using unsigned_less [of t] by simp
  ultimately show ?thesis
    by (simp add: unat_push_bit_48 unat_add_le_max)
qed

text \<open>Every value is its tag and its payload, so comparisons with a tag boundary read the tag.\<close>

lemma tag_threshold: "push_bit 48 (ucast t) \<le> v \<longleftrightarrow> t \<le> Tag v" for t :: u16 and v :: u64
proof -
  have v: "unat v = unat (Tag v) * 2 ^ 48 + unat (GCRefOf v AND payloadMask)"
    by (metis unat_pack unpack_value)
  have "unat (GCRefOf v AND payloadMask) < 2 ^ 48"
    by (simp add: payloadMask_mask unat_and_mask)
  then show ?thesis
    by (auto simp: word_le_nat_alt unat_push_bit_48 v)
qed

lemma IsCollectable_Tag: "IsCollectable v \<longleftrightarrow> TagString \<le> Tag v"
  by (simp add: IsCollectable_def collectableMin_def tag_threshold)

lemma IsNumber_Tag: "IsNumber v \<longleftrightarrow> Tag v < TagNil"
proof -
  have "qNanBoxBase = push_bit 48 (ucast TagNil)" by (simp add: qNanBoxBase_def TagNil_def)
  then show ?thesis unfolding IsNumber_def not_le [symmetric] tag_threshold [symmetric] by simp
qed

lemma Tag_MakeGC [simp]: "Tag (MakeGC t r) = t"
  unfolding Tag_def MakeGC_def by (rule pack_tag)

lemma GCRefOf_MakeGC: "r < 2 ^ 48 \<Longrightarrow> GCRefOf (MakeGC t r) = r"
  unfolding GCRefOf_def MakeGC_def pack_payload by (rule small_payload)

lemma LightUDValue_MakeGC: "LightUDValue h = MakeGC TagLightUD h"
  by (simp add: LightUDValue_def MakeGC_def)

lemma Tag_consts [simp]: "Tag VNil = TagNil" "Tag VFalse = TagBool" "Tag VTrue = TagBool"
  by (simp_all add: Tag_def val_defs unsigned_drop_bit_eq)

lemma not_IsNumber_consts [simp]: "\<not> IsNumber VNil" "\<not> IsNumber VFalse" "\<not> IsNumber VTrue"
  by (simp_all add: IsNumber_Tag tag_defs)

lemma not_IsCollectable_consts [simp]:
  "\<not> IsCollectable VNil" "\<not> IsCollectable VFalse" "\<not> IsCollectable VTrue"
  by (simp_all add: IsCollectable_Tag tag_defs)

section \<open>Numbers\<close>

lemma not_f64_eq_self: "\<not> f64_eq f f \<longleftrightarrow> f64_is_nan f"
  by (simp add: f64_eq_refl)

text \<open>A pattern in the boxed range has all exponent bits and the quiet bit set: it is a NaN.\<close>

lemma boxed_is_nan: "\<not> IsNumber f \<Longrightarrow> f64_is_nan f"
proof -
  assume "\<not> IsNumber f"
  then have ge: "0xFFF8 * 2 ^ 48 \<le> unat f"
    by (simp add: IsNumber_def qNanBoxBase_def not_less word_le_nat_alt)
  have lt: "unat f < 2 ^ 64" using unsigned_less [of f] by simp
  have "0xFFF \<le> unat f div 2 ^ 52" "unat f div 2 ^ 52 \<le> 0xFFF"
    using ge lt by (simp_all add: less_eq_div_iff_mult_less_eq div_less_iff_less_mult
        less_Suc_eq_le [symmetric])
  then have "unat f div 2 ^ 52 = 0xFFF" by simp
  moreover from this have "unat f mod 2 ^ 52 = unat f - 0xFFF * 2 ^ 52"
    by (simp add: minus_div_mult_eq_mod [symmetric])
  ultimately show ?thesis
    using ge by (simp add: f64_is_nan_def f64_expo_def f64_frac_def unat_drop_bit_div)
qed

lemma IsNumber_NumberValue [simp]: "IsNumber (NumberValue f)"
  using boxed_is_nan [of f]
  by (auto simp: NumberValue_def not_f64_eq_self IsNumber_def canonNaN_def qNanBoxBase_def)

lemma canonNaN_is_nan: "f64_is_nan canonNaN"
  by (simp add: f64_is_nan_def canonNaN_def f64_expo_def f64_frac_def unat_drop_bit_div)

lemma NumberValue_id: "\<not> f64_is_nan f \<Longrightarrow> NumberValue f = f"
  by (simp add: NumberValue_def not_f64_eq_self)

lemma NumberValue_not_Nil [simp]: "NumberValue f \<noteq> VNil"
  using IsNumber_NumberValue [of f] by (metis not_IsNumber_consts(1))

lemma IsNumber_of_nat [simp]: "n < 2 ^ 53 \<Longrightarrow> IsNumber (f64_of_nat n)"
  using f64_of_nat_not_nan boxed_is_nan by blast

section \<open>Properties\<close>

text \<open>C36. Boxing a reference and reading it back: for a 48-bit reference and any tag of the
  boxed range, the tag and the reference are recovered, the result is not a number, and it is
  collectable exactly for the tags from \<open>TagString\<close> on.\<close>

theorem box_roundtrip:
  assumes "r < 2 ^ 48" and "TagNil \<le> t"
  shows "Tag (MakeGC t r) = t \<and> GCRefOf (MakeGC t r) = r \<and> \<not> IsNumber (MakeGC t r) \<and>
    (IsCollectable (MakeGC t r) \<longleftrightarrow> TagString \<le> t)"
  using assms by (simp add: GCRefOf_MakeGC IsNumber_Tag IsCollectable_Tag not_less)

theorem box_roundtrip_witness:
  "Tag (MakeGC TagTable 0x1000) = TagTable \<and> GCRefOf (MakeGC TagTable 0x1000) = 0x1000 \<and>
    IsCollectable (MakeGC TagTable 0x1000)"
  using box_roundtrip [of "0x1000" TagTable] by (simp add: tag_defs)

text \<open>C37. Boxing a number: whatever the 64 bits, the boxed value is in the number range (never
  mistaken for a boxed reference), equals the number it was made from when that is not a NaN,
  and is the one canonical NaN pattern when it is.\<close>

theorem number_boxing:
  "IsNumber (NumberValue f) \<and>
    (if f64_is_nan f then AsNumber (NumberValue f) = CanonNaN \<and> f64_is_nan (AsNumber (NumberValue f))
     else AsNumber (NumberValue f) = f)"
  using canonNaN_is_nan IsNumber_NumberValue [of f]
  by (auto simp: NumberValue_def not_f64_eq_self AsNumber_def CanonNaN_def)

lemma u16_from_nil: "TagNil \<le> t \<longleftrightarrow> t \<in> {TagNil, TagBool, TagLightUD, TagString, TagTable,
    TagFunction, TagUserdata, TagThread}"
proof -
  have "unat t < 65536" using unsigned_less [of t] by simp
  then show ?thesis
    by (simp add: tag_defs word_le_nat_alt word_unat_eq_iff) presburger
qed

lemma u16_from_string: "TagString \<le> t \<longleftrightarrow> t \<in> {TagString, TagTable, TagFunction, TagUserdata,
    TagThread}"
proof -
  have "unat t < 65536" using unsigned_less [of t] by simp
  then show ?thesis
    by (simp add: tag_defs word_le_nat_alt word_unat_eq_iff) presburger
qed

text \<open>The tag tests partition the value world: a value is a number or carries one of the
  eight tags, never both; the collectable ones are exactly the five from \<open>TagString\<close> on.\<close>

lemma tag_partition:
  "(IsNumber v \<noteq> (Tag v \<in> {TagNil, TagBool, TagLightUD, TagString, TagTable, TagFunction,
      TagUserdata, TagThread})) \<and>
   IsCollectable v = (Tag v \<in> {TagString, TagTable, TagFunction, TagUserdata, TagThread})"
  by (simp only: u16_from_nil [symmetric] u16_from_string [symmetric] IsNumber_Tag
      IsCollectable_Tag) (auto simp: linorder_not_less)

end
