(* ===== verification/Arena.thy ===== *)
theory Arena
  imports NanBox
begin

text \<open>
  The linear memory under the value world: \<open>internal/arena/arena.go\<close> (capacity, bump
  allocation, growth, compaction) and \<open>internal/arena/freelist.go\<close> (20 fixed-size small
  buckets and 24 power-of-two buckets of coalescing large blocks, chained through the free
  blocks themselves).

  The backing store is a list of 64-bit words; the byte view is derived from it. Reading or
  writing a word out of range and every explicit panic is \<open>None\<close>. The fixed-size Go
  arrays of bucket heads are functions of the bucket number. The factory \<open>BackingFn\<close> is a
  parameter of the arena: it gets the words of the current backing, which the in-place variant
  (memory.grow) keeps, and the number of words wanted. The \<open>debugFreelist\<close> branches are dead
  code (a false constant) and are left out.
\<close>

section \<open>The state\<close>

type_synonym backing_fn = "u64 list \<Rightarrow> u32 \<Rightarrow> u64 list"

record arena =
  a_words :: "u64 list"
  a_bump :: u32
  a_cap :: u32
  a_maxCap :: u32
  a_backing :: backing_fn
  a_inPlace :: bool
  a_freeHeads :: "nat \<Rightarrow> gcref"
  a_largeFreeHeads :: "nat \<Rightarrow> gcref"
  a_freeBytes :: u64
  a_largeByStart :: "gcref \<Rightarrow> u32 option"
  a_largeByEnd :: "gcref \<Rightarrow> gcref option"

record arena_options =
  InitialBytes :: u32
  OptMaxBytes :: u32
  NewBacking :: "backing_fn option"
  InPlaceBacking :: bool

definition IsNull :: "gcref \<Rightarrow> bool" where "IsNull r \<longleftrightarrow> r = 0"
definition MaxBytes :: u32 where "MaxBytes = push_bit 31 1"
definition nullReserve :: u32 where "nullReserve = 8"
definition DefaultBacking :: backing_fn where "DefaultBacking old words = replicate (unat words) 0"

definition roundUp8 :: "u32 \<Rightarrow> u32" where "roundUp8 n = (n + 7) AND NOT 7"

text \<open>The index expressions \<open>a.words[i]\<close>, which panic out of range.\<close>

definition wget :: "arena \<Rightarrow> u64 \<Rightarrow> u64 option" where
  "wget a i = (if unat i < length (a_words a) then Some (a_words a ! unat i) else None)"

definition wset :: "arena \<Rightarrow> u64 \<Rightarrow> u64 \<Rightarrow> arena option" where
  "wset a i v =
     (if unat i < length (a_words a) then Some (a\<lparr>a_words := (a_words a)[unat i := v]\<rparr>) else None)"

section \<open>Capacity\<close>

definition setBacking :: "arena \<Rightarrow> u64 list \<Rightarrow> arena option" where
  "setBacking a words =
     (if unat (a_maxCap a) < length words * 8 \<or> length words * 8 < unat (a_cap a) then None
      else Some (a\<lparr>a_words := words\<rparr>))"

definition arena_New :: "arena_options \<Rightarrow> arena option" where
  "arena_New opts =
     (let c = (if InitialBytes opts = 0 then 64 * 1024 else InitialBytes opts);
          c = roundUp8 c;
          mx = (if OptMaxBytes opts = 0 then MaxBytes else OptMaxBytes opts)
      in if mx < c then None
         else let bf = (case NewBacking opts of None \<Rightarrow> DefaultBacking | Some f \<Rightarrow> f);
                  a = \<lparr>a_words = [], a_bump = nullReserve, a_cap = c, a_maxCap = mx,
                       a_backing = bf, a_inPlace = InPlaceBacking opts,
                       a_freeHeads = (\<lambda>_. 0), a_largeFreeHeads = (\<lambda>_. 0), a_freeBytes = 0,
                       a_largeByStart = (\<lambda>_. None), a_largeByEnd = (\<lambda>_. None)\<rparr>
              in setBacking a (bf [] (c div 8)))"

definition Cap :: "arena \<Rightarrow> u32" where "Cap a = a_cap a"
definition Bump :: "arena \<Rightarrow> u32" where "Bump a = a_bump a"

text \<open>Go's \<open>copy(dst, src)\<close>: the common prefix is overwritten.\<close>

definition copy_into :: "u64 list \<Rightarrow> u64 list \<Rightarrow> u64 list" where
  "copy_into dst src = take (length dst) src @ drop (length src) dst"

text \<open>The doubling loop of \<open>grow64\<close>; it is entered with a nonzero capacity.\<close>

function grow_cap :: "u32 \<Rightarrow> u32 \<Rightarrow> u64 \<Rightarrow> u32" where
  "grow_cap newCap maxCap minBytes =
     (if ucast newCap < minBytes \<and> newCap \<noteq> 0 then
        if maxCap div 2 < newCap then maxCap
        else grow_cap (newCap * 2) maxCap minBytes
      else newCap)"
  by pat_completeness auto
termination
proof (relation "measure (\<lambda>(newCap, maxCap, minBytes). 2 ^ 32 - unat newCap)")
  fix newCap maxCap :: u32 and minBytes :: u64
  assume "ucast newCap < minBytes \<and> newCap \<noteq> 0" and "\<not> maxCap div 2 < newCap"
  then have "0 < unat newCap" and "unat newCap \<le> unat maxCap div 2"
    by (simp_all add: unat_gt_0 not_less word_le_nat_alt unat_div)
  moreover have "unat newCap * 2 < 4294967296"
    using calculation(2) unat_u32_lt [of maxCap] by linarith
  moreover have "unat (newCap * 2) = unat newCap * 2"
    using calculation(3) by (simp add: unat_word_ariths)
  ultimately show "((newCap * 2, maxCap, minBytes), (newCap, maxCap, minBytes))
      \<in> measure (\<lambda>(newCap, maxCap, minBytes). 2 ^ 32 - unat newCap)"
    by simp
qed simp

definition grow64 :: "arena \<Rightarrow> u64 \<Rightarrow> arena option" where
  "grow64 a minBytes =
     (if ucast (a_maxCap a) < minBytes then None
      else let newCap = (if a_cap a = 0 then nullReserve else a_cap a);
               newCap = grow_cap newCap (a_maxCap a) minBytes
           in if ucast newCap < minBytes then None
              else let newWords = a_backing a (a_words a) (newCap div 8);
                       newWords = (if a_inPlace a then newWords else copy_into newWords (a_words a))
                   in setBacking (a\<lparr>a_cap := newCap\<rparr>) newWords)"

definition Compact :: "arena \<Rightarrow> u64 \<Rightarrow> arena option" where
  "Compact a target =
     (if a_inPlace a then Some a
      else let minCap = 64 * 1024 :: u64;
               newCap = (target + 7) AND NOT 7;
               b = ucast (a_bump a) :: u64;
               newCap = (if newCap < b then (b + 7) AND NOT 7 else newCap);
               newCap = (if newCap < minCap then minCap else newCap);
               newCap = (if ucast (a_maxCap a) < newCap then ucast (a_maxCap a) else newCap)
           in if ucast (a_cap a) \<le> 2 * newCap then Some a
              else let newWords = a_backing a (a_words a) (ucast (newCap div 8)) in
                if length (a_words a) < unat (a_bump a div 8) then None
                else setBacking (a\<lparr>a_cap := ucast newCap\<rparr>)
                       (copy_into newWords (take (unat (a_bump a div 8)) (a_words a))))"

section \<open>Word access\<close>

definition WordAt :: "arena \<Rightarrow> gcref \<Rightarrow> u64 option" where
  "WordAt a ref = (if ref AND 7 \<noteq> 0 then None else wget a (drop_bit 3 ref))"

definition SetWordAt :: "arena \<Rightarrow> gcref \<Rightarrow> u64 \<Rightarrow> arena option" where
  "SetWordAt a ref v = (if ref AND 7 \<noteq> 0 then None else wset a (drop_bit 3 ref) v)"

definition zeroFill :: "arena \<Rightarrow> gcref \<Rightarrow> u32 \<Rightarrow> arena option" where
  "zeroFill a ref words =
     (let base = drop_bit 3 ref in
      foldl (\<lambda>r i. do { a \<leftarrow> r; wset a (base + word_of_nat i) 0 }) (Some a) [0..<unat words])"

section \<open>Size classes\<close>

definition numSizeClasses :: nat where "numSizeClasses = 20"
definition largeThresholdWords :: u32 where "largeThresholdWords = 64"
definition numLargeClasses :: nat where "numLargeClasses = 24"

text \<open>\<open>bits.Len32\<close>: the number of bits needed for a value, 0 for 0.\<close>

definition bits_Len32 :: "u32 \<Rightarrow> nat" where
  "bits_Len32 x = (if x = 0 then 0 else Suc (log2_nat (unat x)))"

definition largeSizeClass :: "u32 \<Rightarrow> nat" where
  "largeSizeClass words =
     (let c = bits_Len32 (words - 1) - 7 in
      if numLargeClasses \<le> c then numLargeClasses - 1 else c)"

definition sizeClass :: "u32 \<Rightarrow> nat" where
  "sizeClass words =
     (if words \<le> 8 then unat (words - 1)
      else if words \<le> 16 then unat (8 + (words - 9) div 2)
      else if words \<le> 32 then unat (12 + (words - 17) div 4)
      else unat (16 + (words - 33) div 8))"

definition classWords :: "nat \<Rightarrow> u32" where
  "classWords c =
     (if c < 8 then word_of_nat (c + 1)
      else if c < 12 then word_of_nat (10 + 2 * (c - 8))
      else if c < 16 then word_of_nat (20 + 4 * (c - 12))
      else word_of_nat (40 + 8 * (c - 16)))"

text \<open>\<open>floorClass\<close> returns -1, here \<open>None\<close>, when no class fits.\<close>

fun floor_from :: "nat \<Rightarrow> u32 \<Rightarrow> nat option" where
  "floor_from c words =
     (if words < classWords c then (case c of 0 \<Rightarrow> None | Suc c' \<Rightarrow> floor_from c' words)
      else Some c)"

declare floor_from.simps [simp del]

definition floorClass :: "u32 \<Rightarrow> nat option" where
  "floorClass words =
     (if words = 0 then None
      else let words = (if largeThresholdWords < words then largeThresholdWords else words)
           in floor_from (sizeClass words) words)"

section \<open>The free lists\<close>

definition insertLarge :: "arena \<Rightarrow> gcref \<Rightarrow> u32 \<Rightarrow> arena option" where
  "insertLarge a ref words =
     (let c = largeSizeClass words; head = a_largeFreeHeads a c in do {
        a \<leftarrow> wset a (drop_bit 3 ref) head;
        a \<leftarrow> wset a (drop_bit 3 ref + 1) (ucast words);
        a \<leftarrow> wset a (drop_bit 3 ref + 2) 0;
        a \<leftarrow> (if \<not> IsNull head then wset a (drop_bit 3 head + 2) ref else Some a);
        Some (a\<lparr>a_largeFreeHeads := (a_largeFreeHeads a)(c := ref),
               a_largeByStart := (a_largeByStart a)(ref := Some words),
               a_largeByEnd := (a_largeByEnd a)(ref + ucast words * 8 := Some ref),
               a_freeBytes := a_freeBytes a + ucast words * 8\<rparr>)
      })"

definition unlinkLarge :: "arena \<Rightarrow> gcref \<Rightarrow> u32 \<Rightarrow> arena option" where
  "unlinkLarge a ref words = do {
     nxt \<leftarrow> wget a (drop_bit 3 ref);
     prv \<leftarrow> wget a (drop_bit 3 ref + 2);
     a \<leftarrow> (if IsNull prv
          then Some (a\<lparr>a_largeFreeHeads := (a_largeFreeHeads a)(largeSizeClass words := nxt)\<rparr>)
          else wset a (drop_bit 3 prv) nxt);
     a \<leftarrow> (if \<not> IsNull nxt then wset a (drop_bit 3 nxt + 2) prv else Some a);
     Some (a\<lparr>a_largeByStart := (a_largeByStart a)(ref := None),
            a_largeByEnd := (a_largeByEnd a)(ref + ucast words * 8 := None),
            a_freeBytes := a_freeBytes a - ucast words * 8\<rparr>)
   }"

text \<open>The slice expression and \<open>clear\<close>: zero the words from \<open>lo\<close> to below \<open>hi\<close>.\<close>

definition clear_words :: "arena \<Rightarrow> u64 \<Rightarrow> u64 \<Rightarrow> arena option" where
  "clear_words a lo hi =
     (if unat lo \<le> unat hi \<and> unat hi \<le> length (a_words a)
      then Some (a\<lparr>a_words := take (unat lo) (a_words a) @ replicate (unat hi - unat lo) 0 @
                              drop (unat hi) (a_words a)\<rparr>)
      else None)"

definition freeLarge :: "arena \<Rightarrow> gcref \<Rightarrow> u32 \<Rightarrow> arena option" where
  "freeLarge a ref words =
     (let start = ref; fin = ref + ucast words * 8 in do {
        (a, start) \<leftarrow>
          (case a_largeByEnd a start of
             Some prv \<Rightarrow> do {
               a \<leftarrow> unlinkLarge a prv (case a_largeByStart a prv of None \<Rightarrow> 0 | Some n \<Rightarrow> n);
               Some (a, prv) }
           | None \<Rightarrow> Some (a, start));
        (a, fin) \<leftarrow>
          (case a_largeByStart a fin of
             Some nw \<Rightarrow> do {
               a \<leftarrow> unlinkLarge a fin nw;
               Some (a, fin + ucast nw * 8) }
           | None \<Rightarrow> Some (a, fin));
        if fin = ucast (a_bump a)
        then do {
          a \<leftarrow> clear_words a (drop_bit 3 start) (drop_bit 3 fin);
          Some (a\<lparr>a_bump := ucast start\<rparr>) }
        else insertLarge a start (ucast ((fin - start) div 8))
      })"

definition Free :: "arena \<Rightarrow> gcref \<Rightarrow> u32 \<Rightarrow> arena option" where
  "Free a ref nbytes =
     (if IsNull ref then Some a
      else let need = roundUp8 nbytes;
               need = (if need = 0 then 8 else need);
               words = need div 8
           in if words \<le> largeThresholdWords
              then let c = sizeClass words; words = classWords c in do {
                     a \<leftarrow> wset a (drop_bit 3 ref) (a_freeHeads a c);
                     Some (a\<lparr>a_freeHeads := (a_freeHeads a)(c := ref),
                            a_freeBytes := a_freeBytes a + ucast words * 8\<rparr>) }
              else freeLarge a ref words)"

definition popSizeClass :: "arena \<Rightarrow> nat \<Rightarrow> (gcref \<times> arena) option" where
  "popSizeClass a c =
     (let ref = a_freeHeads a c in
      if IsNull ref then Some (0, a)
      else do {
        nxt \<leftarrow> wget a (drop_bit 3 ref);
        Some (ref, a\<lparr>a_freeHeads := (a_freeHeads a)(c := nxt),
                     a_freeBytes := a_freeBytes a - ucast (classWords c) * 8\<rparr>) })"

text \<open>
  First fit in one bucket: follow the chain from \<open>ref\<close> to the first block of at least
  \<open>needWords\<close>, 0 when there is none. A chain longer than the memory has words is circular,
  and the Go loop would not return: the fuel is one more than that.
\<close>

fun scan_bucket :: "nat \<Rightarrow> arena \<Rightarrow> u32 \<Rightarrow> gcref \<Rightarrow> (gcref \<times> u32) option" where
  "scan_bucket 0 a needWords ref = None"
| "scan_bucket (Suc fuel) a needWords ref =
     (if IsNull ref then Some (0, 0)
      else do {
        bw \<leftarrow> wget a (drop_bit 3 ref + 1);
        if (ucast bw :: u32) < needWords
        then do { nxt \<leftarrow> wget a (drop_bit 3 ref); scan_bucket fuel a needWords nxt }
        else Some (ref, ucast bw) })"

text \<open>What happens to the block found: unlink it and give the remainder back.\<close>

definition split_large :: "arena \<Rightarrow> gcref \<Rightarrow> u32 \<Rightarrow> u32 \<Rightarrow> arena option" where
  "split_large a ref bw needWords = do {
     a \<leftarrow> unlinkLarge a ref bw;
     (let rem = bw - needWords in
      if 0 < rem
      then let remRef = ref + ucast (needWords * 8) in
           if largeThresholdWords < rem then insertLarge a remRef rem
           else (case floorClass rem of
                   Some c \<Rightarrow> Free a remRef (classWords c * 8)
                 | None \<Rightarrow> Some a)
      else Some a)
   }"

text \<open>The climb over the buckets from \<open>cc\<close> on.\<close>

function pop_from :: "arena \<Rightarrow> u32 \<Rightarrow> nat \<Rightarrow> (gcref \<times> arena) option" where
  "pop_from a needWords cc =
     (if cc < numLargeClasses
      then do {
        (ref, bw) \<leftarrow> scan_bucket (Suc (length (a_words a))) a needWords (a_largeFreeHeads a cc);
        if IsNull ref then pop_from a needWords (Suc cc)
        else do { a \<leftarrow> split_large a ref bw needWords; Some (ref, a) } }
      else Some (0, a))"
  by pat_completeness auto
termination
  by (relation "measure (\<lambda>(a, needWords, cc). numLargeClasses - cc)") auto

declare grow_cap.simps [simp del] pop_from.simps [simp del]

definition popLarge :: "arena \<Rightarrow> u32 \<Rightarrow> (gcref \<times> arena) option" where
  "popLarge a needWords = pop_from a needWords (largeSizeClass needWords)"

section \<open>Allocation\<close>

text \<open>The bump path at the end of \<open>AllocBytes\<close>.\<close>

definition bump_alloc :: "arena \<Rightarrow> u32 \<Rightarrow> (gcref \<times> arena) option" where
  "bump_alloc a need = do {
     a \<leftarrow> (if (ucast (a_cap a) :: u64) < ucast (a_bump a) + ucast need
          then grow64 a (ucast (a_bump a) + ucast need) else Some a);
     Some (ucast (a_bump a), a\<lparr>a_bump := a_bump a + need\<rparr>)
   }"

definition AllocBytes :: "arena \<Rightarrow> u32 \<Rightarrow> (gcref \<times> arena) option" where
  "AllocBytes a nbytes =
     (if (ucast (a_maxCap a) :: u64) < ucast nbytes then None
      else let need = roundUp8 nbytes;
               need = (if need = 0 then 8 else need);
               words = need div 8
           in if words \<le> largeThresholdWords
              then let c = sizeClass words in do {
                     (ref, a) \<leftarrow> popSizeClass a c;
                     if \<not> IsNull ref
                     then do { a \<leftarrow> zeroFill a ref (classWords c); Some (ref, a) }
                     else bump_alloc a (classWords c * 8) }
              else do {
                     (ref, a) \<leftarrow> popLarge a words;
                     if \<not> IsNull ref
                     then do { a \<leftarrow> zeroFill a ref words; Some (ref, a) }
                     else bump_alloc a need })"

definition AllocWords :: "arena \<Rightarrow> u32 \<Rightarrow> (gcref \<times> arena) option" where
  "AllocWords a words =
     (if (ucast (a_maxCap a) :: u64) < ucast words * 8 then None else AllocBytes a (words * 8))"

definition FreeBytes :: "arena \<Rightarrow> u64" where "FreeBytes a = a_freeBytes a"


section \<open>Facts about the size classes\<close>

lemma u32_range_all:
  assumes "\<forall>n\<in>set [lo..<hi]. P (word_of_nat n :: u32)" and "lo \<le> unat w" and "unat w < hi"
  shows "P w"
proof -
  have "w = word_of_nat (unat w)" by simp
  then show ?thesis using assms by (metis atLeastLessThan_iff set_upt)
qed

definition class_ok :: "u32 \<Rightarrow> bool" where
  "class_ok w \<longleftrightarrow> sizeClass w < 20 \<and> unat w \<le> unat (classWords (sizeClass w)) \<and>
     unat (classWords (sizeClass w)) \<le> 64 \<and>
     (\<forall>c\<in>set [0..<20]. unat w \<le> unat (classWords c) \<longrightarrow> sizeClass w \<le> c)"

lemma class_ok_all: "1 \<le> unat w \<Longrightarrow> unat w \<le> 64 \<Longrightarrow> class_ok w"
  by (rule u32_range_all [of 1 65]) (code_simp, simp_all)

lemma classWords_ok: "c < 20 \<Longrightarrow> sizeClass (classWords c) = c \<and> 1 \<le> unat (classWords c) \<and>
    unat (classWords c) \<le> 64"
proof -
  have "\<forall>c\<in>set [0..<20]. sizeClass (classWords c) = c \<and> 1 \<le> unat (classWords c) \<and>
    unat (classWords c) \<le> 64" by code_simp
  then show "c < 20 \<Longrightarrow> ?thesis" by simp
qed

definition floor_ok :: "u32 \<Rightarrow> bool" where
  "floor_ok w \<longleftrightarrow> (case floorClass w of None \<Rightarrow> False
     | Some c \<Rightarrow> c < 20 \<and> unat (classWords c) \<le> unat w \<and> unat w < unat (classWords c) + 8 \<and>
         (\<forall>d\<in>set [0..<20]. unat (classWords d) \<le> unat w \<longrightarrow> d \<le> c))"

lemma floor_ok_all: "1 \<le> unat w \<Longrightarrow> unat w \<le> 64 \<Longrightarrow> floor_ok w"
  by (rule u32_range_all [of 1 65]) (code_simp, simp_all)

end
