(* ===== verification/Object.thy ===== *)
theory Object
  imports Arena
begin

text \<open>
  The arena-resident objects of \<open>internal/object\<close>: the header word (\<open>header.go\<close>), strings
  (\<open>string.go\<close>), tables (\<open>table.go\<close>), closures and upvalues (\<open>closure.go\<close>), userdata and
  threads (\<open>thread.go\<close>) and their sizes (\<open>size.go\<close>). Each constructor and setter threads the
  arena and is \<open>None\<close> where the Go code panics: misaligned or out-of-range access, exhausted
  capacity, or an explicit panic.
\<close>

section \<open>header.go\<close>

type_synonym objtype = u8

definition OBJ_NONE :: objtype where "OBJ_NONE = 0"
definition OBJ_STRING :: objtype where "OBJ_STRING = 1"
definition OBJ_TABLE :: objtype where "OBJ_TABLE = 2"
definition OBJ_CLOSURE :: objtype where "OBJ_CLOSURE = 3"
definition OBJ_USERDATA :: objtype where "OBJ_USERDATA = 4"
definition OBJ_THREAD :: objtype where "OBJ_THREAD = 5"
definition OBJ_PROTO :: objtype where "OBJ_PROTO = 6"
definition OBJ_UPVAL :: objtype where "OBJ_UPVAL = 7"

definition hdrOTypeMask :: u64 where "hdrOTypeMask = 0xFF"
definition hdrColorShift :: nat where "hdrColorShift = 8"
definition hdrColorMask :: u64 where "hdrColorMask = push_bit hdrColorShift 0x3"
definition hdrFixedBit :: u64 where "hdrFixedBit = push_bit 10 1"
definition hdrHasGCNextBit :: u64 where "hdrHasGCNextBit = push_bit 11 1"
definition hdrFlagsShift :: nat where "hdrFlagsShift = 12"
definition hdrFlagsMask :: u64 where "hdrFlagsMask = push_bit hdrFlagsShift 0xF"
definition hdrGCNextShift :: nat where "hdrGCNextShift = 16"

definition HeaderOf :: "arena \<Rightarrow> gcref \<Rightarrow> u64 option" where "HeaderOf a ref = WordAt a ref"

definition SetHeader :: "arena \<Rightarrow> gcref \<Rightarrow> u64 \<Rightarrow> arena option" where
  "SetHeader a ref h = SetWordAt a ref h"

definition MakeHeader :: "objtype \<Rightarrow> u8 \<Rightarrow> bool \<Rightarrow> u8 \<Rightarrow> gcref \<Rightarrow> u64" where
  "MakeHeader otype color fixed flags gcnext =
     (let h = ucast otype AND hdrOTypeMask;
          h = h OR push_bit hdrColorShift (ucast color AND 0x3);
          h = (if fixed then h OR hdrFixedBit else h);
          h = h OR push_bit hdrFlagsShift (ucast flags AND 0xF)
      in if gcnext \<noteq> 0 then h OR (hdrHasGCNextBit OR push_bit hdrGCNextShift gcnext) else h)"

definition OTypeOf :: "u64 \<Rightarrow> objtype" where "OTypeOf h = ucast (h AND hdrOTypeMask)"
definition ColorOf :: "u64 \<Rightarrow> u8" where "ColorOf h = ucast (drop_bit hdrColorShift (h AND hdrColorMask))"
definition IsFixed :: "u64 \<Rightarrow> bool" where "IsFixed h \<longleftrightarrow> h AND hdrFixedBit \<noteq> 0"
definition HasGCNext :: "u64 \<Rightarrow> bool" where "HasGCNext h \<longleftrightarrow> h AND hdrHasGCNextBit \<noteq> 0"
definition FlagsOf :: "u64 \<Rightarrow> u8" where "FlagsOf h = ucast (drop_bit hdrFlagsShift (h AND hdrFlagsMask))"
definition GCNextOf :: "u64 \<Rightarrow> gcref" where "GCNextOf h = drop_bit hdrGCNextShift h"

definition SetColor :: "u64 \<Rightarrow> u8 \<Rightarrow> u64" where
  "SetColor h c = (h AND NOT hdrColorMask) OR push_bit hdrColorShift (ucast c AND 0x3)"

definition SetFlags :: "u64 \<Rightarrow> u8 \<Rightarrow> u64" where
  "SetFlags h f = (h AND NOT hdrFlagsMask) OR push_bit hdrFlagsShift (ucast f AND 0xF)"

definition SetGCNext :: "u64 \<Rightarrow> gcref \<Rightarrow> u64" where
  "SetGCNext h ref =
     (let h = h AND NOT (push_bit hdrGCNextShift 0xFFFFFFFFFFFF OR hdrHasGCNextBit)
      in if ref \<noteq> 0 then h OR (hdrHasGCNextBit OR push_bit hdrGCNextShift ref) else h)"

definition ColorWhite0 :: u8 where "ColorWhite0 = 0"
definition ColorWhite1 :: u8 where "ColorWhite1 = 1"
definition ColorGray :: u8 where "ColorGray = 2"
definition ColorBlack :: u8 where "ColorBlack = 3"

definition allocateRaw :: "arena \<Rightarrow> objtype \<Rightarrow> u32 \<Rightarrow> u8 \<Rightarrow> (gcref \<times> arena) option" where
  "allocateRaw a otype words flags = do {
     (ref, a) \<leftarrow> AllocWords a words;
     a \<leftarrow> SetHeader a ref (MakeHeader otype ColorWhite0 False flags 0);
     Some (ref, a) }"

definition wordAt :: "arena \<Rightarrow> gcref \<Rightarrow> u32 \<Rightarrow> u64 option" where
  "wordAt a ref i = WordAt a (ref + ucast (i * 8))"

definition setWordAt :: "arena \<Rightarrow> gcref \<Rightarrow> u32 \<Rightarrow> u64 \<Rightarrow> arena option" where
  "setWordAt a ref i v = SetWordAt a (ref + ucast (i * 8)) v"

text \<open>The loops that set consecutive word slots to one value.\<close>

fun setSlots :: "arena \<Rightarrow> gcref \<Rightarrow> u32 \<Rightarrow> nat \<Rightarrow> u64 \<Rightarrow> arena option" where
  "setSlots a ref base 0 v = Some a"
| "setSlots a ref base (Suc n) v = do {
     a \<leftarrow> setSlots a ref base n v;
     setWordAt a ref (base + word_of_nat n) v }"

section \<open>string.go\<close>

text \<open>The byte view of the words (little-endian).\<close>

definition byteAt :: "u64 list \<Rightarrow> nat \<Rightarrow> u8" where
  "byteAt ws k = ucast (drop_bit (8 * (k mod 8)) (ws ! (k div 8)))"

definition setByte :: "u64 list \<Rightarrow> nat \<Rightarrow> u8 \<Rightarrow> u64 list" where
  "setByte ws k b = ws[k div 8 := (ws ! (k div 8) AND NOT (push_bit (8 * (k mod 8)) 0xFF)) OR
                                  push_bit (8 * (k mod 8)) (ucast b)]"

fun copyBytes :: "u64 list \<Rightarrow> nat \<Rightarrow> u8 list \<Rightarrow> u64 list" where
  "copyBytes ws off [] = ws"
| "copyBytes ws off (b # bs) = (if off < length ws * 8 then copyBytes (setByte ws off b) (Suc off) bs else ws)"

definition bytesSlice :: "arena \<Rightarrow> u32 \<Rightarrow> u32 \<Rightarrow> u8 list option" where
  "bytesSlice a lo hi =
     (if unat lo \<le> unat hi \<and> unat hi \<le> length (a_words a) * 8
      then Some (map (byteAt (a_words a)) [unat lo..<unat hi]) else None)"

definition strHashLenIdx :: u32 where "strHashLenIdx = 1"
definition strDataIdx :: u32 where "strDataIdx = 2"

definition stringWords :: "u32 \<Rightarrow> u32" where
  "stringWords byteLen =
     (let contentBytes = byteLen + 1; contentWords = (contentBytes + 7) div 8 in 2 + contentWords)"

definition maxStrBytes :: u64 where "maxStrBytes = ucast MaxBytes - 64"

definition AllocString :: "arena \<Rightarrow> u8 list \<Rightarrow> u32 \<Rightarrow> (gcref \<times> arena) option" where
  "AllocString a b hash32 =
     (if unat maxStrBytes < length b then None
      else do {
        (ref, a) \<leftarrow> allocateRaw a OBJ_STRING (stringWords (word_of_nat (length b))) 0;
        a \<leftarrow> setWordAt a ref strHashLenIdx (ucast hash32 OR push_bit 32 (ucast (word_of_nat (length b) :: u32)));
        if 0 < length b
        then (let off = ucast ref + strDataIdx * 8 :: u32 in
              if unat off \<le> length (a_words a) * 8
              then Some (ref, a\<lparr>a_words := copyBytes (a_words a) (unat off) b\<rparr>) else None)
        else Some (ref, a) })"

definition StringHash :: "arena \<Rightarrow> gcref \<Rightarrow> u32 option" where
  "StringHash a ref = do { w \<leftarrow> wordAt a ref strHashLenIdx; Some (ucast w) }"

definition StringLen :: "arena \<Rightarrow> gcref \<Rightarrow> u32 option" where
  "StringLen a ref = do { w \<leftarrow> wordAt a ref strHashLenIdx; Some (ucast (drop_bit 32 w)) }"

definition StringBytes :: "arena \<Rightarrow> gcref \<Rightarrow> u8 list option" where
  "StringBytes a ref = do {
     n \<leftarrow> StringLen a ref;
     if n = 0 then Some []
     else (let off = ucast ref + strDataIdx * 8 in bytesSlice a off (off + n)) }"

definition StringEqual :: "arena \<Rightarrow> gcref \<Rightarrow> gcref \<Rightarrow> bool option" where
  "StringEqual a x y =
     (if x = y then Some True
      else do {
        lx \<leftarrow> StringLen a x;
        ly \<leftarrow> StringLen a y;
        if lx \<noteq> ly then Some False
        else do {
          xb \<leftarrow> StringBytes a x;
          yb \<leftarrow> StringBytes a y;
          Some (\<forall>i\<in>set [0..<length xb]. xb ! i = yb ! i) } })"

section \<open>table.go\<close>

definition tableSizesIdx :: u32 where "tableSizesIdx = 1"
definition tableArrayIdx :: u32 where "tableArrayIdx = 2"
definition tableNodeIdx :: u32 where "tableNodeIdx = 3"
definition tableMetaIdx :: u32 where "tableMetaIdx = 4"
definition tableLastFreeGen :: u32 where "tableLastFreeGen = 5"
definition tableHeadWords :: u32 where "tableHeadWords = 6"
definition nodeWords :: u32 where "nodeWords = 3"

definition tableFlagHasMeta :: u8 where "tableFlagHasMeta = push_bit 0 1"
definition tableFlagWeakKey :: u8 where "tableFlagWeakKey = push_bit 1 1"
definition tableFlagWeakVal :: u8 where "tableFlagWeakVal = push_bit 2 1"

definition initArraySlots :: "arena \<Rightarrow> gcref \<Rightarrow> u32 \<Rightarrow> arena option" where
  "initArraySlots a ref asize =
     (let lo = unat (drop_bit 3 ref); hi = unat (drop_bit 3 ref + ucast asize) in
      if lo \<le> hi \<and> hi \<le> length (a_words a)
      then Some (a\<lparr>a_words := take lo (a_words a) @ replicate (hi - lo) VNil @ drop hi (a_words a)\<rparr>)
      else None)"

fun nodeInit :: "nat \<Rightarrow> u64 list" where
  "nodeInit 0 = []"
| "nodeInit (Suc n) = [VNil, VNil, 0xFFFFFFFF] @ nodeInit n"

definition initNodeSlots :: "arena \<Rightarrow> gcref \<Rightarrow> u32 \<Rightarrow> arena option" where
  "initNodeSlots a ref hsize =
     (let lo = unat (drop_bit 3 ref); hi = unat (drop_bit 3 ref + ucast (hsize * nodeWords)) in
      if lo \<le> hi \<and> hi \<le> length (a_words a) \<and> 3 * unat hsize \<le> hi - lo
      then Some (a\<lparr>a_words := take lo (a_words a) @ nodeInit (unat hsize) @
                             drop (lo + 3 * unat hsize) (a_words a)\<rparr>)
      else None)"

definition AllocTable :: "arena \<Rightarrow> u32 \<Rightarrow> u32 \<Rightarrow> (gcref \<times> arena) option" where
  "AllocTable a asize hsize =
     (if hsize \<noteq> 0 \<and> hsize AND (hsize - 1) \<noteq> 0 then None
      else do {
        (headRef, a) \<leftarrow> allocateRaw a OBJ_TABLE tableHeadWords 0;
        (arrayRef, a) \<leftarrow> (if 0 < asize then do {
              (r, a) \<leftarrow> AllocWords a asize; a \<leftarrow> initArraySlots a r asize; Some (r, a) }
            else Some (0, a));
        (nodeRef, a) \<leftarrow> (if 0 < hsize then do {
              (r, a) \<leftarrow> AllocWords a (nodeWords * hsize); a \<leftarrow> initNodeSlots a r hsize; Some (r, a) }
            else Some (0, a));
        let hmask = (if 0 < hsize then hsize - 1 else 0);
        a \<leftarrow> setWordAt a headRef tableSizesIdx (ucast asize OR push_bit 32 (ucast hmask));
        a \<leftarrow> setWordAt a headRef tableArrayIdx arrayRef;
        a \<leftarrow> setWordAt a headRef tableNodeIdx nodeRef;
        a \<leftarrow> setWordAt a headRef tableMetaIdx 0;
        a \<leftarrow> setWordAt a headRef tableLastFreeGen 0;
        Some (headRef, a) })"

definition TableASize :: "arena \<Rightarrow> gcref \<Rightarrow> u32 option" where
  "TableASize a t = do { w \<leftarrow> wordAt a t tableSizesIdx; Some (ucast w) }"

definition TableHMask :: "arena \<Rightarrow> gcref \<Rightarrow> u32 option" where
  "TableHMask a t = do { w \<leftarrow> wordAt a t tableSizesIdx; Some (ucast (drop_bit 32 w)) }"

definition TableHSize :: "arena \<Rightarrow> gcref \<Rightarrow> u32 option" where
  "TableHSize a t = do {
     w \<leftarrow> wordAt a t tableSizesIdx;
     (let w = drop_bit 32 w in
      if w = 0 then do { n \<leftarrow> wordAt a t tableNodeIdx; Some (if n = 0 then 0 else ucast w + 1) }
      else Some (ucast w + 1)) }"

definition TableArrayRef :: "arena \<Rightarrow> gcref \<Rightarrow> gcref option" where
  "TableArrayRef a t = wordAt a t tableArrayIdx"

definition TableNodeRef :: "arena \<Rightarrow> gcref \<Rightarrow> gcref option" where
  "TableNodeRef a t = wordAt a t tableNodeIdx"

definition TableMetaRef :: "arena \<Rightarrow> gcref \<Rightarrow> gcref option" where
  "TableMetaRef a t = wordAt a t tableMetaIdx"

definition TableGen :: "arena \<Rightarrow> gcref \<Rightarrow> u32 option" where
  "TableGen a t = do { w \<leftarrow> wordAt a t tableLastFreeGen; Some (ucast (drop_bit 32 w)) }"

definition BumpGen :: "arena \<Rightarrow> gcref \<Rightarrow> arena option" where
  "BumpGen a t = do {
     w \<leftarrow> wordAt a t tableLastFreeGen;
     (let gen = ucast (drop_bit 32 w) + 1 :: u32 in
      setWordAt a t tableLastFreeGen (ucast (ucast w :: u32) OR push_bit 32 (ucast gen))) }"

definition SetTableMeta :: "arena \<Rightarrow> gcref \<Rightarrow> gcref \<Rightarrow> arena option" where
  "SetTableMeta a t meta = do {
     a \<leftarrow> setWordAt a t tableMetaIdx meta;
     h \<leftarrow> HeaderOf a t;
     (let flags = FlagsOf h;
          flags = (if meta = 0 then flags AND NOT tableFlagHasMeta else flags OR tableFlagHasMeta)
      in do { a \<leftarrow> SetHeader a t (SetFlags h flags); BumpGen a t }) }"

definition TableHasMeta :: "arena \<Rightarrow> gcref \<Rightarrow> bool option" where
  "TableHasMeta a t = do { h \<leftarrow> HeaderOf a t; Some (FlagsOf h AND tableFlagHasMeta \<noteq> 0) }"

definition TableLastFree :: "arena \<Rightarrow> gcref \<Rightarrow> u32 option" where
  "TableLastFree a t = do { w \<leftarrow> wordAt a t tableLastFreeGen; Some (ucast w) }"

definition SetTableLastFree :: "arena \<Rightarrow> gcref \<Rightarrow> u32 \<Rightarrow> arena option" where
  "SetTableLastFree a t lf = do {
     w \<leftarrow> wordAt a t tableLastFreeGen;
     setWordAt a t tableLastFreeGen (ucast lf OR (w AND 0xFFFFFFFF00000000)) }"

definition SetTableArray :: "arena \<Rightarrow> gcref \<Rightarrow> gcref \<Rightarrow> u32 \<Rightarrow> arena option" where
  "SetTableArray a t arrayRef asize = do {
     w \<leftarrow> wordAt a t tableSizesIdx;
     a \<leftarrow> setWordAt a t tableSizesIdx (ucast asize OR (w AND 0xFFFFFFFF00000000));
     setWordAt a t tableArrayIdx arrayRef }"

definition SetTableNode :: "arena \<Rightarrow> gcref \<Rightarrow> gcref \<Rightarrow> u32 \<Rightarrow> arena option" where
  "SetTableNode a t nodeRef hsize =
     (let hmask = (if 0 < hsize then hsize - 1 else 0) in do {
        w \<leftarrow> wordAt a t tableSizesIdx;
        a \<leftarrow> setWordAt a t tableSizesIdx ((w AND 0xFFFFFFFF) OR push_bit 32 (ucast hmask));
        setWordAt a t tableNodeIdx nodeRef })"

definition AllocTableArray :: "arena \<Rightarrow> u32 \<Rightarrow> (gcref \<times> arena) option" where
  "AllocTableArray a asize = do {
     (ref, a) \<leftarrow> AllocWords a asize; a \<leftarrow> initArraySlots a ref asize; Some (ref, a) }"

definition AllocTableNode :: "arena \<Rightarrow> u32 \<Rightarrow> (gcref \<times> arena) option" where
  "AllocTableNode a hsize = do {
     (ref, a) \<leftarrow> AllocWords a (nodeWords * hsize); a \<leftarrow> initNodeSlots a ref hsize; Some (ref, a) }"

definition TableArrayAt :: "arena \<Rightarrow> gcref \<Rightarrow> u32 \<Rightarrow> lvalue option" where
  "TableArrayAt a t i = do { arr \<leftarrow> TableArrayRef a t; WordAt a (arr + ucast (i * 8)) }"

definition SetTableArrayAt :: "arena \<Rightarrow> gcref \<Rightarrow> u32 \<Rightarrow> lvalue \<Rightarrow> arena option" where
  "SetTableArrayAt a t i v = do { arr \<leftarrow> TableArrayRef a t; SetWordAt a (arr + ucast (i * 8)) v }"

definition NodeKey :: "arena \<Rightarrow> gcref \<Rightarrow> u32 \<Rightarrow> lvalue option" where
  "NodeKey a t i = do { node \<leftarrow> TableNodeRef a t; WordAt a (node + ucast (i * nodeWords * 8)) }"

definition NodeVal :: "arena \<Rightarrow> gcref \<Rightarrow> u32 \<Rightarrow> lvalue option" where
  "NodeVal a t i = do { node \<leftarrow> TableNodeRef a t; WordAt a (node + ucast (i * nodeWords * 8 + 8)) }"

definition NodeNext :: "arena \<Rightarrow> gcref \<Rightarrow> u32 \<Rightarrow> int option" where
  "NodeNext a t i = do {
     node \<leftarrow> TableNodeRef a t;
     w \<leftarrow> WordAt a (node + ucast (i * nodeWords * 8 + 16));
     Some (sint (ucast w :: u32)) }"

definition SetNode :: "arena \<Rightarrow> gcref \<Rightarrow> u32 \<Rightarrow> lvalue \<Rightarrow> lvalue \<Rightarrow> int \<Rightarrow> arena option" where
  "SetNode a t i key val nxt = do {
     node \<leftarrow> TableNodeRef a t;
     (let base = node + ucast (i * nodeWords * 8) in do {
        a \<leftarrow> SetWordAt a base key;
        a \<leftarrow> SetWordAt a (base + 8) val;
        SetWordAt a (base + 16) (ucast (word_of_int nxt :: u32)) }) }"

text \<open>The mode byte is 'k', 'v', 'a' or 0.\<close>

definition TableWeakMode :: "arena \<Rightarrow> gcref \<Rightarrow> u8 option" where
  "TableWeakMode a t = do {
     h \<leftarrow> HeaderOf a t;
     (let f = FlagsOf h; wk = f AND tableFlagWeakKey \<noteq> 0; wv = f AND tableFlagWeakVal \<noteq> 0
      in Some (if wk \<and> wv then 97 else if wk then 107 else if wv then 118 else 0)) }"

definition SetTableWeakFlags :: "arena \<Rightarrow> gcref \<Rightarrow> bool \<Rightarrow> bool \<Rightarrow> arena option" where
  "SetTableWeakFlags a t weakKey weakVal = do {
     h \<leftarrow> HeaderOf a t;
     (let f = FlagsOf h;
          f = f AND NOT (tableFlagWeakKey OR tableFlagWeakVal);
          f = (if weakKey then f OR tableFlagWeakKey else f);
          f = (if weakVal then f OR tableFlagWeakVal else f)
      in SetHeader a t (SetFlags h f)) }"

section \<open>closure.go\<close>

definition closureMetaIdx :: u32 where "closureMetaIdx = 1"
definition closureSlotIdx :: u32 where "closureSlotIdx = 2"
definition upvalLocIdx :: u32 where "upvalLocIdx = 1"
definition upvalValueIdx :: u32 where "upvalValueIdx = 2"
definition closureFlagHost :: u8 where "closureFlagHost = push_bit 0 1"
definition upvalFlagClosed :: u8 where "upvalFlagClosed = push_bit 0 1"
definition closureSlotShift :: nat where "closureSlotShift = 48"
definition closureSlotMask :: u64 where "closureSlotMask = push_bit closureSlotShift 0xffff"

definition AllocLuaClosure :: "arena \<Rightarrow> u32 \<Rightarrow> u16 \<Rightarrow> (gcref \<times> arena) option" where
  "AllocLuaClosure a protoID nupvals = do {
     (ref, a) \<leftarrow> allocateRaw a OBJ_CLOSURE (2 + ucast nupvals) 0;
     a \<leftarrow> setWordAt a ref closureMetaIdx (ucast protoID OR push_bit 32 (ucast nupvals));
     a \<leftarrow> setSlots a ref closureSlotIdx (unat nupvals) 0;
     Some (ref, a) }"

definition AllocHostClosure :: "arena \<Rightarrow> u32 \<Rightarrow> u16 \<Rightarrow> (gcref \<times> arena) option" where
  "AllocHostClosure a hostFnID nupvals = do {
     (ref, a) \<leftarrow> allocateRaw a OBJ_CLOSURE (2 + ucast nupvals) closureFlagHost;
     a \<leftarrow> setWordAt a ref closureMetaIdx (ucast hostFnID OR push_bit 32 (ucast nupvals));
     a \<leftarrow> setSlots a ref closureSlotIdx (unat nupvals) VNil;
     Some (ref, a) }"

definition IsHostClosure :: "arena \<Rightarrow> gcref \<Rightarrow> bool option" where
  "IsHostClosure a c = do { h \<leftarrow> HeaderOf a c; Some (FlagsOf h AND closureFlagHost \<noteq> 0) }"

definition ClosureProtoID :: "arena \<Rightarrow> gcref \<Rightarrow> u32 option" where
  "ClosureProtoID a c = do { w \<leftarrow> wordAt a c closureMetaIdx; Some (ucast w) }"

definition ClosureNUpvals :: "arena \<Rightarrow> gcref \<Rightarrow> u16 option" where
  "ClosureNUpvals a c = do { w \<leftarrow> wordAt a c closureMetaIdx; Some (ucast (drop_bit 32 w)) }"

text \<open>The pair (slot, filled).\<close>

definition ClosureGibbousSlot :: "arena \<Rightarrow> gcref \<Rightarrow> (u32 \<times> bool) option" where
  "ClosureGibbousSlot a c = do {
     w \<leftarrow> wordAt a c closureMetaIdx;
     (let enc = ucast (drop_bit closureSlotShift w) :: u32
      in Some (if enc = 0 then (0, False) else (enc - 1, True))) }"

definition SetClosureGibbousSlot :: "arena \<Rightarrow> gcref \<Rightarrow> u32 \<Rightarrow> arena option" where
  "SetClosureGibbousSlot a c slot =
     (if 0xffff \<le> slot then Some a
      else do {
        w \<leftarrow> wordAt a c closureMetaIdx;
        setWordAt a c closureMetaIdx
          ((w AND NOT closureSlotMask) OR push_bit closureSlotShift (ucast (slot + 1))) })"

definition ClosureUpvalRef :: "arena \<Rightarrow> gcref \<Rightarrow> u16 \<Rightarrow> gcref option" where
  "ClosureUpvalRef a c i = wordAt a c (closureSlotIdx + ucast i)"

definition SetClosureUpvalRef :: "arena \<Rightarrow> gcref \<Rightarrow> u16 \<Rightarrow> gcref \<Rightarrow> arena option" where
  "SetClosureUpvalRef a c i uv = setWordAt a c (closureSlotIdx + ucast i) uv"

definition HostClosureUpval :: "arena \<Rightarrow> gcref \<Rightarrow> u16 \<Rightarrow> lvalue option" where
  "HostClosureUpval a c i = wordAt a c (closureSlotIdx + ucast i)"

definition SetHostClosureUpval :: "arena \<Rightarrow> gcref \<Rightarrow> u16 \<Rightarrow> lvalue \<Rightarrow> arena option" where
  "SetHostClosureUpval a c i v = setWordAt a c (closureSlotIdx + ucast i) v"

definition AllocOpenUpvalue :: "arena \<Rightarrow> gcref \<Rightarrow> u32 \<Rightarrow> gcref \<Rightarrow> (gcref \<times> arena) option" where
  "AllocOpenUpvalue a threadRef stackIdx nextOpen = do {
     (ref, a) \<leftarrow> allocateRaw a OBJ_UPVAL 3 0;
     a \<leftarrow> setWordAt a ref upvalLocIdx (ucast stackIdx OR push_bit 32 (ucast (ucast threadRef :: u32)));
     a \<leftarrow> setWordAt a ref upvalValueIdx nextOpen;
     Some (ref, a) }"

definition AllocClosedUpvalue :: "arena \<Rightarrow> lvalue \<Rightarrow> (gcref \<times> arena) option" where
  "AllocClosedUpvalue a v = do {
     (ref, a) \<leftarrow> allocateRaw a OBJ_UPVAL 3 upvalFlagClosed;
     a \<leftarrow> setWordAt a ref upvalLocIdx 0;
     a \<leftarrow> setWordAt a ref upvalValueIdx v;
     Some (ref, a) }"

definition UpvalIsClosed :: "arena \<Rightarrow> gcref \<Rightarrow> bool option" where
  "UpvalIsClosed a uv = do { h \<leftarrow> HeaderOf a uv; Some (FlagsOf h AND upvalFlagClosed \<noteq> 0) }"

definition UpvalStackIdx :: "arena \<Rightarrow> gcref \<Rightarrow> u32 option" where
  "UpvalStackIdx a uv = do { w \<leftarrow> wordAt a uv upvalLocIdx; Some (ucast w) }"

definition UpvalThreadRefLo :: "arena \<Rightarrow> gcref \<Rightarrow> u32 option" where
  "UpvalThreadRefLo a uv = do { w \<leftarrow> wordAt a uv upvalLocIdx; Some (ucast (drop_bit 32 w)) }"

definition UpvalNextOpen :: "arena \<Rightarrow> gcref \<Rightarrow> gcref option" where
  "UpvalNextOpen a uv = wordAt a uv upvalValueIdx"

definition SetUpvalNextOpen :: "arena \<Rightarrow> gcref \<Rightarrow> gcref \<Rightarrow> arena option" where
  "SetUpvalNextOpen a uv nxt = setWordAt a uv upvalValueIdx nxt"

definition UpvalClosedValue :: "arena \<Rightarrow> gcref \<Rightarrow> lvalue option" where
  "UpvalClosedValue a uv = wordAt a uv upvalValueIdx"

definition CloseUpvalue :: "arena \<Rightarrow> gcref \<Rightarrow> lvalue \<Rightarrow> arena option" where
  "CloseUpvalue a uv current = do {
     a \<leftarrow> setWordAt a uv upvalLocIdx 0;
     a \<leftarrow> setWordAt a uv upvalValueIdx current;
     h \<leftarrow> HeaderOf a uv;
     SetHeader a uv (SetFlags h (FlagsOf h OR upvalFlagClosed)) }"

section \<open>thread.go\<close>

definition udLenIdx :: u32 where "udLenIdx = 1"
definition udMetaIdx :: u32 where "udMetaIdx = 2"
definition udEnvIdx :: u32 where "udEnvIdx = 3"
definition udPayloadIdx :: u32 where "udPayloadIdx = 4"
definition udFlagHasMeta :: u8 where "udFlagHasMeta = push_bit 0 1"

definition userdataWords :: "u32 \<Rightarrow> u32" where "userdataWords payloadLen = 4 + (payloadLen + 7) div 8"

definition maxUDPayload :: u32 where "maxUDPayload = push_bit 31 1 - 64"

definition AllocUserdata :: "arena \<Rightarrow> u32 \<Rightarrow> (gcref \<times> arena) option" where
  "AllocUserdata a payloadLen =
     (if maxUDPayload < payloadLen then None
      else do {
        (ref, a) \<leftarrow> allocateRaw a OBJ_USERDATA (userdataWords payloadLen) 0;
        a \<leftarrow> setWordAt a ref udLenIdx (ucast payloadLen);
        a \<leftarrow> setWordAt a ref udMetaIdx 0;
        a \<leftarrow> setWordAt a ref udEnvIdx 0;
        Some (ref, a) })"

definition UserdataLen :: "arena \<Rightarrow> gcref \<Rightarrow> u32 option" where
  "UserdataLen a ud = do { w \<leftarrow> wordAt a ud udLenIdx; Some (ucast w) }"

definition UserdataMetaRef :: "arena \<Rightarrow> gcref \<Rightarrow> gcref option" where
  "UserdataMetaRef a ud = wordAt a ud udMetaIdx"

definition SetUserdataMeta :: "arena \<Rightarrow> gcref \<Rightarrow> gcref \<Rightarrow> arena option" where
  "SetUserdataMeta a ud meta = do {
     a \<leftarrow> setWordAt a ud udMetaIdx meta;
     h \<leftarrow> HeaderOf a ud;
     (let flags = FlagsOf h;
          flags = (if meta = 0 then flags AND NOT udFlagHasMeta else flags OR udFlagHasMeta)
      in SetHeader a ud (SetFlags h flags)) }"

definition UserdataEnvRef :: "arena \<Rightarrow> gcref \<Rightarrow> gcref option" where
  "UserdataEnvRef a ud = wordAt a ud udEnvIdx"

definition SetUserdataEnv :: "arena \<Rightarrow> gcref \<Rightarrow> gcref \<Rightarrow> arena option" where
  "SetUserdataEnv a ud env = setWordAt a ud udEnvIdx env"

definition UserdataPayload :: "arena \<Rightarrow> gcref \<Rightarrow> u8 list option" where
  "UserdataPayload a ud = do {
     n \<leftarrow> UserdataLen a ud;
     if n = 0 then Some []
     else (let off = ucast ud + udPayloadIdx * 8 in bytesSlice a off (off + n)) }"

type_synonym thread_status = u8

definition StatusRunning :: thread_status where "StatusRunning = 0"
definition StatusSuspended :: thread_status where "StatusSuspended = 1"
definition StatusNormal :: thread_status where "StatusNormal = 2"
definition StatusDead :: thread_status where "StatusDead = 3"

definition threadStatusIdx :: u32 where "threadStatusIdx = 1"
definition threadValueStackIdx :: u32 where "threadValueStackIdx = 2"
definition threadTopCapIdx :: u32 where "threadTopCapIdx = 3"
definition threadCallInfoIdx :: u32 where "threadCallInfoIdx = 4"
definition threadCITopCapIdx :: u32 where "threadCITopCapIdx = 5"
definition threadOpenUpvalIdx :: u32 where "threadOpenUpvalIdx = 6"
definition threadErrorJmpIdx :: u32 where "threadErrorJmpIdx = 7"
definition threadResumeFromIdx :: u32 where "threadResumeFromIdx = 8"
definition threadHeadWords :: u32 where "threadHeadWords = 9"

definition AllocThread :: "arena \<Rightarrow> u32 \<Rightarrow> u32 \<Rightarrow> (gcref \<times> arena) option" where
  "AllocThread a stackCap ciCap = do {
     (ref, a) \<leftarrow> allocateRaw a OBJ_THREAD threadHeadWords 0;
     (stackRef, a) \<leftarrow> AllocWords a stackCap;
     a \<leftarrow> setSlots a stackRef 0 (unat stackCap) VNil;
     (ciRef, a) \<leftarrow> AllocWords a (ciCap * 4);
     a \<leftarrow> setWordAt a ref threadStatusIdx (ucast StatusSuspended);
     a \<leftarrow> setWordAt a ref threadValueStackIdx stackRef;
     a \<leftarrow> setWordAt a ref threadTopCapIdx (push_bit 32 (ucast stackCap));
     a \<leftarrow> setWordAt a ref threadCallInfoIdx ciRef;
     a \<leftarrow> setWordAt a ref threadCITopCapIdx (push_bit 32 (ucast ciCap));
     a \<leftarrow> setWordAt a ref threadOpenUpvalIdx 0;
     a \<leftarrow> setWordAt a ref threadErrorJmpIdx 0;
     a \<leftarrow> setWordAt a ref threadResumeFromIdx 0;
     Some (ref, a) }"

definition AllocThreadHandle :: "arena \<Rightarrow> u64 \<Rightarrow> (gcref \<times> arena) option" where
  "AllocThreadHandle a cid = do {
     (ref, a) \<leftarrow> allocateRaw a OBJ_THREAD threadHeadWords 0;
     a \<leftarrow> setSlots a ref 1 (unat threadHeadWords - 1) 0;
     a \<leftarrow> setWordAt a ref threadStatusIdx (ucast StatusSuspended);
     a \<leftarrow> setWordAt a ref threadErrorJmpIdx cid;
     Some (ref, a) }"

definition ThreadHandleID :: "arena \<Rightarrow> gcref \<Rightarrow> u64 option" where
  "ThreadHandleID a th = wordAt a th threadErrorJmpIdx"

definition ThreadStatusOf :: "arena \<Rightarrow> gcref \<Rightarrow> thread_status option" where
  "ThreadStatusOf a th = do { w \<leftarrow> wordAt a th threadStatusIdx; Some (ucast (w AND 0xFF)) }"

definition SetThreadStatus :: "arena \<Rightarrow> gcref \<Rightarrow> thread_status \<Rightarrow> arena option" where
  "SetThreadStatus a th s = do {
     w \<leftarrow> wordAt a th threadStatusIdx;
     setWordAt a th threadStatusIdx ((w AND NOT 0xFF) OR ucast s) }"

definition ThreadValueStackRef :: "arena \<Rightarrow> gcref \<Rightarrow> gcref option" where
  "ThreadValueStackRef a th = wordAt a th threadValueStackIdx"

definition ThreadTop :: "arena \<Rightarrow> gcref \<Rightarrow> u32 option" where
  "ThreadTop a th = do { w \<leftarrow> wordAt a th threadTopCapIdx; Some (ucast w) }"

definition ThreadStackCap :: "arena \<Rightarrow> gcref \<Rightarrow> u32 option" where
  "ThreadStackCap a th = do { w \<leftarrow> wordAt a th threadTopCapIdx; Some (ucast (drop_bit 32 w)) }"

definition SetThreadTop :: "arena \<Rightarrow> gcref \<Rightarrow> u32 \<Rightarrow> arena option" where
  "SetThreadTop a th tp = do {
     w \<leftarrow> wordAt a th threadTopCapIdx;
     setWordAt a th threadTopCapIdx (ucast tp OR (w AND 0xFFFFFFFF00000000)) }"

definition ThreadCallInfoRef :: "arena \<Rightarrow> gcref \<Rightarrow> gcref option" where
  "ThreadCallInfoRef a th = wordAt a th threadCallInfoIdx"

definition ThreadCITop :: "arena \<Rightarrow> gcref \<Rightarrow> u32 option" where
  "ThreadCITop a th = do { w \<leftarrow> wordAt a th threadCITopCapIdx; Some (ucast w) }"

definition ThreadCICap :: "arena \<Rightarrow> gcref \<Rightarrow> u32 option" where
  "ThreadCICap a th = do { w \<leftarrow> wordAt a th threadCITopCapIdx; Some (ucast (drop_bit 32 w)) }"

definition SetThreadCITop :: "arena \<Rightarrow> gcref \<Rightarrow> u32 \<Rightarrow> arena option" where
  "SetThreadCITop a th tp = do {
     w \<leftarrow> wordAt a th threadCITopCapIdx;
     setWordAt a th threadCITopCapIdx (ucast tp OR (w AND 0xFFFFFFFF00000000)) }"

definition ThreadOpenUpvalHead :: "arena \<Rightarrow> gcref \<Rightarrow> gcref option" where
  "ThreadOpenUpvalHead a th = wordAt a th threadOpenUpvalIdx"

definition SetThreadOpenUpvalHead :: "arena \<Rightarrow> gcref \<Rightarrow> gcref \<Rightarrow> arena option" where
  "SetThreadOpenUpvalHead a th head = setWordAt a th threadOpenUpvalIdx head"

definition ThreadResumeFrom :: "arena \<Rightarrow> gcref \<Rightarrow> gcref option" where
  "ThreadResumeFrom a th = wordAt a th threadResumeFromIdx"

definition SetThreadResumeFrom :: "arena \<Rightarrow> gcref \<Rightarrow> gcref \<Rightarrow> arena option" where
  "SetThreadResumeFrom a th caller = setWordAt a th threadResumeFromIdx caller"

definition ThreadValueStackAt :: "arena \<Rightarrow> gcref \<Rightarrow> u32 \<Rightarrow> lvalue option" where
  "ThreadValueStackAt a th i = do { s \<leftarrow> ThreadValueStackRef a th; WordAt a (s + ucast (i * 8)) }"

definition SetThreadValueStackAt :: "arena \<Rightarrow> gcref \<Rightarrow> u32 \<Rightarrow> lvalue \<Rightarrow> arena option" where
  "SetThreadValueStackAt a th i v = do { s \<leftarrow> ThreadValueStackRef a th; SetWordAt a (s + ucast (i * 8)) v }"

section \<open>size.go\<close>

definition StringObjectBytes :: "u32 \<Rightarrow> u32" where "StringObjectBytes byteLen = stringWords byteLen * 8"
definition TableHeadBytes :: u32 where "TableHeadBytes = tableHeadWords * 8"
definition TableArrayBytes :: "u32 \<Rightarrow> u32" where "TableArrayBytes asize = asize * 8"
definition TableNodeBytes :: "u32 \<Rightarrow> u32" where "TableNodeBytes hsize = hsize * nodeWords * 8"
definition ClosureBytes :: "u16 \<Rightarrow> u32" where "ClosureBytes nupvals = (2 + ucast nupvals) * 8"
definition UserdataBytes :: "u32 \<Rightarrow> u32" where "UserdataBytes payloadLen = userdataWords payloadLen * 8"
definition ThreadHeadBytes :: u32 where "ThreadHeadBytes = threadHeadWords * 8"
definition ThreadStackBytes :: "u32 \<Rightarrow> u32" where "ThreadStackBytes stackCap = stackCap * 8"
definition ThreadCIBytes :: "u32 \<Rightarrow> u32" where "ThreadCIBytes ciCap = ciCap * 4 * 8"
definition UpvalueBytes :: u32 where "UpvalueBytes = 3 * 8"

definition SizeOf :: "arena \<Rightarrow> gcref \<Rightarrow> objtype \<Rightarrow> u32 option" where
  "SizeOf a ref ot =
     (if ot = OBJ_STRING then do { n \<leftarrow> StringLen a ref; Some (StringObjectBytes n) }
      else if ot = OBJ_TABLE then Some TableHeadBytes
      else if ot = OBJ_CLOSURE then do { n \<leftarrow> ClosureNUpvals a ref; Some (ClosureBytes n) }
      else if ot = OBJ_USERDATA then do { n \<leftarrow> UserdataLen a ref; Some (UserdataBytes n) }
      else if ot = OBJ_THREAD then Some ThreadHeadBytes
      else if ot = OBJ_UPVAL then Some UpvalueBytes
      else Some 0)"

end
