(* ===== verification/ArenaInv.thy ===== *)
theory ArenaInv
  imports Arena
begin

text \<open>
  The invariant of the arena and the proof that the operations of \<open>Arena\<close> keep it. A block
  is a start word and a length in words; the ghost map \<open>bs\<close> holds every block below \<open>bump\<close>
  that is in use or on a free list, the ghost lists \<open>S c\<close> and \<open>G c\<close> the blocks chained from
  the small and the large bucket heads.
\<close>

section \<open>Addresses\<close>

definition idx :: "gcref \<Rightarrow> nat" where "idx r = unat r div 8"

definition aligned :: "gcref \<Rightarrow> bool" where "aligned r \<longleftrightarrow> r \<noteq> 0 \<and> unat r mod 8 = 0"

lemma unat_shift3 [simp]: "unat (drop_bit 3 r) = idx r"
  unfolding unat_drop_bit_div idx_def by simp

lemma idx_lt: "idx r < 2 ^ 61"
  unfolding idx_def by (simp add: div_less_iff_less_mult)

lemma unat_shift3_plus: "k < 2 ^ 60 \<Longrightarrow> unat (drop_bit 3 r + word_of_nat k) = idx r + k"
proof -
  assume k: "k < 2 ^ 60"
  have "idx r + k < 2 ^ 64" using idx_lt [of r] k by simp
  moreover have "unat (word_of_nat k :: u64) = k" using k by (intro unat_word_of_nat_lt) simp
  ultimately show ?thesis by (simp add: unat_word_ariths)
qed

lemma unat_shift3_numeral [simp]:
  "unat (drop_bit 3 r + 1) = idx r + 1" "unat (drop_bit 3 r + 2) = idx r + 2"
  using unat_shift3_plus [of 1 r] unat_shift3_plus [of 2 r] by simp_all

lemma aligned_eq: "aligned r \<Longrightarrow> unat r = 8 * idx r"
  by (auto simp: aligned_def idx_def)

lemma aligned_inj: "aligned r \<Longrightarrow> aligned s \<Longrightarrow> idx r = idx s \<Longrightarrow> r = s"
  by (simp add: aligned_eq word_unat_eq_iff)

lemma aligned_idx_pos: "aligned r \<Longrightarrow> 0 < idx r"
proof -
  assume a: "aligned r"
  then have "0 < unat r" by (simp add: aligned_def unat_gt_0)
  then show ?thesis using aligned_eq [OF a] by linarith
qed

lemma offset_addr:
  assumes "aligned r" and "idx r + unat n \<le> 2 ^ 28"
  shows "unat (r + ucast (n :: u32) * 8) = 8 * (idx r + unat n)"
    and "aligned (r + ucast n * 8)" and "idx (r + ucast n * 8) = idx r + unat n"
proof -
  have "unat (ucast n * 8 :: u64) = unat n * 8 mod 2 ^ 64"
    by (simp add: unat_word_ariths(2))
  then have m: "unat (ucast n * 8 :: u64) = unat n * 8"
    using assms(2) by simp
  have "unat r + unat (ucast n * 8 :: u64) < 2 ^ LENGTH(64)"
    using assms(2) aligned_eq [OF assms(1)] m by simp
  then show u: "unat (r + ucast n * 8) = 8 * (idx r + unat n)"
    using aligned_eq [OF assms(1)] m by (simp add: unat_add_le_max)
  show "idx (r + ucast n * 8) = idx r + unat n" by (simp add: idx_def u)
  have "unat (r + ucast n * 8) \<noteq> 0" using u aligned_idx_pos [OF assms(1)] by simp
  then have "r + ucast n * 8 \<noteq> 0" by (metis unat_0)
  then show "aligned (r + ucast n * 8)" by (simp add: aligned_def u)
qed

section \<open>The invariant\<close>

definition backing_ok :: "arena \<Rightarrow> bool" where
  "backing_ok a \<longleftrightarrow> (\<forall>old n. length old \<le> unat n \<or> \<not> a_inPlace a \<longrightarrow>
     length (a_backing a old n) = unat n \<and>
     (\<forall>i < unat n. a_backing a old n ! i =
        (if a_inPlace a \<and> i < length old then old ! i else 0)))"

definition geometry :: "arena \<Rightarrow> bool" where
  "geometry a \<longleftrightarrow> length (a_words a) * 8 = unat (a_cap a) \<and>
     unat (a_cap a) \<le> unat (a_maxCap a) \<and> unat (a_maxCap a) \<le> 2 ^ 31 \<and>
     unat (a_maxCap a) mod 8 = 0 \<and>
     8 \<le> unat (a_bump a) \<and> unat (a_bump a) \<le> unat (a_cap a) \<and> unat (a_bump a) mod 8 = 0"

definition wbump :: "arena \<Rightarrow> nat" where "wbump a = unat (a_bump a) div 8"

definition zero_above :: "arena \<Rightarrow> bool" where
  "zero_above a \<longleftrightarrow> (\<forall>i. wbump a \<le> i \<and> i < length (a_words a) \<longrightarrow> a_words a ! i = 0)"

definition blocks_ok :: "arena \<Rightarrow> (nat \<Rightarrow> nat option) \<Rightarrow> bool" where
  "blocks_ok a bs \<longleftrightarrow>
     (\<forall>i n. bs i = Some n \<longrightarrow> 1 \<le> i \<and> 0 < n \<and> i + n \<le> wbump a) \<and>
     (\<forall>i n j m. bs i = Some n \<longrightarrow> bs j = Some m \<longrightarrow> i < j \<longrightarrow> i + n \<le> j)"

definition base_ok :: "arena \<Rightarrow> (nat \<Rightarrow> nat option) \<Rightarrow> bool" where
  "base_ok a bs \<longleftrightarrow> geometry a \<and> backing_ok a \<and> zero_above a \<and> blocks_ok a bs"

fun chain :: "u64 list \<Rightarrow> gcref \<Rightarrow> gcref list \<Rightarrow> bool" where
  "chain ws h [] \<longleftrightarrow> h = 0"
| "chain ws h (x # xs) \<longleftrightarrow> h = x \<and> x \<noteq> 0 \<and> chain ws (ws ! idx x) xs"

fun dchain :: "u64 list \<Rightarrow> gcref \<Rightarrow> gcref \<Rightarrow> gcref list \<Rightarrow> bool" where
  "dchain ws p h [] \<longleftrightarrow> h = 0"
| "dchain ws p h (x # xs) \<longleftrightarrow>
     h = x \<and> x \<noteq> 0 \<and> ws ! (idx x + 2) = p \<and> dchain ws x (ws ! idx x) xs"

definition small_ok :: "arena \<Rightarrow> (nat \<Rightarrow> nat option) \<Rightarrow> (nat \<Rightarrow> gcref list) \<Rightarrow> bool" where
  "small_ok a bs S \<longleftrightarrow> (\<forall>c<20. chain (a_words a) (a_freeHeads a c) (S c) \<and> distinct (S c) \<and>
     (\<forall>r\<in>set (S c). aligned r \<and> bs (idx r) = Some (unat (classWords c))))"

definition large_blk :: "arena \<Rightarrow> (nat \<Rightarrow> nat option) \<Rightarrow> gcref \<Rightarrow> u32 \<Rightarrow> bool" where
  "large_blk a bs r n \<longleftrightarrow> aligned r \<and> bs (idx r) = Some (unat n) \<and> 64 < unat n \<and>
     a_words a ! (idx r + 1) = ucast n \<and> a_largeByEnd a (r + ucast n * 8) = Some r \<and>
     a_largeByStart a (r + ucast n * 8) = None \<and> idx r + unat n \<noteq> wbump a"

definition large_ok :: "arena \<Rightarrow> (nat \<Rightarrow> nat option) \<Rightarrow> (nat \<Rightarrow> gcref list) \<Rightarrow> bool" where
  "large_ok a bs G \<longleftrightarrow>
     (\<forall>c<24. dchain (a_words a) 0 (a_largeFreeHeads a c) (G c) \<and> distinct (G c) \<and>
        (\<forall>r\<in>set (G c). \<exists>n. a_largeByStart a r = Some n \<and> largeSizeClass n = c)) \<and>
     (\<forall>r n. a_largeByStart a r = Some n \<longrightarrow> large_blk a bs r n \<and> r \<in> set (G (largeSizeClass n))) \<and>
     (\<forall>e r. a_largeByEnd a e = Some r \<longrightarrow>
        (\<exists>n. a_largeByStart a r = Some n \<and> e = r + ucast n * 8))"

definition free_starts :: "(nat \<Rightarrow> gcref list) \<Rightarrow> arena \<Rightarrow> nat set" where
  "free_starts S a = (\<Union>c<20. idx ` set (S c)) \<union> idx ` dom (a_largeByStart a)"

definition inv :: "arena \<Rightarrow> (nat \<Rightarrow> nat option) \<Rightarrow> (nat \<Rightarrow> gcref list) \<Rightarrow> (nat \<Rightarrow> gcref list) \<Rightarrow> bool" where
  "inv a bs S G \<longleftrightarrow> base_ok a bs \<and> small_ok a bs S \<and> large_ok a bs G"

section \<open>Blocks\<close>

definition in_blk :: "(nat \<Rightarrow> nat option) \<Rightarrow> nat \<Rightarrow> nat \<Rightarrow> bool" where
  "in_blk bs i k \<longleftrightarrow> (\<exists>n. bs i = Some n \<and> i \<le> k \<and> k < i + n)"

lemma in_blk_unique: "blocks_ok a bs \<Longrightarrow> in_blk bs i k \<Longrightarrow> in_blk bs j k \<Longrightarrow> i = j"
  unfolding in_blk_def blocks_ok_def by (metis leD le_trans linorder_cases order_less_le_trans)

lemma in_blk_bound:
  "blocks_ok a bs \<Longrightarrow> geometry a \<Longrightarrow> in_blk bs i k \<Longrightarrow> 1 \<le> k \<and> k < wbump a \<and> k < length (a_words a)"
proof -
  assume b: "blocks_ok a bs" and g: "geometry a" and "in_blk bs i k"
  then have "1 \<le> k \<and> k < wbump a" by (fastforce simp: in_blk_def blocks_ok_def)
  moreover have "wbump a \<le> length (a_words a)" using g by (auto simp: geometry_def wbump_def)
  ultimately show ?thesis by simp
qed

lemma wbump_le: "geometry a \<Longrightarrow> wbump a \<le> length (a_words a) \<and> wbump a \<le> 2 ^ 28 \<and> 1 \<le> wbump a"
  by (auto simp: geometry_def wbump_def)

lemma in_blk_start: "blocks_ok a bs \<Longrightarrow> bs i = Some n \<Longrightarrow> k < n \<Longrightarrow> in_blk bs i (i + k)"
  by (auto simp: in_blk_def)

lemma large_sep:
  assumes "blocks_ok a bs" "large_blk a bs r n" "large_blk a bs s m" "r \<noteq> s" "k \<le> 2" "l \<le> 2"
  shows "idx r + k \<noteq> idx s + l"
proof
  assume eq: "idx r + k = idx s + l"
  have "in_blk bs (idx r) (idx r + k)" "in_blk bs (idx s) (idx r + k)"
    using assms eq by (auto simp: in_blk_def large_blk_def)
  then have "idx r = idx s" by (rule in_blk_unique [OF assms(1)])
  then show False using assms(2,3,4) aligned_inj by (auto simp: large_blk_def)
qed

section \<open>Frames\<close>

lemma chain_frame: "chain ws h xs \<Longrightarrow> \<forall>x\<in>set xs. ws' ! idx x = ws ! idx x \<Longrightarrow> chain ws' h xs"
  by (induction xs arbitrary: h) auto

lemma dchain_frame:
  "dchain ws p h xs \<Longrightarrow> \<forall>x\<in>set xs. ws' ! idx x = ws ! idx x \<and> ws' ! (idx x + 2) = ws ! (idx x + 2) \<Longrightarrow>
    dchain ws' p h xs"
  by (induction xs arbitrary: p h) auto

lemma small_frame:
  assumes "small_ok a bs S" and "a_freeHeads a' = a_freeHeads a"
    and "\<And>c r. c < 20 \<Longrightarrow> r \<in> set (S c) \<Longrightarrow>
      a_words a' ! idx r = a_words a ! idx r \<and> bs' (idx r) = bs (idx r)"
  shows "small_ok a' bs' S"
  unfolding small_ok_def
proof (intro allI impI)
  fix c :: nat assume c: "c < 20"
  then have "chain (a_words a) (a_freeHeads a c) (S c)" "distinct (S c)"
    "\<forall>r\<in>set (S c). aligned r \<and> bs (idx r) = Some (unat (classWords c))"
    using assms(1) by (auto simp: small_ok_def)
  with c assms(2,3) show "chain (a_words a') (a_freeHeads a' c) (S c) \<and> distinct (S c) \<and>
      (\<forall>r\<in>set (S c). aligned r \<and> bs' (idx r) = Some (unat (classWords c)))"
    by (auto intro: chain_frame)
qed

lemma large_frame:
  assumes ok: "large_ok a bs G"
    and same: "a_largeFreeHeads a' = a_largeFreeHeads a" "a_largeByStart a' = a_largeByStart a"
      "a_largeByEnd a' = a_largeByEnd a"
    and frame: "\<And>r n. a_largeByStart a r = Some n \<Longrightarrow>
      a_words a' ! idx r = a_words a ! idx r \<and> a_words a' ! (idx r + 1) = a_words a ! (idx r + 1) \<and>
      a_words a' ! (idx r + 2) = a_words a ! (idx r + 2) \<and> bs' (idx r) = bs (idx r) \<and>
      idx r + unat n \<noteq> wbump a'"
  shows "large_ok a' bs' G"
proof -
  have "dchain (a_words a') 0 (a_largeFreeHeads a c) (G c)" if "c < 24" for c
    using ok that frame unfolding large_ok_def by (blast intro: dchain_frame)
  then show ?thesis
    using ok frame unfolding large_ok_def large_blk_def same by auto
qed

section \<open>Doubly linked chains\<close>

definition separated :: "gcref list \<Rightarrow> bool" where
  "separated xs \<longleftrightarrow> (\<forall>x\<in>set xs. \<forall>y\<in>set xs. x \<noteq> y \<longrightarrow> (\<forall>k\<le>2. \<forall>l\<le>2. idx x + k \<noteq> idx y + l))"

lemma separatedD:
  "separated xs \<Longrightarrow> x \<in> set xs \<Longrightarrow> y \<in> set xs \<Longrightarrow> x \<noteq> y \<Longrightarrow>
    idx x \<noteq> idx y \<and> idx x + 2 \<noteq> idx y + 2 \<and> idx x \<noteq> idx y + 2 \<and> idx x + 2 \<noteq> idx y \<and>
    idx x \<noteq> idx y + 1 \<and> idx x + 1 \<noteq> idx y \<and> idx x + 1 \<noteq> idx y + 2 \<and> idx x + 2 \<noteq> idx y + 1"
proof -
  assume "separated xs" "x \<in> set xs" "y \<in> set xs" "x \<noteq> y"
  then have H: "\<And>k l. k \<le> 2 \<Longrightarrow> l \<le> 2 \<Longrightarrow> idx x + k \<noteq> idx y + l"
    unfolding separated_def by blast
  have "idx x \<noteq> idx y" using H [of 0 0] by simp
  moreover
  have "idx x + 2 \<noteq> idx y + 2" using H [of 2 2] by simp
  moreover
  have "idx x \<noteq> idx y + 2" using H [of 0 2] by simp
  moreover
  have "idx x + 2 \<noteq> idx y" using H [of 2 0] by simp
  moreover
  have "idx x \<noteq> idx y + 1" using H [of 0 1] by simp
  moreover
  have "idx x + 1 \<noteq> idx y" using H [of 1 0] by simp
  moreover
  have "idx x + 1 \<noteq> idx y + 2" using H [of 1 2] by simp
  moreover
  have "idx x + 2 \<noteq> idx y + 1" using H [of 2 1] by simp
  ultimately show ?thesis by (intro conjI)
qed

lemma separated_mono: "separated xs \<Longrightarrow> set ys \<subseteq> set xs \<Longrightarrow> separated ys"
  unfolding separated_def by blast

lemma dchain_ends:
  "dchain ws p h (xs @ r # ys) \<Longrightarrow>
    ws ! (idx r + 2) = (if xs = [] then p else last xs) \<and>
    ws ! idx r = (if ys = [] then 0 else hd ys) \<and> r \<noteq> 0"
proof (induction xs arbitrary: p h)
  case Nil
  then show ?case by (cases ys) auto
next
  case (Cons x xs)
  have "dchain ws x (ws ! idx x) (xs @ r # ys)" using Cons.prems by simp
  from Cons.IH [OF this] show ?case by simp
qed

lemma dchain_nonzero: "dchain ws p h xs \<Longrightarrow> x \<in> set xs \<Longrightarrow> x \<noteq> 0"
  by (induction xs arbitrary: p h) auto

lemma dchain_head: "dchain ws p h xs \<Longrightarrow> h = (if xs = [] then 0 else hd xs)"
  by (cases xs) auto

text \<open>Unlinking a member rewrites the link of its predecessor and the back link of its successor.\<close>

definition unlinked :: "u64 list \<Rightarrow> gcref list \<Rightarrow> gcref \<Rightarrow> gcref list \<Rightarrow> u64 list" where
  "unlinked ws xs r ys =
     (let nxt = ws ! idx r; prv = ws ! (idx r + 2);
          w1 = (if xs = [] then ws else ws[idx prv := nxt])
      in if ys = [] then w1 else w1[idx nxt + 2 := prv])"

lemma dchain_unlink:
  assumes "dchain ws p h (xs @ r # ys)" and "separated (xs @ r # ys)" and "distinct (xs @ r # ys)"
    and "\<forall>x\<in>set (xs @ r # ys). idx x + 2 < length ws"
  shows "dchain (unlinked ws xs r ys) p (if xs = [] then ws ! idx r else h) (xs @ ys)"
  using assms
proof (induction xs arbitrary: p h)
  case Nil
  show ?case
  proof (cases ys)
    case (Cons y zs)
    have "\<forall>z\<in>set zs. idx z \<noteq> idx y + 2 \<and> idx z + 2 \<noteq> idx y + 2"
      using Nil(2,3) separatedD [of "[] @ r # ys" _ y] by (auto simp: Cons)
    with Nil show ?thesis
      by (auto simp: unlinked_def Cons Let_def nth_list_update elim!: dchain_frame)
  qed (use Nil in \<open>simp add: unlinked_def\<close>)
next
  case (Cons x xs)
  have d: "dchain ws x (ws ! idx x) (xs @ r # ys)" and h: "h = x" "x \<noteq> 0" "ws ! (idx x + 2) = p"
    using Cons.prems(1) by auto
  have IH: "dchain (unlinked ws xs r ys) x (if xs = [] then ws ! idx r else ws ! idx x) (xs @ ys)"
    using Cons.prems d by (intro Cons.IH) (auto intro: separated_mono)
  note e = dchain_ends [OF d]
  have sepx: "\<forall>z\<in>set (xs @ r # ys). idx z \<noteq> idx x \<and> idx z + 2 \<noteq> idx x \<and> idx z \<noteq> idx x + 2
      \<and> idx z + 2 \<noteq> idx x + 2"
    using Cons.prems(2,3) separatedD [of "(x # xs) @ r # ys" _ x] by auto
  have lx: "idx x + 2 < length ws" using Cons.prems(4) by simp
  show ?case
  proof (cases "xs = []")
    case True
    let ?u = "unlinked ws xs r ys" and ?v = "unlinked ws (x # xs) r ys"
    have v: "?v = ?u[idx x := ws ! idx r]"
      using True e sepx by (auto simp: unlinked_def Let_def intro!: list_update_swap)
    have l: "length ?u = length ws" by (simp add: unlinked_def Let_def)
    have "?u ! (idx x + 2) = p"
      using True e sepx h(3) by (auto simp: unlinked_def Let_def)
    moreover have "dchain ?v x (ws ! idx r) ys"
      using IH True sepx unfolding v by (auto elim!: dchain_frame)
    ultimately show ?thesis using h True lx l by (simp add: v [unfolded True])
  next
    case False
    then have v: "unlinked ws (x # xs) r ys = unlinked ws xs r ys"
      by (simp add: unlinked_def)
    have "last xs \<in> set xs" using False by simp
    then have "unlinked ws xs r ys ! idx x = ws ! idx x \<and> unlinked ws xs r ys ! (idx x + 2) = p"
      using e sepx h(3) by (auto simp: unlinked_def Let_def)
    then show ?thesis using IH False h by (simp add: v)
  qed
qed

end
