(* ===== verification/ArenaOps.thy ===== *)
theory ArenaOps
  imports ArenaInv
begin

text \<open>
  Each free-list operation of \<open>Arena\<close> under the invariant of \<open>ArenaInv\<close>: it returns (no index is
  out of range), it keeps the invariant for updated ghost state, and it writes inside free
  blocks only.
\<close>

section \<open>Frames for the base invariant\<close>

definition same_geometry :: "arena \<Rightarrow> arena \<Rightarrow> bool" where
  "same_geometry a a' \<longleftrightarrow> length (a_words a') = length (a_words a) \<and> a_bump a' = a_bump a \<and>
     a_cap a' = a_cap a \<and> a_maxCap a' = a_maxCap a \<and> a_backing a' = a_backing a \<and>
     a_inPlace a' = a_inPlace a"

lemma wset_at:
  "unat i < length (a_words a) \<Longrightarrow>
    wset a i v = Some (a\<lparr>a_words := (a_words a)[unat i := v]\<rparr>)"
  by (simp add: wset_def)

lemma wget_at: "unat i < length (a_words a) \<Longrightarrow> wget a i = Some (a_words a ! unat i)"
  by (simp add: wget_def)

lemma same_geometry_wbump: "same_geometry a a' \<Longrightarrow> wbump a' = wbump a"
  by (simp add: same_geometry_def wbump_def)

lemma base_frame:
  assumes "base_ok a bs" and g: "same_geometry a a'"
    and "\<And>i. wbump a \<le> i \<Longrightarrow> i < length (a_words a) \<Longrightarrow> a_words a' ! i = a_words a ! i"
  shows "base_ok a' bs"
proof -
  have w: "wbump a' = wbump a" using g by (rule same_geometry_wbump)
  have "geometry a'" "backing_ok a'"
    using assms(1) g unfolding base_ok_def geometry_def backing_ok_def same_geometry_def by simp_all
  moreover have "zero_above a'"
    using assms(1,3) g unfolding base_ok_def zero_above_def w same_geometry_def by simp
  moreover have "blocks_ok a' bs" using assms(1) unfolding base_ok_def blocks_ok_def w by simp
  ultimately show ?thesis by (simp add: base_ok_def)
qed

lemma base_bs: "base_ok a bs \<Longrightarrow> blocks_ok a bs' \<Longrightarrow> base_ok a bs'"
  by (simp add: base_ok_def)

section \<open>Members of the chains\<close>

lemma large_member:
  assumes "large_ok a bs G" and "c < 24" and "s \<in> set (G c)"
  shows "\<exists>m. a_largeByStart a s = Some m \<and> largeSizeClass m = c \<and> large_blk a bs s m"
  using assms unfolding large_ok_def by blast

lemma largeSizeClass_lt: "largeSizeClass n < 24"
  by (simp add: largeSizeClass_def numLargeClasses_def Let_def)

lemma large_blk_bounds:
  assumes "base_ok a bs" and "large_blk a bs r n" and "k < unat n"
  shows "idx r + k < wbump a" and "idx r + k < length (a_words a)"
proof -
  have "in_blk bs (idx r) (idx r + k)" using assms(2,3) by (auto simp: in_blk_def large_blk_def)
  then show "idx r + k < wbump a" "idx r + k < length (a_words a)"
    using in_blk_bound assms(1) unfolding base_ok_def by blast+
qed

lemma large_chain_sep:
  assumes b: "base_ok a bs" and l: "large_ok a bs G" and c: "c < 24"
  shows "separated (G c)" and "\<forall>x\<in>set (G c). idx x + 2 < wbump a"
    and "\<forall>x\<in>set (G c). idx x + 2 < length (a_words a)"
proof -
  have blk: "\<exists>m. large_blk a bs x m" if "x \<in> set (G c)" for x
    using large_member [OF l c that] by blast
  show "separated (G c)"
    unfolding separated_def
  proof (intro ballI allI impI)
    fix x y and k l :: nat
    assume "x \<in> set (G c)" "y \<in> set (G c)" "x \<noteq> y" "k \<le> 2" "l \<le> 2"
    moreover from this obtain n m where "large_blk a bs x n" "large_blk a bs y m"
      using blk by blast
    ultimately show "idx x + k \<noteq> idx y + l"
      using b large_sep unfolding base_ok_def by blast
  qed
  have "idx x + 2 < wbump a \<and> idx x + 2 < length (a_words a)" if "x \<in> set (G c)" for x
  proof -
    obtain m where m: "large_blk a bs x m" using blk [OF \<open>x \<in> set (G c)\<close>] by blast
    then have "2 < unat m" by (simp add: large_blk_def)
    then show ?thesis using large_blk_bounds [OF b m] by blast
  qed
  then show "\<forall>x\<in>set (G c). idx x + 2 < wbump a"
    and "\<forall>x\<in>set (G c). idx x + 2 < length (a_words a)" by blast+
qed

lemma length_unlinked [simp]: "length (unlinked ws xs r ys) = length ws"
  by (simp add: unlinked_def Let_def)

lemma unlinked_frame:
  assumes "dchain ws 0 h (xs @ r # ys)" and "\<forall>x\<in>set (xs @ ys). i \<noteq> idx x \<and> i \<noteq> idx x + 2"
  shows "unlinked ws xs r ys ! i = ws ! i"
proof -
  note e = dchain_ends [OF assms(1)]
  have "xs \<noteq> [] \<Longrightarrow> i \<noteq> idx (last xs)" using assms(2) by simp
  moreover have "ys \<noteq> [] \<Longrightarrow> i \<noteq> idx (hd ys) + 2" using assms(2) by simp
  ultimately show ?thesis using e by (cases "xs = []"; cases "ys = []") (auto simp: unlinked_def Let_def)
qed

section \<open>Unlinking a large block\<close>

lemma unlinkLarge_eq:
  assumes d: "dchain (a_words a) 0 (a_largeFreeHeads a (largeSizeClass n)) (xs @ r # ys)"
    and bnd: "\<forall>x\<in>set (xs @ r # ys). idx x + 2 < length (a_words a)"
  shows "unlinkLarge a r n = Some (a\<lparr>a_words := unlinked (a_words a) xs r ys,
     a_largeFreeHeads := (if xs = [] then (a_largeFreeHeads a)(largeSizeClass n := a_words a ! idx r)
                          else a_largeFreeHeads a),
     a_largeByStart := (a_largeByStart a)(r := None),
     a_largeByEnd := (a_largeByEnd a)(r + ucast n * 8 := None),
     a_freeBytes := a_freeBytes a - ucast n * 8\<rparr>)"
proof -
  have "xs \<noteq> [] \<Longrightarrow> last xs \<noteq> 0" "ys \<noteq> [] \<Longrightarrow> hd ys \<noteq> 0"
    using dchain_nonzero [OF d, of "last xs"] dchain_nonzero [OF d, of "hd ys"] by simp_all
  moreover have "xs \<noteq> [] \<Longrightarrow> idx (last xs) + 2 < length (a_words a)"
    "ys \<noteq> [] \<Longrightarrow> idx (hd ys) + 2 < length (a_words a)" using bnd by simp_all
  moreover have "idx r + 2 < length (a_words a)" using bnd by simp
  ultimately show ?thesis
    using dchain_ends [OF d]
    by (cases "xs = []"; cases "ys = []")
      (simp_all add: unlinkLarge_def wget_at wset_at unlinked_def Let_def IsNull_def)
qed

text \<open>The words a large chain writes lie in the large blocks that stay free.\<close>

definition large_touch :: "arena \<Rightarrow> nat \<Rightarrow> bool" where
  "large_touch a i \<longleftrightarrow> (\<exists>s m. a_largeByStart a s = Some m \<and> idx s \<le> i \<and> i < idx s + unat m)"

lemma small_large_sep:
  assumes "base_ok a bs" "small_ok a bs S" "c < 20" "r \<in> set (S c)" "large_blk a bs x m" "k < unat m"
  shows "idx x + k \<noteq> idx r"
proof
  assume eq: "idx x + k = idx r"
  have r: "bs (idx r) = Some (unat (classWords c))" using assms(2-4) by (simp add: small_ok_def)
  have "in_blk bs (idx x) (idx r)" using assms(5,6) eq by (auto simp: in_blk_def large_blk_def)
  moreover have "in_blk bs (idx r) (idx r)"
    using r classWords_ok [OF assms(3)] by (auto simp: in_blk_def)
  ultimately have "idx x = idx r" using in_blk_unique assms(1) unfolding base_ok_def by blast
  then show False using r assms(5) classWords_ok [OF assms(3)] by (simp add: large_blk_def)
qed

lemma large_blk_of: "large_ok a bs G \<Longrightarrow> a_largeByStart a r = Some n \<Longrightarrow> large_blk a bs r n"
  by (simp add: large_ok_def)

lemma end_inj:
  assumes l: "large_ok a bs G" and s: "a_largeByStart a s = Some m" and r: "a_largeByStart a r = Some n"
    and "s + ucast m * 8 = r + ucast n * 8"
  shows "s = r"
  using large_blk_of [OF l s] large_blk_of [OF l r] assms(4) by (simp add: large_blk_def)

lemma large_in_chain:
  "large_ok a bs G \<Longrightarrow> a_largeByStart a r = Some n \<Longrightarrow> r \<in> set (G (largeSizeClass n))"
  by (simp add: large_ok_def)

lemma unlinkLarge_ok:
  assumes inv: "inv a bs S G" and r: "a_largeByStart a r = Some n"
  obtains a' where "unlinkLarge a r n = Some a'"
    and "inv a' bs S (G(largeSizeClass n := remove1 r (G (largeSizeClass n))))"
    and "same_geometry a a'" "a_freeHeads a' = a_freeHeads a"
    and "a_largeByStart a' = (a_largeByStart a)(r := None)"
    and "a_largeByEnd a' = (a_largeByEnd a)(r + ucast n * 8 := None)"
    and "\<And>i. \<not> large_touch a' i \<Longrightarrow> a_words a' ! i = a_words a ! i"
proof -
  let ?c = "largeSizeClass n"
  have b: "base_ok a bs" and sm: "small_ok a bs S" and l: "large_ok a bs G"
    using inv by (auto simp: inv_def)
  have c: "?c < 24" by (rule largeSizeClass_lt)
  obtain xs ys where G: "G ?c = xs @ r # ys"
    using large_in_chain [OF l r] by (meson split_list)
  have d: "dchain (a_words a) 0 (a_largeFreeHeads a ?c) (xs @ r # ys)" and dist: "distinct (xs @ r # ys)"
    using l c unfolding large_ok_def G [symmetric] by blast+
  note sep = large_chain_sep [OF b l c, unfolded G]
  define a' where "a' = a\<lparr>a_words := unlinked (a_words a) xs r ys,
     a_largeFreeHeads := (if xs = [] then (a_largeFreeHeads a)(?c := a_words a ! idx r)
                          else a_largeFreeHeads a),
     a_largeByStart := (a_largeByStart a)(r := None),
     a_largeByEnd := (a_largeByEnd a)(r + ucast n * 8 := None),
     a_freeBytes := a_freeBytes a - ucast n * 8\<rparr>"
  have ret: "unlinkLarge a r n = Some a'"
    unfolding a'_def by (rule unlinkLarge_eq [OF d sep(3)])
  have geo: "same_geometry a a'" by (simp add: a'_def same_geometry_def)
  have fr: "a_words a' ! i = a_words a ! i" if "\<forall>x\<in>set (xs @ ys). i \<noteq> idx x \<and> i \<noteq> idx x + 2" for i
    using unlinked_frame [OF d that] by (simp add: a'_def)
  have mem: "\<exists>m. a_largeByStart a x = Some m \<and> largeSizeClass m = ?c \<and> large_blk a bs x m"
    if "x \<in> set (xs @ ys)" for x
    using large_member [OF l c, of x] that G by auto
  have frb: "a_words a' ! idx s = a_words a ! idx s \<and> a_words a' ! (idx s + 2) = a_words a ! (idx s + 2)"
    if "large_blk a bs s m" "s \<notin> set (xs @ ys)" for s m
  proof -
    have ne: "idx s + k \<noteq> idx x + j" if x: "x \<in> set (xs @ ys)" and kj: "k \<le> 2" "j \<le> 2" for x k j
    proof -
      obtain mx where "large_blk a bs x mx" using mem [OF x] by blast
      moreover have "s \<noteq> x" using x that(2) \<open>s \<notin> set (xs @ ys)\<close> by blast
      ultimately show ?thesis
        using large_sep \<open>large_blk a bs s m\<close> b kj unfolding base_ok_def by blast
    qed
    have "a_words a' ! (idx s + k) = a_words a ! (idx s + k)" if "k \<le> 2" for k
    proof (rule fr, intro ballI conjI)
      fix x assume x: "x \<in> set (xs @ ys)"
      show "idx s + k \<noteq> idx x" using ne [OF x that, of 0] by (simp only: add_0_right le0 simp_thms)
      show "idx s + k \<noteq> idx x + 2" using ne [OF x that, of 2] by (simp only: order_refl simp_thms)
    qed
    from this [of 0] this [of 2] show ?thesis by simp
  qed
  have fr1: "a_words a' ! (idx s + 1) = a_words a ! (idx s + 1)" if "large_blk a bs s m" for s m
  proof (rule fr, intro ballI)
    fix x assume x: "x \<in> set (xs @ ys)"
    show "idx s + 1 \<noteq> idx x \<and> idx s + 1 \<noteq> idx x + 2"
    proof (cases "x = s")
      case False
      then show ?thesis
        using mem [OF x] large_sep [of a bs s m x _ 1 0] large_sep [of a bs s m x _ 1 2] that b
        unfolding base_ok_def by auto
    qed simp
  qed
  have base': "base_ok a' bs"
    using b geo
  proof (rule base_frame)
    fix i assume i: "wbump a \<le> i"
    show "a_words a' ! i = a_words a ! i"
    proof (rule fr, intro ballI)
      fix x assume "x \<in> set (xs @ ys)"
      then have "idx x + 2 < wbump a" using sep(2) by auto
      then show "i \<noteq> idx x \<and> i \<noteq> idx x + 2" using i by linarith
    qed
  qed
  have small': "small_ok a' bs S"
    using sm
  proof (rule small_frame)
    fix c s assume cs: "c < 20" "s \<in> set (S c)"
    have "idx s \<noteq> idx x \<and> idx s \<noteq> idx x + 2" if "x \<in> set (xs @ ys)" for x
      using mem [OF that] small_large_sep [OF b sm cs, of x _ 0] small_large_sep [OF b sm cs, of x _ 2]
      unfolding large_blk_def by fastforce
    then show "a_words a' ! idx s = a_words a ! idx s \<and> bs (idx s) = bs (idx s)"
      using fr by blast
  qed (simp add: a'_def)
  have "large_ok a' bs (G(?c := xs @ ys))"
    unfolding large_ok_def
  proof (intro conjI allI impI)
    fix e assume e: "e < (24::nat)"
    have dx: "distinct (xs @ ys)" using dist by simp
    show "dchain (a_words a') 0 (a_largeFreeHeads a' e) ((G(?c := xs @ ys)) e)"
    proof (cases "e = ?c")
      case True
      then show ?thesis
        using dchain_unlink [OF d sep(1) dist sep(3)] by (cases "xs = []") (simp_all add: a'_def)
    next
      case False
      have "\<forall>s\<in>set (G e). a_words a' ! idx s = a_words a ! idx s \<and>
          a_words a' ! (idx s + 2) = a_words a ! (idx s + 2)"
      proof
        fix s assume "s \<in> set (G e)"
        from large_member [OF l e this] obtain m
          where m: "a_largeByStart a s = Some m" "largeSizeClass m = e" "large_blk a bs s m" by blast
        have "s \<notin> set (xs @ ys)" using mem [of s] m False by auto
        then show "a_words a' ! idx s = a_words a ! idx s \<and>
          a_words a' ! (idx s + 2) = a_words a ! (idx s + 2)" using frb m(3) by blast
      qed
      moreover have "dchain (a_words a) 0 (a_largeFreeHeads a e) (G e)"
        using l e by (simp add: large_ok_def)
      ultimately show ?thesis using False dchain_frame by (simp add: a'_def)
    qed
    show "distinct ((G(?c := xs @ ys)) e)" using dx l e by (simp add: large_ok_def)
    show "\<forall>s\<in>set ((G(?c := xs @ ys)) e). \<exists>m. a_largeByStart a' s = Some m \<and> largeSizeClass m = e"
    proof (cases "e = ?c")
      case True
      then show ?thesis using mem dist by (auto simp: a'_def)
    next
      case False
      then have "s \<noteq> r" if "s \<in> set (G e)" for s using large_member [OF l e that] r by auto
      then show ?thesis using False l e by (auto simp: a'_def large_ok_def)
    qed
  next
    fix s m assume "a_largeByStart a' s = Some m"
    then have s: "s \<noteq> r" "a_largeByStart a s = Some m" by (auto simp: a'_def split: if_splits)
    note blk = large_blk_of [OF l s(2)]
    show "large_blk a' bs s m"
      using blk fr1 [OF blk] end_inj [OF l s(2) r] s(1) same_geometry_wbump [OF geo]
      by (auto simp: large_blk_def a'_def)
    show "s \<in> set ((G(?c := xs @ ys)) (largeSizeClass m))"
      using large_in_chain [OF l s(2)] s(1) G by auto
  next
    fix e q assume "a_largeByEnd a' e = Some q"
    then have e: "e \<noteq> r + ucast n * 8" "a_largeByEnd a e = Some q"
      by (auto simp: a'_def split: if_splits)
    then obtain m where "a_largeByStart a q = Some m" "e = q + ucast m * 8"
      using l unfolding large_ok_def by blast
    then show "\<exists>m. a_largeByStart a' q = Some m \<and> e = q + ucast m * 8"
      using e(1) r by (auto simp: a'_def)
  qed
  moreover have "remove1 r (G ?c) = xs @ ys" using dist G by (simp add: remove1_append)
  ultimately have I: "inv a' bs S (G(?c := remove1 r (G ?c)))"
    using base' small' by (simp add: inv_def)
  have F: "a_words a' ! i = a_words a ! i" if nt: "\<not> large_touch a' i" for i
  proof (rule fr, intro ballI)
    fix x assume x: "x \<in> set (xs @ ys)"
    then obtain m where "a_largeByStart a x = Some m" "64 < unat m"
      using mem unfolding large_blk_def by blast
    moreover have "x \<noteq> r" using x dist by auto
    ultimately have "large_touch a' (idx x + k)" if "k \<le> 2" for k
      using that unfolding large_touch_def by (intro exI [of _ x] exI [of _ m]) (simp add: a'_def)
    from this [of 0] this [of 2] show "i \<noteq> idx x \<and> i \<noteq> idx x + 2"
      using nt by auto
  qed
  show thesis by (rule that [OF ret I geo _ _ _ F]) (simp_all add: a'_def)
qed

section \<open>Inserting a large block\<close>

lemma insertLarge_ok:
  assumes inv: "inv a bs S G" and r: "aligned r" "bs (idx r) = Some (unat n)" "64 < unat n"
    and fresh: "idx r \<notin> free_starts S a" and prv: "a_largeByEnd a r = None"
    and nxt: "a_largeByStart a (r + ucast n * 8) = None" and top: "idx r + unat n \<noteq> wbump a"
  obtains a' where "insertLarge a r n = Some a'"
    and "inv a' bs S (G(largeSizeClass n := r # G (largeSizeClass n)))"
    and "same_geometry a a'" "a_freeHeads a' = a_freeHeads a"
    and "a_largeByStart a' = (a_largeByStart a)(r := Some n)"
    and "a_largeByEnd a' = (a_largeByEnd a)(r + ucast n * 8 := Some r)"
    and "\<And>i. \<not> large_touch a' i \<Longrightarrow> a_words a' ! i = a_words a ! i"
proof -
  let ?c = "largeSizeClass n" and ?ws = "a_words a"
  let ?h = "a_largeFreeHeads a ?c"
  have b: "base_ok a bs" and sm: "small_ok a bs S" and l: "large_ok a bs G"
    using inv by (auto simp: inv_def)
  have bl: "blocks_ok a bs" using b by (simp add: base_ok_def)
  have c: "?c < 24" by (rule largeSizeClass_lt)
  note sep = large_chain_sep [OF b l c]
  have d: "dchain ?ws 0 ?h (G ?c)" using l c by (simp add: large_ok_def)
  have inr: "in_blk bs (idx r) (idx r + k)" if "k < unat n" for k
    using r that by (auto simp: in_blk_def)
  have rlt: "idx r + k < length ?ws \<and> idx r + k < wbump a" if "k < unat n" for k
    using in_blk_bound inr [OF that] b unfolding base_ok_def by blast
  have inr': "in_blk bs (idx r) i \<and> i < wbump a" if "idx r \<le> i" "i < idx r + unat n" for i
  proof -
    have "in_blk bs (idx r) i" using r that by (auto simp: in_blk_def)
    then show ?thesis using in_blk_bound b unfolding base_ok_def by blast
  qed
  have rend: "idx r + unat n \<le> wbump a" using bl r(2) by (auto simp: blocks_ok_def)
  have wbump28: "wbump a \<le> 2 ^ 28" using wbump_le b unfolding base_ok_def by blast
  have nosmall: "idx r \<noteq> idx s" if "c < 20" "s \<in> set (S c)" for c s
    using fresh that by (auto simp: free_starts_def)
  have nolarge: "idx r \<noteq> idx s" if "a_largeByStart a s = Some m" for s m
    using fresh that by (auto simp: free_starts_def)
  define w3 where "w3 = ?ws[idx r := ?h, idx r + 1 := ucast n, idx r + 2 := 0]"
  define w where "w = (if G ?c = [] then w3 else w3[idx ?h + 2 := r])"
  define a' where "a' = a\<lparr>a_words := w,
     a_largeFreeHeads := (a_largeFreeHeads a)(?c := r),
     a_largeByStart := (a_largeByStart a)(r := Some n),
     a_largeByEnd := (a_largeByEnd a)(r + ucast n * 8 := Some r),
     a_freeBytes := a_freeBytes a + ucast n * 8\<rparr>"
  have hd: "G ?c \<noteq> [] \<Longrightarrow> ?h \<in> set (G ?c) \<and> ?h \<noteq> 0" "G ?c = [] \<Longrightarrow> ?h = 0"
    using d by (cases "G ?c"; auto)+
  have lw: "length w = length ?ws" by (simp add: w_def w3_def)
  have ret: "insertLarge a r n = Some a'"
    using rlt [of 0] rlt [of 1] rlt [of 2] r(3) hd sep(3)
    by (cases "G ?c = []")
      (simp_all add: insertLarge_def Let_def IsNull_def wset_at w_def w3_def a'_def)
  have geo: "same_geometry a a'" by (simp add: a'_def same_geometry_def lw)
  have mem: "\<exists>m. a_largeByStart a ?h = Some m \<and> large_blk a bs ?h m" if "G ?c \<noteq> []"
    using large_member [OF l c] hd that by blast
  have fr: "w ! i = ?ws ! i" if "\<not> (idx r \<le> i \<and> i < idx r + unat n)" "G ?c \<noteq> [] \<Longrightarrow> i \<noteq> idx ?h + 2" for i
  proof -
    have "i \<noteq> idx r" "i \<noteq> idx r + 1" "i \<noteq> idx r + 2" using that(1) r(3) by auto
    then show ?thesis using that(2) by (cases "G ?c = []") (simp_all add: w_def w3_def)
  qed
  have notin: "\<not> (idx r \<le> i \<and> i < idx r + unat n)" if "in_blk bs j i" "j \<noteq> idx r" for i j
    using in_blk_unique [OF bl that(1)] inr' that(2) by blast
  have frb: "w ! (idx s + k) = ?ws ! (idx s + k)"
    if s: "a_largeByStart a s = Some m" and k: "k < 2 \<or> k = 2 \<and> (G ?c \<noteq> [] \<longrightarrow> s \<noteq> ?h)" for s m k
  proof (rule fr)
    have blk: "large_blk a bs s m" by (rule large_blk_of [OF l s])
    then have "in_blk bs (idx s) (idx s + k)" using k by (auto simp: in_blk_def large_blk_def)
    then show "\<not> (idx r \<le> idx s + k \<and> idx s + k < idx r + unat n)"
      using notin nolarge [OF s] by metis
    show "idx s + k \<noteq> idx ?h + 2" if ne: "G ?c \<noteq> []"
    proof (cases "s = ?h")
      case True
      then show ?thesis using k ne by auto
    next
      case False
      obtain m' where "large_blk a bs ?h m'" using mem [OF ne] by blast
      moreover have "k \<le> 2" using k by auto
      ultimately show ?thesis using large_sep [OF bl blk _ False] by blast
    qed
  qed
  have base': "base_ok a' bs"
    using b geo
  proof (rule base_frame)
    fix i assume i: "wbump a \<le> i"
    have "\<not> (idx r \<le> i \<and> i < idx r + unat n)" using inr' [of i] i by linarith
    moreover have "i \<noteq> idx ?h + 2" if "G ?c \<noteq> []" using sep(2) hd that i by fastforce
    ultimately show "a_words a' ! i = a_words a ! i" using fr by (simp add: a'_def)
  qed
  have small': "small_ok a' bs S"
    using sm
  proof (rule small_frame)
    fix c s assume cs: "c < 20" "s \<in> set (S c)"
    have "in_blk bs (idx s) (idx s)"
      using sm cs classWords_ok [OF cs(1)] by (auto simp: in_blk_def small_ok_def)
    then have "\<not> (idx r \<le> idx s \<and> idx s < idx r + unat n)" using notin nosmall [OF cs] by metis
    moreover have "idx s \<noteq> idx ?h + 2" if ne: "G ?c \<noteq> []"
    proof -
      obtain m where m: "large_blk a bs ?h m" using mem [OF ne] by blast
      then have "2 < unat m" by (simp add: large_blk_def)
      from small_large_sep [OF b sm cs m this] show ?thesis by simp
    qed
    ultimately show "a_words a' ! idx s = a_words a ! idx s \<and> bs (idx s) = bs (idx s)"
      using fr by (simp add: a'_def)
  qed (simp add: a'_def)
  have wr: "w ! idx r = ?h" "w ! (idx r + 1) = ucast n" "w ! (idx r + 2) = 0"
  proof -
    have "idx ?h + 2 \<noteq> idx r + k" if ne: "G ?c \<noteq> []" and "k \<le> 2" for k
    proof -
      obtain m where m: "large_blk a bs ?h m" "a_largeByStart a ?h = Some m" using mem [OF ne] by blast
      have "in_blk bs (idx ?h) (idx ?h + 2)" using m by (auto simp: in_blk_def large_blk_def)
      moreover have "in_blk bs (idx r) (idx r + k)" using inr r(3) that(2) by simp
      ultimately show ?thesis using in_blk_unique [OF bl] nolarge [OF m(2)] by metis
    qed
    from this [of 0] this [of 1] this [of 2]
    show "w ! idx r = ?h" "w ! (idx r + 1) = ucast n" "w ! (idx r + 2) = 0"
      using rlt [of 0] rlt [of 1] rlt [of 2] r(3) by (auto simp: w_def w3_def)
  qed
  have rn: "r \<notin> set (G e)" if "e < 24" for e
    using large_member [OF l that, of r] nolarge by blast
  have "large_ok a' bs (G(?c := r # G ?c))"
    unfolding large_ok_def
  proof (intro conjI allI impI)
    fix e assume e: "e < (24::nat)"
    have de: "dchain ?ws 0 (a_largeFreeHeads a e) (G e)" using l e by (simp add: large_ok_def)
    show "dchain (a_words a') 0 (a_largeFreeHeads a' e) ((G(?c := r # G ?c)) e)"
    proof (cases "e = ?c")
      case True
      have "dchain w r ?h (G ?c)"
      proof (cases "G ?c")
        case Nil
        then show ?thesis using hd by simp
      next
        case (Cons y ys)
        have "y = ?h" using d Cons by simp
        have dy: "dchain ?ws y (?ws ! idx y) ys" using d Cons by simp
        have "w ! idx s = ?ws ! idx s \<and> w ! (idx s + 2) = ?ws ! (idx s + 2)" if s: "s \<in> set ys" for s
        proof -
          obtain m where m: "a_largeByStart a s = Some m" using large_member [OF l c, of s] s Cons by auto
          have "s \<noteq> ?h" using s l c Cons \<open>y = ?h\<close> by (auto simp: large_ok_def)
          then show ?thesis using frb [OF m, of 0] frb [OF m, of 2] by simp
        qed
        then have "dchain w y (?ws ! idx y) ys" using dchain_frame [OF dy] by blast
        moreover obtain m where "a_largeByStart a ?h = Some m" using mem Cons by auto
        then have "w ! idx ?h = ?ws ! idx ?h" using frb [of ?h m 0] by simp
        moreover have "w ! (idx ?h + 2) = r" using sep(3) Cons \<open>y = ?h\<close> lw by (simp add: w_def w3_def)
        ultimately show ?thesis using Cons \<open>y = ?h\<close> hd by simp
      qed
      then show ?thesis using True wr r(1) by (simp add: a'_def aligned_def)
    next
      case False
      have "w ! idx s = ?ws ! idx s \<and> w ! (idx s + 2) = ?ws ! (idx s + 2)" if s: "s \<in> set (G e)" for s
      proof -
        obtain m where m: "a_largeByStart a s = Some m" "largeSizeClass m = e"
          using large_member [OF l e s] by blast
        have "G ?c \<noteq> [] \<longrightarrow> s \<noteq> ?h" using hd large_member [OF l c, of ?h] m False by auto
        then show ?thesis using frb [OF m(1), of 0] frb [OF m(1), of 2] by simp
      qed
      then show ?thesis using False dchain_frame [OF de] by (simp add: a'_def)
    qed
    show "distinct ((G(?c := r # G ?c)) e)" using rn l e by (simp add: large_ok_def)
    show "\<forall>s\<in>set ((G(?c := r # G ?c)) e). \<exists>m. a_largeByStart a' s = Some m \<and> largeSizeClass m = e"
      using l e rn by (auto simp: a'_def large_ok_def)
  next
    fix s m assume s': "a_largeByStart a' s = Some m"
    show "large_blk a' bs s m"
    proof (cases "s = r")
      case True
      then have "m = n" using s' by (simp add: a'_def)
      moreover have "r + ucast n * 8 \<noteq> r"
        using offset_addr(3) [of r n] r rend wbump28 by auto
      ultimately show ?thesis
        using True r wr nxt top same_geometry_wbump [OF geo] by (simp add: large_blk_def a'_def)
    next
      case False
      then have s: "a_largeByStart a s = Some m" using s' by (simp add: a'_def)
      note blk = large_blk_of [OF l s]
      have "s + ucast m * 8 \<noteq> r" using prv blk by (auto simp: large_blk_def)
      moreover have "s + ucast m * 8 \<noteq> r + ucast n * 8"
      proof
        assume eq: "s + ucast m * 8 = r + ucast n * 8"
        have sb: "idx s + unat m \<le> wbump a" "aligned s"
          using bl blk by (auto simp: large_blk_def blocks_ok_def)
        have "idx s + unat m = idx r + unat n"
          using offset_addr(3) [of s m] offset_addr(3) [of r n] eq sb r(1) rend wbump28 by simp
        then have "in_blk bs (idx s) (idx r + (unat n - 1))" "in_blk bs (idx r) (idx r + (unat n - 1))"
          using blk r inr [of "unat n - 1"] by (auto simp: in_blk_def large_blk_def)
        then show False using in_blk_unique [OF bl] nolarge [OF s] by metis
      qed
      ultimately show ?thesis
        using blk frb [OF s, of 1] same_geometry_wbump [OF geo] by (simp add: large_blk_def a'_def)
    qed
    show "s \<in> set ((G(?c := r # G ?c)) (largeSizeClass m))"
      using s' large_in_chain [OF l, of s m] by (auto simp: a'_def split: if_splits)
  next
    fix e q assume e': "a_largeByEnd a' e = Some q"
    show "\<exists>m. a_largeByStart a' q = Some m \<and> e = q + ucast m * 8"
    proof (cases "e = r + ucast n * 8")
      case True
      then show ?thesis using e' by (simp add: a'_def)
    next
      case False
      then have "a_largeByEnd a e = Some q" using e' by (simp add: a'_def)
      then obtain m where "a_largeByStart a q = Some m" "e = q + ucast m * 8"
        using l unfolding large_ok_def by blast
      moreover have "q \<noteq> r" using calculation nolarge by blast
      ultimately show ?thesis by (simp add: a'_def)
    qed
  qed
  then have I: "inv a' bs S (G(?c := r # G ?c))" using base' small' by (simp add: inv_def)
  have F: "a_words a' ! i = a_words a ! i" if nt: "\<not> large_touch a' i" for i
  proof -
    have "\<not> (idx r \<le> i \<and> i < idx r + unat n)"
      using nt unfolding large_touch_def by (auto simp: a'_def)
    moreover have "i \<noteq> idx ?h + 2" if ne: "G ?c \<noteq> []"
    proof -
      obtain m where m: "a_largeByStart a ?h = Some m" "large_blk a bs ?h m" using mem [OF ne] by blast
      then have "large_touch a' (idx ?h + 2)"
        unfolding large_touch_def using nolarge [OF m(1)]
        by (intro exI [of _ ?h] exI [of _ m]) (auto simp: a'_def large_blk_def)
      then show ?thesis using nt by blast
    qed
    ultimately show ?thesis using fr by (simp add: a'_def)
  qed
  show thesis by (rule that [OF ret I geo _ _ _ F]) (simp_all add: a'_def)
qed

end
