(* ===== verification/ArenaBlocks.thy ===== *)
theory ArenaBlocks
  imports ArenaOps
begin

text \<open>
  The allocator seen through its live blocks: \<open>arena_inv a L\<close> says that the arena is well
  formed and that \<open>L\<close> is the set of blocks (first word, number of words) handed out and not
  freed. Every step of \<open>Free\<close> and \<open>AllocBytes\<close> is restated as a step on \<open>L\<close>, with the words
  of the other live blocks kept.
\<close>

definition live :: "(nat \<Rightarrow> nat option) \<Rightarrow> (nat \<Rightarrow> gcref list) \<Rightarrow> arena \<Rightarrow> (nat \<times> nat) set" where
  "live bs S a = {(i, n). bs i = Some n \<and> i \<notin> free_starts S a}"

definition arena_inv :: "arena \<Rightarrow> (nat \<times> nat) set \<Rightarrow> bool" where
  "arena_inv a L \<longleftrightarrow> (\<exists>bs S G. inv a bs S G \<and> L = live bs S a)"

definition keeps :: "arena \<Rightarrow> arena \<Rightarrow> (nat \<times> nat) set \<Rightarrow> bool" where
  "keeps a a' L \<longleftrightarrow> (\<forall>(i, n)\<in>L. \<forall>k<n. a_words a' ! (i + k) = a_words a ! (i + k))"

lemma keeps_refl [simp]: "keeps a a L" by (simp add: keeps_def)

lemma keeps_trans: "keeps a b L \<Longrightarrow> keeps b c L \<Longrightarrow> keeps a c L"
  unfolding keeps_def by fastforce

lemma keeps_mono: "keeps a b L \<Longrightarrow> M \<subseteq> L \<Longrightarrow> keeps a b M"
  unfolding keeps_def by blast

section \<open>Free blocks are blocks\<close>

lemma free_small: "inv a bs S G \<Longrightarrow> c < 20 \<Longrightarrow> r \<in> set (S c) \<Longrightarrow> aligned r \<and>
    bs (idx r) = Some (unat (classWords c))"
  by (simp add: inv_def small_ok_def)

lemma free_large: "inv a bs S G \<Longrightarrow> a_largeByStart a r = Some n \<Longrightarrow> large_blk a bs r n"
  by (simp add: inv_def large_ok_def)

lemma small_start: "c < 20 \<Longrightarrow> r \<in> set (S c) \<Longrightarrow> idx r \<in> free_starts S a"
  unfolding free_starts_def by blast

lemma large_start: "a_largeByStart a r = Some n \<Longrightarrow> idx r \<in> free_starts S a"
  unfolding free_starts_def by blast

lemma free_start_block: "inv a bs S G \<Longrightarrow> i \<in> free_starts S a \<Longrightarrow> \<exists>n. bs i = Some n"
  using free_small free_large unfolding free_starts_def large_blk_def by fastforce

lemma inv_base: "inv a bs S G \<Longrightarrow> base_ok a bs" "inv a bs S G \<Longrightarrow> blocks_ok a bs"
    "inv a bs S G \<Longrightarrow> geometry a"
  by (simp_all add: inv_def base_ok_def)

lemma live_untouched:
  assumes "inv a bs S G" and "(i, n) \<in> live bs S a" and "k < n"
  shows "\<not> large_touch a (i + k)"
proof
  assume "large_touch a (i + k)"
  then obtain s m where s: "a_largeByStart a s = Some m" "idx s \<le> i + k" "i + k < idx s + unat m"
    by (auto simp: large_touch_def)
  have "in_blk bs (idx s) (i + k)" using free_large [OF assms(1) s(1)] s by (auto simp: in_blk_def large_blk_def)
  moreover have "in_blk bs i (i + k)" using assms(2,3) by (auto simp: in_blk_def live_def)
  ultimately have "i = idx s" using in_blk_unique [OF inv_base(2) [OF assms(1)]] by blast
  then show False using s(1) assms(2) by (auto simp: live_def free_starts_def)
qed

text \<open>Rearranging blocks that are not on a free list.\<close>

lemma inv_bs:
  assumes inv: "inv a bs S G" and b: "blocks_ok a bs'" and same: "\<And>i. i \<in> free_starts S a \<Longrightarrow> bs' i = bs i"
  shows "inv a bs' S G"
proof -
  have "small_ok a bs S" "large_ok a bs G" "base_ok a bs'"
    using inv b base_bs by (auto simp: inv_def)
  moreover have "small_ok a bs' S"
    using calculation(1) by (rule small_frame) (simp_all add: same small_start)
  moreover have "large_ok a bs' G"
    using calculation(2)
  proof (rule large_frame)
    fix r n assume r: "a_largeByStart a r = Some n"
    then have "idx r \<in> free_starts S a" by (auto simp: free_starts_def)
    then show "a_words a ! idx r = a_words a ! idx r \<and> a_words a ! (idx r + 1) = a_words a ! (idx r + 1) \<and>
      a_words a ! (idx r + 2) = a_words a ! (idx r + 2) \<and> bs' (idx r) = bs (idx r) \<and>
      idx r + unat n \<noteq> wbump a"
      using same free_large [OF inv r] by (auto simp: large_blk_def)
  qed simp_all
  ultimately show ?thesis by (simp add: inv_def)
qed

lemma blocks_merge:
  assumes "blocks_ok a bs" "bs i = Some n" "bs (i + n) = Some m"
  shows "blocks_ok a (bs(i := Some (n + m), i + n := None))"
proof -
  have n: "0 < n" using assms(1,2) by (auto simp: blocks_ok_def)
  have 1: "1 \<le> j \<and> 0 < k \<and> j + k \<le> wbump a" if "bs j = Some k" for j k
    using assms(1) that by (auto simp: blocks_ok_def)
  have 2: "j + k \<le> j'" if "bs j = Some k" "bs j' = Some k'" "j < j'" for j k j' k'
    using assms(1) that by (auto simp: blocks_ok_def)
  have 3: "i + n + m \<le> j" if "bs j = Some k" "i < j" "j \<noteq> i + n" for j k
    using 2 [OF assms(3) that(1)] 2 [OF assms(2) that(1) that(2)] that(3) by linarith
  show ?thesis
    unfolding blocks_ok_def
  proof (intro conjI allI impI)
    fix j k assume "(bs(i := Some (n + m), i + n := None)) j = Some k"
    then show "1 \<le> j" "0 < k" "j + k \<le> wbump a"
      using 1 [of j k] 1 [OF assms(2)] 1 [OF assms(3)] by (auto split: if_splits)
  next
    fix j k j' k'
    assume "(bs(i := Some (n + m), i + n := None)) j = Some k"
      "(bs(i := Some (n + m), i + n := None)) j' = Some k'" "j < j'"
    then show "j + k \<le> j'"
      using 2 [of j k j' k'] 2 [of j k i n] 3 [of j' k'] assms(2) by (auto split: if_splits)
  qed
qed

lemma blocks_carve:
  assumes "blocks_ok a bs" "bs i = Some n" "0 < k" "0 < l" "k + l \<le> n"
  shows "blocks_ok a (bs(i := Some k, i + k := Some l))"
proof -
  have 1: "1 \<le> j \<and> 0 < k \<and> j + k \<le> wbump a" if "bs j = Some k" for j k
    using assms(1) that by (auto simp: blocks_ok_def)
  have 2: "j + k \<le> j'" if "bs j = Some k" "bs j' = Some k'" "j < j'" for j k j' k'
    using assms(1) that by (auto simp: blocks_ok_def)
  show ?thesis
    unfolding blocks_ok_def
  proof (intro conjI allI impI)
    fix j q assume "(bs(i := Some k, i + k := Some l)) j = Some q"
    then show "1 \<le> j" "0 < q" "j + q \<le> wbump a"
      using 1 [of j q] 1 [OF assms(2)] assms(3-5) by (auto split: if_splits)
  next
    fix j q j' q'
    assume "(bs(i := Some k, i + k := Some l)) j = Some q"
      "(bs(i := Some k, i + k := Some l)) j' = Some q'" "j < j'"
    then show "j + q \<le> j'"
      using 2 [of j q j' q'] 2 [of j q i n] 2 [of i n j' q'] 2 [of i n j q] 1 [of j q] assms(2-5)
      by (cases i j rule: linorder_cases) (auto split: if_splits)
  qed
qed

lemma blocks_shrink:
  assumes "blocks_ok a bs" "bs i = Some n" "0 < k" "k \<le> n"
  shows "blocks_ok a (bs(i := Some k))"
  unfolding blocks_ok_def
proof (intro conjI allI impI)
  have upper: "1 \<le> i \<and> i + n \<le> wbump a" using assms(1,2) by (auto simp: blocks_ok_def)
  fix j q assume "(bs(i := Some k)) j = Some q"
  then have "1 \<le> j \<and> 0 < q \<and> j + q \<le> wbump a"
    using assms(1,3,4) upper unfolding blocks_ok_def by (cases "j = i") auto
  then show "1 \<le> j" "0 < q" "j + q \<le> wbump a" by blast+
next
  fix j q j' q' assume "(bs(i := Some k)) j = Some q" "(bs(i := Some k)) j' = Some q'" "j < j'"
  moreover have "\<And>j m. bs j = Some m \<Longrightarrow> i < j \<Longrightarrow> i + n \<le> j"
    using assms(1,2) unfolding blocks_ok_def by blast
  ultimately show "j + q \<le> j'"
    using assms by (fastforce simp: blocks_ok_def split: if_splits)
qed

lemma arena_merge:
  assumes "arena_inv a (insert (i, n) (insert (i + n, m) L))" "(i, n) \<notin> L" "(i + n, m) \<notin> L"
  shows "arena_inv a (insert (i, n + m) L)" and "(i, n + m) \<notin> L"
proof -
  obtain bs S G where inv: "inv a bs S G" and L: "insert (i, n) (insert (i + n, m) L) = live bs S a"
    using assms(1) by (auto simp: arena_inv_def)
  let ?bs = "bs(i := Some (n + m), i + n := None)"
  have "(i, n) \<in> live bs S a" "(i + n, m) \<in> live bs S a" using L by blast+
  then have i: "bs i = Some n" "bs (i + n) = Some m" "i \<notin> free_starts S a" "i + n \<notin> free_starts S a"
    by (auto simp: live_def)
  then have n: "0 < n" using inv_base(2) [OF inv] by (auto simp: blocks_ok_def)
  have "inv a ?bs S G"
    by (rule inv_bs [OF inv blocks_merge [OF inv_base(2) [OF inv] i(1,2)]]) (use i in auto)
  moreover have LL: "L = live bs S a - {(i, n), (i + n, m)}" using L assms(2,3) by blast
  moreover have "insert (i, n + m) L = live ?bs S a"
    unfolding LL using i n by (auto simp: live_def split: if_splits)
  ultimately show "arena_inv a (insert (i, n + m) L)" unfolding arena_inv_def by blast
  show "(i, n + m) \<notin> L" unfolding LL using i n by (auto simp: live_def)
qed

lemma arena_carve:
  assumes "arena_inv a (insert (i, n) L)" "(i, n) \<notin> L" "0 < k" "0 < l" "k + l \<le> n"
  shows "arena_inv a (insert (i, k) (insert (i + k, l) L))"
    and "(i, k) \<notin> insert (i + k, l) L" and "(i + k, l) \<notin> L"
proof -
  obtain bs S G where inv: "inv a bs S G" and L: "insert (i, n) L = live bs S a"
    using assms(1) by (auto simp: arena_inv_def)
  let ?bs = "bs(i := Some k, i + k := Some l)"
  have i: "bs i = Some n" "i \<notin> free_starts S a" using L by (auto simp: live_def)
  have b: "blocks_ok a bs" using inv by (rule inv_base)
  have no: "bs (i + k) = None"
  proof (rule ccontr)
    assume "bs (i + k) \<noteq> None"
    then obtain q where "bs (i + k) = Some q" by blast
    then have "i + n \<le> i + k" using b i(1) assms(3) unfolding blocks_ok_def by (meson less_add_same_cancel1)
    then show False using assms(4,5) by linarith
  qed
  then have nf: "i + k \<notin> free_starts S a" using free_start_block [OF inv] by fastforce
  have "inv a ?bs S G"
    by (rule inv_bs [OF inv blocks_carve [OF b i(1) assms(3-5)]]) (use i nf in auto)
  have LL: "L = live bs S a - {(i, n)}" using L assms(2) by blast
  moreover have "insert (i, k) (insert (i + k, l) L) = live ?bs S a"
    unfolding LL using i nf no assms(3) by (auto simp: live_def split: if_splits)
  ultimately show "arena_inv a (insert (i, k) (insert (i + k, l) L))"
    using \<open>inv a ?bs S G\<close> unfolding arena_inv_def by blast
  show "(i, k) \<notin> insert (i + k, l) L" "(i + k, l) \<notin> L"
    unfolding LL using i no assms(3) by (auto simp: live_def)
qed

lemma arena_shrink:
  assumes "arena_inv a (insert (i, n) L)" "(i, n) \<notin> L" "0 < k" "k \<le> n"
  shows "arena_inv a (insert (i, k) L)" and "(i, k) \<notin> L"
proof -
  obtain bs S G where inv: "inv a bs S G" and L: "insert (i, n) L = live bs S a"
    using assms(1) by (auto simp: arena_inv_def)
  have i: "bs i = Some n" "i \<notin> free_starts S a" using L by (auto simp: live_def)
  have "inv a (bs(i := Some k)) S G"
    by (rule inv_bs [OF inv blocks_shrink [OF inv_base(2) [OF inv] i(1) assms(3,4)]]) (use i in auto)
  moreover have LL: "L = live bs S a - {(i, n)}" using L assms(2) by blast
  moreover have "insert (i, k) L = live (bs(i := Some k)) S a"
    unfolding LL using i by (auto simp: live_def split: if_splits)
  ultimately show "arena_inv a (insert (i, k) L)" unfolding arena_inv_def by blast
  show "(i, k) \<notin> L" unfolding LL using i by (auto simp: live_def)
qed

text \<open>Live blocks are inside the used part and do not overlap.\<close>

lemma arena_inv_bounds:
  assumes "arena_inv a L" "(i, n) \<in> L"
  shows "1 \<le> i" "0 < n" "i + n \<le> wbump a" "wbump a \<le> length (a_words a)" "wbump a \<le> 2 ^ 28"
proof -
  obtain bs S G where inv: "inv a bs S G" and L: "L = live bs S a"
    using assms(1) by (auto simp: arena_inv_def)
  have "bs i = Some n" using assms(2) L by (simp add: live_def)
  then show "1 \<le> i" "0 < n" "i + n \<le> wbump a"
    using inv_base(2) [OF inv] unfolding blocks_ok_def by blast+
  show "wbump a \<le> length (a_words a)" "wbump a \<le> 2 ^ 28"
    using wbump_le [OF inv_base(3) [OF inv]] by blast+
qed

lemma arena_inv_disjoint:
  assumes "arena_inv a L" "(i, n) \<in> L" "(j, m) \<in> L" "(i, n) \<noteq> (j, m)"
  shows "i + n \<le> j \<or> j + m \<le> i"
proof -
  obtain bs S G where inv: "inv a bs S G" and L: "L = live bs S a"
    using assms(1) by (auto simp: arena_inv_def)
  have "bs i = Some n" "bs j = Some m" using assms(2,3) L by (auto simp: live_def)
  moreover have "i \<noteq> j" using calculation assms(4) by auto
  ultimately show ?thesis
    using inv_base(2) [OF inv] unfolding blocks_ok_def by (metis linorder_neqE_nat)
qed

section \<open>The free-list steps on live blocks\<close>

text \<open>What a free-list step leaves alone.\<close>

definition step :: "arena \<Rightarrow> arena \<Rightarrow> (nat \<times> nat) set \<Rightarrow> bool" where
  "step a a' L \<longleftrightarrow> same_geometry a a' \<and> keeps a a' L"

lemma step_trans: "step a b L \<Longrightarrow> step b c L \<Longrightarrow> step a c L"
  unfolding step_def same_geometry_def using keeps_trans by auto

lemma step_wbump: "step a b L \<Longrightarrow> wbump b = wbump a"
  unfolding step_def using same_geometry_wbump by blast

lemma arena_unlink:
  assumes "arena_inv a L" and r: "a_largeByStart a r = Some n"
  obtains a' where "unlinkLarge a r n = Some a'"
    and "arena_inv a' (insert (idx r, unat n) L)" "(idx r, unat n) \<notin> L" "step a a' L"
    and "a_largeByStart a' = (a_largeByStart a)(r := None)"
    and "a_largeByEnd a' = (a_largeByEnd a)(r + ucast n * 8 := None)"
proof -
  obtain bs S G where inv: "inv a bs S G" and L: "L = live bs S a"
    using assms(1) by (auto simp: arena_inv_def)
  obtain a' where a': "unlinkLarge a r n = Some a'"
    "inv a' bs S (G(largeSizeClass n := remove1 r (G (largeSizeClass n))))"
    "same_geometry a a'" "a_largeByStart a' = (a_largeByStart a)(r := None)"
    "a_largeByEnd a' = (a_largeByEnd a)(r + ucast n * 8 := None)"
    "\<And>i. \<not> large_touch a' i \<Longrightarrow> a_words a' ! i = a_words a ! i"
    using unlinkLarge_ok [OF inv r] by metis
  have blk: "large_blk a bs r n" using free_large [OF inv r] .
  have "idx r \<noteq> idx s" if "c < 20" "s \<in> set (S c)" for c s
    using free_small [OF inv that] blk classWords_ok [OF that(1)] by (auto simp: large_blk_def)
  moreover have "idx r \<noteq> idx s" if "a_largeByStart a s = Some m" "s \<noteq> r" for s m
    using free_large [OF inv that(1)] blk aligned_inj that(2) by (auto simp: large_blk_def)
  ultimately have fs: "free_starts S a' = free_starts S a - {idx r}"
    unfolding free_starts_def a'(4) by (auto simp: image_iff)
  have r': "idx r \<in> free_starts S a" using r by (auto simp: free_starts_def)
  have "insert (idx r, unat n) L = live bs S a'"
    using blk unfolding L live_def fs by (auto simp: large_blk_def)
  moreover have "(idx r, unat n) \<notin> L" using r' by (simp add: L live_def)
  moreover have "keeps a a' L"
    unfolding keeps_def
  proof (clarify)
    fix i m k assume "(i, m) \<in> L" "k < m"
    then have "\<not> large_touch a' (i + k)"
      using live_untouched [OF a'(2)] calculation(1) by blast
    then show "a_words a' ! (i + k) = a_words a ! (i + k)" by (rule a'(6))
  qed
  ultimately show thesis
    using that [OF a'(1) _ _ _ a'(4,5)] a'(2,3) unfolding arena_inv_def step_def by blast
qed

lemma arena_insert:
  assumes "arena_inv a (insert (idx r, unat n) L)" "(idx r, unat n) \<notin> L" "aligned r" "64 < unat n"
    and prv: "a_largeByEnd a r = None" and nxt: "a_largeByStart a (r + ucast n * 8) = None"
    and top: "idx r + unat n \<noteq> wbump a"
  obtains a' where "insertLarge a r n = Some a'" "arena_inv a' L" "step a a' L"
proof -
  obtain bs S G where inv: "inv a bs S G" and L: "insert (idx r, unat n) L = live bs S a"
    using assms(1) by (auto simp: arena_inv_def)
  have r: "bs (idx r) = Some (unat n)" "idx r \<notin> free_starts S a" using L by (auto simp: live_def)
  obtain a' where a': "insertLarge a r n = Some a'"
    "inv a' bs S (G(largeSizeClass n := r # G (largeSizeClass n)))" "same_geometry a a'"
    "a_largeByStart a' = (a_largeByStart a)(r := Some n)"
    "\<And>i. \<not> large_touch a' i \<Longrightarrow> a_words a' ! i = a_words a ! i"
    using insertLarge_ok [OF inv assms(3) r(1) assms(4) r(2) prv nxt top] by metis
  have "free_starts S a' = insert (idx r) (free_starts S a)"
    unfolding free_starts_def a'(4) by (auto simp: dom_def)
  moreover have "L = live bs S a - {(idx r, unat n)}" using L assms(2) by blast
  ultimately have "L = live bs S a'" using r by (auto simp: live_def)
  moreover have "keeps a a' L"
    unfolding keeps_def
  proof (clarify)
    fix i m k assume "(i, m) \<in> L" "k < m"
    then have "\<not> large_touch a' (i + k)"
      using live_untouched [OF a'(2)] calculation(1) by blast
    then show "a_words a' ! (i + k) = a_words a ! (i + k)" by (rule a'(5))
  qed
  ultimately show thesis using that [OF a'(1)] a'(2,3) unfolding arena_inv_def step_def by blast
qed

text \<open>The address indexes name blocks that are adjacent, maximal and below the top.\<close>

lemma byStart_facts:
  assumes "arena_inv a L" "a_largeByStart a r = Some n"
  shows "aligned r" "64 < unat n" "a_largeByStart a (r + ucast n * 8) = None"
    "idx r + unat n \<noteq> wbump a" "a_largeByEnd a (r + ucast n * 8) = Some r"
    "idx (r + ucast n * 8) = idx r + unat n" "aligned (r + ucast n * 8)"
proof -
  obtain bs S G where inv: "inv a bs S G" using assms(1) by (auto simp: arena_inv_def)
  have b: "large_blk a bs r n" using free_large [OF inv assms(2)] .
  then show 1: "aligned r" "64 < unat n" "a_largeByStart a (r + ucast n * 8) = None"
    "idx r + unat n \<noteq> wbump a" "a_largeByEnd a (r + ucast n * 8) = Some r"
    by (simp_all add: large_blk_def)
  have "idx r + unat n \<le> wbump a" using b inv_base(2) [OF inv] by (auto simp: blocks_ok_def large_blk_def)
  then have "idx r + unat n \<le> 2 ^ 28" using wbump_le [OF inv_base(3) [OF inv]] by linarith
  then show "idx (r + ucast n * 8) = idx r + unat n" "aligned (r + ucast n * 8)"
    using offset_addr [OF 1(1)] by blast+
qed

lemma byEnd_facts:
  assumes "arena_inv a L" "a_largeByEnd a e = Some r"
  obtains n where "a_largeByStart a r = Some n" "e = r + ucast n * 8"
  using assms unfolding arena_inv_def inv_def large_ok_def by blast

lemma byStart_byEnd_excl:
  assumes "arena_inv a L" "a_largeByStart a r = Some n"
  shows "a_largeByEnd a r = None"
proof (rule ccontr)
  assume "a_largeByEnd a r \<noteq> None"
  then obtain p where "a_largeByEnd a r = Some p" by blast
  from byEnd_facts [OF assms(1) this] obtain m where "a_largeByStart a p = Some m" "r = p + ucast m * 8" .
  then show False using byStart_facts(3) [OF assms(1)] assms(2) by simp
qed

lemma top_no_byEnd:
  assumes "arena_inv a L" "aligned r" "idx r = wbump a"
  shows "a_largeByEnd a r = None"
proof (rule ccontr)
  assume "a_largeByEnd a r \<noteq> None"
  then obtain p where "a_largeByEnd a r = Some p" by blast
  from byEnd_facts [OF assms(1) this] obtain m where "a_largeByStart a p = Some m" "r = p + ucast m * 8" .
  then show False using byStart_facts(4,6) [OF assms(1)] assms(3) by metis
qed

section \<open>Returning a large block\<close>

lemma span_words:
  assumes "aligned s" "aligned f" "idx f = idx s + N" "idx f \<le> 2 ^ 28"
  shows "unat (ucast ((f - s) div 8) :: u32) = N" and "s + ucast (ucast ((f - s) div 8) :: u32) * 8 = f"
proof -
  have N: "N \<le> 2 ^ 28" using assms(3,4) by simp
  have "unat f = unat s + 8 * N" using aligned_eq [OF assms(1)] aligned_eq [OF assms(2)] assms(3) by simp
  then have "s \<le> f" "unat (f - s) = 8 * N" by (simp_all add: word_le_nat_alt unat_sub)
  then have "unat ((f - s) div 8) = N" by (simp add: unat_div)
  moreover have "N < 2 ^ 32" using N by simp
  ultimately show u: "unat (ucast ((f - s) div 8) :: u32) = N"
    by (simp add: unat_ucast_down)
  then have "idx s + unat (ucast ((f - s) div 8) :: u32) \<le> 2 ^ 28" using assms(3,4) by simp
  from offset_addr(2,3) [OF assms(1) this] u
  show "s + ucast (ucast ((f - s) div 8) :: u32) * 8 = f"
    using assms(2,3) by (intro aligned_inj) simp_all
qed

lemma free_prev:
  assumes "arena_inv a (insert (idx r, N) L)" "(idx r, N) \<notin> L" "aligned r" "idx f = idx r + N"
  obtains a1 s M where
    "(case a_largeByEnd a r of
        Some prv \<Rightarrow> do { a \<leftarrow> unlinkLarge a prv (case a_largeByStart a prv of None \<Rightarrow> 0 | Some n \<Rightarrow> n);
                       Some (a, prv) }
      | None \<Rightarrow> Some (a, r)) = Some (a1, s)"
    "arena_inv a1 (insert (idx s, M) L)" "(idx s, M) \<notin> L" "aligned s" "idx f = idx s + M" "N \<le> M"
    "a_largeByEnd a1 s = None" "step a a1 L"
proof (cases "a_largeByEnd a r")
  case None
  then show thesis using assms by (intro that [of a r N]) (simp_all add: step_def same_geometry_def)
next
  case (Some p)
  from byEnd_facts [OF assms(1) Some] obtain n where n: "a_largeByStart a p = Some n" "r = p + ucast n * 8" .
  note bf = byStart_facts [OF assms(1) n(1)]
  from arena_unlink [OF assms(1) n(1)] obtain a' where a': "unlinkLarge a p n = Some a'"
    "arena_inv a' (insert (idx p, unat n) (insert (idx r, N) L))" "(idx p, unat n) \<notin> insert (idx r, N) L"
    "step a a' (insert (idx r, N) L)" "a_largeByEnd a' = (a_largeByEnd a)(p + ucast n * 8 := None)" .
  have ir: "idx r = idx p + unat n" using bf(6) n(2) by simp
  have m: "arena_inv a' (insert (idx p, unat n + N) L)" "(idx p, unat n + N) \<notin> L"
    using arena_merge [of a' "idx p" "unat n" N L] a'(2,3) assms(2) ir by auto
  show thesis
  proof (rule that [of a' p "unat n + N"])
    show "a_largeByEnd a' p = None"
      using byStart_byEnd_excl [OF assms(1) n(1)] a'(5) by simp
    show "step a a' L" using a'(4) keeps_mono unfolding step_def by blast
  qed (use Some n a'(1) m bf(1) assms(4) ir in simp_all)
qed

lemma free_next:
  assumes "arena_inv a (insert (idx s, M) L)" "(idx s, M) \<notin> L" "aligned s" "aligned f" "idx f = idx s + M"
    "a_largeByEnd a s = None"
  obtains a1 e K where
    "(case a_largeByStart a f of
        Some nw \<Rightarrow> do { a \<leftarrow> unlinkLarge a f nw; Some (a, f + ucast nw * 8) }
      | None \<Rightarrow> Some (a, f)) = Some (a1, e)"
    "arena_inv a1 (insert (idx s, K) L)" "(idx s, K) \<notin> L" "aligned e" "idx e = idx s + K" "M \<le> K"
    "a_largeByEnd a1 s = None" "a_largeByStart a1 e = None" "step a a1 L"
proof (cases "a_largeByStart a f")
  case None
  then show thesis using assms by (intro that [of a f M]) (simp_all add: step_def same_geometry_def)
next
  case (Some n)
  note bf = byStart_facts [OF assms(1) Some]
  from arena_unlink [OF assms(1) Some] obtain a' where a': "unlinkLarge a f n = Some a'"
    "arena_inv a' (insert (idx f, unat n) (insert (idx s, M) L))" "(idx f, unat n) \<notin> insert (idx s, M) L"
    "step a a' (insert (idx s, M) L)" "a_largeByStart a' = (a_largeByStart a)(f := None)"
    "a_largeByEnd a' = (a_largeByEnd a)(f + ucast n * 8 := None)" .
  have m: "arena_inv a' (insert (idx s, M + unat n) L)" "(idx s, M + unat n) \<notin> L"
    using arena_merge [of a' "idx s" M "unat n" L] a'(2,3) assms(2,5) by (auto simp: insert_commute)
  show thesis
  proof (rule that [of a' "f + ucast n * 8" "M + unat n"])
    show "step a a' L" using a'(4) keeps_mono unfolding step_def by blast
  qed (use Some a' m bf assms in simp_all)
qed

text \<open>The fields no free-list operation changes.\<close>

definition same_limits :: "arena \<Rightarrow> arena \<Rightarrow> bool" where
  "same_limits a a' \<longleftrightarrow> length (a_words a') = length (a_words a) \<and> a_cap a' = a_cap a \<and>
     a_maxCap a' = a_maxCap a \<and> a_backing a' = a_backing a \<and> a_inPlace a' = a_inPlace a"

lemma step_limits: "step a a' L \<Longrightarrow> same_limits a a'"
  by (simp add: step_def same_geometry_def same_limits_def)

lemma retreat:
  assumes "arena_inv a (insert (idx s, K) L)" "(idx s, K) \<notin> L" "aligned s" "aligned e"
    "idx e = idx s + K" "idx e = wbump a" "a_largeByEnd a s = None"
  obtains a' where "clear_words a (drop_bit 3 s) (drop_bit 3 e) = Some a'"
    "arena_inv (a'\<lparr>a_bump := ucast s\<rparr>) L" "keeps a a' L" "same_limits a a'" "unat (ucast s :: u32) = unat s"
proof -
  obtain bs S G where inv: "inv a bs S G" and L: "insert (idx s, K) L = live bs S a"
    using assms(1) by (auto simp: arena_inv_def)
  have bl: "blocks_ok a bs" and g: "geometry a" using inv_base [OF inv] by blast+
  have s: "bs (idx s) = Some K" "idx s \<notin> free_starts S a" using L by (auto simp: live_def)
  have len: "wbump a \<le> length (a_words a)" "wbump a \<le> 2 ^ 28" using wbump_le [OF g] by blast+
  have K: "0 < K" using bl s by (auto simp: blocks_ok_def)
  define ws where "ws = take (idx s) (a_words a) @ replicate K 0 @ drop (idx e) (a_words a)"
  define a1 where "a1 = a\<lparr>a_words := ws\<rparr>"
  define a2 where "a2 = a1\<lparr>a_bump := ucast s\<rparr>"
  have ret: "clear_words a (drop_bit 3 s) (drop_bit 3 e) = Some a1"
    using assms(5,6) len by (simp add: clear_words_def a1_def ws_def)
  have lws: "length ws = length (a_words a)" using assms(5,6) len by (simp add: ws_def)
  have ws: "ws ! i = (if idx s \<le> i \<and> i < idx e then 0 else a_words a ! i)" if "i < length (a_words a)" for i
    using that assms(5,6) len by (auto simp: ws_def nth_append)
  have su: "unat s = 8 * idx s" by (rule aligned_eq [OF assms(3)])
  have us: "unat (ucast s :: u32) = unat s"
    using su assms(5,6) len by (simp add: unat_ucast_down)
  have wb: "wbump a2 = idx s" by (simp add: wbump_def a2_def a1_def us su)
  have outer: "j + m \<le> idx s" if "bs j = Some m" "j \<noteq> idx s" for j m
  proof -
    have "j + m \<le> wbump a" "0 < m" using bl that(1) unfolding blocks_ok_def by blast+
    moreover have "idx s < j \<Longrightarrow> idx s + K \<le> j" using bl s(1) that(1) unfolding blocks_ok_def by blast
    moreover have "j < idx s \<Longrightarrow> j + m \<le> idx s" using bl s(1) that(1) unfolding blocks_ok_def by blast
    ultimately show ?thesis using assms(5,6) that(2) by linarith
  qed
  have same: "ws ! i = a_words a ! i" if "i < idx s" for i using ws [of i] that assms(5,6) len by simp
  have "geometry a2"
    using g assms(3) su us aligned_idx_pos [OF assms(3)] assms(5,6)
    unfolding geometry_def a2_def a1_def wbump_def by (simp add: lws) linarith
  moreover have "backing_ok a2" using inv by (simp add: inv_def base_ok_def backing_ok_def a2_def a1_def)
  moreover have "zero_above a2"
    unfolding zero_above_def wb
  proof (intro allI impI)
    fix i assume i: "idx s \<le> i \<and> i < length (a_words a2)"
    have "zero_above a" using inv by (simp add: inv_def base_ok_def)
    then show "a_words a2 ! i = 0"
      using i ws [of i] assms(6) by (auto simp: a2_def a1_def lws zero_above_def)
  qed
  moreover have "blocks_ok a2 (bs(idx s := None))"
    using bl outer unfolding blocks_ok_def wb by (auto split: if_splits)
  ultimately have "base_ok a2 (bs(idx s := None))" by (simp add: base_ok_def)
  moreover have "small_ok a2 (bs(idx s := None)) S"
  proof (rule small_frame [of a bs])
    show "small_ok a bs S" using inv by (simp add: inv_def)
    fix c r assume c: "c < 20" "r \<in> set (S c)"
    have "idx r \<noteq> idx s" using small_start [of c r S a] c s(2) by metis
    moreover have "idx r < idx s"
      using outer free_small [OF inv c] calculation classWords_ok [OF c(1)] by fastforce
    ultimately show "a_words a2 ! idx r = a_words a ! idx r \<and> (bs(idx s := None)) (idx r) = bs (idx r)"
      using same by (simp add: a2_def a1_def)
  qed (simp add: a2_def a1_def)
  moreover have "large_ok a2 (bs(idx s := None)) G"
  proof (rule large_frame [of a bs])
    show "large_ok a bs G" using inv by (simp add: inv_def)
    fix r n assume r: "a_largeByStart a r = Some n"
    have b: "bs (idx r) = Some (unat n)" "64 < unat n" using free_large [OF inv r] by (simp_all add: large_blk_def)
    have ne: "idx r \<noteq> idx s" using large_start [OF r, of S] s(2) by metis
    have "r + ucast n * 8 \<noteq> s" using byStart_facts(5) [OF assms(1) r] assms(7) by auto
    then have end_ne: "idx r + unat n \<noteq> idx s"
      using byStart_facts(6,7) [OF assms(1) r] aligned_inj assms(3) by metis
    show "a_words a2 ! idx r = a_words a ! idx r \<and> a_words a2 ! (idx r + 1) = a_words a ! (idx r + 1) \<and>
      a_words a2 ! (idx r + 2) = a_words a ! (idx r + 2) \<and> (bs(idx s := None)) (idx r) = bs (idx r) \<and>
      idx r + unat n \<noteq> wbump a2"
    proof (intro conjI)
      have lt: "idx r < idx s" "idx r + 1 < idx s" "idx r + 2 < idx s"
        using outer [OF b(1) ne] b(2) by linarith+
      have w: "a_words a2 = ws" by (simp add: a2_def a1_def)
      show "a_words a2 ! idx r = a_words a ! idx r" "a_words a2 ! (idx r + 1) = a_words a ! (idx r + 1)"
        "a_words a2 ! (idx r + 2) = a_words a ! (idx r + 2)" unfolding w by (rule same, rule lt)+
      show "(bs(idx s := None)) (idx r) = bs (idx r)" using ne by simp
      show "idx r + unat n \<noteq> wbump a2" using end_ne unfolding wb .
    qed
  qed (simp_all add: a2_def a1_def)
  ultimately have I2: "inv a2 (bs(idx s := None)) S G" by (simp add: inv_def)
  have LL: "L = live bs S a - {(idx s, K)}" using L assms(2) by blast
  have fs: "free_starts S a2 = free_starts S a" by (simp add: free_starts_def a2_def a1_def)
  have "(x \<in> L) = (x \<in> live (bs(idx s := None)) S a2)" for x
    unfolding LL live_def fs using s(1) by (cases x; cases "fst x = idx s") auto
  then have "L = live (bs(idx s := None)) S a2" by blast
  then have I: "arena_inv (a1\<lparr>a_bump := ucast s\<rparr>) L"
    using I2 unfolding arena_inv_def a2_def by blast
  have "a_words a1 ! (i + k) = a_words a ! (i + k)" if "(i, n) \<in> L" "k < n" for i n k
  proof -
    have "i + n \<le> idx s"
      using that(1) outer [of i n] s(1) unfolding LL by (cases "i = idx s") (auto simp: live_def)
    then have "i + k < idx s" using that(2) by linarith
    from same [OF this] show ?thesis by (simp add: a1_def)
  qed
  then have kp: "keeps a a1 L" by (auto simp: keeps_def)
  have "same_limits a a1" by (simp add: same_limits_def a1_def lws)
  then show thesis using that [OF ret I kp _ us] by blast
qed

lemma arena_freeLarge:
  assumes "arena_inv a (insert (idx r, unat n) L)" "(idx r, unat n) \<notin> L" "aligned r" "64 < unat n"
  obtains a' where "freeLarge a r n = Some a'" "arena_inv a' L" "keeps a a' L" "same_limits a a'"
    "wbump a' \<le> wbump a"
proof -
  have rb: "idx r + unat n \<le> wbump a" "wbump a \<le> 2 ^ 28"
    using arena_inv_bounds [OF assms(1), of "idx r" "unat n"] by simp_all
  define f where "f = r + ucast n * 8"
  have f: "aligned f" "idx f = idx r + unat n"
    using offset_addr [OF assms(3), of n] rb by (simp_all add: f_def)
  from free_prev [OF assms(1-3) f(2)] obtain a1 s M where p:
    "(case a_largeByEnd a r of
        Some prv \<Rightarrow> do { a \<leftarrow> unlinkLarge a prv (case a_largeByStart a prv of None \<Rightarrow> 0 | Some n \<Rightarrow> n);
                       Some (a, prv) }
      | None \<Rightarrow> Some (a, r)) = Some (a1, s)"
    "arena_inv a1 (insert (idx s, M) L)" "(idx s, M) \<notin> L" "aligned s" "idx f = idx s + M"
    "unat n \<le> M" "a_largeByEnd a1 s = None" "step a a1 L" .
  from free_next [OF p(2-4) f(1) p(5,7)] obtain a2 e K where q:
    "(case a_largeByStart a1 f of
        Some nw \<Rightarrow> do { a \<leftarrow> unlinkLarge a1 f nw; Some (a, f + ucast nw * 8) }
      | None \<Rightarrow> Some (a1, f)) = Some (a2, e)"
    "arena_inv a2 (insert (idx s, K) L)" "(idx s, K) \<notin> L" "aligned e" "idx e = idx s + K" "M \<le> K"
    "a_largeByEnd a2 s = None" "a_largeByStart a2 e = None" "step a1 a2 L" .
  have st: "step a a2 L" using step_trans [OF p(8) q(9)] .
  note wb = step_wbump [OF st]
  have eb: "idx e \<le> wbump a2" "idx e \<le> 2 ^ 28"
    using arena_inv_bounds [OF q(2), of "idx s" K] q(5) by simp_all
  have g: "geometry a2" using q(2) inv_base(3) unfolding arena_inv_def by blast
  have bump: "unat (a_bump a2) = 8 * wbump a2" using g by (auto simp: geometry_def wbump_def)
  have top: "e = ucast (a_bump a2) \<longleftrightarrow> idx e = wbump a2"
    using aligned_eq [OF q(4)] bump by (auto simp: word_unat_eq_iff)
  have run: "freeLarge a r n = (if e = ucast (a_bump a2)
      then do { a \<leftarrow> clear_words a2 (drop_bit 3 s) (drop_bit 3 e); Some (a\<lparr>a_bump := ucast s\<rparr>) }
      else insertLarge a2 s (ucast ((e - s) div 8)))"
    using p(1) q(1) by (simp add: freeLarge_def f_def [symmetric] Let_def)
  show thesis
  proof (cases "idx e = wbump a2")
    case True
    from retreat [OF q(2,3) p(4) q(4,5) True q(7)] obtain a3 where a3:
      "clear_words a2 (drop_bit 3 s) (drop_bit 3 e) = Some a3"
      "arena_inv (a3\<lparr>a_bump := ucast s\<rparr>) L" "keeps a2 a3 L" "same_limits a2 a3"
      "unat (ucast s :: u32) = unat s" .
    have "wbump (a3\<lparr>a_bump := ucast s\<rparr>) = idx s" by (simp add: wbump_def a3(5) idx_def)
    then have "wbump (a3\<lparr>a_bump := ucast s\<rparr>) \<le> wbump a" using True q(5) wb by simp
    moreover have "keeps a (a3\<lparr>a_bump := ucast s\<rparr>) L"
      using st a3(3) unfolding step_def keeps_def by fastforce
    moreover have "same_limits a (a3\<lparr>a_bump := ucast s\<rparr>)"
      using step_limits [OF st] a3(4) by (simp add: same_limits_def)
    ultimately show thesis using that a3(1,2) run top True by simp
  next
    case False
    let ?k = "ucast ((e - s) div 8) :: u32"
    note k = span_words [OF p(4) q(4,5) eb(2)]
    have i: "arena_inv a2 (insert (idx s, unat ?k) L)" "(idx s, unat ?k) \<notin> L" "64 < unat ?k"
      using q(2,3,6) p(6) assms(4) unfolding k(1) by simp_all
    have "a_largeByStart a2 (s + ucast ?k * 8) = None" "idx s + unat ?k \<noteq> wbump a2"
      using q(5,8) False unfolding k by simp_all
    from arena_insert [OF i(1,2) p(4) i(3) q(7) this] obtain a3 where
      a3: "insertLarge a2 s ?k = Some a3" "arena_inv a3 L" "step a2 a3 L" .
    have "step a a3 L" using step_trans [OF st a3(3)] .
    moreover have "keeps a a3 L" using calculation by (simp add: step_def)
    ultimately show thesis
      using that [of a3] a3 run top False step_limits [of a a3 L] step_wbump [of a a3 L] by simp
  qed
qed

end
