(* ===== verification/ArenaAlloc.thy ===== *)
theory ArenaAlloc
  imports ArenaBlocks
begin

text \<open>
  Allocation and release as steps on the set of live blocks: the small buckets, the large
  buckets with splitting, the bump path with growth, and the whole of \<open>AllocBytes\<close>,
  \<open>AllocWords\<close>, \<open>Free\<close> and \<open>Compact\<close>.
\<close>

section \<open>Writing inside a live block\<close>

lemma arena_write:
  assumes "arena_inv a (insert (i, n) L)" "(i, n) \<notin> L" "length ws = length (a_words a)"
    and fr: "\<And>j. j < length ws \<Longrightarrow> \<not> (i \<le> j \<and> j < i + n) \<Longrightarrow> ws ! j = a_words a ! j"
  shows "arena_inv (a\<lparr>a_words := ws\<rparr>) (insert (i, n) L)" "keeps a (a\<lparr>a_words := ws\<rparr>) L"
proof -
  let ?a = "a\<lparr>a_words := ws\<rparr>"
  obtain bs S G where inv: "inv a bs S G" and L: "insert (i, n) L = live bs S a"
    using assms(1) by (auto simp: arena_inv_def)
  have bl: "blocks_ok a bs" by (rule inv_base [OF inv])
  have i: "bs i = Some n" "i \<notin> free_starts S a" using L by (auto simp: live_def)
  have in_i: "in_blk bs i j" if "i \<le> j" "j < i + n" for j using that i by (simp add: in_blk_def)
  have out: "ws ! j = a_words a ! j" if "in_blk bs k j" "k \<noteq> i" for j k
    using in_blk_unique [OF bl that(1)] in_i [of j] that(2) fr [of j]
      in_blk_bound [OF bl inv_base(3) [OF inv] that(1)] assms(3) by metis
  have "base_ok ?a bs"
  proof (rule base_frame [of a])
    show "base_ok a bs" by (rule inv_base [OF inv])
    fix j assume "wbump a \<le> j" "j < length (a_words a)"
    moreover have "i + n \<le> wbump a" using bl i(1) unfolding blocks_ok_def by blast
    ultimately show "a_words ?a ! j = a_words a ! j" using fr assms(3) by simp
  qed (simp add: same_geometry_def assms(3))
  moreover have "small_ok ?a bs S"
  proof (rule small_frame [of a bs])
    show "small_ok a bs S" using inv by (simp add: inv_def)
    fix c r assume c: "c < 20" "r \<in> set (S c)"
    have "idx r \<noteq> i" using small_start [of c r S a] c i(2) by metis
    moreover have "in_blk bs (idx r) (idx r)"
      using free_small [OF inv c] classWords_ok [OF c(1)] by (simp add: in_blk_def)
    ultimately show "a_words ?a ! idx r = a_words a ! idx r \<and> bs (idx r) = bs (idx r)"
      using out by simp
  qed simp
  moreover have "large_ok ?a bs G"
  proof (rule large_frame [of a bs])
    show "large_ok a bs G" using inv by (simp add: inv_def)
    fix r m assume r: "a_largeByStart a r = Some m"
    have b: "large_blk a bs r m" by (rule free_large [OF inv r])
    have ne: "idx r \<noteq> i" using large_start [OF r, of S] i(2) by metis
    have "ws ! (idx r + k) = a_words a ! (idx r + k)" if "k < 3" for k
      using b that by (intro out [OF _ ne]) (simp add: in_blk_def large_blk_def)
    from this [of 0] this [of 1] this [of 2]
    show "a_words ?a ! idx r = a_words a ! idx r \<and> a_words ?a ! (idx r + 1) = a_words a ! (idx r + 1) \<and>
      a_words ?a ! (idx r + 2) = a_words a ! (idx r + 2) \<and> bs (idx r) = bs (idx r) \<and>
      idx r + unat m \<noteq> wbump ?a"
      using b by (simp add: large_blk_def wbump_def)
  qed simp_all
  ultimately have "inv ?a bs S G" by (simp add: inv_def)
  moreover have "live bs S ?a = live bs S a" by (simp add: live_def free_starts_def)
  ultimately show "arena_inv ?a (insert (i, n) L)" using L unfolding arena_inv_def by metis
  have "ws ! (j + k) = a_words a ! (j + k)" if "(j, m) \<in> L" "k < m" for j m k
  proof (rule out)
    have "(j, m) \<in> live bs S a" using that L by blast
    then show "in_blk bs j (j + k)" using that(2) by (simp add: live_def in_blk_def)
    show "j \<noteq> i" using \<open>(j, m) \<in> live bs S a\<close> i(1) that(1) assms(2) by (auto simp: live_def)
  qed
  then show "keeps a ?a L" by (auto simp: keeps_def)
qed

lemma zeroFill_range:
  assumes "idx r + n \<le> length (a_words a)" "n < 2 ^ 32"
  shows "\<exists>ws. foldl (\<lambda>r' i. do { a \<leftarrow> r'; wset a (drop_bit 3 r + word_of_nat i) 0 }) (Some a) [0..<n] =
      Some (a\<lparr>a_words := ws\<rparr>) \<and> length ws = length (a_words a) \<and>
    (\<forall>j < length ws. ws ! j = (if idx r \<le> j \<and> j < idx r + n then 0 else a_words a ! j))"
  using assms
proof (induction n)
  case 0
  show ?case by (intro exI [of _ "a_words a"]) auto
next
  case (Suc n)
  then obtain ws where ws: "foldl (\<lambda>r' i. do { a \<leftarrow> r'; wset a (drop_bit 3 r + word_of_nat i) 0 }) (Some a) [0..<n] =
      Some (a\<lparr>a_words := ws\<rparr>)" "length ws = length (a_words a)"
    "\<forall>j < length ws. ws ! j = (if idx r \<le> j \<and> j < idx r + n then 0 else a_words a ! j)" by auto
  have "unat (drop_bit 3 r + word_of_nat n) = idx r + n"
    using Suc.prems(2) by (intro unat_shift3_plus) simp
  then have "wset (a\<lparr>a_words := ws\<rparr>) (drop_bit 3 r + word_of_nat n) 0 = Some (a\<lparr>a_words := ws[idx r + n := 0]\<rparr>)"
    using Suc.prems(1) ws(2) by (simp add: wset_at)
  then show ?case
    using ws Suc.prems(1) by (intro exI [of _ "ws[idx r + n := 0]"]) (auto simp: nth_list_update)
qed

lemma arena_zeroFill:
  assumes "arena_inv a (insert (idx r, unat w) L)" "(idx r, unat w) \<notin> L"
  obtains a' where "zeroFill a r w = Some a'" "arena_inv a' (insert (idx r, unat w) L)" "keeps a a' L"
    "\<forall>k < unat w. a_words a' ! (idx r + k) = 0" "same_limits a a'" "wbump a' = wbump a"
proof -
  have b: "idx r + unat w \<le> length (a_words a)" "idx r + unat w \<le> wbump a"
    using arena_inv_bounds [OF assms(1), of "idx r" "unat w"] by simp_all
  from zeroFill_range [OF b(1)] obtain ws where ws:
    "zeroFill a r w = Some (a\<lparr>a_words := ws\<rparr>)" "length ws = length (a_words a)"
    "\<forall>j < length ws. ws ! j = (if idx r \<le> j \<and> j < idx r + unat w then 0 else a_words a ! j)"
    using unat_u32_lt [of w] by (auto simp: zeroFill_def)
  have "ws ! j = a_words a ! j" if "j < length ws" "\<not> (idx r \<le> j \<and> j < idx r + unat w)" for j
    using ws(3) that by auto
  from arena_write [OF assms ws(2) this] show thesis
    using that [OF ws(1)] ws(2,3) b by (simp add: same_limits_def wbump_def)
qed

section \<open>The small buckets\<close>

lemma small_disjoint:
  "inv a bs S G \<Longrightarrow> c < 20 \<Longrightarrow> d < 20 \<Longrightarrow> r \<in> set (S c) \<Longrightarrow> s \<in> set (S d) \<Longrightarrow> idx r = idx s \<Longrightarrow> c = d \<and> r = s"
  using free_small [of a bs S G c r] free_small [of a bs S G d s] classWords_ok [of c] classWords_ok [of d]
  by (metis aligned_inj option.inject word_unat_eq_iff)

lemma UN_upd: "c \<in> A \<Longrightarrow> (\<Union>d\<in>A. f ((S(c := y)) d)) = f y \<union> (\<Union>d\<in>A - {c}. f (S d))"
  by (auto split: if_splits)

lemma UN_split: "c \<in> A \<Longrightarrow> (\<Union>d\<in>A. f (S d)) = f (S c) \<union> (\<Union>d\<in>A - {c}. f (S d))"
  by auto

lemma arena_push:
  assumes "arena_inv a (insert (idx r, unat (classWords c)) L)" "(idx r, unat (classWords c)) \<notin> L"
    "aligned r" "c < 20"
  obtains a' where "a' = a\<lparr>a_words := (a_words a)[idx r := a_freeHeads a c],
      a_freeHeads := (a_freeHeads a)(c := r), a_freeBytes := a_freeBytes a + ucast (classWords c) * 8\<rparr>"
    "idx r < length (a_words a)" "arena_inv a' L" "keeps a a' L"
proof -
  define ws where "ws = (a_words a)[idx r := a_freeHeads a c]"
  let ?n = "unat (classWords c)"
  define a' where "a' = a\<lparr>a_words := ws, a_freeHeads := (a_freeHeads a)(c := r),
    a_freeBytes := a_freeBytes a + ucast (classWords c) * 8\<rparr>"
  have n: "1 \<le> ?n" using classWords_ok [OF assms(4)] by blast
  have "ws ! j = a_words a ! j" if "j < length ws" "\<not> (idx r \<le> j \<and> j < idx r + ?n)" for j
    using that n by (cases "j = idx r") (simp_all add: ws_def)
  from arena_write [OF assms(1,2) _ this] have w: "arena_inv (a\<lparr>a_words := ws\<rparr>) (insert (idx r, ?n) L)"
    "keeps a (a\<lparr>a_words := ws\<rparr>) L" by (simp_all add: ws_def)
  have rl: "idx r < length (a_words a)" using arena_inv_bounds [OF assms(1), of "idx r" ?n] n by simp
  obtain bs S G where inv: "inv (a\<lparr>a_words := ws\<rparr>) bs S G"
    and L: "insert (idx r, ?n) L = live bs S (a\<lparr>a_words := ws\<rparr>)"
    using w(1) by (auto simp: arena_inv_def)
  have r: "bs (idx r) = Some ?n" "idx r \<notin> free_starts S (a\<lparr>a_words := ws\<rparr>)"
    using L by (auto simp: live_def)
  let ?S = "S(c := r # S c)"
  have "base_ok a' bs"
    using inv_base(1) [OF inv] by (rule base_frame) (simp_all add: a'_def same_geometry_def)
  moreover have "large_ok a' bs G"
  proof (rule large_frame [of "a\<lparr>a_words := ws\<rparr>" bs])
    show "large_ok (a\<lparr>a_words := ws\<rparr>) bs G" using inv by (simp add: inv_def)
    fix s m assume "a_largeByStart (a\<lparr>a_words := ws\<rparr>) s = Some m"
    from free_large [OF inv this] show "a_words a' ! idx s = a_words (a\<lparr>a_words := ws\<rparr>) ! idx s \<and>
      a_words a' ! (idx s + 1) = a_words (a\<lparr>a_words := ws\<rparr>) ! (idx s + 1) \<and>
      a_words a' ! (idx s + 2) = a_words (a\<lparr>a_words := ws\<rparr>) ! (idx s + 2) \<and> bs (idx s) = bs (idx s) \<and>
      idx s + unat m \<noteq> wbump a'" by (simp add: a'_def large_blk_def wbump_def)
  qed (simp_all add: a'_def)
  moreover have "small_ok a' bs ?S"
    unfolding small_ok_def
  proof (intro allI impI)
    fix d :: nat assume d: "d < 20"
    have old: "chain ws (a_freeHeads a d) (S d)" "distinct (S d)"
      "\<forall>r\<in>set (S d). aligned r \<and> bs (idx r) = Some (unat (classWords d))"
      using inv d by (simp_all add: inv_def small_ok_def)
    have "r \<notin> set (S d)" using small_start [OF d] r(2) by metis
    moreover have "ws ! idx r = a_freeHeads a c" using rl by (simp add: ws_def)
    moreover have "r \<noteq> 0" using assms(3) by (simp add: aligned_def)
    ultimately show "chain (a_words a') (a_freeHeads a' d) (?S d) \<and> distinct (?S d) \<and>
        (\<forall>r\<in>set (?S d). aligned r \<and> bs (idx r) = Some (unat (classWords d)))"
      using old r(1) assms(3) by (cases "d = c") (simp_all add: a'_def)
  qed
  ultimately have "inv a' bs ?S G" by (simp add: inv_def)
  moreover have fs: "free_starts ?S a' = insert (idx r) (free_starts S (a\<lparr>a_words := ws\<rparr>))"
    using assms(4) UN_upd [of c "{..<20}" "\<lambda>xs. idx ` set xs" S "r # S c"]
      UN_split [of c "{..<20}" "\<lambda>xs. idx ` set xs" S] by (simp add: free_starts_def a'_def)
  moreover have "L = live bs ?S a'"
  proof -
    have LL: "L = live bs S (a\<lparr>a_words := ws\<rparr>) - {(idx r, ?n)}" using L assms(2) by blast
    have "(x \<in> L) = (x \<in> live bs ?S a')" for x
      unfolding LL live_def fs using r(1) by (cases x) auto
    then show ?thesis by blast
  qed
  ultimately have "arena_inv a' L" unfolding arena_inv_def by blast
  moreover have "keeps a a' L" using w(2) by (simp add: keeps_def a'_def)
  ultimately show thesis using that [OF _ rl] by (simp add: a'_def ws_def)
qed

lemma arena_pop:
  assumes "arena_inv a L" "c < 20" "a_freeHeads a c = r" "r \<noteq> 0"
  obtains a' where "popSizeClass a c = Some (r, a')" "aligned r"
    "arena_inv a' (insert (idx r, unat (classWords c)) L)" "(idx r, unat (classWords c)) \<notin> L"
    "step a a' L"
proof -
  let ?n = "unat (classWords c)"
  obtain bs S G where inv: "inv a bs S G" and L: "L = live bs S a"
    using assms(1) by (auto simp: arena_inv_def)
  have ch: "chain (a_words a) (a_freeHeads a c) (S c)" "distinct (S c)"
    using inv assms(2) by (simp_all add: inv_def small_ok_def)
  then obtain ys where ys: "S c = r # ys" using assms(3,4) by (cases "S c") auto
  have r: "aligned r" "bs (idx r) = Some ?n" using free_small [OF inv assms(2), of r] ys by simp_all
  have "in_blk bs (idx r) (idx r)" using r classWords_ok [OF assms(2)] by (simp add: in_blk_def)
  then have rl: "idx r < length (a_words a)"
    using in_blk_bound [OF inv_base(2) [OF inv] inv_base(3) [OF inv]] by blast
  define a' where "a' = a\<lparr>a_freeHeads := (a_freeHeads a)(c := a_words a ! idx r),
    a_freeBytes := a_freeBytes a - ucast (classWords c) * 8\<rparr>"
  let ?S = "S(c := ys)"
  have run: "popSizeClass a c = Some (r, a')"
    using assms(3,4) rl by (simp add: popSizeClass_def IsNull_def wget_at Let_def a'_def)
  have "base_ok a' bs"
    using inv_base(1) [OF inv] by (rule base_frame) (simp_all add: a'_def same_geometry_def)
  moreover have "large_ok a' bs G"
  proof (rule large_frame [of a bs])
    show "large_ok a bs G" using inv by (simp add: inv_def)
    fix s m assume "a_largeByStart a s = Some m"
    from free_large [OF inv this] show "a_words a' ! idx s = a_words a ! idx s \<and>
      a_words a' ! (idx s + 1) = a_words a ! (idx s + 1) \<and> a_words a' ! (idx s + 2) = a_words a ! (idx s + 2) \<and>
      bs (idx s) = bs (idx s) \<and> idx s + unat m \<noteq> wbump a'" by (simp add: a'_def large_blk_def wbump_def)
  qed (simp_all add: a'_def)
  moreover have "small_ok a' bs ?S"
    using inv ch ys unfolding inv_def small_ok_def by (auto simp: a'_def)
  ultimately have "inv a' bs ?S G" by (simp add: inv_def)
  moreover have fs: "free_starts ?S a' = free_starts S a - {idx r}"
  proof -
    have "idx r \<noteq> idx s" if "d < 20" "s \<in> set (?S d)" for d s
      using small_disjoint [OF inv assms(2) that(1), of r s] that ys ch(2) by (auto split: if_splits)
    moreover have "idx r \<noteq> idx s" if "a_largeByStart a s = Some m" for s m
      using free_large [OF inv that] r classWords_ok [OF assms(2)] by (auto simp: large_blk_def)
    moreover have "free_starts S a = insert (idx r) (free_starts ?S a')"
    proof -
      have "(\<Union>d<20. idx ` set (S d)) = insert (idx r) (\<Union>d<20. idx ` set (?S d))"
        using ys assms(2) UN_upd [of c "{..<20}" "\<lambda>xs. idx ` set xs" S ys]
          UN_split [of c "{..<20}" "\<lambda>xs. idx ` set xs" S] by simp
      then show ?thesis by (simp add: free_starts_def a'_def)
    qed
    moreover have "idx r \<notin> free_starts ?S a'"
      using calculation(1,2) unfolding free_starts_def a'_def
      by (simp add: image_iff dom_def del: fun_upd_apply) (metis not_None_eq)
    ultimately show ?thesis by blast
  qed
  moreover have rf: "idx r \<in> free_starts S a" using small_start [OF assms(2)] ys by simp
  moreover have "insert (idx r, ?n) L = live bs ?S a'"
  proof -
    have "(x \<in> insert (idx r, ?n) L) = (x \<in> live bs ?S a')" for x
      unfolding L live_def fs using r(2) by (cases x) auto
    then show ?thesis by blast
  qed
  moreover have "(idx r, ?n) \<notin> L" using rf by (simp add: L live_def)
  moreover have "step a a' L" by (simp add: step_def same_geometry_def keeps_def a'_def)
  ultimately show thesis using that [OF run r(1)] unfolding arena_inv_def by blast
qed

section \<open>The large buckets\<close>

lemma scan_ok:
  assumes "dchain (a_words a) p h xs" "length xs < fuel"
    and "\<And>x. x \<in> set xs \<Longrightarrow> idx x + 1 < length (a_words a)"
  shows "\<exists>r bw. scan_bucket fuel a need h = Some (r, bw) \<and>
    (r \<noteq> 0 \<longrightarrow> r \<in> set xs \<and> bw = ucast (a_words a ! (idx r + 1)) \<and> need \<le> bw) \<and>
    (r = 0 \<longrightarrow> (\<forall>x\<in>set xs. (ucast (a_words a ! (idx x + 1)) :: u32) < need))"
  using assms
proof (induction xs arbitrary: p h fuel)
  case Nil
  then show ?case by (cases fuel) (simp_all add: IsNull_def)
next
  case (Cons x xs)
  then obtain f where f: "fuel = Suc f" by (cases fuel) auto
  have x: "h = x" "x \<noteq> 0" "dchain (a_words a) x (a_words a ! idx x) xs" using Cons.prems(1) by simp_all
  have l: "idx x + 1 < length (a_words a)" using Cons.prems(3) by simp
  show ?case
  proof (cases "(ucast (a_words a ! (idx x + 1)) :: u32) < need")
    case True
    have "\<exists>r bw. scan_bucket f a need (a_words a ! idx x) = Some (r, bw) \<and>
      (r \<noteq> 0 \<longrightarrow> r \<in> set xs \<and> bw = ucast (a_words a ! (idx r + 1)) \<and> need \<le> bw) \<and>
      (r = 0 \<longrightarrow> (\<forall>x\<in>set xs. (ucast (a_words a ! (idx x + 1)) :: u32) < need))"
      using Cons.prems(2,3) f by (intro Cons.IH [OF x(3)]) auto
    then show ?thesis using x l True f by (auto simp: IsNull_def wget_at)
  next
    case False
    then show ?thesis using x l f by (auto simp: IsNull_def wget_at)
  qed
qed

lemma chain_length:
  assumes inv: "inv a bs S G" and "c < 24"
  shows "length (G c) \<le> length (a_words a)"
proof -
  have l: "large_ok a bs G" and b: "base_ok a bs" using inv by (simp_all add: inv_def)
  have "idx x < length (a_words a)" if "x \<in> set (G c)" for x
    using large_chain_sep(3) [OF b l assms(2)] that by fastforce
  then have "idx ` set (G c) \<subseteq> {..<length (a_words a)}" by auto
  moreover have "inj_on idx (set (G c))"
    using large_member [OF l assms(2)] aligned_inj unfolding inj_on_def large_blk_def by meson
  moreover have "card (set (G c)) = length (G c)"
    using l assms(2) by (simp add: large_ok_def distinct_card)
  ultimately show ?thesis by (metis card_image card_lessThan card_mono finite_lessThan)
qed

lemma arena_scan:
  assumes "arena_inv a L" "c < 24"
  obtains r bw where "scan_bucket (Suc (length (a_words a))) a need (a_largeFreeHeads a c) = Some (r, bw)"
    "r \<noteq> 0 \<Longrightarrow> a_largeByStart a r = Some bw \<and> need \<le> bw"
proof -
  obtain bs S G where inv: "inv a bs S G" using assms(1) by (auto simp: arena_inv_def)
  have l: "large_ok a bs G" and b: "base_ok a bs" using inv by (simp_all add: inv_def)
  have d: "dchain (a_words a) 0 (a_largeFreeHeads a c) (G c)" using l assms(2) by (simp add: large_ok_def)
  have "idx x + 1 < length (a_words a)" if "x \<in> set (G c)" for x
    using large_chain_sep(3) [OF b l assms(2)] that by fastforce
  from scan_ok [OF d _ this, of "Suc (length (a_words a))" need] obtain r bw where
    s: "scan_bucket (Suc (length (a_words a))) a need (a_largeFreeHeads a c) = Some (r, bw)"
      "r \<noteq> 0 \<longrightarrow> r \<in> set (G c) \<and> bw = ucast (a_words a ! (idx r + 1)) \<and> need \<le> bw"
    using chain_length [OF inv assms(2)] by auto
  have "a_largeByStart a r = Some bw \<and> need \<le> bw" if "r \<noteq> 0"
  proof -
    have r: "r \<in> set (G c)" "bw = ucast (a_words a ! (idx r + 1))" "need \<le> bw" using s(2) that by blast+
    from large_member [OF l assms(2) r(1)] obtain m where m: "a_largeByStart a r = Some m" "large_blk a bs r m"
      by blast
    then have "bw = m" using r(2) by (simp add: large_blk_def)
    then show ?thesis using m(1) r(3) by simp
  qed
  then show thesis by (rule that [OF s(1)])
qed

text \<open>No large free block ends inside a live block.\<close>

lemma live_no_byEnd:
  assumes "arena_inv a L" "(i, n) \<in> L" "idx x = i + k" "0 < k" "k \<le> n"
  shows "a_largeByEnd a x = None"
proof (rule ccontr)
  assume "a_largeByEnd a x \<noteq> None"
  then obtain p where "a_largeByEnd a x = Some p" by blast
  from byEnd_facts [OF assms(1) this] obtain m where m: "a_largeByStart a p = Some m" "x = p + ucast m * 8" .
  obtain bs S G where inv: "inv a bs S G" and L: "L = live bs S a"
    using assms(1) by (auto simp: arena_inv_def)
  have b: "large_blk a bs p m" by (rule free_large [OF inv m(1)])
  have e: "idx x = idx p + unat m" using byStart_facts(6) [OF assms(1) m(1)] m(2) by simp
  have i: "bs i = Some n" "i \<notin> free_starts S a" using assms(2) by (auto simp: L live_def)
  have "in_blk bs (idx p) (i + k - 1)"
    unfolding in_blk_def using b e assms(3,4) by (intro exI [of _ "unat m"]) (simp add: large_blk_def, linarith)
  moreover have "in_blk bs i (i + k - 1)" using i(1) assms(4,5) by (auto simp: in_blk_def)
  ultimately have "idx p = i" by (rule in_blk_unique [OF inv_base(2) [OF inv]])
  then show False using large_start [OF m(1)] i(2) by metis
qed

lemma small_call:
  "c < 20 \<Longrightarrow> roundUp8 (classWords c * 8) = classWords c * 8 \<and> classWords c * 8 \<noteq> 0 \<and>
     classWords c * 8 div 8 = classWords c \<and> classWords c \<le> largeThresholdWords"
proof -
  have "\<forall>c\<in>set [0..<20]. roundUp8 (classWords c * 8) = classWords c * 8 \<and> classWords c * 8 \<noteq> 0 \<and>
     classWords c * 8 div 8 = classWords c \<and> classWords c \<le> largeThresholdWords" by code_simp
  then show "c < 20 \<Longrightarrow> ?thesis" by simp
qed

lemma arena_free_class:
  assumes "arena_inv a (insert (idx r, unat (classWords c)) L)" "(idx r, unat (classWords c)) \<notin> L"
    "aligned r" "c < 20"
  obtains a' where "Free a r (classWords c * 8) = Some a'" "arena_inv a' L" "step a a' L"
proof -
  from arena_push [OF assms] obtain a' where a': "a' = a\<lparr>a_words := (a_words a)[idx r := a_freeHeads a c],
      a_freeHeads := (a_freeHeads a)(c := r), a_freeBytes := a_freeBytes a + ucast (classWords c) * 8\<rparr>"
    "idx r < length (a_words a)" "arena_inv a' L" "keeps a a' L" .
  have "r \<noteq> 0" using assms(3) by (simp add: aligned_def)
  then have "Free a r (classWords c * 8) = Some a'"
    using small_call [OF assms(4)] classWords_ok [OF assms(4)] a'(2)
    by (simp add: Free_def IsNull_def Let_def wset_at a'(1))
  moreover have "step a a' L" using a'(4) by (simp add: step_def same_geometry_def a'(1))
  ultimately show thesis using that a'(3) by blast
qed

text \<open>Taking a block off its bucket and giving the remainder back.\<close>

lemma arena_split:
  assumes "arena_inv a L" "a_largeByStart a r = Some bw" "need \<le> bw" "64 < unat need"
  obtains a' where "split_large a r bw need = Some a'" "aligned r"
    "arena_inv a' (insert (idx r, unat need) L)" "(idx r, unat need) \<notin> L" "step a a' L"
proof -
  note bf = byStart_facts [OF assms(1,2)]
  from arena_unlink [OF assms(1,2)] obtain a1 where a1: "unlinkLarge a r bw = Some a1"
    "arena_inv a1 (insert (idx r, unat bw) L)" "(idx r, unat bw) \<notin> L" "step a a1 L"
    "a_largeByStart a1 = (a_largeByStart a)(r := None)"
    "a_largeByEnd a1 = (a_largeByEnd a)(r + ucast bw * 8 := None)" .
  have bound: "idx r + unat bw \<le> 2 ^ 28"
    using arena_inv_bounds [OF a1(2), of "idx r" "unat bw"] by simp
  let ?rem = "bw - need" and ?rr = "r + ucast (need * 8)"
  have le: "unat need \<le> unat bw" using assms(3) by (simp add: word_le_nat_alt)
  have rem: "unat ?rem = unat bw - unat need" using assms(3) by (rule unat_sub)
  have "unat (need * 8) = unat need * 8" using le bound by (simp add: unat_word_ariths)
  then have "ucast (need * 8) = (ucast need * 8 :: u64)"
    using le bound by (intro word_unat_eq_iff [THEN iffD2]) (simp add: unat_word_ariths)
  then have rr: "aligned ?rr" "idx ?rr = idx r + unat need" "?rr = r + ucast need * 8"
    using offset_addr [OF bf(1), of need] le bound by simp_all
  consider "?rem = 0" | "0 < ?rem" "largeThresholdWords < ?rem" | "0 < ?rem" "\<not> largeThresholdWords < ?rem"
    by (metis word_neq_0_conv)
  then show thesis
  proof cases
    case 1
    then have "need = bw" by simp
    then show thesis using a1 bf(1) by (intro that [of a1]) (simp_all add: split_large_def Let_def)
  next
    case 2
    have r64: "64 < unat ?rem" using 2(2) by (simp add: largeThresholdWords_def word_less_nat_alt)
    note cv = arena_carve [OF a1(2,3), of "unat need" "unat ?rem"]
    have c: "arena_inv a1 (insert (idx r, unat need) (insert (idx ?rr, unat ?rem) L))"
      "(idx r, unat need) \<notin> insert (idx ?rr, unat ?rem) L" "(idx ?rr, unat ?rem) \<notin> L"
      using cv assms(4) r64 rem le by (simp_all add: rr(2))
    have endr: "?rr + ucast ?rem * 8 = r + ucast bw * 8"
      using offset_addr [OF rr(1), of ?rem] bf(6,7) rr(2) rem le bound by (intro aligned_inj) simp_all
    have "a_largeByEnd a1 ?rr = None"
      by (rule live_no_byEnd [OF a1(2), of "idx r" "unat bw" _ "unat need"]) (use rr(2) assms(4) le in simp_all)
    moreover have "a_largeByStart a1 (?rr + ucast ?rem * 8) = None" using bf(3) unfolding endr a1(5) by simp
    moreover have "idx ?rr + unat ?rem \<noteq> wbump a1"
      using bf(4) step_wbump [OF a1(4)] rr(2) rem le by simp
    moreover have "arena_inv a1 (insert (idx ?rr, unat ?rem) (insert (idx r, unat need) L))"
      using c(1) by (simp add: insert_commute)
    moreover have "(idx ?rr, unat ?rem) \<notin> insert (idx r, unat need) L" using c by auto
    ultimately obtain a2 where a2: "insertLarge a1 ?rr ?rem = Some a2"
      "arena_inv a2 (insert (idx r, unat need) L)" "step a1 a2 (insert (idx r, unat need) L)"
      using arena_insert [of a1 ?rr ?rem] rr(1) r64 by metis
    have "step a1 a2 L" using a2(3) keeps_mono unfolding step_def by blast
    then have "step a a2 L" using step_trans a1(4) by blast
    moreover have "split_large a r bw need = Some a2"
      using a1(1) a2(1) 2 by (simp add: split_large_def Let_def)
    ultimately show thesis using that a2(2) bf(1) c(2) by blast
  next
    case 3
    have rl: "1 \<le> unat ?rem" "unat ?rem \<le> 64"
      using 3 by (simp_all add: largeThresholdWords_def word_less_nat_alt not_less word_le_nat_alt Suc_le_eq)
    from floor_ok_all [OF rl] obtain c where c: "floorClass ?rem = Some c" "c < 20"
      "unat (classWords c) \<le> unat ?rem" by (auto simp: floor_ok_def split: option.splits)
    let ?n = "unat (classWords c)"
    note cv = arena_carve [OF a1(2,3), of "unat need" ?n]
    have cc: "arena_inv a1 (insert (idx r, unat need) (insert (idx ?rr, ?n) L))"
      "(idx r, unat need) \<notin> insert (idx ?rr, ?n) L" "(idx ?rr, ?n) \<notin> L"
      using cv assms(4) c(3) classWords_ok [OF c(2)] rem le by (simp_all add: rr(2))
    have "arena_inv a1 (insert (idx ?rr, ?n) (insert (idx r, unat need) L))"
      using cc(1) by (simp add: insert_commute)
    moreover have "(idx ?rr, ?n) \<notin> insert (idx r, unat need) L" using cc by auto
    ultimately obtain a2 where a2: "Free a1 ?rr (classWords c * 8) = Some a2"
      "arena_inv a2 (insert (idx r, unat need) L)" "step a1 a2 (insert (idx r, unat need) L)"
      using arena_free_class rr(1) c(2) by metis
    have "step a1 a2 L" using a2(3) keeps_mono unfolding step_def by blast
    then have "step a a2 L" using step_trans a1(4) by blast
    moreover have "split_large a r bw need = Some a2"
      using a1(1) a2(1) 3 c(1) by (simp add: split_large_def Let_def)
    ultimately show thesis using that a2(2) bf(1) cc(2) by blast
  qed
qed

lemma arena_pop_from:
  assumes "arena_inv a L" "64 < unat need"
  shows "\<exists>r a'. pop_from a need cc = Some (r, a') \<and>
    (if r = 0 then a' = a
     else aligned r \<and> arena_inv a' (insert (idx r, unat need) L) \<and> (idx r, unat need) \<notin> L \<and> step a a' L)"
proof (induction "numLargeClasses - cc" arbitrary: cc rule: less_induct)
  case less
  show ?case
  proof (cases "cc < numLargeClasses")
    case False
    then show ?thesis by (subst pop_from.simps) simp
  next
    case True
    then have cc: "cc < 24" by (simp add: numLargeClasses_def)
    obtain r bw where
      s: "scan_bucket (Suc (length (a_words a))) a need (a_largeFreeHeads a cc) = Some (r, bw)"
      "r \<noteq> 0 \<Longrightarrow> a_largeByStart a r = Some bw \<and> need \<le> bw"
      using arena_scan [OF assms(1) cc, of need] by blast
    show ?thesis
    proof (cases "r = 0")
      case True
      have "pop_from a need cc = pop_from a need (Suc cc)"
        using s(1) True \<open>cc < numLargeClasses\<close> by (subst pop_from.simps) (simp add: IsNull_def)
      then show ?thesis using less [of "Suc cc"] \<open>cc < numLargeClasses\<close> by simp
    next
      case False
      then have "a_largeByStart a r = Some bw" "need \<le> bw" using s(2) by blast+
      from arena_split [OF assms(1) this assms(2)] obtain a' where a': "split_large a r bw need = Some a'"
        "aligned r" "arena_inv a' (insert (idx r, unat need) L)" "(idx r, unat need) \<notin> L" "step a a' L" .
      have "pop_from a need cc = Some (r, a')"
        using s(1) False \<open>cc < numLargeClasses\<close> a'(1) by (subst pop_from.simps) (simp add: IsNull_def)
      then show ?thesis using a' False by auto
    qed
  qed
qed

section \<open>Growth, compaction and the bump path\<close>

lemma arena_regrow:
  assumes "arena_inv a L" and geo: "geometry a'" "backing_ok a'"
    and same: "a_bump a' = a_bump a" "a_freeHeads a' = a_freeHeads a"
      "a_largeFreeHeads a' = a_largeFreeHeads a" "a_largeByStart a' = a_largeByStart a"
      "a_largeByEnd a' = a_largeByEnd a"
    and low: "\<And>i. i < wbump a \<Longrightarrow> a_words a' ! i = a_words a ! i"
    and high: "\<And>i. wbump a \<le> i \<Longrightarrow> i < length (a_words a') \<Longrightarrow> a_words a' ! i = 0"
  shows "arena_inv a' L" "keeps a a' L"
proof -
  obtain bs S G where inv: "inv a bs S G" and L: "L = live bs S a"
    using assms(1) by (auto simp: arena_inv_def)
  have bl: "blocks_ok a bs" by (rule inv_base [OF inv])
  have wb: "wbump a' = wbump a" by (simp add: wbump_def same)
  have blk: "a_words a' ! k = a_words a ! k" if "in_blk bs i k" for i k
    using in_blk_bound [OF bl inv_base(3) [OF inv] that] low by blast
  have "base_ok a' bs"
    using geo bl high unfolding base_ok_def zero_above_def blocks_ok_def wb by simp
  moreover have "small_ok a' bs S"
  proof (rule small_frame [of a bs])
    show "small_ok a bs S" using inv by (simp add: inv_def)
    fix c r assume c: "c < 20" "r \<in> set (S c)"
    have "in_blk bs (idx r) (idx r)"
      using free_small [OF inv c] classWords_ok [OF c(1)] by (simp add: in_blk_def)
    then show "a_words a' ! idx r = a_words a ! idx r \<and> bs (idx r) = bs (idx r)" using blk by simp
  qed (rule same)
  moreover have "large_ok a' bs G"
  proof (rule large_frame [of a bs])
    show "large_ok a bs G" using inv by (simp add: inv_def)
    fix r m assume r: "a_largeByStart a r = Some m"
    have b: "large_blk a bs r m" by (rule free_large [OF inv r])
    have "a_words a' ! (idx r + k) = a_words a ! (idx r + k)" if "k < 3" for k
      using b that by (intro blk [of "idx r"]) (simp add: in_blk_def large_blk_def)
    from this [of 0] this [of 1] this [of 2]
    show "a_words a' ! idx r = a_words a ! idx r \<and> a_words a' ! (idx r + 1) = a_words a ! (idx r + 1) \<and>
      a_words a' ! (idx r + 2) = a_words a ! (idx r + 2) \<and> bs (idx r) = bs (idx r) \<and>
      idx r + unat m \<noteq> wbump a'"
      using b by (simp add: large_blk_def wb)
  qed (rule same)+
  ultimately have "inv a' bs S G" by (simp add: inv_def)
  moreover have "live bs S a' = live bs S a" by (simp add: live_def free_starts_def same)
  ultimately show "arena_inv a' L" using L unfolding arena_inv_def by metis
  have "a_words a' ! (i + k) = a_words a ! (i + k)" if "(i, n) \<in> L" "k < n" for i n k
    using that by (intro blk [of i]) (auto simp: L live_def in_blk_def)
  then show "keeps a a' L" by (auto simp: keeps_def)
qed

lemma grow_cap_ok:
  assumes "c \<noteq> 0" "unat c mod 8 = 0" "unat mx mod 8 = 0" "unat c \<le> unat mx"
    "unat mx \<le> 2 ^ 31" "unat m \<le> unat mx"
  shows "unat m \<le> unat (grow_cap c mx m) \<and> unat c \<le> unat (grow_cap c mx m) \<and>
    unat (grow_cap c mx m) \<le> unat mx \<and> unat (grow_cap c mx m) mod 8 = 0"
  using assms
proof (induction c mx m rule: grow_cap.induct)
  case (1 c mx m)
  show ?case
  proof (cases "ucast c < m")
    case False
    then have "unat m \<le> unat c" by (simp add: not_less word_le_nat_alt)
    then show ?thesis using 1(2-) False by (subst (1 2 3 4) grow_cap.simps) simp
  next
    case True
    show ?thesis
    proof (cases "mx div 2 < c")
      case big: True
      then show ?thesis using 1(2-) True by (subst (1 2 3 4) grow_cap.simps) simp
    next
      case False
      then have h: "unat c \<le> unat mx div 2" by (simp add: not_less word_le_nat_alt unat_div)
      then have u: "unat (c * 2) = unat c * 2" using 1(6) by (simp add: unat_word_ariths)
      have "0 < unat c" using 1(2) by (simp add: unat_gt_0)
      then have "c * 2 \<noteq> 0" using u by (metis mult_is_0 nat_less_le unat_0 zero_neq_numeral)
      moreover have "unat c * 2 mod 8 = 0" using 1(3) by presburger
      moreover have "unat c * 2 \<le> unat mx" using h by linarith
      ultimately have "unat m \<le> unat (grow_cap (c * 2) mx m) \<and> unat (c * 2) \<le> unat (grow_cap (c * 2) mx m) \<and>
          unat (grow_cap (c * 2) mx m) \<le> unat mx \<and> unat (grow_cap (c * 2) mx m) mod 8 = 0"
        using 1 True False by (intro 1(1)) (simp_all add: u)
      moreover have "grow_cap c mx m = grow_cap (c * 2) mx m"
        using True False 1(2) by (subst grow_cap.simps) simp
      ultimately show ?thesis using u by simp
    qed
  qed
qed

lemma copy_into_nth:
  "i < length dst \<Longrightarrow> copy_into dst src ! i = (if i < length src then src ! i else dst ! i)"
  by (auto simp: copy_into_def nth_append)

lemma length_copy_into [simp]: "length (copy_into dst src) = length dst"
  by (simp add: copy_into_def)

lemma arena_grow:
  assumes "arena_inv a L" "unat m \<le> unat (a_maxCap a)"
  obtains a' where "grow64 a m = Some a'" "arena_inv a' L" "keeps a a' L" "a_bump a' = a_bump a"
    "unat m \<le> unat (a_cap a')" "a_maxCap a' = a_maxCap a"
proof -
  have g: "geometry a" "backing_ok a" "zero_above a"
    using assms(1) unfolding arena_inv_def inv_def base_ok_def by blast+
  define c where "c = grow_cap (a_cap a) (a_maxCap a) m"
  have "unat (a_cap a) = length (a_words a) * 8" "8 \<le> unat (a_cap a)"
    using g(1) by (auto simp: geometry_def)
  then have cap: "a_cap a \<noteq> 0" "unat (a_cap a) mod 8 = 0" by auto
  note gc = grow_cap_ok [OF cap, of "a_maxCap a" m, folded c_def]
  have c: "unat m \<le> unat c" "unat (a_cap a) \<le> unat c" "unat c \<le> unat (a_maxCap a)" "unat c mod 8 = 0"
    using gc g(1) assms(2) by (simp_all add: geometry_def)
  have c8: "unat (c div 8) * 8 = unat c" using c(4) by (auto simp: unat_div)
  define w0 where "w0 = a_backing a (a_words a) (c div 8)"
  define w where "w = (if a_inPlace a then w0 else copy_into w0 (a_words a))"
  have lw: "length (a_words a) * 8 = unat (a_cap a)" using g(1) by (simp add: geometry_def)
  have "length (a_words a) \<le> unat (c div 8)" using lw c8 c(2) by linarith
  then have w0: "length w0 = unat (c div 8)" "\<forall>i < length w0. w0 ! i =
      (if a_inPlace a \<and> i < length (a_words a) then a_words a ! i else 0)"
    using g(2) unfolding backing_ok_def w0_def by auto
  have w: "length w = unat (c div 8)" using w0(1) by (simp add: w_def)
  have wn: "w ! i = (if i < length (a_words a) then a_words a ! i else 0)" if "i < length w" for i
    using that w0 by (cases "a_inPlace a") (simp_all add: w_def copy_into_nth)
  define a' where "a' = a\<lparr>a_cap := c, a_words := w\<rparr>"
  have "\<not> ucast (a_maxCap a) < m" "\<not> ucast c < m"
    using assms(2) c(1) by (simp_all add: word_less_nat_alt not_less)
  moreover have "setBacking (a\<lparr>a_cap := c\<rparr>) w = Some a'"
    using w c8 c(3) by (simp add: setBacking_def a'_def)
  ultimately have run: "grow64 a m = Some a'"
    using cap(1) by (simp add: grow64_def Let_def c_def [symmetric] w0_def [symmetric] w_def [symmetric])
  have wb: "wbump a \<le> length (a_words a)" using wbump_le [OF g(1)] by blast
  have 1: "geometry a'" using g(1) w c8 c by (simp add: geometry_def a'_def)
  have 2: "backing_ok a'" using g(2) by (simp add: backing_ok_def a'_def)
  have 3: "a_words a' ! i = a_words a ! i" if "i < wbump a" for i
    using that wn [of i] wb w lw c8 c(2) by (simp add: a'_def)
  have 4: "a_words a' ! i = 0" if "wbump a \<le> i" "i < length (a_words a')" for i
    using that wn [of i] g(3) by (simp add: a'_def zero_above_def)
  have "arena_inv a' L" "keeps a a' L"
    using arena_regrow [OF assms(1) 1 2 _ _ _ _ _ 3 4] by (simp_all add: a'_def)
  then show thesis using that [OF run] c(1) by (simp add: a'_def)
qed

lemma arena_raise:
  assumes "arena_inv a L" "unat b = 8 * (wbump a + n)" "0 < n" "unat b \<le> unat (a_cap a)"
  shows "arena_inv (a\<lparr>a_bump := b\<rparr>) (insert (wbump a, n) L)" "(wbump a, n) \<notin> L"
proof -
  let ?a = "a\<lparr>a_bump := b\<rparr>"
  obtain bs S G where inv: "inv a bs S G" and L: "L = live bs S a"
    using assms(1) by (auto simp: arena_inv_def)
  have bl: "blocks_ok a bs" and g: "geometry a" by (rule inv_base [OF inv])+
  have wb: "wbump ?a = wbump a + n" using assms(2) by (simp add: wbump_def)
  have bound: "j + m \<le> wbump a \<and> 0 < m \<and> 1 \<le> j" if "bs j = Some m" for j m
    using bl that unfolding blocks_ok_def by blast
  have new: "bs (wbump a) = None"
    using bound [of "wbump a"] by (cases "bs (wbump a)") auto
  let ?bs = "bs(wbump a := Some n)"
  have "geometry ?a" using g assms(2,4) wbump_le [OF g] by (auto simp: geometry_def)
  moreover have "backing_ok ?a" using inv by (simp add: inv_def base_ok_def backing_ok_def)
  moreover have "zero_above ?a" using inv unfolding inv_def base_ok_def zero_above_def wb by simp
  moreover have "blocks_ok ?a ?bs"
    unfolding blocks_ok_def wb
  proof (intro conjI allI impI)
    fix i m assume "?bs i = Some m"
    then have "1 \<le> i \<and> 0 < m \<and> i + m \<le> wbump a + n"
      using bound [of i m] assms(3) wbump_le [OF g] by (cases "i = wbump a") auto
    then show "1 \<le> i" "0 < m" "i + m \<le> wbump a + n" by blast+
  next
    fix i m j k assume "?bs i = Some m" "?bs j = Some k" "i < j"
    moreover have "bs i = Some m \<Longrightarrow> bs j = Some k \<Longrightarrow> i < j \<Longrightarrow> i + m \<le> j"
      using bl unfolding blocks_ok_def by blast
    ultimately show "i + m \<le> j"
      using bound [of i m] bound [of j k] by (cases "i = wbump a"; cases "j = wbump a") auto
  qed
  ultimately have "base_ok ?a ?bs" by (simp add: base_ok_def)
  moreover have "small_ok ?a ?bs S"
  proof (rule small_frame [of a bs])
    show "small_ok a bs S" using inv by (simp add: inv_def)
    fix c r assume c: "c < 20" "r \<in> set (S c)"
    then show "a_words ?a ! idx r = a_words a ! idx r \<and> ?bs (idx r) = bs (idx r)"
      using free_small [OF inv c] new by auto
  qed simp
  moreover have "large_ok ?a ?bs G"
  proof (rule large_frame [of a bs])
    show "large_ok a bs G" using inv by (simp add: inv_def)
    fix r m assume "a_largeByStart a r = Some m"
    from free_large [OF inv this] have r: "bs (idx r) = Some (unat m)" by (simp add: large_blk_def)
    then show "a_words ?a ! idx r = a_words a ! idx r \<and> a_words ?a ! (idx r + 1) = a_words a ! (idx r + 1) \<and>
      a_words ?a ! (idx r + 2) = a_words a ! (idx r + 2) \<and> ?bs (idx r) = bs (idx r) \<and>
      idx r + unat m \<noteq> wbump ?a"
      using bound [OF r] new assms(3) wb by auto
  qed simp_all
  ultimately have "inv ?a ?bs S G" by (simp add: inv_def)
  moreover have fs: "free_starts S ?a = free_starts S a" by (simp add: free_starts_def)
  moreover have "wbump a \<notin> free_starts S a" using free_start_block [OF inv] new by fastforce
  then have "(x \<in> insert (wbump a, n) L) = (x \<in> live ?bs S ?a)" for x
    unfolding L live_def fs using new by (cases x; cases "fst x = wbump a") auto
  then have "insert (wbump a, n) L = live ?bs S ?a" by blast
  ultimately show "arena_inv ?a (insert (wbump a, n) L)" unfolding arena_inv_def by blast
  show "(wbump a, n) \<notin> L" using new by (simp add: L live_def)
qed

lemma arena_bump:
  assumes "arena_inv a L" "unat need = 8 * n" "0 < n" "n \<le> 2 ^ 28"
  shows "case bump_alloc a need of
      None \<Rightarrow> unat (a_maxCap a) < 8 * (wbump a + n)
    | Some (r, a') \<Rightarrow> 8 * (wbump a + n) \<le> unat (a_maxCap a) \<and> aligned r \<and> idx r = wbump a \<and>
        arena_inv a' (insert (idx r, n) L) \<and>
        (idx r, n) \<notin> L \<and> keeps a a' L \<and> (\<forall>k<n. a_words a' ! (idx r + k) = 0) \<and> a_maxCap a' = a_maxCap a"
proof -
  have g: "geometry a" using assms(1) unfolding arena_inv_def inv_def base_ok_def by blast
  have bump: "unat (a_bump a) = 8 * wbump a" "1 \<le> wbump a" "wbump a \<le> 2 ^ 28"
    using g wbump_le [OF g] by (auto simp: geometry_def wbump_def)
  let ?m = "ucast (a_bump a) + ucast need :: u64"
  have m: "unat ?m = 8 * (wbump a + n)"
    using bump assms(2,4) by (simp add: unat_word_ariths)
  have al: "aligned (ucast (a_bump a))" "idx (ucast (a_bump a)) = wbump a"
  proof -
    have "unat (a_bump a) \<noteq> 0" using bump by linarith
    moreover have "(ucast (a_bump a) :: u64) = 0 \<Longrightarrow> unat (a_bump a) = 0"
      by (metis unat_0 unat_ucast_u32_u64)
    ultimately show "aligned (ucast (a_bump a))" using bump(1) by (auto simp: aligned_def)
    show "idx (ucast (a_bump a)) = wbump a" by (simp add: idx_def wbump_def)
  qed
  have cm: "unat (a_cap a) \<le> unat (a_maxCap a)" using g by (simp add: geometry_def)
  have main: "aligned (ucast (a_bump a1)) \<and> idx (ucast (a_bump a1)) = wbump a \<and>
      arena_inv (a1\<lparr>a_bump := a_bump a1 + need\<rparr>) (insert (wbump a, n) L) \<and> (wbump a, n) \<notin> L \<and>
      keeps a (a1\<lparr>a_bump := a_bump a1 + need\<rparr>) L \<and>
      (\<forall>k<n. a_words a1 ! (wbump a + k) = 0)"
    if a1: "arena_inv a1 L" "keeps a a1 L" "a_bump a1 = a_bump a" "8 * (wbump a + n) \<le> unat (a_cap a1)" for a1
  proof -
    have wb: "wbump a1 = wbump a" by (simp add: wbump_def a1(3))
    have z: "zero_above a1" "length (a_words a1) * 8 = unat (a_cap a1)"
      using a1(1) unfolding arena_inv_def inv_def base_ok_def geometry_def by blast+
    have "geometry a1" using a1(1) unfolding arena_inv_def inv_def base_ok_def by blast
    then have "8 * (wbump a + n) \<le> 2 ^ 31" using a1(4) by (simp add: geometry_def)
    then have nb: "unat (a_bump a + need) = 8 * (wbump a + n)"
      using bump assms(2) by (simp add: unat_word_ariths)
    note r = arena_raise [OF a1(1), of "a_bump a1 + need" n]
    have "keeps a (a1\<lparr>a_bump := a_bump a1 + need\<rparr>) L" using a1(2) by (simp add: keeps_def)
    moreover have "a_words a1 ! (wbump a + k) = 0" if "k < n" for k
      using z(1) that a1(4) z(2) by (simp add: zero_above_def wb)
    ultimately show ?thesis using r nb a1(3,4) assms(3) al by (simp add: wb)
  qed
  show ?thesis
  proof (cases "(ucast (a_cap a) :: u64) < ?m")
    case False
    then have "8 * (wbump a + n) \<le> unat (a_cap a)" using m by (simp add: word_less_nat_alt not_less)
    then show ?thesis using main [OF assms(1)] False cm al by (simp add: bump_alloc_def)
  next
    case True
    show ?thesis
    proof (cases "unat ?m \<le> unat (a_maxCap a)")
      case False
      then have "grow64 a ?m = None" by (simp add: grow64_def word_less_nat_alt)
      then show ?thesis using True False m by (simp add: bump_alloc_def)
    next
      case le: True
      from arena_grow [OF assms(1) le] obtain a1 where a1: "grow64 a ?m = Some a1" "arena_inv a1 L"
        "keeps a a1 L" "a_bump a1 = a_bump a" "unat ?m \<le> unat (a_cap a1)" "a_maxCap a1 = a_maxCap a" .
      then show ?thesis using main [of a1] True le m al by (simp add: bump_alloc_def)
    qed
  qed
qed

section \<open>AllocBytes and Free\<close>

text \<open>The number of words of the block that serves a request of \<open>n\<close> bytes.\<close>

definition need_words :: "u32 \<Rightarrow> u32" where
  "need_words n = (if roundUp8 n = 0 then 8 else roundUp8 n) div 8"

definition block_words :: "u32 \<Rightarrow> nat" where
  "block_words n = (if need_words n \<le> largeThresholdWords
                    then unat (classWords (sizeClass (need_words n))) else unat (need_words n))"

lemma and_not_mask: "w AND NOT (mask n) = push_bit n (drop_bit n (w :: 'a::len word))"
  by (rule bit_word_eqI) (auto simp: bit_simps)

lemma unat_roundUp8: "unat n + 7 < 2 ^ 32 \<Longrightarrow> unat (roundUp8 n) = 8 * ((unat n + 7) div 8)"
proof -
  assume n: "unat n + 7 < 2 ^ 32"
  then have u: "unat (n + 7) = unat n + 7" by (simp add: unat_word_ariths)
  have "roundUp8 n = push_bit 3 (drop_bit 3 (n + 7))"
    unfolding roundUp8_def and_not_mask [symmetric] by (simp add: mask_eq_exp_minus_1)
  moreover have "unat (drop_bit 3 (n + 7)) = (unat n + 7) div 8"
    unfolding unat_drop_bit_div u by simp
  moreover have "8 * ((unat n + 7) div 8) < 2 ^ 32" using n by simp
  ultimately show ?thesis by (simp add: push_bit_eq_mult unat_word_ariths)
qed

lemma roundUp8_aligned: "unat (roundUp8 n) mod 8 = 0"
proof -
  have "roundUp8 n = push_bit 3 (drop_bit 3 (n + 7))"
    unfolding roundUp8_def and_not_mask [symmetric] by (simp add: mask_eq_exp_minus_1)
  then have "unat (roundUp8 n) = unat (drop_bit 3 (n + 7)) * 8 mod 2 ^ 32"
    by (simp add: push_bit_eq_mult unat_word_ariths)
  then show ?thesis by (simp add: mod_mod_cancel)
qed

lemma need_words_unat: "unat n + 7 < 2 ^ 32 \<Longrightarrow> unat (need_words n) = max 1 ((unat n + 7) div 8)"
proof -
  assume n: "unat n + 7 < 2 ^ 32"
  note u = unat_roundUp8 [OF n]
  show ?thesis
  proof (cases "roundUp8 n = 0")
    case True
    then have "(unat n + 7) div 8 = 0" using u by simp
    then show ?thesis using True by (simp add: need_words_def)
  next
    case False
    then have "0 < (unat n + 7) div 8" using u by (metis gr0I mult_0_right unat_eq_zero)
    then show ?thesis using False u by (simp add: need_words_def unat_div)
  qed
qed

lemma need_words_pos: "1 \<le> unat (need_words n)"
proof (cases "roundUp8 n = 0")
  case False
  then have "0 < unat (roundUp8 n)" by (simp add: unat_gt_0)
  then have "8 \<le> unat (roundUp8 n)" using roundUp8_aligned [of n] by presburger
  then show ?thesis using False by (simp add: need_words_def unat_div)
qed (simp add: need_words_def)

lemma block_words_class:
  assumes "need_words n \<le> largeThresholdWords"
  shows "sizeClass (need_words n) < 20" "block_words n = unat (classWords (sizeClass (need_words n)))"
    "unat (need_words n) \<le> block_words n" "block_words n \<le> 64"
proof -
  have "unat (need_words n) \<le> 64" using assms by (simp add: largeThresholdWords_def word_le_nat_alt)
  from class_ok_all [OF need_words_pos this] show "sizeClass (need_words n) < 20"
    "block_words n = unat (classWords (sizeClass (need_words n)))"
    "unat (need_words n) \<le> block_words n" "block_words n \<le> 64"
    using assms by (simp_all add: class_ok_def block_words_def)
qed

lemma block_words_large:
  "\<not> need_words n \<le> largeThresholdWords \<Longrightarrow> block_words n = unat (need_words n) \<and> 64 < unat (need_words n)"
  by (simp add: block_words_def largeThresholdWords_def word_le_nat_alt)

text \<open>A block is never smaller than the request.\<close>

lemma block_words_enough:
  assumes "unat n + 7 < 2 ^ 32"
  shows "unat n \<le> 8 * block_words n"
proof -
  have "(unat n + 7) div 8 \<le> block_words n"
    using need_words_unat [OF assms] block_words_class(3) [of n] block_words_large [of n]
    by (cases "need_words n \<le> largeThresholdWords") simp_all
  then show ?thesis by linarith
qed

end
