(* ===== verification/ArenaSpec.thy ===== *)
theory ArenaSpec
  imports ArenaAlloc
begin

text \<open>
  The contract of the allocator, \<open>AllocBytes\<close>, \<open>AllocWords\<close>, \<open>Free\<close>, \<open>SetWordAt\<close>,
  \<open>Compact\<close> and \<open>New\<close> against the abstract state "set of live blocks with their contents",
  as an interface (the locale \<open>block_store\<close>) and its interpretation on the arena.
\<close>

section \<open>The operations against the set of live blocks\<close>

definition fresh_block :: "arena \<Rightarrow> (nat \<times> nat) set \<Rightarrow> arena \<Rightarrow> gcref \<Rightarrow> nat \<Rightarrow> bool" where
  "fresh_block a L a' r n \<longleftrightarrow> aligned r \<and> arena_inv a' (insert (idx r, n) L) \<and> (idx r, n) \<notin> L \<and>
     keeps a a' L \<and> (\<forall>k<n. a_words a' ! (idx r + k) = 0) \<and> a_maxCap a' = a_maxCap a"

lemma fresh_zero:
  assumes "arena_inv a1 (insert (idx r, unat w) L)" "(idx r, unat w) \<notin> L" "aligned r" "step a a1 L"
  obtains a' where "zeroFill a1 r w = Some a'" "fresh_block a L a' r (unat w)"
proof -
  from arena_zeroFill [OF assms(1,2)] obtain a' where a': "zeroFill a1 r w = Some a'"
    "arena_inv a' (insert (idx r, unat w) L)" "keeps a1 a' L"
    "\<forall>k < unat w. a_words a' ! (idx r + k) = 0" "same_limits a1 a'" .
  have "keeps a a' L" using assms(4) a'(3) keeps_trans unfolding step_def by blast
  moreover have "a_maxCap a' = a_maxCap a"
    using assms(4) a'(5) by (simp add: step_def same_geometry_def same_limits_def)
  ultimately show thesis using that [OF a'(1)] a'(2,4) assms(2,3) by (simp add: fresh_block_def)
qed

lemma need_words_mult: "unat (if roundUp8 n = 0 then 8 else roundUp8 n) = 8 * unat (need_words n)"
  using roundUp8_aligned [of n] by (cases "roundUp8 n = 0") (auto simp: need_words_def unat_div)

lemma need_words_bound: "unat n \<le> 2 ^ 31 \<Longrightarrow> unat (need_words n) \<le> 2 ^ 28"
  using need_words_unat [of n] by auto

lemma AllocBytes_cases:
  assumes inv: "arena_inv a L"
  shows "case AllocBytes a n of
      None \<Rightarrow> unat (a_maxCap a) < unat n \<or> unat (a_maxCap a) < 8 * (wbump a + block_words n)
    | Some (r, a') \<Rightarrow> unat n \<le> unat (a_maxCap a) \<and> fresh_block a L a' r (block_words n)"
proof (cases "unat n \<le> unat (a_maxCap a)")
  case False
  then have "AllocBytes a n = None" by (simp add: AllocBytes_def word_less_nat_alt)
  then show ?thesis using False by simp
next
  case True
  have "geometry a" using inv unfolding arena_inv_def inv_def base_ok_def by blast
  then have n31: "unat n \<le> 2 ^ 31" using True by (simp add: geometry_def)
  have le: "\<not> (ucast (a_maxCap a) :: u64) < ucast n" using True by (simp add: word_less_nat_alt)
  let ?w = "need_words n"
  have bump_case: ?thesis
    if "AllocBytes a n = bump_alloc a need" "unat need = 8 * block_words n" "0 < block_words n"
      "block_words n \<le> 2 ^ 28" for need
  proof (cases "bump_alloc a need")
    case None
    then show ?thesis using arena_bump [OF inv that(2-4)] that(1) by simp
  next
    case (Some p)
    then show ?thesis using arena_bump [OF inv that(2-4)] that(1) True
      by (cases p) (auto simp: fresh_block_def)
  qed
  show ?thesis
  proof (cases "?w \<le> largeThresholdWords")
    case small: True
    let ?c = "sizeClass ?w"
    note bw = block_words_class [OF small]
    have run: "AllocBytes a n = do {
        (ref, a) \<leftarrow> popSizeClass a ?c;
        if \<not> IsNull ref then do { a \<leftarrow> zeroFill a ref (classWords ?c); Some (ref, a) }
        else bump_alloc a (classWords ?c * 8) }"
      by (simp only: AllocBytes_def Let_def need_words_def [symmetric] le small if_True if_False)
    show ?thesis
    proof (cases "a_freeHeads a ?c = 0")
      case True
      then have "AllocBytes a n = bump_alloc a (classWords ?c * 8)"
        by (simp add: run popSizeClass_def IsNull_def Let_def)
      moreover have "unat (classWords ?c * 8) = 8 * block_words n"
        using bw by (simp add: unat_word_ariths)
      moreover have "0 < block_words n" using bw(3) need_words_pos [of n] by linarith
      ultimately show ?thesis using bw(4) by (intro bump_case) simp_all
    next
      case False
      from arena_pop [OF inv bw(1) refl False] obtain a1 where p:
        "popSizeClass a ?c = Some (a_freeHeads a ?c, a1)" "aligned (a_freeHeads a ?c)"
        "arena_inv a1 (insert (idx (a_freeHeads a ?c), unat (classWords ?c)) L)"
        "(idx (a_freeHeads a ?c), unat (classWords ?c)) \<notin> L" "step a a1 L" .
      from fresh_zero [OF p(3,4,2,5)] obtain a' where
        "zeroFill a1 (a_freeHeads a ?c) (classWords ?c) = Some a'"
        "fresh_block a L a' (a_freeHeads a ?c) (unat (classWords ?c))" .
      then show ?thesis using p(1) False True bw(2) by (simp add: run IsNull_def)
    qed
  next
    case large: False
    note bw = block_words_large [OF large]
    have run: "AllocBytes a n = do {
        (ref, a) \<leftarrow> popLarge a ?w;
        if \<not> IsNull ref then do { a \<leftarrow> zeroFill a ref ?w; Some (ref, a) }
        else bump_alloc a (if roundUp8 n = 0 then 8 else roundUp8 n) }"
      by (simp only: AllocBytes_def Let_def need_words_def [symmetric] le large if_True if_False)
    from arena_pop_from [OF inv conjunct2 [OF bw], of "largeSizeClass ?w"] obtain r a1 where p:
      "popLarge a ?w = Some (r, a1)"
      "if r = 0 then a1 = a else aligned r \<and> arena_inv a1 (insert (idx r, unat ?w) L) \<and>
         (idx r, unat ?w) \<notin> L \<and> step a a1 L" by (auto simp: popLarge_def)
    show ?thesis
    proof (cases "r = 0")
      case True
      then have "AllocBytes a n = bump_alloc a (if roundUp8 n = 0 then 8 else roundUp8 n)"
        using p by (simp add: run IsNull_def)
      then show ?thesis
        using need_words_mult [of n] need_words_pos [of n] need_words_bound [OF n31] bw
        by (intro bump_case) simp_all
    next
      case False
      then have q: "aligned r" "arena_inv a1 (insert (idx r, unat ?w) L)" "(idx r, unat ?w) \<notin> L"
        "step a a1 L" using p(2) by simp_all
      from fresh_zero [OF q(2,3,1,4)] obtain a' where
        "zeroFill a1 r ?w = Some a'" "fresh_block a L a' r (unat ?w)" .
      then show ?thesis using p(1) False True bw by (simp add: run IsNull_def)
    qed
  qed
qed

lemma Free_block:
  assumes "arena_inv a (insert (idx r, block_words n) L)" "(idx r, block_words n) \<notin> L" "aligned r"
  obtains a' where "Free a r n = Some a'" "arena_inv a' L" "keeps a a' L" "same_limits a a'"
    "wbump a' \<le> wbump a"
proof (cases "need_words n \<le> largeThresholdWords")
  case True
  note bw = block_words_class [OF True]
  from arena_free_class [OF assms(1,2) [unfolded bw(2)] assms(3) bw(1)] obtain a' where
    a': "Free a r (classWords (sizeClass (need_words n)) * 8) = Some a'" "arena_inv a' L" "step a a' L" .
  have "Free a r n = Free a r (classWords (sizeClass (need_words n)) * 8)"
    using True small_call [OF bw(1)] classWords_ok [OF bw(1)]
    by (simp add: Free_def need_words_def Let_def)
  moreover have "keeps a a' L" using a'(3) by (simp add: step_def)
  ultimately show thesis
    using that a' step_limits [OF a'(3)] step_wbump [OF a'(3)] by simp
next
  case False
  note bw = block_words_large [OF False]
  have "r \<noteq> 0" using assms(3) by (simp add: aligned_def)
  then have "Free a r n = freeLarge a r (need_words n)"
    using False by (simp add: Free_def need_words_def Let_def IsNull_def)
  then show thesis using arena_freeLarge [of a r "need_words n" L] assms bw that by metis
qed

lemma AllocWords_bytes:
  assumes "AllocWords a w = Some (r, a')" and "unat (a_maxCap a) \<le> 2 ^ 31"
  shows "AllocBytes a (w * 8) = Some (r, a')" "unat (w * 8) = unat w * 8"
proof -
  have le: "\<not> (ucast (a_maxCap a) :: u64) < ucast w * 8"
    using assms(1) by (auto simp: AllocWords_def split: if_splits)
  then show "AllocBytes a (w * 8) = Some (r, a')" using assms(1) by (simp add: AllocWords_def)
  have "unat w < 4294967296" by (rule unat_u32_lt)
  then have "unat w * 8 < 18446744073709551616" by linarith
  then have "unat (ucast w * 8 :: u64) = unat w * 8" by (simp add: unat_word_ariths)
  then have "unat w * 8 \<le> unat (a_maxCap a)" using le by (simp add: word_less_nat_alt not_less)
  then show "unat (w * 8) = unat w * 8" using assms(2) by (simp add: unat_word_ariths)
qed

text \<open>Word access at an aligned reference.\<close>

lemma and_7: "(r AND 7 = 0) = (unat r mod 8 = 0)" for r :: u64
proof -
  have "(mask 3 :: u64) = 7" by (simp add: mask_eq_exp_minus_1)
  then have "unat (r AND 7) = unat r mod 8" using unat_and_mask [of r 3] by simp
  then show ?thesis by (simp add: word_unat_eq_iff)
qed

lemma SetWordAt_block:
  assumes "arena_inv a L" "(idx r, n) \<in> L" "unat p = unat r + 8 * k" "aligned r" "k < n"
  shows "\<exists>a'. SetWordAt a p v = Some a' \<and> arena_inv a' L \<and>
    a_words a' = (a_words a)[idx r + k := v] \<and> WordAt a' p = Some v \<and>
    (\<forall>(j, m)\<in>L. \<forall>l<m. j + l \<noteq> idx r + k \<longrightarrow> a_words a' ! (j + l) = a_words a ! (j + l))"
proof -
  have p: "idx p = idx r + k" "unat p mod 8 = 0"
  proof -
    have u: "unat p = 8 * (idx r + k)" using assms(3) aligned_eq [OF assms(4)] by simp
    show "idx p = idx r + k" unfolding idx_def [of p] u by simp
    show "unat p mod 8 = 0" unfolding u by simp
  qed
  have len: "idx r + k < length (a_words a)"
    using arena_inv_bounds [OF assms(1,2)] assms(5) by linarith
  have L: "L = insert (idx r, n) (L - {(idx r, n)})" using assms(2) by blast
  have inv: "arena_inv a (insert (idx r, n) (L - {(idx r, n)}))" using assms(1) L by simp
  let ?ws = "(a_words a)[idx r + k := v]"
  have "arena_inv (a\<lparr>a_words := ?ws\<rparr>) (insert (idx r, n) (L - {(idx r, n)}))"
    using inv by (rule arena_write) (use assms(5) in \<open>auto simp: nth_list_update\<close>)
  then have "arena_inv (a\<lparr>a_words := ?ws\<rparr>) L" using L by simp
  moreover have "SetWordAt a p v = Some (a\<lparr>a_words := ?ws\<rparr>)"
    using p len by (simp add: SetWordAt_def and_7 wset_at)
  moreover have "WordAt (a\<lparr>a_words := ?ws\<rparr>) p = Some v"
    using p len by (simp add: WordAt_def and_7 wget_at)
  ultimately show ?thesis by auto
qed

section \<open>Creation and compaction\<close>

definition backing_contract :: "backing_fn \<Rightarrow> bool \<Rightarrow> bool" where
  "backing_contract f inplace \<longleftrightarrow> (\<forall>old n. length old \<le> unat n \<or> \<not> inplace \<longrightarrow>
     length (f old n) = unat n \<and>
     (\<forall>i < unat n. f old n ! i = (if inplace \<and> i < length old then old ! i else 0)))"

lemma DefaultBacking_contract: "backing_contract DefaultBacking False"
  by (simp add: backing_contract_def DefaultBacking_def)

lemma arena_inv_empty:
  assumes "geometry a" "backing_ok a" "\<forall>i < length (a_words a). a_words a ! i = 0"
    "a_freeHeads a = (\<lambda>_. 0)" "a_largeFreeHeads a = (\<lambda>_. 0)"
    "a_largeByStart a = (\<lambda>_. None)" "a_largeByEnd a = (\<lambda>_. None)"
  shows "arena_inv a {}"
proof -
  have "inv a (\<lambda>_. None) (\<lambda>_. []) (\<lambda>_. [])"
    using assms by (simp add: inv_def base_ok_def zero_above_def blocks_ok_def small_ok_def large_ok_def)
  moreover have "live (\<lambda>_. None) (\<lambda>_. []) a = {}" by (simp add: live_def)
  ultimately show ?thesis unfolding arena_inv_def by metis
qed

lemma arena_New_ok:
  assumes "backing_contract (case NewBacking opts of None \<Rightarrow> DefaultBacking | Some f \<Rightarrow> f) (InPlaceBacking opts)"
    and "InitialBytes opts = 0 \<or> unat (InitialBytes opts) + 7 < 2 ^ 32"
    and "unat (OptMaxBytes opts) mod 8 = 0" "unat (OptMaxBytes opts) \<le> 2 ^ 31"
    and fits: "roundUp8 (if InitialBytes opts = 0 then 64 * 1024 else InitialBytes opts) \<le>
        (if OptMaxBytes opts = 0 then MaxBytes else OptMaxBytes opts)"
  obtains a where "arena_New opts = Some a" "arena_inv a {}"
proof -
  define c0 where "c0 = (if InitialBytes opts = 0 then 64 * 1024 else InitialBytes opts)"
  define c where "c = roundUp8 c0"
  define mx where "mx = (if OptMaxBytes opts = 0 then MaxBytes else OptMaxBytes opts)"
  define f where "f = (case NewBacking opts of None \<Rightarrow> DefaultBacking | Some f \<Rightarrow> f)"
  have c0: "unat c0 + 7 < 2 ^ 32" "1 \<le> unat c0"
    using assms(2) by (auto simp: c0_def Suc_le_eq unat_gt_0)
  have c: "unat c = 8 * ((unat c0 + 7) div 8)" unfolding c_def by (rule unat_roundUp8 [OF c0(1)])
  have c8: "8 \<le> unat c" "unat (c div 8) * 8 = unat c"
    using c c0(2) by (simp_all add: unat_div)
  have mx: "unat mx \<le> 2 ^ 31" "unat mx mod 8 = 0" "unat c \<le> unat mx"
    using assms(3-5) by (auto simp: mx_def MaxBytes_def c_def c0_def word_le_nat_alt)
  define a0 where "a0 = \<lparr>a_words = [], a_bump = nullReserve, a_cap = c, a_maxCap = mx,
     a_backing = f, a_inPlace = InPlaceBacking opts, a_freeHeads = (\<lambda>_. 0),
     a_largeFreeHeads = (\<lambda>_. 0), a_freeBytes = 0,
     a_largeByStart = (\<lambda>_. None), a_largeByEnd = (\<lambda>_. None)\<rparr>"
  have bc: "backing_contract f (InPlaceBacking opts)" using assms(1) by (simp add: f_def)
  then have w: "length (f [] (c div 8)) = unat (c div 8)" "\<forall>i < unat (c div 8). f [] (c div 8) ! i = 0"
    unfolding backing_contract_def by force+
  have "arena_New opts = setBacking a0 (f [] (c div 8))"
    using mx(3) unfolding arena_New_def Let_def c0_def [symmetric] c_def [symmetric] mx_def [symmetric]
      f_def [symmetric] a0_def by (simp add: word_less_nat_alt)
  also have "\<dots> = Some (a0\<lparr>a_words := f [] (c div 8)\<rparr>)"
    using mx(3) c8 w by (simp add: setBacking_def a0_def)
  finally have run: "arena_New opts = Some (a0\<lparr>a_words := f [] (c div 8)\<rparr>)" .
  have "arena_inv (a0\<lparr>a_words := f [] (c div 8)\<rparr>) {}"
  proof (rule arena_inv_empty)
    show "geometry (a0\<lparr>a_words := f [] (c div 8)\<rparr>)"
      using mx c8 w by (simp add: geometry_def a0_def nullReserve_def)
    show "backing_ok (a0\<lparr>a_words := f [] (c div 8)\<rparr>)"
      using bc by (simp add: backing_ok_def backing_contract_def a0_def)
  qed (use w in \<open>simp_all add: a0_def\<close>)
  then show thesis using that run by blast
qed

lemma unat_roundUp8_64:
  assumes "unat n + 7 < 2 ^ 64"
  shows "unat ((n + 7) AND NOT 7 :: u64) = 8 * ((unat n + 7) div 8)"
proof -
  have u: "unat (n + 7) = unat n + 7" using assms by (simp add: unat_word_ariths)
  have "(n + 7) AND NOT 7 = push_bit 3 (drop_bit 3 (n + 7))"
    unfolding and_not_mask [symmetric] by (simp add: mask_eq_exp_minus_1)
  moreover have "unat (drop_bit 3 (n + 7)) = (unat n + 7) div 8"
    unfolding unat_drop_bit_div u by simp
  moreover have "8 * ((unat n + 7) div 8) < 2 ^ 64" using assms by simp
  ultimately show ?thesis by (simp add: push_bit_eq_mult unat_word_ariths)
qed

lemma aligned_round_64: "unat ((n + 7) AND NOT 7 :: u64) mod 8 = 0"
proof -
  have "(n + 7) AND NOT 7 = push_bit 3 (drop_bit 3 (n + 7))"
    unfolding and_not_mask [symmetric] by (simp add: mask_eq_exp_minus_1)
  then have "unat ((n + 7) AND NOT 7) = unat (drop_bit 3 (n + 7)) * 8 mod 2 ^ 64"
    by (simp add: push_bit_eq_mult unat_word_ariths)
  then show ?thesis by (simp add: mod_mod_cancel)
qed

text \<open>The capacity \<open>Compact\<close> aims at: a multiple of 8 between \<open>bump\<close> and the maximum.\<close>

definition compact_cap :: "arena \<Rightarrow> u64 \<Rightarrow> u64" where
  "compact_cap a target =
     (let newCap = (target + 7) AND NOT 7;
          b = ucast (a_bump a) :: u64;
          newCap = (if newCap < b then (b + 7) AND NOT 7 else newCap);
          newCap = (if newCap < 64 * 1024 then 64 * 1024 else newCap)
      in if ucast (a_maxCap a) < newCap then ucast (a_maxCap a) else newCap)"

lemma compact_cap_ok:
  assumes "geometry a"
  shows "unat (a_bump a) \<le> unat (compact_cap a t) \<and> unat (compact_cap a t) \<le> unat (a_maxCap a) \<and>
    unat (compact_cap a t) mod 8 = 0"
proof -
  have g: "unat (a_bump a) \<le> unat (a_maxCap a)" "unat (a_maxCap a) mod 8 = 0" "unat (a_maxCap a) \<le> 2 ^ 31"
    using assms unfolding geometry_def by linarith+
  let ?b = "ucast (a_bump a) :: u64"
  define c1 where "c1 = (if (t + 7) AND NOT 7 < ?b then (?b + 7) AND NOT 7 else (t + 7) AND NOT 7)"
  define c2 where "c2 = (if c1 < 64 * 1024 then 64 * 1024 else c1)"
  have rb: "unat (a_bump a) \<le> unat ((?b + 7) AND NOT 7)"
    using unat_roundUp8_64 [of ?b] g by simp
  have c1: "unat (a_bump a) \<le> unat c1" "unat c1 mod 8 = 0"
    using rb aligned_round_64 by (auto simp: c1_def word_less_nat_alt)
  have c2: "unat (a_bump a) \<le> unat c2" "unat c2 mod 8 = 0"
    using c1 by (auto simp: c2_def word_less_nat_alt)
  have "compact_cap a t = (if ucast (a_maxCap a) < c2 then ucast (a_maxCap a) else c2)"
    by (simp add: compact_cap_def Let_def c1_def c2_def)
  then show ?thesis using c2 g by (auto simp: word_less_nat_alt)
qed

text \<open>The same capacity in numbers: the rounded target, at least the top and 64 KiB, at most the maximum. A target
  within 7 of \<open>2 ^ 64\<close> wraps to 0 when it is rounded.\<close>

definition trimmed_cap :: "arena \<Rightarrow> u64 \<Rightarrow> nat" where
  "trimmed_cap a target = min (unat (a_maxCap a))
     (max (64 * 1024) (max (8 * ((unat target + 7) mod 2 ^ 64 div 8)) (unat (a_bump a))))"

lemma round_8: "b mod 8 = 0 \<Longrightarrow> 8 * ((b + 7) div 8) = b" and cut_8: "b mod 8 \<noteq> 0 \<Longrightarrow> b div 8 * 8 < b" for b :: nat
  by presburger+

lemma unat_round_wrap: "unat ((n + 7) AND NOT 7 :: u64) = 8 * ((unat n + 7) mod 2 ^ 64 div 8)"
proof -
  have "(n + 7) AND NOT 7 = push_bit 3 (drop_bit 3 (n + 7))"
    unfolding and_not_mask [symmetric] by (simp add: mask_eq_exp_minus_1)
  moreover have "unat (drop_bit 3 (n + 7)) = (unat n + 7) mod 2 ^ 64 div 8"
    unfolding unat_drop_bit_div by (simp add: unat_word_ariths)
  moreover have "8 * ((unat n + 7) mod 2 ^ 64 div 8) < 2 ^ 64"
    by (rule le_less_trans [OF times_div_less_eq_dividend]) simp
  ultimately show ?thesis by (simp add: push_bit_eq_mult unat_word_ariths)
qed

lemma compact_cap_trimmed:
  assumes "geometry a" shows "unat (compact_cap a t) = trimmed_cap a t"
proof -
  have g: "unat (a_bump a) mod 8 = 0" "unat (a_maxCap a) \<le> 2 ^ 31" "unat (a_bump a) \<le> unat (a_maxCap a)"
    using assms unfolding geometry_def by linarith+
  define R where "R = (t + 7) AND NOT 7"
  define B :: u64 where "B = (ucast (a_bump a) + 7) AND NOT 7"
  have u: "unat R = 8 * ((unat t + 7) mod 2 ^ 64 div 8)" "unat B = unat (a_bump a)"
    using unat_roundUp8_64 [of "ucast (a_bump a)"] g round_8 [OF g(1)] by (simp_all only: R_def B_def unat_round_wrap)
      simp
  have "compact_cap a t = (let c = (if R < ucast (a_bump a) then B else R); c = (if c < 65536 then 65536 else c) in
      if ucast (a_maxCap a) < c then ucast (a_maxCap a) else c)"
    by (simp only: compact_cap_def Let_def R_def [symmetric] B_def [symmetric]) simp
  then show ?thesis
    unfolding trimmed_cap_def u(1) [symmetric] using g(3) u(2) by (auto simp: Let_def word_less_nat_alt)
qed

definition trimmed :: "arena \<Rightarrow> u64 \<Rightarrow> arena" where
  "trimmed a target =
     (if a_inPlace a \<or> unat (a_cap a) \<le> 2 * trimmed_cap a target then a
      else a\<lparr>a_cap := word_of_nat (trimmed_cap a target), a_words := take (trimmed_cap a target div 8) (a_words a)\<rparr>)"

lemma Compact_trims:
  assumes "arena_inv a L"
  shows "Compact a t = Some (trimmed a t)"
proof -
  have g: "geometry a" "backing_ok a" "zero_above a"
    using assms unfolding arena_inv_def inv_def base_ok_def by blast+
  let ?c = "compact_cap a t"
  have run: "Compact a t = (if a_inPlace a then Some a
      else if ucast (a_cap a) \<le> 2 * ?c then Some a
      else let newWords = a_backing a (a_words a) (ucast (?c div 8)) in
        if length (a_words a) < unat (a_bump a div 8) then None
        else setBacking (a\<lparr>a_cap := ucast ?c\<rparr>)
               (copy_into newWords (take (unat (a_bump a div 8)) (a_words a))))"
    by (simp only: Compact_def compact_cap_def Let_def)
  note c = compact_cap_ok [OF g(1), of t]
  have m31: "unat (a_maxCap a) \<le> 2 ^ 31" using g(1) by (simp add: geometry_def)
  have "unat (2 * ?c) = 2 * unat ?c" using c m31 by (simp add: unat_word_ariths)
  then have le: "ucast (a_cap a) \<le> 2 * ?c \<longleftrightarrow> unat (a_cap a) \<le> 2 * trimmed_cap a t"
    by (simp add: word_le_nat_alt compact_cap_trimmed [OF g(1)])
  show ?thesis
  proof (cases "a_inPlace a \<or> ucast (a_cap a) \<le> 2 * ?c")
    case True
    then show ?thesis using le by (auto simp: run trimmed_def)
  next
    case False
    have wb: "wbump a \<le> length (a_words a)" "unat (a_bump a) = 8 * wbump a"
      using g(1) wbump_le [OF g(1)] by (auto simp: geometry_def wbump_def)
    have bw: "unat (a_bump a div 8) = wbump a" by (simp add: wbump_def unat_div)
    define w0 where "w0 = a_backing a (a_words a) (ucast (?c div 8))"
    have nw: "unat (ucast (?c div 8) :: u32) * 8 = unat ?c"
      using c m31 by (auto simp: unat_ucast_down unat_div)
    have w0: "length w0 = unat (ucast (?c div 8) :: u32)" "\<forall>i < length w0. w0 ! i = 0"
      using g(2) False unfolding backing_ok_def w0_def by auto
    define w where "w = copy_into w0 (take (wbump a) (a_words a))"
    have uc: "unat (ucast ?c :: u32) = unat ?c" using c m31 by (simp add: unat_ucast_down)
    have lw: "length w = length w0" by (simp add: w_def)
    have short: "length w \<le> length (a_words a)"
    proof -
      have "2 * unat ?c < unat (a_cap a)" using False le compact_cap_trimmed [OF g(1)] by auto
      then show ?thesis using nw lw w0(1) g(1) by (simp add: geometry_def)
    qed
    have "w = take (length w) (a_words a)"
    proof (rule nth_equalityI)
      fix i assume i: "i < length w"
      then have "w ! i = (if i < wbump a then a_words a ! i else 0)"
        using wb w0 lw by (simp add: w_def copy_into_nth)
      then show "w ! i = take (length w) (a_words a) ! i"
        using i short g(3) by (auto simp: zero_above_def)
    qed (use short in simp)
    moreover have "length w = trimmed_cap a t div 8"
      using lw w0(1) nw compact_cap_trimmed [OF g(1), of t] by linarith
    moreover have "ucast ?c = (word_of_nat (trimmed_cap a t) :: u32)"
      using compact_cap_trimmed [OF g(1), of t] uc c m31 by (simp add: word_unat_eq_iff unat_word_of_nat_lt)
    moreover have "setBacking (a\<lparr>a_cap := ucast ?c\<rparr>) w = Some (a\<lparr>a_cap := ucast ?c, a_words := w\<rparr>)"
      using c nw w0 lw uc by (simp add: setBacking_def)
    ultimately show ?thesis
      using False wb le by (simp add: run bw w0_def [symmetric] w_def [symmetric] Let_def trimmed_def)
  qed
qed

lemma trimmed_ok:
  assumes "arena_inv a L"
  shows "arena_inv (trimmed a t) L" "keeps a (trimmed a t) L" "unat (a_cap (trimmed a t)) \<le> unat (a_cap a)"
    "take (wbump a) (a_words (trimmed a t)) = take (wbump a) (a_words a)"
proof -
  have g: "geometry a" "backing_ok a" "zero_above a"
    using assms unfolding arena_inv_def inv_def base_ok_def by blast+
  let ?n = "trimmed_cap a t"
  have n: "unat (a_bump a) \<le> ?n" "?n \<le> unat (a_maxCap a)" "?n mod 8 = 0"
    using compact_cap_ok [OF g(1), of t] compact_cap_trimmed [OF g(1), of t] by simp_all
  have m31: "unat (a_maxCap a) \<le> 2 ^ 31" and wb: "unat (a_bump a) = 8 * wbump a"
    using g(1) by (auto simp: geometry_def wbump_def)
  then have u: "unat (word_of_nat ?n :: u32) = ?n" using n(2) by (intro unat_word_of_nat_lt) simp
  show "arena_inv (trimmed a t) L" "keeps a (trimmed a t) L" "unat (a_cap (trimmed a t)) \<le> unat (a_cap a)"
    "take (wbump a) (a_words (trimmed a t)) = take (wbump a) (a_words a)"
  proof (atomize (full), cases "a_inPlace a \<or> unat (a_cap a) \<le> 2 * ?n")
    case True
    then have "trimmed a t = a" by (auto simp: trimmed_def)
    then show "(arena_inv (trimmed a t) L \<and> keeps a (trimmed a t) L) \<and> unat (a_cap (trimmed a t)) \<le> unat (a_cap a) \<and>
        take (wbump a) (a_words (trimmed a t)) = take (wbump a) (a_words a)" using assms by simp
  next
    case False
    then have a': "trimmed a t = a\<lparr>a_cap := word_of_nat ?n, a_words := take (?n div 8) (a_words a)\<rparr>" (is "_ = ?a")
      by (simp add: trimmed_def)
    have len: "length (take (?n div 8) (a_words a)) * 8 = ?n" using False n g(1) by (auto simp: geometry_def min_def)
    have 1: "geometry ?a" using g(1) n u len False by (simp add: geometry_def)
    have 2: "backing_ok ?a" using g(2) by (simp add: backing_ok_def)
    have w: "wbump a \<le> ?n div 8" using n(1) wb by linarith
    have 3: "a_words ?a ! i = a_words a ! i" if "i < wbump a" for i using that w by simp
    have 4: "a_words ?a ! i = 0" if "wbump a \<le> i" "i < length (a_words ?a)" for i
      using that g(3) by (simp add: zero_above_def)
    show "(arena_inv (trimmed a t) L \<and> keeps a (trimmed a t) L) \<and> unat (a_cap (trimmed a t)) \<le> unat (a_cap a) \<and>
        take (wbump a) (a_words (trimmed a t)) = take (wbump a) (a_words a)"
      unfolding a' using arena_regrow [OF assms 1 2 _ _ _ _ _ 3 4] u False w by (simp add: min_absorb1)
  qed
qed

section \<open>The interface: a store of independent blocks\<close>

text \<open>
  A client names its blocks by handles. Its abstract heap maps a handle to the words of its
  block, and compacting the store does nothing to it; the concrete client keeps the table of the
  blocks the allocator returned.
\<close>

datatype ('n, 'v) mem_op = MAlloc nat 'n | MFree nat | MStore nat nat 'v | MCompact u64

datatype 's outcome = Done 's | Full | Panic

type_synonym 'v heap = "nat \<Rightarrow> 'v list option"

fun heap_step :: "('n \<Rightarrow> 'v list) \<Rightarrow> 'v heap \<Rightarrow> ('n, 'v) mem_op \<Rightarrow> 'v heap option" where
  "heap_step init h (MAlloc i n) = (if h i = None then Some (h(i \<mapsto> init n)) else None)"
| "heap_step init h (MFree i) = (case h i of None \<Rightarrow> None | Some _ \<Rightarrow> Some (h(i := None)))"
| "heap_step init h (MStore i k v) =
     (case h i of None \<Rightarrow> None | Some ws \<Rightarrow> if k < length ws then Some (h(i \<mapsto> ws[k := v])) else None)"
| "heap_step init h (MCompact target) = Some h"

fun heap_run :: "('n \<Rightarrow> 'v list) \<Rightarrow> 'v heap \<Rightarrow> ('n, 'v) mem_op list \<Rightarrow> 'v heap option" where
  "heap_run init h [] = Some h"
| "heap_run init h (x # xs) = (case heap_step init h x of None \<Rightarrow> None | Some h' \<Rightarrow> heap_run init h' xs)"

fun mem_step :: "('s \<Rightarrow> 'n \<Rightarrow> ('b \<times> 's) option) \<Rightarrow> ('s \<Rightarrow> 'b \<Rightarrow> 's option) \<Rightarrow>
    ('s \<Rightarrow> 'b \<Rightarrow> nat \<Rightarrow> 'v \<Rightarrow> 's option) \<Rightarrow> ('s \<Rightarrow> u64 \<Rightarrow> 's option) \<Rightarrow> 's \<times> (nat \<Rightarrow> 'b option) \<Rightarrow> ('n, 'v) mem_op \<Rightarrow>
    ('s \<times> (nat \<Rightarrow> 'b option)) outcome" where
  "mem_step alloc free store compact (s, t) (MAlloc i n) =
     (case alloc s n of None \<Rightarrow> Full | Some (b, s') \<Rightarrow> Done (s', t(i \<mapsto> b)))"
| "mem_step alloc free store compact (s, t) (MFree i) =
     (case t i of None \<Rightarrow> Panic
      | Some b \<Rightarrow> (case free s b of None \<Rightarrow> Panic | Some s' \<Rightarrow> Done (s', t(i := None))))"
| "mem_step alloc free store compact (s, t) (MStore i k v) =
     (case t i of None \<Rightarrow> Panic
      | Some b \<Rightarrow> (case store s b k v of None \<Rightarrow> Panic | Some s' \<Rightarrow> Done (s', t)))"
| "mem_step alloc free store compact (s, t) (MCompact target) =
     (case compact s target of None \<Rightarrow> Panic | Some s' \<Rightarrow> Done (s', t))"

fun mem_run :: "('s \<Rightarrow> 'n \<Rightarrow> ('b \<times> 's) option) \<Rightarrow> ('s \<Rightarrow> 'b \<Rightarrow> 's option) \<Rightarrow>
    ('s \<Rightarrow> 'b \<Rightarrow> nat \<Rightarrow> 'v \<Rightarrow> 's option) \<Rightarrow> ('s \<Rightarrow> u64 \<Rightarrow> 's option) \<Rightarrow> 's \<times> (nat \<Rightarrow> 'b option) \<Rightarrow> ('n, 'v) mem_op list \<Rightarrow>
    ('s \<times> (nat \<Rightarrow> 'b option)) outcome" where
  "mem_run alloc free store compact c [] = Done c"
| "mem_run alloc free store compact c (x # xs) =
     (case mem_step alloc free store compact c x of Done c' \<Rightarrow> mem_run alloc free store compact c' xs
      | Full \<Rightarrow> Full | Panic \<Rightarrow> Panic)"

locale block_store =
  fixes ok :: "'s \<Rightarrow> 'b set \<Rightarrow> bool"
    and content :: "'s \<Rightarrow> 'b \<Rightarrow> 'v list"
    and init :: "'n \<Rightarrow> 'v list"
    and alloc :: "'s \<Rightarrow> 'n \<Rightarrow> ('b \<times> 's) option"
    and free :: "'s \<Rightarrow> 'b \<Rightarrow> 's option"
    and store :: "'s \<Rightarrow> 'b \<Rightarrow> nat \<Rightarrow> 'v \<Rightarrow> 's option"
    and compact :: "'s \<Rightarrow> u64 \<Rightarrow> 's option"
  assumes alloc_law: "ok s B \<Longrightarrow> alloc s n = Some (b, s') \<Longrightarrow>
      b \<notin> B \<and> ok s' (insert b B) \<and> content s' b = init n \<and> (\<forall>c\<in>B. content s' c = content s c)"
    and free_law: "ok s B \<Longrightarrow> b \<in> B \<Longrightarrow>
      \<exists>s'. free s b = Some s' \<and> ok s' (B - {b}) \<and> (\<forall>c\<in>B - {b}. content s' c = content s c)"
    and store_law: "ok s B \<Longrightarrow> b \<in> B \<Longrightarrow> k < length (content s b) \<Longrightarrow>
      \<exists>s'. store s b k v = Some s' \<and> ok s' B \<and> content s' b = (content s b)[k := v] \<and>
        (\<forall>c\<in>B - {b}. content s' c = content s c)"
    and compact_law: "ok s B \<Longrightarrow> \<exists>s'. compact s target = Some s' \<and> ok s' B \<and> (\<forall>c\<in>B. content s' c = content s c)"
begin

definition implements :: "'s \<times> (nat \<Rightarrow> 'b option) \<Rightarrow> 'v heap \<Rightarrow> bool" where
  "implements c h \<longleftrightarrow> ok (fst c) (ran (snd c)) \<and> inj_on (snd c) (dom (snd c)) \<and> dom (snd c) = dom h \<and>
     (\<forall>i b. snd c i = Some b \<longrightarrow> h i = Some (content (fst c) b))"

lemma implements_inj:
  "implements (s, t) h \<Longrightarrow> t i = Some b \<Longrightarrow> t j = Some b \<Longrightarrow> i = j"
  unfolding implements_def inj_on_def by (metis domI snd_conv)

lemma implements_lookup:
  assumes "implements (s, t) h" "h i = Some ws"
  shows "\<exists>b. t i = Some b \<and> ws = content s b"
proof -
  have "i \<in> dom t" using assms by (auto simp: implements_def)
  then obtain b where "t i = Some b" by blast
  then show ?thesis using assms by (simp add: implements_def)
qed

lemma step_simulation:
  assumes r: "implements (s, t) h" and h: "heap_step init h x = Some h'"
  shows "case mem_step alloc free store compact (s, t) x of
    Done c' \<Rightarrow> implements c' h' | Full \<Rightarrow> \<exists>i n. x = MAlloc i n \<and> alloc s n = None | Panic \<Rightarrow> False"
proof (cases x)
  case (MAlloc i n)
  then have i: "h i = None" "h' = h(i \<mapsto> init n)" using h by (auto split: if_splits)
  have "dom t = dom h" using r by (simp add: implements_def)
  then have ti: "t i = None" using i(1) by (metis domIff)
  show ?thesis
  proof (cases "alloc s n")
    case None
    then show ?thesis using MAlloc by simp
  next
    case (Some p)
    obtain b s' where p: "p = (b, s')" by (cases p)
    have ok: "ok s (ran t)" using r by (simp add: implements_def)
    note a = alloc_law [OF ok Some [unfolded p]]
    have "ran (t(i \<mapsto> b)) = insert b (ran t)" using ti by simp
    moreover have "inj_on (t(i \<mapsto> b)) (dom (t(i \<mapsto> b)))"
      using r a ti by (auto simp: implements_def inj_on_def ran_def)
    moreover have "content s' b' = content s b'" if "t j = Some b'" for j b'
      using a that by (auto simp: ran_def)
    ultimately have "implements (s', t(i \<mapsto> b)) h'"
      using r a i unfolding implements_def by auto
    then show ?thesis using MAlloc Some p by simp
  qed
next
  case (MFree i)
  then obtain ws where i: "h i = Some ws" "h' = h(i := None)" using h by (auto split: option.splits)
  then obtain b where b: "t i = Some b" using implements_lookup [OF r] by blast
  then have bt: "b \<in> ran t" by (rule ranI)
  have ok: "ok s (ran t)" using r by (simp add: implements_def)
  from free_law [OF ok bt] obtain s' where s': "free s b = Some s'" "ok s' (ran t - {b})"
    "\<forall>c\<in>ran t - {b}. content s' c = content s c" by blast
  have ne: "c \<noteq> b" if "t j = Some c" "j \<noteq> i" for j c
    using implements_inj [OF r, of i b j] b that by blast
  have "ran (t(i := None)) = ran t - {b}"
  proof (intro set_eqI iffI)
    fix x assume "x \<in> ran (t(i := None))"
    then obtain j where "t j = Some x" "j \<noteq> i" by (auto simp: ran_def split: if_splits)
    then show "x \<in> ran t - {b}" using ne by (auto simp: ran_def)
  next
    fix x assume "x \<in> ran t - {b}"
    then obtain j where "t j = Some x" "x \<noteq> b" by (auto simp: ran_def)
    moreover from this have "j \<noteq> i" using b by auto
    ultimately show "x \<in> ran (t(i := None))" by (intro ranI [of _ j]) simp
  qed
  moreover have "inj_on (t(i := None)) (dom (t(i := None)))"
    using r by (auto simp: implements_def inj_on_def)
  moreover have "content s' c = content s c" if "t j = Some c" "j \<noteq> i" for j c
    using s'(3) ne [OF that] that(1) by (auto simp: ran_def)
  ultimately have "implements (s', t(i := None)) h'"
    using r s'(2) i unfolding implements_def by auto
  then show ?thesis using MFree b s'(1) by simp
next
  case (MStore i k v)
  then obtain ws where i: "h i = Some ws" "k < length ws" "h' = h(i \<mapsto> ws[k := v])"
    using h by (auto split: option.splits if_splits)
  then obtain b where b: "t i = Some b" using implements_lookup [OF r] by blast
  then have bt: "b \<in> ran t" by (rule ranI)
  have ok: "ok s (ran t)" and ws: "ws = content s b" using r i(1) b by (auto simp: implements_def)
  from store_law [OF ok bt, of k v] i(2) ws obtain s' where
    s': "store s b k v = Some s'" "ok s' (ran t)" "content s' b = ws[k := v]"
    "\<forall>c\<in>ran t - {b}. content s' c = content s c" by blast
  have "content s' c = content s c" if "t j = Some c" "j \<noteq> i" for j c
    using s'(4) implements_inj [OF r, of i b j] b that by (auto simp: ran_def)
  then have "implements (s', t) h'"
    using r s'(2,3) i b unfolding implements_def by auto
  then show ?thesis using MStore b s'(1) by simp
next
  case (MCompact target)
  have "ok s (ran t)" using r by (simp add: implements_def)
  from compact_law [OF this] obtain s' where
    s': "compact s target = Some s'" "ok s' (ran t)" "\<forall>c\<in>ran t. content s' c = content s c" by blast
  then have "implements (s', t) h" using r by (auto simp: implements_def ranI)
  then show ?thesis using MCompact h s'(1) by simp
qed

text \<open>A run that is meaningful for the heap never panics; it stops early only at an allocation the store refuses.\<close>

lemma run_simulation:
  assumes "implements c h" "heap_run init h xs = Some h'"
  shows "case mem_run alloc free store compact c xs of
      Done c' \<Rightarrow> implements c' h'
    | Full \<Rightarrow> \<exists>ys i n zs s t. xs = ys @ MAlloc i n # zs \<and> mem_run alloc free store compact c ys = Done (s, t) \<and>
        ok s (ran t) \<and> alloc s n = None
    | Panic \<Rightarrow> False"
  using assms
proof (induction xs arbitrary: c h)
  case (Cons x xs)
  obtain s t where c: "c = (s, t)" by (cases c)
  obtain h1 where h1: "heap_step init h x = Some h1" "heap_run init h1 xs = Some h'"
    using Cons.prems(2) by (auto split: option.splits)
  note one = step_simulation [OF Cons.prems(1) [unfolded c] h1(1), folded c]
  have ok: "ok s (ran t)" using Cons.prems(1) c by (simp add: implements_def)
  show ?case
  proof (cases "mem_step alloc free store compact c x")
    case (Done c')
    with one have "implements c' h1" by simp
    note IH = Cons.IH [OF this h1(2)]
    show ?thesis
    proof (cases "mem_run alloc free store compact c' xs")
      case Full
      with IH obtain ys i n zs s' t' where r: "xs = ys @ MAlloc i n # zs"
        "mem_run alloc free store compact c' ys = Done (s', t')" "ok s' (ran t')" "alloc s' n = None" by auto
      then have "x # xs = (x # ys) @ MAlloc i n # zs" "mem_run alloc free store compact c (x # ys) = Done (s', t')"
        using Done by simp_all
      moreover have "mem_run alloc free store compact c (x # xs) = Full" using Done Full by simp
      ultimately show ?thesis using r(3,4) by (simp only: outcome.case) blast
    qed (use IH Done in simp_all)
  next
    case Full
    with one obtain i n where "x = MAlloc i n" "alloc s n = None" by auto
    then show ?thesis using Full ok c by (simp only: mem_run.simps outcome.case) (rule exI [of _ "[]"], auto)
  qed (use one in simp_all)
qed simp

end

section \<open>The arena is a block store\<close>

text \<open>A block of the arena is a reference with the size it was requested with.\<close>

type_synonym ablock = "gcref \<times> u32"

definition span :: "ablock \<Rightarrow> nat \<times> nat" where
  "span b = (idx (fst b), block_words (snd b))"

definition arena_ok :: "arena \<Rightarrow> ablock set \<Rightarrow> bool" where
  "arena_ok a B \<longleftrightarrow> arena_inv a (span ` B) \<and> inj_on span B \<and> (\<forall>b\<in>B. aligned (fst b))"

definition arena_content :: "arena \<Rightarrow> ablock \<Rightarrow> u64 list" where
  "arena_content a b = map (\<lambda>k. a_words a ! (idx (fst b) + k)) [0..<block_words (snd b)]"

definition arena_init :: "u32 \<Rightarrow> u64 list" where
  "arena_init n = replicate (block_words n) 0"

definition arena_alloc :: "arena \<Rightarrow> u32 \<Rightarrow> (ablock \<times> arena) option" where
  "arena_alloc a n = do { (r, a) \<leftarrow> AllocBytes a n; Some ((r, n), a) }"

definition arena_free :: "arena \<Rightarrow> ablock \<Rightarrow> arena option" where
  "arena_free a b = Free a (fst b) (snd b)"

definition arena_store :: "arena \<Rightarrow> ablock \<Rightarrow> nat \<Rightarrow> u64 \<Rightarrow> arena option" where
  "arena_store a b k v = SetWordAt a (fst b + word_of_nat (8 * k)) v"

lemma arena_content_keeps:
  "keeps a a' (span ` B) \<Longrightarrow> c \<in> B \<Longrightarrow> arena_content a' c = arena_content a c"
  unfolding keeps_def arena_content_def span_def by fastforce

lemma arena_alloc_law:
  assumes "arena_ok a B" "arena_alloc a n = Some (b, a')"
  shows "b \<notin> B \<and> arena_ok a' (insert b B) \<and> arena_content a' b = arena_init n \<and>
    (\<forall>c\<in>B. arena_content a' c = arena_content a c)"
proof -
  obtain r where b: "b = (r, n)" "AllocBytes a n = Some (r, a')"
    using assms(2) by (auto simp: arena_alloc_def bind_Some_iff)
  have "fresh_block a (span ` B) a' r (block_words n)"
    using AllocBytes_cases [of a "span ` B" n] assms(1) b(2) by (simp add: arena_ok_def)
  then have f: "aligned r" "arena_inv a' (insert (span b) (span ` B))" "span b \<notin> span ` B"
    "keeps a a' (span ` B)" "\<forall>k<block_words n. a_words a' ! (idx r + k) = 0"
    by (auto simp: fresh_block_def span_def b(1))
  have "arena_content a' b = arena_init n"
    using f(5) by (auto simp: arena_content_def arena_init_def b(1) intro!: nth_equalityI)
  moreover have "b \<notin> B" using f(3) by blast
  moreover have "arena_ok a' (insert b B)"
    using assms(1) f b(1) calculation by (simp add: arena_ok_def inj_on_insert)
  ultimately show ?thesis using arena_content_keeps [OF f(4)] by blast
qed

lemma arena_alloc_refused:
  assumes "arena_ok a B" "arena_alloc a n = None"
  shows "unat (a_maxCap a) < unat n \<or> unat (a_maxCap a) < unat (a_bump a) + 8 * block_words n"
proof -
  have inv: "arena_inv a (span ` B)" using assms(1) by (simp add: arena_ok_def)
  then have "unat (a_bump a) = 8 * wbump a" by (auto simp: arena_inv_def inv_def base_ok_def geometry_def wbump_def)
  then show ?thesis using AllocBytes_cases [OF inv, of n] assms(2)
    by (auto simp: arena_alloc_def split: Option.bind_splits option.splits)
qed

lemma arena_free_law:
  assumes "arena_ok a B" "b \<in> B"
  shows "\<exists>a'. arena_free a b = Some a' \<and> arena_ok a' (B - {b}) \<and>
    (\<forall>c\<in>B - {b}. arena_content a' c = arena_content a c)"
proof -
  have inj: "inj_on span B" using assms(1) by (simp add: arena_ok_def)
  have S: "span ` (B - {b}) = span ` B - {span b}"
    using inj_on_image_set_diff [OF inj, of B "{b}"] assms(2) by simp
  have "arena_inv a (insert (span b) (span ` (B - {b})))"
    using assms by (simp add: arena_ok_def S insert_absorb)
  moreover have "span b \<notin> span ` (B - {b})" by (simp add: S)
  moreover have "aligned (fst b)" using assms by (simp add: arena_ok_def)
  ultimately obtain a' where a': "Free a (fst b) (snd b) = Some a'" "arena_inv a' (span ` (B - {b}))"
    "keeps a a' (span ` (B - {b}))"
    using Free_block [of a "fst b" "snd b" "span ` (B - {b})"] by (auto simp: span_def)
  have "inj_on span (B - {b})" using inj by (rule inj_on_diff)
  then have "arena_ok a' (B - {b})" using a'(2) assms(1) by (simp add: arena_ok_def)
  then show ?thesis using a'(1) arena_content_keeps [OF a'(3)] by (auto simp: arena_free_def)
qed

lemma arena_store_law:
  assumes "arena_ok a B" "b \<in> B" "k < length (arena_content a b)"
  shows "\<exists>a'. arena_store a b k v = Some a' \<and> arena_ok a' B \<and>
    arena_content a' b = (arena_content a b)[k := v] \<and>
    (\<forall>c\<in>B - {b}. arena_content a' c = arena_content a c)"
proof -
  have inv: "arena_inv a (span ` B)" and inj: "inj_on span B" and al: "aligned (fst b)"
    using assms(1,2) by (simp_all add: arena_ok_def)
  have m: "(idx (fst b), block_words (snd b)) \<in> span ` B" using assms(2) by (auto simp: span_def)
  have k: "k < block_words (snd b)" using assms(3) by (simp add: arena_content_def)
  have "idx (fst b) + block_words (snd b) \<le> 2 ^ 28" using arena_inv_bounds [OF inv m] by linarith
  then have p: "unat (fst b + word_of_nat (8 * k)) = unat (fst b) + 8 * k"
    using k aligned_eq [OF al] by (simp add: unat_word_ariths unat_word_of_nat_lt)
  from SetWordAt_block [OF inv m p al k, of v] obtain a' where a':
    "SetWordAt a (fst b + word_of_nat (8 * k)) v = Some a'" "arena_inv a' (span ` B)"
    "a_words a' = (a_words a)[idx (fst b) + k := v]" by blast
  have len: "idx (fst b) + k < length (a_words a)" using arena_inv_bounds [OF inv m] k by linarith
  have "arena_content a' b = (arena_content a b)[k := v]"
    using len k by (auto simp: arena_content_def a'(3) nth_list_update intro!: nth_equalityI)
  moreover have "arena_content a' c = arena_content a c" if c: "c \<in> B - {b}" for c
  proof -
    have "span c \<noteq> span b" using inj assms(2) c by (auto simp: inj_on_def)
    moreover have "(idx (fst c), block_words (snd c)) \<in> span ` B" using c by (auto simp: span_def)
    ultimately have "idx (fst c) + block_words (snd c) \<le> idx (fst b) \<or>
        idx (fst b) + block_words (snd b) \<le> idx (fst c)"
      using arena_inv_disjoint [OF inv _ m] by (auto simp: span_def)
    then show ?thesis using k by (auto simp: arena_content_def a'(3))
  qed
  ultimately show ?thesis
    using a'(1,2) assms(1) by (auto simp: arena_store_def arena_ok_def)
qed

lemma arena_compact_law:
  assumes "arena_ok a B"
  shows "\<exists>a'. Compact a target = Some a' \<and> arena_ok a' B \<and> (\<forall>c\<in>B. arena_content a' c = arena_content a c)"
proof -
  have inv: "arena_inv a (span ` B)" using assms by (simp add: arena_ok_def)
  have "arena_ok (trimmed a target) B" using assms trimmed_ok(1) [OF inv] by (simp add: arena_ok_def)
  then show ?thesis using Compact_trims [OF inv] arena_content_keeps [OF trimmed_ok(2) [OF inv]] by blast
qed

interpretation abs: block_store arena_ok arena_content arena_init arena_alloc arena_free arena_store Compact
  by unfold_locales (rule arena_alloc_law arena_free_law arena_store_law arena_compact_law; assumption)+

section \<open>Properties\<close>

text \<open>C2. Allocation. On a well-formed arena with live blocks \<open>L\<close>, an allocation that returns gives an
  8-byte aligned block of at least the requested size that overlaps no live block, filled with
  zeros, and it keeps every word of every live block; it fails only when the request exceeds the
  maximum capacity or the block does not fit between the top of the arena and that capacity.\<close>

theorem alloc_fresh_or_full:
  assumes "arena_inv a L"
  shows "case AllocBytes a n of
      None \<Rightarrow> unat (a_maxCap a) < unat n \<or> unat (a_maxCap a) < unat (a_bump a) + 8 * block_words n
    | Some (r, a') \<Rightarrow> unat n \<le> 8 * block_words n \<and> aligned r \<and>
        arena_inv a' (insert (idx r, block_words n) L) \<and>
        (\<forall>(i, m)\<in>L. i + m \<le> idx r \<or> idx r + block_words n \<le> i) \<and>
        (\<forall>k<block_words n. a_words a' ! (idx r + k) = 0) \<and>
        (\<forall>(i, m)\<in>L. \<forall>k<m. a_words a' ! (i + k) = a_words a ! (i + k))"
proof -
  have g: "geometry a" using assms unfolding arena_inv_def inv_def base_ok_def by blast
  have b: "unat (a_bump a) = 8 * wbump a" using g by (auto simp: geometry_def wbump_def)
  show ?thesis
  proof (cases "AllocBytes a n")
    case None
    then show ?thesis using AllocBytes_cases [OF assms, of n] b by simp
  next
    case (Some p)
    obtain r a' where p: "p = (r, a')" by (cases p)
    then have f: "unat n \<le> unat (a_maxCap a)" "fresh_block a L a' r (block_words n)"
      using AllocBytes_cases [OF assms, of n] Some by simp_all
    have inv: "arena_inv a' (insert (idx r, block_words n) L)" "(idx r, block_words n) \<notin> L"
      using f(2) by (simp_all add: fresh_block_def)
    have "i + m \<le> idx r \<or> idx r + block_words n \<le> i" if "(i, m) \<in> L" for i m
      using arena_inv_disjoint [OF inv(1), of i m "idx r" "block_words n"] inv(2) that by auto
    moreover have "unat n \<le> 8 * block_words n"
      using f(1) g by (intro block_words_enough) (simp add: geometry_def)
    ultimately show ?thesis
      using f(2) Some p by (auto simp: fresh_block_def keeps_def)
  qed
qed


text \<open>C1. Refinement. Run any sequence of allocations, frees, word stores and compactions that is meaningful
  for an abstract heap of independent zero-initialised arrays, starting from an empty arena: the
  arena never panics, and it ends in a state whose live blocks hold exactly the arrays of the abstract
  heap, or stops at the first allocation that exceeds the maximum capacity or does not fit between the
  top of the arena and that capacity.\<close>

theorem arena_refines_heap:
  assumes "arena_inv a {}" and "heap_run arena_init (\<lambda>_. None) ops = Some h"
  shows "case mem_run arena_alloc arena_free arena_store Compact (a, \<lambda>_. None) ops of
      Done (a', t) \<Rightarrow> dom t = dom h \<and> (\<forall>i b. t i = Some b \<longrightarrow> h i = Some (arena_content a' b))
    | Full \<Rightarrow> \<exists>before i n rest a' t. ops = before @ MAlloc i n # rest \<and>
        mem_run arena_alloc arena_free arena_store Compact (a, \<lambda>_. None) before = Done (a', t) \<and>
        (unat (a_maxCap a') < unat n \<or> unat (a_maxCap a') < unat (a_bump a') + 8 * block_words n)
    | Panic \<Rightarrow> False"
proof -
  have "abs.implements (a, \<lambda>_. None) (\<lambda>_. None)"
    using assms(1) by (simp add: abs.implements_def arena_ok_def)
  note sim = abs.run_simulation [OF this assms(2)]
  show ?thesis
  proof (cases "mem_run arena_alloc arena_free arena_store Compact (a, \<lambda>_. None) ops")
    case (Done c)
    then have "dom (snd c) = dom h \<and> (\<forall>i b. snd c i = Some b \<longrightarrow> h i = Some (arena_content (fst c) b))"
      using sim by (simp add: abs.implements_def)
    then show ?thesis using Done by (cases c) simp
  next
    case Full
    with sim obtain ys i n zs a' t where r: "ops = ys @ MAlloc i n # zs"
      "mem_run arena_alloc arena_free arena_store Compact (a, \<lambda>_. None) ys = Done (a', t)"
      "arena_ok a' (ran t)" "arena_alloc a' n = None" by auto
    from r(3,4) have "unat (a_maxCap a') < unat n \<or> unat (a_maxCap a') < unat (a_bump a') + 8 * block_words n"
      by (rule arena_alloc_refused)
    then show ?thesis using Full r(1,2) by (simp only: outcome.case) blast
  qed (use sim in simp_all)
qed

text \<open>C4. Compaction only trims the tail. \<open>Compact\<close> always returns. It does nothing to an arena that grows in place,
  or whose capacity is at most twice the one aimed at (the rounded target, at least the top and 64 KiB, at most the
  maximum); otherwise the capacity becomes that one and the words are cut there. Nothing else changes: the top, the
  heads of the free lists, their tables and the count of free bytes stay, and so does every word below the top, those
  of the live blocks and those that chain the free ones.\<close>

theorem compact_keeps:
  assumes "arena_inv a L"
  shows "\<exists>a'. Compact a target = Some a' \<and> arena_inv a' L \<and>
    a' = (if a_inPlace a \<or> unat (a_cap a) \<le> 2 * trimmed_cap a target then a
          else a\<lparr>a_cap := word_of_nat (trimmed_cap a target), a_words := take (trimmed_cap a target div 8) (a_words a)\<rparr>) \<and>
    unat (a_cap a') \<le> unat (a_cap a) \<and> a_bump a' = a_bump a \<and>
    a_freeHeads a' = a_freeHeads a \<and> a_largeFreeHeads a' = a_largeFreeHeads a \<and> a_freeBytes a' = a_freeBytes a \<and>
    a_largeByStart a' = a_largeByStart a \<and> a_largeByEnd a' = a_largeByEnd a \<and>
    take (unat (a_bump a) div 8) (a_words a') = take (unat (a_bump a) div 8) (a_words a) \<and>
    (\<forall>(i, m)\<in>L. \<forall>k<m. a_words a' ! (i + k) = a_words a ! (i + k))"
  using Compact_trims [OF assms, of target] trimmed_ok [OF assms, of target]
  by (intro exI [of _ "trimmed a target"]) (auto simp: trimmed_def keeps_def wbump_def)

text \<open>Creation. With a backing factory that keeps its contract and a maximum that is a multiple of
  8 of at most 2 GiB, \<open>New\<close> returns a well-formed arena without live blocks, whose capacity is the
  rounded initial size, exactly when that size does not exceed the maximum.\<close>

theorem New_wellformed:
  assumes "backing_contract (case NewBacking opts of None \<Rightarrow> DefaultBacking | Some f \<Rightarrow> f) (InPlaceBacking opts)"
    and "unat (InitialBytes opts) + 7 < 2 ^ 32"
    and "unat (OptMaxBytes opts) mod 8 = 0" "unat (OptMaxBytes opts) \<le> 2 ^ 31"
  shows "case arena_New opts of
      None \<Rightarrow> (if OptMaxBytes opts = 0 then MaxBytes else OptMaxBytes opts) <
              roundUp8 (if InitialBytes opts = 0 then 64 * 1024 else InitialBytes opts)
    | Some a \<Rightarrow> arena_inv a {}"
proof (cases "roundUp8 (if InitialBytes opts = 0 then 64 * 1024 else InitialBytes opts) \<le>
        (if OptMaxBytes opts = 0 then MaxBytes else OptMaxBytes opts)")
  case True
  obtain a where "arena_New opts = Some a" "arena_inv a {}"
    by (rule arena_New_ok [OF assms(1) disjI2 [OF assms(2)] assms(3,4) True])
  then show ?thesis by simp
next
  case False
  then have "arena_New opts = None" unfolding arena_New_def Let_def by (simp only: not_le if_True)
  then show ?thesis using False by (simp only: not_le option.case)
qed

section \<open>Witnesses\<close>

definition tiny_opts :: arena_options where
  "tiny_opts = \<lparr>InitialBytes = 64, OptMaxBytes = 128, NewBacking = None, InPlaceBacking = False\<rparr>"

definition tiny :: arena where "tiny = the (arena_New tiny_opts)"

definition tiny_used :: arena where "tiny_used = snd (the (AllocBytes tiny 20))"

lemma tiny_New: "arena_New tiny_opts \<noteq> None \<and> roundUp8 64 \<le> (128 :: u32)" by code_simp

lemma tiny_inv: "arena_inv tiny {}"
proof -
  obtain a where "arena_New tiny_opts = Some a" "arena_inv a {}"
    by (rule arena_New_ok [of tiny_opts])
      (use tiny_New DefaultBacking_contract in \<open>simp_all add: tiny_opts_def\<close>)
  then show ?thesis by (simp add: tiny_def)
qed

lemma tiny_alloc: "map_option fst (AllocBytes tiny 20) = Some 8 \<and> block_words 20 = 3 \<and> idx 8 = 1"
  by code_simp

lemma tiny_used_inv: "arena_inv tiny_used {(idx 8, block_words 20)}"
proof -
  obtain a where a: "AllocBytes tiny 20 = Some (8, a)" using tiny_alloc by auto
  from AllocBytes_cases [OF tiny_inv, of 20] have "fresh_block tiny {} a 8 (block_words 20)"
    by (simp add: a)
  then show ?thesis by (simp add: fresh_block_def tiny_used_def a)
qed

theorem alloc_fresh_or_full_witness:
  "\<exists>a'. AllocBytes tiny 20 = Some (8, a') \<and> (20 :: nat) \<le> 8 * block_words 20 \<and> aligned 8 \<and>
    arena_inv a' {(idx 8, block_words 20)} \<and> (\<forall>k<block_words 20. a_words a' ! (idx 8 + k) = 0)"
proof -
  obtain a where "AllocBytes tiny 20 = Some (8, a)" using tiny_alloc by auto
  then show ?thesis using alloc_fresh_or_full [OF tiny_inv, of 20] by simp
qed


definition tiny_ops :: "(u32, u64) mem_op list" where
  "tiny_ops = [MAlloc 0 20, MStore 0 1 7, MCompact 0]"

theorem arena_refines_heap_witness:
  "\<exists>a' t b. mem_run arena_alloc arena_free arena_store Compact (tiny, \<lambda>_. None) tiny_ops = Done (a', t) \<and>
     t 0 = Some b \<and> arena_content a' b = [0, 7, 0]"
proof -
  have h: "heap_run arena_init (\<lambda>_. None) tiny_ops = Some [0 \<mapsto> [0, 7, 0]]"
    using tiny_alloc by (simp add: tiny_ops_def arena_init_def numeral_eq_Suc)
  note r = arena_refines_heap [OF tiny_inv h]
  have run: "case mem_run arena_alloc arena_free arena_store Compact (tiny, \<lambda>_. None) tiny_ops of
      Done _ \<Rightarrow> True | _ \<Rightarrow> False" by code_simp
  then obtain a' t where c: "mem_run arena_alloc arena_free arena_store Compact (tiny, \<lambda>_. None) tiny_ops = Done (a', t)"
    by (cases "mem_run arena_alloc arena_free arena_store Compact (tiny, \<lambda>_. None) tiny_ops") auto
  have f: "dom t = dom [0 \<mapsto> [0, 7, 0 :: u64]] \<and>
      (\<forall>i b. t i = Some b \<longrightarrow> [0 \<mapsto> [0, 7, 0]] i = Some (arena_content a' b))"
    using r unfolding c outcome.case prod.case .
  then have "0 \<in> dom t" by simp
  then obtain b where b: "t 0 = Some b" by blast
  then have "[0 \<mapsto> [0, 7, 0]] (0 :: nat) = Some (arena_content a' b)" using f by blast
  then have "arena_content a' b = [0, 7, 0]" by simp
  then show ?thesis using c b by blast
qed

text \<open>An arena of 256 KiB with one block, which compaction cuts to 64 KiB.\<close>

definition wide_opts :: arena_options where
  "wide_opts = \<lparr>InitialBytes = 262144, OptMaxBytes = 0, NewBacking = None, InPlaceBacking = False\<rparr>"

definition wide :: arena where "wide = the (arena_New wide_opts)"

lemma New_fields:
  assumes "arena_New opts = Some a"
  shows "a_bump a = nullReserve" "a_cap a = roundUp8 (if InitialBytes opts = 0 then 64 * 1024 else InitialBytes opts)"
    "a_maxCap a = (if OptMaxBytes opts = 0 then MaxBytes else OptMaxBytes opts)" "a_inPlace a = InPlaceBacking opts"
  using assms by (auto simp: arena_New_def setBacking_def Let_def split: if_splits)

lemma wide_New: "arena_New wide_opts = Some wide \<and> arena_inv wide {}"
proof -
  obtain a where "arena_New wide_opts = Some a" "arena_inv a {}"
  proof (rule arena_New_ok [of wide_opts])
    show "roundUp8 (if InitialBytes wide_opts = 0 then 64 * 1024 else InitialBytes wide_opts)
        \<le> (if OptMaxBytes wide_opts = 0 then MaxBytes else OptMaxBytes wide_opts)" by code_simp
  qed (use DefaultBacking_contract in \<open>simp_all add: wide_opts_def\<close>)
  then show ?thesis by (simp add: wide_def)
qed

theorem compact_keeps_witness:
  "\<exists>a'. Compact wide 0 = Some a' \<and> arena_inv a' {} \<and> a_cap wide = 262144 \<and> a_cap a' = 65536 \<and>
     length (a_words a') = 8192 \<and> a_freeHeads a' = a_freeHeads wide"
proof -
  have r: "roundUp8 262144 = 262144" "unat MaxBytes = 2147483648" "unat nullReserve = 8"
    by (simp_all add: roundUp8_def MaxBytes_def nullReserve_def push_bit_eq_mult)
  note g = New_fields [OF conjunct1 [OF wide_New]]
  have f: "a_cap wide = 262144" "a_inPlace wide = False" using g(2,4) r(1) by (simp_all add: wide_opts_def)
  have t: "trimmed_cap wide 0 = 65536" using g(1,3) r(2,3) by (simp add: trimmed_cap_def wide_opts_def)
  have "length (a_words wide) = 32768"
    using conjunct2 [OF wide_New] f(1) by (auto simp: arena_inv_def inv_def base_ok_def geometry_def)
  then show ?thesis using compact_keeps [OF conjunct2 [OF wide_New], of 0] by (auto simp: f t)
qed

theorem New_wellformed_witness: "\<exists>a. arena_New tiny_opts = Some a \<and> arena_inv a {}"
proof -
  obtain a where a: "arena_New tiny_opts = Some a" using tiny_New by blast
  have "case arena_New tiny_opts of
      None \<Rightarrow> (if OptMaxBytes tiny_opts = 0 then MaxBytes else OptMaxBytes tiny_opts) <
              roundUp8 (if InitialBytes tiny_opts = 0 then 64 * 1024 else InitialBytes tiny_opts)
    | Some a \<Rightarrow> arena_inv a {}"
    by (rule New_wellformed) (use DefaultBacking_contract in \<open>simp_all add: tiny_opts_def\<close>)
  then show ?thesis by (simp only: a option.case) blast
qed

section \<open>A maximum that is not a multiple of 8\<close>

lemma grow_cap_limit:
  assumes "0 < c" "unat c \<le> unat m" "unat c < unat b" and none: "\<forall>k. \<not> (unat b \<le> unat c * 2 ^ k \<and> unat c * 2 ^ k \<le> unat m)"
  shows "grow_cap c m b = m"
  using assms
proof (induction c m b rule: grow_cap.induct)
  case (1 c m b)
  have lt: "ucast c < b \<and> c \<noteq> 0" using 1(2,4) by (auto simp: word_less_nat_alt)
  show ?case
  proof (cases "m div 2 < c")
    case True
    then show ?thesis using lt by (subst grow_cap.simps) simp
  next
    case False
    then have le: "2 * unat c \<le> unat m" by (simp add: word_less_nat_alt unat_div)
    then have "unat c * 2 < 4294967296" using unat_u32_lt [of m] by linarith
    then have u: "unat (c * 2) = 2 * unat c" by (simp add: unat_word_ariths)
    have "\<not> (unat b \<le> unat c * 2 ^ 1 \<and> unat c * 2 ^ 1 \<le> unat m)" using "1.prems"(4) by blast
    then have "unat (c * 2) < unat b" using le u by simp
    moreover have "\<forall>k. \<not> (unat b \<le> unat (c * 2) * 2 ^ k \<and> unat (c * 2) * 2 ^ k \<le> unat m)"
      using "1.prems"(4) spec [of _ "Suc _"] u by (metis mult.assoc mult.commute power_Suc)
    moreover have "0 < c * 2" using u lt unat_gt_0 [of "c * 2"] unat_gt_0 [of c] by (simp add: word_gt_0)
    ultimately have "grow_cap (c * 2) m b = m" using "1.IH" [OF lt False] le u by simp
    then show ?thesis using lt False by (subst grow_cap.simps) simp
  qed
qed

lemma grow64_limit:
  assumes "unat (a_maxCap a) mod 8 \<noteq> 0" and "\<forall>old n. length (a_backing a old n) = unat n"
    and "0 < a_cap a" "unat (a_cap a) \<le> unat (a_maxCap a)" "unat (a_cap a) < unat b"
    and "\<forall>k. \<not> (unat b \<le> unat (a_cap a) * 2 ^ k \<and> unat (a_cap a) * 2 ^ k \<le> unat (a_maxCap a))"
  shows "grow64 a b = None"
proof -
  have "grow_cap (a_cap a) (a_maxCap a) b = a_maxCap a" by (rule grow_cap_limit [OF assms(3-6)])
  moreover have "unat (a_maxCap a div 8) * 8 < unat (a_maxCap a)"
    using cut_8 [OF assms(1)] by (simp add: unat_div)
  ultimately show ?thesis
    using assms(2,3) by (auto simp: grow64_def setBacking_def copy_into_def Let_def min_def)
qed

text \<open>C40. A maximum that is not a multiple of 8 makes allocations panic that fit. Let the maximum be no multiple of 8,
  no block be free, and a block fit between the top and the maximum, but not in the present capacity, nor in one of
  its doublings up to the maximum: then growth asks the factory for the maximum in whole words, \<open>setBacking\<close> finds fewer bytes
  than the capacity, and the allocation panics. (With a maximum that is a multiple of 8 it returns a block.)\<close>

theorem unaligned_max_panics:
  assumes "unat (a_maxCap a) mod 8 \<noteq> 0" and "unat (a_maxCap a) \<le> 2 ^ 31"
    and "\<forall>old n. length (a_backing a old n) = unat n"
    and "\<forall>c. a_freeHeads a c = 0" and "\<forall>c. a_largeFreeHeads a c = 0"
    and "0 < a_cap a" "unat (a_cap a) \<le> unat (a_maxCap a)"
    and "unat (a_bump a) + 8 * block_words n \<le> unat (a_maxCap a)" and "unat (a_cap a) < unat (a_bump a) + 8 * block_words n"
    and "\<forall>k. \<not> (unat (a_bump a) + 8 * block_words n \<le> unat (a_cap a) * 2 ^ k \<and> unat (a_cap a) * 2 ^ k \<le> unat (a_maxCap a))"
  shows "AllocBytes a n = None"
proof (cases "unat n \<le> unat (a_maxCap a)")
  case False
  then show ?thesis by (simp add: AllocBytes_def word_less_nat_alt)
next
  case True
  have le: "\<not> (ucast (a_maxCap a) :: u64) < ucast n" using True by (simp add: word_less_nat_alt)
  have bump: "bump_alloc a need = None" if "unat need = 8 * block_words n" for need
  proof -
    let ?b = "ucast (a_bump a) + ucast need :: u64"
    have b: "unat ?b = unat (a_bump a) + 8 * block_words n"
      using assms(2,8) that by (simp add: unat_word_ariths)
    then have "grow64 a ?b = None" using assms by (intro grow64_limit) simp_all
    moreover have "ucast (a_cap a) < ?b" using b assms(9) by (simp add: word_less_nat_alt)
    ultimately show ?thesis by (simp add: bump_alloc_def)
  qed
  let ?w = "need_words n"
  show ?thesis
  proof (cases "?w \<le> largeThresholdWords")
    case small: True
    have "AllocBytes a n = bump_alloc a (classWords (sizeClass ?w) * 8)"
      using assms(4) by (simp only: AllocBytes_def Let_def need_words_def [symmetric] le small popSizeClass_def IsNull_def
        if_True if_False bind.bind_lunit prod.case) simp
    moreover have "unat (classWords (sizeClass ?w) * 8) = 8 * block_words n"
      using block_words_class [OF small] by (simp add: unat_word_ariths)
    ultimately show ?thesis using bump by simp
  next
    case large: False
    have "pop_from a ?w c = Some (0, a)" for c
      by (induction "numLargeClasses - c" arbitrary: c)
        (subst pop_from.simps, simp add: assms(5) IsNull_def)+
    then have "AllocBytes a n = bump_alloc a (if roundUp8 n = 0 then 8 else roundUp8 n)"
      by (simp only: AllocBytes_def Let_def need_words_def [symmetric] le large popLarge_def IsNull_def
        if_True if_False bind.bind_lunit prod.case) simp
    then show ?thesis using bump need_words_mult [of n] block_words_large [OF large] by simp
  qed
qed

text \<open>With \<open>MaxBytes = 100\<close> and 64 bytes to begin with, a first block of 80 bytes would end at byte 88.\<close>

definition odd_arena :: arena where
  "odd_arena = \<lparr>a_words = replicate 8 0, a_bump = 8, a_cap = 64, a_maxCap = 100, a_backing = DefaultBacking,
     a_inPlace = False, a_freeHeads = (\<lambda>_. 0), a_largeFreeHeads = (\<lambda>_. 0), a_freeBytes = 0,
     a_largeByStart = (\<lambda>_. None), a_largeByEnd = (\<lambda>_. None)\<rparr>"

theorem unaligned_max_panics_witness:
  "arena_New \<lparr>InitialBytes = 64, OptMaxBytes = 100, NewBacking = None, InPlaceBacking = False\<rparr> = Some odd_arena \<and>
   AllocBytes odd_arena 80 = None"
proof -
  have "roundUp8 64 = 64" "(64 :: u32) div 8 = 8" by code_simp+
  then have "arena_New \<lparr>InitialBytes = 64, OptMaxBytes = 100, NewBacking = None, InPlaceBacking = False\<rparr> = Some odd_arena"
    by (simp add: arena_New_def odd_arena_def Let_def DefaultBacking_def setBacking_def nullReserve_def)
  moreover have "block_words 80 = 10" by code_simp
  moreover have "\<not> ((88 :: nat) \<le> 64 * 2 ^ k \<and> (64 :: nat) * 2 ^ k \<le> 100)" for k :: nat
    using power_increasing [of 1 k "2 :: nat"] by (cases "k = 0") auto
  ultimately show ?thesis
    using unaligned_max_panics [of odd_arena 80] by (simp add: odd_arena_def DefaultBacking_def)
qed

end
