(* ===== verification/ObjectSpec.thy ===== *)
theory ObjectSpec
  imports Object ArenaSpec
begin

text \<open>
  What the object layouts promise: header fields read back and setters touch their field only,
  constructors return a block of exactly the size \<open>SizeOf\<close> reports, strings read back the bytes
  they were built from, and field setters keep the other fields.
\<close>

section \<open>Header words\<close>

lemma mask_lits: "(0xFF :: u64) = mask 8" "(0x3 :: u64) = mask 2" "(0xF :: u64) = mask 4"
    "(0xFFFFFFFFFFFF :: u64) = mask 48" "(0xFFFFFFFF :: u64) = mask 32" "(0xFFFF :: u64) = mask 16"
    "(0xFFFFFFFF00000000 :: u64) = NOT (mask 32)"
  by (simp_all add: mask_eq_exp_minus_1)

lemma bit_push_1: "bit (push_bit k 1 :: u64) n \<longleftrightarrow> n = k \<and> n < 64"
  by (auto simp only: bit_push_bit_iff bit_1_iff possible_bit_word) simp_all

lemma bit_hdr:
  "bit hdrFixedBit n \<longleftrightarrow> n = 10" "bit hdrHasGCNextBit n \<longleftrightarrow> n = 11" "bit hdrOTypeMask n \<longleftrightarrow> n < 8"
  "bit hdrColorMask n \<longleftrightarrow> 8 \<le> n \<and> n < 10" "bit hdrFlagsMask n \<longleftrightarrow> 12 \<le> n \<and> n < 16"
  unfolding hdrFixedBit_def hdrHasGCNextBit_def hdrOTypeMask_def hdrColorMask_def hdrColorShift_def
    hdrFlagsMask_def hdrFlagsShift_def mask_lits
  by (auto simp only: bit_push_1) (auto simp: bit_simps)

lemma flag_set: "bit m n \<Longrightarrow> (\<And>k. bit m k \<Longrightarrow> k = n) \<Longrightarrow> (h AND m \<noteq> 0) = bit h n" for h m :: "'a::len word"
proof -
  assume m: "bit m n" "\<And>k. bit m k \<Longrightarrow> k = n"
  have "h AND m = 0" if "\<not> bit h n"
    by (rule bit_word_eqI) (use that m(2) in \<open>auto simp: bit_simps\<close>)
  moreover have "bit (h AND m) n" if "bit h n" using that m(1) by (simp add: bit_simps)
  ultimately show ?thesis by (metis bit_0_eq bot_apply bot_bool_def)
qed

lemma IsFixed_bit: "IsFixed h = bit h 10" and HasGCNext_bit: "HasGCNext h = bit h 11"
  unfolding IsFixed_def HasGCNext_def by (rule flag_set; simp add: bit_hdr)+

lemma bit_fields:
  "bit (OTypeOf h) n \<longleftrightarrow> n < 8 \<and> bit h n"
  "bit (ColorOf h) n \<longleftrightarrow> n < 2 \<and> bit h (8 + n)"
  "bit (FlagsOf h) n \<longleftrightarrow> n < 4 \<and> bit h (12 + n)"
  "bit (GCNextOf h) n \<longleftrightarrow> bit h (16 + n)"
  unfolding OTypeOf_def ColorOf_def FlagsOf_def GCNextOf_def hdrColorShift_def hdrFlagsShift_def hdrGCNextShift_def
  by (auto simp: bit_simps bit_hdr)

lemma bit_parts:
  "bit (ucast (ot :: u8) AND hdrOTypeMask) n \<longleftrightarrow> n < 8 \<and> bit ot n"
  "bit (push_bit 8 (ucast (c :: u8) AND mask 2 :: u64)) n \<longleftrightarrow> 8 \<le> n \<and> n < 10 \<and> bit c (n - 8)"
  "bit (push_bit 12 (ucast (c :: u8) AND mask 4 :: u64)) n \<longleftrightarrow> 12 \<le> n \<and> n < 16 \<and> bit c (n - 12)"
  "bit (push_bit 16 (g :: u64)) n \<longleftrightarrow> 16 \<le> n \<and> n < 64 \<and> bit g (n - 16)"
  by (auto simp: bit_simps bit_hdr)

lemma bit_MakeHeader:
  "bit (MakeHeader ot c fixed fl g) n \<longleftrightarrow> (n < 8 \<and> bit ot n) \<or> (8 \<le> n \<and> n < 10 \<and> bit c (n - 8)) \<or>
     (n = 10 \<and> fixed) \<or> (12 \<le> n \<and> n < 16 \<and> bit fl (n - 12)) \<or> (n = 11 \<and> g \<noteq> 0) \<or>
     (16 \<le> n \<and> n < 64 \<and> bit g (n - 16))"
  unfolding MakeHeader_def Let_def hdrColorShift_def hdrFlagsShift_def hdrGCNextShift_def mask_lits
  by (cases fixed; cases "g = 0"; simp only: bit_or_iff bit_parts bit_hdr bit_0_eq bot_apply bot_bool_def
      if_True if_False simp_thms; blast)

lemma bit_cleared:
  "n < 64 \<Longrightarrow> bit (h AND NOT hdrColorMask) n \<longleftrightarrow> bit h n \<and> \<not> (8 \<le> n \<and> n < 10)"
  "n < 64 \<Longrightarrow> bit (h AND NOT hdrFlagsMask) n \<longleftrightarrow> bit h n \<and> \<not> (12 \<le> n \<and> n < 16)"
  "n < 64 \<Longrightarrow> bit (h AND NOT (push_bit 16 (mask 48) OR hdrHasGCNextBit)) n \<longleftrightarrow> bit h n \<and> n < 16 \<and> n \<noteq> 11"
  by (auto simp: bit_simps bit_hdr)

lemma bit_setters64:
  assumes "n < 64"
  shows "bit (SetColor h c) n \<longleftrightarrow> (if 8 \<le> n \<and> n < 10 then bit c (n - 8) else bit h n)"
    "bit (SetFlags h f) n \<longleftrightarrow> (if 12 \<le> n \<and> n < 16 then bit f (n - 12) else bit h n)"
    "bit (SetGCNext h g) n \<longleftrightarrow> (if n = 11 then g \<noteq> 0 else if 16 \<le> n then bit g (n - 16) else bit h n)"
proof -
  show "bit (SetColor h c) n \<longleftrightarrow> (if 8 \<le> n \<and> n < 10 then bit c (n - 8) else bit h n)"
    "bit (SetFlags h f) n \<longleftrightarrow> (if 12 \<le> n \<and> n < 16 then bit f (n - 12) else bit h n)"
    unfolding SetColor_def SetFlags_def hdrColorShift_def hdrFlagsShift_def mask_lits
    using assms by (simp_all only: bit_or_iff bit_parts bit_cleared) auto
  show "bit (SetGCNext h g) n \<longleftrightarrow> (if n = 11 then g \<noteq> 0 else if 16 \<le> n then bit g (n - 16) else bit h n)"
    unfolding SetGCNext_def Let_def hdrGCNextShift_def mask_lits
    using assms by (cases "g = 0") (simp_all only: bit_or_iff bit_parts bit_cleared bit_hdr if_True if_False simp_thms, auto)
qed

lemma bit_setters:
  "bit (SetColor h c) n \<longleftrightarrow> n < 64 \<and> (if 8 \<le> n \<and> n < 10 then bit c (n - 8) else bit h n)"
  "bit (SetFlags h f) n \<longleftrightarrow> n < 64 \<and> (if 12 \<le> n \<and> n < 16 then bit f (n - 12) else bit h n)"
  "bit (SetGCNext h g) n \<longleftrightarrow> n < 64 \<and>
     (if n = 11 then g \<noteq> 0 else if 16 \<le> n then bit g (n - 16) else bit h n)"
proof -
  have "\<not> bit w n" if "\<not> n < 64" for w :: u64 using that bit_imp_le_length [of w n] by auto
  then show "bit (SetColor h c) n \<longleftrightarrow> n < 64 \<and> (if 8 \<le> n \<and> n < 10 then bit c (n - 8) else bit h n)"
    "bit (SetFlags h f) n \<longleftrightarrow> n < 64 \<and> (if 12 \<le> n \<and> n < 16 then bit f (n - 12) else bit h n)"
    "bit (SetGCNext h g) n \<longleftrightarrow> n < 64 \<and>
      (if n = 11 then g \<noteq> 0 else if 16 \<le> n then bit g (n - 16) else bit h n)"
    using bit_setters64 [of n] by (cases "n < 64"; simp)+
qed

lemma bit_u64_bound: "bit (h :: u64) (k + n) \<Longrightarrow> k + n < 64"
  using bit_imp_le_length [of h "k + n"] by simp

lemma small_bits: "unat c < 2 ^ k \<Longrightarrow> bit c n \<Longrightarrow> n < k" for c :: "'a::len word"
proof -
  assume c: "unat c < 2 ^ k" "bit c n"
  have "take_bit k c = c" using c(1) by (simp add: word_unat_eq_iff unsigned_take_bit_eq take_bit_nat_eq_self)
  then show "n < k" using c(2) by (metis bit_take_bit_iff)
qed

lemma SetColor_frame [simp]:
  "OTypeOf (SetColor h c) = OTypeOf h" "FlagsOf (SetColor h c) = FlagsOf h"
  "GCNextOf (SetColor h c) = GCNextOf h" "ColorOf (SetColor h c) = c AND mask 2"
  "IsFixed (SetColor h c) = IsFixed h" "HasGCNext (SetColor h c) = HasGCNext h"
  by (rule bit_word_eqI, auto simp: bit_fields bit_setters bit_simps dest: bit_u64_bound)+
    (simp_all add: IsFixed_bit HasGCNext_bit bit_setters)

lemma SetFlags_frame [simp]:
  "OTypeOf (SetFlags h f) = OTypeOf h" "ColorOf (SetFlags h f) = ColorOf h"
  "GCNextOf (SetFlags h f) = GCNextOf h" "FlagsOf (SetFlags h f) = f AND mask 4"
  "IsFixed (SetFlags h f) = IsFixed h" "HasGCNext (SetFlags h f) = HasGCNext h"
  by (rule bit_word_eqI, auto simp: bit_fields bit_setters bit_simps dest: bit_u64_bound)+
    (simp_all add: IsFixed_bit HasGCNext_bit bit_setters)

lemma SetGCNext_frame [simp]:
  "OTypeOf (SetGCNext h g) = OTypeOf h" "ColorOf (SetGCNext h g) = ColorOf h"
  "FlagsOf (SetGCNext h g) = FlagsOf h" "GCNextOf (SetGCNext h g) = g AND payloadMask"
  "IsFixed (SetGCNext h g) = IsFixed h" "HasGCNext (SetGCNext h g) \<longleftrightarrow> g \<noteq> 0"
  unfolding payloadMask_mask
  by (rule bit_word_eqI, auto simp: bit_fields bit_setters bit_simps dest: bit_u64_bound)+
    (simp_all add: IsFixed_bit HasGCNext_bit bit_setters)

lemma OTypeOf_MakeHeader: "OTypeOf (MakeHeader ot c fixed fl g) = ot"
  by (rule bit_word_eqI) (auto simp: bit_fields bit_MakeHeader)

text \<open>C35. The header word: every field given to \<open>MakeHeader\<close> is read back, for a 2-bit colour, 4-bit
  flags and a 48-bit link, and the link flag says whether the link is null.\<close>

theorem header_roundtrip:
  assumes "unat color < 4" "unat flags < 16" "gcnext < 2 ^ 48"
  shows "(let h = MakeHeader ot color fixed flags gcnext in
     (OTypeOf h, ColorOf h, IsFixed h, HasGCNext h, FlagsOf h, GCNextOf h)) =
     (ot, color, fixed, gcnext \<noteq> 0, flags, gcnext)"
proof -
  let ?h = "MakeHeader ot color fixed flags gcnext"
  have "OTypeOf ?h = ot" by (rule bit_word_eqI) (auto simp: bit_fields bit_MakeHeader)
  moreover have "ColorOf ?h = color"
    by (rule bit_word_eqI) (use small_bits [of color 2] assms(1) in \<open>auto simp: bit_fields bit_MakeHeader\<close>)
  moreover have "FlagsOf ?h = flags"
    by (rule bit_word_eqI) (use small_bits [of flags 4] assms(2) in \<open>auto simp: bit_fields bit_MakeHeader\<close>)
  moreover have "GCNextOf ?h = gcnext"
  proof (rule bit_word_eqI)
    fix n assume "n < LENGTH(64)"
    have "bit gcnext n \<Longrightarrow> n < 48" using small_bits [of gcnext 48] assms(3) by (simp add: word_less_nat_alt)
    then show "bit (GCNextOf ?h) n = bit gcnext n" by (auto simp: bit_fields bit_MakeHeader)
  qed
  ultimately show ?thesis by (simp add: IsFixed_bit HasGCNext_bit bit_MakeHeader)
qed

theorem header_roundtrip_witness:
  "(let h = MakeHeader OBJ_TABLE ColorBlack True 5 0x1000 in
     (OTypeOf h, ColorOf h, IsFixed h, HasGCNext h, FlagsOf h, GCNextOf h)) =
     (OBJ_TABLE, ColorBlack, True, (0x1000 :: gcref) \<noteq> 0, 5, 0x1000)"
  by (rule header_roundtrip) (simp_all add: ColorBlack_def)

text \<open>The header setters replace their own field and keep all others, so the collector can recolour
  and relink objects in place.\<close>

lemma header_setters_frame:
  "(OTypeOf (SetColor h c), FlagsOf (SetColor h c), IsFixed (SetColor h c), GCNextOf (SetColor h c),
      HasGCNext (SetColor h c), ColorOf (SetColor h c)) =
     (OTypeOf h, FlagsOf h, IsFixed h, GCNextOf h, HasGCNext h, c AND 3) \<and>
   (OTypeOf (SetGCNext h g), FlagsOf (SetGCNext h g), IsFixed (SetGCNext h g), ColorOf (SetGCNext h g),
      HasGCNext (SetGCNext h g), GCNextOf (SetGCNext h g)) =
     (OTypeOf h, FlagsOf h, IsFixed h, ColorOf h, g \<noteq> 0, g AND payloadMask) \<and>
   (OTypeOf (SetFlags h f), ColorOf (SetFlags h f), IsFixed (SetFlags h f), GCNextOf (SetFlags h f),
      HasGCNext (SetFlags h f), FlagsOf (SetFlags h f)) =
     (OTypeOf h, ColorOf h, IsFixed h, GCNextOf h, HasGCNext h, f AND 15)"
proof -
  have 3: "(3 :: u8) = mask 2" "(15 :: u8) = mask 4" by (simp_all add: mask_eq_exp_minus_1)
  show ?thesis by (simp add: 3)
qed

section \<open>Blocks and word slots\<close>

definition blk :: "arena \<Rightarrow> gcref \<Rightarrow> nat \<Rightarrow> bool" where
  "blk a r n \<longleftrightarrow> aligned r \<and> idx r + n \<le> length (a_words a) \<and> length (a_words a) \<le> 2 ^ 28"

lemma blk_update [simp]: "length ws = length (a_words a) \<Longrightarrow> blk (a\<lparr>a_words := ws\<rparr>) r n = blk a r n"
  by (simp add: blk_def)

lemma blk_mono: "blk a r n \<Longrightarrow> m \<le> n \<Longrightarrow> blk a r m"
  by (simp add: blk_def)

lemma slot_addr:
  assumes "aligned r" "idx r + unat (i :: u32) \<le> 2 ^ 28"
  shows "(r + ucast (i * 8)) AND 7 = 0" "unat (drop_bit 3 (r + ucast (i * 8))) = idx r + unat i"
proof -
  have u: "unat (i * 8) = unat i * 8" using assms(2) by (simp add: unat_word_ariths)
  have "unat (r + ucast (i * 8)) = unat r + unat i * 8"
    using assms aligned_eq [OF assms(1)] u by (simp add: unat_word_ariths)
  then have w: "unat (r + ucast (i * 8)) = 8 * (idx r + unat i)"
    using aligned_eq [OF assms(1)] by simp
  show "(r + ucast (i * 8)) AND 7 = 0" unfolding and_7 w by simp
  show "unat (drop_bit 3 (r + ucast (i * 8))) = idx r + unat i"
    unfolding unat_shift3 idx_def [of "r + ucast (i * 8)"] w by simp
qed

lemma wordAt_blk:
  assumes "blk a r n" "unat i < n"
  shows "wordAt a r i = Some (a_words a ! (idx r + unat i))"
proof -
  have b: "aligned r" "idx r + unat i \<le> 2 ^ 28" "idx r + unat i < length (a_words a)"
    using assms by (simp_all add: blk_def)
  show ?thesis using slot_addr [OF b(1,2)] b(3) by (simp add: wordAt_def WordAt_def wget_def)
qed

lemma setWordAt_blk:
  assumes "blk a r n" "unat i < n"
  shows "setWordAt a r i v = Some (a\<lparr>a_words := (a_words a)[idx r + unat i := v]\<rparr>)"
proof -
  have b: "aligned r" "idx r + unat i \<le> 2 ^ 28" "idx r + unat i < length (a_words a)"
    using assms by (simp_all add: blk_def)
  show ?thesis using slot_addr [OF b(1,2)] b(3) by (simp add: setWordAt_def SetWordAt_def wset_def)
qed

lemma Header_blk:
  assumes "blk a r n" "0 < n"
  shows "HeaderOf a r = Some (a_words a ! idx r)"
    and "SetHeader a r h = Some (a\<lparr>a_words := (a_words a)[idx r := h]\<rparr>)"
proof -
  have "r AND 7 = 0" "idx r < length (a_words a)"
    using assms by (simp_all add: blk_def aligned_def and_7)
  then show "HeaderOf a r = Some (a_words a ! idx r)"
    and "SetHeader a r h = Some (a\<lparr>a_words := (a_words a)[idx r := h]\<rparr>)"
    by (simp_all add: HeaderOf_def SetHeader_def WordAt_def SetWordAt_def wget_def wset_def)
qed

lemmas table_idx_defs = tableSizesIdx_def tableArrayIdx_def tableNodeIdx_def tableMetaIdx_def
  tableLastFreeGen_def

lemmas closure_idx_defs = closureMetaIdx_def closureSlotIdx_def upvalLocIdx_def upvalValueIdx_def

lemmas flag_defs = tableFlagHasMeta_def tableFlagWeakKey_def tableFlagWeakVal_def closureFlagHost_def
  upvalFlagClosed_def udFlagHasMeta_def

text \<open>Packing two 32-bit halves into a word.\<close>

lemma pack32:
  "ucast (ucast (lo :: u32) OR push_bit 32 (ucast (hi :: u32)) :: u64) = lo"
  "ucast (drop_bit 32 (ucast (lo :: u32) OR push_bit 32 (ucast (hi :: u32)) :: u64)) = hi"
proof -
  show "ucast (ucast (lo :: u32) OR push_bit 32 (ucast (hi :: u32)) :: u64) = lo"
    by (rule bit_word_eqI) (auto simp: bit_simps)
  show "ucast (drop_bit 32 (ucast (lo :: u32) OR push_bit 32 (ucast (hi :: u32)) :: u64)) = hi"
    by (rule bit_word_eqI) (auto simp: bit_simps dest: bit_imp_le_length)
qed

lemma repack32:
  "ucast (ucast (lo :: u32) OR (w AND 0xFFFFFFFF00000000) :: u64) = lo"
  "ucast (drop_bit 32 (ucast (lo :: u32) OR (w AND 0xFFFFFFFF00000000) :: u64)) = (ucast (drop_bit 32 w) :: u32)"
  "ucast ((w AND 0xFFFFFFFF) OR push_bit 32 (ucast (hi :: u32)) :: u64) = (ucast w :: u32)"
  "ucast (drop_bit 32 ((w AND 0xFFFFFFFF) OR push_bit 32 (ucast (hi :: u32)) :: u64)) = hi"
  unfolding mask_lits by (rule bit_word_eqI, auto simp: bit_simps dest: bit_imp_le_length)+

section \<open>Field setters\<close>

lemma flag1: "push_bit 0 1 = (1 :: u8)" "push_bit 1 1 = (2 :: u8)" "push_bit 2 1 = (4 :: u8)"
  by simp_all

lemma bit_flag: "bit (1 :: u8) n \<longleftrightarrow> n = 0" "bit (2 :: u8) n \<longleftrightarrow> n = 1" "bit (4 :: u8) n \<longleftrightarrow> n = 2"
proof -
  have "(2 :: u8) = push_bit 1 1" "(4 :: u8) = push_bit 2 1" by simp_all
  moreover have "bit (1 :: u8) n \<longleftrightarrow> n = 0" by (simp add: bit_1_iff)
  ultimately show "bit (1 :: u8) n \<longleftrightarrow> n = 0" "bit (2 :: u8) n \<longleftrightarrow> n = 1" "bit (4 :: u8) n \<longleftrightarrow> n = 2"
    by (auto simp only: bit_push_bit_iff bit_1_iff possible_bit_word) simp_all
qed

lemma flag_test: "(f AND 1 \<noteq> 0) = bit f 0" "(f AND 2 \<noteq> 0) = bit f 1" "(f AND 4 \<noteq> 0) = bit f 2" for f :: u8
  by (rule flag_set; simp only: bit_flag)+

lemma flag_tests: "(f AND 1 = 0) = (\<not> bit f 0)" "(f AND 2 = 0) = (\<not> bit f 1)" "(f AND 4 = 0) = (\<not> bit f 2)"
  for f :: u8
  using flag_test [of f] by blast+

lemma SetTableMeta_blk:
  assumes "blk a t 6"
  shows "\<exists>a'. SetTableMeta a t m = Some a' \<and>
    a_words a' = (a_words a)[idx t + 4 := m,
      idx t := SetFlags (a_words a ! idx t) (if m = 0 then FlagsOf (a_words a ! idx t) AND NOT 1
                                             else FlagsOf (a_words a ! idx t) OR 1),
      idx t + 5 := ucast (ucast (a_words a ! (idx t + 5)) :: u32) OR
        push_bit 32 (ucast (ucast (drop_bit 32 (a_words a ! (idx t + 5))) + 1 :: u32))] \<and>
    (\<exists>ws. a' = a\<lparr>a_words := ws\<rparr>)"
  using assms
  by (auto simp: SetTableMeta_def BumpGen_def table_idx_defs flag_defs Let_def wordAt_blk setWordAt_blk
    Header_blk)

lemma meta_flags:
  "bit (FlagsOf (SetFlags h (FlagsOf h AND NOT 1))) n \<longleftrightarrow> n \<noteq> 0 \<and> bit (FlagsOf h) n"
  "bit (FlagsOf (SetFlags h (FlagsOf h OR 1))) n \<longleftrightarrow> n = 0 \<or> bit (FlagsOf h) n"
  by (auto simp: bit_simps bit_flag bit_fields)

text \<open>Setting a metatable stores it, sets the fast flag exactly when it is not null, bumps the
  inline-cache generation by one and leaves the rest of the table head alone.\<close>

lemma SetTableMeta_spec:
  assumes "blk a t 6"
  shows "\<exists>a'. SetTableMeta a t m = Some a' \<and> TableMetaRef a' t = Some m \<and>
    TableHasMeta a' t = Some (m \<noteq> 0) \<and> TableGen a' t = map_option (\<lambda>g. g + 1) (TableGen a t) \<and>
    TableWeakMode a' t = TableWeakMode a t \<and> TableLastFree a' t = TableLastFree a t \<and>
    TableASize a' t = TableASize a t \<and> TableHSize a' t = TableHSize a t \<and>
    TableArrayRef a' t = TableArrayRef a t \<and> TableNodeRef a' t = TableNodeRef a t \<and>
    (\<forall>i. i < length (a_words a) \<longrightarrow> i \<notin> {idx t, idx t + 4, idx t + 5} \<longrightarrow> a_words a' ! i = a_words a ! i)"
proof -
  from SetTableMeta_blk [OF assms, of m] obtain a' ws where a': "SetTableMeta a t m = Some a'"
    "a' = a\<lparr>a_words := ws\<rparr>" "ws = (a_words a)[idx t + 4 := m,
      idx t := SetFlags (a_words a ! idx t) (if m = 0 then FlagsOf (a_words a ! idx t) AND NOT 1
                                             else FlagsOf (a_words a ! idx t) OR 1),
      idx t + 5 := ucast (ucast (a_words a ! (idx t + 5)) :: u32) OR
        push_bit 32 (ucast (ucast (drop_bit 32 (a_words a ! (idx t + 5))) + 1 :: u32))]"
    by auto
  have b': "blk a' t 6" using assms by (simp add: a'(2,3))
  have len: "idx t + 5 < length (a_words a)" using assms by (simp add: blk_def)
  have ws: "ws ! idx t = SetFlags (a_words a ! idx t) (if m = 0 then FlagsOf (a_words a ! idx t) AND NOT 1
      else FlagsOf (a_words a ! idx t) OR 1)"
    "ws ! (idx t + 4) = m" "ws ! (idx t + 1) = a_words a ! (idx t + 1)" "ws ! (idx t + 2) = a_words a ! (idx t + 2)"
    "ws ! (idx t + 3) = a_words a ! (idx t + 3)"
    "ws ! (idx t + 5) = ucast (ucast (a_words a ! (idx t + 5)) :: u32) OR
        push_bit 32 (ucast (ucast (drop_bit 32 (a_words a ! (idx t + 5))) + 1 :: u32))"
    using len by (simp_all add: a'(3))
  have wsf: "ws ! i = a_words a ! i" if "i \<notin> {idx t, idx t + 4, idx t + 5}" for i
    using that by (simp add: a'(3))
  have rd: "wordAt a' t i = Some (ws ! (idx t + unat i))" "wordAt a t i = Some (a_words a ! (idx t + unat i))"
    if "unat i < 6" for i using wordAt_blk [OF b' that] wordAt_blk [OF assms that] by (simp_all add: a'(2))
  have n2: "((2 :: nat) = 0) = False" by simp
  have r5: "wordAt a' t 5 = Some (ws ! (idx t + 5))" "wordAt a t 5 = Some (a_words a ! (idx t + 5))"
    using rd [of 5] by simp_all
  have hd: "HeaderOf a' t = Some (ws ! idx t)" "HeaderOf a t = Some (a_words a ! idx t)"
    using Header_blk(1) [OF b'] Header_blk(1) [OF assms] by (simp_all add: a'(2))
  have "TableMetaRef a' t = Some m" using rd(1) [of tableMetaIdx] ws by (simp add: TableMetaRef_def table_idx_defs)
  moreover have "TableHasMeta a' t = Some (m \<noteq> 0)"
    unfolding TableHasMeta_def hd ws flag_defs flag1 flag_test bind.bind_lunit
    by (cases "m = 0") (simp_all only: if_True if_False meta_flags simp_thms not_True_eq_False zero_neq_one n2 one_neq_zero)
  moreover have "TableGen a' t = map_option (\<lambda>g. g + 1) (TableGen a t)"
    unfolding TableGen_def table_idx_defs r5 ws(6) bind.bind_lunit pack32 option.map ..
  moreover have "TableWeakMode a' t = TableWeakMode a t"
    unfolding TableWeakMode_def hd ws flag_defs flag1 flag_test bind.bind_lunit Let_def
    by (cases "m = 0") (simp_all only: if_True if_False meta_flags simp_thms not_True_eq_False zero_neq_one n2 one_neq_zero)
  moreover have "TableLastFree a' t = TableLastFree a t"
    unfolding TableLastFree_def table_idx_defs r5 ws(6) bind.bind_lunit pack32 ..
  moreover have "TableASize a' t = TableASize a t" "TableHSize a' t = TableHSize a t"
    "TableArrayRef a' t = TableArrayRef a t" "TableNodeRef a' t = TableNodeRef a t"
    using rd [of 1] rd [of 2] rd [of 3] ws
    by (simp_all add: TableASize_def TableHSize_def TableArrayRef_def TableNodeRef_def table_idx_defs Let_def)
  ultimately show ?thesis
    using a'(1,2) wsf by (intro exI [of _ a'] conjI) simp_all
qed

lemma arena_inv_length: "arena_inv a L \<Longrightarrow> length (a_words a) \<le> 2 ^ 28"
proof -
  assume "arena_inv a L"
  then have "geometry a" unfolding arena_inv_def inv_def base_ok_def by blast
  then show ?thesis by (simp add: geometry_def)
qed

lemma arena_inv_blk: "arena_inv a L \<Longrightarrow> (idx r, n) \<in> L \<Longrightarrow> aligned r \<Longrightarrow> blk a r n"
  using arena_inv_bounds [of a L "idx r" n] arena_inv_length [of a L] by (simp add: blk_def)

section \<open>Closures and upvalues\<close>

text \<open>Caching a promoted-code slot in a closure: below the 16-bit limit the slot reads back, at or
  above it nothing is written, and in both cases the prototype, the upvalue count and every
  other word of the arena stay as they were.\<close>

lemma SetClosureGibbousSlot_spec:
  assumes "blk a c 2"
  shows "\<exists>a'. SetClosureGibbousSlot a c slot = Some a' \<and>
    ClosureGibbousSlot a' c = (if slot < 0xffff then Some (slot, True) else ClosureGibbousSlot a c) \<and>
    ClosureProtoID a' c = ClosureProtoID a c \<and> ClosureNUpvals a' c = ClosureNUpvals a c \<and>
    (\<forall>i. i \<noteq> idx c + 1 \<longrightarrow> a_words a' ! i = a_words a ! i)"
proof (cases "0xffff \<le> slot")
  case True
  then have "\<not> slot < 0xffff" by (simp only: not_less)
  then show ?thesis using True by (simp add: SetClosureGibbousSlot_def)
next
  case False
  let ?w = "a_words a ! (idx c + 1)"
  let ?v = "(?w AND NOT closureSlotMask) OR push_bit closureSlotShift (ucast (slot + 1))"
  let ?a = "a\<lparr>a_words := (a_words a)[idx c + 1 := ?v]\<rparr>"
  have len: "idx c + 1 < length (a_words a)" using assms by (simp add: blk_def)
  have b': "blk ?a c 2" using assms by simp
  have rd: "wordAt a c 1 = Some ?w" "wordAt ?a c 1 = Some ?v"
    using wordAt_blk [OF assms, of 1] wordAt_blk [OF b', of 1] len by simp_all
  have run: "SetClosureGibbousSlot a c slot = Some ?a"
    using False setWordAt_blk [OF assms, of 1] rd(1)
    by (simp add: SetClosureGibbousSlot_def closureMetaIdx_def)
  have s: "slot < 0xffff" using False by simp
  then have s1: "unat (slot + 1) < 2 ^ 16" "slot + 1 \<noteq> 0"
    by (auto simp: word_less_nat_alt unat_word_ariths dest: arg_cong [where f = unat])
  have enc: "ucast (drop_bit closureSlotShift ?v) = (slot + 1 :: u32)"
    unfolding closureSlotShift_def closureSlotMask_def mask_lits
    by (rule bit_word_eqI) (use small_bits [OF s1(1)] in \<open>auto simp: bit_simps\<close>)
  have "ClosureGibbousSlot ?a c = Some (slot, True)"
    unfolding ClosureGibbousSlot_def closureMetaIdx_def rd bind.bind_lunit Let_def enc using s1(2) by simp
  moreover have "(ucast ?v :: u32) = ucast ?w"
    unfolding closureSlotShift_def closureSlotMask_def mask_lits
    by (rule bit_word_eqI) (auto simp: bit_simps)
  then have "ClosureProtoID ?a c = ClosureProtoID a c"
    unfolding ClosureProtoID_def closureMetaIdx_def rd bind.bind_lunit by simp
  moreover have "(ucast (drop_bit 32 ?v) :: u16) = ucast (drop_bit 32 ?w)"
    unfolding closureSlotShift_def closureSlotMask_def mask_lits
    by (rule bit_word_eqI) (auto simp: bit_simps)
  then have "ClosureNUpvals ?a c = ClosureNUpvals a c"
    unfolding ClosureNUpvals_def closureMetaIdx_def rd bind.bind_lunit by simp
  ultimately show ?thesis using run s by (intro exI [of _ ?a]) simp
qed


section \<open>Constructors\<close>

text \<open>
  \<open>made a L a' r b\<close>: from \<open>a\<close> with live blocks \<open>L\<close>, \<open>a'\<close> has one more live block, of the size that
  serves a request of \<open>b\<close> bytes, and all other live blocks are untouched.
\<close>

definition made :: "arena \<Rightarrow> (nat \<times> nat) set \<Rightarrow> arena \<Rightarrow> gcref \<Rightarrow> u32 \<Rightarrow> bool" where
  "made a L a' r b \<longleftrightarrow> aligned r \<and> (idx r, block_words b) \<notin> L \<and>
     arena_inv a' (insert (idx r, block_words b) L) \<and> keeps a a' L"

lemma made_blk: "made a L a' r b \<Longrightarrow> blk a' r (block_words b)"
  unfolding made_def using arena_inv_blk by blast

lemma made_range:
  assumes "made a L a' r b" "length ws = length (a_words a')"
    and "\<And>j. j < length ws \<Longrightarrow> \<not> (idx r \<le> j \<and> j < idx r + block_words b) \<Longrightarrow> ws ! j = a_words a' ! j"
  shows "made a L (a'\<lparr>a_words := ws\<rparr>) r b"
  using assms arena_write [of a' "idx r" "block_words b" L ws] keeps_trans
  unfolding made_def by blast

lemma made_write:
  assumes "made a L a' r b" "k < block_words b"
  shows "made a L (a'\<lparr>a_words := (a_words a')[idx r + k := v]\<rparr>) r b"
  using assms(1) by (rule made_range) (use assms(2) in \<open>auto simp: nth_list_update\<close>)

lemma need_words_div: "unat b mod 8 = 0 \<Longrightarrow> unat b + 7 < 2 ^ 32 \<Longrightarrow> unat b div 8 \<le> block_words b"
  using need_words_unat [of b] block_words_class(3) [of b] block_words_large [of b]
  by (cases "need_words b \<le> largeThresholdWords") auto

lemma AllocWords_made:
  assumes "arena_inv a L" "AllocWords a w = Some (r, a')"
  shows "made a L a' r (w * 8)" "unat w \<le> block_words (w * 8)" "unat (w * 8) = unat w * 8"
    "\<forall>k<block_words (w * 8). a_words a' ! (idx r + k) = 0" "a_maxCap a' = a_maxCap a"
    "unat w * 8 \<le> 2 ^ 31"
proof -
  have "geometry a" using assms(1) unfolding arena_inv_def inv_def base_ok_def by blast
  then have m: "unat (a_maxCap a) \<le> 2 ^ 31" by (simp add: geometry_def)
  note b = AllocWords_bytes [OF assms(2) m]
  have f: "unat (w * 8) \<le> unat (a_maxCap a)" "fresh_block a L a' r (block_words (w * 8))"
    using AllocBytes_cases [OF assms(1), of "w * 8"] b(1) by simp_all
  show "made a L a' r (w * 8)" "\<forall>k<block_words (w * 8). a_words a' ! (idx r + k) = 0"
    "a_maxCap a' = a_maxCap a"
    using f(2) by (simp_all add: made_def fresh_block_def)
  show "unat (w * 8) = unat w * 8" by (rule b(2))
  show "unat w * 8 \<le> 2 ^ 31" using f(1) m b(2) by simp
  then show "unat w \<le> block_words (w * 8)" using need_words_div [of "w * 8"] b(2) by simp
qed

lemma allocateRaw_made:
  assumes "arena_inv a L" "allocateRaw a ot w fl = Some (r, a')" "1 \<le> unat w"
  shows "made a L a' r (w * 8)" "unat w \<le> block_words (w * 8)"
    "a_words a' ! idx r = MakeHeader ot ColorWhite0 False fl 0"
    "\<forall>k<block_words (w * 8). 0 < k \<longrightarrow> a_words a' ! (idx r + k) = 0" "unat w * 8 \<le> 2 ^ 31"
proof -
  obtain a1 where a1: "AllocWords a w = Some (r, a1)"
    "SetHeader a1 r (MakeHeader ot ColorWhite0 False fl 0) = Some a'"
    using assms(2) by (auto simp: allocateRaw_def bind_Some_iff)
  note m = AllocWords_made [OF assms(1) a1(1)]
  have b: "blk a1 r (block_words (w * 8))" by (rule made_blk [OF m(1)])
  have p: "0 < block_words (w * 8)" using m(2) assms(3) by linarith
  have a': "a' = a1\<lparr>a_words := (a_words a1)[idx r + 0 := MakeHeader ot ColorWhite0 False fl 0]\<rparr>"
    using Header_blk(2) [OF b p] a1(2) by simp
  show "made a L a' r (w * 8)" unfolding a' by (rule made_write [OF m(1) p])
  have "idx r < length (a_words a1)" using b p by (simp add: blk_def)
  then show "a_words a' ! idx r = MakeHeader ot ColorWhite0 False fl 0" by (simp add: a')
  show "\<forall>k<block_words (w * 8). 0 < k \<longrightarrow> a_words a' ! (idx r + k) = 0" using m(4) by (simp add: a')
  show "unat w \<le> block_words (w * 8)" "unat w * 8 \<le> 2 ^ 31" by (rule m)+
qed

section \<open>Bytes\<close>

lemma length_setByte [simp]: "length (setByte ws k b) = length ws"
  by (simp add: setByte_def)

lemma byteAt_setByte:
  assumes "k < length ws * 8"
  shows "byteAt (setByte ws k b) j = (if j = k then b else byteAt ws j)"
proof (cases "j div 8 = k div 8")
  case False
  then show ?thesis by (auto simp: byteAt_def setByte_def)
next
  case True
  have l: "k div 8 < length ws" using assms by (simp add: div_less_iff_less_mult)
  let ?w = "ws ! (k div 8)" and ?p = "8 * (k mod 8)" and ?q = "8 * (j mod 8)"
  have q: "?q \<le> 56" "?p \<le> 56" by simp_all
  have new: "byteAt (setByte ws k b) j =
      ucast (drop_bit ?q ((?w AND NOT (push_bit ?p (mask 8))) OR push_bit ?p (ucast b)))"
    using l True by (simp add: byteAt_def setByte_def mask_lits)
  show ?thesis
  proof (cases "j = k")
    case eq: True
    show ?thesis
      unfolding new unfolding eq by (rule bit_word_eqI) (use q in \<open>auto simp: bit_simps\<close>)
  next
    case False
    then have "j mod 8 \<noteq> k mod 8" using True by (metis div_mult_mod_eq)
    then have "?q + 8 \<le> ?p \<or> ?p + 8 \<le> ?q" by linarith
    then have "(ucast (drop_bit ?q ((?w AND NOT (push_bit ?p (mask 8))) OR push_bit ?p (ucast b))) :: u8) =
        ucast (drop_bit ?q ?w)"
      by (intro bit_word_eqI) (use q in \<open>auto simp: bit_simps dest: bit_imp_le_length\<close>)
    then show ?thesis using False new True by (simp add: byteAt_def)
  qed
qed

lemma copyBytes_spec:
  assumes "off + length bs \<le> length ws * 8"
  shows "length (copyBytes ws off bs) = length ws"
    and "byteAt (copyBytes ws off bs) j = (if off \<le> j \<and> j < off + length bs then bs ! (j - off) else byteAt ws j)"
    and "\<And>i. i < off div 8 \<or> off + length bs \<le> i * 8 \<Longrightarrow> copyBytes ws off bs ! i = ws ! i"
  using assms
proof (induction bs arbitrary: ws off)
  case Nil
  { case 1 then show ?case by simp }
  { case 2 then show ?case by auto }
  { case 3 then show ?case by simp }
next
  case (Cons b bs)
  { case 1 then show ?case using Cons.IH(1) [of "Suc off" "setByte ws off b"] by simp }
  { case 2
    then have "off < length ws * 8" "Suc off + length bs \<le> length (setByte ws off b) * 8" by simp_all
    then show ?case using Cons.IH(2) [of "Suc off" "setByte ws off b"]
      by (auto simp: byteAt_setByte nth_Cons' Suc_diff_le) }
  { case (3 i)
    then have l: "off < length ws * 8" "Suc off + length bs \<le> length (setByte ws off b) * 8" by simp_all
    have "i \<noteq> off div 8" using 3(1) by auto
    moreover have "i < Suc off div 8 \<or> Suc off + length bs \<le> i * 8"
      using 3(1) by (auto simp: less_Suc_eq_le intro: order_less_le_trans div_le_mono)
    ultimately show ?case using Cons.IH(3) [OF _ l(2), of i] l(1) by (simp add: setByte_def) }
qed

section \<open>Strings\<close>

lemma stringWords_unat:
  "n \<le> 2 ^ 31 \<Longrightarrow> unat (stringWords (word_of_nat n)) = 2 + (n + 8) div 8"
proof -
  assume n: "n \<le> 2 ^ 31"
  have e: "word_of_nat n + 1 + 7 = (word_of_nat (n + 8) :: u32)" by simp
  have "unat (word_of_nat (n + 8) :: u32) = n + 8" using n by (intro unat_word_of_nat_lt) simp
  then have "unat (word_of_nat n + 1 + 7 :: u32) = n + 8" by (simp only: e)
  then have "unat ((word_of_nat n + 1 + 7 :: u32) div 8) = (n + 8) div 8" by (simp add: unat_div)
  moreover have "(n + 8) div 8 \<le> 2 ^ 28 + 1" using n by simp
  ultimately show ?thesis by (simp add: stringWords_def Let_def unat_word_ariths)
qed

lemma fit_words: "b < 8 * q \<Longrightarrow> i + 2 + q \<le> n \<Longrightarrow> 8 * (i + 2) + b < n * 8" for b :: nat
  by presburger

lemma outside_words:
  "b < 8 * q \<Longrightarrow> 2 + q \<le> n \<Longrightarrow> \<not> (i \<le> j \<and> j < i + n) \<Longrightarrow> j < i + 2 \<or> 8 * (i + 2) + b \<le> j * 8"
  for b :: nat
  by presburger

lemma slot1_ne: "i + 1 \<noteq> i + (d + 2)" for i :: nat
  by simp

lemma word_of_byte: "(8 * (i + 2) + b) div 8 = i + (b div 8 + 2)" for b :: nat
  by presburger

lemma slot_pos: "0 < d + (2 :: nat)" by simp

lemma content_words: "b < 8 * ((b + 8) div 8)" for b :: nat
  by presburger

lemma AllocString_run:
  assumes inv: "arena_inv a L" and run: "AllocString a b h = Some (r, a')"
  obtains a1 ws where "made a L a1 r (stringWords (word_of_nat (length b)) * 8)"
    "length b \<le> 2 ^ 31" "a' = a1\<lparr>a_words := ws\<rparr>" "length ws = length (a_words a1)"
    "made a L a' r (stringWords (word_of_nat (length b)) * 8)"
    "ws ! idx r = MakeHeader OBJ_STRING ColorWhite0 False 0 0"
    "ws ! (idx r + 1) = ucast h OR push_bit 32 (ucast (word_of_nat (length b) :: u32))"
    "2 + (length b + 8) div 8 \<le> block_words (stringWords (word_of_nat (length b)) * 8)"
    "\<And>j. j < length b \<Longrightarrow> byteAt ws (8 * (idx r + 2) + j) = b ! j"
    "byteAt ws (8 * (idx r + 2) + length b) = 0"
proof -
  let ?w = "stringWords (word_of_nat (length b))"
  let ?hl = "ucast h OR push_bit 32 (ucast (word_of_nat (length b) :: u32)) :: u64"
  have lb: "length b \<le> unat maxStrBytes" using run by (auto simp: AllocString_def split: if_splits)
  then have lb31: "length b \<le> 2 ^ 31" by (simp add: maxStrBytes_def MaxBytes_def)
  note sw = stringWords_unat [OF lb31]
  obtain a1 where a1: "allocateRaw a OBJ_STRING ?w 0 = Some (r, a1)"
    using run by (auto simp: AllocString_def Let_def bind_Some_iff split: if_splits)
  have w1: "1 \<le> unat ?w" using sw by simp
  note m = allocateRaw_made [OF inv a1 w1]
  have bw: "2 + (length b + 8) div 8 \<le> block_words (?w * 8)" using m(2) sw by simp
  have bk: "blk a1 r (block_words (?w * 8))" by (rule made_blk [OF m(1)])
  define a2 where "a2 = a1\<lparr>a_words := (a_words a1)[idx r + 1 := ?hl]\<rparr>"
  have s2: "setWordAt a1 r strHashLenIdx ?hl = Some a2"
    using setWordAt_blk [OF bk, of strHashLenIdx] bw by (simp add: a2_def strHashLenIdx_def)
  have m2: "made a L a2 r (?w * 8)"
    unfolding a2_def by (rule made_write [OF m(1)]) (use bw in simp)
  have al: "aligned r" and len: "idx r + block_words (?w * 8) \<le> length (a_words a1)" "length (a_words a1) \<le> 2 ^ 28"
    using bk by (simp_all add: blk_def)
  have "unat (ucast r :: u32) = unat r"
    using aligned_eq [OF al] len bw by (simp add: unat_ucast_down)
  then have off: "unat (ucast r + strDataIdx * 8 :: u32) = 8 * (idx r + 2)"
    using aligned_eq [OF al] len bw by (simp add: strDataIdx_def unat_word_ariths)
  have l2: "length (a_words a2) = length (a_words a1)" by (simp add: a2_def)
  have fit: "8 * (idx r + 2) + length b < length (a_words a2) * 8"
  proof -
    have "length b < 8 * ((length b + 8) div 8)" by linarith
    moreover have "idx r + 2 + (length b + 8) div 8 \<le> length (a_words a2)" using bw len(1) l2 by linarith
    ultimately show ?thesis by (rule fit_words)
  qed
  define ws where "ws = copyBytes (a_words a2) (8 * (idx r + 2)) b"
  have cp: "length ws = length (a_words a2)"
    "\<And>j. byteAt ws j = (if 8 * (idx r + 2) \<le> j \<and> j < 8 * (idx r + 2) + length b
        then b ! (j - 8 * (idx r + 2)) else byteAt (a_words a2) j)"
    "\<And>i. i < idx r + 2 \<or> 8 * (idx r + 2) + length b \<le> i * 8 \<Longrightarrow> ws ! i = a_words a2 ! i"
    using copyBytes_spec [of "8 * (idx r + 2)" b "a_words a2"] fit unfolding ws_def by simp_all
  have eq: "a' = a2\<lparr>a_words := ws\<rparr>"
  proof (cases "b = []")
    case True
    have "a' = a2" using run a1 s2 True lb by (auto simp: AllocString_def)
    moreover have "ws = a_words a2" by (simp add: ws_def True)
    ultimately show ?thesis by simp
  next
    case False
    then show ?thesis
      using run a1 s2 lb off fit by (auto simp: AllocString_def Let_def ws_def)
  qed
  have m': "made a L a' r (?w * 8)"
    unfolding eq
  proof (rule made_range [OF m2 cp(1)])
    fix j assume "j < length ws" "\<not> (idx r \<le> j \<and> j < idx r + block_words (?w * 8))"
    then have "j < idx r + 2 \<or> 8 * (idx r + 2) + length b \<le> j * 8"
      using outside_words [OF content_words bw] by blast
    then show "ws ! j = a_words a2 ! j" by (rule cp(3))
  qed
  have hd: "ws ! idx r = MakeHeader OBJ_STRING ColorWhite0 False 0 0" "ws ! (idx r + 1) = ?hl"
    using cp(3) [of "idx r"] cp(3) [of "idx r + 1"] m(3) len bw by (simp_all add: a2_def)
  have z: "byteAt ws (8 * (idx r + 2) + length b) = 0"
  proof -
    have "length b div 8 + 2 < block_words (?w * 8)" using bw by linarith
    then have z1: "a_words a1 ! (idx r + (length b div 8 + 2)) = 0"
      by (rule m(4) [rule_format]) (rule slot_pos)
    have "a_words a2 = (a_words a1)[idx r + 1 := ?hl]" by (simp add: a2_def)
    then have "a_words a2 ! (idx r + (length b div 8 + 2)) = 0"
      by (rule ssubst) (rule trans [OF nth_list_update_neq [OF slot1_ne] z1])
    then have "a_words a2 ! ((8 * (idx r + 2) + length b) div 8) = 0"
      by (simp only: word_of_byte)
    then have "byteAt (a_words a2) (8 * (idx r + 2) + length b) = 0"
      unfolding byteAt_def by (simp only: drop_bit_of_0 unsigned_0)
    then show ?thesis
      unfolding cp(2) by (simp only: less_irrefl simp_thms if_False)
  qed
  show thesis
    by (rule that [of a1 ws]) (use m(1) lb31 eq cp l2 m' hd bw z in \<open>simp_all add: a2_def\<close>)
qed

text \<open>A string object reads back what it was built from: the bytes, the length and the hash; it is
  NUL-terminated; \<open>SizeOf\<close> reports a size for which \<open>Free\<close> returns exactly its block.\<close>

theorem AllocString_roundtrip:
  assumes "arena_inv a L" "AllocString a b h = Some (r, a')"
  shows "StringBytes a' r = Some b \<and> StringLen a' r = Some (word_of_nat (length b)) \<and>
    unat (word_of_nat (length b) :: u32) = length b \<and> StringHash a' r = Some h \<and>
    byteAt (a_words a') (unat r + 16 + length b) = 0 \<and>
    map_option OTypeOf (HeaderOf a' r) = Some OBJ_STRING \<and>
    (\<exists>n. SizeOf a' r OBJ_STRING = Some n \<and> arena_inv a' (insert (idx r, block_words n) L))"
proof -
  from AllocString_run [OF assms] obtain a1 ws where s:
    "length b \<le> 2 ^ 31" "a' = a1\<lparr>a_words := ws\<rparr>"
    "made a L a' r (stringWords (word_of_nat (length b)) * 8)"
    "ws ! idx r = MakeHeader OBJ_STRING ColorWhite0 False 0 0"
    "ws ! (idx r + 1) = ucast h OR push_bit 32 (ucast (word_of_nat (length b) :: u32))"
    "2 + (length b + 8) div 8 \<le> block_words (stringWords (word_of_nat (length b)) * 8)"
    "\<And>j. j < length b \<Longrightarrow> byteAt ws (8 * (idx r + 2) + j) = b ! j"
    "byteAt ws (8 * (idx r + 2) + length b) = 0" by metis
  have bk: "blk a' r (block_words (stringWords (word_of_nat (length b)) * 8))" by (rule made_blk [OF s(3)])
  have ul: "unat (word_of_nat (length b) :: u32) = length b"
    using s(1) by (intro unat_word_of_nat_lt) simp
  have rd: "wordAt a' r 1 = Some (ucast h OR push_bit 32 (ucast (word_of_nat (length b) :: u32)))"
    using wordAt_blk [OF bk, of 1] s(2,5,6) by simp
  have hs: "StringHash a' r = Some h" "StringLen a' r = Some (word_of_nat (length b))"
    unfolding StringHash_def StringLen_def strHashLenIdx_def rd bind.bind_lunit pack32 by simp_all
  have al: "aligned r" and len: "idx r + 2 + (length b + 8) div 8 \<le> length ws" "length ws \<le> 2 ^ 28"
    using bk s(2,6) by (simp_all add: blk_def)
  have "unat (ucast r :: u32) = unat r" using aligned_eq [OF al] len by (simp add: unat_ucast_down)
  then have off: "unat (ucast r + strDataIdx * 8 :: u32) = 8 * (idx r + 2)"
    using aligned_eq [OF al] len by (simp add: strDataIdx_def unat_word_ariths)
  have "length b < 8 * ((length b + 8) div 8)" by linarith
  then have fit: "8 * (idx r + 2) + length b \<le> length ws * 8" using fit_words len(1) less_imp_le by blast
  then have "unat (ucast r + strDataIdx * 8 + word_of_nat (length b) :: u32) = 8 * (idx r + 2) + length b"
    using off ul len by (simp add: unat_word_ariths)
  then have "StringBytes a' r = Some b"
    using hs(2) off fit s(2,7) ul
    by (auto simp: StringBytes_def Let_def bytesSlice_def word_unat_eq_iff intro!: nth_equalityI)
  moreover have "byteAt (a_words a') (unat r + 16 + length b) = 0"
    using s(2,8) aligned_eq [OF al] by (simp add: algebra_simps)
  moreover have "map_option OTypeOf (HeaderOf a' r) = Some OBJ_STRING"
    using Header_blk(1) [OF bk] s(2,4,6) by (simp add: OTypeOf_MakeHeader)
  moreover have "SizeOf a' r OBJ_STRING = Some (stringWords (word_of_nat (length b)) * 8)"
    using hs(2) by (simp add: SizeOf_def StringObjectBytes_def)
  moreover have "arena_inv a' (insert (idx r, block_words (stringWords (word_of_nat (length b)) * 8)) L)"
    using s(3) by (simp add: made_def)
  ultimately show ?thesis using hs ul by blast
qed

end
