(* ===== verification/ObjectAlloc.thy ===== *)
theory ObjectAlloc
  imports ObjectSpec
begin

text \<open>
  The remaining constructors of \<open>internal/object\<close>: string comparison, closures, upvalues,
  userdata, threads and tables, each returning a live block of the size \<open>SizeOf\<close> reports.
\<close>

section \<open>String comparison\<close>

lemma StringBytes_len:
  assumes "StringBytes a x = Some b"
  shows "\<exists>n. StringLen a x = Some n \<and> unat n = length b"
proof -
  obtain n where n: "StringLen a x = Some n" using assms by (auto simp: StringBytes_def bind_Some_iff)
  let ?o = "ucast x + strDataIdx * 8 :: u32"
  show ?thesis
  proof (cases "n = 0")
    case True
    then show ?thesis using assms n by (auto simp: StringBytes_def)
  next
    case False
    then have sl: "bytesSlice a ?o (?o + n) = Some b" using assms n by (simp add: StringBytes_def Let_def)
    then have le: "?o \<le> ?o + n" by (auto simp: bytesSlice_def word_le_nat_alt split: if_splits)
    have "unat (?o + n - ?o) = unat (?o + n) - unat ?o" using le by (rule unat_sub)
    moreover have "length b = unat (?o + n) - unat ?o" using sl by (auto simp: bytesSlice_def split: if_splits)
    ultimately show ?thesis using n by simp
  qed
qed

text \<open>String equality compares contents: on any two readable strings it answers whether their bytes
  are the same, whatever their hashes.\<close>

lemma StringEqual_bytes:
  assumes "StringBytes a x = Some b" "StringBytes a y = Some c"
  shows "StringEqual a x y = Some (b = c)"
proof (cases "x = y")
  case True
  then show ?thesis using assms by (simp add: StringEqual_def)
next
  case False
  obtain n m where l: "StringLen a x = Some n" "unat n = length b" "StringLen a y = Some m" "unat m = length c"
    using StringBytes_len [OF assms(1)] StringBytes_len [OF assms(2)] by blast
  show ?thesis
  proof (cases "n = m")
    case True
    then have "length b = length c" using l by simp
    then have "(\<forall>i\<in>set [0..<length b]. b ! i = c ! i) = (b = c)" by (auto intro: nth_equalityI)
    then show ?thesis using False True l(1,3) assms by (simp add: StringEqual_def)
  next
    case ne: False
    then have "b \<noteq> c" using l by (auto simp: word_unat_eq_iff)
    then show ?thesis using False ne l by (simp add: StringEqual_def)
  qed
qed

section \<open>Runs of slots\<close>

lemma setSlots_blk:
  assumes "blk a r n" "unat base + m \<le> n" "unat base + m < 2 ^ 32"
  shows "\<exists>ws. setSlots a r base m v = Some (a\<lparr>a_words := ws\<rparr>) \<and> length ws = length (a_words a) \<and>
    (\<forall>j. ws ! j = (if idx r + unat base \<le> j \<and> j < idx r + unat base + m then v else a_words a ! j))"
  using assms(2,3)
proof (induction m)
  case 0
  show ?case by (intro exI [of _ "a_words a"]) auto
next
  case (Suc m)
  then obtain ws where ws: "setSlots a r base m v = Some (a\<lparr>a_words := ws\<rparr>)" "length ws = length (a_words a)"
    "\<forall>j. ws ! j = (if idx r + unat base \<le> j \<and> j < idx r + unat base + m then v else a_words a ! j)" by auto
  have u: "unat (base + word_of_nat m) = unat base + m"
    using Suc.prems(2) by (simp add: unat_word_ariths unat_word_of_nat_lt)
  have b: "blk (a\<lparr>a_words := ws\<rparr>) r n" using assms(1) ws(2) by simp
  have "setWordAt (a\<lparr>a_words := ws\<rparr>) r (base + word_of_nat m) v =
      Some (a\<lparr>a_words := ws[idx r + (unat base + m) := v]\<rparr>)"
    using setWordAt_blk [OF b, of "base + word_of_nat m" v] u Suc.prems(1) by simp
  moreover have "idx r + (unat base + m) < length ws" using b Suc.prems(1) by (simp add: blk_def)
  ultimately show ?case
    using ws by (intro exI [of _ "ws[idx r + (unat base + m) := v]"]) (auto simp: nth_list_update)
qed

lemma made_setSlots:
  assumes "made a L a1 r b" "unat base + m \<le> block_words b" "unat base + m < 2 ^ 32"
  obtains ws where "setSlots a1 r base m v = Some (a1\<lparr>a_words := ws\<rparr>)" "made a L (a1\<lparr>a_words := ws\<rparr>) r b"
    "length ws = length (a_words a1)"
    "\<And>j. ws ! j = (if idx r + unat base \<le> j \<and> j < idx r + unat base + m then v else a_words a1 ! j)"
proof -
  from setSlots_blk [OF made_blk [OF assms(1)] assms(2,3), of v] obtain ws where ws:
    "setSlots a1 r base m v = Some (a1\<lparr>a_words := ws\<rparr>)" "length ws = length (a_words a1)"
    "\<forall>j. ws ! j = (if idx r + unat base \<le> j \<and> j < idx r + unat base + m then v else a_words a1 ! j)"
    by blast
  have "made a L (a1\<lparr>a_words := ws\<rparr>) r b"
    using assms(1) ws(2) by (rule made_range) (use ws(3) assms(2) in auto)
  then show thesis using that ws by blast
qed

lemma made_setWordAt:
  assumes "made a L a1 r b" "unat i < block_words b"
  obtains a2 where "setWordAt a1 r i v = Some a2" "made a L a2 r b"
    "a2 = a1\<lparr>a_words := (a_words a1)[idx r + unat i := v]\<rparr>"
  using setWordAt_blk [OF made_blk [OF assms(1)] assms(2)] made_write [OF assms] by blast

section \<open>Closures\<close>

lemma closure_size: "unat (2 + ucast (n :: u16) :: u32) = 2 + unat n"
proof -
  have "unat n < 65536" using unsigned_less [of n] by simp
  then show ?thesis by (simp add: unat_word_ariths unsigned_ucast_eq take_bit_nat_eq_self)
qed

lemma pack32_16:
  "ucast (ucast (lo :: u32) OR push_bit 32 (ucast (n :: u16)) :: u64) = lo"
  "ucast (drop_bit 32 (ucast (lo :: u32) OR push_bit 32 (ucast (n :: u16)) :: u64)) = n"
proof -
  show "ucast (ucast (lo :: u32) OR push_bit 32 (ucast (n :: u16)) :: u64) = lo"
    by (rule bit_word_eqI) (auto simp: bit_simps)
  show "ucast (drop_bit 32 (ucast (lo :: u32) OR push_bit 32 (ucast (n :: u16)) :: u64)) = n"
    by (rule bit_word_eqI) (auto simp: bit_simps dest: bit_imp_le_length)
qed

lemma FlagsOf_MakeHeader: "unat f < 16 \<Longrightarrow> FlagsOf (MakeHeader ot c fixed f g) = f"
  by (rule bit_word_eqI) (use small_bits [of f 4] in \<open>auto simp: bit_fields bit_MakeHeader\<close>)

text \<open>A new object: its header has the type and the flags, is white, not fixed and not linked into the sweep list, and
  its block, of the size \<open>SizeOf\<close> reports, is a new live block beside those of \<open>L\<close>, whose words are kept.\<close>

definition new_object :: "arena \<Rightarrow> (nat \<times> nat) set \<Rightarrow> arena \<Rightarrow> gcref \<Rightarrow> objtype \<Rightarrow> u8 \<Rightarrow> bool" where
  "new_object a L a' r ot fl \<longleftrightarrow> (\<exists>h n. HeaderOf a' r = Some h \<and>
     OTypeOf h = ot \<and> ColorOf h = ColorWhite0 \<and> \<not> IsFixed h \<and> \<not> HasGCNext h \<and> GCNextOf h = 0 \<and> FlagsOf h = fl \<and>
     SizeOf a' r ot = Some n \<and> aligned r \<and> (idx r, block_words n) \<notin> L \<and>
     arena_inv a' (insert (idx r, block_words n) L) \<and> keeps a a' L)"

lemma new_objectI:
  assumes "HeaderOf a' r = Some (MakeHeader ot ColorWhite0 False fl 0)" "unat fl < 16" "SizeOf a' r ot = Some n" "made a L a' r n"
  shows "new_object a L a' r ot fl"
proof -
  let ?h = "MakeHeader ot ColorWhite0 False fl 0"
  have "ColorOf ?h = ColorWhite0" by (rule bit_word_eqI) (auto simp: bit_fields bit_MakeHeader ColorWhite0_def)
  moreover have "GCNextOf ?h = 0" by (rule bit_word_eqI) (use small_bits [of fl 4] assms(2) in \<open>auto simp: bit_fields bit_MakeHeader\<close>)
  moreover have "\<not> IsFixed ?h" "\<not> HasGCNext ?h" by (simp_all add: IsFixed_bit HasGCNext_bit bit_MakeHeader)
  ultimately show ?thesis
    using assms OTypeOf_MakeHeader FlagsOf_MakeHeader [OF assms(2)] by (auto simp: new_object_def made_def)
qed

lemma pack_no_slot: "ucast (drop_bit closureSlotShift (ucast (lo :: u32) OR push_bit 32 (ucast (n :: u16)) :: u64)) = (0 :: u32)"
  by (rule bit_word_eqI) (auto simp: bit_simps closureSlotShift_def dest: bit_imp_le_length)

text \<open>Both closure constructors run the same steps; only the host flag and the slot filling differ.\<close>

lemma closure_run:
  assumes inv: "arena_inv a L" and fl: "unat fl < 16"
    and run: "do { (ref, a) \<leftarrow> allocateRaw a OBJ_CLOSURE (2 + ucast n) fl;
        a \<leftarrow> setWordAt a ref closureMetaIdx (ucast pid OR push_bit 32 (ucast n));
        a \<leftarrow> setSlots a ref closureSlotIdx (unat n) v; Some (ref, a) } = Some (r, a')"
  shows "ClosureProtoID a' r = Some pid \<and> ClosureNUpvals a' r = Some n \<and>
    map_option FlagsOf (HeaderOf a' r) = Some fl \<and> (\<forall>i<n. wordAt a' r (closureSlotIdx + ucast i) = Some v) \<and>
    SizeOf a' r OBJ_CLOSURE = Some (ClosureBytes n) \<and> made a L a' r (ClosureBytes n) \<and>
    ClosureGibbousSlot a' r = Some (0, False) \<and> new_object a L a' r OBJ_CLOSURE fl"
proof -
  let ?w = "2 + ucast n :: u32" and ?m = "ucast pid OR push_bit 32 (ucast n) :: u64"
  obtain a1 where a1: "allocateRaw a OBJ_CLOSURE ?w fl = Some (r, a1)"
    using run by (auto simp: bind_Some_iff)
  note m = allocateRaw_made [OF inv a1, unfolded closure_size]
  have bw: "2 + unat n \<le> block_words (?w * 8)" using m(2) by simp
  from made_setWordAt [OF m(1), of closureMetaIdx ?m] bw obtain a2 where a2:
    "setWordAt a1 r closureMetaIdx ?m = Some a2" "made a L a2 r (?w * 8)"
    "a2 = a1\<lparr>a_words := (a_words a1)[idx r + 1 := ?m]\<rparr>" by (auto simp: closureMetaIdx_def)
  have n16: "unat n < 65536" using unsigned_less [of n] by simp
  obtain ws where ws: "setSlots a2 r closureSlotIdx (unat n) v = Some (a2\<lparr>a_words := ws\<rparr>)"
    "made a L (a2\<lparr>a_words := ws\<rparr>) r (?w * 8)" "length ws = length (a_words a2)"
    "\<And>j. ws ! j = (if idx r + 2 \<le> j \<and> j < idx r + 2 + unat n then v else a_words a2 ! j)"
    using made_setSlots [OF a2(2), of closureSlotIdx "unat n" v] bw n16 by (auto simp: closureSlotIdx_def)
  have a': "a' = a2\<lparr>a_words := ws\<rparr>" using run a1 a2(1) ws(1) by simp
  have m': "made a L a' r (?w * 8)" using ws(2) a' by simp
  have bk: "blk a' r (block_words (?w * 8))" by (rule made_blk [OF m'])
  have len: "idx r + 2 + unat n \<le> length (a_words a1)" using made_blk [OF m(1)] bw by (simp add: blk_def)
  have r1: "wordAt a' r 1 = Some ?m"
    using wordAt_blk [OF bk, of 1] bw ws(4) [of "idx r + 1"] len by (simp add: a' a2(3))
  have slots: "wordAt a' r (closureSlotIdx + ucast i) = Some v" if i: "i < n" for i
  proof -
    have u: "unat (closureSlotIdx + ucast i :: u32) = 2 + unat i"
      using closure_size [of i] by (simp add: closureSlotIdx_def)
    have "unat i < unat n" using i by (simp add: word_less_nat_alt)
    then show ?thesis
      using wordAt_blk [OF bk, of "closureSlotIdx + ucast i"] u bw ws(4) [of "idx r + (2 + unat i)"]
      by (simp add: a')
  qed
  have h: "HeaderOf a' r = Some (MakeHeader OBJ_CLOSURE ColorWhite0 False fl 0)"
    using Header_blk(1) [OF bk] bw ws(4) [of "idx r"] m(3) by (simp add: a' a2(3))
  have p: "ClosureProtoID a' r = Some pid" "ClosureNUpvals a' r = Some n"
    unfolding ClosureProtoID_def ClosureNUpvals_def closureMetaIdx_def r1 bind.bind_lunit pack32_16 by simp_all
  moreover have sz: "SizeOf a' r OBJ_CLOSURE = Some (ClosureBytes n)"
    using p by (simp add: SizeOf_def OBJ_STRING_def OBJ_TABLE_def OBJ_CLOSURE_def)
  moreover have "ClosureGibbousSlot a' r = Some (0, False)"
    unfolding ClosureGibbousSlot_def closureMetaIdx_def r1 bind.bind_lunit pack_no_slot Let_def by simp
  moreover have mb: "made a L a' r (ClosureBytes n)" using m' by (simp add: ClosureBytes_def)
  ultimately show ?thesis using slots h FlagsOf_MakeHeader [OF fl] new_objectI [OF h fl sz mb] by simp
qed

text \<open>C33. The closure constructors: a Lua closure is not a host closure and starts with null upvalue
  references, a host closure is one and starts with nil upvalues. Both are new white, unfixed and unlinked closure
  objects, read back their prototype and upvalue count, carry no slot of compiled code, and own exactly the block
  \<open>SizeOf\<close> reports.\<close>

theorem closure_constructors:
  assumes "arena_inv a L"
  shows "(\<forall>r a'. AllocLuaClosure a pid n = Some (r, a') \<longrightarrow>
      new_object a L a' r OBJ_CLOSURE 0 \<and> ClosureGibbousSlot a' r = Some (0, False) \<and>
      IsHostClosure a' r = Some False \<and> ClosureProtoID a' r = Some pid \<and> ClosureNUpvals a' r = Some n \<and>
      (\<forall>i<n. ClosureUpvalRef a' r i = Some 0) \<and> SizeOf a' r OBJ_CLOSURE = Some (ClosureBytes n) \<and>
      arena_inv a' (insert (idx r, block_words (ClosureBytes n)) L)) \<and>
    (\<forall>r a'. AllocHostClosure a pid n = Some (r, a') \<longrightarrow>
      new_object a L a' r OBJ_CLOSURE closureFlagHost \<and> ClosureGibbousSlot a' r = Some (0, False) \<and>
      IsHostClosure a' r = Some True \<and> ClosureProtoID a' r = Some pid \<and> ClosureNUpvals a' r = Some n \<and>
      (\<forall>i<n. HostClosureUpval a' r i = Some VNil) \<and> SizeOf a' r OBJ_CLOSURE = Some (ClosureBytes n) \<and>
      arena_inv a' (insert (idx r, block_words (ClosureBytes n)) L))"
proof (intro conjI allI impI)
  fix r a'
  { assume "AllocLuaClosure a pid n = Some (r, a')"
    note c = closure_run [OF assms _ this [unfolded AllocLuaClosure_def]]
    show "new_object a L a' r OBJ_CLOSURE 0" "ClosureGibbousSlot a' r = Some (0, False)"
      "IsHostClosure a' r = Some False" "ClosureProtoID a' r = Some pid" "ClosureNUpvals a' r = Some n"
      "\<And>i. i < n \<Longrightarrow> ClosureUpvalRef a' r i = Some 0" "SizeOf a' r OBJ_CLOSURE = Some (ClosureBytes n)"
      "arena_inv a' (insert (idx r, block_words (ClosureBytes n)) L)"
      using c by (auto simp: IsHostClosure_def ClosureUpvalRef_def made_def) }
  { assume "AllocHostClosure a pid n = Some (r, a')"
    note c = closure_run [OF assms _ this [unfolded AllocHostClosure_def]]
    show "new_object a L a' r OBJ_CLOSURE closureFlagHost" "ClosureGibbousSlot a' r = Some (0, False)"
      "IsHostClosure a' r = Some True" "ClosureProtoID a' r = Some pid" "ClosureNUpvals a' r = Some n"
      "\<And>i. i < n \<Longrightarrow> HostClosureUpval a' r i = Some VNil" "SizeOf a' r OBJ_CLOSURE = Some (ClosureBytes n)"
      "arena_inv a' (insert (idx r, block_words (ClosureBytes n)) L)"
      using c by (auto simp: IsHostClosure_def HostClosureUpval_def made_def closureFlagHost_def) }
qed

section \<open>Upvalues, userdata and thread handles\<close>

text \<open>Allocate and fill consecutive slots from word 1 on.\<close>

fun fillSlots :: "arena \<Rightarrow> gcref \<Rightarrow> u32 \<Rightarrow> u64 list \<Rightarrow> arena option" where
  "fillSlots a r i [] = Some a"
| "fillSlots a r i (v # vs) = do { a \<leftarrow> setWordAt a r i v; fillSlots a r (i + 1) vs }"

lemma made_fillSlots:
  assumes "made a L a1 r b" "unat i + length vs \<le> block_words b" "unat i + length vs < 2 ^ 32"
  shows "\<exists>a2. fillSlots a1 r i vs = Some a2 \<and> made a L a2 r b \<and> length (a_words a2) = length (a_words a1) \<and>
    (\<forall>k < length vs. a_words a2 ! (idx r + unat i + k) = vs ! k) \<and>
    (\<forall>j. \<not> (idx r + unat i \<le> j \<and> j < idx r + unat i + length vs) \<longrightarrow> a_words a2 ! j = a_words a1 ! j)"
  using assms
proof (induction vs arbitrary: a1 i)
  case Nil
  then show ?case by simp
next
  case (Cons v vs)
  from made_setWordAt [OF Cons.prems(1), of i v] Cons.prems(2) obtain a2 where a2:
    "setWordAt a1 r i v = Some a2" "made a L a2 r b"
    "a2 = a1\<lparr>a_words := (a_words a1)[idx r + unat i := v]\<rparr>" by auto
  have u: "unat (i + 1) = unat i + 1" using Cons.prems(3) by (simp add: unat_word_ariths)
  from Cons.IH [OF a2(2), of "i + 1"] Cons.prems(2,3) obtain a3 where a3:
    "fillSlots a2 r (i + 1) vs = Some a3" "made a L a3 r b" "length (a_words a3) = length (a_words a2)"
    "\<forall>k < length vs. a_words a3 ! (idx r + (unat i + 1) + k) = vs ! k"
    "\<forall>j. \<not> (idx r + (unat i + 1) \<le> j \<and> j < idx r + (unat i + 1) + length vs) \<longrightarrow> a_words a3 ! j = a_words a2 ! j"
    unfolding u by auto
  have "idx r + unat i < length (a_words a1)"
    using made_blk [OF Cons.prems(1)] Cons.prems(2) by (simp add: blk_def)
  then have "a_words a3 ! (idx r + unat i) = v" using a3(5) by (simp add: a2(3))
  then have "a_words a3 ! (idx r + unat i + k) = (v # vs) ! k" if "k < length (v # vs)" for k
    using a3(4) that by (cases k) (auto simp: algebra_simps)
  then show ?case using a2 a3 by (intro exI [of _ a3]) auto
qed

text \<open>The run shared by the two upvalue constructors.\<close>

lemma upval_run:
  assumes inv: "arena_inv a L" and fl: "unat fl < 16"
    and run: "do { (ref, a) \<leftarrow> allocateRaw a OBJ_UPVAL 3 fl; a \<leftarrow> setWordAt a ref 1 w1;
        a \<leftarrow> setWordAt a ref 2 w2; Some (ref, a) } = Some (r, a')"
  shows "wordAt a' r 1 = Some w1 \<and> wordAt a' r 2 = Some w2 \<and> map_option FlagsOf (HeaderOf a' r) = Some fl \<and>
    new_object a L a' r OBJ_UPVAL fl"
proof -
  obtain a1 where a1: "allocateRaw a OBJ_UPVAL 3 fl = Some (r, a1)" "fillSlots a1 r 1 [w1, w2] = Some a'"
    using run by (auto simp: bind_Some_iff)
  note m = allocateRaw_made [OF inv a1(1)]
  have bw: "3 \<le> block_words 24" using m(2) by simp
  from made_fillSlots [of a L a1 r 24 1 "[w1, w2]"] m(1) bw a1(2)
  have f: "made a L a' r 24" "\<forall>k<2. a_words a' ! (idx r + 1 + k) = [w1, w2] ! k"
    "a_words a' ! idx r = a_words a1 ! idx r" by auto
  have bk: "blk a' r (block_words 24)" by (rule made_blk [OF f(1)])
  have "a_words a' ! (idx r + 1) = w1" "a_words a' ! (idx r + 2) = w2"
    using f(2) [rule_format, of 0] f(2) [rule_format, of 1] by simp_all
  then have "wordAt a' r 1 = Some w1" "wordAt a' r 2 = Some w2"
    using wordAt_blk [OF bk, of 1] wordAt_blk [OF bk, of 2] bw by simp_all
  moreover have h: "HeaderOf a' r = Some (MakeHeader OBJ_UPVAL ColorWhite0 False fl 0)"
    using Header_blk(1) [OF bk] bw f(3) m(3) by simp
  moreover have "SizeOf a' r OBJ_UPVAL = Some 24"
    by (simp add: SizeOf_def OBJ_UPVAL_def OBJ_STRING_def OBJ_TABLE_def OBJ_CLOSURE_def OBJ_USERDATA_def OBJ_THREAD_def
        UpvalueBytes_def)
  ultimately show ?thesis using FlagsOf_MakeHeader [OF fl] new_objectI [OF h fl _ f(1)] by simp
qed

lemma userdata_run:
  assumes inv: "arena_inv a L" and ud: "AllocUserdata a len = Some (r, a')"
  shows "UserdataLen a' r = Some len \<and> UserdataMetaRef a' r = Some 0 \<and> UserdataEnvRef a' r = Some 0 \<and>
    new_object a L a' r OBJ_USERDATA 0"
proof -
  from ud have le: "\<not> maxUDPayload < len" by (auto simp: AllocUserdata_def split: if_splits)
  then have l31: "unat len \<le> 2 ^ 31 - 64" by (simp add: maxUDPayload_def word_less_nat_alt not_less)
  then have uw: "unat (userdataWords len) = 4 + (unat len + 7) div 8"
    by (simp add: userdataWords_def unat_word_ariths unat_div)
  from ud le obtain a1 where a1: "allocateRaw a OBJ_USERDATA (userdataWords len) 0 = Some (r, a1)"
    "fillSlots a1 r 1 [ucast len, 0, 0] = Some a'"
    by (auto simp: AllocUserdata_def bind_Some_iff udLenIdx_def udMetaIdx_def udEnvIdx_def)
  let ?b = "userdataWords len * 8"
  note m = allocateRaw_made [OF inv a1(1)]
  have bw: "4 \<le> block_words ?b" using m(2) uw by simp
  from made_fillSlots [of a L a1 r ?b 1 "[ucast len, 0, 0]"] m(1) uw bw a1(2)
  have f: "made a L a' r ?b" "\<forall>k<3. a_words a' ! (idx r + 1 + k) = [ucast len, 0, 0] ! k"
    "a_words a' ! idx r = a_words a1 ! idx r" by auto
  have bk: "blk a' r (block_words ?b)" by (rule made_blk [OF f(1)])
  have "a_words a' ! (idx r + 1) = ucast len" "a_words a' ! (idx r + 2) = 0" "a_words a' ! (idx r + 3) = 0"
    using f(2) [rule_format, of 0] f(2) [rule_format, of 1] f(2) [rule_format, of 2] by (simp_all add: numeral_3_eq_3)
  then have "wordAt a' r 1 = Some (ucast len)" "wordAt a' r 2 = Some 0" "wordAt a' r 3 = Some 0"
    using wordAt_blk [OF bk, of 1] wordAt_blk [OF bk, of 2] wordAt_blk [OF bk, of 3] bw by simp_all
  then have ul: "UserdataLen a' r = Some len" "UserdataMetaRef a' r = Some 0" "UserdataEnvRef a' r = Some 0"
    by (simp_all add: UserdataLen_def UserdataMetaRef_def UserdataEnvRef_def udLenIdx_def udMetaIdx_def udEnvIdx_def)
  have h: "HeaderOf a' r = Some (MakeHeader OBJ_USERDATA ColorWhite0 False 0 0)"
    using Header_blk(1) [OF bk] bw f(3) m(3) uw by simp
  have "SizeOf a' r OBJ_USERDATA = Some ?b"
    using ul by (simp add: SizeOf_def OBJ_STRING_def OBJ_TABLE_def OBJ_CLOSURE_def OBJ_USERDATA_def UserdataBytes_def)
  then show ?thesis using ul new_objectI [OF h _ _ f(1)] by simp
qed

lemma thread_handle_run:
  assumes inv: "arena_inv a L" and th: "AllocThreadHandle a cid = Some (r, a')"
  shows "ThreadHandleID a' r = Some cid \<and> ThreadStatusOf a' r = Some StatusSuspended \<and>
    ThreadOpenUpvalHead a' r = Some 0 \<and> new_object a L a' r OBJ_THREAD 0"
proof -
  obtain a1 where a1: "allocateRaw a OBJ_THREAD 9 0 = Some (r, a1)"
    using th by (auto simp: AllocThreadHandle_def bind_Some_iff threadHeadWords_def)
  note m = allocateRaw_made [OF inv a1]
  have bw: "9 \<le> block_words 72" using m(2) by simp
  have m1: "made a L a1 r 72" using m(1) by simp
  obtain ws where ws: "setSlots a1 r 1 8 0 = Some (a1\<lparr>a_words := ws\<rparr>)" "made a L (a1\<lparr>a_words := ws\<rparr>) r 72"
    "length ws = length (a_words a1)"
    "\<And>j. ws ! j = (if idx r + unat (1 :: u32) \<le> j \<and> j < idx r + unat (1 :: u32) + 8 then 0 else a_words a1 ! j)"
    using made_setSlots [OF m1, of 1 8 0] bw by auto
  obtain a3 where a3: "setWordAt (a1\<lparr>a_words := ws\<rparr>) r 1 (ucast StatusSuspended) = Some a3" "made a L a3 r 72"
    "a3 = a1\<lparr>a_words := ws[idx r + 1 := ucast StatusSuspended]\<rparr>"
    using made_setWordAt [OF ws(2), of 1 "ucast StatusSuspended"] bw by auto
  obtain a4 where a4: "setWordAt a3 r 7 cid = Some a4" "made a L a4 r 72"
    "a4 = a3\<lparr>a_words := (a_words a3)[idx r + 7 := cid]\<rparr>"
    using made_setWordAt [OF a3(2), of 7 cid] bw by auto
  have a': "a' = a4" using th a1 ws(1) a3(1) a4(1)
    by (simp add: AllocThreadHandle_def threadHeadWords_def threadStatusIdx_def threadErrorJmpIdx_def)
  have bk: "blk a' r (block_words 72)" unfolding a' by (rule made_blk [OF a4(2)])
  have len: "idx r + 9 \<le> length ws" using made_blk [OF m1] bw ws(3) by (simp add: blk_def)
  have "wordAt a' r 1 = Some (ucast StatusSuspended)" "wordAt a' r 6 = Some 0" "wordAt a' r 7 = Some cid"
    using wordAt_blk [OF bk, of 1] wordAt_blk [OF bk, of 6] wordAt_blk [OF bk, of 7] bw len ws(4) [of "idx r + 6"]
    by (simp_all add: a' a4(3) a3(3))
  moreover have h: "HeaderOf a' r = Some (MakeHeader OBJ_THREAD ColorWhite0 False 0 0)"
    using Header_blk(1) [OF bk] bw m(3) ws(4) [of "idx r"] by (simp add: a' a4(3) a3(3))
  moreover have "SizeOf a' r OBJ_THREAD = Some 72"
    by (simp add: SizeOf_def OBJ_STRING_def OBJ_TABLE_def OBJ_CLOSURE_def OBJ_USERDATA_def OBJ_THREAD_def ThreadHeadBytes_def
        threadHeadWords_def)
  ultimately show ?thesis
    using new_objectI [OF h _ _ a4(2) [folded a']]
    by (simp add: ThreadHandleID_def ThreadStatusOf_def ThreadOpenUpvalHead_def threadErrorJmpIdx_def threadStatusIdx_def
        threadOpenUpvalIdx_def StatusSuspended_def)
qed

text \<open>C32. The other one-block constructors: upvalues, userdata and thread handles. Each is a new object of its type,
  white, not fixed, not linked, in a block of its own of the size \<open>SizeOf\<close> reports, while the other live blocks keep
  their words, and reads back what it was given: an open upvalue its stack index, thread and successor, a closed
  one its value, a userdata its length without metatable and environment, a thread handle its number.\<close>

theorem head_constructors:
  assumes "arena_inv a L"
  shows "(\<forall>r a'. AllocOpenUpvalue a th i nx = Some (r, a') \<longrightarrow>
      new_object a L a' r OBJ_UPVAL 0 \<and> UpvalIsClosed a' r = Some False \<and> UpvalStackIdx a' r = Some i \<and>
      UpvalThreadRefLo a' r = Some (ucast th) \<and> UpvalNextOpen a' r = Some nx) \<and>
    (\<forall>r a'. AllocClosedUpvalue a v = Some (r, a') \<longrightarrow>
      new_object a L a' r OBJ_UPVAL upvalFlagClosed \<and> UpvalIsClosed a' r = Some True \<and> UpvalClosedValue a' r = Some v) \<and>
    (\<forall>r a'. AllocUserdata a len = Some (r, a') \<longrightarrow>
      new_object a L a' r OBJ_USERDATA 0 \<and> UserdataLen a' r = Some len \<and> UserdataMetaRef a' r = Some 0 \<and>
      UserdataEnvRef a' r = Some 0) \<and>
    (\<forall>r a'. AllocThreadHandle a cid = Some (r, a') \<longrightarrow>
      new_object a L a' r OBJ_THREAD 0 \<and> ThreadHandleID a' r = Some cid \<and> ThreadStatusOf a' r = Some StatusSuspended \<and>
      ThreadOpenUpvalHead a' r = Some 0)"
proof (intro conjI allI impI)
  fix r a'
  { assume "AllocOpenUpvalue a th i nx = Some (r, a')"
    from upval_run [OF assms _ this [unfolded AllocOpenUpvalue_def closure_idx_defs]]
    show "new_object a L a' r OBJ_UPVAL 0" "UpvalIsClosed a' r = Some False" "UpvalStackIdx a' r = Some i"
      "UpvalThreadRefLo a' r = Some (ucast th)" "UpvalNextOpen a' r = Some nx"
      unfolding UpvalIsClosed_def UpvalStackIdx_def UpvalThreadRefLo_def UpvalNextOpen_def closure_idx_defs
      using pack32 [of i "ucast th"] by auto }
  { assume "AllocClosedUpvalue a v = Some (r, a')"
    from upval_run [OF assms _ this [unfolded AllocClosedUpvalue_def closure_idx_defs]]
    show "new_object a L a' r OBJ_UPVAL upvalFlagClosed" "UpvalIsClosed a' r = Some True" "UpvalClosedValue a' r = Some v"
      unfolding UpvalIsClosed_def UpvalClosedValue_def closure_idx_defs by (auto simp: upvalFlagClosed_def) }
qed (use userdata_run [OF assms] thread_handle_run [OF assms] in blast)+

section \<open>Witnesses\<close>

lemma short: "\<not> unat maxStrBytes < length [104, 105 :: u8]"
  by (simp add: maxStrBytes_def MaxBytes_def)

lemma tiny_string:
  "case AllocString tiny [104, 105] 7 of None \<Rightarrow> False | Some (r, a) \<Rightarrow> StringBytes a r = Some [104, 105]"
  unfolding AllocString_def if_not_P [OF short] by code_simp

lemma StringEqual_bytes_witness:
  "\<exists>r a. AllocString tiny [104, 105] 7 = Some (r, a) \<and> StringEqual a r r = Some True"
proof -
  obtain r a where "AllocString tiny [104, 105] 7 = Some (r, a)" "StringBytes a r = Some [104, 105]"
    using tiny_string by (auto split: option.splits)
  then show ?thesis using StringEqual_bytes [of a r "[104, 105]" r "[104, 105]"] by auto
qed

theorem closure_constructors_witness:
  "\<exists>r a. AllocLuaClosure tiny 5 1 = Some (r, a) \<and> IsHostClosure a r = Some False \<and>
     ClosureProtoID a r = Some 5 \<and> ClosureGibbousSlot a r = Some (0, False) \<and> new_object tiny {} a r OBJ_CLOSURE 0"
proof -
  have "case AllocLuaClosure tiny 5 1 of None \<Rightarrow> False | Some _ \<Rightarrow> True" by code_simp
  then obtain r a where "AllocLuaClosure tiny 5 1 = Some (r, a)" by (auto split: option.splits)
  then show ?thesis using closure_constructors [OF tiny_inv, of 5 1] by blast
qed

theorem head_constructors_witness:
  "\<exists>r a. AllocClosedUpvalue tiny VTrue = Some (r, a) \<and> UpvalClosedValue a r = Some VTrue \<and>
     new_object tiny {} a r OBJ_UPVAL upvalFlagClosed"
proof -
  have "case AllocClosedUpvalue tiny VTrue of None \<Rightarrow> False | Some _ \<Rightarrow> True" by code_simp
  then obtain r a where "AllocClosedUpvalue tiny VTrue = Some (r, a)" by (auto split: option.splits)
  then show ?thesis using head_constructors [OF tiny_inv, of 0 0 0 VTrue 0 0] by blast
qed

theorem AllocString_roundtrip_witness:
  "\<exists>r a. AllocString tiny [104, 105] 7 = Some (r, a) \<and> StringBytes a r = Some [104, 105] \<and>
     StringHash a r = Some 7"
proof -
  obtain r a where "AllocString tiny [104, 105] 7 = Some (r, a)"
    using tiny_string by (auto split: option.splits)
  then show ?thesis using AllocString_roundtrip [OF tiny_inv, of "[104, 105]" 7 r a] by blast
qed

lemma tiny_blk: "blk tiny_used 8 3"
  using arena_inv_blk [OF tiny_used_inv, of 8 3] tiny_alloc by (simp add: aligned_def)


theorem SetTableMeta_spec_witness:
  "\<exists>t a a'. AllocTable tiny 0 0 = Some (t, a) \<and> SetTableMeta a t 64 = Some a' \<and>
     TableMetaRef a' t = Some 64 \<and> TableHasMeta a' t = Some True \<and> TableGen a' t = Some 1"
proof -
  have "case AllocTable tiny 0 0 of None \<Rightarrow> False
      | Some (t, a) \<Rightarrow> t = 8 \<and> length (a_words a) = 8 \<and> TableGen a t = Some 0"
    by code_simp
  then obtain t a where t: "AllocTable tiny 0 0 = Some (t, a)" "t = 8" "length (a_words a) = 8" "TableGen a t = Some 0"
    by (auto split: option.splits)
  have "blk a t 6" using t(2,3) by (simp add: blk_def aligned_def idx_def)
  from SetTableMeta_spec [OF this, of 64] show ?thesis using t(1,4) by auto
qed

end
