(* ===== verification/Collector.thy ===== *)
theory Collector
  imports Object
begin

text \<open>
  The collector's state and its allocation side: \<open>internal/gc/collector.go\<close> (all but \<open>Collect\<close>, which
  is in \<open>Collect\<close>), \<open>shadow.go\<close> and \<open>intern.go\<close>.

  The Go struct is one record holding the arena. The visitor callbacks of \<open>Roots\<close> are the lists of
  what they yield; a \<open>nil\<close> callback yields nothing. The slot-release callback of host closures is
  the log of the slots it was called with (\<open>None\<close> when not installed); the finalizer callback is a
  parameter of \<open>Collect\<close>. \<open>None\<close> is a panic or a loop that does not end.
\<close>

section \<open>State\<close>

record roots =
  Globals :: gcref
  Registry :: gcref
  MainThread :: gcref
  RunningThread :: gcref
  Threads :: "gcref list"
  ProgramStringRefs :: "gcref list"
  TypeMetatables :: "gcref list"
  ExtraValues :: "lvalue list"
  ExtraRefs :: "gcref list"
  ScanThread :: "gcref \<Rightarrow> (lvalue + gcref) list"
  OpenUpvalue :: "(gcref \<Rightarrow> lvalue) option"
  ReleaseThreads :: "((arena \<Rightarrow> gcref \<Rightarrow> bool option) \<Rightarrow> arena \<Rightarrow> (u64 \<times> arena) option) option"

record collector =
  c_a :: arena
  c_sweepHead :: gcref
  c_currentWhite :: u8
  c_gray :: "gcref list"
  c_shadow :: "lvalue list"
  c_roots :: roots
  c_threshold :: u64
  c_gcPauseRatio :: int
  c_bytesAllocSince :: u64
  c_liveBytesAfterSweep :: u64
  c_stressMode :: bool
  c_stopped :: bool
  c_collecting :: bool
  c_hostTrigger :: bool
  c_gcPendingRef :: gcref
  c_gcPendingLast :: bool
  c_weakList :: "gcref list"
  c_finalizeList :: "gcref list"
  c_hasFinalizer :: "gcref \<Rightarrow> bool"
  c_toRunFinalizers :: "gcref list"
  c_releasedHostFns :: "u32 list option"
  c_strBuckets :: "gcref list list"
  c_strMask :: u32
  c_strCount :: u32

definition no_roots :: roots where
  "no_roots = \<lparr>Globals = 0, Registry = 0, MainThread = 0, RunningThread = 0, Threads = [],
     ProgramStringRefs = [], TypeMetatables = replicate 9 0, ExtraValues = [], ExtraRefs = [],
     ScanThread = (\<lambda>_. []), OpenUpvalue = None, ReleaseThreads = None\<rparr>"

definition collector_New :: "arena \<Rightarrow> int \<Rightarrow> collector" where
  "collector_New a pause =
     \<lparr>c_a = a, c_sweepHead = 0, c_currentWhite = 0, c_gray = [], c_shadow = [], c_roots = no_roots,
      c_threshold = ucast (Cap a) div 4, c_gcPauseRatio = (if pause = 0 then 200 else pause),
      c_bytesAllocSince = 0, c_liveBytesAfterSweep = 0, c_stressMode = False, c_stopped = False,
      c_collecting = False, c_hostTrigger = False, c_gcPendingRef = 0, c_gcPendingLast = False,
      c_weakList = [], c_finalizeList = [], c_hasFinalizer = (\<lambda>_. False), c_toRunFinalizers = [],
      c_releasedHostFns = None, c_strBuckets = replicate 16 [], c_strMask = 15, c_strCount = 0\<rparr>"

definition SetRoots :: "collector \<Rightarrow> roots \<Rightarrow> collector" where
  "SetRoots c r = c\<lparr>c_roots := r\<rparr>"

definition SetHostFnReleaser :: "collector \<Rightarrow> collector" where
  "SetHostFnReleaser c = c\<lparr>c_releasedHostFns := Some []\<rparr>"

definition RegisterFinalizer :: "collector \<Rightarrow> gcref \<Rightarrow> collector" where
  "RegisterFinalizer c ud =
     (if c_hasFinalizer c ud then c
      else c\<lparr>c_hasFinalizer := (c_hasFinalizer c)(ud := True), c_finalizeList := c_finalizeList c @ [ud]\<rparr>)"

text \<open>This cycle's collection colour (\<open>mark.go\<close>).\<close>

definition deadWhite :: "collector \<Rightarrow> u8" where "deadWhite c = c_currentWhite c XOR 1"

definition LinkSweep :: "collector \<Rightarrow> gcref \<Rightarrow> collector option" where
  "LinkSweep c ref = do {
     h \<leftarrow> HeaderOf (c_a c) ref;
     let h = SetColor h (deadWhite c);
     let h = SetGCNext h (c_sweepHead c);
     a \<leftarrow> SetHeader (c_a c) ref h;
     Some (c\<lparr>c_a := a, c_sweepHead := ref\<rparr>) }"

section \<open>Pacing\<close>

definition gcPendingNow :: "collector \<Rightarrow> bool" where
  "gcPendingNow c =
     (if c_stopped c then False else c_stressMode c \<or> c_threshold c \<le> c_bytesAllocSince c)"

definition updateGCPending :: "collector \<Rightarrow> collector option" where
  "updateGCPending c =
     (if c_gcPendingRef c = 0 then Some c
      else let now = gcPendingNow c in
           if now = c_gcPendingLast c then Some c
           else do {
             let c = c\<lparr>c_gcPendingLast := now\<rparr>;
             let v = (if now then 1 else 0);
             a \<leftarrow> SetWordAt (c_a c) (c_gcPendingRef c) v;
             Some (c\<lparr>c_a := a\<rparr>) })"

definition AllocCharge :: "collector \<Rightarrow> u32 \<Rightarrow> collector option" where
  "AllocCharge c nbytes = updateGCPending (c\<lparr>c_bytesAllocSince := c_bytesAllocSince c + ucast nbytes\<rparr>)"

definition Account :: "collector \<Rightarrow> u32 \<Rightarrow> collector option" where
  "Account c nbytes = updateGCPending (c\<lparr>c_bytesAllocSince := c_bytesAllocSince c + ucast nbytes\<rparr>)"

definition SetHostTriggeredCollect :: "collector \<Rightarrow> bool \<Rightarrow> collector" where
  "SetHostTriggeredCollect c on = c\<lparr>c_hostTrigger := on\<rparr>"

definition SetGCPendingRef :: "collector \<Rightarrow> gcref \<Rightarrow> collector option" where
  "SetGCPendingRef c ref = updateGCPending (c\<lparr>c_gcPendingRef := ref, c_gcPendingLast := False\<rparr>)"

definition SetStopped :: "collector \<Rightarrow> bool \<Rightarrow> collector option" where
  "SetStopped c on = updateGCPending (c\<lparr>c_stopped := on\<rparr>)"

definition SetStressMode :: "collector \<Rightarrow> bool \<Rightarrow> collector option" where
  "SetStressMode c on = updateGCPending (c\<lparr>c_stressMode := on\<rparr>)"

section \<open>The shadow stack\<close>

definition Push :: "collector \<Rightarrow> lvalue \<Rightarrow> int \<times> collector" where
  "Push c v = (let s = c_shadow c @ [v] in (int (length s), c\<lparr>c_shadow := s\<rparr>))"

definition Pop :: "collector \<Rightarrow> int \<Rightarrow> collector option" where
  "Pop c handle =
     (if handle \<le> 0 \<or> int (length (c_shadow c)) < handle then None
      else Some (c\<lparr>c_shadow := take (nat (handle - 1)) (c_shadow c)\<rparr>))"

definition ShadowDepth :: "collector \<Rightarrow> int" where
  "ShadowDepth c = int (length (c_shadow c))"

definition WriteBarrier :: "collector \<Rightarrow> lvalue \<Rightarrow> lvalue \<Rightarrow> collector" where
  "WriteBarrier c parent child = c"

section \<open>String interning\<close>

text \<open>The sampling loop of \<open>HashString\<close>.\<close>

partial_function (option) hash_loop :: "u8 list \<Rightarrow> u32 \<Rightarrow> u32 \<Rightarrow> u32 \<Rightarrow> u32 option" where
  "hash_loop b step i h =
     (if i < step then Some h
      else do {
        x \<leftarrow> nth_opt b (unat (i - 1));
        hash_loop b step (i - step) (h XOR (push_bit 5 h + drop_bit 2 h + ucast x)) })"

declare hash_loop.simps [code]

definition HashString :: "u8 list \<Rightarrow> u32 option" where
  "HashString b = (let l = word_of_nat (length b); step = drop_bit 5 l + 1 in hash_loop b step l l)"

text \<open>The content comparison is the loop \<open>for i := range got\<close>.\<close>

definition stringMatches :: "collector \<Rightarrow> gcref \<Rightarrow> u32 \<Rightarrow> u8 list \<Rightarrow> bool option" where
  "stringMatches c ref h b = do {
     rh \<leftarrow> StringHash (c_a c) ref;
     if rh \<noteq> h then Some False
     else do {
       n \<leftarrow> StringLen (c_a c) ref;
       if n \<noteq> word_of_nat (length b) then Some False
       else do {
         got \<leftarrow> StringBytes (c_a c) ref;
         Some (\<forall>i\<in>set [0..<length got]. got ! i = b ! i) } } }"

text \<open>The search of a bucket chain.\<close>

fun find_match :: "collector \<Rightarrow> u32 \<Rightarrow> u8 list \<Rightarrow> gcref list \<Rightarrow> gcref option option" where
  "find_match c h b [] = Some None"
| "find_match c h b (ref # rest) = do {
     m \<leftarrow> stringMatches c ref h b;
     if m then Some (Some ref) else find_match c h b rest }"

definition rehash_one :: "arena \<Rightarrow> u32 \<Rightarrow> gcref list list \<Rightarrow> gcref \<Rightarrow> gcref list list option" where
  "rehash_one a newMask bs ref = do {
     h \<leftarrow> StringHash a ref;
     let b = unat (h AND newMask);
     chain \<leftarrow> nth_opt bs b;
     Some (bs[b := chain @ [ref]]) }"

definition rehashStringTable :: "collector \<Rightarrow> collector option" where
  "rehashStringTable c = do {
     let newMask = c_strMask c * 2 + 1;
     let newBuckets = replicate (unat (newMask + 1)) [];
     newBuckets \<leftarrow> ofold (\<lambda>bs chain. ofold (rehash_one (c_a c) newMask) bs chain) newBuckets (c_strBuckets c);
     Some (c\<lparr>c_strBuckets := newBuckets, c_strMask := newMask\<rparr>) }"

definition Intern :: "collector \<Rightarrow> u8 list \<Rightarrow> (gcref \<times> collector) option" where
  "Intern c b = do {
     h \<leftarrow> HashString b;
     let bucket = unat (h AND c_strMask c);
     chain \<leftarrow> nth_opt (c_strBuckets c) bucket;
     hit \<leftarrow> find_match c h b chain;
     case hit of
       Some ref \<Rightarrow> Some (ref, c)
     | None \<Rightarrow> do {
         (ref, a) \<leftarrow> AllocString (c_a c) b h;
         c \<leftarrow> LinkSweep (c\<lparr>c_a := a\<rparr>) ref;
         c \<leftarrow> AllocCharge c (StringObjectBytes (word_of_nat (length b)));
         let c = c\<lparr>c_strBuckets := (c_strBuckets c)[bucket := chain @ [ref]], c_strCount := c_strCount c + 1\<rparr>;
         c \<leftarrow> (if c_strMask c + 1 < c_strCount c then rehashStringTable c else Some c);
         Some (ref, c) } }"

text \<open>The index of the first occurrence, for the swap-remove.\<close>

fun index_of :: "'a \<Rightarrow> 'a list \<Rightarrow> nat option" where
  "index_of x [] = None"
| "index_of x (y # ys) = (if y = x then Some 0 else map_option Suc (index_of x ys))"

definition removeFromStringTable :: "collector \<Rightarrow> gcref \<Rightarrow> collector option" where
  "removeFromStringTable c ref = do {
     h \<leftarrow> StringHash (c_a c) ref;
     let bucket = unat (h AND c_strMask c);
     chain \<leftarrow> nth_opt (c_strBuckets c) bucket;
     case index_of ref chain of
       None \<Rightarrow> Some c
     | Some i \<Rightarrow> (let n = length chain - 1; chain = chain[i := chain ! n] in
         Some (c\<lparr>c_strBuckets := (c_strBuckets c)[bucket := take n chain], c_strCount := c_strCount c - 1\<rparr>)) }"

definition StringTableSize :: "collector \<Rightarrow> u32" where "StringTableSize c = c_strCount c"

end
