(* ===== verification/Collect.thy ===== *)
theory Collect
  imports Collector
begin

text \<open>
  One stop-the-world collection: the mark phase (\<open>internal/gc/mark.go\<close>), the sweep phase with the
  freeing of attached blocks, finalizer separation and weak-table clearing (\<open>sweep.go\<close>), and
  \<open>Collect\<close> with its triggers (\<open>collector.go\<close>). Loops that follow links in the arena are partial
  functions: \<open>None\<close> is a panic or a loop that does not end.
\<close>

section \<open>Marking\<close>

definition markRef :: "collector \<Rightarrow> gcref \<Rightarrow> collector option" where
  "markRef c ref =
     (if IsNull ref then Some c
      else do {
        h \<leftarrow> HeaderOf (c_a c) ref;
        if IsFixed h then Some c
        else let color = ColorOf h in
          if color \<noteq> deadWhite c then Some c
          else do {
            a \<leftarrow> SetHeader (c_a c) ref (SetColor h ColorGray);
            Some (c\<lparr>c_a := a, c_gray := c_gray c @ [ref]\<rparr>) } })"

definition markValue :: "collector \<Rightarrow> lvalue \<Rightarrow> collector option" where
  "markValue c v = (if \<not> IsCollectable v then Some c else markRef c (GCRefOf v))"

definition markRoots :: "collector \<Rightarrow> collector option" where
  "markRoots c = do {
     let c = c\<lparr>c_gray := []\<rparr>;
     let r = c_roots c;
     c \<leftarrow> markRef c (Globals r);
     c \<leftarrow> markRef c (Registry r);
     c \<leftarrow> markRef c (MainThread r);
     c \<leftarrow> markRef c (RunningThread r);
     c \<leftarrow> ofold markRef c (Threads r);
     c \<leftarrow> ofold markRef c (ProgramStringRefs r);
     c \<leftarrow> ofold markRef c (TypeMetatables r);
     c \<leftarrow> ofold markValue c (ExtraValues r);
     c \<leftarrow> ofold markRef c (ExtraRefs r);
     ofold markValue c (c_shadow c) }"

definition scanTable :: "collector \<Rightarrow> gcref \<Rightarrow> collector option" where
  "scanTable c t = do {
     mode \<leftarrow> TableWeakMode (c_a c) t;
     let weakKey = (mode = 107 \<or> mode = 97);
     let weakVal = (mode = 118 \<or> mode = 97);
     asize \<leftarrow> TableASize (c_a c) t;
     c \<leftarrow> ofold (\<lambda>c i. do {
            v \<leftarrow> TableArrayAt (c_a c) t i;
            if \<not> weakVal then markValue c v else Some c }) c (upto_word asize);
     hsize \<leftarrow> TableHSize (c_a c) t;
     c \<leftarrow> ofold (\<lambda>c i. do {
            k \<leftarrow> NodeKey (c_a c) t i;
            v \<leftarrow> NodeVal (c_a c) t i;
            c \<leftarrow> (if \<not> weakKey then markValue c k else Some c);
            if \<not> weakVal then markValue c v else Some c }) c (upto_word hsize);
     m \<leftarrow> TableMetaRef (c_a c) t;
     c \<leftarrow> markRef c m;
     Some (if mode \<noteq> 0 then c\<lparr>c_weakList := c_weakList c @ [t]\<rparr> else c) }"

definition scanClosure :: "collector \<Rightarrow> gcref \<Rightarrow> collector option" where
  "scanClosure c cl = do {
     n \<leftarrow> ClosureNUpvals (c_a c) cl;
     host \<leftarrow> IsHostClosure (c_a c) cl;
     if host
     then ofold (\<lambda>c i. do { v \<leftarrow> HostClosureUpval (c_a c) cl i; markValue c v }) c (upto_word n)
     else ofold (\<lambda>c i. do { u \<leftarrow> ClosureUpvalRef (c_a c) cl i; markRef c u }) c (upto_word n) }"

text \<open>The open-upvalue chain of a thread.\<close>

partial_function (option) scan_upvals :: "collector \<Rightarrow> gcref \<Rightarrow> collector option" where
  "scan_upvals c uv =
     (if IsNull uv then Some c
      else do {
        c \<leftarrow> markRef c uv;
        nxt \<leftarrow> UpvalNextOpen (c_a c) uv;
        scan_upvals c nxt })"

declare scan_upvals.simps [code]

definition mark_visited :: "collector \<Rightarrow> lvalue + gcref \<Rightarrow> collector option" where
  "mark_visited c x = (case x of Inl v \<Rightarrow> markValue c v | Inr r \<Rightarrow> markRef c r)"

definition scanThread :: "collector \<Rightarrow> gcref \<Rightarrow> collector option" where
  "scanThread c th = do {
     tp \<leftarrow> ThreadTop (c_a c) th;
     c \<leftarrow> ofold (\<lambda>c i. do { v \<leftarrow> ThreadValueStackAt (c_a c) th i; markValue c v }) c (upto_word tp);
     uv \<leftarrow> ThreadOpenUpvalHead (c_a c) th;
     c \<leftarrow> scan_upvals c uv;
     r \<leftarrow> ThreadResumeFrom (c_a c) th;
     c \<leftarrow> markRef c r;
     ofold mark_visited c (ScanThread (c_roots c) th) }"

definition scanObject :: "collector \<Rightarrow> gcref \<Rightarrow> objtype \<Rightarrow> collector option" where
  "scanObject c ref ot =
     (if ot = OBJ_STRING then Some c
      else if ot = OBJ_TABLE then scanTable c ref
      else if ot = OBJ_CLOSURE then scanClosure c ref
      else if ot = OBJ_USERDATA then do {
        m \<leftarrow> UserdataMetaRef (c_a c) ref;
        c \<leftarrow> markRef c m;
        e \<leftarrow> UserdataEnvRef (c_a c) ref;
        markRef c e }
      else if ot = OBJ_THREAD then scanThread c ref
      else if ot = OBJ_UPVAL then do {
        closed \<leftarrow> UpvalIsClosed (c_a c) ref;
        if closed then do { v \<leftarrow> UpvalClosedValue (c_a c) ref; markValue c v }
        else case OpenUpvalue (c_roots c) of None \<Rightarrow> Some c | Some f \<Rightarrow> markValue c (f ref) }
      else Some c)"

partial_function (option) markAll :: "collector \<Rightarrow> collector option" where
  "markAll c =
     (if c_gray c = [] then Some c
      else do {
        let ref = last (c_gray c);
        let c = c\<lparr>c_gray := butlast (c_gray c)\<rparr>;
        h \<leftarrow> HeaderOf (c_a c) ref;
        a \<leftarrow> SetHeader (c_a c) ref (SetColor h ColorBlack);
        c \<leftarrow> scanObject (c\<lparr>c_a := a\<rparr>) ref (OTypeOf h);
        markAll c })"

declare markAll.simps [code]

section \<open>Sweeping\<close>

definition unlinkSweep :: "collector \<Rightarrow> gcref \<Rightarrow> gcref \<Rightarrow> gcref \<Rightarrow> collector option" where
  "unlinkSweep c prev ref nxt =
     (if IsNull prev then Some (c\<lparr>c_sweepHead := nxt\<rparr>)
      else do {
        hp \<leftarrow> HeaderOf (c_a c) prev;
        a \<leftarrow> SetHeader (c_a c) prev (SetGCNext hp nxt);
        Some (c\<lparr>c_a := a\<rparr>) })"

definition free_block :: "collector \<Rightarrow> gcref \<Rightarrow> u32 \<Rightarrow> collector option" where
  "free_block c r n = do { a \<leftarrow> Free (c_a c) r n; Some (c\<lparr>c_a := a\<rparr>) }"

definition free_attached :: "collector \<Rightarrow> gcref \<Rightarrow> objtype \<Rightarrow> collector option" where
  "free_attached c ref ot =
     (if ot = OBJ_STRING then removeFromStringTable c ref
      else if ot = OBJ_TABLE then do {
        arr \<leftarrow> TableArrayRef (c_a c) ref;
        c \<leftarrow> (if \<not> IsNull arr
              then do { n \<leftarrow> TableASize (c_a c) ref; free_block c arr (TableArrayBytes n) } else Some c);
        node \<leftarrow> TableNodeRef (c_a c) ref;
        if \<not> IsNull node
        then do { n \<leftarrow> TableHSize (c_a c) ref; free_block c node (TableNodeBytes n) } else Some c }
      else if ot = OBJ_CLOSURE then
        (case c_releasedHostFns c of
           None \<Rightarrow> Some c
         | Some ids \<Rightarrow> do {
             host \<leftarrow> IsHostClosure (c_a c) ref;
             if host then do { i \<leftarrow> ClosureProtoID (c_a c) ref; Some (c\<lparr>c_releasedHostFns := Some (ids @ [i])\<rparr>) }
             else Some c })
      else if ot = OBJ_USERDATA then Some (c\<lparr>c_hasFinalizer := (c_hasFinalizer c)(ref := False)\<rparr>)
      else if ot = OBJ_THREAD then do {
        stk \<leftarrow> ThreadValueStackRef (c_a c) ref;
        c \<leftarrow> (if \<not> IsNull stk
              then do { n \<leftarrow> ThreadStackCap (c_a c) ref; free_block c stk (ThreadStackBytes n) } else Some c);
        cis \<leftarrow> ThreadCallInfoRef (c_a c) ref;
        if \<not> IsNull cis
        then do { n \<leftarrow> ThreadCICap (c_a c) ref; free_block c cis (ThreadCIBytes n) } else Some c }
      else Some c)"

definition freeObject :: "collector \<Rightarrow> gcref \<Rightarrow> objtype \<Rightarrow> collector option" where
  "freeObject c ref ot = do {
     c \<leftarrow> free_attached c ref ot;
     n \<leftarrow> SizeOf (c_a c) ref ot;
     free_block c ref n }"

definition objectBytes :: "arena \<Rightarrow> gcref \<Rightarrow> objtype \<Rightarrow> u32 option" where
  "objectBytes a ref ot = do {
     n \<leftarrow> SizeOf a ref ot;
     if ot = OBJ_TABLE then do {
       arr \<leftarrow> TableArrayRef a ref;
       n \<leftarrow> (if \<not> IsNull arr then do { s \<leftarrow> TableASize a ref; Some (n + TableArrayBytes s) } else Some n);
       node \<leftarrow> TableNodeRef a ref;
       if \<not> IsNull node then do { s \<leftarrow> TableHSize a ref; Some (n + TableNodeBytes s) } else Some n }
     else if ot = OBJ_THREAD then do {
       stk \<leftarrow> ThreadValueStackRef a ref;
       n \<leftarrow> (if \<not> IsNull stk then do { s \<leftarrow> ThreadStackCap a ref; Some (n + ThreadStackBytes s) } else Some n);
       cis \<leftarrow> ThreadCallInfoRef a ref;
       if \<not> IsNull cis then do { s \<leftarrow> ThreadCICap a ref; Some (n + ThreadCIBytes s) } else Some n }
     else Some n }"

partial_function (option) sweep_loop :: "collector \<Rightarrow> gcref \<Rightarrow> gcref \<Rightarrow> u8 \<Rightarrow> u8 \<Rightarrow> collector option" where
  "sweep_loop c prev ref dead current =
     (if IsNull ref then Some c
      else do {
        h \<leftarrow> HeaderOf (c_a c) ref;
        let nxt = GCNextOf h;
        if ColorOf h = dead \<and> \<not> IsFixed h
        then do {
          c \<leftarrow> unlinkSweep c prev ref nxt;
          c \<leftarrow> freeObject c ref (OTypeOf h);
          sweep_loop c prev nxt dead current }
        else do {
          let h = SetColor h current;
          a \<leftarrow> SetHeader (c_a c) ref h;
          n \<leftarrow> objectBytes a ref (OTypeOf h);
          sweep_loop (c\<lparr>c_a := a, c_liveBytesAfterSweep := c_liveBytesAfterSweep c + ucast n\<rparr>)
            ref nxt dead current } })"

declare sweep_loop.simps [code]

definition sweep :: "collector \<Rightarrow> collector option" where
  "sweep c =
     (let c = c\<lparr>c_liveBytesAfterSweep := 0\<rparr>; dead = deadWhite c; current = c_currentWhite c
      in sweep_loop c 0 (c_sweepHead c) dead current)"

section \<open>Finalizers and weak tables\<close>

fun separate_loop :: "collector \<Rightarrow> u8 \<Rightarrow> gcref list \<Rightarrow> gcref list \<Rightarrow> collector option" where
  "separate_loop c dead keep [] = Some (c\<lparr>c_finalizeList := keep\<rparr>)"
| "separate_loop c dead keep (ud # rest) =
     (if IsNull ud then separate_loop c dead keep rest
      else do {
        h \<leftarrow> HeaderOf (c_a c) ud;
        if ColorOf h = dead
        then do {
          a \<leftarrow> SetHeader (c_a c) ud (SetColor h ColorBlack);
          separate_loop (c\<lparr>c_a := a, c_toRunFinalizers := c_toRunFinalizers c @ [ud]\<rparr>) dead keep rest }
        else separate_loop c dead (keep @ [ud]) rest })"

definition separateFinalizers :: "collector \<Rightarrow> collector option" where
  "separateFinalizers c =
     (if c_finalizeList c = [] then Some c
      else separate_loop c (deadWhite c) [] (c_finalizeList c))"

definition refIsDead :: "arena \<Rightarrow> lvalue \<Rightarrow> u8 \<Rightarrow> bool option" where
  "refIsDead a v dead =
     (if \<not> IsCollectable v then Some False
      else do { h \<leftarrow> HeaderOf a (GCRefOf v); Some (ColorOf h = dead) })"

text \<open>Go's \<open>weak && refIsDead(..)\<close>, which reads the header only for a weak side.\<close>

definition weak_dead :: "arena \<Rightarrow> bool \<Rightarrow> lvalue \<Rightarrow> u8 \<Rightarrow> bool option" where
  "weak_dead a weak v dead = (if weak then refIsDead a v dead else Some False)"

definition clear_slot :: "gcref \<Rightarrow> bool \<Rightarrow> u8 \<Rightarrow> arena \<Rightarrow> u32 \<Rightarrow> arena option" where
  "clear_slot t weakVal dead a i = do {
     v \<leftarrow> TableArrayAt a t i;
     d \<leftarrow> weak_dead a weakVal v dead;
     if d then SetTableArrayAt a t i VNil else Some a }"

definition clear_node :: "gcref \<Rightarrow> bool \<Rightarrow> bool \<Rightarrow> u8 \<Rightarrow> arena \<times> bool \<Rightarrow> u32 \<Rightarrow> (arena \<times> bool) option" where
  "clear_node t weakKey weakVal dead s i = (let (a, cleared) = s in do {
     k \<leftarrow> NodeKey a t i;
     v \<leftarrow> NodeVal a t i;
     dk \<leftarrow> weak_dead a weakKey k dead;
     d \<leftarrow> (if dk then Some True else weak_dead a weakVal v dead);
     if d then do {
       nxt \<leftarrow> NodeNext a t i;
       a \<leftarrow> SetNode a t i VNil VNil nxt;
       Some (a, True) }
     else Some (a, cleared) })"

definition clear_table :: "u8 \<Rightarrow> arena \<Rightarrow> gcref \<Rightarrow> arena option" where
  "clear_table dead a t = do {
     mode \<leftarrow> TableWeakMode a t;
     let weakKey = (mode = 107 \<or> mode = 97);
     let weakVal = (mode = 118 \<or> mode = 97);
     asize \<leftarrow> TableASize a t;
     a \<leftarrow> ofold (clear_slot t weakVal dead) a (upto_word asize);
     hsize \<leftarrow> TableHSize a t;
     (a, cleared) \<leftarrow> ofold (clear_node t weakKey weakVal dead) (a, False) (upto_word hsize);
     if cleared then BumpGen a t else Some a }"

definition clearWeakTables :: "collector \<Rightarrow> collector option" where
  "clearWeakTables c =
     (if c_weakList c = [] then Some c
      else do {
        a \<leftarrow> ofold (clear_table (deadWhite c)) (c_a c) (c_weakList c);
        Some (c\<lparr>c_a := a, c_weakList := []\<rparr>) })"

section \<open>The collection\<close>

type_synonym finalizer = "gcref \<Rightarrow> collector \<Rightarrow> collector option"

definition releaseThreads :: "collector \<Rightarrow> (u64 \<times> collector) option" where
  "releaseThreads c =
     (case ReleaseThreads (c_roots c) of
        None \<Rightarrow> Some (0, c)
      | Some f \<Rightarrow> do {
          let dead = deadWhite c;
          (n, a) \<leftarrow> f (\<lambda>a th. do { h \<leftarrow> HeaderOf a th; Some (ColorOf h = dead) }) (c_a c);
          Some (n, c\<lparr>c_a := a\<rparr>) })"

text \<open>The queue is run from its end; an entry is read when its turn comes.\<close>

fun run_finalizers :: "finalizer \<Rightarrow> collector \<Rightarrow> nat \<Rightarrow> collector option" where
  "run_finalizers fin c 0 = Some c"
| "run_finalizers fin c (Suc n) = do {
     ud \<leftarrow> nth_opt (c_toRunFinalizers c) n;
     c \<leftarrow> fin ud c;
     run_finalizers fin c n }"

definition runFinalizers :: "finalizer option \<Rightarrow> collector \<Rightarrow> collector option" where
  "runFinalizers fin c = do {
     c \<leftarrow> (case fin of
             Some f \<Rightarrow> if 0 < length (c_toRunFinalizers c)
                       then run_finalizers f c (length (c_toRunFinalizers c)) else Some c
           | None \<Rightarrow> Some c);
     Some (c\<lparr>c_toRunFinalizers := []\<rparr>) }"

definition pace :: "collector \<Rightarrow> collector option" where
  "pace c = do {
     let live = c_liveBytesAfterSweep c;
     let ratio = (word_of_int (c_gcPauseRatio c) :: u64);
     a \<leftarrow> Compact (c_a c) ((live + live * ratio div 100) * 5 div 4);
     let th = live * ratio div 100;
     let th = (if th < ucast (Cap a) div 16 then ucast (Cap a) div 16 else th);
     Some (c\<lparr>c_a := a, c_threshold := th, c_bytesAllocSince := 0\<rparr>) }"

definition Collect :: "finalizer option \<Rightarrow> collector \<Rightarrow> collector option" where
  "Collect fin c =
     (if c_collecting c then Some c
      else do {
        let c = c\<lparr>c_collecting := True\<rparr>;
        c \<leftarrow> markRoots c;
        c \<leftarrow> markAll c;
        (threadBytes, c) \<leftarrow> releaseThreads c;
        c \<leftarrow> separateFinalizers c;
        c \<leftarrow> clearWeakTables c;
        c \<leftarrow> sweep c;
        let c = c\<lparr>c_liveBytesAfterSweep := c_liveBytesAfterSweep c + threadBytes\<rparr>;
        c \<leftarrow> runFinalizers fin c;
        c \<leftarrow> pace c;
        let c = c\<lparr>c_currentWhite := c_currentWhite c XOR 1\<rparr>;
        c \<leftarrow> updateGCPending c;
        Some (c\<lparr>c_collecting := False\<rparr>) })"

definition MaybeCollect :: "finalizer option \<Rightarrow> collector \<Rightarrow> collector option" where
  "MaybeCollect fin c =
     (if c_stopped c then Some c
      else if c_stressMode c \<or> c_threshold c \<le> c_bytesAllocSince c then Collect fin c
      else Some c)"

definition HostSafepoint :: "finalizer option \<Rightarrow> collector \<Rightarrow> collector option" where
  "HostSafepoint fin c =
     (if c_hostTrigger c \<and> \<not> c_stopped c \<and> \<not> c_collecting c \<and> c_threshold c \<le> c_bytesAllocSince c
      then Collect fin c else Some c)"

end
