(* ===== verification/RawTable.thy ===== *)
theory RawTable
  imports Collector
begin

text \<open>
  The raw table operations of \<open>internal/crescent/rawtable.go\<close> on the arena layout: the array part
  for the keys \<open>1 .. asize\<close>, the hash part with chains of node indices, rehash, border and
  traversal. The interpreter state they use is the collector (which holds the arena). \<open>None\<close> is a
  panic or a loop that does not end. \<open>rawSet\<close>, \<open>insertNewKey\<close> and \<open>rehash\<close> call each other: the
  first argument bounds the depth of these calls, and \<open>RawSetSpec\<close> shows which depth is enough.
\<close>

section \<open>Keys\<close>

definition hashValue :: "arena \<Rightarrow> lvalue \<Rightarrow> u32 option" where
  "hashValue a key =
     (if IsNumber key
      then let f = AsNumber key; f = (if f64_eq f 0 then 0 else f); bits = f
           in Some (ucast bits XOR ucast (drop_bit 32 bits))
      else if Tag key = TagString then StringHash a (GCRefOf key)
      else let bits = key in Some (ucast bits XOR ucast (drop_bit 32 bits)))"

definition normKey :: "lvalue \<Rightarrow> lvalue" where
  "normKey key = (if IsNumber key \<and> f64_eq (AsNumber key) 0 then NumberValue 0 else key)"

definition keyEqual :: "lvalue \<Rightarrow> lvalue \<Rightarrow> bool" where
  "keyEqual a b = (if IsNumber a \<and> IsNumber b then f64_eq (AsNumber a) (AsNumber b) else a = b)"

definition arrayIndex :: "lvalue \<Rightarrow> u32 \<Rightarrow> u32 option" where
  "arrayIndex key asize =
     (if \<not> IsNumber key then None
      else let f = AsNumber key; k = f64_to_u32 f
           in if f64_eq (f64_of_nat (unat k)) f \<and> 1 \<le> k \<and> k \<le> asize then Some (k - 1) else None)"

type_synonym lua_error = string

definition checkKey :: "lvalue \<Rightarrow> lua_error option" where
  "checkKey key =
     (if key = VNil then Some ''table index is nil''
      else if IsNumber key \<and> (let f = AsNumber key in \<not> f64_eq f f) then Some ''table index is NaN''
      else None)"

text \<open>The key of the \<open>i\<close>-th array slot, \<open>value.NumberValue(float64(i + 1))\<close>.\<close>

definition int_key :: "u32 \<Rightarrow> lvalue" where
  "int_key n = NumberValue (f64_of_nat (unat n))"

section \<open>Lookup\<close>

text \<open>The walk along a collision chain, to the index of the node with the key.\<close>

partial_function (option) find_node :: "arena \<Rightarrow> gcref \<Rightarrow> lvalue \<Rightarrow> int \<Rightarrow> u32 option option" where
  "find_node a t key i =
     (if i < 0 then Some None
      else do {
        k \<leftarrow> NodeKey a t (word_of_int i);
        if keyEqual k key then Some (Some (word_of_int i))
        else do {
          i \<leftarrow> NodeNext a t (word_of_int i);
          find_node a t key i } })"

declare find_node.simps [code]

definition hash_find :: "arena \<Rightarrow> gcref \<Rightarrow> lvalue \<Rightarrow> u32 \<Rightarrow> u32 option option" where
  "hash_find a t key hsize = do {
     let hmask = hsize - 1;
     h \<leftarrow> hashValue a key;
     find_node a t key (sint (h AND hmask)) }"

definition rawGet :: "arena \<Rightarrow> gcref \<Rightarrow> lvalue \<Rightarrow> lvalue option" where
  "rawGet a t key =
     (if key = VNil then Some VNil
      else do {
        let key = normKey key;
        asize \<leftarrow> TableASize a t;
        case arrayIndex key asize of
          Some i \<Rightarrow> TableArrayAt a t i
        | None \<Rightarrow> do {
            hsize \<leftarrow> TableHSize a t;
            if hsize = 0 then Some VNil
            else do {
              r \<leftarrow> hash_find a t key hsize;
              case r of Some i \<Rightarrow> NodeVal a t i | None \<Rightarrow> Some VNil } } })"

section \<open>Update\<close>

definition nodeSetVal :: "arena \<Rightarrow> gcref \<Rightarrow> u32 \<Rightarrow> lvalue \<Rightarrow> arena option" where
  "nodeSetVal a t i val = do {
     k \<leftarrow> NodeKey a t i;
     nxt \<leftarrow> NodeNext a t i;
     SetNode a t i k val nxt }"

definition nodeSetKV :: "arena \<Rightarrow> gcref \<Rightarrow> u32 \<Rightarrow> lvalue \<Rightarrow> lvalue \<Rightarrow> arena option" where
  "nodeSetKV a t i key val = do {
     nxt \<leftarrow> NodeNext a t i;
     SetNode a t i key val nxt }"

definition node_empty :: "arena \<Rightarrow> gcref \<Rightarrow> u32 \<Rightarrow> bool option" where
  "node_empty a t i = do {
     k \<leftarrow> NodeKey a t i;
     if k \<noteq> VNil then Some False
     else do {
       v \<leftarrow> NodeVal a t i;
       if v \<noteq> VNil then Some False
       else do { n \<leftarrow> NodeNext a t i; Some (n < 0) } } }"

fun scan_free :: "arena \<Rightarrow> gcref \<Rightarrow> nat \<Rightarrow> u32 option option" where
  "scan_free a t 0 = Some None"
| "scan_free a t (Suc n) = do {
     let lf = word_of_nat n;
     e \<leftarrow> node_empty a t lf;
     if e then Some (Some lf) else scan_free a t n }"

definition findFreeNode :: "arena \<Rightarrow> gcref \<Rightarrow> u32 \<Rightarrow> (u32 option \<times> arena) option" where
  "findFreeNode a t hsize = do {
     lf \<leftarrow> TableLastFree a t;
     let lf = (if hsize \<le> lf then hsize else lf);
     r \<leftarrow> scan_free a t (unat lf);
     case r of
       None \<Rightarrow> Some (None, a)
     | Some f \<Rightarrow> do { a \<leftarrow> SetTableLastFree a t f; Some (Some f, a) } }"

text \<open>The chain predecessor of an occupant.\<close>

partial_function (option) find_prev :: "arena \<Rightarrow> gcref \<Rightarrow> int \<Rightarrow> int \<Rightarrow> int option" where
  "find_prev a t mainPos prev = do {
     n \<leftarrow> NodeNext a t (word_of_int prev);
     if n \<noteq> mainPos then find_prev a t mainPos n else Some prev }"

declare find_prev.simps [code]

definition relocate :: "arena \<Rightarrow> gcref \<Rightarrow> u32 \<Rightarrow> u32 \<Rightarrow> u32 \<Rightarrow> lvalue \<Rightarrow> lvalue \<Rightarrow> lvalue \<Rightarrow> arena option" where
  "relocate a t mainPos free occMain occKey key val = do {
     prev \<leftarrow> find_prev a t (sint mainPos) (sint occMain);
     occVal \<leftarrow> NodeVal a t mainPos;
     occNext \<leftarrow> NodeNext a t mainPos;
     a \<leftarrow> SetNode a t free occKey occVal occNext;
     pk \<leftarrow> NodeKey a t (word_of_int prev);
     pv \<leftarrow> NodeVal a t (word_of_int prev);
     a \<leftarrow> SetNode a t (word_of_int prev) pk pv (sint free);
     a \<leftarrow> SetNode a t mainPos key val (-1);
     BumpGen a t }"

definition chain_in :: "arena \<Rightarrow> gcref \<Rightarrow> u32 \<Rightarrow> u32 \<Rightarrow> lvalue \<Rightarrow> lvalue \<Rightarrow> lvalue \<Rightarrow> arena option" where
  "chain_in a t mainPos free occKey key val = do {
     mainNext \<leftarrow> NodeNext a t mainPos;
     a \<leftarrow> SetNode a t free key val mainNext;
     mv \<leftarrow> NodeVal a t mainPos;
     SetNode a t mainPos occKey mv (sint free) }"

section \<open>Sizing a rehash\<close>

definition collect_array :: "arena \<Rightarrow> gcref \<Rightarrow> (lvalue \<times> lvalue) list \<Rightarrow> u32 \<Rightarrow> (lvalue \<times> lvalue) list option" where
  "collect_array a t al i = do {
     v \<leftarrow> TableArrayAt a t i;
     Some (if v \<noteq> VNil then al @ [(int_key (i + 1), v)] else al) }"

definition collect_node :: "arena \<Rightarrow> gcref \<Rightarrow> (lvalue \<times> lvalue) list \<Rightarrow> u32 \<Rightarrow> (lvalue \<times> lvalue) list option" where
  "collect_node a t al i = do {
     k \<leftarrow> NodeKey a t i;
     v \<leftarrow> NodeVal a t i;
     Some (if k \<noteq> VNil \<and> v \<noteq> VNil then al @ [(k, v)] else al) }"

text \<open>The bucket \<open>ceil(log2 u)\<close>, at most 31.\<close>

function int_bucket :: "u32 \<Rightarrow> nat \<Rightarrow> nat" where
  "int_bucket u b = (if b < 31 \<and> push_bit b 1 < u then int_bucket u (Suc b) else b)"
  by pat_completeness auto
termination by (relation "measure (\<lambda>(u, b). 31 - b)") auto

declare int_bucket.simps [simp del]

text \<open>The statistics are (count per bucket, total, largest key).\<close>

type_synonym key_stats = "(nat \<Rightarrow> u32) \<times> u32 \<times> u32"

definition countIntKey :: "key_stats \<Rightarrow> lvalue \<Rightarrow> key_stats" where
  "countIntKey st k = (let (intCount, totalInt, maxKey) = st in
     if \<not> IsNumber k then st
     else let f = AsNumber k; u = f64_to_u32 f in
       if \<not> f64_eq (f64_of_nat (unat u)) f \<or> u < 1 then st
       else let totalInt = totalInt + 1; maxKey = (if maxKey < u then u else maxKey); b = int_bucket u 0
            in (intCount(b := intCount b + 1), totalInt, maxKey))"

definition maxArraySize :: u32 where "maxArraySize = push_bit 24 1"

function choose_asize :: "(nat \<Rightarrow> u32) \<Rightarrow> u32 \<Rightarrow> nat \<Rightarrow> u32 \<Rightarrow> u32 \<Rightarrow> u32" where
  "choose_asize intCount maxKey b acc best =
     (if 31 < b then best
      else let acc = acc + intCount b; size = push_bit b 1 in
        if maxArraySize < size then best
        else let best = (if size div 2 < acc then size else best) in
          if maxKey \<le> size then best else choose_asize intCount maxKey (Suc b) acc best)"
  by pat_completeness auto
termination by (relation "measure (\<lambda>(ic, mk, b, acc, best). 32 - b)") auto

declare choose_asize.simps [simp del]

partial_function (option) hsize_loop :: "u32 \<Rightarrow> u32 \<Rightarrow> u32 option" where
  "hsize_loop nHash newHSize =
     (if newHSize < nHash + 1 then hsize_loop nHash (push_bit 1 newHSize) else Some newHSize)"

declare hsize_loop.simps [code]

definition in_array :: "u32 \<Rightarrow> lvalue \<Rightarrow> bool" where
  "in_array asize k \<longleftrightarrow> arrayIndex (normKey k) asize \<noteq> None"

definition hash_count :: "(lvalue \<times> lvalue) list \<Rightarrow> lvalue \<Rightarrow> u32 \<Rightarrow> u32" where
  "hash_count al extraKey bestASize =
     (let nHash = word_of_nat (length al) + 1 in
      if 0 < bestASize
      then let inArray = word_of_nat (length (filter (\<lambda>e. in_array bestASize (fst e)) al));
               inArray = (if in_array bestASize extraKey then inArray + 1 else inArray)
           in nHash - inArray
      else nHash)"

text \<open>The two sizes, from the live pairs and the key about to be inserted.\<close>

definition best_asize :: "(lvalue \<times> lvalue) list \<Rightarrow> lvalue \<Rightarrow> u32" where
  "best_asize al extraKey =
     (let stats = foldl (\<lambda>s e. countIntKey s (fst e)) (\<lambda>_. 0, 0, 0) al;
          (intCount, totalInt, maxKey) = countIntKey stats extraKey
      in choose_asize intCount maxKey 0 0 0)"

definition new_hsize :: "u32 \<Rightarrow> u32 option" where
  "new_hsize nHash = do {
     newHSize \<leftarrow> hsize_loop nHash 1;
     Some (if nHash = 0 then 0 else newHSize) }"

definition live_pairs :: "arena \<Rightarrow> gcref \<Rightarrow> u32 \<Rightarrow> u32 \<Rightarrow> (lvalue \<times> lvalue) list option" where
  "live_pairs a t asize hsize = do {
     al \<leftarrow> ofold (collect_array a t) [] (upto_word asize);
     ofold (collect_node a t) al (upto_word hsize) }"

text \<open>Steps 4: allocate the new parts, install them, free the old ones.\<close>

definition alloc_part ::
    "(arena \<Rightarrow> u32 \<Rightarrow> (gcref \<times> arena) option) \<Rightarrow> collector \<Rightarrow> u32 \<Rightarrow> u32 \<Rightarrow> (gcref \<times> collector) option" where
  "alloc_part alloc c n bytes =
     (if 0 < n then do {
        (r, a) \<leftarrow> alloc (c_a c) n;
        c \<leftarrow> AllocCharge (c\<lparr>c_a := a\<rparr>) bytes;
        Some (r, c) }
      else Some (0, c))"

definition swap_parts :: "collector \<Rightarrow> gcref \<Rightarrow> u32 \<Rightarrow> u32 \<Rightarrow> u32 \<Rightarrow> u32 \<Rightarrow> collector option" where
  "swap_parts c t asize hsize bestASize newHSize = do {
     oldArr \<leftarrow> TableArrayRef (c_a c) t;
     oldNode \<leftarrow> TableNodeRef (c_a c) t;
     (newArr, c) \<leftarrow> alloc_part AllocTableArray c bestASize (bestASize * 8);
     (newNode, c) \<leftarrow> alloc_part AllocTableNode c newHSize (newHSize * 3 * 8);
     a \<leftarrow> SetTableArray (c_a c) t newArr bestASize;
     a \<leftarrow> SetTableNode a t newNode newHSize;
     a \<leftarrow> SetTableLastFree a t newHSize;
     a \<leftarrow> BumpGen a t;
     a \<leftarrow> (if \<not> IsNull oldArr then Free a oldArr (asize * 8) else Some a);
     a \<leftarrow> (if \<not> IsNull oldNode then Free a oldNode (hsize * 3 * 8) else Some a);
     Some (c\<lparr>c_a := a\<rparr>) }"

section \<open>Insertion\<close>

definition on_arena :: "collector \<Rightarrow> arena option \<Rightarrow> (lua_error option \<times> collector) option" where
  "on_arena c m = do { a \<leftarrow> m; Some (None, c\<lparr>c_a := a\<rparr>) }"

fun rawSet :: "nat \<Rightarrow> collector \<Rightarrow> gcref \<Rightarrow> lvalue \<Rightarrow> lvalue \<Rightarrow> (lua_error option \<times> collector) option"
and insertNewKey :: "nat \<Rightarrow> collector \<Rightarrow> gcref \<Rightarrow> lvalue \<Rightarrow> lvalue \<Rightarrow> (lua_error option \<times> collector) option"
and rehash :: "nat \<Rightarrow> collector \<Rightarrow> gcref \<Rightarrow> lvalue \<Rightarrow> collector option" where
  "rawSet 0 c t key val = None"
| "rawSet (Suc n) c t key val =
     (case checkKey key of
        Some e \<Rightarrow> Some (Some e, c)
      | None \<Rightarrow> do {
          let key = normKey key;
          asize \<leftarrow> TableASize (c_a c) t;
          case arrayIndex key asize of
            Some i \<Rightarrow> on_arena c (SetTableArrayAt (c_a c) t i val)
          | None \<Rightarrow> do {
              hsize \<leftarrow> TableHSize (c_a c) t;
              r \<leftarrow> (if 0 < hsize then hash_find (c_a c) t key hsize else Some None);
              case r of
                Some i \<Rightarrow>
                  if val = VNil
                  then on_arena c (do { a \<leftarrow> nodeSetKV (c_a c) t i VNil VNil; BumpGen a t })
                  else on_arena c (nodeSetVal (c_a c) t i val)
              | None \<Rightarrow>
                  if val = VNil then Some (None, c) else insertNewKey n c t key val } })"
| "insertNewKey 0 c t key val = None"
| "insertNewKey (Suc n) c t key val = do {
     hsize \<leftarrow> TableHSize (c_a c) t;
     if hsize = 0 then do { c \<leftarrow> rehash n c t key; rawSet n c t key val }
     else do {
       let hmask = hsize - 1;
       h \<leftarrow> hashValue (c_a c) key;
       let mainPos = h AND hmask;
       e \<leftarrow> node_empty (c_a c) t mainPos;
       if e then on_arena c (SetNode (c_a c) t mainPos key val (-1))
       else do {
         (f, a) \<leftarrow> findFreeNode (c_a c) t hsize;
         let c = c\<lparr>c_a := a\<rparr>;
         case f of
           None \<Rightarrow> do { c \<leftarrow> rehash n c t key; rawSet n c t key val }
         | Some free \<Rightarrow> do {
             occKey \<leftarrow> NodeKey a t mainPos;
             oh \<leftarrow> hashValue a occKey;
             let occMain = oh AND hmask;
             if occKey \<noteq> VNil \<and> occMain \<noteq> mainPos
             then on_arena c (relocate a t mainPos free occMain occKey key val)
             else on_arena c (chain_in a t mainPos free occKey key val) } } } }"
| "rehash 0 c t extraKey = None"
| "rehash (Suc n) c t extraKey = do {
     asize \<leftarrow> TableASize (c_a c) t;
     hsize \<leftarrow> TableHSize (c_a c) t;
     al \<leftarrow> live_pairs (c_a c) t asize hsize;
     let bestASize = best_asize al extraKey;
     newHSize \<leftarrow> new_hsize (hash_count al extraKey bestASize);
     c \<leftarrow> swap_parts c t asize hsize bestASize newHSize;
     ofold (\<lambda>c e. map_option snd (rawSet n c t (fst e) (snd e))) c al }"

section \<open>Border and traversal\<close>

partial_function (option) border_search :: "arena \<Rightarrow> gcref \<Rightarrow> u32 \<Rightarrow> u32 \<Rightarrow> u32 option" where
  "border_search a t lo hi =
     (if 1 < hi - lo then do {
        let m = (lo + hi) div 2;
        v \<leftarrow> TableArrayAt a t (m - 1);
        if v = VNil then border_search a t lo m else border_search a t m hi }
      else Some lo)"

declare border_search.simps [code]

partial_function (option) border_probe :: "arena \<Rightarrow> gcref \<Rightarrow> u32 \<Rightarrow> u32 option" where
  "border_probe a t n = do {
     v \<leftarrow> rawGet a t (int_key (n + 1));
     if v = VNil then Some n else border_probe a t (n + 1) }"

declare border_probe.simps [code]

definition rawBorder :: "arena \<Rightarrow> gcref \<Rightarrow> u32 option" where
  "rawBorder a t = do {
     asize \<leftarrow> TableASize a t;
     inside \<leftarrow> (if 0 < asize then do { v \<leftarrow> TableArrayAt a t (asize - 1); Some (v = VNil) } else Some False);
     if inside then border_search a t 0 asize else border_probe a t asize }"

text \<open>The first live array slot from \<open>i\<close> on, and the first live node, as the pair to return.\<close>

fun next_array :: "arena \<Rightarrow> gcref \<Rightarrow> u32 list \<Rightarrow> (lvalue \<times> lvalue) option option" where
  "next_array a t [] = Some None"
| "next_array a t (i # rest) = do {
     v \<leftarrow> TableArrayAt a t i;
     if v \<noteq> VNil then Some (Some (int_key (i + 1), v)) else next_array a t rest }"

fun next_node :: "arena \<Rightarrow> gcref \<Rightarrow> u32 list \<Rightarrow> (lvalue \<times> lvalue) option option" where
  "next_node a t [] = Some None"
| "next_node a t (i # rest) = do {
     k \<leftarrow> NodeKey a t i;
     v \<leftarrow> NodeVal a t i;
     if k \<noteq> VNil \<and> v \<noteq> VNil then Some (Some (k, v)) else next_node a t rest }"

text \<open>Where the traversal continues: an error, an array index, or a node index.\<close>

datatype next_start = InvalidKey | FromArray u32 | FromNode u32

definition next_from :: "arena \<Rightarrow> gcref \<Rightarrow> u32 \<Rightarrow> u32 \<Rightarrow> lvalue \<Rightarrow> next_start option" where
  "next_from a t asize hsize key =
     (if key = VNil then Some (FromArray 0)
      else let key = normKey key in
        case arrayIndex key asize of
          Some i \<Rightarrow> Some (FromArray (i + 1))
        | None \<Rightarrow> do {
            r \<leftarrow> (if 0 < hsize then hash_find a t key hsize else Some None);
            Some (case r of Some i \<Rightarrow> FromNode (i + 1) | None \<Rightarrow> InvalidKey) })"

definition rawNext :: "arena \<Rightarrow> gcref \<Rightarrow> lvalue \<Rightarrow> (lua_error + (lvalue \<times> lvalue) option) option" where
  "rawNext a t key = do {
     asize \<leftarrow> TableASize a t;
     hsize \<leftarrow> TableHSize a t;
     s \<leftarrow> next_from a t asize hsize key;
     case s of
       InvalidKey \<Rightarrow> Some (Inl (''invalid key to '' @ [CHR 0x27] @ ''next'' @ [CHR 0x27]))
     | FromArray i \<Rightarrow> do {
         r \<leftarrow> next_array a t (drop (unat i) (upto_word asize));
         case r of
           Some kv \<Rightarrow> Some (Inr (Some kv))
         | None \<Rightarrow> do { r \<leftarrow> next_node a t (upto_word hsize); Some (Inr r) } }
     | FromNode i \<Rightarrow> do {
         r \<leftarrow> next_node a t (drop (unat i) (upto_word hsize));
         Some (Inr r) } }"

end
