(* ===== verification/InternSpec.thy ===== *)
theory InternSpec
  imports Collector ObjectAlloc "HOL-Library.Multiset"
begin

text \<open>
  Correctness of the string table of \<open>internal/gc/intern.go\<close>: the hash always returns, the table is a
  set of live string objects with pairwise different contents, interning finds or adds, growing
  keeps the set, removal removes one reference.
\<close>

section \<open>The hash\<close>

lemma hash_loop_total:
  assumes "0 < unat st" "unat i \<le> length b"
  shows "\<exists>h'. hash_loop b st i h = Some h'"
  using assms(2)
proof (induction "unat i" arbitrary: i h rule: less_induct)
  case less
  show ?case
  proof (cases "i < st")
    case True
    then show ?thesis by (subst hash_loop.simps) simp
  next
    case False
    then have le: "unat st \<le> unat i" by (simp add: not_less word_le_nat_alt)
    then have "unat (i - 1) < length b" "unat (i - st) < unat i"
      using assms(1) less.prems by (simp_all add: unat_sub word_le_nat_alt)
    moreover from this have "\<exists>h'. hash_loop b st (i - st) h2 = Some h'" for h2
      using less.hyps [of "i - st" h2] less.prems by simp
    ultimately show ?thesis using False by (subst hash_loop.simps) (simp add: nth_opt_def)
  qed
qed

lemma step_pos: "0 < unat (drop_bit 5 (l :: u32) + 1)"
proof -
  have "unat l < 2 ^ 32" using unsigned_less [of l] by simp
  then have "unat (drop_bit 5 l) < 2 ^ 27"
    by (simp add: drop_bit_eq_div unat_div div_less_iff_less_mult)
  then have "unat (drop_bit 5 l + 1) = unat (drop_bit 5 l) + 1" by (simp add: unat_word_ariths)
  then show ?thesis by simp
qed

text \<open>The string hash is total: for every byte string, of any length, the sampling loop ends and never
  reads out of range.\<close>

lemma HashString_total: "HashString b \<noteq> None"
proof -
  have "unat (word_of_nat (length b) :: u32) \<le> length b" by (simp add: unat_of_nat)
  with hash_loop_total [OF step_pos] show ?thesis by (metis HashString_def option.distinct(1))
qed

lemma HashString_ex: "\<exists>h. HashString b = Some h"
proof -
  have "unat (word_of_nat (length b) :: u32) \<le> length b" by (simp add: unat_of_nat)
  with hash_loop_total [OF step_pos] show ?thesis by (simp add: HashString_def Let_def)
qed

section \<open>String objects in a live block\<close>

definition string_at :: "arena \<Rightarrow> (nat \<times> nat) set \<Rightarrow> gcref \<Rightarrow> u8 list \<Rightarrow> u32 \<Rightarrow> bool" where
  "string_at a L r b h \<longleftrightarrow> aligned r \<and> length b \<le> 2 ^ 31 \<and>
     (\<exists>n. (idx r, n) \<in> L \<and> 2 + (length b + 8) div 8 \<le> n) \<and>
     a_words a ! (idx r + 1) = ucast h OR push_bit 32 (ucast (word_of_nat (length b) :: u32)) \<and>
     (\<forall>j<length b. byteAt (a_words a) (8 * (idx r + 2) + j) = b ! j)"

lemma string_at_read:
  assumes "arena_inv a L" "string_at a L r b h"
  shows "StringBytes a r = Some b" "StringLen a r = Some (word_of_nat (length b))" "StringHash a r = Some h"
    "unat (word_of_nat (length b) :: u32) = length b"
proof -
  from assms(2) obtain n where s: "aligned r" "length b \<le> 2 ^ 31" "(idx r, n) \<in> L" "2 + (length b + 8) div 8 \<le> n"
    "a_words a ! (idx r + 1) = ucast h OR push_bit 32 (ucast (word_of_nat (length b) :: u32))"
    "\<And>j. j < length b \<Longrightarrow> byteAt (a_words a) (8 * (idx r + 2) + j) = b ! j"
    unfolding string_at_def by blast
  have bk: "blk a r n" by (rule arena_inv_blk [OF assms(1) s(3,1)])
  show ul: "unat (word_of_nat (length b) :: u32) = length b"
    using s(2) by (intro unat_word_of_nat_lt) simp
  have rd: "wordAt a r 1 = Some (ucast h OR push_bit 32 (ucast (word_of_nat (length b) :: u32)))"
    using wordAt_blk [OF bk, of 1] s(4,5) by simp
  show hs: "StringLen a r = Some (word_of_nat (length b))" "StringHash a r = Some h"
    unfolding StringHash_def StringLen_def strHashLenIdx_def rd bind.bind_lunit pack32 by simp_all
  have len: "idx r + 2 + (length b + 8) div 8 \<le> length (a_words a)" "length (a_words a) \<le> 2 ^ 28"
    using bk s(4) by (simp_all add: blk_def)
  have "unat (ucast r :: u32) = unat r" using aligned_eq [OF s(1)] len by (simp add: unat_ucast_down)
  then have off: "unat (ucast r + strDataIdx * 8 :: u32) = 8 * (idx r + 2)"
    using aligned_eq [OF s(1)] len by (simp add: strDataIdx_def unat_word_ariths)
  have "length b < 8 * ((length b + 8) div 8)" by linarith
  then have fit: "8 * (idx r + 2) + length b \<le> length (a_words a) * 8" using fit_words len(1) less_imp_le by blast
  then have "unat (ucast r + strDataIdx * 8 + word_of_nat (length b) :: u32) = 8 * (idx r + 2) + length b"
    using off ul len by (simp add: unat_word_ariths)
  then show "StringBytes a r = Some b"
    using hs(1) off fit s(6) ul
    by (auto simp: StringBytes_def Let_def bytesSlice_def word_unat_eq_iff intro!: nth_equalityI)
qed

text \<open>A string survives what leaves the body of its block alone.\<close>

lemma string_at_frame:
  assumes "string_at a L r b h" "L \<subseteq> L'"
    and "\<And>n k. (idx r, n) \<in> L \<Longrightarrow> 0 < k \<Longrightarrow> k < n \<Longrightarrow> a_words a' ! (idx r + k) = a_words a ! (idx r + k)"
  shows "string_at a' L' r b h"
proof -
  from assms(1) obtain n where n: "(idx r, n) \<in> L" "2 + (length b + 8) div 8 \<le> n"
    and s: "aligned r" "length b \<le> 2 ^ 31"
    "a_words a ! (idx r + 1) = ucast h OR push_bit 32 (ucast (word_of_nat (length b) :: u32))"
    "\<And>j. j < length b \<Longrightarrow> byteAt (a_words a) (8 * (idx r + 2) + j) = b ! j"
    unfolding string_at_def by blast
  have "byteAt (a_words a') (8 * (idx r + 2) + j) = byteAt (a_words a) (8 * (idx r + 2) + j)" if "j < length b" for j
  proof -
    have "2 + j div 8 < n" using n(2) that by linarith
    then have "a_words a' ! (idx r + (j div 8 + 2)) = a_words a ! (idx r + (j div 8 + 2))"
      using assms(3) [OF n(1), of "j div 8 + 2"] by simp
    then show ?thesis unfolding byteAt_def word_of_byte by simp
  qed
  moreover have "a_words a' ! (idx r + 1) = a_words a ! (idx r + 1)" by (rule assms(3) [OF n(1)]) (use n(2) in simp_all)
  ultimately show ?thesis using n s assms(2) unfolding string_at_def by auto
qed

lemma string_at_keeps: "string_at a L r b h \<Longrightarrow> keeps a a' L \<Longrightarrow> L \<subseteq> L' \<Longrightarrow> string_at a' L' r b h"
  by (erule string_at_frame, assumption) (fastforce simp: keeps_def)

lemma AllocString_string_at:
  assumes "arena_inv a L" "AllocString a b h = Some (r, a')"
  shows "\<exists>n. made a L a' r n \<and> string_at a' (insert (idx r, block_words n) L) r b h \<and> 3 \<le> block_words n"
proof -
  from AllocString_run [OF assms] obtain a1 ws where s:
    "length b \<le> 2 ^ 31" "a' = a1\<lparr>a_words := ws\<rparr>"
    "made a L a' r (stringWords (word_of_nat (length b)) * 8)"
    "ws ! (idx r + 1) = ucast h OR push_bit 32 (ucast (word_of_nat (length b) :: u32))"
    "2 + (length b + 8) div 8 \<le> block_words (stringWords (word_of_nat (length b)) * 8)"
    "\<And>j. j < length b \<Longrightarrow> byteAt ws (8 * (idx r + 2) + j) = b ! j" by metis
  from s(3) have "aligned r" by (simp add: made_def)
  with s have "string_at a' (insert (idx r, block_words (stringWords (word_of_nat (length b)) * 8)) L) r b h"
    unfolding string_at_def by auto
  with s(3,5) show ?thesis by (intro exI [of _ "stringWords (word_of_nat (length b)) * 8"]) auto
qed

section \<open>The table\<close>

definition interned :: "collector \<Rightarrow> gcref set" where
  "interned c = set (concat (c_strBuckets c))"

text \<open>The place of a string: its bucket.\<close>

definition placed :: "arena \<Rightarrow> (nat \<times> nat) set \<Rightarrow> u32 \<Rightarrow> nat \<Rightarrow> gcref \<Rightarrow> bool" where
  "placed a L msk i r \<longleftrightarrow> (\<exists>b h. string_at a L r b h \<and> HashString b = Some h \<and> unat (h AND msk) = i)"

definition buckets_ok :: "arena \<Rightarrow> (nat \<times> nat) set \<Rightarrow> u32 \<Rightarrow> gcref list list \<Rightarrow> bool" where
  "buckets_ok a L msk bs \<longleftrightarrow>
     (\<exists>k\<le>28. length bs = 2 ^ k \<and> unat msk = 2 ^ k - 1) \<and>
     (\<forall>i<length bs. \<forall>r\<in>set (bs ! i). placed a L msk i r) \<and>
     distinct (concat bs) \<and> inj_on (StringBytes a) (set (concat bs))"

definition pending_ok :: "collector \<Rightarrow> (nat \<times> nat) set \<Rightarrow> bool" where
  "pending_ok c L \<longleftrightarrow> c_gcPendingRef c = 0 \<or>
     (\<exists>(i, n)\<in>L. aligned (c_gcPendingRef c) \<and> i \<le> idx (c_gcPendingRef c) \<and> idx (c_gcPendingRef c) < i + n \<and>
        i \<notin> idx ` interned c)"

definition intern_inv :: "collector \<Rightarrow> (nat \<times> nat) set \<Rightarrow> bool" where
  "intern_inv c L \<longleftrightarrow> arena_inv (c_a c) L \<and> buckets_ok (c_a c) L (c_strMask c) (c_strBuckets c) \<and>
     unat (c_strCount c) = length (concat (c_strBuckets c)) \<and> pending_ok c L"

text \<open>The word the pending-collection flag is mirrored to, when there is one, lies in a live block.\<close>

definition pending_in :: "collector \<Rightarrow> (nat \<times> nat) set \<Rightarrow> bool" where
  "pending_in c L \<longleftrightarrow> c_gcPendingRef c = 0 \<or>
     (\<exists>(i, n)\<in>L. aligned (c_gcPendingRef c) \<and> i \<le> idx (c_gcPendingRef c) \<and> idx (c_gcPendingRef c) < i + n)"

lemma pending_ok_in: "pending_ok c L \<Longrightarrow> pending_in c L"
  by (auto simp: pending_ok_def pending_in_def)

lemma buckets_okI:
  assumes "k \<le> 28" "length bs = 2 ^ k" "unat msk = 2 ^ k - 1"
    "\<And>i r. i < length bs \<Longrightarrow> r \<in> set (bs ! i) \<Longrightarrow> placed a L msk i r"
    "distinct (concat bs)" "inj_on (StringBytes a) (set (concat bs))"
  shows "buckets_ok a L msk bs"
  using assms unfolding buckets_ok_def by blast

lemma bucket_index: "buckets_ok a L msk bs \<Longrightarrow> unat (h AND msk) < length bs"
proof -
  assume "buckets_ok a L msk bs"
  then obtain k where "length bs = 2 ^ k" "unat msk = 2 ^ k - 1" unfolding buckets_ok_def by blast
  moreover have "unat (h AND msk) \<le> unat msk" using word_and_le1 [of h msk] by (simp add: word_le_nat_alt)
  moreover have "0 < (2 :: nat) ^ k" by simp
  ultimately show ?thesis by linarith
qed

lemma interned_nth: "r \<in> set (concat bs) \<longleftrightarrow> (\<exists>i<length bs. r \<in> set (bs ! i))"
  by (auto simp: in_set_conv_nth) (metis in_set_conv_nth nth_mem)+

lemma placed_string: "buckets_ok a L msk bs \<Longrightarrow> r \<in> set (concat bs) \<Longrightarrow>
    \<exists>b h. string_at a L r b h \<and> HashString b = Some h \<and> r \<in> set (bs ! unat (h AND msk))"
  unfolding buckets_ok_def placed_def interned_nth by metis

section \<open>Searching a bucket\<close>

lemma stringMatches_ok:
  assumes "arena_inv (c_a c) L" "string_at (c_a c) L r b' h'" "HashString b' = Some h'"
    "HashString b = Some h" "length b < 2 ^ 32"
  shows "stringMatches c r h b = Some (b' = b)"
proof -
  note rd = string_at_read [OF assms(1,2)]
  have "unat (word_of_nat (length b) :: u32) = length b" using assms(5) by (intro unat_word_of_nat_lt) simp
  with rd(4) have "(word_of_nat (length b') = (word_of_nat (length b) :: u32)) \<longleftrightarrow> length b' = length b"
    by (simp add: word_unat_eq_iff)
  moreover have "h' = h" if "b' = b" using that assms(3,4) by simp
  ultimately show ?thesis
    using rd by (auto simp: stringMatches_def intro: nth_equalityI)
qed

lemma find_match_ok:
  assumes "arena_inv (c_a c) L" "HashString b = Some h" "length b < 2 ^ 32"
    "\<And>r. r \<in> set rs \<Longrightarrow> \<exists>b' h'. string_at (c_a c) L r b' h' \<and> HashString b' = Some h'"
  shows "\<exists>res. find_match c h b rs = Some res \<and>
    (case res of Some r \<Rightarrow> r \<in> set rs \<and> StringBytes (c_a c) r = Some b
     | None \<Rightarrow> \<forall>r\<in>set rs. StringBytes (c_a c) r \<noteq> Some b)"
  using assms(4)
proof (induction rs)
  case Nil
  then show ?case by simp
next
  case (Cons r rs)
  obtain b' h' where s: "string_at (c_a c) L r b' h'" "HashString b' = Some h'" using Cons.prems [of r] by auto
  have m: "stringMatches c r h b = Some (b' = b)" by (rule stringMatches_ok [OF assms(1) s assms(2,3)])
  have rd: "StringBytes (c_a c) r = Some b'" by (rule string_at_read [OF assms(1) s(1)])
  obtain res where res: "find_match c h b rs = Some res"
    "case res of Some r \<Rightarrow> r \<in> set rs \<and> StringBytes (c_a c) r = Some b
     | None \<Rightarrow> \<forall>r\<in>set rs. StringBytes (c_a c) r \<noteq> Some b" using Cons by force
  show ?case
  proof (cases "b' = b")
    case True
    then show ?thesis using m rd by simp
  next
    case False
    then show ?thesis using m rd res by (intro exI [of _ res]) (auto split: option.splits)
  qed
qed

lemma bucket_search:
  assumes "intern_inv c L" "HashString b = Some h" "length b < 2 ^ 32"
  defines "i \<equiv> unat (h AND c_strMask c)"
  shows "\<exists>res. find_match c h b (c_strBuckets c ! i) = Some res \<and>
    (case res of Some r \<Rightarrow> r \<in> interned c \<and> StringBytes (c_a c) r = Some b
     | None \<Rightarrow> \<forall>r\<in>interned c. StringBytes (c_a c) r \<noteq> Some b)"
proof -
  have inv: "arena_inv (c_a c) L" "buckets_ok (c_a c) L (c_strMask c) (c_strBuckets c)"
    using assms(1) by (simp_all add: intern_inv_def)
  have i: "i < length (c_strBuckets c)" unfolding i_def by (rule bucket_index [OF inv(2)])
  have "\<exists>b' h'. string_at (c_a c) L r b' h' \<and> HashString b' = Some h'" if "r \<in> set (c_strBuckets c ! i)" for r
    using inv(2) i that unfolding buckets_ok_def placed_def by blast
  then obtain res where res: "find_match c h b (c_strBuckets c ! i) = Some res"
    "case res of Some r \<Rightarrow> r \<in> set (c_strBuckets c ! i) \<and> StringBytes (c_a c) r = Some b
     | None \<Rightarrow> \<forall>r\<in>set (c_strBuckets c ! i). StringBytes (c_a c) r \<noteq> Some b"
    using find_match_ok [OF inv(1) assms(2,3)] by blast
  have "r \<in> set (c_strBuckets c ! i)" if "r \<in> interned c" "StringBytes (c_a c) r = Some b" for r
    using placed_string [OF inv(2), of r] that string_at_read(1) [OF inv(1)] assms(2) unfolding interned_def i_def
    by (metis option.inject)
  then show ?thesis using res i
    by (intro exI [of _ res]) (auto simp: interned_def interned_nth split: option.splits)
qed

section \<open>Growing the table\<close>

lemma mset_concat_update:
  "i < length bs \<Longrightarrow> mset (concat (bs[i := xs])) + mset (bs ! i) = mset (concat bs) + mset xs"
proof (induction bs arbitrary: i)
  case (Cons b bs)
  then show ?case by (cases i) (auto simp: algebra_simps)
qed simp

lemma mset_concat_snoc:
  "i < length bs \<Longrightarrow> mset (concat (bs[i := bs ! i @ [r]])) = add_mset r (mset (concat bs))"
  using mset_concat_update [of i bs "bs ! i @ [r]"] by simp

lemma mset_same:
  assumes "mset xs = mset ys"
  shows "set xs = set ys" "distinct xs = distinct ys" "length xs = length ys"
  using assms mset_eq_setD mset_eq_imp_distinct_iff mset_eq_length by blast+

lemma placed_hash: "arena_inv a L \<Longrightarrow> placed a L m i r \<Longrightarrow>
    \<exists>h. StringHash a r = Some h \<and> unat (h AND m) = i"
  unfolding placed_def using string_at_read(3) by blast

lemma placed_rehash: "placed a L m i r \<Longrightarrow> \<exists>j. placed a L m' j r"
  unfolding placed_def by blast

lemma rehash_list:
  assumes "arena_inv a L" "unat m < length bs"
    and "\<And>r. r \<in> set rs \<Longrightarrow> \<exists>i. placed a L m i r"
    and "\<And>i r. i < length bs \<Longrightarrow> r \<in> set (bs ! i) \<Longrightarrow> placed a L m i r"
  shows "\<exists>bs'. ofold (rehash_one a m) bs rs = Some bs' \<and> length bs' = length bs \<and>
    mset (concat bs') = mset (concat bs) + mset rs \<and>
    (\<forall>i<length bs'. \<forall>r\<in>set (bs' ! i). placed a L m i r)"
  using assms(2-4)
proof (induction rs arbitrary: bs)
  case Nil
  then show ?case by simp
next
  case (Cons r rs)
  obtain i where i: "placed a L m i r" using Cons.prems(2) [of r] by auto
  then obtain h where h: "StringHash a r = Some h" "unat (h AND m) = i" using placed_hash [OF assms(1)] by blast
  have lt: "i < length bs" using word_and_le1 [of h m] h(2) Cons.prems(1) by (simp add: word_le_nat_alt)
  define bs1 where "bs1 = bs[i := bs ! i @ [r]]"
  have one: "rehash_one a m bs r = Some bs1" using h lt by (simp add: rehash_one_def nth_opt_def bs1_def Let_def)
  have pl: "placed a L m j q" if "j < length bs1" "q \<in> set (bs1 ! j)" for j q
    using that i Cons.prems(3) lt by (cases "j = i") (auto simp: bs1_def)
  have len: "length bs1 = length bs" by (simp add: bs1_def)
  from Cons.IH [of bs1] obtain bs' where "ofold (rehash_one a m) bs1 rs = Some bs'" "length bs' = length bs1"
    "mset (concat bs') = mset (concat bs1) + mset rs" "\<forall>i<length bs'. \<forall>r\<in>set (bs' ! i). placed a L m i r"
    using Cons.prems(1,2) pl len by auto
  then show ?case using one len mset_concat_snoc [OF lt, of r] by (simp add: bs1_def)
qed

lemma ofold_concat: "ofold (\<lambda>s xs. ofold f s xs) s xss = ofold f s (concat xss)"
  by (induction xss arbitrary: s) (auto simp: ofold_append)

lemma rehash_ok:
  assumes "arena_inv (c_a c) L" "buckets_ok (c_a c) L (c_strMask c) (c_strBuckets c)"
    "length (c_strBuckets c) < 2 ^ 28"
  shows "\<exists>bs m. rehashStringTable c = Some (c\<lparr>c_strBuckets := bs, c_strMask := m\<rparr>) \<and>
    mset (concat bs) = mset (concat (c_strBuckets c)) \<and> buckets_ok (c_a c) L m bs"
proof -
  let ?m = "c_strMask c * 2 + 1"
  obtain k where k: "k \<le> 28" "length (c_strBuckets c) = 2 ^ k" "unat (c_strMask c) = 2 ^ k - 1"
    using assms(2) unfolding buckets_ok_def by blast
  have k28: "k < 28" using assms(3) unfolding k(2) by (rule power_less_imp_less_exp [rotated]) simp
  then have "(2 :: nat) ^ Suc k \<le> 2 ^ 28" by (intro power_increasing) auto
  moreover have k3: "2 ^ k = unat (c_strMask c) + 1" using k(3) by simp
  ultimately have m: "unat ?m = 2 ^ Suc k - 1" unfolding power_Suc k3 by (simp add: unat_word_ariths)
  have m1: "unat (?m + 1) = 2 ^ Suc k" using m \<open>2 ^ Suc k \<le> 2 ^ 28\<close>
    by (subst unat_plus_if') (simp del: power_Suc)
  let ?e = "replicate (unat (?m + 1)) ([] :: gcref list)"
  have "\<exists>bs'. ofold (rehash_one (c_a c) ?m) ?e (concat (c_strBuckets c)) = Some bs' \<and> length bs' = length ?e \<and>
    mset (concat bs') = mset (concat ?e) + mset (concat (c_strBuckets c)) \<and>
    (\<forall>i<length bs'. \<forall>r\<in>set (bs' ! i). placed (c_a c) L ?m i r)"
  proof (rule rehash_list [OF assms(1)])
    show "unat ?m < length ?e" using m m1 by simp
    show "\<exists>i. placed (c_a c) L ?m i r" if "r \<in> set (concat (c_strBuckets c))" for r
      using placed_string [OF assms(2) that] unfolding placed_def by blast
  qed auto
  then obtain bs where bs: "ofold (rehash_one (c_a c) ?m) ?e (concat (c_strBuckets c)) = Some bs"
    "length bs = 2 ^ Suc k" "mset (concat bs) = mset (concat (c_strBuckets c))"
    "\<And>i r. i < length bs \<Longrightarrow> r \<in> set (bs ! i) \<Longrightarrow> placed (c_a c) L ?m i r"
    using m1 by auto
  have "buckets_ok (c_a c) L ?m bs"
    by (rule buckets_okI [of "Suc k"])
      (use k28 bs m mset_same [OF bs(3)] assms(2) in \<open>auto simp: buckets_ok_def\<close>)
  moreover have "rehashStringTable c = Some (c\<lparr>c_strBuckets := bs, c_strMask := ?m\<rparr>)"
    using bs(1) by (simp add: rehashStringTable_def Let_def ofold_concat)
  ultimately show ?thesis using bs(3) by blast
qed

section \<open>Adding a string\<close>

lemma AllocCharge_ok:
  assumes "arena_inv (c_a c) L" "pending_in c L"
  shows "\<exists>c' ws last. AllocCharge c n = Some c' \<and>
    c' = c\<lparr>c_bytesAllocSince := c_bytesAllocSince c + ucast n, c_gcPendingLast := last, c_a := (c_a c)\<lparr>a_words := ws\<rparr>\<rparr> \<and>
    length ws = length (a_words (c_a c)) \<and> arena_inv ((c_a c)\<lparr>a_words := ws\<rparr>) L \<and>
    (\<forall>j. ws ! j \<noteq> a_words (c_a c) ! j \<longrightarrow> c_gcPendingRef c \<noteq> 0 \<and> j = idx (c_gcPendingRef c))"
proof -
  let ?c = "c\<lparr>c_bytesAllocSince := c_bytesAllocSince c + ucast n\<rparr>"
  let ?now = "gcPendingNow ?c" and ?p = "c_gcPendingRef c"
  show ?thesis
  proof (cases "?p = 0 \<or> ?now = c_gcPendingLast c")
    case True
    then have "AllocCharge c n = Some ?c" by (auto simp: AllocCharge_def updateGCPending_def)
    then show ?thesis using assms(1)
      by (intro exI [of _ ?c] exI [of _ "a_words (c_a c)"] exI [of _ "c_gcPendingLast c"]) simp
  next
    case False
    then obtain i m where b: "(i, m) \<in> L" "aligned ?p" "i \<le> idx ?p" "idx ?p < i + m"
      using assms(2) unfolding pending_in_def by blast
    let ?ws = "(a_words (c_a c))[idx ?p := if ?now then 1 else 0]"
    have bd: "i + m \<le> length (a_words (c_a c))" using arena_inv_bounds [OF assms(1) b(1)] by simp
    then have "SetWordAt (c_a c) ?p (if ?now then 1 else 0) = Some ((c_a c)\<lparr>a_words := ?ws\<rparr>)"
      using b(2,4) by (simp add: SetWordAt_def wset_def aligned_def and_7)
    then have run: "AllocCharge c n = Some (c\<lparr>c_bytesAllocSince := c_bytesAllocSince c + ucast n,
        c_gcPendingLast := ?now, c_a := (c_a c)\<lparr>a_words := ?ws\<rparr>\<rparr>)"
      using False by (simp add: AllocCharge_def updateGCPending_def Let_def)
    have L: "L = insert (i, m) (L - {(i, m)})" using b(1) by blast
    have "arena_inv ((c_a c)\<lparr>a_words := ?ws\<rparr>) (insert (i, m) (L - {(i, m)}))"
      by (rule arena_write) (use assms(1) L b in \<open>auto simp: nth_list_update\<close>)
    then have inv: "arena_inv ((c_a c)\<lparr>a_words := ?ws\<rparr>) L" using L by simp
    have "\<forall>j. ?ws ! j \<noteq> a_words (c_a c) ! j \<longrightarrow> ?p \<noteq> 0 \<and> j = idx ?p"
      using False by (metis nth_list_update_neq)
    with run inv show ?thesis by (intro exI conjI) (rule run, rule refl, simp_all)
  qed
qed

lemma LinkSweep_ok:
  assumes "made a L (c_a c) r n" "0 < block_words n"
  shows "\<exists>h. LinkSweep c r = Some (c\<lparr>c_a := (c_a c)\<lparr>a_words := (a_words (c_a c))[idx r := h]\<rparr>, c_sweepHead := r\<rparr>)"
  using Header_blk [OF made_blk [OF assms(1)] assms(2)] by (auto simp: LinkSweep_def)

text \<open>What the table needs after a change of the arena that keeps the bodies of its strings.\<close>

lemma interned_strings: "intern_inv c L \<Longrightarrow> r \<in> interned c \<Longrightarrow>
    \<exists>b h. string_at (c_a c) L r b h \<and> HashString b = Some h"
  unfolding intern_inv_def interned_def using placed_string by blast

lemma buckets_count:
  assumes "arena_inv a L" "buckets_ok a L m bs"
  shows "length (concat bs) < 2 ^ 28"
proof -
  have r: "aligned r \<and> 1 \<le> idx r \<and> idx r < 2 ^ 28" if r: "r \<in> set (concat bs)" for r
  proof -
    obtain b h n where "aligned r" "(idx r, n) \<in> L"
      using placed_string [OF assms(2) r] unfolding string_at_def by blast
    with arena_inv_bounds [OF assms(1) this(2)] show ?thesis by simp
  qed
  have "inj_on idx (set (concat bs))"
    by (rule inj_onI) (metis r aligned_eq word_unat_eq_iff)
  moreover have "idx ` set (concat bs) \<subseteq> {1..<2 ^ 28}" using r by (auto simp del: set_concat)
  ultimately have "card (set (concat bs)) \<le> card {1..<2 ^ 28 :: nat}" by (intro card_inj_on_le) auto
  moreover have "card (set (concat bs)) = length (concat bs)"
    using assms(2) by (simp add: buckets_ok_def distinct_card del: set_concat)
  ultimately show ?thesis by simp
qed

lemma buckets_ok_frame:
  assumes "buckets_ok a L m bs" "arena_inv a L" "arena_inv a' L'"
    and "\<And>r b h. r \<in> set (concat bs) \<Longrightarrow> string_at a L r b h \<Longrightarrow> string_at a' L' r b h"
  shows "buckets_ok a' L' m bs" "r \<in> set (concat bs) \<Longrightarrow> StringBytes a' r = StringBytes a r"
proof -
  show bytes: "StringBytes a' r = StringBytes a r" if r: "r \<in> set (concat bs)" for r
  proof -
    obtain b h where s: "string_at a L r b h" using placed_string [OF assms(1) r] by blast
    show ?thesis
      using string_at_read(1) [OF assms(2) s] string_at_read(1) [OF assms(3) assms(4) [OF r s]] by simp
  qed
  have "placed a' L' m i r" if "i < length bs" "r \<in> set (bs ! i)" for i r
  proof -
    have "r \<in> set (concat bs)" unfolding interned_nth using that by blast
    with assms(1,4) that show ?thesis unfolding buckets_ok_def placed_def by blast
  qed
  moreover have "inj_on (StringBytes a') (set (concat bs))"
    using assms(1) bytes unfolding buckets_ok_def by (auto simp: inj_on_def)
  ultimately show "buckets_ok a' L' m bs" using assms(1) unfolding buckets_ok_def by blast
qed

lemma string_at_one_word:
  assumes "arena_inv a L" "string_at a L q b h" "(i, m) \<in> L" "i \<noteq> idx q"
    and "\<And>j. a_words a' ! j \<noteq> a_words a ! j \<Longrightarrow> i \<le> j \<and> j < i + m"
  shows "string_at a' L q b h"
proof (rule string_at_frame [OF assms(2) subset_refl])
  fix n k assume n: "(idx q, n) \<in> L" "0 < k" "k < n"
  have "i + m \<le> idx q \<or> idx q + n \<le> i" by (rule arena_inv_disjoint [OF assms(1,3) n(1)]) (use assms(4) in simp)
  then show "a_words a' ! (idx q + k) = a_words a ! (idx q + k)" using assms(5) [of "idx q + k"] n(2,3) by fastforce
qed

lemma live_start_unique: "arena_inv a L \<Longrightarrow> (i, n) \<in> L \<Longrightarrow> (i, m) \<in> L \<Longrightarrow> n = m"
  using arena_inv_disjoint [of a L i n i m] arena_inv_bounds(2) [of a L i n] arena_inv_bounds(2) [of a L i m] by fastforce

text \<open>The bucket with the new reference, and growing when the table is full.\<close>

lemma add_bucket:
  assumes "arena_inv (c_a c) L" "buckets_ok (c_a c) L (c_strMask c) (c_strBuckets c)"
    "unat (c_strCount c) = length (concat (c_strBuckets c))"
    "string_at (c_a c) L r b h" "HashString b = Some h" "\<forall>q\<in>interned c. StringBytes (c_a c) q \<noteq> Some b"
  defines "i \<equiv> unat (h AND c_strMask c)"
  defines "c1 \<equiv> c\<lparr>c_strBuckets := (c_strBuckets c)[i := c_strBuckets c ! i @ [r]], c_strCount := c_strCount c + 1\<rparr>"
  shows "\<exists>bs m. (if c_strMask c1 + 1 < c_strCount c1 then rehashStringTable c1 else Some c1) =
      Some (c1\<lparr>c_strBuckets := bs, c_strMask := m\<rparr>) \<and>
    buckets_ok (c_a c) L m bs \<and> set (concat bs) = insert r (interned c) \<and>
    unat (c_strCount c + 1) = length (concat bs)"
proof -
  let ?bs = "(c_strBuckets c)[i := c_strBuckets c ! i @ [r]]"
  have i: "i < length (c_strBuckets c)" unfolding i_def by (rule bucket_index [OF assms(2)])
  note ms = mset_same [OF mset_concat_snoc [OF i, of r, folded mset.simps(2)]]
  have new: "r \<notin> interned c" using string_at_read(1) [OF assms(1,4)] assms(6) by blast
  have set1: "set (concat ?bs) = insert r (interned c)" using ms(1) by (simp add: interned_def)
  have ok: "buckets_ok (c_a c) L (c_strMask c) ?bs"
  proof -
    obtain k where k: "k \<le> 28" "length (c_strBuckets c) = 2 ^ k" "unat (c_strMask c) = 2 ^ k - 1"
      using assms(2) unfolding buckets_ok_def by blast
    show ?thesis
    proof (rule buckets_okI [OF k(1) _ k(3)])
      show "placed (c_a c) L (c_strMask c) j q" if "j < length ?bs" "q \<in> set (?bs ! j)" for j q
        using that assms(2,4,5) i unfolding buckets_ok_def
        by (cases "j = i") (auto simp: i_def placed_def)
      show "distinct (concat ?bs)" using ms(2) new assms(2) by (simp add: buckets_ok_def interned_def)
      show "inj_on (StringBytes (c_a c)) (set (concat ?bs))"
      proof -
        have "inj_on (StringBytes (c_a c)) (interned c)" using assms(2) by (simp add: buckets_ok_def interned_def)
        moreover have "StringBytes (c_a c) r \<notin> StringBytes (c_a c) ` interned c"
          unfolding string_at_read(1) [OF assms(1,4)] using assms(6) by (metis imageE)
        ultimately show ?thesis unfolding set1 inj_on_insert by blast
      qed
    qed (use k in simp)
  qed
  have lt: "length (concat (c_strBuckets c)) < 2 ^ 28" by (rule buckets_count [OF assms(1,2)])
  then have n1: "unat (c_strCount c + 1) = length (concat (c_strBuckets c)) + 1"
    using assms(3) by (simp add: unat_word_ariths)
  then have cnt: "unat (c_strCount c + 1) = length (concat ?bs)" using ms(3) by simp
  have ca: "c_a c1 = c_a c" "c_strMask c1 = c_strMask c" "c_strBuckets c1 = ?bs" "c_strCount c1 = c_strCount c + 1"
    by (simp_all add: c1_def)
  show ?thesis
  proof (cases "c_strMask c + 1 < c_strCount c + 1")
    case False
    then have "(if c_strMask c1 + 1 < c_strCount c1 then rehashStringTable c1 else Some c1) =
      Some (c1\<lparr>c_strBuckets := ?bs, c_strMask := c_strMask c\<rparr>)" unfolding ca by (simp add: c1_def)
    then show ?thesis using ok set1 cnt by blast
  next
    case True
    have "unat (c_strMask c + 1) < length (concat (c_strBuckets c)) + 1" using True n1 by (simp add: word_less_nat_alt)
    moreover have "unat (c_strMask c + 1) = length (c_strBuckets c)"
    proof -
      obtain k where k: "k \<le> 28" "length (c_strBuckets c) = 2 ^ k" "unat (c_strMask c) = 2 ^ k - 1"
        using assms(2) unfolding buckets_ok_def by blast
      have "length (c_strBuckets c) \<le> 2 ^ 28" unfolding k(2) using k(1) by (intro power_increasing) auto
      moreover have "length (c_strBuckets c) = unat (c_strMask c) + 1" using k(2,3) by simp
      ultimately show ?thesis by (simp add: unat_word_ariths)
    qed
    ultimately have "length (c_strBuckets c1) < 2 ^ 28" using lt unfolding ca by simp
    from rehash_ok [of c1 L, unfolded ca, OF assms(1) ok this [unfolded ca]] obtain bs m where r:
      "rehashStringTable c1 = Some (c1\<lparr>c_strBuckets := bs, c_strMask := m\<rparr>)"
      "mset (concat bs) = mset (concat ?bs)" "buckets_ok (c_a c) L m bs" by blast
    have "(if c_strMask c1 + 1 < c_strCount c1 then rehashStringTable c1 else Some c1) =
      Some (c1\<lparr>c_strBuckets := bs, c_strMask := m\<rparr>)" unfolding ca r(1) using True by (rule if_P)
    moreover have "set (concat bs) = insert r (interned c)" using set1 mset_same(1) [OF r(2)] by (rule trans [rotated])
    moreover have "unat (c_strCount c + 1) = length (concat bs)" using cnt mset_same(3) [OF r(2)] by (simp only:)
    ultimately show ?thesis using r(3) by blast
  qed
qed

section \<open>Interning\<close>

definition contents :: "collector \<Rightarrow> u8 list set" where
  "contents c = {b. \<exists>r\<in>interned c. StringBytes (c_a c) r = Some b}"

text \<open>The part of \<open>Intern\<close> behind a failed search.\<close>

definition intern_new :: "collector \<Rightarrow> u8 list \<Rightarrow> u32 \<Rightarrow> (gcref \<times> collector) option" where
  "intern_new c b h = do {
     (r, a) \<leftarrow> AllocString (c_a c) b h;
     c1 \<leftarrow> LinkSweep (c\<lparr>c_a := a\<rparr>) r;
     c2 \<leftarrow> AllocCharge c1 (StringObjectBytes (word_of_nat (length b)));
     let i = unat (h AND c_strMask c);
     let c3 = c2\<lparr>c_strBuckets := (c_strBuckets c2)[i := c_strBuckets c ! i @ [r]], c_strCount := c_strCount c2 + 1\<rparr>;
     c4 \<leftarrow> (if c_strMask c3 + 1 < c_strCount c3 then rehashStringTable c3 else Some c3);
     Some (r, c4) }"

lemma intern_new_ok:
  assumes inv: "intern_inv c L" and h: "HashString b = Some h" and new: "b \<notin> contents c"
    and al: "AllocString (c_a c) b h = Some (r, a')"
  shows "\<exists>c' L'. intern_new c b h = Some (r, c') \<and> L \<subseteq> L' \<and> intern_inv c' L' \<and>
    interned c' = insert r (interned c) \<and> r \<notin> interned c \<and> StringBytes (c_a c') r = Some b \<and>
    (\<forall>q\<in>interned c. StringBytes (c_a c') q = StringBytes (c_a c) q)"
proof -
  let ?p = "c_gcPendingRef c"
  have i0: "arena_inv (c_a c) L" "buckets_ok (c_a c) L (c_strMask c) (c_strBuckets c)"
    "unat (c_strCount c) = length (concat (c_strBuckets c))" "pending_ok c L"
    using inv by (simp_all add: intern_inv_def)
  obtain n where n: "made (c_a c) L a' r n" "string_at a' (insert (idx r, block_words n) L) r b h" "3 \<le> block_words n"
    using AllocString_string_at [OF i0(1) al] by blast
  define L' where "L' = insert (idx r, block_words n) L"
  have fresh: "(idx r, block_words n) \<notin> L" using n(1) by (simp add: made_def)
  obtain hd where c1: "LinkSweep (c\<lparr>c_a := a'\<rparr>) r =
      Some (c\<lparr>c_a := a'\<lparr>a_words := (a_words a')[idx r := hd]\<rparr>, c_sweepHead := r\<rparr>)"
    using LinkSweep_ok [of "c_a c" L "c\<lparr>c_a := a'\<rparr>" r n] n(1,3) by auto
  define a1 where "a1 = a'\<lparr>a_words := (a_words a')[idx r := hd]\<rparr>"
  define k1 where "k1 = c\<lparr>c_a := a1, c_sweepHead := r\<rparr>"
  have m1: "made (c_a c) L a1 r n" using made_write [OF n(1), of 0 hd] n(3) by (simp add: a1_def)
  then have inv1: "arena_inv a1 L'" "keeps (c_a c) a1 L" by (simp_all add: made_def L'_def)
  have sr1: "string_at a1 L' r b h"
    using string_at_frame [OF n(2), of L' a1] by (simp add: L'_def a1_def)
  have sq1: "string_at (c_a c) L q b' h' \<Longrightarrow> string_at a1 L' q b' h'" for q b' h'
    by (rule string_at_keeps [OF _ inv1(2)]) (auto simp: L'_def)
  have intd: "interned k1 = interned c" by (simp add: k1_def interned_def)
  have "pending_ok k1 L'" using i0(4) intd unfolding pending_ok_def k1_def L'_def by auto
  then obtain ws lst where c2: "AllocCharge k1 (StringObjectBytes (word_of_nat (length b))) =
      Some (k1\<lparr>c_bytesAllocSince := c_bytesAllocSince k1 + ucast (StringObjectBytes (word_of_nat (length b))),
        c_gcPendingLast := lst, c_a := a1\<lparr>a_words := ws\<rparr>\<rparr>)" (is "_ = Some ?k2")
    and ws: "arena_inv (a1\<lparr>a_words := ws\<rparr>) L'"
      "\<And>j. ws ! j \<noteq> a_words a1 ! j \<Longrightarrow> ?p \<noteq> 0 \<and> j = idx ?p"
    using AllocCharge_ok [of k1 L' "StringObjectBytes (word_of_nat (length b))"] inv1(1) pending_ok_in by (auto simp: k1_def)
  define k2 where "k2 = ?k2"
  have k2: "c_a k2 = a1\<lparr>a_words := ws\<rparr>" "c_strBuckets k2 = c_strBuckets c" "c_strMask k2 = c_strMask c"
    "c_strCount k2 = c_strCount c" "c_gcPendingRef k2 = ?p" "interned k2 = interned c"
    by (simp_all add: k2_def k1_def interned_def)
  have s2: "string_at (c_a k2) L' q b' h'" if "string_at a1 L' q b' h'" "q = r \<or> q \<in> interned c" for q b' h'
  proof (cases "?p = 0")
    case True
    then have "ws ! j = a_words a1 ! j" for j using ws(2) by blast
    then show ?thesis using string_at_frame [OF that(1) subset_refl] k2(1) by simp
  next
    case False
    then obtain i m where im: "(i, m) \<in> L" "i \<le> idx ?p" "idx ?p < i + m" "i \<notin> idx ` interned c"
      using i0(4) unfolding pending_ok_def by blast
    have "i \<noteq> idx r"
    proof
      assume e: "i = idx r"
      have "m = block_words n" by (rule live_start_unique [OF inv1(1), of i]) (use im(1) e in \<open>simp_all add: L'_def\<close>)
      with e im(1) fresh show False by simp
    qed
    then have "i \<noteq> idx q" using that(2) im(4) by blast
    moreover have "(i, m) \<in> L'" using im(1) by (simp add: L'_def)
    moreover have "i \<le> j \<and> j < i + m" if "a_words (c_a k2) ! j \<noteq> a_words a1 ! j" for j
      using ws(2) [of j] that im(2,3) k2(1) by simp
    ultimately show ?thesis by (intro string_at_one_word [OF inv1(1) that(1)])
  qed
  have ok2: "buckets_ok (c_a k2) L' (c_strMask k2) (c_strBuckets k2)"
    and by2: "q \<in> interned c \<Longrightarrow> StringBytes (c_a k2) q = StringBytes (c_a c) q" for q
    using buckets_ok_frame [OF i0(2,1), of "c_a k2" L'] ws(1) sq1 s2 k2 unfolding interned_def by auto
  have sr2: "string_at (c_a k2) L' r b h" by (rule s2 [OF sr1]) simp
  have new2: "\<forall>q\<in>interned k2. StringBytes (c_a k2) q \<noteq> Some b"
    using new by2 k2(6) by (simp add: contents_def)
  define k3 where "k3 = k2\<lparr>c_strBuckets := (c_strBuckets k2)[unat (h AND c_strMask k2) :=
    c_strBuckets k2 ! unat (h AND c_strMask k2) @ [r]], c_strCount := c_strCount k2 + 1\<rparr>"
  have i2: "arena_inv (c_a k2) L'" "unat (c_strCount k2) = length (concat (c_strBuckets k2))"
    using ws(1) i0(3) k2 by simp_all
  from add_bucket [OF i2(1) ok2 i2(2) sr2 h new2, folded k3_def] obtain bs m where
    r: "(if c_strMask k3 + 1 < c_strCount k3 then rehashStringTable k3 else Some k3) =
      Some (k3\<lparr>c_strBuckets := bs, c_strMask := m\<rparr>)"
    "buckets_ok (c_a k2) L' m bs" "set (concat bs) = insert r (interned c)" "unat (c_strCount k2 + 1) = length (concat bs)"
    unfolding k2(6) by blast
  define c' where "c' = k3\<lparr>c_strBuckets := bs, c_strMask := m\<rparr>"
  have c': "c_a c' = c_a k2" "c_strMask c' = m" "c_strBuckets c' = bs" "c_strCount c' = c_strCount k2 + 1"
    "c_gcPendingRef c' = ?p" by (simp_all add: c'_def k3_def k2(5))
  have i3: "unat (h AND c_strMask c) = unat (h AND c_strMask k2)" by (simp add: k2(3))
  have run: "intern_new c b h = Some (r, c')"
    unfolding intern_new_def al bind.bind_lunit prod.case c1 a1_def [symmetric] k1_def [symmetric] c2 k2_def [symmetric]
      Let_def i3 k2(2) [symmetric] k3_def [symmetric] r(1) c'_def ..
  have int': "interned c' = insert r (interned c)" using r(3) by (simp add: c'(3) interned_def)
  have nr: "r \<notin> interned c" using new2 string_at_read(1) [OF _ sr2] ws(1) k2 by (metis)
  have "pending_ok c' L'"
  proof (cases "?p = 0")
    case True
    then show ?thesis using c'(5) by (simp add: pending_ok_def)
  next
    case False
    then obtain i m where im: "(i, m) \<in> L" "aligned ?p" "i \<le> idx ?p" "idx ?p < i + m" "i \<notin> idx ` interned c"
      using i0(4) unfolding pending_ok_def by blast
    have "i \<noteq> idx r"
      using live_start_unique [OF inv1(1), of i m "block_words n"] im(1) fresh by (auto simp: L'_def)
    then show ?thesis using im int' unfolding pending_ok_def c'(5) L'_def by auto
  qed
  then have "intern_inv c' L'" using i2(1) r(2,4) by (simp add: intern_inv_def c')
  moreover have "StringBytes (c_a c') r = Some b" using string_at_read(1) [OF i2(1) sr2] by (simp add: c'(1))
  ultimately show ?thesis using run int' nr by2 c'(1) by (intro exI [of _ c'] exI [of _ L']) (auto simp: L'_def)
qed

lemma Intern_cases:
  assumes "intern_inv c L" "length b < 2 ^ 32"
  obtains (hit) r where "Intern c b = Some (r, c)" "r \<in> interned c" "StringBytes (c_a c) r = Some b"
  | (miss) h where "HashString b = Some h" "b \<notin> contents c" "Intern c b = intern_new c b h"
proof -
  obtain h where h: "HashString b = Some h" using HashString_ex by blast
  let ?i = "unat (h AND c_strMask c)"
  have "?i < length (c_strBuckets c)" using assms(1) bucket_index [of "c_a c" L] by (simp add: intern_inv_def)
  then have ch: "nth_opt (c_strBuckets c) ?i = Some (c_strBuckets c ! ?i)" by (simp add: nth_opt_def)
  obtain res where res: "find_match c h b (c_strBuckets c ! ?i) = Some res"
    "case res of Some r \<Rightarrow> r \<in> interned c \<and> StringBytes (c_a c) r = Some b
     | None \<Rightarrow> \<forall>r\<in>interned c. StringBytes (c_a c) r \<noteq> Some b"
    using bucket_search [OF assms(1) h assms(2)] by blast
  show thesis
  proof (cases res)
    case None
    then show ?thesis
      using res h ch by (intro miss [OF h]) (auto simp: contents_def Intern_def intern_new_def Let_def)
  next
    case (Some r)
    then show ?thesis using res h ch by (intro hit [of r]) (auto simp: Intern_def Let_def)
  qed
qed

text \<open>C21. Interning implements a set of strings: from a well-formed table, interning \<open>b\<close> returns the
  reference of the entry with these bytes and changes nothing if there is one; otherwise it adds one
  fresh reference whose bytes are \<open>b\<close>, keeps every entry with its bytes and re-establishes the
  invariant; it fails only when the arena cannot hold the new string.\<close>

theorem Intern_spec:
  assumes "intern_inv c L" "length b < 2 ^ 32"
  shows "case Intern c b of
      None \<Rightarrow> b \<notin> contents c \<and> (\<exists>h. HashString b = Some h \<and> AllocString (c_a c) b h = None)
    | Some (r, c') \<Rightarrow>
        StringBytes (c_a c') r = Some b \<and> interned c' = insert r (interned c) \<and>
        (if b \<in> contents c then c' = c else r \<notin> interned c) \<and>
        (\<forall>q\<in>interned c. StringBytes (c_a c') q = StringBytes (c_a c) q) \<and>
        (\<exists>L'. L \<subseteq> L' \<and> intern_inv c' L')"
  using assms
proof (cases rule: Intern_cases)
  case (hit r)
  then show ?thesis using assms(1) by (auto simp: contents_def)
next
  case (miss h)
  show ?thesis
  proof (cases "AllocString (c_a c) b h")
    case None
    then show ?thesis using miss by (simp add: intern_new_def)
  next
    case (Some ra)
    obtain r a' where ra: "AllocString (c_a c) b h = Some (r, a')" using Some by (cases ra) simp
    from intern_new_ok [OF assms(1) miss(1,2) ra] obtain c' L' where
      "intern_new c b h = Some (r, c')" "L \<subseteq> L'" "intern_inv c' L'" "interned c' = insert r (interned c)"
      "r \<notin> interned c" "StringBytes (c_a c') r = Some b"
      "\<forall>q\<in>interned c. StringBytes (c_a c') q = StringBytes (c_a c) q" by blast
    then show ?thesis using miss by auto
  qed
qed

lemma Intern_step:
  assumes "intern_inv c L" "length b < 2 ^ 32" "Intern c b = Some (r, c')"
  obtains L' where "L \<subseteq> L'" "intern_inv c' L'" "interned c' = insert r (interned c)"
    "StringBytes (c_a c') r = Some b" "\<forall>q\<in>interned c. StringBytes (c_a c') q = StringBytes (c_a c) q"
  using assms(1,2)
proof (cases rule: Intern_cases)
  case (hit q)
  then show ?thesis using assms that [of L] by auto
next
  case (miss h)
  with assms(3) obtain a' where "AllocString (c_a c) b h = Some (r, a')"
    by (auto simp: intern_new_def bind_Some_iff Let_def)
  from intern_new_ok [OF assms(1) miss(1,2) this] assms(3) miss(3) that show ?thesis by auto
qed

text \<open>Several strings, one after the other.\<close>

fun interns :: "collector \<Rightarrow> u8 list list \<Rightarrow> (gcref list \<times> collector) option" where
  "interns c [] = Some ([], c)"
| "interns c (b # bs) = do {
     (r, c) \<leftarrow> Intern c b;
     (rs, c) \<leftarrow> interns c bs;
     Some (r # rs, c) }"

lemma interns_ok:
  assumes "intern_inv c L" "\<forall>b\<in>set bs. length b < 2 ^ 32" "interns c bs = Some (rs, c')"
  shows "(\<exists>L'. intern_inv c' L') \<and> interned c' = interned c \<union> set rs \<and> length rs = length bs \<and>
    (\<forall>i<length bs. StringBytes (c_a c') (rs ! i) = Some (bs ! i)) \<and>
    (\<forall>q\<in>interned c. StringBytes (c_a c') q = StringBytes (c_a c) q)"
  using assms
proof (induction bs arbitrary: c L rs)
  case Nil
  then show ?case by auto
next
  case (Cons b bs)
  from Cons.prems(3) obtain r c1 rs' where run: "Intern c b = Some (r, c1)" "interns c1 bs = Some (rs', c')"
    "rs = r # rs'" by (auto simp: bind_Some_iff)
  have lb: "length b < 2 ^ 32" using Cons.prems(2) by simp
  obtain L1 where s: "L \<subseteq> L1" "intern_inv c1 L1"
    "interned c1 = insert r (interned c)" "StringBytes (c_a c1) r = Some b"
    "\<forall>q\<in>interned c. StringBytes (c_a c1) q = StringBytes (c_a c) q"
    by (rule Intern_step [OF Cons.prems(1) lb run(1)])
  have "\<forall>b\<in>set bs. length b < 2 ^ 32" using Cons.prems(2) by simp
  note ih = Cons.IH [OF s(2) this run(2)]
  have keep: "StringBytes (c_a c') q = StringBytes (c_a c) q" if "q \<in> interned c" for q
    using ih s(3,5) that by (metis insertI2)
  moreover have "StringBytes (c_a c') r = Some b" using ih s(3,4) by (metis insertI1)
  then have "StringBytes (c_a c') (rs ! i) = Some ((b # bs) ! i)" if "i < length (b # bs)" for i
    using that ih run(3) by (cases i) auto
  moreover have "interned c' = interned c \<union> set rs" using ih s(3) run(3) by auto
  ultimately show ?case using ih run(3) by simp
qed

text \<open>C20. Interned references stand for contents: after interning any strings in any order, two of the
  references returned are equal exactly when the two strings are, and each still reads back its
  bytes; so the machine may compare strings by reference.\<close>

theorem interned_identity:
  assumes "intern_inv c L" "\<forall>b\<in>set bs. length b < 2 ^ 32" "interns c bs = Some (rs, c')"
  shows "length rs = length bs \<and> (\<forall>i<length bs. StringBytes (c_a c') (rs ! i) = Some (bs ! i)) \<and>
    (\<forall>i<length bs. \<forall>j<length bs. rs ! i = rs ! j \<longleftrightarrow> bs ! i = bs ! j)"
proof -
  note ok = interns_ok [OF assms]
  then obtain L' where "intern_inv c' L'" by blast
  then have "inj_on (StringBytes (c_a c')) (interned c')"
    by (simp add: intern_inv_def buckets_ok_def interned_def)
  moreover have "rs ! i \<in> interned c'" if "i < length bs" for i using ok that by simp
  ultimately show ?thesis using ok by (metis inj_on_eq_iff option.inject)
qed

section \<open>Removal\<close>

lemma index_of_some: "x \<in> set xs \<Longrightarrow> \<exists>i. index_of x xs = Some i \<and> i < length xs \<and> xs ! i = x"
  by (induction xs) auto

text \<open>The swap-remove takes exactly one occurrence out.\<close>

lemma mset_swap_remove:
  assumes "i < length xs"
  shows "add_mset (xs ! i) (mset (take (length xs - 1) (xs[i := xs ! (length xs - 1)]))) = mset xs"
proof -
  obtain ys y where xs: "xs = ys @ [y]" using assms by (cases xs rule: rev_cases) auto
  show ?thesis
  proof (cases "i = length ys")
    case True
    then show ?thesis by (simp add: xs)
  next
    case False
    then have i: "i < length ys" using assms xs by simp
    then show ?thesis
      by (simp add: xs nth_append list_update_append mset_update)
  qed
qed

text \<open>C22. Removing a dead string: from a well-formed table the entry goes and nothing else does, every
  other entry keeps its bytes, the arena is not touched and the invariant holds again; a reference
  that is no entry is left alone.\<close>

theorem removeFromStringTable_spec:
  assumes "intern_inv c L" "string_at (c_a c) L r b h" "HashString b = Some h"
  shows "\<exists>c'. removeFromStringTable c r = Some c' \<and> interned c' = interned c - {r} \<and>
    contents c' = (if r \<in> interned c then contents c - {b} else contents c) \<and>
    c_a c' = c_a c \<and> intern_inv c' L"
proof -
  have i0: "arena_inv (c_a c) L" "buckets_ok (c_a c) L (c_strMask c) (c_strBuckets c)"
    "unat (c_strCount c) = length (concat (c_strBuckets c))" "pending_ok c L"
    using assms(1) by (simp_all add: intern_inv_def)
  define i where "i = unat (h AND c_strMask c)"
  define ch where "ch = c_strBuckets c ! i"
  have i: "i < length (c_strBuckets c)" unfolding i_def by (rule bucket_index [OF i0(2)])
  note rd = string_at_read [OF i0(1) assms(2)]
  have in_ch: "r \<in> interned c \<longleftrightarrow> r \<in> set ch"
  proof
    assume "r \<in> interned c"
    then obtain b' h' where s: "string_at (c_a c) L r b' h'" "r \<in> set (c_strBuckets c ! unat (h' AND c_strMask c))"
      using placed_string [OF i0(2)] unfolding interned_def by blast
    have "h' = h" using string_at_read(3) [OF i0(1) s(1)] rd(3) by simp
    with s(2) show "r \<in> set ch" by (simp add: ch_def i_def)
  next
    assume "r \<in> set ch"
    then show "r \<in> interned c" unfolding interned_def interned_nth ch_def using i by blast
  qed
  have run: "removeFromStringTable c r = (case index_of r ch of None \<Rightarrow> Some c
      | Some j \<Rightarrow> Some (c\<lparr>c_strBuckets := (c_strBuckets c)[i := take (length ch - 1) (ch[j := ch ! (length ch - 1)])],
          c_strCount := c_strCount c - 1\<rparr>))"
    using rd(3) i unfolding removeFromStringTable_def ch_def i_def by (simp add: nth_opt_def Let_def split: option.splits)
  show ?thesis
  proof (cases "r \<in> set ch")
    case False
    then have "index_of r ch = None" by (induction ch) auto
    then show ?thesis using run False in_ch assms(1) by simp
  next
    case True
    then obtain j where j: "index_of r ch = Some j" "j < length ch" "ch ! j = r"
      using index_of_some [OF True] by metis
    define xs where "xs = take (length ch - 1) (ch[j := ch ! (length ch - 1)])"
    define c' where "c' = c\<lparr>c_strBuckets := (c_strBuckets c)[i := xs], c_strCount := c_strCount c - 1\<rparr>"
    have mx: "add_mset r (mset xs) = mset ch" using mset_swap_remove [OF j(2)] j(3) by (simp add: xs_def)
    have "mset (concat ((c_strBuckets c)[i := xs])) + mset ch = mset (concat (c_strBuckets c)) + mset xs"
      using mset_concat_update [OF i, of xs] by (simp add: ch_def)
    then have mc: "mset (r # concat ((c_strBuckets c)[i := xs])) = mset (concat (c_strBuckets c))"
      unfolding mx [symmetric] by simp
    note ms = mset_same [OF mc]
    have d: "r \<notin> set (concat ((c_strBuckets c)[i := xs]))" "distinct (concat ((c_strBuckets c)[i := xs]))"
      using ms(2) i0(2) by (auto simp: buckets_ok_def)
    then have int': "interned c' = interned c - {r}" using ms(1) by (auto simp: interned_def c'_def)
    have sub: "set (concat ((c_strBuckets c)[i := xs])) \<subseteq> set (concat (c_strBuckets c))"
      using ms(1) by (metis list.set_intros(2) subsetI)
    obtain k where k: "k \<le> 28" "length (c_strBuckets c) = 2 ^ k" "unat (c_strMask c) = 2 ^ k - 1"
      using i0(2) unfolding buckets_ok_def by blast
    have "set xs \<subseteq> set ch" using mx by (metis set_mset_add_mset_insert set_mset_mset subset_insertI)
    then have "set ((c_strBuckets c)[i := xs] ! q) \<subseteq> set (c_strBuckets c ! q)" for q
      using i by (cases "q = i") (auto simp: ch_def)
    then have le: "r \<in> set ((c_strBuckets c)[i := xs] ! q) \<Longrightarrow> r \<in> set (c_strBuckets c ! q)" for r q by blast
    have "buckets_ok (c_a c) L (c_strMask c) ((c_strBuckets c)[i := xs])"
    proof (rule buckets_okI [OF k(1) _ k(3) _ d(2)])
      show "placed (c_a c) L (c_strMask c) q r" if "q < length ((c_strBuckets c)[i := xs])" "r \<in> set ((c_strBuckets c)[i := xs] ! q)" for q r
        using i0(2) le [OF that(2)] that(1) unfolding buckets_ok_def by simp
      show "inj_on (StringBytes (c_a c)) (set (concat ((c_strBuckets c)[i := xs])))"
        using i0(2) sub unfolding buckets_ok_def by (meson inj_on_subset)
    qed (use k(2) in simp)
    moreover have "1 \<le> length (concat (c_strBuckets c))" unfolding ms(3) [symmetric] by simp
    then have "unat (c_strCount c - 1) = length (concat ((c_strBuckets c)[i := xs]))"
      using i0(3) ms(3) by (subst unat_sub) (simp_all add: word_le_nat_alt)
    moreover have "pending_ok c' L" using i0(4) int' unfolding pending_ok_def c'_def by auto
    ultimately have "intern_inv c' L" using i0(1) by (simp add: intern_inv_def c'_def)
    moreover have "removeFromStringTable c r = Some c'" using run j(1) by (simp add: xs_def c'_def)
    moreover have "contents c' = contents c - {b}"
    proof -
      have "inj_on (StringBytes (c_a c)) (interned c)" using i0(2) by (simp add: buckets_ok_def interned_def)
      moreover have "r \<in> interned c" using True in_ch by simp
      ultimately have "StringBytes (c_a c) q = Some b \<longleftrightarrow> q = r" if "q \<in> interned c" for q
        using that rd(1) by (metis inj_on_eq_iff)
      moreover have "c_a c' = c_a c" by (simp add: c'_def)
      ultimately show ?thesis using int' unfolding contents_def by fastforce
    qed
    ultimately show ?thesis using int' True in_ch by (intro exI [of _ c']) (simp add: c'_def)
  qed
qed

section \<open>The empty table and witnesses\<close>

lemma New_intern_inv:
  assumes "arena_inv a {}"
  shows "intern_inv (collector_New a p) {}" "interned (collector_New a p) = {}"
proof -
  have "concat (replicate 16 ([] :: gcref list)) = []" by simp
  moreover have "buckets_ok a {} 15 (replicate 16 [])" by (rule buckets_okI [of 4]) simp_all
  ultimately show "intern_inv (collector_New a p) {}" "interned (collector_New a p) = {}"
    using assms by (simp_all add: intern_inv_def collector_New_def pending_ok_def interned_def)
qed

lemma tiny_hi: "HashString [104, 105] = Some h \<Longrightarrow> \<exists>r a. AllocString tiny [104, 105] h = Some (r, a)"
proof -
  assume h: "HashString [104, 105] = Some h"
  have "case HashString [104, 105] of None \<Rightarrow> True
      | Some h \<Rightarrow> (case AllocString tiny [104, 105] h of None \<Rightarrow> False | Some _ \<Rightarrow> True)"
    unfolding AllocString_def if_not_P [OF short] by code_simp
  then show ?thesis using h by (auto split: option.splits)
qed

lemma tiny_intern: "\<exists>r c L. Intern (collector_New tiny 0) [104, 105] = Some (r, c) \<and> intern_inv c L \<and>
    interned c = {r} \<and> StringBytes (c_a c) r = Some [104, 105]"
proof -
  let ?c = "collector_New tiny 0"
  have i: "intern_inv ?c {}" "interned ?c = {}" by (rule New_intern_inv [OF tiny_inv])+
  have "length [104 :: u8, 105] < 2 ^ 32" by simp
  from i(1) this show ?thesis
  proof (cases rule: Intern_cases)
    case (hit r)
    then show ?thesis using i(2) by simp
  next
    case (miss h)
    obtain r a where "AllocString (c_a ?c) [104, 105] h = Some (r, a)"
      using tiny_hi [OF miss(1)] by (auto simp: collector_New_def)
    from intern_new_ok [OF i(1) miss(1,2) this] miss(3) i(2) show ?thesis by auto
  qed
qed

theorem Intern_spec_witness:
  "\<exists>r c. Intern (collector_New tiny 0) [104, 105] = Some (r, c) \<and> StringBytes (c_a c) r = Some [104, 105] \<and>
    interned c = {r}"
proof -
  obtain r c L where t: "Intern (collector_New tiny 0) [104, 105] = Some (r, c)" using tiny_intern by blast
  have len: "length [104 :: u8, 105] < 2 ^ 32" by simp
  from Intern_spec [OF New_intern_inv(1) [OF tiny_inv] len, of 0] t New_intern_inv(2) [OF tiny_inv, of 0] show ?thesis
    by simp
qed

theorem interned_identity_witness:
  "\<exists>rs c. interns (collector_New tiny 0) [[104, 105], [104, 105]] = Some (rs, c) \<and> rs ! 0 = rs ! 1"
proof -
  let ?b = "[104, 105] :: u8 list"
  obtain r c L where t: "Intern (collector_New tiny 0) ?b = Some (r, c)" "intern_inv c L"
    "interned c = {r}" "StringBytes (c_a c) r = Some ?b" using tiny_intern by blast
  have len: "length ?b < 2 ^ 32" by simp
  from t(2) len have "\<exists>r'. Intern c ?b = Some (r', c)"
    by (cases rule: Intern_cases) (use t(3,4) in \<open>auto simp: contents_def\<close>)
  then obtain r' where r': "interns (collector_New tiny 0) [?b, ?b] = Some ([r, r'], c)" using t(1) by auto
  moreover have "[r, r'] ! 0 = [r, r'] ! 1 \<longleftrightarrow> [?b, ?b] ! 0 = [?b, ?b] ! 1"
    by (rule interned_identity [OF New_intern_inv(1) [OF tiny_inv] _ r', THEN conjunct2, THEN conjunct2,
          THEN spec, THEN mp, THEN spec, THEN mp]) simp_all
  ultimately show ?thesis by (metis nth_Cons_0 nth_Cons_Suc One_nat_def)
qed

theorem removeFromStringTable_spec_witness:
  "\<exists>r c c'. Intern (collector_New tiny 0) [104, 105] = Some (r, c) \<and> removeFromStringTable c r = Some c' \<and>
    interned c' = {}"
proof -
  obtain r c L where t: "Intern (collector_New tiny 0) [104, 105] = Some (r, c)" "intern_inv c L" "interned c = {r}"
    using tiny_intern by blast
  then obtain b h where "string_at (c_a c) L r b h" "HashString b = Some h" using interned_strings [of c L r] by auto
  from removeFromStringTable_spec [OF t(2) this] t(1,3) show ?thesis by auto
qed

end
