(* ===== verification/TableView.thy ===== *)
theory TableView
  imports RawTable InternSpec
begin

text \<open>
  The words of a table seen as lists: the array part, the nodes (key, value, link) and the free mark,
  laid out in three blocks of the arena apart from all other live blocks. Every accessor of
  \<open>internal/object/table.go\<close> reads or updates the corresponding list element and nothing else.
\<close>

type_synonym node = "lvalue \<times> lvalue \<times> int"

section \<open>The layout\<close>

definition arr_words :: "lvalue list \<Rightarrow> nat" where
  "arr_words A = block_words (word_of_nat (length A) * 8)"

definition node_words :: "node list \<Rightarrow> nat" where
  "node_words ns = block_words (word_of_nat (length ns) * 3 * 8)"

definition arr_blocks :: "gcref \<Rightarrow> lvalue list \<Rightarrow> (nat \<times> nat) set" where
  "arr_blocks r A = (if A = [] then {} else {(idx r, arr_words A)})"

definition node_blocks :: "gcref \<Rightarrow> node list \<Rightarrow> (nat \<times> nat) set" where
  "node_blocks q ns = (if ns = [] then {} else {(idx q, node_words ns)})"

definition arr_at :: "u64 list \<Rightarrow> gcref \<Rightarrow> lvalue list \<Rightarrow> bool" where
  "arr_at ws r A \<longleftrightarrow> (\<forall>i<length A. ws ! (idx r + i) = A ! i)"

definition node_at :: "u64 list \<Rightarrow> nat \<Rightarrow> node \<Rightarrow> bool" where
  "node_at ws i e \<longleftrightarrow> ws ! i = fst e \<and> ws ! (i + 1) = fst (snd e) \<and>
     ws ! (i + 2) = ucast (word_of_int (snd (snd e)) :: u32)"

definition nodes_at :: "u64 list \<Rightarrow> gcref \<Rightarrow> node list \<Rightarrow> bool" where
  "nodes_at ws q ns \<longleftrightarrow> (\<forall>j<length ns. node_at ws (idx q + 3 * j) (ns ! j))"

definition head_at :: "u64 list \<Rightarrow> gcref \<Rightarrow> gcref \<Rightarrow> gcref \<Rightarrow> nat \<Rightarrow> nat \<Rightarrow> u32 \<Rightarrow> bool" where
  "head_at ws t r q na nn lf \<longleftrightarrow>
     ws ! (idx t + 1) = ucast (word_of_nat na :: u32) OR push_bit 32 (ucast (word_of_nat (nn - 1) :: u32)) \<and>
     ws ! (idx t + 2) = r \<and> ws ! (idx t + 3) = q \<and> ucast (ws ! (idx t + 5)) = lf"

definition part_ok :: "gcref \<Rightarrow> nat \<Rightarrow> nat \<Rightarrow> bool" where
  "part_ok r n m \<longleftrightarrow> (if n = 0 then r = 0 else aligned r \<and> n \<le> m)"

text \<open>\<open>lay\<close> is where the blocks lie; \<open>tab\<close> adds what they hold. \<open>G\<close> are the other live blocks.\<close>

definition lay :: "arena \<Rightarrow> (nat \<times> nat) set \<Rightarrow> gcref \<Rightarrow> nat \<Rightarrow> gcref \<Rightarrow> gcref \<Rightarrow> lvalue list \<Rightarrow> node list \<Rightarrow> bool" where
  "lay a G t nh r q A ns \<longleftrightarrow> aligned t \<and> 6 \<le> nh \<and>
     arena_inv a (insert (idx t, nh) (arr_blocks r A \<union> node_blocks q ns \<union> G)) \<and>
     (idx t, nh) \<notin> arr_blocks r A \<union> node_blocks q ns \<union> G \<and> arr_blocks r A \<inter> (node_blocks q ns \<union> G) = {} \<and>
     node_blocks q ns \<inter> G = {} \<and> part_ok r (length A) (arr_words A) \<and> part_ok q (3 * length ns) (node_words ns)"

definition tab :: "arena \<Rightarrow> (nat \<times> nat) set \<Rightarrow> gcref \<Rightarrow> nat \<Rightarrow> gcref \<Rightarrow> gcref \<Rightarrow> lvalue list \<Rightarrow> node list \<Rightarrow> u32 \<Rightarrow> bool" where
  "tab a G t nh r q A ns lf \<longleftrightarrow> lay a G t nh r q A ns \<and>
     head_at (a_words a) t r q (length A) (length ns) lf \<and> arr_at (a_words a) r A \<and> nodes_at (a_words a) q ns \<and>
     (\<forall>e\<in>set ns. - 1 \<le> snd (snd e) \<and> snd (snd e) < 2 ^ 31)"

lemma lay_blocks:
  assumes "lay a G t nh r q A ns"
  shows "blk a t 6" "A \<noteq> [] \<Longrightarrow> blk a r (length A)" "ns \<noteq> [] \<Longrightarrow> blk a q (3 * length ns)"
    "length (a_words a) \<le> 2 ^ 28"
proof -
  have l: "aligned t" "6 \<le> nh" "arena_inv a (insert (idx t, nh) (arr_blocks r A \<union> node_blocks q ns \<union> G))"
    "part_ok r (length A) (arr_words A)" "part_ok q (3 * length ns) (node_words ns)"
    using assms by (simp_all add: lay_def)
  show "blk a t 6" by (rule blk_mono [OF arena_inv_blk [OF l(3) insertI1 l(1)] l(2)])
  show "blk a r (length A)" if "A \<noteq> []"
  proof -
    have "(idx r, arr_words A) \<in> insert (idx t, nh) (arr_blocks r A \<union> node_blocks q ns \<union> G)"
      using that by (simp add: arr_blocks_def)
    moreover have "aligned r" "length A \<le> arr_words A" using l(4) that by (simp_all add: part_ok_def)
    ultimately show ?thesis using l(3) by (meson arena_inv_blk blk_mono)
  qed
  show "blk a q (3 * length ns)" if "ns \<noteq> []"
  proof -
    have "(idx q, node_words ns) \<in> insert (idx t, nh) (arr_blocks r A \<union> node_blocks q ns \<union> G)"
      using that by (simp add: node_blocks_def)
    moreover have "aligned q" "3 * length ns \<le> node_words ns" using l(5) that by (simp_all add: part_ok_def)
    ultimately show ?thesis using l(3) by (meson arena_inv_blk blk_mono)
  qed
  show "length (a_words a) \<le> 2 ^ 28" using arena_inv_length [OF l(3)] .
qed

lemma lay_lengths:
  assumes "lay a G t nh r q A ns"
  shows "length A < 2 ^ 28" "3 * length ns < 2 ^ 28" "A \<noteq> [] \<Longrightarrow> idx r + length A \<le> length (a_words a)"
    "ns \<noteq> [] \<Longrightarrow> idx q + 3 * length ns \<le> length (a_words a)" "idx t + 6 \<le> length (a_words a)"
proof -
  note b = lay_blocks [OF assms]
  have l: "arena_inv a (insert (idx t, nh) (arr_blocks r A \<union> node_blocks q ns \<union> G))"
    using assms by (simp_all add: lay_def)
  show "length A < 2 ^ 28"
  proof (cases "A = []")
    case False
    then have "1 \<le> idx r" using arena_inv_bounds(1) [OF l, of "idx r" "arr_words A"] by (simp add: arr_blocks_def)
    then show ?thesis using b(2) [OF False] unfolding blk_def by linarith
  qed simp
  show "3 * length ns < 2 ^ 28"
  proof (cases "ns = []")
    case False
    then have "1 \<le> idx q" using arena_inv_bounds(1) [OF l, of "idx q" "node_words ns"] by (simp add: node_blocks_def)
    then show ?thesis using b(3) [OF False] unfolding blk_def by linarith
  qed simp
  show "A \<noteq> [] \<Longrightarrow> idx r + length A \<le> length (a_words a)"
    "ns \<noteq> [] \<Longrightarrow> idx q + 3 * length ns \<le> length (a_words a)" "idx t + 6 \<le> length (a_words a)"
    using b by (simp_all add: blk_def)
qed

text \<open>The three parts do not overlap.\<close>

lemma lay_apart:
  assumes "lay a G t nh r q A ns"
  shows "A \<noteq> [] \<Longrightarrow> idx t + 6 \<le> idx r \<or> idx r + length A \<le> idx t"
    "ns \<noteq> [] \<Longrightarrow> idx t + 6 \<le> idx q \<or> idx q + 3 * length ns \<le> idx t"
    "A \<noteq> [] \<Longrightarrow> ns \<noteq> [] \<Longrightarrow> idx r + length A \<le> idx q \<or> idx q + 3 * length ns \<le> idx r"
proof -
  have l: "6 \<le> nh" "arena_inv a (insert (idx t, nh) (arr_blocks r A \<union> node_blocks q ns \<union> G))"
    "(idx t, nh) \<notin> arr_blocks r A \<union> node_blocks q ns \<union> G" "arr_blocks r A \<inter> (node_blocks q ns \<union> G) = {}"
    "A \<noteq> [] \<Longrightarrow> length A \<le> arr_words A" "ns \<noteq> [] \<Longrightarrow> 3 * length ns \<le> node_words ns"
    using assms by (simp_all add: lay_def part_ok_def)
  have t: "(idx t, nh) \<in> insert (idx t, nh) (arr_blocks r A \<union> node_blocks q ns \<union> G)" by simp
  show "idx t + 6 \<le> idx r \<or> idx r + length A \<le> idx t" if "A \<noteq> []"
    using arena_inv_disjoint [OF l(2) t, of "idx r" "arr_words A"] l(1,3) l(5) [OF that] that
    by (auto simp: arr_blocks_def)
  show "idx t + 6 \<le> idx q \<or> idx q + 3 * length ns \<le> idx t" if "ns \<noteq> []"
    using arena_inv_disjoint [OF l(2) t, of "idx q" "node_words ns"] l(1,3) l(6) [OF that] that
    by (auto simp: node_blocks_def)
  show "idx r + length A \<le> idx q \<or> idx q + 3 * length ns \<le> idx r" if "A \<noteq> []" "ns \<noteq> []"
    using arena_inv_disjoint [OF l(2), of "idx r" "arr_words A" "idx q" "node_words ns"] l(4) l(5,6) that
    by (auto simp: arr_blocks_def node_blocks_def)
qed

text \<open>Changing words inside the three blocks.\<close>

lemma lay_write:
  assumes "lay a G t nh r q A ns" "length ws = length (a_words a)"
    and "(i, n) \<in> insert (idx t, nh) (arr_blocks r A \<union> node_blocks q ns)"
    and "\<And>j. j < length ws \<Longrightarrow> \<not> (i \<le> j \<and> j < i + n) \<Longrightarrow> ws ! j = a_words a ! j"
  shows "lay (a\<lparr>a_words := ws\<rparr>) G t nh r q A ns \<and> keeps a (a\<lparr>a_words := ws\<rparr>) G"
proof -
  let ?L = "insert (idx t, nh) (arr_blocks r A \<union> node_blocks q ns \<union> G)"
  have inv: "arena_inv a ?L" and gd: "(i, n) \<notin> G" using assms(1,3) by (auto simp: lay_def)
  have L: "?L = insert (i, n) (?L - {(i, n)})" using assms(3) by auto
  have w: "arena_inv (a\<lparr>a_words := ws\<rparr>) (insert (i, n) (?L - {(i, n)}))" "keeps a (a\<lparr>a_words := ws\<rparr>) (?L - {(i, n)})"
    by (rule arena_write [of a i n]; use inv L assms(2,4) in auto)+
  have "keeps a (a\<lparr>a_words := ws\<rparr>) G" by (rule keeps_mono [OF w(2)]) (use gd in auto)
  with w(1) L assms(1) show ?thesis by (simp add: lay_def)
qed

section \<open>Reading\<close>

lemma u32_small: "n < 2 ^ 28 \<Longrightarrow> unat (word_of_nat n :: u32) = n"
  by (rule unat_word_of_nat_lt) simp

lemma high_of_u32 [simp]: "drop_bit 32 (ucast (x :: u32) :: u64) = 0"
  by (rule bit_word_eqI) (auto simp: bit_simps dest: bit_imp_le_length)

lemma tab_sizes:
  assumes "tab a G t nh r q A ns lf"
  shows "TableASize a t = Some (word_of_nat (length A))" "TableHSize a t = Some (word_of_nat (length ns))"
    "TableArrayRef a t = Some r" "TableNodeRef a t = Some q" "TableLastFree a t = Some lf"
proof -
  have l: "lay a G t nh r q A ns" and h: "head_at (a_words a) t r q (length A) (length ns) lf"
    using assms by (simp_all add: tab_def)
  note b = lay_blocks(1) [OF l]
  have w: "wordAt a t 1 = Some (ucast (word_of_nat (length A) :: u32) OR push_bit 32 (ucast (word_of_nat (length ns - 1) :: u32)))"
    "wordAt a t 2 = Some r" "wordAt a t 3 = Some q" "wordAt a t 5 = Some (a_words a ! (idx t + 5))"
    using wordAt_blk [OF b, of 1] wordAt_blk [OF b, of 2] wordAt_blk [OF b, of 3] wordAt_blk [OF b, of 5] h
    by (simp_all add: head_at_def)
  show "TableASize a t = Some (word_of_nat (length A))"
    unfolding TableASize_def tableSizesIdx_def w bind.bind_lunit pack32 ..
  show "TableArrayRef a t = Some r" "TableNodeRef a t = Some q" "TableLastFree a t = Some lf"
    using w h by (simp_all add: TableArrayRef_def TableNodeRef_def TableLastFree_def table_idx_defs head_at_def)
  have hi: "drop_bit 32 (ucast (word_of_nat (length A) :: u32) OR push_bit 32 (ucast (word_of_nat (length ns - 1) :: u32)) :: u64) =
      ucast (word_of_nat (length ns - 1) :: u32)"
    by (rule bit_word_eqI) (auto simp: bit_simps dest: bit_imp_le_length)
  have len: "length ns - 1 < 2 ^ 28" using lay_lengths(2) [OF l] by simp
  have z: "ucast (word_of_nat (length ns - 1) :: u32) = (0 :: u64) \<longleftrightarrow> length ns \<le> 1"
    using u32_small [OF len] by (simp add: word_unat_eq_iff)
  have q0: "q = 0 \<longleftrightarrow> ns = []" using l by (auto simp: lay_def part_ok_def aligned_def split: if_splits)
  have uc: "ucast (ucast (word_of_nat (length ns - 1) :: u32) :: u64) + 1 = (word_of_nat (length ns) :: u32)" if "ns \<noteq> []"
  proof -
    have "ucast (ucast (word_of_nat (length ns - 1) :: u32) :: u64) = (word_of_nat (length ns - 1) :: u32)"
      by (rule bit_word_eqI) (auto simp: bit_simps)
    moreover have "word_of_nat (length ns - 1) + 1 = (word_of_nat (length ns) :: u32)"
      using that by (cases ns) simp_all
    ultimately show ?thesis by simp
  qed
  show "TableHSize a t = Some (word_of_nat (length ns))"
  proof (cases "length ns \<le> 1")
    case True
    then show ?thesis unfolding TableHSize_def tableSizesIdx_def w(1) bind.bind_lunit hi Let_def
      using q0 z w(3) uc by (cases ns) (simp_all add: tableNodeIdx_def)
  next
    case False
    then have "ns \<noteq> []" by auto
    from uc [OF this] have "(if ucast (word_of_nat (length ns - 1) :: u32) = (0 :: u64) then X
        else Some (ucast (ucast (word_of_nat (length ns - 1) :: u32) :: u64) + 1)) = Some (word_of_nat (length ns) :: u32)" for X
      using False z by (simp only: if_False)
    then show ?thesis unfolding TableHSize_def tableSizesIdx_def w(1) bind.bind_lunit hi Let_def .
  qed
qed

lemma tab_array:
  assumes "tab a G t nh r q A ns lf" "unat i < length A"
  shows "TableArrayAt a t i = Some (A ! unat i)"
proof -
  have l: "lay a G t nh r q A ns" "arr_at (a_words a) r A" using assms(1) by (simp_all add: tab_def)
  have "A \<noteq> []" using assms(2) by auto
  from wordAt_blk [OF lay_blocks(2) [OF l(1) this] assms(2)] l(2) assms(2) tab_sizes(3) [OF assms(1)]
  show ?thesis by (simp add: TableArrayAt_def wordAt_def arr_at_def)
qed

lemma node_index:
  assumes "lay a G t nh r q A ns" "unat i < length ns"
  shows "unat (i * 3) = 3 * unat (i :: u32)" "unat (i * 3 + 1) = 3 * unat i + 1" "unat (i * 3 + 2) = 3 * unat i + 2"
proof -
  have "3 * unat i + 2 < 2 ^ 28" using lay_lengths(2) [OF assms(1)] assms(2) by linarith
  then show "unat (i * 3) = 3 * unat i" "unat (i * 3 + 1) = 3 * unat i + 1" "unat (i * 3 + 2) = 3 * unat i + 2"
    by (simp_all add: unat_word_ariths)
qed

lemma tab_node:
  assumes "tab a G t nh r q A ns lf" "unat i < length ns"
  shows "NodeKey a t i = Some (fst (ns ! unat i))" "NodeVal a t i = Some (fst (snd (ns ! unat i)))"
    "NodeNext a t i = Some (snd (snd (ns ! unat i)))"
proof -
  have l: "lay a G t nh r q A ns" "nodes_at (a_words a) q ns" using assms(1) by (simp_all add: tab_def)
  have "ns \<noteq> []" using assms(2) by auto
  note b = lay_blocks(3) [OF l(1) this] and ix = node_index [OF l(1) assms(2)]
  have n: "node_at (a_words a) (idx q + 3 * unat i) (ns ! unat i)" using l(2) assms(2) by (simp add: nodes_at_def)
  have lt: "unat (i * 3) < 3 * length ns" "unat (i * 3 + 1) < 3 * length ns" "unat (i * 3 + 2) < 3 * length ns"
    using ix assms(2) by simp_all
  have w: "wordAt a q (i * 3) = Some (fst (ns ! unat i))" "wordAt a q (i * 3 + 1) = Some (fst (snd (ns ! unat i)))"
    "wordAt a q (i * 3 + 2) = Some (ucast (word_of_int (snd (snd (ns ! unat i))) :: u32))"
    using wordAt_blk [OF b lt(1)] wordAt_blk [OF b lt(2)] wordAt_blk [OF b lt(3)] n ix
    by (simp_all add: node_at_def add.assoc)
  have o: "(i * 3 + 1) * 8 = i * 3 * 8 + 8" "(i * 3 + 2) * 8 = i * 3 * 8 + 16" by (simp_all add: algebra_simps)
  note q = tab_sizes(4) [OF assms(1)]
  have rg: "- 1 \<le> snd (snd (ns ! unat i))" "snd (snd (ns ! unat i)) < 2 ^ 31"
    using assms by (auto simp: tab_def)
  then have s: "sint (word_of_int (snd (snd (ns ! unat i))) :: u32) = snd (snd (ns ! unat i))"
    by (simp add: signed_of_int signed_take_bit_int_eq_self)
  have uu: "ucast (ucast x :: u64) = (x :: u32)" for x by (rule bit_word_eqI) (auto simp: bit_simps)
  show "NodeKey a t i = Some (fst (ns ! unat i))" "NodeVal a t i = Some (fst (snd (ns ! unat i)))"
    "NodeNext a t i = Some (snd (snd (ns ! unat i)))"
    using w q s uu by (simp_all add: NodeKey_def NodeVal_def NodeNext_def nodeWords_def wordAt_def o)
qed

section \<open>Writing\<close>

lemma arr_at_outside:
  "arr_at ws r A \<Longrightarrow> (\<And>i. i < length A \<Longrightarrow> ws' ! (idx r + i) = ws ! (idx r + i)) \<Longrightarrow> arr_at ws' r A"
  by (simp add: arr_at_def)

lemma nodes_at_outside:
  assumes "nodes_at ws q ns" "\<And>i. i < 3 * length ns \<Longrightarrow> ws' ! (idx q + i) = ws ! (idx q + i)"
  shows "nodes_at ws' q ns"
proof -
  have "node_at ws' (idx q + 3 * j) (ns ! j)" if "j < length ns" for j
    using assms(1) that assms(2) [of "3 * j"] assms(2) [of "3 * j + 1"] assms(2) [of "3 * j + 2"]
    by (simp add: nodes_at_def node_at_def add.assoc)
  then show ?thesis by (simp add: nodes_at_def)
qed

lemma head_at_outside:
  "head_at ws t r q na nn lf \<Longrightarrow> (\<And>k. k < 6 \<Longrightarrow> ws' ! (idx t + k) = ws ! (idx t + k)) \<Longrightarrow> head_at ws' t r q na nn lf"
proof -
  assume h: "head_at ws t r q na nn lf" and f: "\<And>k. k < 6 \<Longrightarrow> ws' ! (idx t + k) = ws ! (idx t + k)"
  show ?thesis using h f [of 1] f [of 2] f [of 3] f [of 5] by (simp add: head_at_def)
qed

lemma arr_write:
  assumes "tab a G t nh r q A ns lf" "unat i < length A"
  shows "\<exists>a'. SetTableArrayAt a t i v = Some a' \<and> tab a' G t nh r q (A[unat i := v]) ns lf \<and> keeps a a' G"
proof -
  have l: "lay a G t nh r q A ns" "head_at (a_words a) t r q (length A) (length ns) lf"
    "arr_at (a_words a) r A" "nodes_at (a_words a) q ns" "\<forall>e\<in>set ns. - 1 \<le> snd (snd e) \<and> snd (snd e) < 2 ^ 31"
    using assms(1) by (simp_all add: tab_def)
  have A: "A \<noteq> []" using assms(2) by auto
  let ?ws = "(a_words a)[idx r + unat i := v]"
  have run: "SetTableArrayAt a t i v = Some (a\<lparr>a_words := ?ws\<rparr>)"
    using setWordAt_blk [OF lay_blocks(2) [OF l(1) A] assms(2), of v] tab_sizes(3) [OF assms(1)]
    by (simp add: SetTableArrayAt_def setWordAt_def)
  have nw: "length A \<le> arr_words A" using l(1) A by (simp add: lay_def part_ok_def)
  have lw: "lay (a\<lparr>a_words := ?ws\<rparr>) G t nh r q A ns \<and> keeps a (a\<lparr>a_words := ?ws\<rparr>) G"
    by (rule lay_write [OF l(1), of _ "idx r" "arr_words A"])
      (use A nw assms(2) in \<open>auto simp: arr_blocks_def nth_list_update\<close>)
  note ap = lay_apart [OF l(1)] and le = lay_lengths [OF l(1)]
  have "lay (a\<lparr>a_words := ?ws\<rparr>) G t nh r q (A[unat i := v]) ns"
    using lw A by (simp add: lay_def arr_blocks_def arr_words_def)
  moreover have "head_at ?ws t r q (length (A[unat i := v])) (length ns) lf"
    using head_at_outside [OF l(2), of ?ws] ap(1) [OF A] assms(2) by (auto simp: nth_list_update)
  moreover have "arr_at ?ws r (A[unat i := v])"
    using l(3) le(3) [OF A] assms(2) by (auto simp: arr_at_def nth_list_update)
  moreover have "nodes_at ?ws q ns"
  proof (cases "ns = []")
    case False
    show ?thesis
      by (rule nodes_at_outside [OF l(4)]) (use ap(3) [OF A False] assms(2) in \<open>auto simp: nth_list_update\<close>)
  qed (simp add: nodes_at_def)
  ultimately have "tab (a\<lparr>a_words := ?ws\<rparr>) G t nh r q (A[unat i := v]) ns lf" using l(5) by (simp add: tab_def)
  then show ?thesis using run lw by blast
qed

text \<open>Writes to the head that leave sizes and parts alone.\<close>

lemma head_write:
  fixes w :: u64
  assumes "tab a G t nh r q A ns lf"
  defines "a' \<equiv> a\<lparr>a_words := (a_words a)[idx t + 5 := w]\<rparr>"
  shows "setWordAt a t tableLastFreeGen w = Some a'" "tab a' G t nh r q A ns (ucast w)" "keeps a a' G"
proof -
  have l: "lay a G t nh r q A ns" "head_at (a_words a) t r q (length A) (length ns) lf"
    "arr_at (a_words a) r A" "nodes_at (a_words a) q ns" "\<forall>e\<in>set ns. - 1 \<le> snd (snd e) \<and> snd (snd e) < 2 ^ 31"
    using assms(1) by (simp_all add: tab_def)
  note ap = lay_apart [OF l(1)] and le = lay_lengths [OF l(1)]
  let ?ws = "(a_words a)[idx t + 5 := w]"
  show "setWordAt a t tableLastFreeGen w = Some a'"
    using setWordAt_blk [OF lay_blocks(1) [OF l(1)], of tableLastFreeGen w] by (simp add: a'_def tableLastFreeGen_def)
  have "6 \<le> nh" using l(1) by (simp add: lay_def)
  then have lw: "lay a' G t nh r q A ns \<and> keeps a a' G"
    unfolding a'_def by (intro lay_write [OF l(1), of _ "idx t" nh]) (auto simp: nth_list_update)
  then show "keeps a a' G" by blast
  have "head_at ?ws t r q (length A) (length ns) (ucast w)"
    using l(2) le(5) by (simp add: head_at_def nth_list_update)
  moreover have "arr_at ?ws r A"
  proof (cases "A = []")
    case False
    show ?thesis by (rule arr_at_outside [OF l(3)]) (use ap(1) [OF False] in \<open>auto simp: nth_list_update\<close>)
  qed (simp add: arr_at_def)
  moreover have "nodes_at ?ws q ns"
  proof (cases "ns = []")
    case False
    show ?thesis by (rule nodes_at_outside [OF l(4)]) (use ap(2) [OF False] in \<open>auto simp: nth_list_update\<close>)
  qed (simp add: nodes_at_def)
  ultimately show "tab a' G t nh r q A ns (ucast w)" using lw l(5) by (simp add: tab_def a'_def)
qed

lemma set_last_free:
  assumes "tab a G t nh r q A ns lf"
  shows "\<exists>a'. SetTableLastFree a t x = Some a' \<and> tab a' G t nh r q A ns x \<and> keeps a a' G \<and> TableGen a' t = TableGen a t"
proof -
  have "lay a G t nh r q A ns" using assms by (simp add: tab_def)
  note b = lay_blocks(1) [OF this]
  have rd: "wordAt a t tableLastFreeGen = Some (a_words a ! (idx t + 5))"
    using wordAt_blk [OF b, of tableLastFreeGen] by (simp add: tableLastFreeGen_def)
  define w where "w = ucast x OR (a_words a ! (idx t + 5) AND 0xFFFFFFFF00000000)"
  note h = head_write [OF assms, of w]
  have le: "idx t + 5 < length (a_words a)" using b by (simp add: blk_def)
  have "wordAt (a\<lparr>a_words := (a_words a)[idx t + 5 := w]\<rparr>) t tableLastFreeGen = Some w"
    using wordAt_blk [of "a\<lparr>a_words := (a_words a)[idx t + 5 := w]\<rparr>" t 6 tableLastFreeGen] b le
    by (simp add: tableLastFreeGen_def)
  then show ?thesis
    using h rd repack32(1,2) [of x "a_words a ! (idx t + 5)"]
    by (intro exI [of _ "a\<lparr>a_words := (a_words a)[idx t + 5 := w]\<rparr>"])
      (simp add: SetTableLastFree_def TableGen_def w_def)
qed

lemma bump_gen:
  assumes "tab a G t nh r q A ns lf"
  shows "\<exists>a'. BumpGen a t = Some a' \<and> tab a' G t nh r q A ns lf \<and> keeps a a' G \<and>
    TableGen a' t = map_option (\<lambda>g. g + 1) (TableGen a t)"
proof -
  have l: "lay a G t nh r q A ns" and lf: "ucast (a_words a ! (idx t + 5)) = lf"
    using assms by (simp_all add: tab_def head_at_def)
  note b = lay_blocks(1) [OF l]
  have rd: "wordAt a t tableLastFreeGen = Some (a_words a ! (idx t + 5))"
    using wordAt_blk [OF b, of tableLastFreeGen] by (simp add: tableLastFreeGen_def)
  define w :: u64 where "w = ucast (ucast (a_words a ! (idx t + 5)) :: u32) OR
    push_bit 32 (ucast (ucast (drop_bit 32 (a_words a ! (idx t + 5))) + 1 :: u32))"
  note h = head_write [OF assms, of w]
  have le: "idx t + 5 < length (a_words a)" using b by (simp add: blk_def)
  have "wordAt (a\<lparr>a_words := (a_words a)[idx t + 5 := w]\<rparr>) t tableLastFreeGen = Some w"
    using wordAt_blk [of "a\<lparr>a_words := (a_words a)[idx t + 5 := w]\<rparr>" t 6 tableLastFreeGen] b le
    by (simp add: tableLastFreeGen_def)
  then show ?thesis
    using h rd pack32 lf
    by (intro exI [of _ "a\<lparr>a_words := (a_words a)[idx t + 5 := w]\<rparr>"])
      (simp add: BumpGen_def TableGen_def w_def Let_def)
qed

lemma node_write:
  assumes "tab a G t nh r q A ns lf" "unat i < length ns" "- 1 \<le> x" "x < 2 ^ 31"
  shows "\<exists>a'. SetNode a t i k v x = Some a' \<and> tab a' G t nh r q A (ns[unat i := (k, v, x)]) lf \<and> keeps a a' G"
proof -
  have l: "lay a G t nh r q A ns" "head_at (a_words a) t r q (length A) (length ns) lf"
    "arr_at (a_words a) r A" "nodes_at (a_words a) q ns" "\<forall>e\<in>set ns. - 1 \<le> snd (snd e) \<and> snd (snd e) < 2 ^ 31"
    using assms(1) by (simp_all add: tab_def)
  have ns: "ns \<noteq> []" using assms(2) by auto
  note b = lay_blocks(3) [OF l(1) ns] and ix = node_index [OF l(1) assms(2)] and ap = lay_apart [OF l(1)]
    and le = lay_lengths [OF l(1)]
  let ?m = "idx q + 3 * unat i" and ?w = "ucast (word_of_int x :: u32) :: u64"
  let ?ws = "(a_words a)[?m := k, ?m + 1 := v, ?m + 2 := ?w]"
  have lt: "unat (i * 3) < 3 * length ns" "unat (i * 3 + 1) < 3 * length ns" "unat (i * 3 + 2) < 3 * length ns"
    using ix assms(2) by simp_all
  have "(i * 3 + 1) * 8 = i * 3 * 8 + 8" "(i * 3 + 2) * 8 = i * 3 * 8 + 16" by (simp_all add: algebra_simps)
  moreover have "ucast (i * 3 * 8 + 8) = ucast (i * 3 * 8) + (8 :: u64)" "ucast (i * 3 * 8 + 16) = ucast (i * 3 * 8) + (16 :: u64)"
    using le(2) assms(2) by (simp_all add: word_unat_eq_iff unat_word_ariths)
  ultimately have o: "q + ucast (i * 3 * 8) + 8 = q + ucast ((i * 3 + 1) * 8)" "q + ucast (i * 3 * 8) + 16 = q + ucast ((i * 3 + 2) * 8)"
    by (simp_all add: add.assoc)
  have "setWordAt a q (i * 3) k = Some (a\<lparr>a_words := (a_words a)[?m := k]\<rparr>)"
    using setWordAt_blk [OF b lt(1)] ix by simp
  moreover have "setWordAt (a\<lparr>a_words := (a_words a)[?m := k]\<rparr>) q (i * 3 + 1) v =
      Some (a\<lparr>a_words := (a_words a)[?m := k, ?m + 1 := v]\<rparr>)"
    using setWordAt_blk [of "a\<lparr>a_words := (a_words a)[?m := k]\<rparr>", OF _ lt(2)] b ix by (simp add: add.assoc)
  moreover have "setWordAt (a\<lparr>a_words := (a_words a)[?m := k, ?m + 1 := v]\<rparr>) q (i * 3 + 2) ?w = Some (a\<lparr>a_words := ?ws\<rparr>)"
    using setWordAt_blk [of "a\<lparr>a_words := (a_words a)[?m := k, ?m + 1 := v]\<rparr>", OF _ lt(3)] b ix by (simp add: add.assoc)
  ultimately have run: "SetNode a t i k v x = Some (a\<lparr>a_words := ?ws\<rparr>)"
    unfolding SetNode_def tab_sizes(4) [OF assms(1)] bind.bind_lunit Let_def nodeWords_def o
    by (simp add: setWordAt_def)
  have nw: "3 * length ns \<le> node_words ns" using l(1) ns by (simp add: lay_def part_ok_def)
  have m: "3 * unat i + 2 < 3 * length ns" using assms(2) by linarith
  have lw: "lay (a\<lparr>a_words := ?ws\<rparr>) G t nh r q A ns \<and> keeps a (a\<lparr>a_words := ?ws\<rparr>) G"
    by (rule lay_write [OF l(1), of _ "idx q" "node_words ns"])
      (use ns nw m in \<open>auto simp: node_blocks_def nth_list_update\<close>)
  have "lay (a\<lparr>a_words := ?ws\<rparr>) G t nh r q A (ns[unat i := (k, v, x)])"
    using lw ns by (simp add: lay_def node_blocks_def node_words_def)
  moreover have "head_at ?ws t r q (length A) (length (ns[unat i := (k, v, x)])) lf"
    using head_at_outside [OF l(2), of ?ws] ap(2) [OF ns] m by (auto simp: nth_list_update)
  moreover have "arr_at ?ws r A"
  proof (cases "A = []")
    case False
    show ?thesis by (rule arr_at_outside [OF l(3)]) (use ap(3) [OF False ns] m in \<open>auto simp: nth_list_update\<close>)
  qed (simp add: arr_at_def)
  moreover have "nodes_at ?ws q (ns[unat i := (k, v, x)])"
    unfolding nodes_at_def
  proof (intro allI impI)
    fix j assume j: "j < length (ns[unat i := (k, v, x)])"
    show "node_at ?ws (idx q + 3 * j) (ns[unat i := (k, v, x)] ! j)"
    proof (cases "j = unat i")
      case True
      then show ?thesis using le(4) [OF ns] m assms(2) by (simp add: node_at_def)
    next
      case False
      then have "3 * j + 2 < 3 * unat i \<or> 3 * unat i + 2 < 3 * j" by linarith
      then show ?thesis using l(4) j False by (auto simp: node_at_def nodes_at_def nth_list_update)
    qed
  qed
  moreover have "\<forall>e\<in>set (ns[unat i := (k, v, x)]). - 1 \<le> snd (snd e) \<and> snd (snd e) < 2 ^ 31"
  proof
    fix e assume "e \<in> set (ns[unat i := (k, v, x)])"
    then have "e = (k, v, x) \<or> e \<in> set ns" using set_update_subset_insert by fastforce
    then show "- 1 \<le> snd (snd e) \<and> snd (snd e) < 2 ^ 31" using l(5) assms(3,4) by auto
  qed
  ultimately have "tab (a\<lparr>a_words := ?ws\<rparr>) G t nh r q A (ns[unat i := (k, v, x)]) lf" by (simp add: tab_def)
  then show ?thesis using run lw by blast
qed

end
