(* ===== verification/HashChain.thy ===== *)
theory HashChain
  imports Prelude
begin

text \<open>
  Collision chains threaded through an array of nodes: the invariant of the hash part of a table, as
  the keys and links of the nodes. A node is linked from at most one other, links do not loop, and
  every key is reachable from its main position; a node that holds a key away from its main
  position is nobody's main position. These facts are kept by the three ways a key is inserted.
\<close>

section \<open>The invariant\<close>

definition link :: "nat \<Rightarrow> (nat \<Rightarrow> int) \<Rightarrow> nat \<Rightarrow> nat \<Rightarrow> bool" where
  "link n N p q \<longleftrightarrow> p < n \<and> N p = int q"

abbreviation reach :: "nat \<Rightarrow> (nat \<Rightarrow> int) \<Rightarrow> nat \<Rightarrow> nat \<Rightarrow> bool" where
  "reach n N \<equiv> (link n N)\<^sup>*\<^sup>*"

definition links_ok :: "nat \<Rightarrow> (nat \<Rightarrow> int) \<Rightarrow> nat \<Rightarrow> bool" where
  "links_ok n N lf \<longleftrightarrow>
     (\<forall>p q. link n N p q \<longrightarrow> lf \<le> q \<and> q < n) \<and>
     (\<forall>p p' q. link n N p q \<longrightarrow> link n N p' q \<longrightarrow> p = p') \<and>
     (\<exists>rank :: nat \<Rightarrow> nat. \<forall>p q. link n N p q \<longrightarrow> rank p < rank q)"

definition keys_ok :: "nat \<Rightarrow> ('k \<Rightarrow> nat) \<Rightarrow> 'k \<Rightarrow> (nat \<Rightarrow> 'k) \<Rightarrow> (nat \<Rightarrow> int) \<Rightarrow> bool" where
  "keys_ok n main nl K N \<longleftrightarrow>
     (\<forall>j<n. K j \<noteq> nl \<longrightarrow> reach n N (main (K j)) j) \<and>
     (\<forall>i<n. \<forall>j<n. K i \<noteq> nl \<longrightarrow> K i = K j \<longrightarrow> i = j) \<and>
     (\<forall>i<n. \<forall>j<n. K i \<noteq> nl \<longrightarrow> main (K i) \<noteq> i \<longrightarrow> K j \<noteq> nl \<longrightarrow> main (K j) \<noteq> i)"

definition chains_ok :: "nat \<Rightarrow> ('k \<Rightarrow> nat) \<Rightarrow> 'k \<Rightarrow> (nat \<Rightarrow> 'k) \<Rightarrow> (nat \<Rightarrow> int) \<Rightarrow> nat \<Rightarrow> bool" where
  "chains_ok n main nl K N lf \<longleftrightarrow> links_ok n N lf \<and> keys_ok n main nl K N"

lemma links_okI:
  assumes "\<And>p q. link n N p q \<Longrightarrow> lf \<le> q \<and> q < n" "\<And>p p' q. link n N p q \<Longrightarrow> link n N p' q \<Longrightarrow> p = p'"
    "\<And>p q. link n N p q \<Longrightarrow> rank p < (rank q :: nat)"
  shows "links_ok n N lf"
  using assms unfolding links_ok_def by blast

lemma links_okD:
  assumes "links_ok n N lf"
  shows "link n N p q \<Longrightarrow> lf \<le> q" "link n N p q \<Longrightarrow> q < n" "link n N p q \<Longrightarrow> link n N p' q \<Longrightarrow> p = p'"
  using assms unfolding links_ok_def by blast+

lemma links_rank: "links_ok n N lf \<Longrightarrow> \<exists>rank :: nat \<Rightarrow> nat. \<forall>p q. link n N p q \<longrightarrow> rank p < rank q"
  unfolding links_ok_def by blast

lemma links_self: "links_ok n N lf \<Longrightarrow> \<not> link n N p p"
  using links_rank [of n N lf] by blast

lemma keys_okI:
  assumes "\<And>j. j < n \<Longrightarrow> K j \<noteq> nl \<Longrightarrow> reach n N (main (K j)) j"
    "\<And>i j. i < n \<Longrightarrow> j < n \<Longrightarrow> K i \<noteq> nl \<Longrightarrow> K i = K j \<Longrightarrow> i = j"
    "\<And>i j. i < n \<Longrightarrow> j < n \<Longrightarrow> K i \<noteq> nl \<Longrightarrow> main (K i) \<noteq> i \<Longrightarrow> K j \<noteq> nl \<Longrightarrow> main (K j) = i \<Longrightarrow> False"
  shows "keys_ok n main nl K N"
  using assms unfolding keys_ok_def by blast

lemma keys_okD:
  assumes "keys_ok n main nl K N"
  shows "j < n \<Longrightarrow> K j \<noteq> nl \<Longrightarrow> reach n N (main (K j)) j"
    "i < n \<Longrightarrow> j < n \<Longrightarrow> K i \<noteq> nl \<Longrightarrow> K i = K j \<Longrightarrow> i = j"
    "i < n \<Longrightarrow> j < n \<Longrightarrow> K i \<noteq> nl \<Longrightarrow> main (K i) \<noteq> i \<Longrightarrow> K j \<noteq> nl \<Longrightarrow> main (K j) \<noteq> i"
  using assms unfolding keys_ok_def by blast+

lemma reach_end: "reach n N p q \<Longrightarrow> N p < 0 \<Longrightarrow> q = p"
  by (erule converse_rtranclpE) (auto simp: link_def)

lemma reach_start: "reach n N p q \<Longrightarrow> (\<And>x. \<not> link n N x q) \<Longrightarrow> p = q"
  by (erule rtranclp.cases) auto

text \<open>Every node of a chain lies within the array.\<close>

lemma reach_lt: "reach n N p q \<Longrightarrow> links_ok n N lf \<Longrightarrow> p < n \<Longrightarrow> q < n"
  by (induction rule: rtranclp_induct) (auto dest: links_okD)

text \<open>A bound for the walk along a chain: what is left of the rank.\<close>

lemma links_measure:
  assumes "links_ok n N lf"
  shows "\<exists>mu :: nat \<Rightarrow> nat. \<forall>p q. link n N p q \<longrightarrow> mu q < mu p"
proof -
  obtain rank :: "nat \<Rightarrow> nat" where r: "\<And>p q. link n N p q \<Longrightarrow> rank p < rank q" using links_rank [OF assms] by blast
  define B where "B = (\<Sum>p<n. rank p)"
  have "rank q \<le> B" if "link n N p q" for p q
    using links_okD(2) [OF assms that] unfolding B_def by (intro member_le_sum) auto
  then have "B - rank q < B - rank p" if "link n N p q" for p q
    using r [OF that] that by (metis diff_less_mono2 order_less_le_trans)
  then show ?thesis by (intro exI [of _ "\<lambda>p. B - rank p"]) auto
qed

section \<open>Changing a value, deleting, and claiming an empty main position\<close>

lemma chains_delete:
  assumes "chains_ok n main nl K N lf"
  shows "chains_ok n main nl (K(j := nl)) N lf"
proof -
  have k: "keys_ok n main nl K N" using assms by (simp add: chains_ok_def)
  have "keys_ok n main nl (K(j := nl)) N"
    by (rule keys_okI) (use keys_okD [OF k] in \<open>auto split: if_splits\<close>)
  with assms show ?thesis by (simp add: chains_ok_def)
qed

lemma chains_lower: "chains_ok n main nl K N lf \<Longrightarrow> lf' \<le> lf \<Longrightarrow> chains_ok n main nl K N lf'"
  unfolding chains_ok_def links_ok_def by (meson le_trans)

lemma chains_claim:
  assumes "chains_ok n main nl K N lf" "m < n" "K m = nl" "N m < 0" "main k = m" "k \<noteq> nl"
    "\<And>j. j < n \<Longrightarrow> K j \<noteq> k"
  shows "chains_ok n main nl (K(m := k)) (N(m := - 1)) lf"
proof -
  have k: "keys_ok n main nl K N" and l: "links_ok n N lf" using assms(1) by (simp_all add: chains_ok_def)
  have lk: "link n (N(m := - 1)) = link n N" using assms(4) by (intro ext) (auto simp: link_def)
  then have rc: "reach n (N(m := - 1)) = reach n N" by simp
  have "keys_ok n main nl (K(m := k)) (N(m := - 1))"
  proof (rule keys_okI)
    show "reach n (N(m := - 1)) (main ((K(m := k)) j)) j" if "j < n" "(K(m := k)) j \<noteq> nl" for j
      unfolding rc using that keys_okD(1) [OF k] assms(5) by auto
    show "i = j" if "i < n" "j < n" "(K(m := k)) i \<noteq> nl" "(K(m := k)) i = (K(m := k)) j" for i j
      using that keys_okD(2) [OF k] assms(7) by (metis fun_upd_def)
    show False if "i < n" "j < n" "(K(m := k)) i \<noteq> nl" "main ((K(m := k)) i) \<noteq> i" "(K(m := k)) j \<noteq> nl"
      "main ((K(m := k)) j) = i" for i j
      using that keys_okD(3) [OF k that(1,2)] assms(5) by (auto split: if_splits)
  qed
  moreover have "links_ok n (N(m := - 1)) lf" using l unfolding links_ok_def lk .
  ultimately show ?thesis by (simp add: chains_ok_def)
qed

section \<open>Chaining a key in behind its main position\<close>

lemma chains_chain_in:
  assumes "chains_ok n main nl K N lf" "m < n" "f < lf" "f < n" "f \<noteq> m" "K f = nl" "N f < 0"
    "main k = m" "k \<noteq> nl" "K m = nl \<or> main (K m) = m" "\<And>j. j < n \<Longrightarrow> K j \<noteq> k"
  shows "chains_ok n main nl (K(f := k)) (N(f := N m, m := int f)) f"
proof -
  let ?N = "N(f := N m, m := int f)"
  have k: "keys_ok n main nl K N" and l: "links_ok n N lf" using assms(1) by (simp_all add: chains_ok_def)
  have nopred: "\<not> link n N x f" for x using links_okD(1) [OF l] assms(3) by (meson not_le)
  have lk: "link n ?N p q \<longleftrightarrow> (p = m \<and> q = f) \<or> (p = f \<and> link n N m q) \<or> (p \<noteq> m \<and> p \<noteq> f \<and> link n N p q)" for p q
    using assms(2,4,5) by (auto simp: link_def)
  obtain rank :: "nat \<Rightarrow> nat" where r: "\<And>p q. link n N p q \<Longrightarrow> rank p < rank q" using links_rank [OF l] by blast
  have "links_ok n ?N f"
  proof (rule links_okI)
    show "f \<le> q \<and> q < n" if "link n ?N p q" for p q
      using that links_okD(1,2) [OF l] assms(3,4) by (fastforce simp: lk)
    show "p = p'" if "link n ?N p q" "link n ?N p' q" for p p' q
      using that links_okD(3) [OF l] nopred by (auto simp: lk)
    show "((\<lambda>x. 2 * rank x)(f := 2 * rank m + 1)) p < ((\<lambda>x. 2 * rank x)(f := 2 * rank m + 1)) q"
      if "link n ?N p q" for p q
      using that r [of p q] r [of m q] nopred assms(5) by (auto simp: lk)
  qed
  moreover have up: "reach n ?N p q" if "reach n N p q" for p q
    using that
  proof (induction rule: rtranclp_induct)
    case (step y z)
    have "reach n ?N y z"
    proof (cases "y = m")
      case True
      then have "link n ?N m f" "link n ?N f z" using step(2) by (simp_all add: lk)
      then show ?thesis using True by auto
    next
      case False
      moreover have "y \<noteq> f" using step(2) assms(7) by (auto simp: link_def)
      ultimately show ?thesis using step(2) by (intro r_into_rtranclp) (simp add: lk)
    qed
    with step show ?case by (meson rtranclp_trans)
  qed simp
  have "keys_ok n main nl (K(f := k)) ?N"
  proof (rule keys_okI)
    show "reach n ?N (main ((K(f := k)) j)) j" if "j < n" "(K(f := k)) j \<noteq> nl" for j
    proof (cases "j = f")
      case True
      moreover have "link n ?N m f" by (simp add: lk)
      ultimately show ?thesis using assms(8) by auto
    next
      case False
      then show ?thesis using that up keys_okD(1) [OF k] by simp
    qed
    show "i = j" if "i < n" "j < n" "(K(f := k)) i \<noteq> nl" "(K(f := k)) i = (K(f := k)) j" for i j
      using that keys_okD(2) [OF k] assms(11) by (metis fun_upd_def)
    show False if "i < n" "j < n" "(K(f := k)) i \<noteq> nl" "main ((K(f := k)) i) \<noteq> i" "(K(f := k)) j \<noteq> nl"
      "main ((K(f := k)) j) = i" for i j
    proof (cases "i = f")
      case True
      then have "j \<noteq> f" using that(6) assms(5,8) by auto
      then have "reach n N f j" using keys_okD(1) [OF k that(2)] that(5,6) True by simp
      then have "j = f" using reach_end assms(7) by blast
      with \<open>j \<noteq> f\<close> show False ..
    next
      case False
      show False
      proof (cases "j = f")
        case True
        then have "i = m" using that(6) assms(8) by simp
        then show False using that(3,4) False assms(10) by simp
      next
        case ne: False
        then show False using keys_okD(3) [OF k that(1,2)] that False by simp
      qed
    qed
  qed
  ultimately show ?thesis by (simp add: chains_ok_def)
qed

section \<open>Moving a stranger out of a main position\<close>

lemma chains_relocate:
  assumes "chains_ok n main nl K N lf" "m < n" "f < lf" "f < n" "f \<noteq> m" "K f = nl" "N f < 0"
    "main k = m" "k \<noteq> nl" "K m \<noteq> nl" "main (K m) \<noteq> m" "link n N p m" "\<And>j. j < n \<Longrightarrow> K j \<noteq> k"
  shows "chains_ok n main nl (K(f := K m, m := k)) (N(f := N m, p := int f, m := - 1)) f"
proof -
  let ?N = "N(f := N m, p := int f, m := - 1)" and ?K = "K(f := K m, m := k)"
  have k: "keys_ok n main nl K N" and l: "links_ok n N lf" using assms(1) by (simp_all add: chains_ok_def)
  have nopred: "\<not> link n N x f" for x using links_okD(1) [OF l] assms(3) by (meson not_le)
  have p: "p < n" "p \<noteq> m" "p \<noteq> f" "N p = int m" using assms(7,12) links_self [OF l] by (auto simp: link_def)
  have lk: "link n ?N x y \<longleftrightarrow> (x = p \<and> y = f) \<or> (x = f \<and> link n N m y) \<or> (x \<noteq> m \<and> x \<noteq> f \<and> x \<noteq> p \<and> link n N x y)" for x y
    using assms(2,4,5) p by (auto simp: link_def)
  obtain rank :: "nat \<Rightarrow> nat" where r: "\<And>p q. link n N p q \<Longrightarrow> rank p < rank q" using links_rank [OF l] by blast
  have only_p: "link n N x m \<Longrightarrow> x = p" for x using links_okD(3) [OF l] assms(12) by blast
  have "links_ok n ?N f"
  proof (rule links_okI)
    show "f \<le> q \<and> q < n" if "link n ?N x q" for x q
      using that links_okD(1,2) [OF l] assms(3,4) by (fastforce simp: lk)
    show "x = x'" if "link n ?N x q" "link n ?N x' q" for x x' q
      using that links_okD(3) [OF l] nopred by (auto simp: lk)
    show "(rank(f := rank m)) x < (rank(f := rank m)) q" if "link n ?N x q" for x q
      using that r [of x q] r [of m q] r [OF assms(12)] nopred p(3) by (auto simp: lk)
  qed
  moreover define phi where "phi x = (if x = m then f else x)" for x
  have up: "reach n ?N (phi x) (phi y)" if "reach n N x y" for x y
    using that
  proof (induction rule: rtranclp_induct)
    case (step y z)
    have "y \<noteq> f" "y = p \<Longrightarrow> z = m" using step(2) assms(7) p(4) by (auto simp: link_def)
    then have "link n ?N (phi y) (phi z)"
      using step(2) nopred only_p [of y] p links_self [OF l] unfolding lk phi_def by auto
    with step(3) show ?case by (rule rtranclp.rtrancl_into_rtrancl)
  qed simp
  have mains: "main (K j) \<noteq> m" if "j < n" "K j \<noteq> nl" for j
    using keys_okD(3) [OF k assms(2) that(1)] assms(10,11) that(2) by simp
  have mainf: "main (K j) \<noteq> f" if "j < n" "K j \<noteq> nl" for j
    using keys_okD(1) [OF k that] reach_end [of n N f j] assms(6,7) that(2) by auto
  have "keys_ok n main nl ?K ?N"
  proof (rule keys_okI)
    show "reach n ?N (main (?K j)) j" if "j < n" "?K j \<noteq> nl" for j
    proof -
      consider "j = m" | "j = f" | "j \<noteq> m" "j \<noteq> f" by blast
      then show ?thesis
      proof cases
        case 2
        then show ?thesis
          using up [OF keys_okD(1) [OF k assms(2,10)]] assms(5,11) by (simp add: phi_def)
      next
        case 3
        then show ?thesis using up [OF keys_okD(1) [OF k that(1)]] mains [OF that(1)] that(2) by (simp add: phi_def)
      qed (use assms(8) in simp)
    qed
    show "i = j" if "i < n" "j < n" "?K i \<noteq> nl" "?K i = ?K j" for i j
      using that keys_okD(2) [OF k] assms(2,10,13) by (auto split: if_splits)
    show False if h: "i < n" "j < n" "?K i \<noteq> nl" "main (?K i) \<noteq> i" "?K j \<noteq> nl" "main (?K j) = i" for i j
    proof -
      obtain j' where j': "j' < n" "K j' \<noteq> nl" "?K j = K j' \<or> j = m"
        using h(2,5) assms(2,10) by (cases "j = f"; cases "j = m") auto
      have "i \<noteq> m" using h(4) assms(8) by auto
      show False
      proof (cases "j = m")
        case True
        then show False using h(6) assms(8) \<open>i \<noteq> m\<close> by simp
      next
        case False
        then have "main (K j') = i" using j'(3) h(6) by simp
        then show False
          using mainf [OF j'(1,2)] keys_okD(3) [OF k h(1) j'(1)] h(3,4) j'(2) \<open>i \<noteq> m\<close> by (auto split: if_splits)
      qed
    qed
  qed
  ultimately show ?thesis by (simp add: chains_ok_def)
qed

section \<open>An empty node below the free mark\<close>

text \<open>Without deletions every node at or above the mark is in use, so a table with room has an empty
  node below it.\<close>

definition packed :: "nat \<Rightarrow> 'k \<Rightarrow> (nat \<Rightarrow> 'k) \<Rightarrow> nat \<Rightarrow> bool" where
  "packed n nl K lf \<longleftrightarrow> (\<forall>j<n. lf \<le> j \<longrightarrow> K j \<noteq> nl)"

lemma packed_room:
  assumes "packed n nl K lf" "card {j. j < n \<and> K j \<noteq> nl} < n"
  shows "\<exists>j<lf. j < n \<and> K j = nl"
proof (rule ccontr)
  assume "\<not> ?thesis"
  then have "{j. j < n \<and> K j \<noteq> nl} = {..<n}" using assms(1) by (fastforce simp: packed_def not_le)
  then show False using assms(2) by simp
qed

end
