(* ===== verification/TableSpec.thy ===== *)
theory TableSpec
  imports TableView HashChain
begin

text \<open>
  Correctness of lookup and of updates that do not rehash: a well-formed table is a map from keys to
  values, \<open>rawGet\<close> reads it and an update changes it at one key only.
\<close>

section \<open>Keys\<close>

definition string_key_ok :: "(nat \<times> nat) set \<Rightarrow> lvalue \<Rightarrow> bool" where
  "string_key_ok G k \<longleftrightarrow> (\<not> IsNumber k \<and> Tag k = TagString \<longrightarrow>
     aligned (GCRefOf k) \<and> (\<exists>n. (idx (GCRefOf k), n) \<in> G \<and> 2 \<le> n))"

definition keyable :: "(nat \<times> nat) set \<Rightarrow> lvalue \<Rightarrow> bool" where
  "keyable G k \<longleftrightarrow> checkKey k = None \<and> string_key_ok G k"

definition normal :: "lvalue \<Rightarrow> bool" where "normal k \<longleftrightarrow> normKey k = k"

definition hashes :: "arena \<Rightarrow> (nat \<times> nat) set \<Rightarrow> (lvalue \<Rightarrow> u32) \<Rightarrow> bool" where
  "hashes a G H \<longleftrightarrow> (\<forall>k. string_key_ok G k \<longrightarrow> hashValue a k = Some (H k))"

lemma f64_eq_self: "f64_eq f f \<longleftrightarrow> \<not> f64_is_nan f"
  by (simp add: f64_eq_def)

lemma f64_zero_iff: "f64_eq f 0 \<longleftrightarrow> f64_is_zero f"
  by (auto simp: f64_eq_def f64_is_zero_def f64_is_nan_def f64_expo_def f64_frac_def drop_bit_eq_div)

lemma checkKey_None: "checkKey k = None \<longleftrightarrow> k \<noteq> VNil \<and> (IsNumber k \<longrightarrow> \<not> f64_is_nan k)"
  by (simp add: checkKey_def AsNumber_def f64_eq_self Let_def)

lemma number_zero: "NumberValue 0 = 0" "IsNumber 0"
  by (simp_all add: NumberValue_def f64_eq_self f64_is_nan_def f64_expo_def f64_frac_def IsNumber_def qNanBoxBase_def)

lemma normKey_eq: "normKey k = (if IsNumber k \<and> f64_is_zero k then 0 else k)"
  by (simp add: normKey_def AsNumber_def f64_zero_iff number_zero)

lemma normal_normKey [simp]: "normal (normKey k)"
  by (simp add: normal_def normKey_eq)

lemma VNil_not_number: "\<not> IsNumber VNil"
  by (simp add: IsNumber_def val_numerals qNanBoxBase_def)

lemma normal_VNil [simp]: "normal VNil"
  by (simp add: normal_def normKey_eq VNil_not_number)

lemma keyable_normKey: "keyable G k \<Longrightarrow> keyable G (normKey k)"
  by (auto simp: keyable_def checkKey_None normKey_eq string_key_ok_def number_zero val_numerals f64_is_nan_def
      f64_expo_def)

lemma keyable_not_nil: "keyable G k \<Longrightarrow> k \<noteq> VNil"
  by (simp add: keyable_def checkKey_None)

text \<open>On stored keys the key comparison is equality.\<close>

lemma keyEqual_normal: "normal k \<Longrightarrow> normal k' \<Longrightarrow> checkKey k = None \<Longrightarrow> keyEqual k' k \<longleftrightarrow> k' = k"
  unfolding normal_def normKey_eq keyEqual_def AsNumber_def f64_eq_def checkKey_None by (metis (full_types))

lemma keyEqual_nan: "IsNumber k \<Longrightarrow> f64_is_nan k \<Longrightarrow> k' = VNil \<or> checkKey k' = None \<Longrightarrow> \<not> keyEqual k' k"
  by (auto simp: keyEqual_def AsNumber_def f64_eq_def VNil_not_number checkKey_None)

lemma arrayIndex_iff:
  "arrayIndex k n = Some i \<longleftrightarrow> IsNumber k \<and> f64_eq (f64_of_nat (unat (i + 1))) k \<and> 1 \<le> i + 1 \<and> i + 1 \<le> n \<and>
     f64_to_u32 k = i + 1"
  by (auto simp: arrayIndex_def Let_def AsNumber_def split: if_splits)

lemma f64_of_nat_not_zero: "0 < n \<Longrightarrow> n < 2 ^ 53 \<Longrightarrow> \<not> f64_is_zero (f64_of_nat n)"
  using f64_of_nat_pos(1) [of n] by (auto simp: f64_is_zero_def f64_expo_def drop_bit_eq_div)

lemma u32_lt_53: "unat (i :: u32) + 1 < 2 ^ 53"
proof -
  have "unat i + 1 \<le> 4294967296" using unat_u32_lt [of i] by (simp only: Suc_eq_plus1 [symmetric] Suc_le_eq)
  then show ?thesis by (rule le_less_trans) simp
qed

lemma arrayIndex_key:
  assumes "arrayIndex k n = Some i"
  shows "k = f64_of_nat (unat i + 1)" "unat i < unat n"
proof -
  from assms have a: "f64_eq (f64_of_nat (unat (i + 1))) k" "1 \<le> i + 1" "i + 1 \<le> n" by (simp_all add: arrayIndex_iff)
  have "unat (i + 1) \<noteq> 0" using a(2) by (auto simp: unat_eq_zero)
  moreover have "unat (i + 1) = (unat i + 1) mod 4294967296" by (simp add: unat_word_ariths)
  ultimately have u: "unat (i + 1) = unat i + 1" using unat_u32_lt [of i] by (cases "unat i + 1 = 4294967296") auto
  then show "unat i < unat n" using a(3) by (simp add: word_le_nat_alt)
  show "k = f64_of_nat (unat i + 1)" using a(1) f64_of_nat_not_zero [OF _ u32_lt_53, of i] u by (auto simp: f64_eq_def)
qed

lemma arrayIndex_inj: "arrayIndex k n = Some i \<Longrightarrow> arrayIndex k' m = Some i \<Longrightarrow> k = k'"
  using arrayIndex_key(1) by metis

section \<open>The abstract table\<close>

definition nkey :: "node list \<Rightarrow> nat \<Rightarrow> lvalue" where "nkey ns j = fst (ns ! j)"
definition nval :: "node list \<Rightarrow> nat \<Rightarrow> lvalue" where "nval ns j = fst (snd (ns ! j))"
definition nnext :: "node list \<Rightarrow> nat \<Rightarrow> int" where "nnext ns j = snd (snd (ns ! j))"

definition mainpos :: "(lvalue \<Rightarrow> u32) \<Rightarrow> nat \<Rightarrow> lvalue \<Rightarrow> nat" where
  "mainpos H n k = unat (H k AND (word_of_nat n - 1))"

text \<open>What the nodes, and a table, map a key to.\<close>

definition hget :: "node list \<Rightarrow> lvalue \<Rightarrow> lvalue" where
  "hget ns k = (case find (\<lambda>e. fst e = k) ns of Some e \<Rightarrow> fst (snd e) | None \<Rightarrow> VNil)"

definition tget :: "lvalue list \<Rightarrow> node list \<Rightarrow> lvalue \<Rightarrow> lvalue" where
  "tget A ns k = (case arrayIndex k (word_of_nat (length A)) of
       Some i \<Rightarrow> A ! unat i
     | None \<Rightarrow> hget ns k)"

definition shape_ok :: "(nat \<times> nat) set \<Rightarrow> (lvalue \<Rightarrow> u32) \<Rightarrow> nat \<Rightarrow> node list \<Rightarrow> u32 \<Rightarrow> bool" where
  "shape_ok G H asz ns lf \<longleftrightarrow>
     (ns = [] \<or> (\<exists>e. length ns = 2 ^ e)) \<and>
     (\<forall>j<length ns. nkey ns j \<noteq> VNil \<longrightarrow>
        keyable G (nkey ns j) \<and> normal (nkey ns j) \<and> arrayIndex (nkey ns j) (word_of_nat asz) = None) \<and>
     chains_ok (length ns) (mainpos H (length ns)) VNil (nkey ns) (nnext ns) (unat lf)"

text \<open>\<open>G\<close> are all other live blocks, \<open>S\<close> those that hold the strings and whatever else must be kept.\<close>

definition table_ok :: "arena \<Rightarrow> (nat \<times> nat) set \<Rightarrow> (nat \<times> nat) set \<Rightarrow> (lvalue \<Rightarrow> u32) \<Rightarrow> gcref \<Rightarrow> nat \<Rightarrow> gcref \<Rightarrow> gcref \<Rightarrow>
    lvalue list \<Rightarrow> node list \<Rightarrow> u32 \<Rightarrow> bool" where
  "table_ok a G S H t nh r q A ns lf \<longleftrightarrow>
     tab a G t nh r q A ns lf \<and> hashes a S H \<and> shape_ok S H (length A) ns lf \<and> S \<subseteq> G"

lemma table_okD:
  assumes "table_ok a G S H t nh r q A ns lf"
  shows "tab a G t nh r q A ns lf" "hashes a S H" "shape_ok S H (length A) ns lf" "S \<subseteq> G"
  using assms by (simp_all add: table_ok_def)

lemma tab_arena:
  assumes "tab a G t nh r q A ns lf"
  shows "\<exists>L. arena_inv a L \<and> G \<subseteq> L" "length ns < 2 ^ 28" "length A < 2 ^ 28"
    "j < length ns \<Longrightarrow> - 1 \<le> nnext ns j \<and> nnext ns j < 2 ^ 31"
proof -
  have l: "lay a G t nh r q A ns" "\<forall>e\<in>set ns. - 1 \<le> snd (snd e) \<and> snd (snd e) < 2 ^ 31"
    using assms by (simp_all add: tab_def)
  then show "\<exists>L. arena_inv a L \<and> G \<subseteq> L"
    unfolding lay_def by (intro exI [of _ "insert (idx t, nh) (arr_blocks r A \<union> node_blocks q ns \<union> G)"]) auto
  show "length ns < 2 ^ 28" "length A < 2 ^ 28" using lay_lengths(1,2) [OF l(1)] by simp_all
  show "j < length ns \<Longrightarrow> - 1 \<le> nnext ns j \<and> nnext ns j < 2 ^ 31" using l(2) by (simp add: nnext_def)
qed

text \<open>Hashes exist, and survive what keeps the other blocks.\<close>

lemma StringHash_blk: "blk a r 2 \<Longrightarrow> StringHash a r = Some (ucast (a_words a ! (idx r + 1)))"
  using wordAt_blk [of a r 2 strHashLenIdx] by (simp add: StringHash_def strHashLenIdx_def)

lemma string_key_blk: "arena_inv a L \<Longrightarrow> G \<subseteq> L \<Longrightarrow> string_key_ok G k \<Longrightarrow> \<not> IsNumber k \<Longrightarrow> Tag k = TagString \<Longrightarrow>
    blk a (GCRefOf k) 2"
  unfolding string_key_ok_def by (meson arena_inv_blk blk_mono subsetD)

lemma hashes_ex:
  assumes "arena_inv a L" "G \<subseteq> L"
  shows "hashes a G (\<lambda>k. the (hashValue a k))"
  using StringHash_blk [OF string_key_blk [OF assms]] by (simp add: hashes_def hashValue_def Let_def)

lemma keepsD: "keeps a a' L \<Longrightarrow> (i, n) \<in> L \<Longrightarrow> k < n \<Longrightarrow> a_words a' ! (i + k) = a_words a ! (i + k)"
  unfolding keeps_def by blast

lemma hashes_keeps:
  assumes "hashes a G H" "keeps a a' G" "arena_inv a L" "G \<subseteq> L" "arena_inv a' L'" "G \<subseteq> L'"
  shows "hashes a' G H"
  unfolding hashes_def
proof (intro allI impI)
  fix k assume k: "string_key_ok G k"
  have "hashValue a' k = hashValue a k"
  proof (cases "\<not> IsNumber k \<and> Tag k = TagString")
    case True
    then obtain n where n: "(idx (GCRefOf k), n) \<in> G" "2 \<le> n" using k unfolding string_key_ok_def by blast
    have "a_words a' ! (idx (GCRefOf k) + 1) = a_words a ! (idx (GCRefOf k) + 1)"
      by (rule keepsD [OF assms(2) n(1)]) (use n(2) in linarith)
    moreover have t: "\<not> IsNumber k" "Tag k = TagString" using True by simp_all
    ultimately have "StringHash a' (GCRefOf k) = StringHash a (GCRefOf k)"
      unfolding StringHash_blk [OF string_key_blk [OF assms(3,4) k t]] StringHash_blk [OF string_key_blk [OF assms(5,6) k t]]
      by simp
    then show ?thesis using t by (simp add: hashValue_def)
  qed (auto simp: hashValue_def)
  then show "hashValue a' k = Some (H k)" using assms(1) k by (simp add: hashes_def)
qed

lemma hashes_tab:
  assumes "hashes a S H" "keeps a a' S" "S \<subseteq> G" "S \<subseteq> G'" "tab a G t nh r q A ns lf" "tab a' G' t' nh' r' q' A' ns' lf'"
  shows "hashes a' S H"
proof -
  obtain L where "arena_inv a L" "S \<subseteq> L" using tab_arena(1) [OF assms(5)] assms(3) by blast
  moreover obtain L' where "arena_inv a' L'" "S \<subseteq> L'" using tab_arena(1) [OF assms(6)] assms(4) by blast
  ultimately show ?thesis using hashes_keeps [OF assms(1,2)] by blast
qed

lemma mainpos_lt:
  assumes "length ns = 2 ^ e" "length ns < 2 ^ 28"
  shows "mainpos H (length ns) k < length ns" "H k AND (word_of_nat (length ns) - 1) = word_of_nat (mainpos H (length ns) k)"
proof -
  have pos: "0 < length ns" using assms(1) by simp
  have u: "unat (word_of_nat (length ns) - 1 :: u32) = length ns - 1"
    using pos u32_small [OF assms(2)] by (subst unat_sub) (simp_all add: word_le_nat_alt Suc_le_eq)
  have "unat (H k AND (word_of_nat (length ns) - 1)) \<le> unat (word_of_nat (length ns) - 1 :: u32)"
    using word_and_le1 [of "H k" "word_of_nat (length ns) - 1"] by (simp add: word_le_nat_alt)
  then show "mainpos H (length ns) k < length ns" unfolding mainpos_def u using pos by linarith
  show "H k AND (word_of_nat (length ns) - 1) = word_of_nat (mainpos H (length ns) k)" by (simp add: mainpos_def)
qed

section \<open>Lookup\<close>

lemma find_node_ok:
  assumes "tab a G t nh r q A ns lf" "links_ok (length ns) (nnext ns) lf'" "p < length ns"
  shows "\<exists>res. find_node a t key (int p) = Some res \<and>
    (case res of Some i \<Rightarrow> unat i < length ns \<and> reach (length ns) (nnext ns) p (unat i) \<and> keyEqual (nkey ns (unat i)) key
     | None \<Rightarrow> \<forall>j. reach (length ns) (nnext ns) p j \<longrightarrow> \<not> keyEqual (nkey ns j) key)"
proof -
  obtain mu :: "nat \<Rightarrow> nat" where mu: "\<And>p q. link (length ns) (nnext ns) p q \<Longrightarrow> mu q < mu p"
    using links_measure [OF assms(2)] by blast
  from assms(3) show ?thesis
  proof (induction "mu p" arbitrary: p rule: less_induct)
    case less
    have u: "unat (word_of_nat p :: u32) = p" using less.prems tab_arena(2) [OF assms(1)] by (simp add: u32_small)
    have nd: "NodeKey a t (word_of_nat p) = Some (nkey ns p)" "NodeNext a t (word_of_nat p) = Some (nnext ns p)"
      using tab_node [OF assms(1), of "word_of_nat p"] u less.prems by (simp_all add: nkey_def nnext_def)
    show ?case
    proof (cases "keyEqual (nkey ns p) key")
      case True
      then show ?thesis using nd u less.prems by (subst find_node.simps) simp
    next
      case False
      then have run: "find_node a t key (int p) = find_node a t key (nnext ns p)" using nd by (subst find_node.simps) simp
      show ?thesis
      proof (cases "nnext ns p < 0")
        case True
        then have "find_node a t key (nnext ns p) = Some None" by (subst find_node.simps) simp
        moreover have "\<forall>j. reach (length ns) (nnext ns) p j \<longrightarrow> j = p" using reach_end True by blast
        ultimately show ?thesis using run False by auto
      next
        case ge: False
        then obtain s where s: "nnext ns p = int s" by (metis nonneg_int_cases not_less)
        then have lk: "link (length ns) (nnext ns) p s" using less.prems by (simp add: link_def)
        have via: "reach (length ns) (nnext ns) p j \<longleftrightarrow> j = p \<or> reach (length ns) (nnext ns) s j" for j
        proof
          assume "reach (length ns) (nnext ns) p j"
          then show "j = p \<or> reach (length ns) (nnext ns) s j"
            by (cases rule: converse_rtranclpE) (auto simp: link_def s)
        qed (use lk in \<open>auto intro: converse_rtranclp_into_rtranclp\<close>)
        from less.hyps [OF mu [OF lk] links_okD(2) [OF assms(2) lk]] show ?thesis
          unfolding run s via using False by (auto split: option.splits)
      qed
    qed
  qed
qed

lemma hash_find_ok:
  assumes "table_ok a G S H t nh r q A ns lf" "string_key_ok S k" "normal k" "k \<noteq> VNil" "ns \<noteq> []"
  shows "\<exists>res. hash_find a t k (word_of_nat (length ns)) = Some res \<and>
    (case res of Some i \<Rightarrow> unat i < length ns \<and> nkey ns (unat i) = k \<and> checkKey k = None
     | None \<Rightarrow> checkKey k = None \<longrightarrow> (\<forall>j<length ns. nkey ns j \<noteq> k))"
proof -
  note tk = table_okD [OF assms(1)]
  obtain e where e: "length ns = 2 ^ e" using tk(3) assms(5) by (auto simp: shape_ok_def)
  let ?m = "mainpos H (length ns) k"
  note mp = mainpos_lt [OF e tab_arena(2) [OF tk(1)], of H k]
  have lk: "links_ok (length ns) (nnext ns) (unat lf)" and ks: "keys_ok (length ns) (mainpos H (length ns)) VNil (nkey ns) (nnext ns)"
    using tk(3) by (simp_all add: shape_ok_def chains_ok_def)
  have kj: "nkey ns j = VNil \<or> (checkKey (nkey ns j) = None \<and> normal (nkey ns j))" if "j < length ns" for j
    using tk(3) that by (auto simp: shape_ok_def keyable_def)
  have "unat (word_of_nat ?m :: u32) < 2 ^ 31" using mp(1) tab_arena(2) [OF tk(1)] by (simp add: u32_small)
  then have "sint (word_of_nat ?m :: u32) = int ?m"
    using mp(1) tab_arena(2) [OF tk(1)]
    by (simp add: signed_of_nat signed_take_bit_int_eq_self)
  then have run: "hash_find a t k (word_of_nat (length ns)) = find_node a t k (int ?m)"
    using tk(2) assms(2) by (simp add: hash_find_def Let_def hashes_def mp(2))
  obtain res where res: "find_node a t k (int ?m) = Some res"
    "case res of Some i \<Rightarrow> unat i < length ns \<and> reach (length ns) (nnext ns) ?m (unat i) \<and> keyEqual (nkey ns (unat i)) k
     | None \<Rightarrow> \<forall>j. reach (length ns) (nnext ns) ?m j \<longrightarrow> \<not> keyEqual (nkey ns j) k"
    using find_node_ok [OF tk(1) lk mp(1)] by blast
  show ?thesis
  proof (cases res)
    case None
    have "nkey ns j \<noteq> k" if "checkKey k = None" "j < length ns" for j
    proof
      assume kk: "nkey ns j = k"
      then have "reach (length ns) (nnext ns) ?m j" using keys_okD(1) [OF ks that(2)] assms(4) by simp
      then have "\<not> keyEqual k k" using res(2) None kk by auto
      then show False using keyEqual_normal [OF assms(3,3) that(1)] by simp
    qed
    then show ?thesis using run res(1) None by simp
  next
    case (Some i)
    then have i: "unat i < length ns" "keyEqual (nkey ns (unat i)) k" using res(2) by auto
    have ck: "checkKey k = None"
      using keyEqual_nan [of k "nkey ns (unat i)"] kj [OF i(1)] i(2) assms(4) by (auto simp: checkKey_None)
    then have "nkey ns (unat i) = k" using keyEqual_normal [OF assms(3)] kj [OF i(1)] i(2) by auto
    then show ?thesis using run res(1) Some i(1) ck by simp
  qed
qed

text \<open>The node list as a map.\<close>

lemma find_key:
  assumes "shape_ok G H asz ns lf" "j < length ns" "nkey ns j = k" "k \<noteq> VNil"
  shows "find (\<lambda>e. fst e = k) ns = Some (ns ! j)"
proof -
  have "keys_ok (length ns) (mainpos H (length ns)) VNil (nkey ns) (nnext ns)"
    using assms(1) by (simp add: shape_ok_def chains_ok_def)
  from keys_okD(2) [OF this _ assms(2)] have uniq: "i = j" if "i < length ns" "fst (ns ! i) = k" for i
    using that assms(3,4) by (auto simp: nkey_def)
  have "fst (ns ! i) \<noteq> k" if "i < j" for i using uniq [of i] that assms(2) by linarith
  with assms(2,3) show ?thesis unfolding find_Some_iff nkey_def by blast
qed

lemma find_no_key: "\<forall>j<length ns. nkey ns j \<noteq> k \<Longrightarrow> find (\<lambda>e. fst e = k) ns = None"
  by (auto simp: find_None_iff nkey_def in_set_conv_nth)

text \<open>Lookup: \<open>rawGet\<close> returns, for every key, what the table maps the normalised key to; nil and NaN map
  to nothing.\<close>

lemma rawGet_ok:
  assumes "table_ok a G S H t nh r q A ns lf" "string_key_ok S k"
  shows "rawGet a t k = Some (if checkKey k = None then tget A ns (normKey k) else VNil)"
proof (cases "k = VNil")
  case True
  then show ?thesis by (simp add: rawGet_def checkKey_def)
next
  case False
  note tk = table_okD [OF assms(1)] and sz = tab_sizes [OF table_okD(1) [OF assms(1)]]
  have n: "string_key_ok S (normKey k)" "normKey k \<noteq> VNil" "checkKey (normKey k) = None \<longleftrightarrow> checkKey k = None"
  proof -
    have z: "f64_is_zero k \<Longrightarrow> \<not> f64_is_nan k" "\<not> f64_is_nan 0" "(0 :: lvalue) \<noteq> VNil"
      by (auto simp: f64_is_zero_def f64_is_nan_def f64_expo_def f64_frac_def drop_bit_eq_div val_numerals)
    show "string_key_ok S (normKey k)" using assms(2) by (simp add: string_key_ok_def normKey_eq number_zero)
    show "normKey k \<noteq> VNil" using False z by (simp add: normKey_eq)
    show "checkKey (normKey k) = None \<longleftrightarrow> checkKey k = None"
      using False z by (simp add: checkKey_None normKey_eq)
  qed
  show ?thesis
  proof (cases "arrayIndex (normKey k) (word_of_nat (length A))")
    case (Some i)
    have "unat i < length A" using arrayIndex_key(2) [OF Some] u32_small [OF tab_arena(3) [OF tk(1)]] by simp
    moreover have "checkKey k = None"
    proof -
      have "normKey k = f64_of_nat (unat i + 1)" "IsNumber (normKey k)"
        using arrayIndex_key(1) [OF Some] Some by (simp_all add: arrayIndex_iff)
      then have "\<not> f64_is_nan (normKey k)" using f64_of_nat_not_nan [OF u32_lt_53, of i] by simp
      then show ?thesis using n(2,3) by (simp add: checkKey_None)
    qed
    ultimately show ?thesis
      using False Some sz(1) tab_array [OF tk(1)] by (simp add: rawGet_def Let_def tget_def)
  next
    case None
    show ?thesis
    proof (cases "ns = []")
      case True
      then show ?thesis using False None sz(1,2) by (simp add: rawGet_def Let_def tget_def hget_def)
    next
      case ns: False
      have h0: "(word_of_nat (length ns) :: u32) \<noteq> 0"
        using ns u32_small [OF tab_arena(2) [OF tk(1)]] by (metis length_0_conv unat_0)
      obtain res where res: "hash_find a t (normKey k) (word_of_nat (length ns)) = Some res"
        "case res of Some i \<Rightarrow> unat i < length ns \<and> nkey ns (unat i) = normKey k \<and> checkKey (normKey k) = None
         | None \<Rightarrow> checkKey (normKey k) = None \<longrightarrow> (\<forall>j<length ns. nkey ns j \<noteq> normKey k)"
        using hash_find_ok [OF assms(1) n(1) normal_normKey n(2) ns] by blast
      have run: "rawGet a t k = (case res of Some i \<Rightarrow> NodeVal a t i | None \<Rightarrow> Some VNil)"
        using False None sz(1,2) h0 res(1) by (simp add: rawGet_def Let_def)
      show ?thesis
      proof (cases res)
        case None
        then show ?thesis using run res(2) find_no_key [of ns "normKey k"] n(3) \<open>arrayIndex _ _ = None\<close>
          by (auto simp: tget_def hget_def)
      next
        case (Some i)
        then have i: "unat i < length ns" "nkey ns (unat i) = normKey k" "checkKey k = None" using res(2) n(3) by auto
        then show ?thesis
          using run Some tab_node(2) [OF tk(1) i(1)] find_key [OF tk(3) i(1,2) n(2)] \<open>arrayIndex _ _ = None\<close>
          by (simp add: tget_def hget_def)
      qed
    qed
  qed
qed

end
