(* ===== verification/TableInsert.thy ===== *)
theory TableInsert
  imports TableSpec
begin

text \<open>
  Insertion of a new key into the hash part when a node is free: the three cases of
  \<open>insertNewKey\<close> (an empty main position, a stranger that is moved out, a key chained in), each of
  which adds exactly one entry and keeps the table well formed.
\<close>

section \<open>Entries\<close>

definition entries :: "node list \<Rightarrow> (lvalue \<times> lvalue) set" where
  "entries ns = {(nkey ns j, nval ns j) | j. j < length ns \<and> nkey ns j \<noteq> VNil}"

lemma no_entry: "k \<noteq> VNil \<Longrightarrow> (\<forall>v. (k, v) \<notin> entries ns) \<longleftrightarrow> (\<forall>j<length ns. nkey ns j \<noteq> k)"
  unfolding entries_def by auto

lemma hget_in: "shape_ok S H asz ns lf \<Longrightarrow> (k, v) \<in> entries ns \<Longrightarrow> hget ns k = v"
  unfolding entries_def by (auto simp: find_key hget_def nval_def)

lemma hget_out: "\<forall>v. (k, v) \<notin> entries ns \<Longrightarrow> k \<noteq> VNil \<Longrightarrow> hget ns k = VNil"
  using find_no_key [of ns k] no_entry [of k ns] by (simp add: hget_def)

lemma hget_insert:
  assumes "shape_ok S H asz ns lf" "shape_ok S H asz ns' lf'" "entries ns' = insert (k, v) (entries ns)"
    "\<forall>j<length ns. nkey ns j \<noteq> k" "k' \<noteq> VNil"
  shows "hget ns' k' = (if k' = k then v else hget ns k')"
proof (cases "k' = k")
  case True
  then show ?thesis using hget_in [OF assms(2), of k v] assms(3) by simp
next
  case False
  show ?thesis
  proof (cases "\<exists>w. (k', w) \<in> entries ns")
    case True
    then obtain w where w: "(k', w) \<in> entries ns" by blast
    then have "(k', w) \<in> entries ns'" using assms(3) by simp
    then show ?thesis using hget_in [OF assms(1) w] hget_in [OF assms(2)] False by simp
  next
    case none: False
    then have "\<forall>w. (k', w) \<notin> entries ns'" using assms(3) False by simp
    then show ?thesis using hget_out [OF _ assms(5)] none False by simp
  qed
qed

lemma node_upd:
  assumes "j < length ns"
  shows "nkey (ns[j := (k, v, x)]) = (nkey ns)(j := k)" "nval (ns[j := (k, v, x)]) = (nval ns)(j := v)"
    "nnext (ns[j := (k, v, x)]) = (nnext ns)(j := x)"
  using assms by (auto simp: nkey_def nval_def nnext_def nth_list_update)

lemma node_eta: "j < length ns \<Longrightarrow> ns[j := (nkey ns j, nval ns j, nnext ns j)] = ns"
  by (simp add: nkey_def nval_def nnext_def)

section \<open>Free nodes\<close>

definition vacant :: "node list \<Rightarrow> nat \<Rightarrow> bool" where
  "vacant ns j \<longleftrightarrow> nkey ns j = VNil \<and> nval ns j = VNil \<and> nnext ns j < 0"

lemma node_u32: "tab a G t nh r q A ns lf \<Longrightarrow> j < length ns \<Longrightarrow> unat (word_of_nat j :: u32) = j"
  by (rule u32_small) (rule less_trans [OF _ tab_arena(2)])

lemma node_read:
  assumes "tab a G t nh r q A ns lf" "j < length ns"
  shows "NodeKey a t (word_of_nat j) = Some (nkey ns j)" "NodeVal a t (word_of_nat j) = Some (nval ns j)"
    "NodeNext a t (word_of_nat j) = Some (nnext ns j)"
  using tab_node [OF assms(1), of "word_of_nat j"] node_u32 [OF assms] assms(2)
  by (simp_all add: nkey_def nval_def nnext_def)

lemma node_set:
  assumes "tab a G t nh r q A ns lf" "j < length ns" "- 1 \<le> x" "x < 2 ^ 31"
  shows "\<exists>a'. SetNode a t (word_of_nat j) k v x = Some a' \<and> tab a' G t nh r q A (ns[j := (k, v, x)]) lf \<and> keeps a a' G"
  using node_write [OF assms(1), of "word_of_nat j" x k v] node_u32 [OF assms(1,2)] assms(2-4) by simp

lemma node_empty_ok: "tab a G t nh r q A ns lf \<Longrightarrow> j < length ns \<Longrightarrow> node_empty a t (word_of_nat j) = Some (vacant ns j)"
  using node_read by (auto simp: node_empty_def vacant_def)

lemma scan_free_ok:
  assumes "tab a G t nh r q A ns lf" "n \<le> length ns"
  shows "scan_free a t n = Some (if \<exists>j<n. vacant ns j then Some (word_of_nat (GREATEST j. j < n \<and> vacant ns j)) else None)"
  using assms(2)
proof (induction n)
  case 0
  then show ?case by simp
next
  case (Suc n)
  then have e: "node_empty a t (word_of_nat n) = Some (vacant ns n)" using node_empty_ok [OF assms(1)] by simp
  show ?case
  proof (cases "vacant ns n")
    case True
    then have "(GREATEST j. j < Suc n \<and> vacant ns j) = n" by (intro Greatest_equality) auto
    then show ?thesis using True e by auto
  next
    case False
    then have "(j < Suc n \<and> vacant ns j) = (j < n \<and> vacant ns j)" for j by (auto simp: less_Suc_eq)
    then show ?thesis using False e Suc by (simp add: Let_def)
  qed
qed

text \<open>The scan for a free node: none below the mark, or the highest one, which becomes the mark.\<close>

lemma findFreeNode_ok:
  assumes "tab a G t nh r q A ns lf"
  shows "(\<exists>f a'. findFreeNode a t (word_of_nat (length ns)) = Some (Some (word_of_nat f), a') \<and> f < length ns \<and> f < unat lf \<and>
      vacant ns f \<and> (\<forall>j<length ns. f < j \<and> j < unat lf \<longrightarrow> \<not> vacant ns j) \<and>
      tab a' G t nh r q A ns (word_of_nat f) \<and> keeps a a' G) \<or>
    (findFreeNode a t (word_of_nat (length ns)) = Some (None, a) \<and> (\<forall>j<length ns. j < unat lf \<longrightarrow> \<not> vacant ns j))"
proof -
  let ?n = "min (length ns) (unat lf)"
  have u: "unat (word_of_nat (length ns) :: u32) = length ns" by (rule u32_small [OF tab_arena(2) [OF assms]])
  have lf: "unat (if word_of_nat (length ns) \<le> lf then word_of_nat (length ns) else lf) = ?n"
    using u by (auto simp: word_le_nat_alt)
  have sc: "scan_free a t ?n = Some (if \<exists>j<?n. vacant ns j then Some (word_of_nat (GREATEST j. j < ?n \<and> vacant ns j)) else None)"
    by (rule scan_free_ok [OF assms]) simp
  show ?thesis
  proof (cases "\<exists>j<?n. vacant ns j")
    case True
    define f where "f = (GREATEST j. j < ?n \<and> vacant ns j)"
    have f: "f < ?n \<and> vacant ns f" unfolding f_def
      by (rule GreatestI_ex_nat [where P = "\<lambda>j. j < ?n \<and> vacant ns j" and b = ?n, OF True]) (rule less_imp_le, erule conjunct1)
    have above: "j \<le> f" if "j < ?n" "vacant ns j" for j
      unfolding f_def by (rule Greatest_le_nat [where P = "\<lambda>j. j < ?n \<and> vacant ns j" and b = ?n]) (use that in auto)
    obtain a' where "SetTableLastFree a t (word_of_nat f) = Some a'" "tab a' G t nh r q A ns (word_of_nat f)" "keeps a a' G"
      using set_last_free [OF assms] by blast
    moreover have "findFreeNode a t (word_of_nat (length ns)) =
        do { a \<leftarrow> SetTableLastFree a t (word_of_nat f); Some (Some (word_of_nat f), a) }"
      unfolding findFreeNode_def tab_sizes(5) [OF assms] bind.bind_lunit Let_def lf sc f_def using True by simp
    moreover have "\<not> vacant ns j" if "j < length ns" "f < j" "j < unat lf" for j
      using above [of j] that by fastforce
    moreover have "f < length ns" "f < unat lf" "vacant ns f" using f by simp_all
    ultimately show ?thesis by (intro disjI1 exI [of _ f] exI [of _ a']) simp
  next
    case False
    then have "findFreeNode a t (word_of_nat (length ns)) = Some (None, a)"
      unfolding findFreeNode_def tab_sizes(5) [OF assms] bind.bind_lunit Let_def lf sc if_not_P [OF False] by simp
    then show ?thesis using False by (intro disjI2) auto
  qed
qed

section \<open>The chain predecessor\<close>

lemma find_prev_ok:
  assumes "tab a G t nh r q A ns lf" "links_ok (length ns) (nnext ns) lf'" "m < length ns"
    "p < length ns" "reach (length ns) (nnext ns) p m" "p \<noteq> m"
  shows "\<exists>x. find_prev a t (int m) (int p) = Some (int x) \<and> link (length ns) (nnext ns) x m"
proof -
  obtain mu :: "nat \<Rightarrow> nat" where mu: "\<And>p q. link (length ns) (nnext ns) p q \<Longrightarrow> mu q < mu p"
    using links_measure [OF assms(2)] by blast
  from assms(4-6) show ?thesis
  proof (induction "mu p" arbitrary: p rule: less_induct)
    case less
    obtain s where s: "link (length ns) (nnext ns) p s" "reach (length ns) (nnext ns) s m"
      by (rule converse_rtranclpE [OF less.prems(2)]) (use less.prems(3) in blast)+
    have nx: "NodeNext a t (word_of_nat p) = Some (int s)" using node_read(3) [OF assms(1) less.prems(1)] s(1) by (simp add: link_def)
    show ?case
    proof (cases "s = m")
      case True
      then show ?thesis using nx s(1) by (intro exI [of _ p], subst find_prev.simps) simp
    next
      case False
      from less.hyps [OF mu [OF s(1)] links_okD(2) [OF assms(2) s(1)] s(2) False] show ?thesis
        using nx False by (subst find_prev.simps) simp
    qed
  qed
qed

section \<open>The three cases\<close>

text \<open>What an insertion achieves: one more entry, in a well-formed table of the same size.\<close>

definition inserts :: "arena \<Rightarrow> (nat \<times> nat) set \<Rightarrow> (nat \<times> nat) set \<Rightarrow> (lvalue \<Rightarrow> u32) \<Rightarrow> gcref \<Rightarrow> nat \<Rightarrow> gcref \<Rightarrow> gcref \<Rightarrow>
    lvalue list \<Rightarrow> node list \<Rightarrow> u32 \<Rightarrow> lvalue \<Rightarrow> lvalue \<Rightarrow> arena \<Rightarrow> bool" where
  "inserts a G S H t nh r q A ns lf k v a' \<longleftrightarrow> (\<exists>ns' lf'.
     tab a' G t nh r q A ns' lf' \<and> keeps a a' G \<and> shape_ok S H (length A) ns' lf' \<and> length ns' = length ns \<and>
     entries ns' = insert (k, v) (entries ns) \<and>
     ((\<forall>j<length ns. nkey ns j = VNil \<longrightarrow> vacant ns j) \<and> packed (length ns) VNil (nkey ns) (unat lf) \<longrightarrow>
      (\<forall>j<length ns'. nkey ns' j = VNil \<longrightarrow> vacant ns' j) \<and> packed (length ns') VNil (nkey ns') (unat lf')))"

lemma shape_okI:
  assumes "shape_ok S H asz ns lf" "length ns' = length ns"
    "\<And>j. j < length ns \<Longrightarrow> nkey ns' j \<noteq> VNil \<Longrightarrow> (\<exists>i<length ns. nkey ns' j = nkey ns i) \<or>
      (keyable S (nkey ns' j) \<and> normal (nkey ns' j) \<and> arrayIndex (nkey ns' j) (word_of_nat asz) = None)"
    "chains_ok (length ns) (mainpos H (length ns)) VNil (nkey ns') (nnext ns') (unat lf')"
  shows "shape_ok S H asz ns' lf'"
proof -
  have s: "ns = [] \<or> (\<exists>e. length ns = 2 ^ e)"
    "\<forall>j<length ns. nkey ns j \<noteq> VNil \<longrightarrow> keyable S (nkey ns j) \<and> normal (nkey ns j) \<and>
       arrayIndex (nkey ns j) (word_of_nat asz) = None" using assms(1) by (simp_all add: shape_ok_def)
  have "keyable S (nkey ns' j) \<and> normal (nkey ns' j) \<and> arrayIndex (nkey ns' j) (word_of_nat asz) = None"
    if "j < length ns" "nkey ns' j \<noteq> VNil" for j
    using assms(3) [OF that] s(2) that(2) by metis
  moreover have "ns' = [] \<or> (\<exists>e. length ns' = 2 ^ e)" using s(1) assms(2) by auto
  ultimately show ?thesis using assms(2,4) by (simp add: shape_ok_def)
qed

lemma entries_put:
  assumes "m < length ns" "nkey ns m = VNil" "k \<noteq> VNil"
  shows "entries (ns[m := (k, v, x)]) = insert (k, v) (entries ns)"
  unfolding entries_def node_upd [OF assms(1)] length_list_update
proof (intro set_eqI iffI)
  fix e assume "e \<in> {(((nkey ns)(m := k)) j, ((nval ns)(m := v)) j) |j. j < length ns \<and> ((nkey ns)(m := k)) j \<noteq> VNil}"
  then show "e \<in> insert (k, v) {(nkey ns j, nval ns j) |j. j < length ns \<and> nkey ns j \<noteq> VNil}"
    by (auto split: if_splits)
next
  fix e assume "e \<in> insert (k, v) {(nkey ns j, nval ns j) |j. j < length ns \<and> nkey ns j \<noteq> VNil}"
  then consider "e = (k, v)" | j where "e = (nkey ns j, nval ns j)" "j < length ns" "nkey ns j \<noteq> VNil" by blast
  then show "e \<in> {(((nkey ns)(m := k)) j, ((nval ns)(m := v)) j) |j. j < length ns \<and> ((nkey ns)(m := k)) j \<noteq> VNil}"
  proof cases
    case 1
    then show ?thesis using assms(1,3) by (intro CollectI exI [of _ m]) simp
  next
    case 2
    then have "j \<noteq> m" using assms(2) by auto
    then show ?thesis using 2 by (intro CollectI exI [of _ j]) simp
  qed
qed

text \<open>Changing links only.\<close>

lemma entries_link: "m < length ns \<Longrightarrow> entries (ns[m := (nkey ns m, nval ns m, x)]) = entries ns"
  unfolding entries_def by (simp add: node_upd)

text \<open>Moving an entry to a vacant node and putting another in its place.\<close>

lemma entries_move:
  assumes "m < length ns" "f < length ns" "f \<noteq> m" "nkey ns f = VNil" "nkey ns m \<noteq> VNil" "k \<noteq> VNil"
  shows "entries (ns[f := (nkey ns m, nval ns m, x), m := (k, v, y)]) = insert (k, v) (entries ns)"
proof -
  let ?n1 = "ns[f := (nkey ns m, nval ns m, x)]"
  have e1: "entries ?n1 = insert (nkey ns m, nval ns m) (entries ns)" by (rule entries_put [OF assms(2,4,5)])
  have m: "(nkey ns m, nval ns m) \<in> entries ns" using assms(1,5) unfolding entries_def by blast
  have "entries (ns[f := (nkey ns m, nval ns m, x), m := (k, v, y)]) = insert (k, v) (entries ?n1)"
  proof -
    let ?n2 = "ns[f := (nkey ns m, nval ns m, x), m := (k, v, y)]"
    have f: "nkey ?n2 f = nkey ns m" "nval ?n2 f = nval ns m" "f < length ?n2"
      using assms(1,2,3) by (simp_all add: nkey_def nval_def)
    have other: "j \<noteq> m \<Longrightarrow> nkey ?n2 j = nkey ?n1 j \<and> nval ?n2 j = nval ?n1 j" for j
      by (simp add: nkey_def nval_def nth_list_update)
    have mm: "nkey ?n1 m = nkey ns m" "nval ?n1 m = nval ns m" "nkey ?n2 m = k" "nval ?n2 m = v"
      using assms(1,3) by (simp_all add: nkey_def nval_def)
    show ?thesis
    proof (intro set_eqI iffI)
      fix e assume "e \<in> entries ?n2"
      then obtain j where j: "e = (nkey ?n2 j, nval ?n2 j)" "j < length ns" "nkey ?n2 j \<noteq> VNil"
        unfolding entries_def by auto
      show "e \<in> insert (k, v) (entries ?n1)"
      proof (cases "j = m")
        case False
        then show ?thesis using j other [OF False] unfolding entries_def by auto
      qed (use j(1) mm in simp)
    next
      fix e assume "e \<in> insert (k, v) (entries ?n1)"
      then consider "e = (k, v)" | j where "e = (nkey ?n1 j, nval ?n1 j)" "j < length ns" "nkey ?n1 j \<noteq> VNil"
        unfolding entries_def by auto
      then show "e \<in> entries ?n2"
      proof cases
        case 1
        then show ?thesis using mm assms(1,6) unfolding entries_def by (intro CollectI exI [of _ m]) simp
      next
        case 2
        show ?thesis
        proof (cases "j = m")
          case True
          then show ?thesis using 2 mm f assms(5) unfolding entries_def by (intro CollectI exI [of _ f]) simp
        next
          case False
          then show ?thesis using 2 other [OF False] unfolding entries_def by (intro CollectI exI [of _ j]) simp
        qed
      qed
    qed
  qed
  with e1 m show ?thesis by (simp add: insert_absorb)
qed

lemma sint_node: "tab a G t nh r q A ns lf \<Longrightarrow> j < length ns \<Longrightarrow> sint (word_of_nat j :: u32) = int j"
  using tab_arena(2) [of a G t nh r q A ns lf] by (simp add: signed_of_nat signed_take_bit_int_eq_self)

lemma new_key_shape:
  assumes "shape_ok S H asz ns lf" "keyable S k" "normal k" "arrayIndex k (word_of_nat asz) = None"
    "length ns' = length ns" "\<And>j. j < length ns \<Longrightarrow> nkey ns' j = k \<or> (\<exists>i<length ns. nkey ns' j = nkey ns i)"
    "chains_ok (length ns) (mainpos H (length ns)) VNil (nkey ns') (nnext ns') (unat lf')"
  shows "shape_ok S H asz ns' lf'"
  by (rule shape_okI [OF assms(1,5) _ assms(7)]) (use assms(2-4,6) in metis)

lemma insert_claim:
  assumes "tab a G t nh r q A ns lf" "shape_ok S H (length A) ns lf" "keyable S k" "normal k"
    "arrayIndex k (word_of_nat (length A)) = None" "\<forall>j<length ns. nkey ns j \<noteq> k"
    "m < length ns" "mainpos H (length ns) k = m" "vacant ns m"
  shows "\<exists>a'. SetNode a t (word_of_nat m) k v (- 1) = Some a' \<and> inserts a G S H t nh r q A ns lf k v a'"
proof -
  let ?ns = "ns[m := (k, v, - 1)]"
  have vm: "nkey ns m = VNil" "nnext ns m < 0" using assms(9) by (simp_all add: vacant_def)
  have kn: "k \<noteq> VNil" using assms(3) by (rule keyable_not_nil)
  obtain a' where a': "SetNode a t (word_of_nat m) k v (- 1) = Some a'" "tab a' G t nh r q A ?ns lf" "keeps a a' G"
    using node_set [OF assms(1,7), of "- 1" k v] by auto
  have "chains_ok (length ns) (mainpos H (length ns)) VNil (nkey ?ns) (nnext ?ns) (unat lf)"
    unfolding node_upd [OF assms(7)]
    by (rule chains_claim) (use assms(2,6,7,8) vm kn in \<open>auto simp: shape_ok_def\<close>)
  then have "shape_ok S H (length A) ?ns lf"
    using assms(7) by (intro new_key_shape [OF assms(2,3,4,5)]) (auto simp: node_upd)
  moreover have "entries ?ns = insert (k, v) (entries ns)" by (rule entries_put [OF assms(7) vm(1) kn])
  moreover have "(\<forall>j<length ?ns. nkey ?ns j = VNil \<longrightarrow> vacant ?ns j) \<and> packed (length ?ns) VNil (nkey ?ns) (unat lf)"
    if "\<forall>j<length ns. nkey ns j = VNil \<longrightarrow> vacant ns j" "packed (length ns) VNil (nkey ns) (unat lf)"
    using that kn assms(7) by (auto simp: packed_def vacant_def node_upd)
  ultimately show ?thesis using a' unfolding inserts_def
    by (intro exI [of _ a'] conjI exI [of _ ?ns] exI [of _ lf]) auto
qed

lemma insert_chain_in:
  assumes "tab a G t nh r q A ns (word_of_nat f)" "shape_ok S H (length A) ns lf" "keyable S k" "normal k"
    "arrayIndex k (word_of_nat (length A)) = None" "\<forall>j<length ns. nkey ns j \<noteq> k"
    "m < length ns" "mainpos H (length ns) k = m" "\<not> vacant ns m" "nkey ns m = VNil \<or> mainpos H (length ns) (nkey ns m) = m"
    "f < length ns" "f < unat lf" "vacant ns f" "\<forall>j<length ns. f < j \<and> j < unat lf \<longrightarrow> \<not> vacant ns j"
  shows "\<exists>a'. chain_in a t (word_of_nat m) (word_of_nat f) (nkey ns m) k v = Some a' \<and> inserts a G S H t nh r q A ns lf k v a'"
proof -
  have fm: "f \<noteq> m" using assms(9,13) by blast
  let ?n1 = "ns[f := (k, v, nnext ns m)]"
  let ?ns = "?n1[m := (nkey ns m, nval ns m, int f)]"
  have vf: "nkey ns f = VNil" "nnext ns f < 0" using assms(13) by (simp_all add: vacant_def)
  have kn: "k \<noteq> VNil" using assms(3) by (rule keyable_not_nil)
  have bd: "- 1 \<le> nnext ns m" "nnext ns m < 2 ^ 31" using tab_arena(4) [OF assms(1,7)] by simp_all
  have f31: "- 1 \<le> int f" "int f < 2 ^ 31" using assms(11) tab_arena(2) [OF assms(1)] by simp_all
  obtain a1 where a1: "SetNode a t (word_of_nat f) k v (nnext ns m) = Some a1" "tab a1 G t nh r q A ?n1 (word_of_nat f)" "keeps a a1 G"
    using node_set [OF assms(1,11) bd] by blast
  have l1: "m < length ?n1" and m1: "nval ?n1 m = nval ns m" using assms(7) fm by (simp_all add: nval_def)
  obtain a2 where a2: "SetNode a1 t (word_of_nat m) (nkey ns m) (nval ns m) (int f) = Some a2"
    "tab a2 G t nh r q A ?ns (word_of_nat f)" "keeps a1 a2 G"
    using node_set [OF a1(2) l1 f31] by blast
  have run: "chain_in a t (word_of_nat m) (word_of_nat f) (nkey ns m) k v = Some a2"
    using node_read(3) [OF assms(1,7)] a1(1) node_read(2) [OF a1(2) l1] m1 a2(1) sint_node [OF assms(1,11)]
    by (simp add: chain_in_def)
  have fk: "nkey ?ns = (nkey ns)(f := k)" "nnext ?ns = (nnext ns)(f := nnext ns m, m := int f)" "nval ?ns = (nval ns)(f := v)"
    unfolding node_upd [OF l1] node_upd [OF assms(11)] using fm by auto
  have uf: "unat (word_of_nat f :: u32) = f" by (rule node_u32 [OF assms(1,11)])
  have "chains_ok (length ns) (mainpos H (length ns)) VNil (nkey ?ns) (nnext ?ns) (unat (word_of_nat f :: u32))"
    unfolding fk uf
    by (rule chains_chain_in [where lf = "unat lf"])
      (use assms(2,6-8,10-12) vf kn fm in \<open>auto simp: shape_ok_def\<close>)
  then have "shape_ok S H (length A) ?ns (word_of_nat f)"
    using assms(11) by (intro new_key_shape [OF assms(2,3,4,5)]) (auto simp: fk)
  moreover have "entries ?ns = insert (k, v) (entries ns)"
  proof -
    have "entries ?ns = entries ?n1"
      using entries_link [OF l1, of "int f"] node_upd [OF assms(11), of k v "nnext ns m"] fm by simp
    also have "\<dots> = insert (k, v) (entries ns)" by (rule entries_put [OF assms(11) vf(1) kn])
    finally show ?thesis .
  qed
  moreover have "(\<forall>j<length ?ns. nkey ?ns j = VNil \<longrightarrow> vacant ?ns j) \<and> packed (length ?ns) VNil (nkey ?ns) (unat (word_of_nat f :: u32))"
    if c: "\<forall>j<length ns. nkey ns j = VNil \<longrightarrow> vacant ns j" "packed (length ns) VNil (nkey ns) (unat lf)"
  proof
    have "nkey ns m \<noteq> VNil" using c(1) assms(7,9) by blast
    then show "\<forall>j<length ?ns. nkey ?ns j = VNil \<longrightarrow> vacant ?ns j" using c(1) kn by (auto simp: vacant_def fk)
    have "nkey ns j \<noteq> VNil" if "j < length ns" "f < j" for j
      using that c assms(14) by (cases "j < unat lf") (auto simp: packed_def)
    then show "packed (length ?ns) VNil (nkey ?ns) (unat (word_of_nat f :: u32))"
      unfolding uf packed_def fk using kn by (auto simp: le_less)
  qed
  ultimately show ?thesis using run a2(2) keeps_trans [OF a1(3) a2(3)] unfolding inserts_def
    by (intro exI [of _ a2] conjI exI [of _ ?ns] exI [of _ "word_of_nat f"]) auto
qed

lemma insert_relocate:
  assumes "tab a G t nh r q A ns (word_of_nat f)" "shape_ok S H (length A) ns lf" "keyable S k" "normal k"
    "arrayIndex k (word_of_nat (length A)) = None" "\<forall>j<length ns. nkey ns j \<noteq> k"
    "m < length ns" "mainpos H (length ns) k = m" "nkey ns m \<noteq> VNil" "mainpos H (length ns) (nkey ns m) \<noteq> m"
    "f < length ns" "f < unat lf" "vacant ns f" "\<forall>j<length ns. f < j \<and> j < unat lf \<longrightarrow> \<not> vacant ns j"
    "mainpos H (length ns) (nkey ns m) < length ns"
  shows "\<exists>a'. relocate a t (word_of_nat m) (word_of_nat f) (word_of_nat (mainpos H (length ns) (nkey ns m))) (nkey ns m) k v =
      Some a' \<and> inserts a G S H t nh r q A ns lf k v a'"
proof -
  have fm: "f \<noteq> m" using assms(9,13) by (auto simp: vacant_def)
  have vf: "nkey ns f = VNil" "nnext ns f < 0" using assms(13) by (simp_all add: vacant_def)
  have kn: "k \<noteq> VNil" using assms(3) by (rule keyable_not_nil)
  have lk: "links_ok (length ns) (nnext ns) (unat lf)" and ks: "keys_ok (length ns) (mainpos H (length ns)) VNil (nkey ns) (nnext ns)"
    using assms(2) by (simp_all add: shape_ok_def chains_ok_def)
  obtain p where p: "find_prev a t (int m) (int (mainpos H (length ns) (nkey ns m))) = Some (int p)" "link (length ns) (nnext ns) p m"
    using find_prev_ok [OF assms(1) lk assms(7,15) keys_okD(1) [OF ks assms(7,9)] assms(10)] by blast
  have pl: "p < length ns" "p \<noteq> f" "p \<noteq> m" using p(2) vf(2) links_self [OF lk] by (auto simp: link_def)
  let ?n1 = "ns[f := (nkey ns m, nval ns m, nnext ns m)]"
  let ?n2 = "?n1[p := (nkey ns p, nval ns p, int f)]"
  let ?ns = "?n2[m := (k, v, - 1)]"
  have bd: "- 1 \<le> nnext ns m" "nnext ns m < 2 ^ 31" using tab_arena(4) [OF assms(1,7)] by simp_all
  have f31: "- 1 \<le> int f" "int f < 2 ^ 31" using assms(11) tab_arena(2) [OF assms(1)] by simp_all
  obtain a1 where a1: "SetNode a t (word_of_nat f) (nkey ns m) (nval ns m) (nnext ns m) = Some a1"
    "tab a1 G t nh r q A ?n1 (word_of_nat f)" "keeps a a1 G"
    using node_set [OF assms(1,11) bd] by blast
  have l1: "p < length ?n1" and p1: "nval ?n1 p = nval ns p" "nkey ?n1 p = nkey ns p"
    using pl by (simp_all add: nval_def nkey_def)
  obtain a2 where a2: "SetNode a1 t (word_of_nat p) (nkey ns p) (nval ns p) (int f) = Some a2"
    "tab a2 G t nh r q A ?n2 (word_of_nat f)" "keeps a1 a2 G"
    using node_set [OF a1(2) l1 f31] by blast
  have l2: "m < length ?n2" using assms(7) by simp
  obtain a3 where a3: "SetNode a2 t (word_of_nat m) k v (- 1) = Some a3" "tab a3 G t nh r q A ?ns (word_of_nat f)" "keeps a2 a3 G"
    using node_set [OF a2(2) l2, of "- 1" k v] by auto
  obtain a4 where a4: "BumpGen a3 t = Some a4" "tab a4 G t nh r q A ?ns (word_of_nat f)" "keeps a3 a4 G"
    using bump_gen [OF a3(2)] by blast
  have w: "word_of_int (int p) = (word_of_nat p :: u32)" by simp
  have run: "relocate a t (word_of_nat m) (word_of_nat f) (word_of_nat (mainpos H (length ns) (nkey ns m))) (nkey ns m) k v = Some a4"
    unfolding relocate_def sint_node [OF assms(1,7)] sint_node [OF assms(1,11)] sint_node [OF assms(1,15)] p(1) bind.bind_lunit
      node_read(2,3) [OF assms(1,7)] a1(1) w node_read(1,2) [OF a1(2) l1] p1 a2(1) a3(1) a4(1) ..
  have fk: "nkey ?ns = (nkey ns)(f := nkey ns m, m := k)" "nnext ?ns = (nnext ns)(f := nnext ns m, p := int f, m := - 1)"
    "nval ?ns = (nval ns)(f := nval ns m, m := v)"
    unfolding node_upd [OF l2] node_upd [OF l1] node_upd [OF assms(11)] using pl by auto
  have uf: "unat (word_of_nat f :: u32) = f" by (rule node_u32 [OF assms(1,11)])
  have "chains_ok (length ns) (mainpos H (length ns)) VNil (nkey ?ns) (nnext ?ns) (unat (word_of_nat f :: u32))"
    unfolding fk uf
    by (rule chains_relocate [where lf = "unat lf"])
      (use assms(2,6-12) vf kn fm p(2) in \<open>auto simp: shape_ok_def\<close>)
  then have "shape_ok S H (length A) ?ns (word_of_nat f)"
    using assms(7,11) by (intro new_key_shape [OF assms(2,3,4,5)]) (auto simp: fk)
  moreover have "entries ?ns = insert (k, v) (entries ns)"
  proof -
    let ?e = "ns[f := (nkey ns m, nval ns m, nnext ns m), m := (k, v, - 1)]"
    have e2: "nkey ?e = nkey ?ns" "nval ?e = nval ?ns" "length ?e = length ?ns"
      using assms(7,11) unfolding fk by (auto simp: node_upd)
    have "entries ?ns = entries ?e" unfolding entries_def e2 ..
    also have "\<dots> = insert (k, v) (entries ns)" by (rule entries_move [OF assms(7,11) fm vf(1) assms(9) kn])
    finally show ?thesis .
  qed
  moreover have "(\<forall>j<length ?ns. nkey ?ns j = VNil \<longrightarrow> vacant ?ns j) \<and> packed (length ?ns) VNil (nkey ?ns) (unat (word_of_nat f :: u32))"
    if c: "\<forall>j<length ns. nkey ns j = VNil \<longrightarrow> vacant ns j" "packed (length ns) VNil (nkey ns) (unat lf)"
  proof
    have "\<not> vacant ns p" using p(2) by (auto simp: vacant_def link_def)
    then have "nkey ns p \<noteq> VNil" using c(1) pl(1) by blast
    then show "\<forall>j<length ?ns. nkey ?ns j = VNil \<longrightarrow> vacant ?ns j" using c(1) kn assms(9) by (auto simp: vacant_def fk)
    have "nkey ns j \<noteq> VNil" if "j < length ns" "f < j" for j
      using that c assms(14) by (cases "j < unat lf") (auto simp: packed_def)
    then show "packed (length ?ns) VNil (nkey ?ns) (unat (word_of_nat f :: u32))"
      unfolding uf packed_def fk using kn assms(9) by (auto simp: le_less)
  qed
  moreover have "keeps a a4 G" using a1(3) a2(3) a3(3) a4(3) keeps_trans by blast
  ultimately show ?thesis using run a4(2) unfolding inserts_def
    by (intro exI [of _ a4] conjI exI [of _ ?ns] exI [of _ "word_of_nat f"]) auto
qed

end
