(* ===== verification/TableSet.thy ===== *)
theory TableSet
  imports TableInsert
begin

text \<open>
  \<open>rawSet\<close> when it needs no rehash: the table changes at the given key only.
\<close>

section \<open>A table changed at one key\<close>

definition sets :: "arena \<Rightarrow> (nat \<times> nat) set \<Rightarrow> (nat \<times> nat) set \<Rightarrow> (lvalue \<Rightarrow> u32) \<Rightarrow> gcref \<Rightarrow> nat \<Rightarrow> gcref \<Rightarrow> gcref \<Rightarrow>
    lvalue list \<Rightarrow> node list \<Rightarrow> u32 \<Rightarrow> lvalue \<Rightarrow> lvalue \<Rightarrow> arena \<Rightarrow> bool" where
  "sets a G S H t nh r q A ns lf k v a' \<longleftrightarrow> (\<exists>A' ns' lf'.
     table_ok a' G S H t nh r q A' ns' lf' \<and> keeps a a' G \<and> length A' = length A \<and> length ns' = length ns \<and>
     (\<forall>k'. normal k' \<and> k' \<noteq> VNil \<longrightarrow> tget A' ns' k' = (if k' = k then v else tget A ns k')) \<and>
     (v \<noteq> VNil \<and> (\<forall>j<length ns. nkey ns j = VNil \<longrightarrow> vacant ns j) \<and> packed (length ns) VNil (nkey ns) (unat lf) \<longrightarrow>
      (\<forall>j<length ns'. nkey ns' j = VNil \<longrightarrow> vacant ns' j) \<and> packed (length ns') VNil (nkey ns') (unat lf') \<and>
      fst ` entries ns' \<subseteq> fst ` entries ns \<union> (if arrayIndex k (word_of_nat (length A)) = None then {k} else {})))"

lemma hget_change:
  assumes "shape_ok S H asz ns lf" "shape_ok S H asz ns' lf'" "k' \<noteq> VNil"
    "\<And>k' w. k' \<noteq> k \<Longrightarrow> (k', w) \<in> entries ns' \<longleftrightarrow> (k', w) \<in> entries ns"
    "(k, v) \<in> entries ns' \<or> (v = VNil \<and> (\<forall>w. (k, w) \<notin> entries ns'))"
  shows "hget ns' k' = (if k' = k then v else hget ns k')"
proof (cases "k' = k")
  case True
  then show ?thesis using assms(3,5) hget_in [OF assms(2)] hget_out [of k ns'] by auto
next
  case False
  then show ?thesis using assms(4) hget_in [OF assms(1)] hget_in [OF assms(2)] hget_out [OF _ assms(3)] by metis
qed

lemma tget_hash:
  assumes "arrayIndex k (word_of_nat (length A)) = None" "hget ns' k' = (if k' = k then v else hget ns k')"
  shows "tget A ns' k' = (if k' = k then v else tget A ns k')"
  using assms by (auto simp: tget_def split: option.splits)

lemma entries_iff: "(k, w) \<in> entries ns \<longleftrightarrow> k \<noteq> VNil \<and> (\<exists>j<length ns. nkey ns j = k \<and> nval ns j = w)"
  unfolding entries_def by auto

lemma fst_entries: "fst ` entries ns = nkey ns ` {j. j < length ns \<and> nkey ns j \<noteq> VNil}"
  by (auto simp: entries_def image_iff)

lemma distinct_keys:
  assumes "shape_ok S H asz ns lf" "i < length ns" "j < length ns" "nkey ns i \<noteq> VNil" "nkey ns i = nkey ns j"
  shows "i = j"
  using assms keys_okD(2) [of "length ns" "mainpos H (length ns)" VNil "nkey ns" "nnext ns" i j]
  by (simp add: shape_ok_def chains_ok_def)

section \<open>Overwriting and deleting\<close>

lemma tget_array:
  assumes "arrayIndex k (word_of_nat (length A)) = Some i" "length A < 2 ^ 28"
  shows "tget (A[unat i := v]) ns k' = (if k' = k then v else tget A ns k')"
proof -
  have i: "unat i < length A" using arrayIndex_key(2) [OF assms(1)] u32_small [OF assms(2)] by simp
  show ?thesis
  proof (cases "arrayIndex k' (word_of_nat (length A))")
    case None
    then show ?thesis using assms(1) by (auto simp: tget_def)
  next
    case (Some i')
    have "unat i' = unat i \<longleftrightarrow> k' = k"
    proof
      assume "unat i' = unat i"
      then have "i' = i" by (simp add: word_unat_eq_iff)
      then show "k' = k" using arrayIndex_inj [OF Some] assms(1) by blast
    qed (use Some assms(1) in simp)
    moreover have "tget (A[unat i := v]) ns k' = A[unat i := v] ! unat i'" "tget A ns k' = A ! unat i'"
      using Some by (simp_all add: tget_def)
    ultimately show ?thesis using i by (auto simp: nth_list_update)
  qed
qed

lemma node_overwrite:
  assumes "table_ok a G S H t nh r q A ns lf" "j < length ns" "nkey ns j = k" "k \<noteq> VNil" "tab a' G t nh r q A (ns[j := (k, v, nnext ns j)]) lf"
    "keeps a a' G"
  shows "sets a G S H t nh r q A ns lf k v a'"
proof -
  note tk = table_okD [OF assms(1)]
  let ?ns = "ns[j := (k, v, nnext ns j)]"
  have fk: "nkey ?ns = nkey ns" "nnext ?ns = nnext ns" "nval ?ns = (nval ns)(j := v)"
    using assms(3) by (simp_all add: node_upd [OF assms(2)] fun_upd_idem_iff)
  have sh: "shape_ok S H (length A) ?ns lf" using tk(3) unfolding shape_ok_def fk by simp
  have ar: "arrayIndex k (word_of_nat (length A)) = None" using tk(3) assms(2-4) by (auto simp: shape_ok_def)
  have "hget ?ns k' = (if k' = k then v else hget ns k')" if "k' \<noteq> VNil" for k'
  proof (rule hget_change [OF tk(3) sh that])
    show "(k', w) \<in> entries ?ns \<longleftrightarrow> (k', w) \<in> entries ns" if "k' \<noteq> k" for k' w
      using that assms(3) unfolding entries_iff fk length_list_update by (metis fun_upd_def)
    show "(k, v) \<in> entries ?ns \<or> (v = VNil \<and> (\<forall>w. (k, w) \<notin> entries ?ns))"
      using assms(2-4) unfolding entries_iff fk length_list_update by auto
  qed
  then have "\<forall>k'. normal k' \<and> k' \<noteq> VNil \<longrightarrow> tget A ?ns k' = (if k' = k then v else tget A ns k')"
    using tget_hash [OF ar] by blast
  moreover have "hashes a' S H" by (rule hashes_tab [OF tk(2) keeps_mono [OF assms(6) tk(4)] tk(4,4,1) assms(5)])
  moreover have "fst ` entries ?ns \<subseteq> fst ` entries ns" unfolding fst_entries fk length_list_update by simp
  moreover have "(\<forall>i<length ?ns. nkey ?ns i = VNil \<longrightarrow> vacant ?ns i) \<and> packed (length ?ns) VNil (nkey ?ns) (unat lf)"
    if "\<forall>i<length ns. nkey ns i = VNil \<longrightarrow> vacant ns i" "packed (length ns) VNil (nkey ns) (unat lf)"
    using that assms(3,4) unfolding packed_def vacant_def fk by auto
  ultimately show ?thesis
    using assms(5,6) sh tk(4) unfolding sets_def table_ok_def
    by (intro exI [of _ A] exI [of _ ?ns] exI [of _ lf]) auto
qed

lemma node_delete:
  assumes "table_ok a G S H t nh r q A ns lf" "j < length ns" "nkey ns j = k" "k \<noteq> VNil" "tab a' G t nh r q A (ns[j := (VNil, VNil, nnext ns j)]) lf"
    "keeps a a' G"
  shows "sets a G S H t nh r q A ns lf k VNil a'"
proof -
  note tk = table_okD [OF assms(1)]
  let ?ns = "ns[j := (VNil, VNil, nnext ns j)]"
  have fk: "nkey ?ns = (nkey ns)(j := VNil)" "nnext ?ns = nnext ns" "nval ?ns = (nval ns)(j := VNil)"
    by (simp_all add: node_upd [OF assms(2)] fun_upd_idem_iff)
  have sh: "shape_ok S H (length A) ?ns lf"
  proof (rule shape_okI [OF tk(3)])
    show "chains_ok (length ns) (mainpos H (length ns)) VNil (nkey ?ns) (nnext ?ns) (unat lf)"
      unfolding fk by (rule chains_delete) (use tk(3) in \<open>simp add: shape_ok_def\<close>)
  qed (auto simp: fk)
  have ar: "arrayIndex k (word_of_nat (length A)) = None" using tk(3) assms(2-4) by (auto simp: shape_ok_def)
  have "hget ?ns k' = (if k' = k then VNil else hget ns k')" if "k' \<noteq> VNil" for k'
  proof (rule hget_change [OF tk(3) sh that])
    show "(k', w) \<in> entries ?ns \<longleftrightarrow> (k', w) \<in> entries ns" if "k' \<noteq> k" for k' w
      using that assms(3) unfolding entries_iff fk length_list_update by (metis fun_upd_def)
    show "(k, VNil) \<in> entries ?ns \<or> (VNil = VNil \<and> (\<forall>w. (k, w) \<notin> entries ?ns))"
      using distinct_keys [OF tk(3) assms(2)] assms(3,4) unfolding entries_iff fk length_list_update by (metis fun_upd_def)
  qed
  then have "\<forall>k'. normal k' \<and> k' \<noteq> VNil \<longrightarrow> tget A ?ns k' = (if k' = k then VNil else tget A ns k')"
    using tget_hash [OF ar] by blast
  moreover have "hashes a' S H" by (rule hashes_tab [OF tk(2) keeps_mono [OF assms(6) tk(4)] tk(4,4,1) assms(5)])
  ultimately show ?thesis
    using assms(5,6) sh tk(4) unfolding sets_def table_ok_def
    by (intro exI [of _ A] exI [of _ ?ns] exI [of _ lf]) auto
qed

section \<open>Inserting a new key\<close>

lemma inserts_sets:
  assumes "table_ok a G S H t nh r q A ns lf" "\<forall>j<length ns. nkey ns j \<noteq> k" "k \<noteq> VNil"
    "arrayIndex k (word_of_nat (length A)) = None" "inserts a G S H t nh r q A ns lf k v a'"
  shows "sets a G S H t nh r q A ns lf k v a'"
proof -
  note tk = table_okD [OF assms(1)]
  from assms(5) obtain ns' lf' where i: "tab a' G t nh r q A ns' lf'" "keeps a a' G" "shape_ok S H (length A) ns' lf'"
    "length ns' = length ns" "entries ns' = insert (k, v) (entries ns)"
    "(\<forall>j<length ns. nkey ns j = VNil \<longrightarrow> vacant ns j) \<and> packed (length ns) VNil (nkey ns) (unat lf) \<Longrightarrow>
      (\<forall>j<length ns'. nkey ns' j = VNil \<longrightarrow> vacant ns' j) \<and> packed (length ns') VNil (nkey ns') (unat lf')"
    unfolding inserts_def by blast
  have "\<forall>k'. normal k' \<and> k' \<noteq> VNil \<longrightarrow> tget A ns' k' = (if k' = k then v else tget A ns k')"
    using tget_hash [OF assms(4)] hget_insert [OF tk(3) i(3,5) assms(2)] by blast
  moreover have "hashes a' S H" by (rule hashes_tab [OF tk(2) keeps_mono [OF i(2) tk(4)] tk(4,4,1) i(1)])
  moreover have "fst ` entries ns' \<subseteq> fst ` entries ns \<union> {k}" unfolding i(5) by auto
  ultimately show ?thesis
    using i tk(4) assms(4) unfolding sets_def table_ok_def
    by (intro exI [of _ A] exI [of _ ns'] exI [of _ lf']) auto
qed

lemma insertNewKey_cases:
  assumes "table_ok (c_a c) G S H t nh r q A ns lf" "keyable S k" "normal k"
    "arrayIndex k (word_of_nat (length A)) = None" "\<forall>j<length ns. nkey ns j \<noteq> k"
  obtains (direct) a' where "\<And>n. insertNewKey (Suc n) c t k v = Some (None, c\<lparr>c_a := a'\<rparr>)"
      "inserts (c_a c) G S H t nh r q A ns lf k v a'"
    | (regrow) "\<And>n. insertNewKey (Suc n) c t k v = do { c \<leftarrow> rehash n c t k; rawSet n c t k v }"
      "\<forall>j<length ns. j < unat lf \<longrightarrow> \<not> vacant ns j"
proof -
  note tk = table_okD [OF assms(1)] and sz = tab_sizes [OF table_okD(1) [OF assms(1)]]
  show thesis
  proof (cases "ns = []")
    case True
    then show thesis using sz(2) by (intro regrow) simp_all
  next
    case ne: False
    obtain e where e: "length ns = 2 ^ e" using tk(3) ne by (auto simp: shape_ok_def)
    note n28 = tab_arena(2) [OF tk(1)]
    let ?m = "mainpos H (length ns) k"
    note mp = mainpos_lt [OF e n28, of H]
    have h0: "(word_of_nat (length ns) :: u32) \<noteq> 0" using ne u32_small [OF n28] by (metis length_0_conv unat_0)
    have hk: "hashValue (c_a c) k = Some (H k)" using tk(2) assms(2) by (simp add: hashes_def keyable_def)
    note em = node_empty_ok [OF tk(1) mp(1)]
    show thesis
    proof (cases "vacant ns ?m")
      case True
      obtain a' where a': "SetNode (c_a c) t (word_of_nat ?m) k v (- 1) = Some a'" "inserts (c_a c) G S H t nh r q A ns lf k v a'"
        using insert_claim [OF tk(1,3) assms(2-5) mp(1) refl True] by blast
      have "insertNewKey (Suc n) c t k v = Some (None, c\<lparr>c_a := a'\<rparr>)" for n
        using sz(2) h0 hk em True a'(1) by (simp add: on_arena_def Let_def mp(2))
      then show thesis using a'(2) by (rule direct)
    next
      case False
      have run: "insertNewKey (Suc n) c t k v = do {
          (f, a) \<leftarrow> findFreeNode (c_a c) t (word_of_nat (length ns));
          let c = c\<lparr>c_a := a\<rparr>;
          case f of
            None \<Rightarrow> do { c \<leftarrow> rehash n c t k; rawSet n c t k v }
          | Some free \<Rightarrow> do {
              occKey \<leftarrow> NodeKey a t (word_of_nat ?m);
              oh \<leftarrow> hashValue a occKey;
              let occMain = oh AND (word_of_nat (length ns) - 1);
              if occKey \<noteq> VNil \<and> occMain \<noteq> word_of_nat ?m
              then on_arena c (relocate a t (word_of_nat ?m) free occMain occKey k v)
              else on_arena c (chain_in a t (word_of_nat ?m) free occKey k v) } }" for n
        unfolding insertNewKey.simps sz(2) bind.bind_lunit Let_def hk mp(2) em using h0 False by simp
      from findFreeNode_ok [OF tk(1)] show thesis
      proof (elim disjE exE conjE)
        assume f: "findFreeNode (c_a c) t (word_of_nat (length ns)) = Some (None, c_a c)"
          "\<forall>j<length ns. j < unat lf \<longrightarrow> \<not> vacant ns j"
        then show thesis using run by (intro regrow) (simp_all add: Let_def)
      next
        fix f a1
        assume f: "findFreeNode (c_a c) t (word_of_nat (length ns)) = Some (Some (word_of_nat f), a1)" "f < length ns"
          "f < unat lf" "vacant ns f" "\<forall>j<length ns. f < j \<and> j < unat lf \<longrightarrow> \<not> vacant ns j"
          "tab a1 G t nh r q A ns (word_of_nat f)" "keeps (c_a c) a1 G"
        let ?o = "nkey ns ?m"
        have so: "string_key_ok S ?o"
          using tk(3) mp(1) by (cases "?o = VNil") (auto simp: shape_ok_def keyable_def string_key_ok_def Tag_consts tag_defs)
        have "hashes a1 S H" by (rule hashes_tab [OF tk(2) keeps_mono [OF f(7) tk(4)] tk(4,4,1) f(6)])
        then have ho: "hashValue a1 ?o = Some (H ?o)" using so by (simp add: hashes_def)
        have eqm: "word_of_nat (mainpos H (length ns) ?o) = (word_of_nat ?m :: u32) \<longleftrightarrow> mainpos H (length ns) ?o = ?m"
          using node_u32 [OF tk(1) mp(1)] by metis
        have run2: "insertNewKey (Suc n) c t k v =
            (if ?o \<noteq> VNil \<and> mainpos H (length ns) ?o \<noteq> ?m
             then on_arena (c\<lparr>c_a := a1\<rparr>) (relocate a1 t (word_of_nat ?m) (word_of_nat f) (word_of_nat (mainpos H (length ns) ?o)) ?o k v)
             else on_arena (c\<lparr>c_a := a1\<rparr>) (chain_in a1 t (word_of_nat ?m) (word_of_nat f) ?o k v))" for n
          using run f(1) node_read(1) [OF f(6) mp(1)] ho eqm by (simp add: Let_def mp(2))
        have tr: "inserts a1 G S H t nh r q A ns lf k v a' \<Longrightarrow> inserts (c_a c) G S H t nh r q A ns lf k v a'" for a'
          using keeps_trans [OF f(7)] unfolding inserts_def by blast
        show thesis
        proof (cases "?o \<noteq> VNil \<and> mainpos H (length ns) ?o \<noteq> ?m")
          case True
          obtain a' where "relocate a1 t (word_of_nat ?m) (word_of_nat f) (word_of_nat (mainpos H (length ns) ?o)) ?o k v = Some a'"
            "inserts a1 G S H t nh r q A ns lf k v a'"
            using insert_relocate [OF f(6) tk(3) assms(2-5) mp(1) refl] True f(2-5) mp(1) by blast
          then show thesis using run2 True tr by (intro direct [of a']) (auto simp: on_arena_def)
        next
          case no: False
          obtain a' where "chain_in a1 t (word_of_nat ?m) (word_of_nat f) ?o k v = Some a'"
            "inserts a1 G S H t nh r q A ns lf k v a'"
            using insert_chain_in [OF f(6) tk(3) assms(2-5) mp(1) refl False] no f(2-5) by blast
          then show thesis using run2 no tr by (intro direct [of a']) (auto simp: on_arena_def)
        qed
      qed
    qed
  qed
qed

section \<open>\<open>rawSet\<close> without a rehash\<close>

lemma rawSet_cases:
  assumes "table_ok (c_a c) G S H t nh r q A ns lf" "keyable S k0"
  defines "k \<equiv> normKey k0"
  obtains (direct) a' where "\<And>n. rawSet (Suc (Suc n)) c t k0 v = Some (None, c\<lparr>c_a := a'\<rparr>)"
      "sets (c_a c) G S H t nh r q A ns lf k v a'"
    | (regrow) "\<And>n. rawSet (Suc (Suc n)) c t k0 v = do { c \<leftarrow> rehash n c t k; rawSet n c t k v }" "v \<noteq> VNil"
      "arrayIndex k (word_of_nat (length A)) = None" "\<forall>j<length ns. nkey ns j \<noteq> k"
      "\<forall>j<length ns. j < unat lf \<longrightarrow> \<not> vacant ns j"
proof -
  note tk = table_okD [OF assms(1)] and sz = tab_sizes [OF table_okD(1) [OF assms(1)]]
  have k: "keyable S k" "normal k" "k \<noteq> VNil" "checkKey k0 = None" "string_key_ok S k"
    using assms(2) keyable_normKey [OF assms(2)] keyable_not_nil [of S k] by (simp_all add: k_def keyable_def)
  show thesis
  proof (cases "arrayIndex k (word_of_nat (length A))")
    case (Some i)
    have i: "unat i < length A" using arrayIndex_key(2) [OF Some] u32_small [OF tab_arena(3) [OF tk(1)]] by simp
    obtain a' where a': "SetTableArrayAt (c_a c) t i v = Some a'" "tab a' G t nh r q (A[unat i := v]) ns lf" "keeps (c_a c) a' G"
      using arr_write [OF tk(1) i] by blast
    have "rawSet (Suc (Suc n)) c t k0 v = Some (None, c\<lparr>c_a := a'\<rparr>)" for n
      using k(4) sz(1) Some a'(1) by (simp add: k_def Let_def on_arena_def)
    moreover have "sets (c_a c) G S H t nh r q A ns lf k v a'"
      using a'(2,3) tk(3,4) tget_array [OF Some tab_arena(3) [OF tk(1)], of v ns]
        hashes_tab [OF tk(2) keeps_mono [OF a'(3) tk(4)] tk(4,4,1) a'(2)]
      unfolding sets_def table_ok_def
      by (intro exI [of _ "A[unat i := v]"] exI [of _ ns] exI [of _ lf]) auto
    ultimately show thesis by (rule direct)
  next
    case None
    have "\<exists>res. (if 0 < (word_of_nat (length ns) :: u32) then hash_find (c_a c) t k (word_of_nat (length ns)) else Some None) = Some res \<and>
      (case res of Some i \<Rightarrow> unat i < length ns \<and> nkey ns (unat i) = k | None \<Rightarrow> \<forall>j<length ns. nkey ns j \<noteq> k)"
    proof (cases "ns = []")
      case False
      then have "0 < (word_of_nat (length ns) :: u32)"
        using u32_small [OF tab_arena(2) [OF tk(1)]] by (simp add: word_less_nat_alt)
      moreover obtain res where "hash_find (c_a c) t k (word_of_nat (length ns)) = Some res"
        "case res of Some i \<Rightarrow> unat i < length ns \<and> nkey ns (unat i) = k \<and> checkKey k = None
         | None \<Rightarrow> checkKey k = None \<longrightarrow> (\<forall>j<length ns. nkey ns j \<noteq> k)"
        using hash_find_ok [OF assms(1) k(5,2,3) False] by blast
      ultimately show ?thesis using k(1) by (auto simp: keyable_def split: option.splits)
    qed simp
    then obtain res where res: "(if 0 < (word_of_nat (length ns) :: u32) then hash_find (c_a c) t k (word_of_nat (length ns)) else Some None) = Some res"
      "case res of Some i \<Rightarrow> unat i < length ns \<and> nkey ns (unat i) = k | None \<Rightarrow> \<forall>j<length ns. nkey ns j \<noteq> k" by blast
    have run: "rawSet (Suc (Suc n)) c t k0 v = (case res of
        Some i \<Rightarrow> if v = VNil then on_arena c (do { a \<leftarrow> nodeSetKV (c_a c) t i VNil VNil; BumpGen a t })
          else on_arena c (nodeSetVal (c_a c) t i v)
      | None \<Rightarrow> if v = VNil then Some (None, c) else insertNewKey (Suc n) c t k v)" for n
      using k(4) sz(1,2) None res(1) by (simp only: rawSet.simps k_def Let_def) simp
    show thesis
    proof (cases res)
      case (Some i)
      then have i: "unat i < length ns" "nkey ns (unat i) = k" using res(2) by auto
      note rd = tab_node [OF tk(1) i(1), folded nkey_def nnext_def] and bd = tab_arena(4) [OF tk(1) i(1)]
      have nb: "- 1 \<le> nnext ns (unat i)" "nnext ns (unat i) < 2 ^ 31" using bd by simp_all
      show thesis
      proof (cases "v = VNil")
        case True
        obtain a1 where a1: "SetNode (c_a c) t i VNil VNil (nnext ns (unat i)) = Some a1"
          "tab a1 G t nh r q A (ns[unat i := (VNil, VNil, nnext ns (unat i))]) lf" "keeps (c_a c) a1 G"
          using node_write [OF tk(1) i(1) nb, of VNil VNil] by blast
        obtain a2 where a2: "BumpGen a1 t = Some a2"
          "tab a2 G t nh r q A (ns[unat i := (VNil, VNil, nnext ns (unat i))]) lf" "keeps a1 a2 G"
          using bump_gen [OF a1(2)] by blast
        have "rawSet (Suc (Suc n)) c t k0 v = Some (None, c\<lparr>c_a := a2\<rparr>)" for n
          using run Some True rd(3) a1(1) a2(1) by (simp add: nodeSetKV_def on_arena_def)
        moreover have "sets (c_a c) G S H t nh r q A ns lf k v a2"
          unfolding True by (rule node_delete [OF assms(1) i k(3) a2(2) keeps_trans [OF a1(3) a2(3)]])
        ultimately show thesis by (rule direct)
      next
        case False
        obtain a1 where a1: "SetNode (c_a c) t i k v (nnext ns (unat i)) = Some a1"
          "tab a1 G t nh r q A (ns[unat i := (k, v, nnext ns (unat i))]) lf" "keeps (c_a c) a1 G"
          using node_write [OF tk(1) i(1) nb, of k v] by blast
        have "rawSet (Suc (Suc n)) c t k0 v = Some (None, c\<lparr>c_a := a1\<rparr>)" for n
          using run Some False rd(1,3) i(2) a1(1) by (simp add: nodeSetVal_def on_arena_def)
        moreover have "sets (c_a c) G S H t nh r q A ns lf k v a1"
          by (rule node_overwrite [OF assms(1) i k(3) a1(2,3)])
        ultimately show thesis by (rule direct)
      qed
    next
      case none: None
      then have nk: "\<forall>j<length ns. nkey ns j \<noteq> k" using res(2) by simp
      show thesis
      proof (cases "v = VNil")
        case True
        have "tget A ns k = VNil" using None find_no_key [OF nk] by (simp add: tget_def hget_def)
        then have "sets (c_a c) G S H t nh r q A ns lf k v (c_a c)"
          using assms(1) True unfolding sets_def by (intro exI [of _ A] exI [of _ ns] exI [of _ lf]) auto
        moreover have "rawSet (Suc (Suc n)) c t k0 v = Some (None, c\<lparr>c_a := c_a c\<rparr>)" for n using run none True by simp
        ultimately show thesis by (intro direct)
      next
        case False
        then have run3: "rawSet (Suc (Suc n)) c t k0 v = insertNewKey (Suc n) c t k v" for n using run none by simp
        from assms(1) k(1,2) None nk show thesis
        proof (cases rule: insertNewKey_cases [where v = v])
          case (direct a')
          show thesis
            by (rule that(1) [of a']) (use run3 direct inserts_sets [OF assms(1) nk k(3) None] in auto)
        next
          case regrow
          show thesis by (rule that(2)) (use run3 regrow False None nk in auto)
        qed
      qed
    qed
  qed
qed

end
