(* ===== verification/TableLive.thy ===== *)
theory TableLive
  imports TableSet
begin

text \<open>
  The live pairs of a table, as a rehash collects them: every key once, with what the table maps it to.
\<close>

section \<open>The live pairs\<close>

definition array_pairs :: "lvalue list \<Rightarrow> (lvalue \<times> lvalue) list" where
  "array_pairs A = map (\<lambda>i. (int_key (word_of_nat i + 1), A ! i)) (filter (\<lambda>i. A ! i \<noteq> VNil) [0..<length A])"

definition node_pairs :: "node list \<Rightarrow> (lvalue \<times> lvalue) list" where
  "node_pairs ns = map (\<lambda>j. (nkey ns j, nval ns j)) (filter (\<lambda>j. nkey ns j \<noteq> VNil \<and> nval ns j \<noteq> VNil) [0..<length ns])"

definition live_of :: "lvalue list \<Rightarrow> node list \<Rightarrow> (lvalue \<times> lvalue) list" where
  "live_of A ns = array_pairs A @ node_pairs ns"

lemma collect_array_ok:
  assumes "tab a G t nh r q A ns lf" "n \<le> length A"
  shows "ofold (collect_array a t) al (map word_of_nat [0..<n]) =
    Some (al @ map (\<lambda>i. (int_key (word_of_nat i + 1), A ! i)) (filter (\<lambda>i. A ! i \<noteq> VNil) [0..<n]))"
  using assms(2)
proof (induction n)
  case 0
  then show ?case by simp
next
  case (Suc n)
  have "unat (word_of_nat n :: u32) = n" using Suc.prems tab_arena(3) [OF assms(1)] by (intro u32_small) simp
  then have "TableArrayAt a t (word_of_nat n) = Some (A ! n)" using tab_array [OF assms(1), of "word_of_nat n"] Suc.prems by simp
  then show ?case using Suc by (simp add: ofold_append collect_array_def)
qed

lemma collect_node_ok:
  assumes "tab a G t nh r q A ns lf" "n \<le> length ns"
  shows "ofold (collect_node a t) al (map word_of_nat [0..<n]) =
    Some (al @ map (\<lambda>j. (nkey ns j, nval ns j)) (filter (\<lambda>j. nkey ns j \<noteq> VNil \<and> nval ns j \<noteq> VNil) [0..<n]))"
  using assms(2)
proof (induction n)
  case 0
  then show ?case by simp
next
  case (Suc n)
  then have "NodeKey a t (word_of_nat n) = Some (nkey ns n)" "NodeVal a t (word_of_nat n) = Some (nval ns n)"
    using node_read [OF assms(1), of n] by simp_all
  then show ?case using Suc by (simp add: ofold_append collect_node_def)
qed

lemma live_pairs_ok:
  assumes "tab a G t nh r q A ns lf"
  shows "live_pairs a t (word_of_nat (length A)) (word_of_nat (length ns)) = Some (live_of A ns)"
  using collect_array_ok [OF assms order_refl, of "[]"] collect_node_ok [OF assms order_refl, of "array_pairs A"]
    u32_small [OF tab_arena(2) [OF assms]] u32_small [OF tab_arena(3) [OF assms]]
  by (simp add: live_pairs_def upto_word_def live_of_def array_pairs_def node_pairs_def)

lemma int_key_eq: "n < 2 ^ 28 \<Longrightarrow> int_key (word_of_nat n) = f64_of_nat n"
  using u32_small [of n] NumberValue_id [of "f64_of_nat n"] f64_of_nat_not_nan [of n]
  by (simp add: int_key_def NumberValue_def f64_eq_self)

lemma arrayIndex_int_key:
  assumes "i < n" "n < 2 ^ 28"
  shows "arrayIndex (int_key (word_of_nat i + 1)) (word_of_nat n) = Some (word_of_nat i)"
proof -
  have e: "(word_of_nat i + 1 :: u32) = word_of_nat (i + 1)" by simp
  have k: "int_key (word_of_nat (i + 1)) = f64_of_nat (i + 1)" using assms by (intro int_key_eq) simp
  have u: "unat (word_of_nat (i + 1) :: u32) = i + 1" "unat (word_of_nat n :: u32) = n"
    using assms by (simp_all only: u32_small)
  have t: "f64_to_u32 (f64_of_nat (i + 1)) = word_of_nat (i + 1)"
    using assms f64_to_u32_of_nat [of "i + 1"] by simp
  have nn: "IsNumber (f64_of_nat (i + 1))" "\<not> f64_is_nan (f64_of_nat (i + 1))"
    using assms by (auto intro!: IsNumber_of_nat f64_of_nat_not_nan)
  have "(word_of_nat (i + 1) :: u32) - 1 = word_of_nat i" by simp
  then show ?thesis unfolding e k arrayIndex_def Let_def AsNumber_def t
    using nn u assms by (simp add: f64_eq_self word_le_nat_alt del: of_nat_Suc of_nat_add)
qed

text \<open>The keys are normal, valid and pairwise different, and each pair is what the table holds.\<close>

lemma array_index_facts:
  assumes "arrayIndex k n = Some i"
  shows "normal k" "checkKey k = None" "string_key_ok S k" "k \<noteq> VNil"
proof -
  have k: "k = f64_of_nat (unat i + 1)" and n: "IsNumber k" using arrayIndex_key(1) [OF assms] assms by (simp_all add: arrayIndex_iff)
  have "\<not> f64_is_zero k" "\<not> f64_is_nan k"
    unfolding k using f64_of_nat_not_zero [OF _ u32_lt_53] f64_of_nat_not_nan [OF u32_lt_53] by simp_all
  moreover show "k \<noteq> VNil" using n VNil_not_number by metis
  ultimately show "normal k" "checkKey k = None" "string_key_ok S k"
    using n by (simp_all add: normal_def normKey_eq checkKey_None string_key_ok_def)
qed

lemma live_iff:
  assumes "shape_ok S H (length A) ns lf" "length A < 2 ^ 28"
  shows "(k, v) \<in> set (live_of A ns) \<longleftrightarrow> v \<noteq> VNil \<and> k \<noteq> VNil \<and> tget A ns k = v"
proof -
  have arr: "(k, v) \<in> set (array_pairs A) \<longleftrightarrow> v \<noteq> VNil \<and>
      (\<exists>i. arrayIndex k (word_of_nat (length A)) = Some i \<and> A ! unat i = v)"
  proof
    assume "(k, v) \<in> set (array_pairs A)"
    then obtain i where i: "i < length A" "k = int_key (word_of_nat i + 1)" "v = A ! i" "v \<noteq> VNil"
      by (auto simp: array_pairs_def)
    have "unat (word_of_nat i :: u32) = i" using i(1) assms(2) by (intro u32_small) simp
    then show "v \<noteq> VNil \<and> (\<exists>i. arrayIndex k (word_of_nat (length A)) = Some i \<and> A ! unat i = v)"
      using arrayIndex_int_key [OF i(1) assms(2)] i by (intro conjI exI [of _ "word_of_nat i"]) simp_all
  next
    assume "v \<noteq> VNil \<and> (\<exists>i. arrayIndex k (word_of_nat (length A)) = Some i \<and> A ! unat i = v)"
    then obtain i where i: "v \<noteq> VNil" "arrayIndex k (word_of_nat (length A)) = Some i" "A ! unat i = v" by blast
    have l: "unat i < length A" using arrayIndex_key(2) [OF i(2)] u32_small [OF assms(2)] by simp
    have "k = int_key (i + 1)"
      using arrayIndex_int_key [OF l assms(2)] by (intro arrayIndex_inj [OF i(2)]) simp
    then show "(k, v) \<in> set (array_pairs A)"
      using l i(1,3) unfolding array_pairs_def by (auto intro!: image_eqI [of _ _ "unat i"])
  qed
  have nod: "(k, v) \<in> set (node_pairs ns) \<longleftrightarrow> v \<noteq> VNil \<and> (k, v) \<in> entries ns"
    by (auto simp: node_pairs_def entries_def)
  show ?thesis
  proof (cases "arrayIndex k (word_of_nat (length A))")
    case None
    have "(k, v) \<in> entries ns \<longleftrightarrow> k \<noteq> VNil \<and> hget ns k = v" if "v \<noteq> VNil"
    proof (cases "\<exists>w. (k, w) \<in> entries ns")
      case True
      then obtain w where w: "(k, w) \<in> entries ns" by blast
      have "k \<noteq> VNil" "hget ns k = w" using w hget_in [OF assms(1) w] by (simp_all add: entries_iff)
      then show ?thesis using w hget_in [OF assms(1), of k v] by blast
    next
      case False
      then show ?thesis using hget_out [of k ns] that by auto
    qed
    then show ?thesis using None arr nod by (auto simp: live_of_def tget_def)
  next
    case (Some i)
    have "(k, v) \<notin> entries ns" using assms(1) Some by (auto simp: shape_ok_def entries_def)
    then show ?thesis using Some arr nod array_index_facts(4) [OF Some] by (auto simp: live_of_def tget_def)
  qed
qed

lemma live_distinct:
  assumes "shape_ok S H (length A) ns lf" "length A < 2 ^ 28"
  shows "distinct (map fst (live_of A ns))"
proof -
  have "inj_on (\<lambda>i. int_key (word_of_nat i + 1)) {..<length A}"
  proof (rule inj_onI)
    fix i j assume ij: "i \<in> {..<length A}" "j \<in> {..<length A}"
      "int_key (word_of_nat i + 1) = int_key (word_of_nat j + 1)"
    have "Some (word_of_nat i :: u32) = Some (word_of_nat j)"
      using arrayIndex_int_key [OF ij(1) [unfolded lessThan_iff] assms(2)] arrayIndex_int_key [OF ij(2) [unfolded lessThan_iff] assms(2)]
      unfolding ij(3) by (rule trans [OF sym])
    then have "(word_of_nat i :: u32) = word_of_nat j" by (rule option.inject [THEN iffD1])
    then have "unat (word_of_nat i :: u32) = unat (word_of_nat j :: u32)" by simp
    moreover have "unat (word_of_nat i :: u32) = i" "unat (word_of_nat j :: u32) = j"
      using ij assms(2) by (auto intro!: u32_small)
    ultimately show "i = j" by simp
  qed
  then have a: "distinct (map fst (array_pairs A))"
    unfolding array_pairs_def map_map comp_def fst_conv distinct_map
    by (intro conjI) (simp, erule inj_on_subset, auto)
  have n: "distinct (map fst (node_pairs ns))"
    unfolding node_pairs_def map_map comp_def fst_conv distinct_map
    by (intro conjI inj_onI distinct_keys [OF assms(1)]) auto
  have "fst x \<noteq> fst y" if xy: "x \<in> set (array_pairs A)" "y \<in> set (node_pairs ns)" for x y
  proof -
    obtain i where "i < length A" "fst x = int_key (word_of_nat i + 1)" using xy(1) by (auto simp: array_pairs_def)
    then have "arrayIndex (fst x) (word_of_nat (length A)) \<noteq> None" using arrayIndex_int_key assms(2) by simp
    moreover have "arrayIndex (fst y) (word_of_nat (length A)) = None"
      using xy(2) assms(1) by (auto simp: node_pairs_def shape_ok_def)
    ultimately show ?thesis by metis
  qed
  then show ?thesis using a n by (fastforce simp: live_of_def)
qed

lemma live_length: "length (live_of A ns) \<le> length A + length ns"
  using length_filter_le [of "\<lambda>i. A ! i \<noteq> VNil" "[0..<length A]"]
    length_filter_le [of "\<lambda>j. nkey ns j \<noteq> VNil \<and> nval ns j \<noteq> VNil" "[0..<length ns]"]
  by (simp add: live_of_def array_pairs_def node_pairs_def add_mono)

lemma live_keys:
  assumes "shape_ok S H (length A) ns lf" "length A < 2 ^ 28" "e \<in> set (live_of A ns)"
  shows "keyable S (fst e)" "normal (fst e)"
proof -
  have "keyable S (fst e) \<and> normal (fst e)"
  proof (cases "e \<in> set (array_pairs A)")
    case True
    then obtain i where "i < length A" "fst e = int_key (word_of_nat i + 1)" by (auto simp: array_pairs_def)
    then have "arrayIndex (fst e) (word_of_nat (length A)) = Some (word_of_nat i)" using arrayIndex_int_key assms(2) by simp
    from array_index_facts [OF this] show ?thesis by (simp add: keyable_def)
  next
    case False
    then obtain j where "j < length ns" "fst e = nkey ns j" "nkey ns j \<noteq> VNil"
      using assms(3) by (auto simp: live_of_def node_pairs_def)
    then show ?thesis using assms(1) by (simp add: shape_ok_def)
  qed
  then show "keyable S (fst e)" "normal (fst e)" by simp_all
qed

end
