(* ===== verification/TableSizes.thy ===== *)
theory TableSizes
  imports TableLive
begin

text \<open>
  The sizes a rehash chooses: the array part is empty or a power of two of at most \<open>2^24\<close> slots, the hash
  part is empty or a power of two with more nodes than keys that will live there.
\<close>

lemma unat_pow32: "e < 32 \<Longrightarrow> unat (2 ^ e :: u32) = 2 ^ e"
proof -
  assume e: "e < 32"
  have "word_of_nat (2 ^ e) = (2 ^ e :: u32)" by simp
  moreover have "(2 :: nat) ^ e < 2 ^ LENGTH(32)" using e by (intro power_strict_increasing) simp_all
  ultimately show ?thesis using unat_word_of_nat_lt [of "2 ^ e"] by metis
qed

section \<open>The array part\<close>

lemma choose_asize_ok:
  assumes "best = 0 \<or> (\<exists>e\<le>24. best = 2 ^ e)"
  shows "choose_asize ic mk b acc best = 0 \<or> (\<exists>e\<le>24. choose_asize ic mk b acc best = 2 ^ e)"
  using assms
proof (induction ic mk b acc best rule: choose_asize.induct)
  case (1 ic mk b acc best)
  show ?case
  proof (cases "31 < b \<or> maxArraySize < 2 ^ b")
    case True
    then have "choose_asize ic mk b acc best = best" by (subst choose_asize.simps) (auto simp: Let_def)
    then show ?thesis using 1(2) by simp
  next
    case False
    have "unat (maxArraySize :: u32) = 2 ^ 24" using unat_pow32 [of 24] by (simp add: maxArraySize_def)
    then have "(2 :: nat) ^ b \<le> 2 ^ 24"
      using False unat_pow32 [of b] by (simp add: word_less_nat_alt not_less)
    then have b: "b \<le> 24" using power_le_imp_le_exp [of "2 :: nat" b 24] by simp
    let ?best = "if 2 ^ b div 2 < acc + ic b then 2 ^ b else best"
    have nb: "?best = 0 \<or> (\<exists>e\<le>24. ?best = 2 ^ e)" using 1(2) b by auto
    have run: "choose_asize ic mk b acc best =
        (if mk \<le> 2 ^ b then ?best else choose_asize ic mk (Suc b) (acc + ic b) ?best)"
      using False by (subst choose_asize.simps) (simp add: Let_def)
    show ?thesis
    proof (cases "mk \<le> 2 ^ b")
      case True
      then show ?thesis using run nb by simp
    next
      case no: False
      have p: "(push_bit b 1 :: u32) = 2 ^ b" by simp
      have "choose_asize ic mk (Suc b) (acc + ic b) ?best = 0 \<or>
          (\<exists>e\<le>24. choose_asize ic mk (Suc b) (acc + ic b) ?best = 2 ^ e)"
        by (rule 1(1) [OF _ refl refl _ refl, unfolded p]) (use False no nb in simp_all)
      then show ?thesis using run no by simp
    qed
  qed
qed

lemma best_asize_ok: "best_asize al k = 0 \<or> (\<exists>e\<le>24. best_asize al k = 2 ^ e)"
proof -
  obtain ic ti mk where "countIntKey (foldl (\<lambda>s e. countIntKey s (fst e)) (\<lambda>_. 0, 0, 0) al) k = (ic, ti, mk)"
    by (metis prod_cases3)
  then have "best_asize al k = choose_asize ic mk 0 0 0" by (simp add: best_asize_def)
  then show ?thesis using choose_asize_ok [of 0 ic mk 0 0] by simp
qed

lemma best_asize_le: "unat (best_asize al k) \<le> 2 ^ 24"
proof -
  have "unat (2 ^ e :: u32) \<le> 2 ^ 24" if "e \<le> 24" for e
    using that power_increasing [of e 24 "2 :: nat"] by (simp add: unat_pow32)
  then show ?thesis using best_asize_ok [of al k] by auto
qed

section \<open>The hash part\<close>

definition hash_keys :: "u32 \<Rightarrow> (lvalue \<times> lvalue) list \<Rightarrow> lvalue \<Rightarrow> lvalue list" where
  "hash_keys n al k = filter (\<lambda>k. \<not> in_array n k) (k # map fst al)"

lemma in_array_0: "\<not> in_array 0 k"
proof -
  have "arrayIndex (normKey k) 0 = None"
  proof (cases "arrayIndex (normKey k) 0")
    case (Some i)
    then have "1 \<le> i + 1" "i + 1 \<le> 0" unfolding arrayIndex_iff by blast+
    then have "i + 1 = 0" by simp
    then show ?thesis using \<open>1 \<le> i + 1\<close> by (simp only: \<open>i + 1 = 0\<close>) simp
  qed
  then show ?thesis by (simp add: in_array_def)
qed

lemma hash_count_ok:
  assumes "length al < 2 ^ 29"
  shows "unat (hash_count al k n) = length (hash_keys n al k)"
proof -
  let ?m = "length (filter (in_array n) (k # map fst al))"
  have sum: "?m + length (hash_keys n al k) = length al + 1"
    using sum_length_filter_compl [of "in_array n" "k # map fst al"] by (simp add: hash_keys_def)
  have lf: "length (filter (\<lambda>e. in_array n (fst e)) al) = length (filter (in_array n) (map fst al))"
    by (simp add: filter_map comp_def)
  have "hash_count al k n = word_of_nat (length al + 1) - word_of_nat ?m"
  proof (cases "0 < n")
    case True
    then show ?thesis by (simp add: hash_count_def Let_def lf)
  next
    case False
    then have "n = 0" by (simp add: word_gt_0)
    then show ?thesis by (simp add: hash_count_def in_array_0)
  qed
  also have "\<dots> = word_of_nat (length (hash_keys n al k))" by (simp only: sum [symmetric] of_nat_add add_diff_cancel_left')
  finally have "hash_count al k n = word_of_nat (length (hash_keys n al k))" .
  moreover have "length (hash_keys n al k) < 2 ^ 30"
    by (rule le_less_trans [of _ "length al + 1"]) (use sum assms in linarith, use assms in simp)
  ultimately show ?thesis by (simp add: unat_word_of_nat_lt)
qed

lemma hsize_loop_ok:
  assumes "unat n < 2 ^ 30" "e \<le> 30"
  shows "\<exists>e'\<le>30. hsize_loop n (2 ^ e) = Some (2 ^ e') \<and> unat n + 1 \<le> 2 ^ e'"
  using assms(2)
proof (induction "30 - e" arbitrary: e)
  case 0
  then have e: "e = 30" by simp
  have "\<not> 2 ^ e < n + 1" using assms(1) unat_pow32 [of 30] unfolding e
    by (simp add: word_less_nat_alt unat_word_ariths)
  then have "hsize_loop n (2 ^ e) = Some (2 ^ e)" by (subst hsize_loop.simps) (simp only: if_False)
  moreover have "unat n + 1 \<le> 2 ^ e" using assms(1) unfolding e by linarith
  ultimately show ?case using e by blast
next
  case (Suc d)
  have u: "unat (n + 1) = unat n + 1" using assms(1) by (simp add: unat_word_ariths)
  have p: "unat (2 ^ e :: u32) = 2 ^ e" using Suc.prems by (intro unat_pow32) simp
  show ?case
  proof (cases "2 ^ e < n + 1")
    case True
    have "hsize_loop n (2 ^ e) = hsize_loop n (2 ^ Suc e)"
      using True by (subst hsize_loop.simps) (simp add: push_bit_eq_mult mult.commute)
    moreover have "d = 30 - Suc e" "Suc e \<le> 30" using Suc.hyps(2) by simp_all
    ultimately show ?thesis using Suc.hyps(1) [of "Suc e"] by simp
  next
    case False
    then have "unat n + 1 \<le> 2 ^ e" using u p by (simp add: word_less_nat_alt not_less)
    moreover have "hsize_loop n (2 ^ e) = Some (2 ^ e)" using False by (subst hsize_loop.simps) (simp only: if_False)
    ultimately show ?thesis using Suc.prems by blast
  qed
qed

lemma new_hsize_ok:
  assumes "unat n < 2 ^ 30"
  shows "\<exists>h. new_hsize n = Some h \<and> (if n = 0 then h = 0 else \<exists>e\<le>30. unat h = 2 ^ e \<and> unat n + 1 \<le> 2 ^ e)"
proof -
  obtain e where e: "e \<le> 30" "hsize_loop n 1 = Some (2 ^ e)" "unat n + 1 \<le> 2 ^ e"
    using hsize_loop_ok [OF assms, of 0] by auto
  then show ?thesis using unat_pow32 [of e]
    by (intro exI [of _ "if n = 0 then 0 else 2 ^ e"]) (auto simp: new_hsize_def)
qed

end
