(* ===== verification/TableSwap.thy ===== *)
theory TableSwap
  imports TableSizes
begin

text \<open>
  The exchange of a table's two parts: the new parts are allocated empty, installed in the head, and the
  old ones freed; every other live block stays, up to the word of the pending-collection flag.
\<close>

section \<open>Allocating an empty part\<close>

lemma initArraySlots_made:
  assumes "made a L a1 r b" "unat n \<le> block_words b" "initArraySlots a1 r n = Some a'"
  shows "made a L a' r b" "\<forall>i<unat n. a_words a' ! (idx r + i) = VNil"
proof -
  have bk: "idx r + block_words b \<le> length (a_words a1)" using made_blk [OF assms(1)] by (simp add: blk_def)
  have len: "length (a_words a1) \<le> 2 ^ 28" using assms(1) arena_inv_length by (auto simp: made_def)
  have hi: "unat (drop_bit 3 r + ucast n) = idx r + unat n"
  proof -
    have lt: "idx r + unat n < 2 ^ LENGTH(64)"
      by (rule le_less_trans [of _ "2 ^ 28"]) (use bk len assms(2) in linarith, simp)
    then show ?thesis using unat_add_lem [of "drop_bit 3 r" "ucast n"] by simp
  qed
  let ?ws = "take (idx r) (a_words a1) @ replicate (unat n) VNil @ drop (idx r + unat n) (a_words a1)"
  have a': "a' = a1\<lparr>a_words := ?ws\<rparr>"
    using assms(3) unfolding initArraySlots_def Let_def hi by (simp add: idx_def split: if_splits)
  have nth: "?ws ! j = (if idx r \<le> j \<and> j < idx r + unat n then VNil else a_words a1 ! j)" if "j < length (a_words a1)" for j
    using that bk assms(2) by (auto simp: nth_append)
  have "length ?ws = length (a_words a1)" using bk assms(2) by simp
  then show "made a L a' r b" unfolding a'
    by (rule made_range [OF assms(1)]) (use nth assms(2) bk in auto)
  show "\<forall>i<unat n. a_words a' ! (idx r + i) = VNil"
  proof (intro allI impI)
    fix i assume "i < unat n"
    then show "a_words a' ! (idx r + i) = VNil" using nth [of "idx r + i"] bk assms(2) by (simp add: a')
  qed
qed

lemma nodeInit_nth: "j < n \<Longrightarrow> nodeInit n ! (3 * j) = VNil \<and> nodeInit n ! (3 * j + 1) = VNil \<and> nodeInit n ! (3 * j + 2) = 0xFFFFFFFF"
proof (induction n arbitrary: j)
  case (Suc n)
  then show ?case by (cases j) (simp_all add: numeral_2_eq_2)
qed simp

lemma length_nodeInit [simp]: "length (nodeInit n) = 3 * n"
  by (induction n) simp_all

lemma empty_node: "ucast (- 1 :: u32) = (0xFFFFFFFF :: u64)"
  by code_simp

lemma initNodeSlots_made:
  assumes "made a L a1 r b" "3 * unat n \<le> block_words b" "initNodeSlots a1 r n = Some a'"
  shows "made a L a' r b" "\<forall>j<unat n. node_at (a_words a') (idx r + 3 * j) (VNil, VNil, - 1)"
proof -
  have bk: "idx r + block_words b \<le> length (a_words a1)" using made_blk [OF assms(1)] by (simp add: blk_def)
  let ?ws = "take (idx r) (a_words a1) @ nodeInit (unat n) @ drop (idx r + 3 * unat n) (a_words a1)"
  have a': "a' = a1\<lparr>a_words := ?ws\<rparr>"
    using assms(3) unfolding initNodeSlots_def Let_def by (simp add: idx_def split: if_splits)
  have nth: "?ws ! j = (if idx r \<le> j \<and> j < idx r + 3 * unat n then nodeInit (unat n) ! (j - idx r) else a_words a1 ! j)"
    if "j < length (a_words a1)" for j
    using that bk assms(2) by (auto simp: nth_append)
  have "length ?ws = length (a_words a1)" using bk assms(2) by simp
  then show "made a L a' r b" unfolding a'
    by (rule made_range [OF assms(1)]) (use nth assms(2) bk in auto)
  show "\<forall>j<unat n. node_at (a_words a') (idx r + 3 * j) (VNil, VNil, - 1)"
  proof (intro allI impI)
    fix j assume j: "j < unat n"
    have "3 * j + 2 < 3 * unat n" using j by linarith
    then show "node_at (a_words a') (idx r + 3 * j) (VNil, VNil, - 1)"
      using nth [of "idx r + 3 * j"] nth [of "idx r + 3 * j + 1"] nth [of "idx r + 3 * j + 2"] nodeInit_nth [OF j] bk assms(2)
      by (simp add: a' node_at_def empty_node)
  qed
qed

lemma AllocTableArray_made:
  assumes "arena_inv a L" "AllocTableArray a n = Some (r, a')"
  shows "made a L a' r (n * 8)" "unat n \<le> block_words (n * 8)" "\<forall>i<unat n. a_words a' ! (idx r + i) = VNil"
proof -
  obtain a1 where a1: "AllocWords a n = Some (r, a1)" "initArraySlots a1 r n = Some a'"
    using assms(2) by (auto simp: AllocTableArray_def bind_eq_Some_conv)
  note m = AllocWords_made [OF assms(1) a1(1)]
  show "unat n \<le> block_words (n * 8)" by (rule m)
  show "made a L a' r (n * 8)" "\<forall>i<unat n. a_words a' ! (idx r + i) = VNil"
    using initArraySlots_made [OF m(1,2) a1(2)] by blast+
qed

lemma AllocTableNode_made:
  assumes "arena_inv a L" "AllocTableNode a n = Some (r, a')" "unat n \<le> 2 ^ 30"
  shows "made a L a' r (n * 3 * 8)" "3 * unat n \<le> block_words (n * 3 * 8)"
    "\<forall>j<unat n. node_at (a_words a') (idx r + 3 * j) (VNil, VNil, - 1)"
proof -
  obtain a1 where a1: "AllocWords a (nodeWords * n) = Some (r, a1)" "initNodeSlots a1 r n = Some a'"
    using assms(2) by (auto simp: AllocTableNode_def bind_eq_Some_conv)
  note m = AllocWords_made [OF assms(1) a1(1)]
  have e: "nodeWords * n * 8 = n * 3 * 8" by (simp add: nodeWords_def)
  have u: "unat (nodeWords * n) = 3 * unat n" using assms(3) by (simp add: nodeWords_def unat_word_ariths)
  show l: "3 * unat n \<le> block_words (n * 3 * 8)" using m(2) unfolding u e .
  show "made a L a' r (n * 3 * 8)" "\<forall>j<unat n. node_at (a_words a') (idx r + 3 * j) (VNil, VNil, - 1)"
    using initNodeSlots_made [OF m(1) [unfolded e] l a1(2)] by blast+
qed

text \<open>When the allocation of a part fails: the words asked for are more than the maximum, or than what is left above
  the top.\<close>

definition out_of_room :: "arena \<Rightarrow> u32 \<Rightarrow> bool" where
  "out_of_room a w \<longleftrightarrow> unat (a_maxCap a) < 8 * unat w \<or> unat (a_maxCap a) < unat (a_bump a) + 8 * block_words (w * 8)"

lemma AllocWords_refused:
  assumes "arena_inv a L" "AllocWords a w = None"
  shows "out_of_room a w"
proof (cases "unat (a_maxCap a) < 8 * unat w")
  case False
  have g: "unat (a_maxCap a) \<le> 2 ^ 31" "unat (a_bump a) = 8 * wbump a"
    using assms(1) by (auto simp: arena_inv_def inv_def base_ok_def geometry_def wbump_def)
  have w: "unat w < 4294967296" by (rule unat_u32_lt)
  then have "unat w * 8 < 18446744073709551616" by linarith
  then have "unat (ucast w * 8 :: u64) = unat w * 8" by (simp add: unat_word_ariths)
  then have "\<not> (ucast (a_maxCap a) :: u64) < ucast w * 8" using False by (simp add: word_less_nat_alt not_less)
  then have "AllocBytes a (w * 8) = None" using assms(2) by (simp add: AllocWords_def)
  moreover have "unat (w * 8) = unat w * 8" using False g(1) by (simp add: unat_word_ariths)
  ultimately show ?thesis using AllocBytes_cases [OF assms(1), of "w * 8"] False g(2) by (simp add: out_of_room_def)
qed (simp add: out_of_room_def)

lemma part_bound:
  assumes "made a L a1 r b" "n \<le> block_words b"
  shows "idx r + n \<le> length (a_words a1)" "length (a_words a1) \<le> 2 ^ 28"
  using made_blk [OF assms(1)] assms arena_inv_length by (auto simp: made_def blk_def)

lemma part_end: "idx r + unat (n :: u32) \<le> 2 ^ 28 \<Longrightarrow> unat (drop_bit 3 r + ucast n) = idx r + unat n"
  using unat_add_lem [of "drop_bit 3 r" "ucast n"] by simp

lemma AllocTableArray_refused:
  assumes "arena_inv a L" "AllocTableArray a n = None"
  shows "out_of_room a n"
proof (cases "AllocWords a n")
  case None
  then show ?thesis by (rule AllocWords_refused [OF assms(1)])
next
  case (Some p)
  obtain r a1 where p: "p = (r, a1)" by (cases p)
  note m = AllocWords_made [OF assms(1) Some [unfolded p]]
  note pb = part_bound [OF m(1,2)]
  have "unat (drop_bit 3 r + ucast n) = idx r + unat n" by (rule part_end) (use pb in linarith)
  then show ?thesis
    using assms(2) Some p pb(1) by (simp add: AllocTableArray_def initArraySlots_def Let_def)
qed

lemma AllocTableNode_refused:
  assumes "arena_inv a L" "AllocTableNode a n = None" "unat n \<le> 2 ^ 30"
  shows "out_of_room a (nodeWords * n)"
proof (cases "AllocWords a (nodeWords * n)")
  case None
  then show ?thesis by (rule AllocWords_refused [OF assms(1)])
next
  case (Some p)
  obtain r a1 where p: "p = (r, a1)" by (cases p)
  note m = AllocWords_made [OF assms(1) Some [unfolded p]]
  note pb = part_bound [OF m(1,2)]
  have u: "unat (nodeWords * n) = 3 * unat n" using assms(3) by (simp add: nodeWords_def unat_word_ariths)
  have "unat (drop_bit 3 r + ucast (nodeWords * n)) = idx r + unat (nodeWords * n)" by (rule part_end) (use pb in linarith)
  then show ?thesis
    using assms(2) Some p pb(1) u by (simp add: AllocTableNode_def initNodeSlots_def Let_def mult.commute [of nodeWords])
qed

section \<open>Charging for it\<close>

text \<open>The flag word lies in a block of \<open>G\<close> that is not in \<open>S\<close>.\<close>

lemma AllocCharge_keeps:
  assumes "arena_inv (c_a c) L" "pending_in c (G - S)" "G \<subseteq> L"
  shows "\<exists>c'. AllocCharge c n = Some c' \<and> arena_inv (c_a c') L \<and> keeps (c_a c) (c_a c') (L - (G - S)) \<and>
    c_gcPendingRef c' = c_gcPendingRef c"
proof -
  have "pending_in c L" using assms(2,3) unfolding pending_in_def by blast
  from AllocCharge_ok [OF assms(1) this, of n] obtain c' ws lst where c': "AllocCharge c n = Some c'"
    "c' = c\<lparr>c_bytesAllocSince := c_bytesAllocSince c + ucast n, c_gcPendingLast := lst, c_a := (c_a c)\<lparr>a_words := ws\<rparr>\<rparr>"
    "arena_inv ((c_a c)\<lparr>a_words := ws\<rparr>) L"
    "\<forall>j. ws ! j \<noteq> a_words (c_a c) ! j \<longrightarrow> c_gcPendingRef c \<noteq> 0 \<and> j = idx (c_gcPendingRef c)" by blast
  have "ws ! (i + k) = a_words (c_a c) ! (i + k)" if b: "(i, m) \<in> L - (G - S)" "k < m" for i m k
  proof (rule ccontr)
    assume "ws ! (i + k) \<noteq> a_words (c_a c) ! (i + k)"
    with c'(4) have p: "c_gcPendingRef c \<noteq> 0" "i + k = idx (c_gcPendingRef c)" by blast+
    from assms(2) p(1) obtain i' m' where q: "(i', m') \<in> G - S" "i' \<le> i + k" "i + k < i' + m'"
      unfolding pending_in_def p(2) by blast
    have "i + m \<le> i' \<or> i' + m' \<le> i"
      using arena_inv_disjoint [OF assms(1), of i m i' m'] b(1) q(1) assms(3) by blast
    then show False using b(2) q(2,3) by linarith
  qed
  then have "keeps (c_a c) (c_a c') (L - (G - S))" by (auto simp: keeps_def c'(2))
  moreover have "c_gcPendingRef c' = c_gcPendingRef c" "arena_inv (c_a c') L" using c'(2,3) by simp_all
  ultimately show ?thesis using c'(1) by blast
qed

lemma alloc_part_refused:
  assumes "alloc_part alloc c n bytes = None" "pending_in c (G - S)" "G \<subseteq> L"
    and law: "\<And>r a'. alloc (c_a c) n = Some (r, a') \<Longrightarrow> made (c_a c) L a' r bytes"
  shows "0 < n \<and> alloc (c_a c) n = None"
proof (cases "0 < n")
  case True
  show ?thesis
  proof (cases "alloc (c_a c) n")
    case (Some p)
    obtain r a' where p: "p = (r, a')" by (cases p)
    have "arena_inv a' (insert (idx r, block_words bytes) L)" using law Some p by (simp add: made_def)
    then have "AllocCharge (c\<lparr>c_a := a'\<rparr>) bytes \<noteq> None"
      using AllocCharge_keeps [of "c\<lparr>c_a := a'\<rparr>" "insert (idx r, block_words bytes) L" G S bytes] assms(2,3)
      by (auto simp: pending_in_def)
    then show ?thesis using assms(1) True Some p by (auto simp: alloc_part_def bind_eq_None_conv)
  qed (simp add: True)
qed (use assms(1) in \<open>simp add: alloc_part_def\<close>)

definition part_blocks :: "gcref \<Rightarrow> u32 \<Rightarrow> u32 \<Rightarrow> (nat \<times> nat) set" where
  "part_blocks r n bytes = (if n = 0 then {} else {(idx r, block_words bytes)})"

text \<open>A law of both allocators, with what a new part holds.\<close>

lemma alloc_part_ok:
  assumes "alloc_part alloc c n bytes = Some (r, c')" "arena_inv (c_a c) L" "pending_in c (G - S)" "G \<subseteq> L" "S \<subseteq> G"
    and law: "\<forall>a'. alloc (c_a c) n = Some (r, a') \<longrightarrow> made (c_a c) L a' r bytes \<and> P (a_words a')"
    and frame: "\<forall>ws ws'. P ws \<longrightarrow> (\<forall>k<block_words bytes. ws' ! (idx r + k) = ws ! (idx r + k)) \<longrightarrow> P ws'"
  shows "arena_inv (c_a c') (part_blocks r n bytes \<union> L)" "part_blocks r n bytes \<inter> L = {}"
    "keeps (c_a c) (c_a c') (L - (G - S))" "n \<noteq> 0 \<Longrightarrow> aligned r \<and> P (a_words (c_a c'))" "n = 0 \<Longrightarrow> r = 0"
    "pending_in c' (G - S)"
proof -
  have all: "arena_inv (c_a c') (part_blocks r n bytes \<union> L) \<and> part_blocks r n bytes \<inter> L = {} \<and>
    keeps (c_a c) (c_a c') (L - (G - S)) \<and> (n \<noteq> 0 \<longrightarrow> aligned r \<and> P (a_words (c_a c'))) \<and> (n = 0 \<longrightarrow> r = 0) \<and>
    pending_in c' (G - S)"
  proof (cases "n = 0")
    case True
    then show ?thesis using assms(1-3) by (simp add: alloc_part_def part_blocks_def)
  next
    case False
    then have "0 < n" by (simp add: word_gt_0)
    then obtain a' where a': "alloc (c_a c) n = Some (r, a')" "AllocCharge (c\<lparr>c_a := a'\<rparr>) bytes = Some c'"
      using assms(1) by (auto simp: alloc_part_def bind_eq_Some_conv)
    note m = law [rule_format, OF a'(1)]
    let ?L = "insert (idx r, block_words bytes) L"
    have inv: "arena_inv a' ?L" "keeps (c_a c) a' L" "(idx r, block_words bytes) \<notin> L" "aligned r"
      using m by (simp_all add: made_def)
    have pi: "pending_in (c\<lparr>c_a := a'\<rparr>) (G - S)" using assms(3) by (simp add: pending_in_def)
    have sub: "G \<subseteq> ?L" using assms(4) by blast
    obtain c2 where c2: "AllocCharge (c\<lparr>c_a := a'\<rparr>) bytes = Some c2" "arena_inv (c_a c2) ?L"
      "keeps a' (c_a c2) (?L - (G - S))" "c_gcPendingRef c2 = c_gcPendingRef c"
      using AllocCharge_keeps [OF _ pi sub, of bytes] inv(1) by auto
    have eq: "c2 = c'" using c2(1) a'(2) by simp
    have own: "(idx r, block_words bytes) \<in> ?L - (G - S)" using inv(3) assms(4) by blast
    have "P (a_words (c_a c'))"
      using m frame [rule_format, of "a_words a'" "a_words (c_a c')"] keepsD [OF c2(3) own] unfolding eq by blast
    moreover have "keeps (c_a c) (c_a c') (L - (G - S))"
      using keeps_trans [OF keeps_mono [OF inv(2)] keeps_mono [OF c2(3)], of "L - (G - S)"] unfolding eq by blast
    moreover have "pending_in c' (G - S)" using assms(3) c2(4) unfolding eq pending_in_def by simp
    ultimately show ?thesis using False inv(3,4) c2(2) unfolding eq by (simp add: part_blocks_def)
  qed
  then show "arena_inv (c_a c') (part_blocks r n bytes \<union> L)" "part_blocks r n bytes \<inter> L = {}"
    "keeps (c_a c) (c_a c') (L - (G - S))" "n \<noteq> 0 \<Longrightarrow> aligned r \<and> P (a_words (c_a c'))" "n = 0 \<Longrightarrow> r = 0"
    "pending_in c' (G - S)" by blast+
qed

end
