(* ===== verification/TableExchange.thy ===== *)
theory TableExchange
  imports TableSwap
begin

text \<open>
  The exchange of a table's two parts: the new, empty parts are installed in the head and the old ones
  freed; the table is then empty, and every kept block is as before.
\<close>

section \<open>Installing the parts\<close>

lemma head_sizes:
  fixes w :: u64 and x y :: u32
  shows "((ucast x OR (w AND 0xFFFFFFFF00000000)) AND 0xFFFFFFFF) OR push_bit 32 (ucast y) = ucast x OR push_bit 32 (ucast y)"
proof -
  have m: "(0xFFFFFFFF :: u64) = mask 32" "(0xFFFFFFFF00000000 :: u64) = push_bit 32 (mask 32)"
    by (simp_all add: mask_eq_exp_minus_1)
  show ?thesis unfolding m by (rule bit_word_eqI) (auto simp: bit_simps dest: bit_imp_le_length)
qed

lemma hmask_nat: "n < 2 ^ 28 \<Longrightarrow> (if 0 < (word_of_nat n :: u32) then word_of_nat n - 1 else 0) = (word_of_nat (n - 1) :: u32)"
  using u32_small [of n] by (cases n) (auto simp: word_gt_0)

lemma head_install:
  assumes "lay a G t nh r q A ns" "arr_at (a_words a) r A" "nodes_at (a_words a) q ns"
    "\<forall>e\<in>set ns. - 1 \<le> snd (snd e) \<and> snd (snd e) < 2 ^ 31"
  shows "\<exists>a1 a2 lf. SetTableArray a t r (word_of_nat (length A)) = Some a1 \<and>
    SetTableNode a1 t q (word_of_nat (length ns)) = Some a2 \<and> tab a2 G t nh r q A ns lf \<and> keeps a a2 G"
proof -
  note b = lay_blocks(1) [OF assms(1)] and le = lay_lengths [OF assms(1)] and ap = lay_apart [OF assms(1)]
  let ?w = "a_words a ! (idx t + 1)"
  let ?x = "ucast (word_of_nat (length A) :: u32) OR (?w AND 0xFFFFFFFF00000000)"
  let ?y = "ucast (word_of_nat (length A) :: u32) OR push_bit 32 (ucast (word_of_nat (length ns - 1) :: u32)) :: u64"
  let ?w1 = "(a_words a)[idx t + 1 := ?x, idx t + 2 := r]"
  let ?w2 = "?w1[idx t + 1 := ?y, idx t + 3 := q]"
  have len: "idx t + 6 \<le> length (a_words a)" using b by (simp add: blk_def)
  have one: "SetTableArray a t r (word_of_nat (length A)) = Some (a\<lparr>a_words := ?w1\<rparr>)"
    using wordAt_blk [OF b, of 1] setWordAt_blk [OF b, of 1 ?x]
      setWordAt_blk [of "a\<lparr>a_words := (a_words a)[idx t + 1 := ?x]\<rparr>" t 6 2 r] b
    by (simp add: SetTableArray_def table_idx_defs)
  have b1: "blk (a\<lparr>a_words := ?w1\<rparr>) t 6" "blk (a\<lparr>a_words := ?w1[idx t + 1 := ?y]\<rparr>) t 6" using b by simp_all
  have rd: "wordAt (a\<lparr>a_words := ?w1\<rparr>) t 1 = Some ?x" using wordAt_blk [OF b1(1), of 1] len by simp
  have len28: "length ns < 2 ^ 28" using le(2) by linarith
  have two: "SetTableNode (a\<lparr>a_words := ?w1\<rparr>) t q (word_of_nat (length ns)) = Some (a\<lparr>a_words := ?w2\<rparr>)"
    using setWordAt_blk [OF b1(1), of 1 ?y] setWordAt_blk [OF b1(2), of 3 q]
    unfolding SetTableNode_def table_idx_defs hmask_nat [OF len28] rd Let_def bind.bind_lunit head_sizes
    by simp
  have out: "?w2 ! j = a_words a ! j" if "\<not> (idx t \<le> j \<and> j < idx t + 6)" for j
    using that by (auto simp: nth_list_update)
  have "6 \<le> nh" using assms(1) by (simp add: lay_def)
  then have lw: "lay (a\<lparr>a_words := ?w2\<rparr>) G t nh r q A ns \<and> keeps a (a\<lparr>a_words := ?w2\<rparr>) G"
    by (intro lay_write [OF assms(1), of _ "idx t" nh]) (use out in auto)
  have "head_at ?w2 t r q (length A) (length ns) (ucast (a_words a ! (idx t + 5)))"
    using len by (simp add: head_at_def)
  moreover have "arr_at ?w2 r A"
  proof (cases "A = []")
    case False
    show ?thesis by (rule arr_at_outside [OF assms(2)], rule out) (use ap(1) [OF False] in linarith)
  qed (simp add: arr_at_def)
  moreover have "nodes_at ?w2 q ns"
  proof (cases "ns = []")
    case False
    show ?thesis by (rule nodes_at_outside [OF assms(3)], rule out) (use ap(2) [OF False] in linarith)
  qed (simp add: nodes_at_def)
  ultimately have "tab (a\<lparr>a_words := ?w2\<rparr>) G t nh r q A ns (ucast (a_words a ! (idx t + 5)))"
    using lw assms(4) by (simp add: tab_def)
  then show ?thesis using one two lw by blast
qed

section \<open>Freeing the old parts\<close>

lemma tab_frame:
  assumes "tab a G t nh r q A ns lf" "G' \<subseteq> G"
    "arena_inv a' (insert (idx t, nh) (arr_blocks r A \<union> node_blocks q ns \<union> G'))"
    "keeps a a' (insert (idx t, nh) (arr_blocks r A \<union> node_blocks q ns))"
  shows "tab a' G' t nh r q A ns lf"
proof -
  have l: "lay a G t nh r q A ns" "head_at (a_words a) t r q (length A) (length ns) lf"
    "arr_at (a_words a) r A" "nodes_at (a_words a) q ns" "\<forall>e\<in>set ns. - 1 \<le> snd (snd e) \<and> snd (snd e) < 2 ^ 31"
    using assms(1) by (simp_all add: tab_def)
  have "lay a' G' t nh r q A ns" using l(1) assms(2,3) unfolding lay_def by blast
  moreover have "head_at (a_words a') t r q (length A) (length ns) lf"
  proof (rule head_at_outside [OF l(2)])
    fix k :: nat assume "k < 6"
    moreover have "6 \<le> nh" using l(1) by (simp add: lay_def)
    ultimately show "a_words a' ! (idx t + k) = a_words a ! (idx t + k)"
      by (intro keepsD [OF assms(4) insertI1]) linarith
  qed
  moreover have "arr_at (a_words a') r A"
  proof (rule arr_at_outside [OF l(3)])
    fix i assume i: "i < length A"
    then have "(idx r, arr_words A) \<in> insert (idx t, nh) (arr_blocks r A \<union> node_blocks q ns)" "i < arr_words A"
      using l(1) by (auto simp: arr_blocks_def lay_def part_ok_def split: if_splits)
    then show "a_words a' ! (idx r + i) = a_words a ! (idx r + i)" by (rule keepsD [OF assms(4)])
  qed
  moreover have "nodes_at (a_words a') q ns"
  proof (rule nodes_at_outside [OF l(4)])
    fix i assume i: "i < 3 * length ns"
    then have "(idx q, node_words ns) \<in> insert (idx t, nh) (arr_blocks r A \<union> node_blocks q ns)" "i < node_words ns"
      using l(1) by (auto simp: node_blocks_def lay_def part_ok_def split: if_splits)
    then show "a_words a' ! (idx q + i) = a_words a ! (idx q + i)" by (rule keepsD [OF assms(4)])
  qed
  ultimately show ?thesis using l(5) by (simp add: tab_def)
qed

lemma free_part:
  assumes "tab a (B \<union> G) t nh r q A ns lf" "B = (if n = 0 then {} else {(idx p, block_words bytes)})" "B \<inter> G = {}"
    "p = 0 \<longleftrightarrow> n = 0" "n \<noteq> 0 \<Longrightarrow> aligned p"
  shows "\<exists>a'. (if \<not> IsNull p then Free a p bytes else Some a) = Some a' \<and> tab a' G t nh r q A ns lf \<and> keeps a a' G"
proof (cases "n = 0")
  case True
  then show ?thesis using assms(1,2,4) by (intro exI [of _ a]) (simp add: IsNull_def)
next
  case False
  let ?own = "insert (idx t, nh) (arr_blocks r A \<union> node_blocks q ns)"
  have l: "lay a (B \<union> G) t nh r q A ns" using assms(1) by (simp add: tab_def)
  have B: "B = {(idx p, block_words bytes)}" using False assms(2) by simp
  have "insert (idx p, block_words bytes) (?own \<union> G) = insert (idx t, nh) (arr_blocks r A \<union> node_blocks q ns \<union> (B \<union> G))"
    unfolding B by blast
  then have inv: "arena_inv a (insert (idx p, block_words bytes) (?own \<union> G))" using l unfolding lay_def by simp
  have nin: "(idx p, block_words bytes) \<notin> ?own \<union> G"
  proof -
    have "(idx t, nh) \<notin> arr_blocks r A \<union> node_blocks q ns \<union> (B \<union> G)" "arr_blocks r A \<inter> (node_blocks q ns \<union> (B \<union> G)) = {}"
      "node_blocks q ns \<inter> (B \<union> G) = {}" using l unfolding lay_def by simp_all
    then have "(idx p, block_words bytes) \<noteq> (idx t, nh)" "(idx p, block_words bytes) \<notin> arr_blocks r A"
      "(idx p, block_words bytes) \<notin> node_blocks q ns" "(idx p, block_words bytes) \<notin> G"
      using assms(3) unfolding B by auto
    then show ?thesis by simp
  qed
  obtain a' where a': "Free a p bytes = Some a'" "arena_inv a' (?own \<union> G)" "keeps a a' (?own \<union> G)"
    using Free_block [OF inv nin assms(5) [OF False]] by blast
  have "tab a' G t nh r q A ns lf"
  proof (rule tab_frame [OF assms(1)])
    show "arena_inv a' (insert (idx t, nh) (arr_blocks r A \<union> node_blocks q ns \<union> G))" using a'(2) by simp
    show "keeps a a' ?own" by (rule keeps_mono [OF a'(3)]) blast
  qed (rule Un_upper2)
  moreover have "(if \<not> IsNull p then Free a p bytes else Some a) = Some a'"
    using a'(1) assms(4) False by (simp add: IsNull_def)
  moreover have "keeps a a' G" by (rule keeps_mono [OF a'(3)]) blast
  ultimately show ?thesis by blast
qed

section \<open>The exchange\<close>

definition grow_parts :: "collector \<Rightarrow> u32 \<Rightarrow> u32 \<Rightarrow> (gcref \<times> gcref \<times> collector) option" where
  "grow_parts c n h = do {
     (r, c) \<leftarrow> alloc_part AllocTableArray c n (n * 8);
     (q, c) \<leftarrow> alloc_part AllocTableNode c h (h * 3 * 8);
     Some (r, q, c) }"

text \<open>The arena has no room for a new array part of \<open>n\<close> slots, or for a node part of \<open>h\<close> nodes after it.\<close>

definition parts_refused :: "collector \<Rightarrow> u32 \<Rightarrow> u32 \<Rightarrow> bool" where
  "parts_refused c n h \<longleftrightarrow> 0 < n \<and> out_of_room (c_a c) n \<or>
     (\<exists>r c1. alloc_part AllocTableArray c n (n * 8) = Some (r, c1) \<and> 0 < h \<and> out_of_room (c_a c1) (nodeWords * h))"

lemma grow_parts_refused:
  assumes "tab (c_a c) G t nh r q A ns lf" "pending_in c (G - S)" "S \<subseteq> G" "unat h \<le> 2 ^ 30" "grow_parts c n h = None"
  shows "parts_refused c n h"
proof -
  let ?L = "insert (idx t, nh) (arr_blocks r A \<union> node_blocks q ns \<union> G)"
  have inv: "arena_inv (c_a c) ?L" using assms(1) by (simp add: tab_def lay_def)
  have GL: "G \<subseteq> ?L" by blast
  show ?thesis
  proof (cases "alloc_part AllocTableArray c n (n * 8)")
    case None
    from alloc_part_refused [OF None assms(2) GL AllocTableArray_made(1) [OF inv]] AllocTableArray_refused [OF inv]
    show ?thesis by (simp add: parts_refused_def)
  next
    case (Some p)
    obtain r' c1 where p: "p = (r', c1)" by (cases p)
    let ?B1 = "part_blocks r' n (n * 8)"
    have law1: "\<forall>a'. AllocTableArray (c_a c) n = Some (r', a') \<longrightarrow> made (c_a c) ?L a' r' (n * 8) \<and> True"
      using AllocTableArray_made(1) [OF inv] by blast
    note p1 = alloc_part_ok [OF Some [unfolded p] inv assms(2) GL assms(3) law1, simplified]
    have none: "alloc_part AllocTableNode c1 h (h * 3 * 8) = None" using assms(5) Some p by (simp add: grow_parts_def bind_eq_None_conv)
    have GL1: "G \<subseteq> ?B1 \<union> ?L" by blast
    have inv1: "arena_inv (c_a c1) (?B1 \<union> ?L)" using p1(1) by simp
    from alloc_part_refused [OF none p1(6) GL1 AllocTableNode_made(1) [OF inv1 _ assms(4)]]
      AllocTableNode_refused [OF inv1 _ assms(4)]
    show ?thesis using Some p by (auto simp: parts_refused_def)
  qed
qed

lemma grow_parts_ok:
  assumes "tab (c_a c) G t nh r q A ns lf" "pending_in c (G - S)" "S \<subseteq> G" "unat n < 2 ^ 28" "unat h \<le> 2 ^ 30"
    "grow_parts c n h = Some (r', q', c')"
  defines "A' \<equiv> replicate (unat n) VNil" and "ns' \<equiv> replicate (unat h) (VNil, VNil, - 1)"
  shows "lay (c_a c') (arr_blocks r A \<union> (node_blocks q ns \<union> G)) t nh r' q' A' ns'" "arr_at (a_words (c_a c')) r' A'"
    "nodes_at (a_words (c_a c')) q' ns'" "keeps (c_a c) (c_a c') S" "pending_in c' (G - S)"
proof -
  let ?L = "insert (idx t, nh) (arr_blocks r A \<union> node_blocks q ns \<union> G)"
  have l: "aligned t" "6 \<le> nh" "arena_inv (c_a c) ?L" "(idx t, nh) \<notin> arr_blocks r A \<union> node_blocks q ns \<union> G"
    "arr_blocks r A \<inter> (node_blocks q ns \<union> G) = {}" "node_blocks q ns \<inter> G = {}"
    using assms(1) by (simp_all add: tab_def lay_def)
  have GL: "G \<subseteq> ?L" by blast
  obtain c1 where c1: "alloc_part AllocTableArray c n (n * 8) = Some (r', c1)"
    "alloc_part AllocTableNode c1 h (h * 3 * 8) = Some (q', c')"
    using assms(6) by (auto simp: grow_parts_def bind_eq_Some_conv)
  let ?B1 = "part_blocks r' n (n * 8)" and ?B2 = "part_blocks q' h (h * 3 * 8)"
  let ?P = "\<lambda>ws. unat n \<le> block_words (n * 8) \<and> (\<forall>i<unat n. ws ! (idx r' + i) = VNil)"
  have fr1: "\<forall>ws ws'. ?P ws \<longrightarrow> (\<forall>k<block_words (n * 8). ws' ! (idx r' + k) = ws ! (idx r' + k)) \<longrightarrow> ?P ws'"
    by auto
  have law1: "\<forall>a'. AllocTableArray (c_a c) n = Some (r', a') \<longrightarrow> made (c_a c) ?L a' r' (n * 8) \<and> ?P (a_words a')"
    by (intro allI impI conjI AllocTableArray_made [OF l(3)])
  note p1 = alloc_part_ok [OF c1(1) l(3) assms(2) GL assms(3) law1 fr1]
  have GL1: "G \<subseteq> ?B1 \<union> ?L" by blast
  let ?Q = "\<lambda>ws. 3 * unat h \<le> block_words (h * 3 * 8) \<and> (\<forall>j<unat h. node_at ws (idx q' + 3 * j) (VNil, VNil, - 1))"
  have fr2: "\<forall>ws ws'. ?Q ws \<longrightarrow> (\<forall>k<block_words (h * 3 * 8). ws' ! (idx q' + k) = ws ! (idx q' + k)) \<longrightarrow> ?Q ws'"
  proof (intro allI impI)
    fix ws ws' :: "u64 list"
    assume Q: "?Q ws" and same: "\<forall>k<block_words (h * 3 * 8). ws' ! (idx q' + k) = ws ! (idx q' + k)"
    have "node_at ws' (idx q' + 3 * j) (VNil, VNil, - 1)" if j: "j < unat h" for j
    proof -
      have "3 * j + 2 < block_words (h * 3 * 8)" using j Q by linarith
      then have "ws' ! (idx q' + 3 * j + i) = ws ! (idx q' + 3 * j + i)" if "i \<le> 2" for i
        using same [rule_format, of "3 * j + i"] that by (simp add: add.assoc)
      from this [of 0] this [of 1] this [of 2] show ?thesis using j Q by (simp add: node_at_def)
    qed
    then show "?Q ws'" using Q by blast
  qed
  have law2: "\<forall>a'. AllocTableNode (c_a c1) h = Some (q', a') \<longrightarrow>
      made (c_a c1) (?B1 \<union> ?L) a' q' (h * 3 * 8) \<and> ?Q (a_words a')"
    by (intro allI impI conjI AllocTableNode_made [OF p1(1) _ assms(5)])
  note p2 = alloc_part_ok [OF c1(2) p1(1,6) GL1 assms(3) law2 fr2]
  have B: "?B1 = arr_blocks r' A'" "?B2 = node_blocks q' ns'"
    by (simp_all add: part_blocks_def arr_blocks_def node_blocks_def A'_def ns'_def arr_words_def node_words_def unat_eq_zero)
  have "arena_inv (c_a c') (insert (idx t, nh) (arr_blocks r' A' \<union> node_blocks q' ns' \<union> (arr_blocks r A \<union> (node_blocks q ns \<union> G))))"
    using p2(1) unfolding B by (simp add: Un_ac insert_commute)
  moreover have "part_ok r' (length A') (arr_words A')" "part_ok q' (3 * length ns') (node_words ns')"
    using p1(4,5) p2(4,5) by (auto simp: part_ok_def A'_def ns'_def arr_words_def node_words_def unat_eq_zero)
  moreover have "arr_blocks r' A' \<inter> (node_blocks q' ns' \<union> (arr_blocks r A \<union> (node_blocks q ns \<union> G))) = {}"
    "node_blocks q' ns' \<inter> (arr_blocks r A \<union> (node_blocks q ns \<union> G)) = {}"
    "(idx t, nh) \<notin> arr_blocks r' A' \<union> node_blocks q' ns' \<union> (arr_blocks r A \<union> (node_blocks q ns \<union> G))"
    using p1(2) p2(2) l(4) unfolding B by auto
  ultimately show "lay (c_a c') (arr_blocks r A \<union> (node_blocks q ns \<union> G)) t nh r' q' A' ns'"
    using l(1,2) by (simp add: lay_def)
  show "nodes_at (a_words (c_a c')) q' ns'" using p2(4) by (cases "h = 0") (simp_all add: nodes_at_def ns'_def)
  show "arr_at (a_words (c_a c')) r' A'"
  proof (cases "n = 0")
    case False
    have "?P (a_words (c_a c'))"
    proof (rule fr1 [rule_format])
      show "?P (a_words (c_a c1))" using p1(4) [OF False] by blast
      have "(idx r', block_words (n * 8)) \<in> ?B1 \<union> ?L - (G - S)" using p1(2) False by (auto simp: part_blocks_def)
      then show "a_words (c_a c') ! (idx r' + k) = a_words (c_a c1) ! (idx r' + k)" if "k < block_words (n * 8)" for k
        using keepsD [OF p2(3)] that by blast
    qed
    then show ?thesis by (simp add: arr_at_def A'_def)
  qed (simp add: arr_at_def A'_def)
  have "S \<subseteq> ?L - (G - S)" "S \<subseteq> ?B1 \<union> ?L - (G - S)" using assms(3) by blast+
  then show "keeps (c_a c) (c_a c') S" using keeps_trans keeps_mono [OF p1(3)] keeps_mono [OF p2(3)] by blast
  show "pending_in c' (G - S)" by (rule p2)
qed

lemma swap_parts_ok:
  assumes "tab (c_a c) G t nh r q A ns lf" "pending_in c (G - S)" "S \<subseteq> G" "unat n < 2 ^ 28" "unat h \<le> 2 ^ 30"
  defines "A' \<equiv> replicate (unat n) VNil" and "ns' \<equiv> replicate (unat h) (VNil, VNil, - 1)"
  shows "(swap_parts c t (word_of_nat (length A)) (word_of_nat (length ns)) n h = None \<and> grow_parts c n h = None) \<or>
    (\<exists>c' r' q'. swap_parts c t (word_of_nat (length A)) (word_of_nat (length ns)) n h = Some c' \<and>
       tab (c_a c') G t nh r' q' A' ns' h \<and> keeps (c_a c) (c_a c') S \<and> pending_in c' (G - S))"
proof (cases "grow_parts c n h")
  case None
  then have "swap_parts c t (word_of_nat (length A)) (word_of_nat (length ns)) n h = None"
    by (auto simp: swap_parts_def grow_parts_def tab_sizes(3,4) [OF assms(1)] split: bind_splits)
  then show ?thesis using None by blast
next
  case (Some p)
  then obtain r' q' c1 where g: "grow_parts c n h = Some (r', q', c1)" by (cases p) auto
  note gp = grow_parts_ok [OF assms(1-5) g, folded A'_def ns'_def]
  let ?G = "arr_blocks r A \<union> (node_blocks q ns \<union> G)"
  have len: "length A' = unat n" "length ns' = unat h" by (simp_all add: A'_def ns'_def)
  have lk: "\<forall>e\<in>set ns'. - 1 \<le> snd (snd e) \<and> snd (snd e) < 2 ^ 31" by (simp add: ns'_def)
  obtain a1 a2 lf1 where s: "SetTableArray (c_a c1) t r' n = Some a1" "SetTableNode a1 t q' h = Some a2"
    "tab a2 ?G t nh r' q' A' ns' lf1" "keeps (c_a c1) a2 ?G"
    using head_install [OF gp(1-3) lk] unfolding len by auto
  obtain a3 where a3: "SetTableLastFree a2 t h = Some a3" "tab a3 ?G t nh r' q' A' ns' h" "keeps a2 a3 ?G"
    using set_last_free [OF s(3)] by blast
  obtain a4 where a4: "BumpGen a3 t = Some a4" "tab a4 ?G t nh r' q' A' ns' h" "keeps a3 a4 ?G"
    using bump_gen [OF a3(2)] by blast
  have l: "arr_blocks r A \<inter> (node_blocks q ns \<union> G) = {}" "node_blocks q ns \<inter> G = {}"
    "part_ok r (length A) (arr_words A)" "part_ok q (3 * length ns) (node_words ns)"
    using assms(1) by (simp_all add: tab_def lay_def)
  have al: "r = 0 \<longleftrightarrow> length A = 0" "length A \<noteq> 0 \<Longrightarrow> aligned r" "q = 0 \<longleftrightarrow> length ns = 0" "length ns \<noteq> 0 \<Longrightarrow> aligned q"
    using l(3,4) by (auto simp: part_ok_def aligned_def split: if_splits)
  have oldr: "arr_blocks r A = (if length A = 0 then {} else {(idx r, block_words (word_of_nat (length A) * 8))})"
    and oldq: "node_blocks q ns = (if length ns = 0 then {} else {(idx q, block_words (word_of_nat (length ns) * 3 * 8))})"
    by (simp_all add: arr_blocks_def arr_words_def node_blocks_def node_words_def)
  obtain a5 where a5: "(if \<not> IsNull r then Free a4 r (word_of_nat (length A) * 8) else Some a4) = Some a5"
    "tab a5 (node_blocks q ns \<union> G) t nh r' q' A' ns' h" "keeps a4 a5 (node_blocks q ns \<union> G)"
    using free_part [OF a4(2) oldr l(1) al(1,2)] by blast
  obtain a6 where a6: "(if \<not> IsNull q then Free a5 q (word_of_nat (length ns) * 3 * 8) else Some a5) = Some a6"
    "tab a6 G t nh r' q' A' ns' h" "keeps a5 a6 G"
    using free_part [OF a5(2) oldq l(2) al(3,4)] by blast
  have "swap_parts c t (word_of_nat (length A)) (word_of_nat (length ns)) n h = Some (c1\<lparr>c_a := a6\<rparr>)"
  proof -
    obtain c0 where c0: "alloc_part AllocTableArray c n (n * 8) = Some (r', c0)"
      "alloc_part AllocTableNode c0 h (h * 3 * 8) = Some (q', c1)"
      using g by (auto simp: grow_parts_def bind_eq_Some_conv)
    show ?thesis
      unfolding swap_parts_def tab_sizes(3,4) [OF assms(1)] bind.bind_lunit c0 prod.case s(1,2) a3(1) a4(1) a5(1) a6(1) ..
  qed
  moreover have "keeps (c_a c) a6 S"
  proof -
    have sub: "S \<subseteq> ?G" "S \<subseteq> node_blocks q ns \<union> G" using assms(3) by auto
    show ?thesis
      by (rule keeps_trans [OF gp(4) keeps_trans [OF keeps_mono [OF s(4) sub(1)] keeps_trans [OF keeps_mono [OF a3(3) sub(1)]
        keeps_trans [OF keeps_mono [OF a4(3) sub(1)] keeps_trans [OF keeps_mono [OF a5(3) sub(2)] keeps_mono [OF a6(3) assms(3)]]]]]])
  qed
  moreover have "pending_in (c1\<lparr>c_a := a6\<rparr>) (G - S)" using gp(5) by (simp add: pending_in_def)
  ultimately show ?thesis using a6(2) by (intro disjI2 exI [of _ "c1\<lparr>c_a := a6\<rparr>"] exI) auto
qed

end
