(* ===== verification/TableRehash.thy ===== *)
theory TableRehash
  imports TableExchange
begin

text \<open>
  \<open>rawSet\<close> with its rehash: every live pair finds room in the new parts, so the table maps every other key
  as before, and five calls are always enough.
\<close>

section \<open>Reinsertion\<close>

definition ready :: "node list \<Rightarrow> u32 \<Rightarrow> bool" where
  "ready ns lf \<longleftrightarrow> (\<forall>j<length ns. nkey ns j = VNil \<longrightarrow> vacant ns j) \<and> packed (length ns) VNil (nkey ns) (unat lf)"

lemma ready_room:
  assumes "shape_ok S H asz ns lf" "ready ns lf" "finite K" "fst ` entries ns \<subseteq> K" "card K < length ns"
  shows "\<exists>j<length ns. j < unat lf \<and> vacant ns j"
proof -
  let ?J = "{j. j < length ns \<and> nkey ns j \<noteq> VNil}"
  have "inj_on (nkey ns) ?J" using distinct_keys [OF assms(1)] by (auto intro!: inj_onI)
  then have "card ?J = card (fst ` entries ns)" unfolding fst_entries by (simp add: card_image)
  also have "\<dots> \<le> card K" by (rule card_mono [OF assms(3,4)])
  finally have "card ?J < length ns" using assms(5) by linarith
  then obtain j where "j < unat lf" "j < length ns" "nkey ns j = VNil"
    using packed_room [of "length ns" VNil "nkey ns" "unat lf"] assms(2) unfolding ready_def by blast
  then show ?thesis using assms(2) unfolding ready_def by blast
qed

text \<open>One insertion into a table with room.\<close>

lemma insert_room:
  assumes "table_ok (c_a c) G S H t nh r q A ns lf" "keyable S k" "normal k" "v \<noteq> VNil" "ready ns lf" "finite K"
    "fst ` entries ns \<subseteq> K" "arrayIndex k (word_of_nat (length A)) = None \<Longrightarrow> k \<in> K \<and> card K < length ns"
  shows "\<exists>a' A' ns' lf'. (\<forall>n. rawSet (Suc (Suc n)) c t k v = Some (None, c\<lparr>c_a := a'\<rparr>)) \<and>
    table_ok a' G S H t nh r q A' ns' lf' \<and> ready ns' lf' \<and> length A' = length A \<and> length ns' = length ns \<and>
    fst ` entries ns' \<subseteq> K \<and> keeps (c_a c) a' G \<and>
    (\<forall>k'. normal k' \<and> k' \<noteq> VNil \<longrightarrow> tget A' ns' k' = (if k' = k then v else tget A ns k'))"
proof -
  have nk: "normKey k = k" using assms(3) by (simp add: normal_def)
  from assms(1,2) show ?thesis
  proof (cases rule: rawSet_cases [where v = v])
    case (direct a')
    from direct(2) [unfolded sets_def nk] obtain A' ns' lf' where s: "table_ok a' G S H t nh r q A' ns' lf'"
      "keeps (c_a c) a' G" "length A' = length A" "length ns' = length ns"
      "\<forall>k'. normal k' \<and> k' \<noteq> VNil \<longrightarrow> tget A' ns' k' = (if k' = k then v else tget A ns k')"
      "v \<noteq> VNil \<and> (\<forall>j<length ns. nkey ns j = VNil \<longrightarrow> vacant ns j) \<and> packed (length ns) VNil (nkey ns) (unat lf) \<longrightarrow>
        (\<forall>j<length ns'. nkey ns' j = VNil \<longrightarrow> vacant ns' j) \<and> packed (length ns') VNil (nkey ns') (unat lf') \<and>
        fst ` entries ns' \<subseteq> fst ` entries ns \<union> (if arrayIndex k (word_of_nat (length A)) = None then {k} else {})"
      by blast
    have r: "ready ns' lf'" and e: "fst ` entries ns' \<subseteq> fst ` entries ns \<union> (if arrayIndex k (word_of_nat (length A)) = None then {k} else {})"
      using s(6) assms(4,5) unfolding ready_def by blast+
    have "fst ` entries ns' \<subseteq> K"
      by (rule subset_trans [OF e]) (use assms(7,8) in \<open>simp split: if_splits\<close>)
    moreover have "\<forall>n. rawSet (Suc (Suc n)) c t k v = Some (None, c\<lparr>c_a := a'\<rparr>)" using direct(1) by blast
    ultimately show ?thesis using s(1-5) r by blast
  next
    case regrow
    have "card K < length ns" using assms(8) regrow(3) unfolding nk by blast
    then have "\<exists>j<length ns. j < unat lf \<and> vacant ns j"
      using ready_room [OF table_okD(3) [OF assms(1)] assms(5-7)] by blast
    then show ?thesis using regrow(5) by blast
  qed
qed

lemma reinsert_ok:
  assumes "table_ok (c_a c) G S H t nh r q A ns lf" "ready ns lf" "finite K" "fst ` entries ns \<subseteq> K"
    "\<forall>e\<in>set al. keyable S (fst e) \<and> normal (fst e) \<and> snd e \<noteq> VNil \<and>
       (arrayIndex (fst e) (word_of_nat (length A)) = None \<longrightarrow> fst e \<in> K \<and> card K < length ns)"
    "distinct (map fst al)"
  shows "\<exists>c' A' ns' lf'. (\<forall>n. ofold (\<lambda>c e. map_option snd (rawSet (Suc (Suc n)) c t (fst e) (snd e))) c al = Some c') \<and>
    table_ok (c_a c') G S H t nh r q A' ns' lf' \<and> ready ns' lf' \<and> length A' = length A \<and> length ns' = length ns \<and>
    fst ` entries ns' \<subseteq> K \<and> keeps (c_a c) (c_a c') G \<and> c_gcPendingRef c' = c_gcPendingRef c \<and>
    (\<forall>k'. normal k' \<and> k' \<noteq> VNil \<longrightarrow> tget A' ns' k' = (case map_of al k' of Some v \<Rightarrow> v | None \<Rightarrow> tget A ns k'))"
  using assms
proof (induction al arbitrary: c A ns lf)
  case Nil
  then show ?case by (intro exI [of _ c] exI [of _ A] exI [of _ ns] exI [of _ lf]) simp
next
  case (Cons e al)
  from Cons.prems(5) have e: "keyable S (fst e)" "normal (fst e)" "snd e \<noteq> VNil"
    "arrayIndex (fst e) (word_of_nat (length A)) = None \<Longrightarrow> fst e \<in> K \<and> card K < length ns" by auto
  obtain a1 A1 ns1 lf1 where s: "\<forall>n. rawSet (Suc (Suc n)) c t (fst e) (snd e) = Some (None, c\<lparr>c_a := a1\<rparr>)"
    "table_ok a1 G S H t nh r q A1 ns1 lf1" "ready ns1 lf1" "length A1 = length A" "length ns1 = length ns"
    "fst ` entries ns1 \<subseteq> K" "keeps (c_a c) a1 G"
    "\<forall>k'. normal k' \<and> k' \<noteq> VNil \<longrightarrow> tget A1 ns1 k' = (if k' = fst e then snd e else tget A ns k')"
    using insert_room [OF Cons.prems(1) e(1-3) Cons.prems(2-4) e(4)] by blast
  have t1: "table_ok (c_a (c\<lparr>c_a := a1\<rparr>)) G S H t nh r q A1 ns1 lf1" using s(2) by simp
  have al: "\<forall>e\<in>set al. keyable S (fst e) \<and> normal (fst e) \<and> snd e \<noteq> VNil \<and>
       (arrayIndex (fst e) (word_of_nat (length A1)) = None \<longrightarrow> fst e \<in> K \<and> card K < length ns1)"
    using Cons.prems(5) unfolding s(4,5) by simp
  have d: "distinct (map fst al)" "map_of al (fst e) = None"
    using Cons.prems(6) by (simp_all add: map_of_eq_None_iff)
  obtain c' A' ns' lf' where i: "\<forall>n. ofold (\<lambda>c e. map_option snd (rawSet (Suc (Suc n)) c t (fst e) (snd e))) (c\<lparr>c_a := a1\<rparr>) al = Some c'"
    "table_ok (c_a c') G S H t nh r q A' ns' lf'" "ready ns' lf'" "length A' = length A1" "length ns' = length ns1"
    "fst ` entries ns' \<subseteq> K" "keeps a1 (c_a c') G" "c_gcPendingRef c' = c_gcPendingRef c"
    "\<forall>k'. normal k' \<and> k' \<noteq> VNil \<longrightarrow> tget A' ns' k' = (case map_of al k' of Some v \<Rightarrow> v | None \<Rightarrow> tget A1 ns1 k')"
    using Cons.IH [OF t1 s(3) Cons.prems(3) s(6) al d(1)] by auto
  have "\<forall>k'. normal k' \<and> k' \<noteq> VNil \<longrightarrow> tget A' ns' k' = (case map_of (e # al) k' of Some v \<Rightarrow> v | None \<Rightarrow> tget A ns k')"
    using i(9) s(8) d(2) by (cases e) (auto split: option.splits)
  moreover have "\<forall>n. ofold (\<lambda>c e. map_option snd (rawSet (Suc (Suc n)) c t (fst e) (snd e))) c (e # al) = Some c'"
    unfolding ofold.simps s(1) [rule_format] using i(1) by simp
  moreover have "keeps (c_a c) (c_a c') G" by (rule keeps_trans [OF s(7) i(7)])
  ultimately show ?case using i(2,3,6,8) i(4,5) [unfolded s(4,5)] by blast
qed

section \<open>An empty table\<close>

lemma empty_nodes:
  assumes "j < n"
  shows "nkey (replicate n (VNil, VNil, - 1)) j = VNil" "nval (replicate n (VNil, VNil, - 1)) j = VNil"
    "nnext (replicate n (VNil, VNil, - 1)) j = - 1"
  using assms by (simp_all add: nkey_def nval_def nnext_def)

lemma empty_table:
  assumes "n = 0 \<or> (\<exists>e. n = 2 ^ e)" "unat lf = n"
  defines "ns \<equiv> replicate n (VNil, VNil, - 1)"
  shows "shape_ok S H asz ns lf" "ready ns lf" "fst ` entries ns = {}" "normal k \<Longrightarrow> tget (replicate m VNil) ns k = VNil"
proof -
  note en = empty_nodes [of _ n, folded ns_def]
  have len: "length ns = n" by (simp add: ns_def)
  have nl: "\<not> link n (nnext ns) p p'" for p p' using en(3) by (auto simp: link_def)
  have "links_ok n (nnext ns) (unat lf)" unfolding links_ok_def using nl by blast
  moreover have "keys_ok n (mainpos H n) VNil (nkey ns) (nnext ns)" unfolding keys_ok_def using en(1) by blast
  moreover have "ns = [] \<or> (\<exists>e. length ns = 2 ^ e)" using assms(1) len by auto
  ultimately show "shape_ok S H asz ns lf" using en(1) unfolding shape_ok_def chains_ok_def len by blast
  show "ready ns lf" using en assms(2) by (auto simp: ready_def vacant_def packed_def len)
  show "fst ` entries ns = {}" using en(1) by (simp add: entries_def len)
  have "hget ns k = VNil" for k by (auto simp: hget_def ns_def find_Some_iff split: option.splits)
  moreover have "replicate m VNil ! unat i = VNil" if "arrayIndex k (word_of_nat m) = Some i" for i
    using arrayIndex_key(2) [OF that] by (simp add: unat_of_nat)
  ultimately show "tget (replicate m VNil) ns k = VNil" by (auto simp: tget_def split: option.splits)
qed

section \<open>The rehash\<close>

text \<open>The rehash for a new key does not find the room: its parts are those of the sizes computed from the live pairs
  of the table and the key.\<close>

definition rehash_refused :: "collector \<Rightarrow> gcref \<Rightarrow> lvalue \<Rightarrow> bool" where
  "rehash_refused c t k \<longleftrightarrow> (\<exists>asize hsize al h.
     TableASize (c_a c) t = Some asize \<and> TableHSize (c_a c) t = Some hsize \<and>
     live_pairs (c_a c) t asize hsize = Some al \<and> new_hsize (hash_count al k (best_asize al k)) = Some h \<and>
     parts_refused c (best_asize al k) h)"

lemma table_rehash_ok:
  assumes "table_ok (c_a c) G S H t nh r q A ns lf" "pending_in c (G - S)" "keyable S k" "normal k" "tget A ns k = VNil"
  shows "((\<forall>m. rehash (Suc (Suc (Suc m))) c t k = None) \<and> rehash_refused c t k) \<or>
    (\<exists>c' r' q' A' ns' lf' K. (\<forall>m. rehash (Suc (Suc (Suc m))) c t k = Some c') \<and>
       table_ok (c_a c') G S H t nh r' q' A' ns' lf' \<and> ready ns' lf' \<and> finite K \<and> fst ` entries ns' \<subseteq> K \<and>
       (arrayIndex k (word_of_nat (length A')) = None \<longrightarrow> k \<in> K \<and> card K < length ns') \<and>
       keeps (c_a c) (c_a c') S \<and> pending_in c' (G - S) \<and>
       (\<forall>k'. normal k' \<and> k' \<noteq> VNil \<longrightarrow> tget A' ns' k' = tget A ns k'))"
proof -
  note tk = table_okD [OF assms(1)]
  have A28: "length A < 2 ^ 28" by (rule tab_arena(3) [OF tk(1)])
  define al where "al = live_of A ns"
  have len: "length al < 2 ^ 29"
    using live_length [of A ns] A28 tab_arena(2) [OF tk(1)] by (simp add: al_def)
  define b where "b = best_asize al k"
  have b28: "unat b < 2 ^ 28" using best_asize_le [of al k] by (simp add: b_def)
  have bu: "(word_of_nat (unat b) :: u32) = b" by simp
  define K where "K = set (hash_keys b al k)"
  have hc: "unat (hash_count al k b) = length (hash_keys b al k)" by (rule hash_count_ok [OF len])
  have hk: "length (hash_keys b al k) \<le> length al + 1"
    using length_filter_le [of "\<lambda>k. \<not> in_array b k" "k # map fst al"] by (simp add: hash_keys_def)
  have "unat (hash_count al k b) < 2 ^ 30"
    by (rule le_less_trans [of _ "length al + 1"]) (use hc hk in linarith, use len in simp)
  from new_hsize_ok [OF this] obtain h where h: "new_hsize (hash_count al k b) = Some h"
    "if hash_count al k b = 0 then h = 0 else \<exists>e\<le>30. unat h = 2 ^ e \<and> unat (hash_count al k b) + 1 \<le> 2 ^ e" by blast
  have hz: "hash_count al k b = 0 \<longleftrightarrow> hash_keys b al k = []" using hc by (simp add: unat_eq_zero [symmetric])
  have h2: "unat h = 0 \<or> (\<exists>e. unat h = 2 ^ e)" using h(2) by (auto split: if_splits)
  have h30: "unat h \<le> 2 ^ 30"
  proof (cases "hash_count al k b = 0")
    case False
    then obtain e where "e \<le> 30" "unat h = 2 ^ e" using h(2) by auto
    then show ?thesis using power_increasing [of e 30 "2 :: nat"] by simp
  qed (use h(2) in simp)
  have cK: "card K \<le> length (hash_keys b al k)" unfolding K_def by (rule card_length)
  have room: "card K < unat h" if "K \<noteq> {}"
  proof -
    have "hash_count al k b \<noteq> 0" using that hz by (auto simp: K_def)
    then show ?thesis using h(2) cK hc by auto
  qed
  have inK: "k' \<in> K \<and> card K < unat h" if "k' = k \<or> k' \<in> fst ` set al" "normal k'" "arrayIndex k' b = None" for k'
  proof -
    have "k' \<in> K" using that by (auto simp: K_def hash_keys_def in_array_def normal_def)
    then show ?thesis using room by blast
  qed
  have run: "rehash (Suc (Suc (Suc m))) c t k = do {
      c \<leftarrow> swap_parts c t (word_of_nat (length A)) (word_of_nat (length ns)) b h;
      ofold (\<lambda>c e. map_option snd (rawSet (Suc (Suc m)) c t (fst e) (snd e))) c al }" for m
    unfolding rehash.simps(2) tab_sizes(1,2) [OF tk(1)] bind.bind_lunit live_pairs_ok [OF tk(1)] Let_def
      al_def [symmetric] b_def [symmetric] h(1) ..
  have h31: "unat h \<le> 2 ^ 30" by (rule h30)
  from swap_parts_ok [OF tk(1) assms(2) tk(4) b28 h31] show ?thesis
  proof (elim disjE conjE exE)
    assume n: "swap_parts c t (word_of_nat (length A)) (word_of_nat (length ns)) b h = None" "grow_parts c b h = None"
    then have "\<forall>m. rehash (Suc (Suc (Suc m))) c t k = None" unfolding run by simp
    moreover have "rehash_refused c t k"
      unfolding rehash_refused_def
      by (rule exI [of _ "word_of_nat (length A)"], rule exI [of _ "word_of_nat (length ns)"], rule exI [of _ al], rule exI [of _ h])
        (use tab_sizes(1,2) [OF tk(1)] live_pairs_ok [OF tk(1)] h(1) grow_parts_refused [OF tk(1) assms(2) tk(4) h30 n(2)]
          in \<open>simp add: al_def b_def\<close>)
    ultimately show ?thesis by blast
  next
    fix c1 r' q'
    let ?A = "replicate (unat b) VNil" and ?ns = "replicate (unat h) (VNil, VNil, - 1 :: int)"
    assume s: "swap_parts c t (word_of_nat (length A)) (word_of_nat (length ns)) b h = Some c1"
      "tab (c_a c1) G t nh r' q' ?A ?ns h" "keeps (c_a c) (c_a c1) S" "pending_in c1 (G - S)"
    note et = empty_table [OF h2 refl]
    have "hashes (c_a c1) S H" by (rule hashes_tab [OF tk(2) s(3) tk(4,4,1) s(2)])
    then have t1: "table_ok (c_a c1) G S H t nh r' q' ?A ?ns h" using s(2) et(1) tk(4) by (simp add: table_ok_def)
    have prem: "\<forall>e\<in>set al. keyable S (fst e) \<and> normal (fst e) \<and> snd e \<noteq> VNil \<and>
       (arrayIndex (fst e) (word_of_nat (length ?A)) = None \<longrightarrow> fst e \<in> K \<and> card K < length ?ns)"
    proof
      fix e assume e: "e \<in> set al"
      then have kn: "keyable S (fst e)" "normal (fst e)" using live_keys [OF tk(3) A28] by (simp_all add: al_def)
      moreover have "snd e \<noteq> VNil" using e live_iff [OF tk(3) A28, of "fst e" "snd e"] by (simp add: al_def)
      moreover have "arrayIndex (fst e) b = None \<Longrightarrow> fst e \<in> K \<and> card K < unat h" using inK [OF _ kn(2)] e by auto
      ultimately show "keyable S (fst e) \<and> normal (fst e) \<and> snd e \<noteq> VNil \<and>
        (arrayIndex (fst e) (word_of_nat (length ?A)) = None \<longrightarrow> fst e \<in> K \<and> card K < length ?ns)"
        by simp
    qed
    have fin: "finite K" by (simp add: K_def)
    have sub: "fst ` entries ?ns \<subseteq> K" using et(3) by simp
    have dis: "distinct (map fst al)" unfolding al_def by (rule live_distinct [OF tk(3) A28])
    obtain c2 A2 ns2 lf2 where i: "\<forall>m. ofold (\<lambda>c e. map_option snd (rawSet (Suc (Suc m)) c t (fst e) (snd e))) c1 al = Some c2"
      "table_ok (c_a c2) G S H t nh r' q' A2 ns2 lf2" "ready ns2 lf2" "length A2 = length ?A" "length ns2 = length ?ns"
      "fst ` entries ns2 \<subseteq> K" "keeps (c_a c1) (c_a c2) G" "c_gcPendingRef c2 = c_gcPendingRef c1"
      "\<forall>k'. normal k' \<and> k' \<noteq> VNil \<longrightarrow> tget A2 ns2 k' = (case map_of al k' of Some v \<Rightarrow> v | None \<Rightarrow> tget ?A ?ns k')"
      using reinsert_ok [OF t1 et(2) fin sub prem dis] by (elim exE conjE) (rule that)
    have same: "tget A2 ns2 k' = tget A ns k'" if k': "normal k'" "k' \<noteq> VNil" for k'
    proof (cases "map_of al k'")
      case None
      then have "\<forall>v. (k', v) \<notin> set al" unfolding map_of_eq_None_iff by force
      then have "tget A ns k' = VNil" using live_iff [OF tk(3) A28, of k' "tget A ns k'"] k'(2) by (auto simp: al_def)
      then show ?thesis using i(9) k' None et(4) [OF k'(1)] by simp
    next
      case (Some v)
      then have "(k', v) \<in> set al" by (rule map_of_SomeD)
      then have "tget A ns k' = v" using live_iff [OF tk(3) A28] by (simp add: al_def)
      then show ?thesis using i(9) k' Some by simp
    qed
    have "\<forall>m. rehash (Suc (Suc (Suc m))) c t k = Some c2" unfolding run s(1) using i(1) by simp
    moreover have "arrayIndex k (word_of_nat (length A2)) = None \<longrightarrow> k \<in> K \<and> card K < length ns2"
      using inK [OF _ assms(4)] i(4,5) by simp
    moreover have "keeps (c_a c) (c_a c2) S" by (rule keeps_trans [OF s(3) keeps_mono [OF i(7) tk(4)]])
    moreover have "pending_in c2 (G - S)" using s(4) i(8) by (simp add: pending_in_def)
    moreover have "\<forall>k'. normal k' \<and> k' \<noteq> VNil \<longrightarrow> tget A2 ns2 k' = tget A ns k'" using same by blast
    ultimately show ?thesis using i(2,3,6) fin
      by (intro disjI2 exI [of _ c2] exI [of _ r'] exI [of _ q'] exI [of _ A2] exI [of _ ns2] exI [of _ lf2] exI [of _ K] conjI)
  qed
qed

section \<open>Assignment\<close>

lemma rawSet_ok:
  assumes "table_ok (c_a c) G S H t nh r q A ns lf" "pending_in c (G - S)" "string_key_ok S k"
  shows "case checkKey k of
      Some e \<Rightarrow> (\<forall>n. rawSet (n + 5) c t k v = Some (Some e, c))
    | None \<Rightarrow> ((\<forall>n. rawSet (n + 5) c t k v = None) \<and> v \<noteq> VNil \<and> tget A ns (normKey k) = VNil \<and> rehash_refused c t (normKey k)) \<or>
        (\<exists>c' r' q' A' ns' lf'. (\<forall>n. rawSet (n + 5) c t k v = Some (None, c')) \<and>
           table_ok (c_a c') G S H t nh r' q' A' ns' lf' \<and> keeps (c_a c) (c_a c') S \<and> pending_in c' (G - S) \<and>
           (\<forall>k'. normal k' \<and> k' \<noteq> VNil \<longrightarrow> tget A' ns' k' = (if k' = normKey k then v else tget A ns k')))"
proof (cases "checkKey k")
  case (Some e)
  have "n + 5 = Suc (n + 4)" for n by simp
  then show ?thesis using Some by (simp only: rawSet.simps option.case) simp
next
  case None
  then have ky: "keyable S k" using assms(3) by (simp add: keyable_def)
  note tk = table_okD [OF assms(1)]
  have n5: "n + 5 = Suc (Suc (Suc (Suc (Suc n))))" for n by simp
  have goal: ?thesis if g: "\<forall>n. rawSet (n + 5) c t k v = Some (None, c')" "table_ok (c_a c') G S H t nh r' q' A' ns' lf'"
      "keeps (c_a c) (c_a c') S" "pending_in c' (G - S)"
      "\<forall>k'. normal k' \<and> k' \<noteq> VNil \<longrightarrow> tget A' ns' k' = (if k' = normKey k then v else tget A ns k')"
    for c' r' q' A' ns' lf' unfolding None option.case using g by blast
  from assms(1) ky show ?thesis
  proof (cases rule: rawSet_cases [where v = v])
    case (direct a')
    from direct(2) [unfolded sets_def] obtain A' ns' lf' where "table_ok a' G S H t nh r q A' ns' lf'"
      "keeps (c_a c) a' G"
      "\<forall>k'. normal k' \<and> k' \<noteq> VNil \<longrightarrow> tget A' ns' k' = (if k' = normKey k then v else tget A ns k')" by blast
    moreover have "pending_in (c\<lparr>c_a := a'\<rparr>) (G - S)" using assms(2) by (simp add: pending_in_def)
    ultimately show ?thesis using direct(1) keeps_mono [OF _ tk(4)]
      by (intro goal [of "c\<lparr>c_a := a'\<rparr>"]) (simp_all add: n5)
  next
    case regrow
    let ?k = "normKey k"
    have kk: "keyable S ?k" "normal ?k" "normKey ?k = ?k" using keyable_normKey [OF ky] by (simp_all add: normal_def [symmetric])
    have "tget A ns ?k = VNil" using regrow(3,4) find_no_key [of ns ?k] by (simp add: tget_def hget_def)
    note absent = this
    from table_rehash_ok [OF assms(1,2) kk(1,2) absent] show ?thesis
    proof (elim disjE conjE exE)
      assume f: "\<forall>m. rehash (Suc (Suc (Suc m))) c t ?k = None" "rehash_refused c t ?k"
      have "\<forall>n. rawSet (n + 5) c t k v = None" by (simp only: n5 regrow(1) f(1) bind.bind_lzero) simp
      then show ?thesis using None regrow(2) absent f(2) by (simp only: option.case) blast
    next
      fix c1 r' q' A' ns' lf' K
      assume s: "\<forall>m. rehash (Suc (Suc (Suc m))) c t ?k = Some c1" "table_ok (c_a c1) G S H t nh r' q' A' ns' lf'"
        "ready ns' lf'" "finite K" "fst ` entries ns' \<subseteq> K"
        "arrayIndex ?k (word_of_nat (length A')) = None \<longrightarrow> ?k \<in> K \<and> card K < length ns'"
        "keeps (c_a c) (c_a c1) S" "pending_in c1 (G - S)"
        "\<forall>k'. normal k' \<and> k' \<noteq> VNil \<longrightarrow> tget A' ns' k' = tget A ns k'"
      obtain a2 A2 ns2 lf2 where i: "\<forall>n. rawSet (Suc (Suc n)) c1 t ?k v = Some (None, c1\<lparr>c_a := a2\<rparr>)"
        "table_ok a2 G S H t nh r' q' A2 ns2 lf2" "keeps (c_a c1) a2 G"
        "\<forall>k'. normal k' \<and> k' \<noteq> VNil \<longrightarrow> tget A2 ns2 k' = (if k' = ?k then v else tget A' ns' k')"
        using insert_room [OF s(2) kk(1,2) regrow(2) s(3-5)] s(6) by blast
      have "\<forall>n. rawSet (n + 5) c t k v = Some (None, c1\<lparr>c_a := a2\<rparr>)" using regrow(1) s(1) i(1) by (simp only: n5 bind.bind_lunit) simp
      moreover have "keeps (c_a c) a2 S" by (rule keeps_trans [OF s(7) keeps_mono [OF i(3) tk(4)]])
      moreover have "pending_in (c1\<lparr>c_a := a2\<rparr>) (G - S)" using s(8) by (simp add: pending_in_def)
      moreover have "\<forall>k'. normal k' \<and> k' \<noteq> VNil \<longrightarrow> tget A2 ns2 k' = (if k' = ?k then v else tget A ns k')"
        using i(4) s(9) by simp
      ultimately show ?thesis using i(2) by (intro goal [of "c1\<lparr>c_a := a2\<rparr>"]) simp_all
    qed
  qed
qed

end
