(* ===== verification/TableNew.thy ===== *)
theory TableNew
  imports TableRehash
begin

text \<open>
  A new table is well formed and empty; reading after an assignment; and the properties applied to a
  concrete table in a small arena.
\<close>

section \<open>Powers of two\<close>

lemma nat_pow2: "0 < n \<Longrightarrow> n AND (n - 1) = 0 \<Longrightarrow> \<exists>e. n = (2 :: nat) ^ e"
proof (induction n rule: less_induct)
  case (less n)
  show ?case
  proof (cases "even n")
    case True
    then obtain m where m: "n = 2 * m" by blast
    then have "0 < m" "m < n" using less.prems(1) by simp_all
    have "(n - 1) div 2 = m - 1" "odd (n - 1)" using m \<open>0 < m\<close> by simp_all
    then have "n AND (n - 1) = 2 * (m AND (m - 1))" using m by (subst and_rec) simp
    then have "m AND (m - 1) = 0" using less.prems(2) by simp
    from less.IH [OF \<open>m < n\<close> \<open>0 < m\<close> this] obtain e where "m = 2 ^ e" by blast
    then show ?thesis using m by (intro exI [of _ "Suc e"]) simp
  next
    case False
    then obtain m where m: "n = 2 * m + 1" by (metis oddE)
    have "n AND (n - 1) = 2 * (m AND m)" using m by (subst and_rec) simp
    then have "m = 0" using less.prems(2) by simp
    then show ?thesis using m by (intro exI [of _ 0]) simp
  qed
qed

lemma word_pow2:
  assumes "(h :: u32) \<noteq> 0" "h AND (h - 1) = 0"
  shows "\<exists>e. unat h = 2 ^ e"
proof (rule nat_pow2)
  show "0 < unat h" using assms(1) by (simp add: unat_eq_zero [symmetric] del: unat_eq_zero)
  have "1 \<le> h" using assms(1) by (metis word_gt_0 word_less_1 not_le)
  then have "unat (h - 1) = unat h - 1" by (simp add: unat_sub)
  moreover have "unat (h AND (h - 1)) = unat h AND unat (h - 1)" by (rule unsigned_and_eq)
  ultimately show "unat h AND (unat h - 1) = 0" using assms(2) by simp
qed

section \<open>A new table\<close>

definition new_part :: "(arena \<Rightarrow> u32 \<Rightarrow> (gcref \<times> arena) option) \<Rightarrow> arena \<Rightarrow> u32 \<Rightarrow> (gcref \<times> arena) option" where
  "new_part alloc a n = (if 0 < n then alloc a n else Some (0, a))"

lemma AllocTable_parts:
  "AllocTable a n h =
     (if h \<noteq> 0 \<and> h AND (h - 1) \<noteq> 0 then None
      else do {
        (t, a) \<leftarrow> allocateRaw a OBJ_TABLE tableHeadWords 0;
        (r, a) \<leftarrow> new_part AllocTableArray a n;
        (q, a) \<leftarrow> new_part AllocTableNode a h;
        a \<leftarrow> setWordAt a t tableSizesIdx (ucast n OR push_bit 32 (ucast (if 0 < h then h - 1 else 0)));
        a \<leftarrow> setWordAt a t tableArrayIdx r;
        a \<leftarrow> setWordAt a t tableNodeIdx q;
        a \<leftarrow> setWordAt a t tableMetaIdx 0;
        a \<leftarrow> setWordAt a t tableLastFreeGen 0;
        Some (t, a) })"
  by (simp add: AllocTable_def new_part_def AllocTableArray_def AllocTableNode_def Let_def cong: if_cong)

lemma new_part_ok:
  assumes "new_part alloc a n = Some (r, a')" "arena_inv a L"
    and "\<forall>a'. alloc a n = Some (r, a') \<longrightarrow> made a L a' r bytes \<and> P (a_words a')"
  shows "arena_inv a' (part_blocks r n bytes \<union> L)" "part_blocks r n bytes \<inter> L = {}" "keeps a a' L"
    "n \<noteq> 0 \<Longrightarrow> aligned r \<and> P (a_words a')" "n = 0 \<Longrightarrow> r = 0"
proof -
  have "arena_inv a' (part_blocks r n bytes \<union> L) \<and> part_blocks r n bytes \<inter> L = {} \<and> keeps a a' L \<and>
    (n \<noteq> 0 \<longrightarrow> aligned r \<and> P (a_words a')) \<and> (n = 0 \<longrightarrow> r = 0)"
    using assms by (cases "n = 0") (auto simp: new_part_def part_blocks_def made_def word_gt_0)
  then show "arena_inv a' (part_blocks r n bytes \<union> L)" "part_blocks r n bytes \<inter> L = {}" "keeps a a' L"
    "n \<noteq> 0 \<Longrightarrow> aligned r \<and> P (a_words a')" "n = 0 \<Longrightarrow> r = 0" by blast+
qed

lemma AllocTable_tab:
  assumes "arena_inv a G" "AllocTable a n h = Some (t, a')" "unat h \<le> 2 ^ 30"
  defines "A \<equiv> replicate (unat n) VNil" and "ns \<equiv> replicate (unat h) (VNil, VNil, - 1)"
  shows "\<exists>nh r q. tab a' G t nh r q A ns 0 \<and> keeps a a' G \<and> (unat h = 0 \<or> (\<exists>e. unat h = 2 ^ e))"
proof -
  from assms(2) obtain a1 r a2 q a3 where s: "\<not> (h \<noteq> 0 \<and> h AND (h - 1) \<noteq> 0)"
    "allocateRaw a OBJ_TABLE 6 0 = Some (t, a1)" "new_part AllocTableArray a1 n = Some (r, a2)"
    "new_part AllocTableNode a2 h = Some (q, a3)"
    "do { a \<leftarrow> setWordAt a3 t 1 (ucast n OR push_bit 32 (ucast (if 0 < h then h - 1 else 0)));
          a \<leftarrow> setWordAt a t 2 r; a \<leftarrow> setWordAt a t 3 q; a \<leftarrow> setWordAt a t 4 0; a \<leftarrow> setWordAt a t 5 0;
          Some (t, a) } = Some (t, a')"
    unfolding AllocTable_parts table_idx_defs tableHeadWords_def
    by (auto simp: bind_eq_Some_conv split: if_splits)
  note m = allocateRaw_made [OF assms(1) s(2)]
  let ?h = "(idx t, block_words (6 * 8))"
  have i1: "arena_inv a1 (insert ?h G)" "keeps a a1 G" "?h \<notin> G" "aligned t" "6 \<le> block_words (6 * 8)"
    using m(1,2) by (simp_all add: made_def)
  let ?B1 = "part_blocks r n (n * 8)" and ?B2 = "part_blocks q h (h * 3 * 8)"
  let ?P = "\<lambda>ws. unat n \<le> block_words (n * 8) \<and> (\<forall>i<unat n. ws ! (idx r + i) = VNil)"
  let ?Q = "\<lambda>ws. 3 * unat h \<le> block_words (h * 3 * 8) \<and> (\<forall>j<unat h. node_at ws (idx q + 3 * j) (VNil, VNil, - 1))"
  have law1: "\<forall>a'. AllocTableArray a1 n = Some (r, a') \<longrightarrow> made a1 (insert ?h G) a' r (n * 8) \<and> ?P (a_words a')"
    by (intro allI impI conjI AllocTableArray_made [OF i1(1)])
  note p1 = new_part_ok [OF s(3) i1(1) law1]
  have law2: "\<forall>a'. AllocTableNode a2 h = Some (q, a') \<longrightarrow>
      made a2 (?B1 \<union> insert ?h G) a' q (h * 3 * 8) \<and> ?Q (a_words a')"
    by (intro allI impI conjI AllocTableNode_made [OF p1(1) _ assms(3)])
  note p2 = new_part_ok [OF s(4) p1(1) law2]
  have B: "?B1 = arr_blocks r A" "?B2 = node_blocks q ns"
    by (simp_all add: part_blocks_def arr_blocks_def node_blocks_def A_def ns_def arr_words_def node_words_def unat_eq_zero)
  have l: "lay a3 G t (block_words (6 * 8)) r q A ns"
  proof -
    have "arena_inv a3 (insert ?h (arr_blocks r A \<union> node_blocks q ns \<union> G))"
      using p2(1) unfolding B by (simp add: Un_ac insert_commute)
    moreover have "part_ok r (length A) (arr_words A)" "part_ok q (3 * length ns) (node_words ns)"
      using p1(4,5) p2(4,5) by (auto simp: part_ok_def A_def ns_def arr_words_def node_words_def unat_eq_zero)
    moreover have "arr_blocks r A \<inter> (node_blocks q ns \<union> G) = {}" "node_blocks q ns \<inter> G = {}"
      "?h \<notin> arr_blocks r A \<union> node_blocks q ns \<union> G"
      using p1(2) p2(2) i1(3) unfolding B by auto
    ultimately show ?thesis using i1(4,5) by (simp add: lay_def)
  qed
  have nd: "nodes_at (a_words a3) q ns" using p2(4) by (cases "h = 0") (simp_all add: nodes_at_def ns_def)
  have ar: "arr_at (a_words a3) r A"
  proof (cases "n = 0")
    case False
    have "(idx r, block_words (n * 8)) \<in> ?B1 \<union> insert ?h G" using False by (simp add: part_blocks_def)
    then have "a_words a3 ! (idx r + k) = a_words a2 ! (idx r + k)" if "k < unat n" for k
      using keepsD [OF p2(3)] p1(4) [OF False] that by (meson less_le_trans)
    then show ?thesis using p1(4) [OF False] by (simp add: arr_at_def A_def)
  qed (simp add: arr_at_def A_def)
  note bt = lay_blocks(1) [OF l] and ap = lay_apart [OF l] and le = lay_lengths [OF l]
  have len: "idx t + 6 \<le> length (a_words a3)" using bt by (simp add: blk_def)
  let ?y = "ucast n OR push_bit 32 (ucast (if 0 < h then h - 1 else 0)) :: u64"
  let ?ws = "(a_words a3)[idx t + 1 := ?y, idx t + 2 := r, idx t + 3 := q, idx t + 4 := 0, idx t + 5 := 0]"
  have sw: "setWordAt (a3\<lparr>a_words := ws\<rparr>) t i v = Some (a3\<lparr>a_words := ws[idx t + unat i := v]\<rparr>)"
    if "length ws = length (a_words a3)" "unat i < 6" for ws i v
    using setWordAt_blk [of "a3\<lparr>a_words := ws\<rparr>" t 6 i v] bt that by simp
  have "setWordAt a3 t 1 ?y = Some (a3\<lparr>a_words := (a_words a3)[idx t + 1 := ?y]\<rparr>)"
    using setWordAt_blk [OF bt, of 1 ?y] by simp
  then have a': "a' = a3\<lparr>a_words := ?ws\<rparr>" using s(5) by (simp add: sw)
  have out: "?ws ! j = a_words a3 ! j" if "\<not> (idx t \<le> j \<and> j < idx t + 6)" for j
    using that by (auto simp: nth_list_update)
  have lw: "lay a' G t (block_words (6 * 8)) r q A ns \<and> keeps a3 a' G"
    unfolding a' by (intro lay_write [OF l, of _ "idx t" "block_words (6 * 8)"]) (use out i1(5) in auto)
  have h28: "unat h < 2 ^ 28" using le(2) by (simp add: ns_def)
  have "head_at ?ws t r q (length A) (length ns) 0"
  proof -
    have u: "(word_of_nat (unat h) :: u32) = h" by simp
    have "(if 0 < h then h - 1 else 0) = (word_of_nat (length ns - 1) :: u32)"
      using hmask_nat [OF h28] unfolding ns_def length_replicate u .
    then show ?thesis using len by (simp add: head_at_def A_def cong: if_cong)
  qed
  moreover have "arr_at ?ws r A"
  proof (cases "A = []")
    case False
    show ?thesis by (rule arr_at_outside [OF ar], rule out) (use ap(1) [OF False] in linarith)
  qed (simp add: arr_at_def)
  moreover have "nodes_at ?ws q ns"
  proof (cases "ns = []")
    case False
    show ?thesis by (rule nodes_at_outside [OF nd], rule out) (use ap(2) [OF False] in linarith)
  qed (simp add: nodes_at_def)
  ultimately have "tab a' G t (block_words (6 * 8)) r q A ns 0"
    using lw by (simp add: tab_def a' ns_def)
  moreover have "keeps a a' G"
  proof -
    have "keeps a1 a2 G" "keeps a2 a3 G" using keeps_mono [OF p1(3), of G] keeps_mono [OF p2(3), of G] by blast+
    then show ?thesis using keeps_trans i1(2) lw by blast
  qed
  moreover have "unat h = 0 \<or> (\<exists>e. unat h = 2 ^ e)" using s(1) word_pow2 [of h] by (cases "h = 0") simp_all
  ultimately show ?thesis by blast
qed

section \<open>Tables as maps\<close>

text \<open>A well-formed table of the collector's arena: \<open>G\<close> are the other live blocks and \<open>S\<close> those that must be
  kept, the strings used as keys among them.\<close>

definition lua_table :: "collector \<Rightarrow> (nat \<times> nat) set \<Rightarrow> (nat \<times> nat) set \<Rightarrow> gcref \<Rightarrow> bool" where
  "lua_table c G S t \<longleftrightarrow> pending_in c (G - S) \<and>
     (\<exists>H nh r q A ns lf. table_ok (c_a c) G S H t nh r q A ns lf)"

lemma lua_table_get: "lua_table c G S t \<Longrightarrow> string_key_ok S k \<Longrightarrow> \<exists>v. rawGet (c_a c) t k = Some v"
  unfolding lua_table_def using rawGet_ok by blast

lemma set_cases:
  assumes "lua_table c G S t" "keyable S k"
  obtains (full) "\<And>n. rawSet (n + 5) c t k v = None" "v \<noteq> VNil" "rawGet (c_a c) t k = Some VNil"
        "rehash_refused c t (normKey k)"
    | (stored) c' where "\<And>n. rawSet (n + 5) c t k v = Some (None, c')" "lua_table c' G S t" "keeps (c_a c) (c_a c') S"
        "\<forall>k'. string_key_ok S k' \<longrightarrow> rawGet (c_a c') t k' =
           (if checkKey k' = None \<and> normKey k' = normKey k then Some v else rawGet (c_a c) t k')"
proof -
  have ck: "checkKey k = None" "string_key_ok S k" using assms(2) by (simp_all add: keyable_def)
  obtain H nh r q A ns lf where t: "table_ok (c_a c) G S H t nh r q A ns lf" "pending_in c (G - S)"
    using assms(1) unfolding lua_table_def by blast
  from rawSet_ok [OF t ck(2), of v, unfolded ck(1) option.case] show thesis
  proof (elim disjE conjE exE)
    assume "\<forall>n. rawSet (n + 5) c t k v = None" "v \<noteq> VNil" "tget A ns (normKey k) = VNil" "rehash_refused c t (normKey k)"
    moreover from this have "rawGet (c_a c) t k = Some VNil" using rawGet_ok [OF t(1) ck(2)] ck(1) by simp
    ultimately show thesis using full by blast
  next
    fix c' r' q' A' ns' lf'
    assume s: "\<forall>n. rawSet (n + 5) c t k v = Some (None, c')" "table_ok (c_a c') G S H t nh r' q' A' ns' lf'"
      "keeps (c_a c) (c_a c') S" "pending_in c' (G - S)"
      "\<forall>k'. normal k' \<and> k' \<noteq> VNil \<longrightarrow> tget A' ns' k' = (if k' = normKey k then v else tget A ns k')"
    have "rawGet (c_a c') t k' = (if checkKey k' = None \<and> normKey k' = normKey k then Some v else rawGet (c_a c) t k')"
      if k': "string_key_ok S k'" for k'
    proof (cases "checkKey k' = None")
      case True
      then have "keyable S k'" using k' by (simp add: keyable_def)
      then have "normKey k' \<noteq> VNil" using keyable_not_nil keyable_normKey by blast
      then have "tget A' ns' (normKey k') = (if normKey k' = normKey k then v else tget A ns (normKey k'))"
        using s(5) normal_normKey by blast
      then show ?thesis using rawGet_ok [OF s(2) k'] rawGet_ok [OF t(1) k'] True by simp
    next
      case False
      then show ?thesis using rawGet_ok [OF s(2) k'] rawGet_ok [OF t(1) k'] by auto
    qed
    moreover have "lua_table c' G S t" using s(2,4) unfolding lua_table_def by blast
    ultimately show thesis using stored s(1,3) by blast
  qed
qed

section \<open>An interface of stores\<close>

text \<open>A store promises that a successful \<open>put\<close> keeps it well formed and changes what \<open>get\<close> returns for the keys
  of one class only, and that it refuses a key only when it is full for it.\<close>

locale assoc_store =
  fixes ok :: "'s \<Rightarrow> bool" and valid :: "'k \<Rightarrow> bool" and norm :: "'k \<Rightarrow> 'n"
    and get :: "'s \<Rightarrow> 'k \<Rightarrow> 'v option" and put :: "'s \<Rightarrow> 'k \<Rightarrow> 'v \<Rightarrow> 's option" and full :: "'s \<Rightarrow> 'k \<Rightarrow> bool"
  assumes put_ok: "ok s \<Longrightarrow> valid k \<Longrightarrow> put s k v = Some s' \<Longrightarrow> ok s'"
    and get_put: "ok s \<Longrightarrow> valid k \<Longrightarrow> put s k v = Some s' \<Longrightarrow> valid k' \<Longrightarrow>
      get s' k' = (if norm k' = norm k then Some v else get s k')"
    and put_full: "ok s \<Longrightarrow> valid k \<Longrightarrow> put s k v = None \<Longrightarrow> full s k"
begin

lemma puts_get:
  "ok s \<Longrightarrow> \<forall>e\<in>set kvs. valid (fst e) \<Longrightarrow> ofold (\<lambda>s e. put s (fst e) (snd e)) s kvs = Some s' \<Longrightarrow>
   ok s' \<and> (\<forall>k. valid k \<longrightarrow> get s' k =
     (case map_of (rev (map (\<lambda>e. (norm (fst e), snd e)) kvs)) (norm k) of Some v \<Rightarrow> Some v | None \<Rightarrow> get s k))"
proof (induction kvs arbitrary: s)
  case (Cons e kvs)
  then obtain s1 where s1: "put s (fst e) (snd e) = Some s1" "ofold (\<lambda>s e. put s (fst e) (snd e)) s1 kvs = Some s'"
    by (auto simp: bind_eq_Some_conv)
  have v: "valid (fst e)" "\<forall>e\<in>set kvs. valid (fst e)" using Cons.prems(2) by simp_all
  note i = Cons.IH [OF put_ok [OF Cons.prems(1) v(1) s1(1)] v(2) s1(2)]
  have "get s' k = (case map_of (rev (map (\<lambda>e. (norm (fst e), snd e)) (e # kvs))) (norm k) of Some v \<Rightarrow> Some v | None \<Rightarrow> get s k)"
    if "valid k" for k
    using i that get_put [OF Cons.prems(1) v(1) s1(1) that] by (auto simp: map_add_def split: option.splits)
  then show ?case using i by blast
qed simp

text \<open>A run of assignments that stops does so at the first key for which the store is full.\<close>

lemma puts_stop:
  "ok s \<Longrightarrow> \<forall>e\<in>set kvs. valid (fst e) \<Longrightarrow> ofold (\<lambda>s e. put s (fst e) (snd e)) s kvs = None \<Longrightarrow>
   \<exists>before k v rest s'. kvs = before @ (k, v) # rest \<and> ofold (\<lambda>s e. put s (fst e) (snd e)) s before = Some s' \<and> full s' k"
proof (induction kvs arbitrary: s)
  case (Cons e kvs)
  have v: "valid (fst e)" "\<forall>e\<in>set kvs. valid (fst e)" using Cons.prems(2) by simp_all
  show ?case
  proof (cases "put s (fst e) (snd e)")
    case None
    then show ?thesis using put_full [OF Cons.prems(1) v(1) None]
      by (intro exI [of _ "[]"] exI [of _ "fst e"] exI [of _ "snd e"] exI [of _ kvs] exI [of _ s]) simp
  next
    case (Some s1)
    with Cons.prems(3) have "ofold (\<lambda>s e. put s (fst e) (snd e)) s1 kvs = None" by simp
    from Cons.IH [OF put_ok [OF Cons.prems(1) v(1) Some] v(2) this] obtain before k v' rest s' where
      "kvs = before @ (k, v') # rest" "ofold (\<lambda>s e. put s (fst e) (snd e)) s1 before = Some s'" "full s' k" by blast
    then show ?thesis using Some by (intro exI [of _ "e # before"] exI [of _ k] exI [of _ v'] exI [of _ rest] exI [of _ s']) simp
  qed
qed simp

end

definition tput :: "gcref \<Rightarrow> collector \<Rightarrow> lvalue \<Rightarrow> lvalue \<Rightarrow> collector option" where
  "tput t c k v = map_option snd (rawSet 5 c t k v)"

interpretation table: assoc_store "\<lambda>c. lua_table c G S t" "keyable S" normKey "\<lambda>c. rawGet (c_a c) t" "tput t"
  "\<lambda>c k. rawGet (c_a c) t k = Some VNil \<and> rehash_refused c t (normKey k)" for G S t
proof unfold_locales
  fix c k v assume t: "lua_table c G S t" and k: "keyable S k" and p: "tput t c k v = None"
  from t k show "rawGet (c_a c) t k = Some VNil \<and> rehash_refused c t (normKey k)"
  proof (cases rule: set_cases [where v = v])
    case (stored c')
    from stored(1) [of 0] p show ?thesis by (simp add: tput_def)
  qed simp
next
  fix c k v c' assume t: "lua_table c G S t" and k: "keyable S k" and p: "tput t c k v = Some c'"
  have z: "0 + 5 = (5 :: nat)" by simp
  from t k have r: "lua_table c' G S t \<and> (\<forall>k'. string_key_ok S k' \<longrightarrow> rawGet (c_a c') t k' =
           (if checkKey k' = None \<and> normKey k' = normKey k then Some v else rawGet (c_a c) t k'))"
  proof (cases rule: set_cases [where v = v])
    case full
    from full(1) [of 0] p show ?thesis by (simp add: tput_def)
  next
    case (stored c2)
    from stored(1) [of 0] p have "c2 = c'" by (simp add: tput_def)
    then show ?thesis using stored(2,4) by blast
  qed
  then show "lua_table c' G S t" by blast
  fix k' assume "keyable S k'"
  then show "rawGet (c_a c') t k' = (if normKey k' = normKey k then Some v else rawGet (c_a c) t k')"
    using r by (simp add: keyable_def)
qed

text \<open>A new table is a well-formed, empty one.\<close>

lemma new_table_ok:
  assumes "arena_inv (c_a c) G" "pending_in c (G - S)" "S \<subseteq> G" "AllocTable (c_a c) n h = Some (t, a')" "unat h \<le> 2 ^ 30"
  shows "lua_table (c\<lparr>c_a := a'\<rparr>) G S t" "string_key_ok S k \<Longrightarrow> rawGet a' t k = Some VNil"
proof -
  let ?A = "replicate (unat n) VNil" and ?ns = "replicate (unat h) (VNil, VNil, - 1 :: int)"
  from AllocTable_tab [OF assms(1,4,5)] obtain nh r q where t: "tab a' G t nh r q ?A ?ns 0" "keeps (c_a c) a' G"
    "unat h = 0 \<or> (\<exists>e. unat h = 2 ^ e)" by blast
  obtain L where L: "arena_inv a' L" "S \<subseteq> L" using tab_arena(1) [OF t(1)] assms(3) by blast
  let ?H = "\<lambda>k. the (hashValue a' k)"
  have "shape_ok S ?H (length ?A) ?ns 0"
  proof -
    have nl: "\<not> link (unat h) (nnext ?ns) p p'" for p p' using empty_nodes(3) by (auto simp: link_def)
    have "links_ok (unat h) (nnext ?ns) 0" unfolding links_ok_def using nl by blast
    moreover have "keys_ok (unat h) (mainpos ?H (unat h)) VNil (nkey ?ns) (nnext ?ns)"
      unfolding keys_ok_def using empty_nodes(1) by blast
    moreover have "?ns = [] \<or> (\<exists>e. length ?ns = 2 ^ e)" using t(3) by auto
    ultimately show ?thesis using empty_nodes(1) by (simp add: shape_ok_def chains_ok_def)
  qed
  then have ok: "table_ok a' G S ?H t nh r q ?A ?ns 0"
    using t(1) hashes_ex [OF L] assms(3) by (simp add: table_ok_def)
  then have "\<exists>H nh r q A ns lf. table_ok a' G S H t nh r q A ns lf" by blast
  then show "lua_table (c\<lparr>c_a := a'\<rparr>) G S t" using assms(2) by (simp add: lua_table_def pending_in_def)
  show "rawGet a' t k = Some VNil" if "string_key_ok S k"
    using rawGet_ok [OF ok that] empty_table(4) [OF t(3) refl normal_normKey] by simp
qed

section \<open>Properties\<close>

text \<open>C7. A new table: \<open>AllocTable\<close> panics unless the node count is zero or a power of two; when it returns,
  the table is well formed, every key reads as nil, and every other live block is as before.\<close>

theorem AllocTable_spec:
  assumes "arena_inv (c_a c) G" "pending_in c (G - S)" "S \<subseteq> G" "AllocTable (c_a c) n h = Some (t, a')" "unat h \<le> 2 ^ 30"
  shows "(h = 0 \<or> (\<exists>e. unat h = 2 ^ e)) \<and> lua_table (c\<lparr>c_a := a'\<rparr>) G S t \<and> keeps (c_a c) a' G \<and>
    (\<forall>k. string_key_ok S k \<longrightarrow> rawGet a' t k = Some VNil)"
proof -
  have "unat h = 0 \<or> (\<exists>e. unat h = 2 ^ e)" "keeps (c_a c) a' G" using AllocTable_tab [OF assms(1,4,5)] by blast+
  then show ?thesis using new_table_ok [OF assms] by (auto simp: unat_eq_zero)
qed

text \<open>C5. Assignment: on a well-formed table five nested calls of \<open>rawSet\<close> are enough, more change nothing. It rejects
  nil and NaN keys and changes nothing; otherwise it stores: the table stays well formed, \<open>rawGet\<close> then returns the
  value for every key with the same normal form and what it returned before for every other key, rehashed or not, and
  the kept blocks are untouched. It fails only for a value under a key that was absent, when the rehash finds no room:
  when the new array part, or the new node part after it, of the sizes computed from the live pairs and the key, exceeds
  the maximum capacity or what is left of it above the top.\<close>

theorem rawSet_spec:
  assumes "lua_table c G S t" "string_key_ok S k"
  shows "(\<forall>n. rawSet (n + 5) c t k v = rawSet 5 c t k v) \<and>
    (case checkKey k of
      Some e \<Rightarrow> rawSet 5 c t k v = Some (Some e, c)
    | None \<Rightarrow> (case rawSet 5 c t k v of
          None \<Rightarrow> v \<noteq> VNil \<and> rawGet (c_a c) t k = Some VNil \<and> rehash_refused c t (normKey k)
        | Some (e, c') \<Rightarrow> e = None \<and> lua_table c' G S t \<and> keeps (c_a c) (c_a c') S \<and>
           (\<forall>k'. string_key_ok S k' \<longrightarrow> rawGet (c_a c') t k' =
              (if checkKey k' = None \<and> normKey k' = normKey k then Some v else rawGet (c_a c) t k'))))"
proof (cases "checkKey k")
  case (Some e)
  have n5: "Suc (n + 4) = n + 5" for n by simp
  have "rawSet (Suc (n + 4)) c t k v = Some (Some e, c)" for n by (simp only: rawSet.simps Some option.case)
  then have r: "rawSet (n + 5) c t k v = Some (Some e, c)" for n unfolding n5 .
  from r [of 0] have "rawSet 5 c t k v = Some (Some e, c)" unfolding add_0 .
  then show ?thesis using Some r by (simp only: option.case) simp
next
  case None
  then have "keyable S k" using assms(2) by (simp add: keyable_def)
  from assms(1) this show ?thesis
  proof (cases rule: set_cases [where v = v])
    case full
    from full(1) [of 0] have "rawSet 5 c t k v = None" unfolding add_0 .
    then show ?thesis using full None by (simp only: option.case) simp
  next
    case (stored c')
    from stored(1) [of 0] have "rawSet 5 c t k v = Some (None, c')" unfolding add_0 .
    then show ?thesis using stored None by (simp only: option.case prod.case) simp
  qed
qed

text \<open>C6. Tables refine maps: after a sequence of assignments with valid keys a table holds under each key the last
  value assigned to a key of the same normal form, and what it held before when there is none. A sequence that stops does
  so at an absent key for which the rehash finds no room (as in the property of \<open>rawSet\<close>), and the assignments
  before that one have all been made.\<close>

theorem assignments_refine:
  assumes "lua_table c G S t" "\<forall>e\<in>set kvs. keyable S (fst e)"
  shows "case ofold (\<lambda>c e. tput t c (fst e) (snd e)) c kvs of
      Some c' \<Rightarrow> lua_table c' G S t \<and> (\<forall>k. keyable S k \<longrightarrow> rawGet (c_a c') t k =
        (case map_of (rev (map (\<lambda>e. (normKey (fst e), snd e)) kvs)) (normKey k) of
           Some v \<Rightarrow> Some v | None \<Rightarrow> rawGet (c_a c) t k))
    | None \<Rightarrow> \<exists>before k v rest c'. kvs = before @ (k, v) # rest \<and>
        ofold (\<lambda>c e. tput t c (fst e) (snd e)) c before = Some c' \<and>
        rawGet (c_a c') t k = Some VNil \<and> rehash_refused c' t (normKey k)"
proof (cases "ofold (\<lambda>c e. tput t c (fst e) (snd e)) c kvs")
  case None
  then show ?thesis using table.puts_stop [OF assms None] by simp
next
  case (Some c')
  then show ?thesis using table.puts_get [OF assms Some] by simp
qed

section \<open>Witnesses\<close>

definition tiny_tab :: "gcref \<times> arena" where "tiny_tab = the (AllocTable tiny 0 1)"

lemma tiny_tab_run: "AllocTable tiny 0 1 = Some tiny_tab"
proof -
  have "AllocTable tiny 0 1 \<noteq> None" by code_simp
  then show ?thesis by (auto simp: tiny_tab_def)
qed

definition tiny_col :: collector where "tiny_col = (collector_New tiny 0)\<lparr>c_a := snd tiny_tab\<rparr>"

lemma tiny_pending: "pending_in (collector_New tiny 0) {}" "c_a (collector_New tiny 0) = tiny"
  by (simp_all add: pending_in_def collector_New_def)

lemma tiny_tab_alloc: "AllocTable (c_a (collector_New tiny 0)) 0 1 = Some (fst tiny_tab, snd tiny_tab)"
  by (simp add: tiny_pending tiny_tab_run)

lemma tiny_table: "lua_table tiny_col {} {} (fst tiny_tab)" "string_key_ok {} k \<Longrightarrow> rawGet (c_a tiny_col) (fst tiny_tab) k = Some VNil"
  using new_table_ok [OF _ _ _ tiny_tab_alloc, where G = "{}" and S = "{}"] tiny_inv tiny_pending by (simp_all add: tiny_col_def)

lemma tiny_keys: "keyable {} (BoolValue b)" "string_key_ok {} (BoolValue b)" "normKey (BoolValue b) = BoolValue b"
  "checkKey (BoolValue b) = None" "BoolValue True \<noteq> BoolValue False"
proof -
  have c: "checkKey VTrue = None \<and> checkKey VFalse = None \<and> normKey VTrue = VTrue \<and> normKey VFalse = VFalse \<and>
    VTrue \<noteq> VFalse \<and> Tag VTrue \<noteq> TagString \<and> Tag VFalse \<noteq> TagString" by code_simp
  then show "keyable {} (BoolValue b)" "string_key_ok {} (BoolValue b)" "normKey (BoolValue b) = BoolValue b"
    "checkKey (BoolValue b) = None" "BoolValue True \<noteq> BoolValue False"
    by (simp_all add: keyable_def string_key_ok_def BoolValue_def)
qed

lemma tiny_set: "rawSet 5 tiny_col (fst tiny_tab) (BoolValue True) 7 \<noteq> None"
proof -
  have "case rawSet 5 tiny_col (fst tiny_tab) (BoolValue True) 7 of None \<Rightarrow> False | Some _ \<Rightarrow> True" by code_simp
  then show ?thesis by (cases "rawSet 5 tiny_col (fst tiny_tab) (BoolValue True) 7") simp_all
qed

theorem AllocTable_spec_witness:
  "lua_table tiny_col {} {} (fst tiny_tab) \<and> (\<exists>e. (1 :: nat) = 2 ^ e) \<and>
   rawGet (snd tiny_tab) (fst tiny_tab) (BoolValue True) = Some VNil"
  using AllocTable_spec [OF _ _ _ tiny_tab_alloc, of "{}" "{}"] tiny_inv tiny_pending tiny_keys(2) [of True]
  by (simp add: tiny_col_def)

theorem rawSet_spec_witness:
  "\<exists>c'. rawSet 9 tiny_col (fst tiny_tab) (BoolValue True) 7 = Some (None, c') \<and>
     rawGet (c_a c') (fst tiny_tab) (BoolValue True) = Some 7 \<and>
     rawGet (c_a c') (fst tiny_tab) (BoolValue False) = Some VNil"
proof -
  note r = rawSet_spec [OF tiny_table(1) tiny_keys(2) [of True], where v = 7]
  have "rawSet (4 + 5) tiny_col (fst tiny_tab) (BoolValue True) 7 = rawSet 5 tiny_col (fst tiny_tab) (BoolValue True) 7"
    using r by blast
  then show ?thesis using r tiny_set tiny_keys tiny_table(2)
    by (auto split: option.splits prod.splits)
qed

theorem assignments_refine_witness:
  "\<exists>c'. ofold (\<lambda>c e. tput (fst tiny_tab) c (fst e) (snd e)) tiny_col [(BoolValue True, 7)] = Some c' \<and>
     rawGet (c_a c') (fst tiny_tab) (BoolValue True) = Some 7"
proof -
  obtain c' where c': "ofold (\<lambda>c e. tput (fst tiny_tab) c (fst e) (snd e)) tiny_col [(BoolValue True, 7)] = Some c'"
    using tiny_set by (auto simp: tput_def)
  have "\<forall>e\<in>set [(BoolValue True, 7)]. keyable {} (fst e)" using tiny_keys(1) by simp
  from assignments_refine [OF tiny_table(1) this] show ?thesis unfolding c' option.case
    using tiny_keys by (auto simp: tiny_keys(3))
qed

end
