(* ===== verification/Pattern.thy ===== *)
theory Pattern
  imports Prelude
begin

text \<open>
  The pattern matcher of \<open>internal/stdlib/pattern.go\<close>: bounded backtracking over a subject and a
  pattern, both byte strings, one \<open>char\<close> per byte.

  The Go code indexes the two strings and its 32 captures; an index out of range is a panic, which
  is \<open>None\<close> here. \<open>match\<close> and its helpers call each other; the nesting depth of \<open>match\<close>, which the
  Go code counts up to \<open>maxMatchDepth\<close>, is the recursion argument counting down, and the helpers get
  the \<open>match\<close> of the next depth as an argument.
\<close>

type_synonym pat_error = string

definition maxCaptures :: nat where "maxCaptures = 32"
definition capPosition :: int where "capPosition = -2"
definition capUnfinished :: int where "capUnfinished = -1"
definition maxMatchDepth :: nat where "maxMatchDepth = 200"
definition maxMatchSteps :: nat where "maxMatchSteps = 1048576"

text \<open>A capture is its start and its length (or marker).\<close>

type_synonym capture = "int \<times> int"

record match_state =
  ms_level :: nat
  ms_captures :: "capture list"
  ms_steps :: nat

section \<open>Character classes\<close>

definition byte_of :: "char \<Rightarrow> nat" where "byte_of c = of_char c"

definition in_range :: "nat \<Rightarrow> nat \<Rightarrow> char \<Rightarrow> bool" where
  "in_range lo hi c \<longleftrightarrow> lo \<le> byte_of c \<and> byte_of c \<le> hi"

definition lower :: "char \<Rightarrow> char" where
  "lower c = (if in_range 65 90 c then char_of (byte_of c + 32) else c)"

definition isalpha :: "char \<Rightarrow> bool" where "isalpha c \<longleftrightarrow> in_range 97 122 c \<or> in_range 65 90 c"
definition isdigit :: "char \<Rightarrow> bool" where "isdigit c \<longleftrightarrow> in_range 48 57 c"
definition isalnum :: "char \<Rightarrow> bool" where "isalnum c \<longleftrightarrow> isalpha c \<or> isdigit c"
definition isspace :: "char \<Rightarrow> bool" where "isspace c \<longleftrightarrow> byte_of c \<in> {32, 9, 10, 13, 11, 12}"
definition iscntrl :: "char \<Rightarrow> bool" where "iscntrl c \<longleftrightarrow> byte_of c < 32 \<or> byte_of c = 127"
definition islower :: "char \<Rightarrow> bool" where "islower c \<longleftrightarrow> in_range 97 122 c"
definition isupper :: "char \<Rightarrow> bool" where "isupper c \<longleftrightarrow> in_range 65 90 c"
definition ispunct :: "char \<Rightarrow> bool" where "ispunct c \<longleftrightarrow> in_range 33 126 c \<and> \<not> isalnum c"
definition isxdigit :: "char \<Rightarrow> bool" where "isxdigit c \<longleftrightarrow> isdigit c \<or> in_range 97 102 (lower c)"

text \<open>The class tests by class letter; \<open>None\<close> for a character that is not a class letter.\<close>

definition class_test :: "char \<Rightarrow> (char \<Rightarrow> bool) option" where
  "class_test cl =
     map_of [(CHR ''a'', isalpha), (CHR ''c'', iscntrl), (CHR ''d'', isdigit), (CHR ''l'', islower),
             (CHR ''p'', ispunct), (CHR ''s'', isspace), (CHR ''u'', isupper), (CHR ''w'', isalnum),
             (CHR ''x'', isxdigit), (CHR ''z'', \<lambda>c. byte_of c = 0)] cl"

definition classMatch :: "char \<Rightarrow> char \<Rightarrow> bool" where
  "classMatch c cl =
     (case class_test (lower cl) of
        None \<Rightarrow> cl = c
      | Some f \<Rightarrow> let res = f c in if isupper cl then \<not> res else res)"

section \<open>Single match units\<close>

definition err_missing_bracket :: pat_error where
  "err_missing_bracket = ''malformed pattern (missing '' @ [CHR 0x27] @ '']'' @ [CHR 0x27] @ '')''"

definition err_ends_percent :: pat_error where
  "err_ends_percent = ''malformed pattern (ends with '' @ [CHR 0x27] @ ''%'' @ [CHR 0x27] @ '')''"

text \<open>The loop over the members of a set.\<close>

function set_end :: "string \<Rightarrow> nat \<Rightarrow> pat_error + nat" where
  "set_end pat p =
     (if length pat \<le> p then Inl err_missing_bracket
      else let cc = pat ! p; p' = p + 1;
               p' = (if cc = CHR ''%'' \<and> p' < length pat then p' + 1 else p')
           in if p' < length pat \<and> pat ! p' = CHR '']'' then Inr (p' + 1)
              else if length pat \<le> p' then Inl err_missing_bracket
              else set_end pat p')"
  by pat_completeness auto
termination by (relation "measure (\<lambda>(pat, p). length pat - p)") (auto simp: Let_def split: if_splits)

declare set_end.simps [simp del]

definition classEnd :: "string \<Rightarrow> nat \<Rightarrow> (pat_error + nat) option" where
  "classEnd pat p = do {
     c \<leftarrow> nth_opt pat p;
     let p = p + 1;
     Some (if c = CHR ''%'' then if length pat \<le> p then Inl err_ends_percent else Inr (p + 1)
           else if c = CHR ''['' then
             set_end pat (if p < length pat \<and> pat ! p = CHR ''^'' then p + 1 else p)
           else Inr p) }"

text \<open>The loop of \<open>matchClass\<close>: whether a member of the set accepts the character.\<close>

function set_member :: "string \<Rightarrow> char \<Rightarrow> nat \<Rightarrow> nat \<Rightarrow> bool option" where
  "set_member pat c p ec =
     (if ec \<le> p then Some False
      else do {
        x \<leftarrow> nth_opt pat p;
        if x = CHR ''%'' then do {
          cl \<leftarrow> nth_opt pat (p + 1);
          if classMatch c cl then Some True else set_member pat c (p + 2) ec }
        else do {
          y \<leftarrow> (if p + 2 < ec then map_option (\<lambda>y. y = CHR ''-'') (nth_opt pat (p + 1)) else Some False);
          if y then do {
            z \<leftarrow> nth_opt pat (p + 2);
            if byte_of x \<le> byte_of c \<and> byte_of c \<le> byte_of z then Some True
            else set_member pat c (p + 3) ec }
          else if x = c then Some True
          else set_member pat c (p + 1) ec } })"
  by pat_completeness auto
termination by (relation "measure (\<lambda>(pat, c, p, ec). ec - p)") auto

declare set_member.simps [simp del]

definition matchClass :: "string \<Rightarrow> char \<Rightarrow> nat \<Rightarrow> nat \<Rightarrow> bool option" where
  "matchClass pat c p ec = do {
     let p = p + 1;
     x \<leftarrow> nth_opt pat p;
     let neg = (x = CHR ''^'');
     m \<leftarrow> set_member pat c (if neg then p + 1 else p) ec;
     Some (if m then \<not> neg else neg) }"

definition singleMatch :: "string \<Rightarrow> string \<Rightarrow> nat \<Rightarrow> nat \<Rightarrow> nat \<Rightarrow> bool option" where
  "singleMatch src pat s p ep =
     (if length src \<le> s then Some False
      else do {
        let c = src ! s;
        x \<leftarrow> nth_opt pat p;
        if x = CHR ''.'' then Some True
        else if x = CHR ''%'' then do { cl \<leftarrow> nth_opt pat (p + 1); Some (classMatch c cl) }
        else if x = CHR ''['' then matchClass pat c p (ep - 1)
        else Some (x = c) })"

section \<open>The matcher\<close>

text \<open>An error, no match (the Go result -1), or the end of the match; with the state after it.\<close>

datatype outcome = PErr pat_error | Fail | End nat

type_synonym mres = "(match_state \<times> outcome) option"
type_synonym matcher = "match_state \<Rightarrow> nat \<Rightarrow> nat \<Rightarrow> mres"

definition too_complex :: pat_error where "too_complex = ''pattern too complex''"

text \<open>\<open>maxExpand\<close>: how many units match, then the loop that backs off.\<close>

function count_units :: "string \<Rightarrow> string \<Rightarrow> nat \<Rightarrow> nat \<Rightarrow> nat \<Rightarrow> nat \<Rightarrow> nat option" where
  "count_units src pat s p ep i = do {
     m \<leftarrow> singleMatch src pat (s + i) p ep;
     if m \<and> s + i < length src then count_units src pat s p ep (i + 1) else Some i }"
  by pat_completeness auto
termination by (relation "measure (\<lambda>(src, pat, s, p, ep, i). length src - (s + i))") auto

declare count_units.simps [simp del]

fun back_off :: "matcher \<Rightarrow> match_state \<Rightarrow> nat \<Rightarrow> nat \<Rightarrow> nat \<Rightarrow> mres" where
  "back_off rec ms s ep i = do {
     (ms, r) \<leftarrow> rec ms (s + i) (ep + 1);
     case r of
       Fail \<Rightarrow> (case i of 0 \<Rightarrow> Some (ms, Fail) | Suc j \<Rightarrow> back_off rec ms s ep j)
     | _ \<Rightarrow> Some (ms, r) }"

declare back_off.simps [simp del]

definition maxExpand :: "matcher \<Rightarrow> string \<Rightarrow> string \<Rightarrow> match_state \<Rightarrow> nat \<Rightarrow> nat \<Rightarrow> nat \<Rightarrow> mres" where
  "maxExpand rec src pat ms s p ep = do {
     i \<leftarrow> count_units src pat s p ep 0;
     back_off rec ms s ep i }"

function minExpand :: "matcher \<Rightarrow> string \<Rightarrow> string \<Rightarrow> match_state \<Rightarrow> nat \<Rightarrow> nat \<Rightarrow> nat \<Rightarrow> mres" where
  "minExpand rec src pat ms s p ep = do {
     (ms, r) \<leftarrow> rec ms s (ep + 1);
     case r of
       Fail \<Rightarrow> do {
         m \<leftarrow> singleMatch src pat s p ep;
         if m \<and> s < length src then minExpand rec src pat ms (s + 1) p ep else Some (ms, Fail) }
     | _ \<Rightarrow> Some (ms, r) }"
  by pat_completeness auto
termination by (relation "measure (\<lambda>(rec, src, pat, ms, s, p, ep). length src - s)") auto

declare minExpand.simps [simp del]

definition set_capture :: "match_state \<Rightarrow> nat \<Rightarrow> capture \<Rightarrow> match_state" where
  "set_capture ms l c = ms\<lparr>ms_captures := (ms_captures ms)[l := c]\<rparr>"

definition startCapture :: "matcher \<Rightarrow> match_state \<Rightarrow> nat \<Rightarrow> nat \<Rightarrow> int \<Rightarrow> mres" where
  "startCapture rec ms s p what =
     (if maxCaptures \<le> ms_level ms then Some (ms, PErr ''too many captures'')
      else if length (ms_captures ms) \<le> ms_level ms then None
      else do {
        let ms = (set_capture ms (ms_level ms) (int s, what))\<lparr>ms_level := ms_level ms + 1\<rparr>;
        (ms, r) \<leftarrow> rec ms s p;
        Some (if r = Fail then (ms\<lparr>ms_level := ms_level ms - 1\<rparr>, Fail) else (ms, r)) })"

text \<open>The innermost unfinished capture.\<close>

fun captureToClose :: "capture list \<Rightarrow> nat \<Rightarrow> nat option option" where
  "captureToClose caps 0 = Some None"
| "captureToClose caps (Suc i) = do {
     c \<leftarrow> nth_opt caps i;
     if snd c = capUnfinished then Some (Some i) else captureToClose caps i }"

definition endCapture :: "matcher \<Rightarrow> match_state \<Rightarrow> nat \<Rightarrow> nat \<Rightarrow> mres" where
  "endCapture rec ms s p = do {
     l \<leftarrow> captureToClose (ms_captures ms) (ms_level ms);
     case l of
       None \<Rightarrow> Some (ms, PErr ''invalid pattern capture'')
     | Some l \<Rightarrow> do {
         let i = fst (ms_captures ms ! l);
         (ms, r) \<leftarrow> rec (set_capture ms l (i, int s - i)) s p;
         Some (if r = Fail then (set_capture ms l (fst (ms_captures ms ! l), capUnfinished), Fail)
               else (ms, r)) } }"

text \<open>The scan of \<open>%bxy\<close>: the position behind the balancing character.\<close>

fun balance_scan :: "string \<Rightarrow> char \<Rightarrow> char \<Rightarrow> nat \<Rightarrow> nat \<Rightarrow> nat option" where
  "balance_scan [] b e cont i = None"
| "balance_scan (c # r) b e cont i =
     (if c = e then if cont = 1 then Some (i + 1) else balance_scan r b e (cont - 1) (i + 1)
      else if c = b then balance_scan r b e (cont + 1) (i + 1)
      else balance_scan r b e cont (i + 1))"

definition matchBalance :: "matcher \<Rightarrow> string \<Rightarrow> string \<Rightarrow> match_state \<Rightarrow> nat \<Rightarrow> nat \<Rightarrow> mres" where
  "matchBalance rec src pat ms s p =
     (if length pat \<le> p + 1
      then Some (ms, PErr (''missing arguments to '' @ [CHR 0x27] @ ''%b'' @ [CHR 0x27]))
      else if length src \<le> s \<or> src ! s \<noteq> pat ! p then Some (ms, Fail)
      else case balance_scan (drop (s + 1) src) (pat ! p) (pat ! (p + 1)) 1 (s + 1) of
             Some i \<Rightarrow> rec ms i (p + 2)
           | None \<Rightarrow> Some (ms, Fail))"

text \<open>The Go slice expression \<open>src[lo:hi]\<close>, for integers; it panics out of range.\<close>

definition go_slice :: "string \<Rightarrow> int \<Rightarrow> int \<Rightarrow> string option" where
  "go_slice xs lo hi =
     (if 0 \<le> lo \<and> lo \<le> hi \<and> hi \<le> int (length xs)
      then Some (take (nat hi - nat lo) (drop (nat lo) xs)) else None)"

definition matchCapture :: "matcher \<Rightarrow> string \<Rightarrow> match_state \<Rightarrow> nat \<Rightarrow> nat \<Rightarrow> nat \<Rightarrow> mres" where
  "matchCapture rec src ms s p l =
     (if ms_level ms \<le> l then Some (ms, PErr ''invalid capture index'')
      else do {
        c \<leftarrow> nth_opt (ms_captures ms) l;
        if snd c < 0 then Some (ms, PErr ''invalid capture index'')
        else if int (length src) - int s < snd c then Some (ms, Fail)
        else do {
          x \<leftarrow> go_slice src (fst c) (fst c + snd c);
          y \<leftarrow> go_slice src (int s) (int s + snd c);
          if x = y then rec ms (s + nat (snd c)) (p + 2) else Some (ms, Fail) } })"

text \<open>The frontier test of \<open>%f\<close>: the pattern position behind the set, or no match.\<close>

definition frontier :: "string \<Rightarrow> string \<Rightarrow> nat \<Rightarrow> nat \<Rightarrow> (pat_error + nat option) option" where
  "frontier src pat s p =
     (let fp = p + 2 in
      if length pat \<le> fp \<or> pat ! fp \<noteq> CHR ''[''
      then Some (Inl (''missing '' @ [CHR 0x27] @ ''['' @ [CHR 0x27] @ '' after '' @ [CHR 0x27] @ ''%f'' @
                      [CHR 0x27] @ '' in pattern''))
      else do {
        e \<leftarrow> classEnd pat fp;
        case e of
          Inl err \<Rightarrow> Some (Inl err)
        | Inr fep \<Rightarrow> do {
            prev \<leftarrow> (if 0 < s then nth_opt src (s - 1) else Some (CHR 0x00));
            let cur = (if s < length src then src ! s else CHR 0x00);
            a \<leftarrow> matchClass pat prev fp (fep - 1);
            if a then Some (Inr None)
            else do {
              b \<leftarrow> matchClass pat cur fp (fep - 1);
              Some (Inr (if b then Some fep else None)) } } })"

text \<open>What the pattern item at \<open>p\<close> is, apart from ordinary units.\<close>

datatype item =
    AtEnd | OpenCap nat int | CloseCap | Anchor | Balance | Frontier | BackRef nat | BadRef | Unit

definition item_at :: "string \<Rightarrow> nat \<Rightarrow> item" where
  "item_at pat p =
     (if length pat \<le> p then AtEnd
      else if pat ! p = CHR ''('' then
        (if p + 1 < length pat \<and> pat ! (p + 1) = CHR '')'' then OpenCap (p + 2) capPosition
         else OpenCap (p + 1) capUnfinished)
      else if pat ! p = CHR '')'' then CloseCap
      else if pat ! p = CHR ''$'' \<and> p + 1 = length pat then Anchor
      else if pat ! p = CHR ''%'' \<and> p + 1 < length pat then
        (let nc = pat ! (p + 1) in
         if nc = CHR ''b'' then Balance
         else if nc = CHR ''f'' then Frontier
         else if isdigit nc then if nc = CHR ''0'' then BadRef else BackRef (byte_of nc - 49)
         else Unit)
      else Unit)"

text \<open>The body of \<open>match\<close> after the guards: the \<open>for\<close> loop, which goes on with a larger \<open>p\<close>.\<close>

lemma set_end_gt: "set_end pat p = Inr e \<Longrightarrow> p < e \<and> e \<le> length pat"
proof (induction pat p rule: set_end.induct)
  case (1 pat p)
  define q where "q = (if pat ! p = CHR ''%'' \<and> p + 1 < length pat then p + 1 + 1 else p + 1)"
  have "p < q" by (simp add: q_def)
  moreover have "q < e \<and> e \<le> length pat"
    if "\<not> length pat \<le> p" "\<not> (q < length pat \<and> pat ! q = CHR '']'')" "\<not> length pat \<le> q" "set_end pat q = Inr e"
    using 1(1) [OF that(1) refl refl q_def that(2,3,4)] .
  moreover have "(length pat \<le> p \<longrightarrow> False) \<and> (if q < length pat \<and> pat ! q = CHR '']'' then e = q + 1
      else \<not> length pat \<le> q \<and> set_end pat q = Inr e)"
    using 1(2) unfolding q_def by (subst (asm) set_end.simps) (simp add: Let_def split: if_splits)
  ultimately show ?case by (auto split: if_splits)
qed

lemma classEnd_gt: "classEnd pat p = Some (Inr e) \<Longrightarrow> p < e \<and> e \<le> length pat"
  using set_end_gt [of pat "p + 1" e] set_end_gt [of pat "p + 2" e]
  by (auto simp: classEnd_def bind_Some_iff split: if_splits)

lemma frontier_gt: "frontier src pat s p = Some (Inr (Some e)) \<Longrightarrow> p < e \<and> e \<le> length pat"
proof -
  assume f: "frontier src pat s p = Some (Inr (Some e))"
  then obtain c where c: "classEnd pat (p + 2) = Some c"
    by (auto simp: frontier_def Let_def bind_Some_iff split: if_splits)
  with f have "c = Inr e"
    by (cases c) (auto simp: frontier_def Let_def bind_Some_iff split: if_splits)
  with c show ?thesis using classEnd_gt [of pat "p + 2" e] by simp
qed

function match_loop :: "matcher \<Rightarrow> string \<Rightarrow> string \<Rightarrow> match_state \<Rightarrow> nat \<Rightarrow> nat \<Rightarrow> mres" where
  "match_loop rec src pat ms s p =
     (case item_at pat p of
        AtEnd \<Rightarrow> Some (ms, End s)
      | OpenCap q what \<Rightarrow> startCapture rec ms s q what
      | CloseCap \<Rightarrow> endCapture rec ms s (p + 1)
      | Anchor \<Rightarrow> Some (ms, if s = length src then End s else Fail)
      | Balance \<Rightarrow> matchBalance rec src pat ms s (p + 2)
      | BadRef \<Rightarrow> Some (ms, PErr ''invalid capture index'')
      | BackRef l \<Rightarrow> matchCapture rec src ms s p l
      | Frontier \<Rightarrow>
          (case frontier src pat s p of
             None \<Rightarrow> None
           | Some (Inl e) \<Rightarrow> Some (ms, PErr e)
           | Some (Inr None) \<Rightarrow> Some (ms, Fail)
           | Some (Inr (Some fep)) \<Rightarrow> match_loop rec src pat ms s fep)
      | Unit \<Rightarrow>
          (case classEnd pat p of
             None \<Rightarrow> None
           | Some (Inl e) \<Rightarrow> Some (ms, PErr e)
           | Some (Inr ep) \<Rightarrow>
               let quant = (if ep < length pat then pat ! ep else CHR 0x00) in
               if quant = CHR ''*'' then maxExpand rec src pat ms s p ep
               else if quant = CHR ''-'' then minExpand rec src pat ms s p ep
               else (case singleMatch src pat s p ep of
                  None \<Rightarrow> None
                | Some m \<Rightarrow>
                    if quant = CHR ''?'' then
                      (case (if m then rec ms (s + 1) (ep + 1) else Some (ms, Fail)) of
                         None \<Rightarrow> None
                       | Some (ms, r) \<Rightarrow>
                           if r \<noteq> Fail then Some (ms, r) else match_loop rec src pat ms s (ep + 1))
                    else if \<not> m then Some (ms, Fail)
                    else if quant = CHR ''+'' then maxExpand rec src pat ms (s + 1) p ep
                    else match_loop rec src pat ms (s + 1) ep)))"
  by pat_completeness auto
termination
  by (relation "measure (\<lambda>(rec, src, pat, ms, s, p). length pat - p)")
    (auto dest!: frontier_gt classEnd_gt)

declare match_loop.simps [simp del]

fun match_at :: "string \<Rightarrow> string \<Rightarrow> nat \<Rightarrow> matcher" where
  "match_at src pat d ms s p =
     (if d = 0 then Some (ms, PErr too_complex)
      else let ms = ms\<lparr>ms_steps := ms_steps ms + 1\<rparr> in
        if maxMatchSteps < ms_steps ms then Some (ms, PErr too_complex)
        else match_loop (match_at src pat (d - 1)) src pat ms s p)"

declare match_at.simps [simp del]

section \<open>Finding\<close>

record cap_result =
  cr_pos :: bool
  cr_unfinished :: bool
  cr_start :: int
  cr_len :: int

definition collect_one :: "capture \<Rightarrow> cap_result" where
  "collect_one c =
     (if snd c = capPosition then \<lparr>cr_pos = True, cr_unfinished = False, cr_start = fst c, cr_len = 0\<rparr>
      else if snd c = capUnfinished then \<lparr>cr_pos = False, cr_unfinished = True, cr_start = fst c, cr_len = 0\<rparr>
      else \<lparr>cr_pos = False, cr_unfinished = False, cr_start = fst c, cr_len = snd c\<rparr>)"

definition collectCaptures :: "match_state \<Rightarrow> cap_result list option" where
  "collectCaptures ms =
     (if length (ms_captures ms) < ms_level ms then None
      else Some (map collect_one (take (ms_level ms) (ms_captures ms))))"

text \<open>A find gives an error, nothing, or start, end and captures.\<close>

type_synonym find_result = "pat_error + (nat \<times> nat \<times> cap_result list) option"

function find_loop :: "string \<Rightarrow> string \<Rightarrow> bool \<Rightarrow> match_state \<Rightarrow> nat \<Rightarrow> nat \<Rightarrow> find_result option" where
  "find_loop src pat anchored ms s p = do {
     (ms, r) \<leftarrow> match_at src pat maxMatchDepth (ms\<lparr>ms_level := 0\<rparr>) s p;
     case r of
       PErr e \<Rightarrow> Some (Inl e)
     | End e \<Rightarrow> do { caps \<leftarrow> collectCaptures ms; Some (Inr (Some (s, e, caps))) }
     | Fail \<Rightarrow>
         if anchored \<or> length src < s + 1 then Some (Inr None)
         else find_loop src pat anchored ms (s + 1) p }"
  by pat_completeness auto
termination by (relation "measure (\<lambda>(src, pat, a, ms, s, p). length src - s)") auto

declare find_loop.simps [simp del]

definition new_match_state :: match_state where
  "new_match_state = \<lparr>ms_level = 0, ms_captures = replicate maxCaptures (0, 0), ms_steps = 0\<rparr>"

definition patternFindOpt :: "string \<Rightarrow> string \<Rightarrow> nat \<Rightarrow> bool \<Rightarrow> find_result option" where
  "patternFindOpt src pat init allowAnchor =
     (let anchored = (allowAnchor \<and> pat \<noteq> [] \<and> hd pat = CHR ''^''); p = (if anchored then 1 else 0)
      in find_loop src pat anchored new_match_state init p)"

definition patternFind :: "string \<Rightarrow> string \<Rightarrow> nat \<Rightarrow> find_result option" where
  "patternFind src pat init = patternFindOpt src pat init True"

end
