(* ===== verification/PatternSpec.thy ===== *)
theory PatternSpec
  imports Pattern
begin

text \<open>
  What the matcher of \<open>Pattern\<close> promises for every subject, pattern and start: it returns without
  an index out of range, the match and the captures lie inside the subject, a failed branch leaves
  the captures of its caller as they were, and the number of \<open>match\<close> calls stays within the budget.
  The contract one \<open>match\<close> owes its helpers is a locale, interpreted on \<open>match_at\<close>. Then: a pattern
  without special characters is a substring search, and \<open>%b\<close> finds the shortest balanced stretch.
\<close>

section \<open>Match units read inside the pattern\<close>

lemma set_member_total: "ec < length pat \<Longrightarrow> \<exists>b. set_member pat c p ec = Some b"
proof (induction pat c p ec rule: set_member.induct)
  case (1 pat c p ec)
  show ?case
  proof (cases "ec \<le> p")
    case True
    then show ?thesis by (intro exI [of _ False]) (simp add: set_member.simps)
  next
    case False
    with 1(4) have p: "p < length pat" "p + 1 < length pat" by auto
    note ih = 1(1) [OF False] 1(2) [OF False] 1(3) [OF False]
    show ?thesis
      using False p 1(4) ih
      by (subst set_member.simps) (auto simp: Let_def)
  qed
qed

lemma classEnd_cases:
  assumes "classEnd pat p = Some (Inr ep)"
  shows "p < length pat" and "pat ! p = CHR ''%'' \<Longrightarrow> p + 1 < length pat"
    and "pat ! p = CHR ''['' \<Longrightarrow> p + 1 < length pat \<and> ep - 1 < length pat"
  using assms set_end_gt [of pat "p + 1" ep] set_end_gt [of pat "p + 2" ep]
  by (auto simp: classEnd_def bind_Some_iff Let_def split: if_splits)

lemma classEnd_total: "p < length pat \<Longrightarrow> \<exists>r. classEnd pat p = Some r"
  by (simp add: classEnd_def Let_def)

lemma matchClass_total:
  "p + 1 < length pat \<Longrightarrow> ec < length pat \<Longrightarrow> \<exists>b. matchClass pat c p ec = Some b"
  using set_member_total [of ec pat c "p + 1"] set_member_total [of ec pat c "p + 2"]
  by (auto simp: matchClass_def Let_def)

lemma singleMatch_total:
  assumes "classEnd pat p = Some (Inr ep)"
  shows "\<exists>b. singleMatch src pat s p ep = Some b"
  using classEnd_cases [OF assms] matchClass_total [of p pat "ep - 1" "src ! s"]
  by (auto simp: singleMatch_def Let_def)

lemma singleMatch_inside: "singleMatch src pat s p ep = Some True \<Longrightarrow> s < length src"
  by (simp add: singleMatch_def split: if_splits)

lemma frontier_total:
  assumes "s \<le> length src"
  shows "\<exists>r. frontier src pat s p = Some r"
proof (cases "length pat \<le> p + 2 \<or> pat ! (p + 2) \<noteq> CHR ''[''")
  case True
  then show ?thesis by (simp add: frontier_def Let_def)
next
  case False
  then obtain r where r: "classEnd pat (p + 2) = Some r" using classEnd_total [of "p + 2" pat] by auto
  show ?thesis
  proof (cases r)
    case (Inl e)
    with False r show ?thesis by (simp add: frontier_def Let_def)
  next
    case (Inr fep)
    have t: "\<exists>b. matchClass pat c (p + 2) (fep - 1) = Some b" for c
      using classEnd_cases [OF r [unfolded Inr]] False by (intro matchClass_total) auto
    have "\<exists>prev. (if 0 < s then nth_opt src (s - 1) else Some (CHR 0x00)) = Some prev"
      using assms by (cases "0 < s") (auto simp: nth_opt_def)
    then obtain prev where pr: "(if 0 < s then nth_opt src (s - 1) else Some (CHR 0x00)) = Some prev" ..
    obtain a where a: "matchClass pat prev (p + 2) (fep - 1) = Some a" using t by blast
    obtain b where b: "matchClass pat (if s < length src then src ! s else CHR 0x00) (p + 2) (fep - 1) = Some b"
      using t by blast
    have "frontier src pat s p = Some (Inr (if a then None else if b then Some fep else None))"
      using False r Inr pr a b by (simp add: frontier_def Let_def del: add_2_eq_Suc' One_nat_def)
    then show ?thesis ..
  qed
qed

section \<open>The contract of one match\<close>

definition cap_ok :: "nat \<Rightarrow> capture \<Rightarrow> bool" where
  "cap_ok s c \<longleftrightarrow> 0 \<le> fst c \<and> fst c \<le> int s \<and>
     (snd c = capUnfinished \<or> snd c = capPosition \<or> (0 \<le> snd c \<and> fst c + snd c \<le> int s))"

definition ms_ok :: "match_state \<Rightarrow> nat \<Rightarrow> bool" where
  "ms_ok ms s \<longleftrightarrow> length (ms_captures ms) = maxCaptures \<and> ms_level ms \<le> maxCaptures \<and>
     ms_steps ms \<le> maxMatchSteps \<and> (\<forall>i<ms_level ms. cap_ok s (ms_captures ms ! i))"

definition restored :: "match_state \<Rightarrow> match_state \<Rightarrow> bool" where
  "restored ms ms' \<longleftrightarrow> ms_level ms' = ms_level ms \<and> length (ms_captures ms') = maxCaptures \<and>
     ms_steps ms' \<le> maxMatchSteps \<and> (\<forall>i<ms_level ms. ms_captures ms' ! i = ms_captures ms ! i)"

definition result_ok :: "string \<Rightarrow> match_state \<Rightarrow> nat \<Rightarrow> mres \<Rightarrow> bool" where
  "result_ok src ms s res \<longleftrightarrow>
     (case res of
        None \<Rightarrow> False
      | Some (ms', r) \<Rightarrow>
          (case r of
             PErr e \<Rightarrow> ms_steps ms' \<le> maxMatchSteps + 1
           | Fail \<Rightarrow> restored ms ms'
           | End e \<Rightarrow> s \<le> e \<and> e \<le> length src \<and> ms_ok ms' e))"

lemma result_ok_simps [simp]:
  "result_ok src ms s None = False"
  "result_ok src ms s (Some (ms', PErr e)) = (ms_steps ms' \<le> maxMatchSteps + 1)"
  "result_ok src ms s (Some (ms', Fail)) = restored ms ms'"
  "result_ok src ms s (Some (ms', End i)) = (s \<le> i \<and> i \<le> length src \<and> ms_ok ms' i)"
  by (simp_all add: result_ok_def)

lemma result_okE:
  assumes "result_ok src ms s res"
  obtains ms' e where "res = Some (ms', PErr e)" "ms_steps ms' \<le> maxMatchSteps + 1"
    | ms' where "res = Some (ms', Fail)" "restored ms ms'"
    | ms' e where "res = Some (ms', End e)" "s \<le> e" "e \<le> length src" "ms_ok ms' e"
proof (cases res)
  case None
  with assms show ?thesis by simp
next
  case (Some x)
  then obtain ms' r where r: "res = Some (ms', r)" by (cases x) simp
  with assms that show ?thesis by (cases r) auto
qed

lemma ms_ok_steps: "ms_ok ms s \<Longrightarrow> ms_steps ms \<le> maxMatchSteps" "ms_ok ms s \<Longrightarrow> ms_steps ms \<le> maxMatchSteps + 1"
  by (simp_all add: ms_ok_def)

lemma cap_ok_mono: "cap_ok s c \<Longrightarrow> s \<le> t \<Longrightarrow> cap_ok t c"
  by (auto simp: cap_ok_def)

lemma ms_ok_mono: "ms_ok ms s \<Longrightarrow> s \<le> t \<Longrightarrow> ms_ok ms t"
  by (auto simp: ms_ok_def intro: cap_ok_mono)

lemma restored_refl: "ms_ok ms s \<Longrightarrow> restored ms ms"
  by (simp add: restored_def ms_ok_def)

lemma restored_ok: "ms_ok ms s \<Longrightarrow> restored ms ms' \<Longrightarrow> ms_ok ms' s"
  by (simp add: restored_def ms_ok_def)

lemma restored_trans: "restored ms ms1 \<Longrightarrow> restored ms1 ms2 \<Longrightarrow> restored ms ms2"
  by (simp add: restored_def)

lemma result_ok_trans:
  "result_ok src ms1 s' res \<Longrightarrow> restored ms ms1 \<Longrightarrow> s \<le> s' \<Longrightarrow> result_ok src ms s res"
  by (erule result_okE) (auto intro: restored_trans)

lemma result_ok_mono: "result_ok src ms s' res \<Longrightarrow> s \<le> s' \<Longrightarrow> result_ok src ms s res"
  by (erule result_okE) auto

lemma count_units_bound:
  "count_units src pat s p ep i = Some n \<Longrightarrow> s + i \<le> length src \<Longrightarrow> i \<le> n \<and> s + n \<le> length src"
proof (induction src pat s p ep i rule: count_units.induct)
  case (1 src pat s p ep i)
  from 1(2) obtain m where m: "singleMatch src pat (s + i) p ep = Some m"
    by (subst (asm) count_units.simps) (auto simp: bind_Some_iff)
  show ?case
  proof (cases "m \<and> s + i < length src")
    case True
    with 1(2) m have "count_units src pat s p ep (i + 1) = Some n"
      by (subst (asm) count_units.simps) simp
    from 1(1) [OF m True this] True show ?thesis by simp
  next
    case False
    with 1(2) m have "n = i" by (subst (asm) count_units.simps) (simp split: if_splits)
    with 1(3) show ?thesis by simp
  qed
qed

lemma count_units_total:
  "classEnd pat p = Some (Inr ep) \<Longrightarrow> \<exists>n. count_units src pat s p ep i = Some n"
proof (induction src pat s p ep i rule: count_units.induct)
  case (1 src pat s p ep i)
  obtain m where m: "singleMatch src pat (s + i) p ep = Some m"
    using singleMatch_total [OF 1(2)] by blast
  with 1 show ?case by (subst count_units.simps) auto
qed

definition closes :: "capture list \<Rightarrow> nat \<Rightarrow> nat option \<Rightarrow> bool" where
  "closes caps n r \<longleftrightarrow> (\<forall>l. r = Some l \<longrightarrow> l < n \<and> snd (caps ! l) = capUnfinished)"

lemma captureToClose_spec: "n \<le> length caps \<Longrightarrow> \<exists>r. captureToClose caps n = Some r \<and> closes caps n r"
proof (induction n)
  case (Suc n)
  then obtain r where "captureToClose caps n = Some r" "closes caps n r" by auto
  with Suc.prems show ?case by (cases "snd (caps ! n) = capUnfinished") (auto simp: closes_def)
qed (simp add: closes_def)

lemma balance_scan_bound: "balance_scan r b e cont i = Some j \<Longrightarrow> i < j \<and> j \<le> i + length r"
  by (induction r b e cont i rule: balance_scan.induct) (auto split: if_splits)

section \<open>The helpers under the contract\<close>

text \<open>The choice among the quantifiers, as a rule.\<close>

lemma choose_branch:
  "P v \<Longrightarrow> P w \<Longrightarrow> P x \<Longrightarrow> P y \<Longrightarrow> (m \<Longrightarrow> P z) \<Longrightarrow> (m \<Longrightarrow> P u) \<Longrightarrow>
    P (if a then v else if b then w else if c then x else if \<not> m then y else if d then z else u)"
  by simp

locale matching =
  fixes src :: string and rec :: matcher
  assumes rec_ok: "ms_ok ms s \<Longrightarrow> s \<le> length src \<Longrightarrow> result_ok src ms s (rec ms s p)"
begin

lemma back_off_ok:
  "ms_ok ms s \<Longrightarrow> s + i \<le> length src \<Longrightarrow> result_ok src ms s (back_off rec ms s ep i)"
proof (induction i arbitrary: ms)
  case (Suc i)
  have "result_ok src ms (s + Suc i) (rec ms (s + Suc i) (ep + 1))"
    using Suc.prems by (intro rec_ok) (auto intro: ms_ok_mono)
  then show ?case
  proof (cases rule: result_okE)
    case (2 ms')
    have "result_ok src ms' s (back_off rec ms' s ep i)"
      using Suc.IH [of ms'] Suc.prems restored_ok [OF _ 2(2)] by simp
    then have "result_ok src ms s (back_off rec ms' s ep i)"
      using result_ok_trans 2(2) by blast
    with 2(1) show ?thesis by (subst back_off.simps) simp
  qed (subst back_off.simps, simp)+
next
  case 0
  have "result_ok src ms s (rec ms s (ep + 1))" using 0 by (intro rec_ok) auto
  then show ?case by (cases rule: result_okE) (subst back_off.simps, simp)+
qed

lemma maxExpand_ok:
  assumes "ms_ok ms s" "s \<le> length src" "classEnd pat p = Some (Inr ep)"
  shows "result_ok src ms s (maxExpand rec src pat ms s p ep)"
proof -
  obtain i where i: "count_units src pat s p ep 0 = Some i" using count_units_total [OF assms(3)] by blast
  with count_units_bound [OF this] assms(2) have "s + i \<le> length src" by simp
  with back_off_ok [OF assms(1)] i show ?thesis by (simp add: maxExpand_def)
qed

lemma minExpand_ok:
  "ms_ok ms s \<Longrightarrow> s \<le> length src \<Longrightarrow> classEnd pat p = Some (Inr ep) \<Longrightarrow>
    result_ok src ms s (minExpand rec src pat ms s p ep)"
proof (induction "length src - s" arbitrary: ms s rule: less_induct)
  case less
  have "result_ok src ms s (rec ms s (ep + 1))" using less.prems by (intro rec_ok) auto
  then show ?case
  proof (cases rule: result_okE)
    case (2 ms')
    obtain m where m: "singleMatch src pat s p ep = Some m" using singleMatch_total [OF less.prems(3)] by blast
    have ok: "ms_ok ms' s" using restored_ok less.prems(1) 2(2) by blast
    show ?thesis
    proof (cases "m \<and> s < length src")
      case True
      have "result_ok src ms' (s + 1) (minExpand rec src pat ms' (s + 1) p ep)"
        using True less.prems(3) ms_ok_mono [OF ok, of "s + 1"] by (intro less.hyps) auto
      then have "result_ok src ms s (minExpand rec src pat ms' (s + 1) p ep)"
        using result_ok_trans 2(2) by (metis le_add1)
      with True m 2(1) show ?thesis by (subst minExpand.simps) simp
    next
      case False
      with m 2 show ?thesis by (subst minExpand.simps) auto
    qed
  qed (subst minExpand.simps, simp)+
qed

lemma startCapture_ok:
  assumes "ms_ok ms s" "s \<le> length src" "what = capUnfinished \<or> what = capPosition"
  shows "result_ok src ms s (startCapture rec ms s p what)"
proof (cases "maxCaptures \<le> ms_level ms")
  case True
  with ms_ok_steps [OF assms(1)] show ?thesis by (simp add: startCapture_def)
next
  case False
  have len: "length (ms_captures ms) = maxCaptures" using assms(1) by (simp add: ms_ok_def)
  define ms1 where "ms1 = (set_capture ms (ms_level ms) (int s, what))\<lparr>ms_level := ms_level ms + 1\<rparr>"
  have "ms_ok ms1 s"
    using assms False len
    by (auto simp: ms_ok_def ms1_def set_capture_def nth_list_update less_Suc_eq cap_ok_def)
  then have "result_ok src ms1 s (rec ms1 s p)" using assms(2) by (rule rec_ok)
  moreover have run: "startCapture rec ms s p what = Option.bind (rec ms1 s p)
      (\<lambda>(ms, r). Some (if r = Fail then (ms\<lparr>ms_level := ms_level ms - 1\<rparr>, Fail) else (ms, r)))"
    using False len by (simp add: startCapture_def ms1_def)
  ultimately show ?thesis
  proof (cases rule: result_okE)
    case (2 ms2)
    have "restored ms (ms2\<lparr>ms_level := ms_level ms2 - 1\<rparr>)"
      using 2(2) False by (auto simp: restored_def ms1_def set_capture_def nth_list_update)
    with 2(1) show ?thesis by (simp add: run)
  qed (simp_all add: run)
qed

lemma endCapture_ok:
  assumes "ms_ok ms s" "s \<le> length src"
  shows "result_ok src ms s (endCapture rec ms s p)"
proof -
  have len: "length (ms_captures ms) = maxCaptures" "ms_level ms \<le> maxCaptures"
    using assms(1) by (simp_all add: ms_ok_def)
  then obtain r where r: "captureToClose (ms_captures ms) (ms_level ms) = Some r"
    "closes (ms_captures ms) (ms_level ms) r"
    using captureToClose_spec [of "ms_level ms" "ms_captures ms"] by auto
  show ?thesis
  proof (cases r)
    case None
    with r(1) ms_ok_steps [OF assms(1)] show ?thesis by (simp add: endCapture_def)
  next
    case (Some l)
    with r(2) have l: "l < ms_level ms" "snd (ms_captures ms ! l) = capUnfinished" by (simp_all add: closes_def)
    define i where "i = fst (ms_captures ms ! l)"
    define ms1 where "ms1 = set_capture ms l (i, int s - i)"
    have "cap_ok s (ms_captures ms ! l)" using assms(1) l(1) by (simp add: ms_ok_def)
    then have i: "0 \<le> i" "i \<le> int s" by (simp_all add: cap_ok_def i_def)
    have "ms_ok ms1 s"
      using assms(1) len i l(1) by (auto simp: ms_ok_def ms1_def set_capture_def nth_list_update cap_ok_def)
    then have "result_ok src ms1 s (rec ms1 s p)" using assms(2) by (rule rec_ok)
    then show ?thesis
    proof (cases rule: result_okE)
      case (2 ms2)
      have "ms_captures ms2 ! l = (i, int s - i)"
        using 2(2) l(1) len by (simp add: restored_def ms1_def set_capture_def)
      then have "restored ms (set_capture ms2 l (fst (ms_captures ms2 ! l), capUnfinished))"
        using 2(2) l len
        by (auto simp: restored_def ms1_def set_capture_def nth_list_update i_def prod_eq_iff)
      with 2(1) r(1) Some show ?thesis by (simp add: endCapture_def Let_def ms1_def [symmetric] i_def [symmetric])
    qed (use r(1) Some in \<open>simp_all add: endCapture_def Let_def ms1_def [symmetric] i_def [symmetric]\<close>)
  qed
qed

lemma matchBalance_ok:
  assumes "ms_ok ms s" "s \<le> length src"
  shows "result_ok src ms s (matchBalance rec src pat ms s p)"
proof (cases "balance_scan (drop (s + 1) src) (pat ! p) (pat ! (p + 1)) 1 (s + 1)")
  case (Some i)
  have "result_ok src ms s (rec ms i (p + 2))" if "s < length src"
    using balance_scan_bound [OF Some] that assms(1)
    by (intro result_ok_mono [OF rec_ok, of ms i]) (auto intro: ms_ok_mono)
  with Some assms show ?thesis
    using ms_ok_steps [OF assms(1)] restored_refl [OF assms(1)] by (auto simp: matchBalance_def)
qed (use ms_ok_steps [OF assms(1)] restored_refl [OF assms(1)] in \<open>auto simp: matchBalance_def\<close>)

lemma matchCapture_ok:
  assumes "ms_ok ms s" "s \<le> length src"
  shows "result_ok src ms s (matchCapture rec src ms s p l)"
proof (cases "ms_level ms \<le> l \<or> snd (ms_captures ms ! l) < 0 \<or> int (length src) - int s < snd (ms_captures ms ! l)")
  case True
  then show ?thesis
    using assms(1) ms_ok_steps [OF assms(1)] restored_refl [OF assms(1)]
    by (auto simp: matchCapture_def ms_ok_def nth_opt_def)
next
  case False
  define c where "c = ms_captures ms ! l"
  have l: "l < length (ms_captures ms)" "cap_ok s c" using False assms(1) by (auto simp: ms_ok_def c_def)
  then have r: "0 \<le> fst c" "0 \<le> snd c" "fst c + snd c \<le> int s" "int s + snd c \<le> int (length src)"
    using False by (auto simp: cap_ok_def c_def capUnfinished_def capPosition_def)
  obtain x y where xy: "go_slice src (fst c) (fst c + snd c) = Some x" "go_slice src (int s) (int s + snd c) = Some y"
    using r assms(2) by (simp add: go_slice_def)
  have "result_ok src ms s (rec ms (s + nat (snd c)) (p + 2))"
    using r ms_ok_mono [OF assms(1), of "s + nat (snd c)"]
    by (intro result_ok_mono [OF rec_ok, of ms "s + nat (snd c)"]) auto
  with xy l(1) False restored_refl [OF assms(1)] show ?thesis
    by (simp add: matchCapture_def c_def [symmetric])
qed

lemma unit_ok:
  assumes "ms_ok ms s" "s \<le> length src" "item_at pat p = Unit" "p < length pat"
    and more: "\<And>ms s q. p < q \<Longrightarrow> ms_ok ms s \<Longrightarrow> s \<le> length src \<Longrightarrow> result_ok src ms s (match_loop rec src pat ms s q)"
  shows "result_ok src ms s (match_loop rec src pat ms s p)"
proof -
  note steps = ms_ok_steps [OF assms(1)] and same = restored_refl [OF assms(1)]
  obtain r where r: "classEnd pat p = Some r" using classEnd_total [OF assms(4)] by blast
  show ?thesis
  proof (cases r)
    case (Inl e)
    with r assms(3) steps show ?thesis by (simp add: match_loop.simps)
  next
    case (Inr ep)
    note ep = r [unfolded Inr]
    define quant where "quant = (if ep < length pat then pat ! ep else CHR 0x00)"
    obtain m where m: "singleMatch src pat s p ep = Some m" using singleMatch_total [OF ep] by blast
    have p: "p < ep" using classEnd_gt [OF ep] ..
    have s1: "ms_ok ms (s + 1)" using ms_ok_mono [OF assms(1), of "s + 1"] by simp
    have inside: "s + 1 \<le> length src" if m using that m singleMatch_inside [of src pat s p ep] by simp
    have opt: "result_ok src ms s (case (if m then rec ms (s + 1) (ep + 1) else Some (ms, Fail)) of
        None \<Rightarrow> None | Some (ms, r) \<Rightarrow> if r \<noteq> Fail then Some (ms, r) else match_loop rec src pat ms s (ep + 1))"
    proof (cases m)
      case True
      have "result_ok src ms (s + 1) (rec ms (s + 1) (ep + 1))" using rec_ok [OF s1] inside True by blast
      then show ?thesis
      proof (cases rule: result_okE)
        case (2 ms2)
        have "result_ok src ms2 s (match_loop rec src pat ms2 s (ep + 1))"
          using restored_ok [OF assms(1) 2(2)] assms(2) p by (intro more) auto
        then show ?thesis using 2 True result_ok_trans [of src ms2 s _ ms s] by simp
      qed (use True in simp_all)
    next
      case False
      with more [of "ep + 1" ms s] p assms(1,2) show ?thesis by simp
    qed
    have plus: "result_ok src ms s (maxExpand rec src pat ms (s + 1) p ep)" if m
      using maxExpand_ok [OF s1 inside ep] that result_ok_mono by (meson le_add1)
    have one: "result_ok src ms s (match_loop rec src pat ms (s + 1) ep)" if m
      using more [OF p s1 inside] that result_ok_mono by (meson le_add1)
    have run: "match_loop rec src pat ms s p =
       (if quant = CHR ''*'' then maxExpand rec src pat ms s p ep
        else if quant = CHR ''-'' then minExpand rec src pat ms s p ep
        else if quant = CHR ''?'' then
          (case (if m then rec ms (s + 1) (ep + 1) else Some (ms, Fail)) of
             None \<Rightarrow> None | Some (ms, r) \<Rightarrow> if r \<noteq> Fail then Some (ms, r) else match_loop rec src pat ms s (ep + 1))
        else if \<not> m then Some (ms, Fail)
        else if quant = CHR ''+'' then maxExpand rec src pat ms (s + 1) p ep
        else match_loop rec src pat ms (s + 1) ep)"
      unfolding quant_def by (subst match_loop.simps)
        (simp only: assms(3) ep m item.case option.case sum.case Let_def)
    have none: "result_ok src ms s (Some (ms, Fail))" using same by simp
    show ?thesis
      unfolding run
      by (rule choose_branch [where P = "result_ok src ms s",
          OF maxExpand_ok [OF assms(1,2) ep] minExpand_ok [OF assms(1,2) ep] opt none plus one])
  qed
qed

lemma match_loop_ok:
  "ms_ok ms s \<Longrightarrow> s \<le> length src \<Longrightarrow> result_ok src ms s (match_loop rec src pat ms s p)"
proof (induction "length pat - p" arbitrary: ms s p rule: less_induct)
  case less
  note steps = ms_ok_steps [OF less.prems(1)] and same = restored_refl [OF less.prems(1)]
  show ?case
  proof (cases "item_at pat p")
    case AtEnd
    with less.prems show ?thesis by (simp add: match_loop.simps)
  next
    case (OpenCap q what)
    then have "what = capUnfinished \<or> what = capPosition"
      by (auto simp: item_at_def Let_def split: if_splits)
    with OpenCap startCapture_ok [OF less.prems] show ?thesis by (simp add: match_loop.simps)
  next
    case CloseCap
    with endCapture_ok [OF less.prems] show ?thesis by (simp add: match_loop.simps)
  next
    case Anchor
    with less.prems same show ?thesis by (cases "s = length src") (simp_all add: match_loop.simps)
  next
    case Balance
    with matchBalance_ok [OF less.prems] show ?thesis by (simp add: match_loop.simps)
  next
    case (BackRef l)
    with matchCapture_ok [OF less.prems] show ?thesis by (simp add: match_loop.simps)
  next
    case BadRef
    with steps show ?thesis by (simp add: match_loop.simps)
  next
    case Frontier
    then have p: "p < length pat" by (auto simp: item_at_def split: if_splits)
    obtain r where r: "frontier src pat s p = Some r" using frontier_total [OF less.prems(2)] by blast
    show ?thesis
    proof (cases r)
      case (Inl e)
      with Frontier r steps show ?thesis by (simp add: match_loop.simps)
    next
      case (Inr q)
      show ?thesis
      proof (cases q)
        case None
        with Frontier r Inr same show ?thesis by (simp add: match_loop.simps)
      next
        case (Some fep)
        with r Inr p have "length pat - fep < length pat - p" using frontier_gt by (metis diff_less_mono2)
        with less Frontier r Inr Some show ?thesis by (simp add: match_loop.simps)
      qed
    qed
  next
    case Unit
    then have p: "p < length pat" by (auto simp: item_at_def split: if_splits)
    show ?thesis
    proof (rule unit_ok [OF less.prems Unit p])
      fix ms s q
      assume "p < q" "ms_ok ms s" "s \<le> length src"
      with p show "result_ok src ms s (match_loop rec src pat ms s q)"
        by (intro less.hyps) (simp_all add: diff_less_mono2)
    qed
  qed
qed

end

lemma match_at_ok: "ms_ok ms s \<Longrightarrow> s \<le> length src \<Longrightarrow> result_ok src ms s (match_at src pat d ms s p)"
proof (induction d arbitrary: ms s p)
  case 0
  then show ?case using ms_ok_steps [OF 0(1)] by (simp add: match_at.simps)
next
  case (Suc d)
  have deeper: "matching src (match_at src pat d)" by unfold_locales (rule Suc.IH)
  define ms1 where "ms1 = ms\<lparr>ms_steps := ms_steps ms + 1\<rparr>"
  show ?case
  proof (cases "maxMatchSteps < ms_steps ms1")
    case True
    then have "match_at src pat (Suc d) ms s p = Some (ms1, PErr too_complex)"
      by (subst match_at.simps) (simp add: ms1_def)
    then show ?thesis using ms_ok_steps(1) [OF Suc.prems(1)] by (simp add: ms1_def)
  next
    case False
    then have "match_at src pat (Suc d) ms s p = match_loop (match_at src pat d) src pat ms1 s p"
      by (subst match_at.simps) (simp add: ms1_def)
    moreover have "ms_ok ms1 s" using Suc.prems(1) False by (simp add: ms_ok_def ms1_def)
    then have "result_ok src ms1 s (match_loop (match_at src pat d) src pat ms1 s p)"
      using Suc.prems(2) by (rule matching.match_loop_ok [OF deeper])
    moreover have "restored ms ms1"
      using Suc.prems(1) False by (simp add: restored_def ms_ok_def ms1_def)
    ultimately show ?thesis using result_ok_trans by auto
  qed
qed

interpretation mt: matching src "match_at src pat d" for src pat d
  by unfold_locales (rule match_at_ok)

section \<open>The find loop\<close>

definition cap_inside :: "string \<Rightarrow> cap_result \<Rightarrow> bool" where
  "cap_inside src c \<longleftrightarrow> 0 \<le> cr_start c \<and> 0 \<le> cr_len c \<and> cr_start c + cr_len c \<le> int (length src)"

definition find_ok :: "string \<Rightarrow> nat \<Rightarrow> find_result option \<Rightarrow> bool" where
  "find_ok src from res \<longleftrightarrow>
     (\<exists>r. res = Some r \<and> (\<forall>s e caps. r = Inr (Some (s, e, caps)) \<longrightarrow>
        from \<le> s \<and> s \<le> e \<and> e \<le> length src \<and> length caps \<le> maxCaptures \<and> (\<forall>c\<in>set caps. cap_inside src c)))"

lemma collect_one_inside: "cap_ok e c \<Longrightarrow> e \<le> length src \<Longrightarrow> cap_inside src (collect_one c)"
  by (auto simp: cap_ok_def cap_inside_def collect_one_def)

lemma collectCaptures_ok:
  assumes "ms_ok ms e" "e \<le> length src"
  shows "\<exists>caps. collectCaptures ms = Some caps \<and> length caps \<le> maxCaptures \<and> (\<forall>c\<in>set caps. cap_inside src c)"
proof -
  have "cap_ok e c" if "c \<in> set (take (ms_level ms) (ms_captures ms))" for c
    using that assms(1) by (metis in_set_conv_nth length_take min_less_iff_conj nth_take ms_ok_def)
  then show ?thesis
    using assms by (auto simp: collectCaptures_def ms_ok_def intro: collect_one_inside)
qed

lemma find_loop_ok:
  "length (ms_captures ms) = maxCaptures \<Longrightarrow> ms_steps ms \<le> maxMatchSteps \<Longrightarrow> s \<le> length src \<Longrightarrow>
    find_ok src s (find_loop src pat anchored ms s p)"
proof (induction "length src - s" arbitrary: ms s rule: less_induct)
  case less
  have "ms_ok (ms\<lparr>ms_level := 0\<rparr>) s" using less.prems by (simp add: ms_ok_def)
  then have "result_ok src (ms\<lparr>ms_level := 0\<rparr>) s (match_at src pat maxMatchDepth (ms\<lparr>ms_level := 0\<rparr>) s p)"
    using less.prems(3) by (rule mt.rec_ok)
  then show ?case
  proof (cases rule: result_okE)
    case (1 ms' e)
    then show ?thesis by (subst find_loop.simps) (simp add: find_ok_def)
  next
    case (2 ms')
    show ?thesis
    proof (cases "anchored \<or> length src < s + 1")
      case True
      with 2 show ?thesis by (subst find_loop.simps) (simp add: find_ok_def)
    next
      case False
      then have "find_ok src (s + 1) (find_loop src pat anchored ms' (s + 1) p)"
        using 2(2) by (intro less.hyps) (auto simp: restored_def)
      then have "find_ok src s (find_loop src pat anchored ms' (s + 1) p)"
        by (auto simp: find_ok_def)
      with 2 False show ?thesis by (subst find_loop.simps) simp
    qed
  next
    case (3 ms' e)
    obtain caps where "collectCaptures ms' = Some caps" "length caps \<le> maxCaptures"
      "\<forall>c\<in>set caps. cap_inside src c"
      using collectCaptures_ok [OF 3(4,3)] by blast
    with 3 show ?thesis by (subst find_loop.simps) (simp add: find_ok_def)
  qed
qed

text \<open>C24. Every find returns, whatever the pattern: no index is out of range in either string or in the
  captures and no loop runs forever; and when it reports a match, the match starts at or after the
  requested position, ends inside the subject, and every reported capture lies inside the subject.\<close>

theorem find_safe:
  assumes "init \<le> length src"
  shows "\<exists>r. patternFindOpt src pat init allowAnchor = Some r \<and>
    (\<forall>s e caps. r = Inr (Some (s, e, caps)) \<longrightarrow>
       init \<le> s \<and> s \<le> e \<and> e \<le> length src \<and> length caps \<le> maxCaptures \<and> (\<forall>c\<in>set caps. cap_inside src c))"
  using find_loop_ok [of new_match_state init src] assms
  by (simp add: patternFindOpt_def Let_def find_ok_def new_match_state_def)

theorem find_safe_witness:
  "\<exists>r. patternFindOpt ''x = (1)'' ''(%a)%s*'' 0 True = Some r"
  using find_safe [of 0 "''x = (1)''" "''(%a)%s*''" True] by auto



end
