(* ===== verification/PatternFind.thy ===== *)
theory PatternFind
  imports PatternSpec
begin

text \<open>
  Two kinds of pattern of \<open>Pattern\<close> against a reference: a pattern without special characters finds
  the first occurrence of its text, and \<open>%bxy\<close> matches exactly the balanced stretches.
\<close>

section \<open>Plain patterns\<close>

definition plain :: "char \<Rightarrow> bool" where
  "plain c \<longleftrightarrow> c \<notin> set ''^$*+?.([%-)''"

definition occurs_at :: "string \<Rightarrow> string \<Rightarrow> nat \<Rightarrow> bool" where
  "occurs_at src w s \<longleftrightarrow> take (length w) (drop s src) = w"

lemma occurs_at_Nil [simp]: "occurs_at src [] s"
  by (simp add: occurs_at_def)

lemma occurs_at_Cons: "occurs_at src (c # w) s \<longleftrightarrow> s < length src \<and> src ! s = c \<and> occurs_at src w (s + 1)"
proof (cases "s < length src")
  case True
  then show ?thesis by (simp add: occurs_at_def Cons_nth_drop_Suc [symmetric])
qed (simp add: occurs_at_def)

lemma plain_unit:
  assumes "p < length pat" "\<forall>c\<in>set pat. plain c"
  shows "item_at pat p = Unit" and "classEnd pat p = Some (Inr (p + 1))"
    and "singleMatch src pat s p (p + 1) = Some (s < length src \<and> src ! s = pat ! p)"
proof -
  have "plain (pat ! p)" using assms by simp
  then have n: "pat ! p \<noteq> CHR ''(''" "pat ! p \<noteq> CHR '')''" "pat ! p \<noteq> CHR ''$''" "pat ! p \<noteq> CHR ''%''"
    "pat ! p \<noteq> CHR ''[''" "pat ! p \<noteq> CHR ''.''"
    by (auto simp: plain_def)
  show "item_at pat p = Unit" using n assms(1) by (simp add: item_at_def)
  show "classEnd pat p = Some (Inr (p + 1))" using n assms(1) by (simp add: classEnd_def)
  show "singleMatch src pat s p (p + 1) = Some (s < length src \<and> src ! s = pat ! p)"
    using n assms(1) by (auto simp: singleMatch_def)
qed

lemma plain_quant:
  assumes "\<forall>c\<in>set pat. plain c"
  shows "(if q < length pat then pat ! q else CHR 0x00) \<notin> {CHR ''*'', CHR ''-'', CHR ''?'', CHR ''+''}"
  using assms by (auto simp: plain_def dest: nth_mem)

lemma plain_loop:
  assumes "\<forall>c\<in>set pat. plain c"
  shows "p \<le> length pat \<Longrightarrow> match_loop rec src pat ms s p =
    Some (ms, if occurs_at src (drop p pat) s then End (s + (length pat - p)) else Fail)"
proof (induction "length pat - p" arbitrary: s p rule: less_induct)
  case less
  show ?case
  proof (cases "p = length pat")
    case True
    then show ?thesis by (simp add: match_loop.simps item_at_def)
  next
    case False
    with less.prems have p: "p < length pat" by simp
    note u = plain_unit [OF p assms]
    have d: "drop p pat = pat ! p # drop (p + 1) pat" using p by (simp add: Cons_nth_drop_Suc)
    have next_loop: "match_loop rec src pat ms (s + 1) (p + 1) =
        Some (ms, if occurs_at src (drop (p + 1) pat) (s + 1) then End (s + 1 + (length pat - (p + 1))) else Fail)"
      using p by (intro less.hyps) auto
    have "match_loop rec src pat ms s p =
        (if s < length src \<and> src ! s = pat ! p then match_loop rec src pat ms (s + 1) (p + 1) else Some (ms, Fail))"
      using plain_quant [OF assms, of "p + 1"]
      by (subst match_loop.simps, simp only: u item.case option.case sum.case Let_def insert_iff empty_iff de_Morgan_disj if_False simp_thms
          split: if_split, blast)
    then show ?thesis
      using p by (auto simp only: next_loop d occurs_at_Cons) auto
  qed
qed

definition first_at :: "string \<Rightarrow> string \<Rightarrow> nat \<Rightarrow> (nat \<times> nat \<times> cap_result list) option \<Rightarrow> bool" where
  "first_at src w from r \<longleftrightarrow>
     (case r of
        None \<Rightarrow> (\<forall>t. from \<le> t \<and> t \<le> length src \<longrightarrow> \<not> occurs_at src w t)
      | Some (s, e, caps) \<Rightarrow> from \<le> s \<and> occurs_at src w s \<and> e = s + length w \<and> caps = [] \<and>
          (\<forall>t. from \<le> t \<and> t < s \<longrightarrow> \<not> occurs_at src w t))"

lemma first_at_later: "first_at src w (n + 1) r \<Longrightarrow> \<not> occurs_at src w n \<Longrightarrow> first_at src w n r"
  by (cases r) (auto simp: first_at_def Suc_le_eq, metis nat_less_le, metis nat_less_le)

lemma plain_match_at:
  assumes "\<forall>c\<in>set pat. plain c" "ms_steps ms < maxMatchSteps" "0 < d"
  shows "match_at src pat d ms s 0 =
    Some (ms\<lparr>ms_steps := ms_steps ms + 1\<rparr>, if occurs_at src pat s then End (s + length pat) else Fail)"
  using assms by (subst match_at.simps) (simp add: plain_loop [OF assms(1)])

lemma plain_find_loop:
  assumes "\<forall>c\<in>set pat. plain c"
  shows "s \<le> length src \<Longrightarrow> ms_steps ms + (length src - s) < maxMatchSteps \<Longrightarrow>
    \<exists>r. find_loop src pat False ms s 0 = Some (Inr r) \<and> first_at src pat s r"
proof (induction "length src - s" arbitrary: ms s rule: less_induct)
  case less
  define ms1 where "ms1 = ms\<lparr>ms_level := 0\<rparr>\<lparr>ms_steps := ms_steps ms + 1\<rparr>"
  have run: "match_at src pat maxMatchDepth (ms\<lparr>ms_level := 0\<rparr>) s 0 =
      Some (ms1, if occurs_at src pat s then End (s + length pat) else Fail)"
    using plain_match_at [OF assms, of "ms\<lparr>ms_level := 0\<rparr>" maxMatchDepth src s] less.prems(2)
    by (simp add: ms1_def maxMatchDepth_def)
  show ?case
  proof (cases "occurs_at src pat s")
    case True
    have "collectCaptures ms1 = Some []" by (simp add: collectCaptures_def ms1_def)
    with True run show ?thesis by (subst find_loop.simps) (auto simp: first_at_def)
  next
    case False
    show ?thesis
    proof (cases "length src < s + 1")
      case True
      then have "t = s" if "s \<le> t" "t \<le> length src" for t using that by simp
      with False have "\<forall>t. s \<le> t \<and> t \<le> length src \<longrightarrow> \<not> occurs_at src pat t" by blast
      with True False run show ?thesis by (subst find_loop.simps) (simp add: first_at_def)
    next
      case more: False
      with less.prems obtain r where "find_loop src pat False ms1 (s + 1) 0 = Some (Inr r)" "first_at src pat (s + 1) r"
      proof -
        have "s + 1 \<le> length src" "length src - (s + 1) < length src - s" using more by auto
        moreover from this have "ms_steps ms1 + (length src - (s + 1)) < maxMatchSteps"
          using less.prems(2) by (simp add: ms1_def)
        ultimately show ?thesis using less.hyps [of "s + 1" ms1] that by blast
      qed
      with False more run first_at_later show ?thesis by (subst find_loop.simps) auto
    qed
  qed
qed

text \<open>C25. A pattern without special characters is a substring search: the find reports the first occurrence
  of the pattern's text at or after the start, without captures, and nothing exactly when there is
  none (for a subject short enough for the step budget).\<close>

theorem plain_find:
  assumes "\<forall>c\<in>set pat. plain c" "init \<le> length src" "length src - init < maxMatchSteps"
  shows "\<exists>r. patternFindOpt src pat init allowAnchor = Some (Inr r) \<and> first_at src pat init r"
proof -
  have "\<not> (allowAnchor \<and> pat \<noteq> [] \<and> hd pat = CHR ''^'')"
    using assms(1) by (cases pat) (auto simp: plain_def)
  then show ?thesis
    using plain_find_loop [OF assms(1,2), of new_match_state] assms(3)
    by (auto simp: patternFindOpt_def Let_def new_match_state_def)
qed

theorem plain_find_witness:
  "\<exists>r. patternFindOpt ''hello world'' ''o w'' 1 True = Some (Inr r) \<and> first_at ''hello world'' ''o w'' 1 r"
  by (rule plain_find) (simp_all add: plain_def maxMatchSteps_def)

section \<open>Balanced stretches\<close>

definition part :: "string \<Rightarrow> nat \<Rightarrow> nat \<Rightarrow> string" where
  "part src s e = take (e - s) (drop s src)"

definition balanced_to :: "string \<Rightarrow> char \<Rightarrow> char \<Rightarrow> nat \<Rightarrow> nat \<Rightarrow> bool" where
  "balanced_to src x y s e \<longleftrightarrow>
     s < e \<and> e \<le> length src \<and> src ! s = x \<and> count_list (part src s e) y = count_list (part src s e) x \<and>
     (\<forall>k. s < k \<and> k < e \<longrightarrow> count_list (part src s k) y < count_list (part src s k) x)"

text \<open>The scan stops after the first prefix in which the closers make up for the openers.\<close>

definition closes_after :: "string \<Rightarrow> char \<Rightarrow> char \<Rightarrow> nat \<Rightarrow> nat \<Rightarrow> bool" where
  "closes_after r b e cont n \<longleftrightarrow> 0 < n \<and> n \<le> length r \<and>
     count_list (take n r) e = cont + count_list (take n r) b \<and>
     (\<forall>m<n. count_list (take m r) e < cont + count_list (take m r) b)"

lemma closes_after_0: "0 < cont \<Longrightarrow> (\<forall>m<Suc n. P m) \<longleftrightarrow> P 0 \<and> (\<forall>m<n. P (Suc m))" for P
  by (metis less_Suc_eq_0_disj)

lemma closes_after_Cons:
  assumes "b \<noteq> e" "0 < cont"
  shows "closes_after (c # r) b e cont (Suc n) \<longleftrightarrow>
    (if c = e \<and> cont = 1 then n = 0
     else 0 < n \<and> closes_after r b e (if c = e then cont - 1 else if c = b then cont + 1 else cont) n)"
  using assms
  by (cases n) (auto simp: closes_after_def closes_after_0 [OF assms(2)] split: if_splits)

lemma balance_scan_iff:
  "b \<noteq> e \<Longrightarrow> 0 < cont \<Longrightarrow> balance_scan r b e cont i = Some j \<longleftrightarrow> i \<le> j \<and> closes_after r b e cont (j - i)"
proof (induction r b e cont i rule: balance_scan.induct)
  case (1 b e cont i)
  then show ?case by (simp add: closes_after_def)
next
  case (2 c r b e cont i)
  show ?case
  proof (cases "j - i")
    case 0
    moreover have "balance_scan (c # r) b e cont i \<noteq> Some j"
      using balance_scan_bound [of "c # r" b e cont i j] 0 by auto
    ultimately show ?thesis by (simp add: closes_after_def)
  next
    case (Suc n)
    then have j: "i \<le> j" "j - (i + 1) = n" "i + 1 \<le> j" by auto
    have pos: "closes_after r b e k n \<Longrightarrow> 0 < n" for k by (simp add: closes_after_def)
    note step = closes_after_Cons [OF 2(4,5), of c r n]
    consider "c = e" "cont = 1" | "c = e" "cont \<noteq> 1" | "c \<noteq> e" "c = b" | "c \<noteq> e" "c \<noteq> b" by blast
    then show ?thesis
    proof cases
      case 1
      with step j(1,2) Suc show ?thesis by auto
    next
      case c: 2
      with 2(1) [OF c 2(4)] 2(5) have "balance_scan r b e (cont - 1) (i + 1) = Some j \<longleftrightarrow> i + 1 \<le> j \<and> closes_after r b e (cont - 1) (j - (i + 1))"
        by simp
      with c step j Suc pos show ?thesis by auto
    next
      case c: 3
      from 2(2) [OF c 2(4)] have "balance_scan r b e (cont + 1) (i + 1) = Some j \<longleftrightarrow> i + 1 \<le> j \<and> closes_after r b e (cont + 1) (j - (i + 1))"
        by simp
      with c step j Suc pos show ?thesis by auto
    next
      case c: 4
      from 2(3) [OF c 2(4,5)] have "balance_scan r b e cont (i + 1) = Some j \<longleftrightarrow> i + 1 \<le> j \<and> closes_after r b e cont (j - (i + 1))"
        by simp
      with c step j Suc pos show ?thesis by auto
    qed
  qed
qed

lemma part_Cons: "s < length src \<Longrightarrow> part src s (s + 1 + n) = src ! s # take n (drop (s + 1) src)"
  by (simp add: part_def Cons_nth_drop_Suc [symmetric])

lemma balanced_closes:
  assumes "x \<noteq> y" "s < length src" "src ! s = x" "n \<le> length (drop (s + 1) src)" "0 < n"
  shows "balanced_to src x y s (s + 1 + n) \<longleftrightarrow> closes_after (drop (s + 1) src) x y 1 n"
proof -
  have split_all: "(\<forall>k. s < k \<and> k < s + 1 + n \<longrightarrow> P k) \<longleftrightarrow> (\<forall>m<n. P (s + 1 + m))" for P
  proof (intro iffI allI impI)
    fix k assume "\<forall>m<n. P (s + 1 + m)" "s < k \<and> k < s + 1 + n"
    then show "P k" by (auto dest: spec [of _ "k - s - 1"])
  qed auto
  show ?thesis
    using assms by (simp add: balanced_to_def closes_after_def split_all part_Cons del: One_nat_def) auto
qed

lemma balanced_bounds: "x \<noteq> y \<Longrightarrow> balanced_to src x y s e \<Longrightarrow> s + 1 < e"
proof (rule ccontr)
  assume b: "x \<noteq> y" "balanced_to src x y s e" "\<not> s + 1 < e"
  then have "e = s + 1 + 0" "s < length src" by (auto simp: balanced_to_def)
  with b show False using part_Cons [of s src 0] by (simp add: balanced_to_def)
qed

lemma balance_scan_balanced:
  assumes "x \<noteq> y" "s < length src" "src ! s = x"
  shows "balance_scan (drop (s + 1) src) x y 1 (s + 1) = Some j \<longleftrightarrow> balanced_to src x y s j"
proof (cases "s + 1 < j \<and> j \<le> length src")
  case True
  define n where "n = j - (s + 1)"
  have j: "j = s + 1 + n" "0 < n" "n \<le> length (drop (s + 1) src)" using True by (auto simp: n_def intro: diff_le_mono)
  have "closes_after (drop (s + 1) src) x y 1 n \<longleftrightarrow> balanced_to src x y s j"
    unfolding j(1) by (rule balanced_closes [OF assms j(3,2), symmetric])
  then show ?thesis
    using balance_scan_iff [OF assms(1), of 1 "drop (s + 1) src" "s + 1" j] True by (simp add: n_def)
next
  case False
  moreover have "j \<le> length src" if "balanced_to src x y s j" using that by (simp add: balanced_to_def)
  ultimately have "\<not> balanced_to src x y s j" using balanced_bounds [OF assms(1), of src s j] by blast
  moreover have "balance_scan (drop (s + 1) src) x y 1 (s + 1) \<noteq> Some j"
    using balance_scan_bound [of "drop (s + 1) src" x y 1 "s + 1" j] False assms(2) by auto
  ultimately show ?thesis by simp
qed

lemma match_end:
  assumes "ms_steps ms < maxMatchSteps" "0 < d" "length pat \<le> p"
  shows "match_at src pat d ms s p = Some (ms\<lparr>ms_steps := ms_steps ms + 1\<rparr>, End s)"
  using assms by (subst match_at.simps) (simp add: match_loop.simps item_at_def)

text \<open>C26. The balanced item: \<open>%bxy\<close> with two different characters matches, at a given start, exactly the
  stretch that begins with \<open>x\<close>, has as many \<open>y\<close> as \<open>x\<close>, and has more \<open>x\<close> than \<open>y\<close> in every shorter
  prefix, and fails when there is none.\<close>

theorem balance_match:
  assumes "x \<noteq> y" "2 \<le> d" "ms_steps ms + 2 \<le> maxMatchSteps"
  shows "\<exists>ms' r. match_at src (''%b'' @ [x, y]) d ms s 0 = Some (ms', r) \<and>
    (\<forall>e. r = End e \<longleftrightarrow> balanced_to src x y s e)"
proof -
  let ?pat = "''%b'' @ [x, y]" and ?ms = "ms\<lparr>ms_steps := ms_steps ms + 1\<rparr>"
  have item: "item_at ?pat 0 = Balance" by (simp add: item_at_def)
  have "match_loop rec src ?pat ms' s 0 = matchBalance rec src ?pat ms' s 2" for rec ms'
    by (subst match_loop.simps) (simp only: item item.case add_0)
  then have run: "match_at src ?pat d ms s 0 = matchBalance (match_at src ?pat (d - 1)) src ?pat ?ms s 2"
    using assms(2,3) by (subst match_at.simps) simp
  show ?thesis
  proof (cases "s < length src \<and> src ! s = x")
    case False
    then have "\<not> balanced_to src x y s e" for e by (auto simp: balanced_to_def)
    with run False show ?thesis by (auto simp: matchBalance_def)
  next
    case True
    note scan = balance_scan_balanced [OF assms(1), of s src]
    show ?thesis
    proof (cases "balance_scan (drop (s + 1) src) x y 1 (s + 1)")
      case None
      with scan True have "\<not> balanced_to src x y s e" for e by (metis option.distinct(1))
      with run True None show ?thesis by (auto simp: matchBalance_def)
    next
      case (Some i)
      have "match_at src ?pat (d - 1) ?ms i 4 = Some (?ms\<lparr>ms_steps := ms_steps ?ms + 1\<rparr>, End i)"
        using assms(2,3) by (intro match_end) auto
      with run True Some have "match_at src ?pat d ms s 0 = Some (?ms\<lparr>ms_steps := ms_steps ?ms + 1\<rparr>, End i)"
        by (simp add: matchBalance_def)
      moreover have "End i = End e \<longleftrightarrow> balanced_to src x y s e" for e
        using scan [of e] True Some by simp
      ultimately show ?thesis by auto
    qed
  qed
qed

theorem balance_match_witness:
  "\<exists>ms' r. match_at ''x(a(b)c)y'' (''%b'' @ ''()'') 200 new_match_state 1 0 = Some (ms', r) \<and>
    (\<forall>e. r = End e \<longleftrightarrow> balanced_to ''x(a(b)c)y'' CHR ''('' CHR '')'' 1 e)"
  by (rule balance_match) (simp_all add: new_match_state_def maxMatchSteps_def)

end
