(* ===== verification/FloatArith.thy ===== *)
theory FloatArith
  imports Float64
begin

text \<open>
  The arithmetic on \<open>float64\<close> the numeral scanner uses, on nonnegative numbers: every operation is
  the exact rational result rounded to the nearest representable number, ties to even, as IEEE 754
  and the Go language prescribe. A nonnegative rational is a numerator and a denominator.
\<close>

section \<open>Rounding\<close>

definition f64_inf :: f64 where "f64_inf = 0x7FF0000000000000"

text \<open>The exponent \<open>e\<close> with \<open>2 ^ e \<le> num / den < 2 ^ (e + 1)\<close>.\<close>

definition rat_expo :: "nat \<Rightarrow> nat \<Rightarrow> int" where
  "rat_expo num den =
     (let e = int (log2_nat num) - int (log2_nat den)
      in if (if 0 \<le> e then num < den * 2 ^ nat e else num * 2 ^ nat (- e) < den) then e - 1 else e)"

text \<open>\<open>num / den / 2 ^ q\<close> as a quotient and whether the rest rounds it up.\<close>

definition round_quotient :: "nat \<Rightarrow> nat \<Rightarrow> int \<Rightarrow> nat" where
  "round_quotient num den q =
     (let n = (if 0 \<le> q then num else num * 2 ^ nat (- q));
          d = (if 0 \<le> q then den * 2 ^ nat q else den);
          m = n div d; r = n mod d
      in if d < 2 * r \<or> (2 * r = d \<and> odd m) then m + 1 else m)"

definition f64_round :: "nat \<Rightarrow> nat \<Rightarrow> f64" where
  "f64_round num den =
     (if num = 0 then 0
      else let e = rat_expo num den;
               q = (if e < - 1022 then - 1074 else e - 52);
               bits = nat (q + 1074) * 2 ^ 52 + round_quotient num den q
           in if 2047 * 2 ^ 52 \<le> bits then f64_inf else word_of_nat bits)"

text \<open>The exact value of a nonnegative finite number.\<close>

definition f64_rat :: "f64 \<Rightarrow> nat \<times> nat" where
  "f64_rat f =
     (let e = f64_expo f; m = f64_frac f;
          m' = (if e = 0 then m else m + 2 ^ 52);
          e' = (if e = 0 then 1 else e)
      in if 1075 \<le> e' then (m' * 2 ^ (e' - 1075), 1) else (m', 2 ^ (1075 - e')))"

section \<open>Operations on nonnegative numbers\<close>

definition f64_add_nn :: "f64 \<Rightarrow> f64 \<Rightarrow> f64" where
  "f64_add_nn x y =
     (if x = f64_inf \<or> y = f64_inf then f64_inf
      else let (n1, d1) = f64_rat x; (n2, d2) = f64_rat y in f64_round (n1 * d2 + n2 * d1) (d1 * d2))"

definition f64_mul_nn :: "f64 \<Rightarrow> f64 \<Rightarrow> f64" where
  "f64_mul_nn x y =
     (if x = f64_inf \<or> y = f64_inf then f64_inf
      else let (n1, d1) = f64_rat x; (n2, d2) = f64_rat y in f64_round (n1 * n2) (d1 * d2))"

text \<open>\<open>math.Ldexp\<close> for a nonnegative exponent.\<close>

definition f64_ldexp :: "f64 \<Rightarrow> nat \<Rightarrow> f64" where
  "f64_ldexp x n =
     (if x = f64_inf then f64_inf else let (n1, d1) = f64_rat x in f64_round (n1 * 2 ^ n) d1)"

text \<open>The decimal \<open>m * 10 ^ e\<close>.\<close>

definition f64_decimal :: "nat \<Rightarrow> int \<Rightarrow> f64" where
  "f64_decimal m e = (if 0 \<le> e then f64_round (m * 10 ^ nat e) 1 else f64_round m (10 ^ nat (- e)))"

end
