(* ===== verification/Token.thy ===== *)
theory Token
  imports FloatArith
begin

text \<open>
  The token type of \<open>internal/frontend/token/token.go\<close>. Go strings are Isabelle strings, one
  \<open>char\<close> per byte.
\<close>

datatype kind =
    EOF | NUMBER | STRING | NAME
  | KW_AND | KW_BREAK | KW_DO | KW_ELSE | KW_ELSEIF | KW_END | KW_FALSE | KW_FOR | KW_FUNCTION
  | KW_IF | KW_IN | KW_LOCAL | KW_NIL | KW_NOT | KW_OR | KW_REPEAT | KW_RETURN | KW_THEN | KW_TRUE
  | KW_UNTIL | KW_WHILE
  | PLUS | MINUS | STAR | SLASH | PERCENT | CARET | HASH | EQ | LPAREN | RPAREN | LBRACE | RBRACE
  | LBRACK | RBRACK | SEMI | COLON | COMMA | DOT
  | EQEQ | NEQ | LT | LE | GT | GE | CONCAT | ELLIPSIS
  | CHAR_TOK

record token =
  tk_Kind :: kind
  tk_Line :: u32
  tk_EndLine :: u32
  tk_Num :: f64
  tk_Str :: string
  tk_Text :: string

text \<open>A token with the zero value in every field but kind and line.\<close>

definition mk_token :: "kind \<Rightarrow> u32 \<Rightarrow> token" where
  "mk_token k line =
     \<lparr>tk_Kind = k, tk_Line = line, tk_EndLine = 0, tk_Num = 0, tk_Str = [], tk_Text = []\<rparr>"

definition Keywords :: "(string \<times> kind) list" where
  "Keywords =
     [(''and'', KW_AND), (''break'', KW_BREAK), (''do'', KW_DO), (''else'', KW_ELSE),
      (''elseif'', KW_ELSEIF), (''end'', KW_END), (''false'', KW_FALSE), (''for'', KW_FOR),
      (''function'', KW_FUNCTION), (''if'', KW_IF), (''in'', KW_IN), (''local'', KW_LOCAL),
      (''nil'', KW_NIL), (''not'', KW_NOT), (''or'', KW_OR), (''repeat'', KW_REPEAT),
      (''return'', KW_RETURN), (''then'', KW_THEN), (''true'', KW_TRUE), (''until'', KW_UNTIL),
      (''while'', KW_WHILE)]"

fun kindNames :: "kind \<Rightarrow> string" where
  "kindNames EOF = ''<eof>''" | "kindNames NUMBER = ''<number>''" | "kindNames STRING = ''<string>''"
| "kindNames NAME = ''<name>''" | "kindNames KW_AND = ''and''" | "kindNames KW_BREAK = ''break''"
| "kindNames KW_DO = ''do''" | "kindNames KW_ELSE = ''else''" | "kindNames KW_ELSEIF = ''elseif''"
| "kindNames KW_END = ''end''" | "kindNames KW_FALSE = ''false''" | "kindNames KW_FOR = ''for''"
| "kindNames KW_FUNCTION = ''function''" | "kindNames KW_IF = ''if''" | "kindNames KW_IN = ''in''"
| "kindNames KW_LOCAL = ''local''" | "kindNames KW_NIL = ''nil''" | "kindNames KW_NOT = ''not''"
| "kindNames KW_OR = ''or''" | "kindNames KW_REPEAT = ''repeat''" | "kindNames KW_RETURN = ''return''"
| "kindNames KW_THEN = ''then''" | "kindNames KW_TRUE = ''true''" | "kindNames KW_UNTIL = ''until''"
| "kindNames KW_WHILE = ''while''" | "kindNames PLUS = ''+''" | "kindNames MINUS = ''-''"
| "kindNames STAR = ''*''" | "kindNames SLASH = ''/''" | "kindNames PERCENT = ''%''"
| "kindNames CARET = ''^''" | "kindNames HASH = ''#''" | "kindNames EQ = ''=''"
| "kindNames LPAREN = ''(''" | "kindNames RPAREN = '')''" | "kindNames LBRACE = ''{''"
| "kindNames RBRACE = ''}''" | "kindNames LBRACK = ''[''" | "kindNames RBRACK = '']''"
| "kindNames SEMI = '';''" | "kindNames COLON = '':''" | "kindNames COMMA = '',''"
| "kindNames DOT = ''.''" | "kindNames EQEQ = ''==''" | "kindNames NEQ = ''~=''"
| "kindNames LT = ''<''" | "kindNames LE = ''<=''" | "kindNames GT = ''>''" | "kindNames GE = ''>=''"
| "kindNames CONCAT = ''..''" | "kindNames ELLIPSIS = ''...''" | "kindNames CHAR_TOK = []"

text \<open>\<open>KindName\<close>: \<open>CHAR\<close>, number 51, has no name and is shown by its number.\<close>

definition KindName :: "kind \<Rightarrow> string" where
  "KindName k = (if kindNames k \<noteq> [] then kindNames k else ''Kind(51)'')"

text \<open>Decimal digits of a number (\<open>fmt.Sprintf("%d", ..)\<close>).\<close>

fun show_nat :: "nat \<Rightarrow> string" where
  "show_nat n = (if n < 10 then [char_of (48 + n)] else show_nat (n div 10) @ [char_of (48 + n mod 10)])"

declare show_nat.simps [simp del]

text \<open>\<open>Token.String\<close>; \<open>fmt_num\<close> is \<open>fmt\<close>'s rendering of a number, used for a number token without
  text. \<open>None\<close> is the panic of \<open>t.Str[0]\<close> on an empty string.\<close>

definition token_String :: "(f64 \<Rightarrow> string) \<Rightarrow> token \<Rightarrow> string option" where
  "token_String fmt_num t =
     (case tk_Kind t of
        NUMBER \<Rightarrow> Some (if tk_Text t \<noteq> [] then tk_Text t else fmt_num (tk_Num t))
      | STRING \<Rightarrow> Some (if tk_Text t \<noteq> [] then tk_Text t else tk_Str t)
      | NAME \<Rightarrow> Some (tk_Str t)
      | CHAR_TOK \<Rightarrow> do {
          c \<leftarrow> nth_opt (tk_Str t) 0;
          let n = (of_char c :: nat);
          Some (if n < 32 \<or> n = 127 then ''char('' @ show_nat n @ '')'' else tk_Str t) }
      | k \<Rightarrow> Some (KindName k))"

definition HasNear :: "token \<Rightarrow> bool" where
  "HasNear t \<longleftrightarrow> tk_Kind t \<noteq> CHAR_TOK \<or> tk_Str t \<noteq> [CHR 0x00]"

definition Near :: "string \<Rightarrow> string" where
  "Near text = '' near '' @ [CHR 0x27] @ takeWhile (\<lambda>c. c \<noteq> CHR 0x00) text @ [CHR 0x27]"

end
