(* ===== verification/Lexer.thy ===== *)
theory Lexer
  imports Token Bytecode
begin

text \<open>
  The scanner of \<open>internal/frontend/lex/lexer.go\<close>.

  The Go lexer keeps the source and a position; here the state is the unread suffix
  \<open>src[pos:]\<close>, so \<open>pos\<close> is the length of what has been read, \<open>l.src[l.pos + i]\<close> the \<open>i\<close>-th element
  of the suffix, \<open>atEnd\<close> its emptiness, \<open>l.pos += n\<close> dropping \<open>n\<close> elements, and a slice
  \<open>src[start:pos]\<close> the part of the suffix at \<open>start\<close> that the suffix at \<open>pos\<close> lacks. A loop that
  advances while a test holds is \<open>dropWhile\<close>. A result with an error is a sum, the error left.
\<close>

record lexer =
  l_rest :: string
  l_line :: u32
  l_source :: string

record lex_error =
  le_Source :: string
  le_Line :: u32
  le_Msg :: string

definition lexer_New :: "string \<Rightarrow> string \<Rightarrow> lexer" where
  "lexer_New src source = \<lparr>l_rest = src, l_line = 1, l_source = source\<rparr>"

definition Source :: "lexer \<Rightarrow> string" where "Source l = l_source l"
definition Line :: "lexer \<Rightarrow> u32" where "Line l = l_line l"

definition errorNear :: "lexer \<Rightarrow> string \<Rightarrow> string \<Rightarrow> lex_error" where
  "errorNear l msg text = \<lparr>le_Source = l_source l, le_Line = l_line l, le_Msg = msg @ Near text\<rparr>"

definition peek :: "lexer \<Rightarrow> nat \<Rightarrow> char" where
  "peek l off = (if length (l_rest l) \<le> off then CHR 0x00 else l_rest l ! off)"

definition atEnd :: "lexer \<Rightarrow> bool" where "atEnd l \<longleftrightarrow> l_rest l = []"

text \<open>\<open>l.pos += n\<close>, and the slice between two suffixes.\<close>

definition advance :: "nat \<Rightarrow> lexer \<Rightarrow> lexer" where
  "advance n l = l\<lparr>l_rest := drop n (l_rest l)\<rparr>"

definition slice :: "string \<Rightarrow> string \<Rightarrow> string" where
  "slice from to = take (length from - length to) from"

section \<open>Character classes\<close>

definition NL :: char where "NL = CHR 0x0A"
definition CR :: char where "CR = CHR 0x0D"

definition is_newline :: "char \<Rightarrow> bool" where "is_newline c \<longleftrightarrow> c = NL \<or> c = CR"

definition code_of :: "char \<Rightarrow> nat" where "code_of c = of_char c"

definition isDigit :: "char \<Rightarrow> bool" where
  "isDigit c \<longleftrightarrow> 48 \<le> code_of c \<and> code_of c \<le> 57"

definition isAlpha :: "char \<Rightarrow> bool" where
  "isAlpha c \<longleftrightarrow> (65 \<le> code_of c \<and> code_of c \<le> 90) \<or> (97 \<le> code_of c \<and> code_of c \<le> 122)"

definition isHexDigit :: "char \<Rightarrow> bool" where
  "isHexDigit c \<longleftrightarrow> isDigit c \<or> (97 \<le> code_of c \<and> code_of c \<le> 102) \<or> (65 \<le> code_of c \<and> code_of c \<le> 70)"

definition is_name_char :: "char \<Rightarrow> bool" where
  "is_name_char c \<longleftrightarrow> isAlpha c \<or> isDigit c \<or> c = CHR ''_''"

section \<open>Newlines\<close>

text \<open>The position is at a newline character when \<open>inclineFromCurrent\<close> is called.\<close>

definition newline_pair :: "char \<Rightarrow> char \<Rightarrow> bool" where
  "newline_pair c d \<longleftrightarrow> (c = NL \<and> d = CR) \<or> (c = CR \<and> d = NL)"

definition inclineFromCurrent :: "lexer \<Rightarrow> lexer" where
  "inclineFromCurrent l =
     (let cur = hd (l_rest l); l = advance 1 l;
          l = (if \<not> atEnd l \<and> newline_pair cur (hd (l_rest l)) then advance 1 l else l)
      in l\<lparr>l_line := l_line l + 1\<rparr>)"

fun normalizeNewlines :: "string \<Rightarrow> string" where
  "normalizeNewlines [] = []"
| "normalizeNewlines [c] = (if is_newline c then [NL] else [c])"
| "normalizeNewlines (c # d # r) =
     (if \<not> is_newline c then c # normalizeNewlines (d # r)
      else NL # normalizeNewlines (if is_newline d \<and> d \<noteq> c then r else d # r))"

lemma length_advance: "length (l_rest (advance n l)) = length (l_rest l) - n"
  by (simp add: advance_def)

lemma length_incline: "l_rest l \<noteq> [] \<Longrightarrow> length (l_rest (inclineFromCurrent l)) < length (l_rest l)"
  by (cases "l_rest l") (auto simp: inclineFromCurrent_def Let_def length_advance)

lemma length_incline_Cons: "l_rest l = c # cs \<Longrightarrow> length (l_rest (inclineFromCurrent l)) < Suc (length cs)"
  using length_incline [of l] by simp

section \<open>Long brackets\<close>

definition tryReadLongBracketOpen :: "lexer \<Rightarrow> (nat \<times> lexer) option" where
  "tryReadLongBracketOpen l =
     (if atEnd l \<or> hd (l_rest l) \<noteq> CHR ''['' then None
      else let r = tl (l_rest l);
               level = length (takeWhile (\<lambda>c. c = CHR ''='') r);
               r = drop level r
           in if r \<noteq> [] \<and> hd r = CHR ''[''
              then let l = l\<lparr>l_rest := tl r\<rparr>
                   in Some (level, if \<not> atEnd l \<and> is_newline (hd (l_rest l)) then inclineFromCurrent l else l)
              else None)"

definition matchNestedOpen :: "lexer \<Rightarrow> bool" where
  "matchNestedOpen l \<longleftrightarrow> 1 < length (l_rest l) \<and> l_rest l ! 1 = CHR ''[''"

definition matchLongBracketClose :: "lexer \<Rightarrow> nat \<Rightarrow> lexer option" where
  "matchLongBracketClose l level =
     (if hd (l_rest l) \<noteq> CHR '']'' then None
      else let r = tl (l_rest l);
               count = length (takeWhile (\<lambda>c. c = CHR ''='') (take level r));
               r = drop count r
           in if count = level \<and> r \<noteq> [] \<and> hd r = CHR '']'' then Some (l\<lparr>l_rest := tl r\<rparr>) else None)"

lemma length_incline_le: "length (l_rest (if \<not> atEnd l \<and> b then inclineFromCurrent l else l)) \<le> length (l_rest l)"
  using length_incline [of l] by (auto simp: atEnd_def)

lemma length_open: "tryReadLongBracketOpen l = Some (n, l') \<Longrightarrow> length (l_rest l') < length (l_rest l)"
proof -
  assume open_ok: "tryReadLongBracketOpen l = Some (n, l')"
  define r where "r = drop n (tl (l_rest l))"
  define m where "m = l\<lparr>l_rest := tl r\<rparr>"
  from open_ok have "l' = (if \<not> atEnd m \<and> is_newline (hd (l_rest m)) then inclineFromCurrent m else m)"
    and "l_rest l \<noteq> []" and "r \<noteq> []"
    by (auto simp: tryReadLongBracketOpen_def Let_def m_def r_def atEnd_def split: if_splits)
  moreover have "length (l_rest m) < length (l_rest l)"
    using calculation(2,3) by (cases "l_rest l") (auto simp: m_def r_def)
  ultimately show ?thesis using length_incline_le [of m "is_newline (hd (l_rest m))"] by simp
qed

lemma length_close: "matchLongBracketClose l n = Some l' \<Longrightarrow> l_rest l \<noteq> [] \<Longrightarrow>
    length (l_rest l') < length (l_rest l)"
  by (cases "l_rest l") (auto simp: matchLongBracketClose_def Let_def split: if_splits)

text \<open>The scan of a long comment.\<close>

function skipLongBracket :: "lexer \<Rightarrow> nat \<Rightarrow> lex_error + lexer" where
  "skipLongBracket l level =
     (case l_rest l of
        [] \<Rightarrow> Inl (errorNear l ''unfinished long comment'' ''<eof>'')
      | c # _ \<Rightarrow>
          if is_newline c then skipLongBracket (inclineFromCurrent l) level
          else if c = CHR ''['' then
            if level = 0 \<and> matchNestedOpen l
            then Inl (errorNear l ''nesting of [[...]] is deprecated'' ''['')
            else skipLongBracket (advance 1 l) level
          else if c = CHR '']'' then
            (case matchLongBracketClose l level of
               Some l' \<Rightarrow> Inr l'
             | None \<Rightarrow> skipLongBracket (advance 1 l) level)
          else skipLongBracket (advance 1 l) level)"
  by pat_completeness auto
termination
  by (relation "measure (\<lambda>(l, n). length (l_rest l))")
    (auto simp: length_advance length_incline_Cons)

declare skipLongBracket.simps [simp del]

text \<open>The scan of a long string: the suffix at the closing bracket and the state behind it.\<close>

function long_body :: "lexer \<Rightarrow> nat \<Rightarrow> lex_error + (string \<times> lexer)" where
  "long_body l level =
     (case l_rest l of
        [] \<Rightarrow> Inl (errorNear l ''unfinished long string'' ''<eof>'')
      | c # _ \<Rightarrow>
          if is_newline c then long_body (inclineFromCurrent l) level
          else if c = CHR ''['' then
            if level = 0 \<and> matchNestedOpen l
            then Inl (errorNear l ''nesting of [[...]] is deprecated'' ''['')
            else long_body (advance 1 l) level
          else if c = CHR '']'' then
            (case matchLongBracketClose l level of
               Some l' \<Rightarrow> Inr (l_rest l, l')
             | None \<Rightarrow> long_body (advance 1 l) level)
          else long_body (advance 1 l) level)"
  by pat_completeness auto
termination
  by (relation "measure (\<lambda>(l, n). length (l_rest l))")
    (auto simp: length_advance length_incline_Cons)

declare long_body.simps [simp del]

definition readLongString :: "lexer \<Rightarrow> nat \<Rightarrow> lex_error + (string \<times> lexer)" where
  "readLongString l level =
     (case long_body l level of
        Inl e \<Rightarrow> Inl e
      | Inr (contentEnd, l') \<Rightarrow>
          let body = slice (l_rest l) contentEnd
          in Inr (if CR \<in> set body then normalizeNewlines body else body, l'))"

lemma length_skip: "skipLongBracket l level = Inr l' \<Longrightarrow> length (l_rest l') < length (l_rest l)"
proof (induction l level rule: skipLongBracket.induct)
  case (1 l level)
  show ?case
  proof (cases "l_rest l")
    case Nil
    with 1(5) show ?thesis by (simp add: skipLongBracket.simps)
  next
    case (Cons c r)
    note ih = 1(1-4) [OF Cons]
    have adv: "length (l_rest (advance 1 l)) < length (l_rest l)" by (simp add: Cons length_advance)
    have inc: "length (l_rest (inclineFromCurrent l)) < length (l_rest l)" by (rule length_incline) (simp add: Cons)
    show ?thesis using 1(5) ih adv inc length_close [of l level l'] Cons
      by (subst (asm) skipLongBracket.simps) (auto split: if_splits option.splits)
  qed
qed

section \<open>White space and comments\<close>

definition is_blank :: "char \<Rightarrow> bool" where
  "is_blank c \<longleftrightarrow> c = CHR '' '' \<or> c = CHR 0x09 \<or> c = CHR 0x0B \<or> c = CHR 0x0C"

definition skip_short_comment :: "lexer \<Rightarrow> lexer" where
  "skip_short_comment l = l\<lparr>l_rest := dropWhile (\<lambda>c. c \<noteq> NL \<and> c \<noteq> CR) (l_rest l)\<rparr>"

lemma length_short: "length (l_rest (skip_short_comment l)) \<le> length (l_rest l)"
  by (simp add: skip_short_comment_def length_dropWhile_le)

lemma comment_measure:
  assumes "l_rest l = c # cs"
  shows "tryReadLongBracketOpen (advance 2 l) = Some (n, l3) \<Longrightarrow> skipLongBracket l3 n = Inr l4 \<Longrightarrow>
      length (l_rest l4) < Suc (length cs)"
    and "length (l_rest (skip_short_comment (advance 2 l))) < Suc (length cs)"
  using assms length_skip [of l3 n l4] length_open [of "advance 2 l" n l3] length_short [of "advance 2 l"]
  by (simp_all add: length_advance)

function skipWhitespaceAndComments :: "lexer \<Rightarrow> lex_error + lexer" where
  "skipWhitespaceAndComments l =
     (case l_rest l of
        [] \<Rightarrow> Inr l
      | c # _ \<Rightarrow>
          if is_blank c then skipWhitespaceAndComments (advance 1 l)
          else if is_newline c then skipWhitespaceAndComments (inclineFromCurrent l)
          else if c = CHR ''-'' then
            if peek l 1 \<noteq> CHR ''-'' then Inr l
            else let l2 = advance 2 l in
              (case tryReadLongBracketOpen l2 of
                 Some (level, l3) \<Rightarrow>
                   (case skipLongBracket l3 level of
                      Inl e \<Rightarrow> Inl e
                    | Inr l4 \<Rightarrow> skipWhitespaceAndComments l4)
               | None \<Rightarrow> skipWhitespaceAndComments (skip_short_comment l2))
          else Inr l)"
  by pat_completeness auto
termination
  by (relation "measure (\<lambda>l. length (l_rest l))")
    (auto simp: length_advance length_incline_Cons intro: comment_measure)

declare skipWhitespaceAndComments.simps [simp del]

end
