(* ===== verification/LexTokens.thy ===== *)
theory LexTokens
  imports Lexer
begin

text \<open>
  The token scanners of \<open>internal/frontend/lex/lexer.go\<close>: identifiers, numerals with the part of
  \<open>strconv.ParseFloat\<close> and \<open>math.Ldexp\<close> they use, short strings, symbols, and \<open>Next\<close>.
\<close>

section \<open>Identifiers\<close>

definition scanIdentifierOrKeyword :: "lexer \<Rightarrow> u32 \<Rightarrow> token \<times> lexer" where
  "scanIdentifierOrKeyword l startLine =
     (let l' = l\<lparr>l_rest := dropWhile is_name_char (l_rest l)\<rparr>;
          name = slice (l_rest l) (l_rest l')
      in case map_of Keywords name of
           Some k \<Rightarrow> (mk_token k startLine, l')
         | None \<Rightarrow> (mk_token NAME startLine \<lparr>tk_Str := name\<rparr>, l'))"

section \<open>Numerals\<close>

definition digit_val :: "char \<Rightarrow> nat" where "digit_val c = code_of c - 48"

definition hexDigitVal :: "char \<Rightarrow> nat" where
  "hexDigitVal c =
     (if isDigit c then code_of c - 48
      else if 97 \<le> code_of c \<and> code_of c \<le> 102 then code_of c - 97 + 10
      else code_of c - 65 + 10)"

text \<open>The exponent loop of \<open>parseHexNumeral\<close>, saturating at \<open>1 << 16\<close>.\<close>

definition hex_exp :: "string \<Rightarrow> nat" where
  "hex_exp s = foldl (\<lambda>e c. min (e * 10 + digit_val c) 65536) 0 s"

definition parseHexNumeral :: "string \<Rightarrow> f64 option" where
  "parseHexNumeral s =
     (let digits = takeWhile isHexDigit s; r = drop (length digits) s;
          f = foldl (\<lambda>f c. f64_add_nn (f64_mul_nn f (f64_of_nat 16)) (f64_of_nat (hexDigitVal c))) 0 digits
      in if digits = [] then None
         else case r of
           [] \<Rightarrow> Some f
         | p # r' \<Rightarrow>
             if p \<noteq> CHR ''p'' \<and> p \<noteq> CHR ''P'' then None
             else let ds = takeWhile isDigit r'
                  in if ds = [] \<or> ds \<noteq> r' then None else Some (f64_ldexp f (hex_exp ds)))"

text \<open>
  \<open>strconv.ParseFloat(s, 64)\<close> on what \<open>scanNumber\<close> passes, a string of ASCII letters, digits, points
  and signs that starts with a digit or a point and has neither an underscore nor a hexadecimal
  prefix: digits with at most one point and at least one digit, then an optional exponent of at
  least one digit. An exponent stops growing once it reaches 10000, as the library's loop does. A
  range error gives the (infinite) value, which the caller takes.
\<close>

definition dec_exp :: "string \<Rightarrow> nat" where
  "dec_exp s = foldl (\<lambda>e c. if e < 10000 then e * 10 + digit_val c else e) 0 s"

definition dec_val :: "string \<Rightarrow> nat" where
  "dec_val s = foldl (\<lambda>n c. n * 10 + digit_val c) 0 s"

definition parse_exponent :: "string \<Rightarrow> int option" where
  "parse_exponent s =
     (case s of
        [] \<Rightarrow> Some 0
      | c # r \<Rightarrow>
          if c \<noteq> CHR ''e'' \<and> c \<noteq> CHR ''E'' then None
          else let neg = (r \<noteq> [] \<and> hd r = CHR ''-'');
                   ds = (if r \<noteq> [] \<and> (hd r = CHR ''-'' \<or> hd r = CHR ''+'') then tl r else r)
               in if ds = [] \<or> \<not> list_all isDigit ds then None
                  else Some (if neg then - int (dec_exp ds) else int (dec_exp ds)))"

definition ParseFloat :: "string \<Rightarrow> f64 option" where
  "ParseFloat s =
     (let ip = takeWhile isDigit s; r = drop (length ip) s;
          point = (r \<noteq> [] \<and> hd r = CHR ''.'');
          fp = (if point then takeWhile isDigit (tl r) else []);
          r = (if point then drop (length fp) (tl r) else r)
      in if ip = [] \<and> fp = [] then None
         else case parse_exponent r of
           None \<Rightarrow> None
         | Some e \<Rightarrow> Some (f64_decimal (dec_val (ip @ fp)) (e - int (length fp))))"

definition parseNumeral :: "string \<Rightarrow> f64 option" where
  "parseNumeral s =
     (if CHR ''_'' \<in> set s then None
      else if 2 \<le> length s \<and> s ! 0 = CHR ''0'' \<and> (s ! 1 = CHR ''x'' \<or> s ! 1 = CHR ''X'')
      then parseHexNumeral (drop 2 s)
      else ParseFloat s)"

text \<open>The greedy scan of \<open>scanNumber\<close>: digits and points, an exponent mark with a sign, name characters.\<close>

definition skip_numeral :: "string \<Rightarrow> string" where
  "skip_numeral s =
     (let s = dropWhile (\<lambda>c. isDigit c \<or> c = CHR ''.'') s;
          s = (if s \<noteq> [] \<and> (hd s = CHR ''e'' \<or> hd s = CHR ''E'' \<or> hd s = CHR 0x00)
               then let s = tl s in
                    if s \<noteq> [] \<and> (hd s = CHR ''+'' \<or> hd s = CHR ''-'' \<or> hd s = CHR 0x00) then tl s else s
               else s)
      in dropWhile is_name_char s)"

definition scanNumber :: "lexer \<Rightarrow> u32 \<Rightarrow> lex_error + (token \<times> lexer)" where
  "scanNumber l startLine =
     (let l' = l\<lparr>l_rest := skip_numeral (l_rest l)\<rparr>;
          lit = slice (l_rest l) (l_rest l');
          num = takeWhile (\<lambda>c. c \<noteq> CHR 0x00) lit
      in case parseNumeral num of
           None \<Rightarrow> Inl (errorNear l' ''malformed number'' lit)
         | Some f \<Rightarrow> Inr (mk_token NUMBER startLine \<lparr>tk_Num := f, tk_Text := lit\<rparr>, l'))"

section \<open>Short strings\<close>

text \<open>The one-character escapes, then the decimal escape: at most three digits, and its value.\<close>

definition simple_escape :: "char \<Rightarrow> char option" where
  "simple_escape c =
     map_of [(CHR ''a'', CHR 0x07), (CHR ''b'', CHR 0x08), (CHR ''f'', CHR 0x0C), (CHR ''n'', CHR 0x0A),
             (CHR ''r'', CHR 0x0D), (CHR ''t'', CHR 0x09), (CHR ''v'', CHR 0x0B),
             (CHR 0x5C, CHR 0x5C), (CHR 0x22, CHR 0x22), (CHR 0x27, CHR 0x27)] c"

definition decimal_digits :: "string \<Rightarrow> string" where
  "decimal_digits s = takeWhile isDigit (take 3 s)"

text \<open>One escape, with the position behind the backslash at a character.\<close>

definition read_escape :: "lexer \<Rightarrow> string \<Rightarrow> lex_error + (string \<times> lexer)" where
  "read_escape l buf =
     (let esc = hd (l_rest l) in
      case simple_escape esc of
        Some d \<Rightarrow> Inr (buf @ [d], advance 1 l)
      | None \<Rightarrow>
          if is_newline esc then Inr (buf @ [NL], inclineFromCurrent l)
          else if isDigit esc then
            let ds = decimal_digits (l_rest l); n = dec_val ds; l = advance (length ds) l
            in if 255 < n then Inl (errorNear l ''escape sequence too large'' buf)
               else Inr (buf @ [char_of n], l)
          else Inr (buf @ [esc], advance 1 l))"

lemma length_escape: "read_escape l buf = Inr (b, l') \<Longrightarrow> l_rest l \<noteq> [] \<Longrightarrow>
    length (l_rest l') < length (l_rest l)"
  using length_incline [of l]
  by (cases "l_rest l")
    (auto simp: read_escape_def Let_def length_advance decimal_digits_def split: option.splits if_splits)

lemma escape_measure:
  "l_rest l = c # cs \<Longrightarrow> \<not> atEnd (advance 1 l) \<Longrightarrow> read_escape (advance 1 l) b = Inr (b', l2) \<Longrightarrow>
    length (l_rest l2) < Suc (length cs)"
  using length_escape [of "advance 1 l" b b' l2] by (simp add: atEnd_def length_advance)

function short_body :: "lexer \<Rightarrow> char \<Rightarrow> string \<Rightarrow> lex_error + (string \<times> lexer)" where
  "short_body l quote buf =
     (case l_rest l of
        [] \<Rightarrow> Inl (errorNear l ''unfinished string'' ''<eof>'')
      | c # _ \<Rightarrow>
          if is_newline c then Inl (errorNear l ''unfinished string'' buf)
          else if c = quote then Inr (buf @ [quote], advance 1 l)
          else if c = CHR 0x5C then
            let l = advance 1 l in
            if atEnd l then Inl (errorNear l ''unfinished string'' ''<eof>'')
            else (case read_escape l buf of
                    Inl e \<Rightarrow> Inl e
                  | Inr (buf, l) \<Rightarrow> short_body l quote buf)
          else short_body (advance 1 l) quote (buf @ [c]))"
  by pat_completeness auto
termination
  by (relation "measure (\<lambda>(l, q, b). length (l_rest l))")
    (auto simp: length_advance intro: escape_measure)

declare short_body.simps [simp del]

definition scanShortString :: "lexer \<Rightarrow> u32 \<Rightarrow> char \<Rightarrow> lex_error + (token \<times> lexer)" where
  "scanShortString l startLine quote =
     (case short_body (advance 1 l) quote [quote] of
        Inl e \<Rightarrow> Inl e
      | Inr (text, l) \<Rightarrow>
          Inr (mk_token STRING startLine \<lparr>tk_Str := take (length text - 2) (drop 1 text), tk_Text := text\<rparr>, l))"

section \<open>Symbols\<close>

definition symbol_kind :: "char \<Rightarrow> kind option" where
  "symbol_kind c =
     map_of [(CHR ''+'', PLUS), (CHR ''-'', MINUS), (CHR ''*'', STAR), (CHR ''/'', SLASH),
             (CHR ''%'', PERCENT), (CHR ''^'', CARET), (CHR ''#'', HASH), (CHR ''('', LPAREN),
             (CHR '')'', RPAREN), (CHR ''{'', LBRACE), (CHR ''}'', RBRACE), (CHR '']'', RBRACK),
             (CHR '';'', SEMI), (CHR '':'', COLON), (CHR '','', COMMA)] c"

definition scanSymbol :: "lexer \<Rightarrow> u32 \<Rightarrow> lex_error + (token \<times> lexer)" where
  "scanSymbol l startLine =
     (let c = hd (l_rest l);
          mk = (\<lambda>k n. Inr (mk_token k startLine, advance n l));
          other = Inr (mk_token CHAR_TOK startLine \<lparr>tk_Str := [c]\<rparr>, advance 1 l)
      in case symbol_kind c of
           Some k \<Rightarrow> mk k 1
         | None \<Rightarrow>
             if c = CHR ''='' then if peek l 1 = CHR ''='' then mk EQEQ 2 else mk EQ 1
             else if c = CHR ''~'' \<and> peek l 1 = CHR ''='' then mk NEQ 2
             else if c = CHR ''<'' then if peek l 1 = CHR ''='' then mk LE 2 else mk LT 1
             else if c = CHR ''>'' then if peek l 1 = CHR ''='' then mk GE 2 else mk GT 1
             else if c = CHR ''.'' then
               if peek l 1 = CHR ''.'' \<and> peek l 2 = CHR ''.'' then mk ELLIPSIS 3
               else if peek l 1 = CHR ''.'' then mk CONCAT 2
               else if isDigit (peek l 1) then scanNumber l startLine
               else mk DOT 1
             else other)"

section \<open>Next\<close>

definition scan_long_string :: "lexer \<Rightarrow> u32 \<Rightarrow> nat \<Rightarrow> lex_error + (token \<times> lexer)" where
  "scan_long_string l startLine level =
     (case readLongString l level of
        Inl e \<Rightarrow> Inl e
      | Inr (s, l) \<Rightarrow>
          let sep = replicate level (CHR ''='');
              text = ''['' @ sep @ ''['' @ s @ '']'' @ sep @ '']''
          in Inr (mk_token STRING startLine
                    \<lparr>tk_Str := drop (2 + level) (take (length text - 2 - level) text), tk_Text := text\<rparr>, l))"

text \<open>A \<open>[\<close> that does not open a long string.\<close>

definition scan_lbrack :: "lexer \<Rightarrow> u32 \<Rightarrow> lex_error + (token \<times> lexer)" where
  "scan_lbrack l startLine =
     (let n = 1 + length (takeWhile (\<lambda>c. c = CHR ''='') (tl (l_rest l)))
      in if 1 < n
         then let l' = advance n l
              in Inl (errorNear l' ''invalid long string delimiter'' (slice (l_rest l) (l_rest l')))
         else Inr (mk_token LBRACK startLine, advance 1 l))"

definition next_tok :: "lexer \<Rightarrow> lex_error + (token \<times> lexer)" where
  "next_tok l =
     (case skipWhitespaceAndComments l of
        Inl e \<Rightarrow> Inl e
      | Inr l \<Rightarrow>
          if atEnd l then Inr (mk_token EOF (l_line l), l)
          else let startLine = l_line l; c = hd (l_rest l) in
            if c = CHR 0x22 \<or> c = CHR 0x27 then scanShortString l startLine c
            else if c = CHR ''['' then
              (case tryReadLongBracketOpen l of
                 Some (level, l) \<Rightarrow> scan_long_string l startLine level
               | None \<Rightarrow> scan_lbrack l startLine)
            else if isAlpha c \<or> c = CHR ''_'' then Inr (scanIdentifierOrKeyword l startLine)
            else if isDigit c then scanNumber l startLine
            else scanSymbol l startLine)"

text \<open>\<open>Next\<close> stamps the line the token ended on.\<close>

definition Next :: "lexer \<Rightarrow> lex_error + (token \<times> lexer)" where
  "Next l =
     (case next_tok l of
        Inl e \<Rightarrow> Inl e
      | Inr (tok, l) \<Rightarrow> Inr (tok\<lparr>tk_EndLine := l_line l\<rparr>, l))"

end
