(* ===== verification/LexSpec.thy ===== *)
theory LexSpec
  imports LexTokens
begin

text \<open>
  What the scanner promises about its position and line: every step reads forward, newline
  sequences are counted once each, every token but the end of the source takes at least one byte,
  so a source is scanned in finitely many steps. The relation \<open>reads\<close> is the closure of the two ways
  the scanner moves: over a byte that is no newline, and over a newline sequence.
\<close>

section \<open>Moving forward\<close>

inductive reads :: "lexer \<Rightarrow> lexer \<Rightarrow> bool" where
  here: "reads l l"
| byte: "l_rest l = c # r \<Longrightarrow> \<not> is_newline c \<Longrightarrow> reads (l\<lparr>l_rest := r\<rparr>) l' \<Longrightarrow> reads l l'"
| newline: "l_rest l = c # r \<Longrightarrow> is_newline c \<Longrightarrow> reads (inclineFromCurrent l) l' \<Longrightarrow> reads l l'"

lemma reads_trans: "reads l m \<Longrightarrow> reads m n \<Longrightarrow> reads l n"
  by (induction rule: reads.induct) (auto intro: reads.intros)

lemma reads_byte1: "l_rest l = c # r \<Longrightarrow> \<not> is_newline c \<Longrightarrow> reads l (l\<lparr>l_rest := r\<rparr>)"
  by (rule reads.byte) (auto intro: reads.here)

lemma reads_newline1: "l_rest l = c # r \<Longrightarrow> is_newline c \<Longrightarrow> reads l (inclineFromCurrent l)"
  by (rule reads.newline) (auto intro: reads.here)

lemma reads_plain:
  "l_rest l = u @ r \<Longrightarrow> \<forall>c\<in>set u. \<not> is_newline c \<Longrightarrow> reads l (l\<lparr>l_rest := r\<rparr>)"
proof (induction u arbitrary: l)
  case Nil
  then have "l\<lparr>l_rest := r\<rparr> = l" by simp
  then show ?case by (simp add: reads.here)
next
  case (Cons c u)
  then have "reads (l\<lparr>l_rest := u @ r\<rparr>) (l\<lparr>l_rest := u @ r\<rparr>\<lparr>l_rest := r\<rparr>)" by (intro Cons.IH) auto
  with Cons.prems show ?case by (intro reads.byte [of l c "u @ r"]) auto
qed

lemma reads_dropWhile:
  "(\<And>c. P c \<Longrightarrow> \<not> is_newline c) \<Longrightarrow> reads l (l\<lparr>l_rest := dropWhile P (l_rest l)\<rparr>)"
  by (rule reads_plain [of l "takeWhile P (l_rest l)"]) (auto dest: set_takeWhileD)

lemma reads_source: "reads l l' \<Longrightarrow> l_source l' = l_source l"
  by (induction rule: reads.induct) (auto simp: inclineFromCurrent_def Let_def advance_def)

lemma suffix_incline: "l_rest l = c # r \<Longrightarrow> \<exists>u. l_rest l = u @ l_rest (inclineFromCurrent l) \<and> u \<noteq> []"
proof -
  assume l: "l_rest l = c # r"
  show ?thesis
  proof (cases "r \<noteq> [] \<and> newline_pair c (hd r)")
    case True
    then have "l_rest l = [c, hd r] @ l_rest (inclineFromCurrent l)"
      using l by (cases r) (simp_all add: inclineFromCurrent_def Let_def advance_def atEnd_def)
    then show ?thesis by blast
  next
    case False
    then have "l_rest l = [c] @ l_rest (inclineFromCurrent l)"
      using l by (auto simp: inclineFromCurrent_def Let_def advance_def atEnd_def)
    then show ?thesis by blast
  qed
qed

lemma reads_suffix: "reads l l' \<Longrightarrow> \<exists>u. l_rest l = u @ l_rest l'"
proof (induction rule: reads.induct)
  case (newline l c r l')
  with suffix_incline [OF newline(1)] show ?case by (metis append.assoc)
qed auto

section \<open>Counting lines\<close>

text \<open>The number of newline sequences in a text.\<close>

definition breaks :: "string \<Rightarrow> nat" where
  "breaks s = count_list (normalizeNewlines s) NL"

lemma breaks_Nil [simp]: "breaks [] = 0"
  by (simp add: breaks_def)

lemma breaks_byte: "\<not> is_newline c \<Longrightarrow> breaks (c # s) = breaks s"
  by (cases s) (auto simp: breaks_def is_newline_def)

lemma newline_pair_iff: "is_newline c \<Longrightarrow> newline_pair c d \<longleftrightarrow> is_newline d \<and> d \<noteq> c"
  by (auto simp: newline_pair_def is_newline_def NL_def CR_def)

lemma breaks_incline:
  assumes "l_rest l = c # r" "is_newline c"
  shows "breaks (l_rest l) = breaks (l_rest (inclineFromCurrent l)) + 1"
  using assms
  by (cases r) (auto simp: breaks_def inclineFromCurrent_def Let_def advance_def atEnd_def newline_pair_iff)

lemma line_incline: "l_line (inclineFromCurrent l) = l_line l + 1"
  by (simp add: inclineFromCurrent_def Let_def advance_def)

lemma reads_lines:
  "reads l l' \<Longrightarrow> l_line l' + word_of_nat (breaks (l_rest l')) = l_line l + word_of_nat (breaks (l_rest l))"
proof (induction rule: reads.induct)
  case (byte l c r l')
  then show ?case by (simp add: breaks_byte)
next
  case (newline l c r l')
  then show ?case using breaks_incline [OF newline(1,2)] by (simp add: line_incline algebra_simps)
qed simp

section \<open>The scanners move forward\<close>

lemma not_newline_consts [simp]:
  "\<not> is_newline CHR ''-''" "\<not> is_newline CHR ''[''" "\<not> is_newline CHR '']''" "\<not> is_newline CHR ''=''"
  "\<not> is_newline CHR 0x5C" "\<not> is_newline CHR ''.''" "\<not> is_newline CHR ''~''" "\<not> is_newline CHR ''<''"
  "\<not> is_newline CHR ''>''" "\<not> is_newline CHR ''_''" "\<not> is_newline CHR 0x00"
  by (simp_all add: is_newline_def NL_def CR_def)

lemma not_newline_classes:
  "is_blank c \<Longrightarrow> \<not> is_newline c" "isDigit c \<Longrightarrow> \<not> is_newline c" "isAlpha c \<Longrightarrow> \<not> is_newline c"
  "is_name_char c \<Longrightarrow> \<not> is_newline c"
  by (auto simp: is_newline_def NL_def CR_def is_blank_def isDigit_def isAlpha_def is_name_char_def code_of_def)

lemma takeWhile_replicate: "takeWhile (\<lambda>c. c = a) r = replicate (length (takeWhile (\<lambda>c. c = a) r)) a"
  by (induction r) auto

lemma split_replicate:
  "r = replicate (length (takeWhile (\<lambda>c. c = a) r)) a @ drop (length (takeWhile (\<lambda>c. c = a) r)) r"
  by (metis takeWhile_dropWhile_id takeWhile_replicate dropWhile_eq_drop)

lemma open_shape:
  assumes "tryReadLongBracketOpen l = Some (n, l')"
  obtains r where "l_rest l = CHR ''['' # replicate n (CHR ''='') @ CHR ''['' # r"
    "l' = (if r \<noteq> [] \<and> is_newline (hd r) then inclineFromCurrent (l\<lparr>l_rest := r\<rparr>) else l\<lparr>l_rest := r\<rparr>)"
proof (cases "l_rest l")
  case Nil
  with assms show ?thesis by (simp add: tryReadLongBracketOpen_def atEnd_def)
next
  case (Cons c s)
  define k where "k = length (takeWhile (\<lambda>c. c = CHR ''='') s)"
  have s: "s = replicate k (CHR ''='') @ drop k s" unfolding k_def by (rule split_replicate)
  show ?thesis
  proof (cases "drop k s")
    case Nil
    with assms Cons show ?thesis by (simp add: tryReadLongBracketOpen_def Let_def k_def [symmetric] split: if_splits)
  next
    case d: (Cons e r)
    with assms Cons have *: "c = CHR ''[''" "e = CHR ''[''" "n = k"
      "l' = (if r \<noteq> [] \<and> is_newline (hd r) then inclineFromCurrent (l\<lparr>l_rest := r\<rparr>) else l\<lparr>l_rest := r\<rparr>)"
      by (auto simp: tryReadLongBracketOpen_def Let_def k_def [symmetric] atEnd_def split: if_splits)
    with d s Cons that show ?thesis by simp
  qed
qed

lemma close_shape:
  assumes "matchLongBracketClose l n = Some l'" "l_rest l \<noteq> []"
  obtains r where "l_rest l = CHR '']'' # replicate n (CHR ''='') @ CHR '']'' # r" "l' = l\<lparr>l_rest := r\<rparr>"
proof (cases "l_rest l")
  case (Cons c s)
  define k where "k = length (takeWhile (\<lambda>c. c = CHR ''='') (take n s))"
  have "take n s = replicate k (CHR ''='') @ drop k (take n s)" unfolding k_def by (rule split_replicate)
  moreover have "k \<le> length (take n s)" unfolding k_def by (rule length_takeWhile_le)
  ultimately have s: "s = replicate k (CHR ''='') @ drop k s" if "k = n"
    using that by (metis append_take_drop_id drop_all length_take min.cobounded2 append_Nil2)
  show ?thesis
  proof (cases "drop k s")
    case Nil
    with assms Cons show ?thesis by (simp add: matchLongBracketClose_def Let_def k_def [symmetric] split: if_splits)
  next
    case d: (Cons e r)
    with assms(1) Cons have *: "c = CHR '']''" "e = CHR '']''" "k = n" "l' = l\<lparr>l_rest := r\<rparr>"
      by (simp_all add: matchLongBracketClose_def Let_def k_def [symmetric] split: if_splits)
    with d s Cons that show ?thesis by simp
  qed
qed (use assms in simp)

lemma reads_open: "tryReadLongBracketOpen l = Some (n, l') \<Longrightarrow> reads l l'"
proof (erule open_shape)
  fix r
  let ?m = "l\<lparr>l_rest := r\<rparr>"
  assume l: "l_rest l = CHR ''['' # replicate n (CHR ''='') @ CHR ''['' # r"
    and l': "l' = (if r \<noteq> [] \<and> is_newline (hd r) then inclineFromCurrent ?m else ?m)"
  have "reads l ?m"
    by (rule reads_plain [of l "CHR ''['' # replicate n (CHR ''='') @ [CHR ''['']"]) (auto simp: l)
  moreover have "reads ?m l'" unfolding l' by (cases r) (auto simp: reads.here intro: reads_newline1)
  ultimately show "reads l l'" by (rule reads_trans)
qed

lemma reads_close: "matchLongBracketClose l n = Some l' \<Longrightarrow> l_rest l \<noteq> [] \<Longrightarrow> reads l l'"
proof (erule close_shape)
  fix r
  assume "l_rest l = CHR '']'' # replicate n (CHR ''='') @ CHR '']'' # r" and l': "l' = l\<lparr>l_rest := r\<rparr>"
  then show "reads l l'" unfolding l'
    by (intro reads_plain [of l "CHR '']'' # replicate n (CHR ''='') @ [CHR '']'']"]) auto
qed

lemma advance1: "l_rest l = c # r \<Longrightarrow> advance 1 l = l\<lparr>l_rest := r\<rparr>"
  by (simp add: advance_def)

lemma reads_skip: "skipLongBracket l level = Inr l' \<Longrightarrow> reads l l'"
proof (induction l level rule: skipLongBracket.induct)
  case (1 l level)
  show ?case
  proof (cases "l_rest l")
    case Nil
    with 1(5) show ?thesis by (simp add: skipLongBracket.simps)
  next
    case (Cons c r)
    note ih = 1(1-4) [OF Cons]
    have nl: "reads l (inclineFromCurrent l)" if "is_newline c" using reads_newline1 Cons that .
    have one: "reads l (advance 1 l)" if "\<not> is_newline c" using reads_byte1 [OF Cons that] advance1 [OF Cons] by simp
    show ?thesis using 1(5) ih reads_trans [OF nl] reads_trans [OF one] reads_close [of l level l'] Cons
      by (subst (asm) skipLongBracket.simps) (auto split: if_splits option.splits)
  qed
qed

lemma reads_long: "long_body l level = Inr (ce, l') \<Longrightarrow> reads l l'"
proof (induction l level rule: long_body.induct)
  case (1 l level)
  show ?case
  proof (cases "l_rest l")
    case Nil
    with 1(5) show ?thesis by (simp add: long_body.simps)
  next
    case (Cons c r)
    note ih = 1(1-4) [OF Cons]
    have nl: "reads l (inclineFromCurrent l)" if "is_newline c" using reads_newline1 Cons that .
    have one: "reads l (advance 1 l)" if "\<not> is_newline c" using reads_byte1 [OF Cons that] advance1 [OF Cons] by simp
    show ?thesis using 1(5) ih reads_trans [OF nl] reads_trans [OF one] reads_close [of l level l'] Cons
      by (subst (asm) long_body.simps) (auto split: if_splits option.splits)
  qed
qed

lemma reads_comment: "reads l (skip_short_comment l)"
  unfolding skip_short_comment_def by (rule reads_dropWhile) (simp add: is_newline_def)

lemma reads_dashes: "l_rest l = CHR ''-'' # r \<Longrightarrow> peek l 1 = CHR ''-'' \<Longrightarrow> reads l (advance 2 l)"
proof -
  assume l: "l_rest l = CHR ''-'' # r" "peek l 1 = CHR ''-''"
  then obtain r' where "l_rest l = [CHR ''-'', CHR ''-''] @ r'"
    by (cases r) (auto simp: peek_def)
  then show ?thesis unfolding advance_def by (intro reads_plain [of l "[CHR ''-'', CHR ''-'']"]) auto
qed

lemma reads_skipWS: "skipWhitespaceAndComments l = Inr l' \<Longrightarrow> reads l l'"
proof (induction l rule: skipWhitespaceAndComments.induct)
  case (1 l)
  show ?case
  proof (cases "l_rest l")
    case Nil
    with 1(5) show ?thesis by (simp add: skipWhitespaceAndComments.simps reads.here)
  next
    case (Cons c r)
    have nl: "reads l (inclineFromCurrent l)" if "is_newline c" using reads_newline1 Cons that .
    have one: "reads l (advance 1 l)" if "\<not> is_newline c" using reads_byte1 [OF Cons that] advance1 [OF Cons] by simp
    have two: "reads l (advance 2 l)" if "c = CHR ''-''" "peek l 1 = CHR ''-''" using reads_dashes Cons that by blast
    note unfolded = 1(5) [unfolded skipWhitespaceAndComments.simps [of l] Cons list.case]
    consider "is_blank c" | "\<not> is_blank c" "is_newline c"
      | "\<not> is_blank c" "\<not> is_newline c" "c = CHR ''-''" "peek l 1 = CHR ''-''"
      | "\<not> is_blank c" "\<not> is_newline c" "c = CHR ''-'' \<longrightarrow> peek l 1 \<noteq> CHR ''-''" by blast
    then show ?thesis
    proof cases
      case a: 1
      with unfolded 1(1) [OF Cons a] reads_trans [OF one] not_newline_classes(1) show ?thesis by simp
    next
      case a: 2
      with unfolded 1(2) [OF Cons a] reads_trans [OF nl] show ?thesis by simp
    next
      case a: 3
      show ?thesis
      proof (cases "tryReadLongBracketOpen (advance 2 l)")
        case None
        with a unfolded 1(3) [OF Cons a(1,2,3) _ refl None]
        have "reads (skip_short_comment (advance 2 l)) l'" by simp
        with reads_trans two reads_comment a show ?thesis by blast
      next
        case (Some x)
        then obtain n l3 where o: "tryReadLongBracketOpen (advance 2 l) = Some (n, l3)" by (cases x) auto
        with a unfolded obtain l4 where k: "skipLongBracket l3 n = Inr l4" "skipWhitespaceAndComments l4 = Inr l'"
          by (auto split: sum.splits)
        with a 1(4) [OF Cons a(1,2,3) _ refl o refl k(1)] have "reads l4 l'" by simp
        with reads_trans two [OF a(3,4)] reads_open [OF o] reads_skip [OF k(1)] show ?thesis by blast
      qed
    next
      case a: 4
      with unfolded have "l' = l" by (auto split: if_splits)
      then show ?thesis by (simp add: reads.here)
    qed
  qed
qed

section \<open>Every token takes input\<close>

definition eats :: "lexer \<Rightarrow> lexer \<Rightarrow> bool" where
  "eats l l' \<longleftrightarrow> reads l l' \<and> length (l_rest l') < length (l_rest l)"

lemma reads_length: "reads l l' \<Longrightarrow> length (l_rest l') \<le> length (l_rest l)"
  by (drule reads_suffix) auto

lemma eats_reads: "eats l m \<Longrightarrow> reads m n \<Longrightarrow> eats l n"
  using reads_trans reads_length [of m n] by (fastforce simp: eats_def)

lemma reads_eats: "reads l m \<Longrightarrow> eats m n \<Longrightarrow> eats l n"
  using reads_trans reads_length [of l m] by (fastforce simp: eats_def)

lemma eats_advance:
  assumes "l_rest l = u @ r" "\<forall>c\<in>set u. \<not> is_newline c" "u \<noteq> []" "n = length u"
  shows "eats l (advance n l)"
  using reads_plain [OF assms(1,2)] assms(1,3,4) by (simp add: eats_def advance_def)

lemma eats_advance1: "l_rest l = c # r \<Longrightarrow> \<not> is_newline c \<Longrightarrow> eats l (advance 1 l)"
  by (rule eats_advance [of l "[c]" r]) auto

lemma eats_incline: "l_rest l = c # r \<Longrightarrow> is_newline c \<Longrightarrow> eats l (inclineFromCurrent l)"
  using reads_newline1 length_incline [of l] by (simp add: eats_def)

lemma eats_dropWhile:
  assumes "\<And>c. P c \<Longrightarrow> \<not> is_newline c" "l_rest l = c # r" "P c"
  shows "eats l (l\<lparr>l_rest := dropWhile P (l_rest l)\<rparr>)"
  using reads_dropWhile [of P l] assms length_dropWhile_le [of P r] by (auto simp: eats_def)

lemma eats_identifier:
  "scanIdentifierOrKeyword l line = (tok, l') \<Longrightarrow> l_rest l = c # r \<Longrightarrow> is_name_char c \<Longrightarrow> eats l l'"
  using eats_dropWhile [of is_name_char l c r] not_newline_classes(4)
  by (auto simp: scanIdentifierOrKeyword_def Let_def split: option.splits)

text \<open>A numeral: the three greedy steps.\<close>

lemma skip_numeral_split: "\<exists>u. s = u @ skip_numeral s \<and> (\<forall>c\<in>set u. \<not> is_newline c)"
proof -
  define P where "P = (\<lambda>c. isDigit c \<or> c = CHR ''.'')"
  define s1 where "s1 = dropWhile P s"
  define m where "m = (if s1 \<noteq> [] \<and> (hd s1 = CHR ''e'' \<or> hd s1 = CHR ''E'' \<or> hd s1 = CHR 0x00)
     then if tl s1 \<noteq> [] \<and> (hd (tl s1) = CHR ''+'' \<or> hd (tl s1) = CHR ''-'' \<or> hd (tl s1) = CHR 0x00) then 2 else 1
     else (0 :: nat))"
  have skip: "skip_numeral s = dropWhile is_name_char (drop m s1)"
    by (simp add: skip_numeral_def Let_def P_def [symmetric] s1_def [symmetric] m_def drop_Suc numeral_2_eq_2)
  have "s = takeWhile P s @ take m s1 @ takeWhile is_name_char (drop m s1) @ skip_numeral s"
    by (simp add: skip s1_def)
  moreover have "\<not> is_newline c" if "c \<in> set (takeWhile P s)" for c
    using set_takeWhileD [OF that] not_newline_classes(2) by (auto simp: P_def)
  moreover have "\<not> is_newline c" if "c \<in> set (take m s1)" for c
    using that by (cases s1; cases "tl s1") (auto simp: m_def is_newline_def NL_def CR_def split: if_splits)
  moreover have "\<not> is_newline c" if "c \<in> set (takeWhile is_name_char (drop m s1))" for c
    using set_takeWhileD [OF that] not_newline_classes(4) by simp
  ultimately show ?thesis
    by (intro exI [of _ "takeWhile P s @ take m s1 @ takeWhile is_name_char (drop m s1)"]) (auto simp del: set_takeWhileD)
qed

lemma skip_numeral_length: "length (skip_numeral s) \<le> length s"
  using skip_numeral_split [of s] by (metis length_append le_add2)

lemma skip_numeral_strict:
  assumes "isDigit c \<or> c = CHR ''.''"
  shows "length (skip_numeral (c # s)) \<le> length s"
proof -
  have "skip_numeral (c # s) = skip_numeral s" using assms by (simp add: skip_numeral_def)
  then show ?thesis using skip_numeral_length by simp
qed

lemma eats_number:
  assumes "scanNumber l line = Inr (tok, l')" "l_rest l = c # r" "isDigit c \<or> c = CHR ''.''"
  shows "eats l l'"
proof -
  from assms(1) have l': "l' = l\<lparr>l_rest := skip_numeral (l_rest l)\<rparr>"
    by (auto simp: scanNumber_def Let_def split: option.splits)
  obtain u where "l_rest l = u @ skip_numeral (l_rest l)" "\<forall>c\<in>set u. \<not> is_newline c"
    using skip_numeral_split by blast
  then have "reads l l'" unfolding l' by (rule reads_plain)
  with l' assms(2) skip_numeral_strict [OF assms(3), of r] show ?thesis by (simp add: eats_def)
qed

text \<open>Short strings.\<close>

lemma simple_escape_newline: "simple_escape c = Some d \<Longrightarrow> \<not> is_newline c"
  by (auto simp: simple_escape_def is_newline_def NL_def CR_def split: if_splits)

lemma eats_escape:
  assumes "read_escape l buf = Inr (b, l')" "l_rest l = c # r"
  shows "eats l l'"
proof (cases "simple_escape c")
  case (Some d)
  with assms have "l' = advance 1 l" by (simp add: read_escape_def)
  with eats_advance1 [OF assms(2)] simple_escape_newline [OF Some] show ?thesis by simp
next
  case None
  consider "is_newline c" | "\<not> is_newline c" "isDigit c" | "\<not> is_newline c" "\<not> isDigit c" by blast
  then show ?thesis
  proof cases
    case 1
    with None assms have "l' = inclineFromCurrent l" by (simp add: read_escape_def)
    with eats_incline [OF assms(2) 1] show ?thesis by simp
  next
    case 2
    define ds where "ds = decimal_digits (l_rest l)"
    from 2 None assms have l': "l' = advance (length ds) l"
      by (auto simp: read_escape_def Let_def ds_def split: if_splits)
    have ds: "ds = takeWhile isDigit (take 3 (l_rest l))" by (simp add: ds_def decimal_digits_def)
    have "l_rest l = ds @ (drop (length ds) (take 3 (l_rest l)) @ drop 3 (l_rest l))"
      unfolding ds by (metis append_assoc append_take_drop_id dropWhile_eq_drop takeWhile_dropWhile_id)
    moreover have "\<forall>c\<in>set ds. \<not> is_newline c"
      unfolding ds using not_newline_classes(2) by (auto dest: set_takeWhileD)
    moreover have "ds \<noteq> []" unfolding ds using 2 assms(2) by simp
    ultimately show ?thesis unfolding l' by (rule eats_advance) simp
  next
    case 3
    with None assms have "l' = advance 1 l" by (simp add: read_escape_def)
    with eats_advance1 [OF assms(2)] 3 show ?thesis by simp
  qed
qed

lemma eats_short_body: "short_body l quote buf = Inr (text, l') \<Longrightarrow> eats l l'"
proof (induction l quote buf rule: short_body.induct)
  case (1 l quote buf)
  show ?case
  proof (cases "l_rest l")
    case Nil
    with 1(3) show ?thesis by (simp add: short_body.simps)
  next
    case (Cons c r)
    have nl: "\<not> is_newline c" using 1(3) Cons by (subst (asm) short_body.simps) (auto split: if_splits)
    note one = eats_advance1 [OF Cons nl]
    consider "c = quote" | "c \<noteq> quote" "c = CHR 0x5C" | "c \<noteq> quote" "c \<noteq> CHR 0x5C" by blast
    then show ?thesis
    proof cases
      case a: 1
      with 1(3) Cons nl have "l' = advance 1 l" by (subst (asm) short_body.simps) simp
      with one show ?thesis by simp
    next
      case a: 2
      with 1(3) Cons nl have "\<not> atEnd (advance 1 l)" by (subst (asm) short_body.simps) (auto split: if_splits)
      moreover from this obtain c2 r2 where c2: "l_rest (advance 1 l) = c2 # r2"
        by (cases "l_rest (advance 1 l)") (auto simp: atEnd_def)
      ultimately obtain b2 l2 where e: "read_escape (advance 1 l) buf = Inr (b2, l2)" "short_body l2 quote b2 = Inr (text, l')"
        using 1(3) Cons nl a by (subst (asm) short_body.simps) (auto simp: Let_def split: sum.splits)
      have "eats l2 l'"
        using 1(1) [OF Cons nl a refl \<open>\<not> atEnd (advance 1 l)\<close> e(1) refl e(2)] .
      with one eats_escape [OF e(1) c2] show ?thesis by (meson eats_def eats_reads)
    next
      case a: 3
      with 1(3) Cons nl have "short_body (advance 1 l) quote (buf @ [c]) = Inr (text, l')"
        by (subst (asm) short_body.simps) simp
      from 1(2) [OF Cons nl a this] one show ?thesis by (meson eats_def eats_reads)
    qed
  qed
qed

lemma eats_short_string:
  assumes "scanShortString l line q = Inr (tok, l')" "l_rest l = q # r" "\<not> is_newline q"
  shows "eats l l'"
proof -
  from assms(1) obtain s where "short_body (advance 1 l) q [q] = Inr (s, l')"
    by (auto simp: scanShortString_def split: sum.splits)
  from eats_short_body [OF this] eats_advance1 [OF assms(2,3)] show ?thesis by (meson eats_def eats_reads)
qed

lemma peek_Cons: "peek l 1 = d \<Longrightarrow> d \<noteq> CHR 0x00 \<Longrightarrow> l_rest l = c # r \<Longrightarrow> \<exists>r'. l_rest l = [c, d] @ r'"
  by (cases r) (auto simp: peek_def split: if_splits)

lemma eats_peek:
  "peek l 1 = d \<Longrightarrow> d \<noteq> CHR 0x00 \<Longrightarrow> l_rest l = c # r \<Longrightarrow> \<not> is_newline c \<Longrightarrow> \<not> is_newline d \<Longrightarrow>
    eats l (advance 2 l)"
  by (drule (2) peek_Cons) (auto intro!: eats_advance [of l "[c, d]"])

lemma eats_symbol:
  assumes "scanSymbol l line = Inr (tok, l')" "l_rest l = c # r" "\<not> is_newline c"
  shows "eats l l'"
proof -
  note one = eats_advance1 [OF assms(2,3)]
  have three: "eats l (advance 3 l)" if d1: "peek l 1 = CHR ''.''" and d2: "peek l 2 = CHR ''.''"
  proof -
    obtain r1 where r1: "l_rest l = [c, CHR ''.''] @ r1" using peek_Cons [OF d1 _ assms(2)] by auto
    moreover obtain d r2 where d: "r1 = d # r2" "d = CHR ''.''"
      using d2 r1 by (cases r1) (auto simp: peek_def numeral_2_eq_2)
    ultimately show ?thesis using assms(3) by (intro eats_advance [of l "[c, CHR ''.'', d]" r2]) auto
  qed
  have two: "eats l (advance 2 l)" if "peek l 1 = CHR ''='' \<or> peek l 1 = CHR ''.''"
    using that eats_peek [OF _ _ assms(2,3)] by auto
  show ?thesis
  proof (cases "symbol_kind c")
    case (Some k)
    with assms(1,2) one show ?thesis by (simp add: scanSymbol_def Let_def)
  next
    case None
    show ?thesis
      using assms(1,2) None one two three eats_number [of l line tok l' c r]
      by (auto simp: scanSymbol_def Let_def split: if_splits)
  qed
qed

lemma skipWS_stop: "skipWhitespaceAndComments l = Inr m \<Longrightarrow> l_rest m = c # r \<Longrightarrow> \<not> is_newline c"
proof (induction l rule: skipWhitespaceAndComments.induct)
  case (1 l)
  show ?case
  proof (cases "l_rest l")
    case Nil
    with 1(5,6) show ?thesis by (simp add: skipWhitespaceAndComments.simps)
  next
    case (Cons d s)
    note ih = 1(1,2) [OF Cons] 1(3) [OF Cons _ _ _ _ refl] 1(4) [OF Cons _ _ _ _ refl _ refl]
    show ?thesis using 1(5,6) Cons ih
      by (subst (asm) skipWhitespaceAndComments.simps,
          auto simp: Let_def split: if_splits option.splits sum.splits, blast)
  qed
qed

lemma eats_token:
  assumes "next_tok l = Inr (tok, l')"
  shows "(tk_Kind tok = EOF \<and> reads l l' \<and> l_rest l' = []) \<or> eats l l'"
proof -
  from assms obtain m where m: "skipWhitespaceAndComments l = Inr m"
    by (auto simp: next_tok_def split: sum.splits)
  note rm = reads_skipWS [OF m]
  show ?thesis
  proof (cases "l_rest m")
    case Nil
    with assms m rm show ?thesis by (auto simp: next_tok_def atEnd_def mk_token_def)
  next
    case (Cons c r)
    have nl: "\<not> is_newline c" using skipWS_stop [OF m] Cons by simp
    have "eats m l'"
    proof (cases "c = CHR 0x22 \<or> c = CHR 0x27")
      case True
      with assms m Cons have "scanShortString m (l_line m) c = Inr (tok, l')"
        by (auto simp: next_tok_def atEnd_def Let_def)
      then show ?thesis using Cons nl by (rule eats_short_string)
    next
      case q: False
      show ?thesis
      proof (cases "c = CHR ''[''")
        case True
        show ?thesis
        proof (cases "tryReadLongBracketOpen m")
          case None
          with True assms m Cons q have "l' = advance 1 m"
            by (auto simp: next_tok_def atEnd_def scan_lbrack_def Let_def split: if_splits)
          with eats_advance1 [OF Cons nl] show ?thesis by simp
        next
          case (Some x)
          then obtain n m2 where o: "tryReadLongBracketOpen m = Some (n, m2)" by (cases x) auto
          with True assms m Cons q obtain ce where "long_body m2 n = Inr (ce, l')"
            by (auto simp: next_tok_def atEnd_def scan_long_string_def readLongString_def Let_def split: sum.splits)
          with reads_long have "reads m2 l'" .
          moreover have "eats m m2" using reads_open [OF o] length_open [OF o] by (simp add: eats_def)
          ultimately show ?thesis by (rule eats_reads [rotated])
        qed
      next
        case b: False
        show ?thesis
          using assms m Cons q b nl eats_identifier [of m _ tok l' c r] eats_number [of m _ tok l' c r]
            eats_symbol [of m _ tok l' c r]
          by (auto simp: next_tok_def atEnd_def Let_def is_name_char_def split: if_splits)
      qed
    qed
    with reads_eats rm show ?thesis by blast
  qed
qed

section \<open>The end of the source\<close>

lemma mk_token_kind [simp]: "tk_Kind (mk_token k n) = k"
  by (simp add: mk_token_def)

lemma map_of_range: "map_of xs a = Some b \<Longrightarrow> c \<notin> snd ` set xs \<Longrightarrow> b \<noteq> c"
  by (metis map_of_SomeD image_eqI snd_conv)

lemma not_EOF:
  "map_of Keywords s = Some k \<Longrightarrow> k \<noteq> EOF" "symbol_kind c = Some k \<Longrightarrow> k \<noteq> EOF"
  unfolding symbol_kind_def by (erule map_of_range, simp add: Keywords_def)+

lemma scanner_kinds:
  "scanNumber l n = Inr (tok, l') \<Longrightarrow> tk_Kind tok = NUMBER"
  "scanShortString l n q = Inr (tok, l') \<Longrightarrow> tk_Kind tok = STRING"
  "scan_long_string l n v = Inr (tok, l') \<Longrightarrow> tk_Kind tok = STRING"
  "scan_lbrack l n = Inr (tok, l') \<Longrightarrow> tk_Kind tok = LBRACK"
  "scanIdentifierOrKeyword l n = (tok, l') \<Longrightarrow> tk_Kind tok \<noteq> EOF"
  by (auto simp: scanNumber_def scanShortString_def scan_long_string_def scan_lbrack_def Let_def
      scanIdentifierOrKeyword_def not_EOF(1) split: option.splits sum.splits if_splits)

lemma symbol_not_EOF: "scanSymbol l n = Inr (tok, l') \<Longrightarrow> tk_Kind tok \<noteq> EOF"
  using scanner_kinds(1) [of l n tok l'] not_EOF(2)
  by (auto simp: scanSymbol_def Let_def split: option.splits if_splits)

lemma EOF_at_end: "next_tok l = Inr (tok, l') \<Longrightarrow> tk_Kind tok = EOF \<Longrightarrow> l_rest l' = []"
  using scanner_kinds symbol_not_EOF
  by (fastforce simp: next_tok_def atEnd_def Let_def split: sum.splits if_splits option.splits)

section \<open>Properties\<close>

text \<open>Scanning makes progress: a token is the end of the source, with nothing left, or it takes at
  least one byte; what is left is always a suffix of what was there.\<close>

theorem Next_progress:
  assumes "Next l = Inr (tok, l')"
  shows "(if tk_Kind tok = EOF then l_rest l' = [] else length (l_rest l') < length (l_rest l)) \<and>
    (\<exists>u. l_rest l = u @ l_rest l') \<and> l_source l' = l_source l"
proof -
  from assms obtain t where t: "next_tok l = Inr (t, l')" "tk_Kind tok = tk_Kind t"
    by (auto simp: Next_def split: sum.splits)
  have "reads l l'" using eats_token [OF t(1)] by (auto simp: eats_def)
  then show ?thesis
    using eats_token [OF t(1)] EOF_at_end [OF t(1)] reads_suffix reads_source t(2) by (auto simp: eats_def)
qed

theorem Next_progress_witness:
  "\<exists>tok l'. Next (lexer_New ''x'' ''=s'') = Inr (tok, l') \<and> length (l_rest l') < length ''x''"
proof -
  have "Next (lexer_New ''x'' ''=s'') =
      Inr (mk_token NAME 1 \<lparr>tk_Str := ''x''\<rparr>\<lparr>tk_EndLine := 1\<rparr>, (lexer_New ''x'' ''=s'')\<lparr>l_rest := []\<rparr>)"
    by code_simp
  from Next_progress [OF this] this show ?thesis by (simp add: mk_token_def lexer_New_def)
qed

text \<open>C30. Lines are counted exactly: after a token the line is the line before plus the number of
  newline sequences (LF, CR, CR LF or LF CR, each once) in the bytes read, and the token records it.\<close>

theorem Next_lines:
  assumes "Next l = Inr (tok, l')"
  shows "tk_EndLine tok = l_line l' \<and>
    l_line l' + word_of_nat (breaks (l_rest l')) = l_line l + word_of_nat (breaks (l_rest l))"
proof -
  from assms obtain t where t: "next_tok l = Inr (t, l')" "tk_EndLine tok = l_line l'"
    by (auto simp: Next_def split: sum.splits)
  have "reads l l'" using eats_token [OF t(1)] by (auto simp: eats_def)
  from reads_lines [OF this] t(2) show ?thesis by simp
qed

theorem Next_lines_witness:
  "\<exists>tok l'. Next (lexer_New [CHR 0x0A, CHR 0x0D, CHR 0x0A, CHR ''x''] ''=s'') = Inr (tok, l') \<and> tk_EndLine tok = 3"
proof -
  let ?l = "lexer_New [CHR 0x0A, CHR 0x0D, CHR 0x0A, CHR ''x''] ''=s''"
  have "Next ?l = Inr (mk_token NAME 3 \<lparr>tk_Str := ''x''\<rparr>\<lparr>tk_EndLine := 3\<rparr>, ?l\<lparr>l_rest := [], l_line := 3\<rparr>)"
    by code_simp
  from Next_lines [OF this] this show ?thesis by simp
qed

text \<open>The tokens of a source: \<open>Next\<close> until the end or an error, at most \<open>n\<close> times.\<close>

fun tokens :: "nat \<Rightarrow> lexer \<Rightarrow> (lex_error + token list) option" where
  "tokens 0 l = None"
| "tokens (Suc n) l =
     (case Next l of
        Inl e \<Rightarrow> Some (Inl e)
      | Inr (tok, l') \<Rightarrow>
          if tk_Kind tok = EOF then Some (Inr [tok])
          else case tokens n l' of
                 None \<Rightarrow> None
               | Some (Inl e) \<Rightarrow> Some (Inl e)
               | Some (Inr ts) \<Rightarrow> Some (Inr (tok # ts)))"

lemma Next_shape:
  assumes "Next l = Inr (tok, l')"
  shows "reads l l'" "tk_Kind tok = EOF \<Longrightarrow> l_rest l' = []" "tk_EndLine tok = l_line l'"
    "tk_Kind tok \<noteq> EOF \<Longrightarrow> length (l_rest l') < length (l_rest l)"
proof -
  from assms obtain t where t: "next_tok l = Inr (t, l')" "tk_Kind tok = tk_Kind t" "tk_EndLine tok = l_line l'"
    by (auto simp: Next_def split: sum.splits)
  note e = eats_token [OF t(1)] and z = EOF_at_end [OF t(1)]
  show "reads l l'" using e by (auto simp: eats_def)
  show "tk_Kind tok = EOF \<Longrightarrow> l_rest l' = []" using z t(2) by simp
  show "tk_EndLine tok = l_line l'" by (rule t(3))
  show "tk_Kind tok \<noteq> EOF \<Longrightarrow> length (l_rest l') < length (l_rest l)" using e t(2) by (auto simp: eats_def)
qed

lemma tokens_end:
  "length (l_rest l) < n \<Longrightarrow> \<exists>r. tokens n l = Some r \<and> (\<forall>ts. r = Inr ts \<longrightarrow>
     ts \<noteq> [] \<and> length ts \<le> length (l_rest l) + 1 \<and> tk_Kind (last ts) = EOF \<and>
     tk_EndLine (last ts) = l_line l + word_of_nat (breaks (l_rest l)))"
proof (induction n arbitrary: l)
  case (Suc n)
  show ?case
  proof (cases "Next l")
    case (Inr x)
    then obtain tok l' where t: "Next l = Inr (tok, l')" by (cases x) auto
    note sh = Next_shape [OF t]
    note ln = reads_lines [OF sh(1)]
    show ?thesis
    proof (cases "tk_Kind tok = EOF")
      case True
      with t sh(2,3) ln show ?thesis by simp
    next
      case False
      have "length (l_rest l') < n" using sh(4) [OF False] Suc.prems by simp
      from Suc.IH [OF this] obtain r where r: "tokens n l' = Some r"
        "\<forall>ts. r = Inr ts \<longrightarrow> ts \<noteq> [] \<and> length ts \<le> length (l_rest l') + 1 \<and> tk_Kind (last ts) = EOF \<and>
           tk_EndLine (last ts) = l_line l' + word_of_nat (breaks (l_rest l'))" by blast
      with t False ln sh(4) [OF False] show ?thesis by (cases r) auto
    qed
  qed simp
qed simp

text \<open>C31. Scanning a whole source ends: after at most one \<open>Next\<close> per byte, and one more, there is an error
  or the end of the source, and the end token carries the line one more than the number of newline
  sequences in the source.\<close>

theorem scan_terminates:
  "\<exists>r. tokens (length src + 1) (lexer_New src name) = Some r \<and> (\<forall>ts. r = Inr ts \<longrightarrow>
     ts \<noteq> [] \<and> length ts \<le> length src + 1 \<and> tk_Kind (last ts) = EOF \<and>
     tk_EndLine (last ts) = 1 + word_of_nat (breaks src))"
  using tokens_end [of "lexer_New src name" "length src + 1"] by (simp add: lexer_New_def)

theorem scan_terminates_witness:
  "\<exists>r. tokens (length ''a=b'' + 1) (lexer_New ''a=b'' ''=s'') = Some r \<and>
    (\<forall>ts. r = Inr ts \<longrightarrow> tk_Kind (last ts) = EOF)"
  using scan_terminates [of "''a=b''" "''=s''"] by blast

end
