(* ===== verification/FloatSpec.thy ===== *)
theory FloatSpec
  imports FloatArith
begin

text \<open>
  Rounding is exact where it can be: a number that is representable is rounded to itself, in
  particular every natural number below \<open>2 ^ 53\<close>.
\<close>

lemma log2_nat_unique: "2 ^ k \<le> n \<Longrightarrow> n < 2 ^ Suc k \<Longrightarrow> log2_nat n = k"
proof -
  assume n: "2 ^ k \<le> n" "n < 2 ^ Suc k"
  then have pos: "0 < n" using zero_less_power [of "2 :: nat" k] by linarith
  note b = log2_nat_bounds [OF pos]
  have "k < Suc (log2_nat n)" using n(1) b by (metis le_less_trans nat_power_less_imp_less numeral_2_eq_2 zero_less_Suc)
  moreover have "log2_nat n < Suc k" using n(2) b by (metis le_less_trans nat_power_less_imp_less numeral_2_eq_2 zero_less_Suc)
  ultimately show ?thesis by simp
qed

lemma log2_nat_power [simp]: "log2_nat (2 ^ k) = k"
  by (rule log2_nat_unique) auto

text \<open>The exponent of a number of 53 significant bits scaled by a power of two.\<close>

lemma rat_expo_mult:
  assumes "2 ^ k \<le> m" "m < 2 ^ Suc k"
  shows "rat_expo (m * 2 ^ j) 1 = int k + int j"
proof -
  have "log2_nat (m * 2 ^ j) = k + j"
    using assms by (intro log2_nat_unique) (simp_all add: power_add)
  moreover have "log2_nat 1 = 0" using log2_nat_power [of 0] by simp
  moreover have "\<not> m * 2 ^ j < 2 ^ (k + j)" using assms(1) by (simp add: power_add)
  ultimately show ?thesis by (simp add: rat_expo_def Let_def nat_int_add)
qed

lemma rat_expo_div:
  assumes "2 ^ k \<le> m" "m < 2 ^ Suc k"
  shows "rat_expo m (2 ^ j) = int k - int j"
proof -
  have l: "log2_nat m = k" using assms by (rule log2_nat_unique)
  show ?thesis
  proof (cases "j \<le> k")
    case True
    then have "\<not> m < 2 ^ j * 2 ^ (k - j)" using assms(1) by (simp flip: power_add)
    with True l show ?thesis by (simp add: rat_expo_def Let_def nat_diff_distrib')
  next
    case False
    then have "\<not> m * 2 ^ (j - k) < 2 ^ j"
      using mult_le_mono1 [OF assms(1), of "2 ^ (j - k)"] by (simp flip: power_add)
    with False l show ?thesis by (simp add: rat_expo_def Let_def nat_diff_distrib')
  qed
qed

lemma round_quotient_exact:
  assumes "0 < d" and "(if 0 \<le> q then n else n * 2 ^ nat (- q)) = m * (if 0 \<le> q then d * 2 ^ nat q else d)"
  shows "round_quotient n d q = m"
proof -
  have "0 < (if 0 \<le> q then d * 2 ^ nat q else d)" using assms(1) by simp
  then show ?thesis unfolding round_quotient_def Let_def assms(2) by simp
qed

text \<open>A number below the first power of two with an infinite exponent, from its two fields.\<close>

lemma f64_of_fields: "unat f < 2 ^ 63 \<Longrightarrow> unat f = f64_expo f * 2 ^ 52 + f64_frac f"
proof -
  assume lt: "unat f < 2 ^ 63"
  then have "unat f div 2 ^ 52 < 2048" by (simp add: div_less_iff_less_mult)
  then show ?thesis
    by (simp only: f64_expo_def f64_frac_def unat_drop_bit_div mod_less div_mult_mod_eq)
qed

lemma f64_frac_lt: "f64_frac f < 2 ^ 52"
  by (simp add: f64_frac_def)

lemma word_of_unat_eq: "unat f = n \<Longrightarrow> word_of_nat n = f" for f :: f64
  by auto

text \<open>The result of rounding, once exponent and quotient are known.\<close>

lemma f64_round_known:
  assumes "num \<noteq> 0" "rat_expo num den = e" "q = (if e < - 1022 then - 1074 else e - 52)"
    "round_quotient num den q = m" "nat (q + 1074) * 2 ^ 52 + m < 2047 * 2 ^ 52"
  shows "f64_round num den = word_of_nat (nat (q + 1074) * 2 ^ 52 + m)"
  unfolding f64_round_def Let_def assms(2) assms(3) [symmetric] assms(4) using assms(1,5) by simp

lemma round_normal:
  assumes "1 \<le> e" "e < 2047" "m < 2 ^ 52"
  defines "m' \<equiv> m + 2 ^ 52"
  shows "(if 1075 \<le> e then f64_round (m' * 2 ^ (e - 1075)) 1 else f64_round m' (2 ^ (1075 - e))) =
    word_of_nat (e * 2 ^ 52 + m)"
proof -
  have m': "2 ^ 52 \<le> m'" "m' < 2 ^ Suc 52" using assms(3) by (simp_all add: m'_def)
  define q where "q = int e - 1075"
  have pos: "m' \<noteq> 0" using m'(1) by simp
  have b: "nat (q + 1074) * 2 ^ 52 + m' = e * 2 ^ 52 + m"
  proof -
    have "nat (q + 1074) = e - 1" by (simp add: q_def nat_diff_distrib')
    moreover have "(e - 1) * 2 ^ 52 + 2 ^ 52 = e * 2 ^ 52" using assms(1) by (simp add: algebra_simps)
    ultimately show ?thesis by (simp add: m'_def)
  qed
  have lt: "e * 2 ^ 52 + m < 2047 * 2 ^ 52"
  proof -
    have "e * 2 ^ 52 + m < (e + 1) * 2 ^ 52" using assms(3) by simp
    also have "\<dots> \<le> 2047 * 2 ^ 52" using assms(2) by (intro mult_le_mono1) simp
    finally show ?thesis .
  qed
  show ?thesis
  proof (cases "1075 \<le> e")
    case True
    have "f64_round (m' * 2 ^ (e - 1075)) 1 = word_of_nat (nat (q + 1074) * 2 ^ 52 + m')"
    proof (rule f64_round_known)
      show "rat_expo (m' * 2 ^ (e - 1075)) 1 = int 52 + int (e - 1075)" using m' by (rule rat_expo_mult)
      show "q = (if int 52 + int (e - 1075) < - 1022 then - 1074 else int 52 + int (e - 1075) - 52)"
        using True by (simp add: q_def of_nat_diff)
      show "round_quotient (m' * 2 ^ (e - 1075)) 1 q = m'"
        using True by (intro round_quotient_exact) (auto simp: q_def nat_diff_distrib' nat_int_add)
    qed (use pos b lt in simp_all)
    with True b show ?thesis by simp
  next
    case False
    have "f64_round m' (2 ^ (1075 - e)) = word_of_nat (nat (q + 1074) * 2 ^ 52 + m')"
    proof (rule f64_round_known)
      show "rat_expo m' (2 ^ (1075 - e)) = int 52 - int (1075 - e)" using m' by (rule rat_expo_div)
      show "q = (if int 52 - int (1075 - e) < - 1022 then - 1074 else int 52 - int (1075 - e) - 52)"
        using False assms(1) by (simp add: q_def of_nat_diff)
      show "round_quotient m' (2 ^ (1075 - e)) q = m'"
        using False by (intro round_quotient_exact) (auto simp: q_def nat_diff_distrib')
    qed (use pos b lt in simp_all)
    with False b show ?thesis by simp
  qed
qed

lemma round_subnormal:
  assumes "0 < m" "m < 2 ^ 52"
  shows "f64_round m (2 ^ 1074) = word_of_nat m"
proof -
  define k where "k = log2_nat m"
  have k: "2 ^ k \<le> m" "m < 2 ^ Suc k" using log2_nat_bounds [OF assms(1)] by (simp_all add: k_def)
  have k52: "k < 52" using log2_nat_le [OF assms] by (simp add: k_def)
  have "f64_round m (2 ^ 1074) = word_of_nat (nat (- 1074 + 1074) * 2 ^ 52 + m)"
  proof (rule f64_round_known)
    show "rat_expo m (2 ^ 1074) = int k - int 1074" using k by (rule rat_expo_div)
    show "- 1074 = (if int k - int 1074 < - 1022 then - 1074 else int k - int 1074 - 52)" using k52 by simp
    show "round_quotient m (2 ^ 1074) (- 1074) = m" by (rule round_quotient_exact) simp_all
  qed (use assms in simp_all)
  then show ?thesis by simp
qed

text \<open>Every finite nonnegative number is the rounding of its exact value.\<close>

lemma f64_round_rat:
  assumes "unat f < 2047 * 2 ^ 52"
  shows "f64_round (fst (f64_rat f)) (snd (f64_rat f)) = f"
proof -
  have f: "unat f = f64_expo f * 2 ^ 52 + f64_frac f" using assms by (intro f64_of_fields) simp
  then have e: "f64_expo f < 2047"
    using assms by (metis add_lessD1 mult_less_cancel2)
  show ?thesis
  proof (cases "f64_expo f = 0")
    case True
    show ?thesis
    proof (cases "f64_frac f = 0")
      case True
      with \<open>f64_expo f = 0\<close> f have "f = 0" by (simp add: unat_eq_zero)
      then show ?thesis by (simp add: f64_rat_def Let_def f64_round_def f64_expo_def f64_frac_def)
    next
      case False
      then have "f64_round (f64_frac f) (2 ^ 1074) = word_of_nat (f64_frac f)"
        using f64_frac_lt by (intro round_subnormal) auto
      also have "\<dots> = f" using f True by (intro word_of_unat_eq) simp
      finally show ?thesis using True by (simp add: f64_rat_def Let_def)
    qed
  next
    case False
    then have "(if 1075 \<le> f64_expo f then f64_round ((f64_frac f + 2 ^ 52) * 2 ^ (f64_expo f - 1075)) 1
        else f64_round (f64_frac f + 2 ^ 52) (2 ^ (1075 - f64_expo f))) = word_of_nat (f64_expo f * 2 ^ 52 + f64_frac f)"
      using e f64_frac_lt by (intro round_normal) auto
    moreover have "word_of_nat (f64_expo f * 2 ^ 52 + f64_frac f) = f" using f by (intro word_of_unat_eq)
    ultimately show ?thesis using False by (auto simp: f64_rat_def Let_def split: if_splits)
  qed
qed

text \<open>A natural number of at most 53 bits is represented exactly.\<close>

lemma f64_round_nat:
  assumes "n < 2 ^ 53"
  shows "f64_round n 1 = f64_of_nat n"
proof (cases "n = 0")
  case True
  then show ?thesis by (simp add: f64_round_def f64_of_nat_def)
next
  case False
  define k where "k = log2_nat n"
  have k: "2 ^ k \<le> n" "n < 2 ^ Suc k" using log2_nat_bounds [of n] False by (simp_all add: k_def)
  have k52: "k \<le> 52" using log2_nat_le [of n 53] assms False by (simp add: k_def)
  have split_k: "(2 :: nat) ^ 52 = 2 ^ k * 2 ^ (52 - k)" using k52 by (simp flip: power_add)
  have b: "nat (int k - 52 + 1074) * 2 ^ 52 + n * 2 ^ (52 - k) = (1023 + k) * 2 ^ 52 + (n - 2 ^ k) * 2 ^ (52 - k)"
  proof -
    have "nat (int k - 52 + 1074) = 1022 + k" by simp
    moreover have "n * 2 ^ (52 - k) = 2 ^ 52 + (n - 2 ^ k) * 2 ^ (52 - k)"
      unfolding split_k using k(1) by (metis add_mult_distrib le_add_diff_inverse)
    ultimately show ?thesis by simp
  qed
  have lt: "(n - 2 ^ k) * 2 ^ (52 - k) < 2 ^ 52"
    unfolding split_k using k by (intro mult_strict_right_mono) auto
  have "f64_round n 1 = word_of_nat (nat (int k - 52 + 1074) * 2 ^ 52 + n * 2 ^ (52 - k))"
  proof (rule f64_round_known)
    show "rat_expo n 1 = int k" using rat_expo_mult [OF k, of 0] by simp
    show "int k - 52 = (if int k < - 1022 then - 1074 else int k - 52)" by simp
    show "round_quotient n 1 (int k - 52) = n * 2 ^ (52 - k)"
      using k52 by (intro round_quotient_exact) (auto simp: nat_diff_distrib')
    show "nat (int k - 52 + 1074) * 2 ^ 52 + n * 2 ^ (52 - k) < 2047 * 2 ^ 52"
      unfolding b using lt k52 by simp
  qed (use False in simp)
  with False b show ?thesis by (simp add: f64_of_nat_def Let_def k_def)
qed

lemma f64_decimal_nat: "n < 2 ^ 53 \<Longrightarrow> f64_decimal n 0 = f64_of_nat n"
  using f64_round_nat [of n] by (simp add: f64_decimal_def del: One_nat_def)

section \<open>Exact operations on small natural numbers\<close>

lemma round_quotient_scale:
  assumes "0 < c"
  shows "round_quotient (n * c) (d * c) q = round_quotient n d q"
proof -
  have s: "(if 0 \<le> q then n * c else n * c * 2 ^ nat (- q)) = (if 0 \<le> q then n else n * 2 ^ nat (- q)) * c"
    "(if 0 \<le> q then d * c * 2 ^ nat q else d * c) = (if 0 \<le> q then d * 2 ^ nat q else d) * c" by simp_all
  have "(d < 2 * r) = (d * c < 2 * (r * c))" "(2 * r = d) = (2 * (r * c) = d * c)" for d r
    using assms by (simp_all flip: mult.assoc)
  moreover have "a * c mod (b * c) = (a mod b) * c" for a b by (rule mod_mult_mult2)
  ultimately show ?thesis unfolding round_quotient_def Let_def s using assms by simp
qed

lemma f64_round_scale: "f64_round (n * 2 ^ j) (2 ^ j) = f64_round n 1"
proof (cases "n = 0")
  case False
  define k where "k = log2_nat n"
  have k: "2 ^ k \<le> n" "n < 2 ^ Suc k" using log2_nat_bounds [of n] False by (simp_all add: k_def)
  have "rat_expo (n * 2 ^ j) (2 ^ j) = int (k + j) - int j"
    using k by (intro rat_expo_div) (simp_all add: power_add)
  moreover have "rat_expo n 1 = int k" using rat_expo_mult [OF k, of 0] by simp
  ultimately have e: "rat_expo (n * 2 ^ j) (2 ^ j) = rat_expo n 1" by simp
  have "round_quotient (n * 2 ^ j) (2 ^ j) q = round_quotient n 1 q" for q
    using round_quotient_scale [of "2 ^ j" n 1 q] by simp
  with e False show ?thesis by (simp add: f64_round_def)
qed (simp add: f64_round_def)

lemma f64_rat_of_nat:
  assumes "n < 2 ^ 53"
  obtains j where "f64_rat (f64_of_nat n) = (n * 2 ^ j, 2 ^ j)"
proof (cases "n = 0")
  case True
  then have "f64_rat (f64_of_nat n) = (n * 2 ^ 1074, 2 ^ 1074)"
    by (simp add: f64_of_nat_def f64_rat_def f64_expo_def f64_frac_def Let_def)
  then show ?thesis by (rule that)
next
  case False
  define k where "k = log2_nat n"
  have k: "2 ^ k \<le> n" "k \<le> 52" using log2_nat_bounds [of n] log2_nat_le [of n 53] False assms by (simp_all add: k_def)
  have split_k: "(2 :: nat) ^ 52 = 2 ^ k * 2 ^ (52 - k)" using k by (simp flip: power_add)
  have "(n - 2 ^ k) * 2 ^ (52 - k) + 2 ^ 52 = n * 2 ^ (52 - k)"
    unfolding split_k using k(1) by (metis add_mult_distrib le_add_diff_inverse2)
  then have "f64_rat (f64_of_nat n) = (n * 2 ^ (52 - k), 2 ^ (52 - k))"
    using f64_of_nat_pos [of n] assms False k split_k by (auto simp: f64_rat_def Let_def simp flip: k_def)
  then show ?thesis by (rule that)
qed

lemma f64_of_nat_finite: "n < 2 ^ 53 \<Longrightarrow> f64_of_nat n \<noteq> f64_inf"
proof
  assume n: "n < 2 ^ 53" "f64_of_nat n = f64_inf"
  moreover have "f64_expo f64_inf = 2047" by (simp add: f64_inf_def f64_expo_def drop_bit_eq_div)
  ultimately show False using f64_of_nat_pos(1) [of n] log2_nat_le [of n 53]
    by (cases "n = 0") (auto simp: f64_of_nat_def f64_expo_def)
qed

lemma f64_add_nat: "a + b < 2 ^ 53 \<Longrightarrow> f64_add_nn (f64_of_nat a) (f64_of_nat b) = f64_of_nat (a + b)"
proof -
  assume lt: "a + b < 2 ^ 53"
  obtain i j where r: "f64_rat (f64_of_nat a) = (a * 2 ^ i, 2 ^ i)" "f64_rat (f64_of_nat b) = (b * 2 ^ j, 2 ^ j)"
    using f64_rat_of_nat [of a] f64_rat_of_nat [of b] lt by (metis add_lessD1 add.commute)
  have "a * 2 ^ i * 2 ^ j + b * 2 ^ j * 2 ^ i = (a + b) * 2 ^ (i + j)" by (simp add: power_add algebra_simps)
  then show ?thesis
    using f64_round_scale [of "a + b" "i + j"] f64_round_nat [OF lt] f64_of_nat_finite [of a] f64_of_nat_finite [of b] lt r
    by (simp add: f64_add_nn_def power_add)
qed

lemma f64_mul_nat: "a * b < 2 ^ 53 \<Longrightarrow> a < 2 ^ 53 \<Longrightarrow> b < 2 ^ 53 \<Longrightarrow>
    f64_mul_nn (f64_of_nat a) (f64_of_nat b) = f64_of_nat (a * b)"
proof -
  assume lt: "a * b < 2 ^ 53" "a < 2 ^ 53" "b < 2 ^ 53"
  obtain i j where r: "f64_rat (f64_of_nat a) = (a * 2 ^ i, 2 ^ i)" "f64_rat (f64_of_nat b) = (b * 2 ^ j, 2 ^ j)"
    using f64_rat_of_nat [OF lt(2)] f64_rat_of_nat [OF lt(3)] by metis
  have m: "a * 2 ^ i * (b * 2 ^ j) = a * b * 2 ^ (i + j)" by (simp add: power_add)
  have "f64_round (a * 2 ^ i * (b * 2 ^ j)) (2 ^ i * 2 ^ j) = f64_of_nat (a * b)"
    unfolding m power_add [symmetric] f64_round_scale by (rule f64_round_nat [OF lt(1)])
  then show ?thesis using f64_of_nat_finite [OF lt(2)] f64_of_nat_finite [OF lt(3)] r by (simp add: f64_mul_nn_def)
qed

end
