(* ===== verification/StringLib.thy ===== *)
theory StringLib
  imports Prelude
begin

text \<open>
  Parts of the string library of \<open>internal/stdlib/stringlib.go\<close>: the quoting of \<open>%q\<close>.
\<close>

text \<open>What \<open>quoteLuaString\<close> emits for one byte.\<close>

definition quote_char :: "char \<Rightarrow> string" where
  "quote_char c =
     (if c = CHR 0x22 \<or> c = CHR 0x5C then [CHR 0x5C, c]
      else if c = CHR 0x0A then [CHR 0x5C, CHR 0x0A]
      else if c = CHR 0x0D then [CHR 0x5C, CHR ''r'']
      else if c = CHR 0x00 then [CHR 0x5C, CHR ''0'', CHR ''0'', CHR ''0'']
      else [c])"

definition quoteLuaString :: "string \<Rightarrow> string" where
  "quoteLuaString s = [CHR 0x22] @ concat (map quote_char s) @ [CHR 0x22]"

end
