(* ===== verification/LexRoundtrip.thy ===== *)
theory LexRoundtrip
  imports LexSpec FloatSpec StringLib
begin

text \<open>
  Printing and scanning: what \<open>%q\<close> prints scans back to the same bytes, and a decimal integer scans
  to exactly that number.
\<close>

section \<open>Quoted strings\<close>

lemma short_body_char:
  assumes "l_rest l = c # r" "\<not> is_newline c" "c \<noteq> q" "c \<noteq> CHR 0x5C"
  shows "short_body l q buf = short_body (l\<lparr>l_rest := r\<rparr>) q (buf @ [c])"
  using assms by (subst short_body.simps) (simp add: advance_def)

lemma short_body_escape:
  assumes "l_rest l = CHR 0x5C # c # r" "q \<noteq> CHR 0x5C"
  shows "short_body l q buf = (case read_escape (l\<lparr>l_rest := c # r\<rparr>) buf of
      Inl e \<Rightarrow> Inl e | Inr (buf, l) \<Rightarrow> short_body l q buf)"
  using assms by (subst short_body.simps) (simp add: advance_def atEnd_def)

lemma short_body_end:
  "l_rest l = q # r \<Longrightarrow> \<not> is_newline q \<Longrightarrow> short_body l q buf = Inr (buf @ [q], l\<lparr>l_rest := r\<rparr>)"
  by (subst short_body.simps) (simp add: advance_def)

lemma char_of_zero: "char_of (0 :: nat) = CHR 0x00"
  by (simp add: char_of_def)

lemma hd_quote_char: "hd (concat (map quote_char s) @ CHR 0x22 # r) \<noteq> CR"
  by (cases s) (auto simp: quote_char_def CR_def)

lemma incline_lf:
  "l_rest l = NL # t \<Longrightarrow> t \<noteq> [] \<Longrightarrow> hd t \<noteq> CR \<Longrightarrow>
    inclineFromCurrent l = l\<lparr>l_rest := t, l_line := l_line l + 1\<rparr>"
  by (auto simp: inclineFromCurrent_def Let_def advance_def atEnd_def newline_pair_def NL_def CR_def)

lemma short_body_quote_char:
  assumes "l_rest l = quote_char c @ t" "t \<noteq> []" "hd t \<noteq> CR"
  shows "short_body l (CHR 0x22) buf =
    short_body (l\<lparr>l_rest := t, l_line := l_line l + (if c = NL then 1 else 0)\<rparr>) (CHR 0x22) (buf @ [c])"
proof -
  consider "c = CHR 0x22 \<or> c = CHR 0x5C" | "c = NL" | "c = CR" | "c = CHR 0x00"
    | "c \<notin> {CHR 0x22, CHR 0x5C, NL, CR, CHR 0x00}" by blast
  then show ?thesis
  proof cases
    case 1
    then have "l_rest l = CHR 0x5C # c # t" "c \<noteq> NL" using assms(1) by (auto simp: quote_char_def NL_def)
    moreover have "read_escape (l\<lparr>l_rest := c # t\<rparr>) buf = Inr (buf @ [c], l\<lparr>l_rest := t\<rparr>)"
      using 1 by (auto simp: read_escape_def simple_escape_def advance_def)
    ultimately show ?thesis by (simp add: short_body_escape)
  next
    case 2
    then have "l_rest l = CHR 0x5C # NL # t" using assms(1) by (simp add: quote_char_def NL_def)
    moreover have "read_escape (l\<lparr>l_rest := NL # t\<rparr>) buf = Inr (buf @ [NL], l\<lparr>l_rest := t, l_line := l_line l + 1\<rparr>)"
      using incline_lf [of "l\<lparr>l_rest := NL # t\<rparr>" t] assms(2,3)
      by (simp add: read_escape_def simple_escape_def is_newline_def) (simp add: NL_def)
    ultimately show ?thesis using 2 by (simp add: short_body_escape)
  next
    case 3
    then have "l_rest l = CHR 0x5C # CHR ''r'' # t" "c \<noteq> NL" using assms(1) by (simp_all add: quote_char_def NL_def CR_def)
    moreover have "read_escape (l\<lparr>l_rest := CHR ''r'' # t\<rparr>) buf = Inr (buf @ [c], l\<lparr>l_rest := t\<rparr>)"
      using 3 by (simp add: read_escape_def simple_escape_def advance_def CR_def)
    ultimately show ?thesis by (simp add: short_body_escape)
  next
    case 4
    then have "l_rest l = CHR 0x5C # CHR ''0'' # CHR ''0'' # CHR ''0'' # t" "c \<noteq> NL"
      using assms(1) by (simp_all add: quote_char_def NL_def)
    moreover have "read_escape (l\<lparr>l_rest := CHR ''0'' # CHR ''0'' # CHR ''0'' # t\<rparr>) buf = Inr (buf @ [c], l\<lparr>l_rest := t\<rparr>)"
      using 4 by (simp add: read_escape_def simple_escape_def advance_def is_newline_def NL_def CR_def isDigit_def
          code_of_def decimal_digits_def dec_val_def digit_val_def Let_def numeral_3_eq_3 char_of_zero)
    ultimately show ?thesis by (simp add: short_body_escape)
  next
    case 5
    then have "l_rest l = c # t" "\<not> is_newline c" using assms(1) by (auto simp: quote_char_def NL_def CR_def is_newline_def)
    with 5 show ?thesis by (simp add: short_body_char)
  qed
qed

lemma short_body_quoted:
  "l_rest l = concat (map quote_char s) @ CHR 0x22 # r \<Longrightarrow>
    short_body l (CHR 0x22) buf =
      Inr (buf @ s @ [CHR 0x22], l\<lparr>l_rest := r, l_line := l_line l + word_of_nat (count_list s NL)\<rparr>)"
proof (induction s arbitrary: l buf)
  case Nil
  then show ?case by (simp add: short_body_end is_newline_def NL_def CR_def)
next
  case (Cons c s)
  define t where "t = concat (map quote_char s) @ CHR 0x22 # r"
  have t: "t \<noteq> []" "hd t \<noteq> CR" unfolding t_def by (simp, rule hd_quote_char)
  have "l_rest l = quote_char c @ t" using Cons.prems by (simp add: t_def)
  from short_body_quote_char [OF this t] Cons.IH [of "l\<lparr>l_rest := t, l_line := l_line l + (if c = NL then 1 else 0)\<rparr>"]
  show ?case by (auto simp: t_def algebra_simps)
qed

text \<open>C27. Quoting and scanning: for every byte string, what \<open>%q\<close> prints scans as one string token with
  exactly these bytes, leaving exactly what followed, the line advanced by its line feeds.\<close>

theorem quote_roundtrip:
  "Next (lexer_New (quoteLuaString s @ r) name) =
    Inr (\<lparr>tk_Kind = STRING, tk_Line = 1, tk_EndLine = 1 + word_of_nat (count_list s NL), tk_Num = 0, tk_Str = s,
          tk_Text = [CHR 0x22] @ s @ [CHR 0x22]\<rparr>,
         \<lparr>l_rest = r, l_line = 1 + word_of_nat (count_list s NL), l_source = name\<rparr>)"
proof -
  let ?l = "lexer_New (quoteLuaString s @ r) name"
  have rest: "l_rest ?l = CHR 0x22 # concat (map quote_char s) @ CHR 0x22 # r"
    by (simp add: lexer_New_def quoteLuaString_def)
  have "skipWhitespaceAndComments ?l = Inr ?l"
    by (subst skipWhitespaceAndComments.simps) (simp add: rest is_blank_def is_newline_def NL_def CR_def)
  moreover have "short_body (advance 1 ?l) (CHR 0x22) [CHR 0x22] = Inr ([CHR 0x22] @ s @ [CHR 0x22],
      ?l\<lparr>l_rest := r, l_line := l_line ?l + word_of_nat (count_list s NL)\<rparr>)"
    using short_body_quoted [of "advance 1 ?l" s r "[CHR 0x22]"] rest by (simp add: advance_def)
  ultimately show ?thesis
    by (simp add: Next_def next_tok_def atEnd_def rest scanShortString_def mk_token_def Let_def) (simp add: lexer_New_def)
qed

section \<open>Decimal numerals\<close>

lemma show_nat_digit: "c \<in> set (show_nat n) \<Longrightarrow> \<exists>d < 10. c = char_of (48 + d :: nat)"
proof (induction n rule: show_nat.induct)
  case (1 n)
  show ?case
  proof (cases "n < 10")
    case True
    with 1(2) show ?thesis by (subst (asm) show_nat.simps) auto
  next
    case False
    with 1(2) have "c \<in> set (show_nat (n div 10)) \<or> c = char_of (48 + n mod 10)"
      by (subst (asm) show_nat.simps) auto
    moreover have "n mod 10 < 10" by simp
    ultimately show ?thesis using 1(1) False by blast
  qed
qed

lemma digit_code: "d < 10 \<Longrightarrow> code_of (char_of (48 + d)) = 48 + d" for d :: nat
  by (simp add: code_of_def)

lemma show_nat_isDigit: "c \<in> set (show_nat n) \<Longrightarrow> isDigit c"
  using show_nat_digit [of c n] by (auto simp: isDigit_def digit_code)

lemma dec_val_snoc: "dec_val (s @ [c]) = dec_val s * 10 + digit_val c"
  by (simp add: dec_val_def)

lemma dec_val_show_nat: "dec_val (show_nat n) = n"
proof (induction n rule: show_nat.induct)
  case (1 n)
  show ?case
  proof (cases "n < 10")
    case True
    then show ?thesis by (subst show_nat.simps) (simp add: dec_val_def digit_val_def digit_code)
  next
    case False
    then have "dec_val (show_nat n) = n div 10 * 10 + n mod 10"
      by (subst show_nat.simps) (simp add: dec_val_snoc 1 digit_val_def digit_code)
    then show ?thesis by simp
  qed
qed

lemma show_nat_ne: "show_nat n \<noteq> []"
  by (subst show_nat.simps) simp

text \<open>A character that ends a decimal integer.\<close>

definition ends_numeral :: "string \<Rightarrow> bool" where
  "ends_numeral r \<longleftrightarrow> r = [] \<or> \<not> is_name_char (hd r) \<and> hd r \<noteq> CHR ''.'' \<and> hd r \<noteq> CHR 0x00"

lemma skip_numeral_digits:
  assumes "\<forall>c \<in> set ds. isDigit c" "ends_numeral r"
  shows "skip_numeral (ds @ r) = r"
proof -
  have "dropWhile (\<lambda>c. isDigit c \<or> c = CHR ''.'') (ds @ r) = r"
    using assms by (cases r) (auto simp: ends_numeral_def is_name_char_def dropWhile_append)
  moreover have "r \<noteq> [] \<Longrightarrow> hd r \<noteq> CHR ''e'' \<and> hd r \<noteq> CHR ''E''"
    using assms(2) by (auto simp: ends_numeral_def is_name_char_def isAlpha_def code_of_def)
  moreover have "dropWhile is_name_char r = r"
    using assms(2) by (cases r) (auto simp: ends_numeral_def)
  ultimately show ?thesis using assms(2) by (auto simp: skip_numeral_def ends_numeral_def)
qed

lemma ParseFloat_digits:
  assumes "\<forall>c \<in> set ds. isDigit c" "ds \<noteq> []"
  shows "ParseFloat ds = Some (f64_decimal (dec_val ds) 0)"
proof -
  have t: "takeWhile isDigit ds = ds" using assms(1) by (simp add: takeWhile_eq_all_conv)
  show ?thesis unfolding ParseFloat_def Let_def t using assms(2) by (simp add: parse_exponent_def)
qed

lemma parseNumeral_show_nat: "n < 2 ^ 53 \<Longrightarrow> parseNumeral (show_nat n) = Some (f64_of_nat n)"
proof -
  assume n: "n < 2 ^ 53"
  have d: "\<forall>c \<in> set (show_nat n). isDigit c" using show_nat_isDigit by blast
  have "\<not> isDigit (CHR ''_'')" "\<not> isDigit (CHR ''x'')" "\<not> isDigit (CHR ''X'')" by (auto simp: isDigit_def code_of_def)
  moreover have "isDigit (show_nat n ! 1)" if "2 \<le> length (show_nat n)" using that d nth_mem [of 1 "show_nat n"] by simp
  ultimately have "CHR ''_'' \<notin> set (show_nat n)"
    and "2 \<le> length (show_nat n) \<Longrightarrow> show_nat n ! 1 \<noteq> CHR ''x'' \<and> show_nat n ! 1 \<noteq> CHR ''X''"
    using d by (blast, metis)
  then show ?thesis
    using ParseFloat_digits [OF d show_nat_ne] f64_decimal_nat [OF n] by (auto simp: parseNumeral_def dec_val_show_nat)
qed

text \<open>C28. Printing and scanning of integers: below 2^53 the decimal digits of a number, followed by
  something that does not continue a numeral, scan as one number token with exactly that value.\<close>

theorem number_roundtrip:
  assumes "n < 2 ^ 53" "ends_numeral r"
  shows "Next (lexer_New (show_nat n @ r) name) =
    Inr (\<lparr>tk_Kind = NUMBER, tk_Line = 1, tk_EndLine = 1, tk_Num = f64_of_nat n, tk_Str = [], tk_Text = show_nat n\<rparr>,
         \<lparr>l_rest = r, l_line = 1, l_source = name\<rparr>)"
proof -
  let ?l = "lexer_New (show_nat n @ r) name"
  obtain c t where ct: "show_nat n = c # t" "isDigit c"
    using show_nat_ne [of n] show_nat_isDigit [of _ n] by (cases "show_nat n") auto
  have rest: "l_rest ?l = c # t @ r" by (simp add: lexer_New_def ct)
  have c: "\<not> is_blank c" "\<not> is_newline c" "c \<noteq> CHR ''-''" "\<not> isAlpha c" "c \<noteq> CHR ''_''"
    "c \<noteq> CHR ''[''" "c \<noteq> CHR 0x22" "c \<noteq> CHR 0x27"
    using ct(2) by (auto simp: isDigit_def code_of_def is_blank_def is_newline_def NL_def CR_def isAlpha_def)
  have "skipWhitespaceAndComments ?l = Inr ?l"
    by (subst skipWhitespaceAndComments.simps) (simp add: rest c)
  moreover have d: "\<forall>c \<in> set (show_nat n). isDigit c" using show_nat_isDigit by blast
  have "scanNumber ?l 1 = Inr (mk_token NUMBER 1 \<lparr>tk_Num := f64_of_nat n, tk_Text := show_nat n\<rparr>, ?l\<lparr>l_rest := r\<rparr>)"
  proof -
    have t: "takeWhile (\<lambda>c. c \<noteq> CHR 0x00) (show_nat n) = show_nat n"
      using d by (auto simp: takeWhile_eq_all_conv isDigit_def code_of_def)
    have lit: "slice (show_nat n @ r) r = show_nat n" by (simp add: slice_def)
    show ?thesis unfolding scanNumber_def Let_def lexer_New_def using parseNumeral_show_nat [OF assms(1)] skip_numeral_digits [OF d assms(2)]
      by (simp add: lit t del: takeWhile_eq_all_conv)
  qed
  moreover have "l_line ?l = 1" by (simp add: lexer_New_def)
  ultimately show ?thesis
    using c ct(2) by (simp add: Next_def next_tok_def atEnd_def rest mk_token_def Let_def) (simp add: lexer_New_def)
qed

theorem number_roundtrip_witness:
  "Next (lexer_New (show_nat 42 @ '';'') ''f'') =
    Inr (\<lparr>tk_Kind = NUMBER, tk_Line = 1, tk_EndLine = 1, tk_Num = f64_of_nat 42, tk_Str = [], tk_Text = show_nat 42\<rparr>,
         \<lparr>l_rest = '';'', l_line = 1, l_source = ''f''\<rparr>)"
proof (rule number_roundtrip)
  show "ends_numeral '';''"
    by (simp add: ends_numeral_def is_name_char_def isAlpha_def isDigit_def code_of_def)
qed simp

section \<open>Hexadecimal numerals\<close>

definition hex_val :: "string \<Rightarrow> nat" where
  "hex_val s = foldl (\<lambda>n c. n * 16 + hexDigitVal c) 0 s"

lemma hex_val_snoc: "hex_val (s @ [c]) = hex_val s * 16 + hexDigitVal c"
  by (simp add: hex_val_def)

lemma hex_fold:
  "hex_val s < 2 ^ 53 \<Longrightarrow>
    foldl (\<lambda>f c. f64_add_nn (f64_mul_nn f (f64_of_nat 16)) (f64_of_nat (hexDigitVal c))) 0 s = f64_of_nat (hex_val s)"
proof (induction s rule: rev_induct)
  case Nil
  show ?case by (simp add: hex_val_def f64_of_nat_def)
next
  case (snoc c s)
  then have "hex_val s * 16 < 2 ^ 53" "hex_val s < 2 ^ 53" by (simp_all add: hex_val_snoc)
  with snoc show ?case by (simp add: hex_val_snoc f64_mul_nat f64_add_nat)
qed

text \<open>C29. Hexadecimal numerals are exact: digits whose value is below 2^53 parse to exactly that number,
  although the parser accumulates in floating point.\<close>

theorem hex_numeral_exact:
  assumes "ds \<noteq> []" "\<forall>c \<in> set ds. isHexDigit c" "hex_val ds < 2 ^ 53"
  shows "parseNumeral (''0x'' @ ds) = Some (f64_of_nat (hex_val ds))"
proof -
  have "\<not> isHexDigit (CHR ''_'')" by (simp add: isHexDigit_def isDigit_def code_of_def)
  with assms(2) have "CHR ''_'' \<notin> set ds" by blast
  moreover have t: "takeWhile isHexDigit ds = ds" using assms(2) by (simp add: takeWhile_eq_all_conv)
  have "parseHexNumeral ds = Some (f64_of_nat (hex_val ds))"
    unfolding parseHexNumeral_def Let_def t hex_fold [OF assms(3)] using assms(1) by simp
  ultimately show ?thesis by (simp add: parseNumeral_def)
qed

theorem hex_numeral_exact_witness: "parseNumeral (''0x'' @ ''fF'') = Some (f64_of_nat 255)"
  using hex_numeral_exact [of "''fF''"]
  by (simp add: isHexDigit_def isDigit_def code_of_def hex_val_def hexDigitVal_def)

end
