(* ===== verification/Ast.thy ===== *)
theory Ast
  imports Token
begin

text \<open>
  The syntax tree of \<open>internal/frontend/ast/ast.go\<close>. A node carries its fields in the order of the Go struct,
  lines included; an absent expression or block (a nil pointer) is \<open>None\<close>. A \<open>FuncExpr\<close> is used through
  its pointer by the compilability analysis, so it carries an address \<open>fe_Ref\<close>, unique per parse.
\<close>

datatype BinOp =
    OpAdd | OpSub | OpMul | OpDiv | OpMod | OpPow | OpConcat
  | OpEq | OpNe | OpLt | OpLe | OpGt | OpGe | OpAnd | OpOr

datatype UnOp = OpUnm | OpNot | OpLen

datatype expr =
    NilExpr u32
  | TrueExpr u32
  | FalseExpr u32
  | NumberExpr u32 f64
  | StringExpr u32 string
  | VarargExpr u32 u32 \<comment> \<open>Line, EmitLine\<close>
  | NameExpr u32 string
  | IndexExpr u32 u32 u32 u32 expr expr \<comment> \<open>Line, ObjEndLine, KeyEndLine, CloseLine, Obj, Key\<close>
  | ParenExpr u32 u32 expr \<comment> \<open>Line, EndLine, E\<close>
  | CallExpr u32 u32 u32 "u32 list" expr "expr list" \<comment> \<open>Line, ArgsLine, FnEndLine, ArgEndLines, Fn, Args\<close>
  | MethodCallExpr u32 u32 "u32 list" expr string "expr list" \<comment> \<open>Line, ArgsLine, ArgEndLines, Recv, Method, Args\<close>
  | BinExpr u32 u32 BinOp expr expr \<comment> \<open>Line, EndLine, Op, L, R\<close>
  | UnExpr u32 u32 UnOp expr \<comment> \<open>Line, EndLine, Op, E\<close>
  | FuncE funcexpr
  | TableExpr u32 u32 u32 "titem list" \<comment> \<open>Line, NewTableLine, CloseLine, Items\<close>
and funcexpr =
    FuncExpr (fe_Ref: nat) (fe_Line: u32) (fe_Params: "string list") (fe_IsVararg: bool) (fe_NoArgTable: bool)
      (fe_Body: block) (fe_EndLine: u32)
and titem =
    TableItem "expr option" expr u32 u32 u32 \<comment> \<open>Key, Val, KeyEndLine, EqLine, EndLine\<close>
and block =
    Block (b_Stmts: "stmt list") (b_EndLine: u32)
and stmt =
    LocalStmt u32 "u32 list" u32 "string list" "expr list" \<comment> \<open>Line, ExprEndLines, EndLine, Names, Exprs\<close>
  | LocalFuncStmt u32 string funcexpr
  | AssignStmt u32 u32 "u32 list" "expr list" "expr list" \<comment> \<open>Line, EndLine, ExprEndLines, Targets, Exprs\<close>
  | CallStmt u32 expr
  | DoStmt u32 block
  | WhileStmt u32 u32 expr block \<comment> \<open>Line, CondEndLine, Cond, Body\<close>
  | RepeatStmt u32 block expr u32 \<comment> \<open>Line, Body, Cond, CondEndLine\<close>
  | IfStmt u32 "ifclause list" "block option"
  | NumForStmt u32 string "u32 \<times> u32 \<times> u32" u32 expr expr "expr option" block
      \<comment> \<open>Line, Var, ExprEndLines, DoLine, Init, Limit, Step, Body\<close>
  | GenForStmt u32 "string list" u32 u32 "u32 list" "expr list" block
      \<comment> \<open>Line, Names, IterLine, DoLine, ExprEndLines, Exprs, Body\<close>
  | FuncStmt u32 expr bool funcexpr \<comment> \<open>Line, Target, IsMethod, Fn\<close>
  | ReturnStmt u32 "u32 list" "expr list" \<comment> \<open>Line, ExprEndLines, Exprs\<close>
  | BreakStmt u32
and ifclause =
    IfClause expr block u32 \<comment> \<open>Cond, Body, CondEndLine\<close>

fun expr_Pos :: "expr \<Rightarrow> u32" where
  "expr_Pos (NilExpr l) = l"
| "expr_Pos (TrueExpr l) = l"
| "expr_Pos (FalseExpr l) = l"
| "expr_Pos (NumberExpr l _) = l"
| "expr_Pos (StringExpr l _) = l"
| "expr_Pos (VarargExpr l _) = l"
| "expr_Pos (NameExpr l _) = l"
| "expr_Pos (IndexExpr l _ _ _ _ _) = l"
| "expr_Pos (ParenExpr l _ _) = l"
| "expr_Pos (CallExpr l _ _ _ _ _) = l"
| "expr_Pos (MethodCallExpr l _ _ _ _ _) = l"
| "expr_Pos (BinExpr l _ _ _ _) = l"
| "expr_Pos (UnExpr l _ _ _) = l"
| "expr_Pos (FuncE f) = fe_Line f"
| "expr_Pos (TableExpr l _ _ _) = l"

end
