(* ===== verification/Parser.thy ===== *)
theory Parser
  imports Ast LexSpec
begin

text \<open>
  The recursive-descent parser of \<open>internal/frontend/parse\<close>: \<open>parser.go\<close>.

  A parser function takes the parser and returns \<open>Ok\<close> with a value and the parser, \<open>Err\<close> with the first
  error, or \<open>OutOfFuel\<close>. Nesting is written as open recursion: the functions take the expression and
  block parsers they call as arguments, and the last section ties the knot with a fuel that counts
  nesting levels; a second fuel \<open>k\<close> bounds every loop.
\<close>

section \<open>State and errors\<close>

record perror =
  pe_Source :: string
  pe_Line :: u32
  pe_Msg :: string

definition perror_Error :: "perror \<Rightarrow> string option" where
  "perror_Error e = do {
     c \<leftarrow> ChunkIDN (pe_Source e) MaxSrc;
     Some (c @ '':'' @ show_nat (unat (pe_Line e)) @ '': '' @ pe_Msg e) }"

record funcScope =
  fs_lineDefined :: u32
  fs_actvars :: "string list"
  fs_upvals :: "string list"

text \<open>\<open>p_fs\<close> is the chain \<open>fs\<close>, \<open>fs.prev\<close>, ...; \<open>p_alloc\<close> counts the function nodes allocated.\<close>

record parser =
  p_lx :: lexer
  p_source :: string
  p_tok :: token
  p_ahead :: "token option"
  p_lastLine :: u32
  p_insideVararg :: bool
  p_depth :: int
  p_loopDepth :: int
  p_depthLimit :: int
  p_fs :: "funcScope list"
  p_alloc :: nat

datatype 'a presult = OutOfFuel | Err perror | Ok 'a parser

fun bindP :: "'a presult \<Rightarrow> ('a \<Rightarrow> parser \<Rightarrow> 'b presult) \<Rightarrow> 'b presult" where
  "bindP OutOfFuel f = OutOfFuel"
| "bindP (Err e) f = Err e"
| "bindP (Ok x p) f = f x p"

definition maxVars :: int where "maxVars = 200"
definition maxUpvalues :: int where "maxUpvalues = 60"
definition maxParseDepth :: int where "maxParseDepth = 200"

abbreviation tok_kind :: "parser \<Rightarrow> kind" where "tok_kind p \<equiv> tk_Kind (p_tok p)"
abbreviation tok_line :: "parser \<Rightarrow> u32" where "tok_line p \<equiv> tk_Line (p_tok p)"

definition tok_end :: "token \<Rightarrow> u32" where
  "tok_end t = (if tk_EndLine t \<noteq> 0 then tk_EndLine t else tk_Line t)"

definition tokEndLine :: "parser \<Rightarrow> u32" where "tokEndLine p = tok_end (p_tok p)"

definition curLine :: "parser \<Rightarrow> u32" where
  "curLine p = (case p_ahead p of Some t \<Rightarrow> tok_end t | None \<Rightarrow> tokEndLine p)"

definition plainError :: "parser \<Rightarrow> string \<Rightarrow> perror" where
  "plainError p msg = \<lparr>pe_Source = p_source p, pe_Line = curLine p, pe_Msg = msg\<rparr>"

text \<open>\<open>p.tok.String()\<close>; the scanner gives every number token its text and every other odd byte a nonempty one.\<close>

definition tok_text :: "token \<Rightarrow> string" where
  "tok_text t = (case token_String (\<lambda>_. []) t of Some s \<Rightarrow> s | None \<Rightarrow> [])"

definition syntaxError :: "parser \<Rightarrow> string \<Rightarrow> perror" where
  "syntaxError p msg =
     plainError p (if HasNear (p_tok p) then msg @ Near (tok_text (p_tok p)) else msg)"

definition quoted :: "string \<Rightarrow> string" where "quoted s = [CHR 0x27] @ s @ [CHR 0x27]"

definition errorExpected :: "parser \<Rightarrow> kind \<Rightarrow> perror" where
  "errorExpected p k = syntaxError p (quoted (KindName k) @ '' expected'')"

definition show_int :: "int \<Rightarrow> string" where
  "show_int i = (if i < 0 then ''-'' @ show_nat (nat (- i)) else show_nat (nat i))"

definition errorLimit :: "parser \<Rightarrow> funcScope \<Rightarrow> int \<Rightarrow> string \<Rightarrow> perror" where
  "errorLimit p fs limit what =
     (if fs_lineDefined fs = 0
      then plainError p (''main function has more than '' @ show_int limit @ '' '' @ what)
      else plainError p (''function at line '' @ show_nat (unat (fs_lineDefined fs)) @
             '' has more than '' @ show_int limit @ '' '' @ what))"

section \<open>Tokens\<close>

definition wrapLexErr :: "lex_error \<Rightarrow> perror" where
  "wrapLexErr e = \<lparr>pe_Source = le_Source e, pe_Line = le_Line e, pe_Msg = le_Msg e\<rparr>"

definition nextTok :: "parser \<Rightarrow> unit presult" where
  "nextTok p =
     (let p = p\<lparr>p_lastLine := tok_end (p_tok p)\<rparr> in
      case p_ahead p of
        Some t \<Rightarrow> Ok () (p\<lparr>p_lastLine := tok_end t, p_tok := t, p_ahead := None\<rparr>)
      | None \<Rightarrow>
          (case Next (p_lx p) of
             Inl e \<Rightarrow> Err (wrapLexErr e)
           | Inr (t, lx) \<Rightarrow> Ok () (p\<lparr>p_tok := t, p_lx := lx\<rparr>)))"

definition peekTok :: "parser \<Rightarrow> token presult" where
  "peekTok p =
     (case p_ahead p of
        Some t \<Rightarrow> Ok t p
      | None \<Rightarrow>
          (case Next (p_lx p) of
             Inl e \<Rightarrow> Err (wrapLexErr e)
           | Inr (t, lx) \<Rightarrow> Ok t (p\<lparr>p_ahead := Some t, p_lx := lx\<rparr>)))"

definition match :: "kind \<Rightarrow> parser \<Rightarrow> bool" where "match k p \<longleftrightarrow> tok_kind p = k"

definition expect :: "kind \<Rightarrow> parser \<Rightarrow> unit presult" where
  "expect k p = (if tok_kind p \<noteq> k then Err (errorExpected p k) else nextTok p)"

definition expectMatch :: "kind \<Rightarrow> kind \<Rightarrow> u32 \<Rightarrow> parser \<Rightarrow> unit presult" where
  "expectMatch what who wher p =
     (if tok_kind p = what then nextTok p
      else if wher = curLine p then Err (errorExpected p what)
      else Err (syntaxError p (quoted (KindName what) @ '' expected (to close '' @ quoted (KindName who) @
             '' at line '' @ show_nat (unat wher) @ '')'')))"

definition consume :: "kind \<Rightarrow> parser \<Rightarrow> bool presult" where
  "consume k p = (if \<not> match k p then Ok False p else bindP (nextTok p) (\<lambda>_ p. Ok True p))"

definition checkName :: "parser \<Rightarrow> string presult" where
  "checkName p =
     (if \<not> match NAME p then Err (errorExpected p NAME)
      else let name = tk_Str (p_tok p) in bindP (nextTok p) (\<lambda>_ p. Ok name p))"

section \<open>Depth, locals and upvalues\<close>

definition enterDepth :: "parser \<Rightarrow> unit presult" where
  "enterDepth p =
     (let p = p\<lparr>p_depth := p_depth p + 1\<rparr> in
      if p_depthLimit p < p_depth p then Err (plainError p ''chunk has too many syntax levels'') else Ok () p)"

definition leaveDepth :: "parser \<Rightarrow> parser" where "leaveDepth p = p\<lparr>p_depth := p_depth p - 1\<rparr>"

definition actvars :: "parser \<Rightarrow> string list" where "actvars p = fs_actvars (hd (p_fs p))"

definition set_actvars :: "string list \<Rightarrow> parser \<Rightarrow> parser" where
  "set_actvars vs p = p\<lparr>p_fs := (hd (p_fs p))\<lparr>fs_actvars := vs\<rparr> # tl (p_fs p)\<rparr>"

definition checkLocalLimit :: "int \<Rightarrow> parser \<Rightarrow> unit presult" where
  "checkLocalLimit n p =
     (if maxVars < int (length (actvars p)) + n + 1
      then Err (errorLimit p (hd (p_fs p)) maxVars ''local variables'') else Ok () p)"

definition activate :: "string list \<Rightarrow> parser \<Rightarrow> parser" where
  "activate names p = set_actvars (actvars p @ names) p"

text \<open>Resolution walks the chain; on the way back each function in between gets the upvalue. The left result is the
  function that has too many.\<close>

fun resolve :: "string \<Rightarrow> funcScope list \<Rightarrow> funcScope + (bool \<times> funcScope list)" where
  "resolve name [] = Inr (False, [])"
| "resolve name (fs # prev) =
     (if name \<in> set (fs_actvars fs) then Inr (True, fs # prev)
      else case resolve name prev of
          Inl e \<Rightarrow> Inl e
        | Inr (found, prev) \<Rightarrow>
            if \<not> found then Inr (False, fs # prev)
            else if name \<in> set (fs_upvals fs) then Inr (True, fs # prev)
            else if maxUpvalues < int (length (fs_upvals fs)) + 1 then Inl fs
            else Inr (True, fs\<lparr>fs_upvals := fs_upvals fs @ [name]\<rparr> # prev))"

definition resolveName :: "string \<Rightarrow> parser \<Rightarrow> bool presult" where
  "resolveName name p =
     (case resolve name (p_fs p) of
        Inl fs \<Rightarrow> Err (errorLimit p fs maxUpvalues ''upvalues'')
      | Inr (found, fs) \<Rightarrow> Ok found (p\<lparr>p_fs := fs\<rparr>))"

definition isBlockEnd :: "kind \<Rightarrow> bool" where
  "isBlockEnd k \<longleftrightarrow> k = EOF \<or> k = KW_END \<or> k = KW_ELSE \<or> k = KW_ELSEIF \<or> k = KW_UNTIL"

end
