(* ===== verification/ParserExpr.thy ===== *)
theory ParserExpr
  imports Parser
begin

text \<open>
  Expressions: \<open>internal/frontend/parse/expr.go\<close>. \<open>pe\<close> is the expression parser one nesting level deeper
  (it takes the priority limit), \<open>pb\<close> the block parser.
\<close>

type_synonym expr_parser = "nat \<Rightarrow> parser \<Rightarrow> expr presult"
type_synonym block_parser = "parser \<Rightarrow> block presult"

section \<open>Priorities\<close>

fun left_prio :: "BinOp \<Rightarrow> nat" where
  "left_prio OpOr = 1"
| "left_prio OpAnd = 2"
| "left_prio OpLt = 3" | "left_prio OpGt = 3" | "left_prio OpLe = 3" | "left_prio OpGe = 3"
| "left_prio OpNe = 3" | "left_prio OpEq = 3"
| "left_prio OpConcat = 5"
| "left_prio OpAdd = 6" | "left_prio OpSub = 6"
| "left_prio OpMul = 7" | "left_prio OpDiv = 7" | "left_prio OpMod = 7"
| "left_prio OpPow = 10"

fun right_prio :: "BinOp \<Rightarrow> nat" where
  "right_prio OpConcat = 4"
| "right_prio OpPow = 9"
| "right_prio op = left_prio op"

definition unaryPriority :: nat where "unaryPriority = 8"

fun tokenToBinOp :: "kind \<Rightarrow> BinOp option" where
  "tokenToBinOp PLUS = Some OpAdd"
| "tokenToBinOp MINUS = Some OpSub"
| "tokenToBinOp STAR = Some OpMul"
| "tokenToBinOp SLASH = Some OpDiv"
| "tokenToBinOp PERCENT = Some OpMod"
| "tokenToBinOp CARET = Some OpPow"
| "tokenToBinOp CONCAT = Some OpConcat"
| "tokenToBinOp EQEQ = Some OpEq"
| "tokenToBinOp NEQ = Some OpNe"
| "tokenToBinOp LT = Some OpLt"
| "tokenToBinOp LE = Some OpLe"
| "tokenToBinOp GT = Some OpGt"
| "tokenToBinOp GE = Some OpGe"
| "tokenToBinOp KW_AND = Some OpAnd"
| "tokenToBinOp KW_OR = Some OpOr"
| "tokenToBinOp _ = None"

fun tokenToUnOp :: "kind \<Rightarrow> UnOp option" where
  "tokenToUnOp MINUS = Some OpUnm"
| "tokenToUnOp KW_NOT = Some OpNot"
| "tokenToUnOp HASH = Some OpLen"
| "tokenToUnOp _ = None"

section \<open>Expression lists\<close>

definition set_last :: "'a list \<Rightarrow> 'a \<Rightarrow> 'a list" where
  "set_last xs x = (if xs = [] then [] else butlast xs @ [x])"

fun explist_loop :: "expr_parser \<Rightarrow> nat \<Rightarrow> expr list \<Rightarrow> u32 list \<Rightarrow> parser \<Rightarrow> (expr list \<times> u32 list) presult" where
  "explist_loop pe 0 out ends p = OutOfFuel"
| "explist_loop pe (Suc k) out ends p =
     (if \<not> match COMMA p then Ok (out, ends) p
      else bindP (nextTok p) (\<lambda>_ p.
        let ends = set_last ends (p_lastLine p) in
        bindP (pe 0 p) (\<lambda>e p. explist_loop pe k (out @ [e]) (ends @ [0]) p)))"

definition parseExprListEnds :: "expr_parser \<Rightarrow> nat \<Rightarrow> parser \<Rightarrow> (expr list \<times> u32 list) presult" where
  "parseExprListEnds pe k p = bindP (pe 0 p) (\<lambda>first p. explist_loop pe k [first] [0] p)"

section \<open>Table constructors\<close>

text \<open>One field: the items so far and the index of the last positional one.\<close>

definition table_positional :: "expr_parser \<Rightarrow> titem list \<Rightarrow> parser \<Rightarrow> (titem list \<times> int) presult" where
  "table_positional pe items p =
     bindP (pe 0 p) (\<lambda>v p. Ok (items @ [TableItem None v 0 0 0], int (length items)) p)"

definition table_field :: "expr_parser \<Rightarrow> titem list \<Rightarrow> int \<Rightarrow> parser \<Rightarrow> (titem list \<times> int) presult" where
  "table_field pe items lastPositional p =
     (if match LBRACK p then
        bindP (nextTok p) (\<lambda>_ p.
        bindP (pe 0 p) (\<lambda>key p.
        let keyEnd = p_lastLine p in
        bindP (expect RBRACK p) (\<lambda>_ p.
        bindP (expect EQ p) (\<lambda>_ p.
        let eqLine = p_lastLine p in
        bindP (pe 0 p) (\<lambda>v p.
        Ok (items @ [TableItem (Some key) v keyEnd eqLine (p_lastLine p)], lastPositional) p)))))
      else if match NAME p then
        bindP (peekTok p) (\<lambda>ahead p.
        if tk_Kind ahead = EQ then
          let keyLine = tok_line p; name = tk_Str (p_tok p) in
          bindP (nextTok p) (\<lambda>_ p.
          bindP (expect EQ p) (\<lambda>_ p.
          let eqLine = p_lastLine p in
          bindP (pe 0 p) (\<lambda>v p.
          Ok (items @ [TableItem (Some (StringExpr keyLine name)) v keyLine eqLine (p_lastLine p)], lastPositional) p)))
        else table_positional pe items p)
      else table_positional pe items p)"

definition end_item :: "u32 \<Rightarrow> titem \<Rightarrow> titem" where
  "end_item l it = (case it of TableItem key v ke eq _ \<Rightarrow> TableItem key v ke eq l)"

text \<open>\<open>t.Items[lastPositional].EndLine = p.lastLine\<close> when that is the last item.\<close>

definition end_positional :: "int \<Rightarrow> u32 \<Rightarrow> titem list \<Rightarrow> titem list" where
  "end_positional lastPositional l items =
     (if items \<noteq> [] \<and> lastPositional = int (length items) - 1 then set_last items (end_item l (last items)) else items)"

fun table_loop :: "expr_parser \<Rightarrow> nat \<Rightarrow> titem list \<Rightarrow> int \<Rightarrow> parser \<Rightarrow> (titem list \<times> int) presult" where
  "table_loop pe 0 items lastPositional p = OutOfFuel"
| "table_loop pe (Suc k) items lastPositional p =
     (if match RBRACE p then Ok (items, lastPositional) p
      else bindP (table_field pe items lastPositional p) (\<lambda>(items, lastPositional) p.
        if \<not> match COMMA p \<and> \<not> match SEMI p then Ok (items, lastPositional) p
        else bindP (nextTok p) (\<lambda>_ p.
          table_loop pe k (end_positional lastPositional (p_lastLine p) items) lastPositional p)))"

definition parseTableExpr :: "expr_parser \<Rightarrow> nat \<Rightarrow> parser \<Rightarrow> expr presult" where
  "parseTableExpr pe k p =
     (let line = tok_line p; openLine = curLine p; newTableLine = p_lastLine p in
      bindP (expect LBRACE p) (\<lambda>_ p.
      bindP (table_loop pe k [] (-1) p) (\<lambda>(items, lastPositional) p.
      bindP (expectMatch RBRACE LBRACE openLine p) (\<lambda>_ p.
      Ok (TableExpr line newTableLine (p_lastLine p) (end_positional lastPositional (p_lastLine p) items)) p))))"

section \<open>Function bodies\<close>

fun param_loop :: "nat \<Rightarrow> string list \<Rightarrow> parser \<Rightarrow> (string list \<times> bool) presult" where
  "param_loop 0 params p = OutOfFuel"
| "param_loop (Suc k) params p =
     (if match ELLIPSIS p then
        bindP (nextTok p) (\<lambda>_ p.
        bindP (checkLocalLimit (int (length params) - int (length (actvars p))) p) (\<lambda>_ p.
        Ok (params, True) p))
      else if \<not> match NAME p then
        Err (syntaxError p (''<name> or '' @ quoted ''...'' @ '' expected''))
      else
        let name = tk_Str (p_tok p) in
        bindP (nextTok p) (\<lambda>_ p.
        bindP (checkLocalLimit (int (length params) - int (length (actvars p))) p) (\<lambda>_ p.
        let params = params @ [name] in
        if \<not> match COMMA p then Ok (params, False) p
        else bindP (nextTok p) (\<lambda>_ p. param_loop k params p))))"

text \<open>\<open>parseBlock\<close>: the locals of the block go out of scope at its end.\<close>

definition in_scope :: "block_parser \<Rightarrow> block_parser" where
  "in_scope pb p =
     (let saved = length (actvars p) in
      bindP (pb p) (\<lambda>b p. Ok b (set_actvars (take saved (actvars p)) p)))"

definition parseFuncBody :: "block_parser \<Rightarrow> nat \<Rightarrow> u32 \<Rightarrow> bool \<Rightarrow> parser \<Rightarrow> funcexpr presult" where
  "parseFuncBody pb k startLine isMethod p =
     (let p = p\<lparr>p_fs := \<lparr>fs_lineDefined = startLine, fs_actvars = [], fs_upvals = []\<rparr> # p_fs p\<rparr> in
      bindP (expect LPAREN p) (\<lambda>_ p.
      let params = (if isMethod then [''self''] else []);
          p = (if isMethod then activate [''self''] p else p) in
      bindP (if \<not> match RPAREN p then param_loop k params p else Ok (params, False) p) (\<lambda>(params, isVararg) p.
      let p = activate (drop (length (actvars p)) params) p;
          p = (if isVararg then activate [''arg''] p else p) in
      bindP (expect RPAREN p) (\<lambda>_ p.
      let saved = p_insideVararg p; savedLoop = p_loopDepth p in
      bindP (in_scope pb (p\<lparr>p_insideVararg := isVararg, p_loopDepth := 0\<rparr>)) (\<lambda>body p.
      let p = p\<lparr>p_insideVararg := saved, p_loopDepth := savedLoop\<rparr>; endLine = tok_line p in
      bindP (expectMatch KW_END KW_FUNCTION startLine p) (\<lambda>_ p.
      Ok (FuncExpr (p_alloc p) startLine params isVararg False body endLine)
         (p\<lparr>p_alloc := p_alloc p + 1, p_fs := tl (p_fs p)\<rparr>)))))))"

section \<open>Prefix expressions\<close>

definition parseArgs :: "expr_parser \<Rightarrow> nat \<Rightarrow> parser \<Rightarrow> (expr list \<times> u32 list) presult" where
  "parseArgs pe k p =
     (if match LPAREN p then
        if tok_line p \<noteq> p_lastLine p
        then Err (syntaxError p ''ambiguous syntax (function call x new statement)'')
        else let openLine = curLine p in
          bindP (nextTok p) (\<lambda>_ p.
          if match RPAREN p then bindP (nextTok p) (\<lambda>_ p. Ok ([], []) p)
          else bindP (parseExprListEnds pe k p) (\<lambda>(exprs, ends) p.
            bindP (expectMatch RPAREN LPAREN openLine p) (\<lambda>_ p.
            Ok (exprs, set_last ends (p_lastLine p)) p)))
      else if match LBRACE p then
        bindP (parseTableExpr pe k p) (\<lambda>t p. Ok ([t], [p_lastLine p]) p)
      else if match STRING p then
        let line = tok_line p; s = tk_Str (p_tok p) in
        bindP (nextTok p) (\<lambda>_ p. Ok ([StringExpr line s], [p_lastLine p]) p)
      else Err (syntaxError p ''function arguments expected''))"

fun prefix_loop :: "expr_parser \<Rightarrow> nat \<Rightarrow> nat \<Rightarrow> expr \<Rightarrow> parser \<Rightarrow> expr presult" where
  "prefix_loop pe k' 0 e p = OutOfFuel"
| "prefix_loop pe k' (Suc k) e p =
     (if match DOT p then
        let opLine = tok_line p; objEnd = p_lastLine p in
        bindP (nextTok p) (\<lambda>_ p.
        if \<not> match NAME p then Err (errorExpected p NAME)
        else let e = IndexExpr opLine objEnd 0 0 e (StringExpr (tok_line p) (tk_Str (p_tok p))) in
          bindP (nextTok p) (\<lambda>_ p. prefix_loop pe k' k e p))
      else if match LBRACK p then
        let opLine = tok_line p; objEnd = p_lastLine p in
        bindP (nextTok p) (\<lambda>_ p.
        bindP (pe 0 p) (\<lambda>key p.
        let keyEnd = p_lastLine p in
        bindP (expect RBRACK p) (\<lambda>_ p.
        prefix_loop pe k' k (IndexExpr opLine objEnd keyEnd (p_lastLine p) e key) p)))
      else if match COLON p then
        bindP (nextTok p) (\<lambda>_ p.
        if \<not> match NAME p then Err (errorExpected p NAME)
        else let method = tk_Str (p_tok p); line = tok_line p in
          bindP (nextTok p) (\<lambda>_ p.
          let argsLine = tokEndLine p in
          bindP (parseArgs pe k' p) (\<lambda>(args, argEnds) p.
          prefix_loop pe k' k (MethodCallExpr line argsLine argEnds e method args) p)))
      else if match LPAREN p \<or> match STRING p \<or> match LBRACE p then
        let argsLine = tokEndLine p; fnEnd = p_lastLine p in
        bindP (parseArgs pe k' p) (\<lambda>(args, argEnds) p.
        prefix_loop pe k' k (CallExpr (expr_Pos e) argsLine fnEnd argEnds e args) p)
      else Ok e p)"

definition parsePrimary :: "expr_parser \<Rightarrow> parser \<Rightarrow> expr presult" where
  "parsePrimary pe p =
     (if match NAME p then
        let line = tok_line p; name = tk_Str (p_tok p) in
        bindP (nextTok p) (\<lambda>_ p.
        bindP (resolveName name p) (\<lambda>_ p. Ok (NameExpr line name) p))
      else if match LPAREN p then
        let line = tok_line p; openLine = curLine p in
        bindP (nextTok p) (\<lambda>_ p.
        bindP (pe 0 p) (\<lambda>inner p.
        bindP (expectMatch RPAREN LPAREN openLine p) (\<lambda>_ p.
        Ok (ParenExpr line (p_lastLine p) inner) p)))
      else Err (syntaxError p ''unexpected symbol''))"

definition parsePrefixExpr :: "expr_parser \<Rightarrow> nat \<Rightarrow> parser \<Rightarrow> expr presult" where
  "parsePrefixExpr pe k p = bindP (parsePrimary pe p) (\<lambda>e p. prefix_loop pe k k e p)"

section \<open>Simple expressions and operators\<close>

definition parseSimpleExpr :: "expr_parser \<Rightarrow> block_parser \<Rightarrow> nat \<Rightarrow> parser \<Rightarrow> expr presult" where
  "parseSimpleExpr pe pb k p =
     (let line = tok_line p in
      case tok_kind p of
        NUMBER \<Rightarrow> let v = tk_Num (p_tok p) in bindP (nextTok p) (\<lambda>_ p. Ok (NumberExpr line v) p)
      | STRING \<Rightarrow> let s = tk_Str (p_tok p) in bindP (nextTok p) (\<lambda>_ p. Ok (StringExpr line s) p)
      | KW_NIL \<Rightarrow> bindP (nextTok p) (\<lambda>_ p. Ok (NilExpr line) p)
      | KW_TRUE \<Rightarrow> bindP (nextTok p) (\<lambda>_ p. Ok (TrueExpr line) p)
      | KW_FALSE \<Rightarrow> bindP (nextTok p) (\<lambda>_ p. Ok (FalseExpr line) p)
      | ELLIPSIS \<Rightarrow>
          if \<not> p_insideVararg p
          then Err (syntaxError p (''cannot use '' @ quoted ''...'' @ '' outside a vararg function''))
          else let emitLine = p_lastLine p in bindP (nextTok p) (\<lambda>_ p. Ok (VarargExpr line emitLine) p)
      | LBRACE \<Rightarrow> parseTableExpr pe k p
      | KW_FUNCTION \<Rightarrow>
          bindP (nextTok p) (\<lambda>_ p.
          bindP (parseFuncBody pb k (curLine p) False p) (\<lambda>f p. Ok (FuncE f) p))
      | _ \<Rightarrow> parsePrefixExpr pe k p)"

fun binop_loop :: "expr_parser \<Rightarrow> nat \<Rightarrow> nat \<Rightarrow> expr \<Rightarrow> parser \<Rightarrow> expr presult" where
  "binop_loop pe 0 limit e p = OutOfFuel"
| "binop_loop pe (Suc k) limit e p =
     (case tokenToBinOp (tok_kind p) of
        None \<Rightarrow> Ok e p
      | Some bop \<Rightarrow>
          if left_prio bop \<le> limit then Ok e p
          else let line = tok_line p in
            bindP (nextTok p) (\<lambda>_ p.
            bindP (pe (right_prio bop) p) (\<lambda>rhs p.
            binop_loop pe k limit (BinExpr line (p_lastLine p) bop e rhs) p)))"

definition parseOperand :: "expr_parser \<Rightarrow> block_parser \<Rightarrow> nat \<Rightarrow> parser \<Rightarrow> expr presult" where
  "parseOperand pe pb k p =
     (case tokenToUnOp (tok_kind p) of
        Some uop \<Rightarrow>
          let line = tok_line p in
          bindP (nextTok p) (\<lambda>_ p.
          bindP (pe unaryPriority p) (\<lambda>sub p. Ok (UnExpr line (p_lastLine p) uop sub) p))
      | None \<Rightarrow> parseSimpleExpr pe pb k p)"

definition expr_step :: "expr_parser \<Rightarrow> block_parser \<Rightarrow> nat \<Rightarrow> expr_parser" where
  "expr_step pe pb k limit p =
     bindP (enterDepth p) (\<lambda>_ p.
     bindP (parseOperand pe pb k p) (\<lambda>e p.
     bindP (binop_loop pe k limit e p) (\<lambda>e p. Ok e (leaveDepth p))))"

end
