(* ===== verification/ParserStmt.thy ===== *)
theory ParserStmt
  imports ParserExpr
begin

text \<open>
  Statements and blocks: \<open>internal/frontend/parse/stmt.go\<close> and the block functions of \<open>parser.go\<close>; the
  last section is the parser itself.
\<close>

section \<open>Statements\<close>

fun name_loop :: "nat \<Rightarrow> int \<Rightarrow> string list \<Rightarrow> parser \<Rightarrow> string list presult" where
  "name_loop 0 base names p = OutOfFuel"
| "name_loop (Suc k) base names p =
     bindP (checkName p) (\<lambda>name p.
     bindP (checkLocalLimit (base + int (length names)) p) (\<lambda>_ p.
     bindP (consume COMMA p) (\<lambda>more p.
     if more then name_loop k base (names @ [name]) p else Ok (names @ [name]) p)))"

definition parseLocal :: "expr_parser \<Rightarrow> block_parser \<Rightarrow> nat \<Rightarrow> parser \<Rightarrow> stmt presult" where
  "parseLocal pe pb k p =
     (let line = tok_line p in
      bindP (nextTok p) (\<lambda>_ p.
      if match KW_FUNCTION p then
        bindP (nextTok p) (\<lambda>_ p.
        bindP (checkName p) (\<lambda>name p.
        bindP (checkLocalLimit 0 p) (\<lambda>_ p.
        let p = activate [name] p in
        bindP (parseFuncBody pb k (curLine p) False p) (\<lambda>f p. Ok (LocalFuncStmt line name f) p))))
      else
        bindP (name_loop k 0 [] p) (\<lambda>names p.
        bindP (if match EQ p
               then bindP (nextTok p) (\<lambda>_ p.
                    bindP (parseExprListEnds pe k p) (\<lambda>(exprs, ends) p.
                    Ok (exprs, set_last ends (p_lastLine p)) p))
               else Ok ([], []) p) (\<lambda>(exprs, ends) p.
        let p = activate names p in
        Ok (LocalStmt line ends (p_lastLine p) names exprs) p))))"

fun if_loop :: "expr_parser \<Rightarrow> block_parser \<Rightarrow> nat \<Rightarrow> ifclause list \<Rightarrow> parser \<Rightarrow> ifclause list presult" where
  "if_loop pe pb 0 clauses p = OutOfFuel"
| "if_loop pe pb (Suc k) clauses p =
     bindP (pe 0 p) (\<lambda>cond p.
     let condEnd = p_lastLine p in
     bindP (expect KW_THEN p) (\<lambda>_ p.
     bindP (in_scope pb p) (\<lambda>body p.
     let clauses = clauses @ [IfClause cond body condEnd] in
     if \<not> match KW_ELSEIF p then Ok clauses p
     else bindP (nextTok p) (\<lambda>_ p. if_loop pe pb k clauses p))))"

definition parseIf :: "expr_parser \<Rightarrow> block_parser \<Rightarrow> nat \<Rightarrow> parser \<Rightarrow> stmt presult" where
  "parseIf pe pb k p =
     (let line = tok_line p in
      bindP (nextTok p) (\<lambda>_ p.
      bindP (if_loop pe pb k [] p) (\<lambda>clauses p.
      bindP (if match KW_ELSE p
             then bindP (nextTok p) (\<lambda>_ p. bindP (in_scope pb p) (\<lambda>b p. Ok (Some b) p))
             else Ok None p) (\<lambda>elseBody p.
      bindP (expectMatch KW_END KW_IF line p) (\<lambda>_ p.
      Ok (IfStmt line clauses elseBody) p)))))"

text \<open>A block inside one more loop.\<close>

definition loop_body :: "block_parser \<Rightarrow> block_parser" where
  "loop_body pb p =
     bindP (pb (p\<lparr>p_loopDepth := p_loopDepth p + 1\<rparr>)) (\<lambda>b p. Ok b (p\<lparr>p_loopDepth := p_loopDepth p - 1\<rparr>))"

definition parseWhile :: "expr_parser \<Rightarrow> block_parser \<Rightarrow> parser \<Rightarrow> stmt presult" where
  "parseWhile pe pb p =
     (let line = tok_line p in
      bindP (nextTok p) (\<lambda>_ p.
      bindP (pe 0 p) (\<lambda>cond p.
      let condEnd = p_lastLine p in
      bindP (expect KW_DO p) (\<lambda>_ p.
      bindP (loop_body (in_scope pb) p) (\<lambda>body p.
      bindP (expectMatch KW_END KW_WHILE line p) (\<lambda>_ p.
      Ok (WhileStmt line condEnd cond body) p))))))"

definition parseDo :: "block_parser \<Rightarrow> parser \<Rightarrow> stmt presult" where
  "parseDo pb p =
     (let line = tok_line p in
      bindP (nextTok p) (\<lambda>_ p.
      bindP (in_scope pb p) (\<lambda>body p.
      bindP (expectMatch KW_END KW_DO line p) (\<lambda>_ p.
      Ok (DoStmt line body) p))))"

definition parseRepeat :: "expr_parser \<Rightarrow> block_parser \<Rightarrow> parser \<Rightarrow> stmt presult" where
  "parseRepeat pe pb p =
     (let line = tok_line p in
      bindP (nextTok p) (\<lambda>_ p.
      let saved = length (actvars p) in
      bindP (loop_body pb p) (\<lambda>body p.
      bindP (expectMatch KW_UNTIL KW_REPEAT line p) (\<lambda>_ p.
      bindP (pe 0 p) (\<lambda>cond p.
      let p = set_actvars (take saved (actvars p)) p in
      Ok (RepeatStmt line body cond (p_lastLine p)) p)))))"

text \<open>\<open>for n := 0; n < 4; n++\<close>: the control variables of a loop.\<close>

definition checkFourLocals :: "parser \<Rightarrow> unit presult" where
  "checkFourLocals p =
     bindP (checkLocalLimit 0 p) (\<lambda>_ p. bindP (checkLocalLimit 1 p) (\<lambda>_ p.
     bindP (checkLocalLimit 2 p) (\<lambda>_ p. checkLocalLimit 3 p)))"

definition parseNumFor :: "expr_parser \<Rightarrow> block_parser \<Rightarrow> u32 \<Rightarrow> string \<Rightarrow> parser \<Rightarrow> stmt presult" where
  "parseNumFor pe pb line first p =
     bindP (checkFourLocals p) (\<lambda>_ p.
     bindP (nextTok p) (\<lambda>_ p.
     bindP (pe 0 p) (\<lambda>init p.
     let end0 = p_lastLine p in
     bindP (expect COMMA p) (\<lambda>_ p.
     bindP (pe 0 p) (\<lambda>limit p.
     let end1 = p_lastLine p in
     bindP (if match COMMA p
            then bindP (nextTok p) (\<lambda>_ p. bindP (pe 0 p) (\<lambda>step p. Ok (Some step, p_lastLine p) p))
            else Ok (None, end1) p) (\<lambda>(step, end2) p.
     bindP (expect KW_DO p) (\<lambda>_ p.
     let doLine = p_lastLine p;
         p = activate [''(for index)'', ''(for limit)'', ''(for step)'', first] p in
     bindP (loop_body (in_scope pb) p) (\<lambda>body p.
     bindP (expectMatch KW_END KW_FOR line p) (\<lambda>_ p.
     Ok (NumForStmt line first (end0, end1, end2) doLine init limit step body) p)))))))))"

fun for_names :: "nat \<Rightarrow> string list \<Rightarrow> parser \<Rightarrow> string list presult" where
  "for_names 0 names p = OutOfFuel"
| "for_names (Suc k) names p =
     (if \<not> match COMMA p then Ok names p
      else bindP (nextTok p) (\<lambda>_ p.
        bindP (checkName p) (\<lambda>name p.
        bindP (checkLocalLimit (3 + int (length names)) p) (\<lambda>_ p.
        for_names k (names @ [name]) p))))"

definition parseGenFor :: "expr_parser \<Rightarrow> block_parser \<Rightarrow> nat \<Rightarrow> u32 \<Rightarrow> string \<Rightarrow> parser \<Rightarrow> stmt presult" where
  "parseGenFor pe pb k line first p =
     bindP (checkFourLocals p) (\<lambda>_ p.
     bindP (for_names k [first] p) (\<lambda>names p.
     bindP (expect KW_IN p) (\<lambda>_ p.
     let iterLine = tokEndLine p in
     bindP (parseExprListEnds pe k p) (\<lambda>(exprs, ends) p.
     let ends = set_last ends (p_lastLine p) in
     bindP (expect KW_DO p) (\<lambda>_ p.
     let doLine = p_lastLine p;
         p = activate names (activate [''(for generator)'', ''(for state)'', ''(for control)''] p) in
     bindP (loop_body (in_scope pb) p) (\<lambda>body p.
     bindP (expectMatch KW_END KW_FOR line p) (\<lambda>_ p.
     Ok (GenForStmt line names iterLine doLine ends exprs body) p)))))))"

definition parseFor :: "expr_parser \<Rightarrow> block_parser \<Rightarrow> nat \<Rightarrow> parser \<Rightarrow> stmt presult" where
  "parseFor pe pb k p =
     (let line = tok_line p in
      bindP (nextTok p) (\<lambda>_ p.
      bindP (checkName p) (\<lambda>first p.
      let saved = length (actvars p) in
      bindP (if match EQ p then parseNumFor pe pb line first p
             else if match COMMA p \<or> match KW_IN p then parseGenFor pe pb k line first p
             else Err (syntaxError p (quoted ''='' @ '' or '' @ quoted ''in'' @ '' expected''))) (\<lambda>s p.
      Ok s (set_actvars (take saved (actvars p)) p)))))"

fun funcname_loop :: "nat \<Rightarrow> expr \<Rightarrow> parser \<Rightarrow> expr presult" where
  "funcname_loop 0 target p = OutOfFuel"
| "funcname_loop (Suc k) target p =
     (if \<not> match DOT p then Ok target p
      else bindP (nextTok p) (\<lambda>_ p.
        if \<not> match NAME p then Err (errorExpected p NAME)
        else let target = IndexExpr (tok_line p) 0 0 0 target (StringExpr (tok_line p) (tk_Str (p_tok p))) in
          bindP (nextTok p) (\<lambda>_ p. funcname_loop k target p)))"

definition parseFunctionStmt :: "block_parser \<Rightarrow> nat \<Rightarrow> parser \<Rightarrow> stmt presult" where
  "parseFunctionStmt pb k p =
     (let line = tok_line p in
      bindP (nextTok p) (\<lambda>_ p.
      if \<not> match NAME p then Err (errorExpected p NAME)
      else let nameLine = tok_line p; name = tk_Str (p_tok p) in
        bindP (nextTok p) (\<lambda>_ p.
        bindP (resolveName name p) (\<lambda>_ p.
        bindP (funcname_loop k (NameExpr nameLine name) p) (\<lambda>target p.
        bindP (if match COLON p
               then bindP (nextTok p) (\<lambda>_ p.
                 if \<not> match NAME p then Err (errorExpected p NAME)
                 else let target = IndexExpr (tok_line p) 0 0 0 target (StringExpr (tok_line p) (tk_Str (p_tok p))) in
                   bindP (nextTok p) (\<lambda>_ p. Ok (target, True) p))
               else Ok (target, False) p) (\<lambda>(target, isMethod) p.
        bindP (parseFuncBody pb k line isMethod p) (\<lambda>f p.
        Ok (FuncStmt line target isMethod f) p)))))))"

definition parseReturn :: "expr_parser \<Rightarrow> nat \<Rightarrow> parser \<Rightarrow> stmt presult" where
  "parseReturn pe k p =
     (let line = tok_line p in
      bindP (nextTok p) (\<lambda>_ p.
      if isBlockEnd (tok_kind p) \<or> match SEMI p then Ok (ReturnStmt line [] []) p
      else bindP (parseExprListEnds pe k p) (\<lambda>(exprs, ends) p.
        Ok (ReturnStmt line (set_last ends (p_lastLine p)) exprs) p)))"

fun isAssignable :: "expr \<Rightarrow> bool" where
  "isAssignable (NameExpr _ _) = True"
| "isAssignable (IndexExpr _ _ _ _ _ _) = True"
| "isAssignable _ = False"

fun isCall :: "expr \<Rightarrow> bool" where
  "isCall (CallExpr _ _ _ _ _ _) = True"
| "isCall (MethodCallExpr _ _ _ _ _ _) = True"
| "isCall _ = False"

fun target_loop :: "expr_parser \<Rightarrow> nat \<Rightarrow> nat \<Rightarrow> expr list \<Rightarrow> parser \<Rightarrow> expr list presult" where
  "target_loop pe k' 0 targets p = OutOfFuel"
| "target_loop pe k' (Suc k) targets p =
     (if \<not> match COMMA p then Ok targets p
      else bindP (nextTok p) (\<lambda>_ p.
        bindP (parsePrefixExpr pe k' p) (\<lambda>t p.
        let limit = p_depthLimit p - p_depth p in
        if limit < int (length targets)
        then Err (errorLimit p (hd (p_fs p)) limit ''variables in assignment'')
        else if \<not> isAssignable t then Err (syntaxError p ''syntax error'')
        else target_loop pe k' k (targets @ [t]) p)))"

definition parseExprStmt :: "expr_parser \<Rightarrow> nat \<Rightarrow> parser \<Rightarrow> stmt presult" where
  "parseExprStmt pe k p =
     (let line = tok_line p in
      bindP (parsePrefixExpr pe k p) (\<lambda>first p.
      if isCall first then Ok (CallStmt line first) p
      else if \<not> isAssignable first then Err (syntaxError p ''syntax error'')
      else bindP (target_loop pe k k [first] p) (\<lambda>targets p.
        bindP (expect EQ p) (\<lambda>_ p.
        bindP (parseExprListEnds pe k p) (\<lambda>(exprs, ends) p.
        Ok (AssignStmt line (p_lastLine p) (set_last ends (p_lastLine p)) targets exprs) p)))))"

definition parseStatement :: "expr_parser \<Rightarrow> block_parser \<Rightarrow> nat \<Rightarrow> parser \<Rightarrow> stmt presult" where
  "parseStatement pe pb k p =
     (case tok_kind p of
        KW_LOCAL \<Rightarrow> parseLocal pe pb k p
      | KW_IF \<Rightarrow> parseIf pe pb k p
      | KW_WHILE \<Rightarrow> parseWhile pe pb p
      | KW_DO \<Rightarrow> parseDo pb p
      | KW_FOR \<Rightarrow> parseFor pe pb k p
      | KW_REPEAT \<Rightarrow> parseRepeat pe pb p
      | KW_FUNCTION \<Rightarrow> parseFunctionStmt pb k p
      | _ \<Rightarrow> parseExprStmt pe k p)"

section \<open>Blocks\<close>

definition parseBreak :: "parser \<Rightarrow> stmt presult" where
  "parseBreak p =
     (let line = tok_line p in
      bindP (nextTok p) (\<lambda>_ p.
      if p_loopDepth p = 0 then Err (syntaxError p ''no loop to break'') else Ok (BreakStmt line) p))"

fun block_loop :: "(nat \<Rightarrow> parser \<Rightarrow> stmt presult) \<Rightarrow> (nat \<Rightarrow> parser \<Rightarrow> stmt presult) \<Rightarrow> nat \<Rightarrow> nat \<Rightarrow>
    stmt list \<Rightarrow> parser \<Rightarrow> stmt list presult" where
  "block_loop ps pr k' 0 stmts p = OutOfFuel"
| "block_loop ps pr k' (Suc k) stmts p =
     (if isBlockEnd (tok_kind p) then Ok stmts p
      else if match SEMI p then Err (syntaxError p ''unexpected symbol'')
      else if match KW_RETURN p then
        bindP (pr k' p) (\<lambda>ret p. bindP (consume SEMI p) (\<lambda>_ p. Ok (stmts @ [ret]) p))
      else if match KW_BREAK p then
        bindP (parseBreak p) (\<lambda>s p. bindP (consume SEMI p) (\<lambda>_ p. Ok (stmts @ [s]) p))
      else
        bindP (ps k' p) (\<lambda>s p. bindP (consume SEMI p) (\<lambda>_ p. block_loop ps pr k' k (stmts @ [s]) p)))"

definition block_step :: "expr_parser \<Rightarrow> block_parser \<Rightarrow> nat \<Rightarrow> block_parser" where
  "block_step pe pb k p =
     bindP (enterDepth p) (\<lambda>_ p.
     bindP (block_loop (parseStatement pe pb) (parseReturn pe) k k [] p) (\<lambda>stmts p.
     Ok (Block stmts (p_lastLine p)) (leaveDepth p)))"

section \<open>The parser\<close>

text \<open>\<open>n\<close> is one more than the nesting levels that remain, \<open>k\<close> more than the turns of any loop.\<close>

fun parseExpr :: "nat \<Rightarrow> nat \<Rightarrow> expr_parser"
and parseBlockKeepScope :: "nat \<Rightarrow> nat \<Rightarrow> block_parser" where
  "parseExpr 0 k limit p = OutOfFuel"
| "parseExpr (Suc n) k limit p = expr_step (parseExpr n k) (parseBlockKeepScope n k) k limit p"
| "parseBlockKeepScope 0 k p = OutOfFuel"
| "parseBlockKeepScope (Suc n) k p = block_step (parseExpr n k) (parseBlockKeepScope n k) k p"

definition parseBlock :: "nat \<Rightarrow> nat \<Rightarrow> block_parser" where
  "parseBlock n k = in_scope (parseBlockKeepScope n k)"

definition new_parser :: "lexer \<Rightarrow> string \<Rightarrow> int \<Rightarrow> parser" where
  "new_parser lx source cDepth =
     \<lparr>p_lx = lx, p_source = source, p_tok = mk_token EOF 0, p_ahead = None, p_lastLine = 0,
      p_insideVararg = True, p_depth = 0, p_loopDepth = 0, p_depthLimit = maxParseDepth - cDepth,
      p_fs = [\<lparr>fs_lineDefined = 0, fs_actvars = [], fs_upvals = []\<rparr>], p_alloc = 0\<rparr>"

definition ParseAtCDepth :: "nat \<Rightarrow> nat \<Rightarrow> lexer \<Rightarrow> string \<Rightarrow> int \<Rightarrow> block presult" where
  "ParseAtCDepth n k lx source cDepth =
     bindP (nextTok (new_parser lx source cDepth)) (\<lambda>_ p.
     bindP (parseBlock n k p) (\<lambda>body p.
     if tok_kind p \<noteq> EOF then Err (errorExpected p EOF) else Ok body p))"

text \<open>\<open>Parse\<close> with the fuel that is always enough: one more than the depth limit, and two more than the
  bytes of the source.\<close>

definition Parse :: "lexer \<Rightarrow> string \<Rightarrow> block presult" where
  "Parse lx source = ParseAtCDepth (Suc (nat maxParseDepth)) (length (l_rest lx) + 2) lx source 0"

end
