(* ===== verification/Grammar.thy ===== *)
theory Grammar
  imports ParserStmt
begin

text \<open>
  The language of the parser, as a relation between token lists and trees, independent of how the parser
  works: which tokens spell which tree (\<open>gE\<close> an expression, \<open>gL\<close> an expression list, \<open>gA\<close> call arguments,
  \<open>gT\<close> the items of a table, with a flag for room for one more, \<open>gF\<close> a function body, \<open>gS\<close> a statement, \<open>gI\<close> the clauses of an if, \<open>gC\<close> the
  statements of a block). \<open>va\<close> says that the enclosing function is vararg, \<open>lp\<close> that a loop of that function
  encloses, and the two numbers of a statement are the locals active before and after. Lines are free.
\<close>

section \<open>Operator precedence\<close>

text \<open>The table of the Lua 5.1 manual (2.5.6), from the weakest operators to the strongest: \<open>or\<close>; \<open>and\<close>; the
  comparisons; \<open>..\<close>; \<open>+ -\<close>; \<open>* / %\<close>; the unary operators, level 7; \<open>^\<close>. Concatenation and exponentiation
  associate to the right.\<close>

fun level :: "BinOp \<Rightarrow> nat" where
  "level OpOr = 1"
| "level OpAnd = 2"
| "level OpConcat = 4"
| "level OpAdd = 5" | "level OpSub = 5"
| "level OpMul = 6" | "level OpDiv = 6" | "level OpMod = 6"
| "level OpPow = 8"
| "level _ = 3"

definition right_assoc :: "BinOp \<Rightarrow> bool" where "right_assoc op \<longleftrightarrow> op = OpConcat \<or> op = OpPow"

text \<open>How strongly an operator holds its left and its right operand.\<close>

definition grip_left :: "BinOp \<Rightarrow> nat" where "grip_left op = 2 * level op"

definition grip_right :: "BinOp \<Rightarrow> nat" where "grip_right op = 2 * level op - (if right_assoc op then 1 else 0)"

definition grip_unary :: nat where "grip_unary = 2 * 7"

text \<open>\<open>fits lim e\<close>: \<open>e\<close> stands as the right operand of something with grip \<open>lim\<close>: all its open operators hold
  stronger. \<open>closes pr e\<close>: \<open>e\<close> can be the left operand of an operator with left grip \<open>pr\<close>: no operator open on
  its right edge holds weaker.\<close>

fun closes :: "nat \<Rightarrow> expr \<Rightarrow> bool" where
  "closes pr (BinExpr _ _ op l r) \<longleftrightarrow> pr \<le> grip_right op \<and> closes pr r"
| "closes pr (UnExpr _ _ op e) \<longleftrightarrow> pr \<le> grip_unary \<and> closes pr e"
| "closes pr _ \<longleftrightarrow> True"

fun fits :: "nat \<Rightarrow> expr \<Rightarrow> bool" where
  "fits lim (BinExpr _ _ op l r) \<longleftrightarrow>
     lim < grip_left op \<and> fits lim l \<and> closes (grip_left op) l \<and> fits (grip_right op) r"
| "fits lim (UnExpr _ _ op e) \<longleftrightarrow> fits grip_unary e"
| "fits lim _ \<longleftrightarrow> True"

fun is_prefix :: "expr \<Rightarrow> bool" where
  "is_prefix (NameExpr _ _) \<longleftrightarrow> True"
| "is_prefix (ParenExpr _ _ _) \<longleftrightarrow> True"
| "is_prefix (IndexExpr _ _ _ _ _ _) \<longleftrightarrow> True"
| "is_prefix (CallExpr _ _ _ _ _ _) \<longleftrightarrow> True"
| "is_prefix (MethodCallExpr _ _ _ _ _ _) \<longleftrightarrow> True"
| "is_prefix _ \<longleftrightarrow> False"

abbreviation is_tok :: "kind \<Rightarrow> token \<Rightarrow> bool" where "is_tok k t \<equiv> tk_Kind t = k"

section \<open>Names\<close>

text \<open>One or more names between commas.\<close>

inductive gN :: "string list \<Rightarrow> token list \<Rightarrow> bool" where
  gN_one: "is_tok NAME t \<Longrightarrow> gN [tk_Str t] [t]"
| gN_more: "gN xs ts \<Longrightarrow> is_tok COMMA c \<Longrightarrow> is_tok NAME t \<Longrightarrow> gN (xs @ [tk_Str t]) (ts @ [c, t])"

text \<open>Names, each followed by a comma; the parameters of a function, \<open>xs\<close> those before the list (\<open>self\<close>), and
  whether it ends in dots.\<close>

inductive gO :: "string list \<Rightarrow> token list \<Rightarrow> bool" where
  "gO [] []"
| "gO xs ts \<Longrightarrow> is_tok NAME t \<Longrightarrow> is_tok COMMA c \<Longrightarrow> gO (xs @ [tk_Str t]) (ts @ [t, c])"

inductive gP :: "string list \<Rightarrow> string list \<Rightarrow> bool \<Rightarrow> token list \<Rightarrow> bool" where
  gP_none: "gP xs xs False []"
| gP_names: "gO ys ts \<Longrightarrow> is_tok NAME t \<Longrightarrow> gP xs (xs @ ys @ [tk_Str t]) False (ts @ [t])"
| gP_dots: "gO ys ts \<Longrightarrow> is_tok ELLIPSIS t \<Longrightarrow> gP xs (xs @ ys) True (ts @ [t])"

text \<open>The target of a function statement: a name and its fields.\<close>

inductive gD :: "expr \<Rightarrow> token list \<Rightarrow> bool" where
  gD_name: "is_tok NAME t \<Longrightarrow> gD (NameExpr l (tk_Str t)) [t]"
| gD_field: "gD e ts \<Longrightarrow> is_tok DOT c \<Longrightarrow> is_tok NAME t \<Longrightarrow>
    gD (IndexExpr l1 l2 l3 l4 e (StringExpr l5 (tk_Str t))) (ts @ [c, t])"

section \<open>Expressions, statements and blocks\<close>

inductive gE :: "bool \<Rightarrow> expr \<Rightarrow> token list \<Rightarrow> bool"
  and gL :: "bool \<Rightarrow> expr list \<Rightarrow> token list \<Rightarrow> bool"
  and gA :: "bool \<Rightarrow> expr list \<Rightarrow> token list \<Rightarrow> bool"
  and gT :: "bool \<Rightarrow> bool \<Rightarrow> titem list \<Rightarrow> token list \<Rightarrow> bool"
  and gF :: "string list \<Rightarrow> funcexpr \<Rightarrow> token list \<Rightarrow> bool"
  and gS :: "bool \<Rightarrow> bool \<Rightarrow> nat \<Rightarrow> stmt \<Rightarrow> token list \<Rightarrow> nat \<Rightarrow> bool"
  and gI :: "bool \<Rightarrow> bool \<Rightarrow> nat \<Rightarrow> ifclause list \<Rightarrow> token list \<Rightarrow> bool"
  and gC :: "bool \<Rightarrow> bool \<Rightarrow> nat \<Rightarrow> stmt list \<Rightarrow> token list \<Rightarrow> nat \<Rightarrow> bool"
where
  gE_Nil: "is_tok KW_NIL t \<Longrightarrow> gE va (NilExpr l) [t]"
| gE_True: "is_tok KW_TRUE t \<Longrightarrow> gE va (TrueExpr l) [t]"
| gE_False: "is_tok KW_FALSE t \<Longrightarrow> gE va (FalseExpr l) [t]"
| gE_Number: "is_tok NUMBER t \<Longrightarrow> gE va (NumberExpr l (tk_Num t)) [t]"
| gE_String: "is_tok STRING t \<Longrightarrow> gE va (StringExpr l (tk_Str t)) [t]"
| gE_Vararg: "is_tok ELLIPSIS t \<Longrightarrow> va \<Longrightarrow> gE va (VarargExpr l l') [t]"
| gE_Name: "is_tok NAME t \<Longrightarrow> gE va (NameExpr l (tk_Str t)) [t]"
| gE_Field: "gE va e xs \<Longrightarrow> is_prefix e \<Longrightarrow> is_tok DOT c \<Longrightarrow> is_tok NAME t \<Longrightarrow>
    gE va (IndexExpr l1 l2 l3 l4 e (StringExpr l5 (tk_Str t))) (xs @ [c, t])"
| gE_Index: "gE va e xs \<Longrightarrow> is_prefix e \<Longrightarrow> is_tok LBRACK a \<Longrightarrow> gE va key ys \<Longrightarrow> fits 0 key \<Longrightarrow> is_tok RBRACK b \<Longrightarrow>
    gE va (IndexExpr l1 l2 l3 l4 e key) (xs @ a # ys @ [b])"
| gE_Paren: "is_tok LPAREN a \<Longrightarrow> gE va e xs \<Longrightarrow> fits 0 e \<Longrightarrow> is_tok RPAREN b \<Longrightarrow>
    gE va (ParenExpr l l' e) (a # xs @ [b])"
| gE_Call: "gE va e xs \<Longrightarrow> is_prefix e \<Longrightarrow> gA va args ys \<Longrightarrow> gE va (CallExpr l1 l2 l3 ls e args) (xs @ ys)"
| gE_Method: "gE va e xs \<Longrightarrow> is_prefix e \<Longrightarrow> is_tok COLON c \<Longrightarrow> is_tok NAME t \<Longrightarrow> gA va args ys \<Longrightarrow>
    gE va (MethodCallExpr l1 l2 ls e (tk_Str t) args) (xs @ c # t # ys)"
| gE_Bin: "gE va l xs \<Longrightarrow> tokenToBinOp (tk_Kind t) = Some op \<Longrightarrow> gE va r ys \<Longrightarrow>
    gE va (BinExpr l1 l2 op l r) (xs @ t # ys)"
| gE_Un: "tokenToUnOp (tk_Kind t) = Some op \<Longrightarrow> gE va e xs \<Longrightarrow> gE va (UnExpr l1 l2 op e) (t # xs)"
| gE_Func: "is_tok KW_FUNCTION t \<Longrightarrow> gF [] f xs \<Longrightarrow> gE va (FuncE f) (t # xs)"
| gE_Table: "is_tok LBRACE a \<Longrightarrow> gT va sep items xs \<Longrightarrow> is_tok RBRACE b \<Longrightarrow>
    gE va (TableExpr l1 l2 l3 items) (a # xs @ [b])"

| gL_one: "gE va e xs \<Longrightarrow> fits 0 e \<Longrightarrow> gL va [e] xs"
| gL_more: "gL va es xs \<Longrightarrow> is_tok COMMA c \<Longrightarrow> gE va e ys \<Longrightarrow> fits 0 e \<Longrightarrow> gL va (es @ [e]) (xs @ c # ys)"

| gA_none: "is_tok LPAREN a \<Longrightarrow> is_tok RPAREN b \<Longrightarrow> gA va [] [a, b]"
| gA_list: "is_tok LPAREN a \<Longrightarrow> gL va es xs \<Longrightarrow> is_tok RPAREN b \<Longrightarrow> gA va es (a # xs @ [b])"
| gA_table: "is_tok LBRACE a \<Longrightarrow> gT va sep items xs \<Longrightarrow> is_tok RBRACE b \<Longrightarrow>
    gA va [TableExpr l1 l2 l3 items] (a # xs @ [b])"
| gA_string: "is_tok STRING t \<Longrightarrow> gA va [StringExpr l (tk_Str t)] [t]"

| gT_none: "gT va True [] []"
| gT_pos: "gT va True items xs \<Longrightarrow>
    gE va v ys \<Longrightarrow> fits 0 v \<Longrightarrow> gT va False (items @ [TableItem None v l1 l2 l3]) (xs @ ys)"
| gT_key: "gT va True items xs \<Longrightarrow>
    is_tok LBRACK a \<Longrightarrow> gE va k ys \<Longrightarrow> fits 0 k \<Longrightarrow> is_tok RBRACK b \<Longrightarrow> is_tok EQ q \<Longrightarrow> gE va v zs \<Longrightarrow> fits 0 v \<Longrightarrow>
    gT va False (items @ [TableItem (Some k) v l1 l2 l3]) (xs @ a # ys @ b # q # zs)"
| gT_field: "gT va True items xs \<Longrightarrow>
    is_tok NAME t \<Longrightarrow> is_tok EQ q \<Longrightarrow> gE va v zs \<Longrightarrow> fits 0 v \<Longrightarrow>
    gT va False (items @ [TableItem (Some (StringExpr l (tk_Str t))) v l1 l2 l3]) (xs @ t # q # zs)"
| gT_sep: "gT va False (items @ [TableItem k v l1 l2 l3]) xs \<Longrightarrow> tk_Kind c \<in> {COMMA, SEMI} \<Longrightarrow>
    gT va True (items @ [TableItem k v m1 m2 m3]) (xs @ [c])"

| gF: "is_tok LPAREN a \<Longrightarrow> gP pre ps va xs \<Longrightarrow> is_tok RPAREN b \<Longrightarrow>
    length ps + (if va then 1 else 0) \<le> 200 \<Longrightarrow>
    gC va False (length ps + (if va then 1 else 0)) ss ys n \<Longrightarrow> is_tok KW_END e \<Longrightarrow>
    gF pre (FuncExpr r l ps va False (Block ss l') l'') (a # xs @ b # ys @ [e])"

| gS_Local: "is_tok KW_LOCAL a \<Longrightarrow> gN names xs \<Longrightarrow> n + length names \<le> 200 \<Longrightarrow>
    gS va lp n (LocalStmt l ls l' names []) (a # xs) (n + length names)"
| gS_LocalInit: "is_tok KW_LOCAL a \<Longrightarrow> gN names xs \<Longrightarrow> n + length names \<le> 200 \<Longrightarrow> is_tok EQ q \<Longrightarrow> gL va es ys \<Longrightarrow>
    gS va lp n (LocalStmt l ls l' names es) (a # xs @ q # ys) (n + length names)"
| gS_LocalFunc: "is_tok KW_LOCAL a \<Longrightarrow> is_tok KW_FUNCTION b \<Longrightarrow> is_tok NAME t \<Longrightarrow> n + 1 \<le> 200 \<Longrightarrow> gF [] f xs \<Longrightarrow>
    gS va lp n (LocalFuncStmt l (tk_Str t) f) (a # b # t # xs) (n + 1)"
| gS_Assign: "gL va vs xs \<Longrightarrow> list_all isAssignable vs \<Longrightarrow> is_tok EQ q \<Longrightarrow> gL va es ys \<Longrightarrow>
    gS va lp n (AssignStmt l l' ls vs es) (xs @ q # ys) n"
| gS_Call: "gE va e xs \<Longrightarrow> isCall e \<Longrightarrow> gS va lp n (CallStmt l e) xs n"
| gS_Do: "is_tok KW_DO a \<Longrightarrow> gC va lp n ss xs n' \<Longrightarrow> is_tok KW_END b \<Longrightarrow> gS va lp n (DoStmt l (Block ss l')) (a # xs @ [b]) n"
| gS_While: "is_tok KW_WHILE a \<Longrightarrow> gE va e xs \<Longrightarrow> fits 0 e \<Longrightarrow> is_tok KW_DO d \<Longrightarrow> gC va True n ss ys n' \<Longrightarrow> is_tok KW_END b \<Longrightarrow>
    gS va lp n (WhileStmt l l' e (Block ss l'')) (a # xs @ d # ys @ [b]) n"
| gS_Repeat: "is_tok KW_REPEAT a \<Longrightarrow> gC va True n ss xs n' \<Longrightarrow> is_tok KW_UNTIL b \<Longrightarrow> gE va e ys \<Longrightarrow> fits 0 e \<Longrightarrow>
    gS va lp n (RepeatStmt l (Block ss l'') e l') (a # xs @ b # ys) n"
| gS_If: "is_tok KW_IF a \<Longrightarrow> gI va lp n cs xs \<Longrightarrow> is_tok KW_END b \<Longrightarrow> gS va lp n (IfStmt l cs None) (a # xs @ [b]) n"
| gS_IfElse: "is_tok KW_IF a \<Longrightarrow> gI va lp n cs xs \<Longrightarrow> is_tok KW_ELSE d \<Longrightarrow> gC va lp n ss ys n' \<Longrightarrow> is_tok KW_END b \<Longrightarrow>
    gS va lp n (IfStmt l cs (Some (Block ss l'))) (a # xs @ d # ys @ [b]) n"
| gS_NumFor: "is_tok KW_FOR a \<Longrightarrow> is_tok NAME t \<Longrightarrow> is_tok EQ q \<Longrightarrow> gE va e1 xs \<Longrightarrow> fits 0 e1 \<Longrightarrow> is_tok COMMA c \<Longrightarrow>
    gE va e2 ys \<Longrightarrow> fits 0 e2 \<Longrightarrow> is_tok KW_DO d \<Longrightarrow> n + 4 \<le> 200 \<Longrightarrow> gC va True (n + 4) ss ws n' \<Longrightarrow> is_tok KW_END b \<Longrightarrow>
    gS va lp n (NumForStmt l (tk_Str t) ls l' e1 e2 None (Block ss l'')) (a # t # q # xs @ c # ys @ d # ws @ [b]) n"
| gS_NumForStep: "is_tok KW_FOR a \<Longrightarrow> is_tok NAME t \<Longrightarrow> is_tok EQ q \<Longrightarrow> gE va e1 xs \<Longrightarrow> fits 0 e1 \<Longrightarrow> is_tok COMMA c \<Longrightarrow>
    gE va e2 ys \<Longrightarrow> fits 0 e2 \<Longrightarrow> is_tok COMMA c' \<Longrightarrow> gE va e3 zs \<Longrightarrow> fits 0 e3 \<Longrightarrow> is_tok KW_DO d \<Longrightarrow> n + 4 \<le> 200 \<Longrightarrow>
    gC va True (n + 4) ss ws n' \<Longrightarrow> is_tok KW_END b \<Longrightarrow>
    gS va lp n (NumForStmt l (tk_Str t) ls l' e1 e2 (Some e3) (Block ss l''))
      (a # t # q # xs @ c # ys @ c' # zs @ d # ws @ [b]) n"
| gS_GenFor: "is_tok KW_FOR a \<Longrightarrow> gN names xs \<Longrightarrow> is_tok KW_IN i \<Longrightarrow> gL va es ys \<Longrightarrow> is_tok KW_DO d \<Longrightarrow>
    n + 3 + length names \<le> 200 \<Longrightarrow> gC va True (n + 3 + length names) ss ws n' \<Longrightarrow> is_tok KW_END b \<Longrightarrow>
    gS va lp n (GenForStmt l names l' l1 ls es (Block ss l'')) (a # xs @ i # ys @ d # ws @ [b]) n"
| gS_Func: "is_tok KW_FUNCTION a \<Longrightarrow> gD e xs \<Longrightarrow> gF [] f ys \<Longrightarrow> gS va lp n (FuncStmt l e False f) (a # xs @ ys) n"
| gS_Method: "is_tok KW_FUNCTION a \<Longrightarrow> gD e xs \<Longrightarrow> is_tok COLON c \<Longrightarrow> is_tok NAME t \<Longrightarrow> gF [''self''] f ys \<Longrightarrow>
    gS va lp n (FuncStmt l (IndexExpr l1 l2 l3 l4 e (StringExpr l5 (tk_Str t))) True f) (a # xs @ c # t # ys) n"

| gI_one: "gE va e xs \<Longrightarrow> fits 0 e \<Longrightarrow> is_tok KW_THEN d \<Longrightarrow> gC va lp n ss ys n' \<Longrightarrow>
    gI va lp n [IfClause e (Block ss l) l'] (xs @ d # ys)"
| gI_more: "gI va lp n cs ws \<Longrightarrow> is_tok KW_ELSEIF a \<Longrightarrow> gE va e xs \<Longrightarrow> fits 0 e \<Longrightarrow> is_tok KW_THEN d \<Longrightarrow> gC va lp n ss ys n' \<Longrightarrow>
    gI va lp n (cs @ [IfClause e (Block ss l) l']) (ws @ a # xs @ d # ys)"

| gC_none: "gC va lp n [] [] n"
| gC_stmt: "gS va lp n s xs m \<Longrightarrow> gC va lp m ss ys n' \<Longrightarrow> gC va lp n (s # ss) (xs @ ys) n'"
| gC_stmt_semi: "gS va lp n s xs m \<Longrightarrow> is_tok SEMI c \<Longrightarrow> gC va lp m ss ys n' \<Longrightarrow> gC va lp n (s # ss) (xs @ c # ys) n'"
| gC_return: "is_tok KW_RETURN a \<Longrightarrow> gC va lp n [ReturnStmt l ls []] [a] n"
| gC_return_semi: "is_tok KW_RETURN a \<Longrightarrow> is_tok SEMI c \<Longrightarrow> gC va lp n [ReturnStmt l ls []] [a, c] n"
| gC_return_list: "is_tok KW_RETURN a \<Longrightarrow> gL va es xs \<Longrightarrow> gC va lp n [ReturnStmt l ls es] (a # xs) n"
| gC_return_list_semi: "is_tok KW_RETURN a \<Longrightarrow> gL va es xs \<Longrightarrow> is_tok SEMI c \<Longrightarrow>
    gC va lp n [ReturnStmt l ls es] (a # xs @ [c]) n"
| gC_break: "is_tok KW_BREAK a \<Longrightarrow> lp \<Longrightarrow> gC va lp n [BreakStmt l] [a] n"
| gC_break_semi: "is_tok KW_BREAK a \<Longrightarrow> lp \<Longrightarrow> is_tok SEMI c \<Longrightarrow> gC va lp n [BreakStmt l] [a, c] n"

section \<open>No phrase contains the end of the source\<close>

definition inner :: "token list \<Rightarrow> bool" where "inner us \<longleftrightarrow> (\<forall>t\<in>set us. tk_Kind t \<noteq> EOF)"

lemma inner_simps [simp]:
  "inner []" "inner (t # us) \<longleftrightarrow> tk_Kind t \<noteq> EOF \<and> inner us" "inner (us @ ws) \<longleftrightarrow> inner us \<and> inner ws"
  by (auto simp: inner_def)

lemma inner_names: "gN xs us \<Longrightarrow> inner us"
  by (induction rule: gN.induct) auto

lemma inner_open: "gO xs us \<Longrightarrow> inner us"
  by (induction rule: gO.induct) auto

lemma inner_params: "gP xs ys va us \<Longrightarrow> inner us"
  by (induction rule: gP.induct) (auto dest: inner_open)

lemma inner_funcname: "gD e us \<Longrightarrow> inner us"
  by (induction rule: gD.induct) auto

lemma binop_real: "tokenToBinOp k = Some op \<Longrightarrow> k \<noteq> EOF"
  by auto

lemma unop_real: "tokenToUnOp k = Some op \<Longrightarrow> k \<noteq> EOF"
  by auto

lemma inner_phrases:
  "gE va e us \<Longrightarrow> us \<noteq> [] \<and> inner us"
  "gL va es us \<Longrightarrow> us \<noteq> [] \<and> inner us"
  "gA va es us \<Longrightarrow> inner us"
  "gT va sep items us \<Longrightarrow> inner us"
  "gF pre f us \<Longrightarrow> inner us"
  "gS va lp n s us n' \<Longrightarrow> inner us"
  "gI va lp n cs us \<Longrightarrow> inner us"
  "gC va lp n ss us n' \<Longrightarrow> inner us"
  by (induction rule: gE_gL_gA_gT_gF_gS_gI_gC.inducts)
    (auto simp: binop_real unop_real dest: inner_names inner_params inner_funcname)

end
