(* ===== verification/ParserRun.thy ===== *)
theory ParserRun
  imports Grammar
begin

text \<open>
  How a parser function moves through the source. \<open>res\<close> is its weakest precondition: it returns, and a
  result satisfies the postcondition. \<open>run M K p0 ts vs p\<close> relates the state \<open>p\<close> to the state \<open>p0\<close> where
  a parser function started: it has consumed the tokens \<open>ts\<close>, the locals of the current function are \<open>vs\<close>,
  and all the rest of the state is unchanged. The rules of the last section run the primitives forward.
\<close>

section \<open>Results\<close>

fun res :: "'a presult \<Rightarrow> ('a \<Rightarrow> parser \<Rightarrow> bool) \<Rightarrow> bool" where
  "res OutOfFuel Q \<longleftrightarrow> False"
| "res (Err e) Q \<longleftrightarrow> True"
| "res (Ok x p) Q \<longleftrightarrow> Q x p"

lemma res_bindP: "res (bindP r f) Q = res r (\<lambda>x p. res (f x p) Q)"
  by (cases r) auto

lemma res_mono: "res r P \<Longrightarrow> (\<And>x p. P x p \<Longrightarrow> Q x p) \<Longrightarrow> res r Q"
  by (cases r) auto

lemma res_bind: "res r P \<Longrightarrow> (\<And>x p. P x p \<Longrightarrow> res (f x p) Q) \<Longrightarrow> res (bindP r f) Q"
  by (cases r) auto

lemma res_bind_pair: "res r (\<lambda>(x, y). P x y) \<Longrightarrow> (\<And>x y p. P x y p \<Longrightarrow> res (f (x, y) p) Q) \<Longrightarrow> res (bindP r f) Q"
  by (cases r) auto

text \<open>The structural rules: how to run through a conditional and a nested sequence.\<close>

lemma res_if: "(c \<Longrightarrow> res a Q) \<Longrightarrow> (\<not> c \<Longrightarrow> res b Q) \<Longrightarrow> res (if c then a else b) Q"
  by simp

lemma res_Err: "res (Err e) Q"
  by simp

lemma res_Ok: "Q x p \<Longrightarrow> res (Ok x p) Q"
  by simp

lemma bind_if: "(c \<Longrightarrow> res (bindP a f) Q) \<Longrightarrow> (\<not> c \<Longrightarrow> res (bindP b f) Q) \<Longrightarrow> res (bindP (if c then a else b) f) Q"
  by simp

lemma bind_nested: "res (bindP r (\<lambda>x p. bindP (g x p) f)) Q \<Longrightarrow> res (bindP (bindP r g) f) Q"
  by (simp add: res_bindP)

lemma bind_Ok: "res (f x p) Q \<Longrightarrow> res (bindP (Ok x p) f) Q"
  by simp

lemma bind_Err: "res (bindP (Err e) f) Q"
  by simp

lemmas structural = res_if res_Err res_Ok bind_if bind_nested bind_Ok bind_Err

section \<open>Tokens consumed\<close>

fun lexes :: "lexer \<Rightarrow> token list \<Rightarrow> lexer \<Rightarrow> bool" where
  "lexes l [] m \<longleftrightarrow> m = l"
| "lexes l (t # ts) m \<longleftrightarrow> (\<exists>l'. Next l = Inr (t, l') \<and> lexes l' ts m)"

lemma lexes_append: "lexes l (xs @ ys) n \<longleftrightarrow> (\<exists>m. lexes l xs m \<and> lexes m ys n)"
  by (induction xs arbitrary: l) auto

definition real_toks :: "token list \<Rightarrow> nat" where
  "real_toks ts = length (filter (\<lambda>t. tk_Kind t \<noteq> EOF) ts)"

lemma real_toks_simps [simp]:
  "real_toks [] = 0" "real_toks (xs @ ys) = real_toks xs + real_toks ys"
  "real_toks (t # ts) = (if tk_Kind t = EOF then 0 else 1) + real_toks ts"
  by (simp_all add: real_toks_def)

lemma inner_real: "inner us \<Longrightarrow> real_toks us = length us"
  by (induction us) auto

lemma lexes_progress: "lexes l ts m \<Longrightarrow> length (l_rest m) + real_toks ts \<le> length (l_rest l)"
proof (induction ts arbitrary: l)
  case (Cons t ts)
  then obtain l' where l': "Next l = Inr (t, l')" "lexes l' ts m" by auto
  from Cons.IH [OF l'(2)] Next_shape [OF l'(1)] show ?case
    by (auto dest: reads_length)
qed simp

definition buf :: "parser \<Rightarrow> token list" where
  "buf p = p_tok p # (case p_ahead p of None \<Rightarrow> [] | Some t \<Rightarrow> [t])"

definition takes :: "parser \<Rightarrow> token list \<Rightarrow> parser \<Rightarrow> bool" where
  "takes p ts p' \<longleftrightarrow> (\<exists>us. lexes (p_lx p) us (p_lx p') \<and> buf p @ us = ts @ buf p')"

definition remaining :: "parser \<Rightarrow> nat" where
  "remaining p = length (l_rest (p_lx p)) + real_toks (buf p)"

lemma takes_nil: "p_lx p' = p_lx p \<Longrightarrow> buf p' = buf p \<Longrightarrow> takes p [] p'"
  by (auto simp: takes_def intro!: exI [of _ "[]"])

lemma takes_trans: "takes p xs q \<Longrightarrow> takes q ys r \<Longrightarrow> takes p (xs @ ys) r"
  unfolding takes_def lexes_append
  by (metis append.assoc lexes_append)

lemma takes_remaining: "takes p ts p' \<Longrightarrow> remaining p' + real_toks ts \<le> remaining p"
proof -
  assume "takes p ts p'"
  then obtain us where us: "lexes (p_lx p) us (p_lx p')" "buf p @ us = ts @ buf p'" by (auto simp: takes_def)
  have "real_toks (buf p) + real_toks us = real_toks ts + real_toks (buf p')"
    using arg_cong [OF us(2), of real_toks] by simp
  then show ?thesis using lexes_progress [OF us(1)] by (simp add: remaining_def)
qed

lemma takes_nextTok: "nextTok p = Ok x p' \<Longrightarrow> takes p [p_tok p] p'"
  by (auto simp: takes_def nextTok_def buf_def Let_def split: option.splits sum.splits
      intro: exI [of _ "[]"] exI [of _ "[t]" for t])

lemma takes_peekTok: "peekTok p = Ok t p' \<Longrightarrow> takes p [] p' \<and> p_tok p' = p_tok p"
  by (auto simp: takes_def peekTok_def buf_def split: option.splits sum.splits
      intro: exI [of _ "[]"] exI [of _ "[t]" for t])

section \<open>Runs\<close>

definition shape :: "parser \<Rightarrow> bool \<times> int \<times> int \<times> int \<times> string list list" where
  "shape p = (p_insideVararg p, p_depth p, p_loopDepth p, p_depthLimit p, map fs_actvars (tl (p_fs p)))"

definition run :: "nat \<Rightarrow> nat \<Rightarrow> parser \<Rightarrow> token list \<Rightarrow> string list \<Rightarrow> parser \<Rightarrow> bool" where
  "run M K p0 ts vs p \<longleftrightarrow> takes p0 ts p \<and> shape p = shape p0 \<and> p_fs p \<noteq> [] \<and> actvars p = vs \<and>
     remaining p0 < K \<and> p_depth p0 \<le> p_depthLimit p0 \<and>
     p_depthLimit p0 - p_depth p0 < int M \<and> 0 \<le> p_loopDepth p0"

lemma run_vars: "run M K p0 ts vs p \<Longrightarrow> actvars p = vs"
  by (simp add: run_def)

lemma run_vararg: "run M K p0 ts vs p \<Longrightarrow> p_insideVararg p = p_insideVararg p0"
  by (simp add: run_def shape_def)

lemma run_loop: "run M K p0 ts vs p \<Longrightarrow> p_loopDepth p = p_loopDepth p0 \<and> 0 \<le> p_loopDepth p0"
  by (simp add: run_def shape_def)

lemma run_real: "run M K p0 ts vs p \<Longrightarrow> real_toks ts \<le> remaining p0 \<and> remaining p0 < K"
  using takes_remaining by (fastforce simp: run_def)

lemma run_nextTok:
  assumes "run M K p0 ts vs p" "nextTok p = Ok x p'"
  shows "run M K p0 (ts @ [p_tok p]) vs p'"
proof -
  have "shape p' = shape p \<and> p_fs p' = p_fs p"
    using assms(2) by (auto simp: nextTok_def shape_def Let_def split: option.splits sum.splits)
  then show ?thesis
    using assms takes_trans [OF _ takes_nextTok [OF assms(2)]] by (auto simp: run_def actvars_def)
qed

lemma run_peekTok:
  assumes "run M K p0 ts vs p" "peekTok p = Ok t p'"
  shows "run M K p0 ts vs p' \<and> p_tok p' = p_tok p"
proof -
  have "shape p' = shape p \<and> p_fs p' = p_fs p"
    using assms(2) by (auto simp: peekTok_def shape_def split: option.splits sum.splits)
  then show ?thesis
    using assms takes_trans [OF _ takes_peekTok [OF assms(2), THEN conjunct1]] takes_peekTok [OF assms(2)]
    by (auto simp: run_def actvars_def)
qed

lemma run_set_actvars: "run M K p0 ts vs p \<Longrightarrow> run M K p0 ts ws (set_actvars ws p)"
  using takes_trans [OF _ takes_nil, of p0 ts p "set_actvars ws p"]
  by (auto simp: run_def set_actvars_def actvars_def shape_def buf_def)

lemma run_activate: "run M K p0 ts vs p \<Longrightarrow> run M K p0 ts (vs @ ws) (activate ws p)"
  using run_set_actvars run_vars by (fastforce simp: activate_def)

lemma resolve_actvars: "resolve name fs = Inr (b, fs') \<Longrightarrow> map fs_actvars fs' = map fs_actvars fs"
  by (induction fs arbitrary: b fs') (auto split: if_splits sum.splits)

lemma run_resolveName:
  assumes "run M K p0 ts vs p" "resolveName name p = Ok b p'"
  shows "run M K p0 ts vs p'"
proof -
  obtain fs where r: "resolve name (p_fs p) = Inr (b, fs)" "p' = p\<lparr>p_fs := fs\<rparr>"
    using assms(2) by (auto simp: resolveName_def split: sum.splits)
  have m: "map fs_actvars fs = map fs_actvars (p_fs p)" by (rule resolve_actvars [OF r(1)])
  then have "fs \<noteq> []" "fs_actvars (hd fs) = fs_actvars (hd (p_fs p))"
    "map fs_actvars (tl fs) = map fs_actvars (tl (p_fs p))"
    using assms(1) by (auto simp: run_def neq_Nil_conv)
  then show ?thesis
    using assms(1) takes_trans [OF _ takes_nil, of p0 ts p p'] by (auto simp: r run_def actvars_def shape_def buf_def)
qed

text \<open>A run inside a run: it starts in a state that has read as much as \<open>p\<close>, and ends in one from which the
  outer state is restored.\<close>

lemma run_start:
  assumes r: "run M K p0 ts vs p"
    and q: "p_lx q = p_lx p" "buf q = buf p" "p_fs q \<noteq> []" "0 \<le> p_loopDepth q" "p_depth q \<le> p_depthLimit q"
      "p_depthLimit q - p_depth q < int M'"
  shows "run M' K q [] (actvars q) q"
proof -
  have "takes p0 ts p" "remaining p0 < K" using r by (auto simp: run_def)
  then have "remaining q < K" using takes_remaining [of p0 ts p] q by (simp add: remaining_def)
  then show ?thesis using q takes_nil [of q q] by (simp add: run_def)
qed

lemma run_back:
  assumes r: "run M K p0 ts vs p" and s: "p_lx q = p_lx p" "buf q = buf p" and q: "run M' K q us ws q'"
    and p': "p_lx p' = p_lx q'" "buf p' = buf q'" "shape p' = shape p" "p_fs p' \<noteq> []"
  shows "run M K p0 (ts @ us) (actvars p') p'"
proof -
  have "takes q us q'" using q by (simp add: run_def)
  then have "takes p us p'" using s p' by (simp add: takes_def)
  then show ?thesis using r p' takes_trans by (auto simp: run_def)
qed

lemma run_fs: "run M K p0 ts vs p \<Longrightarrow> p_fs p \<noteq> [] \<and> shape p = shape p0"
  by (simp add: run_def)

text \<open>In particular one with another vararg flag and loop depth, as for a function body or a loop.\<close>

lemma run_within:
  fixes va :: bool
  assumes r: "run M K p0 ts vs p" and l: "0 \<le> l"
  defines "q \<equiv> p\<lparr>p_insideVararg := va, p_loopDepth := l\<rparr>"
  shows "run M K q [] vs q"
    and "run M K q us ws q' \<Longrightarrow>
      run M K p0 (ts @ us) ws (q'\<lparr>p_insideVararg := p_insideVararg p, p_loopDepth := p_loopDepth p\<rparr>)"
proof -
  have q: "p_lx q = p_lx p" "buf q = buf p" "actvars q = vs" "p_depth q = p_depth p" "p_depthLimit q = p_depthLimit p"
    "p_fs q = p_fs p" "p_insideVararg q = va" "p_loopDepth q = l"
    using run_vars [OF r] by (simp_all add: q_def buf_def actvars_def)
  show "run M K q [] vs q"
    using run_start [OF r, of q M] q l r by (auto simp: run_def shape_def)
  assume q': "run M K q us ws q'"
  let ?p' = "q'\<lparr>p_insideVararg := p_insideVararg p, p_loopDepth := p_loopDepth p\<rparr>"
  have "run M K p0 (ts @ us) (actvars ?p') ?p'"
    using run_fs [OF q'] q by (intro run_back [OF r q(1,2) q']) (auto simp: buf_def shape_def)
  moreover have "actvars ?p' = ws" using run_vars [OF q'] by (simp add: actvars_def)
  ultimately show "run M K p0 (ts @ us) ws ?p'" by simp
qed

section \<open>Forward rules\<close>

lemma bind_next: "run M K p0 ts vs p \<Longrightarrow> (\<And>p'. run M K p0 (ts @ [p_tok p]) vs p' \<Longrightarrow> res (f () p') Q) \<Longrightarrow>
    res (bindP (nextTok p) f) Q"
  using run_nextTok [of M K p0 ts vs p "()"]
  by (cases "nextTok p") (auto simp: nextTok_def Let_def split: option.splits sum.splits)

lemma bind_expect: "run M K p0 ts vs p \<Longrightarrow>
    (\<And>t p'. run M K p0 (ts @ [t]) vs p' \<Longrightarrow> is_tok k t \<Longrightarrow> res (f () p') Q) \<Longrightarrow>
    res (bindP (expect k p) f) Q"
  unfolding expect_def by (cases "tok_kind p = k") (auto intro: bind_next)

lemma bind_expectMatch: "run M K p0 ts vs p \<Longrightarrow>
    (\<And>t p'. run M K p0 (ts @ [t]) vs p' \<Longrightarrow> is_tok k t \<Longrightarrow> res (f () p') Q) \<Longrightarrow>
    res (bindP (expectMatch k k' l p) f) Q"
  unfolding expectMatch_def by (cases "tok_kind p = k") (auto intro: bind_next)

lemma bind_checkName: "run M K p0 ts vs p \<Longrightarrow>
    (\<And>t p'. run M K p0 (ts @ [t]) vs p' \<Longrightarrow> is_tok NAME t \<Longrightarrow> res (f (tk_Str t) p') Q) \<Longrightarrow>
    res (bindP (checkName p) f) Q"
proof -
  assume r: "run M K p0 ts vs p"
    and f: "\<And>t p'. run M K p0 (ts @ [t]) vs p' \<Longrightarrow> is_tok NAME t \<Longrightarrow> res (f (tk_Str t) p') Q"
  show ?thesis
  proof (cases "match NAME p")
    case True
    have "res (bindP (nextTok p) (\<lambda>_ q. f (tk_Str (p_tok p)) q)) Q"
      using True by (intro bind_next [OF r] f) (auto simp: match_def)
    then show ?thesis using True by (simp add: checkName_def Let_def res_bindP)
  qed (simp add: checkName_def bind_Err)
qed

lemma bind_consume: "run M K p0 ts vs p \<Longrightarrow>
    (run M K p0 ts vs p \<Longrightarrow> tok_kind p \<noteq> k \<Longrightarrow> res (f False p) Q) \<Longrightarrow>
    (\<And>t p'. run M K p0 (ts @ [t]) vs p' \<Longrightarrow> is_tok k t \<Longrightarrow> res (f True p') Q) \<Longrightarrow>
    res (bindP (consume k p) f) Q"
proof -
  assume r: "run M K p0 ts vs p" and n: "run M K p0 ts vs p \<Longrightarrow> tok_kind p \<noteq> k \<Longrightarrow> res (f False p) Q"
    and f: "\<And>t p'. run M K p0 (ts @ [t]) vs p' \<Longrightarrow> is_tok k t \<Longrightarrow> res (f True p') Q"
  show ?thesis
  proof (cases "match k p")
    case True
    have "res (bindP (nextTok p) (\<lambda>_ q. f True q)) Q"
      using True by (intro bind_next [OF r] f) (auto simp: match_def)
    then show ?thesis using True by (simp add: consume_def res_bindP)
  next
    case False
    then show ?thesis using n r by (simp add: consume_def match_def bind_Ok)
  qed
qed

lemma bind_peek: "run M K p0 ts vs p \<Longrightarrow>
    (\<And>t p'. run M K p0 ts vs p' \<Longrightarrow> p_tok p' = p_tok p \<Longrightarrow> res (f t p') Q) \<Longrightarrow>
    res (bindP (peekTok p) f) Q"
  using run_peekTok [of M K p0 ts vs p]
  by (cases "peekTok p") (auto simp: peekTok_def split: option.splits sum.splits)

lemma bind_resolve: "run M K p0 ts vs p \<Longrightarrow>
    (\<And>b p'. run M K p0 ts vs p' \<Longrightarrow> res (f b p') Q) \<Longrightarrow> res (bindP (resolveName x p) f) Q"
  using run_resolveName [of M K p0 ts vs p]
  by (cases "resolveName x p") (auto simp: resolveName_def split: sum.splits)

lemma bind_limit: "run M K p0 ts vs p \<Longrightarrow>
    (run M K p0 ts vs p \<Longrightarrow> length (actvars p) = length vs \<Longrightarrow> int (length vs) + i + 1 \<le> 200 \<Longrightarrow> res (f () p) Q) \<Longrightarrow> res (bindP (checkLocalLimit i p) f) Q"
  by (auto simp: checkLocalLimit_def maxVars_def run_vars)

text \<open>The rules that run a program forward, each from the run up to its first step.\<close>

lemmas forward = bind_next bind_expect bind_expectMatch bind_checkName bind_peek bind_resolve bind_limit

end
