(* ===== verification/ParserExprSpec.thy ===== *)
theory ParserExprSpec
  imports ParserRun
begin

text \<open>
  The functions of \<open>expr.go\<close>, for any expression and block parsers that keep the contract \<open>sub_parsers\<close>:
  started with less than \<open>K\<close> tokens ahead and less than \<open>M\<close> levels from the depth limit they return, an
  expression that the grammar derives from the tokens consumed and that is grouped by precedence, or a block
  that the grammar derives; nothing else of the state changes.
\<close>

text \<open>\<open>parseFuncBody\<close> from the parameter list on, in the scope of the new function.\<close>

definition func_tail :: "block_parser \<Rightarrow> nat \<Rightarrow> u32 \<Rightarrow> string list \<Rightarrow> parser \<Rightarrow> funcexpr presult" where
  "func_tail pb k l pre p =
     bindP (if \<not> match RPAREN p then param_loop k pre p else Ok (pre, False) p) (\<lambda>(params, isVararg) p.
     let p = activate (drop (length (actvars p)) params) p;
         p = (if isVararg then activate [''arg''] p else p) in
     bindP (expect RPAREN p) (\<lambda>_ p.
     let saved = p_insideVararg p; savedLoop = p_loopDepth p in
     bindP (in_scope pb (p\<lparr>p_insideVararg := isVararg, p_loopDepth := 0\<rparr>)) (\<lambda>body p.
     let p = p\<lparr>p_insideVararg := saved, p_loopDepth := savedLoop\<rparr>; endLine = tok_line p in
     bindP (expectMatch KW_END KW_FUNCTION l p) (\<lambda>_ p.
     Ok (FuncExpr (p_alloc p) l params isVararg False body endLine)
        (p\<lparr>p_alloc := p_alloc p + 1, p_fs := tl (p_fs p)\<rparr>)))))"

lemma parseFuncBody_tail:
  "parseFuncBody pb k l isMethod p =
     bindP (expect LPAREN (p\<lparr>p_fs := \<lparr>fs_lineDefined = l, fs_actvars = [], fs_upvals = []\<rparr> # p_fs p\<rparr>)) (\<lambda>_ p.
     func_tail pb k l (if isMethod then [''self''] else []) (if isMethod then activate [''self''] p else p))"
  by (simp add: parseFuncBody_def func_tail_def Let_def)

section \<open>Priorities\<close>

text \<open>The priorities of \<open>expr.go\<close> order the operators as the levels of the manual do.\<close>

fun grip_of :: "nat \<Rightarrow> nat" where
  "grip_of n = (if n < 4 then 2 * n else if n = 4 then 7 else if n < 9 then 2 * n - 2 else if n = 9 then 15 else 16)"

declare grip_of.simps [simp del]

lemma grip_of_right [simp]: "grip_of (right_prio op) = grip_right op"
  by (cases op) (simp_all add: grip_of.simps grip_right_def right_assoc_def)

lemma grip_of_consts [simp]: "grip_of 0 = 0" "grip_of unaryPriority = grip_unary"
  by (simp_all add: grip_of.simps unaryPriority_def grip_unary_def)

lemma grip_limit: "left_prio op \<le> n \<longleftrightarrow> grip_left op \<le> grip_of n"
  by (cases op) (auto simp: grip_of.simps grip_left_def)

section \<open>The contract\<close>

text \<open>An expression parsed under the limit \<open>lim\<close>: the tokens spell it, it is grouped by precedence, and the token
  that follows does not continue it.\<close>

abbreviation expr_parsed :: "nat \<Rightarrow> nat \<Rightarrow> parser \<Rightarrow> token list \<Rightarrow> string list \<Rightarrow> nat \<Rightarrow> expr \<Rightarrow> parser \<Rightarrow> bool" where
  "expr_parsed M K p0 ts vs lim e p \<equiv> \<exists>us. run M K p0 (ts @ us) vs p \<and> gE (p_insideVararg p0) e us \<and> fits (grip_of lim) e \<and>
     (\<forall>op. tokenToBinOp (tok_kind p) = Some op \<longrightarrow> grip_left op \<le> grip_of lim \<and> closes (grip_left op) e)"

abbreviation block_parsed :: "nat \<Rightarrow> nat \<Rightarrow> parser \<Rightarrow> token list \<Rightarrow> string list \<Rightarrow> block \<Rightarrow> parser \<Rightarrow> bool" where
  "block_parsed M K p0 ts vs b p \<equiv> \<exists>us ws ss l. b = Block ss l \<and> run M K p0 (ts @ us) (vs @ ws) p \<and>
     gC (p_insideVararg p0) (0 < p_loopDepth p0) (length vs) ss us (length vs + length ws)"

locale sub_parsers =
  fixes pe :: expr_parser and pb :: block_parser and M K :: nat
  assumes pe_spec: "run M K p0 ts vs p \<Longrightarrow> res (pe lim p) (expr_parsed M K p0 ts vs lim)"
    and pb_spec: "run M K p0 ts vs p \<Longrightarrow> res (pb p) (block_parsed M K p0 ts vs)"
begin

lemmas bind_pe = res_bind [OF pe_spec]

lemma explist_spec:
  "run M K p0 (ts @ us) vs p \<Longrightarrow> remaining p0 < real_toks (ts @ us) + k \<Longrightarrow> gL (p_insideVararg p0) out us \<Longrightarrow>
   res (explist_loop pe k out ends p) (\<lambda>(out', ends') p'. \<exists>ws. run M K p0 (ts @ ws) vs p' \<and>
     gL (p_insideVararg p0) out' ws)"
proof (induction k arbitrary: us p out ends)
  case 0
  then show ?case using run_real [OF 0(1)] by simp
next
  case (Suc k)
  show ?case
    using Suc.prems by (auto simp: match_def Let_def elim!: forward bind_pe intro!: Suc.IH [THEN res_mono] intro: gL_more)
qed

lemma parseExprListEnds_spec:
  "run M K p0 ts vs p \<Longrightarrow> res (parseExprListEnds pe K p) (\<lambda>(es, ends) p'. \<exists>us. run M K p0 (ts @ us) vs p' \<and>
     gL (p_insideVararg p0) es us)"
  by (auto simp: parseExprListEnds_def elim!: bind_pe intro!: explist_spec dest: run_real intro: gL_one)

lemmas bind_list = res_bind_pair [OF parseExprListEnds_spec]

section \<open>Table constructors\<close>

lemma table_field_spec:
  "run M K p0 (ts @ us) vs p \<Longrightarrow> gT (p_insideVararg p0) True items us \<Longrightarrow>
   res (table_field pe items i p) (\<lambda>(items', j) p'. \<exists>ws. run M K p0 (ts @ us @ ws) vs p' \<and>
     gT (p_insideVararg p0) False items' (us @ ws))"
  by (auto simp: table_field_def table_positional_def match_def Let_def elim!: forward bind_pe)
    (blast intro: gT_pos gT_key gT_field)+

lemmas bind_field = res_bind_pair [OF table_field_spec]

lemma gT_nonempty: "gT va sep items us \<Longrightarrow> \<not> sep \<Longrightarrow> \<exists>is k v l1 l2 l3. items = is @ [TableItem k v l1 l2 l3]"
  by (erule gT.cases) auto

lemma gT_lines: "gT va sep (items @ [TableItem k v l1 l2 l3]) us \<Longrightarrow> gT va sep (items @ [TableItem k v m1 m2 m3]) us"
  by (erule gT.cases) (auto intro: gE_gL_gA_gT_gF_gS_gI_gC.intros)

lemma gT_end: "gT va sep items us \<Longrightarrow> gT va sep (end_positional i l items) us"
proof (cases "items = []")
  case False
  obtain k v l1 l2 l3 where z: "last items = TableItem k v l1 l2 l3" by (cases "last items") auto
  assume "gT va sep items us"
  then have "gT va sep (butlast items @ [TableItem k v l1 l2 l3]) us" using False z [symmetric] by simp
  from gT_lines [OF this, of l1 l2 l] \<open>gT va sep items us\<close> show ?thesis
    by (simp add: end_positional_def set_last_def end_item_def z)
qed (simp add: end_positional_def)

lemma gT_step: "gT va False items us \<Longrightarrow> tk_Kind c \<in> {COMMA, SEMI} \<Longrightarrow> gT va True (end_positional i l items) (us @ [c])"
  using gT_nonempty [OF gT_end, of va False items us i l] gT_end [of va False items us i l] by (auto intro: gT_sep)

lemma gT_step2: "gT va False items (us @ ws) \<Longrightarrow> tk_Kind c = COMMA \<or> tk_Kind c = SEMI \<Longrightarrow>
    gT va True (end_positional i l items) (us @ ws @ [c])"
  using gT_step [of va items "us @ ws" c i l] by simp

lemma table_loop_spec:
  "run M K p0 (ts @ us) vs p \<Longrightarrow> remaining p0 < real_toks (ts @ us) + k \<Longrightarrow> gT (p_insideVararg p0) True items us \<Longrightarrow>
   res (table_loop pe k items i p) (\<lambda>(items', j) p'. \<exists>ws. run M K p0 (ts @ ws) vs p' \<and>
     (\<exists>sep. gT (p_insideVararg p0) sep items' ws))"
proof (induction k arbitrary: us p items i)
  case 0
  then show ?case using run_real [OF 0(1)] by simp
next
  case (Suc k)
  then show ?case
    by (auto simp: match_def Let_def elim!: bind_field forward)
      (blast | rule Suc.IH, assumption, simp, simp add: gT_step2)+
qed

lemmas bind_table_loop = res_bind_pair [OF table_loop_spec]

text \<open>A brace, the items and the closing brace, whether the table is an expression or an argument.\<close>

lemma parseTableExpr_spec:
  "run M K p0 ts vs p \<Longrightarrow> res (parseTableExpr pe K p) (\<lambda>e p'. \<exists>a us sep b l1 l2 l3 items.
     run M K p0 (ts @ a # us @ [b]) vs p' \<and> e = TableExpr l1 l2 l3 items \<and> is_tok LBRACE a \<and> is_tok RBRACE b \<and>
     gT (p_insideVararg p0) sep items us)"
proof -
  assume r: "run M K p0 ts vs p"
  from run_real [OF r] have K: "remaining p0 < K" by simp
  show ?thesis
    unfolding parseTableExpr_def Let_def
  proof (rule bind_expect [OF r], rule bind_table_loop [where us = "[]"])
    show "run M K p0 ((ts @ [a]) @ []) vs q" if "run M K p0 (ts @ [a]) vs q" for a q using that by simp
    show "remaining p0 < real_toks ((ts @ [a]) @ []) + K" for a using K by simp
  qed (auto simp: gT_none elim!: bind_expectMatch, blast intro: gT_end)
qed

lemmas bind_table = res_bind [OF parseTableExpr_spec]

section \<open>Function bodies\<close>

lemma gO_snoc: "gO ys us \<Longrightarrow> is_tok NAME t \<Longrightarrow> is_tok COMMA c \<Longrightarrow> gO (ys @ [tk_Str t]) (us @ [t, c])"
  by (rule gO.intros)

lemma param_loop_spec:
  "run M K p0 (ts @ us) vs p \<Longrightarrow> remaining p0 < real_toks (ts @ us) + k \<Longrightarrow> gO ys us \<Longrightarrow>
   res (param_loop k (pre @ ys) p) (\<lambda>(ps, va) p'. \<exists>ws. run M K p0 (ts @ ws) vs p' \<and> gP pre ps va ws \<and>
     length ps + (if va then 1 else 0) \<le> 200)"
proof (induction k arbitrary: us ys p)
  case 0
  then show ?case using run_real [OF 0(1)] by simp
next
  case (Suc k)
  then show ?case
    by (auto simp: match_def Let_def elim!: forward)
      (blast intro: gP_names gP_dots | rule Suc.IH, assumption, simp, simp add: gO_snoc)+
qed

lemmas bind_params = res_bind_pair [OF param_loop_spec]

text \<open>A block in its scope; the state \<open>q\<close> it starts in differs from \<open>p\<close> in the vararg flag and the loop depth.\<close>

lemma in_scope_spec:
  assumes r: "run M K p0 ts vs p"
  shows "res (in_scope pb p) (\<lambda>b p'. \<exists>us ss l n. b = Block ss l \<and> run M K p0 (ts @ us) vs p' \<and>
     gC (p_insideVararg p0) (0 < p_loopDepth p0) (length vs) ss us n)"
  unfolding in_scope_def Let_def run_vars [OF r]
proof (rule res_bind [OF pb_spec [OF r]], elim exE conjE, rule res_Ok)
  fix b p' us ws ss l
  assume b: "b = Block ss l" and q: "run M K p0 (ts @ us) (vs @ ws) p'"
    and g: "gC (p_insideVararg p0) (0 < p_loopDepth p0) (length vs) ss us (length vs + length ws)"
  have "run M K p0 (ts @ us) vs (set_actvars (take (length vs) (actvars p')) p')"
    using run_set_actvars [OF q, of vs] by (simp add: run_vars [OF q])
  then show "\<exists>us ss l n. b = Block ss l \<and>
      run M K p0 (ts @ us) vs (set_actvars (take (length vs) (actvars p')) p') \<and>
      gC (p_insideVararg p0) (0 < p_loopDepth p0) (length vs) ss us n"
    using b g by blast
qed

lemmas bind_in_scope = res_bind [OF in_scope_spec]

lemma rescope_spec:
  assumes r: "run M K p0 ts vs p" and l: "0 \<le> l"
  shows "res (in_scope pb (p\<lparr>p_insideVararg := va, p_loopDepth := l\<rparr>)) (\<lambda>b q. \<exists>us ss e n. b = Block ss e \<and>
     run M K p0 (ts @ us) vs (q\<lparr>p_insideVararg := p_insideVararg p, p_loopDepth := p_loopDepth p\<rparr>) \<and>
     gC va (0 < l) (length vs) ss us n)"
  using run_within(2) [OF r l, of va]
  by (intro res_mono [OF in_scope_spec [OF run_within(1) [OF r l]]]) (auto, blast)

lemma gP_prefix: "gP pre ps va us \<Longrightarrow> \<exists>ys. ps = pre @ ys"
  by (erule gP.cases) auto

text \<open>Activating the parameters: they become the locals of the function, with \<open>arg\<close> after them when it is vararg.\<close>

lemma run_params:
  assumes r: "run M K p0 ts pre p" and g: "gP pre ps va us"
  defines "q \<equiv> activate (drop (length (actvars p)) ps) p"
  shows "\<exists>vs. length vs = length ps + (if va then 1 else 0) \<and> run M K p0 ts vs (if va then activate [''arg''] q else q)"
proof -
  obtain ys where ys: "ps = pre @ ys" using gP_prefix [OF g] by blast
  have "run M K p0 ts ps q"
    using run_activate [OF r, of ys] by (simp add: q_def run_vars [OF r] ys)
  then show ?thesis using run_activate [of M K p0 ts ps q "[''arg'']"] by (auto intro: exI [of _ ps] exI [of _ "ps @ [''arg'']"])
qed

lemma func_tail_spec:
  assumes r: "run M K p0 [a] pre p" and a: "is_tok LPAREN a" and pre: "length pre \<le> 1"
  shows "res (func_tail pb K l pre p) (\<lambda>f p'. \<exists>us vs q. run M K p0 us vs q \<and> gF pre f us \<and>
     p' = q\<lparr>p_alloc := p_alloc q + 1, p_fs := tl (p_fs q)\<rparr>)"
proof -
  have params: "res (if \<not> match RPAREN p then param_loop K pre p else Ok (pre, False) p) (\<lambda>(ps, va) p'.
      \<exists>us. run M K p0 (a # us) pre p' \<and> gP pre ps va us \<and> length ps + (if va then 1 else 0) \<le> 200)"
    using r param_loop_spec [of p0 "[a]" "[]" pre p K "[]" pre] run_real [OF r] pre
    by (auto intro: gP_none gO.intros elim!: res_mono)
  show ?thesis
    unfolding func_tail_def Let_def
  proof (rule res_bind_pair [OF params], elim exE conjE, unfold prod.case)
    fix ps va p1 us
    assume p1: "run M K p0 (a # us) pre p1" and g: "gP pre ps va us" and n: "length ps + (if va then 1 else 0) \<le> 200"
    obtain vs where vs: "length vs = length ps + (if va then 1 else 0)"
      and p2: "run M K p0 (a # us) vs (if va then activate [''arg''] (activate (drop (length (actvars p1)) ps) p1)
        else activate (drop (length (actvars p1)) ps) p1)"
      using run_params [OF p1 g] by blast
    let ?Q = "\<lambda>f p'. \<exists>us vs q. run M K p0 us vs q \<and> gF pre f us \<and> p' = q\<lparr>p_alloc := p_alloc q + 1, p_fs := tl (p_fs q)\<rparr>"
    show "res (bindP (expect RPAREN (if va then activate [''arg''] (activate (drop (length (actvars p1)) ps) p1)
          else activate (drop (length (actvars p1)) ps) p1))
        (\<lambda>_ p. bindP (in_scope pb (p\<lparr>p_insideVararg := va, p_loopDepth := 0\<rparr>))
          (\<lambda>body q. bindP (expectMatch KW_END KW_FUNCTION l (q\<lparr>p_insideVararg := p_insideVararg p, p_loopDepth := p_loopDepth p\<rparr>))
            (\<lambda>_ r. Ok (FuncExpr (p_alloc r) l ps va False body
                (tok_line (q\<lparr>p_insideVararg := p_insideVararg p, p_loopDepth := p_loopDepth p\<rparr>)))
              (r\<lparr>p_alloc := p_alloc r + 1, p_fs := tl (p_fs r)\<rparr>))))) ?Q"
      apply (rule bind_expect [OF p2], rule res_bind [OF rescope_spec], assumption, simp, elim exE conjE)
      apply (erule bind_expectMatch, rule res_Ok)
      subgoal for t1 p2 b p3 ws ss e m t2 p4
        using gF [OF a g, of t1 ss ws m t2 "p_alloc p4" l e] n vs
        by (fastforce intro: exI [of _ "a # us @ t1 # ws @ [t2]"])
      done
  qed
qed

lemma parseFuncBody_spec:
  assumes r: "run M K p0 ts vs p"
  shows "res (parseFuncBody pb K l isMethod p) (\<lambda>f p'. \<exists>us. run M K p0 (ts @ us) vs p' \<and>
     gF (if isMethod then [''self''] else []) f us)"
proof -
  define q where "q = p\<lparr>p_fs := \<lparr>fs_lineDefined = l, fs_actvars = [], fs_upvals = []\<rparr> # p_fs p\<rparr>"
  let ?pre = "if isMethod then [''self''] else []"
  have q: "p_lx q = p_lx p" "buf q = buf p" "actvars q = []" by (simp_all add: q_def buf_def actvars_def)
  have "run M K q [] [] q"
    using run_start [OF r q(1,2), of M] r q(3) by (auto simp: run_def shape_def q_def)
  then have "res (parseFuncBody pb K l isMethod p) (\<lambda>f p'. \<exists>us vs' r. run M K q us vs' r \<and> gF ?pre f us \<and>
      p' = r\<lparr>p_alloc := p_alloc r + 1, p_fs := tl (p_fs r)\<rparr>)"
    unfolding parseFuncBody_tail q_def [symmetric]
  proof (rule bind_expect)
    fix t p1
    assume p1: "run M K q ([] @ [t]) [] p1" and t: "is_tok LPAREN t"
    have "run M K q [t] ?pre (if isMethod then activate [''self''] p1 else p1)"
      using p1 run_activate [of M K q "[t]" "[]" p1 "[''self'']"] by simp
    then show "res (func_tail pb K l ?pre (if isMethod then activate [''self''] p1 else p1)) (\<lambda>f p'. \<exists>us vs' r. run M K q us vs' r \<and>
        gF ?pre f us \<and> p' = r\<lparr>p_alloc := p_alloc r + 1, p_fs := tl (p_fs r)\<rparr>)"
      by (rule func_tail_spec [OF _ t]) simp
  qed
  then show ?thesis
  proof (rule res_mono, elim exE conjE)
    fix f p' us vs' b
    assume b: "run M K q us vs' b" and g: "gF ?pre f us" and p': "p' = b\<lparr>p_alloc := p_alloc b + 1, p_fs := tl (p_fs b)\<rparr>"
    have s: "map fs_actvars (tl (p_fs b)) = map fs_actvars (p_fs p)" "shape p' = shape p"
      using run_fs [OF b] by (auto simp: shape_def q_def p' map_tl)
    have n: "p_fs p' \<noteq> []" "actvars p' = vs"
      using s(1) r by (auto simp: p' run_def actvars_def neq_Nil_conv)
    have "run M K p0 (ts @ us) (actvars p') p'"
      using s n by (intro run_back [OF r q(1,2) b]) (auto simp: p' buf_def)
    then show "\<exists>us. run M K p0 (ts @ us) vs p' \<and> gF ?pre f us" using n g by auto
  qed
qed

lemmas bind_func = res_bind [OF parseFuncBody_spec]

section \<open>Prefix expressions\<close>

lemma parseArgs_spec:
  "run M K p0 ts vs p \<Longrightarrow> res (parseArgs pe K p) (\<lambda>(es, ends) p'. \<exists>us. run M K p0 (ts @ us) vs p' \<and>
     gA (p_insideVararg p0) es us)"
  by (auto simp: parseArgs_def match_def Let_def elim!: forward bind_list bind_table)
    (blast intro: gE_gL_gA_gT_gF_gS_gI_gC.intros)+

lemmas bind_args = res_bind_pair [OF parseArgs_spec]

lemma gA_real: "gA va es us \<Longrightarrow> 0 < real_toks us"
  by (erule gA.cases) auto

lemma prefix_loop_spec:
  "run M K p0 (ts @ us) vs p \<Longrightarrow> remaining p0 < real_toks (ts @ us) + k \<Longrightarrow> gE (p_insideVararg p0) e us \<Longrightarrow> is_prefix e \<Longrightarrow>
   res (prefix_loop pe K k e p) (\<lambda>e' p'. \<exists>ws. run M K p0 (ts @ ws) vs p' \<and> gE (p_insideVararg p0) e' ws \<and> is_prefix e')"
proof (induction k arbitrary: us e p)
  case 0
  then show ?case using run_real [OF 0(1)] by simp
next
  case (Suc k)
  then show ?case
    by (auto simp: match_def Let_def elim!: forward bind_pe bind_args)
      (blast | rule Suc.IH, assumption, (frule gA_real)?, simp, (intro gE_Field gE_Index gE_Call gE_Method; assumption), simp)+
qed

lemma parsePrefixExpr_spec:
  assumes r: "run M K p0 ts vs p"
  shows "res (parsePrefixExpr pe K p) (\<lambda>e p'. \<exists>us. run M K p0 (ts @ us) vs p' \<and> gE (p_insideVararg p0) e us \<and> is_prefix e)"
proof -
  have "res (parsePrimary pe p) (\<lambda>e p'. \<exists>us. run M K p0 (ts @ us) vs p' \<and> gE (p_insideVararg p0) e us \<and> is_prefix e)"
    using r by (auto simp: parsePrimary_def match_def Let_def elim!: forward bind_pe) (force intro: gE_Name gE_Paren)+
  then show ?thesis
    unfolding parsePrefixExpr_def
    by (rule res_bind) (use run_real in \<open>fastforce intro: prefix_loop_spec\<close>)
qed

lemmas bind_prefix = res_bind [OF parsePrefixExpr_spec]

section \<open>Operators\<close>

lemma prefix_atom: "is_prefix e \<Longrightarrow> fits lim e \<and> closes pr e"
  by (cases e) auto

lemma parseSimpleExpr_spec:
  assumes r: "run M K p0 ts vs p"
  shows "res (parseSimpleExpr pe pb K p) (\<lambda>e p'. \<exists>us. run M K p0 (ts @ us) vs p' \<and>
     gE (p_insideVararg p0) e us \<and> (\<forall>lim. fits lim e) \<and> (\<forall>pr. closes pr e))" (is "res _ ?Q")
proof -
  have pre: "res (parsePrefixExpr pe K p) ?Q"
    by (rule res_mono [OF parsePrefixExpr_spec [OF r]]) (blast dest: prefix_atom)
  have tab: "res (parseTableExpr pe K p) ?Q"
    by (rule res_mono [OF parseTableExpr_spec [OF r]]) (fastforce intro: gE_Table)
  show ?thesis
    using r run_vararg [OF r, THEN iffD1]
    by (cases "tok_kind p"; simp add: parseSimpleExpr_def Let_def pre tab; auto elim!: bind_next bind_func)
      (blast intro: gE_gL_gA_gT_gF_gS_gI_gC.intros)+
qed

lemmas bind_simple = res_bind [OF parseSimpleExpr_spec]

lemma parseOperand_spec:
  "run M K p0 ts vs p \<Longrightarrow> res (parseOperand pe pb K p) (\<lambda>e p'. \<exists>us. run M K p0 (ts @ us) vs p' \<and>
     gE (p_insideVararg p0) e us \<and> (\<forall>lim. fits lim e) \<and>
     (\<forall>op. tokenToBinOp (tok_kind p') = Some op \<longrightarrow> closes (grip_left op) e))"
  by (auto simp: parseOperand_def Let_def split: option.split elim!: bind_next bind_pe intro!: parseSimpleExpr_spec [THEN res_mono])
    (blast intro: gE_Un)

lemmas bind_operand = res_bind [OF parseOperand_spec]

lemma binop_loop_spec:
  "run M K p0 (ts @ us) vs p \<Longrightarrow> remaining p0 < real_toks (ts @ us) + k \<Longrightarrow> gE (p_insideVararg p0) e us \<Longrightarrow> fits (grip_of lim) e \<Longrightarrow>
   \<forall>op. tokenToBinOp (tok_kind p) = Some op \<longrightarrow> closes (grip_left op) e \<Longrightarrow>
   res (binop_loop pe k lim e p) (\<lambda>e' p'. \<exists>ws. run M K p0 (ts @ ws) vs p' \<and> gE (p_insideVararg p0) e' ws \<and> fits (grip_of lim) e' \<and>
     (\<forall>op. tokenToBinOp (tok_kind p') = Some op \<longrightarrow> grip_left op \<le> grip_of lim \<and> closes (grip_left op) e'))"
proof (induction k arbitrary: us e p)
  case 0
  then show ?case using run_real [OF 0(1)] by simp
next
  case (Suc k)
  then show ?case
    by (auto simp: Let_def grip_limit split: option.split elim!: bind_next bind_pe)
      (blast | rule Suc.IH, assumption, simp add: binop_real, (rule gE_Bin; assumption), simp, simp)+
qed

lemmas bind_binop = res_bind [OF binop_loop_spec]

text \<open>One level of the expression parser keeps the contract one level further from the depth limit.\<close>

lemma deeper:
  assumes r: "run (Suc M) K p0 ts vs p" and e: "enterDepth p = Ok u q"
  shows "run M K q [] vs q \<and> p_lx q = p_lx p \<and> buf q = buf p \<and> p_insideVararg q = p_insideVararg p0 \<and>
    p_loopDepth q = p_loopDepth p0"
proof -
  have q: "q = p\<lparr>p_depth := p_depth p + 1\<rparr>" and l: "p_depth p + 1 \<le> p_depthLimit p" using e by (auto simp: enterDepth_def Let_def split: if_splits)
  have "run M K q [] (actvars q) q"
    using r l by (intro run_start [OF r]) (auto simp: run_def shape_def q buf_def)
  then show ?thesis using r by (auto simp: run_def shape_def q buf_def actvars_def)
qed

lemma shallower:
  assumes r: "run (Suc M) K p0 ts vs p" and e: "enterDepth p = Ok u q" and b: "run M K q us ws q'"
  shows "run (Suc M) K p0 (ts @ us) ws (leaveDepth q')"
proof -
  have q: "q = p\<lparr>p_depth := p_depth p + 1\<rparr>" using e by (auto simp: enterDepth_def Let_def split: if_splits)
  have "run (Suc M) K p0 (ts @ us) (actvars (leaveDepth q')) (leaveDepth q')"
    using run_fs [OF b] deeper [OF r e] by (intro run_back [OF r _ _ b]) (auto simp: leaveDepth_def buf_def shape_def q)
  then show ?thesis using run_vars [OF b] by (simp add: leaveDepth_def actvars_def)
qed

lemma bind_enter:
  assumes "\<And>q. enterDepth p = Ok () q \<Longrightarrow> res (f () q) Q"
  shows "res (bindP (enterDepth p) f) Q"
  using assms by (auto simp: enterDepth_def Let_def)

lemma expr_step_spec:
  assumes r: "run (Suc M) K p0 ts vs p"
  shows "res (expr_step pe pb K lim p) (expr_parsed (Suc M) K p0 ts vs lim)"
  unfolding expr_step_def
proof (rule bind_enter)
  fix q
  assume q: "enterDepth p = Ok () q"
  note d = deeper [OF r q]
  have "res (bindP (parseOperand pe pb K q) (binop_loop pe K lim)) (expr_parsed M K q [] vs lim)"
  proof (rule bind_operand [OF d [THEN conjunct1]], elim exE conjE)
    fix e p1 us
    assume "run M K q ([] @ us) vs p1" "gE (p_insideVararg q) e us" "\<forall>lim. fits lim e"
      "\<forall>op. tokenToBinOp (tok_kind p1) = Some op \<longrightarrow> closes (grip_left op) e"
    then show "res (binop_loop pe K lim e p1) (expr_parsed M K q [] vs lim)"
      using run_real by (intro binop_loop_spec [of q "[]" us]) fastforce+
  qed
  then have "res (bindP (bindP (parseOperand pe pb K q) (binop_loop pe K lim)) (\<lambda>e p. Ok e (leaveDepth p)))
      (expr_parsed (Suc M) K p0 ts vs lim)"
    using shallower [OF r q] d by (elim res_bind) (auto simp: leaveDepth_def)
  then show "res (bindP (parseOperand pe pb K q) (\<lambda>e p. bindP (binop_loop pe K lim e p) (\<lambda>e p. Ok e (leaveDepth p))))
      (expr_parsed (Suc M) K p0 ts vs lim)"
    by (simp add: res_bindP)
qed

end

end
