(* ===== verification/ParserStmtSpec.thy ===== *)
theory ParserStmtSpec
  imports ParserExprSpec
begin

text \<open>
  The functions of \<open>stmt.go\<close> and the blocks, under the same contract. A statement is derived by the grammar
  and extends the active locals by those it declares.
\<close>

lemma gO_gN: "gO ys us \<Longrightarrow> is_tok NAME t \<Longrightarrow> gN (ys @ [tk_Str t]) (us @ [t])"
proof (induction arbitrary: t rule: gO.induct)
  case 1
  then show ?case using gN_one [of t] by simp
next
  case (2 xs ts t' c)
  then show ?case using gN_more [OF 2(4) [OF 2(2)] 2(3) 2(5)] by simp
qed

abbreviation stmt_parsed :: "nat \<Rightarrow> nat \<Rightarrow> parser \<Rightarrow> token list \<Rightarrow> string list \<Rightarrow> stmt \<Rightarrow> parser \<Rightarrow> bool" where
  "stmt_parsed M K p0 ts vs s p \<equiv> \<exists>us ws. run M K p0 (ts @ us) (vs @ ws) p \<and>
     gS (p_insideVararg p0) (0 < p_loopDepth p0) (length vs) s us (length vs + length ws) \<and> 0 < real_toks us"

lemma stmt_same: "run M K p0 (ts @ us) vs p \<Longrightarrow> gS (p_insideVararg p0) (0 < p_loopDepth p0) (length vs) s us (length vs) \<Longrightarrow>
    0 < real_toks us \<Longrightarrow> stmt_parsed M K p0 ts vs s p"
  by (intro exI [of _ us] exI [of _ "[]"]) simp

lemma stmt_more: "run M K p0 (ts @ us) (vs @ ws) p \<Longrightarrow> gS (p_insideVararg p0) (0 < p_loopDepth p0) (length vs) s us n \<Longrightarrow>
    n = length vs + length ws \<Longrightarrow> 0 < real_toks us \<Longrightarrow> stmt_parsed M K p0 ts vs s p"
  by blast

text \<open>A for statement before its variables go out of scope.\<close>

definition for_parsed :: "nat \<Rightarrow> nat \<Rightarrow> parser \<Rightarrow> token list \<Rightarrow> string list \<Rightarrow> stmt \<Rightarrow> parser \<Rightarrow> bool" where
  "for_parsed M K p0 ts vs s p \<longleftrightarrow> (\<exists>us ws. run M K p0 (ts @ us) (vs @ ws) p \<and>
     gS (p_insideVararg p0) (0 < p_loopDepth p0) (length vs) s us (length vs) \<and> 0 < real_toks us)"

lemma for_more: "run M K p0 (ts @ us) (vs @ ws) p \<Longrightarrow> gS (p_insideVararg p0) (0 < p_loopDepth p0) (length vs) s us (length vs) \<Longrightarrow>
    0 < real_toks us \<Longrightarrow> for_parsed M K p0 ts vs s p"
  unfolding for_parsed_def by blast

text \<open>Remembering the locals, and going back to them.\<close>

lemma bind_next_saved: "run M K p0 ts vs p \<Longrightarrow>
    (\<And>p'. run M K p0 (ts @ [p_tok p]) vs p' \<Longrightarrow> length (actvars p') = length vs \<Longrightarrow> res (f () p') Q) \<Longrightarrow>
    res (bindP (nextTok p) f) Q"
  using run_vars by (elim bind_next) blast

lemma run_saved: "run M K p0 ts (vs @ ws) p \<Longrightarrow> run M K p0 ts vs (set_actvars (take (length vs) (actvars p)) p)"
  using run_set_actvars [of M K p0 ts "vs @ ws" p vs] by (simp add: run_vars)

text \<open>The body of a loop, for any block parser.\<close>

lemma loop_body_via:
  assumes r: "run M K p0 ts vs p"
    and f: "\<And>q. run M K q [] vs q \<Longrightarrow> res (f q) (\<lambda>b q'. \<exists>us ws. run M K q us ws q' \<and>
      G (p_insideVararg q) (0 < p_loopDepth q) b us ws)"
  shows "res (loop_body f p) (\<lambda>b p'. \<exists>us ws. run M K p0 (ts @ us) ws p' \<and> G (p_insideVararg p0) True b us ws)"
proof -
  let ?q = "p\<lparr>p_loopDepth := p_loopDepth p + 1\<rparr>"
  have q: "?q = p\<lparr>p_insideVararg := p_insideVararg p, p_loopDepth := p_loopDepth p + 1\<rparr>" by simp
  have l: "0 \<le> p_loopDepth p" using run_loop [OF r] by simp
  note w = run_within [OF r, of "p_loopDepth p + 1" "p_insideVararg p", folded q]
  show ?thesis
    unfolding loop_body_def
  proof (rule res_bind [OF f], rule w, use l in simp, elim exE conjE, rule res_Ok)
    fix b q' us ws
    assume q': "run M K ?q us ws q'" and g: "G (p_insideVararg ?q) (0 < p_loopDepth ?q) b us ws"
    have "p_insideVararg q' = p_insideVararg p" "p_loopDepth q' = p_loopDepth p + 1"
      using run_fs [OF q'] by (auto simp: shape_def)
    then have e: "q'\<lparr>p_insideVararg := p_insideVararg p, p_loopDepth := p_loopDepth p\<rparr> =
        q'\<lparr>p_loopDepth := p_loopDepth q' - 1\<rparr>"
      by (cases q') simp
    have "run M K p0 (ts @ us) ws (q'\<lparr>p_loopDepth := p_loopDepth q' - 1\<rparr>)"
      using w(2) [OF _ q'] l e by simp
    moreover have "G (p_insideVararg p0) True b us ws" using g l run_vararg [OF r] by simp
    ultimately show "\<exists>us ws. run M K p0 (ts @ us) ws (q'\<lparr>p_loopDepth := p_loopDepth q' - 1\<rparr>) \<and>
        G (p_insideVararg p0) True b us ws" by blast
  qed
qed

lemma expr_real: "gE va e us \<Longrightarrow> 0 < real_toks us" "gL va es us \<Longrightarrow> 0 < real_toks us"
  using inner_phrases(1) [of va e us] inner_phrases(2) [of va es us] inner_real [of us] by auto

text \<open>The statements of a block, from the ones parsed so far.\<close>

definition stmts_parsed :: "nat \<Rightarrow> nat \<Rightarrow> parser \<Rightarrow> token list \<Rightarrow> string list \<Rightarrow> stmt list \<Rightarrow> stmt list \<Rightarrow> parser \<Rightarrow> bool" where
  "stmts_parsed M K p0 ts vs stmts stmts' p \<longleftrightarrow> (\<exists>us ws ss. run M K p0 (ts @ us) (vs @ ws) p \<and> stmts' = stmts @ ss \<and>
     gC (p_insideVararg p0) (0 < p_loopDepth p0) (length vs) ss us (length vs + length ws))"

lemma stmts_last: "run M K p0 (ts @ us) vs p \<Longrightarrow> gC (p_insideVararg p0) (0 < p_loopDepth p0) (length vs) ss us (length vs) \<Longrightarrow>
    stmts_parsed M K p0 ts vs stmts (stmts @ ss) p"
  unfolding stmts_parsed_def by (intro exI [of _ us] exI [of _ "[]"] exI [of _ ss]) simp

lemma stmts_next:
  assumes "stmts_parsed M K p0 (ts @ us @ cs) (vs @ ws) (stmts @ [s]) stmts' p"
    and "gS (p_insideVararg p0) (0 < p_loopDepth p0) (length vs) s us (length vs + length ws)"
    and "cs = [] \<or> (\<exists>c. cs = [c] \<and> is_tok SEMI c)"
  shows "stmts_parsed M K p0 ts vs stmts stmts' p"
proof -
  obtain us' ws' ss where r: "run M K p0 ((ts @ us @ cs) @ us') ((vs @ ws) @ ws') p" "stmts' = (stmts @ [s]) @ ss"
    and g: "gC (p_insideVararg p0) (0 < p_loopDepth p0) (length (vs @ ws)) ss us' (length (vs @ ws) + length ws')"
    using assms(1) unfolding stmts_parsed_def by blast
  have "gC (p_insideVararg p0) (0 < p_loopDepth p0) (length vs) (s # ss) (us @ cs @ us') (length vs + length (ws @ ws'))"
    using assms(2,3) g by (auto simp: add.assoc intro: gC_stmt gC_stmt_semi)
  with r show ?thesis unfolding stmts_parsed_def by (intro exI [of _ "us @ cs @ us'"] exI [of _ "ws @ ws'"] exI [of _ "s # ss"]) simp
qed

context sub_parsers
begin

section \<open>Locals\<close>

lemma name_loop_spec:
  "run M K p0 (ts @ us) vs p \<Longrightarrow> remaining p0 < real_toks (ts @ us) + k \<Longrightarrow> gO names us \<Longrightarrow>
   res (name_loop k 0 names p) (\<lambda>names' p'. \<exists>ws. run M K p0 (ts @ ws) vs p' \<and> gN names' ws \<and>
     length vs + length names' \<le> 200)"
proof (induction k arbitrary: us names p)
  case 0
  then show ?case using run_real [OF 0(1)] by simp
next
  case (Suc k)
  then show ?case
    by (auto simp: Let_def elim!: forward bind_consume)
      (force intro: gO_gN | rule Suc.IH, assumption, simp, simp add: gO_snoc)+
qed

lemma name_list_spec:
  "run M K p0 ts vs p \<Longrightarrow> res (name_loop K 0 [] p) (\<lambda>names p'. \<exists>us. run M K p0 (ts @ us) vs p' \<and> gN names us \<and>
     length vs + length names \<le> 200)"
  using name_loop_spec [of p0 ts "[]" vs p K "[]"] run_real gO.intros(1) by fastforce

lemmas bind_names = res_bind [OF name_list_spec]

lemma parseLocal_spec:
  "run M K p0 ts vs p \<Longrightarrow> tok_kind p = KW_LOCAL \<Longrightarrow> res (parseLocal pe pb K p) (stmt_parsed M K p0 ts vs)"
  apply (auto simp: parseLocal_def match_def Let_def elim!: forward bind_names bind_list bind_func [OF run_activate]
      intro!: bind_nested bind_Ok)
  subgoal by (erule stmt_more, (rule gS_LocalFunc; simp), simp_all)
  subgoal by (drule run_activate, erule stmt_more, (rule gS_LocalInit; assumption), simp_all)
  subgoal by (drule run_activate, erule stmt_more, (rule gS_Local; assumption), simp_all)
  done

section \<open>Loops\<close>

lemma loop_body_spec:
  assumes r: "run M K p0 ts vs p"
  shows "res (loop_body pb p) (\<lambda>b p'. \<exists>us ws ss l. b = Block ss l \<and> run M K p0 (ts @ us) (vs @ ws) p' \<and>
     gC (p_insideVararg p0) True (length vs) ss us (length vs + length ws))"
  by (rule res_mono [OF loop_body_via [OF r, where G = "\<lambda>v lp b us us'. \<exists>ws ss l. us' = vs @ ws \<and> b = Block ss l \<and>
        gC v lp (length vs) ss us (length vs + length ws)"]], rule res_mono [OF pb_spec], assumption)
    fastforce+

lemma loop_scope_spec:
  assumes r: "run M K p0 ts vs p"
  shows "res (loop_body (in_scope pb) p) (\<lambda>b p'. \<exists>us ss l n. b = Block ss l \<and> run M K p0 (ts @ us) vs p' \<and>
     gC (p_insideVararg p0) True (length vs) ss us n)"
  by (rule res_mono [OF loop_body_via [OF r, where G = "\<lambda>v lp b us us'. \<exists>ss l n. us' = vs \<and> b = Block ss l \<and>
        gC v lp (length vs) ss us n"]], rule res_mono [OF in_scope_spec], assumption)
    fastforce+

lemmas bind_loop = res_bind [OF loop_scope_spec] and bind_repeat = res_bind [OF loop_body_spec]

lemma parseWhile_spec:
  "run M K p0 ts vs p \<Longrightarrow> tok_kind p = KW_WHILE \<Longrightarrow> res (parseWhile pe pb p) (stmt_parsed M K p0 ts vs)"
  by (auto simp: parseWhile_def Let_def elim!: forward bind_pe bind_loop)
    (erule stmt_same, (rule gS_While; assumption), simp)

lemma parseDo_spec:
  "run M K p0 ts vs p \<Longrightarrow> tok_kind p = KW_DO \<Longrightarrow> res (parseDo pb p) (stmt_parsed M K p0 ts vs)"
  by (auto simp: parseDo_def Let_def elim!: forward bind_in_scope)
    (erule stmt_same, (rule gS_Do; assumption), simp)

lemma parseRepeat_spec:
  "run M K p0 ts vs p \<Longrightarrow> tok_kind p = KW_REPEAT \<Longrightarrow> res (parseRepeat pe pb p) (stmt_parsed M K p0 ts vs)"
  by (auto simp: parseRepeat_def Let_def elim!: bind_next_saved bind_expectMatch bind_pe bind_repeat)
    (drule run_saved, erule stmt_same, (rule gS_Repeat; assumption), simp)

section \<open>Conditionals\<close>

lemma if_loop_spec:
  "run M K p0 (ts @ us) vs p \<Longrightarrow> remaining p0 < real_toks (ts @ us) + k \<Longrightarrow>
   clauses = [] \<and> us = [] \<or> (\<exists>ws a. us = ws @ [a] \<and> is_tok KW_ELSEIF a \<and>
     gI (p_insideVararg p0) (0 < p_loopDepth p0) (length vs) clauses ws) \<Longrightarrow>
   res (if_loop pe pb k clauses p) (\<lambda>cs p'. \<exists>ws. run M K p0 (ts @ ws) vs p' \<and>
     gI (p_insideVararg p0) (0 < p_loopDepth p0) (length vs) cs ws)"
proof (induction k arbitrary: us clauses p)
  case 0
  then show ?case using run_real [OF 0(1)] by simp
next
  case (Suc k)
  have one: "gI (p_insideVararg p0) (0 < p_loopDepth p0) (length vs) (clauses @ [IfClause e (Block ss l) l']) (us @ xs @ d # ys)"
    if "gE (p_insideVararg p0) e xs" "fits 0 e" "is_tok KW_THEN d"
      "gC (p_insideVararg p0) (0 < p_loopDepth p0) (length vs) ss ys n" for e ss l l' xs d ys n
    using Suc.prems(3) that by (auto intro: gI_one gI_more)
  from Suc.prems(1,2) show ?case
    by (auto simp: match_def Let_def elim!: forward bind_pe bind_in_scope)
      (blast intro: one | rule Suc.IH, assumption, simp, simp add: one)+
qed

lemma if_list_spec:
  "run M K p0 ts vs p \<Longrightarrow> res (if_loop pe pb K [] p) (\<lambda>cs p'. \<exists>us. run M K p0 (ts @ us) vs p' \<and>
     gI (p_insideVararg p0) (0 < p_loopDepth p0) (length vs) cs us)"
  using if_loop_spec [of p0 ts "[]" vs p K "[]"] run_real by fastforce

lemmas bind_clauses = res_bind [OF if_list_spec]

lemma parseIf_spec:
  "run M K p0 ts vs p \<Longrightarrow> tok_kind p = KW_IF \<Longrightarrow> res (parseIf pe pb K p) (stmt_parsed M K p0 ts vs)"
  by (auto simp: parseIf_def match_def Let_def elim!: forward bind_clauses bind_in_scope intro!: bind_nested bind_Ok)
    (erule stmt_same, (rule gS_If gS_IfElse; assumption), simp)+

section \<open>For loops\<close>

lemma bind_four: "run M K p0 ts vs p \<Longrightarrow> (run M K p0 ts vs p \<Longrightarrow> length vs + 4 \<le> 200 \<Longrightarrow> res (f () p) Q) \<Longrightarrow>
    res (bindP (checkFourLocals p) f) Q"
  by (auto simp: checkFourLocals_def elim!: bind_limit intro!: bind_nested)

lemma for_names_spec:
  "run M K p0 (ts @ us) vs p \<Longrightarrow> remaining p0 < real_toks (ts @ us) + k \<Longrightarrow> gN names us \<Longrightarrow>
   length vs + length names \<le> 197 \<Longrightarrow>
   res (for_names k names p) (\<lambda>names' p'. \<exists>ws. run M K p0 (ts @ ws) vs p' \<and> gN names' ws \<and>
     length vs + length names' \<le> 197)"
proof (induction k arbitrary: us names p)
  case 0
  then show ?case using run_real [OF 0(1)] by simp
next
  case (Suc k)
  then show ?case
    by (auto simp: match_def Let_def elim!: forward) (rule Suc.IH, assumption, simp, simp add: gN_more, simp)
qed

lemmas bind_for_names = res_bind [OF for_names_spec]

text \<open>The two loops from the token after the first name on; the tokens \<open>[a, t]\<close> are \<open>for\<close> and the name.\<close>

lemma parseNumFor_spec:
  "run M K p0 (ts @ [a, t]) vs p \<Longrightarrow> is_tok KW_FOR a \<Longrightarrow> is_tok NAME t \<Longrightarrow> tok_kind p = EQ \<Longrightarrow>
   res (parseNumFor pe pb l (tk_Str t) p) (for_parsed M K p0 ts vs)"
  by (auto simp: parseNumFor_def match_def Let_def elim!: bind_four forward bind_pe bind_loop [OF run_activate]
      intro!: bind_nested bind_Ok)
    (erule for_more, (rule gS_NumFor gS_NumForStep; (assumption | simp add: eval_nat_numeral)), simp)+

lemma parseGenFor_spec:
  "run M K p0 (ts @ [a, t]) vs p \<Longrightarrow> is_tok KW_FOR a \<Longrightarrow> is_tok NAME t \<Longrightarrow> remaining p0 < K \<Longrightarrow>
   res (parseGenFor pe pb K l (tk_Str t) p) (for_parsed M K p0 ts vs)"
  unfolding parseGenFor_def Let_def
  apply (rule bind_four, assumption)
  apply (rule bind_for_names [of p0 "ts @ [a]" "[t]"], simp, simp, simp add: gN_one, simp, elim exE conjE)
  apply (auto elim!: forward bind_list bind_loop [OF run_activate [OF run_activate]])
  apply (erule for_more, (rule gS_GenFor; (assumption | simp add: eval_nat_numeral)), simp)
  done

lemma for_end:
  assumes r: "run M K p0 us vs q" and f: "res r (for_parsed M K p0 ts vs)"
  shows "res (bindP r (\<lambda>s p. Ok s (set_actvars (take (length (actvars q)) (actvars p)) p))) (stmt_parsed M K p0 ts vs)"
  using f by (rule res_bind) (auto simp: for_parsed_def run_vars [OF r] dest!: run_saved elim!: stmt_same)

lemma parseFor_spec:
  "run M K p0 ts vs p \<Longrightarrow> tok_kind p = KW_FOR \<Longrightarrow> res (parseFor pe pb K p) (stmt_parsed M K p0 ts vs)"
  by (auto simp: parseFor_def match_def Let_def elim!: forward)
    (rule for_end, assumption, (rule parseNumFor_spec parseGenFor_spec; (assumption | simp add: run_real)))+

section \<open>Functions\<close>

lemma funcname_loop_spec:
  "run M K p0 (ts @ us) vs p \<Longrightarrow> remaining p0 < real_toks (ts @ us) + k \<Longrightarrow> gD e us \<Longrightarrow>
   res (funcname_loop k e p) (\<lambda>e' p'. \<exists>ws. run M K p0 (ts @ ws) vs p' \<and> gD e' ws)"
proof (induction k arbitrary: us e p)
  case 0
  then show ?case using run_real [OF 0(1)] by simp
next
  case (Suc k)
  then show ?case
    by (auto simp: match_def Let_def elim!: forward) (rule Suc.IH, assumption, simp, simp add: gD_field)
qed

lemmas bind_funcname = res_bind [OF funcname_loop_spec]

lemma parseFunctionStmt_spec:
  assumes r: "run M K p0 ts vs p" and k: "tok_kind p = KW_FUNCTION"
  shows "res (parseFunctionStmt pb K p) (stmt_parsed M K p0 ts vs)"
  using r k
  apply (auto simp: parseFunctionStmt_def match_def Let_def elim!: forward)
  apply (rule bind_funcname [where ts = "ts @ [p_tok p]" and us = "[t]" for t], simp, use run_real [OF r] in simp, simp add: gD_name)
  apply (auto simp: match_def elim!: forward bind_func intro!: bind_nested bind_Ok)
  apply (erule stmt_same, (rule gS_Func gS_Method; assumption), simp)+
  done

section \<open>Expression statements\<close>

lemma assignable_prefix: "isAssignable e \<Longrightarrow> is_prefix e"
  by (cases e) auto

lemma target_loop_spec:
  "run M K p0 (ts @ us) vs p \<Longrightarrow> remaining p0 < real_toks (ts @ us) + k \<Longrightarrow> gL (p_insideVararg p0) targets us \<Longrightarrow>
   list_all isAssignable targets \<Longrightarrow>
   res (target_loop pe K k targets p) (\<lambda>es p'. \<exists>ws. run M K p0 (ts @ ws) vs p' \<and> gL (p_insideVararg p0) es ws \<and>
     list_all isAssignable es)"
proof (induction k arbitrary: us targets p)
  case 0
  then show ?case using run_real [OF 0(1)] by simp
next
  case (Suc k)
  then show ?case
    apply (auto simp: match_def Let_def elim!: forward bind_prefix) 
    apply (rule Suc.IH, assumption, simp, simp add: gL_more prefix_atom, simp)
    done
qed

lemmas bind_targets = res_bind [OF target_loop_spec]

lemma parseExprStmt_spec:
  assumes r: "run M K p0 ts vs p"
  shows "res (parseExprStmt pe K p) (stmt_parsed M K p0 ts vs)"
  using r
  apply (auto simp: parseExprStmt_def Let_def elim!: bind_prefix)
    apply (erule stmt_same, (rule gS_Call; assumption), erule expr_real)+
  apply (rule bind_targets, assumption, use run_real [OF r] in simp, simp add: gL_one prefix_atom, simp, elim exE conjE)
  apply (erule forward bind_list exE conjE | simp only: append_assoc append_Cons append_Nil prod.case)+
  apply (rule res_Ok, erule stmt_same, (rule gS_Assign; assumption), simp)
  done

lemma parseStatement_spec:
  "run M K p0 ts vs p \<Longrightarrow> res (parseStatement pe pb K p) (stmt_parsed M K p0 ts vs)"
  by (cases "tok_kind p")
    (simp_all add: parseStatement_def parseLocal_spec parseIf_spec parseWhile_spec parseDo_spec parseFor_spec
      parseRepeat_spec parseFunctionStmt_spec parseExprStmt_spec)

lemmas bind_statement = res_bind [OF parseStatement_spec]

section \<open>Blocks\<close>

lemma parseReturn_spec:
  "run M K p0 ts vs p \<Longrightarrow> res (parseReturn pe K p) (\<lambda>s p'. \<exists>us. run M K p0 (ts @ p_tok p # us) vs p' \<and>
     (\<exists>l ls es. s = ReturnStmt l ls es \<and> (es = [] \<and> us = [] \<or> gL (p_insideVararg p0) es us)))"
  by (auto simp: parseReturn_def match_def Let_def elim!: bind_next bind_list) force+

lemmas bind_return = res_bind [OF parseReturn_spec]

lemma parseBreak_spec:
  "run M K p0 ts vs p \<Longrightarrow> res (parseBreak p) (\<lambda>s p'. run M K p0 (ts @ [p_tok p]) vs p' \<and>
     0 < p_loopDepth p0 \<and> (\<exists>l. s = BreakStmt l))"
  by (auto simp: parseBreak_def Let_def elim!: bind_next) (drule run_loop, simp)

lemmas bind_break = res_bind [OF parseBreak_spec]

lemma block_loop_spec:
  "run M K p0 ts vs p \<Longrightarrow> remaining p0 < real_toks ts + k \<Longrightarrow>
   res (block_loop (parseStatement pe pb) (parseReturn pe) K k stmts p) (stmts_parsed M K p0 ts vs stmts)"
proof (induction k arbitrary: ts vs stmts p)
  case 0
  then show ?case using run_real [OF 0(1)] by simp
next
  case (Suc k)
  show ?case
  proof (cases "isBlockEnd (tok_kind p) \<or> match SEMI p")
    case True
    then show ?thesis using Suc.prems by (auto intro: gC_none stmts_last [where us = "[]" and ss = "[]", simplified])
  next
    case False
    note e = this
    show ?thesis
    proof (cases "match KW_RETURN p")
      case True
      then show ?thesis
        using Suc.prems(1) e
        by (simp add: match_def, elim bind_return bind_consume exE conjE)
          (auto, (erule stmts_last, (rule gC_return gC_return_list gC_return_semi gC_return_list_semi; assumption))+)
    next
      case False
      note e = e this
      show ?thesis
      proof (cases "match KW_BREAK p")
        case True
        then show ?thesis
          using Suc.prems(1) e
          by (simp add: match_def, elim bind_break bind_consume exE conjE)
            (auto intro!: stmts_last intro: gC_break gC_break_semi)
      next
        case False
        then show ?thesis
          using Suc.prems e
          apply simp
          apply (elim bind_statement bind_consume exE conjE)
          subgoal for s p1 us ws by (rule res_mono [OF Suc.IH], assumption, simp, rule stmts_next [where us = us and cs = "[]" and ws = ws and s = s]) simp_all
          subgoal for s p1 us ws c p2 by (rule res_mono [OF Suc.IH], assumption, simp, rule stmts_next [where us = us and cs = "[c]" and ws = ws and s = s]) simp_all
          done
      qed
    qed
  qed
qed

end

end
