(* ===== verification/ParserSpec.thy ===== *)
theory ParserSpec
  imports ParserStmtSpec
begin

text \<open>
  The parser as a whole: the contract holds at every nesting level, so the functions that call each other
  through it are closed off, and a parse returns, with a tree that the grammar derives from the tokens of
  the source.
\<close>

section \<open>Closing the recursion\<close>

context sub_parsers
begin

lemma block_step_spec:
  assumes r: "run (Suc M) K p0 ts vs p"
  shows "res (block_step pe pb K p) (block_parsed (Suc M) K p0 ts vs)"
  unfolding block_step_def
proof (rule bind_enter)
  fix q
  assume q: "enterDepth p = Ok () q"
  note d = deeper [OF r q]
  have "res (block_loop (parseStatement pe pb) (parseReturn pe) K K [] q) (stmts_parsed M K q [] vs [])"
    using block_loop_spec [of q "[]" vs q K "[]"] d run_real by fastforce
  then show "res (bindP (block_loop (parseStatement pe pb) (parseReturn pe) K K [] q)
      (\<lambda>stmts p. Ok (Block stmts (p_lastLine p)) (leaveDepth p))) (block_parsed (Suc M) K p0 ts vs)"
    using shallower [OF r q] d by (elim res_bind) (fastforce simp: stmts_parsed_def leaveDepth_def)
qed

end

lemma run_0: "\<not> run 0 K p0 ts vs p"
  by (simp add: run_def)

text \<open>\<open>n\<close> levels of recursion are enough for a state at most \<open>n\<close> levels from the depth limit.\<close>

lemma sub_parsers_n: "sub_parsers (parseExpr n K) (parseBlockKeepScope n K) n K"
proof (induction n)
  case 0
  then show ?case by unfold_locales (simp_all add: run_0)
next
  case (Suc n)
  then show ?case
    by (unfold_locales, unfold parseExpr.simps parseBlockKeepScope.simps)
      (erule (1) sub_parsers.expr_step_spec sub_parsers.block_step_spec)+
qed

interpretation parser: sub_parsers "parseExpr n K" "parseBlockKeepScope n K" n K for n K
  by (rule sub_parsers_n)

section \<open>The start of a parse\<close>

lemma start_run:
  assumes s: "nextTok (new_parser lx source c) = Ok u p" and c: "0 \<le> c" "c \<le> maxParseDepth"
    and n: "nat (maxParseDepth - c) < n" and k: "length (l_rest lx) < k"
  shows "run n k p [] [] p" and "p_insideVararg p" and "p_loopDepth p = 0"
    and "\<exists>t. Next lx = Inr (t, p_lx p) \<and> buf p = [t]"
proof -
  obtain t where t: "Next lx = Inr (t, p_lx p)" and p: "p = (new_parser lx source c)\<lparr>p_lx := p_lx p, p_tok := t\<rparr>"
    using s by (auto simp: nextTok_def new_parser_def tok_end_def mk_token_def Let_def split: sum.splits)
  have b: "buf p = [t]" by (subst p) (simp add: buf_def new_parser_def)
  then show "\<exists>t. Next lx = Inr (t, p_lx p) \<and> buf p = [t]" using t by simp
  have "remaining p \<le> remaining (new_parser lx source c)"
    using takes_remaining [OF takes_nextTok [OF s]] by simp
  also have "\<dots> = length (l_rest lx)" by (simp add: remaining_def buf_def new_parser_def)
  finally have "remaining p < k" using k by simp
  moreover have "p_depth p = 0" "p_depthLimit p = maxParseDepth - c" "p_loopDepth p = 0" "p_insideVararg p"
    "p_fs p = [\<lparr>fs_lineDefined = 0, fs_actvars = [], fs_upvals = []\<rparr>]"
    by (subst p, simp add: new_parser_def)+
  ultimately show "run n k p [] [] p" "p_insideVararg p" "p_loopDepth p = 0"
    using c n takes_nil [of p p] by (auto simp: run_def actvars_def)
qed

lemma lexes_tokens:
  "lexes l (ts @ e # us) m \<Longrightarrow> inner ts \<Longrightarrow> tk_Kind e = EOF \<Longrightarrow> length ts < n \<Longrightarrow> tokens n l = Some (Inr (ts @ [e]))"
proof (induction ts arbitrary: l n)
  case Nil
  then show ?case by (cases n) auto
next
  case (Cons t ts)
  then obtain l' where l': "Next l = Inr (t, l')" "lexes l' (ts @ e # us) m" by auto
  from Cons.prems obtain n' where n: "n = Suc n'" "length ts < n'" by (cases n) auto
  from Cons.IH [OF l'(2) _ Cons.prems(3) n(2)] Cons.prems(2) l'(1) n(1) show ?case by simp
qed

lemma ParseAtCDepth_spec:
  assumes c: "0 \<le> c" "c \<le> maxParseDepth" and n: "nat (maxParseDepth - c) < n" and k: "length (l_rest lx) < k"
  shows "res (ParseAtCDepth n k lx source c) (\<lambda>b p. \<exists>ts e m. tokens (Suc (length (l_rest lx))) lx = Some (Inr (ts @ [e])) \<and>
     gC True False 0 (b_Stmts b) ts m)"
proof (cases "nextTok (new_parser lx source c)")
  case (Ok u p)
  note s = start_run [OF Ok c n k]
  from s(4) obtain t where t: "Next lx = Inr (t, p_lx p)" "buf p = [t]" by blast
  have "res (parseBlock n k p) (\<lambda>b p'. \<exists>us ss l m. b = Block ss l \<and> run n k p us [] p' \<and> gC True False 0 ss us m)"
    unfolding parseBlock_def by (rule res_mono [OF parser.in_scope_spec [OF s(1)]]) (use s(2,3) in auto)
  moreover have "\<exists>ts e m. tokens (Suc (length (l_rest lx))) lx = Some (Inr (ts @ [e])) \<and> gC True False 0 ss ts m"
    if r: "run n k p us [] p'" and g: "gC True False 0 ss us m" and e: "tok_kind p' = EOF" for us p' ss m
  proof -
    obtain ws where ws: "lexes (p_lx p) ws (p_lx p')" "[t] @ ws = us @ buf p'"
      using r t(2) by (auto simp: run_def takes_def)
    obtain zs where zs: "buf p' = p_tok p' # zs" by (simp add: buf_def)
    have "lexes lx ([t] @ ws) (p_lx p')" using t(1) ws(1) by simp
    then have lx: "lexes lx (us @ p_tok p' # zs) (p_lx p')" by (simp only: ws(2) zs)
    have i: "inner us" using g inner_phrases(8) by blast
    have "length us < Suc (length (l_rest lx))"
      using lexes_progress [OF lx] inner_real [OF i] by simp
    from lexes_tokens [OF lx i e this] g show ?thesis by blast
  qed
  ultimately show ?thesis
    unfolding ParseAtCDepth_def Ok by (auto elim!: res_bind simp: bind_Ok)
qed (auto simp: ParseAtCDepth_def nextTok_def Let_def split: option.splits sum.splits)

section \<open>Properties\<close>

text \<open>C9. The parser always returns. Its recursion goes no deeper than the C stack allows: with the \<open>maxParseDepth - c\<close>
  levels that remain below the caller's depth \<open>c\<close>, one more for the call that reports the excess, and as many turns of
  each loop as the source has bytes, no source exhausts the fuel.\<close>

theorem Parse_terminates:
  assumes "0 \<le> c" and "c \<le> maxParseDepth" and "nat (maxParseDepth - c) < n" and "length (l_rest lx) < k"
  shows "ParseAtCDepth n k lx source c \<noteq> OutOfFuel"
  using ParseAtCDepth_spec [OF assms, of source] by auto

theorem Parse_terminates_witness:
  "ParseAtCDepth 101 8 (lexer_New ''f(1,2)'' ''=s'') ''=s'' 100 \<noteq> OutOfFuel"
  by (rule Parse_terminates) (simp_all add: maxParseDepth_def lexer_New_def)

text \<open>C8. The parser is sound: when a parse succeeds the source scans to the tokens \<open>ts\<close> and the end of the
  source, and the grammar derives the tree from \<open>ts\<close>: every operator groups by the precedence and
  associativity of the manual, an assignment has assignable targets, \<open>break\<close> is in a loop, \<open>...\<close> in a vararg
  function, and no function ever has more than 200 locals active.\<close>

theorem Parse_sound:
  assumes "Parse lx source = Ok b p"
  shows "\<exists>ts e m. tokens (Suc (length (l_rest lx))) lx = Some (Inr (ts @ [e])) \<and> gC True False 0 (b_Stmts b) ts m"
  using ParseAtCDepth_spec [of 0 "Suc (nat maxParseDepth)" lx "length (l_rest lx) + 2" source] assms
  by (simp add: Parse_def maxParseDepth_def)

theorem Parse_sound_witness:
  "\<exists>b p. Parse (lexer_New ''x=a..b..c'' ''=s'') ''=s'' = Ok b p \<and>
     b_Stmts b = [AssignStmt 1 1 [1] [NameExpr 1 ''x'']
       [BinExpr 1 1 OpConcat (NameExpr 1 ''a'') (BinExpr 1 1 OpConcat (NameExpr 1 ''b'') (NameExpr 1 ''c''))]] \<and>
     (\<exists>ts e m. tokens 10 (lexer_New ''x=a..b..c'' ''=s'') = Some (Inr (ts @ [e])) \<and> gC True False 0 (b_Stmts b) ts m)"
proof -
  let ?l = "lexer_New ''x=a..b..c'' ''=s''"
  have c: "case Parse ?l ''=s'' of Ok b p \<Rightarrow> b_Stmts b = [AssignStmt 1 1 [1] [NameExpr 1 ''x'']
       [BinExpr 1 1 OpConcat (NameExpr 1 ''a'') (BinExpr 1 1 OpConcat (NameExpr 1 ''b'') (NameExpr 1 ''c''))]] | _ \<Rightarrow> False"
    by code_simp
  then obtain b p where p: "Parse ?l ''=s'' = Ok b p" by (auto split: presult.splits)
  have n: "Suc (length (l_rest ?l)) = 10" by (simp add: lexer_New_def)
  have b: "b_Stmts b = [AssignStmt 1 1 [1] [NameExpr 1 ''x'']
      [BinExpr 1 1 OpConcat (NameExpr 1 ''a'') (BinExpr 1 1 OpConcat (NameExpr 1 ''b'') (NameExpr 1 ''c''))]]"
    using c unfolding p by simp
  show ?thesis using p b Parse_sound [OF p, unfolded n] by blast
qed

end
