(* ===== verification/Proto.thy ===== *)
theory Proto
  imports Bytecode FloatArith
begin

text \<open>
  The compilation unit of \<open>internal/bytecode/proto.go\<close>. A Go program shares it by pointer; the components that
  do so keep a store from addresses to these records.
\<close>

record UpvalDesc =
  uv_Name :: string
  uv_InStack :: bool
  uv_Idx :: u8

record LocalVar =
  lv_Name :: string
  lv_StartPC :: "32 word"
  lv_EndPC :: "32 word"

record ICSlot =
  ic_Shape :: u32
  ic_Index :: u32
  ic_TableRef :: u32
  ic_Kind :: u8
  ic_Refill :: u8

definition ICKindNone :: u8 where "ICKindNone = 0"
definition ICKindArrayHit :: u8 where "ICKindArrayHit = 1"
definition ICKindNodeHit :: u8 where "ICKindNodeHit = 2"
definition ICKindMonoMeta :: u8 where "ICKindMonoMeta = 3"
definition ICKindMegamorphic :: u8 where "ICKindMegamorphic = 4"

text \<open>Signed 32-bit fields are words read with \<open>sint\<close>.\<close>

record proto =
  pr_Source :: string
  pr_LineDefined :: u32
  pr_LineEnd :: u32
  pr_NumParams :: u8
  pr_IsVararg :: bool
  pr_NeedsArg :: bool
  pr_MaxStack :: u8
  pr_Code :: "instruction list"
  pr_Consts :: "u64 list"
  pr_StringLits :: "string list"
  pr_StringLitIdx :: "u32 list"
  pr_Protos :: "u32 list"
  pr_SubNUps :: "u8 list"
  pr_UpvalDescs :: "UpvalDesc list"
  pr_LineInfo :: "u32 list"
  pr_LocVars :: "LocalVar list"
  pr_IC :: "ICSlot list"
  pr_Compilability :: u8
  pr_CompReasons :: u16
  pr_IntrinsicCallPCs :: "u32 list"

definition MathIntrinsicNames :: "string list" where
  "MathIntrinsicNames = [''sqrt'', ''floor'', ''ceil'', ''abs'', ''max'', ''min'']"

text \<open>\<open>None\<close> is the panic on a negative index.\<close>

definition IsStringConst :: "proto \<Rightarrow> int \<Rightarrow> bool option" where
  "IsStringConst p i =
     (if i < int (length (pr_StringLitIdx p))
      then if i < 0 then None else Some (0 \<le> sint (pr_StringLitIdx p ! nat i))
      else Some False)"

end
