(* ===== verification/Feedback.thy ===== *)
theory Feedback
  imports Proto
begin

text \<open>
  Type feedback: \<open>internal/bridge/feedback.go\<close> and the aggregation of inline-cache slots, \<open>aggregator.go\<close>. A
  \<open>float32\<close> is its bit pattern; on the nonnegative ones that occur here \<open>>=\<close> is the order of the patterns.
\<close>

section \<open>Single precision\<close>

type_synonym f32 = u32

definition f32_inf :: f32 where "f32_inf = 0x7F800000"

definition f32_round :: "nat \<Rightarrow> nat \<Rightarrow> f32" where
  "f32_round num den =
     (if num = 0 then 0
      else let e = rat_expo num den;
               q = (if e < - 126 then - 149 else e - 23);
               bits = nat (q + 149) * 2 ^ 23 + round_quotient num den q
           in if 255 * 2 ^ 23 \<le> bits then f32_inf else word_of_nat bits)"

definition f32_rat :: "f32 \<Rightarrow> nat \<times> nat" where
  "f32_rat f =
     (let e = unat f div 2 ^ 23; m = unat f mod 2 ^ 23;
          m' = (if e = 0 then m else m + 2 ^ 23);
          e' = (if e = 0 then 1 else e)
      in if 150 \<le> e' then (m' * 2 ^ (e' - 150), 1) else (m', 2 ^ (150 - e')))"

text \<open>The quotient of two finite numbers, the second not zero.\<close>

definition f32_div :: "f32 \<Rightarrow> f32 \<Rightarrow> f32" where
  "f32_div x y = (let (n1, d1) = f32_rat x; (n2, d2) = f32_rat y in f32_round (n1 * d2) (d1 * n2))"

section \<open>Feedback\<close>

datatype FeedbackKind = FBUnstable | FBArithStableNumber | FBTableMono | FBTableMega | FBGlobalStable | FBSelfMono

definition FeedbackKind_String :: "FeedbackKind \<Rightarrow> string" where
  "FeedbackKind_String k =
     (case k of
        FBArithStableNumber \<Rightarrow> ''ArithStableNumber''
      | FBTableMono \<Rightarrow> ''TableMono''
      | FBTableMega \<Rightarrow> ''TableMega''
      | FBGlobalStable \<Rightarrow> ''GlobalStable''
      | FBSelfMono \<Rightarrow> ''SelfMono''
      | FBUnstable \<Rightarrow> ''Unstable'')"

record PointFeedback =
  pf_PC :: u32
  pf_Kind :: FeedbackKind
  pf_Confidence :: f32
  pf_StableShape :: u32
  pf_StableIndex :: u32
  pf_Observations :: u32

definition no_feedback :: PointFeedback where
  "no_feedback = \<lparr>pf_PC = 0, pf_Kind = FBUnstable, pf_Confidence = 0, pf_StableShape = 0, pf_StableIndex = 0,
     pf_Observations = 0\<rparr>"

record TypeFeedback =
  tf_Points :: "PointFeedback list"
  tf_Generation :: u32

section \<open>The aggregator\<close>

definition StableArithThreshold :: f32 where "StableArithThreshold = f32_round 99 100"
definition MinObservations :: nat where "MinObservations = 100"
definition MegamorphicRefillThreshold :: u8 where "MegamorphicRefillThreshold = 3"

text \<open>Both thresholds are fixed by \<open>NewAggregator\<close>; the state of an aggregator is its generation counter. \<open>None\<close> is a
  panic: an inline cache of a kind its instruction never writes, or fewer slots than instructions.\<close>

definition extractArithFeedback :: "u32 \<Rightarrow> ICSlot \<Rightarrow> PointFeedback option" where
  "extractArithFeedback pc slot =
     (if ic_Kind slot = 0 then Some no_feedback
      else if ic_Kind slot \<noteq> 1 then None
      else
        let total = unat (ic_Shape slot) + unat (ic_Index slot) in
        if total < MinObservations
        then Some (no_feedback\<lparr>pf_PC := pc, pf_Observations := word_of_nat total\<rparr>)
        else let ratio = f32_div (f32_round (unat (ic_Shape slot)) 1) (f32_round total 1) in
          Some (no_feedback\<lparr>pf_PC := pc, pf_Confidence := ratio, pf_Observations := word_of_nat total,
            pf_Kind := (if StableArithThreshold \<le> ratio then FBArithStableNumber else FBUnstable)\<rparr>))"

datatype opTableKind = opGetTable | opSetTable | opGetGlobal | opSetGlobal | opSelf

fun table_kind :: "opTableKind \<Rightarrow> FeedbackKind" where
  "table_kind opGetTable = FBTableMono"
| "table_kind opSetTable = FBTableMono"
| "table_kind opGetGlobal = FBGlobalStable"
| "table_kind opSetGlobal = FBGlobalStable"
| "table_kind opSelf = FBSelfMono"

definition extractTableFeedback :: "u32 \<Rightarrow> ICSlot \<Rightarrow> opTableKind \<Rightarrow> PointFeedback option" where
  "extractTableFeedback pc slot opType =
     (if ic_Kind slot = 0 then Some no_feedback
      else
        let pf = \<lparr>pf_PC = pc, pf_Kind = FBUnstable, pf_Confidence = f32_round 1 1, pf_StableShape = ic_Shape slot,
                  pf_StableIndex = ic_Index slot, pf_Observations = 1\<rparr>;
            mega = pf\<lparr>pf_Kind := FBTableMega, pf_Confidence := 0, pf_StableShape := 0, pf_StableIndex := 0\<rparr> in
        if MegamorphicRefillThreshold \<le> ic_Refill slot then Some mega
        else if ic_Kind slot \<in> {ICKindArrayHit, ICKindNodeHit, ICKindMonoMeta}
          then Some (pf\<lparr>pf_Kind := table_kind opType\<rparr>)
        else if ic_Kind slot = ICKindMegamorphic then Some mega
        else None)"

definition is_arith_op :: "opcode \<Rightarrow> bool" where
  "is_arith_op op \<longleftrightarrow> op \<in> {OP_ADD, OP_SUB, OP_MUL, OP_DIV, OP_MOD, OP_POW, OP_UNM, OP_LT, OP_LE}"

definition table_op :: "opcode \<Rightarrow> opTableKind option" where
  "table_op op =
     (if op = OP_GETTABLE then Some opGetTable
      else if op = OP_SETTABLE then Some opSetTable
      else if op = OP_GETGLOBAL then Some opGetGlobal
      else if op = OP_SETGLOBAL then Some opSetGlobal
      else if op = OP_SELF then Some opSelf
      else None)"

definition point_feedback :: "u32 \<Rightarrow> instruction \<Rightarrow> ICSlot \<Rightarrow> PointFeedback option" where
  "point_feedback pc ins slot =
     (if is_arith_op (Op_of ins) then extractArithFeedback pc slot
      else case table_op (Op_of ins) of
          Some k \<Rightarrow> extractTableFeedback pc slot k
        | None \<Rightarrow> Some no_feedback)"

fun aggregate_points :: "u32 \<Rightarrow> instruction list \<Rightarrow> ICSlot list \<Rightarrow> PointFeedback list option" where
  "aggregate_points pc [] ics = Some []"
| "aggregate_points pc (ins # code) [] = None"
| "aggregate_points pc (ins # code) (ic # ics) = do {
     pf \<leftarrow> point_feedback pc ins ic;
     pfs \<leftarrow> aggregate_points (pc + 1) code ics;
     Some (pf # pfs) }"

text \<open>The snapshot and the generation counter after it.\<close>

definition Aggregate :: "u32 \<Rightarrow> proto \<Rightarrow> (TypeFeedback \<times> u32) option" where
  "Aggregate globalGen p = do {
     points \<leftarrow> aggregate_points 0 (pr_Code p) (pr_IC p);
     Some (\<lparr>tf_Points = points, tf_Generation = globalGen + 1\<rparr>, globalGen + 1) }"

section \<open>When aggregation does not panic\<close>

text \<open>What the interpreter writes: an arithmetic slot counts, a table slot has one of the kinds of the cache.\<close>

definition slot_ok :: "instruction \<Rightarrow> ICSlot \<Rightarrow> bool" where
  "slot_ok ins ic \<longleftrightarrow>
     (is_arith_op (Op_of ins) \<longrightarrow> ic_Kind ic \<le> 1) \<and>
     (table_op (Op_of ins) \<noteq> None \<longrightarrow> ic_Kind ic \<le> ICKindMegamorphic)"

definition ic_ok :: "proto \<Rightarrow> bool" where
  "ic_ok p \<longleftrightarrow> list_all2 slot_ok (pr_Code p) (pr_IC p)"

lemma u8_le_cases: "(k :: u8) \<le> 4 \<Longrightarrow> k = 0 \<or> k = 1 \<or> k = 2 \<or> k = 3 \<or> k = 4"
proof -
  assume "k \<le> 4"
  then have "unat k \<in> {0, 1, 2, 3, 4}" by (auto simp: word_le_nat_alt)
  moreover have "k = word_of_nat (unat k)" by simp
  ultimately show ?thesis by fastforce
qed

lemma point_feedback_ok: "slot_ok ins ic \<Longrightarrow> point_feedback pc ins ic \<noteq> None"
proof (cases "is_arith_op (Op_of ins)")
  case True
  assume "slot_ok ins ic"
  with True have "ic_Kind ic = 0 \<or> ic_Kind ic = 1"
    using u8_le_cases [of "ic_Kind ic"] by (auto simp: slot_ok_def word_le_nat_alt)
  with True show ?thesis by (auto simp: point_feedback_def extractArithFeedback_def Let_def)
next
  case False
  assume s: "slot_ok ins ic"
  show ?thesis
  proof (cases "table_op (Op_of ins)")
    case (Some k)
    with s have "ic_Kind ic \<le> 4" by (simp add: slot_ok_def ICKindMegamorphic_def)
    from u8_le_cases [OF this] False Some show ?thesis
      by (auto simp: point_feedback_def extractTableFeedback_def Let_def ICKindArrayHit_def ICKindNodeHit_def
          ICKindMonoMeta_def ICKindMegamorphic_def)
  qed (simp add: point_feedback_def False)
qed

lemma aggregate_points_ok: "list_all2 slot_ok code ics \<Longrightarrow> \<exists>pfs. aggregate_points pc code ics = Some pfs \<and> length pfs = length code"
proof (induction arbitrary: pc rule: list_all2_induct)
  case (Cons ins code ic ics)
  from Cons.IH [of "pc + 1"] point_feedback_ok [OF Cons.hyps(1), of pc] show ?case by auto
qed simp

lemma Aggregate_ok: "ic_ok p \<Longrightarrow> \<exists>fb g. Aggregate n p = Some (fb, g) \<and> length (tf_Points fb) = length (pr_Code p)"
  using aggregate_points_ok [of "pr_Code p" "pr_IC p" 0] by (auto simp: ic_ok_def Aggregate_def)

end
