(* ===== verification/Bridge.thy ===== *)
theory Bridge
  imports Feedback
begin

text \<open>
  The tier bridge: \<open>internal/bridge/bridge.go\<close>, \<open>tier.go\<close>, \<open>profile.go\<close>, \<open>compilability.go\<close>, \<open>p3compiler.go\<close>
  and \<open>aggregate.go\<close>.

  Protos are shared by pointer: \<open>ps\<close> is the store of the protos, \<open>pref\<close> an address in it. A \<open>ProfileData\<close> is
  created once per proto and never replaced, so a pointer to it is the address of the proto it belongs to. The
  backend (\<open>P3Compiler\<close> and its optional interfaces) is a parameter: functions of the contents of a proto.
  A logger is the list of the events it received. The mutex around a compilation has no effect on a bridge
  used by one goroutine.
\<close>

section \<open>Tiers, profiles and reasons\<close>

type_synonym pref = nat

datatype TierState = TierInterp | TierGibbous | TierStuck

fun TierState_String :: "TierState \<Rightarrow> string" where
  "TierState_String TierInterp = ''interp''"
| "TierState_String TierGibbous = ''gibbous''"
| "TierState_String TierStuck = ''stuck''"

type_synonym Compilability = u8

definition CompUnknown :: Compilability where "CompUnknown = 0"
definition CompCompilable :: Compilability where "CompCompilable = 1"
definition CompNotCompilable :: Compilability where "CompNotCompilable = 2"

definition Compilability_String :: "Compilability \<Rightarrow> string" where
  "Compilability_String c =
     (if c = CompCompilable then ''Compilable'' else if c = CompNotCompilable then ''NotCompilable'' else ''Unknown'')"

type_synonym ReasonsBitmap = u16

definition ReasonVararg :: ReasonsBitmap where "ReasonVararg = push_bit 0 1"
definition ReasonYield :: ReasonsBitmap where "ReasonYield = push_bit 1 1"
definition ReasonResume :: ReasonsBitmap where "ReasonResume = push_bit 2 1"
definition ReasonCoroutine :: ReasonsBitmap where "ReasonCoroutine = push_bit 3 1"
definition ReasonUnknownCall :: ReasonsBitmap where "ReasonUnknownCall = push_bit 4 1"
definition ReasonDebug :: ReasonsBitmap where "ReasonDebug = push_bit 5 1"
definition ReasonSetfenv :: ReasonsBitmap where "ReasonSetfenv = push_bit 6 1"
definition ReasonOverSize :: ReasonsBitmap where "ReasonOverSize = push_bit 7 1"
definition ReasonOverRegs :: ReasonsBitmap where "ReasonOverRegs = push_bit 8 1"
definition ReasonNestedDeep :: ReasonsBitmap where "ReasonNestedDeep = push_bit 9 1"
definition ReasonOverUpval :: ReasonsBitmap where "ReasonOverUpval = push_bit 10 1"
definition ReasonBackendUnsupp :: ReasonsBitmap where "ReasonBackendUnsupp = push_bit 11 1"
definition ReasonSelfCall :: ReasonsBitmap where "ReasonSelfCall = push_bit 12 1"

definition HasAny :: "ReasonsBitmap \<Rightarrow> bool" where "HasAny r \<longleftrightarrow> r \<noteq> 0"

definition MaxCompilableInsns :: int where "MaxCompilableInsns = 2000"
definition MaxCompilableRegs :: int where "MaxCompilableRegs = 200"
definition MaxClosureDepth :: int where "MaxClosureDepth = 3"
definition MaxUpvalCount :: int where "MaxUpvalCount = 8"

definition HotBackEdgeThreshold :: u32 where "HotBackEdgeThreshold = 1000"
definition HotEntryThreshold :: u32 where "HotEntryThreshold = 200"
definition MinPromotableCodeLen :: int where "MinPromotableCodeLen = 10"

datatype floorExemptState = floorExemptUnasked | floorExemptYes | floorExemptNo

text \<open>\<open>pd_BackEdge\<close> is \<open>None\<close> until it is allocated.\<close>

record ProfileData =
  pd_EntryCount :: u32
  pd_BackEdge :: "u32 list option"
  pd_Feedback :: "TypeFeedback option"
  pd_Compilable :: Compilability
  pd_Reasons :: ReasonsBitmap
  pd_TierState :: TierState
  pd_CompileTried :: bool
  pd_recheckedAtEntry :: u32
  pd_floorExempt :: floorExemptState

definition back_edges :: "ProfileData \<Rightarrow> u32 list" where
  "back_edges pd = (case pd_BackEdge pd of Some xs \<Rightarrow> xs | None \<Rightarrow> [])"

definition MaxBackEdge :: "ProfileData \<Rightarrow> u32" where
  "MaxBackEdge pd = fold (\<lambda>c m. if m < c then c else m) (back_edges pd) 0"

definition resetCountersForReuse :: "ProfileData \<Rightarrow> ProfileData" where
  "resetCountersForReuse pd = pd\<lparr>pd_EntryCount := 0, pd_BackEdge := map_option (map (\<lambda>_. 0)) (pd_BackEdge pd),
     pd_recheckedAtEntry := 0\<rparr>"

definition allocBackEdge :: "proto \<Rightarrow> ProfileData \<Rightarrow> ProfileData" where
  "allocBackEdge pr pd =
     (if pd_BackEdge pd = None then pd\<lparr>pd_BackEdge := Some (replicate (length (pr_Code pr)) 0)\<rparr> else pd)"

section \<open>The backend and the log\<close>

datatype CompileErrKind =
    CompileErrUnsupportedOpcodeShape | CompileErrOutOfResources | CompileErrBackendPanic | CompileErrBackendDeclined

fun CompileErrKind_String :: "CompileErrKind \<Rightarrow> string" where
  "CompileErrKind_String CompileErrUnsupportedOpcodeShape = ''unsupported_opcode_shape''"
| "CompileErrKind_String CompileErrOutOfResources = ''out_of_resources''"
| "CompileErrKind_String CompileErrBackendPanic = ''backend_panic''"
| "CompileErrKind_String CompileErrBackendDeclined = ''backend_declined''"

definition CompileErrBackendUnsupported :: CompileErrKind where
  "CompileErrBackendUnsupported = CompileErrBackendDeclined"

definition CompileError_Error :: "CompileErrKind \<Rightarrow> string \<Rightarrow> string" where
  "CompileError_Error k reason = CompileErrKind_String k @ '': '' @ reason"

text \<open>What a call of the backend's \<open>Compile\<close> comes to; an error or a panic value is its text.\<close>

datatype 'c compile_outcome = Compiled 'c | CompileFails string | CompilePanics string

record 'c P3Compiler =
  p3_SupportsAllOpcodes :: "proto \<Rightarrow> bool"
  p3_Compile :: "proto \<Rightarrow> TypeFeedback \<Rightarrow> 'c compile_outcome"
  p3_WorthPromoting :: "(proto \<Rightarrow> bool) option"
  p3_ExemptFromFloor :: "(proto \<Rightarrow> bool) option"
  p3_MinPromotableLen :: "int option"

datatype log_event =
    LogPromoted pref ProfileData
  | LogStuck pref ProfileData Compilability
  | LogCompileFail pref ProfileData string
  | LogPanic pref string

section \<open>The bridge\<close>

record 'c bridge =
  b_profileTable :: "pref \<rightharpoonup> ProfileData"
  b_pdByID :: "pref option list"
  b_p3 :: "'c P3Compiler option"
  b_gibbousCodes :: "pref \<rightharpoonup> 'c"
  b_logger :: "log_event list option"
  b_globalGen :: u32
  b_forceAll :: bool
  b_hotEntry :: u32
  b_hotBackEdge :: u32
  b_minPromotableLen :: int
  b_floorExempter :: "(proto \<Rightarrow> bool) option"
  b_tierOff :: bool
  b_stuckNotCompilable :: int
  b_stuckDeclined :: int
  b_stuckCompileFailed :: int

definition NewBridge :: "'c bridge" where
  "NewBridge =
     \<lparr>b_profileTable = Map.empty, b_pdByID = [], b_p3 = None, b_gibbousCodes = Map.empty, b_logger = None,
      b_globalGen = 0, b_forceAll = False, b_hotEntry = HotEntryThreshold, b_hotBackEdge = HotBackEdgeThreshold,
      b_minPromotableLen = 0, b_floorExempter = None, b_tierOff = False, b_stuckNotCompilable = 0,
      b_stuckDeclined = 0, b_stuckCompileFailed = 0\<rparr>"

definition SetHotThresholds :: "u32 \<Rightarrow> u32 \<Rightarrow> 'c bridge \<Rightarrow> 'c bridge" where
  "SetHotThresholds entry backEdge b =
     (let b = (if 0 < entry then b\<lparr>b_hotEntry := entry\<rparr> else b) in
      if 0 < backEdge then b\<lparr>b_hotBackEdge := backEdge\<rparr> else b)"

definition SetP3Compiler :: "'c P3Compiler option \<Rightarrow> 'c bridge \<Rightarrow> 'c bridge" where
  "SetP3Compiler p3 b =
     (let v = (case p3 of Some c \<Rightarrow> (case p3_MinPromotableLen c of Some v \<Rightarrow> v | None \<Rightarrow> 0) | None \<Rightarrow> 0) in
      b\<lparr>b_p3 := p3, b_minPromotableLen := (if 0 < v then v else MinPromotableCodeLen),
        b_floorExempter := (case p3 of Some c \<Rightarrow> p3_ExemptFromFloor c | None \<Rightarrow> None)\<rparr>)"

definition SetLogger :: "log_event list option \<Rightarrow> 'c bridge \<Rightarrow> 'c bridge" where "SetLogger l b = b\<lparr>b_logger := l\<rparr>"

definition log :: "log_event \<Rightarrow> 'c bridge \<Rightarrow> 'c bridge" where
  "log e b = (case b_logger b of Some es \<Rightarrow> b\<lparr>b_logger := Some (es @ [e])\<rparr> | None \<Rightarrow> b)"

definition effectiveMinPromotableLen :: "'c bridge \<Rightarrow> int" where
  "effectiveMinPromotableLen b = (if 0 < b_minPromotableLen b then b_minPromotableLen b else MinPromotableCodeLen)"

definition new_profile :: "proto \<Rightarrow> ProfileData" where
  "new_profile pr = \<lparr>pd_EntryCount = 0, pd_BackEdge = None, pd_Feedback = None, pd_Compilable = pr_Compilability pr,
     pd_Reasons = pr_CompReasons pr, pd_TierState = TierInterp, pd_CompileTried = False, pd_recheckedAtEntry = 0,
     pd_floorExempt = floorExemptUnasked\<rparr>"

text \<open>\<open>profileOf\<close>: the bridge with an entry for \<open>p\<close>; the pointer it returns is \<open>p\<close>.\<close>

definition profileOf :: "(pref \<Rightarrow> proto) \<Rightarrow> 'c bridge \<Rightarrow> pref \<Rightarrow> 'c bridge" where
  "profileOf ps b p =
     (case b_profileTable b p of
        Some pd \<Rightarrow> b
      | None \<Rightarrow> b\<lparr>b_profileTable := (b_profileTable b)(p \<mapsto> new_profile (ps p))\<rparr>)"

definition pd_of :: "'c bridge \<Rightarrow> pref \<Rightarrow> ProfileData" where "pd_of b k = the (b_profileTable b k)"

definition upd_pd :: "pref \<Rightarrow> (ProfileData \<Rightarrow> ProfileData) \<Rightarrow> 'c bridge \<Rightarrow> 'c bridge" where
  "upd_pd k f b = b\<lparr>b_profileTable := (b_profileTable b)(k \<mapsto> f (pd_of b k))\<rparr>"

definition GrowProfileIndex :: "nat \<Rightarrow> 'c bridge \<Rightarrow> 'c bridge" where
  "GrowProfileIndex n b =
     (if n \<le> length (b_pdByID b) then b
      else b\<lparr>b_pdByID := b_pdByID b @ replicate (n - length (b_pdByID b)) None\<rparr>)"

definition profileOfID :: "(pref \<Rightarrow> proto) \<Rightarrow> 'c bridge \<Rightarrow> pref \<Rightarrow> nat \<Rightarrow> pref \<times> 'c bridge" where
  "profileOfID ps b p pid =
     (if pid < length (b_pdByID b)
      then case b_pdByID b ! pid of
          Some k \<Rightarrow> (k, b)
        | None \<Rightarrow> let b = profileOf ps b p in (p, b\<lparr>b_pdByID := (b_pdByID b)[pid := Some p]\<rparr>)
      else (p, profileOf ps b p))"

definition CompilabilityOf :: "(pref \<Rightarrow> proto) \<Rightarrow> 'c bridge \<Rightarrow> pref \<Rightarrow> Compilability" where
  "CompilabilityOf ps b p =
     (if pr_Compilability (ps p) \<noteq> CompUnknown then pr_Compilability (ps p)
      else case b_profileTable b p of None \<Rightarrow> CompUnknown | Some pd \<Rightarrow> pd_Compilable pd)"

definition SetCompilability :: "(pref \<Rightarrow> proto) \<Rightarrow> 'c bridge \<Rightarrow> pref \<Rightarrow> Compilability \<Rightarrow> ReasonsBitmap \<Rightarrow>
    (pref \<Rightarrow> proto) \<times> 'c bridge" where
  "SetCompilability ps b p c r =
     (let ps = ps(p := (ps p)\<lparr>pr_Compilability := c, pr_CompReasons := r\<rparr>) in
      (ps, upd_pd p (\<lambda>pd. pd\<lparr>pd_Compilable := c, pd_Reasons := r\<rparr>) (profileOf ps b p)))"

definition SetForceAllPromote :: "bool \<Rightarrow> 'c bridge \<Rightarrow> 'c bridge" where "SetForceAllPromote on b = b\<lparr>b_forceAll := on\<rparr>"

definition SetTierEnabled :: "bool \<Rightarrow> 'c bridge \<Rightarrow> 'c bridge" where "SetTierEnabled enabled b = b\<lparr>b_tierOff := \<not> enabled\<rparr>"

definition TierEnabled :: "'c bridge \<Rightarrow> bool" where "TierEnabled b \<longleftrightarrow> \<not> b_tierOff b"

record TierStats =
  ts_Promoted :: nat
  ts_StuckNotCompilable :: int
  ts_StuckDeclined :: int
  ts_StuckCompileFailed :: int
  ts_Profiled :: nat
  ts_TierEnabled :: bool

definition TierStatsSnapshot :: "'c bridge \<Rightarrow> TierStats" where
  "TierStatsSnapshot b =
     \<lparr>ts_Promoted = card (dom (b_gibbousCodes b)), ts_StuckNotCompilable = b_stuckNotCompilable b,
      ts_StuckDeclined = b_stuckDeclined b, ts_StuckCompileFailed = b_stuckCompileFailed b,
      ts_Profiled = card (dom (b_profileTable b)), ts_TierEnabled = (\<not> b_tierOff b)\<rparr>"

definition PromotionCount :: "'c bridge \<Rightarrow> nat" where "PromotionCount b = card (dom (b_gibbousCodes b))"

definition GibbousCodeOf :: "'c bridge \<Rightarrow> pref \<Rightarrow> 'c option" where
  "GibbousCodeOf b p =
     (if b_tierOff b \<or> dom (b_gibbousCodes b) = {} then None else b_gibbousCodes b p)"

section \<open>Promotion\<close>

definition checkF7BackendSupport :: "'c bridge \<Rightarrow> proto \<Rightarrow> bool" where
  "checkF7BackendSupport b pr = (case b_p3 b of None \<Rightarrow> True | Some c \<Rightarrow> \<not> p3_SupportsAllOpcodes c pr)"

definition placeholderReasons :: ReasonsBitmap where "placeholderReasons = ReasonBackendUnsupp OR ReasonSelfCall"

definition recheckCompilabilityRuntime :: "'c bridge \<Rightarrow> proto \<Rightarrow> Compilability" where
  "recheckCompilabilityRuntime b pr =
     (let structural = pr_CompReasons pr AND NOT placeholderReasons in
      if HasAny structural then CompNotCompilable
      else if checkF7BackendSupport b pr then CompNotCompilable
      else CompCompilable)"

definition flooredOut :: "(pref \<Rightarrow> proto) \<Rightarrow> 'c bridge \<Rightarrow> pref \<Rightarrow> pref \<Rightarrow> bool \<times> 'c bridge" where
  "flooredOut ps b k p =
     (if effectiveMinPromotableLen b \<le> int (length (pr_Code (ps p))) then (False, b)
      else case b_floorExempter b of
          None \<Rightarrow> (True, b)
        | Some exempt \<Rightarrow>
            let b = (if pd_floorExempt (pd_of b k) = floorExemptUnasked
                     then upd_pd k (\<lambda>pd. pd\<lparr>pd_floorExempt := (if exempt (ps p) then floorExemptYes else floorExemptNo)\<rparr>) b
                     else b)
            in (pd_floorExempt (pd_of b k) = floorExemptNo, b))"

text \<open>The code, or the text of the error.\<close>

definition tryCompile :: "(pref \<Rightarrow> proto) \<Rightarrow> 'c bridge \<Rightarrow> pref \<Rightarrow> TypeFeedback \<Rightarrow> (string + 'c) \<times> 'c bridge" where
  "tryCompile ps b p fb =
     (case b_p3 b of
        None \<Rightarrow> (Inl (CompileError_Error CompileErrBackendUnsupported ''P3 compiler not injected''), b)
      | Some c \<Rightarrow>
          (case p3_Compile c (ps p) fb of
             Compiled code \<Rightarrow> (Inr code, b)
           | CompileFails e \<Rightarrow> (Inl e, b)
           | CompilePanics r \<Rightarrow> (Inl (CompileError_Error CompileErrBackendPanic r), log (LogPanic p r) b)))"

definition installGibbous :: "pref \<Rightarrow> 'c \<Rightarrow> 'c bridge \<Rightarrow> 'c bridge" where
  "installGibbous p code b = b\<lparr>b_gibbousCodes := (b_gibbousCodes b)(p \<mapsto> code)\<rparr>"

definition set_stuck :: "ProfileData \<Rightarrow> ProfileData" where "set_stuck pd = pd\<lparr>pd_TierState := TierStuck\<rparr>"

definition worth :: "'c bridge \<Rightarrow> proto \<Rightarrow> bool" where
  "worth b pr = (case b_p3 b of
     Some c \<Rightarrow> (case p3_WorthPromoting c of Some w \<Rightarrow> w pr | None \<Rightarrow> True) | None \<Rightarrow> True)"

text \<open>The part of \<open>considerPromotion\<close> after the gates: try to compile and install.\<close>

definition compile_and_install :: "(pref \<Rightarrow> proto) \<Rightarrow> 'c bridge \<Rightarrow> pref \<Rightarrow> pref \<Rightarrow> 'c bridge option" where
  "compile_and_install ps b k p =
     (if b_gibbousCodes b p \<noteq> None
      then let b = upd_pd k (\<lambda>pd. pd\<lparr>pd_TierState := TierGibbous, pd_CompileTried := True\<rparr>) b in
           Some (log (LogPromoted p (pd_of b k)) b)
      else do {
        (fb, gen) \<leftarrow> Aggregate (b_globalGen b) (ps p);
        let b = upd_pd k (\<lambda>pd. pd\<lparr>pd_Feedback := Some fb, pd_CompileTried := True\<rparr>) (b\<lparr>b_globalGen := gen\<rparr>);
        case tryCompile ps b p fb of
          (Inl err, b) \<Rightarrow>
            let b = upd_pd k set_stuck b; b = b\<lparr>b_stuckCompileFailed := b_stuckCompileFailed b + 1\<rparr> in
            Some (log (LogCompileFail p (pd_of b k) err) b)
        | (Inr code, b) \<Rightarrow>
            let b = upd_pd k (\<lambda>pd. pd\<lparr>pd_TierState := TierGibbous\<rparr>) (installGibbous p code b) in
            Some (log (LogPromoted p (pd_of b k)) b) })"

text \<open>The compilability gate: \<open>None\<close> when this entry has been declined already, else the verdict.\<close>

definition gate :: "(pref \<Rightarrow> proto) \<Rightarrow> 'c bridge \<Rightarrow> pref \<Rightarrow> pref \<Rightarrow> (Compilability \<times> 'c bridge) option" where
  "gate ps b k p =
     (let cv = pd_Compilable (pd_of b k);
          needsAutoRecheck = (b_p3 b \<noteq> None \<and> pr_CompReasons (ps p) AND placeholderReasons \<noteq> 0) in
      if cv \<noteq> CompCompilable \<and> (b_forceAll b \<or> needsAutoRecheck)
      then if pd_recheckedAtEntry (pd_of b k) = pd_EntryCount (pd_of b k) + 1 then None
           else
             let b = upd_pd k (\<lambda>pd. pd\<lparr>pd_recheckedAtEntry := pd_EntryCount pd + 1\<rparr>) b;
                 cv = recheckCompilabilityRuntime b (ps p);
                 b = (if cv = CompCompilable
                      then upd_pd k (\<lambda>pd. pd\<lparr>pd_Compilable := CompCompilable, pd_Reasons := 0\<rparr>) b else b)
             in Some (cv, b)
      else Some (cv, b))"

definition considerPromotion :: "(pref \<Rightarrow> proto) \<Rightarrow> 'c bridge \<Rightarrow> pref \<Rightarrow> pref \<Rightarrow> bool \<Rightarrow> 'c bridge option" where
  "considerPromotion ps b k p onMain =
     (if pd_TierState (pd_of b k) \<noteq> TierInterp then Some b
      else if \<not> onMain then Some b
      else case gate ps b k p of
          None \<Rightarrow> Some b
        | Some (cv, b) \<Rightarrow>
            if cv \<noteq> CompCompilable
            then if b_forceAll b \<and> pd_EntryCount (pd_of b k) < 64 then Some b
                 else let b = upd_pd k (\<lambda>pd. (set_stuck pd)\<lparr>pd_CompileTried := True\<rparr>) b;
                          b = b\<lparr>b_stuckNotCompilable := b_stuckNotCompilable b + 1\<rparr> in
                      Some (log (LogStuck p (pd_of b k) cv) b)
            else if \<not> b_forceAll b \<and> \<not> worth b (ps p)
            then let b = upd_pd k (\<lambda>pd. (set_stuck pd)\<lparr>pd_CompileTried := True\<rparr>) b;
                     b = b\<lparr>b_stuckDeclined := b_stuckDeclined b + 1\<rparr> in
                 Some (log (LogStuck p (pd_of b k) cv) b)
            else compile_and_install ps b k p)"

section \<open>The sampling hooks\<close>

text \<open>The end of both hooks: past the threshold, unless the floor blocks, consider the promotion.\<close>

definition past_threshold :: "(pref \<Rightarrow> proto) \<Rightarrow> 'c bridge \<Rightarrow> pref \<Rightarrow> pref \<Rightarrow> bool \<Rightarrow> 'c bridge option" where
  "past_threshold ps b k p onMain =
     (let (out, b) = (if b_forceAll b then (False, b) else flooredOut ps b k p) in
      if out then Some b else considerPromotion ps b k p onMain)"

definition onEnterPD :: "(pref \<Rightarrow> proto) \<Rightarrow> 'c bridge \<Rightarrow> pref \<Rightarrow> pref \<Rightarrow> bool \<Rightarrow> 'c bridge option" where
  "onEnterPD ps b k p onMain =
     (if b_tierOff b then Some b
      else if pd_TierState (pd_of b k) \<noteq> TierInterp then Some b
      else let b = upd_pd k (\<lambda>pd. pd\<lparr>pd_EntryCount := pd_EntryCount pd + 1\<rparr>) b in
        if b_hotEntry b \<le> pd_EntryCount (pd_of b k) \<or> b_forceAll b
        then past_threshold ps b k p onMain else Some b)"

definition OnEnter :: "(pref \<Rightarrow> proto) \<Rightarrow> 'c bridge \<Rightarrow> pref \<Rightarrow> bool \<Rightarrow> 'c bridge option" where
  "OnEnter ps b p onMain = onEnterPD ps (profileOf ps b p) p p onMain"

definition OnEnterID :: "(pref \<Rightarrow> proto) \<Rightarrow> 'c bridge \<Rightarrow> pref \<Rightarrow> nat \<Rightarrow> bool \<Rightarrow> 'c bridge option" where
  "OnEnterID ps b p pid onMain = (let (k, b) = profileOfID ps b p pid in onEnterPD ps b k p onMain)"

text \<open>The milestones that allow one more look at the proto.\<close>

definition rearm :: "u32 \<Rightarrow> nat \<Rightarrow> ProfileData \<Rightarrow> ProfileData" where
  "rearm hot pc pd =
     (if back_edges pd ! pc = 1 \<or> back_edges pd ! pc = hot
      then pd\<lparr>pd_recheckedAtEntry := 0,
              pd_floorExempt := (if pd_floorExempt pd = floorExemptNo then floorExemptUnasked else pd_floorExempt pd)\<rparr>
      else pd)"

definition count_back_edge :: "nat \<Rightarrow> ProfileData \<Rightarrow> ProfileData" where
  "count_back_edge pc pd = pd\<lparr>pd_BackEdge := map_option (\<lambda>xs. xs[pc := xs ! pc + 1]) (pd_BackEdge pd)\<rparr>"

definition onBackEdgePD :: "(pref \<Rightarrow> proto) \<Rightarrow> 'c bridge \<Rightarrow> pref \<Rightarrow> pref \<Rightarrow> int \<Rightarrow> bool \<Rightarrow> 'c bridge option" where
  "onBackEdgePD ps b k p pc onMain =
     (if b_tierOff b then Some b
      else if pd_TierState (pd_of b k) \<noteq> TierInterp then Some b
      else let b = upd_pd k (allocBackEdge (ps p)) b in
        if pc < 0 \<or> int (length (back_edges (pd_of b k))) \<le> pc then Some b
        else let b = upd_pd k (rearm (b_hotBackEdge b) (nat pc) \<circ> count_back_edge (nat pc)) b in
          if b_hotBackEdge b \<le> back_edges (pd_of b k) ! nat pc \<or> b_forceAll b
          then past_threshold ps b k p onMain else Some b)"

definition OnBackEdge :: "(pref \<Rightarrow> proto) \<Rightarrow> 'c bridge \<Rightarrow> pref \<Rightarrow> int \<Rightarrow> bool \<Rightarrow> 'c bridge option" where
  "OnBackEdge ps b p pc onMain = onBackEdgePD ps (profileOf ps b p) p p pc onMain"

definition OnBackEdgeID :: "(pref \<Rightarrow> proto) \<Rightarrow> 'c bridge \<Rightarrow> pref \<Rightarrow> nat \<Rightarrow> int \<Rightarrow> bool \<Rightarrow> 'c bridge option" where
  "OnBackEdgeID ps b p pid pc onMain = (let (k, b) = profileOfID ps b p pid in onBackEdgePD ps b k p pc onMain)"

section \<open>Aggregation across states\<close>

record AggregateProfile =
  ag_EntryCount :: u32
  ag_BackEdge :: "u32 list"

type_synonym registry = "pref \<rightharpoonup> AggregateProfile"

definition AggregateOf :: "(pref \<Rightarrow> proto) \<Rightarrow> registry \<Rightarrow> pref \<Rightarrow> AggregateProfile \<times> registry" where
  "AggregateOf ps reg p =
     (case reg p of
        Some agg \<Rightarrow> (agg, reg)
      | None \<Rightarrow> let agg = \<lparr>ag_EntryCount = 0, ag_BackEdge = replicate (length (pr_Code (ps p))) 0\<rparr> in (agg, reg(p \<mapsto> agg)))"

fun add_counts :: "u32 list \<Rightarrow> u32 list \<Rightarrow> u32 list" where
  "add_counts (a # as) (c # cs) = (a + c) # add_counts as cs"
| "add_counts as [] = as"
| "add_counts [] cs = []"

definition flush_pd :: "(pref \<Rightarrow> proto) \<Rightarrow> registry \<Rightarrow> pref \<Rightarrow> ProfileData \<Rightarrow> AggregateProfile option" where
  "flush_pd ps reg p pd =
     (if pd_EntryCount pd = 0 \<and> back_edges pd = [] then reg p
      else let (agg, _) = AggregateOf ps reg p in
        Some (agg\<lparr>ag_EntryCount := ag_EntryCount agg + pd_EntryCount pd,
                  ag_BackEdge := add_counts (ag_BackEdge agg) (back_edges pd)\<rparr>))"

text \<open>The profiles are flushed independently, so the order of the map does not matter.\<close>

definition FlushToAggregate :: "(pref \<Rightarrow> proto) \<Rightarrow> 'c bridge \<Rightarrow> registry \<Rightarrow> registry" where
  "FlushToAggregate ps b reg =
     (\<lambda>p. case b_profileTable b p of None \<Rightarrow> reg p | Some pd \<Rightarrow> flush_pd ps reg p pd)"

definition ResetAggregate :: registry where "ResetAggregate = Map.empty"

definition max_count :: "u32 list \<Rightarrow> u32" where
  "max_count xs = fold (\<lambda>c m. if m < c then c else m) xs 0"

definition considerPromotionWithAggregate :: "(pref \<Rightarrow> proto) \<Rightarrow> 'c bridge \<Rightarrow> registry \<Rightarrow> pref \<Rightarrow> pref \<Rightarrow> bool \<Rightarrow>
    ('c bridge \<times> registry) option" where
  "considerPromotionWithAggregate ps b reg k p onMain =
     (if pd_TierState (pd_of b k) \<noteq> TierInterp then Some (b, reg)
      else let (agg, reg) = AggregateOf ps reg p in
        if b_hotEntry b \<le> pd_EntryCount (pd_of b k) \<or> b_hotBackEdge b \<le> MaxBackEdge (pd_of b k) \<or>
           b_hotEntry b \<le> ag_EntryCount agg \<or> b_hotBackEdge b \<le> max_count (ag_BackEdge agg)
        then map_option (\<lambda>b. (b, reg)) (considerPromotion ps b k p onMain)
        else Some (b, reg))"

definition installFeedback :: "(pref \<Rightarrow> proto) \<Rightarrow> 'c bridge \<Rightarrow> pref \<Rightarrow> TypeFeedback \<Rightarrow> 'c bridge" where
  "installFeedback ps b p fb =
     upd_pd p (\<lambda>pd. if pd_Feedback pd = None then pd\<lparr>pd_Feedback := Some fb\<rparr> else pd) (profileOf ps b p)"

end
