(* ===== verification/BridgeRun.thy ===== *)
theory BridgeRun
  imports Bridge
begin

text \<open>
  The bridge as a state machine: the events the interpreter and the host raise, the states they reach, what one
  sampling hook does to the profile of its proto, and the invariant of the reachable states.
\<close>

section \<open>Events\<close>

text \<open>
  \<open>idmap\<close> is the program's numbering of its protos: the interpreter passes a proto together with its own number.
  \<open>EvWarm\<close> is the interpreter writing the inline caches of a proto.
\<close>

datatype 'c event =
    EvEnter pref bool
  | EvEnterID nat bool
  | EvBackEdge pref int bool
  | EvBackEdgeID nat int bool
  | EvForceAll bool
  | EvTier bool
  | EvThresholds u32 u32
  | EvP3 "'c P3Compiler option"
  | EvLogger "log_event list option"
  | EvGrow nat
  | EvCompilability pref Compilability ReasonsBitmap
  | EvWarm pref "ICSlot list"

type_synonym 'c machine = "(pref \<Rightarrow> proto) \<times> 'c bridge"

definition warm :: "(pref \<Rightarrow> proto) \<Rightarrow> pref \<Rightarrow> ICSlot list \<Rightarrow> pref \<Rightarrow> proto" where
  "warm ps p ics = ps(p := (ps p)\<lparr>pr_IC := ics\<rparr>)"

fun fire :: "(nat \<Rightarrow> pref) \<Rightarrow> 'c event \<Rightarrow> 'c machine \<Rightarrow> 'c machine option" where
  "fire idmap (EvEnter p m) (ps, b) = map_option (Pair ps) (OnEnter ps b p m)"
| "fire idmap (EvEnterID i m) (ps, b) = map_option (Pair ps) (OnEnterID ps b (idmap i) i m)"
| "fire idmap (EvBackEdge p pc m) (ps, b) = map_option (Pair ps) (OnBackEdge ps b p pc m)"
| "fire idmap (EvBackEdgeID i pc m) (ps, b) = map_option (Pair ps) (OnBackEdgeID ps b (idmap i) i pc m)"
| "fire idmap (EvForceAll on) (ps, b) = Some (ps, SetForceAllPromote on b)"
| "fire idmap (EvTier on) (ps, b) = Some (ps, SetTierEnabled on b)"
| "fire idmap (EvThresholds e k) (ps, b) = Some (ps, SetHotThresholds e k b)"
| "fire idmap (EvP3 c) (ps, b) = Some (ps, SetP3Compiler c b)"
| "fire idmap (EvLogger l) (ps, b) = Some (ps, SetLogger l b)"
| "fire idmap (EvGrow n) (ps, b) = Some (ps, GrowProfileIndex n b)"
| "fire idmap (EvCompilability p c r) (ps, b) = Some (SetCompilability ps b p c r)"
| "fire idmap (EvWarm p ics) (ps, b) = Some (warm ps p ics, b)"

fun fire_all :: "(nat \<Rightarrow> pref) \<Rightarrow> 'c event list \<Rightarrow> 'c machine \<Rightarrow> 'c machine option" where
  "fire_all idmap [] s = Some s"
| "fire_all idmap (e # es) s = Option.bind (fire idmap e s) (fire_all idmap es)"

inductive bridge_reachable :: "(nat \<Rightarrow> pref) \<Rightarrow> 'c machine \<Rightarrow> bool" for idmap where
  start: "bridge_reachable idmap (ps, NewBridge)"
| event: "bridge_reachable idmap s \<Longrightarrow> fire idmap e s = Some s' \<Longrightarrow> bridge_reachable idmap s'"

lemma fire_all_append:
  "fire_all idmap (es @ fs) s = Option.bind (fire_all idmap es s) (fire_all idmap fs)"
  by (induction es arbitrary: s) (simp_all split: Option.bind_split)

lemma fire_all_reachable:
  "bridge_reachable idmap s \<Longrightarrow> fire_all idmap es s = Some s' \<Longrightarrow> bridge_reachable idmap s'"
  by (induction es arbitrary: s) (auto split: Option.bind_splits intro: bridge_reachable.event)

section \<open>Updates of one profile\<close>

named_theorems bridge_simps

definition cfg where
  "cfg b = (b_p3 b, b_forceAll b, b_hotEntry b, b_hotBackEdge b, b_minPromotableLen b, b_floorExempter b, b_tierOff b)"

definition stuck_total :: "'c bridge \<Rightarrow> int" where
  "stuck_total b = b_stuckNotCompilable b + b_stuckDeclined b + b_stuckCompileFailed b"

lemma upd_pd_simps [bridge_simps]:
  "b_profileTable (upd_pd p f b) = (b_profileTable b)(p \<mapsto> f (pd_of b p))"
  "pd_of (upd_pd p f b) p = f (pd_of b p)"
  "b_pdByID (upd_pd p f b) = b_pdByID b" "b_p3 (upd_pd p f b) = b_p3 b" "b_gibbousCodes (upd_pd p f b) = b_gibbousCodes b"
  "b_forceAll (upd_pd p f b) = b_forceAll b" "b_hotEntry (upd_pd p f b) = b_hotEntry b"
  "b_hotBackEdge (upd_pd p f b) = b_hotBackEdge b" "b_minPromotableLen (upd_pd p f b) = b_minPromotableLen b"
  "b_floorExempter (upd_pd p f b) = b_floorExempter b" "b_tierOff (upd_pd p f b) = b_tierOff b"
  "b_stuckNotCompilable (upd_pd p f b) = b_stuckNotCompilable b" "b_stuckDeclined (upd_pd p f b) = b_stuckDeclined b"
  "b_stuckCompileFailed (upd_pd p f b) = b_stuckCompileFailed b" "b_globalGen (upd_pd p f b) = b_globalGen b"
  "cfg (upd_pd p f b) = cfg b"
  by (simp_all add: upd_pd_def pd_of_def cfg_def)

lemma log_simps [bridge_simps]:
  "b_profileTable (log e b) = b_profileTable b" "pd_of (log e b) = pd_of b"
  "b_pdByID (log e b) = b_pdByID b" "b_p3 (log e b) = b_p3 b" "b_gibbousCodes (log e b) = b_gibbousCodes b"
  "b_stuckNotCompilable (log e b) = b_stuckNotCompilable b" "b_stuckDeclined (log e b) = b_stuckDeclined b"
  "b_stuckCompileFailed (log e b) = b_stuckCompileFailed b" "cfg (log e b) = cfg b"
  by (simp_all add: log_def cfg_def pd_of_def fun_eq_iff split: option.split)

lemma recheck_upd [bridge_simps]: "recheckCompilabilityRuntime (upd_pd p f b) pr = recheckCompilabilityRuntime b pr"
  by (simp add: recheckCompilabilityRuntime_def checkF7BackendSupport_def bridge_simps)

lemma worth_upd [bridge_simps]: "worth (upd_pd p f b) pr = worth b pr" by (simp add: worth_def bridge_simps)

section \<open>The effect of a hook\<close>

text \<open>A verdict that lets a proto through: the stored one, or the look at the real backend.\<close>

definition compilable_now :: "(pref \<Rightarrow> proto) \<Rightarrow> 'c bridge \<Rightarrow> pref \<Rightarrow> ProfileData \<Rightarrow> bool" where
  "compilable_now ps b p pd \<longleftrightarrow>
     pd_Compilable pd = CompCompilable \<or>
     pr_CompReasons (ps p) AND NOT placeholderReasons = 0 \<and>
     (\<exists>c. b_p3 b = Some c \<and> p3_SupportsAllOpcodes c (ps p))"

definition compiled_by :: "(pref \<Rightarrow> proto) \<Rightarrow> 'c bridge \<Rightarrow> pref \<Rightarrow> 'c \<Rightarrow> bool" where
  "compiled_by ps b p code \<longleftrightarrow>
     (\<exists>c fb gen. b_p3 b = Some c \<and> Aggregate (b_globalGen b) (ps p) = Some (fb, gen) \<and> p3_Compile c (ps p) fb = Compiled code)"

definition stays :: "'c bridge \<Rightarrow> 'c bridge \<Rightarrow> ProfileData \<Rightarrow> ProfileData \<Rightarrow> bool" where
  "stays b b' pd pd' \<longleftrightarrow> pd_TierState pd' = pd_TierState pd \<and> pd_CompileTried pd' = pd_CompileTried pd \<and>
     b_gibbousCodes b' = b_gibbousCodes b \<and> stuck_total b' = stuck_total b"

definition sticks :: "'c bridge \<Rightarrow> 'c bridge \<Rightarrow> ProfileData \<Rightarrow> ProfileData \<Rightarrow> bool" where
  "sticks b b' pd pd' \<longleftrightarrow> pd_TierState pd = TierInterp \<and> pd_TierState pd' = TierStuck \<and> pd_CompileTried pd' \<and>
     b_gibbousCodes b' = b_gibbousCodes b \<and> stuck_total b' = stuck_total b + 1"

definition promotes :: "(pref \<Rightarrow> proto) \<Rightarrow> bool \<Rightarrow> pref \<Rightarrow> 'c bridge \<Rightarrow> 'c bridge \<Rightarrow> ProfileData \<Rightarrow> ProfileData \<Rightarrow> bool" where
  "promotes ps m p b b' pd pd' \<longleftrightarrow> pd_TierState pd = TierInterp \<and> pd_TierState pd' = TierGibbous \<and> pd_CompileTried pd' \<and>
     stuck_total b' = stuck_total b \<and> m \<and> compilable_now ps b p pd \<and> (b_forceAll b \<or> worth b (ps p)) \<and>
     (\<exists>code. b_gibbousCodes b' = (b_gibbousCodes b)(p \<mapsto> code) \<and> compiled_by ps b p code)"

definition counters_grow :: "'c bridge \<Rightarrow> 'c bridge \<Rightarrow> bool" where
  "counters_grow b b' \<longleftrightarrow> b_stuckNotCompilable b \<le> b_stuckNotCompilable b' \<and> b_stuckDeclined b \<le> b_stuckDeclined b' \<and>
     b_stuckCompileFailed b \<le> b_stuckCompileFailed b'"

text \<open>Why a proto got stuck: its verdict after the look, else the backend's opinion of it, else the failed compilation.\<close>

datatype stuck_cause = StuckNotCompilable | StuckDeclined | StuckCompileFailed

definition cause_of :: "(pref \<Rightarrow> proto) \<Rightarrow> 'c bridge \<Rightarrow> pref \<Rightarrow> ProfileData \<Rightarrow> stuck_cause" where
  "cause_of ps b p pd' =
     (if pd_Compilable pd' \<noteq> CompCompilable then StuckNotCompilable
      else if \<not> b_forceAll b \<and> \<not> worth b (ps p) then StuckDeclined else StuckCompileFailed)"

fun tally :: "'c bridge \<Rightarrow> stuck_cause \<Rightarrow> int" where
  "tally b StuckNotCompilable = b_stuckNotCompilable b"
| "tally b StuckDeclined = b_stuckDeclined b"
| "tally b StuckCompileFailed = b_stuckCompileFailed b"

text \<open>The counter of the cause goes up when the proto gets stuck, and no other one.\<close>

definition counts :: "(pref \<Rightarrow> proto) \<Rightarrow> pref \<Rightarrow> 'c bridge \<Rightarrow> 'c bridge \<Rightarrow> ProfileData \<Rightarrow> ProfileData \<Rightarrow> bool" where
  "counts ps p b b' pd pd' \<longleftrightarrow> (\<forall>c. tally b' c = tally b c +
     (if pd_TierState pd \<noteq> TierStuck \<and> pd_TierState pd' = TierStuck \<and> c = cause_of ps b p pd' then 1 else 0))"

lemma all_causes: "(\<forall>c. P c) \<longleftrightarrow> P StuckNotCompilable \<and> P StuckDeclined \<and> P StuckCompileFailed"
  by (metis stuck_cause.exhaust)

lemma counts_same: "pd_TierState pd' = pd_TierState pd \<Longrightarrow> counts ps p b b pd pd'" by (simp add: counts_def)

definition hook_effect :: "(pref \<Rightarrow> proto) \<Rightarrow> bool \<Rightarrow> pref \<Rightarrow> 'c bridge \<Rightarrow> 'c bridge \<Rightarrow> bool" where
  "hook_effect ps m p b b' \<longleftrightarrow>
     cfg b' = cfg b \<and> b_pdByID b' = b_pdByID b \<and> counters_grow b b' \<and>
     (\<exists>pd pd'. b_profileTable b p = Some pd \<and> b_profileTable b' = (b_profileTable b)(p \<mapsto> pd') \<and>
        counts ps p b b' pd pd' \<and>
        (stays b b' pd pd' \<or> sticks b b' pd pd' \<or> promotes ps m p b b' pd pd'))"

text \<open>A proto still interpreted has no code.\<close>

definition no_code_yet :: "'c bridge \<Rightarrow> pref \<Rightarrow> bool" where
  "no_code_yet b p \<longleftrightarrow> (\<exists>pd. b_profileTable b p = Some pd \<and> (pd_TierState pd = TierInterp \<longrightarrow> b_gibbousCodes b p = None))"

lemma effectI:
  assumes "b_profileTable b p = Some pd" "cfg b' = cfg b" "b_pdByID b' = b_pdByID b" "counters_grow b b'"
    "b_profileTable b' = (b_profileTable b)(p \<mapsto> pd')"
    "counts ps p b b' pd pd'" "stays b b' pd pd' \<or> sticks b b' pd pd' \<or> promotes ps m p b b' pd pd'"
  shows "hook_effect ps m p b b'"
  using assms by (auto simp: hook_effect_def)

lemma hook_effect_refl: "b_profileTable b p = Some pd \<Longrightarrow> hook_effect ps m p b b"
  by (auto simp: hook_effect_def counters_grow_def stays_def fun_upd_triv counts_same intro!: exI [of _ pd])

definition minor :: "(ProfileData \<Rightarrow> ProfileData) \<Rightarrow> bool" where
  "minor f \<longleftrightarrow> (\<forall>pd. pd_TierState (f pd) = pd_TierState pd \<and> pd_CompileTried (f pd) = pd_CompileTried pd)"

lemma minor_comp: "minor f \<Longrightarrow> minor g \<Longrightarrow> minor (f \<circ> g)" by (simp add: minor_def)

lemma hook_effect_pre:
  assumes "hook_effect ps m p (upd_pd p f b) b'" "b_profileTable b p = Some pd" "minor f"
    "pd_Compilable (f pd) = CompCompilable \<Longrightarrow> compilable_now ps b p pd"
  shows "hook_effect ps m p b b'"
proof -
  have st: "stuck_total (upd_pd p f b) = stuck_total b" by (simp add: stuck_total_def bridge_simps)
  have pd: "pd_of b p = pd" using assms(2) by (simp add: pd_of_def)
  from assms(1) obtain pd' where e: "cfg b' = cfg b" "b_pdByID b' = b_pdByID b" "counters_grow b b'"
    "b_profileTable b' = (b_profileTable b)(p \<mapsto> pd')"
    "counts ps p (upd_pd p f b) b' (f pd) pd'"
    "stays (upd_pd p f b) b' (f pd) pd' \<or> sticks (upd_pd p f b) b' (f pd) pd' \<or>
     promotes ps m p (upd_pd p f b) b' (f pd) pd'"
    by (auto simp: hook_effect_def bridge_simps counters_grow_def pd)
  have "compilable_now ps (upd_pd p f b) p (f pd) \<Longrightarrow> compilable_now ps b p pd"
    using assms(4) by (auto simp: compilable_now_def bridge_simps)
  then have "stays b b' pd pd' \<or> sticks b b' pd pd' \<or> promotes ps m p b b' pd pd'"
    using e(6) assms(3)
    by (auto simp add: stays_def sticks_def promotes_def minor_def st compiled_by_def bridge_simps)
  moreover have "counts ps p b b' pd pd'"
    using e(5) assms(3) by (simp add: counts_def all_causes cause_of_def minor_def bridge_simps)
  ultimately show ?thesis using e(1-4) assms(2) by (auto simp: hook_effect_def)
qed

lemma no_code_upd: "no_code_yet b p \<Longrightarrow> minor f \<Longrightarrow> no_code_yet (upd_pd p f b) p"
  by (auto simp: no_code_yet_def minor_def bridge_simps pd_of_def)

lemmas effect_defs = hook_effect_def stays_def sticks_def promotes_def counters_grow_def stuck_total_def set_stuck_def
  counts_def all_causes cause_of_def

lemma tryCompile_simps:
  assumes "tryCompile ps b p fb = (r, b')"
  shows "b_profileTable b' = b_profileTable b" "b_pdByID b' = b_pdByID b" "cfg b' = cfg b"
    "b_gibbousCodes b' = b_gibbousCodes b" "b_stuckNotCompilable b' = b_stuckNotCompilable b"
    "b_stuckDeclined b' = b_stuckDeclined b" "b_stuckCompileFailed b' = b_stuckCompileFailed b"
  using assms by (auto simp: tryCompile_def bridge_simps split: option.splits compile_outcome.splits)

lemma tryCompile_code:
  assumes "tryCompile ps b p fb = (Inr code, b')"
  shows "\<exists>c. b_p3 b = Some c \<and> p3_Compile c (ps p) fb = Compiled code"
  using assms by (auto simp: tryCompile_def split: option.splits compile_outcome.splits)

lemma field_upd_simps [bridge_simps]:
  "cfg (b\<lparr>b_globalGen := g\<rparr>) = cfg b" "pd_of (b\<lparr>b_globalGen := g\<rparr>) = pd_of b"
  "cfg (b\<lparr>b_stuckNotCompilable := n\<rparr>) = cfg b" "pd_of (b\<lparr>b_stuckNotCompilable := n\<rparr>) = pd_of b"
  "cfg (b\<lparr>b_stuckDeclined := n\<rparr>) = cfg b" "pd_of (b\<lparr>b_stuckDeclined := n\<rparr>) = pd_of b"
  "cfg (b\<lparr>b_stuckCompileFailed := n\<rparr>) = cfg b" "pd_of (b\<lparr>b_stuckCompileFailed := n\<rparr>) = pd_of b"
  "cfg (installGibbous p c b) = cfg b" "pd_of (installGibbous p c b) = pd_of b"
  "b_profileTable (installGibbous p c b) = b_profileTable b" "b_pdByID (installGibbous p c b) = b_pdByID b"
  "b_gibbousCodes (installGibbous p c b) = (b_gibbousCodes b)(p \<mapsto> c)"
  "b_stuckNotCompilable (installGibbous p c b) = b_stuckNotCompilable b"
  "b_stuckDeclined (installGibbous p c b) = b_stuckDeclined b"
  "b_stuckCompileFailed (installGibbous p c b) = b_stuckCompileFailed b"
  by (simp_all add: cfg_def pd_of_def fun_eq_iff installGibbous_def)

lemma compile_effect:
  assumes run: "compile_and_install ps b p p = Some b'" and pd: "b_profileTable b p = Some pd"
    and new: "b_gibbousCodes b p = None" "pd_TierState pd = TierInterp"
    and ok: "m" "pd_Compilable pd = CompCompilable" "b_forceAll b \<or> worth b (ps p)"
  shows "hook_effect ps m p b b'"
proof -
  let ?f = "\<lambda>fb pd. pd\<lparr>pd_Feedback := Some fb, pd_CompileTried := True\<rparr>"
  have cn: "compilable_now ps b p pd" using ok(2) by (simp add: compilable_now_def)
  have pd_of: "pd_of b p = pd" by (simp add: pd_of_def pd)
  from run new(1) obtain fb gen r b2 where agg: "Aggregate (b_globalGen b) (ps p) = Some (fb, gen)"
    and tc: "tryCompile ps (upd_pd p (?f fb) (b\<lparr>b_globalGen := gen\<rparr>)) p fb = (r, b2)"
    and b': "Some b' = (case r of Inl err \<Rightarrow>
            let b = upd_pd p set_stuck b2; b = b\<lparr>b_stuckCompileFailed := b_stuckCompileFailed b + 1\<rparr> in
            Some (log (LogCompileFail p (pd_of b p) err) b)
        | Inr code \<Rightarrow>
            let b = upd_pd p (\<lambda>pd. pd\<lparr>pd_TierState := TierGibbous\<rparr>) (installGibbous p code b2) in
            Some (log (LogPromoted p (pd_of b p)) b))"
    by (auto simp: compile_and_install_def domIff Let_def split: Option.bind_splits prod.splits)
  note b2 = tryCompile_simps [OF tc, unfolded bridge_simps]
  have pd2: "pd_of b2 p = ?f fb pd" by (simp add: pd_of_def b2 bridge_simps pd)
  show ?thesis
  proof (cases r)
    case (Inl err)
    with b' show ?thesis
      by (intro effectI [OF pd, of _ "(?f fb pd)\<lparr>pd_TierState := TierStuck\<rparr>"])
        (simp_all add: effect_defs Let_def bridge_simps b2 pd2 pd_of new ok fun_upd_upd)
  next
    case (Inr code)
    from tryCompile_code [OF tc [unfolded Inr]] agg have "compiled_by ps b p code"
      by (auto simp: compiled_by_def bridge_simps)
    with Inr b' ok cn show ?thesis
      by (intro effectI [OF pd, of _ "(?f fb pd)\<lparr>pd_TierState := TierGibbous\<rparr>"])
        (auto simp add: effect_defs Let_def bridge_simps b2 pd2 pd_of new)
  qed
qed

lemma upd_pd_id: "b_profileTable b p = Some pd \<Longrightarrow> upd_pd p (\<lambda>pd. pd) b = b"
  by (simp add: upd_pd_def pd_of_def fun_upd_idem)

lemma upd_pd_upd_pd: "upd_pd p f (upd_pd p g b) = upd_pd p (f \<circ> g) b"
  by (simp add: upd_pd_def pd_of_def)

lemma recheck_compilable:
  "recheckCompilabilityRuntime b (ps p) = CompCompilable \<Longrightarrow> compilable_now ps b p pd"
  by (auto simp: recheckCompilabilityRuntime_def checkF7BackendSupport_def compilable_now_def HasAny_def Let_def
      CompCompilable_def CompNotCompilable_def split: if_splits option.splits)

text \<open>The gate changes the profile only in its verdict, its reasons and the entry of the last look.\<close>

lemma gate_effect:
  assumes "gate ps b p p = Some (cv, b1)" "b_profileTable b p = Some pd"
  obtains f where "b1 = upd_pd p f b" "minor f"
    "pd_EntryCount (f pd) = pd_EntryCount pd" "pd_BackEdge (f pd) = pd_BackEdge pd"
    "pd_recheckedAtEntry (f pd) = pd_recheckedAtEntry pd \<or> pd_recheckedAtEntry (f pd) = pd_EntryCount pd + 1"
    "pd_floorExempt (f pd) = pd_floorExempt pd"
    "cv = CompCompilable \<longleftrightarrow> pd_Compilable (f pd) = CompCompilable"
    "pd_Compilable (f pd) = CompCompilable \<Longrightarrow> compilable_now ps b p pd"
proof -
  have pd: "pd_of b p = pd" using assms(2) by (simp add: pd_of_def)
  let ?r = "\<lambda>pd. pd\<lparr>pd_recheckedAtEntry := pd_EntryCount pd + 1\<rparr>"
  let ?c = "\<lambda>pd. pd\<lparr>pd_Compilable := CompCompilable, pd_Reasons := 0\<rparr>"
  consider (old) "b1 = b" "cv = pd_Compilable pd"
    | (yes) "b1 = upd_pd p (?c \<circ> ?r) b" "cv = CompCompilable" "recheckCompilabilityRuntime b (ps p) = CompCompilable"
    | (no) "b1 = upd_pd p ?r b" "cv \<noteq> CompCompilable" "pd_Compilable pd \<noteq> CompCompilable"
    using assms(1)
    by (auto simp: gate_def Let_def bridge_simps pd upd_pd_upd_pd split: if_splits)
  then show thesis
  proof cases
    case old
    then show thesis
      by (intro that [of "\<lambda>pd. pd"]) (simp_all add: upd_pd_id [OF assms(2)] minor_def compilable_now_def)
  next
    case yes
    then show thesis by (intro that [of "?c \<circ> ?r"]) (simp_all add: minor_def recheck_compilable)
  next
    case no
    then show thesis by (intro that [of ?r]) (simp_all add: minor_def)
  qed
qed

lemma stick_effect:
  assumes pd: "b_profileTable b p = Some pd" "pd_TierState pd = TierInterp"
    and b': "cfg b' = cfg b" "b_pdByID b' = b_pdByID b" "b_gibbousCodes b' = b_gibbousCodes b" "counters_grow b b'"
      "stuck_total b' = stuck_total b + 1"
      "counts ps p b b' pd ((set_stuck pd)\<lparr>pd_CompileTried := True\<rparr>)"
      "b_profileTable b' = (b_profileTable b)(p \<mapsto> (set_stuck pd)\<lparr>pd_CompileTried := True\<rparr>)"
  shows "hook_effect ps m p b b'"
  using assms by (intro effectI [OF pd(1) b'(1,2,4,7,6)]) (simp_all add: sticks_def set_stuck_def)

lemma stick_sites:
  assumes pd: "b_profileTable b p = Some pd" "pd_TierState pd = TierInterp"
    and u: "u = upd_pd p (\<lambda>pd. (set_stuck pd)\<lparr>pd_CompileTried := True\<rparr>) b"
  shows "pd_Compilable pd \<noteq> CompCompilable \<Longrightarrow>
      hook_effect ps m p b (log e (u\<lparr>b_stuckNotCompilable := b_stuckNotCompilable u + 1\<rparr>))"
    "pd_Compilable pd = CompCompilable \<Longrightarrow> \<not> b_forceAll b \<Longrightarrow> \<not> worth b (ps p) \<Longrightarrow>
      hook_effect ps m p b (log e (u\<lparr>b_stuckDeclined := b_stuckDeclined u + 1\<rparr>))"
  unfolding u
  by (rule stick_effect [OF pd];
      simp add: bridge_simps counters_grow_def stuck_total_def pd_of_def pd counts_def all_causes cause_of_def set_stuck_def)+

lemma considerPromotion_effect:
  assumes run: "considerPromotion ps b p p m = Some b'" and nc: "no_code_yet b p"
  shows "hook_effect ps m p b b'"
proof -
  from nc obtain pd where pd: "b_profileTable b p = Some pd" "pd_TierState pd = TierInterp \<Longrightarrow> b_gibbousCodes b p = None"
    by (auto simp: no_code_yet_def)
  then have pd_of: "pd_of b p = pd" by (simp add: pd_of_def)
  note same = hook_effect_refl [OF pd(1)]
  show ?thesis
  proof (cases "pd_TierState pd \<noteq> TierInterp \<or> \<not> m \<or> gate ps b p p = None")
    case True
    with run have "b' = b" by (auto simp: considerPromotion_def pd_of split: if_splits)
    with same show ?thesis by simp
  next
    case False
    then obtain cv b1 where gt: "gate ps b p p = Some (cv, b1)" and m: m and ti: "pd_TierState pd = TierInterp" by auto
    from gate_effect [OF gt pd(1)] obtain f where f: "b1 = upd_pd p f b" "minor f"
      "cv = CompCompilable \<longleftrightarrow> pd_Compilable (f pd) = CompCompilable"
      "pd_Compilable (f pd) = CompCompilable \<Longrightarrow> compilable_now ps b p pd" by metis
    have p1: "b_profileTable b1 p = Some (f pd)" "pd_TierState (f pd) = TierInterp" "pd_of b1 p = f pd"
      "b_gibbousCodes b1 p = None" "b_p3 b1 = b_p3 b"
      using f(1,2) ti pd by (simp_all add: bridge_simps pd_of minor_def)
    have "hook_effect ps m p b1 b'"
    proof (cases "cv = CompCompilable")
      case False
      with run gt ti m p1 show ?thesis
        using False f(3)
        by (auto simp: considerPromotion_def pd_of Let_def split: if_splits
            intro: hook_effect_refl stick_sites [OF p1(1,2) refl])
    next
      case True
      then have cn: "pd_Compilable (f pd) = CompCompilable" using f(3) by simp
      show ?thesis
      proof (cases "b_forceAll b1 \<or> worth b1 (ps p)")
        case w: False
        with run gt ti m p1 True cn show ?thesis
          by (auto simp: considerPromotion_def pd_of Let_def split: if_splits intro: stick_sites [OF p1(1,2) refl])
      next
        case w: True
        with run gt ti m True have "compile_and_install ps b1 p p = Some b'"
          by (auto simp: considerPromotion_def pd_of split: if_splits)
        from compile_effect [OF this p1(1,4,2) m cn w] show ?thesis .
      qed
    qed
    from hook_effect_pre [OF this [unfolded f(1)] pd(1) f(2,4)] show ?thesis by simp
  qed
qed

end
