(* ===== verification/BridgeHook.thy ===== *)
theory BridgeHook
  imports BridgeRun
begin

text \<open>
  The sampling hooks as an interface: what one hook of a proto may do (the locale \<open>sampling_hook\<close>), proved of
  \<open>onEnterPD\<close> and \<open>onBackEdgePD\<close>, and the invariant of the bridge that every hook keeps.
\<close>

section \<open>What a hook does to the counters\<close>

text \<open>\<open>considerPromotion\<close> keeps the heat of a proto and the floor's answer for it; the entry of the last look is kept or
  set to the next one.\<close>

definition same_heat :: "ProfileData \<Rightarrow> ProfileData \<Rightarrow> bool" where
  "same_heat pd pd' \<longleftrightarrow> pd_EntryCount pd' = pd_EntryCount pd \<and> pd_BackEdge pd' = pd_BackEdge pd \<and>
     (pd_recheckedAtEntry pd' = pd_recheckedAtEntry pd \<or> pd_recheckedAtEntry pd' = pd_EntryCount pd + 1) \<and>
     (pd_floorExempt pd \<noteq> floorExemptUnasked \<longrightarrow> pd_floorExempt pd' = pd_floorExempt pd)"

lemma same_heat_refl [simp]: "same_heat pd pd" by (simp add: same_heat_def)

definition heat_kept :: "'c bridge \<Rightarrow> pref \<Rightarrow> 'c bridge \<Rightarrow> bool" where
  "heat_kept b p b' \<longleftrightarrow> (\<exists>pd'. b_profileTable b' p = Some pd' \<and> same_heat (pd_of b p) pd')"

lemma heat_upd: "same_heat (pd_of b p) (f (pd_of b p)) \<Longrightarrow> heat_kept b p (upd_pd p f b)"
  by (simp add: heat_kept_def bridge_simps)

lemma heat_refl: "b_profileTable b p = Some pd \<Longrightarrow> heat_kept b p b" by (simp add: heat_kept_def pd_of_def)

lemma heat_pre:
  "heat_kept (upd_pd p f b) p b' \<Longrightarrow> same_heat (pd_of b p) (f (pd_of b p)) \<Longrightarrow> heat_kept b p b'"
  by (auto simp: heat_kept_def bridge_simps same_heat_def)

lemma compile_heat:
  assumes "compile_and_install ps b p p = Some b'"
  shows "heat_kept b p b'"
proof (cases "p \<in> dom (b_gibbousCodes b)")
  case True
  with assms show ?thesis
    by (auto simp: compile_and_install_def heat_kept_def bridge_simps same_heat_def Let_def)
next
  case False
  let ?f = "\<lambda>fb pd. pd\<lparr>pd_Feedback := Some fb, pd_CompileTried := True\<rparr>"
  from assms False obtain fb gen r b2 where
    tc: "tryCompile ps (upd_pd p (?f fb) (b\<lparr>b_globalGen := gen\<rparr>)) p fb = (r, b2)"
    and b': "Some b' = (case r of Inl err \<Rightarrow>
            let b = upd_pd p set_stuck b2; b = b\<lparr>b_stuckCompileFailed := b_stuckCompileFailed b + 1\<rparr> in
            Some (log (LogCompileFail p (pd_of b p) err) b)
        | Inr code \<Rightarrow>
            let b = upd_pd p (\<lambda>pd. pd\<lparr>pd_TierState := TierGibbous\<rparr>) (installGibbous p code b2) in
            Some (log (LogPromoted p (pd_of b p)) b))"
    by (auto simp: compile_and_install_def domIff Let_def split: Option.bind_splits prod.splits)
  have "pd_of b2 p = ?f fb (pd_of b p)"
    using tryCompile_simps(1) [OF tc] by (simp add: pd_of_def bridge_simps)
  with b' show ?thesis
    by (cases r) (simp_all add: heat_kept_def bridge_simps same_heat_def Let_def set_stuck_def)
qed

lemma considerPromotion_heat:
  assumes run: "considerPromotion ps b p p m = Some b'" and pd: "b_profileTable b p = Some pd"
  shows "heat_kept b p b'"
proof (cases "pd_TierState pd \<noteq> TierInterp \<or> \<not> m \<or> gate ps b p p = None")
  case True
  with run pd have "b' = b" by (auto simp: considerPromotion_def pd_of_def split: if_splits)
  with heat_refl [OF pd] show ?thesis by simp
next
  case False
  have pd_of: "pd_of b p = pd" using pd by (simp add: pd_of_def)
  from False obtain cv b1 where gt: "gate ps b p p = Some (cv, b1)" by auto
  from gate_effect [OF gt pd] obtain f where f: "b1 = upd_pd p f b"
    "pd_EntryCount (f pd) = pd_EntryCount pd" "pd_BackEdge (f pd) = pd_BackEdge pd"
    "pd_recheckedAtEntry (f pd) = pd_recheckedAtEntry pd \<or> pd_recheckedAtEntry (f pd) = pd_EntryCount pd + 1"
    "pd_floorExempt (f pd) = pd_floorExempt pd" by metis
  have "b_profileTable b1 p = Some (pd_of b1 p)" unfolding f(1) by (simp add: bridge_simps)
  with run gt False have "heat_kept b1 p b'"
    by (auto simp: considerPromotion_def pd_of Let_def heat_kept_def bridge_simps set_stuck_def same_heat_def
        split: if_splits dest!: compile_heat)
  from heat_pre [OF this [unfolded f(1)]] f(2-5) show ?thesis by (simp add: pd_of same_heat_def)
qed

section \<open>The floor\<close>

text \<open>The floor lets a proto through: long enough, or exempted when the backend was asked.\<close>

definition above_floor :: "(pref \<Rightarrow> proto) \<Rightarrow> 'c bridge \<Rightarrow> pref \<Rightarrow> ProfileData \<Rightarrow> bool" where
  "above_floor ps b p pd \<longleftrightarrow> effectiveMinPromotableLen b \<le> int (length (pr_Code (ps p))) \<or>
     b_floorExempter b \<noteq> None \<and> pd_floorExempt pd = floorExemptYes"

lemma above_floor_heat: "above_floor ps b p pd \<Longrightarrow> same_heat pd pd' \<Longrightarrow> above_floor ps b p pd'"
  by (auto simp: above_floor_def same_heat_def)

lemma flooredOut_effect:
  assumes "flooredOut ps b p p = (out, b1)" "b_profileTable b p = Some pd"
  obtains f where "b1 = upd_pd p f b" "minor f" "pd_Compilable (f pd) = pd_Compilable pd"
    "pd_EntryCount (f pd) = pd_EntryCount pd" "pd_BackEdge (f pd) = pd_BackEdge pd"
    "pd_recheckedAtEntry (f pd) = pd_recheckedAtEntry pd"
    "pd_floorExempt pd \<noteq> floorExemptUnasked \<Longrightarrow> pd_floorExempt (f pd) = pd_floorExempt pd"
    "out \<or> above_floor ps b p (f pd)"
proof -
  note goalI = that
  have same: thesis if "b1 = b" "out \<or> above_floor ps b p pd"
    using that by (intro goalI [of "\<lambda>pd. pd"]) (simp_all add: upd_pd_id [OF assms(2)] minor_def)
  show thesis
  proof (cases "effectiveMinPromotableLen b \<le> int (length (pr_Code (ps p)))")
    case True
    with assms(1) show thesis by (intro same) (auto simp: flooredOut_def above_floor_def)
  next
    case False
    show thesis
    proof (cases "b_floorExempter b")
      case None
      with False assms(1) show thesis by (intro same) (auto simp: flooredOut_def)
    next
      case (Some ex)
      let ?f = "\<lambda>pd. pd\<lparr>pd_floorExempt := (if ex (ps p) then floorExemptYes else floorExemptNo)\<rparr>"
      show thesis
      proof (cases "pd_floorExempt pd = floorExemptUnasked")
        case True
        with False Some assms show thesis
          by (intro that [of ?f]) (auto simp: flooredOut_def Let_def pd_of_def minor_def bridge_simps above_floor_def)
      next
        case exempt: False
        with False Some assms show thesis
          by (intro same; cases "pd_floorExempt pd") (auto simp: flooredOut_def Let_def pd_of_def above_floor_def)
      qed
    qed
  qed
qed

section \<open>The hooks\<close>

definition tier_of :: "'c bridge \<Rightarrow> pref \<Rightarrow> TierState" where
  "tier_of b p = (case b_profileTable b p of Some pd \<Rightarrow> pd_TierState pd | None \<Rightarrow> TierInterp)"

text \<open>A proto has earned a look: forced, or past a threshold and let through by the floor.\<close>

definition hot_enough :: "(pref \<Rightarrow> proto) \<Rightarrow> 'c bridge \<Rightarrow> pref \<Rightarrow> ProfileData \<Rightarrow> bool" where
  "hot_enough ps b p pd \<longleftrightarrow>
     b_forceAll b \<or>
     (b_hotEntry b \<le> pd_EntryCount pd \<or> (\<exists>c \<in> set (back_edges pd). b_hotBackEdge b \<le> c)) \<and>
     above_floor ps b p pd"

lemma past_threshold_effect:
  assumes run: "past_threshold ps b p p m = Some b'" and nc: "no_code_yet b p"
  shows "hook_effect ps m p b b'" "heat_kept b p b'"
    "tier_of b' p \<noteq> tier_of b p \<Longrightarrow> b_forceAll b \<or> above_floor ps b p (pd_of b' p)"
proof -
  from nc obtain pd where pd: "b_profileTable b p = Some pd" by (auto simp: no_code_yet_def)
  then have pd_of: "pd_of b p = pd" by (simp add: pd_of_def)
  show "hook_effect ps m p b b'" "heat_kept b p b'"
    "tier_of b' p \<noteq> tier_of b p \<Longrightarrow> b_forceAll b \<or> above_floor ps b p (pd_of b' p)"
  proof (atomize (full), cases "b_forceAll b")
    case True
    with run have c: "considerPromotion ps b p p m = Some b'" by (simp add: past_threshold_def)
    from considerPromotion_effect [OF c nc] considerPromotion_heat [OF c pd] True
    show "hook_effect ps m p b b' \<and> heat_kept b p b' \<and> (tier_of b' p \<noteq> tier_of b p \<longrightarrow>
       b_forceAll b \<or> above_floor ps b p (pd_of b' p))" by simp
  next
    case False
    obtain out b1 where fl: "flooredOut ps b p p = (out, b1)" by (cases "flooredOut ps b p p")
    from flooredOut_effect [OF fl pd] obtain f where f: "b1 = upd_pd p f b" "minor f"
      "pd_Compilable (f pd) = pd_Compilable pd" "same_heat pd (f pd)"
      "out \<or> above_floor ps b p (f pd)"
      unfolding same_heat_def by metis
    have p1: "b_profileTable b1 p = Some (f pd)" by (simp add: f(1) bridge_simps pd_of)
    have nc1: "no_code_yet b1 p" unfolding f(1) by (rule no_code_upd [OF nc f(2)])
    have cn: "pd_Compilable (f pd) = CompCompilable \<Longrightarrow> compilable_now ps b p pd"
      using f(3) by (simp add: compilable_now_def)
    have tier1: "tier_of b1 p = tier_of b p" using f(1,2) pd by (simp add: tier_of_def bridge_simps pd_of minor_def)
    have above: "above_floor ps b p (f pd) \<Longrightarrow> heat_kept b1 p b' \<Longrightarrow> above_floor ps b p (pd_of b' p)"
      using above_floor_heat p1 by (auto simp: heat_kept_def pd_of_def)
    have "hook_effect ps m p b1 b' \<and> heat_kept b1 p b' \<and> (out \<longrightarrow> b' = b1)"
      using run False fl hook_effect_refl [OF p1] heat_refl [OF p1] considerPromotion_effect [OF _ nc1]
        considerPromotion_heat [OF _ p1] by (auto simp: past_threshold_def split: if_splits)
    with hook_effect_pre [OF _ pd f(2) cn, folded f(1)] heat_pre [of p f b b', folded f(1)] f(4,5) tier1 above
    show "hook_effect ps m p b b' \<and> heat_kept b p b' \<and> (tier_of b' p \<noteq> tier_of b p \<longrightarrow>
       b_forceAll b \<or> above_floor ps b p (pd_of b' p))"
      by (auto simp: pd_of)
  qed
qed

text \<open>What every hook promises.\<close>

locale sampling_hook =
  fixes hook :: "(pref \<Rightarrow> proto) \<Rightarrow> 'c bridge \<Rightarrow> pref \<Rightarrow> 'c bridge option" and main :: bool
  assumes effect: "no_code_yet b p \<Longrightarrow> hook ps b p = Some b' \<Longrightarrow> hook_effect ps main p b b'"
    and off: "b_tierOff b \<Longrightarrow> hook ps b p = Some b"
    and earned: "no_code_yet b p \<Longrightarrow> hook ps b p = Some b' \<Longrightarrow> tier_of b' p \<noteq> tier_of b p \<Longrightarrow>
      hot_enough ps b p (pd_of b' p)"

lemma floor_upd [bridge_simps]:
  "effectiveMinPromotableLen (upd_pd p f b) = effectiveMinPromotableLen b"
  "above_floor ps (upd_pd p f b) p pd = above_floor ps b p pd"
  by (simp_all add: effectiveMinPromotableLen_def above_floor_def bridge_simps)

lemma effect_after:
  assumes nc: "no_code_yet b p" and f: "minor f" "\<And>pd. pd_Compilable (f pd) = pd_Compilable pd"
    and run: "past_threshold ps (upd_pd p f b) p p m = Some b'"
    and hot: "b_forceAll b \<or> b_hotEntry b \<le> pd_EntryCount (f (pd_of b p)) \<or>
      (\<exists>c \<in> set (back_edges (f (pd_of b p))). b_hotBackEdge b \<le> c)"
  shows "hook_effect ps m p b b'" "tier_of b' p \<noteq> tier_of b p \<Longrightarrow> hot_enough ps b p (pd_of b' p)"
proof -
  from nc obtain pd where pd: "b_profileTable b p = Some pd" by (auto simp: no_code_yet_def)
  then have pd_of: "pd_of b p = pd" by (simp add: pd_of_def)
  note pt = past_threshold_effect [OF run no_code_upd [OF nc f(1)]]
  show "hook_effect ps m p b b'"
    using hook_effect_pre [OF pt(1) pd f(1)] f(2) by (simp add: compilable_now_def)
  show "hot_enough ps b p (pd_of b' p)" if "tier_of b' p \<noteq> tier_of b p"
  proof -
    have "tier_of (upd_pd p f b) p = tier_of b p" using f(1) pd by (simp add: tier_of_def bridge_simps pd_of minor_def)
    with pt(3) that have "b_forceAll b \<or> above_floor ps b p (pd_of b' p)"
      by (simp add: bridge_simps)
    moreover have "pd_EntryCount (pd_of b' p) = pd_EntryCount (f (pd_of b p))"
      "back_edges (pd_of b' p) = back_edges (f (pd_of b p))"
      using pt(2) by (auto simp: heat_kept_def same_heat_def bridge_simps back_edges_def pd_of_def)
    ultimately show ?thesis using hot unfolding hot_enough_def by auto
  qed
qed

lemma effect_quiet:
  assumes "no_code_yet b p" "minor f" "\<And>pd. pd_Compilable (f pd) = pd_Compilable pd"
  shows "hook_effect ps m p b (upd_pd p f b)" "tier_of (upd_pd p f b) p = tier_of b p"
proof -
  from assms(1) obtain pd where pd: "b_profileTable b p = Some pd" by (auto simp: no_code_yet_def)
  have "b_profileTable (upd_pd p f b) p = Some (f pd)" using pd by (simp add: bridge_simps pd_of_def)
  from hook_effect_pre [OF hook_effect_refl [OF this] pd assms(2)] assms(3)
  show "hook_effect ps m p b (upd_pd p f b)" by (simp add: compilable_now_def)
  show "tier_of (upd_pd p f b) p = tier_of b p"
    using assms(2) pd by (simp add: tier_of_def bridge_simps pd_of_def minor_def)
qed

definition count_entry :: "ProfileData \<Rightarrow> ProfileData" where
  "count_entry pd = pd\<lparr>pd_EntryCount := pd_EntryCount pd + 1\<rparr>"

lemma count_entry_minor: "minor count_entry" "pd_Compilable (count_entry pd) = pd_Compilable pd"
  by (simp_all add: minor_def count_entry_def)

lemma onEnterPD_cases:
  assumes "onEnterPD ps b p p m = Some b'" "no_code_yet b p"
  obtains (same) "b' = b" "b_tierOff b \<or> tier_of b p \<noteq> TierInterp"
  | (counted) "\<not> b_tierOff b" "tier_of b p = TierInterp" "b' = upd_pd p count_entry b"
      "\<not> b_forceAll b" "\<not> b_hotEntry b \<le> pd_EntryCount (pd_of b p) + 1"
  | (considered) "\<not> b_tierOff b" "tier_of b p = TierInterp"
      "b_forceAll b \<or> b_hotEntry b \<le> pd_EntryCount (pd_of b p) + 1"
      "past_threshold ps (upd_pd p count_entry b) p p m = Some b'"
  using assms that
  by (auto simp: onEnterPD_def Let_def bridge_simps count_entry_def [abs_def] tier_of_def pd_of_def no_code_yet_def
      split: if_splits)

lemma onEnterPD_effect:
  assumes run: "onEnterPD ps b p p m = Some b'" and nc: "no_code_yet b p"
  shows "hook_effect ps m p b b' \<and> (tier_of b' p \<noteq> tier_of b p \<longrightarrow> hot_enough ps b p (pd_of b' p))"
  using assms
proof (cases rule: onEnterPD_cases)
  case same
  from nc obtain pd where "b_profileTable b p = Some pd" by (auto simp: no_code_yet_def)
  then show ?thesis using same(1) by (simp add: hook_effect_refl)
next
  case counted
  then show ?thesis using effect_quiet [OF nc count_entry_minor] by simp
next
  case considered
  have "b_forceAll b \<or> b_hotEntry b \<le> pd_EntryCount (count_entry (pd_of b p))"
    using considered(3) by (simp add: count_entry_def)
  with effect_after [OF nc count_entry_minor considered(4)] show ?thesis by blast
qed

text \<open>The profile update of a back edge in range.\<close>

definition count_edge :: "proto \<Rightarrow> u32 \<Rightarrow> int \<Rightarrow> ProfileData \<Rightarrow> ProfileData" where
  "count_edge pr hot pc = rearm hot (nat pc) \<circ> count_back_edge (nat pc) \<circ> allocBackEdge pr"

lemma allocBackEdge_minor: "minor (allocBackEdge pr)" "pd_Compilable (allocBackEdge pr pd) = pd_Compilable pd"
  by (simp_all add: minor_def allocBackEdge_def)

lemma count_edge_minor: "minor (count_edge pr hot pc)" "pd_Compilable (count_edge pr hot pc pd) = pd_Compilable pd"
  by (simp_all add: minor_def count_edge_def rearm_def count_back_edge_def allocBackEdge_def)

lemma back_edges_count_edge:
  "back_edges (count_edge pr hot pc pd) =
     (back_edges (allocBackEdge pr pd)) [nat pc := back_edges (allocBackEdge pr pd) ! nat pc + 1]"
  by (auto simp: count_edge_def rearm_def count_back_edge_def back_edges_def allocBackEdge_def split: option.splits)

lemma onBackEdgePD_cases:
  assumes "onBackEdgePD ps b p p pc m = Some b'" "no_code_yet b p"
  obtains (same) "b' = b" "b_tierOff b \<or> tier_of b p \<noteq> TierInterp"
  | (outside) "tier_of b p = TierInterp" "b' = upd_pd p (allocBackEdge (ps p)) b"
  | (counted) "tier_of b p = TierInterp" "b' = upd_pd p (count_edge (ps p) (b_hotBackEdge b) pc) b"
  | (considered) "\<not> b_tierOff b" "tier_of b p = TierInterp"
      "b_forceAll b \<or> (\<exists>c \<in> set (back_edges (count_edge (ps p) (b_hotBackEdge b) pc (pd_of b p))). b_hotBackEdge b \<le> c)"
      "past_threshold ps (upd_pd p (count_edge (ps p) (b_hotBackEdge b) pc) b) p p m = Some b'"
proof (cases "b_tierOff b \<or> tier_of b p \<noteq> TierInterp")
  case True
  with assms show thesis
    by (intro that(1)) (auto simp: onBackEdgePD_def tier_of_def pd_of_def no_code_yet_def split: if_splits)
next
  case False
  then have go: "\<not> b_tierOff b" "pd_TierState (pd_of b p) = TierInterp"
    using assms(2) by (auto simp: tier_of_def pd_of_def no_code_yet_def)
  let ?u = "upd_pd p (count_edge (ps p) (b_hotBackEdge b) pc) b"
  let ?xs = "back_edges (allocBackEdge (ps p) (pd_of b p))"
  have u: "upd_pd p (rearm (b_hotBackEdge b) (nat pc) \<circ> count_back_edge (nat pc)) (upd_pd p (allocBackEdge (ps p)) b) = ?u"
    by (simp add: upd_pd_upd_pd count_edge_def)
  show thesis
  proof (cases "pc < 0 \<or> int (length ?xs) \<le> pc")
    case True
    with go assms(1) False show thesis
      by (intro that(2)) (simp_all add: onBackEdgePD_def Let_def bridge_simps)
  next
    case inside: False
    have pcs: "nat pc < length (back_edges (count_edge (ps p) (b_hotBackEdge b) pc (pd_of b p)))"
      using inside by (auto simp: back_edges_count_edge)
    have "(if b_hotBackEdge b \<le> back_edges (count_edge (ps p) (b_hotBackEdge b) pc (pd_of b p)) ! nat pc \<or> b_forceAll b
           then past_threshold ps ?u p p m else Some ?u) = Some b'"
      using go assms(1) inside by (simp add: onBackEdgePD_def Let_def bridge_simps u)
    with False that(3,4) nth_mem [OF pcs] show thesis by (auto split: if_splits)
  qed
qed

lemma onBackEdgePD_effect:
  assumes run: "onBackEdgePD ps b p p pc m = Some b'" and nc: "no_code_yet b p"
  shows "hook_effect ps m p b b' \<and> (tier_of b' p \<noteq> tier_of b p \<longrightarrow> hot_enough ps b p (pd_of b' p))"
  using assms
proof (cases rule: onBackEdgePD_cases)
  case same
  from nc obtain pd where "b_profileTable b p = Some pd" by (auto simp: no_code_yet_def)
  then show ?thesis using same(1) by (simp add: hook_effect_refl)
next
  case outside
  then show ?thesis using effect_quiet [OF nc allocBackEdge_minor] by simp
next
  case counted
  then show ?thesis using effect_quiet [OF nc count_edge_minor] by simp
next
  case considered
  then show ?thesis using effect_after [OF nc count_edge_minor considered(4)] by blast
qed

section \<open>The invariant\<close>

definition tiers_ok :: "'c bridge \<Rightarrow> bool" where
  "tiers_ok b \<longleftrightarrow> finite (dom (b_profileTable b)) \<and>
     (\<forall>p. b_gibbousCodes b p \<noteq> None \<longleftrightarrow> tier_of b p = TierGibbous) \<and>
     stuck_total b = int (card {p. tier_of b p = TierStuck}) \<and>
     0 \<le> b_stuckNotCompilable b \<and> 0 \<le> b_stuckDeclined b \<and> 0 \<le> b_stuckCompileFailed b \<and>
     (\<forall>p pd. b_profileTable b p = Some pd \<and> pd_TierState pd \<noteq> TierInterp \<longrightarrow> pd_CompileTried pd)"

lemma tier_dom: "tier_of b p \<noteq> TierInterp \<Longrightarrow> p \<in> dom (b_profileTable b)"
  by (auto simp: tier_of_def split: option.splits)

lemma tiers_no_code: "tiers_ok b \<Longrightarrow> p \<in> dom (b_profileTable b) \<Longrightarrow> no_code_yet b p"
  by (force simp: tiers_ok_def no_code_yet_def tier_of_def)

lemma hook_effect_tier:
  assumes "hook_effect ps m p b b'"
  obtains (stays) "tier_of b' = tier_of b" "b_gibbousCodes b' = b_gibbousCodes b" "stuck_total b' = stuck_total b"
  | (sticks) "tier_of b p = TierInterp" "tier_of b' = (tier_of b)(p := TierStuck)"
      "b_gibbousCodes b' = b_gibbousCodes b" "stuck_total b' = stuck_total b + 1"
  | (promotes) code where "tier_of b p = TierInterp" "tier_of b' = (tier_of b)(p := TierGibbous)"
      "b_gibbousCodes b' = (b_gibbousCodes b)(p \<mapsto> code)" "stuck_total b' = stuck_total b"
      "m" "compilable_now ps b p (pd_of b p)" "b_forceAll b \<or> worth b (ps p)" "compiled_by ps b p code"
proof -
  from assms obtain pd pd' where pd: "b_profileTable b p = Some pd" "b_profileTable b' = (b_profileTable b)(p \<mapsto> pd')"
    "stays b b' pd pd' \<or> sticks b b' pd pd' \<or> promotes ps m p b b' pd pd'" by (auto simp: hook_effect_def)
  have t: "tier_of b p = pd_TierState pd" "pd_of b p = pd" "tier_of b' = (tier_of b)(p := pd_TierState pd')"
    using pd(1,2) by (auto simp: tier_of_def pd_of_def fun_eq_iff)
  from pd(3) show thesis
  proof (elim disjE)
    assume "stays b b' pd pd'"
    then show thesis using t by (intro that(1)) (auto simp: stays_def fun_upd_idem)
  next
    assume "sticks b b' pd pd'"
    then show thesis using t by (intro that(2)) (auto simp: sticks_def)
  next
    assume "promotes ps m p b b' pd pd'"
    then obtain code where "b_gibbousCodes b' = (b_gibbousCodes b)(p \<mapsto> code)" "compiled_by ps b p code"
      "promotes ps m p b b' pd pd'" by (auto simp: promotes_def)
    then show thesis using t by (intro that(3) [of code]) (auto simp: promotes_def)
  qed
qed

lemma stuck_finite: "finite (dom (b_profileTable b)) \<Longrightarrow> finite {p. tier_of b p = t \<and> t \<noteq> TierInterp}"
  by (rule finite_subset [of _ "dom (b_profileTable b)"]) (auto dest: tier_dom)

lemma hook_effect_ok:
  assumes e: "hook_effect ps m p b b'" and ok: "tiers_ok b"
  shows "tiers_ok b'"
proof -
  from e have side: "finite (dom (b_profileTable b'))" "0 \<le> b_stuckNotCompilable b'" "0 \<le> b_stuckDeclined b'"
    "0 \<le> b_stuckCompileFailed b'"
    "\<forall>q pd. b_profileTable b' q = Some pd \<and> pd_TierState pd \<noteq> TierInterp \<longrightarrow> pd_CompileTried pd"
    using ok by (auto simp: hook_effect_def tiers_ok_def counters_grow_def stays_def sticks_def promotes_def
        split: if_splits)
  have fin: "finite {q. tier_of b q = TierStuck}" using ok stuck_finite [of b TierStuck] by (simp add: tiers_ok_def)
  from e have "(\<forall>q. b_gibbousCodes b' q \<noteq> None \<longleftrightarrow> tier_of b' q = TierGibbous) \<and>
    stuck_total b' = int (card {q. tier_of b' q = TierStuck})"
  proof (cases rule: hook_effect_tier)
    case stays
    then show ?thesis using ok by (simp add: tiers_ok_def)
  next
    case sticks
    have "{q. tier_of b' q = TierStuck} = insert p {q. tier_of b q = TierStuck}" by (auto simp: sticks(2))
    then show ?thesis using sticks ok fin by (auto simp: tiers_ok_def card_insert_if)
  next
    case (promotes code)
    have "{q. tier_of b' q = TierStuck} = {q. tier_of b q = TierStuck}" using promotes(1) by (auto simp: promotes(2))
    then show ?thesis using promotes ok by (auto simp: tiers_ok_def)
  qed
  with side show ?thesis by (simp add: tiers_ok_def)
qed

context sampling_hook
begin

lemma keeps:
  assumes "tiers_ok b" "p \<in> dom (b_profileTable b)" "hook ps b p = Some b'"
  shows "tiers_ok b'"
  using hook_effect_ok [OF effect [OF tiers_no_code [OF assms(1,2)] assms(3)] assms(1)] .

lemma one_way:
  assumes "tiers_ok b" "p \<in> dom (b_profileTable b)" "hook ps b p = Some b'" "tier_of b q \<noteq> TierInterp"
  shows "tier_of b' q = tier_of b q \<and> b_gibbousCodes b' q = b_gibbousCodes b q"
  using effect [OF tiers_no_code [OF assms(1,2)] assms(3)] assms(4) by (cases rule: hook_effect_tier) auto

lemma other:
  assumes "tiers_ok b" "p \<in> dom (b_profileTable b)" "hook ps b p = Some b'" "q \<noteq> p"
  shows "b_profileTable b' q = b_profileTable b q"
  using effect [OF tiers_no_code [OF assms(1,2)] assms(3)] assms(4) by (auto simp: hook_effect_def)

lemma gated:
  assumes "tiers_ok b" "p \<in> dom (b_profileTable b)" "hook ps b p = Some b'"
    "tier_of b q \<noteq> TierGibbous" "tier_of b' q = TierGibbous"
  shows "q = p \<and> main \<and> \<not> b_tierOff b \<and> hot_enough ps b p (pd_of b' p) \<and> compilable_now ps b p (pd_of b p) \<and>
    (b_forceAll b \<or> worth b (ps p)) \<and> (\<exists>code. b_gibbousCodes b' p = Some code \<and> compiled_by ps b p code)"
proof -
  note nc = tiers_no_code [OF assms(1,2)]
  have on: "\<not> b_tierOff b" using off [of b ps p] assms(3-5) by auto
  from effect [OF nc assms(3)] show ?thesis
  proof (cases rule: hook_effect_tier)
    case (promotes code)
    then have "q = p" using assms(4,5) by (auto split: if_splits)
    with promotes on earned [OF nc assms(3)] show ?thesis by auto
  qed (use assms(4,5) in \<open>auto split: if_splits\<close>)
qed

end

lemma onEnterPD_off: "b_tierOff b \<Longrightarrow> onEnterPD ps b p p m = Some b" by (simp add: onEnterPD_def)

lemma onBackEdgePD_off: "b_tierOff b \<Longrightarrow> onBackEdgePD ps b p p pc m = Some b" by (simp add: onBackEdgePD_def)

interpretation enter: sampling_hook "\<lambda>ps b p. onEnterPD ps b p p m" m for m
  by (rule sampling_hook.intro) (use onEnterPD_effect onEnterPD_off in blast)+

interpretation back_edge: sampling_hook "\<lambda>ps b p. onBackEdgePD ps b p p pc m" m for pc m
  by (rule sampling_hook.intro) (use onBackEdgePD_effect onBackEdgePD_off in blast)+

end
