(* ===== verification/BridgeSpec.thy ===== *)
theory BridgeSpec
  imports BridgeHook
begin

text \<open>
  The contract of the bridge over whole runs: the statistics describe the tiers and the causes of being stuck, a
  decision is final, and a proto is promoted only through the gates.
\<close>

section \<open>Runs\<close>

text \<open>The proto an event samples, and whether on the main thread.\<close>

fun hook_target :: "(nat \<Rightarrow> pref) \<Rightarrow> 'c event \<Rightarrow> (pref \<times> bool) option" where
  "hook_target idmap (EvEnter p m) = Some (p, m)"
| "hook_target idmap (EvEnterID i m) = Some (idmap i, m)"
| "hook_target idmap (EvBackEdge p pc m) = Some (p, m)"
| "hook_target idmap (EvBackEdgeID i pc m) = Some (idmap i, m)"
| "hook_target idmap e = None"

text \<open>The proto whose profile an event finds or creates.\<close>

fun profiled :: "(nat \<Rightarrow> pref) \<Rightarrow> 'c event \<Rightarrow> pref option" where
  "profiled idmap (EvCompilability p c r) = Some p"
| "profiled idmap e = map_option fst (hook_target idmap e)"

fun on_main :: "'c event \<Rightarrow> bool" where
  "on_main (EvEnter p m) = m"
| "on_main (EvEnterID i m) = m"
| "on_main (EvBackEdge p pc m) = m"
| "on_main (EvBackEdgeID i pc m) = m"
| "on_main e = False"

fun pd_hook :: "'c event \<Rightarrow> (pref \<Rightarrow> proto) \<Rightarrow> 'c bridge \<Rightarrow> pref \<Rightarrow> 'c bridge option" where
  "pd_hook (EvEnter _ m) ps b p = onEnterPD ps b p p m"
| "pd_hook (EvEnterID _ m) ps b p = onEnterPD ps b p p m"
| "pd_hook (EvBackEdge _ pc m) ps b p = onBackEdgePD ps b p p pc m"
| "pd_hook (EvBackEdgeID _ pc m) ps b p = onBackEdgePD ps b p p pc m"
| "pd_hook e ps b p = Some b"

lemma no_hook_effect: "no_code_yet b p \<Longrightarrow> hook_effect ps m p b b"
  by (auto simp: no_code_yet_def intro: hook_effect_refl)

interpretation hook: sampling_hook "pd_hook e" "on_main e" for e
proof
  show "hook_effect ps (on_main e) p b b'" if "no_code_yet b p" "pd_hook e ps b p = Some b'"
    for b :: "'a bridge" and p ps b'
    using that by (cases e) (auto intro: enter.effect back_edge.effect no_hook_effect)
  show "pd_hook e ps b p = Some b" if "b_tierOff b" for b :: "'a bridge" and ps p
    using that by (cases e) (auto intro: enter.off back_edge.off)
  show "hot_enough ps b p (pd_of b' p)" if "no_code_yet b p" "pd_hook e ps b p = Some b'" "tier_of b' p \<noteq> tier_of b p"
    for b :: "'a bridge" and p ps b'
    using that by (cases e) (auto intro: enter.earned back_edge.earned)
qed

text \<open>The profile a hook of \<open>p\<close> finds or creates.\<close>

definition seen :: "(pref \<Rightarrow> proto) \<Rightarrow> 'c bridge \<Rightarrow> pref \<Rightarrow> ProfileData" where
  "seen ps b p = (case b_profileTable b p of Some pd \<Rightarrow> pd | None \<Rightarrow> new_profile (ps p))"

definition touched :: "(pref \<Rightarrow> proto) \<Rightarrow> pref \<Rightarrow> 'c bridge \<Rightarrow> 'c bridge \<Rightarrow> bool" where
  "touched ps p b b0 \<longleftrightarrow> cfg b0 = cfg b \<and> b_gibbousCodes b0 = b_gibbousCodes b \<and> b_globalGen b0 = b_globalGen b \<and>
     b_stuckNotCompilable b0 = b_stuckNotCompilable b \<and> b_stuckDeclined b0 = b_stuckDeclined b \<and>
     b_stuckCompileFailed b0 = b_stuckCompileFailed b \<and> b_profileTable b0 = (b_profileTable b)(p \<mapsto> seen ps b p)"

definition index_ok :: "(nat \<Rightarrow> pref) \<Rightarrow> 'c bridge \<Rightarrow> bool" where
  "index_ok idmap b \<longleftrightarrow> (\<forall>i < length (b_pdByID b). \<forall>k. b_pdByID b ! i = Some k \<longrightarrow>
     k = idmap i \<and> k \<in> dom (b_profileTable b))"

definition machine_ok :: "(nat \<Rightarrow> pref) \<Rightarrow> 'c bridge \<Rightarrow> bool" where
  "machine_ok idmap b \<longleftrightarrow> tiers_ok b \<and> index_ok idmap b \<and> 0 < b_hotEntry b"

lemma touched_profileOf: "touched ps p b (profileOf ps b p) \<and> b_pdByID (profileOf ps b p) = b_pdByID b"
  by (auto simp: touched_def profileOf_def seen_def cfg_def fun_upd_idem split: option.split)

lemma touched_tier:
  assumes "touched ps p b b0"
  shows "tier_of b0 = tier_of b" "pd_of b0 p = seen ps b p" "p \<in> dom (b_profileTable b0)"
  using assms by (auto simp: touched_def tier_of_def seen_def pd_of_def new_profile_def fun_eq_iff split: option.split)

lemma touched_ok: "touched ps p b b0 \<Longrightarrow> tiers_ok b \<Longrightarrow> tiers_ok b0"
  by (auto simp: tiers_ok_def touched_tier stuck_total_def)
    (auto simp: touched_def seen_def new_profile_def split: option.splits if_splits)

lemma profileOfID_touched:
  assumes "index_ok idmap b"
  obtains b0 where "profileOfID ps b (idmap i) i = (idmap i, b0)" "touched ps (idmap i) b b0" "index_ok idmap b0"
proof -
  let ?p = "idmap i"
  have t: "touched ps ?p b (profileOf ps b ?p)" and ix: "b_pdByID (profileOf ps b ?p) = b_pdByID b"
    using touched_profileOf by blast+
  have io: "index_ok idmap (profileOf ps b ?p)"
    using assms t ix by (auto simp: index_ok_def touched_def)
  show thesis
  proof (cases "i < length (b_pdByID b)")
    case False
    then show thesis using that [OF _ t io] by (simp add: profileOfID_def)
  next
    case True
    show thesis
    proof (cases "b_pdByID b ! i")
      case None
      let ?b0 = "(profileOf ps b ?p)\<lparr>b_pdByID := (b_pdByID b)[i := Some ?p]\<rparr>"
      have "touched ps ?p b ?b0" using t by (simp add: touched_def cfg_def)
      moreover have "index_ok idmap ?b0"
        using io ix touched_tier(3) [OF t] True by (auto simp: index_ok_def nth_list_update split: if_splits)
      ultimately show thesis using that True None ix by (simp add: profileOfID_def Let_def)
    next
      case (Some k)
      then have k: "k = ?p" "k \<in> dom (b_profileTable b)" using assms True by (auto simp: index_ok_def)
      then have "touched ps ?p b b" by (auto simp: touched_def seen_def fun_upd_idem)
      then show thesis using that True Some k assms by (simp add: profileOfID_def)
    qed
  qed
qed

lemma fire_hook:
  assumes "hook_target idmap e = Some (p, m)" "index_ok idmap b"
  obtains b0 where "touched ps p b b0" "index_ok idmap b0" "fire idmap e (ps, b) = map_option (Pair ps) (pd_hook e ps b0 p)"
    "on_main e = m"
proof -
  have io: "index_ok idmap (profileOf ps b p)"
    using assms(2) touched_profileOf [of ps p b] by (auto simp: index_ok_def touched_def)
  note direct = that [OF conjunct1 [OF touched_profileOf] io]
  show thesis
  proof (cases e)
    case (EvEnterID i m')
    from profileOfID_touched [OF assms(2), of ps i] obtain b0 where
      "profileOfID ps b (idmap i) i = (idmap i, b0)" "touched ps (idmap i) b b0" "index_ok idmap b0" .
    then show thesis using EvEnterID assms(1) that by (simp add: OnEnterID_def)
  next
    case (EvBackEdgeID i pc m')
    from profileOfID_touched [OF assms(2), of ps i] obtain b0 where
      "profileOfID ps b (idmap i) i = (idmap i, b0)" "touched ps (idmap i) b b0" "index_ok idmap b0" .
    then show thesis using EvBackEdgeID assms(1) that by (simp add: OnBackEdgeID_def)
  qed (use assms(1) direct in \<open>simp_all add: OnEnter_def OnBackEdge_def\<close>)
qed

section \<open>The invariant of the reachable states\<close>

lemma tier_upd: "minor f \<Longrightarrow> p \<in> dom (b_profileTable b) \<Longrightarrow> tier_of (upd_pd p f b) = tier_of b"
  by (auto simp: tier_of_def bridge_simps fun_eq_iff minor_def pd_of_def)

lemma tiers_upd:
  assumes f: "minor f" and p: "p \<in> dom (b_profileTable b)" and ok: "tiers_ok b"
  shows "tiers_ok (upd_pd p f b)"
proof -
  from p obtain pd where pd: "b_profileTable b p = Some pd" by auto
  then have "pd_of b p = pd" by (simp add: pd_of_def)
  with pd ok f tier_upd [OF f p] show ?thesis
    by (simp add: tiers_ok_def bridge_simps stuck_total_def minor_def) blast
qed

lemma settings_effect:
  assumes "fire idmap e (ps, b) = Some (ps', b')" "hook_target idmap e = None"
  shows "tier_of b' = tier_of b \<and> b_gibbousCodes b' = b_gibbousCodes b \<and> stuck_total b' = stuck_total b \<and>
    tally b' = tally b \<and> dom (b_profileTable b') = dom (b_profileTable b) \<union> set_option (profiled idmap e) \<and>
    (machine_ok idmap b \<longrightarrow> machine_ok idmap b')"
proof (cases e)
  case (EvCompilability p c r)
  have tp: "touched ps2 p b (profileOf ps2 b p)" "b_pdByID (profileOf ps2 b p) = b_pdByID b" for ps2
    using touched_profileOf by blast+
  let ?ps = "ps(p := (ps p)\<lparr>pr_Compilability := c, pr_CompReasons := r\<rparr>)"
  let ?f = "\<lambda>pd. pd\<lparr>pd_Compilable := c, pd_Reasons := r\<rparr>"
  from assms(1) EvCompilability have b': "b' = upd_pd p ?f (profileOf ?ps b p)"
    by (auto simp: SetCompilability_def Let_def)
  note t = tp(1) [of ?ps]
  have tiers: "tier_of b' = tier_of b"
    unfolding b' using tier_upd [OF _ touched_tier(3) [OF t], of ?f] touched_tier(1) [OF t] by (simp add: minor_def)
  have rest: "b_gibbousCodes b' = b_gibbousCodes b" "b_stuckNotCompilable b' = b_stuckNotCompilable b"
    "b_stuckDeclined b' = b_stuckDeclined b" "b_stuckCompileFailed b' = b_stuckCompileFailed b" "cfg b' = cfg b"
    "b_pdByID b' = b_pdByID b" "dom (b_profileTable b') = insert p (dom (b_profileTable b))"
    unfolding b' using t tp(2) by (auto simp: bridge_simps touched_def)
  have "tiers_ok b'" if "tiers_ok b"
    unfolding b' by (rule tiers_upd [OF _ touched_tier(3) [OF t] touched_ok [OF t that]]) (simp add: minor_def)
  moreover have "index_ok idmap b'" if "index_ok idmap b" using that by (auto simp: index_ok_def rest)
  ultimately show ?thesis using tiers rest EvCompilability
    by (auto simp: stuck_total_def machine_ok_def cfg_def fun_eq_iff all_causes)
next
  case (EvThresholds x y)
  with assms show ?thesis
    by (cases "0 < x"; cases "0 < y")
      (auto simp: SetHotThresholds_def tier_of_def stuck_total_def machine_ok_def tiers_ok_def index_ok_def fun_eq_iff
        all_causes Let_def)
next
  case (EvGrow n)
  with assms show ?thesis
    by (cases "n \<le> length (b_pdByID b)")
      (auto simp: GrowProfileIndex_def tier_of_def stuck_total_def machine_ok_def tiers_ok_def index_ok_def nth_append
        fun_eq_iff all_causes split: if_splits)
qed (use assms in \<open>auto simp: SetForceAllPromote_def SetTierEnabled_def SetHotThresholds_def SetP3Compiler_def
    SetLogger_def tier_of_def stuck_total_def machine_ok_def tiers_ok_def index_ok_def fun_eq_iff
    all_causes Let_def\<close>)

lemma hook_step:
  assumes run: "fire idmap e (ps, b) = Some (ps', b')" and t: "hook_target idmap e = Some (p, m)" and ok: "machine_ok idmap b"
  obtains b0 where "ps' = ps" "touched ps p b b0" "machine_ok idmap b0" "pd_hook e ps b0 p = Some b'"
    "on_main e = m" "p \<in> dom (b_profileTable b0)" "tiers_ok b0"
proof -
  from fire_hook [OF t, of b ps] ok obtain b0 where b0: "touched ps p b b0" "index_ok idmap b0"
    "fire idmap e (ps, b) = map_option (Pair ps) (pd_hook e ps b0 p)" "on_main e = m"
    by (auto simp: machine_ok_def)
  have "machine_ok idmap b0" using ok b0(1,2) touched_ok by (auto simp: machine_ok_def touched_def cfg_def)
  moreover have "pd_hook e ps b0 p = Some b'" "ps' = ps" using b0(3) run by (cases "pd_hook e ps b0 p"; simp)+
  ultimately show thesis using that b0(1,4) touched_tier(3) [OF b0(1)] by (auto simp: machine_ok_def)
qed

lemma machine_step:
  assumes run: "fire idmap e (ps, b) = Some (ps', b')" and ok: "machine_ok idmap b"
  shows "machine_ok idmap b'"
proof (cases "hook_target idmap e")
  case None
  with settings_effect [OF run] ok show ?thesis by blast
next
  case (Some pm)
  then obtain p m where "hook_target idmap e = Some (p, m)" by (cases pm) auto
  from hook_step [OF run this ok] obtain b0 where b0: "machine_ok idmap b0" "pd_hook e ps b0 p = Some b'"
    "p \<in> dom (b_profileTable b0)" "tiers_ok b0" by metis
  from hook.effect [OF tiers_no_code [OF b0(4,3)] b0(2)]
  have "cfg b' = cfg b0" "b_pdByID b' = b_pdByID b0" "dom (b_profileTable b') = insert p (dom (b_profileTable b0))"
    by (auto simp: hook_effect_def)
  with hook.keeps [OF b0(4,3,2)] b0(1) show ?thesis by (simp add: machine_ok_def cfg_def index_ok_def)
qed

lemma NewBridge_ok: "machine_ok idmap NewBridge"
  by (simp add: machine_ok_def tiers_ok_def index_ok_def NewBridge_def tier_of_def stuck_total_def HotEntryThreshold_def)

lemma reachable_ok: "bridge_reachable idmap (ps, b) \<Longrightarrow> machine_ok idmap b"
proof (induction "(ps, b)" arbitrary: ps b rule: bridge_reachable.induct)
  case (event s e)
  then show ?case by (cases s) (auto intro: machine_step)
qed (rule NewBridge_ok)

lemma step_one_way:
  assumes "fire idmap e (ps, b) = Some (ps', b')" "machine_ok idmap b" "tier_of b q \<noteq> TierInterp"
  shows "tier_of b' q = tier_of b q \<and> b_gibbousCodes b' q = b_gibbousCodes b q"
proof (cases "hook_target idmap e")
  case None
  with settings_effect [OF assms(1)] show ?thesis by simp
next
  case (Some pm)
  then obtain p m where "hook_target idmap e = Some (p, m)" by (cases pm) auto
  from hook_step [OF assms(1) this assms(2)] obtain b0 where b0: "touched ps p b b0" "pd_hook e ps b0 p = Some b'"
    "p \<in> dom (b_profileTable b0)" "tiers_ok b0" by metis
  from hook.one_way [OF b0(4,3,2), of q] assms(3) touched_tier(1) [OF b0(1)] b0(1) show ?thesis
    by (simp add: touched_def)
qed

section \<open>The counters of stuck protos\<close>

text \<open>A run with the cause of each proto that gets stuck in it, judged by the machine before the event and the verdict
  the event leaves in the profile.\<close>

definition note_stuck :: "'c machine \<Rightarrow> 'c machine \<Rightarrow> (pref \<rightharpoonup> stuck_cause) \<Rightarrow> pref \<rightharpoonup> stuck_cause" where
  "note_stuck s s' why p =
     (if tier_of (snd s) p \<noteq> TierStuck \<and> tier_of (snd s') p = TierStuck
      then Some (cause_of (fst s) (snd s) p (pd_of (snd s') p)) else why p)"

fun stuck_causes :: "(nat \<Rightarrow> pref) \<Rightarrow> 'c event list \<Rightarrow> 'c machine \<Rightarrow> (pref \<rightharpoonup> stuck_cause) \<Rightarrow> pref \<rightharpoonup> stuck_cause" where
  "stuck_causes idmap [] s why = why"
| "stuck_causes idmap (e # es) s why =
     (case fire idmap e s of None \<Rightarrow> why | Some s' \<Rightarrow> stuck_causes idmap es s' (note_stuck s s' why))"

definition stuck_why :: "'c bridge \<Rightarrow> (pref \<rightharpoonup> stuck_cause) \<Rightarrow> bool" where
  "stuck_why b why \<longleftrightarrow> dom why = {p. tier_of b p = TierStuck} \<and> (\<forall>c. tally b c = int (card {p. why p = Some c}))"

lemma note_same:
  "(\<And>q. tier_of b' q = TierStuck \<Longrightarrow> tier_of b q = TierStuck) \<Longrightarrow> note_stuck (ps, b) (ps', b') why = why"
  by (auto simp: note_stuck_def fun_eq_iff)

lemma touched_tally: "touched ps p b b0 \<Longrightarrow> tally b0 = tally b" by (auto simp: touched_def fun_eq_iff all_causes)

lemma hook_counts:
  assumes e: "hook_effect ps m p b0 b'" and t: "touched ps p b b0" and ok: "tiers_ok b" and w: "stuck_why b why"
  shows "stuck_why b' (note_stuck (ps, b) (ps, b') why)"
    "dom (b_profileTable b') = insert p (dom (b_profileTable b))"
proof -
  from e obtain pd pd' where pd: "b_profileTable b0 p = Some pd" "b_profileTable b' = (b_profileTable b0)(p \<mapsto> pd')"
    "counts ps p b0 b' pd pd'" by (auto simp: hook_effect_def)
  then show "dom (b_profileTable b') = insert p (dom (b_profileTable b))" using t by (auto simp: touched_def)
  have tiers: "tier_of b p = pd_TierState pd" "tier_of b' = (tier_of b)(p := pd_TierState pd')" "pd_of b' p = pd'"
    using pd(1,2) touched_tier(1) [OF t, symmetric] by (auto simp: tier_of_def pd_of_def fun_eq_iff)
  have cause: "cause_of ps b0 p pd' = cause_of ps b p pd'" using t by (auto simp: cause_of_def touched_def cfg_def worth_def)
  note ty = pd(3) [unfolded counts_def cause touched_tally [OF t]]
  show "stuck_why b' (note_stuck (ps, b) (ps, b') why)"
  proof (cases "pd_TierState pd \<noteq> TierStuck \<and> pd_TierState pd' = TierStuck")
    case False
    have "tier_of b' q = TierStuck \<longleftrightarrow> tier_of b q = TierStuck" for q
      using e
    proof (cases rule: hook_effect_tier)
      case stays
      then show ?thesis by (simp add: touched_tier(1) [OF t])
    next
      case sticks
      then have "pd_TierState pd = TierInterp" "pd_TierState pd' = TierStuck"
        using tiers(1) fun_cong [OF sticks(2), of p] fun_cong [OF tiers(2), of p] by (simp_all add: touched_tier(1) [OF t])
      with False show ?thesis by simp
    next
      case (promotes code)
      then show ?thesis using tiers(1) by (auto simp: touched_tier(1) [OF t])
    qed
    moreover from this have "note_stuck (ps, b) (ps, b') why = why" by (intro note_same) simp
    ultimately show ?thesis using w ty False by (auto simp: stuck_why_def)
  next
    case True
    let ?c = "cause_of ps b p pd'"
    have n: "note_stuck (ps, b) (ps, b') why = why(p \<mapsto> ?c)" using True by (auto simp: note_stuck_def tiers fun_eq_iff)
    have "p \<notin> dom why" using w True tiers(1) by (simp add: stuck_why_def)
    then have p: "why p = None" by (simp add: domIff)
    have fin: "finite {q. why q = Some c}" for c
      using stuck_finite [of b TierStuck] w ok
      by (intro finite_subset [of "{q. why q = Some c}" "dom why"]) (auto simp: stuck_why_def tiers_ok_def)
    have "{q. (why(p \<mapsto> ?c)) q = Some c} = (if c = ?c then insert p {q. why q = Some c} else {q. why q = Some c})" for c
      using p by auto
    moreover have "{q. tier_of b' q = TierStuck} = insert p {q. tier_of b q = TierStuck}" using True tiers by auto
    ultimately show ?thesis using w ty True fin p by (auto simp: stuck_why_def n)
  qed
qed

lemma step_counts:
  assumes run: "fire idmap e (ps, b) = Some (ps', b')" and ok: "machine_ok idmap b" and w: "stuck_why b why"
  shows "stuck_why b' (note_stuck (ps, b) (ps', b') why)"
    "dom (b_profileTable b') = dom (b_profileTable b) \<union> set_option (profiled idmap e)"
proof (atomize (full), cases "hook_target idmap e")
  case None
  from settings_effect [OF run None] have "tier_of b' = tier_of b" "tally b' = tally b"
    "dom (b_profileTable b') = dom (b_profileTable b) \<union> set_option (profiled idmap e)" by auto
  moreover from this have "note_stuck (ps, b) (ps', b') why = why" by (intro note_same) simp
  ultimately show "stuck_why b' (note_stuck (ps, b) (ps', b') why) \<and>
      dom (b_profileTable b') = dom (b_profileTable b) \<union> set_option (profiled idmap e)"
    using w by (auto simp: stuck_why_def)
next
  case (Some pm)
  then obtain p m where t: "hook_target idmap e = Some (p, m)" by (cases pm) auto
  then have pr: "profiled idmap e = Some p" by (cases e) auto
  from hook_step [OF run t ok] obtain b0 where b0: "ps' = ps" "touched ps p b b0" "pd_hook e ps b0 p = Some b'"
    "p \<in> dom (b_profileTable b0)" "tiers_ok b0" by metis
  from hook_counts [OF hook.effect [OF tiers_no_code [OF b0(5,4)] b0(3)] b0(2) _ w] ok b0(1) pr
  show "stuck_why b' (note_stuck (ps, b) (ps', b') why) \<and>
      dom (b_profileTable b') = dom (b_profileTable b) \<union> set_option (profiled idmap e)"
    by (auto simp: machine_ok_def)
qed

lemma run_counts:
  assumes "fire_all idmap es (ps, b) = Some (ps', b')" "machine_ok idmap b" "stuck_why b why"
  shows "stuck_why b' (stuck_causes idmap es (ps, b) why)"
    "dom (b_profileTable b') = dom (b_profileTable b) \<union> {p. \<exists>e \<in> set es. profiled idmap e = Some p}"
proof (atomize (full), use assms in \<open>induction es arbitrary: ps b why\<close>)
  case (Cons e es)
  then obtain ps1 b1 where f: "fire idmap e (ps, b) = Some (ps1, b1)" "fire_all idmap es (ps1, b1) = Some (ps', b')"
    by (auto split: Option.bind_splits)
  note s = step_counts [OF f(1) Cons.prems(2,3)]
  from Cons.IH [OF f(2) machine_step [OF f(1) Cons.prems(2)] s(1)] f(1) s(2) show ?case
    by (auto simp: set_eq_iff)
qed auto

lemma stats_of_tiers:
  assumes ok: "tiers_ok b"
  shows "card (dom (b_gibbousCodes b)) = card {p. tier_of b p = TierGibbous}"
    "int (card {p. tier_of b p = TierGibbous}) + b_stuckNotCompilable b + b_stuckDeclined b + b_stuckCompileFailed b
      \<le> int (card (dom (b_profileTable b)))"
    "card {p. tier_of b p = TierGibbous} = PromotionCount b"
    "\<forall>p. b_gibbousCodes b p \<noteq> None \<longleftrightarrow> tier_of b p = TierGibbous"
proof -
  let ?G = "{p. tier_of b p = TierGibbous}" and ?S = "{p. tier_of b p = TierStuck}"
  have G: "dom (b_gibbousCodes b) = ?G" using ok by (auto simp: tiers_ok_def domIff)
  then show "card (dom (b_gibbousCodes b)) = card ?G" "card ?G = PromotionCount b" by (simp_all add: PromotionCount_def)
  show "\<forall>p. b_gibbousCodes b p \<noteq> None \<longleftrightarrow> tier_of b p = TierGibbous" using ok by (simp add: tiers_ok_def)
  have fin: "finite (dom (b_profileTable b))" "finite ?G" "finite ?S"
    using ok stuck_finite [of b TierGibbous] stuck_finite [of b TierStuck] by (simp_all add: tiers_ok_def)
  have "card ?G + card ?S = card (?G \<union> ?S)" using fin by (intro card_Un_disjoint [symmetric]) auto
  also have "\<dots> \<le> card (dom (b_profileTable b))" by (rule card_mono [OF fin(1)]) (auto simp: tier_of_def split: option.splits)
  finally have "int (card ?G) + int (card ?S) \<le> int (card (dom (b_profileTable b)))" by simp
  with ok show "int (card ?G) + b_stuckNotCompilable b + b_stuckDeclined b + b_stuckCompileFailed b
      \<le> int (card (dom (b_profileTable b)))" by (simp add: tiers_ok_def stuck_total_def)
qed

section \<open>An example run\<close>

text \<open>A proto as it leaves the compiler, with the placeholder reason, and a backend that accepts everything.\<close>

definition example_proto :: proto where
  "example_proto = \<lparr>pr_Source = ''f'', pr_LineDefined = 1, pr_LineEnd = 2, pr_NumParams = 0, pr_IsVararg = False,
     pr_NeedsArg = False, pr_MaxStack = 2, pr_Code = replicate 10 0, pr_Consts = [], pr_StringLits = [],
     pr_StringLitIdx = [], pr_Protos = [], pr_SubNUps = [], pr_UpvalDescs = [], pr_LineInfo = [], pr_LocVars = [],
     pr_IC = replicate 10 \<lparr>ic_Shape = 0, ic_Index = 0, ic_TableRef = 0, ic_Kind = 0, ic_Refill = 0\<rparr>,
     pr_Compilability = CompNotCompilable, pr_CompReasons = ReasonBackendUnsupp, pr_IntrinsicCallPCs = []\<rparr>"

definition example_backend :: "nat P3Compiler" where
  "example_backend = \<lparr>p3_SupportsAllOpcodes = (\<lambda>pr. True), p3_Compile = (\<lambda>pr fb. Compiled (length (pr_Code pr))),
     p3_WorthPromoting = None, p3_ExemptFromFloor = None, p3_MinPromotableLen = None\<rparr>"

definition example_events :: "nat event list" where
  "example_events = [EvP3 (Some example_backend), EvThresholds 2 0, EvGrow 1]"

definition example_start :: "nat machine" where
  "example_start = the (fire_all (\<lambda>i. i) example_events (\<lambda>p. example_proto, NewBridge))"

definition example_warm :: "nat machine" where
  "example_warm = the (fire (\<lambda>i. i) (EvEnterID 0 True) example_start)"
definition example_hot :: "nat machine" where
  "example_hot = the (fire (\<lambda>i. i) (EvEnterID 0 True) example_warm)"

lemma example_runs:
  "\<not> Option.is_none (fire_all (\<lambda>i. i) example_events (\<lambda>p. example_proto, NewBridge))"
  "\<not> Option.is_none (fire (\<lambda>i. i) (EvEnterID 0 True) example_start)"
  "\<not> Option.is_none (fire (\<lambda>i. i) (EvEnterID 0 True) example_warm)"
  by code_simp+

lemma is_none_the: "\<not> Option.is_none x \<Longrightarrow> x = Some (the x)" by (cases x) simp_all

lemmas example_steps = example_runs [THEN is_none_the, folded example_start_def example_warm_def example_hot_def]

lemma example_reachable:
  "bridge_reachable (\<lambda>i. i) example_start" "bridge_reachable (\<lambda>i. i) example_warm" "bridge_reachable (\<lambda>i. i) example_hot"
proof -
  show 1: "bridge_reachable (\<lambda>i. i) example_start"
    by (rule fire_all_reachable [OF bridge_reachable.start example_steps(1)])
  show 2: "bridge_reachable (\<lambda>i. i) example_warm" by (rule bridge_reachable.event [OF 1 example_steps(2)])
  show "bridge_reachable (\<lambda>i. i) example_hot" by (rule bridge_reachable.event [OF 2 example_steps(3)])
qed

lemma example_tiers:
  "tier_of (snd example_warm) 0 = TierInterp" "tier_of (snd example_hot) 0 = TierGibbous"
  "b_gibbousCodes (snd example_hot) 0 = Some 10"
  by code_simp+

section \<open>The claims about safety\<close>

text \<open>C16. The statistics are exact after every run of a new bridge: as many promoted protos as profiles in the tier of
  compiled code, each with its code and no other proto with one; each of the three counters of stuck protos counts the
  protos that got stuck for its cause, no more and no less; and the profiled protos are those an event of the run named.\<close>

theorem stats_exact:
  assumes "fire_all idmap es (ps0, NewBridge) = Some (ps, b)"
  shows "let s = TierStatsSnapshot b; why = stuck_causes idmap es (ps0, NewBridge) Map.empty in
      ts_Promoted s = card {p. tier_of b p = TierGibbous} \<and>
      dom why = {p. tier_of b p = TierStuck} \<and>
      ts_StuckNotCompilable s = int (card {p. why p = Some StuckNotCompilable}) \<and>
      ts_StuckDeclined s = int (card {p. why p = Some StuckDeclined}) \<and>
      ts_StuckCompileFailed s = int (card {p. why p = Some StuckCompileFailed}) \<and>
      ts_Profiled s = card {p. \<exists>e \<in> set es. profiled idmap e = Some p} \<and>
      int (ts_Promoted s) + ts_StuckNotCompilable s + ts_StuckDeclined s + ts_StuckCompileFailed s \<le> int (ts_Profiled s) \<and>
      ts_TierEnabled s = TierEnabled b \<and> ts_Promoted s = PromotionCount b \<and>
      (\<forall>p. b_gibbousCodes b p \<noteq> None \<longleftrightarrow> tier_of b p = TierGibbous)"
proof -
  have "bridge_reachable idmap (ps, b)" by (rule fire_all_reachable [OF bridge_reachable.start assms])
  from reachable_ok [OF this] have ok: "tiers_ok b" by (simp add: machine_ok_def)
  have "stuck_why NewBridge (Map.empty :: pref \<rightharpoonup> stuck_cause)"
    by (auto simp: stuck_why_def all_causes NewBridge_def tier_of_def)
  from run_counts [OF assms NewBridge_ok this]
  have why: "stuck_why b (stuck_causes idmap es (ps0, NewBridge) Map.empty)"
    and prof: "dom (b_profileTable b) = {p. \<exists>e \<in> set es. profiled idmap e = Some p}"
    by (simp_all add: NewBridge_def)
  from why [unfolded stuck_why_def, THEN conjunct2, unfolded all_causes]
  show ?thesis
    using stats_of_tiers [OF ok] why unfolding Let_def prof [symmetric]
    by (auto simp: stuck_why_def TierStatsSnapshot_def TierEnabled_def)
qed

definition declining_backend :: "nat P3Compiler" where
  "declining_backend = example_backend\<lparr>p3_WorthPromoting := Some (\<lambda>pr. pr_LineDefined pr = 7)\<rparr>"

text \<open>Two protos: one the backend declines, one with a structural reason.\<close>

definition mixed_protos :: "pref \<Rightarrow> proto" where
  "mixed_protos p = (if p = 1 then example_proto\<lparr>pr_CompReasons := ReasonVararg\<rparr> else example_proto)"

definition mixed_events :: "nat event list" where
  "mixed_events = [EvP3 (Some declining_backend), EvThresholds 1 0, EvEnter 0 True, EvEnter 1 True]"

definition mixed_end :: "nat machine" where
  "mixed_end = the (fire_all (\<lambda>i. i) mixed_events (mixed_protos, NewBridge))"

lemma mixed_eval:
  "case fire_all (\<lambda>i. i) mixed_events (mixed_protos, NewBridge) of None \<Rightarrow> False
   | Some (ps, b) \<Rightarrow> b_stuckDeclined b = 1 \<and> b_stuckNotCompilable b = 1 \<and> b_stuckCompileFailed b = 0"
  by code_simp

lemma mixed_runs:
  "fire_all (\<lambda>i. i) mixed_events (mixed_protos, NewBridge) = Some (fst mixed_end, snd mixed_end)"
  "b_stuckDeclined (snd mixed_end) = 1" "b_stuckNotCompilable (snd mixed_end) = 1" "b_stuckCompileFailed (snd mixed_end) = 0"
  using mixed_eval by (auto simp: mixed_end_def split: option.splits)

theorem stats_exact_witness:
  "let why = stuck_causes (\<lambda>i. i) mixed_events (mixed_protos, NewBridge) Map.empty; s = TierStatsSnapshot (snd mixed_end) in
    dom why = {p. tier_of (snd mixed_end) p = TierStuck} \<and> card {p. why p = Some StuckDeclined} = 1 \<and>
    card {p. why p = Some StuckNotCompilable} = 1 \<and> card {p. why p = Some StuckCompileFailed} = 0 \<and> ts_Profiled s = 2 \<and>
    ts_Promoted s = card {p. tier_of (snd mixed_end) p = TierGibbous}"
proof -
  have "{p. \<exists>e \<in> set mixed_events. profiled (\<lambda>i. i) e = Some p} = {0, 1}" by (auto simp: mixed_events_def)
  with stats_exact [OF mixed_runs(1)] mixed_runs(2-4) show ?thesis
    by (simp add: Let_def TierStatsSnapshot_def)
qed

text \<open>C15. A decision is final: whatever events follow, a proto that has left the interpreter's tier keeps its tier and
  the code installed for it.\<close>

theorem decisions_are_final:
  assumes "bridge_reachable idmap (ps, b)" "fire_all idmap es (ps, b) = Some (ps', b')" "tier_of b p \<noteq> TierInterp"
  shows "tier_of b' p = tier_of b p \<and> b_gibbousCodes b' p = b_gibbousCodes b p"
  using reachable_ok [OF assms(1)] assms(2,3)
proof (induction es arbitrary: ps b)
  case (Cons e es)
  then obtain ps1 b1 where e: "fire idmap e (ps, b) = Some (ps1, b1)" "fire_all idmap es (ps1, b1) = Some (ps', b')"
    by (auto split: Option.bind_splits)
  from step_one_way [OF e(1) Cons.prems(1,3)] Cons.IH [OF machine_step [OF e(1) Cons.prems(1)] e(2)] Cons.prems(3)
  show ?case by simp
qed simp

definition example_rest :: "nat event list" where
  "example_rest = [EvTier False, EvEnterID 0 True, EvTier True, EvBackEdge 0 3 True]"

lemma example_rest_runs: "\<not> Option.is_none (fire_all (\<lambda>i. i) example_rest example_hot)" by code_simp

theorem decisions_are_final_witness:
  "\<exists>ps b. fire_all (\<lambda>i. i) example_rest example_hot = Some (ps, b) \<and> tier_of b 0 = TierGibbous \<and> b_gibbousCodes b 0 = Some 10"
proof -
  obtain ps b where r: "fire_all (\<lambda>i. i) example_rest (fst example_hot, snd example_hot) = Some (ps, b)"
    using is_none_the [OF example_rest_runs] by (cases "the (fire_all (\<lambda>i. i) example_rest example_hot)") simp
  from decisions_are_final [OF _ r, of 0] example_reachable(3) example_tiers(2,3) r show ?thesis by simp
qed

text \<open>C13. A proto is promoted only by one of its own hooks on the main thread with the tier enabled, once it is hot
  (forced, or past a threshold and not under the floor), found compilable (at compile time, or by the look at the real
  backend when only the placeholder reasons stand), and worth it unless forced; and the code installed is what the
  backend returned for it and its aggregated feedback.\<close>

theorem promotion_is_gated:
  assumes "bridge_reachable idmap (ps, b)" "fire idmap e (ps, b) = Some (ps', b')"
    "tier_of b p \<noteq> TierGibbous" "tier_of b' p = TierGibbous"
  shows "hook_target idmap e = Some (p, True) \<and> TierEnabled b \<and> hot_enough ps b p (pd_of b' p) \<and>
    compilable_now ps b p (seen ps b p) \<and> (b_forceAll b \<or> worth b (ps p)) \<and>
    (\<exists>code. b_gibbousCodes b' p = Some code \<and> compiled_by ps b p code)"
proof -
  note ok = reachable_ok [OF assms(1)]
  have "hook_target idmap e \<noteq> None" using settings_effect [OF assms(2)] assms(3,4) by metis
  then obtain q m where t: "hook_target idmap e = Some (q, m)" by auto
  from hook_step [OF assms(2) t ok] obtain b0 where b0: "touched ps q b b0" "pd_hook e ps b0 q = Some b'"
    "on_main e = m" "q \<in> dom (b_profileTable b0)" "tiers_ok b0" by metis
  have c: "cfg b0 = cfg b" using b0(1) by (simp add: touched_def)
  from hook.gated [OF b0(5,4,2), of p] assms(3,4) touched_tier(1,2) [OF b0(1)]
  have g: "p = q" m "\<not> b_tierOff b0" "hot_enough ps b0 p (pd_of b' p)" "compilable_now ps b0 p (seen ps b p)"
    "b_forceAll b0 \<or> worth b0 (ps p)" "\<exists>code. b_gibbousCodes b' p = Some code \<and> compiled_by ps b0 p code"
    using b0(3) by auto
  have "effectiveMinPromotableLen b0 = effectiveMinPromotableLen b"
    using c by (simp add: cfg_def effectiveMinPromotableLen_def)
  with g c b0(1) t show ?thesis
    by (auto simp: cfg_def TierEnabled_def hot_enough_def above_floor_def compilable_now_def compiled_by_def worth_def touched_def)
qed

theorem promotion_is_gated_witness:
  "TierEnabled (snd example_warm) \<and> b_gibbousCodes (snd example_hot) 0 = Some 10 \<and>
   compiled_by (fst example_warm) (snd example_warm) 0 10"
  using promotion_is_gated [of "\<lambda>i. i" "fst example_warm" "snd example_warm" "EvEnterID 0 True" "fst example_hot" "snd example_hot" 0]
    example_reachable(2) example_tiers example_steps(3) by simp

end
