(* ===== verification/BridgeLive.thy ===== *)
theory BridgeLive
  imports BridgeSpec
begin

text \<open>
  Liveness of the bridge: the hooks never fail on well-formed inline caches, and a proto entered often enough on the
  main thread is decided. And the switch: with the tier off nothing is counted or decided, and nothing is lost.
\<close>

section \<open>The hooks return\<close>

lemma compile_total: "ic_ok (ps p) \<Longrightarrow> compile_and_install ps b p p \<noteq> None"
  using Aggregate_ok [of "ps p" "b_globalGen b"]
  by (auto simp: compile_and_install_def Let_def split: prod.splits sum.splits)

lemma considerPromotion_total: "ic_ok (ps p) \<Longrightarrow> considerPromotion ps b p p m \<noteq> None"
  using compile_total [of ps p] by (auto simp: considerPromotion_def Let_def split: option.splits prod.splits)

lemma past_threshold_total: "ic_ok (ps p) \<Longrightarrow> past_threshold ps b p p m \<noteq> None"
  using considerPromotion_total [of ps p] by (auto simp: past_threshold_def split: prod.splits)

lemma pd_hook_total: "ic_ok (ps p) \<Longrightarrow> pd_hook e ps b p \<noteq> None"
  using past_threshold_total [of ps p]
  by (cases e) (auto simp: onEnterPD_def onBackEdgePD_def Let_def)

section \<open>A look decides\<close>

lemma gate_opens:
  "pd_recheckedAtEntry (pd_of b p) \<noteq> pd_EntryCount (pd_of b p) + 1 \<Longrightarrow> gate ps b p p \<noteq> None"
  by (auto simp: gate_def Let_def)

lemma compile_decides:
  assumes "compile_and_install ps b p p = Some b'"
  shows "tier_of b' p \<noteq> TierInterp"
  using assms
  by (auto simp: compile_and_install_def tier_of_def bridge_simps Let_def set_stuck_def
      split: if_splits Option.bind_splits prod.splits sum.splits)

lemma considerPromotion_decides:
  assumes run: "considerPromotion ps b p p True = Some b'" and pd: "b_profileTable b p = Some pd"
    and gate: "pd_recheckedAtEntry pd \<noteq> pd_EntryCount pd + 1" and window: "b_forceAll b \<Longrightarrow> 64 \<le> pd_EntryCount pd"
  shows "tier_of b' p \<noteq> TierInterp"
proof (cases "pd_TierState pd = TierInterp")
  case False
  with run pd show ?thesis by (simp add: considerPromotion_def pd_of_def tier_of_def)
next
  case True
  have pd_of: "pd_of b p = pd" using pd by (simp add: pd_of_def)
  with gate gate_opens [of b p ps] obtain cv b1 where gt: "gate ps b p p = Some (cv, b1)" by auto
  from gate_effect [OF gt pd] obtain f where f: "b1 = upd_pd p f b" "pd_EntryCount (f pd) = pd_EntryCount pd" by metis
  have "\<not> (b_forceAll b1 \<and> pd_EntryCount (pd_of b1 p) < 64)"
    using window f by (auto simp: bridge_simps pd_of not_less)
  with run gt True show ?thesis
    by (auto simp: considerPromotion_def pd_of Let_def tier_of_def bridge_simps set_stuck_def
        split: if_splits dest: compile_decides [unfolded tier_of_def])
qed

lemma past_threshold_decides:
  assumes run: "past_threshold ps b p p True = Some b'" and pd: "b_profileTable b p = Some pd"
    and floor: "b_forceAll b \<or> effectiveMinPromotableLen b \<le> int (length (pr_Code (ps p)))"
    and gate: "pd_recheckedAtEntry pd \<noteq> pd_EntryCount pd + 1" and window: "b_forceAll b \<Longrightarrow> 64 \<le> pd_EntryCount pd"
  shows "tier_of b' p \<noteq> TierInterp"
proof -
  have "considerPromotion ps b p p True = Some b'"
    using run floor by (auto simp: past_threshold_def flooredOut_def split: if_splits)
  from considerPromotion_decides [OF this pd gate window] show ?thesis .
qed

section \<open>Counting entries\<close>

definition limit :: "'c bridge \<Rightarrow> nat" where
  "limit b = (if b_forceAll b then 64 else unat (b_hotEntry b))"

text \<open>After \<open>n\<close> entries of \<open>p\<close>, \<open>k\<close> of them on the main thread: decided, or the profile counts \<open>n\<close>, the next entry has
  not been looked at, and fewer than the limit were on the main thread.\<close>

definition watched :: "(pref \<Rightarrow> proto) \<Rightarrow> pref \<Rightarrow> nat \<Rightarrow> nat \<Rightarrow> 'c bridge \<Rightarrow> bool" where
  "watched ps p n k b \<longleftrightarrow> tier_of b p \<noteq> TierInterp \<or>
     unat (pd_EntryCount (seen ps b p)) = n \<and> unat (pd_recheckedAtEntry (seen ps b p)) \<le> n + 1 \<and> k < limit b"

definition is_entry :: "'c event \<Rightarrow> bool" where
  "is_entry e \<longleftrightarrow> (case e of EvEnter _ _ \<Rightarrow> True | EvEnterID _ _ \<Rightarrow> True | _ \<Rightarrow> False)"

definition entry_of :: "(nat \<Rightarrow> pref) \<Rightarrow> pref \<Rightarrow> 'c event \<Rightarrow> bool" where
  "entry_of idmap p e \<longleftrightarrow> is_entry e \<and> map_option fst (hook_target idmap e) = Some p"

definition main_entry_of :: "(nat \<Rightarrow> pref) \<Rightarrow> pref \<Rightarrow> 'c event \<Rightarrow> bool" where
  "main_entry_of idmap p e \<longleftrightarrow> entry_of idmap p e \<and> on_main e"

lemma no_wrap: "unat (c :: u32) + 1 < 2 ^ 32 \<Longrightarrow> unat (c + 1) = unat c + 1"
  using unat_add_lem [of c 1] by simp

lemma heat_watched:
  assumes "heat_kept b p b'" "b_profileTable b p = Some pd"
    "unat (pd_EntryCount pd) = n" "unat (pd_recheckedAtEntry pd) \<le> n + 1" "n + 1 < 2 ^ 32" "k < limit b'"
  shows "watched ps p n k b'"
proof -
  from assms(1,2) obtain pd' where pd': "b_profileTable b' p = Some pd'" "same_heat pd pd'"
    by (auto simp: heat_kept_def pd_of_def)
  then show ?thesis using assms(3-6) no_wrap [of "pd_EntryCount pd"] by (auto simp: watched_def seen_def same_heat_def)
qed

lemma limit_cfg: "cfg b' = cfg b \<Longrightarrow> limit b' = limit b" by (simp add: limit_def cfg_def)

lemma enter_watched:
  assumes run: "onEnterPD ps b p p m = Some b'" and pd: "b_profileTable b p = Some pd" "pd_TierState pd = TierInterp"
    and ok: "tiers_ok b" "\<not> b_tierOff b"
      "b_forceAll b \<or> effectiveMinPromotableLen b \<le> int (length (pr_Code (ps p)))"
    and w: "unat (pd_EntryCount pd) = n" "unat (pd_recheckedAtEntry pd) \<le> n + 1" "k < limit b" "k \<le> n" "n + 2 < 2 ^ 32"
  shows "watched ps p (n + 1) (k + (if m then 1 else 0)) b'"
proof -
  have dom: "p \<in> dom (b_profileTable b)" and pd_of: "pd_of b p = pd" using pd by (auto simp: pd_of_def)
  note nc = tiers_no_code [OF ok(1) dom]
  have tier: "tier_of b p = TierInterp" using pd by (simp add: tier_of_def)
  have cnt: "unat (pd_EntryCount (count_entry pd)) = n + 1" "pd_recheckedAtEntry (count_entry pd) = pd_recheckedAtEntry pd"
    using no_wrap [of "pd_EntryCount pd"] w(1,5) by (simp_all add: count_entry_def)
  have pd1: "b_profileTable (upd_pd p count_entry b) p = Some (count_entry pd)" by (simp add: bridge_simps pd_of)
  have lim: "limit b' = limit b"
    using enter.effect [OF nc run] by (auto simp: hook_effect_def intro: limit_cfg)
  from run nc show ?thesis
  proof (cases rule: onEnterPD_cases)
    case same
    with ok tier show ?thesis by simp
  next
    case counted
    then have "n + 1 < limit b" using cnt by (simp add: limit_def count_entry_def pd_of word_le_nat_alt)
    then show ?thesis using counted(3) cnt w pd_of
      by (auto simp add: watched_def seen_def bridge_simps lim [unfolded counted(3)])
  next
    case considered
    show ?thesis
    proof (cases "m \<and> limit b \<le> n + 1")
      case False
      then have "k + (if m then 1 else 0) < limit b'" using w lim by auto
      from heat_watched [OF past_threshold_effect(2) [OF considered(4) no_code_upd [OF nc count_entry_minor(1)]] pd1 cnt(1)
        _ _ this] cnt(2) w show ?thesis by simp
    next
      case True
      have le: "(if b_forceAll b then 64 else b_hotEntry b) \<le> pd_EntryCount (count_entry pd)"
        using True cnt(1) by (auto simp: limit_def word_le_nat_alt)
      have "pd_recheckedAtEntry pd \<noteq> pd_EntryCount (count_entry pd) + 1"
        using cnt(1) w no_wrap [of "pd_EntryCount (count_entry pd)"] by auto
      moreover have "past_threshold ps (upd_pd p count_entry b) p p True = Some b'" using considered(4) True by simp
      ultimately have "tier_of b' p \<noteq> TierInterp"
        using ok(3) le cnt(2) by (intro past_threshold_decides [OF _ pd1]) (auto simp: bridge_simps)
      then show ?thesis by (simp add: watched_def)
    qed
  qed
qed

lemma edge_watched:
  assumes run: "onBackEdgePD ps b p p pc m = Some b'" and pd: "b_profileTable b p = Some pd" "pd_TierState pd = TierInterp"
    and ok: "tiers_ok b"
    and w: "unat (pd_EntryCount pd) = n" "unat (pd_recheckedAtEntry pd) \<le> n + 1" "k < limit b" "n + 2 < 2 ^ 32"
  shows "watched ps p n k b'"
proof -
  have dom: "p \<in> dom (b_profileTable b)" and pd_of: "pd_of b p = pd" using pd by (auto simp: pd_of_def)
  note nc = tiers_no_code [OF ok dom]
  have lim: "limit b' = limit b"
    using back_edge.effect [OF nc run] by (auto simp: hook_effect_def intro: limit_cfg)
  have same: "pd_EntryCount (count_edge pr h pc pd) = pd_EntryCount pd" "pd_EntryCount (allocBackEdge pr pd) = pd_EntryCount pd"
    "unat (pd_recheckedAtEntry (count_edge pr h pc pd)) \<le> unat (pd_recheckedAtEntry pd)"
    "pd_recheckedAtEntry (allocBackEdge pr pd) = pd_recheckedAtEntry pd" for pr h
    by (simp_all add: count_edge_def rearm_def count_back_edge_def allocBackEdge_def)
  have pd1: "b_profileTable (upd_pd p f b) p = Some (f pd)" for f by (simp add: bridge_simps pd_of)
  from run nc show ?thesis
  proof (cases rule: onBackEdgePD_cases)
    case same
    with w pd show ?thesis by (simp add: watched_def seen_def)
  next
    case outside
    then show ?thesis using w same by (auto simp: watched_def seen_def pd1 lim [unfolded outside(2)])
  next
    case counted
    then show ?thesis using w same order_trans [OF same(3) w(2)]
      by (auto simp: watched_def seen_def pd1 lim [unfolded counted(2)])
  next
    case considered
    from heat_watched [OF past_threshold_effect(2) [OF considered(4) no_code_upd [OF nc count_edge_minor(1)]] pd1 _
      order_trans [OF same(3) w(2)], of k] w(1,3,4) same(1) lim show ?thesis by simp
  qed
qed

section \<open>Runs of hooks\<close>

text \<open>The events of a program that runs undisturbed: hooks, and inline caches written as the interpreter writes them.\<close>

fun quiet :: "(pref \<Rightarrow> proto) \<Rightarrow> 'c event \<Rightarrow> bool" where
  "quiet ps (EvWarm p ics) \<longleftrightarrow> list_all2 slot_ok (pr_Code (ps p)) ics"
| "quiet ps e \<longleftrightarrow> hook_target (\<lambda>i. i) e \<noteq> None"

lemma quiet_cases:
  assumes "quiet ps e"
  obtains (warm) p ics where "e = EvWarm p ics" "list_all2 slot_ok (pr_Code (ps p)) ics"
  | (hook) p where "hook_target idmap e = Some (p, on_main e)"
  using assms that by (cases e) auto

lemma quiet_code: "(\<And>p. pr_Code (ps' p) = pr_Code (ps p)) \<Longrightarrow> quiet ps e \<Longrightarrow> quiet ps' e"
  by (cases e) auto

lemma warm_code: "pr_Code (warm ps p ics q) = pr_Code (ps q)" by (simp add: warm_def)

lemma warm_ok: "\<forall>q. ic_ok (ps q) \<Longrightarrow> list_all2 slot_ok (pr_Code (ps p)) ics \<Longrightarrow> \<forall>q. ic_ok (warm ps p ics q)"
  by (simp add: warm_def ic_ok_def)

lemma seen_warm: "pd_EntryCount (seen (warm ps p ics) b q) = pd_EntryCount (seen ps b q)"
  "pd_recheckedAtEntry (seen (warm ps p ics) b q) = pd_recheckedAtEntry (seen ps b q)"
  by (simp_all add: seen_def new_profile_def warm_def split: option.split)

definition floor_clear :: "(pref \<Rightarrow> proto) \<Rightarrow> pref \<Rightarrow> 'c bridge \<Rightarrow> bool" where
  "floor_clear ps p b \<longleftrightarrow> b_forceAll b \<or> effectiveMinPromotableLen b \<le> int (length (pr_Code (ps p)))"

lemma floor_clear_cfg: "cfg b' = cfg b \<Longrightarrow> floor_clear ps p b' = floor_clear ps p b"
  by (simp add: floor_clear_def effectiveMinPromotableLen_def cfg_def)

lemma watched_touched: "touched ps q b b0 \<Longrightarrow> watched ps p n k b \<Longrightarrow> watched ps p n k b0"
  by (auto simp: watched_def touched_tier limit_def touched_def cfg_def seen_def split: option.splits)

lemma watched_step:
  assumes hook: "pd_hook e ps b p = Some b'" "p \<in> dom (b_profileTable b)"
    and ok: "tiers_ok b" "\<not> b_tierOff b" "floor_clear ps q b"
    and w: "watched ps q n k b" "k \<le> n" "n + 2 < 2 ^ 32"
    and t: "hook_target idmap e = Some (p, on_main e)"
  shows "watched ps q (n + (if entry_of idmap q e then 1 else 0)) (k + (if main_entry_of idmap q e then 1 else 0)) b'"
proof (cases "tier_of b q = TierInterp")
  case False
  with hook.one_way [OF ok(1) hook(2,1), of q] show ?thesis by (simp add: watched_def)
next
  case True
  have lim: "limit b' = limit b"
    using hook.effect [OF tiers_no_code [OF ok(1) hook(2)] hook(1)] by (auto simp: hook_effect_def intro: limit_cfg)
  show ?thesis
  proof (cases "q = p")
    case False
    then have "b_profileTable b' q = b_profileTable b q" using hook.other [OF ok(1) hook(2,1)] by simp
    moreover have "\<not> entry_of idmap q e" "\<not> main_entry_of idmap q e"
      using False t by (auto simp: main_entry_of_def entry_of_def)
    ultimately show ?thesis using w(1) lim by (simp add: watched_def seen_def tier_of_def)
  next
    case same: True
    from hook(2) obtain pd where pd: "b_profileTable b p = Some pd" by auto
    with True same w(1) have pd2: "pd_TierState pd = TierInterp" "unat (pd_EntryCount pd) = n"
      "unat (pd_recheckedAtEntry pd) \<le> n + 1" "k < limit b"
      by (auto simp: tier_of_def watched_def seen_def)
    have E: "onEnterPD ps b p p m = Some b' \<Longrightarrow> watched ps p (n + 1) (k + (if m then 1 else 0)) b'" for m
      using enter_watched [of ps b p m b' pd n k] pd pd2 ok w(2,3) same by (simp add: floor_clear_def)
    have B: "onBackEdgePD ps b p p pc m = Some b' \<Longrightarrow> watched ps p n k b'" for pc m
      using edge_watched [of ps b p pc m b' pd n k] pd pd2 ok(1) w(3) by simp
    show ?thesis
      using hook(1) t same E B by (cases e) (auto simp: main_entry_of_def entry_of_def is_entry_def)
  qed
qed

abbreviation entries where "entries idmap p es \<equiv> length (filter (entry_of idmap p) es)"
abbreviation main_entries where "main_entries idmap p es \<equiv> length (filter (main_entry_of idmap p) es)"

lemma run_decides:
  assumes "machine_ok idmap b" "\<not> b_tierOff b" "\<forall>q. ic_ok (ps q)" "floor_clear ps p b" "watched ps p n k b" "k \<le> n"
    "list_all (quiet ps) es" "n + entries idmap p es + 2 < 2 ^ 32" "limit b \<le> k + main_entries idmap p es"
  shows "\<exists>ps' b'. fire_all idmap es (ps, b) = Some (ps', b') \<and> tier_of b' p \<noteq> TierInterp"
  using assms
proof (induction es arbitrary: ps b n k)
  case Nil
  then show ?case by (auto simp: watched_def)
next
  case (Cons e es)
  from Cons.prems(7) have "quiet ps e" by simp
  then show ?case
  proof (cases rule: quiet_cases [where idmap = idmap])
    case (warm q ics)
    let ?ps = "warm ps q ics"
    have "\<not> entry_of idmap p e" "\<not> main_entry_of idmap p e"
      using warm(1) by (simp_all add: main_entry_of_def entry_of_def is_entry_def)
    moreover have "list_all (quiet ?ps) es"
      using Cons.prems(7) quiet_code [of ?ps ps] by (auto simp: list_all_iff warm_code)
    moreover have "watched ?ps p n k b" "floor_clear ?ps p b"
      using Cons.prems(4,5) by (simp_all add: watched_def seen_warm floor_clear_def warm_code)
    ultimately show ?thesis
      using Cons.IH [OF Cons.prems(1,2) warm_ok [OF Cons.prems(3) warm(2)], of n k] Cons.prems(6,8,9) warm(1) by simp
  next
    case (hook q)
    from pd_hook_total Cons.prems(3) have tot: "pd_hook e ps b0 q \<noteq> None" for b0 :: "'a bridge" by blast
    from fire_hook [OF hook, of b ps] Cons.prems(1) obtain b0 where b0: "fire idmap e (ps, b) = map_option (Pair ps) (pd_hook e ps b0 q)"
      by (auto simp: machine_ok_def)
    with tot obtain b1 where f: "fire idmap e (ps, b) = Some (ps, b1)" by fastforce
    from hook_step [OF f hook Cons.prems(1)] obtain b0 where b0: "touched ps q b b0" "pd_hook e ps b0 q = Some b1"
      "q \<in> dom (b_profileTable b0)" "tiers_ok b0" by metis
    have c0: "cfg b0 = cfg b" using b0(1) by (simp add: touched_def)
    have "cfg b1 = cfg b0" using hook.effect [OF tiers_no_code [OF b0(4,3)] b0(2)] by (auto simp: hook_effect_def)
    with c0 have c1: "cfg b1 = cfg b" by simp
    have off: "\<not> b_tierOff b0" "\<not> b_tierOff b1" using Cons.prems(2) c0 c1 by (auto simp: cfg_def)
    let ?n = "n + (if entry_of idmap p e then 1 else 0)" and ?k = "k + (if main_entry_of idmap p e then 1 else 0)"
    have room: "n + 2 < 2 ^ 32" using Cons.prems(8) by simp
    from watched_step [OF b0(2,3,4) off(1) _ watched_touched [OF b0(1) Cons.prems(5)] Cons.prems(6) room hook]
      floor_clear_cfg [OF c0] Cons.prems(4) have w: "watched ps p ?n ?k b1" by simp
    have "?k \<le> ?n" using Cons.prems(6) by (auto simp: main_entry_of_def)
    from Cons.IH [OF machine_step [OF f Cons.prems(1)] off(2) Cons.prems(3) _ w this]
      Cons.prems(4,7,8,9) floor_clear_cfg [OF c1] limit_cfg [OF c1] f
    show ?thesis by (auto split: if_splits)
  qed
qed

section \<open>The claims\<close>

text \<open>C14. A hot proto that the floor lets through is decided. Take a reachable state with the tier enabled, no profile of
  \<open>p\<close> yet, inline caches that fit the code of every proto, and \<open>p\<close> as long as the floor asks (or promotion forced: a
  shorter proto stays interpreted unless the backend exempts it, which the claim leaves aside). Then every undisturbed
  run, of hooks of any protos and of writes of inline caches that fit, with no change of the settings, returns; and once
  it has entered \<open>p\<close> on the main thread as often as the threshold asks (64 times when forced), with fewer than
  \<open>2 ^ 32 - 2\<close> entries of \<open>p\<close> in all, \<open>p\<close> is promoted or stuck, whatever the backend answers.\<close>

theorem hot_protos_are_decided:
  assumes "bridge_reachable idmap (ps, b)" "TierEnabled b" "b_profileTable b p = None" "\<forall>q. ic_ok (ps q)"
    "b_forceAll b \<or> effectiveMinPromotableLen b \<le> int (length (pr_Code (ps p)))"
    "list_all (quiet ps) es" "limit b \<le> main_entries idmap p es" "entries idmap p es + 2 < 2 ^ 32"
  shows "\<exists>ps' b'. fire_all idmap es (ps, b) = Some (ps', b') \<and> tier_of b' p \<in> {TierGibbous, TierStuck}"
proof -
  note ok = reachable_ok [OF assms(1)]
  have "0 < limit b" using ok by (simp add: limit_def machine_ok_def word_less_nat_alt)
  then have "watched ps p 0 0 b" using assms(3) by (simp add: watched_def seen_def new_profile_def)
  then have "\<exists>ps' b'. fire_all idmap es (ps, b) = Some (ps', b') \<and> tier_of b' p \<noteq> TierInterp"
    using assms(2,5,7,8)
    by (intro run_decides [OF ok _ assms(4) _ _ _ assms(6), where n = 0 and k = 0])
      (simp_all add: TierEnabled_def floor_clear_def)
  then obtain ps' b' where "fire_all idmap es (ps, b) = Some (ps', b')" "tier_of b' p \<noteq> TierInterp"
    by blast
  then show ?thesis by (cases "tier_of b' p") auto
qed

definition example_entries :: "nat event list" where
  "example_entries = [EvEnterID 0 False, EvEnter 0 True, EvBackEdge 0 3 True, EvEnter 1 True, EvEnterID 0 True]"

lemma example_checks:
  "fst example_start 0 = example_proto" "TierEnabled (snd example_start)"
  "effectiveMinPromotableLen (snd example_start) \<le> 10" "b_hotEntry (snd example_start) = 2"
  "\<not> b_forceAll (snd example_start)" "Option.is_none (b_profileTable (snd example_start) 0)"
  by code_simp+

lemma example_protos: "fst example_start = (\<lambda>p. example_proto)"
  by (simp add: example_start_def example_events_def)

theorem hot_protos_are_decided_witness:
  "\<exists>ps' b'. fire_all (\<lambda>i. i) example_entries example_start = Some (ps', b') \<and> tier_of b' 0 \<in> {TierGibbous, TierStuck}"
proof -
  have "ic_ok example_proto"
    by (simp add: ic_ok_def example_proto_def list_all2_conv_all_nth slot_ok_def ICKindMegamorphic_def)
  moreover have "list_all (quiet (\<lambda>p. example_proto)) example_entries"
    by (simp add: example_entries_def)
  moreover have "main_entries (\<lambda>i. i) 0 example_entries = 2" "entries (\<lambda>i. i) 0 example_entries = 3"
    by (simp_all add: example_entries_def main_entry_of_def entry_of_def is_entry_def)
  moreover have "int (length (pr_Code example_proto)) = 10" by (simp add: example_proto_def)
  moreover obtain b where b: "example_start = (\<lambda>p. example_proto, b)" using example_protos by (metis prod.collapse)
  moreover have "b_profileTable b 0 = None" using example_checks(6) unfolding b snd_conv
    by (simp add: Option.is_none_def)
  ultimately show ?thesis
    unfolding b using example_reachable(1) [unfolded b] example_checks(2-5) [unfolded b snd_conv]
    by (intro hot_protos_are_decided) (simp_all add: limit_def)
qed

text \<open>C17. The switch turns the tier off without losing it: while it is off every query for compiled code answers none,
  the hooks leave every profile as it is, and turning it on again restores the code of every proto.\<close>

theorem switch_off_keeps_everything:
  assumes "bridge_reachable idmap (ps, b)" "\<not> TierEnabled b" "list_all (\<lambda>e. hook_target idmap e \<noteq> None) es"
    "fire_all idmap es (ps, b) = Some (ps', b')"
  shows "(\<forall>p. GibbousCodeOf b' p = None) \<and> (\<forall>p pd. b_profileTable b p = Some pd \<longrightarrow> b_profileTable b' p = Some pd) \<and>
    (\<forall>p. GibbousCodeOf (SetTierEnabled True b') p = GibbousCodeOf (SetTierEnabled True b) p)"
proof -
  have "b_tierOff b' \<and> b_gibbousCodes b' = b_gibbousCodes b \<and> (\<forall>p pd. b_profileTable b p = Some pd \<longrightarrow> b_profileTable b' p = Some pd)"
    using reachable_ok [OF assms(1)] assms(2-4)
  proof (induction es arbitrary: ps b)
    case Nil
    then show ?case by (simp add: TierEnabled_def)
  next
    case (Cons e es)
    then obtain p m where t: "hook_target idmap e = Some (p, m)" by auto
    from Cons.prems(4) obtain ps1 b1 where f: "fire idmap e (ps, b) = Some (ps1, b1)" "fire_all idmap es (ps1, b1) = Some (ps', b')"
      by (auto split: Option.bind_splits)
    from hook_step [OF f(1) t Cons.prems(1)] obtain b0 where b0: "touched ps p b b0" "pd_hook e ps b0 p = Some b1" by metis
    then have "b_tierOff b0" using Cons.prems(2) by (simp add: touched_def cfg_def TierEnabled_def)
    with hook.off [of b0 e ps p] b0(2) have "b1 = b0" by simp
    with b0(1) Cons.prems(2) have "\<not> TierEnabled b1" "b_gibbousCodes b1 = b_gibbousCodes b"
      "\<forall>q pd. b_profileTable b q = Some pd \<longrightarrow> b_profileTable b1 q = Some pd"
      by (auto simp: touched_def cfg_def TierEnabled_def seen_def)
    with Cons.IH [OF machine_step [OF f(1) Cons.prems(1)] _ _ f(2)] Cons.prems(3) show ?case by simp
  qed
  then show ?thesis by (auto simp: GibbousCodeOf_def SetTierEnabled_def)
qed

definition example_off :: "nat machine" where
  "example_off = (fst example_hot, SetTierEnabled False (snd example_hot))"

lemma example_off_reachable: "bridge_reachable (\<lambda>i. i) example_off"
  by (rule bridge_reachable.event [OF example_reachable(3), of "EvTier False"])
    (metis example_off_def fire.simps(6) prod.collapse)

theorem switch_off_keeps_everything_witness:
  "\<exists>ps b. fire_all (\<lambda>i. i) [EvEnterID 0 True, EvEnter 1 True] example_off = Some (ps, b) \<and> GibbousCodeOf b 0 = None \<and>
     GibbousCodeOf (SetTierEnabled True b) 0 = Some 10"
proof -
  let ?r = "fire_all (\<lambda>i. i) [EvEnterID 0 True, EvEnter 1 True] example_off"
  have "\<not> Option.is_none ?r" by code_simp
  then obtain ps b where r: "?r = Some (ps, b)" by (cases ?r) auto
  obtain ps0 b0 where off: "example_off = (ps0, b0)" by (cases example_off)
  have b0: "b_tierOff b0" "b_gibbousCodes b0 0 = Some 10"
    using off by (auto simp: example_off_def SetTierEnabled_def example_tiers)
  then have "GibbousCodeOf (SetTierEnabled True b0) 0 = Some 10" by (auto simp: GibbousCodeOf_def SetTierEnabled_def)
  moreover have "\<not> TierEnabled b0" using b0(1) by (simp add: TierEnabled_def)
  then have "GibbousCodeOf b 0 = None \<and> GibbousCodeOf (SetTierEnabled True b) 0 = GibbousCodeOf (SetTierEnabled True b0) 0"
    using switch_off_keeps_everything [OF example_off_reachable [unfolded off] _ _ r [unfolded off]]
    by (simp add: ex_bool_eq)
  ultimately show ?thesis using r by (intro exI [of _ ps] exI [of _ b]) simp
qed

end
