(* ===== verification/Analyzer.thy ===== *)
theory Analyzer
  imports Bridge Ast
begin

text \<open>
  The compilability analyzer, \<open>internal/bridge/analyzer.go\<close>: one walk over the tree of a function that collects the
  signals against promoting it, and the verdict written to its proto.

  The walk follows the bodies of known local functions, so its depth is not bounded by the tree; the walkers one
  level deeper are arguments of each function, closed at the end by a fuel (\<open>AnalyzerSpec\<close> shows the one that is
  enough). A function is identified by its address \<open>fe_Ref\<close>.
\<close>

section \<open>Recognised calls\<close>

definition safeStdlibFuncs :: "string set" where
  "safeStdlibFuncs = {''type'', ''tostring'', ''tonumber'', ''select'', ''unpack'', ''rawget'', ''rawset'', ''rawequal'',
     ''setmetatable'', ''getmetatable''}"

definition safeStdlibLibs :: "string set" where
  "safeStdlibLibs = {''math'', ''string'', ''table'', ''os''}"

definition unsafeStdlibLibFuncs :: "(string \<times> string) set" where
  "unsafeStdlibLibFuncs = {(''string'', ''gsub''), (''string'', ''gmatch''), (''table'', ''foreach''), (''table'', ''foreachi''),
     (''os'', ''execute'')}"

text \<open>\<open>lib.method\<close> with a literal name.\<close>

fun lib_method :: "expr \<Rightarrow> (string \<times> string) option" where
  "lib_method (IndexExpr _ _ _ _ (NameExpr _ l) (StringExpr _ m)) = Some (l, m)"
| "lib_method _ = None"

definition isSafeStdlibCall :: "expr \<Rightarrow> bool" where
  "isSafeStdlibCall fn =
     (case fn of
        NameExpr _ n \<Rightarrow> n \<in> safeStdlibFuncs
      | _ \<Rightarrow> (case lib_method fn of
               None \<Rightarrow> False
             | Some (l, m) \<Rightarrow> l \<in> safeStdlibLibs \<and> (l, m) \<notin> unsafeStdlibLibFuncs))"

definition isCoroutineCall :: "expr \<Rightarrow> bool" where
  "isCoroutineCall fn = (case lib_method fn of Some (l, m) \<Rightarrow> l = ''coroutine'' | None \<Rightarrow> False)"

definition isDebugCall :: "expr \<Rightarrow> bool" where
  "isDebugCall fn = (case lib_method fn of Some (l, m) \<Rightarrow> l = ''debug'' | None \<Rightarrow> False)"

fun methodName :: "expr \<Rightarrow> string" where
  "methodName (IndexExpr _ _ _ _ _ (StringExpr _ m)) = m"
| "methodName _ = ''''"

section \<open>The visitor\<close>

record scopeFrame =
  sf_saved :: "string \<rightharpoonup> funcexpr"
  sf_savedAliases :: "string set"

record visitor =
  v_sawVararg :: bool
  v_callsYield :: bool
  v_callsResume :: bool
  v_callsCoroutine :: bool
  v_callsUnknownFn :: bool
  v_sawSelfCall :: bool
  v_usesDebug :: bool
  v_usesSetfenv :: bool
  v_currentDepth :: int
  v_maxClosureDepth :: int
  v_localFuncs :: "string \<rightharpoonup> funcexpr"
  v_safeAliases :: "string set"
  v_scopeStack :: "scopeFrame list"
  v_inlinedKnownCalls :: "nat set"

definition newCompilabilityVisitor :: visitor where
  "newCompilabilityVisitor =
     \<lparr>v_sawVararg = False, v_callsYield = False, v_callsResume = False, v_callsCoroutine = False, v_callsUnknownFn = False,
      v_sawSelfCall = False, v_usesDebug = False, v_usesSetfenv = False, v_currentDepth = 0, v_maxClosureDepth = 0,
      v_localFuncs = Map.empty, v_safeAliases = {}, v_scopeStack = [], v_inlinedKnownCalls = {}\<rparr>"

definition pushScope :: "visitor \<Rightarrow> visitor" where
  "pushScope v = v\<lparr>v_scopeStack := \<lparr>sf_saved = v_localFuncs v, sf_savedAliases = v_safeAliases v\<rparr> # v_scopeStack v\<rparr>"

definition popScope :: "visitor \<Rightarrow> visitor" where
  "popScope v = (case v_scopeStack v of
     [] \<Rightarrow> v
   | f # fs \<Rightarrow> v\<lparr>v_scopeStack := fs, v_localFuncs := sf_saved f, v_safeAliases := sf_savedAliases f\<rparr>)"

definition forget :: "string \<Rightarrow> visitor \<Rightarrow> visitor" where
  "forget n v = v\<lparr>v_localFuncs := (v_localFuncs v)(n := None), v_safeAliases := v_safeAliases v - {n}\<rparr>"

definition bind_func :: "string \<Rightarrow> funcexpr \<Rightarrow> visitor \<Rightarrow> visitor" where
  "bind_func n fn v = v\<lparr>v_localFuncs := (v_localFuncs v)(n \<mapsto> fn), v_safeAliases := v_safeAliases v - {n}\<rparr>"

definition bind_alias :: "string \<Rightarrow> visitor \<Rightarrow> visitor" where
  "bind_alias n v = v\<lparr>v_safeAliases := insert n (v_safeAliases v), v_localFuncs := (v_localFuncs v)(n := None)\<rparr>"

text \<open>The names of a local statement with their expressions, as far as there are any.\<close>

fun bind_locals :: "string list \<Rightarrow> expr list \<Rightarrow> visitor \<Rightarrow> visitor" where
  "bind_locals [] es v = v"
| "bind_locals (n # ns) [] v = bind_locals ns [] (forget n v)"
| "bind_locals (n # ns) (e # es) v = bind_locals ns es
     (case e of FuncE fn \<Rightarrow> bind_func n fn v | _ \<Rightarrow> if isSafeStdlibCall e then bind_alias n v else forget n v)"

fun forget_targets :: "expr list \<Rightarrow> visitor \<Rightarrow> visitor" where
  "forget_targets [] v = v"
| "forget_targets (t # ts) v = forget_targets ts (case t of NameExpr _ n \<Rightarrow> forget n v | _ \<Rightarrow> v)"

definition visitNameExpr :: "string \<Rightarrow> visitor \<Rightarrow> visitor" where
  "visitNameExpr n v =
     (if n = ''debug'' then v\<lparr>v_usesDebug := True\<rparr>
      else if n = ''setfenv'' \<or> n = ''getfenv'' then v\<lparr>v_usesSetfenv := True\<rparr>
      else v)"

section \<open>The walk\<close>

text \<open>\<open>None\<close> here is only the end of the fuel.\<close>

fun walk_list :: "('x \<Rightarrow> visitor \<Rightarrow> visitor option) \<Rightarrow> 'x list \<Rightarrow> visitor \<Rightarrow> visitor option" where
  "walk_list f [] v = Some v"
| "walk_list f (x # xs) v = Option.bind (f x v) (walk_list f xs)"

definition walk_opt :: "('x \<Rightarrow> visitor \<Rightarrow> visitor option) \<Rightarrow> 'x option \<Rightarrow> visitor \<Rightarrow> visitor option" where
  "walk_opt f x v = (case x of None \<Rightarrow> Some v | Some y \<Rightarrow> f y v)"

type_synonym 'x walker = "'x \<Rightarrow> visitor \<Rightarrow> visitor option"

definition unshadowed :: "string list \<Rightarrow> (string \<rightharpoonup> funcexpr) \<Rightarrow> string \<rightharpoonup> funcexpr" where
  "unshadowed params m = (\<lambda>n. if n \<in> set params then None else m n)"

definition walkFuncExpr :: "block walker \<Rightarrow> funcexpr \<Rightarrow> visitor \<Rightarrow> visitor option" where
  "walkFuncExpr wb f v =
     (let depth = v_currentDepth v + 1;
          v = v\<lparr>v_currentDepth := depth, v_maxClosureDepth := max depth (v_maxClosureDepth v)\<rparr>;
          sub0 = newCompilabilityVisitor\<lparr>v_currentDepth := depth,
                  v_localFuncs := unshadowed (fe_Params f) (v_localFuncs v),
                  v_safeAliases := v_safeAliases v - set (fe_Params f),
                  v_inlinedKnownCalls := v_inlinedKnownCalls v\<rparr>
      in do {
        sub1 \<leftarrow> wb (fe_Body f) sub0;
        Some (v\<lparr>v_maxClosureDepth := max (v_maxClosureDepth sub1) (v_maxClosureDepth v), v_currentDepth := depth - 1\<rparr>) })"

definition isKnownLocalCall :: "expr \<Rightarrow> visitor \<Rightarrow> funcexpr option" where
  "isKnownLocalCall fn v = (case fn of NameExpr _ n \<Rightarrow> v_localFuncs v n | _ \<Rightarrow> None)"

definition visitCallExpr :: "expr walker \<Rightarrow> block walker \<Rightarrow> expr \<Rightarrow> expr list \<Rightarrow> visitor \<Rightarrow> visitor option" where
  "visitCallExpr we wb fn args v = do {
     v \<leftarrow> walk_list we args v;
     if isCoroutineCall fn then
       Some (let v = v\<lparr>v_callsCoroutine := True\<rparr> in
             if methodName fn = ''yield'' then v\<lparr>v_callsYield := True\<rparr>
             else if methodName fn = ''resume'' then v\<lparr>v_callsResume := True\<rparr> else v)
     else if isDebugCall fn then Some (v\<lparr>v_usesDebug := True\<rparr>)
     else if (case fn of NameExpr _ n \<Rightarrow> n = ''setfenv'' \<or> n = ''getfenv'' | _ \<Rightarrow> False)
       then Some (v\<lparr>v_usesSetfenv := True\<rparr>)
     else if isSafeStdlibCall fn then Some v
     else if (case fn of NameExpr _ n \<Rightarrow> n \<in> v_safeAliases v | _ \<Rightarrow> False) then Some v
     else (case isKnownLocalCall fn v of
         Some f \<Rightarrow>
           if fe_Ref f \<in> v_inlinedKnownCalls v then Some v
           else wb (fe_Body f) (v\<lparr>v_inlinedKnownCalls := insert (fe_Ref f) (v_inlinedKnownCalls v)\<rparr>)
       | None \<Rightarrow> do { v \<leftarrow> we fn v; Some (v\<lparr>v_callsUnknownFn := True\<rparr>) }) }"

definition visitMethodCallExpr :: "expr walker \<Rightarrow> expr \<Rightarrow> expr list \<Rightarrow> visitor \<Rightarrow> visitor option" where
  "visitMethodCallExpr we recv args v = do {
     v \<leftarrow> we recv v;
     v \<leftarrow> walk_list we args v;
     Some (v\<lparr>v_sawSelfCall := True\<rparr>) }"

definition walk_item :: "expr walker \<Rightarrow> titem walker" where
  "walk_item we it v = (case it of TableItem key val _ _ _ \<Rightarrow> do { v \<leftarrow> walk_opt we key v; we val v })"

definition walkExpr_step :: "expr walker \<Rightarrow> block walker \<Rightarrow> expr walker" where
  "walkExpr_step we wb e v = (case e of
     VarargExpr _ _ \<Rightarrow> Some (v\<lparr>v_sawVararg := True\<rparr>)
   | NameExpr _ n \<Rightarrow> Some (visitNameExpr n v)
   | IndexExpr _ _ _ _ ob key \<Rightarrow> do { v \<leftarrow> we ob v; we key v }
   | ParenExpr _ _ x \<Rightarrow> we x v
   | CallExpr _ _ _ _ fn args \<Rightarrow> visitCallExpr we wb fn args v
   | MethodCallExpr _ _ _ recv _ args \<Rightarrow> visitMethodCallExpr we recv args v
   | BinExpr _ _ _ l r \<Rightarrow> do { v \<leftarrow> we l v; we r v }
   | UnExpr _ _ _ x \<Rightarrow> we x v
   | FuncE f \<Rightarrow> walkFuncExpr wb f v
   | TableExpr _ _ _ its \<Rightarrow> walk_list (walk_item we) its v
   | _ \<Rightarrow> Some v)"

definition in_new_scope :: "block walker \<Rightarrow> block walker" where
  "in_new_scope wb b v = map_option popScope (wb b (pushScope v))"

definition walk_clause :: "expr walker \<Rightarrow> block walker \<Rightarrow> ifclause walker" where
  "walk_clause we wb c v = (case c of IfClause cond body _ \<Rightarrow> do { v \<leftarrow> we cond v; in_new_scope wb body v })"

definition walkStmt :: "expr walker \<Rightarrow> block walker \<Rightarrow> stmt walker" where
  "walkStmt we wb s v = (case s of
     LocalStmt _ _ _ names exprs \<Rightarrow> do { v \<leftarrow> walk_list we exprs v; Some (bind_locals names exprs v) }
   | LocalFuncStmt _ name f \<Rightarrow> walkFuncExpr wb f (bind_func name f v)
   | AssignStmt _ _ _ targets exprs \<Rightarrow> do {
       v \<leftarrow> walk_list we targets v;
       v \<leftarrow> walk_list we exprs v;
       Some (forget_targets targets v) }
   | CallStmt _ e \<Rightarrow> we e v
   | DoStmt _ b \<Rightarrow> in_new_scope wb b v
   | WhileStmt _ _ cond b \<Rightarrow> do { v \<leftarrow> we cond v; in_new_scope wb b v }
   | RepeatStmt _ b cond _ \<Rightarrow> do {
       v \<leftarrow> wb b (pushScope v);
       v \<leftarrow> we cond v;
       Some (popScope v) }
   | IfStmt _ clauses els \<Rightarrow> do { v \<leftarrow> walk_list (walk_clause we wb) clauses v; walk_opt (in_new_scope wb) els v }
   | NumForStmt _ _ _ _ init lim step_opt b \<Rightarrow> do {
       v \<leftarrow> we init v;
       v \<leftarrow> we lim v;
       v \<leftarrow> walk_opt we step_opt v;
       in_new_scope wb b v }
   | GenForStmt _ _ _ _ _ exprs b \<Rightarrow> do { v \<leftarrow> walk_list we exprs v; in_new_scope wb b v }
   | FuncStmt _ target _ f \<Rightarrow> do { v \<leftarrow> we target v; walkFuncExpr wb f v }
   | ReturnStmt _ _ exprs \<Rightarrow> walk_list we exprs v
   | BreakStmt _ \<Rightarrow> Some v)"

fun walkExpr :: "nat \<Rightarrow> expr walker" and walkBlock :: "nat \<Rightarrow> block walker" where
  "walkExpr 0 e v = None"
| "walkExpr (Suc k) e v = walkExpr_step (\<lambda>e v. walkExpr k e v) (\<lambda>b v. walkBlock k b v) e v"
| "walkBlock 0 b v = None"
| "walkBlock (Suc k) b v = walk_list (walkStmt (\<lambda>e v. walkExpr k e v) (\<lambda>b v. walkBlock k b v)) (b_Stmts b) v"

section \<open>The verdict\<close>

definition protoIsVararg :: "proto \<Rightarrow> bool" where
  "protoIsVararg pr \<longleftrightarrow> list_ex (\<lambda>ins. Op_of ins = OP_VARARG) (pr_Code pr)"

definition reason_if :: "bool \<Rightarrow> ReasonsBitmap \<Rightarrow> ReasonsBitmap" where "reason_if c r = (if c then r else 0)"

definition structural_reasons :: "funcexpr \<Rightarrow> proto \<Rightarrow> visitor \<Rightarrow> ReasonsBitmap" where
  "structural_reasons f pr v =
     reason_if (fe_IsVararg f \<or> v_sawVararg v \<or> protoIsVararg pr) ReasonVararg OR
     reason_if (v_callsYield v) ReasonYield OR
     reason_if (v_callsResume v) ReasonResume OR
     reason_if (v_callsCoroutine v) ReasonCoroutine OR
     reason_if (v_callsUnknownFn v) ReasonUnknownCall OR
     reason_if (v_sawSelfCall v) ReasonSelfCall OR
     reason_if (v_usesDebug v) ReasonDebug OR
     reason_if (v_usesSetfenv v) ReasonSetfenv OR
     reason_if (MaxCompilableInsns < int (length (pr_Code pr))) ReasonOverSize OR
     reason_if (MaxCompilableRegs < uint (pr_MaxStack pr)) ReasonOverRegs OR
     reason_if (MaxClosureDepth < v_maxClosureDepth v) ReasonNestedDeep OR
     reason_if (MaxUpvalCount < int (length (pr_UpvalDescs pr))) ReasonOverUpval"

text \<open>The visitor at the start: what the enclosing functions know, minus the names of the parameters.\<close>

definition outer_visitor :: "funcexpr \<Rightarrow> (string \<times> funcexpr) list \<Rightarrow> (string \<times> expr) list \<Rightarrow> visitor" where
  "outer_visitor f outerLocalFuncs outerAliases =
     newCompilabilityVisitor
       \<lparr>v_localFuncs := unshadowed (fe_Params f) (map_of outerLocalFuncs),
        v_safeAliases := {n \<in> set (map fst outerAliases). n \<notin> set (fe_Params f) \<and>
           (case map_of outerAliases n of Some rhs \<Rightarrow> isSafeStdlibCall rhs | None \<Rightarrow> False)}\<rparr>"

text \<open>The maps are association lists with distinct names. \<open>None\<close> is the panic on a proto that disagrees with its
  function, or the end of the fuel.\<close>

definition AnalyzeProtoWithOuter :: "nat \<Rightarrow> (pref \<Rightarrow> proto) \<Rightarrow> 'c bridge \<Rightarrow> funcexpr \<Rightarrow> pref \<Rightarrow>
    (string \<times> funcexpr) list \<Rightarrow> (string \<times> expr) list \<Rightarrow> (Compilability \<times> (pref \<Rightarrow> proto) \<times> 'c bridge) option" where
  "AnalyzeProtoWithOuter k ps b f p outerLocalFuncs outerAliases = do {
     v \<leftarrow> walkBlock k (fe_Body f) (outer_visitor f outerLocalFuncs outerAliases);
     if fe_IsVararg f \<noteq> pr_IsVararg (ps p) then None
     else
       let reasons = structural_reasons f (ps p) v;
           reasons = (if reasons = 0 \<and> checkF7BackendSupport b (ps p) then ReasonBackendUnsupp else reasons);
           result = (if HasAny reasons then CompNotCompilable else CompCompilable)
       in Some (result, SetCompilability ps b p result reasons) }"

definition AnalyzeProto :: "nat \<Rightarrow> (pref \<Rightarrow> proto) \<Rightarrow> 'c bridge \<Rightarrow> funcexpr \<Rightarrow> pref \<Rightarrow>
    (Compilability \<times> (pref \<Rightarrow> proto) \<times> 'c bridge) option" where
  "AnalyzeProto k ps b f p = AnalyzeProtoWithOuter k ps b f p [] []"

end
