(* ===== verification/AnalyzerTree.thy ===== *)
theory AnalyzerTree
  imports Analyzer
begin

text \<open>
  The measure of the analyzer's walk and what the walk must see: the functions of a tree, the shapes a verdict
  may not miss, and the postcondition of a walker.
\<close>

section \<open>The functions of a tree\<close>

text \<open>Every function literal in a tree, at any depth.\<close>

fun fs_expr :: "expr \<Rightarrow> funcexpr list" and fs_func :: "funcexpr \<Rightarrow> funcexpr list" and fs_item :: "titem \<Rightarrow> funcexpr list"
  and fs_block :: "block \<Rightarrow> funcexpr list" and fs_stmt :: "stmt \<Rightarrow> funcexpr list" and fs_clause :: "ifclause \<Rightarrow> funcexpr list" where
  "fs_expr (IndexExpr _ _ _ _ ob key) = fs_expr ob @ fs_expr key"
| "fs_expr (ParenExpr _ _ x) = fs_expr x"
| "fs_expr (CallExpr _ _ _ _ fn args) = fs_expr fn @ concat (map fs_expr args)"
| "fs_expr (MethodCallExpr _ _ _ recv _ args) = fs_expr recv @ concat (map fs_expr args)"
| "fs_expr (BinExpr _ _ _ l r) = fs_expr l @ fs_expr r"
| "fs_expr (UnExpr _ _ _ x) = fs_expr x"
| "fs_expr (FuncE f) = fs_func f"
| "fs_expr (TableExpr _ _ _ its) = concat (map fs_item its)"
| "fs_expr _ = []"
| "fs_func (FuncExpr r l ps va na body el) = FuncExpr r l ps va na body el # fs_block body"
| "fs_item (TableItem key val _ _ _) = (case key of Some k \<Rightarrow> fs_expr k | None \<Rightarrow> []) @ fs_expr val"
| "fs_block (Block ss _) = concat (map fs_stmt ss)"
| "fs_stmt (LocalStmt _ _ _ _ es) = concat (map fs_expr es)"
| "fs_stmt (LocalFuncStmt _ _ f) = fs_func f"
| "fs_stmt (AssignStmt _ _ _ ts es) = concat (map fs_expr ts) @ concat (map fs_expr es)"
| "fs_stmt (CallStmt _ e) = fs_expr e"
| "fs_stmt (DoStmt _ b) = fs_block b"
| "fs_stmt (WhileStmt _ _ c b) = fs_expr c @ fs_block b"
| "fs_stmt (RepeatStmt _ b c _) = fs_block b @ fs_expr c"
| "fs_stmt (IfStmt _ cs els) = concat (map fs_clause cs) @ (case els of Some b \<Rightarrow> fs_block b | None \<Rightarrow> [])"
| "fs_stmt (NumForStmt _ _ _ _ i l st b) = fs_expr i @ fs_expr l @ (case st of Some s \<Rightarrow> fs_expr s | None \<Rightarrow> []) @ fs_block b"
| "fs_stmt (GenForStmt _ _ _ _ _ es b) = concat (map fs_expr es) @ fs_block b"
| "fs_stmt (FuncStmt _ t _ f) = fs_expr t @ fs_func f"
| "fs_stmt (ReturnStmt _ _ es) = concat (map fs_expr es)"
| "fs_stmt (BreakStmt _) = []"
| "fs_clause (IfClause c b _) = fs_expr c @ fs_block b"

lemma fs_trans:
  "g \<in> set (fs_expr e) \<Longrightarrow> set (fs_func g) \<subseteq> set (fs_expr e)"
  "g \<in> set (fs_func f) \<Longrightarrow> set (fs_func g) \<subseteq> set (fs_func f)"
  "g \<in> set (fs_item it) \<Longrightarrow> set (fs_func g) \<subseteq> set (fs_item it)"
  "g \<in> set (fs_block b) \<Longrightarrow> set (fs_func g) \<subseteq> set (fs_block b)"
  "g \<in> set (fs_stmt s) \<Longrightarrow> set (fs_func g) \<subseteq> set (fs_stmt s)"
  "g \<in> set (fs_clause c) \<Longrightarrow> set (fs_func g) \<subseteq> set (fs_clause c)"
  by (induction e and f and it and b and s and c rule: fs_expr_fs_func_fs_item_fs_block_fs_stmt_fs_clause.induct)
    (fastforce split: option.splits)+

section \<open>What the walk must not miss\<close>

text \<open>Seen outside nested functions: a vararg, a method call, a call of a coroutine or debug function, the names that
  change environments, a call by a name of \<open>D\<close>, and a call of anything but a name or a whitelisted library function.\<close>

definition env_name :: "string \<Rightarrow> bool" where
  "env_name n \<longleftrightarrow> n \<in> {''debug'', ''setfenv'', ''getfenv''}"

definition danger_callee :: "(string \<Rightarrow> bool) \<Rightarrow> expr \<Rightarrow> bool" where
  "danger_callee D fn \<longleftrightarrow> isCoroutineCall fn \<or> isDebugCall fn \<or>
     (case fn of NameExpr _ n \<Rightarrow> n = ''setfenv'' \<or> n = ''getfenv'' \<or> D n | _ \<Rightarrow> \<not> isSafeStdlibCall fn)"

fun danger_expr :: "(string \<Rightarrow> bool) \<Rightarrow> expr \<Rightarrow> bool" and danger_item :: "(string \<Rightarrow> bool) \<Rightarrow> titem \<Rightarrow> bool" where
  "danger_expr D (VarargExpr _ _) = True"
| "danger_expr D (NameExpr _ n) = env_name n"
| "danger_expr D (IndexExpr _ _ _ _ ob key) = (danger_expr D ob \<or> danger_expr D key)"
| "danger_expr D (ParenExpr _ _ x) = danger_expr D x"
| "danger_expr D (CallExpr _ _ _ _ fn args) = (danger_callee D fn \<or> list_ex (danger_expr D) args)"
| "danger_expr D (MethodCallExpr _ _ _ recv _ args) = True"
| "danger_expr D (BinExpr _ _ _ l r) = (danger_expr D l \<or> danger_expr D r)"
| "danger_expr D (UnExpr _ _ _ x) = danger_expr D x"
| "danger_expr D (TableExpr _ _ _ its) = list_ex (danger_item D) its"
| "danger_expr D _ = False"
| "danger_item D (TableItem key val _ _ _) = ((case key of Some k \<Rightarrow> danger_expr D k | None \<Rightarrow> False) \<or> danger_expr D val)"

fun danger_block :: "(string \<Rightarrow> bool) \<Rightarrow> block \<Rightarrow> bool" and danger_stmt :: "(string \<Rightarrow> bool) \<Rightarrow> stmt \<Rightarrow> bool" and danger_clause :: "(string \<Rightarrow> bool) \<Rightarrow> ifclause \<Rightarrow> bool" where
  "danger_block D (Block ss _) = list_ex (danger_stmt D) ss"
| "danger_stmt D (LocalStmt _ _ _ _ es) = list_ex (danger_expr D) es"
| "danger_stmt D (LocalFuncStmt _ _ f) = False"
| "danger_stmt D (AssignStmt _ _ _ ts es) = (list_ex (danger_expr D) ts \<or> list_ex (danger_expr D) es)"
| "danger_stmt D (CallStmt _ e) = danger_expr D e"
| "danger_stmt D (DoStmt _ b) = danger_block D b"
| "danger_stmt D (WhileStmt _ _ c b) = (danger_expr D c \<or> danger_block D b)"
| "danger_stmt D (RepeatStmt _ b c _) = (danger_block D b \<or> danger_expr D c)"
| "danger_stmt D (IfStmt _ cs els) = (list_ex (danger_clause D) cs \<or> (case els of Some b \<Rightarrow> danger_block D b | None \<Rightarrow> False))"
| "danger_stmt D (NumForStmt _ _ _ _ i l st b) =
     (danger_expr D i \<or> danger_expr D l \<or> (case st of Some s \<Rightarrow> danger_expr D s | None \<Rightarrow> False) \<or> danger_block D b)"
| "danger_stmt D (GenForStmt _ _ _ _ _ es b) = (list_ex (danger_expr D) es \<or> danger_block D b)"
| "danger_stmt D (FuncStmt _ t _ f) = danger_expr D t"
| "danger_stmt D (ReturnStmt _ _ es) = list_ex (danger_expr D) es"
| "danger_stmt D (BreakStmt _) = False"
| "danger_clause D (IfClause c b _) = (danger_expr D c \<or> danger_block D b)"

section \<open>What a name may stand for\<close>

text \<open>The names the local statements of a block bind, at any depth of its blocks, with their expressions.\<close>

fun binds_block :: "block \<Rightarrow> (string \<times> expr) list" and binds_stmt :: "stmt \<Rightarrow> (string \<times> expr) list"
  and binds_clause :: "ifclause \<Rightarrow> (string \<times> expr) list" where
  "binds_block (Block ss _) = concat (map binds_stmt ss)"
| "binds_stmt (LocalStmt _ _ _ ns es) = zip ns es"
| "binds_stmt (LocalFuncStmt _ n f) = [(n, FuncE f)]"
| "binds_stmt (DoStmt _ b) = binds_block b"
| "binds_stmt (WhileStmt _ _ c b) = binds_block b"
| "binds_stmt (RepeatStmt _ b c _) = binds_block b"
| "binds_stmt (IfStmt _ cs els) = concat (map binds_clause cs) @ (case els of Some b \<Rightarrow> binds_block b | None \<Rightarrow> [])"
| "binds_stmt (NumForStmt _ _ _ _ i l st b) = binds_block b"
| "binds_stmt (GenForStmt _ _ _ _ _ es b) = binds_block b"
| "binds_stmt _ = []"
| "binds_clause (IfClause c b _) = binds_block b"

text \<open>A name that is not a whitelisted function, and that nothing binds to one or to a function that is \<open>ok\<close>.\<close>

definition unresolved :: "(string \<times> expr) list \<Rightarrow> (funcexpr \<Rightarrow> bool) \<Rightarrow> string \<Rightarrow> bool" where
  "unresolved P ok n \<longleftrightarrow> n \<notin> safeStdlibFuncs \<and>
     \<not> list_ex (\<lambda>(m, e). m = n \<and> (case e of FuncE g \<Rightarrow> ok g | _ \<Rightarrow> isSafeStdlibCall e)) P"

abbreviation not_followed :: "(string \<times> expr) list \<Rightarrow> nat set \<Rightarrow> string \<Rightarrow> bool" where
  "not_followed P J \<equiv> unresolved P (\<lambda>g. fe_Ref g \<in> J)"

lemma resolvedI:
  "(n, FuncE g) \<in> set P \<Longrightarrow> ok g \<Longrightarrow> \<not> unresolved P ok n"
  "(n, e) \<in> set P \<Longrightarrow> isSafeStdlibCall e \<Longrightarrow> \<not> unresolved P ok n"
  "n \<in> safeStdlibFuncs \<Longrightarrow> \<not> unresolved P ok n"
  by (force simp: unresolved_def list_ex_iff isSafeStdlibCall_def split: expr.splits)+

text \<open>How deep functions are nested in a function, itself included.\<close>

lemma size_mem: "x \<in> set xs \<Longrightarrow> size x \<le> size_list size xs"
  by (induction xs) auto

lemma fs_size:
  "g \<in> set (fs_expr e) \<Longrightarrow> size g \<le> size e" "g \<in> set (fs_func f) \<Longrightarrow> size g \<le> size f"
  "g \<in> set (fs_item it) \<Longrightarrow> size g \<le> size it" "g \<in> set (fs_block b) \<Longrightarrow> size g \<le> size b"
  "g \<in> set (fs_stmt s) \<Longrightarrow> size g \<le> size s" "g \<in> set (fs_clause c) \<Longrightarrow> size g \<le> size c"
  by (induction e and f and it and b and s and c rule: fs_expr_fs_func_fs_item_fs_block_fs_stmt_fs_clause.induct)
    (fastforce dest: size_mem split: option.splits)+

lemma body_size: "g \<in> set (fs_block (fe_Body f)) \<Longrightarrow> size g < size f"
  using fs_size(4) [of g "fe_Body f"] by (cases f) simp

function nest_func :: "funcexpr \<Rightarrow> nat" where
  "nest_func f = Suc (fold (\<lambda>g. max (nest_func g)) (fs_block (fe_Body f)) 0)"
  by auto
termination by (relation "measure size") (simp_all add: body_size)

declare nest_func.simps [simp del]

definition flagged :: "visitor \<Rightarrow> bool" where
  "flagged v \<longleftrightarrow> v_sawVararg v \<or> v_callsCoroutine v \<or> v_callsUnknownFn v \<or> v_sawSelfCall v \<or> v_usesDebug v \<or> v_usesSetfenv v"

section \<open>The measure\<close>

definition universe :: "funcexpr list \<Rightarrow> (string \<times> expr) list \<Rightarrow> nat \<Rightarrow> bool" where
  "universe L P S \<longleftrightarrow> (\<forall>f \<in> set L. set (fs_block (fe_Body f)) \<subseteq> set L \<and>
     set (binds_block (fe_Body f)) \<subseteq> set P \<and> size (fe_Body f) \<le> S)"

definition knows_maps :: "funcexpr list \<Rightarrow> (string \<times> expr) list \<Rightarrow> (string \<rightharpoonup> funcexpr) \<Rightarrow> string set \<Rightarrow> bool" where
  "knows_maps L P m A \<longleftrightarrow> (\<forall>n g. m n = Some g \<longrightarrow> g \<in> set L \<and> (n, FuncE g) \<in> set P) \<and>
     (\<forall>n \<in> A. \<exists>e. (n, e) \<in> set P \<and> isSafeStdlibCall e)"

definition knows :: "funcexpr list \<Rightarrow> (string \<times> expr) list \<Rightarrow> visitor \<Rightarrow> bool" where
  "knows L P v \<longleftrightarrow> knows_maps L P (v_localFuncs v) (v_safeAliases v) \<and>
     (\<forall>fr \<in> set (v_scopeStack v). knows_maps L P (sf_saved fr) (sf_savedAliases fr))"

text \<open>The functions that may still be followed, each worth the largest body.\<close>

definition need :: "funcexpr list \<Rightarrow> nat \<Rightarrow> visitor \<Rightarrow> nat" where
  "need L S v = card (fe_Ref ` set L - v_inlinedKnownCalls v) * (S + 1)"

text \<open>The functions of \<open>F\<close> are within the closure depth reached.\<close>

definition depth_seen :: "funcexpr set \<Rightarrow> visitor \<Rightarrow> visitor \<Rightarrow> bool" where
  "depth_seen F v v' \<longleftrightarrow> v_currentDepth v' = v_currentDepth v \<and> v_maxClosureDepth v \<le> v_maxClosureDepth v' \<and>
     (\<forall>g \<in> F. v_currentDepth v + int (nest_func g) \<le> v_maxClosureDepth v')"

text \<open>Nothing dangerous was passed over: not in the piece walked (\<open>d\<close>), nor in the functions newly followed, however
  many more (\<open>J\<close>) are followed later.\<close>

definition clean :: "funcexpr list \<Rightarrow> (string \<times> expr) list \<Rightarrow> ((string \<Rightarrow> bool) \<Rightarrow> bool) \<Rightarrow> visitor \<Rightarrow> visitor \<Rightarrow> bool" where
  "clean L P d v v' \<longleftrightarrow> (\<forall>J. v_inlinedKnownCalls v' \<subseteq> J \<longrightarrow> \<not> d (not_followed P J) \<and>
     (\<forall>r \<in> v_inlinedKnownCalls v' - v_inlinedKnownCalls v. \<exists>h \<in> set L. fe_Ref h = r \<and>
        \<not> danger_block (not_followed P J) (fe_Body h) \<and> depth_seen (set (fs_block (fe_Body h))) v v'))"

definition walked :: "funcexpr list \<Rightarrow> (string \<times> expr) list \<Rightarrow> funcexpr set \<Rightarrow> ((string \<Rightarrow> bool) \<Rightarrow> bool) \<Rightarrow>
    visitor \<Rightarrow> visitor option \<Rightarrow> bool" where
  "walked L P F d v r \<longleftrightarrow> (\<exists>v'. r = Some v' \<and> knows L P v' \<and> v_inlinedKnownCalls v \<subseteq> v_inlinedKnownCalls v' \<and>
     depth_seen F v v' \<and> (flagged v \<longrightarrow> flagged v') \<and> (flagged v' \<or> clean L P d v v'))"

lemma need_mono: "v_inlinedKnownCalls v \<subseteq> v_inlinedKnownCalls v' \<Longrightarrow> need L S v' \<le> need L S v"
  unfolding need_def by (intro mult_le_mono1 card_mono) auto

lemma need_inline:
  assumes "f \<in> set L" "fe_Ref f \<notin> v_inlinedKnownCalls v"
  shows "need L S (v\<lparr>v_inlinedKnownCalls := insert (fe_Ref f) (v_inlinedKnownCalls v)\<rparr>) + (S + 1) \<le> need L S v"
proof -
  let ?A = "fe_Ref ` set L - v_inlinedKnownCalls v"
  have "fe_Ref ` set L - insert (fe_Ref f) (v_inlinedKnownCalls v) = ?A - {fe_Ref f}" by auto
  moreover have "Suc (card (?A - {fe_Ref f})) = card ?A" using assms by (intro card_Suc_Diff1) auto
  ultimately have c: "card ?A = Suc (card (fe_Ref ` set L - insert (fe_Ref f) (v_inlinedKnownCalls v)))" by simp
  show ?thesis unfolding need_def c by simp
qed

lemma depth_seen_trans:
  "depth_seen F v w \<Longrightarrow> depth_seen G w u \<Longrightarrow> depth_seen (F \<union> G) v u"
  by (fastforce simp: depth_seen_def)

lemma depth_seen_later: "depth_seen F v w \<Longrightarrow> depth_seen {} w u \<Longrightarrow> depth_seen F v u"
  by (fastforce simp: depth_seen_def)

lemma depth_seen_earlier: "depth_seen {} v w \<Longrightarrow> depth_seen F w u \<Longrightarrow> depth_seen F v u"
  by (fastforce simp: depth_seen_def)

lemma depth_seen_less: "depth_seen F v w \<Longrightarrow> G \<subseteq> F \<Longrightarrow> depth_seen G v w" by (auto simp: depth_seen_def)

lemma clean_trans:
  assumes "clean L P d v w" "clean L P e w u" "v_inlinedKnownCalls v \<subseteq> v_inlinedKnownCalls w"
    "v_inlinedKnownCalls w \<subseteq> v_inlinedKnownCalls u" "depth_seen {} v w" "depth_seen {} w u"
  shows "clean L P (\<lambda>D. d D \<or> e D) v u"
  unfolding clean_def
proof (intro allI impI conjI ballI)
  fix J assume J: "v_inlinedKnownCalls u \<subseteq> J"
  then have J': "v_inlinedKnownCalls w \<subseteq> J" using assms(4) by auto
  show "\<not> (d (not_followed P J) \<or> e (not_followed P J))" using assms(1,2) J J' by (simp add: clean_def)
  fix r assume r: "r \<in> v_inlinedKnownCalls u - v_inlinedKnownCalls v"
  show "\<exists>h \<in> set L. fe_Ref h = r \<and> \<not> danger_block (not_followed P J) (fe_Body h) \<and>
      depth_seen (set (fs_block (fe_Body h))) v u"
  proof (cases "r \<in> v_inlinedKnownCalls w")
    case True
    with assms(1) J' r show ?thesis unfolding clean_def by (meson DiffD2 DiffI depth_seen_later [OF _ assms(6)])
  next
    case False
    with assms(2) J r show ?thesis unfolding clean_def by (meson DiffD1 DiffI depth_seen_earlier [OF assms(5)])
  qed
qed

lemma walked_bind:
  assumes "walked L P F d v r"
    "\<And>v'. knows L P v' \<Longrightarrow> v_inlinedKnownCalls v \<subseteq> v_inlinedKnownCalls v' \<Longrightarrow> walked L P F2 d2 v' (g v')"
  shows "walked L P (F \<union> F2) (\<lambda>D. d D \<or> d2 D) v (Option.bind r g)"
proof -
  from assms(1) obtain w where w: "r = Some w" "knows L P w" "v_inlinedKnownCalls v \<subseteq> v_inlinedKnownCalls w"
    "depth_seen F v w" "flagged v \<longrightarrow> flagged w" "flagged w \<or> clean L P d v w" by (auto simp: walked_def)
  from assms(2) [OF w(2,3)] obtain u where u: "g w = Some u" "knows L P u" "v_inlinedKnownCalls w \<subseteq> v_inlinedKnownCalls u"
    "depth_seen F2 w u" "flagged w \<longrightarrow> flagged u" "flagged u \<or> clean L P d2 w u" by (auto simp: walked_def)
  have "flagged u \<or> clean L P (\<lambda>D. d D \<or> d2 D) v u"
    using w(5,6) u(5,6) clean_trans [OF _ _ w(3) u(3) depth_seen_less [OF w(4)] depth_seen_less [OF u(4)]] by blast
  with w u show ?thesis by (auto simp: walked_def intro: depth_seen_trans)
qed

text \<open>A step that follows no function.\<close>

lemma walked_Some:
  assumes "knows L P v'" "v_inlinedKnownCalls v' = v_inlinedKnownCalls v" "depth_seen F v v'" "flagged v \<Longrightarrow> flagged v'"
    "flagged v' \<or> (\<forall>J. v_inlinedKnownCalls v' \<subseteq> J \<longrightarrow> \<not> d (not_followed P J))"
  shows "walked L P F d v (Some v')"
  using assms by (auto simp: walked_def clean_def)

lemma walk_list_walked:
  assumes "\<And>x v. x \<in> set xs \<Longrightarrow> knows L P v \<Longrightarrow> need L S v + size x < k \<Longrightarrow> walked L P (F x) (\<lambda>D. d D x) v (f x v)"
    "knows L P v" "\<And>x. x \<in> set xs \<Longrightarrow> need L S v + size x < k"
  shows "walked L P (\<Union>x \<in> set xs. F x) (\<lambda>D. list_ex (d D) xs) v (walk_list f xs v)"
  using assms
proof (induction xs arbitrary: v)
  case Nil
  then show ?case by (auto simp: depth_seen_def intro: walked_Some)
next
  case (Cons x xs)
  have x: "walked L P (F x) (\<lambda>D. d D x) v (f x v)" using Cons.prems by simp
  have "walked L P (F x \<union> (\<Union>x \<in> set xs. F x)) (\<lambda>D. d D x \<or> list_ex (d D) xs) v (Option.bind (f x v) (walk_list f xs))"
  proof (rule walked_bind [OF x])
    fix v'
    assume v': "knows L P v'" "v_inlinedKnownCalls v \<subseteq> v_inlinedKnownCalls v'"
    then show "walked L P (\<Union>x \<in> set xs. F x) (\<lambda>D. list_ex (d D) xs) v' (walk_list f xs v')"
    proof (intro Cons.IH)
      fix y assume "y \<in> set xs"
      then show "need L S v' + size y < k" using Cons.prems(3) [of y] need_mono [OF v'(2), of L S] by simp
    qed (use Cons.prems(1) in auto)
  qed
  then show ?case by simp
qed

end
