(* ===== verification/AnalyzerWalk.thy ===== *)
theory AnalyzerWalk
  imports AnalyzerTree
begin

text \<open>
  The walkers of one level, for any walkers of the next that keep the contract \<open>walkers\<close>, and the interpretation of
  the contract on \<open>walkExpr\<close> and \<open>walkBlock\<close> at every fuel.
\<close>

section \<open>The walkers of one level\<close>

text \<open>What the walkers one level deeper promise: below the measure they return, keep the visitor in order, and pass
  over nothing dangerous unflagged.\<close>

locale walkers =
  fixes we :: "expr walker" and wb :: "block walker" and L :: "funcexpr list" and P :: "(string \<times> expr) list" and S k :: nat
  assumes we: "universe L P S \<Longrightarrow> set (fs_expr e) \<subseteq> set L \<Longrightarrow> knows L P v \<Longrightarrow> need L S v + size e < k \<Longrightarrow>
      walked L P (set (fs_expr e)) (\<lambda>D. danger_expr D e) v (we e v)"
    and wb: "universe L P S \<Longrightarrow> set (fs_block b) \<subseteq> set L \<Longrightarrow> set (binds_block b) \<subseteq> set P \<Longrightarrow> knows L P v \<Longrightarrow>
      need L S v + size b < k \<Longrightarrow> walked L P (set (fs_block b)) (\<lambda>D. danger_block D b) v (wb b v)"

lemma fs_func_self: "f \<in> set (fs_func f)" by (cases f) simp

lemma fs_func_body: "set (fs_block (fe_Body f)) \<subseteq> set (fs_func f)" by (cases f) auto

lemma fs_func_set: "set (fs_func f) = insert f (set (fs_block (fe_Body f)))" by (cases f) auto

lemma size_body: "size (fe_Body f) < size f" by (cases f) simp

lemma knows_simps [simp]:
  "knows L P (v\<lparr>v_sawVararg := x1\<rparr>) = knows L P v" "knows L P (v\<lparr>v_callsCoroutine := x1\<rparr>) = knows L P v"
  "knows L P (v\<lparr>v_callsYield := x1\<rparr>) = knows L P v" "knows L P (v\<lparr>v_callsResume := x1\<rparr>) = knows L P v"
  "knows L P (v\<lparr>v_callsUnknownFn := x1\<rparr>) = knows L P v" "knows L P (v\<lparr>v_sawSelfCall := x1\<rparr>) = knows L P v"
  "knows L P (v\<lparr>v_usesDebug := x1\<rparr>) = knows L P v" "knows L P (v\<lparr>v_usesSetfenv := x1\<rparr>) = knows L P v"
  "knows L P (v\<lparr>v_inlinedKnownCalls := x2\<rparr>) = knows L P v" "knows L P (v\<lparr>v_currentDepth := x3\<rparr>) = knows L P v"
  "knows L P (v\<lparr>v_maxClosureDepth := x3\<rparr>) = knows L P v"
  by (simp_all add: knows_def)

text \<open>A step of the visitor at the same depth that only raises flags.\<close>

lemma depth_simps [simp]:
  "depth_seen {} v (v\<lparr>v_sawVararg := x1\<rparr>)" "depth_seen {} v (v\<lparr>v_callsCoroutine := x1\<rparr>)"
  "depth_seen {} v (v\<lparr>v_callsUnknownFn := x1\<rparr>)" "depth_seen {} v (v\<lparr>v_sawSelfCall := x1\<rparr>)"
  "depth_seen {} v (v\<lparr>v_usesDebug := x1\<rparr>)" "depth_seen {} v (v\<lparr>v_usesSetfenv := x1\<rparr>)"
  "depth_seen {} v (v\<lparr>v_callsCoroutine := x1, v_callsYield := x2\<rparr>)"
  "depth_seen {} v (v\<lparr>v_callsCoroutine := x1, v_callsResume := x2\<rparr>)" "depth_seen {} v v"
  by (simp_all add: depth_seen_def)

lemma flagged_simps [simp]:
  "flagged (v\<lparr>v_sawVararg := True\<rparr>)" "flagged (v\<lparr>v_callsCoroutine := True\<rparr>)" "flagged (v\<lparr>v_callsUnknownFn := True\<rparr>)"
  "flagged (v\<lparr>v_sawSelfCall := True\<rparr>)" "flagged (v\<lparr>v_usesDebug := True\<rparr>)" "flagged (v\<lparr>v_usesSetfenv := True\<rparr>)"
  "flagged (v\<lparr>v_callsYield := x1\<rparr>) = flagged v" "flagged (v\<lparr>v_callsResume := x1\<rparr>) = flagged v"
  "flagged (v\<lparr>v_inlinedKnownCalls := x2\<rparr>) = flagged v" "flagged (v\<lparr>v_currentDepth := x3\<rparr>) = flagged v"
  "flagged (v\<lparr>v_maxClosureDepth := x3\<rparr>) = flagged v"
  by (simp_all add: flagged_def)

lemma flagged_updates [simp]:
  "flagged (v\<lparr>v_callsCoroutine := True, v_callsYield := x1\<rparr>)" "flagged (v\<lparr>v_callsCoroutine := True, v_callsResume := x1\<rparr>)"
  "flagged (v\<lparr>v_maxClosureDepth := x3, v_currentDepth := x4\<rparr>) = flagged v"
  by (simp_all add: flagged_def)

lemma knows_scope: "knows L P v \<Longrightarrow> knows L P (pushScope v)" "knows L P v \<Longrightarrow> knows L P (popScope v)"
  by (auto simp: knows_def pushScope_def popScope_def split: list.split)

lemma knows_maps_bind:
  "knows_maps L P m A \<Longrightarrow> knows_maps L P (m(n := None)) (A - {n})"
  "knows_maps L P m A \<Longrightarrow> (n, e) \<in> set P \<Longrightarrow> isSafeStdlibCall e \<Longrightarrow> knows_maps L P (m(n := None)) (insert n A)"
  "knows_maps L P m A \<Longrightarrow> f \<in> set L \<Longrightarrow> (n, FuncE f) \<in> set P \<Longrightarrow> knows_maps L P (m(n \<mapsto> f)) (A - {n})"
  by (auto simp: knows_maps_def)

lemma knows_bind:
  "knows L P v \<Longrightarrow> knows L P (forget n v)"
  "knows L P v \<Longrightarrow> (n, e) \<in> set P \<Longrightarrow> isSafeStdlibCall e \<Longrightarrow> knows L P (bind_alias n v)"
  "knows L P v \<Longrightarrow> f \<in> set L \<Longrightarrow> (n, FuncE f) \<in> set P \<Longrightarrow> knows L P (bind_func n f v)"
  by (auto simp: knows_def forget_def bind_alias_def bind_func_def intro: knows_maps_bind)

definition same_flags :: "visitor \<Rightarrow> visitor \<Rightarrow> bool" where
  "same_flags v v' \<longleftrightarrow> v_inlinedKnownCalls v' = v_inlinedKnownCalls v \<and> flagged v' = flagged v \<and>
     v_currentDepth v' = v_currentDepth v \<and> v_maxClosureDepth v' = v_maxClosureDepth v"

lemma same_flags_simps [simp]:
  "same_flags v (pushScope v)" "same_flags v (popScope v)" "same_flags v (forget n v)" "same_flags v (bind_alias n v)"
  "same_flags v (bind_func n f v)" "same_flags v v"
  by (simp_all add: same_flags_def pushScope_def popScope_def forget_def bind_alias_def bind_func_def flagged_def
      split: list.split)

lemma same_flags_trans: "same_flags u v \<Longrightarrow> same_flags v w \<Longrightarrow> same_flags u w" by (simp add: same_flags_def)

lemma bind_locals_ok:
  "knows L P v \<Longrightarrow> set (concat (map fs_expr es)) \<subseteq> set L \<Longrightarrow> set (zip ns es) \<subseteq> set P \<Longrightarrow>
    knows L P (bind_locals ns es v) \<and> same_flags v (bind_locals ns es v)"
proof (induction ns es v rule: bind_locals.induct)
  case (3 n ns e es v)
  let ?v = "case e of FuncE fn \<Rightarrow> bind_func n fn v | _ \<Rightarrow> if isSafeStdlibCall e then bind_alias n v else forget n v"
  have "knows L P ?v" "same_flags v ?v" using 3(2-4) fs_func_self by (auto intro!: knows_bind split: expr.split)
  with 3(1) 3(3,4) show ?case by (auto intro: same_flags_trans)
next
  case (2 n ns v)
  from 2(1) [OF knows_bind(1) [OF 2(2)]] same_flags_trans [OF same_flags_simps(3)] show ?case by auto
qed simp

lemma forget_targets_ok: "knows L P v \<Longrightarrow> knows L P (forget_targets ts v) \<and> same_flags v (forget_targets ts v)"
proof (induction ts v rule: forget_targets.induct)
  case (2 t ts v)
  let ?v = "case t of NameExpr _ n \<Rightarrow> forget n v | _ \<Rightarrow> v"
  have "knows L P ?v" "same_flags v ?v" using 2(2) by (auto intro: knows_bind split: expr.split)
  with 2(1) show ?case by (auto intro: same_flags_trans)
qed simp

lemma clean_same: "clean L P d v w \<Longrightarrow> same_flags w u \<Longrightarrow> clean L P d v u"
  by (simp add: clean_def depth_seen_def same_flags_def)

lemma clean_from: "clean L P d w u \<Longrightarrow> same_flags v w \<Longrightarrow> clean L P d v u"
  by (simp add: clean_def depth_seen_def same_flags_def)

lemma walked_same:
  assumes "walked L P F d v r" "\<And>v'. knows L P v' \<Longrightarrow> knows L P (g v') \<and> same_flags v' (g v')"
  shows "walked L P F d v (map_option g r)" "walked L P F d v (Option.bind r (\<lambda>v. Some (g v)))"
proof -
  from assms(1) obtain w where w: "r = Some w" "knows L P w" "v_inlinedKnownCalls v \<subseteq> v_inlinedKnownCalls w"
    "depth_seen F v w" "flagged v \<longrightarrow> flagged w" "flagged w \<or> clean L P d v w" by (auto simp: walked_def)
  from assms(2) [OF w(2)] w clean_same [of L P d v w "g w"]
  have "walked L P F d v (Some (g w))" by (auto simp: walked_def same_flags_def depth_seen_def)
  then show "walked L P F d v (map_option g r)" "walked L P F d v (Option.bind r (\<lambda>v. Some (g v)))" by (simp_all add: w(1))
qed

lemma walked_from: "walked L P F d v' r \<Longrightarrow> same_flags v v' \<Longrightarrow> walked L P F d v r"
  using clean_from [of L P d v' _ v] by (fastforce simp: walked_def same_flags_def depth_seen_def)

lemma name_walked:
  assumes "knows L P v"
  shows "walked L P {} (\<lambda>D. env_name n) v (Some (visitNameExpr n v))"
  using assms
  by (intro walked_Some)
    (simp_all add: visitNameExpr_def knows_def depth_seen_def flagged_def env_name_def)

lemma nest_body: "nest_func f = 1 \<or> (\<exists>g \<in> set (fs_block (fe_Body f)). nest_func f = Suc (nest_func g))"
proof -
  have "fold (\<lambda>g. max (h g)) xs m = m \<or> (\<exists>g \<in> set xs. fold (\<lambda>g. max (h g)) xs m = h g)" for h :: "funcexpr \<Rightarrow> nat" and xs m
    by (induction xs arbitrary: m) (auto simp: max_def split: if_splits)
  from this [of nest_func "fs_block (fe_Body f)" 0] show ?thesis by (auto simp: nest_func.simps [of f])
qed

context walkers
begin

lemma we_later:
  assumes "universe L P S" "set (fs_expr e) \<subseteq> set L" "knows L P v'" "v_inlinedKnownCalls v \<subseteq> v_inlinedKnownCalls v'"
    "need L S v + size e < k"
  shows "walked L P (set (fs_expr e)) (\<lambda>D. danger_expr D e) v' (we e v')"
  using assms need_mono [OF assms(4), of L S] by (intro we) simp_all

lemma wb_later:
  assumes "universe L P S" "set (fs_block b) \<subseteq> set L" "set (binds_block b) \<subseteq> set P" "knows L P v'"
    "v_inlinedKnownCalls v \<subseteq> v_inlinedKnownCalls v'" "need L S v + size b < k"
  shows "walked L P (set (fs_block b)) (\<lambda>D. danger_block D b) v' (wb b v')"
  using assms need_mono [OF assms(5), of L S] by (intro wb) simp_all

lemma two_walked:
  assumes "universe L P S" "set (fs_expr a) \<subseteq> set L" "set (fs_expr b) \<subseteq> set L" "knows L P v"
    "need L S v + size a < k" "need L S v + size b < k"
  shows "walked L P (set (fs_expr a) \<union> set (fs_expr b)) (\<lambda>D. danger_expr D a \<or> danger_expr D b) v
    (Option.bind (we a v) (we b))"
  by (rule walked_bind [OF we [OF assms(1,2,4,5)]]) (rule we_later [OF assms(1,3) _ _ assms(6)])

lemma exprs_walked:
  assumes "universe L P S" "set (concat (map fs_expr es)) \<subseteq> set L" "knows L P v'"
    "v_inlinedKnownCalls v \<subseteq> v_inlinedKnownCalls v'" "need L S v + size_list size es < k"
  shows "walked L P (\<Union>e \<in> set es. set (fs_expr e)) (\<lambda>D. list_ex (danger_expr D) es) v' (walk_list we es v')"
proof (rule walk_list_walked [where S = S and k = k])
  show "walked L P (set (fs_expr x)) (\<lambda>D. danger_expr D x) u (we x u)" if "x \<in> set es" "knows L P u" "need L S u + size x < k" for x u
    using assms(1,2) that by (intro we) auto
  show "need L S v' + size x < k" if "x \<in> set es" for x
    using size_mem [OF that] need_mono [OF assms(4), of L S] assms(5) by simp
qed (rule assms)

lemma opt_walked:
  assumes "universe L P S" "set (case x of Some e \<Rightarrow> fs_expr e | None \<Rightarrow> []) \<subseteq> set L" "knows L P v'"
    "v_inlinedKnownCalls v \<subseteq> v_inlinedKnownCalls v'" "need L S v + size_option size x < k"
  shows "walked L P (set (case x of Some e \<Rightarrow> fs_expr e | None \<Rightarrow> []))
    (\<lambda>D. case x of Some e \<Rightarrow> danger_expr D e | None \<Rightarrow> False) v' (walk_opt we x v')"
  using assms we_later [of _ v' v] by (cases x) (auto simp: walk_opt_def intro: walked_Some)

lemma func_walked:
  assumes u: "universe L P S" "set (fs_func f) \<subseteq> set L" "knows L P v" "need L S v + size f < Suc k"
  shows "walked L P (set (fs_func f)) (\<lambda>D. False) v (walkFuncExpr wb f v)"
proof -
  let ?d = "v_currentDepth v + 1"
  let ?sub = "newCompilabilityVisitor\<lparr>v_currentDepth := ?d,
                  v_localFuncs := unshadowed (fe_Params f) (v_localFuncs v),
                  v_safeAliases := v_safeAliases v - set (fe_Params f),
                  v_inlinedKnownCalls := v_inlinedKnownCalls v\<rparr>"
  have "knows L P ?sub" using u(3)
    by (auto simp: knows_def knows_maps_def newCompilabilityVisitor_def unshadowed_def split: if_splits)
  moreover have "need L S ?sub = need L S v" by (simp add: need_def)
  moreover have "set (binds_block (fe_Body f)) \<subseteq> set P" using u(1,2) fs_func_self by (auto simp: universe_def)
  ultimately have "walked L P (set (fs_block (fe_Body f))) (\<lambda>D. danger_block D (fe_Body f)) ?sub (wb (fe_Body f) ?sub)"
    using u size_body [of f] fs_func_body [of f] by (intro wb) auto
  then obtain sub' where sub': "wb (fe_Body f) ?sub = Some sub'" "depth_seen (set (fs_block (fe_Body f))) ?sub sub'"
    by (auto simp: walked_def)
  let ?v = "v\<lparr>v_maxClosureDepth := max (v_maxClosureDepth sub') (max ?d (v_maxClosureDepth v)), v_currentDepth := ?d - 1\<rparr>"
  have r: "walkFuncExpr wb f v = Some ?v" by (simp add: walkFuncExpr_def Let_def sub'(1))
  have deep: "?d + int (nest_func g) \<le> v_maxClosureDepth sub'" if "g \<in> set (fs_block (fe_Body f))" for g
    using sub'(2) that by (simp add: depth_seen_def)
  have "v_currentDepth v + int (nest_func f) \<le> v_maxClosureDepth ?v"
    using nest_body [of f] deep by fastforce
  then have "depth_seen (set (fs_func f)) v ?v" using deep by (fastforce simp: depth_seen_def fs_func_set)
  then show ?thesis unfolding r using u(3) by (intro walked_Some) simp_all
qed

text \<open>A followed function counts as followed while its own body is walked.\<close>

lemma inline_walked:
  assumes u: "universe L P S" "knows L P v" "need L S v < Suc k" and f: "f \<in> set L" "fe_Ref f \<notin> v_inlinedKnownCalls v"
    and d: "\<And>J. fe_Ref f \<in> J \<Longrightarrow> \<not> d (not_followed P J)"
  shows "walked L P {} d v (wb (fe_Body f) (v\<lparr>v_inlinedKnownCalls := insert (fe_Ref f) (v_inlinedKnownCalls v)\<rparr>))"
proof -
  let ?v = "v\<lparr>v_inlinedKnownCalls := insert (fe_Ref f) (v_inlinedKnownCalls v)\<rparr>"
  have "need L S ?v + size (fe_Body f) < k"
    using need_inline [OF f, of S] u(1,3) f(1) unfolding universe_def by fastforce
  with u f(1) have "walked L P (set (fs_block (fe_Body f))) (\<lambda>D. danger_block D (fe_Body f)) ?v (wb (fe_Body f) ?v)"
    by (intro wb) (auto simp: universe_def)
  then obtain w where w: "wb (fe_Body f) ?v = Some w" "knows L P w"
    "insert (fe_Ref f) (v_inlinedKnownCalls v) \<subseteq> v_inlinedKnownCalls w" "depth_seen (set (fs_block (fe_Body f))) v w"
    "flagged v \<longrightarrow> flagged w" "flagged w \<or> clean L P (\<lambda>D. danger_block D (fe_Body f)) ?v w"
    by (auto simp: walked_def depth_seen_def)
  have "clean L P d v w" if c: "clean L P (\<lambda>D. danger_block D (fe_Body f)) ?v w"
    unfolding clean_def
  proof (intro allI impI conjI ballI)
    fix J assume J: "v_inlinedKnownCalls w \<subseteq> J"
    show "\<not> d (not_followed P J)" using d J w(3) by auto
    fix r assume r: "r \<in> v_inlinedKnownCalls w - v_inlinedKnownCalls v"
    show "\<exists>h \<in> set L. fe_Ref h = r \<and> \<not> danger_block (not_followed P J) (fe_Body h) \<and>
        depth_seen (set (fs_block (fe_Body h))) v w"
    proof (cases "r = fe_Ref f")
      case True
      with c J f(1) w(4) show ?thesis by (auto simp: clean_def)
    next
      case False
      then have "r \<in> v_inlinedKnownCalls w - v_inlinedKnownCalls ?v" using r by simp
      with c J show ?thesis by (simp add: clean_def depth_seen_def)
    qed
  qed
  with w show ?thesis by (auto simp: walked_def intro: depth_seen_less)
qed

lemma walked_less: "walked L P F d v r \<Longrightarrow> G \<subseteq> F \<Longrightarrow> walked L P G d v r"
  by (auto simp: walked_def intro: depth_seen_less)

lemma lib_method_flat: "lib_method fn = Some x \<Longrightarrow> fs_expr fn = []"
  by (cases fn rule: lib_method.cases) simp_all

lemma safe_flat: "isSafeStdlibCall fn \<Longrightarrow> fs_expr fn = []" "isCoroutineCall fn \<Longrightarrow> fs_expr fn = []"
  "isDebugCall fn \<Longrightarrow> fs_expr fn = []"
  by (auto simp: isSafeStdlibCall_def isCoroutineCall_def isDebugCall_def dest: lib_method_flat
      split: expr.splits option.splits)

lemma call_walked:
  assumes u: "universe L P S" "set (fs_expr fn) \<subseteq> set L" "set (concat (map fs_expr args)) \<subseteq> set L" "knows L P v"
    "need L S v + size fn < k" "need L S v + size_list size args < k"
  shows "walked L P ((\<Union>e \<in> set args. set (fs_expr e)) \<union> set (fs_expr fn))
    (\<lambda>D. list_ex (danger_expr D) args \<or> danger_callee D fn) v (visitCallExpr we wb fn args v)"
  unfolding visitCallExpr_def
proof (rule walked_bind [OF exprs_walked [OF u(1,3,4) order_refl u(6)]])
  fix v'
  assume v': "knows L P v'" "v_inlinedKnownCalls v \<subseteq> v_inlinedKnownCalls v'"
  let ?rest = "if isCoroutineCall fn then
       Some (let v = v'\<lparr>v_callsCoroutine := True\<rparr> in
             if methodName fn = ''yield'' then v\<lparr>v_callsYield := True\<rparr>
             else if methodName fn = ''resume'' then v\<lparr>v_callsResume := True\<rparr> else v)
     else if isDebugCall fn then Some (v'\<lparr>v_usesDebug := True\<rparr>)
     else if (case fn of NameExpr _ n \<Rightarrow> n = ''setfenv'' \<or> n = ''getfenv'' | _ \<Rightarrow> False)
       then Some (v'\<lparr>v_usesSetfenv := True\<rparr>)
     else if isSafeStdlibCall fn then Some v'
     else if (case fn of NameExpr _ n \<Rightarrow> n \<in> v_safeAliases v' | _ \<Rightarrow> False) then Some v'
     else (case isKnownLocalCall fn v' of
         Some f \<Rightarrow>
           if fe_Ref f \<in> v_inlinedKnownCalls v' then Some v'
           else wb (fe_Body f) (v'\<lparr>v_inlinedKnownCalls := insert (fe_Ref f) (v_inlinedKnownCalls v')\<rparr>)
       | None \<Rightarrow> do { v \<leftarrow> we fn v'; Some (v\<lparr>v_callsUnknownFn := True\<rparr>) })"
  let ?W = "walked L P (set (fs_expr fn)) (\<lambda>D. danger_callee D fn) v'"
  have maps: "knows_maps L P (v_localFuncs v') (v_safeAliases v')" using v'(1) by (simp add: knows_def)
  show "?W ?rest"
  proof (cases "isCoroutineCall fn \<or> isDebugCall fn")
    case True
    then show ?thesis using v' by (auto simp: Let_def safe_flat intro!: walked_Some)
  next
    case no: False
    show ?thesis
    proof (cases "case fn of NameExpr _ n \<Rightarrow> n = ''setfenv'' \<or> n = ''getfenv'' | _ \<Rightarrow> False")
      case True
      then show ?thesis using no v' by (auto intro!: walked_Some split: expr.splits)
    next
      case env: False
      consider (safe) "isSafeStdlibCall fn"
        | (named) l n where "\<not> isSafeStdlibCall fn" "fn = NameExpr l n" "n \<in> v_safeAliases v'"
        | (known) l n f where "\<not> isSafeStdlibCall fn" "fn = NameExpr l n" "n \<notin> v_safeAliases v'" "v_localFuncs v' n = Some f"
        | (unknown) "\<not> isSafeStdlibCall fn" "\<not> (case fn of NameExpr _ n \<Rightarrow> n \<in> v_safeAliases v' | _ \<Rightarrow> False)"
            "isKnownLocalCall fn v' = None"
        by (cases "isKnownLocalCall fn v'"; cases fn) (auto simp: isKnownLocalCall_def)
      then show ?thesis
      proof cases
        case safe
        then have "\<not> danger_callee (not_followed P J) fn" for J
          using no env resolvedI(3) [of _ P] by (cases fn) (auto simp: danger_callee_def isSafeStdlibCall_def)
        then show ?thesis using no env safe v' by (auto simp: safe_flat intro!: walked_Some)
      next
        case named
        then have "\<not> not_followed P J n" for J using maps resolvedI(2) by (auto simp: knows_maps_def)
        then show ?thesis using no env named v' by (auto simp: danger_callee_def intro!: walked_Some)
      next
        case known
        then have f: "f \<in> set L" "(n, FuncE f) \<in> set P" using maps by (auto simp: knows_maps_def)
        have nd: "\<not> danger_callee (not_followed P J) fn" if "fe_Ref f \<in> J" for J
          using no env known(2) resolvedI(1) [OF f(2), of "\<lambda>g. fe_Ref g \<in> J"] that by (simp add: danger_callee_def)
        have "need L S v' < Suc k" using need_mono [OF v'(2), of L S] u(5) by simp
        note inline = inline_walked [where d = "\<lambda>D. danger_callee D fn", OF u(1) v'(1) this f(1) _ nd]
        from inline nd show ?thesis
          using no env known v'(1) by (auto simp: isKnownLocalCall_def intro!: walked_Some)
      next
        case unknown
        have "walked L P (set (fs_expr fn)) (\<lambda>D. danger_expr D fn) v' (we fn v')" by (rule we_later [OF u(1,2) v' u(5)])
        then obtain w where "we fn v' = Some w" "knows L P w" "v_inlinedKnownCalls v' \<subseteq> v_inlinedKnownCalls w"
          "depth_seen (set (fs_expr fn)) v' w"
          by (auto simp: walked_def)
        then show ?thesis using no env unknown by (auto simp: walked_def depth_seen_def)
      qed
    qed
  qed
qed

lemma item_walked:
  assumes u: "universe L P S" "set (fs_item it) \<subseteq> set L" "knows L P v" "need L S v + size it < Suc k"
  shows "walked L P (set (fs_item it)) (\<lambda>D. danger_item D it) v (walk_item we it v)"
proof -
  obtain key val a b c where it: "it = TableItem key val a b c" by (cases it)
  have "walked L P (set (case key of Some k \<Rightarrow> fs_expr k | None \<Rightarrow> []) \<union> set (fs_expr val))
      (\<lambda>D. (case key of Some k \<Rightarrow> danger_expr D k | None \<Rightarrow> False) \<or> danger_expr D val) v
      (Option.bind (walk_opt we key v) (\<lambda>v. we val v))"
    using u unfolding it by (intro walked_bind [OF opt_walked [OF _ _ _ order_refl]] we_later) auto
  then show ?thesis by (simp add: it walk_item_def)
qed

lemma expr_walked:
  assumes u: "universe L P S" "set (fs_expr e) \<subseteq> set L" "knows L P v" "need L S v + size e < Suc k"
  shows "walked L P (set (fs_expr e)) (\<lambda>D. danger_expr D e) v (walkExpr_step we wb e v)"
proof (cases e)
  case (VarargExpr a b)
  then show ?thesis using u(3) by (auto simp: walkExpr_step_def intro!: walked_Some)
next
  case (NameExpr l n)
  then show ?thesis using name_walked [OF u(3)] by (simp add: walkExpr_step_def)
next
  case (IndexExpr a b c d ob key)
  then show ?thesis using u by (simp add: walkExpr_step_def) (rule two_walked; simp)
next
  case (ParenExpr a b x)
  then show ?thesis using u by (auto simp: walkExpr_step_def intro!: we)
next
  case (CallExpr a b c d fn args)
  have "walked L P ((\<Union>e \<in> set args. set (fs_expr e)) \<union> set (fs_expr fn))
      (\<lambda>D. list_ex (danger_expr D) args \<or> danger_callee D fn) v (visitCallExpr we wb fn args v)"
    using u CallExpr by (intro call_walked) auto
  then show ?thesis by (simp add: walkExpr_step_def CallExpr Un_commute disj_commute)
next
  case (MethodCallExpr a b c recv m args)
  have "walked L P (set (fs_expr recv) \<union> ((\<Union>e \<in> set args. set (fs_expr e)) \<union> {}))
      (\<lambda>D. danger_expr D recv \<or> list_ex (danger_expr D) args \<or> True) v (visitMethodCallExpr we recv args v)"
    unfolding visitMethodCallExpr_def
    using u MethodCallExpr
    by (intro walked_bind [OF we] walked_bind [OF exprs_walked]) (auto intro!: walked_Some)
  then show ?thesis by (simp add: walkExpr_step_def MethodCallExpr)
next
  case (BinExpr a b c l r)
  then show ?thesis using u by (simp add: walkExpr_step_def) (rule two_walked; simp)
next
  case (UnExpr a b c x)
  then show ?thesis using u by (auto simp: walkExpr_step_def intro!: we)
next
  case (FuncE f)
  then show ?thesis using u func_walked [of f v] by (simp add: walkExpr_step_def)
next
  case (TableExpr a b c its)
  have "walked L P (\<Union>x \<in> set its. set (fs_item x)) (\<lambda>D. list_ex (danger_item D) its) v (walk_list (walk_item we) its v)"
  proof (rule walk_list_walked [where S = S and k = k])
    show "walked L P (set (fs_item x)) (\<lambda>D. danger_item D x) w (walk_item we x w)" if "x \<in> set its" "knows L P w" "need L S w + size x < k" for x w
      using u(1,2) that TableExpr by (intro item_walked) auto
    show "need L S v + size x < k" if "x \<in> set its" for x
      using size_mem [OF that] u(4) TableExpr by simp
  qed (rule u)
  then show ?thesis by (simp add: walkExpr_step_def TableExpr)
qed (use u(3) in \<open>auto simp: walkExpr_step_def intro: walked_Some\<close>)

lemma scope_walked:
  assumes "universe L P S" "set (fs_block b) \<subseteq> set L" "set (binds_block b) \<subseteq> set P" "knows L P v'"
    "v_inlinedKnownCalls v \<subseteq> v_inlinedKnownCalls v'" "need L S v + size b < k"
  shows "walked L P (set (fs_block b)) (\<lambda>D. danger_block D b) v' (in_new_scope wb b v')"
proof -
  have "need L S (pushScope v') = need L S v'" by (simp add: need_def pushScope_def)
  then have "walked L P (set (fs_block b)) (\<lambda>D. danger_block D b) (pushScope v') (wb b (pushScope v'))"
    using assms need_mono [OF assms(5), of L S] by (intro wb) (auto intro: knows_scope)
  then have "walked L P (set (fs_block b)) (\<lambda>D. danger_block D b) v' (wb b (pushScope v'))" by (rule walked_from) simp
  then show ?thesis unfolding in_new_scope_def by (rule walked_same) (auto intro: knows_scope)
qed

lemma cond_scope_walked:
  assumes "universe L P S" "set (fs_expr c) \<subseteq> set L" "set (fs_block b) \<subseteq> set L"
    "set (binds_block b) \<subseteq> set P" "knows L P v" "need L S v + size c < k" "need L S v + size b < k"
  shows "walked L P (set (fs_expr c) \<union> set (fs_block b)) (\<lambda>D. danger_expr D c \<or> danger_block D b) v
    (Option.bind (we c v) (in_new_scope wb b))"
  by (rule walked_bind [OF we [OF assms(1,2,5,6)]]) (rule scope_walked [OF assms(1,3,4) _ _ assms(7)])

lemma clauses_walked:
  assumes u: "universe L P S" "set (concat (map fs_clause cs)) \<subseteq> set L"
    "set (concat (map binds_clause cs)) \<subseteq> set P" "knows L P v" "need L S v + size_list size cs < k"
  shows "walked L P (\<Union>c \<in> set cs. set (fs_clause c)) (\<lambda>D. list_ex (danger_clause D) cs) v (walk_list (walk_clause we wb) cs v)"
proof (rule walk_list_walked [where S = S and k = k])
  show "walked L P (set (fs_clause x)) (\<lambda>D. danger_clause D x) w (walk_clause we wb x w)"
    if "x \<in> set cs" "knows L P w" "need L S w + size x < k" for x w
  proof -
    obtain c b l where x: "x = IfClause c b l" by (cases x)
    have "set (fs_clause x) \<subseteq> set L" "set (binds_clause x) \<subseteq> set P" using u(2,3) that(1) by auto
    then have "walked L P (set (fs_expr c) \<union> set (fs_block b)) (\<lambda>D. danger_expr D c \<or> danger_block D b) w (Option.bind (we c w) (in_new_scope wb b))"
      using u(1) that x by (intro cond_scope_walked) auto
    then show ?thesis by (simp add: x walk_clause_def)
  qed
  show "need L S v + size x < k" if "x \<in> set cs" for x using size_mem [OF that] u(5) by simp
qed (rule u)

lemma repeat_walked:
  assumes "universe L P S" "set (fs_block b) \<subseteq> set L" "set (binds_block b) \<subseteq> set P" "set (fs_expr c) \<subseteq> set L"
    "knows L P v" "need L S v + size b < k" "need L S v + size c < k"
  shows "walked L P (set (fs_block b) \<union> set (fs_expr c)) (\<lambda>D. danger_block D b \<or> danger_expr D c) v
    (Option.bind (wb b (pushScope v)) (\<lambda>v. Option.bind (we c v) (\<lambda>v. Some (popScope v))))"
proof -
  have "need L S (pushScope v) = need L S v" by (simp add: need_def pushScope_def)
  then have "walked L P (set (fs_block b)) (\<lambda>D. danger_block D b) (pushScope v) (wb b (pushScope v))"
    using assms by (intro wb) (auto intro: knows_scope)
  then have b: "walked L P (set (fs_block b)) (\<lambda>D. danger_block D b) v (wb b (pushScope v))" by (rule walked_from) simp
  show ?thesis
    by (rule walked_bind [OF b], rule walked_same(2), rule we_later [OF assms(1,4) _ _ assms(7)])
      (auto intro: knows_scope)
qed

lemma for_walked:
  assumes u: "universe L P S" "set (fs_expr i) \<subseteq> set L" "set (fs_expr l) \<subseteq> set L"
    "set (case st of Some e \<Rightarrow> fs_expr e | None \<Rightarrow> []) \<subseteq> set L" "set (fs_block b) \<subseteq> set L"
    "set (binds_block b) \<subseteq> set P" "knows L P v" "need L S v + size i < k" "need L S v + size l < k" "need L S v + size_option size st < k" "need L S v + size b < k"
  shows "walked L P (set (fs_expr i) \<union> (set (fs_expr l) \<union> (set (case st of Some e \<Rightarrow> fs_expr e | None \<Rightarrow> []) \<union> set (fs_block b))))
    (\<lambda>D. danger_expr D i \<or> danger_expr D l \<or> (case st of Some e \<Rightarrow> danger_expr D e | None \<Rightarrow> False) \<or> danger_block D b) v
    (Option.bind (we i v) (\<lambda>v. Option.bind (we l v) (\<lambda>v. Option.bind (walk_opt we st v) (in_new_scope wb b))))"
proof (rule walked_bind [OF we [OF u(1,2,7,8)]])
  fix v1 assume v1: "knows L P v1" "v_inlinedKnownCalls v \<subseteq> v_inlinedKnownCalls v1"
  show "walked L P (set (fs_expr l) \<union> (set (case st of Some e \<Rightarrow> fs_expr e | None \<Rightarrow> []) \<union> set (fs_block b)))
    (\<lambda>D. danger_expr D l \<or> (case st of Some e \<Rightarrow> danger_expr D e | None \<Rightarrow> False) \<or> danger_block D b) v1
    (Option.bind (we l v1) (\<lambda>v. Option.bind (walk_opt we st v) (in_new_scope wb b)))"
  proof (rule walked_bind [OF we_later [OF u(1,3) v1 u(9)]])
    fix v2 assume "knows L P v2" "v_inlinedKnownCalls v1 \<subseteq> v_inlinedKnownCalls v2"
    then have v2: "knows L P v2" "v_inlinedKnownCalls v \<subseteq> v_inlinedKnownCalls v2" using v1 by auto
    show "walked L P (set (case st of Some e \<Rightarrow> fs_expr e | None \<Rightarrow> []) \<union> set (fs_block b)) (\<lambda>D. (case st of Some e \<Rightarrow> danger_expr D e | None \<Rightarrow> False) \<or> danger_block D b) v2
      (Option.bind (walk_opt we st v2) (in_new_scope wb b))"
    proof (rule walked_bind [OF opt_walked [OF u(1,4) v2 u(10)]])
      fix v3 assume "knows L P v3" "v_inlinedKnownCalls v2 \<subseteq> v_inlinedKnownCalls v3"
      then show "walked L P (set (fs_block b)) (\<lambda>D. danger_block D b) v3 (in_new_scope wb b v3)"
        using v2 by (intro scope_walked [OF u(1,5,6) _ _ u(11)]) auto
    qed
  qed
qed

lemma stmt_walked:
  assumes u: "universe L P S" "set (fs_stmt s) \<subseteq> set L" "knows L P v" "need L S v + size s < k" "set (binds_stmt s) \<subseteq> set P"
  shows "walked L P (set (fs_stmt s)) (\<lambda>D. danger_stmt D s) v (walkStmt we wb s v)"
proof (cases s)
  case (LocalStmt a b c ns es)
  have "walked L P (\<Union>e \<in> set es. set (fs_expr e)) (\<lambda>D. list_ex (danger_expr D) es) v
      (Option.bind (walk_list we es v) (\<lambda>v. Some (bind_locals ns es v)))"
    using u LocalStmt by (intro walked_same(2) exprs_walked [OF u(1) _ u(3) order_refl] bind_locals_ok) auto
  then show ?thesis by (simp add: LocalStmt walkStmt_def)
next
  case (LocalFuncStmt a n f)
  have "f \<in> set L" "(n, FuncE f) \<in> set P" using u(2,5) LocalFuncStmt fs_func_self by auto
  then have "walked L P (set (fs_func f)) (\<lambda>D. False) (bind_func n f v) (walkFuncExpr wb f (bind_func n f v))"
    using u LocalFuncStmt by (intro func_walked knows_bind) (auto simp: need_def bind_func_def)
  then show ?thesis using walked_from by (simp add: LocalFuncStmt walkStmt_def)
next
  case (AssignStmt a b c ts es)
  have "walked L P ((\<Union>e \<in> set ts. set (fs_expr e)) \<union> (\<Union>e \<in> set es. set (fs_expr e)))
      (\<lambda>D. list_ex (danger_expr D) ts \<or> list_ex (danger_expr D) es) v
      (Option.bind (walk_list we ts v) (\<lambda>v. Option.bind (walk_list we es v) (\<lambda>v. Some (forget_targets ts v))))"
    using u AssignStmt
    by (intro walked_bind [OF exprs_walked [OF u(1) _ u(3) order_refl]] walked_same(2) exprs_walked [OF u(1)] forget_targets_ok) auto
  then show ?thesis by (simp add: AssignStmt walkStmt_def)
next
  case (CallStmt a e)
  then show ?thesis using u we [OF u(1) _ u(3), of e] by (simp add: walkStmt_def)
next
  case (DoStmt a b)
  then show ?thesis using u scope_walked [OF u(1) _ _ u(3) order_refl, of b] by (simp add: walkStmt_def)
next
  case (WhileStmt a b c d)
  then show ?thesis using u cond_scope_walked [OF u(1) _ _ _ u(3), of c d] by (simp add: walkStmt_def)
next
  case (RepeatStmt a b c d)
  then show ?thesis using u repeat_walked [OF u(1) _ _ _ u(3), of b c] by (simp add: walkStmt_def)
next
  case (IfStmt a cs els)
  have "walked L P ((\<Union>c \<in> set cs. set (fs_clause c)) \<union> set (case els of Some b \<Rightarrow> fs_block b | None \<Rightarrow> []))
      (\<lambda>D. list_ex (danger_clause D) cs \<or> (case els of Some b \<Rightarrow> danger_block D b | None \<Rightarrow> False)) v
      (Option.bind (walk_list (walk_clause we wb) cs v) (walk_opt (in_new_scope wb) els))"
  proof (rule walked_bind)
    show "walked L P (\<Union>c \<in> set cs. set (fs_clause c)) (\<lambda>D. list_ex (danger_clause D) cs) v (walk_list (walk_clause we wb) cs v)"
      using u IfStmt by (intro clauses_walked) auto
    fix v' assume v': "knows L P v'" "v_inlinedKnownCalls v \<subseteq> v_inlinedKnownCalls v'"
    show "walked L P (set (case els of Some b \<Rightarrow> fs_block b | None \<Rightarrow> []))
        (\<lambda>D. case els of Some b \<Rightarrow> danger_block D b | None \<Rightarrow> False) v' (walk_opt (in_new_scope wb) els v')"
      using u IfStmt v' scope_walked [OF u(1) _ _ v']
      by (cases els) (auto simp: walk_opt_def intro: walked_Some)
  qed
  then show ?thesis by (simp add: IfStmt walkStmt_def)
next
  case (NumForStmt a b c d i l st bl)
  then show ?thesis using u for_walked [OF u(1) _ _ _ _ _ u(3), of i l st bl] by (simp add: walkStmt_def)
next
  case (GenForStmt a b c d e es bl)
  have "walked L P ((\<Union>e \<in> set es. set (fs_expr e)) \<union> set (fs_block bl)) (\<lambda>D. list_ex (danger_expr D) es \<or> danger_block D bl) v
      (Option.bind (walk_list we es v) (in_new_scope wb bl))"
    using u GenForStmt
    by (intro walked_bind [OF exprs_walked [OF u(1) _ u(3) order_refl]] scope_walked [OF u(1)]) auto
  then show ?thesis by (simp add: GenForStmt walkStmt_def)
next
  case (FuncStmt a t m f)
  have "walked L P (set (fs_expr t) \<union> set (fs_func f)) (\<lambda>D. danger_expr D t \<or> False) v (Option.bind (we t v) (walkFuncExpr wb f))"
  proof (rule walked_bind)
    show "walked L P (set (fs_expr t)) (\<lambda>D. danger_expr D t) v (we t v)" using u FuncStmt by (intro we) auto
    fix v' assume "knows L P v'" "v_inlinedKnownCalls v \<subseteq> v_inlinedKnownCalls v'"
    then show "walked L P (set (fs_func f)) (\<lambda>D. False) v' (walkFuncExpr wb f v')"
      using u FuncStmt need_mono [of v v' L S] by (intro func_walked) auto
  qed
  then show ?thesis by (simp add: FuncStmt walkStmt_def)
next
  case (ReturnStmt a b es)
  then show ?thesis using u exprs_walked [OF u(1) _ u(3) order_refl, of es] by (simp add: walkStmt_def)
next
  case (BreakStmt a)
  then show ?thesis using u by (auto simp: walkStmt_def intro: walked_Some)
qed

lemma block_walked:
  assumes u: "universe L P S" "set (fs_block b) \<subseteq> set L" "set (binds_block b) \<subseteq> set P" "knows L P v"
    "need L S v + size b < Suc k"
  shows "walked L P (set (fs_block b)) (\<lambda>D. danger_block D b) v (walk_list (walkStmt we wb) (b_Stmts b) v)"
proof -
  obtain ss l where b: "b = Block ss l" by (cases b)
  have "walked L P (\<Union>s \<in> set ss. set (fs_stmt s)) (\<lambda>D. list_ex (danger_stmt D) ss) v (walk_list (walkStmt we wb) ss v)"
  proof (rule walk_list_walked [where S = S and k = k])
    show "walked L P (set (fs_stmt x)) (\<lambda>D. danger_stmt D x) w (walkStmt we wb x w)" if "x \<in> set ss" "knows L P w" "need L S w + size x < k" for x w
      using u(1-3) that b by (intro stmt_walked) auto
    show "need L S v + size x < k" if "x \<in> set ss" for x using size_mem [OF that] u(5) b by simp
  qed (rule u)
  then show ?thesis by (simp add: b)
qed

end

interpretation walks: walkers "\<lambda>e v. walkExpr k e v" "\<lambda>b v. walkBlock k b v" L P S k for L P S k
proof (induction k)
  case 0
  show ?case by (rule walkers.intro) simp_all
next
  case (Suc k)
  show ?case
    by (rule walkers.intro) (simp_all add: walkers.expr_walked [OF Suc] walkers.block_walked [OF Suc])
qed

end
