(* ===== verification/AnalyzerSpec.thy ===== *)
theory AnalyzerSpec
  imports AnalyzerWalk
begin

text \<open>
  The analyzer returns, whatever functions call each other, and is conservative about what it sees directly, about
  the names it cannot resolve, and about the local functions it follows.
\<close>

section \<open>Which fuel is enough\<close>

definition known_funcs :: "funcexpr \<Rightarrow> (string \<times> funcexpr) list \<Rightarrow> funcexpr list" where
  "known_funcs f outer = fs_func f @ concat (map (\<lambda>(n, g). fs_func g) outer)"

text \<open>Everything that may bind a name in sight: the functions and aliases of the enclosing functions, and the local
  statements of every known function.\<close>

definition bindings :: "funcexpr \<Rightarrow> (string \<times> funcexpr) list \<Rightarrow> (string \<times> expr) list \<Rightarrow> (string \<times> expr) list" where
  "bindings f outer aliases =
     map (\<lambda>(n, g). (n, FuncE g)) outer @ filter (\<lambda>(n, e). isSafeStdlibCall e) aliases @
       concat (map (\<lambda>g. binds_block (fe_Body g)) (known_funcs f outer))"

definition body_sizes :: "funcexpr list \<Rightarrow> nat" where
  "body_sizes L = sum_list (map (\<lambda>f. size (fe_Body f)) L)"

definition analysis_fuel :: "funcexpr \<Rightarrow> (string \<times> funcexpr) list \<Rightarrow> nat" where
  "analysis_fuel f outer =
     (let L = known_funcs f outer in (length L + 1) * (body_sizes L + 1))"

lemma known_closed: "g \<in> set (known_funcs f outer) \<Longrightarrow> set (fs_func g) \<subseteq> set (known_funcs f outer)"
  by (auto simp: known_funcs_def dest: fs_trans(2) [THEN subsetD])

lemma known_universe: "universe (known_funcs f outer) (bindings f outer aliases) (body_sizes (known_funcs f outer))"
  unfolding universe_def
proof
  fix g assume g: "g \<in> set (known_funcs f outer)"
  have "size (fe_Body g) \<le> body_sizes (known_funcs f outer)"
    unfolding body_sizes_def using g by (intro member_le_sum_list) auto
  then show "set (fs_block (fe_Body g)) \<subseteq> set (known_funcs f outer) \<and>
      set (binds_block (fe_Body g)) \<subseteq> set (bindings f outer aliases) \<and> size (fe_Body g) \<le> body_sizes (known_funcs f outer)"
    using g known_closed [OF g] fs_func_body [of g] by (auto simp: bindings_def)
qed

lemma outer_knows: "knows (known_funcs f outer) (bindings f outer aliases) (outer_visitor f outer aliases)"
proof -
  have "g \<in> set (known_funcs f outer) \<and> (n, FuncE g) \<in> set (bindings f outer aliases)" if "(n, g) \<in> set outer" for n g
    using that fs_func_self [of g] by (auto simp: known_funcs_def bindings_def)
  moreover have "(n, e) \<in> set (bindings f outer aliases)" if "(n, e) \<in> set aliases" "isSafeStdlibCall e" for n e
    using that by (simp add: bindings_def)
  ultimately show ?thesis
    by (fastforce simp: knows_def knows_maps_def outer_visitor_def newCompilabilityVisitor_def unshadowed_def
        split: if_splits option.splits dest: map_of_SomeD)
qed

lemma analysis_walks:
  assumes "analysis_fuel f outer \<le> k"
  shows "walked (known_funcs f outer) (bindings f outer aliases) (set (fs_block (fe_Body f)))
    (\<lambda>D. danger_block D (fe_Body f)) (outer_visitor f outer aliases)
    (walkBlock k (fe_Body f) (outer_visitor f outer aliases))"
proof -
  let ?L = "known_funcs f outer" and ?v = "outer_visitor f outer aliases"
  have f: "f \<in> set ?L" using fs_func_self by (simp add: known_funcs_def)
  have "card (fe_Ref ` set ?L - v_inlinedKnownCalls ?v) \<le> card (fe_Ref ` set ?L)" by (rule card_mono) auto
  also have "\<dots> \<le> length ?L" using card_image_le [of "set ?L" fe_Ref] card_length [of ?L] by simp
  finally have "need ?L (body_sizes ?L) ?v \<le> length ?L * (body_sizes ?L + 1)" unfolding need_def by (rule mult_le_mono1)
  moreover have "size (fe_Body f) \<le> body_sizes ?L" using known_universe [of f outer "[]"] f by (auto simp: universe_def)
  ultimately have "need ?L (body_sizes ?L) ?v + size (fe_Body f) < k"
    using assms by (simp add: analysis_fuel_def Let_def)
  moreover have "set (fs_block (fe_Body f)) \<subseteq> set ?L" using known_closed [OF f] fs_func_body [of f] by auto
  moreover have "set (binds_block (fe_Body f)) \<subseteq> set (bindings f outer aliases)" using f by (auto simp: bindings_def)
  ultimately show ?thesis using walks.wb [OF known_universe _ _ outer_knows] by blast
qed

section \<open>What a verdict may not miss\<close>

text \<open>A function that contains, outside nested functions, a dangerous shape or a call by a name of \<open>D\<close>; or that nests
  functions deeper than allowed.\<close>

definition unsafe_body :: "(string \<Rightarrow> bool) \<Rightarrow> funcexpr \<Rightarrow> bool" where
  "unsafe_body D g \<longleftrightarrow> danger_block D (fe_Body g) \<or>
     list_ex (\<lambda>h. MaxClosureDepth < int (nest_func h)) (fs_block (fe_Body g))"

text \<open>Names it is dangerous to call, found in \<open>i\<close> rounds: a name that is not whitelisted, that nothing in sight binds to
  a whitelisted function, and whose every local function in sight is unsafe. A name nothing in sight binds is dangerous
  in the first round.\<close>

fun unsafe_name :: "(string \<times> expr) list \<Rightarrow> nat \<Rightarrow> string \<Rightarrow> bool" where
  "unsafe_name P 0 n = False"
| "unsafe_name P (Suc i) n = unresolved P (\<lambda>g. \<not> unsafe_body (unsafe_name P i) g) n"

lemma unbound_name_unsafe:
  "n \<notin> safeStdlibFuncs \<Longrightarrow> n \<notin> fst ` set P \<Longrightarrow> unsafe_name P (Suc i) n"
  by (force simp: unresolved_def list_ex_iff)

lemma danger_callee_mono: "\<forall>n. D n \<longrightarrow> E n \<Longrightarrow> danger_callee D fn \<Longrightarrow> danger_callee E fn"
  by (auto simp: danger_callee_def split: expr.splits)

lemma danger_expr_mono:
  "\<forall>n. D n \<longrightarrow> E n \<Longrightarrow> danger_expr D e \<Longrightarrow> danger_expr E e" "\<forall>n. D n \<longrightarrow> E n \<Longrightarrow> danger_item D it \<Longrightarrow> danger_item E it"
  by (induction D e and D it rule: danger_expr_danger_item.induct)
    (auto simp: list_ex_iff danger_callee_mono split: option.splits)

lemma danger_mono:
  "\<forall>n. D n \<longrightarrow> E n \<Longrightarrow> danger_block D b \<Longrightarrow> danger_block E b" "\<forall>n. D n \<longrightarrow> E n \<Longrightarrow> danger_stmt D s \<Longrightarrow> danger_stmt E s"
  "\<forall>n. D n \<longrightarrow> E n \<Longrightarrow> danger_clause D c \<Longrightarrow> danger_clause E c"
  by (induction D b and D s and D c rule: danger_block_danger_stmt_danger_clause.induct)
    (auto simp: list_ex_iff split: option.splits dest: danger_expr_mono)

lemma unsafe_mono: "(\<And>n. D n \<Longrightarrow> E n) \<Longrightarrow> unsafe_body D g \<Longrightarrow> unsafe_body E g"
  using danger_mono(1) by (auto simp: unsafe_body_def)

text \<open>The functions followed are safe relative to each other, so no round finds a name they call unsafe.\<close>

lemma followed_safe:
  assumes inj: "inj_on fe_Ref (set L)" and P: "\<And>n g. (n, FuncE g) \<in> set P \<Longrightarrow> g \<in> set L"
    and J: "\<And>r. r \<in> J \<Longrightarrow> \<exists>h \<in> set L. fe_Ref h = r \<and> \<not> unsafe_body (not_followed P J) h"
  shows "unsafe_name P i n \<Longrightarrow> not_followed P J n"
proof (induction i arbitrary: n)
  case (Suc i)
  have ok: "\<not> unsafe_body (unsafe_name P i) g" if g: "(n, FuncE g) \<in> set P" "fe_Ref g \<in> J" for g
  proof -
    from J [OF g(2)] obtain h where "h \<in> set L" "fe_Ref h = fe_Ref g" "\<not> unsafe_body (not_followed P J) h" by auto
    with inj P [OF g(1)] have "\<not> unsafe_body (not_followed P J) g" by (metis inj_onD)
    then show ?thesis using unsafe_mono Suc.IH by blast
  qed
  from Suc.prems show ?case using ok
    by (fastforce simp: unresolved_def list_ex_iff split: expr.splits)
qed simp

lemma binds_known:
  "(n, FuncE g) \<in> set (binds_block b) \<Longrightarrow> g \<in> set (fs_block b)"
  "(n, FuncE g) \<in> set (binds_stmt s) \<Longrightarrow> g \<in> set (fs_stmt s)"
  "(n, FuncE g) \<in> set (binds_clause c) \<Longrightarrow> g \<in> set (fs_clause c)"
proof (induction b and s and c rule: binds_block_binds_stmt_binds_clause.induct)
  case (2 a b c ns es)
  then have "FuncE g \<in> set es" by (auto dest: set_zip_rightD)
  then show ?case using fs_func_self by force
qed (use fs_func_self in \<open>auto split: option.splits\<close>)

lemma bindings_known: "(n, FuncE g) \<in> set (bindings f outer aliases) \<Longrightarrow> g \<in> set (known_funcs f outer)"
proof -
  assume "(n, FuncE g) \<in> set (bindings f outer aliases)"
  then consider "(n, g) \<in> set outer" | "isSafeStdlibCall (FuncE g)"
    | h where "h \<in> set (known_funcs f outer)" "(n, FuncE g) \<in> set (binds_block (fe_Body h))"
    by (auto simp: bindings_def)
  then show ?thesis
  proof cases
    case 1
    then show ?thesis using fs_func_self [of g] by (auto simp: known_funcs_def)
  next
    case 2
    then show ?thesis by (simp add: isSafeStdlibCall_def)
  next
    case 3
    then show ?thesis using known_closed [OF 3(1)] binds_known(1) [OF 3(2)] fs_func_body [of h] by blast
  qed
qed

section \<open>Examples\<close>

definition call_name :: "string \<Rightarrow> expr list \<Rightarrow> expr" where
  "call_name n args = CallExpr 1 1 1 (map (\<lambda>_. 1) args) (NameExpr 1 n) args"

definition helper_func :: funcexpr where
  "helper_func = FuncExpr 1 1 [''x''] False False
     (Block [ReturnStmt 1 [1] [call_name ''helper'' [NameExpr 1 ''x'']]] 1) 1"

text \<open>\<open>local function helper(x) return helper(x) end return helper(1)\<close>\<close>

definition recursive_func :: funcexpr where
  "recursive_func = FuncExpr 0 0 [] False False
     (Block [LocalFuncStmt 1 ''helper'' helper_func, ReturnStmt 1 [1] [call_name ''helper'' [TrueExpr 1]]] 1) 1"

definition checked_proto :: proto where
  "checked_proto = \<lparr>pr_Source = ''f'', pr_LineDefined = 1, pr_LineEnd = 2, pr_NumParams = 0, pr_IsVararg = False,
     pr_NeedsArg = False, pr_MaxStack = 2, pr_Code = [0], pr_Consts = [], pr_StringLits = [],
     pr_StringLitIdx = [], pr_Protos = [], pr_SubNUps = [], pr_UpvalDescs = [], pr_LineInfo = [], pr_LocVars = [],
     pr_IC = [], pr_Compilability = 0, pr_CompReasons = 0, pr_IntrinsicCallPCs = []\<rparr>"

definition open_backend :: "nat P3Compiler" where
  "open_backend = \<lparr>p3_SupportsAllOpcodes = (\<lambda>pr. True), p3_Compile = (\<lambda>pr fb. Compiled 0),
     p3_WorthPromoting = None, p3_ExemptFromFloor = None, p3_MinPromotableLen = None\<rparr>"

definition analyze_example :: "nat \<Rightarrow> funcexpr \<Rightarrow> (Compilability \<times> (pref \<Rightarrow> proto) \<times> nat bridge) option" where
  "analyze_example k f = AnalyzeProtoWithOuter k (\<lambda>_. checked_proto) (SetP3Compiler (Some open_backend) NewBridge) f 0 [] []"

text \<open>\<open>local type = function() coroutine.yield() end type()\<close>\<close>

definition shadowing_func :: funcexpr where
  "shadowing_func = FuncExpr 0 0 [] False False
     (Block [LocalStmt 1 [1] 1 [''type''] [FuncE (FuncExpr 1 1 [] False False
         (Block [CallStmt 1 (CallExpr 1 1 1 [] (IndexExpr 1 1 1 1 (NameExpr 1 ''coroutine'') (StringExpr 1 ''yield'')) [])] 1) 1)],
       CallStmt 1 (call_name ''type'' [])] 1) 1"

lemma example_verdicts:
  "map_option fst (analyze_example 200 recursive_func) = Some CompCompilable" "analysis_fuel recursive_func [] \<le> 200"
  by code_simp+

text \<open>The whitelist of library functions is consulted before the local names: a local function that yields is trusted
  when it is called \<open>type\<close>.\<close>

lemma shadowed_name_is_trusted:
  "map_option fst (analyze_example 200 shadowing_func) = Some CompCompilable \<and>
   map_option fst (analyze_example 200 (FuncExpr 0 0 [] False False
     (Block [LocalStmt 1 [1] 1 [''kind''] [FuncE (FuncExpr 1 1 [] False False
         (Block [CallStmt 1 (CallExpr 1 1 1 [] (IndexExpr 1 1 1 1 (NameExpr 1 ''coroutine'') (StringExpr 1 ''yield'')) [])] 1) 1)],
       CallStmt 1 (call_name ''kind'' [])] 1) 1)) = Some CompNotCompilable"
  by code_simp

text \<open>What the rounds find: a call by a name nothing binds, a local function that yields, and one that calls it.\<close>

definition yields :: stmt where
  "yields = CallStmt 1 (CallExpr 1 1 1 [] (IndexExpr 1 1 1 1 (NameExpr 1 ''coroutine'') (StringExpr 1 ''yield'')) [])"

definition caller_of :: "stmt list \<Rightarrow> string \<Rightarrow> funcexpr" where
  "caller_of ss n = FuncExpr 0 0 [] False False (Block (ss @ [CallStmt 1 (call_name n [])]) 1) 1"

definition helper_of :: "nat \<Rightarrow> string \<Rightarrow> stmt list \<Rightarrow> stmt" where
  "helper_of r n ss = LocalFuncStmt 1 n (FuncExpr r 1 [] False False (Block ss 1) 1)"

lemma rounds_find:
  "unsafe_body (unsafe_name (bindings f [] []) i) f" if
  "(i, f) \<in> {(1, caller_of [] ''foo''), (1, caller_of [helper_of 1 ''h'' [yields]] ''h''),
     (2, caller_of [helper_of 1 ''h'' [yields], helper_of 2 ''g'' [CallStmt 1 (call_name ''h'' [])]] ''g'')}"
proof -
  have "list_all (\<lambda>(i, f). unsafe_body (unsafe_name (bindings f [] []) i) f)
    [(1, caller_of [] ''foo''), (1, caller_of [helper_of 1 ''h'' [yields]] ''h''),
     (2, caller_of [helper_of 1 ''h'' [yields], helper_of 2 ''g'' [CallStmt 1 (call_name ''h'' [])]] ''g'')]"
    by code_simp
  with that show ?thesis by auto
qed

text \<open>The analyzer does not follow the scopes of Lua exactly. A followed function is walked in the scope of its caller, so
  its local names leak into it; and the variable of a loop does not hide a local function of its name. In both functions
  the call is of an unknown value, and both are found compilable.\<close>

lemma scopes_leak:
  "map_option fst (analyze_example 200 (caller_of
     [helper_of 1 ''h'' [LocalStmt 1 [1] 1 [''foo''] [NameExpr 1 ''type'']], CallStmt 1 (call_name ''h'' [])] ''foo'')) =
   Some CompCompilable"
  "map_option fst (analyze_example 200 (FuncExpr 0 0 [''t''] False False (Block [helper_of 1 ''h'' [],
     GenForStmt 1 [''h''] 1 1 [1] [NameExpr 1 ''t''] (Block [CallStmt 1 (call_name ''h'' [])] 1)] 1) 1)) = Some CompCompilable"
  by code_simp+

section \<open>The claims\<close>

text \<open>C18. The analysis of a function always returns, however its local functions call each other and themselves: the
  only panic is a proto whose vararg flag disagrees with the tree.\<close>

theorem analysis_returns:
  assumes "analysis_fuel f outer \<le> k"
  shows "AnalyzeProtoWithOuter k ps b f p outer aliases = None \<longleftrightarrow> fe_IsVararg f \<noteq> pr_IsVararg (ps p)"
proof -
  from analysis_walks [OF assms, of aliases] obtain v where
    "walkBlock k (fe_Body f) (outer_visitor f outer aliases) = Some v" by (auto simp: walked_def)
  then show ?thesis by (simp add: AnalyzeProtoWithOuter_def Let_def)
qed

theorem analysis_returns_witness: "analyze_example 200 recursive_func \<noteq> None"
  using analysis_returns [of recursive_func "[]" 200 "\<lambda>_. checked_proto" "SetP3Compiler (Some open_backend) NewBridge" 0 "[]"]
    example_verdicts(2)
  by (simp add: analyze_example_def recursive_func_def checked_proto_def)

lemma or_zero_iff: "(a OR b :: 'a :: len word) = 0 \<longleftrightarrow> a = 0 \<and> b = 0"
  by (metis or_eq_0_iff)

lemma reason_if_zero:
  "reason_if c ReasonVararg = 0 \<longleftrightarrow> \<not> c" "reason_if c ReasonYield = 0 \<longleftrightarrow> \<not> c" "reason_if c ReasonResume = 0 \<longleftrightarrow> \<not> c"
  "reason_if c ReasonCoroutine = 0 \<longleftrightarrow> \<not> c" "reason_if c ReasonUnknownCall = 0 \<longleftrightarrow> \<not> c"
  "reason_if c ReasonSelfCall = 0 \<longleftrightarrow> \<not> c" "reason_if c ReasonDebug = 0 \<longleftrightarrow> \<not> c" "reason_if c ReasonSetfenv = 0 \<longleftrightarrow> \<not> c"
  "reason_if c ReasonOverSize = 0 \<longleftrightarrow> \<not> c" "reason_if c ReasonOverRegs = 0 \<longleftrightarrow> \<not> c"
  "reason_if c ReasonNestedDeep = 0 \<longleftrightarrow> \<not> c" "reason_if c ReasonOverUpval = 0 \<longleftrightarrow> \<not> c"
  by (simp_all add: reason_if_def ReasonVararg_def ReasonYield_def ReasonResume_def ReasonCoroutine_def
      ReasonUnknownCall_def ReasonSelfCall_def ReasonDebug_def ReasonSetfenv_def ReasonOverSize_def ReasonOverRegs_def
      ReasonNestedDeep_def ReasonOverUpval_def)

lemma structural_zero:
  "structural_reasons f pr v = 0 \<Longrightarrow> \<not> flagged v \<and> \<not> fe_IsVararg f \<and> \<not> protoIsVararg pr \<and>
     int (length (pr_Code pr)) \<le> MaxCompilableInsns \<and> uint (pr_MaxStack pr) \<le> MaxCompilableRegs \<and>
     v_maxClosureDepth v \<le> MaxClosureDepth \<and> int (length (pr_UpvalDescs pr)) \<le> MaxUpvalCount"
  unfolding structural_reasons_def or_zero_iff reason_if_zero by (auto simp: flagged_def)

text \<open>C19. The verdict is conservative. A function found compilable contains, outside nested functions, no vararg, no
  method call, no call of a coroutine or debug function, none of the names that change environments, no call of
  anything but a name or a whitelisted library function, and no call by a name that nothing in sight binds: a name it
  calls is whitelisted, or bound somewhere in sight to a whitelisted function, or to a local function of which all this
  holds again, to any number of rounds, so that a helper that yields, and every helper that calls it, is refused. No
  function in it or in a helper is nested deeper than \<open>MaxClosureDepth\<close>. Its proto is within the limits; the backend
  supports it. (Function literals have distinct addresses. Names are compared, not scopes: \<open>scopes_leak\<close> shows
  calls that scoping makes unknown and the analyzer lets through.)\<close>

theorem compilable_is_safe:
  assumes "analysis_fuel f outer \<le> k" "inj_on fe_Ref (set (known_funcs f outer))"
    "AnalyzeProtoWithOuter k ps b f p outer aliases = Some (CompCompilable, ps', b')"
  shows "(\<forall>i. \<not> unsafe_body (unsafe_name (bindings f outer aliases) i) f) \<and> \<not> fe_IsVararg f \<and> \<not> protoIsVararg (ps p) \<and>
    int (length (pr_Code (ps p))) \<le> MaxCompilableInsns \<and> uint (pr_MaxStack (ps p)) \<le> MaxCompilableRegs \<and>
    int (length (pr_UpvalDescs (ps p))) \<le> MaxUpvalCount \<and>
    (\<exists>c. b_p3 b = Some c \<and> p3_SupportsAllOpcodes c (ps p)) \<and>
    pr_Compilability (ps' p) = CompCompilable \<and> pr_CompReasons (ps' p) = 0"
proof -
  let ?L = "known_funcs f outer" and ?P = "bindings f outer aliases" and ?v = "outer_visitor f outer aliases"
  from analysis_walks [OF assms(1), of aliases] obtain v where v: "walkBlock k (fe_Body f) ?v = Some v"
    "depth_seen (set (fs_block (fe_Body f))) ?v v" "flagged v \<or> clean ?L ?P (\<lambda>D. danger_block D (fe_Body f)) ?v v"
    by (auto simp: walked_def)
  have r: "structural_reasons f (ps p) v = 0" and f7: "\<not> checkF7BackendSupport b (ps p)"
    and s: "(ps', b') = SetCompilability ps b p CompCompilable 0"
    using assms(3) v(1)
    by (auto simp: AnalyzeProtoWithOuter_def Let_def HasAny_def CompCompilable_def CompNotCompilable_def
        ReasonBackendUnsupp_def split: if_splits)
  let ?J = "v_inlinedKnownCalls v"
  have start: "v_currentDepth ?v = 0" "v_inlinedKnownCalls ?v = {}"
    by (simp_all add: outer_visitor_def newCompilabilityVisitor_def)
  note zero = structural_zero [OF r]
  have body: "\<not> unsafe_body D g" if "\<not> danger_block D (fe_Body g)" "depth_seen (set (fs_block (fe_Body g))) ?v v" for D g
    using that zero start(1) by (force simp: unsafe_body_def depth_seen_def list_ex_iff)
  from v(3) zero have c: "clean ?L ?P (\<lambda>D. danger_block D (fe_Body f)) ?v v" by simp
  then have f: "\<not> unsafe_body (not_followed ?P ?J) f" using v(2) by (intro body) (simp_all add: clean_def)
  have hs: "\<exists>h \<in> set ?L. fe_Ref h = r \<and> \<not> unsafe_body (not_followed ?P ?J) h" if "r \<in> ?J" for r
  proof -
    from c [unfolded clean_def, rule_format, of ?J] that start(2) obtain h where "h \<in> set ?L" "fe_Ref h = r"
      "\<not> danger_block (not_followed ?P ?J) (fe_Body h)" "depth_seen (set (fs_block (fe_Body h))) ?v v" by auto
    with body show ?thesis by blast
  qed
  have "\<not> unsafe_body (unsafe_name ?P i) f" for i
  proof
    assume "unsafe_body (unsafe_name ?P i) f"
    then have "unsafe_body (not_followed ?P ?J) f"
      by (rule unsafe_mono [rotated]) (rule followed_safe [OF assms(2) bindings_known hs])
    with f show False by simp
  qed
  with zero f7 s show ?thesis
    by (auto simp: checkF7BackendSupport_def SetCompilability_def Let_def split: option.splits)
qed

theorem compilable_is_safe_witness:
  "\<not> unsafe_body (unsafe_name (bindings recursive_func [] []) 5) recursive_func \<and> \<not> protoIsVararg checked_proto \<and>
   (\<exists>ps b. analyze_example 200 recursive_func = Some (CompCompilable, ps, b) \<and> pr_CompReasons (ps 0) = 0)"
proof -
  from example_verdicts(1) obtain ps b where r: "analyze_example 200 recursive_func = Some (CompCompilable, ps, b)" by auto
  have "inj_on fe_Ref (set (known_funcs recursive_func []))"
    by (simp add: known_funcs_def recursive_func_def helper_func_def call_name_def)
  from compilable_is_safe [OF example_verdicts(2) this r [unfolded analyze_example_def]] r show ?thesis by blast
qed

end
