(* ===== verification/Logger.thy ===== *)
theory Logger
  imports Bridge Parser
begin

text \<open>
  The lines of the promotion log, \<open>internal/bridge/std_logger.go\<close>: what the default logger writes for the events the
  bridge logs. The stack trace after a panic is not modelled.
\<close>

fun join :: "string \<Rightarrow> string list \<Rightarrow> string" where
  "join sep [] = ''''"
| "join sep [s] = s"
| "join sep (s # ss) = s @ sep @ join sep ss"

definition protoName :: "proto option \<Rightarrow> string" where
  "protoName p = (case p of
     None \<Rightarrow> ''<nil>''
   | Some pr \<Rightarrow> (if pr_Source pr = '''' then ''<anonymous>:'' else pr_Source pr @ '':'') @ show_int (sint (pr_LineDefined pr)))"

definition has :: "ReasonsBitmap \<Rightarrow> ReasonsBitmap \<Rightarrow> bool" where "has r bits \<longleftrightarrow> r AND bits \<noteq> 0"

definition part_if :: "bool \<Rightarrow> string \<Rightarrow> string list" where "part_if c s = (if c then [s] else [])"

definition formatF2 :: "ReasonsBitmap \<Rightarrow> string" where
  "formatF2 r = join ''+''
     (part_if (has r ReasonYield) ''yield'' @
      part_if (has r ReasonResume) ''resume'' @
      part_if (has r ReasonCoroutine \<and> \<not> has r (ReasonYield OR ReasonResume)) ''coroutine.*'' @
      part_if (has r ReasonUnknownCall) ''unknownCall'' @
      part_if (has r ReasonSelfCall) ''selfCall'')"

definition formatF5 :: "ReasonsBitmap \<Rightarrow> string" where
  "formatF5 r = join ''+'' (part_if (has r ReasonOverSize) ''oversize'' @ part_if (has r ReasonOverRegs) ''overregs'')"

definition formatF6 :: "ReasonsBitmap \<Rightarrow> string" where
  "formatF6 r = join ''+'' (part_if (has r ReasonNestedDeep) ''nestedDeep'' @ part_if (has r ReasonOverUpval) ''overupval'')"

definition formatReasons :: "ReasonsBitmap \<Rightarrow> string" where
  "formatReasons r =
     (if r = 0 then ''F0 none''
      else join '', ''
        (part_if (has r ReasonVararg) ''F1 vararg'' @
         part_if (has r (ReasonYield OR ReasonResume OR ReasonCoroutine OR ReasonUnknownCall OR ReasonSelfCall))
           (''F2 '' @ formatF2 r) @
         part_if (has r ReasonDebug) ''F3 debug'' @
         part_if (has r ReasonSetfenv) ''F4 setfenv'' @
         part_if (has r (ReasonOverSize OR ReasonOverRegs)) (''F5 '' @ formatF5 r) @
         part_if (has r (ReasonNestedDeep OR ReasonOverUpval)) (''F6 '' @ formatF6 r) @
         part_if (has r ReasonBackendUnsupp) ''F7 backendUnsupp''))"

definition count_kinds :: "FeedbackKind set \<Rightarrow> TypeFeedback \<Rightarrow> nat" where
  "count_kinds ks fb = length (filter (\<lambda>p. pf_Kind p \<in> ks) (tf_Points fb))"

definition feedbackSummary :: "TypeFeedback option \<Rightarrow> string" where
  "feedbackSummary fb = (case fb of
     None \<Rightarrow> ''nil''
   | Some fb \<Rightarrow> ''arith='' @ show_nat (count_kinds {FBArithStableNumber} fb) @
       '' mono='' @ show_nat (count_kinds {FBTableMono, FBGlobalStable, FBSelfMono} fb) @
       '' mega='' @ show_nat (count_kinds {FBTableMega} fb))"

definition promoted_line :: "proto option \<Rightarrow> ProfileData \<Rightarrow> string" where
  "promoted_line pr pd = ''function '' @ protoName pr @ '' promoted to gibbous (entry='' @ show_nat (unat (pd_EntryCount pd)) @
     '', backedge='' @ show_nat (unat (MaxBackEdge pd)) @ '', feedback='' @ feedbackSummary (pd_Feedback pd) @ '')'' @ [CHR 0x0A]"

definition stuck_line :: "proto option \<Rightarrow> ProfileData \<Rightarrow> Compilability \<Rightarrow> string" where
  "stuck_line pr pd c = ''function '' @ protoName pr @ '' stays interpreted (not compilable: '' @
     (if c = CompNotCompilable then formatReasons (pd_Reasons pd)
      else if c = CompUnknown then ''F0 not analyzed'' else ''unknown'') @ '')'' @ [CHR 0x0A]"

definition compile_fail_line :: "proto option \<Rightarrow> string \<Rightarrow> string" where
  "compile_fail_line pr err = ''WARN function '' @ protoName pr @ '' compile failed, stays interpreted: '' @ err @ [CHR 0x0A]"

definition panic_line :: "proto option \<Rightarrow> string \<Rightarrow> string" where
  "panic_line pr v = ''ERROR function '' @ protoName pr @ '' P3 backend panic: '' @ v @ [CHR 0x0A]"

definition log_line :: "(pref \<Rightarrow> proto) \<Rightarrow> log_event \<Rightarrow> string" where
  "log_line ps e = (case e of
     LogPromoted p pd \<Rightarrow> promoted_line (Some (ps p)) pd
   | LogStuck p pd c \<Rightarrow> stuck_line (Some (ps p)) pd c
   | LogCompileFail p pd err \<Rightarrow> compile_fail_line (Some (ps p)) err
   | LogPanic p v \<Rightarrow> panic_line (Some (ps p)) v)"

section \<open>What the log says of a declined proto\<close>

text \<open>A proto the backend could compile but does not find worth it is logged as not compilable, for an unknown reason.\<close>

lemma declined_is_logged_not_compilable:
  assumes "b_logger b = Some es" "gate ps b p p = Some (CompCompilable, b)" "pd_TierState (pd_of b p) = TierInterp"
    "\<not> b_forceAll b" "\<not> worth b (ps p)"
  shows "\<exists>b' pd. considerPromotion ps b p p True = Some b' \<and> b_logger b' = Some (es @ [LogStuck p pd CompCompilable]) \<and>
    log_line ps (LogStuck p pd CompCompilable) =
      ''function '' @ protoName (Some (ps p)) @ '' stays interpreted (not compilable: unknown)'' @ [CHR 0x0A]"
  using assms
  by (auto simp: considerPromotion_def Let_def log_def log_line_def stuck_line_def upd_pd_def CompCompilable_def
      CompNotCompilable_def CompUnknown_def)

end
