(* ===== verification/FuncState.thy ===== *)
theory FuncState
  imports Proto Ast NanBox Parser
begin

text \<open>
  The context of the code generator for one function, \<open>internal/frontend/compile/funcstate.go\<close>: emission,
  constants, locals, upvalues, blocks and jump lists. A jump list is threaded through the code: the offset of each
  jump leads to the next one.

  The walks along a jump list take one turn per instruction of the function; a list that needs more is a loop, which
  the source would not leave (\<open>Diverge\<close>). An index out of range and a violated invariant are \<open>Panic\<close>.
\<close>

section \<open>Outcomes\<close>

record CompileError =
  ce_Source :: string
  ce_Line :: u32
  ce_Msg :: string

definition CompileErr_Error :: "CompileError \<Rightarrow> string option" where
  "CompileErr_Error e = do {
     c \<leftarrow> ChunkIDN (ce_Source e) MaxSrc;
     Some (c @ '':'' @ show_int (sint (ce_Line e)) @ '': '' @ ce_Msg e) }"

datatype ('a, 's) cresult = NoFuel | Diverge | Panic | Raise CompileError | Done 'a 's

fun bindC :: "('a, 's) cresult \<Rightarrow> ('a \<Rightarrow> 's \<Rightarrow> ('b, 't) cresult) \<Rightarrow> ('b, 't) cresult" where
  "bindC NoFuel f = NoFuel"
| "bindC Diverge f = Diverge"
| "bindC Panic f = Panic"
| "bindC (Raise e) f = Raise e"
| "bindC (Done x s) f = f x s"

section \<open>The state\<close>

definition NoJump :: int where "NoJump = - 1"
definition MaxLocVars :: int where "MaxLocVars = 200"
definition MaxUpvalues :: int where "MaxUpvalues = 60"

record localVar =
  lv_name :: string
  lv_startPC :: u32
  lv_endPC :: u32

record blockCnt =
  bk_breakList :: int
  bk_nactvarSnap :: int
  bk_isLoop :: bool
  bk_hasUpval :: bool

text \<open>Number and string keys; the other kinds are never built.\<close>

datatype constKey = NumKey u64 | StrKey string

text \<open>\<open>fn_bl\<close> is the chain of blocks, innermost first; \<open>fn_source\<close> is the source of the shared context. The two
  maps from names to trees are association lists.\<close>

record funcState =
  fn_proto :: proto
  fn_source :: string
  fn_freereg :: int
  fn_nactvar :: nat
  fn_actvar :: "nat list"
  fn_locvars :: "localVar list"
  fn_upvals :: "(string \<times> bool \<times> u8) list"
  fn_bl :: "blockCnt list"
  fn_jpc :: int
  fn_lastTarget :: int
  fn_consts :: "constKey \<rightharpoonup> int"
  fn_localFnAsts :: "(string \<times> funcexpr) list"
  fn_localAliasAsts :: "(string \<times> expr) list"
  fn_isVararg :: bool

type_synonym 'a fcode = "funcState \<Rightarrow> ('a, funcState) cresult"

definition empty_proto :: "string \<Rightarrow> u32 \<Rightarrow> proto" where
  "empty_proto source line =
     \<lparr>pr_Source = source, pr_LineDefined = line, pr_LineEnd = 0, pr_NumParams = 0, pr_IsVararg = False,
      pr_NeedsArg = False, pr_MaxStack = 0, pr_Code = [], pr_Consts = [], pr_StringLits = [], pr_StringLitIdx = [],
      pr_Protos = [], pr_SubNUps = [], pr_UpvalDescs = [], pr_LineInfo = [], pr_LocVars = [], pr_IC = [],
      pr_Compilability = 0, pr_CompReasons = 0, pr_IntrinsicCallPCs = []\<rparr>"

definition newFuncState :: "string \<Rightarrow> u32 \<Rightarrow> funcState" where
  "newFuncState source line =
     \<lparr>fn_proto = empty_proto source line, fn_source = source, fn_freereg = 0, fn_nactvar = 0, fn_actvar = [],
      fn_locvars = [], fn_upvals = [], fn_bl = [], fn_jpc = NoJump, fn_lastTarget = - 1, fn_consts = Map.empty,
      fn_localFnAsts = [], fn_localAliasAsts = [], fn_isVararg = False\<rparr>"

definition fs_code :: "funcState \<Rightarrow> instruction list" where "fs_code f = pr_Code (fn_proto f)"

definition upd_proto :: "(proto \<Rightarrow> proto) \<Rightarrow> funcState \<Rightarrow> funcState" where
  "upd_proto g f = f\<lparr>fn_proto := g (fn_proto f)\<rparr>"

definition here :: "funcState \<Rightarrow> int" where "here f = int (length (fs_code f))"

text \<open>Reading and writing \<open>fs.proto.Code[pc]\<close>.\<close>

definition code_at :: "int \<Rightarrow> instruction fcode" where
  "code_at pc f = (if 0 \<le> pc \<and> pc < here f then Done (fs_code f ! nat pc) f else Panic)"

definition set_code :: "int \<Rightarrow> instruction \<Rightarrow> unit fcode" where
  "set_code pc ins f =
     (if 0 \<le> pc \<and> pc < here f
      then Done () (upd_proto (\<lambda>p. p\<lparr>pr_Code := (pr_Code p)[nat pc := ins]\<rparr>) f) else Panic)"

definition modify_code :: "int \<Rightarrow> (instruction \<Rightarrow> instruction) \<Rightarrow> unit fcode" where
  "modify_code pc g f = bindC (code_at pc f) (\<lambda>ins f. set_code pc (g ins) f)"

section \<open>Errors\<close>

definition cg_raise :: "u32 \<Rightarrow> string \<Rightarrow> 'a fcode" where
  "cg_raise line msg f =
     (let src = pr_Source (fn_proto f); src = (if src = '''' then fn_source f else src) in
      Raise \<lparr>ce_Source = src, ce_Line = line, ce_Msg = msg\<rparr>)"

definition raiseLimit :: "u32 \<Rightarrow> int \<Rightarrow> string \<Rightarrow> 'a fcode" where
  "raiseLimit line limit what f =
     (let def_line = pr_LineDefined (fn_proto f) in
      if def_line = 0
      then cg_raise line (''main function has more than '' @ show_int limit @ '' '' @ what) f
      else cg_raise line (''function at line '' @ show_int (sint def_line) @ '' has more than '' @ show_int limit @
             '' '' @ what) f)"

section \<open>Jump lists\<close>

definition getJump :: "int \<Rightarrow> int fcode" where
  "getJump pc f = bindC (code_at pc f) (\<lambda>ins f.
     let off = SBx_of ins in Done (if off = NoJump then NoJump else pc + 1 + off) f)"

definition fixJump :: "u32 \<Rightarrow> int \<Rightarrow> int \<Rightarrow> unit fcode" where
  "fixJump line pc dest f =
     (if dest = NoJump then modify_code pc (\<lambda>ins. SetSBx ins NoJump) f
      else let off = dest - (pc + 1) in
        if SBxBias < off \<or> off < - SBxBias then cg_raise line ''control structure too long'' f
        else modify_code pc (\<lambda>ins. SetSBx ins off) f)"

text \<open>The last jump of a list.\<close>

fun list_end :: "nat \<Rightarrow> int \<Rightarrow> int fcode" where
  "list_end 0 cur f = Diverge"
| "list_end (Suc n) cur f = bindC (getJump cur f) (\<lambda>nxt f.
     if nxt = NoJump then Done cur f else list_end n nxt f)"

text \<open>\<open>concat\<close> returns the new head of the first list.\<close>

definition concat_lists :: "int \<Rightarrow> int \<Rightarrow> int fcode" where
  "concat_lists l1 l2 f =
     (if l2 = NoJump then Done l1 f
      else if l1 = NoJump then Done l2 f
      else bindC (list_end (length (fs_code f)) l1 f) (\<lambda>cur f.
           bindC (modify_code cur (\<lambda>ins. SetSBx ins (l2 - (cur + 1))) f) (\<lambda>_ f. Done l1 f)))"

definition patchTestReg :: "int \<Rightarrow> int \<Rightarrow> bool fcode" where
  "patchTestReg node reg f =
     (if node = 0 then Done False f
      else let ctrl = node - 1 in
        bindC (code_at ctrl f) (\<lambda>ins f.
        if Op_of ins \<noteq> OP_TESTSET then Done False f
        else if reg \<noteq> NoRegister \<and> reg \<noteq> B_of ins
          then bindC (set_code ctrl (SetA ins reg) f) (\<lambda>_ f. Done True f)
        else bindC (set_code ctrl (EncodeABC OP_TEST (B_of ins) 0 (C_of ins)) f) (\<lambda>_ f. Done True f)))"

fun patch_nodes :: "nat \<Rightarrow> int \<Rightarrow> int \<Rightarrow> int \<Rightarrow> int \<Rightarrow> unit fcode" where
  "patch_nodes n lst vtarget reg dtarget f =
     (if lst = NoJump then Done () f
      else case n of
        0 \<Rightarrow> Diverge
      | Suc m \<Rightarrow>
          bindC (getJump lst f) (\<lambda>nxt f.
          bindC (patchTestReg lst reg f) (\<lambda>tested f.
          bindC (fixJump 0 lst (if tested then vtarget else dtarget) f) (\<lambda>_ f.
          patch_nodes m nxt vtarget reg dtarget f))))"

declare patch_nodes.simps [simp del]

definition patchListAux :: "int \<Rightarrow> int \<Rightarrow> int \<Rightarrow> int \<Rightarrow> unit fcode" where
  "patchListAux lst vtarget reg dtarget f = patch_nodes (length (fs_code f)) lst vtarget reg dtarget f"

definition dischargeJpc :: "unit fcode" where
  "dischargeJpc f =
     (if fn_jpc f = NoJump then Done () f
      else patchListAux (fn_jpc f) (here f) NoRegister (here f) (f\<lparr>fn_jpc := NoJump\<rparr>))"

definition patchToHere :: "int \<Rightarrow> unit fcode" where
  "patchToHere lst f =
     (let f = f\<lparr>fn_lastTarget := here f\<rparr> in
      bindC (concat_lists (fn_jpc f) lst f) (\<lambda>jpc f. Done () (f\<lparr>fn_jpc := jpc\<rparr>)))"

definition patchList :: "int \<Rightarrow> int \<Rightarrow> unit fcode" where
  "patchList lst target f =
     (if target = here f then patchToHere lst f else patchListAux lst target NoRegister target f)"

definition getLabel :: "int fcode" where
  "getLabel f = bindC (dischargeJpc (f\<lparr>fn_lastTarget := here f\<rparr>)) (\<lambda>_ f. Done (here f) f)"

section \<open>Emission\<close>

definition no_slot :: ICSlot where
  "no_slot = \<lparr>ic_Shape = 0, ic_Index = 0, ic_TableRef = 0, ic_Kind = 0, ic_Refill = 0\<rparr>"

definition emit :: "u32 \<Rightarrow> instruction \<Rightarrow> int fcode" where
  "emit line ins f = bindC (dischargeJpc f) (\<lambda>_ f.
     Done (here f) (upd_proto (\<lambda>p. p\<lparr>pr_Code := pr_Code p @ [ins], pr_LineInfo := pr_LineInfo p @ [line],
       pr_IC := pr_IC p @ [no_slot]\<rparr>) f))"

definition emitABC :: "u32 \<Rightarrow> opcode \<Rightarrow> int \<Rightarrow> int \<Rightarrow> int \<Rightarrow> int fcode" where
  "emitABC line op a b c = emit line (EncodeABC op a b c)"

definition emitABx :: "u32 \<Rightarrow> opcode \<Rightarrow> int \<Rightarrow> int \<Rightarrow> int fcode" where
  "emitABx line op a bx = emit line (EncodeABx op a bx)"

definition emitAsBx :: "u32 \<Rightarrow> opcode \<Rightarrow> int \<Rightarrow> int \<Rightarrow> int fcode" where
  "emitAsBx line op a sbx = emit line (EncodeAsBx op a sbx)"

definition jump :: "u32 \<Rightarrow> int fcode" where
  "jump line f =
     (let jpc = fn_jpc f in
      bindC (emitAsBx line OP_JMP 0 NoJump (f\<lparr>fn_jpc := NoJump\<rparr>)) (\<lambda>pc f. concat_lists pc jpc f))"

section \<open>Registers\<close>

definition checkStack :: "u32 \<Rightarrow> int \<Rightarrow> unit fcode" where
  "checkStack line n f =
     (if MaxStack \<le> fn_freereg f + n then cg_raise line ''function or expression too complex'' f else Done () f)"

definition reserveRegs :: "u32 \<Rightarrow> int \<Rightarrow> unit fcode" where
  "reserveRegs line n f = bindC (checkStack line n f) (\<lambda>_ f.
     let f = f\<lparr>fn_freereg := fn_freereg f + n\<rparr> in
     Done () (if uint (pr_MaxStack (fn_proto f)) < fn_freereg f
              then upd_proto (\<lambda>p. p\<lparr>pr_MaxStack := word_of_int (fn_freereg f)\<rparr>) f else f))"

definition freeReg :: "int \<Rightarrow> funcState \<Rightarrow> funcState" where
  "freeReg r f = (if int (fn_nactvar f) \<le> r \<and> r = fn_freereg f - 1 then f\<lparr>fn_freereg := fn_freereg f - 1\<rparr> else f)"

section \<open>Constants\<close>

definition addConst :: "u32 \<Rightarrow> constKey \<Rightarrow> lvalue \<Rightarrow> string \<Rightarrow> int fcode" where
  "addConst line key v lit f =
     (case fn_consts f key of
        Some i \<Rightarrow> Done i f
      | None \<Rightarrow>
          let i = int (length (pr_Consts (fn_proto f))) in
          if MaxBx < i then cg_raise line ''constant table overflow'' f
          else
            let f = upd_proto (\<lambda>p. p\<lparr>pr_Consts := pr_Consts p @ [v]\<rparr>) f;
                f = (case key of
                       StrKey _ \<Rightarrow> upd_proto (\<lambda>p. p\<lparr>pr_StringLits := pr_StringLits p @ [lit],
                         pr_StringLitIdx := pr_StringLitIdx p @ [word_of_nat (length (pr_StringLits p))]\<rparr>) f
                     | NumKey _ \<Rightarrow> upd_proto (\<lambda>p. p\<lparr>pr_StringLitIdx := pr_StringLitIdx p @ [- 1]\<rparr>) f)
            in Done i (f\<lparr>fn_consts := (fn_consts f)(key \<mapsto> i)\<rparr>))"

definition numConstKey :: "f64 \<Rightarrow> constKey" where
  "numConstKey x = NumKey (if f64_is_nan x then canonNaN else if f64_is_zero x then 0 else x)"

definition numK :: "u32 \<Rightarrow> f64 \<Rightarrow> int fcode" where
  "numK line x = addConst line (numConstKey x) (NumberValue x) ''''"

definition strK :: "u32 \<Rightarrow> string \<Rightarrow> int fcode" where
  "strK line str = addConst line (StrKey str) VNil str"

section \<open>Variables\<close>

text \<open>The name of an active local; \<open>None\<close> when the tables are too short.\<close>

definition active_name :: "funcState \<Rightarrow> nat \<Rightarrow> string option" where
  "active_name f i =
     (if i < length (fn_actvar f) \<and> fn_actvar f ! i < length (fn_locvars f)
      then Some (lv_name (fn_locvars f ! (fn_actvar f ! i))) else None)"

fun find_local_below :: "funcState \<Rightarrow> string \<Rightarrow> nat \<Rightarrow> int option" where
  "find_local_below f name 0 = Some (- 1)"
| "find_local_below f name (Suc i) = (case active_name f i of
     None \<Rightarrow> None
   | Some n \<Rightarrow> if n = name then Some (int i) else find_local_below f name i)"

definition findLocal :: "string \<Rightarrow> int fcode" where
  "findLocal name f = (case find_local_below f name (fn_nactvar f) of Some r \<Rightarrow> Done r f | None \<Rightarrow> Panic)"

fun find_upval_from :: "(string \<times> bool \<times> u8) list \<Rightarrow> string \<Rightarrow> int \<Rightarrow> int" where
  "find_upval_from [] name i = - 1"
| "find_upval_from ((n, _) # us) name i = (if n = name then i else find_upval_from us name (i + 1))"

definition findUpval :: "string \<Rightarrow> funcState \<Rightarrow> int" where
  "findUpval name f = find_upval_from (fn_upvals f) name 0"

definition addUpval :: "u32 \<Rightarrow> string \<Rightarrow> bool \<Rightarrow> u8 \<Rightarrow> int fcode" where
  "addUpval line name inStack ix f =
     (if MaxUpvalues \<le> int (length (fn_upvals f)) then raiseLimit line MaxUpvalues ''upvalues'' f
      else Done (int (length (fn_upvals f)))
        (upd_proto (\<lambda>p. p\<lparr>pr_UpvalDescs := pr_UpvalDescs p @ [\<lparr>uv_Name = name, uv_InStack = inStack, uv_Idx = ix\<rparr>]\<rparr>)
          (f\<lparr>fn_upvals := fn_upvals f @ [(name, inStack, ix)]\<rparr>)))"

definition registerLocal :: "u32 \<Rightarrow> string \<Rightarrow> int fcode" where
  "registerLocal line name f =
     (if MaxLocVars \<le> int (fn_nactvar f) then raiseLimit line MaxLocVars ''local variables'' f
      else
        let ix = length (fn_locvars f);
            f = f\<lparr>fn_locvars := fn_locvars f @ [\<lparr>lv_name = name, lv_startPC = word_of_int (here f), lv_endPC = 0\<rparr>]\<rparr>;
            f = f\<lparr>fn_actvar := (if fn_nactvar f < length (fn_actvar f)
                   then (fn_actvar f)[fn_nactvar f := ix] else fn_actvar f @ [ix])\<rparr>
        in Done (int (fn_nactvar f)) (f\<lparr>fn_nactvar := fn_nactvar f + 1\<rparr>))"

fun close_vars :: "nat \<Rightarrow> unit fcode" where
  "close_vars 0 f = Done () f"
| "close_vars (Suc n) f =
     (let f = f\<lparr>fn_nactvar := fn_nactvar f - 1\<rparr>; i = fn_nactvar f in
      if i < length (fn_actvar f) \<and> fn_actvar f ! i < length (fn_locvars f)
      then close_vars n (f\<lparr>fn_locvars := (fn_locvars f)
             [fn_actvar f ! i := (fn_locvars f ! (fn_actvar f ! i))\<lparr>lv_endPC := word_of_int (here f)\<rparr>]\<rparr>)
      else Panic)"

definition removeVars :: "int \<Rightarrow> unit fcode" where
  "removeVars level f = close_vars (nat (int (fn_nactvar f) - max 0 level)) f"

section \<open>Blocks\<close>

definition enterBlock :: "bool \<Rightarrow> unit fcode" where
  "enterBlock isLoop f =
     (let f = f\<lparr>fn_bl := \<lparr>bk_breakList = NoJump, bk_nactvarSnap = int (fn_nactvar f), bk_isLoop = isLoop,
                 bk_hasUpval = False\<rparr> # fn_bl f\<rparr> in
      if fn_freereg f \<noteq> int (fn_nactvar f) then Panic else Done () f)"

definition leaveBlock :: "u32 \<Rightarrow> unit fcode" where
  "leaveBlock line f =
     (case fn_bl f of
        [] \<Rightarrow> Panic
      | bl # _ \<Rightarrow>
          bindC (removeVars (bk_nactvarSnap bl) f) (\<lambda>_ f.
          bindC (if bk_hasUpval bl then bindC (emitABC line OP_CLOSE (bk_nactvarSnap bl) 0 0 f) (\<lambda>_ f. Done () f)
                 else Done () f) (\<lambda>_ f.
          let f = f\<lparr>fn_bl := tl (fn_bl f), fn_freereg := int (fn_nactvar f)\<rparr> in
          if bk_isLoop bl then patchToHere (bk_breakList bl) f else Done () f)))"

end
