(* ===== verification/ExpDesc.thy ===== *)
theory ExpDesc
  imports FuncState
begin

text \<open>
  Deferred expressions, \<open>internal/frontend/compile/expdesc.go\<close>: where the value of an expression is and how to fetch
  it. A method that writes through its \<open>*expDesc\<close> returns the new descriptor; the register of a descriptor that was
  put into one is its \<open>e_info\<close>.
\<close>

section \<open>Descriptors\<close>

datatype expKind =
    eVoid | eNil | eTrue | eFalse | eKNum | eK | eLocal | eUpval | eGlobal | eIndexed | eJmp | eRelocable | eNonReloc
  | eCall | eVararg

record expDesc =
  e_k :: expKind
  e_info :: int
  e_aux :: int
  e_nval :: f64
  e_tJmp :: int
  e_fJmp :: int

definition newExp :: "expKind \<Rightarrow> int \<Rightarrow> expDesc" where
  "newExp k info = \<lparr>e_k = k, e_info = info, e_aux = 0, e_nval = 0, e_tJmp = NoJump, e_fJmp = NoJump\<rparr>"

definition hasJumps :: "expDesc \<Rightarrow> bool" where
  "hasJumps e \<longleftrightarrow> e_tJmp e \<noteq> NoJump \<or> e_fJmp e \<noteq> NoJump"

definition set_kind :: "expKind \<Rightarrow> int \<Rightarrow> expDesc \<Rightarrow> expDesc" where
  "set_kind k info e = e\<lparr>e_k := k, e_info := info\<rparr>"

definition freeExp :: "expDesc \<Rightarrow> funcState \<Rightarrow> funcState" where
  "freeExp e f = (if e_k e = eNonReloc then freeReg (e_info e) f else f)"

section \<open>Fetching\<close>

definition setOneRet :: "expDesc \<Rightarrow> expDesc fcode" where
  "setOneRet e f =
     (if e_k e = eCall then
        bindC (code_at (e_info e) f) (\<lambda>ins f.
        bindC (set_code (e_info e) (SetC ins 2) f) (\<lambda>_ f. Done (set_kind eNonReloc (A_of ins) e) f))
      else if e_k e = eVararg then
        bindC (modify_code (e_info e) (\<lambda>ins. SetB ins 2) f) (\<lambda>_ f. Done (e\<lparr>e_k := eRelocable\<rparr>) f)
      else Done e f)"

definition free_if_reg :: "int \<Rightarrow> funcState \<Rightarrow> funcState" where
  "free_if_reg rk f = (if IsK rk then f else freeReg rk f)"

definition dischargeVars :: "u32 \<Rightarrow> expDesc \<Rightarrow> expDesc fcode" where
  "dischargeVars line e f =
     (if e_k e = eLocal then Done (e\<lparr>e_k := eNonReloc\<rparr>) f
      else if e_k e = eUpval then
        bindC (emitABC line OP_GETUPVAL 0 (e_info e) 0 f) (\<lambda>pc f. Done (set_kind eRelocable pc e) f)
      else if e_k e = eGlobal then
        bindC (emitABx line OP_GETGLOBAL 0 (e_info e) f) (\<lambda>pc f. Done (set_kind eRelocable pc e) f)
      else if e_k e = eIndexed then
        bindC (emitABC line OP_GETTABLE 0 (e_info e) (e_aux e) (freeReg (e_info e) (free_if_reg (e_aux e) f)))
          (\<lambda>pc f. Done (set_kind eRelocable pc e) f)
      else setOneRet e f)"

definition setReturns :: "expDesc \<Rightarrow> int \<Rightarrow> unit fcode" where
  "setReturns e nResults f =
     (let n = (if nResults < 0 then 0 else nResults + 1) in
      if e_k e = eCall then modify_code (e_info e) (\<lambda>ins. SetC ins n) f
      else if e_k e = eVararg then modify_code (e_info e) (\<lambda>ins. SetB ins n) f
      else Done () f)"

definition openMultiRet :: "expDesc \<Rightarrow> int \<Rightarrow> bool fcode" where
  "openMultiRet e nResults f =
     (if e_k e = eCall then bindC (setReturns e nResults f) (\<lambda>_ f. Done True f)
      else if e_k e = eVararg then
        bindC (setReturns e nResults f) (\<lambda>_ f.
        bindC (modify_code (e_info e) (\<lambda>ins. SetA ins (fn_freereg f)) f) (\<lambda>_ f. Done True f))
      else Done False f)"

section \<open>Into a register\<close>

definition dischargeToReg :: "u32 \<Rightarrow> expDesc \<Rightarrow> int \<Rightarrow> expDesc fcode" where
  "dischargeToReg line e reg f =
     bindC (dischargeVars line e f) (\<lambda>e f.
     if e_k e = eJmp then Done e f
     else
       bindC (case e_k e of
           eNil \<Rightarrow> emitABC line OP_LOADNIL reg reg 0 f
         | eTrue \<Rightarrow> emitABC line OP_LOADBOOL reg 1 0 f
         | eFalse \<Rightarrow> emitABC line OP_LOADBOOL reg 0 0 f
         | eK \<Rightarrow> emitABx line OP_LOADK reg (e_info e) f
         | eKNum \<Rightarrow> bindC (numK line (e_nval e) f) (\<lambda>k f. emitABx line OP_LOADK reg k f)
         | eRelocable \<Rightarrow> bindC (modify_code (e_info e) (\<lambda>ins. SetA ins reg) f) (\<lambda>_ f. Done 0 f)
         | eNonReloc \<Rightarrow> if reg \<noteq> e_info e then emitABC line OP_MOVE reg (e_info e) 0 f else Done 0 f
         | _ \<Rightarrow> Done 0 f) (\<lambda>_ f.
       Done (set_kind eNonReloc reg e) f))"

definition dischargeToAnyReg :: "u32 \<Rightarrow> expDesc \<Rightarrow> expDesc fcode" where
  "dischargeToAnyReg line e f =
     (if e_k e \<noteq> eNonReloc
      then bindC (reserveRegs line 1 f) (\<lambda>_ f. dischargeToReg line e (fn_freereg f - 1) f)
      else Done e f)"

text \<open>Some jump of the list is not guarded by a \<open>TESTSET\<close>.\<close>

fun need_value :: "nat \<Rightarrow> int \<Rightarrow> bool fcode" where
  "need_value n lst f =
     (if lst = NoJump then Done False f
      else if lst = 0 then Done True f
      else case n of
        0 \<Rightarrow> Diverge
      | Suc m \<Rightarrow>
          bindC (code_at (lst - 1) f) (\<lambda>ins f.
          if Op_of ins \<noteq> OP_TESTSET then Done True f
          else bindC (getJump lst f) (\<lambda>nxt f. need_value m nxt f)))"

declare need_value.simps [simp del]

definition needValue :: "int \<Rightarrow> bool fcode" where
  "needValue lst f = need_value (length (fs_code f)) lst f"

definition codeLoadBool :: "u32 \<Rightarrow> int \<Rightarrow> int \<Rightarrow> int \<Rightarrow> int fcode" where
  "codeLoadBool line a b c = emitABC line OP_LOADBOOL a b c"

text \<open>The landing pads of a value that a jump may still decide: the two \<open>LOADBOOL\<close>, or none, and the end.\<close>

definition value_pads :: "u32 \<Rightarrow> expDesc \<Rightarrow> int \<Rightarrow> (int \<times> int \<times> int) fcode" where
  "value_pads line e reg f =
     bindC (needValue (e_tJmp e) f) (\<lambda>nt f.
     bindC (if nt then Done True f else needValue (e_fJmp e) f) (\<lambda>nv f.
     if nv then
       bindC (if e_k e \<noteq> eJmp then jump line f else Done NoJump f) (\<lambda>fj f.
       bindC (codeLoadBool line reg 0 1 f) (\<lambda>pf f.
       bindC (codeLoadBool line reg 1 0 f) (\<lambda>pt f.
       bindC (patchToHere fj f) (\<lambda>_ f.
       bindC (getLabel f) (\<lambda>final f. Done (pf, pt, final) f)))))
     else bindC (getLabel f) (\<lambda>final f. Done (NoJump, NoJump, final) f)))"

definition exp2reg :: "u32 \<Rightarrow> expDesc \<Rightarrow> int \<Rightarrow> expDesc fcode" where
  "exp2reg line e reg f =
     bindC (dischargeToReg line e reg f) (\<lambda>e f.
     bindC (if e_k e = eJmp then concat_lists (e_tJmp e) (e_info e) f else Done (e_tJmp e) f) (\<lambda>t f.
     let e = e\<lparr>e_tJmp := t\<rparr> in
     bindC (if hasJumps e
            then bindC (value_pads line e reg f) (\<lambda>(pf, pt, final) f.
                 bindC (patchListAux (e_fJmp e) final reg pf f) (\<lambda>_ f. patchListAux (e_tJmp e) final reg pt f))
            else Done () f) (\<lambda>_ f.
     Done (e\<lparr>e_fJmp := NoJump, e_tJmp := NoJump, e_k := eNonReloc, e_info := reg\<rparr>) f)))"

definition exp2NextReg :: "u32 \<Rightarrow> expDesc \<Rightarrow> expDesc fcode" where
  "exp2NextReg line e f =
     bindC (dischargeVars line e f) (\<lambda>e f.
     bindC (reserveRegs line 1 (freeExp e f)) (\<lambda>_ f. exp2reg line e (fn_freereg f - 1) f))"

definition exp2AnyReg :: "u32 \<Rightarrow> expDesc \<Rightarrow> expDesc fcode" where
  "exp2AnyReg line e f =
     bindC (dischargeVars line e f) (\<lambda>e f.
     if e_k e = eNonReloc \<and> \<not> hasJumps e then Done e f
     else if e_k e = eNonReloc \<and> int (fn_nactvar f) \<le> e_info e then exp2reg line e (e_info e) f
     else exp2NextReg line e f)"

section \<open>As an operand\<close>

definition exp2Val :: "u32 \<Rightarrow> expDesc \<Rightarrow> expDesc fcode" where
  "exp2Val line e = (if hasJumps e then exp2AnyReg line e else dischargeVars line e)"

text \<open>The callers keep only the operand.\<close>

definition exp2RK :: "u32 \<Rightarrow> expDesc \<Rightarrow> int fcode" where
  "exp2RK line e f =
     bindC (exp2Val line e f) (\<lambda>e f.
     bindC (if e_k e = eKNum then bindC (numK line (e_nval e) f) (\<lambda>k f. Done (set_kind eK k e) f) else Done e f)
       (\<lambda>e f.
     if e_k e = eK \<and> e_info e < MaxK then Done (e_info e + MaxK) f
     else bindC (exp2AnyReg line e f) (\<lambda>e f. Done (e_info e) f)))"

section \<open>As a condition\<close>

definition condJump :: "u32 \<Rightarrow> opcode \<Rightarrow> int \<Rightarrow> int \<Rightarrow> int \<Rightarrow> int fcode" where
  "condJump line op a b c f = bindC (emitABC line op a b c f) (\<lambda>_ f. jump line f)"

definition invertJmp :: "expDesc \<Rightarrow> unit fcode" where
  "invertJmp e f =
     modify_code (e_info e - 1) (\<lambda>ins. EncodeABC (Op_of ins) (1 - A_of ins) (B_of ins) (C_of ins)) f"

text \<open>The three tables cut at \<open>pc\<close>.\<close>

definition cut_code :: "int \<Rightarrow> funcState \<Rightarrow> funcState" where
  "cut_code pc = upd_proto (\<lambda>p. p\<lparr>pr_Code := take (nat pc) (pr_Code p), pr_LineInfo := take (nat pc) (pr_LineInfo p),
     pr_IC := take (nat pc) (pr_IC p)\<rparr>)"

definition jumpOnCond :: "u32 \<Rightarrow> expDesc \<Rightarrow> int \<Rightarrow> int fcode" where
  "jumpOnCond line e cond f =
     bindC (if e_k e = eRelocable
            then bindC (code_at (e_info e) f) (\<lambda>ins f. Done (if Op_of ins = OP_NOT then Some ins else None) f)
            else Done None f) (\<lambda>negated f.
     case negated of
       Some ins \<Rightarrow> condJump line OP_TEST (B_of ins) 0 (1 - cond) (cut_code (e_info e) f)
     | None \<Rightarrow>
         bindC (dischargeToAnyReg line e f) (\<lambda>e f.
         condJump line OP_TESTSET NoRegister (e_info e) cond (freeExp e f)))"

definition goIfTrue :: "u32 \<Rightarrow> expDesc \<Rightarrow> expDesc fcode" where
  "goIfTrue line e f =
     bindC (dischargeVars line e f) (\<lambda>e f.
     bindC (if e_k e = eK \<or> e_k e = eKNum \<or> e_k e = eTrue then Done NoJump f
            else if e_k e = eFalse then jump line f
            else if e_k e = eJmp then bindC (invertJmp e f) (\<lambda>_ f. Done (e_info e) f)
            else jumpOnCond line e 0 f) (\<lambda>pc f.
     bindC (concat_lists (e_fJmp e) pc f) (\<lambda>fj f.
     bindC (patchToHere (e_tJmp e) f) (\<lambda>_ f. Done (e\<lparr>e_fJmp := fj, e_tJmp := NoJump\<rparr>) f))))"

definition goIfFalse :: "u32 \<Rightarrow> expDesc \<Rightarrow> expDesc fcode" where
  "goIfFalse line e f =
     bindC (dischargeVars line e f) (\<lambda>e f.
     bindC (if e_k e = eNil \<or> e_k e = eFalse then Done NoJump f
            else if e_k e = eTrue then jump line f
            else if e_k e = eJmp then Done (e_info e) f
            else jumpOnCond line e 1 f) (\<lambda>pc f.
     bindC (concat_lists (e_tJmp e) pc f) (\<lambda>tj f.
     bindC (patchToHere (e_fJmp e) f) (\<lambda>_ f. Done (e\<lparr>e_tJmp := tj, e_fJmp := NoJump\<rparr>) f))))"

end
