(* ===== verification/FloatSigned.thy ===== *)
theory FloatSigned
  imports FloatArith
begin

text \<open>
  Arithmetic on \<open>float64\<close> of either sign, as the constant folding of the code generator uses it: the exact result
  rounded to the nearest number, ties to even, with the IEEE 754 rules for zeros and infinities. An operation on NaN
  and an undefined one give the NaN of \<open>math.NaN\<close>; which NaN it is does not show, because a NaN is never folded.
\<close>

definition f64_nan :: f64 where "f64_nan = 0x7FF8000000000001"

definition f64_flip :: "f64 \<Rightarrow> f64" where "f64_flip x = x XOR 0x8000000000000000"

definition f64_sign :: "bool \<Rightarrow> f64 \<Rightarrow> f64" where
  "f64_sign neg x = (if neg then x OR 0x8000000000000000 else x AND 0x7FFFFFFFFFFFFFFF)"

definition f64_is_inf :: "f64 \<Rightarrow> bool" where "f64_is_inf x \<longleftrightarrow> f64_sign False x = f64_inf"

text \<open>The exact value of a finite number, as a signed numerator and a denominator.\<close>

definition f64_frac_of :: "f64 \<Rightarrow> int \<times> nat" where
  "f64_frac_of x = (let (n, d) = f64_rat (f64_sign False x) in (if f64_neg x then - int n else int n, d))"

definition f64_add :: "f64 \<Rightarrow> f64 \<Rightarrow> f64" where
  "f64_add x y =
     (if f64_is_nan x \<or> f64_is_nan y then f64_nan
      else if f64_is_inf x then (if f64_is_inf y \<and> f64_neg x \<noteq> f64_neg y then f64_nan else x)
      else if f64_is_inf y then y
      else let (n1, d1) = f64_frac_of x; (n2, d2) = f64_frac_of y;
               n = n1 * int d2 + n2 * int d1
           in f64_sign (n < 0 \<or> n = 0 \<and> f64_neg x \<and> f64_neg y) (f64_round (nat \<bar>n\<bar>) (d1 * d2)))"

definition f64_sub :: "f64 \<Rightarrow> f64 \<Rightarrow> f64" where
  "f64_sub x y = f64_add x (f64_flip y)"

definition f64_mul :: "f64 \<Rightarrow> f64 \<Rightarrow> f64" where
  "f64_mul x y =
     (let neg = (f64_neg x \<noteq> f64_neg y) in
      if f64_is_nan x \<or> f64_is_nan y then f64_nan
      else if f64_is_inf x \<or> f64_is_inf y
        then (if f64_is_zero x \<or> f64_is_zero y then f64_nan else f64_sign neg f64_inf)
      else let (n1, d1) = f64_frac_of x; (n2, d2) = f64_frac_of y in
           f64_sign neg (f64_round (nat \<bar>n1 * n2\<bar>) (d1 * d2)))"

definition f64_div :: "f64 \<Rightarrow> f64 \<Rightarrow> f64" where
  "f64_div x y =
     (let neg = (f64_neg x \<noteq> f64_neg y) in
      if f64_is_nan x \<or> f64_is_nan y then f64_nan
      else if f64_is_inf x then (if f64_is_inf y then f64_nan else f64_sign neg f64_inf)
      else if f64_is_inf y then f64_sign neg 0
      else if f64_is_zero y then (if f64_is_zero x then f64_nan else f64_sign neg f64_inf)
      else let (n1, d1) = f64_frac_of x; (n2, d2) = f64_frac_of y in
           f64_sign neg (f64_round (nat \<bar>n1\<bar> * d2) (d1 * nat \<bar>n2\<bar>)))"

text \<open>\<open>math.Floor\<close>.\<close>

definition f64_floor :: "f64 \<Rightarrow> f64" where
  "f64_floor x =
     (if f64_is_nan x \<or> f64_is_inf x \<or> f64_is_zero x then x
      else let (n, d) = f64_frac_of x; q = n div int d in f64_sign (q < 0) (f64_round (nat \<bar>q\<bar>) 1))"

end
