(* ===== verification/CodegenExpr.thy ===== *)
theory CodegenExpr
  imports ExpDesc FloatSigned
begin

text \<open>
  The expressions of \<open>internal/frontend/compile/codegen.go\<close>: names along the chain of functions, operators, calls,
  table constructors and closures. A step calls the generator of subexpressions \<open>ge\<close> and that of function literals
  \<open>gf\<close>; CodegenStmt ties the knot.
\<close>

section \<open>The state\<close>

text \<open>The protos registered so far, and the functions being compiled, the innermost first: \<open>prev\<close> is the tail.\<close>

record cgen =
  cg_protos :: "proto list"
  cg_chain :: "funcState list"

type_synonym 'a gcode = "cgen \<Rightarrow> ('a, cgen) cresult"

definition on_fs :: "'a fcode \<Rightarrow> 'a gcode" where
  "on_fs m s = (case cg_chain s of
     [] \<Rightarrow> Panic
   | f # fs \<Rightarrow> bindC (m f) (\<lambda>x f. Done x (s\<lparr>cg_chain := f # fs\<rparr>)))"

definition get_fs :: "(funcState \<Rightarrow> 'a) \<Rightarrow> 'a gcode" where
  "get_fs g = on_fs (\<lambda>f. Done (g f) f)"

definition upd_fs :: "(funcState \<Rightarrow> funcState) \<Rightarrow> unit gcode" where
  "upd_fs g = on_fs (\<lambda>f. Done () (g f))"

definition set_freereg :: "int \<Rightarrow> unit gcode" where
  "set_freereg r = upd_fs (\<lambda>f. f\<lparr>fn_freereg := r\<rparr>)"

section \<open>Names\<close>

fun mark_blocks :: "int \<Rightarrow> blockCnt list \<Rightarrow> blockCnt list" where
  "mark_blocks reg [] = []"
| "mark_blocks reg (b # bs) =
     (if bk_nactvarSnap b \<le> reg then b\<lparr>bk_hasUpval := True\<rparr> # bs else b # mark_blocks reg bs)"

definition markUpvalCapture :: "int \<Rightarrow> funcState \<Rightarrow> funcState" where
  "markUpvalCapture reg f = f\<lparr>fn_bl := mark_blocks reg (fn_bl f)\<rparr>"

text \<open>\<open>resolveName\<close>, which recurses into the enclosing functions and changes them.\<close>

fun resolve_chain :: "u32 \<Rightarrow> string \<Rightarrow> funcState list \<Rightarrow> (expDesc, funcState list) cresult" where
  "resolve_chain line name [] = Panic"
| "resolve_chain line name (f # outer) =
     bindC (findLocal name f) (\<lambda>r f.
     if 0 \<le> r then Done (newExp eLocal r) (f # outer)
     else if 0 \<le> findUpval name f then Done (newExp eUpval (findUpval name f)) (f # outer)
     else
       bindC (if outer = [] then Done None [] else bindC (resolve_chain line name outer) (\<lambda>ex. Done (Some ex)))
         (\<lambda>found outer.
       case found of
         Some ex \<Rightarrow>
           if e_k ex = eLocal then
             (case outer of
                [] \<Rightarrow> Panic
              | p # ps \<Rightarrow> bindC (addUpval line name True (word_of_int (e_info ex)) f) (\<lambda>ix f.
                  Done (newExp eUpval ix) (f # markUpvalCapture (e_info ex) p # ps)))
           else if e_k ex = eUpval then
             bindC (addUpval line name False (word_of_int (e_info ex)) f) (\<lambda>ix f.
               Done (newExp eUpval ix) (f # outer))
           else bindC (strK line name f) (\<lambda>k f. Done (newExp eGlobal k) (f # outer))
       | None \<Rightarrow> bindC (strK line name f) (\<lambda>k f. Done (newExp eGlobal k) (f # outer))))"

definition resolve_name :: "u32 \<Rightarrow> string \<Rightarrow> expDesc gcode" where
  "resolve_name line name s =
     bindC (resolve_chain line name (cg_chain s)) (\<lambda>e ch. Done e (s\<lparr>cg_chain := ch\<rparr>))"

section \<open>Lines\<close>

definition orLine :: "u32 \<Rightarrow> u32 \<Rightarrow> u32" where "orLine l dflt = (if l \<noteq> 0 then l else dflt)"

definition end_at :: "u32 list \<Rightarrow> u32 \<Rightarrow> nat \<Rightarrow> u32" where
  "end_at ends line i = (if i < length ends \<and> ends ! i \<noteq> 0 then ends ! i else line)"

definition indexObjLine :: "u32 \<Rightarrow> expr \<Rightarrow> u32" where
  "indexObjLine objEnd ob = (if objEnd \<noteq> 0 then objEnd else expr_Pos ob)"

definition calleeEndLine :: "u32 \<Rightarrow> expr \<Rightarrow> u32 \<Rightarrow> u32" where
  "calleeEndLine fnEnd fn dflt =
     (if fnEnd \<noteq> 0 then fnEnd
      else case fn of ParenExpr _ el _ \<Rightarrow> if el \<noteq> 0 then el else dflt | _ \<Rightarrow> dflt)"

definition binEndLine :: "u32 \<Rightarrow> u32 \<Rightarrow> u32" where "binEndLine line endl = orLine endl line"

section \<open>Constant folding\<close>

definition isNumeral :: "expDesc \<Rightarrow> bool" where
  "isNumeral e \<longleftrightarrow> e_k e = eKNum \<and> \<not> hasJumps e"

text \<open>\<open>pow\<close> is \<open>math.Pow\<close>.\<close>

definition fold_value :: "(f64 \<Rightarrow> f64 \<Rightarrow> f64) \<Rightarrow> BinOp \<Rightarrow> f64 \<Rightarrow> f64 \<Rightarrow> f64 option" where
  "fold_value pow oper a b =
     (case oper of
        OpAdd \<Rightarrow> Some (f64_add a b)
      | OpSub \<Rightarrow> Some (f64_sub a b)
      | OpMul \<Rightarrow> Some (f64_mul a b)
      | OpDiv \<Rightarrow> if f64_is_zero b then None else Some (f64_div a b)
      | OpMod \<Rightarrow> if f64_is_zero b then None else Some (f64_sub a (f64_mul (f64_floor (f64_div a b)) b))
      | OpPow \<Rightarrow> Some (pow a b)
      | _ \<Rightarrow> None)"

definition constFold :: "(f64 \<Rightarrow> f64 \<Rightarrow> f64) \<Rightarrow> BinOp \<Rightarrow> expDesc \<Rightarrow> expDesc \<Rightarrow> f64 option" where
  "constFold pow oper l r =
     (if \<not> isNumeral l \<or> \<not> isNumeral r then None
      else case fold_value pow oper (e_nval l) (e_nval r) of
        None \<Rightarrow> None
      | Some res \<Rightarrow> if f64_is_nan res then None else Some res)"

definition num_exp :: "f64 \<Rightarrow> expDesc" where
  "num_exp x = (newExp eKNum 0)\<lparr>e_nval := x\<rparr>"

section \<open>Lists of expressions\<close>

type_synonym gen_expr = "expr \<Rightarrow> expDesc gcode"
type_synonym gen_func = "funcexpr \<Rightarrow> proto gcode"

text \<open>Each expression into the next register, at the line of its position.\<close>

fun push_exprs :: "gen_expr \<Rightarrow> (nat \<Rightarrow> u32) \<Rightarrow> nat \<Rightarrow> expr list \<Rightarrow> unit gcode" where
  "push_exprs ge line_at i [] s = Done () s"
| "push_exprs ge line_at i (x # xs) s =
     bindC (ge x s) (\<lambda>e s.
     bindC (on_fs (exp2NextReg (line_at i) e) s) (\<lambda>_ s. push_exprs ge line_at (i + 1) xs s))"

definition compileArgList :: "gen_expr \<Rightarrow> expr list \<Rightarrow> u32 \<Rightarrow> u32 list \<Rightarrow> int gcode" where
  "compileArgList ge args line ends s =
     (let n = length args in
      if n = 0 then Done 0 s
      else
        bindC (push_exprs ge (end_at ends line) 0 (butlast args) s) (\<lambda>_ s.
        bindC (ge (last args) s) (\<lambda>e s.
        bindC (on_fs (openMultiRet e (- 1)) s) (\<lambda>multi s.
        if multi then Done (- 1) s
        else bindC (on_fs (exp2NextReg (end_at ends line (n - 1)) e) s) (\<lambda>_ s. Done (int n) s)))))"

section \<open>Indexing and calls\<close>

definition indexKeyRK :: "gen_expr \<Rightarrow> u32 \<Rightarrow> u32 \<Rightarrow> expr \<Rightarrow> int gcode" where
  "indexKeyRK ge keyEnd close key s =
     bindC (ge key s) (\<lambda>e s.
     if keyEnd \<noteq> 0
     then bindC (on_fs (exp2Val keyEnd e) s) (\<lambda>e s. on_fs (exp2RK (orLine close keyEnd) e) s)
     else on_fs (exp2RK (expr_Pos key) e) s)"

text \<open>The register of the table and the operand of the key.\<close>

definition index_operands :: "gen_expr \<Rightarrow> u32 \<Rightarrow> u32 \<Rightarrow> u32 \<Rightarrow> expr \<Rightarrow> expr \<Rightarrow> (int \<times> int) gcode" where
  "index_operands ge objEnd keyEnd close ob key s =
     bindC (ge ob s) (\<lambda>e s.
     bindC (on_fs (exp2AnyReg (indexObjLine objEnd ob) e) s) (\<lambda>e s.
     bindC (indexKeyRK ge keyEnd close key s) (\<lambda>rk s. Done (e_info e, rk) s)))"

definition exprIndex :: "gen_expr \<Rightarrow> u32 \<Rightarrow> u32 \<Rightarrow> u32 \<Rightarrow> expr \<Rightarrow> expr \<Rightarrow> expDesc gcode" where
  "exprIndex ge objEnd keyEnd close ob key s =
     bindC (index_operands ge objEnd keyEnd close ob key s) (\<lambda>(tableReg, rk) s.
     Done ((newExp eIndexed tableReg)\<lparr>e_aux := rk\<rparr>) s)"

fun isMathIntrinsicIndex :: "expr \<Rightarrow> bool" where
  "isMathIntrinsicIndex (IndexExpr _ _ _ _ (NameExpr _ n) (StringExpr _ key)) =
     (n = ''math'' \<and> key \<in> set MathIntrinsicNames)"
| "isMathIntrinsicIndex _ = False"

definition calleeIsMathIntrinsic :: "expr \<Rightarrow> funcState \<Rightarrow> bool" where
  "calleeIsMathIntrinsic fn f =
     (case fn of
        IndexExpr _ _ _ _ _ _ \<Rightarrow> isMathIntrinsicIndex fn
      | NameExpr _ n \<Rightarrow> (case map_of (fn_localAliasAsts f) n of Some rhs \<Rightarrow> isMathIntrinsicIndex rhs | None \<Rightarrow> False)
      | _ \<Rightarrow> False)"

definition note_intrinsic :: "int \<Rightarrow> funcState \<Rightarrow> funcState" where
  "note_intrinsic pc = upd_proto (\<lambda>p. p\<lparr>pr_IntrinsicCallPCs := pr_IntrinsicCallPCs p @ [word_of_int pc]\<rparr>)"

definition exprCall :: "gen_expr \<Rightarrow> u32 \<Rightarrow> u32 \<Rightarrow> u32 \<Rightarrow> u32 list \<Rightarrow> expr \<Rightarrow> expr list \<Rightarrow> expDesc gcode" where
  "exprCall ge line argsLine fnEnd ends fn args s =
     bindC (get_fs fn_freereg s) (\<lambda>fnReg s.
     bindC (ge fn s) (\<lambda>e s.
     bindC (on_fs (exp2NextReg (calleeEndLine fnEnd fn line) e) s) (\<lambda>_ s.
     bindC (compileArgList ge args line ends s) (\<lambda>nargs s.
     bindC (on_fs (emitABC argsLine OP_CALL fnReg (if nargs < 0 then 0 else nargs + 1) 2) s) (\<lambda>pc s.
     bindC (set_freereg (fnReg + 1) s) (\<lambda>_ s.
     bindC (upd_fs (\<lambda>f. if calleeIsMathIntrinsic fn f then note_intrinsic pc f else f) s) (\<lambda>_ s.
     Done (newExp eCall pc) s)))))))"

definition exprMethodCall :: "gen_expr \<Rightarrow> u32 \<Rightarrow> u32 \<Rightarrow> u32 list \<Rightarrow> expr \<Rightarrow> string \<Rightarrow> expr list \<Rightarrow> expDesc gcode" where
  "exprMethodCall ge line argsLine ends recv name args s =
     bindC (get_fs fn_freereg s) (\<lambda>baseReg s.
     bindC (ge recv s) (\<lambda>e s.
     bindC (on_fs (exp2NextReg line e) s) (\<lambda>_ s.
     bindC (on_fs (strK line name) s) (\<lambda>k s.
     bindC (on_fs (exp2RK line (newExp eK k)) s) (\<lambda>rk s.
     bindC (on_fs (emitABC line OP_SELF baseReg baseReg rk) s) (\<lambda>_ s.
     bindC (on_fs (reserveRegs line 1) s) (\<lambda>_ s.
     bindC (compileArgList ge args line ends s) (\<lambda>nargs s.
     bindC (on_fs (emitABC argsLine OP_CALL baseReg (if nargs < 0 then 0 else nargs + 1 + 1) 2) s) (\<lambda>pc s.
     bindC (set_freereg (baseReg + 1) s) (\<lambda>_ s.
     Done (newExp eCall pc) s))))))))))"

section \<open>Operators\<close>

definition arithOpcode :: "BinOp \<Rightarrow> opcode" where
  "arithOpcode oper =
     (case oper of
        OpAdd \<Rightarrow> OP_ADD | OpSub \<Rightarrow> OP_SUB | OpMul \<Rightarrow> OP_MUL | OpDiv \<Rightarrow> OP_DIV | OpMod \<Rightarrow> OP_MOD | OpPow \<Rightarrow> OP_POW
      | _ \<Rightarrow> OP_ADD)"

text \<open>The higher of two temporaries is freed first.\<close>

definition free_pair :: "int \<Rightarrow> int \<Rightarrow> funcState \<Rightarrow> funcState" where
  "free_pair rb rc f = (if rc < rb then free_if_reg rc (free_if_reg rb f) else free_if_reg rb (free_if_reg rc f))"

definition expr_logic :: "gen_expr \<Rightarrow> u32 \<Rightarrow> u32 \<Rightarrow> bool \<Rightarrow> expr \<Rightarrow> expr \<Rightarrow> expDesc gcode" where
  "expr_logic ge line endl is_and l r s =
     bindC (ge l s) (\<lambda>le s.
     bindC (on_fs (if is_and then goIfTrue line le else goIfFalse line le) s) (\<lambda>le s.
     bindC (ge r s) (\<lambda>re s.
     bindC (on_fs (dischargeVars (binEndLine line endl) re) s) (\<lambda>re s.
     if is_and
     then bindC (on_fs (concat_lists (e_fJmp re) (e_fJmp le)) s) (\<lambda>j s. Done (re\<lparr>e_fJmp := j\<rparr>) s)
     else bindC (on_fs (concat_lists (e_tJmp re) (e_tJmp le)) s) (\<lambda>j s. Done (re\<lparr>e_tJmp := j\<rparr>) s)))))"

definition expr_arith :: "(f64 \<Rightarrow> f64 \<Rightarrow> f64) \<Rightarrow> gen_expr \<Rightarrow> u32 \<Rightarrow> u32 \<Rightarrow> BinOp \<Rightarrow> expr \<Rightarrow> expr \<Rightarrow> expDesc gcode" where
  "expr_arith pow ge line endl oper l r s =
     (let endl = binEndLine line endl in
      bindC (ge l s) (\<lambda>le s.
      bindC (if isNumeral le then Done (- 1) s else on_fs (exp2RK line le) s) (\<lambda>lrk s.
      bindC (ge r s) (\<lambda>re s.
      case constFold pow oper le re of
        Some x \<Rightarrow> Done (num_exp x) s
      | None \<Rightarrow>
          bindC (on_fs (exp2RK endl re) s) (\<lambda>rc s.
          bindC (if lrk < 0 then on_fs (exp2RK endl le) s else Done lrk s) (\<lambda>rb s.
          bindC (upd_fs (free_pair rb rc) s) (\<lambda>_ s.
          bindC (on_fs (emitABC endl (arithOpcode oper) 0 rb rc) s) (\<lambda>pc s.
          Done (newExp eRelocable pc) s)))))))) "

text \<open>The comparison, whether its operands are swapped, and the outcome it jumps on.\<close>

definition compare_form :: "BinOp \<Rightarrow> opcode \<times> bool \<times> int" where
  "compare_form oper =
     (case oper of
        OpEq \<Rightarrow> (OP_EQ, False, 1) | OpNe \<Rightarrow> (OP_EQ, False, 0) | OpLt \<Rightarrow> (OP_LT, False, 1) | OpLe \<Rightarrow> (OP_LE, False, 1)
      | OpGt \<Rightarrow> (OP_LT, True, 1) | OpGe \<Rightarrow> (OP_LE, True, 1) | _ \<Rightarrow> (0, False, 1))"

definition exprCompare :: "gen_expr \<Rightarrow> u32 \<Rightarrow> u32 \<Rightarrow> BinOp \<Rightarrow> expr \<Rightarrow> expr \<Rightarrow> expDesc gcode" where
  "exprCompare ge line endl oper l r s =
     (let (ic, swap, want) = compare_form oper; endl = binEndLine line endl in
      bindC (ge l s) (\<lambda>le s.
      bindC (on_fs (exp2RK line le) s) (\<lambda>rb s.
      bindC (ge r s) (\<lambda>re s.
      bindC (on_fs (exp2RK endl re) s) (\<lambda>rc s.
      bindC (upd_fs (\<lambda>f. free_if_reg rb (free_if_reg rc f)) s) (\<lambda>_ s.
      bindC (on_fs (if swap then emitABC endl ic want rc rb else emitABC endl ic want rb rc) s) (\<lambda>_ s.
      bindC (on_fs (jump endl) s) (\<lambda>pc s.
      Done (newExp eJmp pc) s))))))))"

text \<open>The operands of a chain of \<open>..\<close> with the lines they are pushed at.\<close>

fun concat_parts :: "u32 \<Rightarrow> expr \<Rightarrow> (expr \<times> u32) list" where
  "concat_parts endl (BinExpr line el oper l r) =
     (if oper = OpConcat then (l, line) # concat_parts endl r else [(BinExpr line el oper l r, endl)])"
| "concat_parts endl e = [(e, endl)]"

definition exprConcat :: "gen_expr \<Rightarrow> u32 \<Rightarrow> u32 \<Rightarrow> expr \<Rightarrow> expr \<Rightarrow> expDesc gcode" where
  "exprConcat ge line endl l r s =
     (let endl = binEndLine line endl; parts = (l, line) # concat_parts endl r in
      bindC (get_fs fn_freereg s) (\<lambda>base s.
      bindC (push_exprs ge (\<lambda>i. snd (parts ! i)) 0 (map fst parts) s) (\<lambda>_ s.
      bindC (get_fs (\<lambda>f. fn_freereg f - 1) s) (\<lambda>last_reg s.
      bindC (on_fs (emitABC endl OP_CONCAT 0 base last_reg) s) (\<lambda>pc s.
      bindC (upd_fs (\<lambda>f. f\<lparr>fn_freereg := min (fn_freereg f) base\<rparr>) s) (\<lambda>_ s.
      Done (newExp eRelocable pc) s))))))"

definition exprBin :: "(f64 \<Rightarrow> f64 \<Rightarrow> f64) \<Rightarrow> gen_expr \<Rightarrow> u32 \<Rightarrow> u32 \<Rightarrow> BinOp \<Rightarrow> expr \<Rightarrow> expr \<Rightarrow> expDesc gcode" where
  "exprBin pow ge line endl oper l r =
     (if oper = OpAnd then expr_logic ge line endl True l r
      else if oper = OpOr then expr_logic ge line endl False l r
      else if oper \<in> {OpEq, OpNe, OpLt, OpLe, OpGt, OpGe} then exprCompare ge line endl oper l r
      else if oper = OpConcat then exprConcat ge line endl l r
      else expr_arith pow ge line endl oper l r)"

definition unOpcode :: "UnOp \<Rightarrow> opcode" where
  "unOpcode oper = (case oper of OpUnm \<Rightarrow> OP_UNM | OpNot \<Rightarrow> OP_NOT | OpLen \<Rightarrow> OP_LEN)"

definition exprUn :: "gen_expr \<Rightarrow> u32 \<Rightarrow> u32 \<Rightarrow> UnOp \<Rightarrow> expr \<Rightarrow> expDesc gcode" where
  "exprUn ge line endl oper x s =
     (let endl = orLine endl line in
      bindC (ge x s) (\<lambda>e s.
      if oper = OpUnm \<and> isNumeral e then Done (num_exp (f64_flip (e_nval e))) s
      else
        bindC (on_fs (exp2AnyReg endl e) s) (\<lambda>e s.
        bindC (upd_fs (freeExp e) s) (\<lambda>_ s.
        bindC (on_fs (emitABC endl (unOpcode oper) 0 (e_info e) 0) s) (\<lambda>pc s.
        Done (if oper = OpNot then (newExp eRelocable pc)\<lparr>e_tJmp := e_fJmp e, e_fJmp := e_tJmp e\<rparr>
              else newExp eRelocable pc) s)))))"

section \<open>Closures\<close>

fun emit_captures :: "u32 \<Rightarrow> UpvalDesc list \<Rightarrow> unit fcode" where
  "emit_captures line [] f = Done () f"
| "emit_captures line (u # us) f =
     bindC (emitABC line (if uv_InStack u then OP_MOVE else OP_GETUPVAL) 0 (uint (uv_Idx u)) 0 f) (\<lambda>_ f.
     emit_captures line us f)"

definition register_sub :: "u32 \<Rightarrow> proto \<Rightarrow> funcState \<Rightarrow> funcState" where
  "register_sub idx sub = upd_proto (\<lambda>p. p\<lparr>pr_Protos := pr_Protos p @ [idx],
     pr_SubNUps := pr_SubNUps p @ [word_of_nat (length (pr_UpvalDescs sub))]\<rparr>)"

definition exprFunc :: "gen_func \<Rightarrow> funcexpr \<Rightarrow> expDesc gcode" where
  "exprFunc gf fe s =
     bindC (gf fe s) (\<lambda>sub s.
     let idx = word_of_int (int (length (cg_protos s)) - 1); closeLine = orLine (fe_EndLine fe) (fe_Line fe) in
     bindC (upd_fs (register_sub idx sub) s) (\<lambda>_ s.
     bindC (get_fs (\<lambda>f. int (length (pr_Protos (fn_proto f))) - 1) s) (\<lambda>closureIdx s.
     bindC (on_fs (emitABx closeLine OP_CLOSURE 0 closureIdx) s) (\<lambda>pc s.
     bindC (on_fs (emit_captures closeLine (pr_UpvalDescs sub)) s) (\<lambda>_ s.
     Done (newExp eRelocable pc) s)))))"

section \<open>Table constructors\<close>

definition MaxBC :: int where "MaxBC = uint BCMask"
definition FieldsPerFlush :: int where "FieldsPerFlush = 50"

definition emitSetList :: "u32 \<Rightarrow> int \<Rightarrow> int \<Rightarrow> int \<Rightarrow> unit fcode" where
  "emitSetList line tReg b batchNo f =
     (if batchNo \<le> MaxBC then bindC (emitABC line OP_SETLIST tReg b batchNo f) (\<lambda>_ f. Done () f)
      else bindC (emitABC line OP_SETLIST tReg b 0 f) (\<lambda>_ f.
           bindC (emit line (word_of_int batchNo) f) (\<lambda>_ f. Done () f)))"

record tabState =
  tb_pending :: int
  tb_batchNo :: int
  tb_nArr :: nat
  tb_nHash :: nat

fun last_positional :: "titem list \<Rightarrow> nat \<Rightarrow> int" where
  "last_positional [] i = - 1"
| "last_positional (TableItem key _ _ _ _ # its) i =
     (let r = last_positional its (i + 1) in if r = - 1 \<and> key = None then int i else r)"

definition table_entry :: "gen_expr \<Rightarrow> (u32 \<Rightarrow> u32) \<Rightarrow> int \<Rightarrow> expr \<Rightarrow> expr \<Rightarrow> u32 \<Rightarrow> u32 \<Rightarrow> u32 \<Rightarrow> unit gcode" where
  "table_entry ge line_at tReg key val keyEnd eqLine endl s =
     bindC (ge key s) (\<lambda>ke s.
     bindC (on_fs (exp2Val (line_at keyEnd) ke) s) (\<lambda>ke s.
     bindC (on_fs (exp2RK (line_at eqLine) ke) s) (\<lambda>rkK s.
     bindC (ge val s) (\<lambda>ve s.
     bindC (on_fs (exp2RK (line_at endl) ve) s) (\<lambda>rkV s.
     bindC (on_fs (emitABC (line_at endl) OP_SETTABLE tReg rkK rkV) s) (\<lambda>_ s.
     upd_fs (\<lambda>f. free_if_reg rkK (free_if_reg rkV f)) s))))))"

definition table_flush :: "u32 \<Rightarrow> int \<Rightarrow> int \<Rightarrow> int \<Rightarrow> unit gcode" where
  "table_flush line tReg b batchNo s =
     bindC (on_fs (emitSetList line tReg b batchNo) s) (\<lambda>_ s. set_freereg (tReg + 1) s)"

text \<open>A positional item; \<open>spread\<close> when it is the last item of the constructor.\<close>

definition table_item :: "gen_expr \<Rightarrow> u32 \<Rightarrow> u32 \<Rightarrow> int \<Rightarrow> bool \<Rightarrow> expr \<Rightarrow> tabState \<Rightarrow> tabState gcode" where
  "table_item ge itemLine closeLine tReg spread val t s =
     (let t = t\<lparr>tb_nArr := tb_nArr t + 1\<rparr> in
      bindC (ge val s) (\<lambda>ve s.
      bindC (if spread then on_fs (openMultiRet ve (- 1)) s else Done False s) (\<lambda>multi s.
      if multi then
        bindC (table_flush closeLine tReg 0 (tb_batchNo t) s) (\<lambda>_ s. Done (t\<lparr>tb_pending := 0\<rparr>) s)
      else
        bindC (on_fs (exp2NextReg itemLine ve) s) (\<lambda>_ s.
        let t = t\<lparr>tb_pending := tb_pending t + 1\<rparr> in
        if tb_pending t = FieldsPerFlush then
          bindC (table_flush itemLine tReg FieldsPerFlush (tb_batchNo t) s) (\<lambda>_ s.
          Done (t\<lparr>tb_pending := 0, tb_batchNo := tb_batchNo t + 1\<rparr>) s)
        else Done t s))))"

fun table_items :: "gen_expr \<Rightarrow> (u32 \<Rightarrow> u32) \<Rightarrow> u32 \<Rightarrow> int \<Rightarrow> int \<Rightarrow> bool \<Rightarrow> nat \<Rightarrow> titem list \<Rightarrow> tabState \<Rightarrow>
    tabState gcode" where
  "table_items ge line_at closeLine tReg lastPos lastIsMulti i [] t s = Done t s"
| "table_items ge line_at closeLine tReg lastPos lastIsMulti i (TableItem key val keyEnd eqLine endl # its) t s =
     bindC (case key of
         Some k \<Rightarrow> bindC (table_entry ge line_at tReg k val keyEnd eqLine endl s) (\<lambda>_ s.
           Done (t\<lparr>tb_nHash := tb_nHash t + 1\<rparr>) s)
       | None \<Rightarrow> table_item ge (line_at endl) (line_at closeLine) tReg (int i = lastPos \<and> lastIsMulti) val t s)
       (\<lambda>t s. table_items ge line_at closeLine tReg lastPos lastIsMulti (i + 1) its t s)"

definition exprTable :: "gen_expr \<Rightarrow> u32 \<Rightarrow> u32 \<Rightarrow> u32 \<Rightarrow> titem list \<Rightarrow> expDesc gcode" where
  "exprTable ge line newLine closeLine its s =
     (let ntLine = orLine newLine line; line_at = (\<lambda>l. orLine l line);
          lastPos = last_positional its 0; lastIsMulti = (lastPos = int (length its) - 1);
          t0 = \<lparr>tb_pending = 0, tb_batchNo = 1, tb_nArr = 0, tb_nHash = 0\<rparr> in
      bindC (get_fs fn_freereg s) (\<lambda>tReg s.
      bindC (on_fs (emitABC ntLine OP_NEWTABLE tReg 0 0) s) (\<lambda>pc s.
      bindC (on_fs (reserveRegs ntLine 1) s) (\<lambda>_ s.
      bindC (table_items ge line_at closeLine tReg lastPos lastIsMulti 0 its t0 s) (\<lambda>t s.
      bindC (if 0 < tb_pending t then table_flush (line_at closeLine) tReg (tb_pending t) (tb_batchNo t) s
             else Done () s) (\<lambda>_ s.
      bindC (on_fs (modify_code pc (\<lambda>ins. SetC (SetB ins (uint (Int2Fb (word_of_nat (tb_nArr t)))))
               (uint (Int2Fb (word_of_nat (tb_nHash t)))))) s) (\<lambda>_ s.
      Done (newExp eNonReloc tReg) s)))))))"

section \<open>Expressions\<close>

definition expr_vararg :: "u32 \<Rightarrow> u32 \<Rightarrow> expDesc fcode" where
  "expr_vararg line emitLine f =
     (if \<not> fn_isVararg f then cg_raise line (''cannot use '' @ [CHR 0x27] @ ''...'' @ [CHR 0x27] @ '' outside a vararg function'') f
      else bindC (emitABC (orLine emitLine line) OP_VARARG 0 1 0 (upd_proto (\<lambda>p. p\<lparr>pr_NeedsArg := False\<rparr>) f))
        (\<lambda>pc f. Done (newExp eVararg pc) f))"

definition expr_code :: "(f64 \<Rightarrow> f64 \<Rightarrow> f64) \<Rightarrow> gen_expr \<Rightarrow> gen_func \<Rightarrow> gen_expr" where
  "expr_code pow ge gf e s =
     (case e of
        NilExpr _ \<Rightarrow> Done (newExp eNil 0) s
      | TrueExpr _ \<Rightarrow> Done (newExp eTrue 0) s
      | FalseExpr _ \<Rightarrow> Done (newExp eFalse 0) s
      | NumberExpr _ x \<Rightarrow> Done (num_exp x) s
      | StringExpr line str \<Rightarrow> bindC (on_fs (strK line str) s) (\<lambda>k s. Done (newExp eK k) s)
      | VarargExpr line emitLine \<Rightarrow> on_fs (expr_vararg line emitLine) s
      | NameExpr line name \<Rightarrow> resolve_name line name s
      | ParenExpr _ endl x \<Rightarrow> bindC (ge x s) (\<lambda>e s. on_fs (dischargeVars endl e) s)
      | IndexExpr _ objEnd keyEnd close ob key \<Rightarrow> exprIndex ge objEnd keyEnd close ob key s
      | CallExpr line argsLine fnEnd ends fn args \<Rightarrow> exprCall ge line argsLine fnEnd ends fn args s
      | MethodCallExpr line argsLine ends recv name args \<Rightarrow> exprMethodCall ge line argsLine ends recv name args s
      | BinExpr line endl oper l r \<Rightarrow> exprBin pow ge line endl oper l r s
      | UnExpr line endl oper x \<Rightarrow> exprUn ge line endl oper x s
      | FuncE fe \<Rightarrow> exprFunc gf fe s
      | TableExpr line newLine closeLine its \<Rightarrow> exprTable ge line newLine closeLine its s)"

end
