(* ===== verification/CodegenStmt.thy ===== *)
theory CodegenStmt
  imports CodegenExpr Analyzer
begin

text \<open>
  The statements of \<open>internal/frontend/compile/stmt.go\<close>, and \<open>compile.go\<close>: a function from its parameters to the
  closing RETURN, and a chunk. The generator recurses with a fuel; the size of the tree is enough.
\<close>

type_synonym gen_block = "block \<Rightarrow> unit gcode"

definition next_reg :: "u32 \<Rightarrow> expDesc \<Rightarrow> unit gcode" where
  "next_reg line e s = bindC (on_fs (exp2NextReg line e) s) (\<lambda>_ s. Done () s)"

definition to_reg :: "u32 \<Rightarrow> expDesc \<Rightarrow> int \<Rightarrow> unit gcode" where
  "to_reg line e reg s = bindC (on_fs (exp2reg line e reg) s) (\<lambda>_ s. Done () s)"

definition emit_ABC :: "u32 \<Rightarrow> opcode \<Rightarrow> int \<Rightarrow> int \<Rightarrow> int \<Rightarrow> unit gcode" where
  "emit_ABC line op a b c s = bindC (on_fs (emitABC line op a b c) s) (\<lambda>_ s. Done () s)"

definition emit_ABx :: "u32 \<Rightarrow> opcode \<Rightarrow> int \<Rightarrow> int \<Rightarrow> unit gcode" where
  "emit_ABx line op a bx s = bindC (on_fs (emitABx line op a bx) s) (\<lambda>_ s. Done () s)"

definition register_local :: "u32 \<Rightarrow> string \<Rightarrow> unit gcode" where
  "register_local line name s = bindC (on_fs (registerLocal line name) s) (\<lambda>_ s. Done () s)"

definition sub_freereg :: "int \<Rightarrow> unit gcode" where
  "sub_freereg n = upd_fs (\<lambda>f. f\<lparr>fn_freereg := fn_freereg f - n\<rparr>)"

text \<open>\<open>fs.freereg = fs.nactvar\<close>.\<close>

definition reset_freereg :: "unit gcode" where
  "reset_freereg = upd_fs (\<lambda>f. f\<lparr>fn_freereg := int (fn_nactvar f)\<rparr>)"

section \<open>Lists of values\<close>

definition load_nils :: "u32 \<Rightarrow> int \<Rightarrow> unit gcode" where
  "load_nils line n s =
     bindC (get_fs fn_freereg s) (\<lambda>r s.
     bindC (emit_ABC line OP_LOADNIL r (r + n - 1) 0 s) (\<lambda>_ s. on_fs (reserveRegs line n) s))"

definition adjustExprList :: "gen_expr \<Rightarrow> u32 \<Rightarrow> expr list \<Rightarrow> nat \<Rightarrow> u32 list \<Rightarrow> unit gcode" where
  "adjustExprList ge line exprs nWant ends s =
     (let n = length exprs; line_at = end_at ends line in
      if n = 0 then if 0 < nWant then load_nils line (int nWant) s else Done () s
      else
        bindC (push_exprs ge line_at 0 (butlast exprs) s) (\<lambda>_ s.
        bindC (ge (last exprs) s) (\<lambda>e s.
        if nWant < n then
          bindC (next_reg (line_at (n - 1)) e s) (\<lambda>_ s.
          sub_freereg (if nWant = n - 1 then 1 else int n - int nWant) s)
        else
          let extra = int nWant - (int n - 1) in
          bindC (on_fs (openMultiRet e extra) s) (\<lambda>multi s.
          if multi then
            if e_k e = eCall then if 1 < extra then on_fs (reserveRegs line (extra - 1)) s else Done () s
            else on_fs (reserveRegs line extra) s
          else
            bindC (next_reg (line_at (n - 1)) e s) (\<lambda>_ s.
            if n < nWant then load_nils (line_at (n - 1)) (int nWant - int n) s else Done () s)))))"

section \<open>Local variables\<close>

definition set_assoc :: "string \<Rightarrow> 'v \<Rightarrow> (string \<times> 'v) list \<Rightarrow> (string \<times> 'v) list" where
  "set_assoc n v m = (n, v) # filter (\<lambda>(k, _). k \<noteq> n) m"

definition del_assoc :: "string \<Rightarrow> (string \<times> 'v) list \<Rightarrow> (string \<times> 'v) list" where
  "del_assoc n m = filter (\<lambda>(k, _). k \<noteq> n) m"

definition is_alias_rhs :: "expr \<Rightarrow> bool" where
  "is_alias_rhs e = (case e of NameExpr _ _ \<Rightarrow> True | IndexExpr _ _ _ _ _ _ \<Rightarrow> True | _ \<Rightarrow> False)"

definition note_alias :: "string \<Rightarrow> expr option \<Rightarrow> funcState \<Rightarrow> funcState" where
  "note_alias n rhs f = f\<lparr>fn_localAliasAsts :=
     (case rhs of
        Some e \<Rightarrow> if is_alias_rhs e then set_assoc n e (fn_localAliasAsts f) else del_assoc n (fn_localAliasAsts f)
      | None \<Rightarrow> del_assoc n (fn_localAliasAsts f))\<rparr>"

fun declare_locals :: "u32 \<Rightarrow> string list \<Rightarrow> expr list \<Rightarrow> unit gcode" where
  "declare_locals line [] es s = Done () s"
| "declare_locals line (n # ns) es s =
     bindC (register_local line n s) (\<lambda>_ s.
     bindC (upd_fs (note_alias n (case es of [] \<Rightarrow> None | e # _ \<Rightarrow> Some e)) s) (\<lambda>_ s.
     declare_locals line ns (tl es) s))"

definition stmtLocal :: "gen_expr \<Rightarrow> u32 \<Rightarrow> u32 list \<Rightarrow> u32 \<Rightarrow> string list \<Rightarrow> expr list \<Rightarrow> unit gcode" where
  "stmtLocal ge line ends endl names es s =
     bindC (adjustExprList ge (orLine endl line) es (length names) ends s) (\<lambda>_ s. declare_locals line names es s)"

definition stmtLocalFunc :: "gen_func \<Rightarrow> u32 \<Rightarrow> string \<Rightarrow> funcexpr \<Rightarrow> unit gcode" where
  "stmtLocalFunc gf line name fe s =
     bindC (register_local line name s) (\<lambda>_ s.
     bindC (upd_fs (\<lambda>f. f\<lparr>fn_localFnAsts := set_assoc name fe (fn_localFnAsts f)\<rparr>) s) (\<lambda>_ s.
     bindC (get_fs fn_freereg s) (\<lambda>reg s.
     bindC (on_fs (reserveRegs line 1) s) (\<lambda>_ s.
     bindC (exprFunc gf fe s) (\<lambda>e s. to_reg line e reg s)))))"

section \<open>Assignment\<close>

datatype target =
    LocalTarget int
  | UpvalTarget int
  | GlobalTarget int
  | IndexedTarget int int

definition storeVar :: "gen_expr \<Rightarrow> u32 \<Rightarrow> u32 \<Rightarrow> expr \<Rightarrow> expr \<Rightarrow> unit gcode" where
  "storeVar ge line rhsLine lhs rhs s =
     (let rhsLine = orLine rhsLine line in
      case lhs of
        NameExpr nameLine name \<Rightarrow>
          bindC (resolve_name nameLine name s) (\<lambda>ne s.
          bindC (ge rhs s) (\<lambda>re s.
          if e_k ne = eLocal then to_reg rhsLine re (e_info ne) s
          else
            bindC (on_fs (exp2AnyReg rhsLine re) s) (\<lambda>re s.
            if e_k ne = eUpval then emit_ABC line OP_SETUPVAL (e_info re) (e_info ne) 0 s
            else emit_ABx line OP_SETGLOBAL (e_info re) (e_info ne) s)))
      | IndexExpr _ objEnd keyEnd close ob key \<Rightarrow>
          bindC (index_operands ge objEnd keyEnd close ob key s) (\<lambda>(tableReg, rkK) s.
          bindC (ge rhs s) (\<lambda>re s.
          bindC (on_fs (exp2RK rhsLine re) s) (\<lambda>rkV s. emit_ABC line OP_SETTABLE tableReg rkK rkV s)))
      | _ \<Rightarrow> on_fs (cg_raise line ''syntax error'') s)"

text \<open>A target that indexes by the register \<open>reg\<close> uses the copy instead; the flag tells whether some did.\<close>

fun redirect :: "int \<Rightarrow> int \<Rightarrow> target \<Rightarrow> target" where
  "redirect reg copy (IndexedTarget t k) = IndexedTarget (if t = reg then copy else t) (if k = reg then copy else k)"
| "redirect reg copy t = t"

fun conflicts :: "int \<Rightarrow> target \<Rightarrow> bool" where
  "conflicts reg (IndexedTarget t k) = (t = reg \<or> k = reg)"
| "conflicts reg t = False"

definition local_target :: "u32 \<Rightarrow> int \<Rightarrow> target list \<Rightarrow> target list gcode" where
  "local_target line reg tgts s =
     bindC (get_fs fn_freereg s) (\<lambda>copy s.
     bindC (if list_ex (conflicts reg) tgts
            then bindC (emit_ABC line OP_MOVE copy reg 0 s) (\<lambda>_ s. on_fs (reserveRegs line 1) s)
            else Done () s) (\<lambda>_ s.
     Done (map (redirect reg copy) tgts @ [LocalTarget reg]) s))"

fun gen_targets :: "gen_expr \<Rightarrow> u32 \<Rightarrow> expr list \<Rightarrow> target list \<Rightarrow> target list gcode" where
  "gen_targets ge line [] tgts s = Done tgts s"
| "gen_targets ge line (t # ts) tgts s =
     bindC (case t of
         NameExpr nameLine name \<Rightarrow>
           bindC (resolve_name nameLine name s) (\<lambda>ne s.
           if e_k ne = eLocal then local_target nameLine (e_info ne) tgts s
           else Done (tgts @ [if e_k ne = eUpval then UpvalTarget (e_info ne) else GlobalTarget (e_info ne)]) s)
       | IndexExpr _ objEnd keyEnd close ob key \<Rightarrow>
           bindC (index_operands ge objEnd keyEnd close ob key s) (\<lambda>(tableReg, rk) s.
           Done (tgts @ [IndexedTarget tableReg rk]) s)
       | _ \<Rightarrow> on_fs (cg_raise line ''syntax error'') s) (\<lambda>tgts s.
     gen_targets ge line ts tgts s)"

fun emit_store :: "u32 \<Rightarrow> int \<Rightarrow> target \<Rightarrow> unit gcode" where
  "emit_store line src (LocalTarget r) s = (if r \<noteq> src then emit_ABC line OP_MOVE r src 0 s else Done () s)"
| "emit_store line src (IndexedTarget t k) s = emit_ABC line OP_SETTABLE t k src s"
| "emit_store line src (GlobalTarget k) s = emit_ABx line OP_SETGLOBAL src k s"
| "emit_store line src (UpvalTarget u) s = emit_ABC line OP_SETUPVAL src u 0 s"

text \<open>From the last target to the first.\<close>

fun emit_stores :: "u32 \<Rightarrow> int \<Rightarrow> target list \<Rightarrow> unit gcode" where
  "emit_stores line src [] s = Done () s"
| "emit_stores line src (t # ts) s = bindC (emit_store line src t s) (\<lambda>_ s. emit_stores line (src - 1) ts s)"

definition stmtAssign :: "gen_expr \<Rightarrow> u32 \<Rightarrow> u32 \<Rightarrow> u32 list \<Rightarrow> expr list \<Rightarrow> expr list \<Rightarrow> unit gcode" where
  "stmtAssign ge line endl ends targets es s =
     (let storeLine = (if sint line < sint endl then endl else line) in
      if length targets = 1 \<and> length es = 1 then
        bindC (storeVar ge storeLine (case ends of [] \<Rightarrow> 0 | l # _ \<Rightarrow> l) (hd targets) (hd es) s) (\<lambda>_ s.
        reset_freereg s)
      else
        bindC (gen_targets ge line targets [] s) (\<lambda>tgts s.
        bindC (adjustExprList ge line es (length targets) ends s) (\<lambda>_ s.
        bindC (get_fs (\<lambda>f. fn_freereg f - 1) s) (\<lambda>rhsTop s.
        bindC (emit_stores storeLine rhsTop (rev tgts) s) (\<lambda>_ s. reset_freereg s)))))"

section \<open>Blocks and loops\<close>

definition scoped :: "bool \<Rightarrow> u32 \<Rightarrow> unit gcode \<Rightarrow> unit gcode" where
  "scoped isLoop endl m s =
     bindC (on_fs (enterBlock isLoop) s) (\<lambda>_ s. bindC (m s) (\<lambda>_ s. on_fs (leaveBlock endl) s))"

fun if_clauses :: "gen_expr \<Rightarrow> gen_block \<Rightarrow> u32 \<Rightarrow> bool \<Rightarrow> ifclause list \<Rightarrow> int \<Rightarrow> int gcode" where
  "if_clauses ge gb line hasElse [] endList s = Done endList s"
| "if_clauses ge gb line hasElse (IfClause c b condEnd # cls) endList s =
     bindC (ge c s) (\<lambda>e s.
     bindC (on_fs (goIfTrue (orLine condEnd (expr_Pos c)) e) s) (\<lambda>e s.
     bindC (scoped False (orLine (b_EndLine b) line) (gb b) s) (\<lambda>_ s.
     bindC (if cls \<noteq> [] \<or> hasElse
            then bindC (on_fs (jump (orLine (b_EndLine b) line)) s) (\<lambda>j s. on_fs (concat_lists endList j) s)
            else Done endList s) (\<lambda>endList s.
     bindC (on_fs (patchToHere (e_fJmp e)) s) (\<lambda>_ s.
     if_clauses ge gb line hasElse cls endList s)))))"

definition stmtIf :: "gen_expr \<Rightarrow> gen_block \<Rightarrow> u32 \<Rightarrow> ifclause list \<Rightarrow> block option \<Rightarrow> unit gcode" where
  "stmtIf ge gb line clauses els s =
     bindC (if_clauses ge gb line (els \<noteq> None) clauses NoJump s) (\<lambda>endList s.
     bindC (case els of Some b \<Rightarrow> scoped False (orLine (b_EndLine b) line) (gb b) s | None \<Rightarrow> Done () s) (\<lambda>_ s.
     on_fs (patchToHere endList) s))"

definition stmtWhile :: "gen_expr \<Rightarrow> gen_block \<Rightarrow> u32 \<Rightarrow> u32 \<Rightarrow> expr \<Rightarrow> block \<Rightarrow> unit gcode" where
  "stmtWhile ge gb line condEnd c b s =
     (let bodyEnd = orLine (b_EndLine b) line in
      bindC (on_fs getLabel s) (\<lambda>loopStart s.
      bindC (ge c s) (\<lambda>e s.
      bindC (on_fs (goIfTrue (orLine condEnd (expr_Pos c)) e) s) (\<lambda>e s.
      bindC (on_fs (enterBlock True) s) (\<lambda>_ s.
      bindC (scoped False bodyEnd (gb b) s) (\<lambda>_ s.
      bindC (on_fs (jump bodyEnd) s) (\<lambda>back s.
      bindC (on_fs (patchList back loopStart) s) (\<lambda>_ s.
      bindC (on_fs (leaveBlock bodyEnd) s) (\<lambda>_ s.
      on_fs (patchToHere (e_fJmp e)) s)))))))))"

text \<open>The blocks inside the innermost loop, its block, and the rest.\<close>

fun split_loop :: "blockCnt list \<Rightarrow> (blockCnt list \<times> blockCnt \<times> blockCnt list) option" where
  "split_loop [] = None"
| "split_loop (b # bs) =
     (if bk_isLoop b then Some ([], b, bs)
      else case split_loop bs of Some (inner, l, outer) \<Rightarrow> Some (b # inner, l, outer) | None \<Rightarrow> None)"

definition set_break_list :: "int \<Rightarrow> funcState \<Rightarrow> funcState" where
  "set_break_list j f =
     (case split_loop (fn_bl f) of
        Some (inner, l, outer) \<Rightarrow> f\<lparr>fn_bl := inner @ l\<lparr>bk_breakList := j\<rparr> # outer\<rparr>
      | None \<Rightarrow> f)"

definition stmtBreak :: "u32 \<Rightarrow> unit fcode" where
  "stmtBreak line f =
     (case split_loop (fn_bl f) of
        None \<Rightarrow> cg_raise line ''no loop to break'' f
      | Some (inner, l, _) \<Rightarrow>
          bindC (if list_ex bk_hasUpval inner \<or> bk_hasUpval l
                 then bindC (emitABC line OP_CLOSE (bk_nactvarSnap l) 0 0 f) (\<lambda>_ f. Done () f) else Done () f) (\<lambda>_ f.
          bindC (jump line f) (\<lambda>pc f.
          bindC (concat_lists (bk_breakList l) pc f) (\<lambda>j f. Done () (set_break_list j f)))))"

definition stmtRepeat :: "gen_expr \<Rightarrow> gen_block \<Rightarrow> u32 \<Rightarrow> block \<Rightarrow> expr \<Rightarrow> u32 \<Rightarrow> unit gcode" where
  "stmtRepeat ge gb line b c condEnd s =
     (let condLine = orLine condEnd line in
      bindC (on_fs getLabel s) (\<lambda>loopStart s.
      bindC (on_fs (enterBlock True) s) (\<lambda>_ s.
      bindC (on_fs (enterBlock False) s) (\<lambda>_ s.
      bindC (gb b s) (\<lambda>_ s.
      bindC (ge c s) (\<lambda>e s.
      bindC (on_fs (goIfTrue (orLine condEnd (expr_Pos c)) e) s) (\<lambda>e s.
      bindC (on_fs (\<lambda>f. case fn_bl f of [] \<Rightarrow> Panic | bl # _ \<Rightarrow> Done (bk_hasUpval bl) f) s) (\<lambda>captured s.
      bindC (if \<not> captured then
               bindC (on_fs (leaveBlock condLine) s) (\<lambda>_ s. on_fs (patchList (e_fJmp e) loopStart) s)
             else
               bindC (on_fs (stmtBreak condLine) s) (\<lambda>_ s.
               bindC (on_fs (patchToHere (e_fJmp e)) s) (\<lambda>_ s.
               bindC (on_fs (leaveBlock condLine) s) (\<lambda>_ s.
               bindC (on_fs (jump condLine) s) (\<lambda>j s. on_fs (patchList j loopStart) s))))) (\<lambda>_ s.
      on_fs (leaveBlock condLine) s)))))))))"

text \<open>The two hidden names of a \<open>for\<close> loop, and its variables.\<close>

fun register_locals :: "u32 \<Rightarrow> bool \<Rightarrow> string list \<Rightarrow> unit gcode" where
  "register_locals line reserve [] s = Done () s"
| "register_locals line reserve (n # ns) s =
     bindC (register_local line n s) (\<lambda>_ s.
     bindC (if reserve then on_fs (reserveRegs line 1) s else Done () s) (\<lambda>_ s. register_locals line reserve ns s))"

definition for_step :: "gen_expr \<Rightarrow> u32 \<Rightarrow> int \<Rightarrow> expr option \<Rightarrow> unit gcode" where
  "for_step ge stepLine base stp s =
     (case stp of
        Some x \<Rightarrow> bindC (ge x s) (\<lambda>e s. next_reg stepLine e s)
      | None \<Rightarrow>
          bindC (on_fs (numK stepLine 0x3FF0000000000000) s) (\<lambda>k s.
          bindC (emit_ABx stepLine OP_LOADK (base + 2) k s) (\<lambda>_ s. on_fs (reserveRegs stepLine 1) s)))"

definition stmtNumFor :: "gen_expr \<Rightarrow> gen_block \<Rightarrow> u32 \<Rightarrow> string \<Rightarrow> u32 \<times> u32 \<times> u32 \<Rightarrow> u32 \<Rightarrow> expr \<Rightarrow> expr \<Rightarrow>
    expr option \<Rightarrow> block \<Rightarrow> unit gcode" where
  "stmtNumFor ge gb line var ends doLine ini limit stp b s =
     (case ends of (end0, end1, end2) \<Rightarrow>
      bindC (on_fs (enterBlock True) s) (\<lambda>_ s.
      bindC (get_fs fn_freereg s) (\<lambda>base s.
      bindC (ge ini s) (\<lambda>e s.
      bindC (next_reg (orLine end0 line) e s) (\<lambda>_ s.
      bindC (ge limit s) (\<lambda>e s.
      bindC (next_reg (orLine end1 line) e s) (\<lambda>_ s.
      bindC (for_step ge (orLine end2 line) base stp s) (\<lambda>_ s.
      bindC (register_locals line False [''(for index)'', ''(for limit)'', ''(for step)''] s) (\<lambda>_ s.
      bindC (on_fs (emitAsBx (orLine doLine line) OP_FORPREP base NoJump) s) (\<lambda>prep s.
      bindC (scoped False (orLine (b_EndLine b) line)
               (\<lambda>s. bindC (register_locals line True [var] s) (\<lambda>_ s. gb b s)) s) (\<lambda>_ s.
      bindC (get_fs here s) (\<lambda>loopPC s.
      bindC (on_fs (fixJump line prep loopPC) s) (\<lambda>_ s.
      bindC (on_fs (emitAsBx line OP_FORLOOP base (prep + 1 - (loopPC + 1))) s) (\<lambda>_ s.
      on_fs (leaveBlock line) s))))))))))))))"

definition stmtGenFor :: "gen_expr \<Rightarrow> gen_block \<Rightarrow> u32 \<Rightarrow> string list \<Rightarrow> u32 \<Rightarrow> u32 \<Rightarrow> u32 list \<Rightarrow> expr list \<Rightarrow> block \<Rightarrow>
    unit gcode" where
  "stmtGenFor ge gb line names iterLine doLine ends es b s =
     (let bodyEnd = orLine (b_EndLine b) line in
      bindC (on_fs (enterBlock True) s) (\<lambda>_ s.
      bindC (get_fs fn_freereg s) (\<lambda>base s.
      bindC (adjustExprList ge line es 3 ends s) (\<lambda>_ s.
      bindC (register_locals line False [''(for generator)'', ''(for state)'', ''(for control)''] s) (\<lambda>_ s.
      bindC (on_fs (jump (orLine doLine line)) s) (\<lambda>prep s.
      bindC (get_fs here s) (\<lambda>bodyPC s.
      bindC (scoped False bodyEnd (\<lambda>s. bindC (register_locals line True names s) (\<lambda>_ s. gb b s)) s) (\<lambda>_ s.
      bindC (on_fs (patchToHere prep) s) (\<lambda>_ s.
      bindC (emit_ABC (orLine iterLine line) OP_TFORLOOP base 0 (int (length names)) s) (\<lambda>_ s.
      bindC (on_fs (jump bodyEnd) s) (\<lambda>back s.
      bindC (on_fs (patchList back bodyPC) s) (\<lambda>_ s.
      on_fs (leaveBlock line) s))))))))))))"

section \<open>Calls and returns\<close>

definition stmtCall :: "gen_expr \<Rightarrow> u32 \<Rightarrow> expr \<Rightarrow> unit gcode" where
  "stmtCall ge line call s =
     bindC (ge call s) (\<lambda>e s.
     if e_k e \<noteq> eCall then on_fs (cg_raise line ''syntax error'') s
     else on_fs (modify_code (e_info e) (\<lambda>ins. SetC ins 1)) s)"

text \<open>The line of the last instruction, when the statement emitted one.\<close>

definition fix_line :: "int \<Rightarrow> u32 \<Rightarrow> unit fcode" where
  "fix_line first line f =
     (let n = here f in
      if first < n then
        if n \<le> int (length (pr_LineInfo (fn_proto f)))
        then Done () (upd_proto (\<lambda>p. p\<lparr>pr_LineInfo := (pr_LineInfo p)[nat (n - 1) := line]\<rparr>) f) else Panic
      else Done () f)"

definition stmtFunc :: "gen_expr \<Rightarrow> u32 \<Rightarrow> expr \<Rightarrow> funcexpr \<Rightarrow> unit gcode" where
  "stmtFunc ge line tgt fe s =
     bindC (get_fs here s) (\<lambda>first s.
     bindC (stmtAssign ge line 0 [] [tgt] [FuncE fe] s) (\<lambda>_ s. on_fs (fix_line first line) s))"

definition return_tail_call :: "u32 \<Rightarrow> expDesc \<Rightarrow> unit fcode" where
  "return_tail_call retLine e f =
     bindC (code_at (e_info e) f) (\<lambda>ins f.
     bindC (set_code (e_info e) (EncodeABC OP_TAILCALL (A_of ins) (B_of ins) 0) f) (\<lambda>_ f.
     bindC (emitABC retLine OP_RETURN (A_of ins) 0 0 f) (\<lambda>_ f. Done () f)))"

definition return_single :: "u32 \<Rightarrow> expDesc \<Rightarrow> unit fcode" where
  "return_single retLine e f =
     bindC (dischargeVars retLine e f) (\<lambda>e f.
     if e_k e = eNonReloc \<and> \<not> hasJumps e
     then bindC (emitABC retLine OP_RETURN (e_info e) 2 0 f) (\<lambda>_ f. Done () f)
     else
       bindC (exp2NextReg retLine e f) (\<lambda>e f.
       bindC (emitABC retLine OP_RETURN (e_info e) 2 0 f) (\<lambda>_ f. Done () (f\<lparr>fn_freereg := e_info e\<rparr>))))"

definition return_list :: "gen_expr \<Rightarrow> u32 \<Rightarrow> u32 \<Rightarrow> u32 list \<Rightarrow> expr list \<Rightarrow> unit gcode" where
  "return_list ge line retLine ends es s =
     (let n = length es; line_at = end_at ends line in
      bindC (get_fs fn_freereg s) (\<lambda>base s.
      bindC (push_exprs ge line_at 0 (butlast es) s) (\<lambda>_ s.
      bindC (ge (last es) s) (\<lambda>e s.
      bindC (on_fs (openMultiRet e (- 1)) s) (\<lambda>multi s.
      if multi then emit_ABC retLine OP_RETURN base 0 0 s
      else
        bindC (next_reg (line_at (n - 1)) e s) (\<lambda>_ s.
        bindC (emit_ABC retLine OP_RETURN base (int n + 1) 0 s) (\<lambda>_ s. set_freereg base s)))))))"

definition stmtReturn :: "gen_expr \<Rightarrow> u32 \<Rightarrow> u32 list \<Rightarrow> expr list \<Rightarrow> unit gcode" where
  "stmtReturn ge line ends es s =
     (let retLine = (if ends \<noteq> [] \<and> last ends \<noteq> 0 then last ends else line) in
      case es of
        [] \<Rightarrow> emit_ABC line OP_RETURN 0 1 0 s
      | [x] \<Rightarrow>
          (case x of
             CallExpr l argsLine fnEnd aends fn args \<Rightarrow>
               bindC (exprCall ge l argsLine fnEnd aends fn args s) (\<lambda>e s. on_fs (return_tail_call retLine e) s)
           | MethodCallExpr l argsLine aends recv name args \<Rightarrow>
               bindC (exprMethodCall ge l argsLine aends recv name args s) (\<lambda>e s. on_fs (return_tail_call retLine e) s)
           | VarargExpr l emitLine \<Rightarrow>
               bindC (get_fs fn_freereg s) (\<lambda>base s.
               bindC (ge x s) (\<lambda>e s.
               bindC (on_fs (openMultiRet e (- 1)) s) (\<lambda>_ s. emit_ABC retLine OP_RETURN base 0 0 s)))
           | _ \<Rightarrow> bindC (ge x s) (\<lambda>e s. on_fs (return_single retLine e) s))
      | _ \<Rightarrow> return_list ge line retLine ends es s)"

section \<open>Statements\<close>

definition stmt_code :: "gen_expr \<Rightarrow> gen_func \<Rightarrow> gen_block \<Rightarrow> stmt \<Rightarrow> unit gcode" where
  "stmt_code ge gf gb st s =
     (case st of
        LocalStmt line ends endl names es \<Rightarrow> stmtLocal ge line ends endl names es s
      | LocalFuncStmt line name fe \<Rightarrow> stmtLocalFunc gf line name fe s
      | AssignStmt line endl ends targets es \<Rightarrow> stmtAssign ge line endl ends targets es s
      | CallStmt line call \<Rightarrow> stmtCall ge line call s
      | DoStmt line b \<Rightarrow> scoped False (orLine (b_EndLine b) line) (gb b) s
      | IfStmt line clauses els \<Rightarrow> stmtIf ge gb line clauses els s
      | WhileStmt line condEnd c b \<Rightarrow> stmtWhile ge gb line condEnd c b s
      | RepeatStmt line b c condEnd \<Rightarrow> stmtRepeat ge gb line b c condEnd s
      | NumForStmt line var ends doLine ini limit stp b \<Rightarrow> stmtNumFor ge gb line var ends doLine ini limit stp b s
      | GenForStmt line names iterLine doLine ends es b \<Rightarrow> stmtGenFor ge gb line names iterLine doLine ends es b s
      | FuncStmt line tgt _ fe \<Rightarrow> stmtFunc ge line tgt fe s
      | ReturnStmt line ends es \<Rightarrow> stmtReturn ge line ends es s
      | BreakStmt line \<Rightarrow> on_fs (stmtBreak line) s)"

fun stmts_code :: "gen_expr \<Rightarrow> gen_func \<Rightarrow> gen_block \<Rightarrow> stmt list \<Rightarrow> unit gcode" where
  "stmts_code ge gf gb [] s = Done () s"
| "stmts_code ge gf gb (st # sts) s =
     bindC (stmt_code ge gf gb st s) (\<lambda>_ s. bindC (reset_freereg s) (\<lambda>_ s. stmts_code ge gf gb sts s))"

section \<open>Functions\<close>

text \<open>The function and the chain it is compiled in, when the proto is complete; \<open>analyze_off.go\<close> does nothing.\<close>

type_synonym analysis = "funcexpr \<Rightarrow> proto \<Rightarrow> funcState list \<Rightarrow> proto option"

definition analyze_off :: analysis where
  "analyze_off fe p outer = Some p"

text \<open>The merged view of the names of the enclosing functions, of \<open>analyze_on.go\<close>, from the outermost inwards.\<close>

fun add_funcs :: "(string \<times> funcexpr) list \<Rightarrow> (string \<times> funcexpr) list \<times> (string \<times> expr) list \<Rightarrow>
    (string \<times> funcexpr) list \<times> (string \<times> expr) list" where
  "add_funcs [] v = v"
| "add_funcs ((n, f) # fs) (locals, aliases) = add_funcs fs (set_assoc n f locals, del_assoc n aliases)"

fun add_aliases :: "(string \<times> expr) list \<Rightarrow> (string \<times> funcexpr) list \<times> (string \<times> expr) list \<Rightarrow>
    (string \<times> funcexpr) list \<times> (string \<times> expr) list" where
  "add_aliases [] v = v"
| "add_aliases ((n, e) # es) (locals, aliases) = add_aliases es (del_assoc n locals, set_assoc n e aliases)"

fun outer_names :: "funcState list \<Rightarrow> (string \<times> funcexpr) list \<times> (string \<times> expr) list" where
  "outer_names [] = ([], [])"
| "outer_names (f # outer) = add_aliases (fn_localAliasAsts f) (add_funcs (fn_localFnAsts f) (outer_names outer))"

definition analyze_on :: "(funcexpr \<Rightarrow> (string \<times> funcexpr) list \<Rightarrow> nat) \<Rightarrow> 'c bridge \<Rightarrow> analysis" where
  "analyze_on fuel tmp fe p outer =
     (let (locals, aliases) = outer_names outer in
      case AnalyzeProtoWithOuter (fuel fe locals) (\<lambda>_. p) tmp fe 0 locals aliases of
        Some (_, ps, _) \<Rightarrow> Some (ps 0)
      | None \<Rightarrow> None)"

record genEnv =
  ge_source :: string
  ge_pow :: "f64 \<Rightarrow> f64 \<Rightarrow> f64"
  ge_analyze :: analysis

definition open_func :: "string \<Rightarrow> bool \<Rightarrow> funcexpr \<Rightarrow> funcState" where
  "open_func source is_main fe =
     (let f = newFuncState source (if is_main then 0 else fe_Line fe) in
      upd_proto (\<lambda>p. p\<lparr>pr_NumParams := word_of_nat (length (fe_Params fe)), pr_IsVararg := fe_IsVararg fe,
        pr_NeedsArg := fe_IsVararg fe \<and> \<not> fe_NoArgTable fe, pr_LineEnd := fe_EndLine fe\<rparr>)
        (f\<lparr>fn_isVararg := fe_IsVararg fe\<rparr>))"

text \<open>The parameters in the first registers.\<close>

definition open_frame :: "funcState \<Rightarrow> funcState" where
  "open_frame f =
     (let f = f\<lparr>fn_freereg := int (fn_nactvar f)\<rparr> in
      if uint (pr_MaxStack (fn_proto f)) < fn_freereg f
      then upd_proto (\<lambda>p. p\<lparr>pr_MaxStack := word_of_int (fn_freereg f)\<rparr>) f else f)"

definition local_entry :: "localVar \<Rightarrow> LocalVar" where
  "local_entry lv = \<lparr>lv_Name = lv_name lv, lv_StartPC = lv_startPC lv, lv_EndPC = lv_endPC lv\<rparr>"

definition finish_proto :: "funcState \<Rightarrow> funcState" where
  "finish_proto f = upd_proto (\<lambda>p. p\<lparr>pr_LocVars := map local_entry (fn_locvars f),
     pr_MaxStack := (if pr_MaxStack p < 2 then 2 else pr_MaxStack p)\<rparr>) f"

definition func_body :: "gen_block \<Rightarrow> funcexpr \<Rightarrow> unit gcode" where
  "func_body gb fe s =
     bindC (register_locals (fe_Line fe) False (fe_Params fe) s) (\<lambda>_ s.
     bindC (get_fs (\<lambda>f. pr_NeedsArg (fn_proto f)) s) (\<lambda>needsArg s.
     bindC (if needsArg then register_local (fe_Line fe) ''arg'' s else Done () s) (\<lambda>_ s.
     bindC (upd_fs open_frame s) (\<lambda>_ s.
     bindC (gb (fe_Body fe) s) (\<lambda>_ s.
     bindC (emit_ABC (fe_EndLine fe) OP_RETURN 0 1 0 s) (\<lambda>_ s.
     bindC (on_fs (removeVars 0) s) (\<lambda>_ s.
     upd_fs finish_proto s)))))))"

definition compileFunc :: "genEnv \<Rightarrow> gen_block \<Rightarrow> gen_func" where
  "compileFunc env gb fe s =
     (let outer = cg_chain s in
      bindC (func_body gb fe (s\<lparr>cg_chain := open_func (ge_source env) (outer = []) fe # outer\<rparr>)) (\<lambda>_ s.
      case cg_chain s of
        [] \<Rightarrow> Panic
      | f # outer \<Rightarrow>
          (case ge_analyze env fe (fn_proto f) outer of
             None \<Rightarrow> Panic
           | Some p \<Rightarrow> Done p (s\<lparr>cg_protos := cg_protos s @ [p], cg_chain := outer\<rparr>))))"

section \<open>The generator\<close>

fun gen_expr :: "genEnv \<Rightarrow> nat \<Rightarrow> gen_expr"
and gen_func :: "genEnv \<Rightarrow> nat \<Rightarrow> gen_func"
and gen_block :: "genEnv \<Rightarrow> nat \<Rightarrow> gen_block" where
  "gen_expr env 0 e s = NoFuel"
| "gen_expr env (Suc n) e s = expr_code (ge_pow env) (gen_expr env n) (gen_func env n) e s"
| "gen_func env 0 fe s = NoFuel"
| "gen_func env (Suc n) fe s = compileFunc env (gen_block env n) fe s"
| "gen_block env 0 b s = NoFuel"
| "gen_block env (Suc n) b s = stmts_code (gen_expr env n) (gen_func env n) (gen_block env n) (b_Stmts b) s"

definition main_func :: "block \<Rightarrow> funcexpr" where
  "main_func b = FuncExpr 0 1 [] True True b 0"

text \<open>The id of the main proto and all protos, or the error.\<close>

definition Compile :: "genEnv \<Rightarrow> block \<Rightarrow> (int \<times> proto list, unit) cresult" where
  "Compile env b =
     bindC (gen_func env (size (main_func b) + 1) (main_func b) \<lparr>cg_protos = [], cg_chain = []\<rparr>) (\<lambda>_ s.
     Done (int (length (cg_protos s)) - 1, cg_protos s) ())"

end
