(* ===== verification/CodegenJumps.thy ===== *)
theory CodegenJumps
  imports CodegenStmt
begin

text \<open>
  Jump lists: what a list threaded through the code is, that patching lands every jump of it, and that \<open>concat\<close>
  appends two lists, unless they are farther apart than an offset can say.
\<close>

section \<open>Lists\<close>

definition jump_link :: "instruction list \<Rightarrow> nat \<Rightarrow> int" where
  "jump_link code n = (if SBx_of (code ! n) = NoJump then NoJump else int n + 1 + SBx_of (code ! n))"

fun jump_list :: "instruction list \<Rightarrow> int \<Rightarrow> nat list \<Rightarrow> bool" where
  "jump_list code l [] \<longleftrightarrow> l = NoJump"
| "jump_list code l (n # ns) \<longleftrightarrow> l = int n \<and> n < length code \<and> Op_of (code ! n) = OP_JMP \<and> jump_list code (jump_link code n) ns"

lemma jump_list_unique: "jump_list code l ns \<Longrightarrow> jump_list code l ms \<Longrightarrow> ns = ms"
proof (induction ns arbitrary: l ms)
  case Nil then show ?case by (cases ms) (auto simp: NoJump_def)
next
  case (Cons n ns) then show ?case by (cases ms) (auto simp: NoJump_def)
qed

lemma jump_list_suffix: "jump_list code l (ns @ n # ms) \<Longrightarrow> jump_list code (int n) (n # ms)"
  by (induction ns arbitrary: l) auto

lemma jump_list_distinct: "jump_list code l ns \<Longrightarrow> distinct ns"
proof (rule ccontr)
  assume l: "jump_list code l ns" and "\<not> distinct ns"
  then obtain xs ys zs n where ns: "ns = xs @ [n] @ ys @ [n] @ zs" using not_distinct_decomp by blast
  have "jump_list code (int n) (n # ys @ n # zs)" using jump_list_suffix [of code l xs n] l ns by simp
  moreover have "jump_list code (int n) (n # zs)" using jump_list_suffix [of code l "xs @ n # ys" n] l ns by simp
  ultimately have "n # ys @ n # zs = n # zs" by (rule jump_list_unique)
  then show False using arg_cong [of _ _ length] by fastforce
qed

lemma jump_list_nodes: "jump_list code l ns \<Longrightarrow> n \<in> set ns \<Longrightarrow> n < length code \<and> Op_of (code ! n) = OP_JMP"
  by (induction ns arbitrary: l) auto

lemma jump_list_short:
  assumes "jump_list code l ns" shows "length ns \<le> length code"
proof -
  have "set ns \<subseteq> {..<length code}" using jump_list_nodes [OF assms] by auto
  then have "card (set ns) \<le> length code" using card_mono [of "{..<length code}"] by simp
  then show ?thesis using distinct_card [OF jump_list_distinct [OF assms]] by simp
qed

lemma jump_list_cong:
  "jump_list code l ns \<Longrightarrow> length code' = length code \<Longrightarrow> (\<And>n. n \<in> set ns \<Longrightarrow> code' ! n = code ! n) \<Longrightarrow> jump_list code' l ns"
  by (induction ns arbitrary: l) (auto simp: jump_link_def)

lemma code_at_node: "n < length (fs_code f) \<Longrightarrow> code_at (int n) f = Done (fs_code f ! n) f"
  by (simp add: code_at_def here_def)

lemma getJump_node: "n < length (fs_code f) \<Longrightarrow> getJump (int n) f = Done (jump_link (fs_code f) n) f"
  by (simp add: getJump_def code_at_node jump_link_def Let_def)

section \<open>Patching\<close>

text \<open>\<open>with_code\<close> replaces the code of the function.\<close>

definition with_code :: "instruction list \<Rightarrow> funcState \<Rightarrow> funcState" where
  "with_code c = upd_proto (\<lambda>p. p\<lparr>pr_Code := c\<rparr>)"

lemma with_code [simp]: "fs_code (with_code c f) = c" "with_code c (with_code d f) = with_code c f"
  "with_code (fs_code f) f = f"
  by (simp_all add: with_code_def fs_code_def upd_proto_def)

lemma set_code_node: "n < length (fs_code f) \<Longrightarrow> set_code (int n) ins f = Done () (with_code ((fs_code f)[n := ins]) f)"
  by (simp add: set_code_def here_def with_code_def upd_proto_def fs_code_def)

lemma modify_code_node:
  "n < length (fs_code f) \<Longrightarrow> modify_code (int n) g f = Done () (with_code ((fs_code f)[n := g (fs_code f ! n)]) f)"
  by (simp add: modify_code_def code_at_node set_code_node)

definition guarded :: "instruction list \<Rightarrow> nat \<Rightarrow> bool" where
  "guarded code n \<longleftrightarrow> 0 < n \<and> Op_of (code ! (n - 1)) = OP_TESTSET"

definition offset :: "nat \<Rightarrow> int \<Rightarrow> int" where
  "offset n target = (if target = NoJump then NoJump else target - (int n + 1))"

definition reachable_from :: "nat \<Rightarrow> int \<Rightarrow> bool" where
  "reachable_from n target \<longleftrightarrow> - SBxBias \<le> offset n target \<and> offset n target \<le> SBxBias"

definition settled :: "int \<Rightarrow> instruction \<Rightarrow> instruction" where
  "settled reg ins = (if reg \<noteq> NoRegister \<and> reg \<noteq> B_of ins then SetA ins reg else EncodeABC OP_TEST (B_of ins) 0 (C_of ins))"

text \<open>Every jump of the list goes to \<open>v\<close> when a \<open>TESTSET\<close> guards it and to \<open>d\<close> otherwise, the guards are settled, and
  the rest of the code is left alone.\<close>

definition patched :: "nat list \<Rightarrow> int \<Rightarrow> int \<Rightarrow> int \<Rightarrow> instruction list \<Rightarrow> instruction list" where
  "patched ns v reg d code = map (\<lambda>i.
     if i \<in> set ns then SetSBx (code ! i) (offset i (if guarded code i then v else d))
     else if Suc i \<in> set ns \<and> Op_of (code ! i) = OP_TESTSET then settled reg (code ! i)
     else code ! i) [0..<length code]"

lemma length_patched [simp]: "length (patched ns v reg d code) = length code"
  by (simp add: patched_def)

lemma nth_patched: "i < length code \<Longrightarrow> patched ns v reg d code ! i =
    (if i \<in> set ns then SetSBx (code ! i) (offset i (if guarded code i then v else d))
     else if Suc i \<in> set ns \<and> Op_of (code ! i) = OP_TESTSET then settled reg (code ! i) else code ! i)"
  by (simp add: patched_def)

lemma patched_Nil [simp]: "patched [] v reg d code = code"
  by (rule nth_equalityI) (simp_all add: nth_patched)

lemma testset_not_jmp: "OP_TESTSET \<noteq> OP_JMP" by (simp add: opcode_defs)

lemma patchTestReg_node:
  assumes "n < length (fs_code f)" and "Op_of (fs_code f ! n) = OP_JMP"
  shows "patchTestReg (int n) reg f = Done (guarded (fs_code f) n)
    (with_code (if guarded (fs_code f) n then (fs_code f)[n - 1 := settled reg (fs_code f ! (n - 1))] else fs_code f) f)"
proof (cases n)
  case 0 then show ?thesis by (simp add: patchTestReg_def guarded_def)
next
  case (Suc m)
  have m: "m < length (fs_code f)" using assms Suc by simp
  show ?thesis
    using m by (simp add: Suc patchTestReg_def guarded_def Let_def code_at_node [OF m] set_code_node [OF m] settled_def)
qed

lemma fixJump_node:
  assumes "n < length (fs_code f)" and "reachable_from n t"
  shows "fixJump line (int n) t f = Done () (with_code ((fs_code f)[n := SetSBx (fs_code f ! n) (offset n t)]) f)"
  using assms by (auto simp: fixJump_def modify_code_node offset_def reachable_from_def Let_def)

definition patch_step :: "nat \<Rightarrow> int \<Rightarrow> int \<Rightarrow> int \<Rightarrow> instruction list \<Rightarrow> instruction list" where
  "patch_step n v reg d code =
     (let code1 = (if guarded code n then code[n - 1 := settled reg (code ! (n - 1))] else code)
      in code1[n := SetSBx (code1 ! n) (offset n (if guarded code n then v else d))])"

lemma patch_nodes_node:
  assumes "n < length (fs_code f)" and "Op_of (fs_code f ! n) = OP_JMP"
    and "reachable_from n (if guarded (fs_code f) n then v else d)"
  shows "patch_nodes (Suc k) (int n) v reg d f =
    patch_nodes k (jump_link (fs_code f) n) v reg d (with_code (patch_step n v reg d (fs_code f)) f)"
  using assms
  by (subst patch_nodes.simps; cases "guarded (fs_code f) n")
    (simp_all add: NoJump_def getJump_node patchTestReg_node fixJump_node patch_step_def Let_def)

lemma patch_one:
  assumes l: "jump_list code (int n) (n # ns)" and code2: "code2 = patch_step n v reg d code"
  shows "jump_list code2 (jump_link code n) ns" and "patched ns v reg d code2 = patched (n # ns) v reg d code"
    and "\<And>m. m \<in> set ns \<Longrightarrow> guarded code2 m = guarded code m"
proof -
  have n: "n < length code" "Op_of (code ! n) = OP_JMP" "n \<notin> set ns" "jump_list code (jump_link code n) ns"
    using l jump_list_distinct [OF l] by simp_all
  have len: "length code2 = length code" by (simp add: code2 patch_step_def Let_def)
  have prev: "n - 1 \<notin> set ns" if "guarded code n"
    using that jump_list_nodes [OF n(4), of "n - 1"] testset_not_jmp by (auto simp: guarded_def)
  have at: "code2 ! i = (if i = n then SetSBx (code ! n) (offset n (if guarded code n then v else d))
      else if Suc i = n \<and> Op_of (code ! i) = OP_TESTSET then settled reg (code ! i) else code ! i)"
    if "i < length code" for i
    using that n(1) by (auto simp: code2 patch_step_def Let_def guarded_def nth_list_update)
  show "jump_list code2 (jump_link code n) ns"
    using n(4) len
  proof (rule jump_list_cong)
    fix m assume m: "m \<in> set ns"
    then have "m < length code \<and> Op_of (code ! m) = OP_JMP" using jump_list_nodes [OF n(4)] by blast
    then show "code2 ! m = code ! m" using m n(3) testset_not_jmp by (auto simp: at)
  qed
  show g: "guarded code2 m = guarded code m" if m: "m \<in> set ns" for m
  proof -
    have "m < length code" using jump_list_nodes [OF n(4) m] by simp
    moreover have "m \<noteq> n" using m n(3) by auto
    ultimately show ?thesis using n(2) testset_not_jmp by (auto simp: guarded_def at set_fields)
  qed
  show "patched ns v reg d code2 = patched (n # ns) v reg d code"
  proof (rule nth_equalityI)
    fix i assume "i < length (patched ns v reg d code2)"
    then have i: "i < length code" by (simp add: len)
    have jmp: "Op_of (code ! i) = OP_JMP" if "i \<in> set ns" using jump_list_nodes [OF n(4) that] by simp
    show "patched ns v reg d code2 ! i = patched (n # ns) v reg d code ! i"
      using i n g [of i] jmp testset_not_jmp
      by (cases "i = n"; cases "i \<in> set ns"; cases "Suc i = n") (auto simp: nth_patched len at set_fields)
  qed (simp add: len)
qed

lemma patch_nodes_list:
  assumes "jump_list (fs_code f) l ns" and "length ns \<le> k"
    and "\<And>n. n \<in> set ns \<Longrightarrow> reachable_from n (if guarded (fs_code f) n then v else d)"
  shows "patch_nodes k l v reg d f = Done () (with_code (patched ns v reg d (fs_code f)) f)"
  using assms
proof (induction ns arbitrary: l k f)
  case Nil then show ?case by (subst patch_nodes.simps) simp
next
  case (Cons n ns)
  then obtain k' where k: "k = Suc k'" "length ns \<le> k'" by (cases k) auto
  let ?code = "fs_code f"
  from Cons.prems have l: "l = int n" "n < length ?code" "Op_of (?code ! n) = OP_JMP" by simp_all
  have list: "jump_list ?code (int n) (n # ns)" using Cons.prems(1) l by simp
  note one = patch_one [OF list refl, where v = v and reg = reg and d = d]
  let ?f = "with_code (patch_step n v reg d ?code) f"
  have "length (patch_step n v reg d ?code) = length ?code" by (simp add: patch_step_def Let_def)
  then have "patch_nodes k' (jump_link ?code n) v reg d ?f =
      Done () (with_code (patched ns v reg d (patch_step n v reg d ?code)) ?f)"
    using Cons.IH [of ?f "jump_link ?code n" k'] one(1,3) k Cons.prems(3) by (simp split del: if_split)
  then show ?case
    unfolding k(1) l(1) using patch_nodes_node [OF l(2,3)] Cons.prems(3) [of n] one(2) by simp
qed

text \<open>C11. Patching a jump list lands it: when every target is within an offset, \<open>patchListAux\<close> returns, with the fuel
  of one turn per instruction, and has changed the code exactly as specified: each jump of the list goes to \<open>vtarget\<close>
  when a \<open>TESTSET\<close> guards it and to \<open>dtarget\<close> otherwise, and the guards store into the register, or become plain
  tests.\<close>

theorem patch_lands:
  assumes "jump_list (fs_code f) l ns"
    and "\<forall>n \<in> set ns. reachable_from n (if guarded (fs_code f) n then v else d)"
  shows "patchListAux l v reg d f = Done () (with_code (patched ns v reg d (fs_code f)) f) \<and>
    (\<forall>n \<in> set ns. SBx_of (patched ns v reg d (fs_code f) ! n) = offset n (if guarded (fs_code f) n then v else d))"
proof -
  have "SBx_of (patched ns v reg d (fs_code f) ! n) = offset n (if guarded (fs_code f) n then v else d)"
    if n: "n \<in> set ns" for n
  proof -
    let ?o = "offset n (if guarded (fs_code f) n then v else d)"
    have "- 131071 \<le> ?o" "?o \<le> 131072" using assms(2) n by (auto simp: reachable_from_def SBxBias_val)
    then have "SBx_of (SetSBx (fs_code f ! n) ?o) = ?o" using asbx_roundtrip by blast
    then show ?thesis using jump_list_nodes [OF assms(1) n] n by (simp add: nth_patched split del: if_split)
  qed
  then show ?thesis
    using patch_nodes_list [OF assms(1) jump_list_short [OF assms(1)]] assms(2) by (simp add: patchListAux_def)
qed

definition guarded_pair :: "int \<Rightarrow> int \<Rightarrow> instruction list" where
  "guarded_pair t1 t2 = [EncodeABC OP_TESTSET (if t1 = NoJump then NoRegister else 3) 1 0, EncodeAsBx OP_JMP 0 t1, EncodeAsBx OP_JMP 0 t2]"

theorem patch_lands_witness:
  "patchListAux 2 5 3 7 (with_code (guarded_pair NoJump (- 2)) (newFuncState ''=s'' 0)) =
     Done () (with_code (guarded_pair 3 4) (newFuncState ''=s'' 0))"
proof -
  let ?f = "with_code (guarded_pair NoJump (- 2)) (newFuncState ''=s'' 0)"
  have "jump_list (fs_code ?f) 2 [2, 1]" and "\<forall>n \<in> set [2, 1]. reachable_from n (if guarded (fs_code ?f) n then 5 else 7)"
    and "patched [2, 1] 5 3 7 (fs_code ?f) = guarded_pair 3 4"
    unfolding with_code by code_simp+
  with patch_lands [of ?f 2 "[2, 1]" 5 7 3] show ?thesis by simp
qed

section \<open>Appending\<close>

lemma list_end_node:
  "jump_list (fs_code f) l (ns @ [n]) \<Longrightarrow> length ns < k \<Longrightarrow> list_end k l f = Done (int n) f"
proof (induction ns arbitrary: l k)
  case Nil then show ?case by (cases k) (auto simp: getJump_node)
next
  case (Cons m ns)
  then obtain k' where "k = Suc k'" by (cases k) auto
  moreover have "jump_link (fs_code f) m \<noteq> NoJump" using Cons.prems by (cases ns) (auto simp: NoJump_def)
  ultimately show ?case using Cons by (simp add: getJump_node)
qed

lemma concat_node:
  assumes "jump_list (fs_code f) l (ns @ [n])" and "l2 \<noteq> NoJump"
  shows "concat_lists l l2 f = Done l (with_code ((fs_code f)[n := SetSBx (fs_code f ! n) (l2 - (int n + 1))]) f)"
proof -
  have n: "n < length (fs_code f)" using jump_list_nodes [OF assms(1), of n] by simp
  moreover have "l \<noteq> NoJump" using assms(1) by (cases ns) (auto simp: NoJump_def)
  moreover have "length ns < length (fs_code f)" using jump_list_short [OF assms(1)] by simp
  ultimately show ?thesis using assms by (simp add: concat_lists_def list_end_node modify_code_node)
qed

lemma jump_list_append:
  assumes "jump_list code l (ns @ [n])" and "jump_list code (int m) (m # ms)" and "set (ns @ [n]) \<inter> set (m # ms) = {}"
    and "- SBxBias \<le> int m - (int n + 1)" and "int m - (int n + 1) \<le> SBxBias"
  shows "jump_list (code[n := SetSBx (code ! n) (int m - (int n + 1))]) l (ns @ n # m # ms)"
proof -
  let ?code = "code[n := SetSBx (code ! n) (int m - (int n + 1))]"
  have n: "n < length code" "Op_of (code ! n) = OP_JMP" using jump_list_nodes [OF assms(1), of n] by auto
  have tail: "jump_list ?code (int m) (m # ms)"
  proof (rule jump_list_cong [OF assms(2)])
    fix k assume "k \<in> set (m # ms)"
    then have "k \<noteq> n" using assms(3) by auto
    then show "?code ! k = code ! k" by simp
  qed simp
  have "SBx_of (?code ! n) = int m - (int n + 1)"
    using n assms(4,5) asbx_roundtrip [of "int m - (int n + 1)"] by (simp add: SBxBias_val)
  then have "jump_link ?code n = int m" using assms(3) by (auto simp: jump_link_def NoJump_def)
  then have last: "jump_list ?code (int n) (n # m # ms)" using n tail by (simp add: set_fields)
  have "n \<notin> set ns" using jump_list_distinct [OF assms(1)] by simp
  with assms(1) show ?thesis
  proof (induction ns arbitrary: l)
    case (Cons k ns)
    then have "jump_list ?code (jump_link code k) (ns @ n # m # ms)" by simp
    moreover have "jump_link ?code k = jump_link code k" using Cons.prems by (simp add: jump_link_def)
    ultimately show ?case using Cons.prems by simp
  qed (use last in auto)
qed

lemma jump_list_elsewhere: "jump_list code l ns \<Longrightarrow> n \<notin> set ns \<Longrightarrow> jump_list (code[n := i]) l ns"
  by (erule jump_list_cong) (simp, metis nth_list_update_neq)

text \<open>C12. Appending joins two lists: the walk along the first one ends, whatever is linked around it; only the link of
  its last jump changes, and then the first list holds the jumps of both in order, every list that jump is not on is as
  it was, and patching the joined list returns and lands the jumps of both. The lists must be disjoint and the two jumps
  joined within an offset of each other: a list appended to itself, or to one of its own tails, would never end.\<close>

theorem concat_joins:
  assumes "jump_list (fs_code f) l (ns @ [n])" and "jump_list (fs_code f) (int m) (m # ms)"
    and "set (ns @ [n]) \<inter> set (m # ms) = {}" and "- SBxBias \<le> int m - (int n + 1)" and "int m - (int n + 1) \<le> SBxBias"
  shows "let code = (fs_code f)[n := SetSBx (fs_code f ! n) (int m - (int n + 1))]; f' = with_code code f in
    concat_lists l (int m) f = Done l f' \<and> jump_list code l (ns @ n # m # ms) \<and>
    (\<forall>l' ks. jump_list (fs_code f) l' ks \<and> n \<notin> set ks \<longrightarrow> jump_list code l' ks) \<and>
    (\<forall>v reg d. (\<forall>k \<in> set (ns @ n # m # ms). reachable_from k (if guarded code k then v else d)) \<longrightarrow>
       patchListAux l v reg d f' = Done () (with_code (patched (ns @ n # m # ms) v reg d code) f'))"
proof -
  let ?code = "(fs_code f)[n := SetSBx (fs_code f ! n) (int m - (int n + 1))]"
  note joined = jump_list_append [OF assms]
  have "patchListAux l v reg d (with_code ?code f) =
      Done () (with_code (patched (ns @ n # m # ms) v reg d ?code) (with_code ?code f))"
    if "\<forall>k \<in> set (ns @ n # m # ms). reachable_from k (if guarded ?code k then v else d)" for v reg d
    unfolding patchListAux_def with_code(1) [of ?code]
    by (subst patch_nodes_list [where ns = "ns @ n # m # ms"])
      (use joined jump_list_short [OF joined] that in \<open>simp_all only: with_code\<close>)
  then show ?thesis
    using concat_node [OF assms(1), of "int m"] joined jump_list_elsewhere by (simp add: Let_def NoJump_def)
qed

definition two_lists :: "instruction list" where
  "two_lists = [EncodeAsBx OP_JMP 0 NoJump, EncodeAsBx OP_JMP 0 (- 2), EncodeAsBx OP_JMP 0 NoJump]"

text \<open>The lists \<open>1, 0\<close> and \<open>2\<close> become \<open>1, 0, 2\<close>, and patching lands all three.\<close>

theorem concat_joins_witness:
  "\<exists>f'. concat_lists 1 2 (with_code two_lists (newFuncState ''=s'' 0)) = Done 1 f' \<and> jump_list (fs_code f') 1 [1, 0, 2] \<and>
     patchListAux 1 3 NoRegister 3 f' = Done () (with_code (patched [1, 0, 2] 3 NoRegister 3 (fs_code f')) f')"
proof -
  let ?f = "with_code two_lists (newFuncState ''=s'' 0)"
  have "jump_list (fs_code ?f) 1 ([1] @ [0])" "jump_list (fs_code ?f) (int 2) [2]"
    "\<forall>k \<in> set [1, 0, 2]. reachable_from k 3"
    unfolding with_code by code_simp+
  then show ?thesis using concat_joins [of ?f 1 "[1]" 0 2 "[]"] by (auto simp: SBxBias_val Let_def)
qed

lemma wrapped_link:
  assumes "n < length code" and "length code \<le> 262144" and "m + 131071 \<le> n"
  shows "SBx_of (SetSBx i (int m - (int n + 1))) = int m - (int n + 1) + 262144"
proof -
  have "(int m - int n + 131070) mod 262144 = int m - int n + 131070 + 262144"
    using assms by (subst mod_add_self2 [symmetric], subst mod_pos_pos_trivial) auto
  then have "uint (word_of_int (int m - (int n + 1) + SBxBias) AND mask 18 :: u32) = int m - int n + 131070 + 262144"
    by (subst uint_and_mask) (simp_all add: SBxBias_val algebra_simps)
  then show ?thesis by (simp only: SBx_of_def set_fields) (simp add: SBxBias_val)
qed

lemma patch_nodes_out:
  assumes "0 \<le> l" and "int (length (fs_code f)) \<le> l"
  shows "patch_nodes (Suc k) l v reg d f = Panic"
proof -
  have "getJump l f = Panic" using assms by (simp add: getJump_def code_at_def here_def)
  moreover have "l \<noteq> NoJump" using assms by (simp add: NoJump_def)
  ultimately show ?thesis by (subst patch_nodes.simps) simp
qed

text \<open>C39. Appending does not check the distance. A pending jump \<open>m\<close> more than 131071 instructions before the jump \<open>n\<close>
  it is appended to gets a link that wraps around, and patching the list then reads outside the code: the compiler
  panics with an index error where \<open>fixJump\<close> would have raised "control structure too long".\<close>

theorem concat_wraps:
  assumes "jump_list (fs_code f) (int n) [n]" and "jump_list (fs_code f) (int m) [m]" and "m + 131071 \<le> n"
    and "length (fs_code f) \<le> 262144" and "reachable_from n t"
  shows "\<exists>f'. concat_lists (int n) (int m) f = Done (int n) f' \<and> patchListAux (int n) t NoRegister t f' = Panic"
proof -
  let ?code = "(fs_code f)[n := SetSBx (fs_code f ! n) (int m - (int n + 1))]"
  let ?f = "with_code ?code f"
  have n: "n < length (fs_code f)" "Op_of (fs_code f ! n) = OP_JMP" using assms(1) by simp_all
  have run: "concat_lists (int n) (int m) f = Done (int n) ?f"
    using concat_node [of f "int n" "[]" n "int m"] assms(1) by (simp add: NoJump_def)
  have far: "jump_link (fs_code ?f) n = int m + 262144"
    using wrapped_link [OF n(1) assms(4,3)] n assms(3,4) by (simp add: jump_link_def NoJump_def)
  have n': "n < length (fs_code ?f)" "Op_of (fs_code ?f ! n) = OP_JMP" using n by (simp_all add: set_fields)
  have "2 \<le> length (fs_code ?f)" using n'(1) assms(3) by simp
  then obtain k where "length (fs_code ?f) = 2 + k" using le_Suc_ex by blast
  then have k: "length (fs_code ?f) = Suc (Suc k)" by simp
  have len: "length (patch_step n t NoRegister t (fs_code ?f)) = length (fs_code f)" by (simp add: patch_step_def Let_def)
  have off: "patch_nodes (Suc k) (int m + 262144) t NoRegister t (with_code (patch_step n t NoRegister t (fs_code ?f)) ?f) = Panic"
  proof (rule patch_nodes_out)
    have "int (length (fs_code f)) \<le> 262144" using assms(4) by linarith
    then show "int (length (fs_code (with_code (patch_step n t NoRegister t (fs_code ?f)) ?f))) \<le> int m + 262144"
      unfolding with_code(1) [of "patch_step n t NoRegister t (fs_code ?f)"] len by linarith
  qed linarith
  have "reachable_from n (if guarded (fs_code ?f) n then t else t)" using assms(5) by simp
  then have "patch_nodes (length (fs_code ?f)) (int n) t NoRegister t ?f = Panic"
    unfolding k by (subst patch_nodes_node [OF n']) (simp_all only: far off)
  then show ?thesis using run by (simp add: patchListAux_def)
qed

definition far_jumps :: funcState where
  "far_jumps = with_code (replicate 131072 (EncodeAsBx OP_JMP 0 NoJump)) (newFuncState ''=s'' 0)"

theorem concat_wraps_witness:
  "\<exists>f'. concat_lists 131071 0 far_jumps = Done 131071 f' \<and> patchListAux 131071 131072 NoRegister 131072 f' = Panic"
proof -
  have "jump_list (fs_code far_jumps) (int n) [n]" if "n < 131072" for n
  proof -
    have "Op_of (EncodeAsBx OP_JMP 0 NoJump) = OP_JMP" "SBx_of (EncodeAsBx OP_JMP 0 NoJump) = NoJump" by code_simp+
    with that show ?thesis by (simp add: far_jumps_def jump_link_def)
  qed
  from this [of 131071] this [of 0] show ?thesis
    using concat_wraps [of far_jumps 131071 0 131072]
    by (simp add: far_jumps_def reachable_from_def offset_def NoJump_def SBxBias_val)
qed

end
