(* ===== verification/CodegenInv.thy ===== *)
theory CodegenInv
  imports CodegenStmt
begin

text \<open>
  What the generator keeps of every function it works on: the tables of the proto run in step, the constant pool has
  no duplicate, the register and upvalue limits hold, and the nested functions are registered.
\<close>

section \<open>Invariants\<close>

text \<open>The constant at \<open>i\<close>, as the key it was added under.\<close>

definition const_key :: "proto \<Rightarrow> nat \<Rightarrow> constKey" where
  "const_key p i =
     (if 0 \<le> sint (pr_StringLitIdx p ! i) then StrKey (pr_StringLits p ! unat (pr_StringLitIdx p ! i))
      else numConstKey (AsNumber (pr_Consts p ! i)))"

definition const_keys :: "proto \<Rightarrow> constKey list" where
  "const_keys p = map (const_key p) [0..<length (pr_Consts p)]"

text \<open>One line and one empty cache slot per instruction, at most 249 registers and 60 upvalues; every constant is
  there once, a string through a valid index.\<close>

definition tables_ok :: "proto \<Rightarrow> bool" where
  "tables_ok p \<longleftrightarrow> length (pr_LineInfo p) = length (pr_Code p) \<and> pr_IC p = replicate (length (pr_Code p)) no_slot \<and>
     uint (pr_MaxStack p) < MaxStack \<and> length (pr_SubNUps p) = length (pr_Protos p)"

definition pool_ok :: "proto \<Rightarrow> bool" where
  "pool_ok p \<longleftrightarrow> length (pr_StringLitIdx p) = length (pr_Consts p) \<and> int (length (pr_Consts p)) \<le> MaxBx + 1 \<and>
     length (pr_StringLits p) \<le> length (pr_Consts p) \<and> distinct (const_keys p) \<and>
     (\<forall>i < length (pr_Consts p). 0 \<le> sint (pr_StringLitIdx p ! i) \<longrightarrow>
        unat (pr_StringLitIdx p ! i) < length (pr_StringLits p))"

text \<open>Each nested function is an earlier proto, and its number of upvalues is recorded.\<close>

definition subs_ok :: "proto list \<Rightarrow> proto \<Rightarrow> bool" where
  "subs_ok ps p \<longleftrightarrow> (\<forall>j < length (pr_Protos p). \<exists>k < length ps. pr_Protos p ! j = word_of_nat k \<and>
     pr_SubNUps p ! j = word_of_nat (length (pr_UpvalDescs (ps ! k))))"

definition proto_ok :: "proto list \<Rightarrow> proto \<Rightarrow> bool" where
  "proto_ok ps p \<longleftrightarrow> tables_ok p \<and> pool_ok p \<and> int (length (pr_UpvalDescs p)) \<le> MaxUpvalues \<and> subs_ok ps p"

text \<open>A finished proto: the last instruction returns, and there is room for a function and one argument.\<close>

definition ends_ok :: "proto \<Rightarrow> bool" where
  "ends_ok p \<longleftrightarrow> pr_Code p \<noteq> [] \<and> last (pr_Code p) = EncodeABC OP_RETURN 0 1 0"

definition proto_done :: "string \<Rightarrow> proto list \<Rightarrow> proto \<Rightarrow> bool" where
  "proto_done source ps p \<longleftrightarrow> proto_ok ps p \<and> ends_ok p \<and> 2 \<le> uint (pr_MaxStack p) \<and> pr_Source p = source"

text \<open>What a function was opened with.\<close>

definition head_of :: "proto \<Rightarrow> string \<times> u32 \<times> u32 \<times> u8 \<times> bool" where
  "head_of p = (pr_Source p, pr_LineDefined p, pr_LineEnd p, pr_NumParams p, pr_IsVararg p)"

definition fs_ok :: "proto list \<Rightarrow> string \<times> u32 \<times> u32 \<times> u8 \<times> bool \<Rightarrow> funcState \<Rightarrow> bool" where
  "fs_ok ps H f \<longleftrightarrow> proto_ok ps (fn_proto f) \<and> head_of (fn_proto f) = H \<and>
     map (\<lambda>u. (uv_Name u, uv_InStack u, uv_Idx u)) (pr_UpvalDescs (fn_proto f)) = fn_upvals f \<and>
     int (fn_nactvar f) \<le> MaxLocVars \<and>
     (\<forall>k i. fn_consts f k = Some i \<longleftrightarrow> 0 \<le> i \<and> nat i < length (pr_Consts (fn_proto f)) \<and>
        const_keys (fn_proto f) ! nat i = k)"

definition cg_ok :: "string \<times> (string \<times> u32 \<times> u32 \<times> u8 \<times> bool) list \<Rightarrow> cgen \<Rightarrow> bool" where
  "cg_ok Hs s \<longleftrightarrow> list_all2 (fs_ok (cg_protos s)) (snd Hs) (cg_chain s) \<and>
     (\<forall>i < length (cg_protos s). proto_done (fst Hs) (take i (cg_protos s)) (cg_protos s ! i))"

section \<open>Postconditions\<close>

text \<open>The fuel is not spent, and a result comes with a state that satisfies \<open>P\<close>.\<close>

definition ok :: "('s \<Rightarrow> bool) \<Rightarrow> ('a, 's) cresult \<Rightarrow> bool" where
  "ok P r = (case r of Done _ s \<Rightarrow> P s | NoFuel \<Rightarrow> False | _ \<Rightarrow> True)"

lemma ok_simps [simp]:
  "ok P (Done x s) = P s" "ok P Panic" "ok P Diverge" "\<not> ok P NoFuel" "ok P (Raise e)"
  by (simp_all add: ok_def)

lemma ok_if [simp]: "ok P (if b then r else r') \<longleftrightarrow> (b \<longrightarrow> ok P r) \<and> (\<not> b \<longrightarrow> ok P r')"
  by simp

lemma ok_ifI: "(b \<Longrightarrow> ok P r) \<Longrightarrow> (\<not> b \<Longrightarrow> ok P r') \<Longrightarrow> ok P (if b then r else r')"
  by simp

lemma ok_bind: "ok P r \<Longrightarrow> (\<And>x s. P s \<Longrightarrow> ok Q (g x s)) \<Longrightarrow> ok Q (bindC r g)"
  by (cases r) simp_all

lemma ok_raise [simp]: "ok P (cg_raise line msg f)" "ok P (raiseLimit line n what f)"
  by (simp_all add: cg_raise_def raiseLimit_def Let_def)

lemmas ok_bindF = ok_bind [where P = "fs_ok ps H" and Q = "fs_ok ps H"] for ps H

named_theorems keeps

section \<open>The fields a proto is judged by\<close>

lemma const_keys_upd [simp]:
  "const_keys (p\<lparr>pr_Code := c\<rparr>) = const_keys p" "const_keys (p\<lparr>pr_LineInfo := l\<rparr>) = const_keys p"
  "const_keys (p\<lparr>pr_IC := ic\<rparr>) = const_keys p" "const_keys (p\<lparr>pr_MaxStack := m\<rparr>) = const_keys p"
  "const_keys (p\<lparr>pr_NeedsArg := n\<rparr>) = const_keys p" "const_keys (p\<lparr>pr_UpvalDescs := us\<rparr>) = const_keys p"
  "const_keys (p\<lparr>pr_Protos := is\<rparr>) = const_keys p" "const_keys (p\<lparr>pr_SubNUps := ns\<rparr>) = const_keys p"
  "const_keys (p\<lparr>pr_LocVars := vs\<rparr>) = const_keys p" "const_keys (p\<lparr>pr_IntrinsicCallPCs := pcs\<rparr>) = const_keys p"
  "const_keys (p\<lparr>pr_Compilability := m\<rparr>) = const_keys p" "const_keys (p\<lparr>pr_CompReasons := cr\<rparr>) = const_keys p"
  by (simp_all add: const_keys_def const_key_def [abs_def])

lemma fs_ok_upd [simp]:
  "fs_ok ps H (f\<lparr>fn_jpc := j\<rparr>) = fs_ok ps H f" "fs_ok ps H (f\<lparr>fn_lastTarget := j\<rparr>) = fs_ok ps H f"
  "fs_ok ps H (f\<lparr>fn_freereg := j\<rparr>) = fs_ok ps H f" "fs_ok ps H (f\<lparr>fn_bl := bs\<rparr>) = fs_ok ps H f"
  "fs_ok ps H (f\<lparr>fn_locvars := ls\<rparr>) = fs_ok ps H f" "fs_ok ps H (f\<lparr>fn_actvar := as\<rparr>) = fs_ok ps H f"
  "fs_ok ps H (f\<lparr>fn_localFnAsts := fa\<rparr>) = fs_ok ps H f" "fs_ok ps H (f\<lparr>fn_localAliasAsts := la\<rparr>) = fs_ok ps H f"
  by (simp_all add: fs_ok_def)

text \<open>Changes of the code and of the fields without a contract.\<close>

lemma fs_ok_code [simp]: "length c = length (fs_code f) \<Longrightarrow>
    fs_ok ps H (upd_proto (\<lambda>p. p\<lparr>pr_Code := c\<rparr>) f) = fs_ok ps H f"
  by (simp add: fs_ok_def upd_proto_def proto_ok_def tables_ok_def pool_ok_def subs_ok_def head_of_def fs_code_def)

lemma fs_ok_misc [simp]:
  "fs_ok ps H (upd_proto (\<lambda>p. p\<lparr>pr_NeedsArg := n\<rparr>) f) = fs_ok ps H f"
  "fs_ok ps H (upd_proto (\<lambda>p. p\<lparr>pr_IntrinsicCallPCs := g p\<rparr>) f) = fs_ok ps H f"
  "fs_ok ps H (upd_proto (\<lambda>p. p\<lparr>pr_LineInfo := (pr_LineInfo p)[k := line]\<rparr>) f) = fs_ok ps H f"
  by (simp_all add: fs_ok_def upd_proto_def proto_ok_def tables_ok_def pool_ok_def subs_ok_def head_of_def)

lemma fs_ok_maxstack: "fs_ok ps H f \<Longrightarrow> 0 \<le> n \<Longrightarrow> n < MaxStack \<Longrightarrow>
    fs_ok ps H (upd_proto (\<lambda>p. p\<lparr>pr_MaxStack := word_of_int n\<rparr>) f)"
  by (simp add: fs_ok_def upd_proto_def proto_ok_def tables_ok_def pool_ok_def subs_ok_def head_of_def MaxStack_def
      uint_word_of_int)

section \<open>Jumps and emission\<close>

lemma code_at_ok [keeps]: "P f \<Longrightarrow> ok P (code_at pc f)"
  by (simp add: code_at_def)

lemma set_code_ok [keeps]: "fs_ok ps H f \<Longrightarrow> ok (fs_ok ps H) (set_code pc ins f)"
proof -
  have "upd_proto (\<lambda>p. p\<lparr>pr_Code := (pr_Code p)[nat pc := ins]\<rparr>) f =
      upd_proto (\<lambda>p. p\<lparr>pr_Code := (fs_code f)[nat pc := ins]\<rparr>) f" by (simp add: upd_proto_def fs_code_def)
  then show "fs_ok ps H f \<Longrightarrow> ok (fs_ok ps H) (set_code pc ins f)" by (simp add: set_code_def)
qed

lemma modify_code_ok [keeps]: "fs_ok ps H f \<Longrightarrow> ok (fs_ok ps H) (modify_code pc g f)"
  unfolding modify_code_def by (intro ok_bindF keeps)

lemma getJump_ok [keeps]: "P f \<Longrightarrow> ok P (getJump pc f)"
  unfolding getJump_def by (rule ok_bind [OF code_at_ok]) (simp_all add: Let_def)

lemma fixJump_ok [keeps]: "fs_ok ps H f \<Longrightarrow> ok (fs_ok ps H) (fixJump line pc dest f)"
  by (simp add: fixJump_def Let_def keeps)

lemma list_end_ok [keeps]: "P f \<Longrightarrow> ok P (list_end n cur f)"
  by (induction n cur f rule: list_end.induct) (auto intro!: ok_bind [where P = P] getJump_ok)

lemma concat_lists_ok [keeps]: "fs_ok ps H f \<Longrightarrow> ok (fs_ok ps H) (concat_lists l1 l2 f)"
  unfolding concat_lists_def by (auto intro!: ok_bindF keeps)

lemma patchTestReg_ok [keeps]: "fs_ok ps H f \<Longrightarrow> ok (fs_ok ps H) (patchTestReg node reg f)"
  unfolding patchTestReg_def by (auto intro!: ok_bindF keeps simp: Let_def)

lemma patch_nodes_ok [keeps]: "fs_ok ps H f \<Longrightarrow> ok (fs_ok ps H) (patch_nodes n lst v reg d f)"
proof (induction n arbitrary: lst f)
  case 0 then show ?case by (subst patch_nodes.simps) simp
next
  case (Suc n) then show ?case by (subst patch_nodes.simps) (auto intro!: ok_bindF keeps)
qed

lemma patchListAux_ok [keeps]: "fs_ok ps H f \<Longrightarrow> ok (fs_ok ps H) (patchListAux lst v reg d f)"
  by (simp add: patchListAux_def keeps)

lemma dischargeJpc_ok [keeps]: "fs_ok ps H f \<Longrightarrow> ok (fs_ok ps H) (dischargeJpc f)"
  by (simp add: dischargeJpc_def keeps)

lemma patchToHere_ok [keeps]: "fs_ok ps H f \<Longrightarrow> ok (fs_ok ps H) (patchToHere lst f)"
  unfolding patchToHere_def Let_def by (auto intro!: ok_bindF keeps)

lemma patchList_ok [keeps]: "fs_ok ps H f \<Longrightarrow> ok (fs_ok ps H) (patchList lst target f)"
  by (simp add: patchList_def keeps)

lemma getLabel_ok [keeps]: "fs_ok ps H f \<Longrightarrow> ok (fs_ok ps H) (getLabel f)"
  unfolding getLabel_def by (auto intro!: ok_bindF keeps)

lemma emit_ok [keeps]: "fs_ok ps H f \<Longrightarrow> ok (fs_ok ps H) (emit line ins f)"
  unfolding emit_def
  by (rule ok_bind [OF dischargeJpc_ok])
    (simp_all add: replicate_append_same [symmetric] fs_ok_def upd_proto_def proto_ok_def tables_ok_def pool_ok_def subs_ok_def head_of_def)

lemma emitABC_ok [keeps]: "fs_ok ps H f \<Longrightarrow> ok (fs_ok ps H) (emitABC line op a b c f)"
  and emitABx_ok [keeps]: "fs_ok ps H f \<Longrightarrow> ok (fs_ok ps H) (emitABx line op a bx f)"
  and emitAsBx_ok [keeps]: "fs_ok ps H f \<Longrightarrow> ok (fs_ok ps H) (emitAsBx line op a sbx f)"
  by (simp_all add: emitABC_def emitABx_def emitAsBx_def keeps)

lemma jump_ok [keeps]: "fs_ok ps H f \<Longrightarrow> ok (fs_ok ps H) (jump line f)"
  unfolding jump_def Let_def by (auto intro!: ok_bindF keeps)

section \<open>Registers, constants and variables\<close>

lemma reserveRegs_ok [keeps]: "fs_ok ps H f \<Longrightarrow> ok (fs_ok ps H) (reserveRegs line n f)"
proof -
  assume f: "fs_ok ps H f"
  have "ok (\<lambda>g. fs_ok ps H g \<and> fn_freereg g + n < MaxStack) (checkStack line n f)" using f by (simp add: checkStack_def)
  then show ?thesis unfolding reserveRegs_def Let_def
    by (rule ok_bind) (auto intro!: fs_ok_maxstack simp: order_trans [OF uint_ge_0 less_imp_le] simp del: of_int_add)
qed

lemma freeReg_ok [simp]: "fs_ok ps H (freeReg r f) = fs_ok ps H f"
  by (simp add: freeReg_def)

lemma const_keys_snoc:
  assumes "length (pr_StringLitIdx p) = length (pr_Consts p)"
    and "\<forall>i < length (pr_Consts p). 0 \<le> sint (pr_StringLitIdx p ! i) \<longrightarrow> unat (pr_StringLitIdx p ! i) < length (pr_StringLits p)"
  shows "const_keys (p\<lparr>pr_Consts := pr_Consts p @ [v], pr_StringLits := pr_StringLits p @ ls, pr_StringLitIdx := pr_StringLitIdx p @ [ix]\<rparr>)
    = const_keys p @ [if 0 \<le> sint ix then StrKey ((pr_StringLits p @ ls) ! unat ix) else numConstKey (AsNumber v)]"
  using assms by (simp add: const_keys_def const_key_def nth_append)

lemma MaxBx_val: "MaxBx = 262143"
  by (simp add: MaxBx_def BxMask_def BxBits_def)

lemma sint_small: "n < 2 ^ 31 \<Longrightarrow> sint (word_of_nat n :: u32) = int n"
  by (simp add: signed_of_nat signed_take_bit_int_eq_self)

lemma numConstKey_value [simp]: "numConstKey (AsNumber (NumberValue x)) = numConstKey x"
  by (auto simp: AsNumber_def NumberValue_def numConstKey_def not_f64_eq_self f64_is_nan_def f64_is_zero_def canonNaN_def
      f64_expo_def f64_frac_def)


lemma const_keys_nth: "i < length (pr_Consts p) \<Longrightarrow> const_keys p ! i = const_key p i"
  by (simp add: const_keys_def)

lemma same_lits: "p\<lparr>pr_Consts := c, pr_StringLits := pr_StringLits p, pr_StringLitIdx := x\<rparr> = p\<lparr>pr_Consts := c, pr_StringLitIdx := x\<rparr>"
  by (cases p) simp

lemma addConst_ok:
  assumes f: "fs_ok ps H f" and v: "\<And>b. key = NumKey b \<Longrightarrow> numConstKey (AsNumber v) = key"
    and lit: "\<And>str. key = StrKey str \<Longrightarrow> lit = str"
  shows "ok (fs_ok ps H) (addConst line key v lit f)"
proof (cases "fn_consts f key = None \<and> int (length (pr_Consts (fn_proto f))) \<le> MaxBx")
  case False
  then show ?thesis using f by (auto simp: addConst_def Let_def split: option.splits)
next
  case True
  let ?p = "fn_proto f"
  from f have p: "length (pr_StringLitIdx ?p) = length (pr_Consts ?p)"
    "\<forall>i < length (pr_Consts ?p). 0 \<le> sint (pr_StringLitIdx ?p ! i) \<longrightarrow> unat (pr_StringLitIdx ?p ! i) < length (pr_StringLits ?p)"
    by (simp_all add: fs_ok_def proto_ok_def pool_ok_def)
  obtain ls and ix :: u32 where ls: "(case key of StrKey _ \<Rightarrow> ls = [lit] \<and> ix = word_of_nat (length (pr_StringLits ?p))
      | NumKey _ \<Rightarrow> ls = [] \<and> ix = - 1)" by (cases key) auto
  let ?q = "?p\<lparr>pr_Consts := pr_Consts ?p @ [v], pr_StringLits := pr_StringLits ?p @ ls, pr_StringLitIdx := pr_StringLitIdx ?p @ [ix]\<rparr>"
  have run: "addConst line key v lit f = Done (int (length (pr_Consts ?p)))
      (f\<lparr>fn_proto := ?q, fn_consts := (fn_consts f)(key \<mapsto> int (length (pr_Consts ?p)))\<rparr>)"
    using True ls by (cases key) (simp_all add: addConst_def upd_proto_def Let_def same_lits)
  have small: "length (pr_StringLits ?p) < 2 ^ 31" "length (pr_Consts ?p) < 2 ^ 31"
    using f True by (simp_all add: fs_ok_def proto_ok_def pool_ok_def MaxBx_val)
  have lit_ix: "unat (word_of_nat (length (pr_StringLits ?p)) :: u32) = length (pr_StringLits ?p)"
    using small by (simp add: unsigned_of_nat take_bit_nat_eq_self)
  have ix: "0 \<le> sint ix \<longleftrightarrow> key \<in> range StrKey"
    using ls small by (cases key) (auto simp: sint_small)
  have key: "const_keys ?q = const_keys ?p @ [key]"
    using ls small v lit ix unfolding const_keys_snoc [OF p]
    by (cases key) (simp_all add: lit_ix)
  have new: "key \<notin> set (const_keys ?p)"
    using f True unfolding fs_ok_def
    by (metis (no_types, lifting) in_set_conv_nth const_keys_def length_map length_upt minus_nat.diff_0 nat_int of_nat_0_le_iff option.distinct(1))
  have "fs_ok ps H (f\<lparr>fn_proto := ?q, fn_consts := (fn_consts f)(key \<mapsto> int (length (pr_Consts ?p)))\<rparr>)"
    unfolding fs_ok_def
  proof (intro conjI)
    show "proto_ok ps (fn_proto (f\<lparr>fn_proto := ?q, fn_consts := (fn_consts f)(key \<mapsto> int (length (pr_Consts ?p)))\<rparr>))"
      using f True ls small new p key ix
      by (cases key) (auto simp: fs_ok_def proto_ok_def tables_ok_def pool_ok_def subs_ok_def nth_append less_Suc_eq lit_ix MaxBx_val)
  next
    show "\<forall>k i. (fn_consts (f\<lparr>fn_proto := ?q, fn_consts := (fn_consts f)(key \<mapsto> int (length (pr_Consts ?p)))\<rparr>) k = Some i) =
      (0 \<le> i \<and> nat i < length (pr_Consts (fn_proto (f\<lparr>fn_proto := ?q, fn_consts := (fn_consts f)(key \<mapsto> int (length (pr_Consts ?p)))\<rparr>))) \<and>
       const_keys (fn_proto (f\<lparr>fn_proto := ?q, fn_consts := (fn_consts f)(key \<mapsto> int (length (pr_Consts ?p)))\<rparr>)) ! nat i = k)"
    proof (intro allI)
      fix k i
      have len: "length (const_keys ?p) = length (pr_Consts ?p)" by (simp add: const_keys_def)
      show "(fn_consts (f\<lparr>fn_proto := ?q, fn_consts := (fn_consts f)(key \<mapsto> int (length (pr_Consts ?p)))\<rparr>) k = Some i) =
        (0 \<le> i \<and> nat i < length (pr_Consts (fn_proto (f\<lparr>fn_proto := ?q, fn_consts := (fn_consts f)(key \<mapsto> int (length (pr_Consts ?p)))\<rparr>))) \<and>
         const_keys (fn_proto (f\<lparr>fn_proto := ?q, fn_consts := (fn_consts f)(key \<mapsto> int (length (pr_Consts ?p)))\<rparr>)) ! nat i = k)"
        using f new len by (cases "k = key"; cases "nat i < length (pr_Consts ?p)")
          (auto simp: key fs_ok_def nth_append in_set_conv_nth)
    qed
  qed (use f in \<open>simp_all add: fs_ok_def head_of_def\<close>)
  then show ?thesis unfolding run by simp
qed

lemma numConstKey_not_str [simp]: "numConstKey x \<noteq> StrKey str"
  by (simp add: numConstKey_def)

lemma numK_ok [keeps]: "fs_ok ps H f \<Longrightarrow> ok (fs_ok ps H) (numK line x f)"
  unfolding numK_def by (rule addConst_ok) simp_all

lemma strK_ok [keeps]: "fs_ok ps H f \<Longrightarrow> ok (fs_ok ps H) (strK line str f)"
  unfolding strK_def by (rule addConst_ok) simp_all

lemma findLocal_ok [keeps]: "P f \<Longrightarrow> ok P (findLocal name f)"
  by (simp add: findLocal_def split: option.split)

lemma upvals_length: "fs_ok ps H f \<Longrightarrow> length (fn_upvals f) = length (pr_UpvalDescs (fn_proto f))"
  unfolding fs_ok_def by (elim conjE) (drule sym [of _ "fn_upvals f"], simp)

lemma addUpval_ok [keeps]: "fs_ok ps H f \<Longrightarrow> ok (fs_ok ps H) (addUpval line name ins ix f)"
proof (cases "MaxUpvalues \<le> int (length (fn_upvals f))")
  case True then show ?thesis by (simp add: addUpval_def)
next
  case False
  moreover assume "fs_ok ps H f"
  moreover from this False have "int (length (pr_UpvalDescs (fn_proto f))) + 1 \<le> MaxUpvalues" by (simp add: upvals_length)
  ultimately show ?thesis
    by (simp add: addUpval_def fs_ok_def upd_proto_def proto_ok_def tables_ok_def pool_ok_def subs_ok_def head_of_def)
qed

lemma registerLocal_ok [keeps]: "fs_ok ps H f \<Longrightarrow> ok (fs_ok ps H) (registerLocal line name f)"
  by (simp add: registerLocal_def Let_def) (simp add: fs_ok_def)

lemma close_vars_ok: "fs_ok ps H f \<Longrightarrow> ok (fs_ok ps H) (close_vars n f)"
proof (induction n arbitrary: f)
  case (Suc n)
  have "fs_ok ps H (f\<lparr>fn_nactvar := fn_nactvar f - 1\<rparr>)" using Suc.prems by (auto simp: fs_ok_def)
  then show ?case by (simp add: Let_def) (intro impI Suc.IH, simp)
qed simp

lemma removeVars_ok [keeps]: "fs_ok ps H f \<Longrightarrow> ok (fs_ok ps H) (removeVars level f)"
  by (simp add: removeVars_def close_vars_ok)

lemma enterBlock_ok [keeps]: "fs_ok ps H f \<Longrightarrow> ok (fs_ok ps H) (enterBlock isLoop f)"
  by (simp add: enterBlock_def Let_def)

lemma leaveBlock_ok [keeps]: "fs_ok ps H f \<Longrightarrow> ok (fs_ok ps H) (leaveBlock line f)"
  by (auto simp: leaveBlock_def Let_def split: list.split intro!: ok_bindF keeps)

section \<open>Deferred expressions\<close>

lemma free_ok [simp]: "fs_ok ps H (freeExp e f) = fs_ok ps H f" "fs_ok ps H (free_if_reg rk f) = fs_ok ps H f"
  by (simp_all add: freeExp_def free_if_reg_def)

lemma setOneRet_ok [keeps]: "fs_ok ps H f \<Longrightarrow> ok (fs_ok ps H) (setOneRet e f)"
  by (auto simp: setOneRet_def intro!: ok_bindF keeps)

lemma dischargeVars_ok [keeps]: "fs_ok ps H f \<Longrightarrow> ok (fs_ok ps H) (dischargeVars line e f)"
  by (auto simp: dischargeVars_def intro!: ok_bindF keeps)

lemma setReturns_ok [keeps]: "fs_ok ps H f \<Longrightarrow> ok (fs_ok ps H) (setReturns e n f)"
  by (auto simp: setReturns_def Let_def intro!: keeps)

lemma openMultiRet_ok [keeps]: "fs_ok ps H f \<Longrightarrow> ok (fs_ok ps H) (openMultiRet e n f)"
  by (auto simp: openMultiRet_def intro!: ok_bindF keeps)

lemma dischargeToReg_ok [keeps]: "fs_ok ps H f \<Longrightarrow> ok (fs_ok ps H) (dischargeToReg line e reg f)"
  by (auto simp: dischargeToReg_def intro!: ok_bindF keeps split: expKind.split)

lemma dischargeToAnyReg_ok [keeps]: "fs_ok ps H f \<Longrightarrow> ok (fs_ok ps H) (dischargeToAnyReg line e f)"
  by (auto simp: dischargeToAnyReg_def intro!: ok_bindF keeps)

lemma need_value_ok: "fs_ok ps H f \<Longrightarrow> ok (fs_ok ps H) (need_value n lst f)"
proof (induction n arbitrary: lst f)
  case 0 then show ?case by (subst need_value.simps) simp
next
  case (Suc n) then show ?case by (subst need_value.simps) (auto intro!: ok_bindF keeps)
qed

lemma needValue_ok [keeps]: "fs_ok ps H f \<Longrightarrow> ok (fs_ok ps H) (needValue lst f)"
  by (simp add: needValue_def need_value_ok)

lemma value_pads_ok [keeps]: "fs_ok ps H f \<Longrightarrow> ok (fs_ok ps H) (value_pads line e reg f)"
  by (auto simp: value_pads_def codeLoadBool_def intro!: ok_bindF keeps)

lemma exp2reg_ok [keeps]: "fs_ok ps H f \<Longrightarrow> ok (fs_ok ps H) (exp2reg line e reg f)"
  by (auto simp: exp2reg_def Let_def intro!: ok_bindF keeps split: prod.split)

lemma exp2NextReg_ok [keeps]: "fs_ok ps H f \<Longrightarrow> ok (fs_ok ps H) (exp2NextReg line e f)"
  by (auto simp: exp2NextReg_def intro!: ok_bindF keeps)

lemma exp2AnyReg_ok [keeps]: "fs_ok ps H f \<Longrightarrow> ok (fs_ok ps H) (exp2AnyReg line e f)"
  by (auto simp: exp2AnyReg_def intro!: ok_bindF keeps)

lemma exp2Val_ok [keeps]: "fs_ok ps H f \<Longrightarrow> ok (fs_ok ps H) (exp2Val line e f)"
  by (auto simp: exp2Val_def intro!: keeps)

lemma exp2RK_ok [keeps]: "fs_ok ps H f \<Longrightarrow> ok (fs_ok ps H) (exp2RK line e f)"
  by (auto simp: exp2RK_def intro!: ok_bindF keeps)

lemma condJump_ok [keeps]: "fs_ok ps H f \<Longrightarrow> ok (fs_ok ps H) (condJump line op a b c f)"
  by (auto simp: condJump_def intro!: ok_bindF keeps)

lemma invertJmp_ok [keeps]: "fs_ok ps H f \<Longrightarrow> ok (fs_ok ps H) (invertJmp e f)"
  by (simp add: invertJmp_def keeps)

lemma cut_code_ok [simp]: "fs_ok ps H f \<Longrightarrow> fs_ok ps H (cut_code pc f)"
  by (simp add: cut_code_def fs_ok_def upd_proto_def proto_ok_def tables_ok_def pool_ok_def subs_ok_def head_of_def min_def)

lemma jumpOnCond_ok [keeps]: "fs_ok ps H f \<Longrightarrow> ok (fs_ok ps H) (jumpOnCond line e cond f)"
  by (auto simp: jumpOnCond_def intro!: ok_bindF keeps split: option.split)

lemma goIf_ok [keeps]:
  "fs_ok ps H f \<Longrightarrow> ok (fs_ok ps H) (goIfTrue line e f)" "fs_ok ps H f \<Longrightarrow> ok (fs_ok ps H) (goIfFalse line e f)"
  by (auto simp: goIfTrue_def goIfFalse_def intro!: ok_bindF keeps)

lemma stmtBreak_ok [keeps]: "fs_ok ps H f \<Longrightarrow> ok (fs_ok ps H) (stmtBreak line f)"
  by (auto simp: stmtBreak_def set_break_list_def intro!: ok_bindF keeps split: option.split prod.split)

lemma emit_captures_ok [keeps]: "fs_ok ps H f \<Longrightarrow> ok (fs_ok ps H) (emit_captures line us f)"
  by (induction line us f rule: emit_captures.induct) (auto intro!: ok_bindF keeps)

lemma emitSetList_ok [keeps]: "fs_ok ps H f \<Longrightarrow> ok (fs_ok ps H) (emitSetList line tReg b batchNo f)"
  by (auto simp: emitSetList_def intro!: ok_bindF keeps)

lemma expr_vararg_ok [keeps]: "fs_ok ps H f \<Longrightarrow> ok (fs_ok ps H) (expr_vararg line l f)"
  by (auto simp: expr_vararg_def intro!: ok_bindF keeps)

lemma fix_line_ok [keeps]: "fs_ok ps H f \<Longrightarrow> ok (fs_ok ps H) (fix_line first line f)"
  by (simp add: fix_line_def Let_def)

lemma return_ok [keeps]:
  "fs_ok ps H f \<Longrightarrow> ok (fs_ok ps H) (return_tail_call line e f)"
  "fs_ok ps H f \<Longrightarrow> ok (fs_ok ps H) (return_single line e f)"
  by (auto simp: return_tail_call_def return_single_def intro!: ok_bindF keeps)

end
