(* ===== verification/CodegenKeep.thy ===== *)
theory CodegenKeep
  imports CodegenInv
begin

text \<open>
  Every step of the generator keeps the invariant of all open functions, for any generators of the subtrees that
  keep it: the contract \<open>generators\<close>, interpreted on the generator itself at every fuel.
\<close>

section \<open>Steps on the innermost function\<close>

lemmas ok_bindC = ok_bind [where P = "cg_ok Hs" and Q = "cg_ok Hs"] for Hs

lemma on_fs_ok:
  assumes "cg_ok Hs s" and "\<And>ps H f. fs_ok ps H f \<Longrightarrow> ok (fs_ok ps H) (m f)"
  shows "ok (cg_ok Hs) (on_fs m s)"
proof (cases "cg_chain s")
  case (Cons f fs)
  with assms(1) obtain H Hs' where H: "snd Hs = H # Hs'" "fs_ok (cg_protos s) H f" "list_all2 (fs_ok (cg_protos s)) Hs' fs"
    by (auto simp: cg_ok_def list_all2_Cons2)
  show ?thesis
    unfolding on_fs_def Cons list.case
    by (rule ok_bind [OF assms(2) [OF H(2)]]) (use assms(1) H in \<open>simp add: cg_ok_def\<close>)
qed (simp add: on_fs_def)

lemma get_fs_ok: "cg_ok Hs s \<Longrightarrow> ok (cg_ok Hs) (get_fs g s)"
  unfolding get_fs_def by (rule on_fs_ok) simp_all

lemma upd_fs_ok:
  assumes "cg_ok Hs s" and "\<And>ps H f. fs_ok ps H f \<Longrightarrow> fs_ok ps H (g f)"
  shows "ok (cg_ok Hs) (upd_fs g s)"
  unfolding upd_fs_def using assms by (intro on_fs_ok) simp_all

lemma set_freereg_ok: "cg_ok Hs s \<Longrightarrow> ok (cg_ok Hs) (set_freereg r s)"
  unfolding set_freereg_def by (rule upd_fs_ok) simp_all

lemmas cg_steps = ok_bindC on_fs_ok get_fs_ok upd_fs_ok set_freereg_ok

lemma mark_ok [simp]: "fs_ok ps H (markUpvalCapture reg f) = fs_ok ps H f"
  by (simp add: markUpvalCapture_def)

lemma chain_head_ok:
  "fs_ok ps H f \<Longrightarrow> list_all2 (fs_ok ps) Hs out \<Longrightarrow> ok (fs_ok ps H) r \<Longrightarrow>
   ok (list_all2 (fs_ok ps) (H # Hs)) (bindC r (\<lambda>x f. Done (e x) (f # out)))"
  by (rule ok_bind [where P = "fs_ok ps H"]) simp_all

lemma resolve_chain_ok:
  "list_all2 (fs_ok ps) Hs ch \<Longrightarrow> ok (list_all2 (fs_ok ps) Hs) (resolve_chain line name ch)"
proof (induction ch arbitrary: Hs)
  case Nil then show ?case by simp
next
  case (Cons f outer)
  then obtain H Hs' where H: "Hs = H # Hs'" "fs_ok ps H f" "list_all2 (fs_ok ps) Hs' outer"
    by (auto simp: list_all2_Cons2)
  have outer: "ok (list_all2 (fs_ok ps) Hs') (if outer = [] then Done None []
      else bindC (resolve_chain line name outer) (\<lambda>ex. Done (Some ex)))"
    using H(3) Cons.IH [OF H(3)] by (auto intro: ok_bind)
  show ?case
    unfolding resolve_chain.simps
  proof (rule ok_bind [OF findLocal_ok [where P = "fs_ok ps H", OF H(2)]], goal_cases)
    case (1 r g)
    show ?case
      by (intro ok_ifI; (rule ok_bind [OF outer])?)
        (use 1 H in \<open>auto intro!: chain_head_ok keeps split: option.split list.split simp: list_all2_Cons2\<close>)
  qed
qed

lemma resolve_name_ok [keeps]: "cg_ok Hs s \<Longrightarrow> ok (cg_ok Hs) (resolve_name line name s)"
  unfolding resolve_name_def
  by (rule ok_bind [OF resolve_chain_ok]) (auto simp: cg_ok_def)

lemma table_flush_ok [keeps]: "cg_ok Hs s \<Longrightarrow> ok (cg_ok Hs) (table_flush line tReg b batchNo s)"
  unfolding table_flush_def by (auto intro!: cg_steps keeps)

lemma next_reg_ok [keeps]: "cg_ok Hs s \<Longrightarrow> ok (cg_ok Hs) (next_reg line e s)"
  and to_reg_ok [keeps]: "cg_ok Hs s \<Longrightarrow> ok (cg_ok Hs) (to_reg line e reg s)"
  and emit_ABC_ok [keeps]: "cg_ok Hs s \<Longrightarrow> ok (cg_ok Hs) (emit_ABC line op a b c s)"
  and emit_ABx_ok [keeps]: "cg_ok Hs s \<Longrightarrow> ok (cg_ok Hs) (emit_ABx line op a bx s)"
  and register_local_ok [keeps]: "cg_ok Hs s \<Longrightarrow> ok (cg_ok Hs) (register_local line name s)"
  and sub_freereg_ok [keeps]: "cg_ok Hs s \<Longrightarrow> ok (cg_ok Hs) (sub_freereg k s)"
  and reset_freereg_ok [keeps]: "cg_ok Hs s \<Longrightarrow> ok (cg_ok Hs) (reset_freereg s)"
  unfolding next_reg_def to_reg_def emit_ABC_def emit_ABx_def register_local_def sub_freereg_def reset_freereg_def
  by (auto intro!: cg_steps keeps)

lemma load_nils_ok [keeps]: "cg_ok Hs s \<Longrightarrow> ok (cg_ok Hs) (load_nils line k s)"
  unfolding load_nils_def by (auto intro!: cg_steps keeps)

lemma declare_locals_ok [keeps]: "cg_ok Hs s \<Longrightarrow> ok (cg_ok Hs) (declare_locals line names es s)"
  by (induction line names es s rule: declare_locals.induct) (auto intro!: cg_steps keeps simp: note_alias_def)

lemma register_locals_ok [keeps]: "cg_ok Hs s \<Longrightarrow> ok (cg_ok Hs) (register_locals line b names s)"
  by (induction line b names s rule: register_locals.induct) (auto intro!: cg_steps keeps)

lemma emit_store_ok [keeps]: "cg_ok Hs s \<Longrightarrow> ok (cg_ok Hs) (emit_store line src t s)"
  by (cases t) (auto intro!: cg_steps keeps)

lemma emit_stores_ok [keeps]: "cg_ok Hs s \<Longrightarrow> ok (cg_ok Hs) (emit_stores line src ts s)"
  by (induction line src ts s rule: emit_stores.induct) (auto intro!: cg_steps keeps)

lemma local_target_ok [keeps]: "cg_ok Hs s \<Longrightarrow> ok (cg_ok Hs) (local_target line reg tgts s)"
  unfolding local_target_def by (auto intro!: cg_steps keeps)

lemma register_sub_ok:
  assumes "fs_ok ps H f" and "ps \<noteq> []"
  shows "fs_ok ps H (register_sub (word_of_int (int (length ps) - 1)) (last ps) f)"
proof -
  have "word_of_int (int (length ps) - 1) = (word_of_nat (length ps - 1) :: u32)"
    using assms(2) by (metis Suc_leI length_greater_0_conv of_int_of_nat_eq of_nat_1 of_nat_diff One_nat_def)
  moreover have "ps ! (length ps - 1) = last ps" using assms(2) by (simp add: last_conv_nth)
  moreover have "length ps - 1 < length ps" using assms(2) by simp
  ultimately show ?thesis using assms(1)
    by (auto simp: register_sub_def fs_ok_def upd_proto_def proto_ok_def tables_ok_def pool_ok_def subs_ok_def head_of_def
        nth_append less_Suc_eq)
qed

section \<open>The contract of the generators of the subtrees\<close>

text \<open>Within the fuel they return, keep the invariant, and a function literal ends up last in the registry.\<close>

locale generators =
  fixes ge :: gen_expr and gf :: gen_func and gb :: gen_block and src :: string and n :: nat
  assumes ge: "size e < n \<Longrightarrow> cg_ok (src, Hs) s \<Longrightarrow> ok (cg_ok (src, Hs)) (ge e s)"
    and gf: "size fe < n \<Longrightarrow> cg_ok (src, Hs) s \<Longrightarrow> ok (cg_ok (src, Hs)) (gf fe s)"
    and gf_last: "gf fe s = Done p s' \<Longrightarrow> cg_protos s' \<noteq> [] \<and> last (cg_protos s') = p"
    and gb: "size b < n \<Longrightarrow> cg_ok (src, Hs) s \<Longrightarrow> ok (cg_ok (src, Hs)) (gb b s)"
begin

lemma push_exprs_ok: "\<forall>x \<in> set xs. size x < n \<Longrightarrow> cg_ok (src, Hs) s \<Longrightarrow> ok (cg_ok (src, Hs)) (push_exprs ge line_at i xs s)"
  by (induction xs arbitrary: i s) (auto intro!: cg_steps keeps ge)

lemma compileArgList_ok:
  "\<forall>x \<in> set args. size x < n \<Longrightarrow> cg_ok (src, Hs) s \<Longrightarrow> ok (cg_ok (src, Hs)) (compileArgList ge args line ends s)"
  unfolding compileArgList_def Let_def by (auto intro!: cg_steps keeps ge push_exprs_ok dest: in_set_butlastD)

lemma indexKeyRK_ok: "size key < n \<Longrightarrow> cg_ok (src, Hs) s \<Longrightarrow> ok (cg_ok (src, Hs)) (indexKeyRK ge keyEnd close key s)"
  unfolding indexKeyRK_def by (auto intro!: cg_steps keeps ge)

lemma index_operands_ok:
  "size ob < n \<Longrightarrow> size key < n \<Longrightarrow> cg_ok (src, Hs) s \<Longrightarrow> ok (cg_ok (src, Hs)) (index_operands ge objEnd keyEnd close ob key s)"
  unfolding index_operands_def by (auto intro!: cg_steps keeps ge indexKeyRK_ok)

lemma exprIndex_ok:
  "size ob < n \<Longrightarrow> size key < n \<Longrightarrow> cg_ok (src, Hs) s \<Longrightarrow> ok (cg_ok (src, Hs)) (exprIndex ge objEnd keyEnd close ob key s)"
  unfolding exprIndex_def by (auto intro!: ok_bindC index_operands_ok)

lemma exprCall_ok:
  "size fn < n \<Longrightarrow> \<forall>x \<in> set args. size x < n \<Longrightarrow> cg_ok (src, Hs) s \<Longrightarrow>
   ok (cg_ok (src, Hs)) (exprCall ge line argsLine fnEnd ends fn args s)"
  unfolding exprCall_def by (auto intro!: cg_steps keeps ge compileArgList_ok simp: note_intrinsic_def)

lemma exprMethodCall_ok:
  "size recv < n \<Longrightarrow> \<forall>x \<in> set args. size x < n \<Longrightarrow> cg_ok (src, Hs) s \<Longrightarrow>
   ok (cg_ok (src, Hs)) (exprMethodCall ge line argsLine ends recv name args s)"
  unfolding exprMethodCall_def by (auto intro!: cg_steps keeps ge compileArgList_ok)

lemma expr_logic_ok:
  "size l < n \<Longrightarrow> size r < n \<Longrightarrow> cg_ok (src, Hs) s \<Longrightarrow> ok (cg_ok (src, Hs)) (expr_logic ge line endl b l r s)"
  unfolding expr_logic_def by (auto intro!: cg_steps keeps ge)

lemma expr_arith_ok:
  "size l < n \<Longrightarrow> size r < n \<Longrightarrow> cg_ok (src, Hs) s \<Longrightarrow> ok (cg_ok (src, Hs)) (expr_arith pow ge line endl oper l r s)"
  unfolding expr_arith_def Let_def free_pair_def by (auto intro!: cg_steps keeps ge split: option.split)

lemma exprCompare_ok:
  "size l < n \<Longrightarrow> size r < n \<Longrightarrow> cg_ok (src, Hs) s \<Longrightarrow> ok (cg_ok (src, Hs)) (exprCompare ge line endl oper l r s)"
  unfolding exprCompare_def Let_def by (auto intro!: cg_steps keeps ge split: prod.split)

lemma concat_parts_size: "(x, l) \<in> set (concat_parts endl e) \<Longrightarrow> size x \<le> size e"
  by (induction endl e rule: concat_parts.induct) (auto split: if_splits)

lemma exprConcat_ok:
  "size l < n \<Longrightarrow> size r < n \<Longrightarrow> cg_ok (src, Hs) s \<Longrightarrow> ok (cg_ok (src, Hs)) (exprConcat ge line endl l r s)"
  unfolding exprConcat_def Let_def
  by (auto intro!: cg_steps keeps ge push_exprs_ok dest!: concat_parts_size [of _ _ _ r])

lemma exprBin_ok:
  "size l < n \<Longrightarrow> size r < n \<Longrightarrow> cg_ok (src, Hs) s \<Longrightarrow> ok (cg_ok (src, Hs)) (exprBin pow ge line endl oper l r s)"
  unfolding exprBin_def by (simp add: expr_logic_ok exprCompare_ok exprConcat_ok expr_arith_ok)

lemma exprUn_ok: "size x < n \<Longrightarrow> cg_ok (src, Hs) s \<Longrightarrow> ok (cg_ok (src, Hs)) (exprUn ge line endl oper x s)"
  unfolding exprUn_def Let_def by (auto intro!: cg_steps keeps ge)

end

end
