(* ===== verification/CodegenSpec.thy ===== *)
theory CodegenSpec
  imports CodegenKeep
begin

text \<open>
  The statements and functions under the contract \<open>generators\<close>, its interpretation on the generator, and the
  properties of a compiled chunk.
\<close>

section \<open>Closures, tables and expressions\<close>

lemma on_fs_ok_at:
  assumes "cg_ok Hs s" and "\<And>H f. fs_ok (cg_protos s) H f \<Longrightarrow> fs_ok (cg_protos s) H (g f)"
  shows "ok (cg_ok Hs) (upd_fs g s)"
proof (cases "cg_chain s")
  case (Cons f fs)
  with assms show ?thesis by (auto simp: upd_fs_def on_fs_def cg_ok_def list_all2_Cons2)
qed (simp add: upd_fs_def on_fs_def)

lemma size_member: "x \<in> set xs \<Longrightarrow> size x \<le> size_list size xs"
  by (induction xs) auto

context generators begin

lemma exprFunc_ok:
  assumes "size fe < n" and "cg_ok (src, Hs) s"
  shows "ok (cg_ok (src, Hs)) (exprFunc gf fe s)"
proof (cases "gf fe s")
  case (Done sub s')
  have s': "cg_ok (src, Hs) s'" using gf [OF assms] Done by simp
  have sub: "last (cg_protos s') = sub" "cg_protos s' \<noteq> []" using gf_last [OF Done] by simp_all
  have "ok (cg_ok (src, Hs)) (upd_fs (register_sub (word_of_int (int (length (cg_protos s')) - 1)) sub) s')"
    by (rule on_fs_ok_at [OF s' register_sub_ok [where ps = "cg_protos s'", unfolded sub(1)]]) (use sub in simp_all)
  then show ?thesis
    unfolding exprFunc_def Done bindC.simps Let_def
    by (rule ok_bindC) (auto intro!: cg_steps keeps)
qed (use gf [OF assms] in \<open>simp_all add: exprFunc_def\<close>)

lemma table_entry_ok:
  "size key < n \<Longrightarrow> size val < n \<Longrightarrow> cg_ok (src, Hs) s \<Longrightarrow> ok (cg_ok (src, Hs)) (table_entry ge line_at tReg key val l1 l2 l3 s)"
  unfolding table_entry_def by (auto intro!: cg_steps keeps ge)

lemma table_item_ok:
  "size val < n \<Longrightarrow> cg_ok (src, Hs) s \<Longrightarrow> ok (cg_ok (src, Hs)) (table_item ge l1 l2 tReg spread val t s)"
  unfolding table_item_def Let_def by (auto intro!: cg_steps keeps ge)

lemma table_items_ok:
  "size_list size its < n \<Longrightarrow> cg_ok (src, Hs) s \<Longrightarrow> ok (cg_ok (src, Hs)) (table_items ge line_at l tReg lp lm i its t s)"
proof (induction its arbitrary: i t s)
  case (Cons it its)
  obtain key val l1 l2 l3 where it: "it = TableItem key val l1 l2 l3" by (cases it)
  show ?case unfolding it table_items.simps
    by (rule ok_bindC) (use Cons it in \<open>auto intro!: ok_bindC table_entry_ok table_item_ok split: option.split\<close>)
qed simp

lemma exprTable_ok:
  "size_list size its < n \<Longrightarrow> cg_ok (src, Hs) s \<Longrightarrow> ok (cg_ok (src, Hs)) (exprTable ge line l1 l2 its s)"
  unfolding exprTable_def Let_def by (auto intro!: cg_steps keeps table_items_ok)

lemma expr_code_ok:
  assumes "size e < Suc n" and s: "cg_ok (src, Hs) s"
  shows "ok (cg_ok (src, Hs)) (expr_code pow ge gf e s)"
  using assms unfolding expr_code_def
  by (cases e) (auto intro!: cg_steps keeps ge exprIndex_ok exprCall_ok exprMethodCall_ok exprBin_ok exprUn_ok
    exprFunc_ok exprTable_ok dest!: size_member)

lemma expr_list_ok:
  "x \<in> set xs \<Longrightarrow> size_list size xs < n \<Longrightarrow> cg_ok (src, Hs) s \<Longrightarrow> ok (cg_ok (src, Hs)) (ge x s)"
  by (auto intro!: ge dest!: size_member)

section \<open>Statements\<close>

lemma adjustExprList_ok:
  assumes "size_list size es < n" and "cg_ok (src, Hs) s"
  shows "ok (cg_ok (src, Hs)) (adjustExprList ge line es nWant ends s)"
proof -
  have m: "\<forall>x \<in> set es. size x < n" using assms(1) size_member by (meson le_less_trans)
  then show ?thesis using assms(2) unfolding adjustExprList_def Let_def
    by (auto intro!: cg_steps keeps ge push_exprs_ok dest: in_set_butlastD)
qed

lemma stmtLocal_ok:
  "size_list size es < n \<Longrightarrow> cg_ok (src, Hs) s \<Longrightarrow> ok (cg_ok (src, Hs)) (stmtLocal ge line ends endl names es s)"
  unfolding stmtLocal_def by (auto intro!: cg_steps keeps adjustExprList_ok)

lemma stmtLocalFunc_ok:
  "size fe < n \<Longrightarrow> cg_ok (src, Hs) s \<Longrightarrow> ok (cg_ok (src, Hs)) (stmtLocalFunc gf line name fe s)"
  unfolding stmtLocalFunc_def by (auto intro!: cg_steps keeps exprFunc_ok)

lemma storeVar_ok:
  "size lhs < n \<Longrightarrow> size rhs < n \<Longrightarrow> cg_ok (src, Hs) s \<Longrightarrow> ok (cg_ok (src, Hs)) (storeVar ge line l lhs rhs s)"
  unfolding storeVar_def Let_def
  by (cases lhs) (auto intro!: cg_steps keeps ge index_operands_ok)

lemma gen_targets_ok:
  "size_list size ts < n \<Longrightarrow> cg_ok (src, Hs) s \<Longrightarrow> ok (cg_ok (src, Hs)) (gen_targets ge line ts tgts s)"
proof (induction ts arbitrary: tgts s)
  case (Cons t ts)
  show ?case unfolding gen_targets.simps
    by (rule ok_bindC; cases t) (use Cons in \<open>auto intro!: cg_steps keeps index_operands_ok\<close>)
qed simp

lemma stmtAssign_ok:
  assumes "size_list size ts < n" and "size_list size es < n" and "cg_ok (src, Hs) s"
  shows "ok (cg_ok (src, Hs)) (stmtAssign ge line endl ends ts es s)"
proof -
  have "size (hd xs) < n" if "length xs = 1" "size_list size xs < n" for xs :: "expr list"
    using that by (cases xs) auto
  then show ?thesis using assms unfolding stmtAssign_def Let_def
    by (auto intro!: cg_steps keeps storeVar_ok gen_targets_ok adjustExprList_ok)
qed

lemma scoped_ok:
  assumes "cg_ok (src, Hs) s" and "\<And>s. cg_ok (src, Hs) s \<Longrightarrow> ok (cg_ok (src, Hs)) (m s)"
  shows "ok (cg_ok (src, Hs)) (scoped b line m s)"
  unfolding scoped_def using assms by (auto intro!: cg_steps keeps)

lemma if_clauses_ok:
  "size_list size cls < n \<Longrightarrow> cg_ok (src, Hs) s \<Longrightarrow> ok (cg_ok (src, Hs)) (if_clauses ge gb line b cls j s)"
proof (induction cls arbitrary: j s)
  case (Cons c cls)
  then show ?case by (cases c) (auto intro!: cg_steps keeps scoped_ok ge gb)
qed simp

lemma stmtIf_ok:
  "size_list size cls < n \<Longrightarrow> (\<And>b. els = Some b \<Longrightarrow> size b < n) \<Longrightarrow> cg_ok (src, Hs) s \<Longrightarrow>
   ok (cg_ok (src, Hs)) (stmtIf ge gb line cls els s)"
  unfolding stmtIf_def by (auto intro!: cg_steps keeps scoped_ok if_clauses_ok gb split: option.split)

lemma stmtWhile_ok:
  "size c < n \<Longrightarrow> size b < n \<Longrightarrow> cg_ok (src, Hs) s \<Longrightarrow> ok (cg_ok (src, Hs)) (stmtWhile ge gb line l c b s)"
  unfolding stmtWhile_def Let_def by (auto intro!: cg_steps keeps scoped_ok ge gb)

lemma stmtRepeat_ok:
  "size c < n \<Longrightarrow> size b < n \<Longrightarrow> cg_ok (src, Hs) s \<Longrightarrow> ok (cg_ok (src, Hs)) (stmtRepeat ge gb line b c l s)"
  unfolding stmtRepeat_def Let_def by (auto intro!: cg_steps keeps ge gb split: list.split)

lemma stmtNumFor_ok:
  "size ini < n \<Longrightarrow> size limit < n \<Longrightarrow> (\<And>x. stp = Some x \<Longrightarrow> size x < n) \<Longrightarrow> size b < n \<Longrightarrow> cg_ok (src, Hs) s \<Longrightarrow>
   ok (cg_ok (src, Hs)) (stmtNumFor ge gb line var ends doLine ini limit stp b s)"
  unfolding stmtNumFor_def for_step_def
  by (auto intro!: cg_steps keeps scoped_ok ge gb split: option.split prod.split)

lemma stmtGenFor_ok:
  "size_list size es < n \<Longrightarrow> size b < n \<Longrightarrow> cg_ok (src, Hs) s \<Longrightarrow>
   ok (cg_ok (src, Hs)) (stmtGenFor ge gb line names l1 l2 ends es b s)"
  unfolding stmtGenFor_def Let_def by (auto intro!: cg_steps keeps scoped_ok adjustExprList_ok gb)

lemma stmtCall_ok: "size call < n \<Longrightarrow> cg_ok (src, Hs) s \<Longrightarrow> ok (cg_ok (src, Hs)) (stmtCall ge line call s)"
  unfolding stmtCall_def by (auto intro!: cg_steps keeps ge)

lemma stmtFunc_ok:
  "Suc (Suc (size t + size fe)) < n \<Longrightarrow> cg_ok (src, Hs) s \<Longrightarrow> ok (cg_ok (src, Hs)) (stmtFunc ge line t fe s)"
  unfolding stmtFunc_def by (auto intro!: cg_steps keeps stmtAssign_ok)

lemma return_list_ok:
  assumes "size_list size es < n" and "es \<noteq> []" and "cg_ok (src, Hs) s"
  shows "ok (cg_ok (src, Hs)) (return_list ge line l ends es s)"
proof -
  have m: "\<forall>x \<in> set es. size x < n" using assms(1) size_member by (meson le_less_trans)
  then show ?thesis using assms(2,3) unfolding return_list_def Let_def
    by (auto intro!: cg_steps keeps ge push_exprs_ok dest: in_set_butlastD)
qed

lemma return_one_ok:
  assumes "size x < n" and "cg_ok (src, Hs) s"
  shows "ok (cg_ok (src, Hs)) (stmtReturn ge line ends [x] s)"
proof -
  have m: "\<forall>y \<in> set ys. size y < n" if "size_list size ys < n" for ys :: "expr list"
    using that size_member by (meson le_less_trans)
  show ?thesis
    using assms unfolding stmtReturn_def Let_def
    by (cases x) (auto intro!: cg_steps keeps ge exprCall_ok exprMethodCall_ok dest!: size_member)
qed

lemma stmtReturn_ok:
  assumes "size_list size es < n" and "cg_ok (src, Hs) s"
  shows "ok (cg_ok (src, Hs)) (stmtReturn ge line ends es s)"
proof (cases es)
  case Nil then show ?thesis using assms by (simp add: stmtReturn_def keeps)
next
  case (Cons x xs)
  show ?thesis
  proof (cases xs)
    case Nil then show ?thesis using assms Cons by (auto intro!: return_one_ok)
  next
    case (Cons y ys)
    then show ?thesis using assms \<open>es = x # xs\<close> return_list_ok [OF assms(1) _ assms(2)]
      by (simp add: stmtReturn_def Let_def)
  qed
qed

lemma stmt_code_ok:
  assumes "Suc (size st) < n" and "cg_ok (src, Hs) s"
  shows "ok (cg_ok (src, Hs)) (stmt_code ge gf gb st s)"
  using assms unfolding stmt_code_def
  by (cases st) (auto intro!: on_fs_ok keeps stmtLocal_ok stmtLocalFunc_ok stmtAssign_ok stmtCall_ok scoped_ok stmtIf_ok
    stmtWhile_ok stmtRepeat_ok stmtNumFor_ok stmtGenFor_ok stmtFunc_ok stmtReturn_ok gb)

lemma stmts_code_ok:
  "Suc (size_list size sts) < Suc n \<Longrightarrow> cg_ok (src, Hs) s \<Longrightarrow> ok (cg_ok (src, Hs)) (stmts_code ge gf gb sts s)"
  by (induction sts arbitrary: s) (auto intro!: ok_bindC stmt_code_ok keeps)

end

section \<open>Functions\<close>

lemma proto_ok_mono: "proto_ok ps p \<Longrightarrow> proto_ok (ps @ qs) p"
  by (auto simp: proto_ok_def subs_ok_def nth_append)

lemma fs_ok_mono: "fs_ok ps H f \<Longrightarrow> fs_ok (ps @ qs) H f"
  by (simp add: fs_ok_def proto_ok_mono)

text \<open>A step on the innermost function that also changes what is known of it.\<close>

definition inner_ok :: "(funcState \<Rightarrow> bool) \<Rightarrow> string \<times> (string \<times> u32 \<times> u32 \<times> u8 \<times> bool) list \<Rightarrow> cgen \<Rightarrow> bool" where
  "inner_ok Q Hs s \<longleftrightarrow> cg_ok Hs s \<and> cg_chain s \<noteq> [] \<and> Q (hd (cg_chain s))"

lemma on_fs_inner:
  assumes s: "cg_ok Hs s" "cg_chain s \<noteq> [] \<Longrightarrow> Q (hd (cg_chain s))"
    and m: "\<And>ps H f. fs_ok ps H f \<Longrightarrow> Q f \<Longrightarrow> ok (\<lambda>f. fs_ok ps H f \<and> R f) (m f)"
  shows "ok (inner_ok R Hs) (on_fs m s)"
proof (cases "cg_chain s")
  case (Cons f fs)
  with s obtain H Hs' where H: "snd Hs = H # Hs'" "fs_ok (cg_protos s) H f" "list_all2 (fs_ok (cg_protos s)) Hs' fs"
    by (auto simp: cg_ok_def list_all2_Cons2)
  have "Q f" using s(2) Cons by simp
  show ?thesis
    unfolding on_fs_def Cons list.case
    by (rule ok_bind [OF m [OF H(2) \<open>Q f\<close>]]) (use s H in \<open>simp add: cg_ok_def inner_ok_def\<close>)
qed (simp add: on_fs_def)

definition ends :: "funcState \<Rightarrow> bool" where "ends f \<longleftrightarrow> ends_ok (fn_proto f)"

lemma emit_ends:
  assumes "fs_ok ps H f"
  shows "ok (\<lambda>f. fs_ok ps H f \<and> ends f) (emitABC line OP_RETURN 0 1 0 f)"
proof (cases "emitABC line OP_RETURN 0 1 0 f")
  case (Done pc f')
  have "ends f'" using Done
    by (cases "dischargeJpc f") (auto simp: emitABC_def emit_def ends_def ends_ok_def upd_proto_def)
  then show ?thesis using emitABC_ok [OF assms, of line OP_RETURN 0 1 0] Done by simp
qed (use emitABC_ok [OF assms, of line OP_RETURN 0 1 0] in simp_all)

lemma close_vars_proto: "ok (\<lambda>g. fn_proto g = fn_proto f) (close_vars n f)"
proof (induction n arbitrary: f)
  case (Suc n)
  show ?case using Suc [of "f\<lparr>fn_nactvar := fn_nactvar f - 1, fn_locvars := ls\<rparr>" for ls] by (simp add: Let_def)
qed simp

lemma removeVars_ends:
  assumes "fs_ok ps H f" and "ends f"
  shows "ok (\<lambda>f. fs_ok ps H f \<and> ends f) (removeVars level f)"
  using removeVars_ok [OF assms(1), of level] close_vars_proto [of f "nat (int (fn_nactvar f) - max 0 level)"] assms(2)
  by (cases "removeVars level f") (simp_all add: removeVars_def ends_def)

definition finished :: "funcState \<Rightarrow> bool" where
  "finished f \<longleftrightarrow> ends f \<and> 2 \<le> uint (pr_MaxStack (fn_proto f))"

lemma finish_ok: "fs_ok ps H f \<Longrightarrow> ends f \<Longrightarrow> fs_ok ps H (finish_proto f) \<and> finished (finish_proto f)"
  by (auto simp: fs_ok_def finish_proto_def upd_proto_def proto_ok_def tables_ok_def pool_ok_def subs_ok_def head_of_def
      finished_def ends_def ends_ok_def MaxStack_def word_less_def word_le_def)

lemma open_frame_ok: "fs_ok ps H f \<Longrightarrow> fs_ok ps H (open_frame f)"
proof -
  assume f: "fs_ok ps H f"
  then have "int (fn_nactvar f) < MaxStack" by (simp add: fs_ok_def MaxLocVars_def MaxStack_def)
  then show ?thesis using f fs_ok_maxstack [of ps H "f\<lparr>fn_freereg := int (fn_nactvar f)\<rparr>" "int (fn_nactvar f)"]
    by (simp add: open_frame_def Let_def)
qed

text \<open>What a function literal gives its proto.\<close>

definition func_head :: "string \<Rightarrow> bool \<Rightarrow> funcexpr \<Rightarrow> string \<times> u32 \<times> u32 \<times> u8 \<times> bool" where
  "func_head src is_main fe =
     (src, (if is_main then 0 else fe_Line fe), fe_EndLine fe, word_of_nat (length (fe_Params fe)), fe_IsVararg fe)"

lemma open_func_ok: "fs_ok ps (func_head src is_main fe) (open_func src is_main fe)"
  by (simp add: open_func_def newFuncState_def empty_proto_def Let_def fs_ok_def proto_ok_def tables_ok_def pool_ok_def
      subs_ok_def head_of_def func_head_def upd_proto_def MaxBx_val MaxStack_def MaxUpvalues_def MaxLocVars_def
      const_keys_def)

lemma size_fe_body: "size (fe_Body fe) < size fe" by (cases fe) simp

text \<open>The analysis marks the proto and leaves the rest.\<close>

definition kept :: "proto \<Rightarrow> proto \<Rightarrow> bool" where
  "kept p p' \<longleftrightarrow> (\<exists>c r. p' = p\<lparr>pr_Compilability := c, pr_CompReasons := r\<rparr>)"

lemma kept_done: "kept p p' \<Longrightarrow> proto_done src ps p \<Longrightarrow> proto_done src ps p'"
  by (auto simp: kept_def proto_done_def proto_ok_def tables_ok_def pool_ok_def subs_ok_def ends_ok_def)

lemma done_mono: "i \<le> length ps \<Longrightarrow> proto_done src (take i ps) p = proto_done src (take i (ps @ qs)) p"
  by simp

context generators begin

lemma func_body_ok:
  assumes "size fe < Suc n" and "cg_ok (src, Hs) s"
  shows "ok (inner_ok finished (src, Hs)) (func_body gb fe s)"
proof -
  have tail: "ok (inner_ok finished (src, Hs)) (bindC (emit_ABC l OP_RETURN 0 1 0 s) (\<lambda>_ s.
      bindC (on_fs (removeVars 0) s) (\<lambda>_ s. upd_fs finish_proto s)))" if s: "cg_ok (src, Hs) s" for l s
  proof (rule ok_bind [where P = "inner_ok ends (src, Hs)"])
    show "ok (inner_ok ends (src, Hs)) (emit_ABC l OP_RETURN 0 1 0 s)"
      unfolding emit_ABC_def
      by (rule ok_bind [OF on_fs_inner [where Q = "\<lambda>_. True", OF s]]) (simp_all add: emit_ends)
  next
    fix x :: unit and s assume s: "inner_ok ends (src, Hs) s"
    show "ok (inner_ok finished (src, Hs)) (bindC (on_fs (removeVars 0) s) (\<lambda>_ s. upd_fs finish_proto s))"
    proof (rule ok_bind [where P = "inner_ok ends (src, Hs)"])
      show "ok (inner_ok ends (src, Hs)) (on_fs (removeVars 0) s)"
        by (rule on_fs_inner [where Q = ends]) (use s in \<open>simp_all add: inner_ok_def removeVars_ends\<close>)
    next
      fix u :: unit and s assume "inner_ok ends (src, Hs) s"
      then show "ok (inner_ok finished (src, Hs)) (upd_fs finish_proto s)"
        unfolding upd_fs_def by (intro on_fs_inner [where Q = ends]) (simp_all add: inner_ok_def finish_ok)
    qed
  qed
  have "size (fe_Body fe) < n" using assms(1) size_fe_body [of fe] by simp
  then show ?thesis
    using assms(2) unfolding func_body_def
    by (intro ok_bind [where P = "cg_ok (src, Hs)"] tail)
      (auto intro!: cg_steps keeps gb open_frame_ok)
qed

lemma compileFunc_head:
  assumes fe: "size fe < Suc n" and s: "cg_ok (src, Hs) s" and env: "ge_source env = src"
    and an: "\<And>p outer p'. ge_analyze env fe p outer = Some p' \<Longrightarrow> kept p p'"
  shows "ok (\<lambda>s'. cg_ok (src, Hs) s' \<and> head_of (last (cg_protos s')) = func_head src (cg_chain s = []) fe)
    (compileFunc env gb fe s)"
proof -
  let ?P = "\<lambda>s'. cg_ok (src, Hs) s' \<and> head_of (last (cg_protos s')) = func_head src (cg_chain s = []) fe"
  let ?H = "func_head src (cg_chain s = []) fe"
  let ?s = "s\<lparr>cg_chain := open_func (ge_source env) (cg_chain s = []) fe # cg_chain s\<rparr>"
  have "cg_ok (src, ?H # Hs) ?s" using s open_func_ok by (auto simp: cg_ok_def env)
  from func_body_ok [OF fe this] show ?thesis
    unfolding compileFunc_def Let_def
  proof (rule ok_bind)
    fix x s' assume s': "inner_ok finished (src, ?H # Hs) s'"
    then obtain f outer where ch: "cg_chain s' = f # outer" by (cases "cg_chain s'") (auto simp: inner_ok_def)
    show "ok ?P (case cg_chain s' of [] \<Rightarrow> Panic | f # outer \<Rightarrow>
        (case ge_analyze env fe (fn_proto f) outer of None \<Rightarrow> Panic
         | Some p \<Rightarrow> Done p (s'\<lparr>cg_protos := cg_protos s' @ [p], cg_chain := outer\<rparr>)))"
    proof (cases "ge_analyze env fe (fn_proto f) outer")
      case (Some p)
      have f: "fs_ok (cg_protos s') ?H f" "finished f" "list_all2 (fs_ok (cg_protos s')) Hs outer"
        using s' ch by (auto simp: inner_ok_def cg_ok_def)
      then have "proto_done src (cg_protos s') (fn_proto f)"
        by (auto simp: fs_ok_def proto_done_def finished_def ends_def head_of_def func_head_def)
      then have p: "proto_done src (cg_protos s') p" using kept_done an [OF Some] by blast
      have head: "head_of p = func_head src (cg_chain s = []) fe" using an [OF Some] f(1) by (auto simp: kept_def head_of_def fs_ok_def)
      have "list_all2 (fs_ok (cg_protos s' @ [p])) Hs outer"
        using f(3) by (rule list_all2_mono) (rule fs_ok_mono)
      moreover have "proto_done src (take i (cg_protos s' @ [p])) ((cg_protos s' @ [p]) ! i)" if "i < length (cg_protos s' @ [p])" for i
        using that p s' by (cases "i = length (cg_protos s')") (auto simp: inner_ok_def cg_ok_def nth_append)
      ultimately show ?thesis using ch Some head by (simp add: cg_ok_def)
    qed (simp add: ch)
  qed
qed

lemma compileFunc_ok:
  assumes "size fe < Suc n" "cg_ok (src, Hs) s" "ge_source env = src"
    and "\<And>p outer p'. ge_analyze env fe p outer = Some p' \<Longrightarrow> kept p p'"
  shows "ok (cg_ok (src, Hs)) (compileFunc env gb fe s)"
  using compileFunc_head [OF assms] by (cases "compileFunc env gb fe s") simp_all

end

lemma compileFunc_last: "compileFunc env gb fe s = Done p s' \<Longrightarrow> cg_protos s' \<noteq> [] \<and> last (cg_protos s') = p"
  unfolding compileFunc_def Let_def
  by (cases "func_body gb fe (s\<lparr>cg_chain := open_func (ge_source env) (cg_chain s = []) fe # cg_chain s\<rparr>)")
    (auto split: list.splits option.splits)

section \<open>The generator\<close>

text \<open>What the build does with a finished proto: only the two fields of the verdict.\<close>

locale analysis_hook =
  fixes env :: genEnv
  assumes marks: "ge_analyze env fe p outer = Some p' \<Longrightarrow> kept p p'"
begin

lemma gens: "generators (gen_expr env n) (gen_func env n) (gen_block env n) (ge_source env) n"
proof (induction n)
  case 0 show ?case by (rule generators.intro) simp_all
next
  case (Suc n)
  show ?case
  proof (rule generators.intro, goal_cases)
    case (1 e Hs s) then show ?case using generators.expr_code_ok [OF Suc] by simp
  next
    case (2 fe Hs s) then show ?case using generators.compileFunc_ok [OF Suc] marks by simp
  next
    case (3 fe s p s') then show ?case using compileFunc_last by simp
  next
    case (4 b Hs s)
    then have "Suc (size_list size (b_Stmts b)) < Suc n" by (cases b) simp
    then show ?case using 4(2) generators.stmts_code_ok [OF Suc] by simp
  qed
qed

end

end
