(* ===== verification/CompileSpec.thy ===== *)
theory CompileSpec
  imports CodegenSpec AnalyzerSpec BridgeLive
begin

text \<open>
  \<open>Compile\<close> in the two builds, with and without the profiler: it returns, and what it returns is well formed.
\<close>

section \<open>The two builds\<close>

definition plain_env :: "string \<Rightarrow> (f64 \<Rightarrow> f64 \<Rightarrow> f64) \<Rightarrow> genEnv" where
  "plain_env source pow = \<lparr>ge_source = source, ge_pow = pow, ge_analyze = analyze_off\<rparr>"

definition profile_env :: "string \<Rightarrow> (f64 \<Rightarrow> f64 \<Rightarrow> f64) \<Rightarrow> genEnv" where
  "profile_env source pow =
     \<lparr>ge_source = source, ge_pow = pow, ge_analyze = analyze_on analysis_fuel (NewBridge :: nat bridge)\<rparr>"

lemma kept_refl: "kept p p"
  unfolding kept_def by (rule exI [of _ "pr_Compilability p"], rule exI [of _ "pr_CompReasons p"]) (cases p; simp)

interpretation plain: analysis_hook "plain_env source pow" for source pow
  by unfold_locales (simp add: plain_env_def analyze_off_def kept_refl)

interpretation profile: analysis_hook "profile_env source pow" for source pow
  by unfold_locales
    (auto simp: profile_env_def analyze_on_def AnalyzeProtoWithOuter_def SetCompilability_def kept_def Let_def
      split: prod.splits option.splits bind_splits if_splits)

interpretation plain_gens: generators "gen_expr (plain_env source pow) n" "gen_func (plain_env source pow) n"
  "gen_block (plain_env source pow) n" source n for source pow n
  using plain.gens [of source pow n] by (simp add: plain_env_def)

interpretation profile_gens: generators "gen_expr (profile_env source pow) n" "gen_func (profile_env source pow) n"
  "gen_block (profile_env source pow) n" source n for source pow n
  using profile.gens [of source pow n] by (simp add: profile_env_def)

text \<open>In the profiler's build the analysis of a finished function has enough fuel and does not panic.\<close>

lemma analysis_never_fails:
  assumes "fs_ok ps (func_head source is_main fe) f"
  shows "ge_analyze (profile_env source pow) fe (fn_proto f) outer \<noteq> None"
proof -
  obtain locals aliases where names: "outer_names outer = (locals, aliases)" by (cases "outer_names outer")
  have "pr_IsVararg (fn_proto f) = fe_IsVararg fe" using assms by (simp add: fs_ok_def head_of_def func_head_def)
  moreover obtain v where "walkBlock (analysis_fuel fe locals) (fe_Body fe) (outer_visitor fe locals aliases) = Some v"
    using analysis_walks [of fe locals "analysis_fuel fe locals" aliases] by (auto simp: walked_def)
  ultimately show ?thesis
    by (simp add: profile_env_def analyze_on_def names AnalyzeProtoWithOuter_def Let_def SetCompilability_def split: prod.split)
qed

section \<open>A compiled chunk\<close>

lemma no_slot_ok: "slot_ok ins no_slot"
  by (simp add: slot_ok_def no_slot_def ICKindMegamorphic_def)

lemma done_ic: "proto_done src ps p \<Longrightarrow> ic_ok p"
  by (simp add: proto_done_def proto_ok_def tables_ok_def ic_ok_def list_all2_conv_all_nth no_slot_ok)

definition empty_cgen :: cgen where "empty_cgen = \<lparr>cg_protos = [], cg_chain = []\<rparr>"

lemma empty_ok: "cg_ok (src, []) empty_cgen"
  by (simp add: cg_ok_def empty_cgen_def)

lemma main_ok:
  assumes "analysis_hook env"
  shows "ok (\<lambda>s. cg_ok (ge_source env, []) s \<and> head_of (last (cg_protos s)) = (ge_source env, 0, 0, 0, True))
    (gen_func env (size (main_func b) + 1) (main_func b) empty_cgen)"
  using generators.compileFunc_head [OF analysis_hook.gens [OF assms, of "size (main_func b)"], of "main_func b" "[]"
      empty_cgen env] empty_ok analysis_hook.marks [OF assms]
  by (simp add: main_func_def func_head_def empty_cgen_def)

lemma Compile_ok:
  assumes "analysis_hook env"
  shows "case Compile env b of
      Done (main, ps) _ \<Rightarrow> ps \<noteq> [] \<and> main = int (length ps) - 1 \<and>
        (\<forall>i < length ps. proto_done (ge_source env) (take i ps) (ps ! i)) \<and>
        head_of (last ps) = (ge_source env, 0, 0, 0, True)
    | NoFuel \<Rightarrow> False | _ \<Rightarrow> True"
proof (cases "gen_func env (size (main_func b) + 1) (main_func b) empty_cgen")
  case (Done p s)
  then have "cg_protos s \<noteq> []" using compileFunc_last by simp
  then show ?thesis using main_ok [OF assms, of b] Done
    by (simp add: Compile_def empty_cgen_def [symmetric] cg_ok_def)
qed (use main_ok [OF assms, of b] in \<open>simp_all add: Compile_def empty_cgen_def [symmetric]\<close>)

lemma builds: "env \<in> {plain_env source pow, profile_env source pow} \<Longrightarrow> analysis_hook env \<and> ge_source env = source"
  using plain.analysis_hook_axioms profile.analysis_hook_axioms by (auto simp: plain_env_def profile_env_def)

text \<open>The recursion of the code generator on a tree never runs out of the fuel of the size of the tree, in both builds. (A
  walk along a jump list that does not end is another result, \<open>Diverge\<close>.)\<close>

lemma Compile_enough_fuel:
  "Compile (plain_env source pow) b \<noteq> NoFuel \<and> Compile (profile_env source pow) b \<noteq> NoFuel"
  using Compile_ok [OF plain.analysis_hook_axioms, of source pow b] Compile_ok [OF profile.analysis_hook_axioms, of source pow b]
  by auto

text \<open>C10. What \<open>Compile\<close> returns is well formed. The main function is the last proto, a vararg function without a line
  or parameters. Every proto has one line and one empty cache slot per instruction, ends in a RETURN, asks for at least
  2 and at most 249 registers, has at most 60 upvalues and 262144 constants, no constant twice and every string
  constant with a valid index; its nested functions are protos registered before it, with their upvalue counts. So it
  meets what the tier bridge asks of a cache.\<close>

theorem Compile_wellformed:
  assumes "env \<in> {plain_env source pow, profile_env source pow}" and "Compile env b = Done (main, ps) u"
  shows "ps \<noteq> [] \<and> main = int (length ps) - 1 \<and> head_of (last ps) = (source, 0, 0, 0, True) \<and>
    (\<forall>i < length ps. proto_done source (take i ps) (ps ! i) \<and> ic_ok (ps ! i))"
  using Compile_ok [of env b] builds [OF assms(1)] assms(2) done_ic by auto

definition no_pow :: "f64 \<Rightarrow> f64 \<Rightarrow> f64" where "no_pow a b = 0"

text \<open>\<open>local x return function() return x end\<close>\<close>

definition closure_chunk :: block where
  "closure_chunk = Block [LocalStmt 1 [] 1 [''x''] [], ReturnStmt 1 [1]
     [FuncE (FuncExpr 1 1 [] False False (Block [ReturnStmt 1 [1] [NameExpr 1 ''x'']] 1) 1)]] 1"

definition compiled :: "genEnv \<Rightarrow> block \<Rightarrow> instruction list list" where
  "compiled env b = (case Compile env b of Done (_, ps) _ \<Rightarrow> map pr_Code ps | _ \<Rightarrow> [])"

lemma closure_code:
  "compiled (plain_env ''=s'' no_pow) closure_chunk =
    [[EncodeABC OP_GETUPVAL 0 0 0, EncodeABC OP_RETURN 0 2 0, EncodeABC OP_RETURN 0 1 0],
     [EncodeABC OP_LOADNIL 0 0 0, EncodeABx OP_CLOSURE 1 0, EncodeABC OP_MOVE 0 0 0, EncodeABC OP_RETURN 1 2 0,
      EncodeABC OP_RETURN 0 1 0]]"
  by code_simp

theorem Compile_wellformed_witness:
  "\<exists>main ps u. Compile (plain_env ''=s'' no_pow) closure_chunk = Done (main, ps) u \<and> main = int (length ps) - 1 \<and>
     length ps = 2 \<and> (\<forall>i < length ps. proto_done ''=s'' (take i ps) (ps ! i) \<and> ic_ok (ps ! i))"
proof -
  have "compiled (plain_env ''=s'' no_pow) closure_chunk \<noteq> []" unfolding closure_code by simp
  then obtain main ps u where c: "Compile (plain_env ''=s'' no_pow) closure_chunk = Done (main, ps) u"
    by (auto simp: compiled_def split: cresult.splits)
  moreover have "length ps = 2" using closure_code c by (auto simp: compiled_def map_eq_Cons_conv)
  ultimately show ?thesis using Compile_wellformed [of "plain_env ''=s'' no_pow" "''=s''" no_pow, OF _ c] by auto
qed

end
